(* ===== verification/Platform_Prelude.thy ===== *)
theory Platform_Prelude
  imports Complex_Main
begin

text \<open>
  Shared vocabulary of the development: identifiers and clocks, the string and UUID
  conventions of the Python runtime, tables as lists of rows with the two statements the
  repositories issue (a conditional \<open>UPDATE\<close> and a lookup by key), and the generic
  interfaces (locales) that several components implement: a compare-and-set, an
  invariant-preserving step, and a fixed-window counter.

  Conventions. A UUID is the integer it wraps, a clock reading is a rational number of
  seconds (exact arithmetic, no float rounding), a table is a list of rows in insertion
  order, and an exception is the left summand of a sum type.
\<close>

named_theorems table_simps \<open>effect of repository statements on tables\<close>
named_theorems platform_intros \<open>introduction rules for component invariants\<close>

type_synonym uuid = nat
type_synonym time = rat

section \<open>Tables\<close>

text \<open>
  \<open>update_where P f rows\<close> is \<open>UPDATE t SET f WHERE P\<close>; \<open>row_count P rows\<close> is the
  \<open>rowcount\<close> it reports; \<open>get_by k i rows\<close> is \<open>SELECT ... WHERE k = i\<close> read with
  \<open>scalar_one_or_none()\<close> on a key column.
\<close>

definition update_where :: "('r \<Rightarrow> bool) \<Rightarrow> ('r \<Rightarrow> 'r) \<Rightarrow> 'r list \<Rightarrow> 'r list" where
  "update_where P f rows = map (\<lambda>r. if P r then f r else r) rows"

definition row_count :: "('r \<Rightarrow> bool) \<Rightarrow> 'r list \<Rightarrow> nat" where
  "row_count P rows = length (filter P rows)"

definition get_by :: "('r \<Rightarrow> 'k) \<Rightarrow> 'k \<Rightarrow> 'r list \<Rightarrow> 'r option" where
  "get_by k i rows = find (\<lambda>r. k r = i) rows"

lemma update_where_Nil [simp]: "update_where P f [] = []"
  by (simp add: update_where_def)

lemma update_where_Cons [simp]:
  "update_where P f (r # rs) = (if P r then f r else r) # update_where P f rs"
  by (simp add: update_where_def)

lemma update_where_append [table_simps]:
  "update_where P f (xs @ ys) = update_where P f xs @ update_where P f ys"
  by (simp add: update_where_def)

lemma length_update_where [simp]: "length (update_where P f rows) = length rows"
  by (simp add: update_where_def)

lemma set_update_where:
  "set (update_where P f rows) = (\<lambda>r. if P r then f r else r) ` set rows"
  by (simp add: update_where_def)

lemma update_where_none:
  "(\<And>r. r \<in> set rows \<Longrightarrow> \<not> P r) \<Longrightarrow> update_where P f rows = rows"
  by (induction rows) auto

lemma map_update_where:
  "(\<And>r. g (f r) = g r) \<Longrightarrow> map g (update_where P f rows) = map g rows"
  by (simp add: update_where_def)

lemma get_by_Nil [simp]: "get_by k i [] = None"
  by (simp add: get_by_def)

lemma get_by_Cons [simp]:
  "get_by k i (r # rs) = (if k r = i then Some r else get_by k i rs)"
  by (simp add: get_by_def)

lemma get_by_Some_iff:
  "distinct (map k rows) \<Longrightarrow> get_by k i rows = Some r \<longleftrightarrow> r \<in> set rows \<and> k r = i"
  by (induction rows) (auto simp: image_iff)

lemma get_by_SomeD: "get_by k i rows = Some r \<Longrightarrow> r \<in> set rows \<and> k r = i"
  by (induction rows) (auto split: if_splits)

lemma get_by_None_iff: "get_by k i rows = None \<longleftrightarrow> i \<notin> k ` set rows"
  by (induction rows) auto

lemma get_by_append:
  "get_by k i (xs @ ys) = (case get_by k i xs of None \<Rightarrow> get_by k i ys | Some r \<Rightarrow> Some r)"
  by (induction xs) auto

text \<open>A conditional update that keeps the key commutes with the lookup.\<close>

lemma get_by_update_where:
  assumes "\<And>r. k (f r) = k r"
  shows "get_by k i (update_where P f rows) =
    map_option (\<lambda>r. if P r then f r else r) (get_by k i rows)"
  by (induction rows) (auto simp: assms)

lemma length_filter_mono:
  "(\<And>x. P x \<Longrightarrow> Q x) \<Longrightarrow> length (filter P xs) \<le> length (filter Q xs)"
  by (induction xs) (auto simp: le_SucI)

lemma get_by_filter:
  assumes "distinct (map k rows)"
  shows "get_by k i (filter P rows) =
    (case get_by k i rows of None \<Rightarrow> None | Some r \<Rightarrow> if P r then Some r else None)"
  using assms
proof (induction rows)
  case (Cons r rs)
  then have "k r = i \<Longrightarrow> get_by k i rs = None" by (auto simp: get_by_None_iff)
  with Cons show ?case by auto
qed simp

lemma row_count_zero_iff: "row_count P rows = 0 \<longleftrightarrow> (\<forall>r \<in> set rows. \<not> P r)"
  by (simp add: row_count_def filter_empty_conv)

text \<open>A statement keyed by a primary key touches at most one row.\<close>

lemma row_count_key:
  assumes "distinct (map k rows)"
  shows "row_count (\<lambda>r. k r = i \<and> P r) rows =
    (case get_by k i rows of None \<Rightarrow> 0 | Some r \<Rightarrow> if P r then 1 else 0)"
  using assms
proof (induction rows)
  case Nil
  then show ?case by (simp add: row_count_def)
next
  case (Cons r rs)
  show ?case
  proof (cases "k r = i")
    case True
    with Cons.prems have "get_by k i rs = None" by (auto simp: get_by_None_iff)
    with Cons True show ?thesis by (simp add: row_count_def)
  next
    case False
    with Cons show ?thesis by (simp add: row_count_def)
  qed
qed

subsection \<open>Ordering by several columns\<close>

text \<open>
  \<open>ORDER BY f\<close> on rows already ordered by \<open>P\<close> gives the lexicographic order: the sort is stable.
\<close>

lemma sorted_wrt_insort_key:
  fixes f :: "'a \<Rightarrow> 'b :: linorder" and P :: "'a \<Rightarrow> 'a \<Rightarrow> bool"
  defines "R \<equiv> \<lambda>a b. f a < f b \<or> f a = f b \<and> P a b"
  shows "sorted_wrt R ys \<Longrightarrow> \<forall>y \<in> set ys. P x y \<Longrightarrow> sorted_wrt R (insort_key f x ys)"
proof (induction ys)
  case (Cons y ys)
  show ?case
  proof (cases "f x \<le> f y")
    case True
    have "R x z" if "z \<in> set (y # ys)" for z
      using that True Cons.prems by (fastforce simp: R_def)
    then show ?thesis using Cons.prems(1) True by simp
  next
    case False
    then have "R y x" by (simp add: R_def not_le)
    then show ?thesis using Cons False by (auto simp: set_insort_key)
  qed
qed simp

lemma sorted_wrt_sort_key:
  fixes f :: "'a \<Rightarrow> 'b :: linorder"
  shows "sorted_wrt P xs \<Longrightarrow> sorted_wrt (\<lambda>a b. f a < f b \<or> f a = f b \<and> P a b) (sort_key f xs)"
  by (induction xs) (simp_all add: sorted_wrt_insort_key)

lemma sorted_wrt_filter_after:
  assumes "sorted_wrt R xs" "\<And>a b. R a b \<Longrightarrow> \<not> R b a" "\<And>a. \<not> R a a" "m < length xs"
  shows "filter (R (xs ! m)) xs = drop (Suc m) xs"
proof -
  have "\<not> R (xs ! m) x" if x: "x \<in> set (take (Suc m) xs)" for x
  proof -
    obtain n where n: "n \<le> m" "x = xs ! n" using x assms(4) by (auto simp: in_set_conv_nth less_Suc_eq_le)
    then show ?thesis
      using assms sorted_wrt_nth_less [OF assms(1), of n m] by (cases "n = m") auto
  qed
  then have "filter (R (xs ! m)) (take (Suc m) xs) = []" by (simp add: filter_empty_conv)
  moreover have "filter (R (xs ! m)) (drop (Suc m) xs) = drop (Suc m) xs"
    using assms(4) sorted_wrt_nth_less [OF assms(1)] by (auto simp: filter_id_conv in_set_conv_nth)
  ultimately show ?thesis
    using filter_append [of "R (xs ! m)" "take (Suc m) xs" "drop (Suc m) xs"] by simp
qed

section \<open>Numbers and identifiers as text\<close>

definition digit_char :: "nat \<Rightarrow> char" where
  "digit_char d = ''0123456789abcdef'' ! d"

fun show_nat :: "nat \<Rightarrow> string" where
  "show_nat n = (if n < 10 then [digit_char n] else show_nat (n div 10) @ [digit_char (n mod 10)])"

declare show_nat.simps [simp del]

definition show_int :: "int \<Rightarrow> string" where
  "show_int i = (if i < 0 then ''-'' @ show_nat (nat (- i)) else show_nat (nat i))"

lemma digit_char_inject: "d < 10 \<Longrightarrow> e < 10 \<Longrightarrow> digit_char d = digit_char e \<longleftrightarrow> d = e"
  unfolding digit_char_def by (subst nth_eq_iff_index_eq) auto

lemma show_nat_inject: "show_nat m = show_nat n \<longleftrightarrow> m = n"
proof (induction m arbitrary: n rule: show_nat.induct)
  case (1 m)
  show ?case
  proof (cases "m < 10 \<or> n < 10")
    case True
    have ne: "show_nat k \<noteq> []" for k by (subst show_nat.simps) simp
    then have "n < 10 \<and> m < 10 \<or> show_nat m \<noteq> show_nat n"
      using True by (subst (1 2) show_nat.simps) (auto simp: Cons_eq_append_conv append_eq_Cons_conv)
    moreover have "m < 10 \<Longrightarrow> n < 10 \<Longrightarrow> show_nat m = show_nat n \<longleftrightarrow> m = n"
      by (subst (1 2) show_nat.simps) (simp add: digit_char_inject)
    ultimately show ?thesis using True by auto
  next
    case False
    then have "show_nat m = show_nat n \<longleftrightarrow> m div 10 = n div 10 \<and> m mod 10 = n mod 10"
      using 1 by (subst (1 2) show_nat.simps) (simp add: digit_char_inject)
    then show ?thesis by (metis div_mult_mod_eq)
  qed
qed

lemma show_nat_plain: "CHR ''-'' \<notin> set (show_nat n)"
proof (induction n rule: show_nat.induct)
  case (1 n)
  have digit: "digit_char d \<noteq> CHR ''-''" if "d < 10" for d
    using nth_mem [of d "''0123456789abcdef''"] that by (auto simp: digit_char_def)
  show ?case using 1 digit [of n] digit [of "n mod 10"] by (subst show_nat.simps) auto
qed

lemma show_int_inject: "show_int i = show_int k \<longleftrightarrow> i = k"
  using show_nat_plain [of "nat i"] show_nat_plain [of "nat k"]
  by (auto simp: show_int_def show_nat_inject) (metis list.set_intros(1))+

text \<open>Hexadecimal with a fixed number of digits, as \<open>'%032x' % n\<close> prints it.\<close>

fun hex_fixed :: "nat \<Rightarrow> nat \<Rightarrow> string" where
  "hex_fixed 0 n = []"
| "hex_fixed (Suc k) n = hex_fixed k (n div 16) @ [digit_char (n mod 16)]"

text \<open>\<open>str(uuid)\<close>: 32 hexadecimal digits grouped 8-4-4-4-12.\<close>

definition uuid_str :: "uuid \<Rightarrow> string" where
  "uuid_str u =
     (let h = hex_fixed 32 u
      in take 8 h @ ''-'' @ take 4 (drop 8 h) @ ''-'' @ take 4 (drop 12 h) @ ''-''
         @ take 4 (drop 16 h) @ ''-'' @ drop 20 h)"

definition hex_chars :: "char set" where
  "hex_chars = set ''0123456789abcdef''"

definition hex_val :: "char \<Rightarrow> nat option" where
  "hex_val c = map_of (zip ''0123456789abcdefABCDEF'' ([0..<16] @ [10..<16])) c"

text \<open>
  Python's \<open>int(text, 16)\<close>: digits with single underscores between them. \<open>hex_run acc d s\<close>
  reads \<open>s\<close> with value \<open>acc\<close> so far; \<open>d\<close> says that an underscore may come next.
\<close>

fun hex_run :: "nat \<Rightarrow> bool \<Rightarrow> string \<Rightarrow> nat option" where
  "hex_run acc d [] = (if d then Some acc else None)"
| "hex_run acc d (c # cs) =
     (if c = CHR ''_'' then (if d then hex_run acc False cs else None)
      else case hex_val c of None \<Rightarrow> None | Some v \<Rightarrow> hex_run (16 * acc + v) True cs)"

definition py_space :: "char \<Rightarrow> bool" where
  "py_space c \<longleftrightarrow> (let n = of_char c :: nat in 9 \<le> n \<and> n \<le> 13 \<or> 28 \<le> n \<and> n \<le> 32 \<or> n = 133 \<or> n = 160)"

definition strip :: "(char \<Rightarrow> bool) \<Rightarrow> string \<Rightarrow> string" where
  "strip P s = rev (dropWhile P (rev (dropWhile P s)))"

definition py_int16 :: "string \<Rightarrow> int option" where
  "py_int16 text =
     (let s = strip py_space text;
          neg = (s \<noteq> [] \<and> hd s = CHR ''-'');
          body = (if s \<noteq> [] \<and> (hd s = CHR ''-'' \<or> hd s = CHR ''+'') then tl s else s);
          prefixed = (take 2 body = ''0x'' \<or> take 2 body = ''0X'');
          digits = (if prefixed then drop 2 body else body);
          value = (if digits = [] then None else hex_run 0 prefixed digits)
      in map_option (\<lambda>v. if neg then - int v else int v) value)"

text \<open>Python's \<open>repr\<close> of a text (of the characters up to 255) and of a list of texts.\<close>

definition repr_char :: "char \<Rightarrow> char \<Rightarrow> string" where
  "repr_char q c =
     (let n = of_char c :: nat
      in if c = q \<or> c = CHR 0x5C then [CHR 0x5C, c]
         else if n = 10 then [CHR 0x5C, CHR ''n'']
         else if n = 13 then [CHR 0x5C, CHR ''r'']
         else if n = 9 then [CHR 0x5C, CHR ''t'']
         else if n < 32 \<or> 127 \<le> n \<and> n \<le> 160 \<or> n = 173 then CHR 0x5C # CHR ''x'' # hex_fixed 2 n
         else [c])"

definition py_repr :: "string \<Rightarrow> string" where
  "py_repr s =
     (let q = (if CHR 0x27 \<in> set s \<and> CHR 0x22 \<notin> set s then CHR 0x22 else CHR 0x27)
      in q # concat (map (repr_char q) s) @ [q])"

fun commas :: "string list \<Rightarrow> string" where
  "commas [] = []"
| "commas [x] = x"
| "commas (x # y # ys) = x @ '', '' @ commas (y # ys)"

definition py_repr_list :: "string list \<Rightarrow> string" where
  "py_repr_list xs = ''['' @ commas (map py_repr xs) @ '']''"

text \<open>Python's \<open>int(text)\<close>, base ten, under the same rules.\<close>

definition dec_val :: "char \<Rightarrow> nat option" where
  "dec_val c = map_of (zip ''0123456789'' [0..<10]) c"

fun dec_run :: "nat \<Rightarrow> bool \<Rightarrow> string \<Rightarrow> nat option" where
  "dec_run acc d [] = (if d then Some acc else None)"
| "dec_run acc d (c # cs) =
     (if c = CHR ''_'' then (if d then dec_run acc False cs else None)
      else case dec_val c of None \<Rightarrow> None | Some v \<Rightarrow> dec_run (10 * acc + v) True cs)"

definition py_int :: "string \<Rightarrow> int option" where
  "py_int text =
     (let s = strip py_space text;
          neg = (s \<noteq> [] \<and> hd s = CHR ''-'');
          body = (if s \<noteq> [] \<and> (hd s = CHR ''-'' \<or> hd s = CHR ''+'') then tl s else s)
      in map_option (\<lambda>v. if neg then - int v else int v) (dec_run 0 False body))"

text \<open>\<open>text.replace(p, '')\<close> for a non-empty \<open>p\<close>.\<close>

fun remove_sub :: "string \<Rightarrow> string \<Rightarrow> string" where
  "remove_sub p [] = []"
| "remove_sub p (c # cs) =
     (if p \<noteq> [] \<and> take (length p) (c # cs) = p
      then remove_sub p (drop (length p - 1) cs) else c # remove_sub p cs)"

text \<open>\<open>uuid.UUID(text)\<close>; \<open>None\<close> is the \<open>ValueError\<close>.\<close>

definition uuid_parse :: "string \<Rightarrow> uuid option" where
  "uuid_parse text =
     (let h = filter (\<lambda>c. c \<noteq> CHR ''-'')
                (strip (\<lambda>c. c = CHR ''{'' \<or> c = CHR ''}'')
                  (remove_sub ''uuid:'' (remove_sub ''urn:'' text)))
      in if length h \<noteq> 32 then None
         else case py_int16 h of
           None \<Rightarrow> None
         | Some i \<Rightarrow> if 0 \<le> i \<and> i < 2 ^ 128 then Some (nat i) else None)"

subsection \<open>Round trip of identifiers\<close>

lemma length_hex_fixed [simp]: "length (hex_fixed k n) = k"
  by (induction k arbitrary: n) auto

lemma digit_char_in: "d < 16 \<Longrightarrow> digit_char d \<in> hex_chars"
  unfolding digit_char_def hex_chars_def by (rule nth_mem) simp

lemma hex_val_digit: "d < 16 \<Longrightarrow> hex_val (digit_char d) = Some d"
proof -
  assume "d < 16"
  moreover have "list_all (\<lambda>d. hex_val (digit_char d) = Some d) [0..<16]" by code_simp
  ultimately show ?thesis by (simp add: list_all_iff)
qed

lemma hex_chars_plain:
  "c \<in> hex_chars \<Longrightarrow>
   c \<noteq> CHR ''-'' \<and> c \<noteq> CHR ''+'' \<and> c \<noteq> CHR ''_'' \<and> c \<noteq> CHR ''u'' \<and> c \<noteq> CHR ''x''
   \<and> c \<noteq> CHR ''X'' \<and> c \<noteq> CHR ''{'' \<and> c \<noteq> CHR ''}'' \<and> c \<noteq> CHR '':'' \<and> \<not> py_space c"
  by (auto simp: hex_chars_def py_space_def)

lemma set_hex_fixed: "set (hex_fixed k n) \<subseteq> hex_chars"
  by (induction k arbitrary: n) (auto intro: digit_char_in)

lemma hex_run_append_digit:
  "d < 16 \<Longrightarrow> hex_run acc b s = Some v \<Longrightarrow> s \<noteq> [] \<or> b \<Longrightarrow>
   hex_run acc b (s @ [digit_char d]) = Some (16 * v + d)"
proof (induction s arbitrary: acc b)
  case Nil
  then show ?case
    using hex_chars_plain [OF digit_char_in [of d]] by (auto simp: hex_val_digit split: if_splits)
next
  case (Cons c s)
  show ?case
  proof (cases "c = CHR ''_''")
    case True
    with Cons show ?thesis
      by (cases s) (auto split: if_splits)
  next
    case False
    with Cons show ?thesis by (auto split: option.splits)
  qed
qed

lemma hex_run_hex_fixed:
  "n < 16 ^ k \<Longrightarrow> 0 < k \<Longrightarrow> hex_run 0 False (hex_fixed k n) = Some n"
proof (induction k arbitrary: n)
  case 0
  then show ?case by simp
next
  case (Suc k)
  have d: "n mod 16 < 16" by simp
  show ?case
  proof (cases "k = 0")
    case True
    with Suc.prems have "n mod 16 = n" by simp
    then show ?thesis
      using True hex_chars_plain [OF digit_char_in [OF d]] by (simp add: hex_val_digit)
  next
    case False
    from Suc.prems have "n div 16 < 16 ^ k" by (simp add: less_mult_imp_div_less)
    with False have "hex_run 0 False (hex_fixed k (n div 16)) = Some (n div 16)"
      by (simp add: Suc.IH)
    moreover have "hex_fixed k (n div 16) \<noteq> []"
      using False length_hex_fixed [of k "n div 16"] by fastforce
    ultimately show ?thesis using hex_run_append_digit [OF d] by simp
  qed
qed

lemma remove_sub_absent: "p \<noteq> [] \<Longrightarrow> hd p \<notin> set s \<Longrightarrow> remove_sub p s = s"
proof (induction s)
  case (Cons c s)
  then have "take (length p) (c # s) \<noteq> p" by (cases p) auto
  with Cons show ?case by simp
qed simp

lemma strip_absent:
  assumes "\<And>c. c \<in> set s \<Longrightarrow> \<not> P c"
  shows "strip P s = s"
proof -
  have d: "dropWhile P xs = xs" if "set xs = set s" for xs
    using that assms hd_in_set [of xs] by (auto simp: dropWhile_eq_self_iff)
  show ?thesis by (simp add: strip_def d)
qed

lemma py_int16_hex:
  assumes "n < 16 ^ k" "0 < k"
  shows "py_int16 (hex_fixed k n) = Some (int n)"
proof -
  let ?h = "hex_fixed k n"
  have ne: "?h \<noteq> []" using assms(2) length_hex_fixed [of k n] by fastforce
  have plain: "\<And>c. c \<in> set ?h \<Longrightarrow> c \<noteq> CHR ''-'' \<and> c \<noteq> CHR ''+'' \<and> c \<noteq> CHR ''x'' \<and> c \<noteq> CHR ''X''
      \<and> \<not> py_space c"
    using set_hex_fixed hex_chars_plain by blast
  have s: "strip py_space ?h = ?h" by (rule strip_absent) (use plain in blast)
  have hd: "hd ?h \<noteq> CHR ''-''" "hd ?h \<noteq> CHR ''+''" using plain hd_in_set [OF ne] by auto
  have "take 2 ?h \<noteq> [c, CHR ''x'']" "take 2 ?h \<noteq> [c, CHR ''X'']" for c
    using plain set_take_subset [of 2 ?h] by (metis in_mono list.set_intros(1) set_subset_Cons)+
  then show ?thesis
    using s hd ne hex_run_hex_fixed [OF assms] by (simp add: py_int16_def Let_def)
qed

lemma filter_absent: "(\<And>c. c \<in> set s \<Longrightarrow> P c) \<Longrightarrow> filter P s = s"
  by (simp add: filter_id_conv)

lemma filter_dashes_uuid_str: "filter (\<lambda>c. c \<noteq> CHR ''-'') (uuid_str u) = hex_fixed 32 u"
proof -
  let ?h = "hex_fixed 32 u"
  have ok: "\<And>c. c \<in> set ?h \<Longrightarrow> c \<noteq> CHR ''-''" using set_hex_fixed hex_chars_plain by blast
  have sub: "filter (\<lambda>c. c \<noteq> CHR ''-'') xs = xs" if "set xs \<subseteq> set ?h" for xs
    using that ok by (auto intro: filter_absent)
  have t: "set (take n (drop m ?h)) \<subseteq> set ?h" "set (drop m ?h) \<subseteq> set ?h"
    "set (take n ?h) \<subseteq> set ?h" for n m
    by (auto dest: in_set_takeD in_set_dropD)
  have e: "drop m ?h = take 4 (drop m ?h) @ drop (4 + m) ?h" for m
    using append_take_drop_id [of 4 "drop m ?h"] by (simp only: drop_drop)
  have "take 8 ?h @ take 4 (drop 8 ?h) @ take 4 (drop 12 ?h) @ take 4 (drop 16 ?h) @ drop 20 ?h
      = take 8 ?h @ drop 8 ?h"
    using e [of 8] e [of 12] e [of 16] by (simp del: append_take_drop_id)
  also have "\<dots> = ?h" by (rule append_take_drop_id)
  finally have split: "take 8 ?h @ take 4 (drop 8 ?h) @ take 4 (drop 12 ?h) @ take 4 (drop 16 ?h)
      @ drop 20 ?h = ?h" .
  show ?thesis
    unfolding uuid_str_def Let_def filter_append
    using split by (simp add: sub [OF t(1)] sub [OF t(2)] sub [OF t(3)] del: append_take_drop_id)
qed

lemma set_uuid_str: "set (uuid_str u) \<subseteq> insert (CHR ''-'') hex_chars"
  using set_hex_fixed [of 32 u]
  by (auto simp: uuid_str_def Let_def dest!: in_set_takeD in_set_dropD)

lemma uuid_parse_str_bounded:
  assumes "u < 2 ^ 128"
  shows "uuid_parse (uuid_str u) = Some u"
proof -
  have c: "\<And>c. c \<in> set (uuid_str u) \<Longrightarrow> c \<noteq> CHR ''u'' \<and> c \<noteq> CHR ''{'' \<and> c \<noteq> CHR ''}''"
    using set_uuid_str hex_chars_plain by blast
  then have "CHR ''u'' \<notin> set (uuid_str u)" by blast
  then have r: "remove_sub ''uuid:'' (remove_sub ''urn:'' (uuid_str u)) = uuid_str u"
    by (simp add: remove_sub_absent)
  have s: "strip (\<lambda>c. c = CHR ''{'' \<or> c = CHR ''}'') (uuid_str u) = uuid_str u"
    by (rule strip_absent) (use c in auto)
  have "u < 16 ^ 32" using assms by simp
  then have "py_int16 (hex_fixed 32 u) = Some (int u)" by (rule py_int16_hex) simp
  moreover have "int u < 2 ^ 128" using assms by simp
  ultimately show ?thesis
    unfolding uuid_parse_def r s filter_dashes_uuid_str Let_def by simp
qed

lemma uuid_str_nonempty [simp]: "uuid_str u \<noteq> []"
  by (simp add: uuid_str_def Let_def)

lemma uuid_str_inject:
  "u < 2 ^ 128 \<Longrightarrow> v < 2 ^ 128 \<Longrightarrow> uuid_str u = uuid_str v \<longleftrightarrow> u = v"
  by (metis option.inject uuid_parse_str_bounded)

text \<open>A separator that neither part contains splits a text in one way only.\<close>

lemma append_sep_iff:
  "x \<notin> set xs \<Longrightarrow> x \<notin> set ys \<Longrightarrow> xs @ x # xs' = ys @ x # ys' \<longleftrightarrow> xs = ys \<and> xs' = ys'"
proof (induction xs arbitrary: ys)
  case (Cons a xs)
  then show ?case by (cases ys) auto
qed (auto simp: Cons_eq_append_conv)

subsection \<open>Round trip of decimal text\<close>

lemma digit_char_decimal:
  assumes "d < 10"
  shows "digit_char d \<in> set ''0123456789''" "dec_val (digit_char d) = Some d"
proof -
  have "d = 0 \<or> d = 1 \<or> d = 2 \<or> d = 3 \<or> d = 4 \<or> d = 5 \<or> d = 6 \<or> d = 7 \<or> d = 8 \<or> d = 9" using assms by presburger
  then show "digit_char d \<in> set ''0123456789''" "dec_val (digit_char d) = Some d"
    by (elim disjE; simp add: digit_char_def dec_val_def upt_rec)+
qed

lemma set_show_nat: "set (show_nat n) \<subseteq> set ''0123456789''"
proof (induction n rule: show_nat.induct)
  case (1 n)
  show ?case using 1 digit_char_decimal(1) [of n] digit_char_decimal(1) [of "n mod 10"] by (subst show_nat.simps) auto
qed

lemma dec_run_show_nat:
  "dec_run acc d (show_nat n @ rest) = dec_run (acc * 10 ^ length (show_nat n) + n) True rest"
proof (induction n arbitrary: acc d rest rule: show_nat.induct)
  case (1 n)
  have digit: "dec_run a e (digit_char k # r) = dec_run (10 * a + k) True r" if "k < 10" for a e k r
    using digit_char_decimal [OF that] by auto
  show ?case
  proof (cases "n < 10")
    case True
    then have "show_nat n = [digit_char n]" by (simp add: show_nat.simps)
    then show ?thesis using digit [OF True] by (simp add: mult.commute)
  next
    case False
    then have s: "show_nat n = show_nat (n div 10) @ [digit_char (n mod 10)]" by (subst show_nat.simps) simp
    have "10 * (acc * 10 ^ length (show_nat (n div 10)) + n div 10) + n mod 10 = acc * 10 ^ length (show_nat n) + n"
      unfolding s by (simp add: algebra_simps)
    then show ?thesis using 1 [OF False] digit [of "n mod 10"] by (simp add: s algebra_simps)
  qed
qed

lemma py_int_show_int [simp]: "py_int (show_int i) = Some i"
proof -
  have plain: "c \<noteq> CHR ''-'' \<and> c \<noteq> CHR ''+'' \<and> \<not> py_space c" if "c \<in> set ''0123456789''" for c
    using that by (auto simp: py_space_def)
  have ne: "show_nat n \<noteq> []" for n by (subst show_nat.simps) simp
  have hd: "hd (show_nat n) \<noteq> CHR ''-''" "hd (show_nat n) \<noteq> CHR ''+''" for n
    using plain [of "hd (show_nat n)"] set_show_nat [of n] hd_in_set [OF ne [of n]] by auto
  have "\<not> py_space c" if "c \<in> set (show_int i)" for c
    using that plain set_show_nat by (fastforce simp: show_int_def py_space_def split: if_splits)
  then have "strip py_space (show_int i) = show_int i" by (rule strip_absent)
  moreover have "dec_run 0 False (show_nat n) = Some n" for n using dec_run_show_nat [of 0 False n "[]"] by simp
  ultimately show ?thesis using hd ne by (auto simp: py_int_def Let_def show_int_def)
qed

section \<open>Interfaces\<close>

subsection \<open>Compare-and-set\<close>

text \<open>
  Every at-least-once delivery path is made safe by one conditional statement that only one
  caller can win: the claim of a pending job, the promotion of a waiting one, the insert of
  an idempotency claim. \<open>cas k s\<close> tries key \<open>k\<close>; \<open>armed s k\<close> says that the next attempt
  wins. \<open>run_cas\<close> is any sequence of attempts, one after the other, in any order.
\<close>

primrec run_cas :: "('k \<Rightarrow> 's \<Rightarrow> bool \<times> 's) \<Rightarrow> 'k list \<Rightarrow> 's \<Rightarrow> bool list \<times> 's" where
  "run_cas cas [] s = ([], s)"
| "run_cas cas (k # ks) s =
     (let (b, s1) = cas k s; (bs, s2) = run_cas cas ks s1 in (b # bs, s2))"

definition wins :: "'k \<Rightarrow> 'k list \<Rightarrow> bool list \<Rightarrow> nat" where
  "wins k ks bs = length (filter (\<lambda>(k', b). k' = k \<and> b) (zip ks bs))"

locale compare_and_set =
  fixes cas :: "'k \<Rightarrow> 's \<Rightarrow> bool \<times> 's"
    and armed :: "'s \<Rightarrow> 'k \<Rightarrow> bool"
    and inv :: "'s \<Rightarrow> bool"
  assumes cas_wins: "inv s \<Longrightarrow> fst (cas k s) \<longleftrightarrow> armed s k"
    and cas_disarms: "inv s \<Longrightarrow> \<not> armed (snd (cas k s)) k"
    and cas_frame: "inv s \<Longrightarrow> k' \<noteq> k \<Longrightarrow> armed (snd (cas k s)) k' = armed s k'"
    and cas_inv: "inv s \<Longrightarrow> inv (snd (cas k s))"
    and cas_loses: "inv s \<Longrightarrow> \<not> armed s k \<Longrightarrow> snd (cas k s) = s"
begin

lemma run_cas_one_winner:
  "inv s \<Longrightarrow> wins k ks (fst (run_cas cas ks s)) = (if armed s k \<and> k \<in> set ks then 1 else 0)"
proof (induction ks arbitrary: s)
  case Nil
  then show ?case by (simp add: wins_def)
next
  case (Cons k' ks)
  let ?s = "snd (cas k' s)"
  have IH: "wins k ks (fst (run_cas cas ks ?s)) = (if armed ?s k \<and> k \<in> set ks then 1 else 0)"
    by (rule Cons.IH) (rule cas_inv [OF Cons.prems])
  have unfold: "wins k (k' # ks) (fst (run_cas cas (k' # ks) s)) =
      (if k' = k \<and> fst (cas k' s) then 1 else 0) + wins k ks (fst (run_cas cas ks ?s))"
    by (auto simp: wins_def Let_def case_prod_beta)
  show ?case
    using IH unfold cas_wins [OF Cons.prems, of k] cas_disarms [OF Cons.prems, of k]
      cas_frame [OF Cons.prems, of k k'] by auto
qed

lemma run_cas_inv: "inv s \<Longrightarrow> inv (snd (run_cas cas ks s))"
  by (induction ks arbitrary: s) (simp_all add: Let_def case_prod_beta cas_inv)

lemma run_cas_disarmed:
  "inv s \<Longrightarrow> \<not> armed s k \<Longrightarrow> \<not> armed (snd (run_cas cas ks s)) k"
proof (induction ks arbitrary: s)
  case (Cons k' ks)
  have "\<not> armed (snd (cas k' s)) k"
    using Cons.prems cas_disarms cas_frame by metis
  then have "\<not> armed (snd (run_cas cas ks (snd (cas k' s)))) k"
    using Cons.IH cas_inv [OF Cons.prems(1)] by blast
  then show ?case by (simp add: Let_def case_prod_beta)
qed simp

end

subsection \<open>Steps that keep an invariant\<close>

locale inv_step =
  fixes step :: "'e \<Rightarrow> 's \<Rightarrow> 's"
    and inv :: "'s \<Rightarrow> bool"
  assumes step_inv: "inv s \<Longrightarrow> inv (step e s)"
begin

lemma fold_inv: "inv s \<Longrightarrow> inv (fold step es s)"
  by (induction es arbitrary: s) (simp_all add: step_inv)

end

subsection \<open>Fixed-window counters\<close>

text \<open>
  \<open>hit t s\<close> is one request at time \<open>t\<close>, answered with whether it is let through; \<open>win t\<close> is the
  window of a time and \<open>used s w\<close> the number of requests counted in window \<open>w\<close>. Nothing is
  assumed of the order of the times.
\<close>

primrec run_hits :: "(time \<Rightarrow> 's \<Rightarrow> bool \<times> 's) \<Rightarrow> time list \<Rightarrow> 's \<Rightarrow> (time \<times> bool) list" where
  "run_hits hit [] s = []"
| "run_hits hit (t # ts) s = (t, fst (hit t s)) # run_hits hit ts (snd (hit t s))"

definition granted :: "(time \<Rightarrow> bool) \<Rightarrow> (time \<times> bool) list \<Rightarrow> nat" where
  "granted P hs = length (filter (\<lambda>(t, ok). P t \<and> ok) hs)"

lemma granted_simps [simp]:
  "granted P [] = 0" "granted P ((t, ok) # hs) = (if P t \<and> ok then 1 else 0) + granted P hs"
  by (simp_all add: granted_def)

lemma granted_disj:
  assumes "\<And>t. P t \<Longrightarrow> Q t \<or> R t"
  shows "granted P hs \<le> granted Q hs + granted R hs"
proof (induction hs)
  case (Cons h hs)
  then show ?case using assms [of "fst h"] by (cases h) auto
qed simp

locale fixed_window =
  fixes hit :: "time \<Rightarrow> 's \<Rightarrow> bool \<times> 's"
    and win :: "time \<Rightarrow> int"
    and used :: "'s \<Rightarrow> int \<Rightarrow> nat"
    and limit :: nat
    and inv :: "'s \<Rightarrow> bool"
  assumes hit_grants: "inv s \<Longrightarrow> fst (hit t s) \<longleftrightarrow> used s (win t) < limit"
    and hit_counts: "inv s \<Longrightarrow> used (snd (hit t s)) w = used s w + (if w = win t then 1 else 0)"
    and hit_inv: "inv s \<Longrightarrow> inv (snd (hit t s))"
begin

lemma granted_window:
  "inv s \<Longrightarrow> granted (\<lambda>t. win t = w) (run_hits hit ts s) =
     min (length (filter (\<lambda>t. win t = w) ts)) (limit - used s w)"
proof (induction ts arbitrary: s)
  case (Cons t ts)
  have IH: "granted (\<lambda>t. win t = w) (run_hits hit ts (snd (hit t s))) =
      min (length (filter (\<lambda>t. win t = w) ts)) (limit - used (snd (hit t s)) w)"
    by (rule Cons.IH) (rule hit_inv [OF Cons.prems])
  show ?case
    using IH hit_grants [OF Cons.prems, of t] hit_counts [OF Cons.prems, of t w] by auto
qed simp

lemma granted_two_windows:
  assumes "inv s" "\<And>t. P t \<Longrightarrow> win t = w \<or> win t = w + 1"
  shows "granted P (run_hits hit ts s) \<le> 2 * limit"
  using granted_disj [of P "\<lambda>t. win t = w" "\<lambda>t. win t = w + 1" "run_hits hit ts s"] assms
    granted_window [OF assms(1), of w ts] granted_window [OF assms(1), of "w + 1" ts] by auto

end

end
