(* ===== verification/Json_Value.thy ===== *)
theory Json_Value
  imports Platform_Prelude
begin

text \<open>
  The JSON values that travel in payloads, outbox rows, Kafka messages and audit rows, with
  the operations the code applies to them: dictionary access (\<open>value.get(key)\<close>), the
  comprehension that drops one key, and \<open>json.dumps\<close> with its default separators, whose
  length bounds the payload copied onto a dead-letter event. \<open>JOpaque\<close> stands for a Python
  object that \<open>json.dumps\<close> refuses with \<open>TypeError\<close>; the text of a float is its \<open>repr\<close>,
  which is a parameter.
\<close>

datatype json =
    JNull
  | JBool bool
  | JInt int
  | JFloat rat
  | JStr string
  | JArr "json list"
  | JObj "(string \<times> json) list"
  | JOpaque

type_synonym dict = "(string \<times> json) list"

definition jget :: "dict \<Rightarrow> string \<Rightarrow> json" where
  "jget d k = (case map_of d k of None \<Rightarrow> JNull | Some v \<Rightarrow> v)"

text \<open>Python truthiness of a JSON value.\<close>

fun truthy :: "json \<Rightarrow> bool" where
  "truthy JNull = False"
| "truthy (JBool b) = b"
| "truthy (JInt i) = (i \<noteq> 0)"
| "truthy (JFloat q) = (q \<noteq> 0)"
| "truthy (JStr s) = (s \<noteq> [])"
| "truthy (JArr xs) = (xs \<noteq> [])"
| "truthy (JObj d) = (d \<noteq> [])"
| "truthy JOpaque = True"

definition drop_key :: "string \<Rightarrow> dict \<Rightarrow> dict" where
  "drop_key k d = filter (\<lambda>(k', _). k' \<noteq> k) d"

definition jstr_opt :: "string option \<Rightarrow> json" where
  "jstr_opt s = (case s of None \<Rightarrow> JNull | Some t \<Rightarrow> JStr t)"

definition juuid :: "uuid \<Rightarrow> json" where
  "juuid u = JStr (uuid_str u)"

subsection \<open>\<open>json.dumps\<close>\<close>

text \<open>One character of a JSON string literal with \<open>ensure_ascii=True\<close>.\<close>

definition escape_char :: "char \<Rightarrow> string" where
  "escape_char c =
     (if c = CHR 0x22 then [CHR 0x5C, CHR 0x22]
      else if c = CHR 0x5C then [CHR 0x5C, CHR 0x5C]
      else if c = CHR 0x0A then [CHR 0x5C, CHR ''n'']
      else if c = CHR 0x0D then [CHR 0x5C, CHR ''r'']
      else if c = CHR 0x09 then [CHR 0x5C, CHR ''t'']
      else if c = CHR 0x08 then [CHR 0x5C, CHR ''b'']
      else if c = CHR 0x0C then [CHR 0x5C, CHR ''f'']
      else if (of_char c :: nat) < 32 \<or> 126 < (of_char c :: nat)
           then CHR 0x5C # CHR ''u'' # hex_fixed 4 (of_char c)
      else [c])"

definition dump_str :: "string \<Rightarrow> string" where
  "dump_str s = CHR 0x22 # concat (map escape_char s) @ [CHR 0x22]"

fun join :: "string \<Rightarrow> string list \<Rightarrow> string" where
  "join sep [] = []"
| "join sep [x] = x"
| "join sep (x # y # ys) = x @ sep @ join sep (y # ys)"

fun all_some :: "'a option list \<Rightarrow> 'a list option" where
  "all_some [] = Some []"
| "all_some (None # xs) = None"
| "all_some (Some x # xs) = map_option (Cons x) (all_some xs)"

fun json_dumps :: "(rat \<Rightarrow> string) \<Rightarrow> json \<Rightarrow> string option" where
  "json_dumps fr JNull = Some ''null''"
| "json_dumps fr (JBool b) = Some (if b then ''true'' else ''false'')"
| "json_dumps fr (JInt i) = Some (show_int i)"
| "json_dumps fr (JFloat q) = Some (fr q)"
| "json_dumps fr (JStr s) = Some (dump_str s)"
| "json_dumps fr (JArr xs) =
     map_option (\<lambda>ts. ''['' @ join '', '' ts @ '']'') (all_some (map (json_dumps fr) xs))"
| "json_dumps fr (JObj d) =
     map_option (\<lambda>ts. ''{'' @ join '', '' ts @ ''}'')
       (all_some (map (\<lambda>kv. map_option (\<lambda>t. dump_str (fst kv) @ '': '' @ t)
                              (json_dumps fr (snd kv))) d))"
| "json_dumps fr JOpaque = None"

lemma jget_Nil [simp]: "jget [] k = JNull"
  by (simp add: jget_def)

lemma jget_Cons [simp]: "jget ((k, v) # d) k' = (if k = k' then v else jget d k')"
  by (simp add: jget_def)

lemma truthy_juuid [simp]: "truthy (juuid u)"
  by (simp add: juuid_def)

lemma jget_drop_key: "jget (drop_key k d) k' = (if k' = k then JNull else jget d k')"
  by (induction d) (auto simp: drop_key_def)

end
