(* ===== verification/Models.thy ===== *)
theory Models
  imports Json_Value
begin

text \<open>
  The vocabulary and the tables of the platform: \<open>models/enums.py\<close>, \<open>models/job.py\<close>,
  \<open>models/job_dependency.py\<close>, \<open>models/saga.py\<close>, \<open>models/outbox.py\<close>, \<open>models/audit.py\<close>,
  the settings the core reads (\<open>config.py\<close>), the error classes
  (\<open>core/exceptions.py\<close>) and the database the repositories act on.
\<close>

section \<open>Enumerations (\<open>models/enums.py\<close>)\<close>

datatype user_role = USER | SUPPORT | ADMIN

datatype job_type = CSV_UPLOAD | REPORT_GEN | BULK_API_SYNC | DOC_ANALYSIS

datatype job_status =
  WAITING | PENDING | RUNNING | COMPLETED | FAILED | DEAD_LETTER | CANCELLED

datatype saga_status =
  SagaRunning | SagaCompleted | SagaFailed | SagaCompensating | SagaCompensated

text \<open>The string a \<open>StrEnum\<close> member is.\<close>

fun job_type_value :: "job_type \<Rightarrow> string" where
  "job_type_value CSV_UPLOAD = ''csv_upload''"
| "job_type_value REPORT_GEN = ''report_gen''"
| "job_type_value BULK_API_SYNC = ''bulk_api_sync''"
| "job_type_value DOC_ANALYSIS = ''doc_analysis''"

fun job_status_value :: "job_status \<Rightarrow> string" where
  "job_status_value WAITING = ''waiting''"
| "job_status_value PENDING = ''pending''"
| "job_status_value RUNNING = ''running''"
| "job_status_value COMPLETED = ''completed''"
| "job_status_value FAILED = ''failed''"
| "job_status_value DEAD_LETTER = ''dead_letter''"
| "job_status_value CANCELLED = ''cancelled''"

text \<open>\<open>JobType(text)\<close>; \<open>None\<close> is the \<open>ValueError\<close>.\<close>

definition parse_job_type :: "string \<Rightarrow> job_type option" where
  "parse_job_type t =
     find (\<lambda>ty. job_type_value ty = t) [CSV_UPLOAD, REPORT_GEN, BULK_API_SYNC, DOC_ANALYSIS]"

definition terminal_job_statuses :: "job_status list" where
  "terminal_job_statuses = [COMPLETED, DEAD_LETTER, CANCELLED]"

section \<open>Rows\<close>

record job =
  j_id :: uuid
  j_tenant_id :: uuid
  j_user_id :: uuid
  j_type :: string
  j_status :: job_status
  j_idempotency_key :: "string option"
  j_payload :: "dict option"
  j_result :: "dict option"
  j_error_message :: "string option"
  j_retry_count :: int
  j_max_attempts :: int
  j_remediation_hint :: "string option"
  j_dead_lettered_by :: "string option"
  j_fenced_at :: "time option"
  j_fenced_by :: "string option"
  j_priority :: int
  j_trace_id :: "string option"
  j_started_at :: "time option"
  j_completed_at :: "time option"
  j_requeued_at :: "time option"
  j_heartbeat_at :: "time option"
  j_saga_id :: "uuid option"
  j_saga_step_index :: "int option"
  j_created_at :: time
  j_updated_at :: time

text \<open>A row \<open>(job, parent)\<close> of \<open>job_dependencies\<close> blocks the job until the parent completed.\<close>

record job_dependency =
  d_job_id :: uuid
  d_depends_on_job_id :: uuid

record saga =
  s_id :: uuid
  s_tenant_id :: uuid
  s_name :: string
  s_status :: saga_status
  s_created_at :: time
  s_completed_at :: "time option"

record outbox_event =
  o_id :: uuid
  o_tenant_id :: uuid
  o_topic :: string
  o_key :: string
  o_payload :: dict
  o_attempts :: int
  o_created_at :: time
  o_published_at :: "time option"
  o_failed_at :: "time option"
  o_error_message :: "string option"

record audit_log =
  a_id :: uuid
  a_tenant_id :: uuid
  a_user_id :: "uuid option"
  a_principal_type :: string
  a_principal_id :: "uuid option"
  a_action :: string
  a_job_id :: "uuid option"
  a_resource_type :: "string option"
  a_resource_id :: "string option"
  a_request_id :: "string option"
  a_extra_data :: "dict option"
  a_kafka :: "(string \<times> nat \<times> nat) option"

section \<open>Settings (\<open>config.py\<close>)\<close>

text \<open>
  The settings the modelled code reads. \<open>float_repr\<close> is the runtime's \<open>repr\<close> of a float,
  used by \<open>json.dumps\<close> and in messages; \<open>iso_format\<close> is \<open>datetime.isoformat\<close>.
\<close>

record settings =
  max_job_attempts :: int
  job_retry_backoff_base :: rat
  stale_running_threshold_seconds :: rat
  job_execution_timeout_seconds :: rat
  outbox_max_attempts :: int
  kafka_topic_job_submitted :: string
  kafka_topic_job_progress :: string
  kafka_topic_job_completed :: string
  kafka_topic_job_failed :: string
  kafka_topic_job_cancelled :: string
  kafka_topic_job_dlq :: string
  llm_retry_policy_enabled :: bool
  llm_retry_policy_min_retry_count :: int
  float_repr :: "rat \<Rightarrow> string"
  iso_format :: "time \<Rightarrow> string"

definition default_settings :: settings where
  "default_settings = \<lparr>
     max_job_attempts = 3, job_retry_backoff_base = 2,
     stale_running_threshold_seconds = 900, job_execution_timeout_seconds = 600,
     outbox_max_attempts = 900,
     kafka_topic_job_submitted = ''job.submitted'', kafka_topic_job_progress = ''job.progress'',
     kafka_topic_job_completed = ''job.completed'', kafka_topic_job_failed = ''job.failed'',
     kafka_topic_job_cancelled = ''job.cancelled'', kafka_topic_job_dlq = ''job.dlq'',
     llm_retry_policy_enabled = False, llm_retry_policy_min_retry_count = 1,
     float_repr = (\<lambda>_. ''0.0''), iso_format = (\<lambda>_. ''1970-01-01T00:00:00+00:00'')\<rparr>"

section \<open>Errors (\<open>core/exceptions.py\<close>)\<close>

datatype app_error =
    NotFoundError string
  | AuthorizationError string
  | RequestValidationError string
  | JobError string
  | AuthenticationError string
  | ConflictError string
  | RateLimitError string
  | BackpressureError string
  | QuotaExceededError string
  | IntegrityError
  | RuntimeError string
  | AssertionError
  | AttributeError
  | TypeError
  | ValueError
  | DispatchBacklogFull

section \<open>The database\<close>

text \<open>
  The tables the core writes. \<open>next_uuid\<close> is the supply of \<open>uuid.uuid4()\<close>: a value never
  handed out before. \<open>select\<close> without \<open>ORDER BY\<close> returns rows in table order.
\<close>

record db =
  jobs :: "job list"
  job_dependencies :: "job_dependency list"
  sagas :: "saga list"
  outbox_events :: "outbox_event list"
  audit_logs :: "audit_log list"
  next_uuid :: uuid

definition empty_db :: db where
  "empty_db = \<lparr>jobs = [], job_dependencies = [], sagas = [], outbox_events = [],
     audit_logs = [], next_uuid = 0\<rparr>"

abbreviation job_by_id :: "db \<Rightarrow> uuid \<Rightarrow> job option" where
  "job_by_id d i \<equiv> get_by j_id i (jobs d)"

abbreviation saga_by_id :: "db \<Rightarrow> uuid \<Rightarrow> saga option" where
  "saga_by_id d i \<equiv> get_by s_id i (sagas d)"

abbreviation terminal :: "job_status \<Rightarrow> bool" where
  "terminal s \<equiv> s \<in> set terminal_job_statuses"

lemma terminal_iff [simp]:
  "terminal s \<longleftrightarrow> s = COMPLETED \<or> s = DEAD_LETTER \<or> s = CANCELLED"
  by (auto simp: terminal_job_statuses_def)

lemma parse_job_type_value [simp]: "parse_job_type (job_type_value ty) = Some ty"
  by (cases ty) (simp_all add: parse_job_type_def)

lemma parse_job_type_Some: "parse_job_type t = Some ty \<Longrightarrow> t = job_type_value ty"
  by (auto simp: parse_job_type_def split: if_splits)

end
