(* ===== verification/Outbox.thy ===== *)
theory Outbox
  imports Models
begin

text \<open>
  The transactional outbox: \<open>repositories/outbox.py\<close>, the audit writer of
  \<open>repositories/audit.py\<close> and one pass of the relay (\<open>_outbox_relay_tick\<close> of
  \<open>workers/dispatcher.py\<close>). The Kafka producer is the parameter \<open>publish\<close>, which says for
  each row how the attempt ends.
\<close>

section \<open>Repository\<close>

definition outbox_add ::
    "time \<Rightarrow> uuid \<Rightarrow> string \<Rightarrow> string \<Rightarrow> dict \<Rightarrow> db \<Rightarrow> db" where
  "outbox_add now tenant topic key payload d =
     d\<lparr>outbox_events := outbox_events d @
         [\<lparr>o_id = next_uuid d, o_tenant_id = tenant, o_topic = topic, o_key = key,
           o_payload = payload, o_attempts = 0, o_created_at = now, o_published_at = None,
           o_failed_at = None, o_error_message = None\<rparr>],
       next_uuid := Suc (next_uuid d)\<rparr>"

definition partition_key :: "uuid \<Rightarrow> uuid \<Rightarrow> string" where
  "partition_key tenant user = uuid_str tenant @ '':'' @ uuid_str user"

definition fetch_unpublished :: "settings \<Rightarrow> nat \<Rightarrow> db \<Rightarrow> outbox_event list" where
  "fetch_unpublished cfg limit d =
     take limit (sort_key o_created_at
       (filter (\<lambda>e. o_published_at e = None \<and> o_attempts e < outbox_max_attempts cfg)
         (outbox_events d)))"

definition mark_published :: "time \<Rightarrow> uuid list \<Rightarrow> db \<Rightarrow> db" where
  "mark_published now ids d =
     (if ids = [] then d
      else d\<lparr>outbox_events := update_where (\<lambda>e. o_id e \<in> set ids)
                (\<lambda>e. e\<lparr>o_published_at := Some now\<rparr>) (outbox_events d)\<rparr>)"

definition increment_attempts :: "uuid list \<Rightarrow> db \<Rightarrow> db" where
  "increment_attempts ids d =
     (if ids = [] then d
      else d\<lparr>outbox_events := update_where (\<lambda>e. o_id e \<in> set ids)
                (\<lambda>e. e\<lparr>o_attempts := o_attempts e + 1\<rparr>) (outbox_events d)\<rparr>)"

definition error_message_max_chars :: nat where
  "error_message_max_chars = 900"

definition mark_failed :: "time \<Rightarrow> uuid list \<Rightarrow> string \<Rightarrow> db \<Rightarrow> db" where
  "mark_failed now ids err d =
     (if ids = [] then d
      else d\<lparr>outbox_events := update_where (\<lambda>e. o_id e \<in> set ids)
                (\<lambda>e. e\<lparr>o_published_at := Some now, o_failed_at := Some now,
                       o_error_message := Some (take error_message_max_chars err)\<rparr>)
                (outbox_events d)\<rparr>)"

text \<open>\<open>(depth, age of the oldest unpublished row in seconds)\<close>.\<close>

definition unpublished_stats :: "time \<Rightarrow> db \<Rightarrow> nat \<times> time" where
  "unpublished_stats now d =
     (let rows = filter (\<lambda>e. o_published_at e = None) (outbox_events d)
      in if rows = [] then (0, 0)
         else (length rows, max 0 (now - Min (o_created_at ` set rows))))"

record delivery_snapshot =
  measured_at :: time
  unpublished_count :: nat
  oldest_unpublished_at :: "time option"
  newest_unpublished_at :: "time option"
  unpublished_past_attempt_limit :: nat
  last_publish_at :: "time option"

definition min_opt :: "time list \<Rightarrow> time option" where
  "min_opt ts = (if ts = [] then None else Some (Min (set ts)))"

definition max_opt :: "time list \<Rightarrow> time option" where
  "max_opt ts = (if ts = [] then None else Some (Max (set ts)))"

definition outbox_delivery_snapshot :: "settings \<Rightarrow> time \<Rightarrow> uuid \<Rightarrow> db \<Rightarrow> delivery_snapshot" where
  "outbox_delivery_snapshot cfg now tenant d =
     (let rows = filter (\<lambda>e. o_tenant_id e = tenant) (outbox_events d);
          awaiting = filter (\<lambda>e. o_published_at e = None) rows;
          delivered = filter (\<lambda>e. o_published_at e \<noteq> None \<and> o_failed_at e = None) rows
      in \<lparr>measured_at = now,
          unpublished_count = length awaiting,
          oldest_unpublished_at = min_opt (map o_created_at awaiting),
          newest_unpublished_at = max_opt (map o_created_at awaiting),
          unpublished_past_attempt_limit =
            length (filter (\<lambda>e. outbox_max_attempts cfg \<le> o_attempts e) awaiting),
          last_publish_at = max_opt (map (\<lambda>e. the (o_published_at e)) delivered)\<rparr>)"

section \<open>Audit writer\<close>

definition principal_type_user :: string where
  "principal_type_user = ''user''"

definition request_id_max_length :: nat where
  "request_id_max_length = 255"

record audit_args =
  aa_user_id :: "uuid option"
  aa_principal_type :: "string option"
  aa_principal_id :: "uuid option"
  aa_job_id :: "uuid option"
  aa_resource_type :: "string option"
  aa_resource_id :: "string option"
  aa_request_id :: "string option"
  aa_extra_data :: "dict option"
  aa_kafka :: "(string \<times> nat \<times> nat) option"

definition no_args :: audit_args where
  "no_args = \<lparr>aa_user_id = None, aa_principal_type = None, aa_principal_id = None,
     aa_job_id = None, aa_resource_type = None, aa_resource_id = None, aa_request_id = None,
     aa_extra_data = None, aa_kafka = None\<rparr>"

definition audit_log_write :: "string \<Rightarrow> uuid \<Rightarrow> audit_args \<Rightarrow> db \<Rightarrow> db" where
  "audit_log_write action tenant args d =
     (let ptype = (case aa_principal_type args of None \<Rightarrow> principal_type_user | Some t \<Rightarrow> t);
          pid = (if aa_principal_id args = None \<and> ptype = principal_type_user
                 then aa_user_id args else aa_principal_id args)
      in d\<lparr>audit_logs := audit_logs d @
             [\<lparr>a_id = next_uuid d, a_tenant_id = tenant, a_user_id = aa_user_id args,
               a_principal_type = ptype, a_principal_id = pid, a_action = action,
               a_job_id = aa_job_id args, a_resource_type = aa_resource_type args,
               a_resource_id = aa_resource_id args,
               a_request_id = map_option (take request_id_max_length) (aa_request_id args),
               a_extra_data = aa_extra_data args, a_kafka = aa_kafka args\<rparr>],
           next_uuid := Suc (next_uuid d)\<rparr>)"

section \<open>Relay\<close>

datatype publish_outcome = Published | SchemaValidationError string | PublishError string

definition outbox_relay_batch :: nat where
  "outbox_relay_batch = 100"

record relay_result =
  published_ids :: "uuid list"
  retry_ids :: "uuid list"
  dead_lettered :: "(uuid \<times> string) list"

definition empty_result :: relay_result where
  "empty_result = \<lparr>published_ids = [], retry_ids = [], dead_lettered = []\<rparr>"

definition relay_publish_one ::
    "settings \<Rightarrow> (outbox_event \<Rightarrow> publish_outcome) \<Rightarrow> outbox_event \<Rightarrow> relay_result \<Rightarrow> relay_result" where
  "relay_publish_one cfg publish e r =
     (case publish e of
        Published \<Rightarrow> r\<lparr>published_ids := published_ids r @ [o_id e]\<rparr>
      | SchemaValidationError err \<Rightarrow>
          r\<lparr>dead_lettered := dead_lettered r @ [(o_id e, ''schema validation failed: '' @ err)]\<rparr>
      | PublishError err \<Rightarrow>
          (let attempts = o_attempts e + 1
           in if outbox_max_attempts cfg \<le> attempts
              then r\<lparr>dead_lettered := dead_lettered r @
                       [(o_id e, ''abandoned after '' @ show_int attempts @ '' attempts: '' @ err)]\<rparr>
              else r\<lparr>retry_ids := retry_ids r @ [o_id e]\<rparr>))"

definition relay_mark :: "time \<Rightarrow> relay_result \<Rightarrow> db \<Rightarrow> db" where
  "relay_mark now r d =
     fold (\<lambda>(i, err). mark_failed now [i] err) (dead_lettered r)
       (increment_attempts (retry_ids r) (mark_published now (published_ids r) d))"

definition outbox_relay_tick ::
    "settings \<Rightarrow> time \<Rightarrow> (outbox_event \<Rightarrow> publish_outcome) \<Rightarrow> db \<Rightarrow> db" where
  "outbox_relay_tick cfg now publish d =
     (let events = fetch_unpublished cfg outbox_relay_batch d
      in if events = [] then d
         else relay_mark now (fold (relay_publish_one cfg publish) events empty_result) d)"

section \<open>What one pass of the relay does to each row\<close>

definition failed_row :: "time \<Rightarrow> string \<Rightarrow> outbox_event \<Rightarrow> outbox_event" where
  "failed_row now err e =
     e\<lparr>o_published_at := Some now, o_failed_at := Some now,
       o_error_message := Some (take error_message_max_chars err)\<rparr>"

text \<open>The row after its publish attempt: delivered, abandoned, or one attempt older.\<close>

definition relayed_row :: "settings \<Rightarrow> time \<Rightarrow> (outbox_event \<Rightarrow> publish_outcome) \<Rightarrow> outbox_event \<Rightarrow> outbox_event" where
  "relayed_row cfg now publish e =
     (case publish e of
        Published \<Rightarrow> e\<lparr>o_published_at := Some now\<rparr>
      | SchemaValidationError err \<Rightarrow> failed_row now (''schema validation failed: '' @ err) e
      | PublishError err \<Rightarrow>
          if o_attempts e + 1 < outbox_max_attempts cfg then e\<lparr>o_attempts := o_attempts e + 1\<rparr>
          else failed_row now (''abandoned after '' @ show_int (o_attempts e + 1) @ '' attempts: '' @ err) e)"

definition gives_up :: "settings \<Rightarrow> (outbox_event \<Rightarrow> publish_outcome) \<Rightarrow> outbox_event \<Rightarrow> string option" where
  "gives_up cfg publish e =
     (case publish e of
        Published \<Rightarrow> None
      | SchemaValidationError err \<Rightarrow> Some (''schema validation failed: '' @ err)
      | PublishError err \<Rightarrow>
          if o_attempts e + 1 < outbox_max_attempts cfg then None
          else Some (''abandoned after '' @ show_int (o_attempts e + 1) @ '' attempts: '' @ err))"

definition retried :: "settings \<Rightarrow> (outbox_event \<Rightarrow> publish_outcome) \<Rightarrow> outbox_event \<Rightarrow> bool" where
  "retried cfg publish e \<longleftrightarrow> publish e \<noteq> Published \<and> gives_up cfg publish e = None"

lemma relay_collect:
  "fold (relay_publish_one cfg publish) es r =
     \<lparr>published_ids = published_ids r @ map o_id (filter (\<lambda>e. publish e = Published) es),
      retry_ids = retry_ids r @ map o_id (filter (retried cfg publish) es),
      dead_lettered = dead_lettered r @
        map (\<lambda>e. (o_id e, the (gives_up cfg publish e))) (filter (\<lambda>e. gives_up cfg publish e \<noteq> None) es)\<rparr>"
  by (induction es arbitrary: r)
    (auto simp: relay_publish_one_def retried_def gives_up_def Let_def split: publish_outcome.split)

lemma fold_mark_failed:
  "distinct (map fst dl) \<Longrightarrow>
   outbox_events (fold (\<lambda>(i, err). mark_failed now [i] err) dl d) =
     map (\<lambda>x. case map_of dl (o_id x) of None \<Rightarrow> x | Some err \<Rightarrow> failed_row now err x) (outbox_events d)"
proof (induction dl arbitrary: d)
  case (Cons p dl)
  obtain i err where p: "p = (i, err)" by (cases p)
  have "map_of dl i = None" using Cons.prems p by (simp add: map_of_eq_None_iff)
  then show ?case
    using Cons.IH [of "mark_failed now [i] err d"] Cons.prems p
    by (auto simp: mark_failed_def update_where_def failed_row_def split: option.split)
qed simp

lemma fold_mark_failed_frame:
  "jobs (fold (\<lambda>(i, err). mark_failed now [i] err) dl d) = jobs d
   \<and> job_dependencies (fold (\<lambda>(i, err). mark_failed now [i] err) dl d) = job_dependencies d
   \<and> sagas (fold (\<lambda>(i, err). mark_failed now [i] err) dl d) = sagas d
   \<and> next_uuid (fold (\<lambda>(i, err). mark_failed now [i] err) dl d) = next_uuid d"
  by (induction dl arbitrary: d) (auto simp: mark_failed_def)

lemma in_filter_ids:
  "distinct (map o_id rows) \<Longrightarrow> set es \<subseteq> set rows \<Longrightarrow> x \<in> set rows \<Longrightarrow>
   o_id x \<in> o_id ` set (filter P es) \<longleftrightarrow> x \<in> set es \<and> P x"
  by (auto simp: distinct_map inj_on_def)

lemma map_of_filter_ids:
  assumes "distinct (map o_id rows)" "set es \<subseteq> set rows" "x \<in> set rows"
  shows "map_of (map (\<lambda>e. (o_id e, f e)) (filter P es)) (o_id x) = (if x \<in> set es \<and> P x then Some (f x) else None)"
  using assms(2)
proof (induction es)
  case (Cons e es)
  have "o_id e = o_id x \<longleftrightarrow> e = x"
    using assms(1,3) Cons.prems by (auto simp: distinct_map inj_on_def)
  then show ?case using Cons by auto
qed simp

lemma mark_published_rows:
  "outbox_events (mark_published now ids d) =
     map (\<lambda>x. if o_id x \<in> set ids then x\<lparr>o_published_at := Some now\<rparr> else x) (outbox_events d)"
  by (simp add: mark_published_def update_where_def)

lemma increment_attempts_rows:
  "outbox_events (increment_attempts ids d) =
     map (\<lambda>x. if o_id x \<in> set ids then x\<lparr>o_attempts := o_attempts x + 1\<rparr> else x) (outbox_events d)"
  by (simp add: increment_attempts_def update_where_def)

lemma relay_mark_rows:
  assumes "distinct (map o_id (outbox_events d))" "set es \<subseteq> set (outbox_events d)" "distinct (map o_id es)"
  shows "outbox_events (relay_mark now (fold (relay_publish_one cfg publish) es empty_result) d) =
    map (\<lambda>e. if e \<in> set es then relayed_row cfg now publish e else e) (outbox_events d)"
proof -
  define pub where "pub = map o_id (filter (\<lambda>e. publish e = Published) es)"
  define ret where "ret = map o_id (filter (retried cfg publish) es)"
  define dead where "dead = map (\<lambda>e. (o_id e, the (gives_up cfg publish e))) (filter (\<lambda>e. gives_up cfg publish e \<noteq> None) es)"
  define g1 where "g1 = (\<lambda>x :: outbox_event. if o_id x \<in> set pub then x\<lparr>o_published_at := Some now\<rparr> else x)"
  define g2 where "g2 = (\<lambda>x :: outbox_event. if o_id x \<in> set ret then x\<lparr>o_attempts := o_attempts x + 1\<rparr> else x)"
  define g3 where "g3 = (\<lambda>x :: outbox_event. case map_of dead (o_id x) of None \<Rightarrow> x | Some err \<Rightarrow> failed_row now err x)"
  have dd: "distinct (map fst dead)" using assms(3) by (simp add: dead_def comp_def distinct_map_filter)
  have "outbox_events (relay_mark now (fold (relay_publish_one cfg publish) es empty_result) d) =
      map g3 (map g2 (map g1 (outbox_events d)))"
  proof -
    have "fold (relay_publish_one cfg publish) es empty_result =
        \<lparr>published_ids = pub, retry_ids = ret, dead_lettered = dead\<rparr>"
      unfolding relay_collect by (simp add: empty_result_def pub_def ret_def dead_def)
    then show ?thesis
      using fold_mark_failed [OF dd, of now "increment_attempts ret (mark_published now pub d)"]
      by (simp add: relay_mark_def increment_attempts_rows mark_published_rows
          flip: g1_def g2_def g3_def)
  qed
  moreover have "g3 (g2 (g1 x)) = (if x \<in> set es then relayed_row cfg now publish x else x)"
    if x: "x \<in> set (outbox_events d)" for x
  proof -
    have "o_id x \<in> set pub \<longleftrightarrow> x \<in> set es \<and> publish x = Published"
      "o_id x \<in> set ret \<longleftrightarrow> x \<in> set es \<and> retried cfg publish x"
      using in_filter_ids [OF assms(1,2) x] by (simp_all add: pub_def ret_def)
    moreover have "map_of dead (o_id x) = (if x \<in> set es \<and> gives_up cfg publish x \<noteq> None
        then Some (the (gives_up cfg publish x)) else None)"
      unfolding dead_def by (rule map_of_filter_ids [OF assms(1,2) x])
    moreover have "o_id (g2 (g1 x)) = o_id x" "o_id (g1 x) = o_id x" by (simp_all add: g1_def g2_def)
    ultimately show ?thesis
      by (auto simp: g1_def g2_def g3_def relayed_row_def gives_up_def retried_def failed_row_def
          split: publish_outcome.splits)
  qed
  ultimately show ?thesis by simp
qed

lemma fetch_unpublished_rows:
  "e \<in> set (fetch_unpublished cfg n d) \<Longrightarrow>
   e \<in> set (outbox_events d) \<and> o_published_at e = None \<and> o_attempts e < outbox_max_attempts cfg"
  by (auto simp: fetch_unpublished_def dest!: in_set_takeD)

lemma fetch_unpublished_distinct:
  assumes "distinct (map o_id (outbox_events d))"
  shows "distinct (map o_id (fetch_unpublished cfg n d))"
proof -
  have "distinct (map o_id (sort_key o_created_at
      (filter (\<lambda>e. o_published_at e = None \<and> o_attempts e < outbox_max_attempts cfg) (outbox_events d))))"
    using assms by (auto simp: distinct_map inj_on_def)
  then show ?thesis by (simp add: fetch_unpublished_def flip: take_map)
qed

lemma relay_rows:
  assumes "distinct (map o_id (outbox_events d))"
  shows "outbox_events (outbox_relay_tick cfg now publish d) =
    map (\<lambda>e. if e \<in> set (fetch_unpublished cfg 100 d) then relayed_row cfg now publish e else e) (outbox_events d)"
proof (cases "fetch_unpublished cfg 100 d = []")
  case True
  then show ?thesis by (simp add: outbox_relay_tick_def outbox_relay_batch_def)
next
  case False
  then show ?thesis
    using relay_mark_rows [OF assms _ fetch_unpublished_distinct [OF assms]] fetch_unpublished_rows
    by (fastforce simp: outbox_relay_tick_def outbox_relay_batch_def Let_def)
qed

definition sample_event :: "uuid \<Rightarrow> outbox_event" where
  "sample_event i = \<lparr>o_id = i, o_tenant_id = 7, o_topic = ''job.completed'', o_key = ''k'', o_payload = [],
     o_attempts = 0, o_created_at = 0, o_published_at = None, o_failed_at = None, o_error_message = None\<rparr>"

text \<open>
  One pass of the relay settles every row of its page according to how its publish
  attempt ended: delivered; dead-lettered at once on a schema error, or when this failure is
  the last attempt allowed; else one attempt older. No other row of the outbox changes.
\<close>

theorem relay_tick_rows:
  assumes "distinct (map o_id (outbox_events d))"
  shows "outbox_events (outbox_relay_tick cfg now publish d) =
    map (\<lambda>e. if e \<in> set (fetch_unpublished cfg 100 d) then relayed_row cfg now publish e else e) (outbox_events d)"
  using assms by (rule relay_rows)

theorem relay_tick_rows_witness:
  "outbox_events (outbox_relay_tick default_settings 9 (\<lambda>e. if o_id e = 1 then Published else PublishError ''down'')
     (empty_db\<lparr>outbox_events := [sample_event 1, sample_event 2]\<rparr>)) =
   [(sample_event 1)\<lparr>o_published_at := Some 9\<rparr>, (sample_event 2)\<lparr>o_attempts := 1\<rparr>]"
  using relay_tick_rows [of "empty_db\<lparr>outbox_events := [sample_event 1, sample_event 2]\<rparr>" default_settings 9
      "\<lambda>e. if o_id e = 1 then Published else PublishError ''down''"]
  by (simp add: fetch_unpublished_def sample_event_def default_settings_def relayed_row_def)

section \<open>The outbox drains\<close>

definition outbox_ok :: "settings \<Rightarrow> db \<Rightarrow> bool" where
  "outbox_ok cfg d \<longleftrightarrow> distinct (map o_id (outbox_events d))
     \<and> (\<forall>e \<in> set (outbox_events d). o_published_at e = None \<longrightarrow> o_attempts e < outbox_max_attempts cfg)"

definition waiting_rows :: "db \<Rightarrow> outbox_event list" where
  "waiting_rows d = filter (\<lambda>e. o_published_at e = None) (outbox_events d)"

lemma relayed_row_cases:
  "o_id (relayed_row cfg now publish e) = o_id e"
  "o_published_at (relayed_row cfg now publish e) = None \<Longrightarrow> o_published_at e = None \<Longrightarrow>
     o_attempts (relayed_row cfg now publish e) = o_attempts e + 1
     \<and> o_attempts e + 1 < outbox_max_attempts cfg"
  by (auto simp: relayed_row_def failed_row_def split: publish_outcome.splits if_splits)

lemma outbox_ok_tick:
  assumes "outbox_ok cfg d"
  shows "outbox_ok cfg (outbox_relay_tick cfg now publish d)"
proof -
  have dist: "distinct (map o_id (outbox_events d))" using assms by (simp add: outbox_ok_def)
  have "map o_id (outbox_events (outbox_relay_tick cfg now publish d)) = map o_id (outbox_events d)"
    by (simp add: relay_rows [OF dist] relayed_row_cases(1))
  moreover have "o_attempts e < outbox_max_attempts cfg"
    if e: "e \<in> set (outbox_events (outbox_relay_tick cfg now publish d))" "o_published_at e = None" for e
  proof -
    let ?P = "fetch_unpublished cfg 100 d"
    obtain e' where e': "e' \<in> set (outbox_events d)"
        "e = (if e' \<in> set ?P then relayed_row cfg now publish e' else e')"
      using e(1) unfolding relay_rows [OF dist] by auto
    show ?thesis
    proof (cases "e' \<in> set ?P")
      case True
      then show ?thesis
        using e(2) e'(2) relayed_row_cases(2) [of cfg now publish e'] fetch_unpublished_rows [OF True] by simp
    next
      case False
      then show ?thesis using e(2) e' assms by (simp add: outbox_ok_def)
    qed
  qed
  ultimately show ?thesis using dist by (simp add: outbox_ok_def)
qed

lemma fetch_all:
  assumes "outbox_ok cfg d" "length (waiting_rows d) \<le> 100"
  shows "set (fetch_unpublished cfg 100 d) = set (waiting_rows d)"
proof -
  have "filter (\<lambda>e. o_published_at e = None \<and> o_attempts e < outbox_max_attempts cfg) (outbox_events d) = waiting_rows d"
    using assms(1) by (auto simp: waiting_rows_def outbox_ok_def intro!: filter_cong)
  then show ?thesis using assms(2) by (simp add: fetch_unpublished_def)
qed

lemma waiting_rows_tick:
  assumes "outbox_ok cfg d" "length (waiting_rows d) \<le> 100"
  shows "length (waiting_rows (outbox_relay_tick cfg now publish d)) \<le> length (waiting_rows d)
    \<and> (\<forall>e \<in> set (waiting_rows (outbox_relay_tick cfg now publish d)).
         \<exists>e' \<in> set (waiting_rows d). o_attempts e = o_attempts e' + 1)"
proof -
  let ?f = "\<lambda>e. if e \<in> set (fetch_unpublished cfg 100 d) then relayed_row cfg now publish e else e"
  have dist: "distinct (map o_id (outbox_events d))" using assms(1) by (simp add: outbox_ok_def)
  have W: "waiting_rows (outbox_relay_tick cfg now publish d) =
      map ?f (filter (\<lambda>e. o_published_at (?f e) = None) (outbox_events d))"
    by (simp add: waiting_rows_def relay_rows [OF dist] filter_map comp_def)
  have sub: "o_published_at e = None" if "o_published_at (?f e) = None" "e \<in> set (outbox_events d)" for e
    using that fetch_unpublished_rows [of e cfg 100 d] by (auto split: if_splits)
  have "filter (\<lambda>e. o_published_at (?f e) = None) (outbox_events d) =
      filter (\<lambda>e. o_published_at (?f e) = None) (waiting_rows d)"
    unfolding waiting_rows_def filter_filter using sub by (intro filter_cong refl) blast
  then have "length (waiting_rows (outbox_relay_tick cfg now publish d)) \<le> length (waiting_rows d)"
    unfolding W by simp
  moreover have "\<exists>e' \<in> set (waiting_rows d). o_attempts e = o_attempts e' + 1"
    if e: "e \<in> set (waiting_rows (outbox_relay_tick cfg now publish d))" for e
  proof -
    obtain e' where e': "e' \<in> set (outbox_events d)" "o_published_at (?f e') = None" "e = ?f e'"
      using e unfolding W by auto
    have "e' \<in> set (waiting_rows d)" using sub [OF e'(2,1)] e'(1) by (simp add: waiting_rows_def)
    then have "e' \<in> set (fetch_unpublished cfg 100 d)" by (simp add: fetch_all [OF assms])
    then show ?thesis
      using e' \<open>e' \<in> set (waiting_rows d)\<close> relayed_row_cases(2) [of cfg now publish e'] sub [OF e'(2,1)] by auto
  qed
  ultimately show ?thesis by blast
qed

lemma relay_ticks:
  assumes "outbox_ok cfg d" "length (waiting_rows d) \<le> 100" "\<forall>e \<in> set (waiting_rows d). k \<le> o_attempts e"
  shows "(\<forall>e \<in> set (waiting_rows (fold (\<lambda>(now, publish). outbox_relay_tick cfg now publish) ticks d)).
    k + int (length ticks) \<le> o_attempts e)
    \<and> outbox_ok cfg (fold (\<lambda>(now, publish). outbox_relay_tick cfg now publish) ticks d)"
  using assms
proof (induction ticks arbitrary: d k)
  case (Cons t ticks)
  obtain now publish where t: "t = (now, publish)" by (cases t)
  let ?d = "outbox_relay_tick cfg now publish d"
  have "outbox_ok cfg ?d" by (rule outbox_ok_tick) (rule Cons.prems(1))
  moreover have "length (waiting_rows ?d) \<le> 100" "\<forall>e \<in> set (waiting_rows ?d). k + 1 \<le> o_attempts e"
    using waiting_rows_tick [OF Cons.prems(1,2), of now publish] Cons.prems(2,3) by force+
  ultimately show ?case using Cons.IH [of ?d "k + 1"] by (simp add: t add.assoc)
qed simp

text \<open>
  Property C10. No row can block delivery for ever: with at most a page of undelivered rows, after
  \<open>outbox_max_attempts\<close> passes every row has been settled, whatever the broker did on each of
  them.
\<close>

theorem outbox_drains:
  assumes "outbox_ok cfg d" "length (waiting_rows d) \<le> 100" "\<forall>e \<in> set (outbox_events d). 0 \<le> o_attempts e"
    and "outbox_max_attempts cfg \<le> int (length ticks)"
  shows "waiting_rows (fold (\<lambda>(now, publish). outbox_relay_tick cfg now publish) ticks d) = []"
proof (rule ccontr)
  let ?d = "fold (\<lambda>(now, publish). outbox_relay_tick cfg now publish) ticks d"
  assume "waiting_rows ?d \<noteq> []"
  then obtain e where e: "e \<in> set (waiting_rows ?d)" by (cases "waiting_rows ?d") auto
  have "\<forall>e \<in> set (waiting_rows d). 0 \<le> o_attempts e" using assms(3) by (simp add: waiting_rows_def)
  note end_state = relay_ticks [OF assms(1,2) this, of ticks]
  have "int (length ticks) \<le> o_attempts e" using end_state e by fastforce
  moreover have "o_attempts e < outbox_max_attempts cfg"
    using end_state e by (auto simp: outbox_ok_def waiting_rows_def)
  ultimately show False using assms(4) by linarith
qed

theorem outbox_drains_witness:
  "waiting_rows (fold (\<lambda>(now, publish). outbox_relay_tick (default_settings\<lparr>outbox_max_attempts := 2\<rparr>) now publish)
     [(1, \<lambda>_. PublishError ''down''), (2, \<lambda>_. PublishError ''down'')]
     (empty_db\<lparr>outbox_events := [sample_event 1, sample_event 2]\<rparr>)) = []"
  by (rule outbox_drains) (simp_all add: outbox_ok_def waiting_rows_def sample_event_def)

end
