(* ===== verification/Job_Events.thy ===== *)
theory Job_Events
  imports Models
begin

text \<open>
  The payloads of the terminal lifecycle events, \<open>schemas/job_events.py\<close>.
\<close>

definition dlq_payload_max_bytes :: nat where
  "dlq_payload_max_bytes = 4096"

definition dlq_event_keys :: "string set" where
  "dlq_event_keys = {''event'', ''tenant_id'', ''job_id'', ''user_id'', ''job_type'', ''error'',
     ''message'', ''retry_count'', ''max_attempts'', ''max_retries'', ''payload'', ''trace_id'',
     ''dead_lettered''}"

definition completed_event_keys :: "string set" where
  "completed_event_keys = {''event'', ''tenant_id'', ''job_id'', ''user_id'', ''job_type'',
     ''result'', ''retry_count''}"

definition cancelled_event_keys :: "string set" where
  "cancelled_event_keys = {''event'', ''tenant_id'', ''job_id'', ''user_id'', ''job_type'',
     ''reason'', ''retry_count'', ''trace_id''}"

definition unspecified_error :: string where
  "unspecified_error = ''job dead-lettered without a recorded error''"

definition unspecified_cancel_reason :: string where
  "unspecified_cancel_reason = ''job cancelled without a recorded reason''"

definition trace_carrier_key :: string where
  "trace_carrier_key = ''__traceparent''"

text \<open>\<open>text or fallback\<close>: \<open>None\<close> and the empty string both fall back.\<close>

definition str_or :: "string option \<Rightarrow> string \<Rightarrow> string" where
  "str_or s fallback = (case s of None \<Rightarrow> fallback | Some t \<Rightarrow> if t = [] then fallback else t)"

definition payload_for_event :: "settings \<Rightarrow> dict option \<Rightarrow> dict option" where
  "payload_for_event cfg payload =
     (case payload of
        None \<Rightarrow> None
      | Some p \<Rightarrow>
          (case json_dumps (float_repr cfg) (JObj p) of
             None \<Rightarrow> None
           | Some text \<Rightarrow>
               (let size = length text
                in if size \<le> dlq_payload_max_bytes then Some p
                   else Some [(''_truncated'', JBool True), (''_original_bytes'', JInt (int size))])))"

definition jdict_opt :: "dict option \<Rightarrow> json" where
  "jdict_opt p = (case p of None \<Rightarrow> JNull | Some q \<Rightarrow> JObj q)"

definition dlq_event_payload :: "settings \<Rightarrow> job \<Rightarrow> string option \<Rightarrow> dict" where
  "dlq_event_payload cfg j message =
     (let err = str_or (j_error_message j) unspecified_error
      in [(''event'', JStr ''job.failed''),
          (''tenant_id'', juuid (j_tenant_id j)),
          (''job_id'', juuid (j_id j)),
          (''user_id'', juuid (j_user_id j)),
          (''job_type'', JStr (j_type j)),
          (''error'', JStr err),
          (''message'', JStr (case message of None \<Rightarrow> err | Some m \<Rightarrow> m)),
          (''retry_count'', JInt (j_retry_count j)),
          (''max_attempts'', JInt (j_max_attempts j)),
          (''max_retries'', JInt (j_max_attempts j)),
          (''payload'', jdict_opt (payload_for_event cfg
             (Some (drop_key trace_carrier_key (case j_payload j of None \<Rightarrow> [] | Some p \<Rightarrow> p))))),
          (''trace_id'', jstr_opt (j_trace_id j)),
          (''dead_lettered'', JBool True)])"

definition cancelled_event_payload :: "job \<Rightarrow> dict" where
  "cancelled_event_payload j =
     [(''event'', JStr ''job.cancelled''),
      (''tenant_id'', juuid (j_tenant_id j)),
      (''job_id'', juuid (j_id j)),
      (''user_id'', juuid (j_user_id j)),
      (''job_type'', JStr (j_type j)),
      (''reason'', JStr (str_or (j_error_message j) unspecified_cancel_reason)),
      (''retry_count'', JInt (j_retry_count j)),
      (''trace_id'', jstr_opt (j_trace_id j))]"

definition completed_event_payload :: "job \<Rightarrow> dict" where
  "completed_event_payload j =
     [(''event'', JStr ''job.completed''),
      (''tenant_id'', juuid (j_tenant_id j)),
      (''job_id'', juuid (j_id j)),
      (''user_id'', juuid (j_user_id j)),
      (''job_type'', JStr (j_type j)),
      (''result'', jdict_opt (j_result j)),
      (''retry_count'', JInt (j_retry_count j))]"

section \<open>The contract of the events\<close>

text \<open>
  Property C37. The three terminal events carry exactly their declared key sets, each key once;
  the dead-letter event always has a non-empty error text, and the tracing carrier never rides
  along in its copy of the job's payload.
\<close>

theorem event_contract:
  "set (map fst (dlq_event_payload cfg j m)) = dlq_event_keys \<and> distinct (map fst (dlq_event_payload cfg j m))
   \<and> set (map fst (completed_event_payload j)) = completed_event_keys \<and> distinct (map fst (completed_event_payload j))
   \<and> set (map fst (cancelled_event_payload j)) = cancelled_event_keys \<and> distinct (map fst (cancelled_event_payload j))
   \<and> (\<exists>err. err \<noteq> [] \<and> jget (dlq_event_payload cfg j m) ''error'' = JStr err)
   \<and> (case jget (dlq_event_payload cfg j m) ''payload'' of
        JObj q \<Rightarrow> jget q trace_carrier_key = JNull | v \<Rightarrow> v = JNull)"
proof -
  have "\<exists>err. err \<noteq> [] \<and> jget (dlq_event_payload cfg j m) ''error'' = JStr err"
    by (auto simp: dlq_event_payload_def Let_def str_or_def unspecified_error_def split: option.split)
  moreover have "case jdict_opt (payload_for_event cfg (Some (drop_key trace_carrier_key q))) of
      JObj q \<Rightarrow> jget q trace_carrier_key = JNull | v \<Rightarrow> v = JNull" for q
    by (auto simp: payload_for_event_def jdict_opt_def Let_def jget_drop_key trace_carrier_key_def
        split: option.split)
  then have "case jget (dlq_event_payload cfg j m) ''payload'' of
      JObj q \<Rightarrow> jget q trace_carrier_key = JNull | v \<Rightarrow> v = JNull"
    by (simp add: dlq_event_payload_def Let_def)
  ultimately show ?thesis
    by (auto simp: dlq_event_payload_def completed_event_payload_def cancelled_event_payload_def
        dlq_event_keys_def completed_event_keys_def cancelled_event_keys_def Let_def)
qed

lemma length_show_nat: "0 < k \<Longrightarrow> n < 10 ^ k \<Longrightarrow> length (show_nat n) \<le> k"
proof (induction k arbitrary: n)
  case (Suc k)
  show ?case
  proof (cases "n < 10")
    case True
    then show ?thesis by (simp add: show_nat.simps [of n])
  next
    case False
    have "0 < k" using Suc.prems(2) False by (cases k) auto
    moreover have "n div 10 < 10 ^ k" using Suc.prems(2) by (simp add: less_mult_imp_div_less mult.commute)
    ultimately show ?thesis using Suc.IH [of "n div 10"] False by (simp add: show_nat.simps [of n])
  qed
qed simp

lemma dump_marker:
  "json_dumps fr (JObj [(''_truncated'', JBool True), (''_original_bytes'', JInt (int n))]) =
     Some (''{'' @ dump_str ''_truncated'' @ '': true, '' @ dump_str ''_original_bytes'' @ '': '' @ show_nat n @ ''}'')"
  by (simp add: show_int_def)

lemma dump_marker_length:
  "length (dump_str ''_truncated'') = 12" "length (dump_str ''_original_bytes'') = 17"
  by code_simp+

text \<open>
  The copy of the payload on a dead-letter event serialises to at most 4096 bytes: a
  payload that fits is copied whole, a larger one is replaced by a marker with its size (for
  any size of up to a thousand digits).
\<close>

theorem dlq_copy_bounded:
  assumes "json_dumps (float_repr cfg) (JObj p) = Some text" "length text < 10 ^ 1000"
  shows "\<exists>q text'. payload_for_event cfg (Some p) = Some q \<and> json_dumps (float_repr cfg) (JObj q) = Some text'
    \<and> length text' \<le> 4096 \<and> (length text \<le> 4096 \<longrightarrow> q = p)"
proof (cases "length text \<le> 4096")
  case True
  then show ?thesis
    using assms(1) by (simp add: payload_for_event_def dlq_payload_max_bytes_def del: json_dumps.simps)
next
  case False
  let ?q = "[(''_truncated'', JBool True), (''_original_bytes'', JInt (int (length text)))]"
  let ?t = "''{'' @ dump_str ''_truncated'' @ '': true, '' @ dump_str ''_original_bytes'' @ '': '' @ show_nat (length text) @ ''}''"
  have "payload_for_event cfg (Some p) = Some ?q"
    unfolding payload_for_event_def option.case assms(1) Let_def dlq_payload_max_bytes_def
    using False by (simp only: if_False)
  moreover have "length (show_nat (length text)) \<le> 1000"
    by (rule length_show_nat) (simp, rule assms(2))
  then have "length ?t \<le> 4096" by (simp add: dump_marker_length)
  ultimately show ?thesis using False dump_marker [of "float_repr cfg" "length text"] by blast
qed

theorem dlq_copy_bounded_witness:
  "\<exists>q text'. payload_for_event default_settings (Some [(''rows'', JInt 3)]) = Some q
     \<and> json_dumps (float_repr default_settings) (JObj q) = Some text' \<and> length text' \<le> 4096
     \<and> q = [(''rows'', JInt 3)]"
proof -
  let ?p = "[(''rows'', JInt 3)]"
  have eq: "json_dumps (float_repr default_settings) (JObj ?p) = Some (''{'' @ dump_str ''rows'' @ '': 3}'')"
    by (simp add: show_int_def show_nat.simps digit_char_def)
  have len: "length (''{'' @ dump_str ''rows'' @ '': 3}'') = 11" by code_simp
  have small: "(11 :: nat) < 10 ^ 1000"
    by (rule less_le_trans [of _ "10 ^ 2"], simp, rule power_increasing) simp_all
  show ?thesis using dlq_copy_bounded [OF eq, unfolded len, OF small] by fastforce
qed

end
