(* ===== verification/Job_Repository.thy ===== *)
theory Job_Repository
  imports Outbox Job_Events
begin

text \<open>
  The \<open>jobs\<close> table: \<open>repositories/job.py\<close> and \<open>repositories/job_dependency.py\<close>. Every
  write that reaches a terminal status also adds the outbox row that announces it, and a
  parent that can no longer complete cancels the waiting jobs below it.
\<close>

section \<open>Base repository (\<open>repositories/base.py\<close>)\<close>

text \<open>
  \<open>create\<close>: the row as given, with a fresh primary key and the server's clock in the two
  timestamp columns.
\<close>

definition job_create :: "time \<Rightarrow> job \<Rightarrow> db \<Rightarrow> job \<times> db" where
  "job_create now row d =
     (let j = row\<lparr>j_id := next_uuid d, j_created_at := now, j_updated_at := now\<rparr>
      in (j, d\<lparr>jobs := jobs d @ [j], next_uuid := Suc (next_uuid d)\<rparr>))"

definition new_job :: "uuid \<Rightarrow> uuid \<Rightarrow> string \<Rightarrow> job_status \<Rightarrow> job" where
  "new_job tenant user ty st = \<lparr>
     j_id = 0, j_tenant_id = tenant, j_user_id = user, j_type = ty, j_status = st,
     j_idempotency_key = None, j_payload = None, j_result = None, j_error_message = None,
     j_retry_count = 0, j_max_attempts = 0, j_remediation_hint = None, j_dead_lettered_by = None,
     j_fenced_at = None, j_fenced_by = None, j_priority = 0, j_trace_id = None,
     j_started_at = None, j_completed_at = None, j_requeued_at = None, j_heartbeat_at = None,
     j_saga_id = None, j_saga_step_index = None, j_created_at = 0, j_updated_at = 0\<rparr>"

section \<open>Reads\<close>

definition get_by_idempotency_key :: "string \<Rightarrow> uuid \<Rightarrow> db \<Rightarrow> job option" where
  "get_by_idempotency_key key tenant d =
     find (\<lambda>j. j_idempotency_key j = Some key \<and> j_tenant_id j = tenant) (jobs d)"

definition get_for_tenant :: "uuid \<Rightarrow> uuid \<Rightarrow> db \<Rightarrow> job option" where
  "get_for_tenant i tenant d = find (\<lambda>j. j_id j = i \<and> j_tenant_id j = tenant) (jobs d)"

datatype job_sort = SORT_CREATED_AT | SORT_DEAD_LETTERED_AT

record job_filter =
  f_user_id :: "uuid option"
  f_status :: "job_status option"
  f_job_type :: "string option"
  f_trace_id :: "string option"
  f_created_after :: "time option"
  f_created_before :: "time option"
  f_retry_count_min :: "int option"
  f_retry_count_max :: "int option"
  f_remediation_hint :: "string option"
  f_exclude_remediation_hints :: "string list"
  f_require_trace_id :: bool

definition if_given :: "'a option \<Rightarrow> ('a \<Rightarrow> bool) \<Rightarrow> bool" where
  "if_given x p = (case x of None \<Rightarrow> True | Some v \<Rightarrow> p v)"

definition job_matches :: "uuid \<Rightarrow> job_filter \<Rightarrow> job \<Rightarrow> bool" where
  "job_matches tenant f j \<longleftrightarrow>
     j_tenant_id j = tenant
     \<and> if_given (f_user_id f) (\<lambda>u. j_user_id j = u)
     \<and> if_given (f_status f) (\<lambda>s. j_status j = s)
     \<and> if_given (f_job_type f) (\<lambda>t. j_type j = t)
     \<and> if_given (f_trace_id f) (\<lambda>t. j_trace_id j = Some t)
     \<and> if_given (f_created_after f) (\<lambda>t. t \<le> j_created_at j)
     \<and> if_given (f_created_before f) (\<lambda>t. j_created_at j \<le> t)
     \<and> if_given (f_retry_count_min f) (\<lambda>n. n \<le> j_retry_count j)
     \<and> if_given (f_retry_count_max f) (\<lambda>n. j_retry_count j \<le> n)
     \<and> if_given (f_remediation_hint f) (\<lambda>h. j_remediation_hint j = Some h)
     \<and> (f_exclude_remediation_hints f \<noteq> [] \<longrightarrow>
          (case j_remediation_hint j of None \<Rightarrow> True
           | Some h \<Rightarrow> h \<notin> set (f_exclude_remediation_hints f)))
     \<and> (f_require_trace_id f \<longrightarrow> (case j_trace_id j of None \<Rightarrow> False | Some t \<Rightarrow> t \<noteq> []))"

definition sort_column :: "job_sort \<Rightarrow> job \<Rightarrow> time" where
  "sort_column srt j =
     (case srt of
        SORT_DEAD_LETTERED_AT \<Rightarrow> (case j_completed_at j of None \<Rightarrow> j_created_at j | Some t \<Rightarrow> t)
      | SORT_CREATED_AT \<Rightarrow> j_created_at j)"

text \<open>\<open>ORDER BY column DESC, id DESC\<close>: newest first, the id breaks ties.\<close>

definition list_jobs ::
    "uuid \<Rightarrow> nat \<Rightarrow> nat \<Rightarrow> job_filter \<Rightarrow> job_sort \<Rightarrow> db \<Rightarrow> job list \<times> nat" where
  "list_jobs tenant offset limit f srt d =
     (let rows = filter (job_matches tenant f) (jobs d);
          ordered = sort_key (\<lambda>j. - sort_column srt j) (sort_key (\<lambda>j. - int (j_id j)) rows)
      in (take limit (drop offset ordered), length rows))"

section \<open>Status writes\<close>

text \<open>The keyword dictionary \<open>extra\<close>: the columns a caller assigns besides the status.\<close>

datatype job_assignment =
    SetRetryCount int
  | SetErrorMessage "string option"
  | SetResult "dict option"
  | SetDeadLetteredBy "string option"
  | SetRemediationHint "string option"
  | SetFencedAt "time option"
  | SetFencedBy "string option"
  | SetStartedAt "time option"
  | SetCompletedAt "time option"

fun assign :: "job_assignment \<Rightarrow> job \<Rightarrow> job" where
  "assign (SetRetryCount n) j = j\<lparr>j_retry_count := n\<rparr>"
| "assign (SetErrorMessage m) j = j\<lparr>j_error_message := m\<rparr>"
| "assign (SetResult r) j = j\<lparr>j_result := r\<rparr>"
| "assign (SetDeadLetteredBy b) j = j\<lparr>j_dead_lettered_by := b\<rparr>"
| "assign (SetRemediationHint h) j = j\<lparr>j_remediation_hint := h\<rparr>"
| "assign (SetFencedAt t) j = j\<lparr>j_fenced_at := t\<rparr>"
| "assign (SetFencedBy b) j = j\<lparr>j_fenced_by := b\<rparr>"
| "assign (SetStartedAt t) j = j\<lparr>j_started_at := t\<rparr>"
| "assign (SetCompletedAt t) j = j\<lparr>j_completed_at := t\<rparr>"

definition names_started_at :: "job_assignment list \<Rightarrow> bool" where
  "names_started_at extra \<longleftrightarrow> (\<exists>a \<in> set extra. case a of SetStartedAt _ \<Rightarrow> True | _ \<Rightarrow> False)"

definition names_completed_at :: "job_assignment list \<Rightarrow> bool" where
  "names_completed_at extra \<longleftrightarrow> (\<exists>a \<in> set extra. case a of SetCompletedAt _ \<Rightarrow> True | _ \<Rightarrow> False)"

definition terminal_event_statuses :: "job_status list" where
  "terminal_event_statuses = [DEAD_LETTER, COMPLETED, CANCELLED]"

definition completed_at_statuses :: "job_status list" where
  "completed_at_statuses = [COMPLETED, FAILED, DEAD_LETTER, CANCELLED]"

definition cascade_source_statuses :: "job_status list" where
  "cascade_source_statuses = [DEAD_LETTER, CANCELLED]"

definition cascade_max_depth :: nat where
  "cascade_max_depth = 50"

text \<open>The \<open>VALUES\<close> of the update, with \<open>onupdate\<close> stamping \<open>updated_at\<close>.\<close>

definition status_values :: "time \<Rightarrow> job_status \<Rightarrow> job_assignment list \<Rightarrow> job \<Rightarrow> job" where
  "status_values now st extra j =
     (let j1 = fold assign extra (j\<lparr>j_status := st\<rparr>);
          j2 = (if st = RUNNING \<and> \<not> names_started_at extra
                then j1\<lparr>j_started_at := Some now\<rparr> else j1);
          j3 = (if st \<in> set completed_at_statuses \<and> \<not> names_completed_at extra
                then j2\<lparr>j_completed_at := Some now\<rparr> else j2)
      in j3\<lparr>j_updated_at := now\<rparr>)"

definition emit_terminal_event ::
    "settings \<Rightarrow> time \<Rightarrow> job \<Rightarrow> job_status \<Rightarrow> string option \<Rightarrow> db \<Rightarrow> db" where
  "emit_terminal_event cfg now j st msg d =
     (let (topic, payload) =
            (if st = DEAD_LETTER then (kafka_topic_job_dlq cfg, dlq_event_payload cfg j msg)
             else if st = CANCELLED then (kafka_topic_job_cancelled cfg, cancelled_event_payload j)
             else (kafka_topic_job_completed cfg, completed_event_payload j))
      in outbox_add now (j_tenant_id j) topic (partition_key (j_tenant_id j) (j_user_id j)) payload d)"

subsection \<open>Cascade to blocked children\<close>

text \<open>A child the cascade may cancel: waiting, and not a step of a saga.\<close>

definition cancellable :: "job \<Rightarrow> bool" where
  "cancellable j \<longleftrightarrow> j_status j = WAITING \<and> j_saga_id j = None"

definition cascade_targets :: "db \<Rightarrow> uuid list \<Rightarrow> uuid set \<Rightarrow> uuid list" where
  "cascade_targets d frontier seen =
     map d_job_id (filter (\<lambda>e. d_depends_on_job_id e \<in> set frontier
         \<and> (case job_by_id d (d_job_id e) of None \<Rightarrow> False | Some j \<Rightarrow> cancellable j)
         \<and> d_job_id e \<notin> seen) (job_dependencies d))"

definition cancel_values :: "time \<Rightarrow> string \<Rightarrow> job \<Rightarrow> job" where
  "cancel_values now reason j =
     j\<lparr>j_status := CANCELLED, j_error_message := Some reason, j_completed_at := Some now,
       j_updated_at := now\<rparr>"

definition announce_cancelled :: "settings \<Rightarrow> time \<Rightarrow> job \<Rightarrow> db \<Rightarrow> db" where
  "announce_cancelled cfg now c d =
     outbox_add now (j_tenant_id c) (kafka_topic_job_cancelled cfg)
       (partition_key (j_tenant_id c) (j_user_id c)) (cancelled_event_payload c) d"

definition cascade_level :: "settings \<Rightarrow> time \<Rightarrow> string \<Rightarrow> uuid list \<Rightarrow> db \<Rightarrow> nat \<times> db" where
  "cascade_level cfg now reason targets d =
     (let hit = (\<lambda>j. j_id j \<in> set targets \<and> cancellable j);
          d1 = d\<lparr>jobs := update_where hit (cancel_values now reason) (jobs d)\<rparr>;
          newly = filter (\<lambda>j. j_id j \<in> set targets \<and> j_completed_at j = Some now) (jobs d1)
      in (row_count hit (jobs d), fold (announce_cancelled cfg now) newly d1))"

fun cascade_loop ::
    "settings \<Rightarrow> time \<Rightarrow> string \<Rightarrow> nat \<Rightarrow> uuid list \<Rightarrow> uuid set \<Rightarrow> nat \<Rightarrow> db \<Rightarrow> nat \<times> db" where
  "cascade_loop cfg now reason 0 frontier seen cancelled d = (cancelled, d)"
| "cascade_loop cfg now reason (Suc n) frontier seen cancelled d =
     (if frontier = [] then (cancelled, d)
      else let targets = cascade_targets d frontier seen
           in if targets = [] then (cancelled, d)
              else let (k, d1) = cascade_level cfg now reason targets d
                   in cascade_loop cfg now reason n targets (seen \<union> set targets) (cancelled + k) d1)"

definition cascade_cancel_blocked_children ::
    "settings \<Rightarrow> time \<Rightarrow> uuid \<Rightarrow> job_status \<Rightarrow> db \<Rightarrow> nat \<times> db" where
  "cascade_cancel_blocked_children cfg now parent st d =
     cascade_loop cfg now
       (''dependency parent '' @ uuid_str parent @ '' ended in '' @ job_status_value st)
       cascade_max_depth [parent] {parent} 0 d"

subsection \<open>\<open>update_status\<close>\<close>

definition update_status ::
    "settings \<Rightarrow> time \<Rightarrow> uuid \<Rightarrow> job_status \<Rightarrow> job_assignment list \<Rightarrow> string option
      \<Rightarrow> (job \<Rightarrow> bool) option \<Rightarrow> db \<Rightarrow> job option \<times> db" where
  "update_status cfg now i st extra msg guard d =
     (let hit = (\<lambda>j. j_id j = i \<and> (case guard of None \<Rightarrow> True | Some g \<Rightarrow> g j));
          d1 = d\<lparr>jobs := update_where hit (status_values now st extra) (jobs d)\<rparr>
      in if guard \<noteq> None \<and> row_count hit (jobs d) \<noteq> 1 then (None, d1)
         else let job = job_by_id d1 i;
                  d2 = (case job of None \<Rightarrow> d1
                        | Some j \<Rightarrow> if st \<in> set terminal_event_statuses
                                    then emit_terminal_event cfg now j st msg d1 else d1);
                  d3 = (if job \<noteq> None \<and> st \<in> set cascade_source_statuses
                        then snd (cascade_cancel_blocked_children cfg now i st d2) else d2)
              in (job, d3))"

subsection \<open>Compare-and-set writes\<close>

definition claim_for_running :: "time \<Rightarrow> uuid \<Rightarrow> db \<Rightarrow> bool \<times> db" where
  "claim_for_running now i d =
     (let hit = (\<lambda>j. j_id j = i \<and> j_status j = PENDING)
      in (row_count hit (jobs d) = 1,
          d\<lparr>jobs := update_where hit
              (\<lambda>j. j\<lparr>j_status := RUNNING, j_started_at := Some now, j_updated_at := now\<rparr>) (jobs d)\<rparr>))"

definition promote_waiting_to_pending :: "time \<Rightarrow> uuid \<Rightarrow> db \<Rightarrow> bool \<times> db" where
  "promote_waiting_to_pending now i d =
     (let hit = (\<lambda>j. j_id j = i \<and> j_status j = WAITING)
      in (row_count hit (jobs d) = 1,
          d\<lparr>jobs := update_where hit
              (\<lambda>j. j\<lparr>j_status := PENDING, j_error_message := None, j_updated_at := now\<rparr>) (jobs d)\<rparr>))"

definition set_remediation_hint_if_unset ::
    "time \<Rightarrow> uuid \<Rightarrow> uuid \<Rightarrow> string \<Rightarrow> db \<Rightarrow> bool \<times> db" where
  "set_remediation_hint_if_unset now i tenant hint d =
     (let hit = (\<lambda>j. j_id j = i \<and> j_tenant_id j = tenant \<and> j_remediation_hint j = None)
      in (row_count hit (jobs d) = 1,
          d\<lparr>jobs := update_where hit
              (\<lambda>j. j\<lparr>j_remediation_hint := Some hint, j_updated_at := now\<rparr>) (jobs d)\<rparr>))"

text \<open>
  \<open>started_at >= now - max_age\<close> is not true of a \<open>NULL\<close> column, so a row without it is not
  renewed; \<open>updated_at\<close> is pinned to its own value.
\<close>

definition renew_running_leases :: "time \<Rightarrow> uuid list \<Rightarrow> time \<Rightarrow> db \<Rightarrow> nat \<times> db" where
  "renew_running_leases now ids max_age d =
     (if ids = [] then (0, d)
      else let hit = (\<lambda>j. j_id j \<in> set ids \<and> j_status j = RUNNING
                 \<and> (case j_started_at j of None \<Rightarrow> False | Some t \<Rightarrow> now - max_age \<le> t))
           in (row_count hit (jobs d),
               d\<lparr>jobs := update_where hit (\<lambda>j. j\<lparr>j_heartbeat_at := Some now\<rparr>) (jobs d)\<rparr>))"

definition existing_ids_for_tenant :: "uuid list \<Rightarrow> uuid \<Rightarrow> db \<Rightarrow> uuid set" where
  "existing_ids_for_tenant ids tenant d =
     (if ids = [] then {}
      else j_id ` set (filter (\<lambda>j. j_id j \<in> set ids \<and> j_tenant_id j = tenant) (jobs d)))"

definition dlq_stats :: "uuid \<Rightarrow> db \<Rightarrow> nat \<times> (string \<times> nat) list" where
  "dlq_stats tenant d =
     (let rows = filter (\<lambda>j. j_status j = DEAD_LETTER \<and> j_tenant_id j = tenant) (jobs d);
          by_type = map (\<lambda>t. (t, row_count (\<lambda>j. j_type j = t) rows)) (remdups (map j_type rows))
      in (sum_list (map snd by_type), by_type))"

section \<open>Dependencies (\<open>repositories/job_dependency.py\<close>)\<close>

text \<open>The pair of columns is the primary key, so a repeated edge is an \<open>IntegrityError\<close>.\<close>

definition dep_add :: "uuid \<Rightarrow> uuid list \<Rightarrow> db \<Rightarrow> app_error + db" where
  "dep_add i parents d =
     (let rows = map (\<lambda>p. \<lparr>d_job_id = i, d_depends_on_job_id = p\<rparr>) parents
      in if distinct rows \<and> set rows \<inter> set (job_dependencies d) = {}
         then Inr (d\<lparr>job_dependencies := job_dependencies d @ rows\<rparr>)
         else Inl IntegrityError)"

definition dep_parents :: "uuid \<Rightarrow> db \<Rightarrow> uuid list" where
  "dep_parents i d =
     map d_depends_on_job_id (filter (\<lambda>e. d_job_id e = i) (job_dependencies d))"

definition children_of :: "uuid \<Rightarrow> db \<Rightarrow> uuid list" where
  "children_of p d =
     map d_job_id (filter (\<lambda>e. d_depends_on_job_id e = p) (job_dependencies d))"

definition unmet_count :: "uuid \<Rightarrow> db \<Rightarrow> nat" where
  "unmet_count i d =
     length (filter (\<lambda>e. d_job_id e = i
         \<and> (case job_by_id d (d_depends_on_job_id e) of None \<Rightarrow> False
            | Some p \<Rightarrow> j_status p \<noteq> COMPLETED)) (job_dependencies d))"

section \<open>Invariants of the database\<close>

text \<open>
  \<open>wf_db\<close>: primary keys are unique and were handed out by the supply, and every dependency
  row links two existing jobs, the parent created before the child.
\<close>

definition wf_db :: "db \<Rightarrow> bool" where
  "wf_db d \<longleftrightarrow>
     distinct (map j_id (jobs d)) \<and> (\<forall>j \<in> set (jobs d). j_id j < next_uuid d)
     \<and> distinct (map s_id (sagas d)) \<and> (\<forall>s \<in> set (sagas d). s_id s < next_uuid d)
     \<and> distinct (map o_id (outbox_events d)) \<and> (\<forall>e \<in> set (outbox_events d). o_id e < next_uuid d)
     \<and> (\<forall>e \<in> set (job_dependencies d). d_job_id e \<in> j_id ` set (jobs d)
          \<and> d_depends_on_job_id e \<in> j_id ` set (jobs d) \<and> d_depends_on_job_id e < d_job_id e)"

definition terminal_topic :: "settings \<Rightarrow> job_status \<Rightarrow> string" where
  "terminal_topic cfg st =
     (if st = DEAD_LETTER then kafka_topic_job_dlq cfg
      else if st = CANCELLED then kafka_topic_job_cancelled cfg
      else kafka_topic_job_completed cfg)"

text \<open>An outbox row that announces the status of a job to the job's own tenant and partition.\<close>

definition announces :: "settings \<Rightarrow> job \<Rightarrow> outbox_event \<Rightarrow> bool" where
  "announces cfg j e \<longleftrightarrow>
     o_topic e = terminal_topic cfg (j_status j) \<and> o_tenant_id e = j_tenant_id j
     \<and> o_key e = partition_key (j_tenant_id j) (j_user_id j)
     \<and> jget (o_payload e) ''job_id'' = juuid (j_id j)"

definition announced :: "settings \<Rightarrow> db \<Rightarrow> bool" where
  "announced cfg d \<longleftrightarrow>
     (\<forall>j \<in> set (jobs d). terminal (j_status j) \<longrightarrow> (\<exists>e \<in> set (outbox_events d). announces cfg j e))"

text \<open>The timestamps the sweeps and the admin views rely on.\<close>

definition stamped_job :: "job \<Rightarrow> bool" where
  "stamped_job j \<longleftrightarrow>
     (j_status j = RUNNING \<longrightarrow> j_started_at j \<noteq> None)
     \<and> (terminal (j_status j) \<longrightarrow> j_completed_at j \<noteq> None)"

definition stamped :: "db \<Rightarrow> bool" where
  "stamped d \<longleftrightarrow> (\<forall>j \<in> set (jobs d). stamped_job j)"

definition db_inv :: "settings \<Rightarrow> db \<Rightarrow> bool" where
  "db_inv cfg d \<longleftrightarrow> wf_db d \<and> announced cfg d \<and> stamped d"

text \<open>The columns no operation writes after the insert.\<close>

definition same_identity :: "job \<Rightarrow> job \<Rightarrow> bool" where
  "same_identity j j' \<longleftrightarrow>
     j_id j' = j_id j \<and> j_tenant_id j' = j_tenant_id j \<and> j_user_id j' = j_user_id j
     \<and> j_type j' = j_type j \<and> j_idempotency_key j' = j_idempotency_key j
     \<and> j_payload j' = j_payload j \<and> j_max_attempts j' = j_max_attempts j
     \<and> j_priority j' = j_priority j \<and> j_trace_id j' = j_trace_id j
     \<and> j_saga_id j' = j_saga_id j \<and> j_saga_step_index j' = j_saga_step_index j
     \<and> j_created_at j' = j_created_at j"

lemma same_identity_refl [simp, intro]: "same_identity j j"
  by (simp add: same_identity_def)

lemma same_identity_trans:
  "same_identity a b \<Longrightarrow> same_identity b c \<Longrightarrow> same_identity a c"
  by (simp add: same_identity_def)

lemma assign_frame [simp]:
  "same_identity j (assign a j)" "j_status (assign a j) = j_status j"
  by (cases a; simp add: same_identity_def)+

lemma fold_assign_frame:
  "same_identity j (fold assign extra j) \<and> j_status (fold assign extra j) = j_status j"
proof (induction extra arbitrary: j)
  case (Cons a extra)
  show ?case using Cons.IH [of "assign a j"] same_identity_trans [OF assign_frame(1) [of j a]] by simp
qed simp

lemma fold_assign_started:
  "\<not> names_started_at extra \<Longrightarrow> j_started_at (fold assign extra j) = j_started_at j"
proof (induction extra arbitrary: j)
  case (Cons a extra)
  then show ?case by (cases a) (auto simp: names_started_at_def)
qed simp

lemma status_values_frame:
  "same_identity j (status_values now st extra j) \<and> j_status (status_values now st extra j) = st"
proof -
  define j1 where "j1 = fold assign extra (j\<lparr>j_status := st\<rparr>)"
  have "same_identity j j1" "j_status j1 = st"
    using fold_assign_frame [of "j\<lparr>j_status := st\<rparr>" extra]
    by (simp_all add: same_identity_def j1_def)
  then show ?thesis by (auto simp: status_values_def Let_def same_identity_def simp flip: j1_def)
qed

lemmas status_values_simps [simp] =
  status_values_frame [THEN conjunct1] status_values_frame [THEN conjunct2]
  status_values_frame [THEN conjunct1, unfolded same_identity_def, THEN conjunct1]

lemma status_values_stamped:
  "\<not> names_started_at extra \<Longrightarrow> \<not> names_completed_at extra \<Longrightarrow>
   stamped_job (status_values now st extra j)"
  using fold_assign_frame [of "j\<lparr>j_status := st\<rparr>" extra]
  by (auto simp: stamped_job_def status_values_def Let_def completed_at_statuses_def)

lemma cancel_values_simps [simp]:
  "same_identity j (cancel_values now r j)" "j_status (cancel_values now r j) = CANCELLED"
  "j_id (cancel_values now r j) = j_id j" "stamped_job (cancel_values now r j)"
  "j_completed_at (cancel_values now r j) = Some now"
  by (simp_all add: cancel_values_def same_identity_def stamped_job_def)

lemma event_payload_job_id [simp]:
  "jget (dlq_event_payload cfg j m) ''job_id'' = juuid (j_id j)"
  "jget (cancelled_event_payload j) ''job_id'' = juuid (j_id j)"
  "jget (completed_event_payload j) ''job_id'' = juuid (j_id j)"
  by (simp_all add: dlq_event_payload_def cancelled_event_payload_def completed_event_payload_def Let_def)

subsection \<open>Effect of the elementary statements\<close>

lemma outbox_add_simps [simp, table_simps]:
  "jobs (outbox_add now t topic k p d) = jobs d"
  "job_dependencies (outbox_add now t topic k p d) = job_dependencies d"
  "sagas (outbox_add now t topic k p d) = sagas d"
  "audit_logs (outbox_add now t topic k p d) = audit_logs d"
  "next_uuid (outbox_add now t topic k p d) = Suc (next_uuid d)"
  by (simp_all add: outbox_add_def)

lemma outbox_add_rows:
  "outbox_events (outbox_add now t topic k p d) = outbox_events d @
     [\<lparr>o_id = next_uuid d, o_tenant_id = t, o_topic = topic, o_key = k, o_payload = p,
       o_attempts = 0, o_created_at = now, o_published_at = None, o_failed_at = None,
       o_error_message = None\<rparr>]"
  by (simp add: outbox_add_def)

lemma audit_log_write_simps [simp, table_simps]:
  "jobs (audit_log_write act t args d) = jobs d"
  "job_dependencies (audit_log_write act t args d) = job_dependencies d"
  "sagas (audit_log_write act t args d) = sagas d"
  "outbox_events (audit_log_write act t args d) = outbox_events d"
  "next_uuid (audit_log_write act t args d) = Suc (next_uuid d)"
  by (simp_all add: audit_log_write_def Let_def)

lemma wf_outbox_add [platform_intros]: "wf_db d \<Longrightarrow> wf_db (outbox_add now t topic k p d)"
  by (auto simp: wf_db_def outbox_add_rows less_Suc_eq)

lemma wf_audit_log_write [platform_intros]: "wf_db d \<Longrightarrow> wf_db (audit_log_write act t args d)"
  by (auto simp: wf_db_def less_Suc_eq)

lemma wf_update_jobs:
  assumes "wf_db d" "\<And>j. j_id (f j) = j_id j"
  shows "wf_db (d\<lparr>jobs := update_where P f (jobs d)\<rparr>)"
proof -
  have ids: "map j_id (update_where P f (jobs d)) = map j_id (jobs d)"
    by (rule map_update_where) (rule assms(2))
  then have "j_id ` set (update_where P f (jobs d)) = j_id ` set (jobs d)"
    by (metis list.set_map)
  then show ?thesis
    using assms ids by (auto simp: wf_db_def set_update_where)
qed

lemma announced_mono:
  assumes "announced cfg d" "set (outbox_events d) \<subseteq> set (outbox_events d')"
    and "\<And>j. j \<in> set (jobs d') \<Longrightarrow> terminal (j_status j) \<Longrightarrow>
      (\<exists>j0 \<in> set (jobs d). same_identity j0 j \<and> j_status j0 = j_status j)
      \<or> (\<exists>e \<in> set (outbox_events d'). announces cfg j e)"
  shows "announced cfg d'"
  unfolding announced_def
proof (intro ballI impI)
  fix j assume j: "j \<in> set (jobs d')" "terminal (j_status j)"
  from assms(3) [OF j] show "\<exists>e \<in> set (outbox_events d'). announces cfg j e"
  proof
    assume "\<exists>j0 \<in> set (jobs d). same_identity j0 j \<and> j_status j0 = j_status j"
    then obtain j0 where j0: "j0 \<in> set (jobs d)" "same_identity j0 j" "j_status j0 = j_status j"
      by blast
    with assms(1) j(2) obtain e where "e \<in> set (outbox_events d)" "announces cfg j0 e"
      unfolding announced_def by metis
    moreover from this(2) j0 have "announces cfg j e"
      by (simp add: announces_def same_identity_def)
    ultimately show ?thesis using assms(2) by blast
  qed
qed

lemma wf_job_unique:
  "wf_db d \<Longrightarrow> job_by_id d i = Some j \<Longrightarrow> x \<in> set (jobs d) \<Longrightarrow> j_id x = i \<Longrightarrow> x = j"
  using get_by_Some_iff [of j_id "jobs d" i x] by (simp add: wf_db_def)

lemma wf_job_by_id: "wf_db d \<Longrightarrow> j \<in> set (jobs d) \<Longrightarrow> job_by_id d (j_id j) = Some j"
  by (simp add: wf_db_def get_by_Some_iff)

text \<open>
  A job update that never moves a job into a terminal status, with any new outbox rows, keeps
  the announcement invariant; it is the shape of every claim, promotion and lease renewal.
\<close>

lemma announced_update_jobs:
  assumes "announced cfg d" "\<And>j. same_identity j (f j)"
    and "\<And>j. P j \<Longrightarrow> terminal (j_status (f j)) \<Longrightarrow> j_status (f j) = j_status j"
  shows "announced cfg (d\<lparr>jobs := update_where P f (jobs d)\<rparr>)"
proof (rule announced_mono [OF assms(1)])
  fix j assume "j \<in> set (jobs (d\<lparr>jobs := update_where P f (jobs d)\<rparr>))" and t: "terminal (j_status j)"
  then obtain x where "x \<in> set (jobs d)" "j = (if P x then f x else x)"
    by (auto simp: set_update_where)
  with t assms(2) [of x] assms(3) [of x]
  have "\<exists>j0 \<in> set (jobs d). same_identity j0 j \<and> j_status j0 = j_status j"
    by (intro bexI [of _ x]) auto
  then show "(\<exists>j0 \<in> set (jobs d). same_identity j0 j \<and> j_status j0 = j_status j)
      \<or> (\<exists>e \<in> set (outbox_events (d\<lparr>jobs := update_where P f (jobs d)\<rparr>)). announces cfg j e)" ..
qed simp

lemma stamped_update_jobs:
  assumes "stamped d" "\<And>j. P j \<Longrightarrow> stamped_job j \<Longrightarrow> stamped_job (f j)"
  shows "stamped (d\<lparr>jobs := update_where P f (jobs d)\<rparr>)"
  using assms by (auto simp: stamped_def set_update_where)

lemma announced_outbox_add [platform_intros]:
  "announced cfg d \<Longrightarrow> announced cfg (outbox_add now t topic k p d)"
  by (rule announced_mono) (auto simp: outbox_add_rows)

lemma announced_audit_log_write [platform_intros]:
  "announced cfg d \<Longrightarrow> announced cfg (audit_log_write act t args d)"
  by (rule announced_mono) auto

lemma stamped_writes [platform_intros]:
  "stamped d \<Longrightarrow> stamped (outbox_add now t topic k p d)"
  "stamped d \<Longrightarrow> stamped (audit_log_write act t args d)"
  by (simp_all add: stamped_def)

lemma db_inv_outbox_add [platform_intros]:
  "db_inv cfg d \<Longrightarrow> db_inv cfg (outbox_add now t topic k p d)"
  by (simp add: db_inv_def wf_outbox_add announced_outbox_add stamped_writes)

lemma db_inv_audit_log_write [platform_intros]:
  "db_inv cfg d \<Longrightarrow> db_inv cfg (audit_log_write act t args d)"
  by (simp add: db_inv_def wf_audit_log_write announced_audit_log_write stamped_writes)

section \<open>The cascade\<close>

text \<open>
  Specification of the cascade. \<open>blocked d F m c\<close>: the job \<open>c\<close> waits below the jobs \<open>F\<close> on
  a path of \<open>m\<close> edges whose jobs after \<open>F\<close> all wait outside a saga. The cascade from a
  parent cancels exactly the jobs blocked by it within the depth bound.
\<close>

definition waiting_free :: "db \<Rightarrow> uuid \<Rightarrow> bool" where
  "waiting_free d i = (case job_by_id d i of None \<Rightarrow> False | Some j \<Rightarrow> cancellable j)"

definition dep_edge :: "db \<Rightarrow> uuid \<Rightarrow> uuid \<Rightarrow> bool" where
  "dep_edge d c p \<longleftrightarrow> (\<exists>e \<in> set (job_dependencies d). d_job_id e = c \<and> d_depends_on_job_id e = p)"

inductive blocked :: "db \<Rightarrow> uuid set \<Rightarrow> nat \<Rightarrow> uuid \<Rightarrow> bool" for d F where
  blocked_child: "f \<in> F \<Longrightarrow> dep_edge d c f \<Longrightarrow> waiting_free d c \<Longrightarrow> blocked d F (Suc 0) c"
| blocked_below: "blocked d F m b \<Longrightarrow> dep_edge d c b \<Longrightarrow> waiting_free d c \<Longrightarrow> blocked d F (Suc m) c"

definition blocked_within :: "db \<Rightarrow> uuid set \<Rightarrow> nat \<Rightarrow> uuid set" where
  "blocked_within d F n = {c. \<exists>m \<le> n. blocked d F m c}"

lemma blocked_pos: "blocked d F m c \<Longrightarrow> 0 < m"
  by (induction rule: blocked.induct) auto

lemma blocked_waiting_free: "blocked d F m c \<Longrightarrow> waiting_free d c"
  by (induction rule: blocked.induct) auto

lemma blocked_within_0 [simp]: "blocked_within d F 0 = {}"
  using blocked_pos by (fastforce simp: blocked_within_def)

lemma set_cascade_targets:
  "set (cascade_targets d F seen) = {c. (\<exists>f \<in> set F. dep_edge d c f) \<and> waiting_free d c \<and> c \<notin> seen}"
  by (auto simp: cascade_targets_def dep_edge_def waiting_free_def split: option.splits)

lemma waiting_free_iff:
  "wf_db d \<Longrightarrow> j \<in> set (jobs d) \<Longrightarrow> waiting_free d (j_id j) \<longleftrightarrow> cancellable j"
  by (simp add: waiting_free_def wf_db_def get_by_Some_iff [THEN iffD2])

lemma waiting_free_job: "waiting_free d i \<Longrightarrow> \<exists>j \<in> set (jobs d). j_id j = i \<and> cancellable j"
  by (auto simp: waiting_free_def split: option.splits dest!: get_by_SomeD)

subsection \<open>Announcing one level\<close>

lemma fold_announce_simps [simp]:
  "jobs (fold (announce_cancelled cfg now) cs d) = jobs d"
  "job_dependencies (fold (announce_cancelled cfg now) cs d) = job_dependencies d"
  "sagas (fold (announce_cancelled cfg now) cs d) = sagas d"
  "audit_logs (fold (announce_cancelled cfg now) cs d) = audit_logs d"
  by (induction cs arbitrary: d) (simp_all add: announce_cancelled_def)

lemma wf_fold_announce: "wf_db d \<Longrightarrow> wf_db (fold (announce_cancelled cfg now) cs d)"
  by (induction cs arbitrary: d) (simp_all add: announce_cancelled_def wf_outbox_add)

lemma fold_announce_rows:
  "\<forall>c \<in> set cs. j_status c = CANCELLED \<Longrightarrow>
   \<exists>os. outbox_events (fold (announce_cancelled cfg now) cs d) = outbox_events d @ os
     \<and> list_all2 (announces cfg) cs os"
proof (induction cs arbitrary: d)
  case (Cons c cs)
  let ?d = "announce_cancelled cfg now c d"
  from Cons obtain os where os: "outbox_events (fold (announce_cancelled cfg now) cs ?d) = outbox_events ?d @ os"
    "list_all2 (announces cfg) cs os" by (metis list.set_intros(2))
  obtain e where "outbox_events ?d = outbox_events d @ [e]" "announces cfg c e"
    using Cons.prems by (auto simp: announce_cancelled_def outbox_add_rows announces_def terminal_topic_def)
  with os have "outbox_events (fold (announce_cancelled cfg now) (c # cs) d) = outbox_events d @ (e # os)
      \<and> list_all2 (announces cfg) (c # cs) (e # os)" by simp
  then show ?case by blast
qed simp

lemma row_count_ids:
  assumes "distinct (map k rows)" "T \<subseteq> k ` set rows"
  shows "row_count (\<lambda>r. k r \<in> T) rows = card T"
proof -
  have "row_count (\<lambda>r. k r \<in> T) rows = length (map k (filter (\<lambda>r. k r \<in> T) rows))"
    by (simp add: row_count_def)
  also have "\<dots> = card (set (map k (filter (\<lambda>r. k r \<in> T) rows)))"
    using assms(1) by (intro distinct_card [symmetric] distinct_map_filter)
  also have "set (map k (filter (\<lambda>r. k r \<in> T) rows)) = T" using assms(2) by auto
  finally show ?thesis .
qed

lemma filter_cancelled:
  "filter (\<lambda>j. j_id j \<in> S \<and> j_completed_at j = Some now)
     (update_where (\<lambda>j. j_id j \<in> S) (cancel_values now reason) rows)
   = map (cancel_values now reason) (filter (\<lambda>j. j_id j \<in> S) rows)"
  by (induction rows) auto

text \<open>One level cancels and announces each of its targets exactly once.\<close>

lemma cascade_level_spec:
  fixes cfg :: settings and now :: time and reason :: string and T :: "uuid list" and d :: db
  assumes wf: "wf_db d" and T: "\<forall>c \<in> set T. waiting_free d c"
  defines "d1 \<equiv> snd (cascade_level cfg now reason T d)"
  defines "cs \<equiv> map (cancel_values now reason) (filter (\<lambda>j. j_id j \<in> set T) (jobs d))"
  shows "jobs d1 = update_where (\<lambda>j. j_id j \<in> set T) (cancel_values now reason) (jobs d)"
    and "job_dependencies d1 = job_dependencies d" "sagas d1 = sagas d" "audit_logs d1 = audit_logs d"
    and "wf_db d1" and "fst (cascade_level cfg now reason T d) = card (set T)"
    and "\<exists>os. outbox_events d1 = outbox_events d @ os \<and> list_all2 (announces cfg) cs os"
proof -
  let ?hit = "\<lambda>j. j_id j \<in> set T \<and> cancellable j"
  let ?dj = "d\<lparr>jobs := update_where ?hit (cancel_values now reason) (jobs d)\<rparr>"
  have hit: "?hit j \<longleftrightarrow> j_id j \<in> set T" if "j \<in> set (jobs d)" for j
    using waiting_free_iff [OF wf that] T by auto
  have jobs: "jobs ?dj = update_where (\<lambda>j. j_id j \<in> set T) (cancel_values now reason) (jobs d)"
    using hit by (simp add: update_where_def)
  have newly: "filter (\<lambda>j. j_id j \<in> set T \<and> j_completed_at j = Some now) (jobs ?dj) = cs"
    unfolding jobs cs_def by (rule filter_cancelled)
  have d1: "d1 = fold (announce_cancelled cfg now) cs ?dj"
    using newly by (simp add: d1_def cascade_level_def Let_def)
  show "jobs d1 = update_where (\<lambda>j. j_id j \<in> set T) (cancel_values now reason) (jobs d)"
    "job_dependencies d1 = job_dependencies d" "sagas d1 = sagas d" "audit_logs d1 = audit_logs d"
    using jobs by (simp_all add: d1)
  show "wf_db d1"
    unfolding d1 by (intro wf_fold_announce wf_update_jobs wf) simp
  have "row_count ?hit (jobs d) = row_count (\<lambda>j. j_id j \<in> set T) (jobs d)"
    using hit by (simp add: row_count_def cong: filter_cong)
  also have "\<dots> = card (set T)"
    using wf T waiting_free_job by (intro row_count_ids) (force simp: wf_db_def)+
  finally show "fst (cascade_level cfg now reason T d) = card (set T)"
    by (simp add: cascade_level_def Let_def)
  show "\<exists>os. outbox_events d1 = outbox_events d @ os \<and> list_all2 (announces cfg) cs os"
    using fold_announce_rows [of cs cfg now ?dj] by (auto simp: d1 cs_def)
qed

subsection \<open>The loop meets its specification\<close>

lemma waiting_free_after_level:
  assumes "jobs d1 = update_where (\<lambda>j. j_id j \<in> T) (cancel_values now reason) (jobs d)"
  shows "waiting_free d1 i \<longleftrightarrow> waiting_free d i \<and> i \<notin> T"
  using assms
  by (auto simp: waiting_free_def get_by_update_where cancellable_def split: option.splits
      dest: get_by_SomeD)

text \<open>The state \<open>d1\<close> after the level with targets \<open>T\<close>, from frontier \<open>F\<close>.\<close>

definition level_step :: "db \<Rightarrow> uuid list \<Rightarrow> uuid set \<Rightarrow> uuid set \<Rightarrow> db \<Rightarrow> bool" where
  "level_step d F seen T d1 \<longleftrightarrow>
     (\<forall>i \<in> seen. \<not> waiting_free d i)
     \<and> T = {c. (\<exists>f \<in> set F. dep_edge d c f) \<and> waiting_free d c \<and> c \<notin> seen}
     \<and> job_dependencies d1 = job_dependencies d
     \<and> (\<forall>i. waiting_free d1 i \<longleftrightarrow> waiting_free d i \<and> i \<notin> T)"

lemma level_step_edge: "level_step d F seen T d1 \<Longrightarrow> dep_edge d1 c b \<longleftrightarrow> dep_edge d c b"
  by (simp add: level_step_def dep_edge_def)

lemma blocked_next_level:
  "blocked d (set F) m c \<Longrightarrow> level_step d F seen T d1 \<Longrightarrow>
   c \<in> T \<or> (\<exists>m' < m. blocked d1 T m' c)"
proof (induction rule: blocked.induct)
  case (blocked_child f c)
  then show ?case unfolding level_step_def by blast
next
  case (blocked_below m b c)
  have e: "dep_edge d1 c b" using blocked_below by (simp add: level_step_edge)
  show ?case
  proof (cases "c \<in> T")
    case False
    then have w: "waiting_free d1 c" using blocked_below by (simp add: level_step_def)
    from blocked_below.IH [OF blocked_below.prems] show ?thesis
    proof
      assume "b \<in> T"
      then have "blocked d1 T (Suc 0) c" using e w by (rule blocked.blocked_child)
      moreover have "Suc 0 < Suc m" using blocked_pos [OF blocked_below.hyps(1)] by simp
      ultimately show ?thesis by blast
    next
      assume "\<exists>m' < m. blocked d1 T m' b"
      then show ?thesis using blocked.blocked_below [OF _ e w] Suc_mono by blast
    qed
  qed simp
qed

lemma blocked_from_level:
  "blocked d1 T m c \<Longrightarrow> level_step d F seen T d1 \<Longrightarrow> blocked d (set F) (Suc m) c"
proof (induction rule: blocked.induct)
  case (blocked_child f c)
  then have "blocked d (set F) (Suc 0) f"
    unfolding level_step_def by (blast intro: blocked.blocked_child)
  then show ?case
    using blocked_child level_step_edge by (metis blocked.blocked_below level_step_def)
next
  case (blocked_below m b c)
  then show ?case using level_step_edge by (metis blocked.blocked_below level_step_def)
qed

lemma blocked_within_level:
  assumes "level_step d F seen T d1"
  shows "blocked_within d (set F) (Suc n) = T \<union> blocked_within d1 T n"
proof
  show "blocked_within d (set F) (Suc n) \<subseteq> T \<union> blocked_within d1 T n"
    using blocked_next_level [OF _ assms] by (fastforce simp: blocked_within_def)
  have "blocked d (set F) (Suc 0) c" if "c \<in> T" for c
    using that assms unfolding level_step_def by (blast intro: blocked.blocked_child)
  then show "T \<union> blocked_within d1 T n \<subseteq> blocked_within d (set F) (Suc n)"
    using blocked_from_level [OF _ assms] by (fastforce simp: blocked_within_def)
qed

lemma blocked_within_disjoint:
  "level_step d F seen T d1 \<Longrightarrow> T \<inter> blocked_within d1 T n = {}"
  using blocked_waiting_free by (fastforce simp: blocked_within_def level_step_def)

lemma blocked_within_no_targets:
  assumes "\<forall>i \<in> seen. \<not> waiting_free d i" "cascade_targets d F seen = []"
  shows "blocked_within d (set F) n = {}"
proof -
  have "\<not> blocked d (set F) m c" for m c
  proof
    assume "blocked d (set F) m c"
    then show False
      by (induction rule: blocked.induct)
        (use assms set_cascade_targets [of d F seen] in \<open>auto simp: dep_edge_def\<close>)
  qed
  then show ?thesis by (simp add: blocked_within_def)
qed

lemma update_where_union:
  assumes "\<And>r. k (f r) = k r" "A \<inter> B = {}"
  shows "update_where (\<lambda>r. k r \<in> B) f (update_where (\<lambda>r. k r \<in> A) f rows)
       = update_where (\<lambda>r. k r \<in> A \<union> B) f rows"
  by (induction rows) (use assms in auto)

lemma blocked_within_jobs: "blocked_within d F n \<subseteq> j_id ` set (jobs d)"
proof
  fix c assume "c \<in> blocked_within d F n"
  then have "waiting_free d c" using blocked_waiting_free by (auto simp: blocked_within_def)
  then show "c \<in> j_id ` set (jobs d)" using waiting_free_job by blast
qed

lemma finite_blocked_within: "finite (blocked_within d F n)"
  by (rule finite_subset [OF blocked_within_jobs]) simp

text \<open>
  What a run of the loop does: the rows it cancels, the rows it adds to the outbox (one
  announcement per cancelled row), the count it returns, and everything it leaves alone.
\<close>

definition cascade_outcome ::
    "settings \<Rightarrow> time \<Rightarrow> string \<Rightarrow> uuid set \<Rightarrow> db \<Rightarrow> db \<Rightarrow> bool" where
  "cascade_outcome cfg now reason X d d' \<longleftrightarrow>
     jobs d' = update_where (\<lambda>j. j_id j \<in> X) (cancel_values now reason) (jobs d)
     \<and> job_dependencies d' = job_dependencies d \<and> sagas d' = sagas d
     \<and> audit_logs d' = audit_logs d \<and> wf_db d'
     \<and> (\<exists>cs os. outbox_events d' = outbox_events d @ os \<and> list_all2 (announces cfg) cs os
          \<and> distinct (map j_id cs) \<and> set cs = {j \<in> set (jobs d'). j_id j \<in> X})"

lemma cascade_outcome_none: "wf_db d \<Longrightarrow> cascade_outcome cfg now reason {} d d"
  by (simp add: cascade_outcome_def update_where_def)

lemma cascade_outcome_level:
  assumes "wf_db d" "\<forall>c \<in> set T. waiting_free d c"
  shows "cascade_outcome cfg now reason (set T) d (snd (cascade_level cfg now reason T d))"
proof -
  note spec = cascade_level_spec [OF assms, where cfg = cfg and now = now and reason = reason]
  let ?cs = "map (cancel_values now reason) (filter (\<lambda>j. j_id j \<in> set T) (jobs d))"
  have "distinct (map j_id ?cs)"
    using assms(1) by (simp add: wf_db_def comp_def distinct_map_filter)
  moreover have "set ?cs = {j \<in> set (jobs (snd (cascade_level cfg now reason T d))). j_id j \<in> set T}"
    by (auto simp: spec(1) set_update_where)
  ultimately show ?thesis
    unfolding cascade_outcome_def using spec by blast
qed

lemma cascade_outcome_trans:
  assumes "cascade_outcome cfg now reason A d d1" "cascade_outcome cfg now reason B d1 d2"
    and "A \<inter> B = {}"
  shows "cascade_outcome cfg now reason (A \<union> B) d d2"
proof -
  let ?c = "cancel_values now reason"
  from assms(1) obtain cs1 os1 where 1: "outbox_events d1 = outbox_events d @ os1"
    "list_all2 (announces cfg) cs1 os1" "distinct (map j_id cs1)"
    "set cs1 = {j \<in> set (jobs d1). j_id j \<in> A}" "jobs d1 = update_where (\<lambda>j. j_id j \<in> A) ?c (jobs d)"
    by (auto simp: cascade_outcome_def)
  from assms(2) obtain cs2 os2 where 2: "outbox_events d2 = outbox_events d1 @ os2"
    "list_all2 (announces cfg) cs2 os2" "distinct (map j_id cs2)"
    "set cs2 = {j \<in> set (jobs d2). j_id j \<in> B}" "jobs d2 = update_where (\<lambda>j. j_id j \<in> B) ?c (jobs d1)"
    by (auto simp: cascade_outcome_def)
  have "set cs1 = {j \<in> set (jobs d2). j_id j \<in> A}"
    using assms(3) unfolding 1(4) 2(5) by (auto simp: set_update_where split: if_splits)
  with 2(4) have "set (cs1 @ cs2) = {j \<in> set (jobs d2). j_id j \<in> A \<union> B}" by auto
  moreover have "distinct (map j_id (cs1 @ cs2))"
    using 1(3,4) 2(3,4) assms(3) by (auto simp: disjoint_iff)
  moreover have "list_all2 (announces cfg) (cs1 @ cs2) (os1 @ os2)"
    using 1(2) 2(2) by (rule list_all2_appendI)
  moreover have "outbox_events d2 = outbox_events d @ (os1 @ os2)" using 1(1) 2(1) by simp
  moreover have "jobs d2 = update_where (\<lambda>j. j_id j \<in> A \<union> B) ?c (jobs d)"
    unfolding 2(5) 1(5) using assms(3) by (intro update_where_union) auto
  moreover have "job_dependencies d2 = job_dependencies d" "sagas d2 = sagas d"
    "audit_logs d2 = audit_logs d" "wf_db d2"
    using assms(1,2) by (simp_all add: cascade_outcome_def)
  ultimately show ?thesis
    unfolding cascade_outcome_def
    by (intro conjI exI [of _ "cs1 @ cs2"] exI [of _ "os1 @ os2"])
qed

theorem cascade_loop_outcome:
  "wf_db d \<Longrightarrow> \<forall>i \<in> seen. \<not> waiting_free d i \<Longrightarrow>
   cascade_outcome cfg now reason (blocked_within d (set F) n) d
     (snd (cascade_loop cfg now reason n F seen k d))
   \<and> fst (cascade_loop cfg now reason n F seen k d) = k + card (blocked_within d (set F) n)"
proof (induction n arbitrary: F seen k d)
  case 0
  then show ?case by (simp add: cascade_outcome_none)
next
  case (Suc n)
  let ?T = "cascade_targets d F seen"
  show ?case
  proof (cases "F = [] \<or> ?T = []")
    case True
    then have "?T = []" by (auto simp: cascade_targets_def)
    then have "blocked_within d (set F) (Suc n) = {}"
      by (rule blocked_within_no_targets [OF Suc.prems(2)])
    then show ?thesis using True Suc.prems by (auto simp: cascade_outcome_none)
  next
    case False
    define d1 where "d1 = snd (cascade_level cfg now reason ?T d)"
    have T: "\<forall>c \<in> set ?T. waiting_free d c" by (simp add: set_cascade_targets)
    note spec = cascade_level_spec [OF Suc.prems(1) T, where cfg = cfg and now = now and reason = reason,
        folded d1_def]
    have wfree: "\<And>i. waiting_free d1 i \<longleftrightarrow> waiting_free d i \<and> i \<notin> set ?T"
      by (rule waiting_free_after_level) (rule spec(1))
    have step: "level_step d F seen (set ?T) d1"
      using Suc.prems(2) wfree spec(2) by (simp add: level_step_def set_cascade_targets)
    have "\<forall>i \<in> seen \<union> set ?T. \<not> waiting_free d1 i" using wfree Suc.prems(2) by auto
    note IH = Suc.IH [OF spec(5) this, of ?T "k + card (set ?T)"]
    have loop: "cascade_loop cfg now reason (Suc n) F seen k d =
        cascade_loop cfg now reason n ?T (seen \<union> set ?T) (k + card (set ?T)) d1"
      using False spec(6) by (simp add: Let_def d1_def case_prod_beta)
    have first: "cascade_outcome cfg now reason (set ?T) d d1"
      unfolding d1_def by (rule cascade_outcome_level [OF Suc.prems(1) T])
    show ?thesis
      unfolding loop blocked_within_level [OF step]
      using IH cascade_outcome_trans [OF first] blocked_within_disjoint [OF step, of n]
      by (simp add: card_Un_disjoint finite_blocked_within)
  qed
qed

section \<open>What \<open>update_status\<close> promises\<close>

text \<open>
  The database right after the row itself was written, before the announcement and the
  cascade.
\<close>

definition written :: "time \<Rightarrow> uuid \<Rightarrow> job_status \<Rightarrow> job_assignment list \<Rightarrow> db \<Rightarrow> db" where
  "written now i st extra d =
     d\<lparr>jobs := update_where (\<lambda>j. j_id j = i) (status_values now st extra) (jobs d)\<rparr>"

lemma written_simps [simp]:
  "job_dependencies (written now i st extra d) = job_dependencies d"
  "sagas (written now i st extra d) = sagas d"
  "outbox_events (written now i st extra d) = outbox_events d"
  "audit_logs (written now i st extra d) = audit_logs d"
  "next_uuid (written now i st extra d) = next_uuid d"
  by (simp_all add: written_def)

lemma job_by_id_written:
  "job_by_id (written now i st extra d) k =
     (if k = i then map_option (status_values now st extra) (job_by_id d k) else job_by_id d k)"
proof -
  have "job_by_id (written now i st extra d) k =
      map_option (\<lambda>j. if j_id j = i then status_values now st extra j else j) (job_by_id d k)"
    unfolding written_def by (simp add: get_by_update_where)
  then show ?thesis by (cases "job_by_id d k") (auto dest: get_by_SomeD)
qed

lemma update_status_unguarded:
  "update_status cfg now i st extra msg None d =
     (let d1 = written now i st extra d; job = job_by_id d1 i;
          d2 = (case job of None \<Rightarrow> d1
                | Some j \<Rightarrow> if terminal st then emit_terminal_event cfg now j st msg d1 else d1)
      in (job, if job \<noteq> None \<and> (st = DEAD_LETTER \<or> st = CANCELLED)
               then snd (cascade_cancel_blocked_children cfg now i st d2) else d2))"
  by (auto simp: update_status_def written_def Let_def terminal_event_statuses_def
      cascade_source_statuses_def split: option.split)

text \<open>
  The guarded form is a compare-and-set: it either writes nothing and returns \<open>None\<close>, or the
  guard held and it is the unguarded write.
\<close>

lemma update_status_guarded:
  assumes wf: "wf_db d"
  shows "update_status cfg now i st extra msg (Some g) d =
     (case job_by_id d i of
        None \<Rightarrow> (None, d)
      | Some j \<Rightarrow> if g j then update_status cfg now i st extra msg None d else (None, d))"
proof -
  let ?hit = "\<lambda>j. j_id j = i \<and> g j"
  have rc: "row_count ?hit (jobs d) =
      (case job_by_id d i of None \<Rightarrow> 0 | Some j \<Rightarrow> if g j then 1 else 0)"
    using wf by (intro row_count_key) (simp add: wf_db_def)
  have noop: "d\<lparr>jobs := update_where ?hit f (jobs d)\<rparr> = d" if "row_count ?hit (jobs d) = 0" for f
    using that by (simp add: row_count_zero_iff update_where_none)
  show ?thesis
  proof (cases "job_by_id d i")
    case None
    then show ?thesis using rc noop by (simp add: update_status_def Let_def)
  next
    case (Some j)
    show ?thesis
    proof (cases "g j")
      case True
      have "?hit x \<longleftrightarrow> j_id x = i" if "x \<in> set (jobs d)" for x
        using that True Some wf_job_unique [OF wf Some that] by auto
      then have "update_where ?hit f (jobs d) = update_where (\<lambda>x. j_id x = i) f (jobs d)" for f
        by (simp add: update_where_def)
      note eq = this [of "status_values now st extra"]
      show ?thesis
        using Some True rc unfolding update_status_def Let_def option.case eq simp_thms by simp
    next
      case False
      then show ?thesis using Some rc noop by (simp add: update_status_def Let_def)
    qed
  qed
qed

lemma wf_written: "wf_db d \<Longrightarrow> wf_db (written now i st extra d)"
  unfolding written_def by (rule wf_update_jobs) simp_all

lemma emit_simps [simp]:
  "jobs (emit_terminal_event cfg now j st msg d) = jobs d"
  "job_dependencies (emit_terminal_event cfg now j st msg d) = job_dependencies d"
  "sagas (emit_terminal_event cfg now j st msg d) = sagas d"
  "audit_logs (emit_terminal_event cfg now j st msg d) = audit_logs d"
  "next_uuid (emit_terminal_event cfg now j st msg d) = Suc (next_uuid d)"
  by (simp_all add: emit_terminal_event_def case_prod_beta)

lemma emit_outbox_mono:
  "set (outbox_events d) \<subseteq> set (outbox_events (emit_terminal_event cfg now j st msg d))"
  by (auto simp: emit_terminal_event_def case_prod_beta outbox_add_rows)

lemma wf_emit: "wf_db d \<Longrightarrow> wf_db (emit_terminal_event cfg now j st msg d)"
  by (simp add: emit_terminal_event_def case_prod_beta wf_outbox_add)

lemma emit_announces:
  assumes "terminal st" "j_status j = st"
  shows "\<exists>e. outbox_events (emit_terminal_event cfg now j st msg d) = outbox_events d @ [e]
    \<and> announces cfg j e"
  using assms by (auto simp: emit_terminal_event_def outbox_add_rows announces_def terminal_topic_def)

lemma cascade_outcome_children:
  assumes "wf_db d" "\<not> waiting_free d i"
  shows "\<exists>reason. cascade_outcome cfg now reason (blocked_within d {i} cascade_max_depth) d
     (snd (cascade_cancel_blocked_children cfg now i st d))"
  using cascade_loop_outcome [of d "{i}" cfg now _ "[i]" cascade_max_depth 0] assms
  unfolding cascade_cancel_blocked_children_def by auto

lemma cascade_outcome_db_inv:
  assumes "cascade_outcome cfg now reason X d d'" "announced cfg d" "stamped d"
  shows "db_inv cfg d'"
proof -
  from assms(1) obtain cs os where o: "outbox_events d' = outbox_events d @ os"
    "list_all2 (announces cfg) cs os" "set cs = {j \<in> set (jobs d'). j_id j \<in> X}"
    "jobs d' = update_where (\<lambda>j. j_id j \<in> X) (cancel_values now reason) (jobs d)"
    by (auto simp: cascade_outcome_def)
  have "announced cfg d'"
  proof (rule announced_mono [OF assms(2)])
    fix j assume j: "j \<in> set (jobs d')" "terminal (j_status j)"
    show "(\<exists>j0 \<in> set (jobs d). same_identity j0 j \<and> j_status j0 = j_status j)
        \<or> (\<exists>e \<in> set (outbox_events d'). announces cfg j e)"
    proof (cases "j_id j \<in> X")
      case True
      with j(1) o(3) have "j \<in> set cs" by simp
      with o(2) have "\<exists>e \<in> set os. announces cfg j e" by (metis in_set_conv_nth list_all2_conv_all_nth)
      then show ?thesis using o(1) by auto
    next
      case False
      with j(1) o(4) have "j \<in> set (jobs d)" by (auto simp: set_update_where split: if_splits)
      then show ?thesis by blast
    qed
  qed (simp add: o(1))
  moreover have "stamped d'"
    using assms(3) by (auto simp: stamped_def o(4) set_update_where)
  ultimately show ?thesis using assms(1) by (simp add: db_inv_def cascade_outcome_def)
qed

text \<open>The single writer keeps every invariant, whatever status it writes.\<close>

lemma db_inv_written_emit:
  assumes inv: "db_inv cfg d" and ex: "\<not> names_started_at extra" "\<not> names_completed_at extra"
    and j: "job_by_id (written now i st extra d) i = Some j"
    and d2: "d2 = (if terminal st then emit_terminal_event cfg now j st msg (written now i st extra d)
                   else written now i st extra d)"
  shows "db_inv cfg d2"
proof -
  let ?w = "written now i st extra d"
  have wf: "wf_db d2" using inv d2 by (simp add: db_inv_def wf_written wf_emit)
  have "stamped ?w"
    using inv status_values_stamped [OF ex] unfolding written_def db_inv_def
    by (intro stamped_update_jobs) simp_all
  then have st: "stamped d2" using d2 by (simp add: stamped_def)
  have jst: "j_status j = st" using j by (auto simp: job_by_id_written)
  have "announced cfg d2"
  proof (rule announced_mono)
    show "announced cfg d" using inv by (simp add: db_inv_def)
    show "set (outbox_events d) \<subseteq> set (outbox_events d2)"
      using d2 emit_outbox_mono [of ?w cfg now j st msg] by simp
    fix x assume x: "x \<in> set (jobs d2)" "terminal (j_status x)"
    then have xw: "x \<in> set (jobs ?w)" using d2 by (simp split: if_splits)
    show "(\<exists>j0 \<in> set (jobs d). same_identity j0 x \<and> j_status j0 = j_status x)
        \<or> (\<exists>e \<in> set (outbox_events d2). announces cfg x e)"
    proof (cases "j_id x = i")
      case True
      have "distinct (map j_id (jobs ?w))" using inv wf_written by (auto simp: db_inv_def wf_db_def)
      then have "x = j" using j xw True by (metis get_by_Some_iff option.inject)
      then show ?thesis using x(2) jst d2 emit_announces [OF _ jst, of cfg now msg ?w] by auto
    next
      case False
      then show ?thesis using xw by (auto simp: written_def set_update_where split: if_splits)
    qed
  qed
  then show ?thesis using wf st by (simp add: db_inv_def)
qed

lemma db_inv_update_status_unguarded:
  assumes inv: "db_inv cfg d" and ex: "\<not> names_started_at extra" "\<not> names_completed_at extra"
  shows "db_inv cfg (snd (update_status cfg now i st extra msg None d))"
proof (cases "job_by_id (written now i st extra d) i")
  case None
  then have "job_by_id d i = None" by (auto simp: job_by_id_written)
  then have "update_where (\<lambda>j. j_id j = i) (status_values now st extra) (jobs d) = jobs d"
    by (intro update_where_none) (auto simp: get_by_None_iff)
  then have "written now i st extra d = d" by (simp add: written_def)
  then show ?thesis using None inv by (simp add: update_status_unguarded Let_def)
next
  case (Some j)
  define d2 where "d2 = (if terminal st then emit_terminal_event cfg now j st msg (written now i st extra d)
                   else written now i st extra d)"
  have inv2: "db_inv cfg d2" by (rule db_inv_written_emit [OF inv ex Some d2_def])
  have "snd (update_status cfg now i st extra msg None d) =
      (if st = DEAD_LETTER \<or> st = CANCELLED
       then snd (cascade_cancel_blocked_children cfg now i st d2) else d2)"
    using Some by (simp add: update_status_unguarded Let_def d2_def)
  moreover have "db_inv cfg (snd (cascade_cancel_blocked_children cfg now i st d2))"
    if "st = DEAD_LETTER \<or> st = CANCELLED"
  proof -
    have "job_by_id d2 i = Some j" using Some d2_def by simp
    moreover have "j_status j = st" using Some by (auto simp: job_by_id_written)
    ultimately have "\<not> waiting_free d2 i" using that by (auto simp: waiting_free_def cancellable_def)
    with inv2 show ?thesis
      using cascade_outcome_children [of d2 i cfg now st] cascade_outcome_db_inv
      unfolding db_inv_def by blast
  qed
  ultimately show ?thesis using inv2 by simp
qed

lemma db_inv_update_status [platform_intros]:
  assumes "db_inv cfg d" "\<not> names_started_at extra" "\<not> names_completed_at extra"
  shows "db_inv cfg (snd (update_status cfg now i st extra msg guard d))"
proof (cases guard)
  case None
  then show ?thesis using db_inv_update_status_unguarded [OF assms] by simp
next
  case (Some g)
  have "wf_db d" using assms(1) by (simp add: db_inv_def)
  then show ?thesis
    using Some assms db_inv_update_status_unguarded [OF assms]
    by (auto simp: update_status_guarded split: option.split)
qed

section \<open>Compare-and-set writes\<close>

text \<open>The common shape of the conditional updates keyed by the job id.\<close>

definition cas_write :: "(job \<Rightarrow> bool) \<Rightarrow> (job \<Rightarrow> job) \<Rightarrow> uuid \<Rightarrow> db \<Rightarrow> bool \<times> db" where
  "cas_write P f i d =
     (row_count (\<lambda>j. j_id j = i \<and> P j) (jobs d) = 1,
      d\<lparr>jobs := update_where (\<lambda>j. j_id j = i \<and> P j) f (jobs d)\<rparr>)"

definition job_is :: "(job \<Rightarrow> bool) \<Rightarrow> db \<Rightarrow> uuid \<Rightarrow> bool" where
  "job_is P d i \<longleftrightarrow> (case job_by_id d i of None \<Rightarrow> False | Some j \<Rightarrow> P j)"

lemma cas_write_wins: "wf_db d \<Longrightarrow> fst (cas_write P f i d) \<longleftrightarrow> job_is P d i"
  by (simp add: cas_write_def wf_db_def row_count_key job_is_def split: option.split)

lemma cas_write_loses:
  assumes "wf_db d" "\<not> job_is P d i"
  shows "snd (cas_write P f i d) = d"
proof -
  have "\<not> (j_id j = i \<and> P j)" if "j \<in> set (jobs d)" for j
    using assms that wf_job_by_id [OF assms(1) that] by (auto simp: job_is_def)
  then show ?thesis by (simp add: cas_write_def update_where_none)
qed

lemma job_by_id_cas_write:
  assumes "\<And>j. j_id (f j) = j_id j"
  shows "job_by_id (snd (cas_write P f i d)) k =
    map_option (\<lambda>j. if j_id j = i \<and> P j then f j else j) (job_by_id d k)"
  using assms by (simp add: cas_write_def get_by_update_where)

lemma compare_and_set_write:
  assumes "\<And>j. j_id (f j) = j_id j" "\<And>j. \<not> P (f j)"
  shows "compare_and_set (cas_write P f) (job_is P) wf_db"
proof unfold_locales
  fix d i k assume wf: "wf_db d"
  show "fst (cas_write P f i d) = job_is P d i" using wf by (rule cas_write_wins)
  show "\<not> job_is P (snd (cas_write P f i d)) i"
    using assms by (auto simp: job_is_def job_by_id_cas_write split: option.splits dest: get_by_SomeD)
  show "wf_db (snd (cas_write P f i d))"
    using wf assms(1) by (auto simp: cas_write_def intro: wf_update_jobs)
  show "snd (cas_write P f i d) = d" if "\<not> job_is P d i"
    using wf that by (rule cas_write_loses)
  show "job_is P (snd (cas_write P f i d)) k = job_is P d k" if "k \<noteq> i"
    using assms(1) that by (auto simp: job_is_def job_by_id_cas_write split: option.splits dest: get_by_SomeD)
qed

lemma claim_is_cas:
  "claim_for_running now = cas_write (\<lambda>j. j_status j = PENDING)
     (\<lambda>j. j\<lparr>j_status := RUNNING, j_started_at := Some now, j_updated_at := now\<rparr>)"
  by (simp add: fun_eq_iff claim_for_running_def cas_write_def Let_def)

lemma promote_is_cas:
  "promote_waiting_to_pending now = cas_write (\<lambda>j. j_status j = WAITING)
     (\<lambda>j. j\<lparr>j_status := PENDING, j_error_message := None, j_updated_at := now\<rparr>)"
  by (simp add: fun_eq_iff promote_waiting_to_pending_def cas_write_def Let_def)

lemma set_hint_is_cas:
  "(\<lambda>i. set_remediation_hint_if_unset now i tenant hint) =
     cas_write (\<lambda>j. j_tenant_id j = tenant \<and> j_remediation_hint j = None)
       (\<lambda>j. j\<lparr>j_remediation_hint := Some hint, j_updated_at := now\<rparr>)"
  by (simp add: fun_eq_iff set_remediation_hint_if_unset_def cas_write_def Let_def)

abbreviation pending :: "db \<Rightarrow> uuid \<Rightarrow> bool" where
  "pending \<equiv> job_is (\<lambda>j. j_status j = PENDING)"

abbreviation waiting :: "db \<Rightarrow> uuid \<Rightarrow> bool" where
  "waiting \<equiv> job_is (\<lambda>j. j_status j = WAITING)"

interpretation claim: compare_and_set "claim_for_running now" pending wf_db for now
  unfolding claim_is_cas by (rule compare_and_set_write) simp_all

interpretation promote: compare_and_set "promote_waiting_to_pending now" waiting wf_db for now
  unfolding promote_is_cas by (rule compare_and_set_write) simp_all

interpretation hint: compare_and_set "\<lambda>i. set_remediation_hint_if_unset now i tenant h"
    "job_is (\<lambda>j. j_tenant_id j = tenant \<and> j_remediation_hint j = None)" wf_db for now tenant h
  unfolding set_hint_is_cas by (rule compare_and_set_write) simp_all

lemma db_inv_update_jobs:
  assumes "db_inv cfg d" "\<And>j. same_identity j (f j)" "\<And>j. P j \<Longrightarrow> \<not> terminal (j_status (f j)) \<or> j_status (f j) = j_status j"
    and "\<And>j. P j \<Longrightarrow> stamped_job j \<Longrightarrow> stamped_job (f j)"
  shows "db_inv cfg (d\<lparr>jobs := update_where P f (jobs d)\<rparr>)"
proof -
  have "wf_db (d\<lparr>jobs := update_where P f (jobs d)\<rparr>)"
    using assms(1,2) by (intro wf_update_jobs) (simp_all add: db_inv_def same_identity_def)
  moreover have "announced cfg (d\<lparr>jobs := update_where P f (jobs d)\<rparr>)"
    using assms(1,2,3) by (intro announced_update_jobs) (auto simp: db_inv_def)
  moreover have "stamped (d\<lparr>jobs := update_where P f (jobs d)\<rparr>)"
    using assms(1,4) by (intro stamped_update_jobs) (simp_all add: db_inv_def)
  ultimately show ?thesis by (simp add: db_inv_def)
qed

lemma db_inv_cas_write:
  assumes "db_inv cfg d" "\<And>j. same_identity j (f j)" "\<And>j. P j \<Longrightarrow> \<not> terminal (j_status (f j)) \<or> j_status (f j) = j_status j"
    and "\<And>j. P j \<Longrightarrow> stamped_job j \<Longrightarrow> stamped_job (f j)"
  shows "db_inv cfg (snd (cas_write P f i d))"
  unfolding cas_write_def snd_conv by (rule db_inv_update_jobs [OF assms(1,2)]) (use assms(3,4) in auto)

lemma db_inv_claim [platform_intros]: "db_inv cfg d \<Longrightarrow> db_inv cfg (snd (claim_for_running now i d))"
  unfolding claim_is_cas by (rule db_inv_cas_write) (auto simp: same_identity_def stamped_job_def)

lemma db_inv_promote [platform_intros]:
  "db_inv cfg d \<Longrightarrow> db_inv cfg (snd (promote_waiting_to_pending now i d))"
  unfolding promote_is_cas by (rule db_inv_cas_write) (auto simp: same_identity_def stamped_job_def)

lemma db_inv_set_hint [platform_intros]:
  "db_inv cfg d \<Longrightarrow> db_inv cfg (snd (set_remediation_hint_if_unset now i tenant h d))"
  using db_inv_cas_write [of cfg d "\<lambda>j. j\<lparr>j_remediation_hint := Some h, j_updated_at := now\<rparr>"
      "\<lambda>j. j_tenant_id j = tenant \<and> j_remediation_hint j = None" i]
  by (simp add: set_hint_is_cas [THEN fun_cong] same_identity_def stamped_job_def)

lemma db_inv_renew [platform_intros]:
  "db_inv cfg d \<Longrightarrow> db_inv cfg (snd (renew_running_leases now ids age d))"
  unfolding renew_running_leases_def Let_def
  by (auto intro!: db_inv_update_jobs simp: same_identity_def stamped_job_def)

lemma db_inv_job_create:
  assumes "db_inv cfg d" "\<not> terminal (j_status row)" "j_status row \<noteq> RUNNING"
  shows "db_inv cfg (snd (job_create now row d))"
proof -
  have "wf_db (snd (job_create now row d))"
    using assms(1) by (auto simp: db_inv_def wf_db_def job_create_def Let_def less_Suc_eq)
  moreover have "announced cfg (snd (job_create now row d))"
    using assms by (auto simp: db_inv_def announced_def job_create_def Let_def)
  moreover have "stamped (snd (job_create now row d))"
    using assms by (auto simp: db_inv_def stamped_def stamped_job_def job_create_def Let_def)
  ultimately show ?thesis by (simp add: db_inv_def)
qed

lemma db_inv_dep_add:
  assumes "db_inv cfg d" "dep_add i ps d = Inr d'" "i \<in> j_id ` set (jobs d)"
    and "\<forall>p \<in> set ps. p \<in> j_id ` set (jobs d) \<and> p < i"
  shows "db_inv cfg d'"
proof -
  obtain rows where rows: "rows = map (\<lambda>p. \<lparr>d_job_id = i, d_depends_on_job_id = p\<rparr>) ps"
    "d' = d\<lparr>job_dependencies := job_dependencies d @ rows\<rparr>"
    using assms(2) by (auto simp: dep_add_def Let_def split: if_splits)
  have "\<forall>e \<in> set rows. d_job_id e \<in> j_id ` set (jobs d)
      \<and> d_depends_on_job_id e \<in> j_id ` set (jobs d) \<and> d_depends_on_job_id e < d_job_id e"
    using assms(3,4) rows(1) by simp
  then show ?thesis
    using assms(1) by (simp add: rows(2) db_inv_def wf_db_def announced_def stamped_def ball_Un)
qed

section \<open>Row-level effect of \<open>update_status\<close>\<close>

lemma blocked_cong:
  assumes "jobs d = jobs d'" "job_dependencies d = job_dependencies d'"
  shows "blocked_within d F n = blocked_within d' F n"
proof -
  have eq: "waiting_free d i = waiting_free d' i" "dep_edge d c p = dep_edge d' c p" for i c p
    using assms by (simp_all add: waiting_free_def dep_edge_def)
  have "blocked d F m c \<longleftrightarrow> blocked d' F m c" for m c
  proof
    show "blocked d F m c \<Longrightarrow> blocked d' F m c"
      by (induction rule: blocked.induct) (auto simp: eq intro: blocked.intros)
    show "blocked d' F m c \<Longrightarrow> blocked d F m c"
      by (induction rule: blocked.induct) (auto simp: eq intro: blocked.intros)
  qed
  then show ?thesis by (simp add: blocked_within_def)
qed

text \<open>The jobs a status write cancels below the job it writes.\<close>

definition cascaded :: "time \<Rightarrow> uuid \<Rightarrow> job_status \<Rightarrow> job_assignment list \<Rightarrow> db \<Rightarrow> uuid set" where
  "cascaded now i st extra d =
     (if st = DEAD_LETTER \<or> st = CANCELLED
      then blocked_within (written now i st extra d) {i} cascade_max_depth else {})"

definition rows_after ::
    "time \<Rightarrow> uuid \<Rightarrow> job_status \<Rightarrow> job_assignment list \<Rightarrow> string \<Rightarrow> db \<Rightarrow> job list" where
  "rows_after now i st extra reason d =
     update_where (\<lambda>x. j_id x \<in> cascaded now i st extra d) (cancel_values now reason)
       (jobs (written now i st extra d))"

lemma update_status_rows:
  fixes cfg :: settings and now :: time and st :: job_status and extra :: "job_assignment list"
    and msg :: "string option" and i :: uuid and d :: db
  assumes wf: "wf_db d" and j: "job_by_id d i = Some j"
  defines "d' \<equiv> snd (update_status cfg now i st extra msg None d)"
  shows "fst (update_status cfg now i st extra msg None d) = Some (status_values now st extra j)"
    and "\<exists>reason. jobs d' = rows_after now i st extra reason d"
    and "job_dependencies d' = job_dependencies d" "sagas d' = sagas d" "audit_logs d' = audit_logs d"
    and "wf_db d'" and "set (outbox_events d) \<subseteq> set (outbox_events d')"
proof -
  let ?j = "status_values now st extra j" and ?w = "written now i st extra d"
  define d2 where "d2 = (if terminal st then emit_terminal_event cfg now ?j st msg ?w else ?w)"
  have jw: "job_by_id ?w i = Some ?j" using j by (simp add: job_by_id_written)
  have d2: "jobs d2 = jobs ?w" "job_dependencies d2 = job_dependencies d" "sagas d2 = sagas d"
    "audit_logs d2 = audit_logs d" "wf_db d2" "set (outbox_events d) \<subseteq> set (outbox_events d2)"
    using wf_written [OF wf] emit_outbox_mono [of ?w cfg now ?j st msg]
    by (simp_all add: d2_def wf_emit)
  have eq: "update_status cfg now i st extra msg None d =
      (Some ?j, if st = DEAD_LETTER \<or> st = CANCELLED
                then snd (cascade_cancel_blocked_children cfg now i st d2) else d2)"
    using jw by (simp add: update_status_unguarded Let_def d2_def)
  then show "fst (update_status cfg now i st extra msg None d) = Some ?j" by simp
  have "\<exists>reason. cascade_outcome cfg now reason (cascaded now i st extra d) d2 d'"
  proof (cases "st = DEAD_LETTER \<or> st = CANCELLED")
    case True
    have "\<not> waiting_free d2 i" using jw True d2(1) by (auto simp: waiting_free_def cancellable_def)
    moreover have "cascaded now i st extra d = blocked_within d2 {i} cascade_max_depth"
      using True d2(1,2) blocked_cong [of ?w d2] by (simp add: cascaded_def)
    ultimately show ?thesis
      using cascade_outcome_children [OF d2(5), of i cfg now st] True eq by (simp add: d'_def)
  next
    case False
    then show ?thesis
      using eq cascade_outcome_none [OF d2(5)] by (auto simp: d'_def cascaded_def)
  qed
  then obtain reason where o: "cascade_outcome cfg now reason (cascaded now i st extra d) d2 d'" by blast
  then show "\<exists>reason. jobs d' = rows_after now i st extra reason d"
    "job_dependencies d' = job_dependencies d" "sagas d' = sagas d" "audit_logs d' = audit_logs d" "wf_db d'"
    using d2 by (auto simp: cascade_outcome_def rows_after_def)
  show "set (outbox_events d) \<subseteq> set (outbox_events d')"
    using o d2(6) by (auto simp: cascade_outcome_def)
qed

lemma update_status_missing:
  assumes "job_by_id d i = None"
  shows "update_status cfg now i st extra msg None d = (None, d)"
proof -
  have "update_where (\<lambda>j. j_id j = i) (status_values now st extra) (jobs d) = jobs d"
    using assms by (intro update_where_none) (auto simp: get_by_None_iff)
  then have "written now i st extra d = d" by (simp add: written_def)
  then show ?thesis using assms by (simp add: update_status_unguarded)
qed

lemma cascaded_waiting:
  assumes "wf_db d" "j \<in> set (jobs (written now i st extra d))" "j_id j \<in> cascaded now i st extra d"
  shows "cancellable j"
proof -
  have "waiting_free (written now i st extra d) (j_id j)"
    using assms(3) blocked_waiting_free by (auto simp: cascaded_def blocked_within_def split: if_splits)
  then show ?thesis using waiting_free_iff [OF wf_written [OF assms(1)] assms(2)] by simp
qed

text \<open>
  Every row after a status write is a row before it: the written one, one the cascade
  cancelled out of \<open>WAITING\<close>, or one left as it was.
\<close>

lemma update_status_row_cases:
  assumes wf: "wf_db d" and x: "x \<in> set (jobs (snd (update_status cfg now i st extra msg None d)))"
  obtains (written) y where "y \<in> set (jobs d)" "j_id y = i" "x = status_values now st extra y"
  | (cancelled) y reason where "y \<in> set (jobs d)" "j_id y \<noteq> i" "cancellable y"
      "x = cancel_values now reason y"
  | (same) "x \<in> set (jobs d)" "j_id x \<noteq> i"
proof (cases "job_by_id d i")
  case None
  with x have "x \<in> set (jobs d)" by (simp add: update_status_missing)
  moreover have "j_id x \<noteq> i" using None calculation by (auto simp: get_by_None_iff)
  ultimately show thesis by (rule same)
next
  case (Some j)
  obtain reason where "jobs (snd (update_status cfg now i st extra msg None d)) = rows_after now i st extra reason d"
    using update_status_rows(2) [OF wf Some] by blast
  with x obtain y where y: "y \<in> set (jobs (written now i st extra d))"
    "x = (if j_id y \<in> cascaded now i st extra d then cancel_values now reason y else y)"
    by (auto simp: rows_after_def set_update_where)
  from y(1) obtain z where z: "z \<in> set (jobs d)" "y = (if j_id z = i then status_values now st extra z else z)"
    by (auto simp: written_def set_update_where)
  show thesis
  proof (cases "j_id y \<in> cascaded now i st extra d")
    case True
    have "cancellable y" by (rule cascaded_waiting [OF wf y(1) True])
    moreover have "st = DEAD_LETTER \<or> st = CANCELLED" using True by (auto simp: cascaded_def split: if_splits)
    ultimately have "j_id z \<noteq> i" using z(2) by (auto simp: cancellable_def)
    then show thesis using cancelled [of z reason] z y True \<open>cancellable y\<close> by simp
  next
    case False
    then show thesis using written [of z] same z y by (auto split: if_splits)
  qed
qed

lemma job_by_id_update_status:
  assumes "wf_db d" "job_by_id d i = Some j"
  shows "\<exists>reason. \<forall>k. job_by_id (snd (update_status cfg now i st extra msg None d)) k =
     map_option (\<lambda>x. if j_id x \<in> cascaded now i st extra d then cancel_values now reason x else x)
       (job_by_id (written now i st extra d) k)"
  using update_status_rows(2) [OF assms, of cfg now st extra msg]
  by (auto simp: rows_after_def get_by_update_where)

lemma job_by_id_update_status_self:
  assumes wf: "wf_db d" and j: "job_by_id d i = Some j" and st: "st \<noteq> WAITING"
  shows "job_by_id (snd (update_status cfg now i st extra msg None d)) i = Some (status_values now st extra j)"
proof -
  let ?x = "status_values now st extra j"
  obtain reason where "job_by_id (snd (update_status cfg now i st extra msg None d)) i =
     map_option (\<lambda>x. if j_id x \<in> cascaded now i st extra d then cancel_values now reason x else x)
       (job_by_id (written now i st extra d) i)"
    using job_by_id_update_status [OF wf j] by blast
  moreover have w: "job_by_id (written now i st extra d) i = Some ?x"
    using j by (simp add: job_by_id_written)
  moreover have "j_id ?x \<notin> cascaded now i st extra d"
    using cascaded_waiting [OF wf, of ?x now i st extra] get_by_SomeD [OF w] st
    by (auto simp: cancellable_def)
  ultimately show ?thesis by simp
qed

lemma job_is_update_status_self:
  "wf_db d \<Longrightarrow> job_by_id d i = Some j \<Longrightarrow> st \<noteq> WAITING \<Longrightarrow> P (status_values now st extra j) \<Longrightarrow>
   job_is P (snd (update_status cfg now i st extra msg None d)) i"
  by (simp add: job_is_def job_by_id_update_status_self)

lemma job_by_id_update_status_other:
  assumes wf: "wf_db d" and k: "k \<noteq> i" "job_by_id d k = Some x" "\<not> cancellable x"
  shows "job_by_id (snd (update_status cfg now i st extra msg None d)) k = Some x"
proof (cases "job_by_id d i")
  case None
  then show ?thesis using k by (simp add: update_status_missing)
next
  case (Some j)
  have w: "job_by_id (written now i st extra d) k = Some x" using k by (simp add: job_by_id_written)
  have "j_id x \<notin> cascaded now i st extra d"
    using cascaded_waiting [OF wf, of x now i st extra] get_by_SomeD [OF w] k(3) by blast
  then show ?thesis using job_by_id_update_status [OF wf Some, of cfg now st extra msg] w by auto
qed

lemma wf_update_status: "wf_db d \<Longrightarrow> wf_db (snd (update_status cfg now i st extra msg None d))"
  using update_status_rows(6) [of d i] by (cases "job_by_id d i") (auto simp: update_status_missing)

section \<open>Concrete databases\<close>

definition sample_job :: "uuid \<Rightarrow> job_status \<Rightarrow> job" where
  "sample_job i st = (new_job 7 8 ''csv_upload'' st)\<lparr>j_id := i, j_max_attempts := 3\<rparr>"

definition sample_db :: "job list \<Rightarrow> (uuid \<times> uuid) list \<Rightarrow> db" where
  "sample_db rows edges = empty_db\<lparr>jobs := rows,
     job_dependencies := map (\<lambda>(c, p). \<lparr>d_job_id = c, d_depends_on_job_id = p\<rparr>) edges,
     next_uuid := 100\<rparr>"

lemma sample_job_simps [simp]:
  "j_id (sample_job i st) = i" "j_status (sample_job i st) = st" "j_tenant_id (sample_job i st) = 7"
  "j_user_id (sample_job i st) = 8" "j_type (sample_job i st) = ''csv_upload''"
  "j_max_attempts (sample_job i st) = 3" "j_retry_count (sample_job i st) = 0"
  "j_saga_id (sample_job i st) = None" "j_payload (sample_job i st) = None"
  "j_started_at (sample_job i st) = None" "j_completed_at (sample_job i st) = None"
  "j_heartbeat_at (sample_job i st) = None" "j_requeued_at (sample_job i st) = None"
  "j_created_at (sample_job i st) = 0" "j_updated_at (sample_job i st) = 0"
  "j_idempotency_key (sample_job i st) = None" "j_remediation_hint (sample_job i st) = None"
  by (simp_all add: sample_job_def new_job_def)

lemma sample_db_simps [simp]:
  "jobs (sample_db rows edges) = rows" "sagas (sample_db rows edges) = []"
  "outbox_events (sample_db rows edges) = []" "next_uuid (sample_db rows edges) = 100"
  "job_dependencies (sample_db rows edges) = map (\<lambda>(c, p). \<lparr>d_job_id = c, d_depends_on_job_id = p\<rparr>) edges"
  by (simp_all add: sample_db_def empty_db_def)

lemma wf_sample:
  "distinct (map j_id rows) \<Longrightarrow> \<forall>j \<in> set rows. j_id j < 100 \<Longrightarrow>
   \<forall>(c, p) \<in> set edges. c \<in> j_id ` set rows \<and> p \<in> j_id ` set rows \<and> p < c \<Longrightarrow>
   wf_db (sample_db rows edges)"
  by (auto simp: wf_db_def)

lemma db_inv_sample:
  assumes "distinct (map j_id rows)"
    and "\<forall>j \<in> set rows. j_id j < 100 \<and> \<not> terminal (j_status j) \<and> j_status j \<noteq> RUNNING"
    and "\<forall>(c, p) \<in> set edges. c \<in> j_id ` set rows \<and> p \<in> j_id ` set rows \<and> p < c"
  shows "db_inv cfg (sample_db rows edges)"
  using assms by (auto simp: db_inv_def wf_db_def announced_def stamped_def stamped_job_def)

section \<open>The single writer: announcement and cascade\<close>

lemma blocked_increases:
  assumes "wf_db d" "blocked d {i} m c"
  shows "i < c"
proof -
  have edge: "dep_edge d c p \<Longrightarrow> p < c" for c p using assms(1) by (auto simp: dep_edge_def wf_db_def)
  from assms(2) show ?thesis by (induction rule: blocked.induct) (use edge order.strict_trans in blast)+
qed

lemma blocked_written:
  assumes wf: "wf_db d" and "st \<noteq> WAITING"
  shows "blocked (written now i st extra d) {i} m c \<longleftrightarrow> blocked d {i} m c"
proof
  let ?w = "written now i st extra d"
  have edge: "dep_edge ?w c p \<longleftrightarrow> dep_edge d c p" for c p by (simp add: dep_edge_def)
  have free: "c \<noteq> i \<Longrightarrow> waiting_free ?w c \<longleftrightarrow> waiting_free d c" for c
    by (simp add: waiting_free_def job_by_id_written)
  have up: "dep_edge d c p \<Longrightarrow> p < c" for c p using wf by (auto simp: dep_edge_def wf_db_def)
  show "blocked ?w {i} m c" if "blocked d {i} m c"
    using that
  proof (induction rule: blocked.induct)
    case (blocked_child f c)
    then show ?case using up [of c f] by (intro blocked.blocked_child) (auto simp: edge free)
  next
    case (blocked_below m b c)
    then show ?case
      using up [of c b] blocked_increases [OF wf, of i m b] by (intro blocked.blocked_below) (auto simp: edge free)
  qed
  show "blocked d {i} m c" if "blocked ?w {i} m c"
    using that
  proof (induction rule: blocked.induct)
    case (blocked_child f c)
    then show ?case using up [of c f] by (intro blocked.blocked_child) (auto simp: edge free)
  next
    case (blocked_below m b c)
    then show ?case
      using up [of c b] blocked_increases [OF wf, of i m b] by (intro blocked.blocked_below) (auto simp: edge free)
  qed
qed

lemma cascaded_blocked:
  "wf_db d \<Longrightarrow> st = DEAD_LETTER \<or> st = CANCELLED \<Longrightarrow>
   cascaded now i st extra d = blocked_within d {i} cascade_max_depth"
  by (auto simp: cascaded_def blocked_within_def blocked_written)

text \<open>
  Property C5. Writing a terminal status and announcing it are one act: the write adds one event,
  on the topic of that status and keyed to the job's own tenant and user, and after it one
  cancellation event for each job the cascade cancelled; nothing else enters the outbox.
\<close>

theorem terminal_write_announces:
  assumes wf: "wf_db d" and j: "job_by_id d i = Some j" and st: "terminal st"
  shows "\<exists>e cs os. outbox_events (snd (update_status cfg now i st extra msg None d)) = outbox_events d @ e # os
    \<and> announces cfg (status_values now st extra j) e
    \<and> list_all2 (announces cfg) cs os \<and> distinct (map j_id cs)
    \<and> set cs = {x \<in> set (jobs (snd (update_status cfg now i st extra msg None d))). j_id x \<in> cascaded now i st extra d}"
proof -
  let ?j = "status_values now st extra j" and ?w = "written now i st extra d"
  define d2 where "d2 = emit_terminal_event cfg now ?j st msg ?w"
  have jw: "job_by_id ?w i = Some ?j" using j by (simp add: job_by_id_written)
  have wf2: "wf_db d2" by (simp add: d2_def wf_emit wf_written wf)
  obtain e where e: "outbox_events d2 = outbox_events d @ [e]" "announces cfg ?j e"
    using emit_announces [OF st, of ?j cfg now msg ?w] by (auto simp: d2_def)
  have eq: "snd (update_status cfg now i st extra msg None d) =
      (if st = DEAD_LETTER \<or> st = CANCELLED then snd (cascade_cancel_blocked_children cfg now i st d2) else d2)"
    using jw st by (auto simp: update_status_unguarded Let_def d2_def)
  have "\<exists>reason. cascade_outcome cfg now reason (cascaded now i st extra d) d2
      (snd (update_status cfg now i st extra msg None d))"
  proof (cases "st = DEAD_LETTER \<or> st = CANCELLED")
    case True
    have "\<not> waiting_free d2 i" using jw True by (auto simp: d2_def waiting_free_def cancellable_def)
    moreover have "cascaded now i st extra d = blocked_within d2 {i} cascade_max_depth"
      using True blocked_cong [of ?w d2] by (simp add: cascaded_def d2_def)
    ultimately show ?thesis using cascade_outcome_children [OF wf2, of i cfg now st] eq True by simp
  next
    case False
    then show ?thesis using eq cascade_outcome_none [OF wf2] by (auto simp: cascaded_def)
  qed
  then obtain cs os where "outbox_events (snd (update_status cfg now i st extra msg None d)) = outbox_events d2 @ os"
      "list_all2 (announces cfg) cs os" "distinct (map j_id cs)"
      "set cs = {x \<in> set (jobs (snd (update_status cfg now i st extra msg None d))). j_id x \<in> cascaded now i st extra d}"
    by (auto simp: cascade_outcome_def)
  then show ?thesis using e by (intro exI [of _ e] exI [of _ cs] exI [of _ os]) simp
qed

theorem terminal_write_announces_witness:
  "\<exists>e os. outbox_events (snd (update_status default_settings 5 1 DEAD_LETTER [] None None
       (sample_db [sample_job 1 RUNNING, sample_job 2 WAITING] [(2, 1)]))) = e # os \<and> o_topic e = ''job.dlq''"
proof -
  have "wf_db (sample_db [sample_job 1 RUNNING, sample_job 2 WAITING] [(2, 1)])" by (rule wf_sample) auto
  from terminal_write_announces [OF this, of 1 "sample_job 1 RUNNING" DEAD_LETTER default_settings 5 "[]" None]
  show ?thesis by (auto simp: announces_def terminal_topic_def default_settings_def)
qed

lemma cascade_effect:
  assumes wf: "wf_db d" and j: "job_by_id d i = Some j" and st: "st = DEAD_LETTER \<or> st = CANCELLED"
    and k: "k \<noteq> i"
  shows "if \<exists>m \<le> 50. blocked d {i} m k
    then job_is (\<lambda>x. j_status x = CANCELLED) (snd (update_status cfg now i st extra msg None d)) k
    else job_by_id (snd (update_status cfg now i st extra msg None d)) k = job_by_id d k"
proof -
  have X: "cascaded now i st extra d = {c. \<exists>m \<le> 50. blocked d {i} m c}"
    using cascaded_blocked [OF wf st] by (simp add: blocked_within_def cascade_max_depth_def)
  obtain reason where r: "job_by_id (snd (update_status cfg now i st extra msg None d)) k =
     map_option (\<lambda>x. if j_id x \<in> cascaded now i st extra d then cancel_values now reason x else x) (job_by_id d k)"
    using job_by_id_update_status [OF wf j, of cfg now st extra msg] k by (auto simp: job_by_id_written)
  show ?thesis
  proof (cases "job_by_id d k")
    case None
    have "\<not> blocked d {i} m k" for m
      using None blocked_waiting_free [of d "{i}" m k] by (auto simp: waiting_free_def)
    then show ?thesis using None r by simp
  next
    case (Some x)
    moreover have "j_id x = k" using get_by_SomeD [OF Some] by simp
    ultimately show ?thesis using r unfolding X by (auto simp: job_is_def)
  qed
qed

text \<open>
  Property C6. A job that ends dead-lettered or cancelled takes with it exactly the waiting jobs
  below it, outside sagas, that are reached within fifty dependency edges through such jobs:
  each becomes cancelled, and every other row stays as it was.
\<close>

theorem cascade_exact:
  assumes "wf_db d" and "job_by_id d i = Some j" and "st = DEAD_LETTER \<or> st = CANCELLED"
    and "k \<noteq> i"
  shows "if \<exists>m \<le> 50. blocked d {i} m k
    then job_is (\<lambda>x. j_status x = CANCELLED) (snd (update_status cfg now i st extra msg None d)) k
    else job_by_id (snd (update_status cfg now i st extra msg None d)) k = job_by_id d k"
  using assms by (rule cascade_effect)

theorem cascade_exact_witness:
  "job_is (\<lambda>x. j_status x = CANCELLED) (snd (update_status default_settings 5 1 DEAD_LETTER [] None None
     (sample_db [sample_job 1 RUNNING, sample_job 2 WAITING] [(2, 1)]))) 2"
proof -
  let ?d = "sample_db [sample_job 1 RUNNING, sample_job 2 WAITING] [(2, 1)]"
  have "wf_db ?d" by (rule wf_sample) auto
  moreover have "blocked ?d {1} (Suc 0) 2"
    by (rule blocked.blocked_child) (auto simp: dep_edge_def waiting_free_def cancellable_def)
  ultimately show ?thesis
    using cascade_exact [of ?d 1 "sample_job 1 RUNNING" DEAD_LETTER 2 default_settings 5 "[]" None]
    by (auto split: if_splits)
qed

text \<open>
  A legal chain of dependencies longer than fifty edges: the job below the bound keeps waiting
  for a parent that was itself cancelled.
\<close>

definition chain_db :: db where
  "chain_db = sample_db (sample_job 0 RUNNING # map (\<lambda>k. sample_job k WAITING) [1..<60])
     (map (\<lambda>k. (Suc k, k)) [0..<59])"

lemma chain_blocked: "blocked chain_db {0} m c \<Longrightarrow> c = m"
  by (induction rule: blocked.induct) (auto simp: dep_edge_def chain_db_def)

theorem cascade_stops_at_fifty:
  "job_is (\<lambda>x. j_status x = WAITING) (snd (update_status default_settings 5 0 DEAD_LETTER [] None None chain_db)) 51"
proof -
  have wf: "wf_db chain_db" unfolding chain_db_def by (rule wf_sample) (auto simp: comp_def image_image)
  moreover have "job_by_id chain_db 0 = Some (sample_job 0 RUNNING)" by (simp add: chain_db_def)
  moreover have "\<not> (\<exists>m \<le> 50. blocked chain_db {0} m 51)" using chain_blocked by fastforce
  moreover have "job_by_id chain_db 51 = Some (sample_job 51 WAITING)"
    using wf_job_by_id [OF wf, of "sample_job 51 WAITING"] by (simp add: chain_db_def)
  ultimately show ?thesis
    using wf cascade_effect [of chain_db 0 "sample_job 0 RUNNING" DEAD_LETTER 51 default_settings 5 "[]" None]
    by (simp add: job_is_def)
qed

end
