(* ===== verification/Dag_Pause.thy ===== *)
theory Dag_Pause
  imports Job_Repository
begin

text \<open>
  DAG pause flags, \<open>utils/dag_pause.py\<close>. A flag is a Redis key per job id; a job is held
  while it or one of its ancestors carries one. \<open>RedisDown\<close> is a failed lookup, which reads
  as unpaused.
\<close>

datatype pause_flags = PauseFlags "uuid list" | RedisDown

definition max_ancestor_nodes :: nat where
  "max_ancestor_nodes = 64"

text \<open>
  The breadth-first walk. \<open>order\<close> holds the nodes visited so far, and also plays the part of
  the set \<open>seen\<close>, which the code keeps equal to it.
\<close>

function ancestors_loop :: "db \<Rightarrow> uuid list \<Rightarrow> uuid list \<Rightarrow> uuid list" where
  "ancestors_loop d order [] = order"
| "ancestors_loop d order (node # frontier) =
     (if max_ancestor_nodes \<le> length order then order
      else if node \<in> set order then ancestors_loop d order frontier
      else ancestors_loop d (order @ [node]) (frontier @ dep_parents node d))"
  by pat_completeness auto
termination
  by (relation "measures [\<lambda>(d, order, frontier). max_ancestor_nodes - length order,
                          \<lambda>(d, order, frontier). length frontier]") auto

definition collect_ancestors :: "uuid \<Rightarrow> bool \<Rightarrow> db \<Rightarrow> uuid list" where
  "collect_ancestors i include_self d =
     ancestors_loop d [] (if include_self then [i] else dep_parents i d)"

definition find_blocking_pause :: "pause_flags \<Rightarrow> uuid \<Rightarrow> db \<Rightarrow> uuid option" where
  "find_blocking_pause flags i d =
     (case flags of
        RedisDown \<Rightarrow> None
      | PauseFlags fs \<Rightarrow> find (\<lambda>n. n \<in> set fs) (collect_ancestors i True d))"

section \<open>The walk visits exactly the ancestors, up to its bound\<close>

inductive ancestor :: "db \<Rightarrow> uuid \<Rightarrow> uuid \<Rightarrow> bool" for d i where
  ancestor_self: "ancestor d i i"
| ancestor_step: "ancestor d i b \<Longrightarrow> dep_edge d b p \<Longrightarrow> ancestor d i p"

lemma set_dep_parents: "set (dep_parents b d) = {p. dep_edge d b p}"
  by (auto simp: dep_parents_def dep_edge_def)

lemma ancestors_loop_distinct: "distinct order \<Longrightarrow> distinct (ancestors_loop d order frontier)"
  by (induction d order frontier rule: ancestors_loop.induct) auto

lemma ancestors_loop_length:
  "length order \<le> max_ancestor_nodes \<Longrightarrow> length (ancestors_loop d order frontier) \<le> max_ancestor_nodes"
  by (induction d order frontier rule: ancestors_loop.induct) auto

lemma ancestors_loop_sound:
  "\<forall>x \<in> set order \<union> set frontier. ancestor d i x \<Longrightarrow>
   \<forall>x \<in> set (ancestors_loop d order frontier). ancestor d i x"
proof (induction d order frontier rule: ancestors_loop.induct)
  case (2 d order node frontier)
  have "\<forall>x \<in> set (order @ [node]) \<union> set (frontier @ dep_parents node d). ancestor d i x"
    using "2.prems" by (auto simp: set_dep_parents intro: ancestor.ancestor_step)
  with 2 show ?case by simp
qed simp

lemma ancestors_loop_closed:
  "(\<forall>b \<in> set order. \<forall>p. dep_edge d b p \<longrightarrow> p \<in> set order \<union> set frontier) \<Longrightarrow>
   length (ancestors_loop d order frontier) < max_ancestor_nodes \<Longrightarrow>
   set order \<union> set frontier \<subseteq> set (ancestors_loop d order frontier)
   \<and> (\<forall>b \<in> set (ancestors_loop d order frontier). \<forall>p. dep_edge d b p \<longrightarrow>
        p \<in> set (ancestors_loop d order frontier))"
proof (induction d order frontier rule: ancestors_loop.induct)
  case (2 d order node frontier)
  show ?case
  proof (cases "node \<in> set order")
    case True
    with "2.prems" have "\<not> max_ancestor_nodes \<le> length order" by (auto split: if_splits)
    with True 2 show ?thesis by (auto simp: insert_absorb)
  next
    case False
    with "2.prems" have nb: "\<not> max_ancestor_nodes \<le> length order" by (auto split: if_splits)
    have "\<forall>b \<in> set (order @ [node]). \<forall>p. dep_edge d b p \<longrightarrow>
        p \<in> set (order @ [node]) \<union> set (frontier @ dep_parents node d)"
      using "2.prems"(1) by (auto simp: set_dep_parents)
    with nb False 2 show ?thesis by auto
  qed
qed auto

lemma collect_ancestors_complete:
  assumes "length (collect_ancestors i True d) < max_ancestor_nodes" "ancestor d i p"
  shows "p \<in> set (collect_ancestors i True d)"
proof -
  define A where "A = ancestors_loop d [] [i]"
  have "set [] \<union> set [i] \<subseteq> set A \<and> (\<forall>b \<in> set A. \<forall>p. dep_edge d b p \<longrightarrow> p \<in> set A)"
    unfolding A_def
    by (rule ancestors_loop_closed)
      (use assms(1) in \<open>simp_all add: collect_ancestors_def del: ancestors_loop.simps\<close>)
  then have self: "i \<in> set A" and closed: "\<And>b p. b \<in> set A \<Longrightarrow> dep_edge d b p \<Longrightarrow> p \<in> set A"
    by auto
  from assms(2) have "p \<in> set A"
    by (induction rule: ancestor.induct) (blast intro: self closed)+
  then show ?thesis by (simp add: collect_ancestors_def A_def)
qed

lemma collect_ancestors_sound: "p \<in> set (collect_ancestors i True d) \<Longrightarrow> ancestor d i p"
  using ancestors_loop_sound [of "[]" "[i]" d i] by (auto simp: collect_ancestors_def ancestor.ancestor_self)

lemma find_blocking_pause_sound:
  "find_blocking_pause (PauseFlags fs) i d = Some n \<Longrightarrow> n \<in> set fs \<and> ancestor d i n"
  by (auto simp: find_blocking_pause_def find_Some_iff intro: collect_ancestors_sound)

lemma find_blocking_pause_complete:
  assumes "length (collect_ancestors i True d) < max_ancestor_nodes" "ancestor d i n" "n \<in> set fs"
  shows "find_blocking_pause (PauseFlags fs) i d \<noteq> None"
  using collect_ancestors_complete [OF assms(1,2)] assms(3)
  by (auto simp: find_blocking_pause_def find_None_iff)

lemma find_blocking_pause_deps_only:
  "job_dependencies d = job_dependencies d' \<Longrightarrow>
   find_blocking_pause flags i d = find_blocking_pause flags i d'"
proof -
  assume "job_dependencies d = job_dependencies d'"
  then have "dep_parents n d = dep_parents n d'" for n by (simp add: dep_parents_def)
  then have "ancestors_loop d order frontier = ancestors_loop d' order frontier" for order frontier
    by (induction d order frontier rule: ancestors_loop.induct) auto
  then show ?thesis
    using \<open>\<And>n. dep_parents n d = dep_parents n d'\<close>
    by (cases flags) (simp_all add: find_blocking_pause_def collect_ancestors_def)
qed

text \<open>
  A pause holds a job exactly when the job or one of its ancestors carries a flag,
  as long as the walk stays below its bound of 64 nodes; the flag it reports is one of those.
\<close>

theorem pause_exact:
  assumes "length (collect_ancestors i True d) < 64"
  shows "case find_blocking_pause (PauseFlags fs) i d of
      None \<Rightarrow> \<forall>n \<in> set fs. \<not> ancestor d i n
    | Some n \<Rightarrow> n \<in> set fs \<and> ancestor d i n"
  using find_blocking_pause_sound [of fs i d] find_blocking_pause_complete [of i d _ fs] assms
  by (auto simp: max_ancestor_nodes_def split: option.split)

lemma collect_ancestors_code:
  "collect_ancestors 4 True (sample_db [sample_job 2 COMPLETED, sample_job 3 COMPLETED, sample_job 4 PENDING]
     [(4, 3), (3, 2)]) = [4, 3, 2]"
  by (simp add: collect_ancestors_def dep_parents_def max_ancestor_nodes_def)

theorem pause_exact_witness:
  "find_blocking_pause (PauseFlags [2]) 4 (sample_db
     [sample_job 2 COMPLETED, sample_job 3 COMPLETED, sample_job 4 PENDING] [(4, 3), (3, 2)]) \<noteq> None"
proof -
  let ?d = "sample_db [sample_job 2 COMPLETED, sample_job 3 COMPLETED, sample_job 4 PENDING] [(4, 3), (3, 2)]"
  have "ancestor ?d 4 2"
    by (rule ancestor.ancestor_step [OF ancestor.ancestor_step [OF ancestor.ancestor_self, of _ _ 3]])
      (auto simp: dep_edge_def)
  then show ?thesis
    using pause_exact [of 4 ?d "[2]"] by (auto simp: collect_ancestors_code split: option.splits)
qed

end
