(* ===== verification/Job_Service.thy ===== *)
theory Job_Service
  imports Dag_Pause
begin

text \<open>
  \<open>services/job.py\<close>: creating, reading, replaying and resolving jobs. The job row, its audit
  row and its outbox event are written in one transaction; an error discards the
  transaction, so it is a left summand and carries no database.
\<close>

section \<open>Context of a call\<close>

text \<open>
  What the service reads besides the database: the pause flags in Redis, the trace and
  request ids of the ambient context, the OpenTelemetry carrier, and whether the service was
  built with a dependency repository.
\<close>

record call_ctx =
  c_now :: time
  c_flags :: pause_flags
  c_trace_id :: string
  c_request_id :: string
  c_otel :: dict
  c_has_dep_repo :: bool

record create_req =
  r_user_id :: uuid
  r_tenant_id :: uuid
  r_job_type :: string
  r_payload :: "dict option"
  r_idempotency_key :: "string option"
  r_priority :: int
  r_max_attempts :: "int option"
  r_dependencies :: "uuid list"
  r_saga_id :: "uuid option"
  r_saga_step_index :: "int option"

definition none_if_empty :: "string \<Rightarrow> string option" where
  "none_if_empty s = (if s = [] then None else Some s)"

text \<open>\<open>d[k] = v\<close> on a dictionary.\<close>

fun dict_set :: "string \<Rightarrow> json \<Rightarrow> dict \<Rightarrow> dict" where
  "dict_set k v [] = [(k, v)]"
| "dict_set k v ((k', v') # d) = (if k' = k then (k, v) # d else (k', v') # dict_set k v d)"

definition job_submitted_payload :: "job \<Rightarrow> dict" where
  "job_submitted_payload j =
     [(''event'', JStr ''job.submitted''),
      (''tenant_id'', juuid (j_tenant_id j)),
      (''job_id'', juuid (j_id j)),
      (''user_id'', juuid (j_user_id j)),
      (''job_type'', JStr (j_type j)),
      (''payload'', JObj (case j_payload j of None \<Rightarrow> [] | Some p \<Rightarrow> p)),
      (''priority'', JInt (j_priority j)),
      (''trace_id'', jstr_opt (j_trace_id j))]"

text \<open>The \<open>job.submitted\<close> row every dispatching path adds.\<close>

definition submit :: "settings \<Rightarrow> time \<Rightarrow> job \<Rightarrow> db \<Rightarrow> db" where
  "submit cfg now j d =
     outbox_add now (j_tenant_id j) (kafka_topic_job_submitted cfg)
       (partition_key (j_tenant_id j) (j_user_id j)) (job_submitted_payload j) d"

section \<open>\<open>create_job\<close>\<close>

fun load_parents :: "uuid list \<Rightarrow> db \<Rightarrow> app_error + job list" where
  "load_parents [] d = Inr []"
| "load_parents (p # ps) d =
     (case job_by_id d p of
        None \<Rightarrow> Inl (NotFoundError (''Dependency job '' @ uuid_str p @ '' not found''))
      | Some j \<Rightarrow> (case load_parents ps d of Inl e \<Rightarrow> Inl e | Inr js \<Rightarrow> Inr (j # js)))"

definition initial_status :: "call_ctx \<Rightarrow> uuid list \<Rightarrow> job list \<Rightarrow> db \<Rightarrow> job_status" where
  "initial_status ctx deps parents d =
     (if \<exists>p \<in> set parents. j_status p \<noteq> COMPLETED then WAITING
      else if deps \<noteq> [] \<and> c_has_dep_repo ctx
              \<and> (\<exists>p \<in> set parents. find_blocking_pause (c_flags ctx) (j_id p) d \<noteq> None)
      then WAITING else PENDING)"

definition enriched_payload :: "call_ctx \<Rightarrow> dict option \<Rightarrow> dict" where
  "enriched_payload ctx payload =
     (let p = (case payload of None \<Rightarrow> [] | Some q \<Rightarrow> q)
      in if c_otel ctx = [] then p else dict_set ''__traceparent'' (JObj (c_otel ctx)) p)"

definition create_row :: "settings \<Rightarrow> call_ctx \<Rightarrow> create_req \<Rightarrow> job_status \<Rightarrow> job" where
  "create_row cfg ctx req st =
     (new_job (r_tenant_id req) (r_user_id req) (r_job_type req) st)
       \<lparr>j_idempotency_key := r_idempotency_key req,
        j_payload := Some (enriched_payload ctx (r_payload req)),
        j_priority := r_priority req,
        j_max_attempts := (case r_max_attempts req of None \<Rightarrow> max_job_attempts cfg | Some n \<Rightarrow> n),
        j_trace_id := none_if_empty (c_trace_id ctx),
        j_saga_id := r_saga_id req,
        j_saga_step_index := r_saga_step_index req\<rparr>"

definition create_audit :: "call_ctx \<Rightarrow> create_req \<Rightarrow> job \<Rightarrow> db \<Rightarrow> db" where
  "create_audit ctx req j d =
     audit_log_write ''job.created'' (r_tenant_id req)
       (no_args\<lparr>aa_user_id := Some (r_user_id req), aa_job_id := Some (j_id j),
          aa_resource_type := Some ''job'', aa_resource_id := Some (uuid_str (j_id j)),
          aa_request_id := none_if_empty (c_request_id ctx),
          aa_extra_data := Some
            [(''type'', JStr (r_job_type req)), (''priority'', JInt (r_priority req)),
             (''dependencies'', JArr (map juuid (r_dependencies req))),
             (''initial_status'', JStr (job_status_value (j_status j)))]\<rparr>) d"

text \<open>The audit row, and the submission event when the job is ready to run.\<close>

definition finish_create :: "settings \<Rightarrow> call_ctx \<Rightarrow> create_req \<Rightarrow> job \<Rightarrow> job_status \<Rightarrow> db \<Rightarrow> db" where
  "finish_create cfg ctx req j st d =
     (let d1 = create_audit ctx req j d
      in if st = PENDING then submit cfg (c_now ctx) j d1 else d1)"

text \<open>
  The insert under its savepoint. The unique constraint on \<open>(tenant_id, idempotency_key)\<close>
  rejects the loser of a race, which is then handed the winner's row.
\<close>

definition insert_job :: "settings \<Rightarrow> call_ctx \<Rightarrow> create_req \<Rightarrow> job_status \<Rightarrow> db \<Rightarrow> app_error + (job \<times> db)" where
  "insert_job cfg ctx req st d =
     (case (case r_idempotency_key req of None \<Rightarrow> None
            | Some k \<Rightarrow> get_by_idempotency_key k (r_tenant_id req) d) of
        Some winner \<Rightarrow> Inr (winner, d)
      | None \<Rightarrow>
          (let (j, d1) = job_create (c_now ctx) (create_row cfg ctx req st) d
           in if r_dependencies req \<noteq> [] \<and> \<not> c_has_dep_repo ctx
              then Inl (RuntimeError ''JobService.create_job called with dependencies but no dep_repo'')
              else case (if r_dependencies req = [] then Inr d1
                         else dep_add (j_id j) (r_dependencies req) d1) of
                Inl e \<Rightarrow> Inl e
              | Inr d2 \<Rightarrow> Inr (j, finish_create cfg ctx req j st d2)))"

text \<open>
  \<open>seen\<close> is the database its reads saw, \<open>d\<close> the one its insert hits; other transactions may
  have committed in between.
\<close>

definition create_job ::
    "settings \<Rightarrow> call_ctx \<Rightarrow> create_req \<Rightarrow> db \<Rightarrow> db \<Rightarrow> app_error + (job \<times> db)" where
  "create_job cfg ctx req seen d =
     (case (case r_idempotency_key req of None \<Rightarrow> None
            | Some k \<Rightarrow> if k = [] then None else get_by_idempotency_key k (r_tenant_id req) seen) of
        Some existing \<Rightarrow> Inr (existing, d)
      | None \<Rightarrow>
          (case load_parents (r_dependencies req) seen of
             Inl e \<Rightarrow> Inl e
           | Inr parents \<Rightarrow>
               insert_job cfg ctx req (initial_status ctx (r_dependencies req) parents seen) d))"

section \<open>Reads\<close>

definition get_job :: "uuid \<Rightarrow> uuid \<Rightarrow> user_role \<Rightarrow> uuid \<Rightarrow> db \<Rightarrow> app_error + job" where
  "get_job i requester role tenant d =
     (case get_for_tenant i tenant d of
        None \<Rightarrow> Inl (NotFoundError (''Job '' @ uuid_str i @ '' not found''))
      | Some j \<Rightarrow>
          if \<not> (role = ADMIN \<or> role = SUPPORT) \<and> j_user_id j \<noteq> requester
          then Inl (AuthorizationError ''Not allowed to view this job'')
          else Inr j)"

definition service_list_jobs ::
    "uuid \<Rightarrow> user_role \<Rightarrow> uuid \<Rightarrow> nat \<Rightarrow> nat \<Rightarrow> job_filter \<Rightarrow> db \<Rightarrow> job list \<times> nat" where
  "service_list_jobs requester role tenant page page_size f d =
     (let user = (if role = ADMIN \<or> role = SUPPORT then f_user_id f else Some requester)
      in list_jobs tenant ((page - 1) * page_size) page_size (f\<lparr>f_user_id := user\<rparr>) SORT_CREATED_AT d)"

section \<open>\<open>replay_job\<close> and \<open>resolve_incident\<close>\<close>

text \<open>The cache effect of a call: now, or once the transaction has committed.\<close>

datatype cache_effect = CacheDelete uuid uuid | CacheInvalidatePostCommit uuid uuid

definition replay_extra :: "job_assignment list" where
  "replay_extra = [SetRetryCount 0, SetErrorMessage None, SetResult None, SetDeadLetteredBy None,
     SetRemediationHint None, SetFencedAt None, SetFencedBy None]"

definition replay_audit ::
    "call_ctx \<Rightarrow> job \<Rightarrow> uuid option \<Rightarrow> string \<Rightarrow> uuid option \<Rightarrow> db \<Rightarrow> db" where
  "replay_audit ctx j requester ptype pid d =
     audit_log_write ''job.replayed'' (j_tenant_id j)
       (no_args\<lparr>aa_user_id := (if ptype = ''user'' then requester else None),
          aa_principal_type := Some ptype,
          aa_principal_id := (if pid \<noteq> None then pid else requester),
          aa_job_id := Some (j_id j), aa_resource_type := Some ''job'',
          aa_resource_id := Some (uuid_str (j_id j)),
          aa_request_id := none_if_empty (c_request_id ctx),
          aa_extra_data := Some
            [(''previous_status'', JStr (job_status_value (j_status j))),
             (''previous_retry_count'', JInt (j_retry_count j))]\<rparr>) d"

definition replay_job ::
    "settings \<Rightarrow> call_ctx \<Rightarrow> uuid \<Rightarrow> uuid \<Rightarrow> uuid option \<Rightarrow> string \<Rightarrow> uuid option \<Rightarrow> db
      \<Rightarrow> app_error + (job \<times> cache_effect list \<times> db)" where
  "replay_job cfg ctx i tenant requester ptype pid d =
     (case get_for_tenant i tenant d of
        None \<Rightarrow> Inl (NotFoundError (''Job '' @ uuid_str i @ '' not found''))
      | Some j \<Rightarrow>
          if \<not> (j_status j = FAILED \<or> j_status j = DEAD_LETTER)
          then Inl (JobError (''Only failed/dead_letter jobs can be replayed, got: ''
                 @ job_status_value (j_status j)))
          else (case (if c_has_dep_repo ctx then find_blocking_pause (c_flags ctx) i d else None) of
            Some n \<Rightarrow> Inl (JobError (''Job '' @ uuid_str i @ '' is in a paused DAG (paused via ''
                   @ uuid_str n @ ''); replay refused while the pause holds''))
          | None \<Rightarrow>
              (let (updated, d1) = update_status cfg (c_now ctx) i PENDING replay_extra None None d;
                   d2 = replay_audit ctx j requester ptype pid d1;
                   d3 = submit cfg (c_now ctx) j d2
               in case updated of
                    None \<Rightarrow> Inl AssertionError
                  | Some u \<Rightarrow> Inr (u, [CacheInvalidatePostCommit i tenant], d3))))"

definition resolve_incident ::
    "settings \<Rightarrow> call_ctx \<Rightarrow> uuid \<Rightarrow> uuid \<Rightarrow> uuid \<Rightarrow> db
      \<Rightarrow> app_error + (job \<times> cache_effect list \<times> db)" where
  "resolve_incident cfg ctx i requester tenant d =
     (case get_for_tenant i tenant d of
        None \<Rightarrow> Inl (NotFoundError (''Job '' @ uuid_str i @ '' not found''))
      | Some j \<Rightarrow>
          (let (updated, d1) = update_status cfg (c_now ctx) i COMPLETED [] None None d;
               d2 = audit_log_write ''incident.resolved'' (j_tenant_id j)
                      (no_args\<lparr>aa_user_id := Some requester, aa_job_id := Some i,
                         aa_resource_type := Some ''job'', aa_resource_id := Some (uuid_str i),
                         aa_request_id := none_if_empty (c_request_id ctx)\<rparr>) d1
           in case updated of
                None \<Rightarrow> Inl AssertionError
              | Some u \<Rightarrow> Inr (u, [CacheDelete i tenant], d2)))"

section \<open>Invariants\<close>

lemma submit_simps [simp]:
  "jobs (submit cfg now j d) = jobs d"
  "job_dependencies (submit cfg now j d) = job_dependencies d"
  "sagas (submit cfg now j d) = sagas d"
  "audit_logs (submit cfg now j d) = audit_logs d"
  by (simp_all add: submit_def)

lemma db_inv_submit [platform_intros]: "db_inv cfg d \<Longrightarrow> db_inv cfg (submit cfg now j d)"
  by (simp add: submit_def db_inv_outbox_add)

lemma create_audit_simps [simp]:
  "jobs (create_audit ctx req j d) = jobs d"
  "job_dependencies (create_audit ctx req j d) = job_dependencies d"
  "outbox_events (create_audit ctx req j d) = outbox_events d"
  by (simp_all add: create_audit_def)

lemma load_parents_ids:
  "load_parents ps d = Inr js \<Longrightarrow>
   map j_id js = ps \<and> set js \<subseteq> set (jobs d)"
  by (induction ps arbitrary: js) (auto split: option.splits sum.splits dest: get_by_SomeD)

lemma job_create_simps [simp]:
  "fst (job_create now row d) = row\<lparr>j_id := next_uuid d, j_created_at := now, j_updated_at := now\<rparr>"
  "jobs (snd (job_create now row d)) =
     jobs d @ [row\<lparr>j_id := next_uuid d, j_created_at := now, j_updated_at := now\<rparr>]"
  "job_dependencies (snd (job_create now row d)) = job_dependencies d"
  "outbox_events (snd (job_create now row d)) = outbox_events d"
  "sagas (snd (job_create now row d)) = sagas d"
  by (simp_all add: job_create_def Let_def)

text \<open>No two jobs of a tenant carry the same idempotency key.\<close>

definition idem_unique :: "db \<Rightarrow> bool" where
  "idem_unique d \<longleftrightarrow>
     (\<forall>j \<in> set (jobs d). \<forall>j' \<in> set (jobs d). j_idempotency_key j \<noteq> None
        \<and> j_idempotency_key j = j_idempotency_key j' \<and> j_tenant_id j = j_tenant_id j' \<longrightarrow> j_id j = j_id j')"

text \<open>
  What \<open>insert_job\<close> does when it inserts: one new row under a fresh id, with its dependency
  rows, and its submission event iff it starts pending.
\<close>

lemma insert_job_cases:
  assumes "insert_job cfg ctx req st d = Inr (j, d')"
  obtains (winner) k where "r_idempotency_key req = Some k"
      "get_by_idempotency_key k (r_tenant_id req) d = Some j" "d' = d"
  | (fresh) d2 where "j = (create_row cfg ctx req st)\<lparr>j_id := next_uuid d,
        j_created_at := c_now ctx, j_updated_at := c_now ctx\<rparr>"
      "\<forall>k. r_idempotency_key req = Some k \<longrightarrow> get_by_idempotency_key k (r_tenant_id req) d = None"
      "(if r_dependencies req = [] then Inr (snd (job_create (c_now ctx) (create_row cfg ctx req st) d))
        else dep_add (j_id j) (r_dependencies req)
               (snd (job_create (c_now ctx) (create_row cfg ctx req st) d))) = Inr d2"
      "d' = finish_create cfg ctx req j st d2"
proof (cases "case r_idempotency_key req of None \<Rightarrow> None
      | Some k \<Rightarrow> get_by_idempotency_key k (r_tenant_id req) d")
  case None
  then have free: "\<forall>k. r_idempotency_key req = Some k \<longrightarrow>
      get_by_idempotency_key k (r_tenant_id req) d = None"
    by (auto split: option.splits)
  let ?c = "job_create (c_now ctx) (create_row cfg ctx req st) d"
  let ?X = "if r_dependencies req = [] then Inr (snd ?c)
      else dep_add (j_id (fst ?c)) (r_dependencies req) (snd ?c)"
  from assms None have "(case ?X of Inl e \<Rightarrow> Inl e
      | Inr d2 \<Rightarrow> Inr (fst ?c, finish_create cfg ctx req (fst ?c) st d2)) = Inr (j, d')"
    unfolding insert_job_def Let_def case_prod_beta by (auto split: if_splits)
  then obtain d2 where "?X = Inr d2" "j = fst ?c" "d' = finish_create cfg ctx req (fst ?c) st d2"
    by (cases ?X) auto
  then show thesis using fresh [of d2] free by (auto split: if_splits)
next
  case (Some w)
  then obtain k where k: "r_idempotency_key req = Some k"
      "get_by_idempotency_key k (r_tenant_id req) d = Some w"
    by (cases "r_idempotency_key req") auto
  with assms have "j = w" "d' = d" by (simp_all add: insert_job_def)
  with k show thesis using winner by simp
qed

lemma finish_create_simps [simp]:
  "jobs (finish_create cfg ctx req j st d) = jobs d"
  "job_dependencies (finish_create cfg ctx req j st d) = job_dependencies d"
  by (simp_all add: finish_create_def Let_def)

lemma db_inv_finish_create: "db_inv cfg d \<Longrightarrow> db_inv cfg (finish_create cfg ctx req j st d)"
  by (simp add: finish_create_def Let_def create_audit_def db_inv_audit_log_write db_inv_submit)

lemma create_row_simps [simp]:
  "j_status (create_row cfg ctx req st) = st"
  "j_tenant_id (create_row cfg ctx req st) = r_tenant_id req"
  "j_user_id (create_row cfg ctx req st) = r_user_id req"
  "j_idempotency_key (create_row cfg ctx req st) = r_idempotency_key req"
  "j_saga_id (create_row cfg ctx req st) = r_saga_id req"
  by (simp_all add: create_row_def new_job_def)

lemma dep_add_simps:
  "dep_add i ps d = Inr d' \<Longrightarrow> jobs d' = jobs d \<and> outbox_events d' = outbox_events d
     \<and> job_dependencies d' = job_dependencies d @ map (\<lambda>p. \<lparr>d_job_id = i, d_depends_on_job_id = p\<rparr>) ps"
  by (auto simp: dep_add_def Let_def split: if_splits)

lemma insert_job_jobs:
  assumes "insert_job cfg ctx req st d = Inr (j, d')"
  shows "(jobs d' = jobs d \<and> j \<in> set (jobs d)) \<or> (jobs d' = jobs d @ [j] \<and> j_id j = next_uuid d
     \<and> j_status j = st \<and> j_tenant_id j = r_tenant_id req \<and> j_idempotency_key j = r_idempotency_key req
     \<and> (\<forall>k. r_idempotency_key req = Some k \<longrightarrow> get_by_idempotency_key k (r_tenant_id req) d = None))"
  using assms
proof (cases rule: insert_job_cases)
  case (winner k)
  then show ?thesis by (auto simp: get_by_idempotency_key_def find_Some_iff)
next
  case (fresh d2)
  then have "jobs d2 = jobs d @ [j]" by (auto split: if_splits dest: dep_add_simps)
  with fresh show ?thesis by (simp add: create_row_def new_job_def)
qed

lemma db_inv_insert_job:
  assumes inv: "db_inv cfg d" and st: "st = WAITING \<or> st = PENDING"
    and deps: "set (r_dependencies req) \<subseteq> j_id ` set (jobs d)"
    and ins: "insert_job cfg ctx req st d = Inr (j, d')"
  shows "db_inv cfg d'"
  using ins
proof (cases rule: insert_job_cases)
  case winner
  then show ?thesis using inv by simp
next
  case (fresh d2)
  let ?d1 = "snd (job_create (c_now ctx) (create_row cfg ctx req st) d)"
  have inv1: "db_inv cfg ?d1" using inv st by (intro db_inv_job_create) auto
  have "db_inv cfg d2"
  proof (cases "r_dependencies req = []")
    case True
    then show ?thesis using fresh(3) inv1 by simp
  next
    case False
    then have add: "dep_add (j_id j) (r_dependencies req) ?d1 = Inr d2" using fresh(3) by simp
    have "\<forall>p \<in> set (r_dependencies req). p \<in> j_id ` set (jobs ?d1) \<and> p < j_id j"
      using deps inv fresh(1) by (auto simp: db_inv_def wf_db_def)
    then show ?thesis using fresh(1) by (intro db_inv_dep_add [OF inv1 add]) auto
  qed
  then show ?thesis using fresh(4) by (simp add: db_inv_finish_create)
qed

lemma initial_status_range: "initial_status ctx deps ps d = WAITING \<or> initial_status ctx deps ps d = PENDING"
  by (simp add: initial_status_def)

lemma create_job_cases:
  assumes "create_job cfg ctx req seen d = Inr (j, d')"
  obtains (existing) "d' = d" "j \<in> set (jobs seen)" "j_tenant_id j = r_tenant_id req"
  | (insert) parents where "load_parents (r_dependencies req) seen = Inr parents"
      "insert_job cfg ctx req (initial_status ctx (r_dependencies req) parents seen) d = Inr (j, d')"
  using assms
  by (auto simp: create_job_def get_by_idempotency_key_def find_Some_iff
      split: option.splits sum.splits if_splits intro: that)

lemma db_inv_create_job [platform_intros]:
  assumes "db_inv cfg d" "j_id ` set (jobs seen) \<subseteq> j_id ` set (jobs d)"
    and "create_job cfg ctx req seen d = Inr (j, d')"
  shows "db_inv cfg d'"
  using assms(3)
proof (cases rule: create_job_cases)
  case existing
  then show ?thesis using assms(1) by simp
next
  case (insert parents)
  have "set (r_dependencies req) = j_id ` set parents" "set parents \<subseteq> set (jobs seen)"
    using load_parents_ids [OF insert(1)] by (metis list.set_map, blast)
  then have "set (r_dependencies req) \<subseteq> j_id ` set (jobs d)" using assms(2) by blast
  with assms(1) insert(2) initial_status_range show ?thesis by (blast intro: db_inv_insert_job)
qed

lemma idem_unique_create_job:
  assumes "idem_unique d" "create_job cfg ctx req seen d = Inr (j, d')"
  shows "idem_unique d'"
  using assms(2)
proof (cases rule: create_job_cases)
  case existing
  then show ?thesis using assms(1) by simp
next
  case (insert parents)
  from insert_job_jobs [OF insert(2)] show ?thesis
  proof
    assume "jobs d' = jobs d \<and> j \<in> set (jobs d)"
    then show ?thesis using assms(1) by (simp add: idem_unique_def)
  next
    assume new: "jobs d' = jobs d @ [j] \<and> j_id j = next_uuid d
       \<and> j_status j = initial_status ctx (r_dependencies req) parents seen
       \<and> j_tenant_id j = r_tenant_id req \<and> j_idempotency_key j = r_idempotency_key req
       \<and> (\<forall>k. r_idempotency_key req = Some k \<longrightarrow> get_by_idempotency_key k (r_tenant_id req) d = None)"
    have clash: "j_idempotency_key j = None \<or> j_idempotency_key x \<noteq> j_idempotency_key j
        \<or> j_tenant_id x \<noteq> j_tenant_id j" if "x \<in> set (jobs d)" for x
      using new that by (cases "j_idempotency_key j") (auto simp: get_by_idempotency_key_def find_None_iff)
    have rows: "set (jobs d') = insert j (set (jobs d))" using new by simp
    show ?thesis
      unfolding idem_unique_def rows
      using assms(1) [unfolded idem_unique_def] clash by (metis insert_iff)
  qed
qed

lemma replay_extra_plain [simp]: "\<not> names_started_at replay_extra" "\<not> names_completed_at replay_extra"
  by (simp_all add: replay_extra_def names_started_at_def names_completed_at_def)

lemma no_extra_plain [simp]: "\<not> names_started_at []" "\<not> names_completed_at []"
  by (simp_all add: names_started_at_def names_completed_at_def)

lemma replay_audit_simps [simp]:
  "jobs (replay_audit ctx j r pt pid d) = jobs d"
  "outbox_events (replay_audit ctx j r pt pid d) = outbox_events d"
  by (simp_all add: replay_audit_def)

lemma db_inv_replay_job [platform_intros]:
  assumes "db_inv cfg d" "replay_job cfg ctx i tenant r pt pid d = Inr (j, fx, d')"
  shows "db_inv cfg d'"
  using assms db_inv_update_status [OF assms(1) replay_extra_plain, of "c_now ctx" i PENDING None None]
  by (auto simp: replay_job_def Let_def case_prod_beta replay_audit_def
      split: option.splits if_splits intro!: db_inv_submit db_inv_audit_log_write)

lemma db_inv_resolve_incident [platform_intros]:
  assumes "db_inv cfg d" "resolve_incident cfg ctx i r tenant d = Inr (j, fx, d')"
  shows "db_inv cfg d'"
  using assms db_inv_update_status [OF assms(1) no_extra_plain, of "c_now ctx" i COMPLETED None None]
  by (auto simp: resolve_incident_def Let_def case_prod_beta
      split: option.splits intro!: db_inv_audit_log_write)

section \<open>Creating jobs\<close>

lemma find_by_key:
  assumes "idem_unique d" "wf_db d" "j \<in> set (jobs d)" "j_idempotency_key j = Some k" "j_tenant_id j = t"
  shows "get_by_idempotency_key k t d = Some j"
proof -
  let ?P = "\<lambda>j. j_idempotency_key j = Some k \<and> j_tenant_id j = t"
  obtain x where x: "find ?P (jobs d) = Some x" using assms(3-5) by (cases "find ?P (jobs d)") (auto simp: find_None_iff)
  then have "x \<in> set (jobs d)" "?P x" by (auto simp: find_Some_iff)
  then have "j_id x = j_id j" using assms(1,3-5) unfolding idem_unique_def by (metis option.distinct(1))
  then have "x = j" using \<open>x \<in> set (jobs d)\<close> assms(2,3) by (metis wf_job_by_id option.inject)
  then show ?thesis using x by (simp add: get_by_idempotency_key_def)
qed

lemma create_job_key:
  assumes "create_job cfg ctx req d d = Inr (j, d1)" "r_idempotency_key req = Some k" "k \<noteq> []"
  shows "j \<in> set (jobs d1) \<and> j_idempotency_key j = Some k \<and> j_tenant_id j = r_tenant_id req"
proof (cases "get_by_idempotency_key k (r_tenant_id req) d")
  case (Some x)
  then have "j = x" "d1 = d" using assms by (simp_all add: create_job_def)
  moreover have "x \<in> set (jobs d) \<and> j_idempotency_key x = Some k \<and> j_tenant_id x = r_tenant_id req"
    using Some by (auto simp: get_by_idempotency_key_def find_Some_iff)
  ultimately show ?thesis by simp
next
  case None
  then obtain st where ins: "insert_job cfg ctx req st d = Inr (j, d1)"
    using assms by (auto simp: create_job_def split: sum.splits)
  then show ?thesis
  proof (cases rule: insert_job_cases)
    case (winner k')
    then show ?thesis using None assms(2) by simp
  next
    case (fresh d2)
    then show ?thesis using insert_job_jobs [OF ins] assms(2) by (auto split: if_splits dest: dep_add_simps)
  qed
qed

text \<open>
  Property C11. An idempotency key names one job per tenant: a second call with the key of an
  earlier one, whether it sees the first job or raced past the check before it was inserted,
  hands back that job and changes nothing.
\<close>

theorem create_job_idempotent:
  assumes "db_inv cfg d" "idem_unique d" "create_job cfg ctx req d d = Inr (j, d1)"
    and "r_idempotency_key req = Some k" "k \<noteq> []"
    and "r_idempotency_key req2 = Some k" "r_tenant_id req2 = r_tenant_id req"
    and "seen = d1 \<or> get_by_idempotency_key k (r_tenant_id req) seen = None"
    and "create_job cfg ctx2 req2 seen d1 = Inr (j2, d2)"
  shows "j2 = j \<and> d2 = d1"
proof -
  have j: "j \<in> set (jobs d1)" "j_idempotency_key j = Some k" "j_tenant_id j = r_tenant_id req"
    using create_job_key [OF assms(3-5)] by auto
  have "db_inv cfg d1" using db_inv_create_job [OF assms(1) _ assms(3)] by simp
  then have "wf_db d1" by (simp add: db_inv_def)
  then have key: "get_by_idempotency_key k (r_tenant_id req) d1 = Some j"
    using find_by_key [OF idem_unique_create_job [OF assms(2,3)]] j by blast
  then have "insert_job cfg ctx2 req2 st d1 = Inr (j, d1)" for st
    using assms(6,7) by (simp add: insert_job_def)
  then show ?thesis
    using assms(5-9) key by (auto simp: create_job_def split: option.splits sum.splits)
qed

definition sample_req :: "string option \<Rightarrow> uuid list \<Rightarrow> create_req" where
  "sample_req key deps = \<lparr>r_user_id = 8, r_tenant_id = 7, r_job_type = ''csv_upload'', r_payload = None,
     r_idempotency_key = key, r_priority = 0, r_max_attempts = None, r_dependencies = deps,
     r_saga_id = None, r_saga_step_index = None\<rparr>"

definition sample_ctx :: call_ctx where
  "sample_ctx = \<lparr>c_now = 5, c_flags = PauseFlags [], c_trace_id = [], c_request_id = [], c_otel = [],
     c_has_dep_repo = True\<rparr>"

theorem create_job_idempotent_witness:
  "\<exists>j d1. create_job default_settings sample_ctx (sample_req (Some ''k'') []) (sample_db [] []) (sample_db [] []) = Inr (j, d1)
     \<and> create_job default_settings sample_ctx (sample_req (Some ''k'') []) (sample_db [] []) d1 = Inr (j, d1)"
proof -
  let ?c = "create_job default_settings sample_ctx (sample_req (Some ''k'') [])" and ?d = "sample_db [] []"
  have ex: "\<exists>j d2. ?c ?d d = Inr (j, d2)" for d
    by (auto simp: create_job_def sample_req_def get_by_idempotency_key_def insert_job_def Let_def
        case_prod_beta split: option.split)
  obtain j d1 where 1: "?c ?d ?d = Inr (j, d1)" using ex by blast
  obtain j2 d2 where 2: "?c ?d d1 = Inr (j2, d2)" using ex by blast
  have "j2 = j \<and> d2 = d1"
    by (rule create_job_idempotent [OF _ _ 1 _ _ _ _ _ 2, where k = "''k''"])
      (auto simp: sample_req_def idem_unique_def get_by_idempotency_key_def intro: db_inv_sample)
  then show ?thesis using 1 2 by blast
qed

lemma create_job_fresh:
  assumes "create_job cfg ctx req d d = Inr (j, d')" "r_idempotency_key req = None"
  shows "\<exists>parents. load_parents (r_dependencies req) d = Inr parents
    \<and> j = (create_row cfg ctx req (initial_status ctx (r_dependencies req) parents d))\<lparr>j_id := next_uuid d,
        j_created_at := c_now ctx, j_updated_at := c_now ctx\<rparr>
    \<and> jobs d' = jobs d @ [j]
    \<and> j_status j = (if (\<exists>p \<in> set parents. j_status p \<noteq> COMPLETED)
          \<or> c_has_dep_repo ctx \<and> (\<exists>p \<in> set parents. find_blocking_pause (c_flags ctx) (j_id p) d \<noteq> None)
        then WAITING else PENDING)
    \<and> map o_payload (outbox_events d') = map o_payload (outbox_events d)
        @ (if j_status j = PENDING then [job_submitted_payload j] else [])
    \<and> job_dependencies d' = job_dependencies d
        @ map (\<lambda>p. \<lparr>d_job_id = j_id j, d_depends_on_job_id = p\<rparr>) (r_dependencies req)"
proof -
  obtain parents where p: "load_parents (r_dependencies req) d = Inr parents"
      "insert_job cfg ctx req (initial_status ctx (r_dependencies req) parents d) d = Inr (j, d')"
    using assms by (auto simp: create_job_def split: sum.splits)
  have none: "r_dependencies req = [] \<longleftrightarrow> parents = []" using load_parents_ids [OF p(1)] by auto
  let ?st = "initial_status ctx (r_dependencies req) parents d"
  from p(2) show ?thesis
  proof (cases rule: insert_job_cases)
    case (winner k)
    then show ?thesis using assms(2) by simp
  next
    case (fresh d2)
    have "jobs d2 = jobs d @ [j] \<and> outbox_events d2 = outbox_events d
        \<and> job_dependencies d2 = job_dependencies d @ map (\<lambda>p. \<lparr>d_job_id = j_id j, d_depends_on_job_id = p\<rparr>) (r_dependencies req)"
      using fresh(1,3) by (auto split: if_splits dest: dep_add_simps)
    moreover have "j_status j = ?st" using fresh(1) by simp
    ultimately show ?thesis
      using p(1) fresh(4) none
      by - (intro exI [of _ parents] conjI, simp, rule fresh(1),
          auto simp: initial_status_def finish_create_def Let_def submit_def outbox_add_rows)
  qed
qed

text \<open>
  A new job starts waiting exactly when a parent is not completed or a parent's chain
  is paused, else pending; it is announced with one submission event exactly when it starts
  pending, and its dependency rows are those asked for.
\<close>

theorem create_job_starts:
  assumes "create_job cfg ctx req d d = Inr (j, d')" "r_idempotency_key req = None"
  shows "\<exists>parents. load_parents (r_dependencies req) d = Inr parents
    \<and> jobs d' = jobs d @ [j]
    \<and> j_status j = (if (\<exists>p \<in> set parents. j_status p \<noteq> COMPLETED)
          \<or> c_has_dep_repo ctx \<and> (\<exists>p \<in> set parents. find_blocking_pause (c_flags ctx) (j_id p) d \<noteq> None)
        then WAITING else PENDING)
    \<and> map o_payload (outbox_events d') = map o_payload (outbox_events d)
        @ (if j_status j = PENDING then [job_submitted_payload j] else [])
    \<and> job_dependencies d' = job_dependencies d
        @ map (\<lambda>p. \<lparr>d_job_id = j_id j, d_depends_on_job_id = p\<rparr>) (r_dependencies req)"
  using create_job_fresh [OF assms] by blast

theorem create_job_starts_witness:
  "\<exists>j d'. create_job default_settings sample_ctx (sample_req None [2])
       (sample_db [sample_job 2 RUNNING] []) (sample_db [sample_job 2 RUNNING] []) = Inr (j, d')
     \<and> j_status j = WAITING \<and> outbox_events d' = []"
proof -
  let ?d = "sample_db [sample_job 2 RUNNING] []"
  obtain j d' where 1: "create_job default_settings sample_ctx (sample_req None [2]) ?d ?d = Inr (j, d')"
    by (simp add: create_job_def sample_req_def insert_job_def Let_def case_prod_beta dep_add_def sample_ctx_def)
  from create_job_starts [OF this] 1 show ?thesis by (auto simp: sample_req_def)
qed

section \<open>Tenants and users\<close>

lemma get_for_tenant_iff:
  assumes "wf_db d"
  shows "get_for_tenant i tenant d = Some j \<longleftrightarrow> job_by_id d i = Some j \<and> j_tenant_id j = tenant"
proof
  assume "get_for_tenant i tenant d = Some j"
  then have "j \<in> set (jobs d)" "j_id j = i" "j_tenant_id j = tenant"
    by (auto simp: get_for_tenant_def find_Some_iff)
  then show "job_by_id d i = Some j \<and> j_tenant_id j = tenant" using wf_job_by_id [OF assms] by blast
next
  assume j: "job_by_id d i = Some j \<and> j_tenant_id j = tenant"
  then have mem: "j \<in> set (jobs d)" "j_id j = i" by (auto dest: get_by_SomeD)
  then obtain x where x: "get_for_tenant i tenant d = Some x"
    using j by (cases "get_for_tenant i tenant d") (auto simp: get_for_tenant_def find_None_iff)
  then have "x \<in> set (jobs d)" "j_id x = i" by (auto simp: get_for_tenant_def find_Some_iff)
  then show "get_for_tenant i tenant d = Some j" using x j wf_job_by_id [OF assms] by fastforce
qed

text \<open>
  A job is returned only inside its own tenant, and to a plain user only if it is
  theirs; whoever may see it gets it. The listing obeys the same rule.
\<close>

theorem tenant_isolation:
  assumes "wf_db d"
  shows "(get_job i requester role tenant d = Inr j \<longleftrightarrow>
      job_by_id d i = Some j \<and> j_tenant_id j = tenant \<and> (role = USER \<longrightarrow> j_user_id j = requester))
    \<and> (\<forall>x \<in> set (fst (service_list_jobs requester role tenant page page_size f d)).
      x \<in> set (jobs d) \<and> j_tenant_id x = tenant \<and> (role = USER \<longrightarrow> j_user_id x = requester))"
proof
  show "get_job i requester role tenant d = Inr j \<longleftrightarrow>
      job_by_id d i = Some j \<and> j_tenant_id j = tenant \<and> (role = USER \<longrightarrow> j_user_id j = requester)"
  proof (cases "get_for_tenant i tenant d")
    case None
    then show ?thesis using get_for_tenant_iff [OF assms, of i tenant j] by (auto simp: get_job_def)
  next
    case (Some a)
    then have "job_by_id d i = Some a" "j_tenant_id a = tenant" using get_for_tenant_iff [OF assms] by auto
    then show ?thesis using Some by (cases role) (auto simp: get_job_def)
  qed
  show "\<forall>x \<in> set (fst (service_list_jobs requester role tenant page page_size f d)).
      x \<in> set (jobs d) \<and> j_tenant_id x = tenant \<and> (role = USER \<longrightarrow> j_user_id x = requester)"
    by (cases role) (auto simp: service_list_jobs_def list_jobs_def Let_def job_matches_def if_given_def
        dest!: in_set_takeD in_set_dropD)
qed

theorem tenant_isolation_witness:
  "get_job 2 8 USER 7 (sample_db [sample_job 2 PENDING] []) = Inr (sample_job 2 PENDING)"
proof -
  have "wf_db (sample_db [sample_job 2 PENDING] [])" by (rule wf_sample) auto
  from tenant_isolation [OF this, of 2 8 USER 7 "sample_job 2 PENDING"] show ?thesis by auto
qed

section \<open>Replay\<close>

lemma replay_job_effect:
  assumes wf: "wf_db d" and dep: "c_has_dep_repo ctx"
  shows "case replay_job cfg ctx i tenant requester ptype pid d of
      Inl _ \<Rightarrow> \<forall>j. job_by_id d i = Some j \<longrightarrow> j_tenant_id j = tenant \<longrightarrow>
        find_blocking_pause (c_flags ctx) i d = None \<longrightarrow> j_status j \<notin> {FAILED, DEAD_LETTER}
    | Inr (u, fx, d') \<Rightarrow>
        (\<exists>j. job_by_id d i = Some j \<and> j_tenant_id j = tenant \<and> j_status j \<in> {FAILED, DEAD_LETTER}
           \<and> find_blocking_pause (c_flags ctx) i d = None \<and> same_identity j u
           \<and> map o_payload (outbox_events d') = map o_payload (outbox_events d) @ [job_submitted_payload j])
        \<and> job_by_id d' i = Some u \<and> j_status u = PENDING \<and> j_retry_count u = 0 \<and> j_error_message u = None
        \<and> j_result u = None \<and> j_dead_lettered_by u = None \<and> j_remediation_hint u = None
        \<and> (\<forall>k. k \<noteq> i \<longrightarrow> job_by_id d' k = job_by_id d k)"
proof (cases "get_for_tenant i tenant d")
  case None
  then show ?thesis
    using get_for_tenant_iff [OF wf, of i tenant] by (auto simp: replay_job_def)
next
  case (Some j)
  have j: "job_by_id d i = Some j" "j_tenant_id j = tenant" using Some get_for_tenant_iff [OF wf] by auto
  let ?u = "status_values (c_now ctx) PENDING replay_extra j"
  define d1 where "d1 = written (c_now ctx) i PENDING replay_extra d"
  have upd: "update_status cfg (c_now ctx) i PENDING replay_extra None None d = (Some ?u, d1)"
    using j(1) by (simp add: update_status_unguarded job_by_id_written d1_def)
  have d1: "outbox_events d1 = outbox_events d" "\<And>k. job_by_id d1 k =
      (if k = i then map_option (status_values (c_now ctx) PENDING replay_extra) (job_by_id d k) else job_by_id d k)"
    by (simp_all add: d1_def job_by_id_written)
  have u: "j_retry_count ?u = 0" "j_error_message ?u = None" "j_result ?u = None" "j_dead_lettered_by ?u = None"
    "j_remediation_hint ?u = None"
    by (simp_all add: status_values_def Let_def replay_extra_def completed_at_statuses_def)
  show ?thesis
  proof (cases "j_status j \<in> {FAILED, DEAD_LETTER} \<and> find_blocking_pause (c_flags ctx) i d = None")
    case True
    then have ok: "j_status j = FAILED \<or> j_status j = DEAD_LETTER" "find_blocking_pause (c_flags ctx) i d = None"
      by auto
    have "replay_job cfg ctx i tenant requester ptype pid d = Inr (?u, [CacheInvalidatePostCommit i tenant],
        submit cfg (c_now ctx) j (replay_audit ctx j requester ptype pid d1))"
      unfolding replay_job_def Some option.case Let_def upd prod.case using ok dep by simp
    moreover have "map o_payload (outbox_events (submit cfg (c_now ctx) j (replay_audit ctx j requester ptype pid d1))) =
        map o_payload (outbox_events d) @ [job_submitted_payload j]"
      by (simp add: submit_def outbox_add_rows d1(1))
    ultimately show ?thesis using True j u d1(2) by simp
  next
    case False
    then have "\<exists>e. replay_job cfg ctx i tenant requester ptype pid d = Inl e"
      unfolding replay_job_def Some option.case using dep by (auto split: option.split)
    then show ?thesis using False j by auto
  qed
qed

text \<open>
  A replay goes through exactly for a failed or dead-lettered job of the tenant that
  no pause holds. It starts a fresh lifecycle: pending, no attempts used, no error, result or
  dead-letter attribution, and one submission event; no other job changes.
\<close>

theorem replay_starts_afresh:
  assumes wf: "wf_db d" and dep: "c_has_dep_repo ctx"
  shows "case replay_job cfg ctx i tenant requester ptype pid d of
      Inl _ \<Rightarrow> \<forall>j. job_by_id d i = Some j \<longrightarrow> j_tenant_id j = tenant \<longrightarrow>
        find_blocking_pause (c_flags ctx) i d = None \<longrightarrow> j_status j \<notin> {FAILED, DEAD_LETTER}
    | Inr (u, fx, d') \<Rightarrow>
        (\<exists>j. job_by_id d i = Some j \<and> j_tenant_id j = tenant \<and> j_status j \<in> {FAILED, DEAD_LETTER}
           \<and> find_blocking_pause (c_flags ctx) i d = None \<and> same_identity j u
           \<and> map o_payload (outbox_events d') = map o_payload (outbox_events d) @ [job_submitted_payload j])
        \<and> job_by_id d' i = Some u \<and> j_status u = PENDING \<and> j_retry_count u = 0 \<and> j_error_message u = None
        \<and> j_result u = None \<and> j_dead_lettered_by u = None \<and> j_remediation_hint u = None
        \<and> (\<forall>k. k \<noteq> i \<longrightarrow> job_by_id d' k = job_by_id d k)"
  by (rule replay_job_effect [OF assms])

theorem replay_starts_afresh_witness:
  "\<exists>u fx d'. replay_job default_settings sample_ctx 2 7 None ''service_account'' (Some 9)
       (sample_db [sample_job 2 DEAD_LETTER] []) = Inr (u, fx, d') \<and> j_status u = PENDING"
proof -
  have "wf_db (sample_db [sample_job 2 DEAD_LETTER] [])" by (rule wf_sample) auto
  from replay_starts_afresh [OF this, where ctx = sample_ctx and cfg = default_settings and i = 2 and tenant = 7
      and requester = None and ptype = "''service_account''" and pid = "Some 9"]
  show ?thesis
    by (auto simp: sample_ctx_def find_blocking_pause_def find_None_iff split: sum.splits)
qed

end
