(* ===== verification/Dependency_Resolver.thy ===== *)
theory Dependency_Resolver
  imports Job_Service
begin

text \<open>
  \<open>workers/dependency_resolver.py\<close>: on \<open>job.completed\<close>, every waiting child whose
  dependencies are all met becomes pending and is announced, unless a pause holds the chain.
  The resume sweep of \<open>workers/dispatcher.py\<close> reuses the promotion.
\<close>

text \<open>
  Reading the job id off a message: a value that is not a dictionary, a missing id and an
  unparsable id are ignored (\<open>Inr None\<close>); a truthy id that is not a string makes
  \<open>uuid.UUID\<close> raise \<open>AttributeError\<close>, which the handler does not catch.
\<close>

definition message_job_id :: "json \<Rightarrow> app_error + uuid option" where
  "message_job_id value =
     (case value of
        JObj m \<Rightarrow>
          (let v = jget m ''job_id''
           in if \<not> truthy v then Inr None
              else (case v of JStr s \<Rightarrow> Inr (uuid_parse s) | _ \<Rightarrow> Inl AttributeError))
      | _ \<Rightarrow> Inr None)"

text \<open>The compare-and-set promotion with its announcement; the loser adds no event.\<close>

definition promote_child :: "settings \<Rightarrow> time \<Rightarrow> job \<Rightarrow> db \<Rightarrow> db" where
  "promote_child cfg now child d =
     (let (won, d1) = promote_waiting_to_pending now (j_id child) d
      in if won then submit cfg now child d1 else d1)"

definition resolve_child :: "settings \<Rightarrow> time \<Rightarrow> pause_flags option \<Rightarrow> uuid \<Rightarrow> db \<Rightarrow> db" where
  "resolve_child cfg now redis c d =
     (case job_by_id d c of
        None \<Rightarrow> d
      | Some child \<Rightarrow>
          if j_status child \<noteq> WAITING then d
          else if 0 < unmet_count c d then d
          else if (case redis of None \<Rightarrow> None | Some flags \<Rightarrow> find_blocking_pause flags c d) \<noteq> None
          then d
          else promote_child cfg now child d)"

definition resolver_handle_message ::
    "settings \<Rightarrow> time \<Rightarrow> pause_flags option \<Rightarrow> json \<Rightarrow> db \<Rightarrow> app_error + db" where
  "resolver_handle_message cfg now redis value d =
     (case message_job_id value of
        Inl e \<Rightarrow> Inl e
      | Inr None \<Rightarrow> Inr d
      | Inr (Some parent) \<Rightarrow> Inr (fold (resolve_child cfg now redis) (children_of parent d) d))"

section \<open>Effect of a promotion\<close>

lemma db_inv_promote_child [platform_intros]:
  "db_inv cfg d \<Longrightarrow> db_inv cfg (promote_child cfg now child d)"
  using db_inv_promote [of cfg d now "j_id child"]
  by (simp add: promote_child_def Let_def case_prod_beta db_inv_submit)

lemma db_inv_resolve_child [platform_intros]:
  "db_inv cfg d \<Longrightarrow> db_inv cfg (resolve_child cfg now redis c d)"
  by (auto simp: resolve_child_def db_inv_promote_child split: option.split)

interpretation resolver: inv_step "resolve_child cfg now redis" "db_inv cfg" for cfg now redis
  by unfold_locales (rule db_inv_resolve_child)

lemma db_inv_resolver [platform_intros]:
  "db_inv cfg d \<Longrightarrow> resolver_handle_message cfg now redis v d = Inr d' \<Longrightarrow> db_inv cfg d'"
  by (auto simp: resolver_handle_message_def resolver.fold_inv split: sum.splits option.splits)

lemma promote_simps [simp]:
  "job_dependencies (snd (promote_waiting_to_pending now i d)) = job_dependencies d"
  "outbox_events (snd (promote_waiting_to_pending now i d)) = outbox_events d"
  "next_uuid (snd (promote_waiting_to_pending now i d)) = next_uuid d"
  by (simp_all add: promote_waiting_to_pending_def Let_def)

lemma job_by_id_promote:
  "job_by_id (snd (promote_waiting_to_pending now i d)) k =
     map_option (\<lambda>j. if j_id j = i \<and> j_status j = WAITING
        then j\<lparr>j_status := PENDING, j_error_message := None, j_updated_at := now\<rparr> else j) (job_by_id d k)"
  unfolding promote_is_cas by (rule job_by_id_cas_write) simp

text \<open>All dependencies met: every parent of the child exists and is completed.\<close>

lemma unmet_count_zero_iff:
  "wf_db d \<Longrightarrow> unmet_count c d = 0 \<longleftrightarrow>
   (\<forall>p. dep_edge d c p \<longrightarrow> (\<exists>j. job_by_id d p = Some j \<and> j_status j = COMPLETED))"
proof -
  assume wf: "wf_db d"
  have "\<exists>j. job_by_id d p = Some j" if "dep_edge d c p" for p
  proof -
    from that wf have "p \<in> j_id ` set (jobs d)" by (auto simp: dep_edge_def wf_db_def)
    then show ?thesis by (cases "job_by_id d p") (simp_all add: get_by_None_iff)
  qed
  then show ?thesis
    by (fastforce simp: unmet_count_def filter_empty_conv dep_edge_def split: option.splits)
qed

text \<open>
  \<open>ready d redis c\<close>: the child waits, every parent is completed, and no pause is seen.
\<close>

definition ready :: "pause_flags option \<Rightarrow> db \<Rightarrow> uuid \<Rightarrow> bool" where
  "ready redis d c \<longleftrightarrow>
     waiting d c \<and> unmet_count c d = 0
     \<and> (case redis of None \<Rightarrow> None | Some flags \<Rightarrow> find_blocking_pause flags c d) = None"

lemma resolve_child_ready:
  assumes "wf_db d" "ready redis d c"
  shows "\<exists>child. job_by_id d c = Some child
    \<and> resolve_child cfg now redis c d = submit cfg now child (snd (promote_waiting_to_pending now c d))"
proof -
  from assms(2) obtain child where c: "job_by_id d c = Some child" "j_status child = WAITING"
    by (auto simp: ready_def job_is_def split: option.splits)
  have "j_id child = c" using get_by_SomeD [OF c(1)] by simp
  moreover have "fst (promote_waiting_to_pending now c d)"
    using assms promote.cas_wins [OF assms(1)] by (simp add: ready_def)
  ultimately show ?thesis
    using c assms(2) by (simp add: resolve_child_def ready_def promote_child_def Let_def case_prod_beta)
qed

lemma resolve_child_not_ready:
  "\<not> ready redis d c \<Longrightarrow> resolve_child cfg now redis c d = d"
  by (auto simp: resolve_child_def ready_def job_is_def split: option.splits)

lemma resolve_child_effect:
  assumes wf: "wf_db d"
  shows "wf_db (resolve_child cfg now redis c d)"
    and "job_dependencies (resolve_child cfg now redis c d) = job_dependencies d"
    and "ready redis d c \<Longrightarrow> pending (resolve_child cfg now redis c d) c"
    and "k \<noteq> c \<or> \<not> ready redis d c \<Longrightarrow> job_by_id (resolve_child cfg now redis c d) k = job_by_id d k"
    and "map o_payload (outbox_events (resolve_child cfg now redis c d)) = map o_payload (outbox_events d)
      @ (if ready redis d c then [job_submitted_payload (the (job_by_id d c))] else [])"
proof -
  have eff: "resolve_child cfg now redis c d =
      (if ready redis d c then submit cfg now (the (job_by_id d c)) (snd (promote_waiting_to_pending now c d)) else d)"
    using resolve_child_ready [OF wf, of redis c cfg now] resolve_child_not_ready [of redis d c cfg now] by auto
  show "wf_db (resolve_child cfg now redis c d)"
    using wf promote.cas_inv [OF wf] by (simp add: eff submit_def wf_outbox_add)
  show "job_dependencies (resolve_child cfg now redis c d) = job_dependencies d" by (simp add: eff)
  show "map o_payload (outbox_events (resolve_child cfg now redis c d)) = map o_payload (outbox_events d)
      @ (if ready redis d c then [job_submitted_payload (the (job_by_id d c))] else [])"
    by (simp add: eff submit_def outbox_add_rows)
  show "pending (resolve_child cfg now redis c d) c" if "ready redis d c"
    using that by (auto simp: eff ready_def job_is_def job_by_id_promote split: option.splits dest: get_by_SomeD)
  show "job_by_id (resolve_child cfg now redis c d) k = job_by_id d k" if "k \<noteq> c \<or> \<not> ready redis d c"
    using that by (cases "job_by_id d k") (auto simp: eff job_by_id_promote dest: get_by_SomeD)
qed

text \<open>Promoting one child changes no completed row, so the readiness of the others stands.\<close>

lemma ready_other:
  assumes wf: "wf_db d" and "k \<noteq> c"
  shows "ready redis (resolve_child cfg now redis c d) k \<longleftrightarrow> ready redis d k"
proof -
  let ?d = "resolve_child cfg now redis c d"
  note eff = resolve_child_effect [OF wf, where cfg = cfg and now = now and redis = redis and c = c]
  have "(case job_by_id ?d p of None \<Rightarrow> False | Some x \<Rightarrow> j_status x \<noteq> COMPLETED) \<longleftrightarrow>
      (case job_by_id d p of None \<Rightarrow> False | Some x \<Rightarrow> j_status x \<noteq> COMPLETED)" for p
  proof (cases "p = c \<and> ready redis d c")
    case True
    then have "pending ?d p" "waiting d p" using eff(3) by (auto simp: ready_def)
    then show ?thesis by (auto simp: job_is_def split: option.splits)
  next
    case False
    then show ?thesis using eff(4) [of p] by auto
  qed
  then have "unmet_count k ?d = unmet_count k d" by (simp add: unmet_count_def eff(2))
  moreover have "find_blocking_pause flags k ?d = find_blocking_pause flags k d" for flags
    using eff(2) by (rule find_blocking_pause_deps_only)
  ultimately show ?thesis
    using eff(4) [of k] assms(2) by (auto simp: ready_def job_is_def split: option.split)
qed

lemma resolve_fold:
  assumes "wf_db d" "distinct cs" "d' = fold (resolve_child cfg now redis) cs d"
  shows "map o_payload (outbox_events d') = map o_payload (outbox_events d)
      @ map (\<lambda>c. job_submitted_payload (the (job_by_id d c))) (filter (ready redis d) cs)
    \<and> (\<forall>c \<in> set cs. ready redis d c \<longrightarrow> pending d' c)
    \<and> (\<forall>k. k \<notin> set cs \<or> \<not> ready redis d k \<longrightarrow> job_by_id d' k = job_by_id d k)"
  using assms
proof (induction cs arbitrary: d)
  case (Cons c cs)
  let ?d = "resolve_child cfg now redis c d"
  note eff = resolve_child_effect [OF Cons.prems(1), where cfg = cfg and now = now and redis = redis and c = c]
  have out: "c \<notin> set cs" using Cons.prems(2) by simp
  have rd: "k \<in> set cs \<Longrightarrow> ready redis ?d k = ready redis d k" for k
    using ready_other [OF Cons.prems(1), of k c redis cfg now] out by auto
  have jd: "k \<in> set cs \<Longrightarrow> job_by_id ?d k = job_by_id d k" for k using eff(4) [of k] out by auto
  have IH: "map o_payload (outbox_events d') = map o_payload (outbox_events ?d)
      @ map (\<lambda>c. job_submitted_payload (the (job_by_id ?d c))) (filter (ready redis ?d) cs)"
    "\<forall>c \<in> set cs. ready redis ?d c \<longrightarrow> pending d' c"
    "\<And>k. k \<notin> set cs \<or> \<not> ready redis ?d k \<Longrightarrow> job_by_id d' k = job_by_id ?d k"
    using Cons.IH [of ?d] eff(1) Cons.prems(2,3) by auto
  have "filter (ready redis ?d) cs = filter (ready redis d) cs" by (rule filter_cong) (simp_all add: rd)
  then have pay: "map (\<lambda>c. job_submitted_payload (the (job_by_id ?d c))) (filter (ready redis ?d) cs) =
      map (\<lambda>c. job_submitted_payload (the (job_by_id d c))) (filter (ready redis d) cs)"
    using jd by simp
  have "job_by_id d' c = job_by_id ?d c" using IH(3) out by blast
  then have "ready redis d c \<longrightarrow> pending d' c" using eff(3) by (simp add: job_is_def)
  moreover have "job_by_id d' k = job_by_id d k" if "k \<notin> set (c # cs) \<or> \<not> ready redis d k" for k
    using that IH(3) [of k] eff(4) [of k] rd [of k] by (cases "k = c") (auto simp: out)
  ultimately show ?case using IH(1,2) eff(5) pay rd by auto
qed simp

text \<open>
  Property C26. When a job completes, the resolver turns pending exactly those of its children that
  wait, have every parent completed and are held by no pause, adds one submission event for
  each, and changes no other job.
\<close>

theorem resolver_promotes:
  assumes "wf_db d" "distinct (children_of p d)" "message_job_id v = Inr (Some p)"
  shows "\<exists>d'. resolver_handle_message cfg now redis v d = Inr d'
    \<and> map o_payload (outbox_events d') = map o_payload (outbox_events d)
        @ map (\<lambda>c. job_submitted_payload (the (job_by_id d c))) (filter (ready redis d) (children_of p d))
    \<and> (\<forall>c \<in> set (children_of p d). ready redis d c \<longrightarrow> pending d' c)
    \<and> (\<forall>k. k \<notin> set (children_of p d) \<or> \<not> ready redis d k \<longrightarrow> job_by_id d' k = job_by_id d k)"
  using resolve_fold [OF assms(1,2) refl, of cfg now redis] assms(3)
  by (simp add: resolver_handle_message_def)

theorem resolver_promotes_witness:
  "\<exists>d'. resolver_handle_message default_settings 5 None (JObj [(''job_id'', juuid 2)])
       (sample_db [sample_job 2 COMPLETED, sample_job 3 WAITING] [(3, 2)]) = Inr d' \<and> pending d' 3"
proof -
  let ?d = "sample_db [sample_job 2 COMPLETED, sample_job 3 WAITING] [(3, 2)]"
  have "wf_db ?d" by (rule wf_sample) auto
  moreover have "children_of 2 ?d = [3]" by (simp add: children_of_def)
  moreover have "message_job_id (JObj [(''job_id'', juuid 2)]) = Inr (Some 2)"
    by (simp add: message_job_id_def juuid_def uuid_parse_str_bounded)
  moreover have "ready None ?d 3" by (simp add: ready_def job_is_def unmet_count_def)
  ultimately show ?thesis
    using resolver_promotes [of ?d 2 "JObj [(''job_id'', juuid 2)]" default_settings 5 None] by auto
qed

text \<open>
  The resolver, the resume sweeps of every replica and redelivered messages may all
  try to promote the same child: exactly one attempt wins, and only if the child was waiting,
  so one submission event is added.
\<close>

theorem promotion_exactly_once:
  "wf_db d \<Longrightarrow> wins i is (fst (run_cas (promote_waiting_to_pending now) is d)) =
     (if waiting d i \<and> i \<in> set is then 1 else 0)"
  by (rule promote.run_cas_one_winner)

theorem promotion_exactly_once_witness:
  "wins (3 :: uuid) [3, 2, 3] (fst (run_cas (promote_waiting_to_pending 5) [3, 2, 3]
     (sample_db [sample_job 2 COMPLETED, sample_job 3 WAITING] [(3, 2)]))) = 1"
proof -
  have "wf_db (sample_db [sample_job 2 COMPLETED, sample_job 3 WAITING] [(3, 2)])" by (rule wf_sample) auto
  from promotion_exactly_once [OF this, of 3 "[3, 2, 3]" 5]
  show ?thesis by (simp add: job_is_def del: run_cas.simps)
qed

end
