(* ===== verification/Retry_Queue.thy ===== *)
theory Retry_Queue
  imports Models "HOL-Library.Multiset" "HOL-Library.Char_ord" "HOL-Library.List_Lexorder"
begin

text \<open>
  The Redis sorted sets of the worker: \<open>workers/queue.py\<close> (delayed retries) and
  \<open>workers/dlq_replay_scheduler.py\<close> (scheduled dead-letter replays, claimed and
  acknowledged). A sorted set is a list of \<open>(member, score)\<close> pairs with distinct members;
  Redis orders equal scores by the bytes of the member.
\<close>

section \<open>Sorted sets\<close>

type_synonym zset = "(string \<times> rat) list"

definition zscore :: "zset \<Rightarrow> string \<Rightarrow> rat option" where
  "zscore z = map_of z"

definition zadd :: "string \<Rightarrow> rat \<Rightarrow> zset \<Rightarrow> zset" where
  "zadd m s z = (m, s) # filter (\<lambda>(m', _). m' \<noteq> m) z"

definition zrem :: "string list \<Rightarrow> zset \<Rightarrow> zset" where
  "zrem ms z = filter (\<lambda>(m, _). m \<notin> set ms) z"

text \<open>\<open>ZRANGEBYSCORE key -inf t LIMIT 0 n\<close>.\<close>

definition zrange_due :: "nat \<Rightarrow> rat \<Rightarrow> zset \<Rightarrow> string list" where
  "zrange_due n t z =
     take n (map fst (sort_key snd (sort_key fst (filter (\<lambda>(_, s). s \<le> t) z))))"

definition zcard :: "zset \<Rightarrow> nat" where
  "zcard z = length z"

definition zset_ok :: "zset \<Rightarrow> bool" where
  "zset_ok z \<longleftrightarrow> distinct (map fst z)"

text \<open>
  What the callers rely on. \<open>due_prefix\<close> is the order: a due member that is left out was
  beaten by \<open>n\<close> members with scores no larger than its own.
\<close>

locale sorted_set =
  fixes score :: "'z \<Rightarrow> string \<Rightarrow> rat option"
    and add :: "string \<Rightarrow> rat \<Rightarrow> 'z \<Rightarrow> 'z"
    and rem :: "string list \<Rightarrow> 'z \<Rightarrow> 'z"
    and due :: "nat \<Rightarrow> rat \<Rightarrow> 'z \<Rightarrow> string list"
    and ok :: "'z \<Rightarrow> bool"
  assumes score_add: "score (add m s z) = (score z)(m \<mapsto> s)"
    and score_rem: "score (rem ms z) m = (if m \<in> set ms then None else score z m)"
    and ok_add: "ok z \<Longrightarrow> ok (add m s z)"
    and ok_rem: "ok z \<Longrightarrow> ok (rem ms z)"
    and finite_score: "finite (dom (score z))"
    and due_length: "length (due n t z) \<le> n"
    and due_distinct: "ok z \<Longrightarrow> distinct (due n t z)"
    and due_sound: "ok z \<Longrightarrow> m \<in> set (due n t z) \<Longrightarrow> \<exists>s \<le> t. score z m = Some s"
    and due_prefix: "ok z \<Longrightarrow> score z m = Some s \<Longrightarrow> s \<le> t \<Longrightarrow> m \<notin> set (due n t z) \<Longrightarrow>
      length (due n t z) = n \<and> (\<forall>m' \<in> set (due n t z). \<forall>s'. score z m' = Some s' \<longrightarrow> s' \<le> s)"
begin

definition overdue :: "rat \<Rightarrow> 'z \<Rightarrow> string set" where
  "overdue t z = {m. \<exists>s \<le> t. score z m = Some s}"

lemma finite_overdue: "finite (overdue t z)"
  by (rule finite_subset [OF _ finite_score [of z]]) (auto simp: overdue_def)

lemma due_overdue: "ok z \<Longrightarrow> set (due n t z) \<subseteq> overdue t z"
  by (auto simp: overdue_def dest: due_sound)

lemma due_all: "ok z \<Longrightarrow> card (overdue t z) \<le> n \<Longrightarrow> set (due n t z) = overdue t z"
proof (rule ccontr)
  assume ok: "ok z" and le: "card (overdue t z) \<le> n" and ne: "set (due n t z) \<noteq> overdue t z"
  from due_overdue [OF ok, of n t] ne obtain m where "m \<in> overdue t z" "m \<notin> set (due n t z)" by blast
  then have "length (due n t z) = n" using due_prefix [OF ok] by (auto simp: overdue_def)
  then have "card (set (due n t z)) = n" by (simp add: distinct_card due_distinct ok)
  moreover from due_overdue [OF ok] ne have "set (due n t z) \<subset> overdue t z" by blast
  then have "card (set (due n t z)) < card (overdue t z)" by (rule psubset_card_mono [OF finite_overdue])
  ultimately show False using le by simp
qed

text \<open>Taking the due members off: each pass removes \<open>n\<close> of them, or all.\<close>

lemma overdue_pop: "ok z \<Longrightarrow> overdue t (rem (due n t z) z) = overdue t z - set (due n t z)"
  by (auto simp: overdue_def score_rem split: if_splits)

lemma card_overdue_pop:
  assumes ok: "ok z"
  shows "card (overdue t (rem (due n t z) z)) = card (overdue t z) - n"
proof (cases "card (overdue t z) \<le> n")
  case True
  then show ?thesis by (simp add: overdue_pop [OF ok] due_all [OF ok])
next
  case False
  have "length (due n t z) = n"
  proof (rule ccontr)
    assume "length (due n t z) \<noteq> n"
    then have "overdue t z \<subseteq> set (due n t z)"
      using due_prefix [OF ok] by (fastforce simp: overdue_def)
    then have "card (overdue t z) \<le> card (set (due n t z))" by (simp add: card_mono)
    also have "\<dots> \<le> n" using card_length [of "due n t z"] due_length [of n t z] by linarith
    finally show False using False by simp
  qed
  then have "card (set (due n t z)) = n" by (simp add: distinct_card due_distinct ok)
  then show ?thesis
    by (simp add: overdue_pop [OF ok] card_Diff_subset due_overdue [OF ok])
qed

end

lemma zset_ok_add: "zset_ok z \<Longrightarrow> zset_ok (zadd m s z)"
proof -
  have "m \<notin> fst ` set (filter (\<lambda>(m', _). m' \<noteq> m) z)" by auto
  then show "zset_ok z \<Longrightarrow> zset_ok (zadd m s z)"
    by (simp add: zset_ok_def zadd_def distinct_map_filter)
qed

lemma zset_ok_rem: "zset_ok z \<Longrightarrow> zset_ok (zrem ms z)"
  by (simp add: zset_ok_def zrem_def distinct_map_filter)

lemma zscore_zadd: "zscore (zadd m s z) = (zscore z)(m \<mapsto> s)"
proof
  fix k
  have "map_of (filter (\<lambda>(m', _). m' \<noteq> m) z) k = (if k = m then None else map_of z k)"
    by (induction z) auto
  then show "zscore (zadd m s z) k = ((zscore z)(m \<mapsto> s)) k" by (simp add: zscore_def zadd_def)
qed

lemma zscore_zrem: "zscore (zrem ms z) m = (if m \<in> set ms then None else zscore z m)"
  by (induction z) (auto simp: zscore_def zrem_def)

abbreviation due_rows :: "rat \<Rightarrow> zset \<Rightarrow> zset" where
  "due_rows t z \<equiv> sort_key snd (sort_key fst (filter (\<lambda>(_, s). s \<le> t) z))"

lemma due_rows_distinct: "zset_ok z \<Longrightarrow> distinct (map fst (due_rows t z))"
proof -
  assume "zset_ok z"
  then have "distinct (map fst (filter (\<lambda>(_, s). s \<le> t) z))"
    by (simp add: zset_ok_def distinct_map_filter)
  moreover have "mset (map fst (due_rows t z)) = mset (map fst (filter (\<lambda>(_, s). s \<le> t) z))"
    by (simp only: mset_map mset_sort)
  ultimately show ?thesis by (metis mset_eq_imp_distinct_iff)
qed

lemma take_sorted_before:
  "sorted (map f xs) \<Longrightarrow> x \<in> set (take n xs) \<Longrightarrow> y \<in> set xs \<Longrightarrow> y \<notin> set (take n xs) \<Longrightarrow> f x \<le> f y"
proof -
  assume s: "sorted (map f xs)" and x: "x \<in> set (take n xs)" and y: "y \<in> set xs" "y \<notin> set (take n xs)"
  have "y \<in> set (drop n xs)" using y by (metis Un_iff append_take_drop_id set_append)
  moreover have "sorted (map f (take n xs) @ map f (drop n xs))"
    using s by (simp flip: map_append)
  ultimately show "f x \<le> f y" using x by (auto simp: sorted_append)
qed

lemma zset_due_prefix:
  assumes ok: "zset_ok z" and m: "zscore z m = Some s" "s \<le> t" "m \<notin> set (zrange_due n t z)"
  shows "length (zrange_due n t z) = n
    \<and> (\<forall>m' \<in> set (zrange_due n t z). \<forall>s'. zscore z m' = Some s' \<longrightarrow> s' \<le> s)"
proof -
  let ?xs = "due_rows t z"
  have mem: "(m, s) \<in> set ?xs" using m(1,2) by (auto simp: zscore_def dest: map_of_SomeD)
  have out: "(m, s) \<notin> set (take n ?xs)"
    using m(3) by (force simp: zrange_due_def take_map)
  have "\<not> length ?xs \<le> n" using mem out by auto
  then have len: "length (zrange_due n t z) = n" by (simp add: zrange_due_def)
  have "s' \<le> s" if m': "m' \<in> set (zrange_due n t z)" "zscore z m' = Some s'" for m' s'
  proof -
    obtain s'' where s'': "(m', s'') \<in> set (take n ?xs)"
      using m'(1) by (auto simp: zrange_due_def take_map)
    then have "(m', s'') \<in> set z" by (auto dest: in_set_takeD)
    then have "s'' = s'" using m'(2) ok by (simp add: zscore_def zset_ok_def)
    then show ?thesis using take_sorted_before [OF _ s'' mem out, of snd] by simp
  qed
  then show ?thesis using len by blast
qed

interpretation redis_zset: sorted_set zscore zadd zrem zrange_due zset_ok
proof unfold_locales
  fix z m and n :: nat and t :: rat
  assume ok: "zset_ok z" and m: "m \<in> set (zrange_due n t z)"
  then obtain s where "(m, s) \<in> set z" "s \<le> t"
    by (auto simp: zrange_due_def take_map dest!: in_set_takeD)
  then show "\<exists>s \<le> t. zscore z m = Some s" using ok by (auto simp: zscore_def zset_ok_def)
next
  fix n :: nat and t :: rat and z
  show "zset_ok z \<Longrightarrow> distinct (zrange_due n t z)"
    using due_rows_distinct [of z t] by (simp add: zrange_due_def)
next
  show "finite (dom (zscore z))" for z by (simp add: zscore_def finite_dom_map_of)
  show "length (zrange_due n t z) \<le> n" for n t z by (simp add: zrange_due_def)
qed (simp_all only: zscore_zadd zscore_zrem zset_ok_add zset_ok_rem, rule zset_due_prefix)

section \<open>Delayed retries (\<open>workers/queue.py\<close>)\<close>

record job_redis =
  delayed_z :: zset
  scheduled_z :: zset
  inflight_z :: zset

definition pop_ready_limit :: nat where
  "pop_ready_limit = 1000"

text \<open>The Lua script: read and remove in one step.\<close>

definition atomic_pop_ready :: "rat \<Rightarrow> zset \<Rightarrow> string list \<times> zset" where
  "atomic_pop_ready max_score z =
     (let due = zrange_due pop_ready_limit max_score z
      in (due, if due = [] then z else zrem due z))"

definition push_delayed :: "time \<Rightarrow> string \<Rightarrow> rat \<Rightarrow> job_redis \<Rightarrow> job_redis" where
  "push_delayed now job_id delay r = r\<lparr>delayed_z := zadd job_id (now + delay) (delayed_z r)\<rparr>"

definition pop_ready_delayed :: "time \<Rightarrow> job_redis \<Rightarrow> string list \<times> job_redis" where
  "pop_ready_delayed now r =
     (let (due, z) = atomic_pop_ready now (delayed_z r) in (due, r\<lparr>delayed_z := z\<rparr>))"

definition delayed_length :: "job_redis \<Rightarrow> nat" where
  "delayed_length r = zcard (delayed_z r)"

section \<open>Scheduled replays (\<open>workers/dlq_replay_scheduler.py\<close>)\<close>

definition claim_ttl_seconds :: rat where
  "claim_ttl_seconds = 60"

type_synonym replay_id = "uuid \<times> uuid \<times> uuid"

fun replay_member :: "replay_id \<Rightarrow> string" where
  "replay_member (tenant, prin, job_id) =
     uuid_str tenant @ '':'' @ uuid_str prin @ '':'' @ uuid_str job_id"

text \<open>\<open>text.split(':', 1)\<close> into two parts; \<open>None\<close> when there is no separator.\<close>

fun split_colon :: "string \<Rightarrow> (string \<times> string) option" where
  "split_colon [] = None"
| "split_colon (c # cs) =
     (if c = CHR '':'' then Some ([], cs)
      else map_option (\<lambda>(a, b). (c # a, b)) (split_colon cs))"

definition replay_parse :: "string \<Rightarrow> replay_id option" where
  "replay_parse member =
     (case split_colon member of
        None \<Rightarrow> None
      | Some (tenant_str, rest) \<Rightarrow>
          (case split_colon rest of
             None \<Rightarrow> None
           | Some (principal_str, job_str) \<Rightarrow>
               (case (uuid_parse tenant_str, uuid_parse principal_str, uuid_parse job_str) of
                  (Some t, Some p, Some j) \<Rightarrow> Some (t, p, j)
                | _ \<Rightarrow> None)))"

definition arm_replay :: "replay_id \<Rightarrow> rat \<Rightarrow> job_redis \<Rightarrow> job_redis" where
  "arm_replay rid execute_at r = r\<lparr>scheduled_z := zadd (replay_member rid) execute_at (scheduled_z r)\<rparr>"

definition schedule_replay :: "time \<Rightarrow> replay_id \<Rightarrow> rat \<Rightarrow> job_redis \<Rightarrow> rat \<times> job_redis" where
  "schedule_replay now rid delay r = (now + delay, arm_replay rid (now + delay) r)"

definition cancel_scheduled_replay :: "replay_id \<Rightarrow> job_redis \<Rightarrow> job_redis" where
  "cancel_scheduled_replay rid r = r\<lparr>scheduled_z := zrem [replay_member rid] (scheduled_z r)\<rparr>"

text \<open>The Lua script: lapsed claims first, then due members up to the budget.\<close>

definition claim_budget :: nat where
  "claim_budget = 1000"

definition claim_script :: "rat \<Rightarrow> rat \<Rightarrow> job_redis \<Rightarrow> string list \<times> job_redis" where
  "claim_script now deadline r =
     (let lapsed = zrange_due claim_budget now (inflight_z r);
          room = claim_budget - length lapsed;
          due = (if room > 0 then zrange_due room now (scheduled_z r) else []);
          claimed = lapsed @ due
      in (claimed, r\<lparr>scheduled_z := (if due = [] then scheduled_z r else zrem due (scheduled_z r)),
                     inflight_z := fold (\<lambda>m. zadd m deadline) claimed (inflight_z r)\<rparr>))"

text \<open>Members that do not parse are acknowledged on the spot.\<close>

definition parse_claimed :: "string \<Rightarrow> replay_id list \<times> job_redis \<Rightarrow> replay_id list \<times> job_redis" where
  "parse_claimed member acc =
     (case replay_parse member of
        Some rid \<Rightarrow> (fst acc @ [rid], snd acc)
      | None \<Rightarrow> (fst acc, (snd acc)\<lparr>inflight_z := zrem [member] (inflight_z (snd acc))\<rparr>))"

definition claim_ready :: "time \<Rightarrow> job_redis \<Rightarrow> replay_id list \<times> job_redis" where
  "claim_ready now r =
     (let (raw, r1) = claim_script now (now + claim_ttl_seconds) r
      in fold parse_claimed raw ([], r1))"

definition ack_replay :: "replay_id \<Rightarrow> job_redis \<Rightarrow> job_redis" where
  "ack_replay rid r = r\<lparr>inflight_z := zrem [replay_member rid] (inflight_z r)\<rparr>"

definition scheduled_length :: "job_redis \<Rightarrow> nat" where
  "scheduled_length r = zcard (scheduled_z r)"

definition inflight_length :: "job_redis \<Rightarrow> nat" where
  "inflight_length r = zcard (inflight_z r)"

section \<open>Draining the delayed set\<close>

definition redis_ok :: "job_redis \<Rightarrow> bool" where
  "redis_ok r \<longleftrightarrow> zset_ok (delayed_z r) \<and> zset_ok (scheduled_z r) \<and> zset_ok (inflight_z r)"

text \<open>Successive passes of the promotion loop, with what each pass popped.\<close>

primrec pop_passes :: "nat \<Rightarrow> time \<Rightarrow> job_redis \<Rightarrow> string list list \<times> job_redis" where
  "pop_passes 0 now r = ([], r)"
| "pop_passes (Suc k) now r =
     (let (due, r1) = pop_ready_delayed now r; (rest, r2) = pop_passes k now r1 in (due # rest, r2))"

lemma zrem_Nil [simp]: "zrem [] z = z"
  by (simp add: zrem_def)

lemma pop_ready_delayed_eq:
  "pop_ready_delayed now r =
     (zrange_due pop_ready_limit now (delayed_z r),
      r\<lparr>delayed_z := zrem (zrange_due pop_ready_limit now (delayed_z r)) (delayed_z r)\<rparr>)"
  by (simp add: pop_ready_delayed_def atomic_pop_ready_def Let_def)

lemma pop_passes_spec:
  "zset_ok (delayed_z r) \<Longrightarrow>
   let (ds, r') = pop_passes k now r
   in zset_ok (delayed_z r') \<and> distinct (concat ds)
      \<and> set (concat ds) \<union> redis_zset.overdue now (delayed_z r') = redis_zset.overdue now (delayed_z r)
      \<and> set (concat ds) \<inter> dom (zscore (delayed_z r')) = {}
      \<and> (\<forall>m. m \<notin> set (concat ds) \<longrightarrow> zscore (delayed_z r') m = zscore (delayed_z r) m)
      \<and> card (redis_zset.overdue now (delayed_z r')) =
          card (redis_zset.overdue now (delayed_z r)) - k * pop_ready_limit"
proof (induction k arbitrary: r)
  case 0
  then show ?case by simp
next
  case (Suc k)
  define due where "due = zrange_due pop_ready_limit now (delayed_z r)"
  define r1 where "r1 = r\<lparr>delayed_z := zrem due (delayed_z r)\<rparr>"
  obtain ds r' where rest: "pop_passes k now r1 = (ds, r')" by (cases "pop_passes k now r1")
  note IH = Suc.IH [of r1, unfolded rest Let_def prod.case]
  have ok1: "zset_ok (delayed_z r1)" by (simp add: r1_def zset_ok_rem Suc.prems)
  have over1: "redis_zset.overdue now (delayed_z r1) = redis_zset.overdue now (delayed_z r) - set due"
    using redis_zset.overdue_pop [OF Suc.prems] by (simp add: r1_def due_def)
  have sub: "set due \<subseteq> redis_zset.overdue now (delayed_z r)"
    unfolding due_def by (rule redis_zset.due_overdue [OF Suc.prems])
  have card1: "card (redis_zset.overdue now (delayed_z r1)) =
      card (redis_zset.overdue now (delayed_z r)) - pop_ready_limit"
    using redis_zset.card_overdue_pop [OF Suc.prems] by (simp add: r1_def due_def)
  have dd: "distinct due" unfolding due_def by (rule redis_zset.due_distinct [OF Suc.prems])
  have gone: "set due \<inter> dom (zscore (delayed_z r1)) = {}" by (auto simp: r1_def zscore_zrem)
  have same: "m \<notin> set due \<Longrightarrow> zscore (delayed_z r1) m = zscore (delayed_z r) m" for m
    by (simp add: r1_def zscore_zrem)
  have fresh: "set due \<inter> set (concat ds) = {}" using IH [OF ok1] over1 by blast
  then have "set due \<inter> dom (zscore (delayed_z r')) = {}" using IH [OF ok1] gone by fastforce
  moreover have "pop_passes (Suc k) now r = (due # ds, r')"
    by (simp add: pop_ready_delayed_eq rest flip: due_def r1_def)
  ultimately show ?case
    using IH [OF ok1] dd fresh sub over1 card1 same by auto
qed

section \<open>Claims\<close>

abbreviation valid_uuid :: "uuid \<Rightarrow> bool" where
  "valid_uuid u \<equiv> u < 2 ^ 128"

fun valid_replay :: "replay_id \<Rightarrow> bool" where
  "valid_replay (t, p, j) \<longleftrightarrow> valid_uuid t \<and> valid_uuid p \<and> valid_uuid j"

lemma split_colon_append: "CHR '':'' \<notin> set a \<Longrightarrow> split_colon (a @ CHR '':'' # b) = Some (a, b)"
  by (induction a) auto

lemma uuid_str_no_colon: "CHR '':'' \<notin> set (uuid_str u)"
  using set_uuid_str [of u] by (auto simp: hex_chars_def)

lemma replay_parse_member: "valid_replay rid \<Longrightarrow> replay_parse (replay_member rid) = Some rid"
  by (cases rid) (simp add: replay_parse_def split_colon_append uuid_str_no_colon uuid_parse_str_bounded)

lemma replay_member_inject:
  "valid_replay rid \<Longrightarrow> valid_replay rid' \<Longrightarrow> replay_member rid = replay_member rid' \<longleftrightarrow> rid = rid'"
  by (metis option.inject replay_parse_member)

lemma zscore_fold_zadd:
  "zscore (fold (\<lambda>m. zadd m s) ms z) k = (if k \<in> set ms then Some s else zscore z k)"
  by (induction ms arbitrary: z) (auto simp: zscore_zadd)

lemma zset_ok_fold_zadd: "zset_ok z \<Longrightarrow> zset_ok (fold (\<lambda>m. zadd m s) ms z)"
  by (induction ms arbitrary: z) (auto simp: zset_ok_add)

lemma zrem_zrem: "zrem xs (zrem ys z) = zrem (ys @ xs) z"
  by (auto simp: zrem_def intro: filter_cong)

lemma fold_parse_claimed:
  "fold parse_claimed raw (acc, r) =
     (acc @ List.map_filter replay_parse raw,
      r\<lparr>inflight_z := zrem (filter (\<lambda>m. replay_parse m = None) raw) (inflight_z r)\<rparr>)"
  by (induction raw arbitrary: acc r)
    (auto simp: parse_claimed_def zrem_zrem List.map_filter_simps split: option.split)

lemma map_filter_memI: "x \<in> set xs \<Longrightarrow> f x = Some y \<Longrightarrow> y \<in> set (List.map_filter f xs)"
  by (force simp: List.map_filter_def)

abbreviation lapsed_members :: "time \<Rightarrow> job_redis \<Rightarrow> string list" where
  "lapsed_members now r \<equiv> zrange_due claim_budget now (inflight_z r)"

abbreviation due_members :: "time \<Rightarrow> job_redis \<Rightarrow> string list" where
  "due_members now r \<equiv> zrange_due (claim_budget - length (lapsed_members now r)) now (scheduled_z r)"

lemma zrange_due_0 [simp]: "zrange_due 0 t z = []"
  by (simp add: zrange_due_def)

lemma zrange_due_all: "zcard z \<le> n \<Longrightarrow> zrange_due n t z = map fst (due_rows t z)"
  by (simp add: zrange_due_def zcard_def order_trans [OF length_filter_le])

lemma claim_ready_eq:
  "claim_ready now r =
     (List.map_filter replay_parse (lapsed_members now r @ due_members now r),
      r\<lparr>scheduled_z := zrem (due_members now r) (scheduled_z r),
        inflight_z := zrem (filter (\<lambda>m. replay_parse m = None) (lapsed_members now r @ due_members now r))
          (fold (\<lambda>m. zadd m (now + claim_ttl_seconds)) (lapsed_members now r @ due_members now r)
             (inflight_z r))\<rparr>)"
proof -
  have "(if claim_budget - length (lapsed_members now r) > 0 then due_members now r else []) = due_members now r"
    by simp
  then show ?thesis
    unfolding claim_ready_def claim_script_def Let_def prod.case fold_parse_claimed by simp
qed

lemma claim_ready_scores:
  shows "zscore (scheduled_z (snd (claim_ready now r))) m =
      (if m \<in> set (due_members now r) then None else zscore (scheduled_z r) m)"
    and "zscore (inflight_z (snd (claim_ready now r))) m =
      (if m \<in> set (lapsed_members now r @ due_members now r)
       then (if replay_parse m = None then None else Some (now + claim_ttl_seconds))
       else zscore (inflight_z r) m)"
    and "delayed_z (snd (claim_ready now r)) = delayed_z r"
  by (simp_all add: claim_ready_eq zscore_zrem zscore_fold_zadd)

lemma claim_ready_result:
  "valid_replay rid \<Longrightarrow>
   replay_member rid \<in> set (lapsed_members now r @ due_members now r) \<Longrightarrow>
   rid \<in> set (fst (claim_ready now r))"
  unfolding claim_ready_eq fst_conv
  by (rule map_filter_memI [where f = replay_parse and x = "replay_member rid"])
    (simp_all only: replay_parse_member)

lemma redis_ok_claim_ready: "redis_ok r \<Longrightarrow> redis_ok (snd (claim_ready now r))"
  by (simp add: redis_ok_def claim_ready_eq zset_ok_rem zset_ok_fold_zadd zset_ok_add)

text \<open>The operations of the scheduler as events of any number of workers and callers.\<close>

datatype replay_op =
    OpArm replay_id rat
  | OpCancel replay_id
  | OpClaim time
  | OpAck replay_id

fun replay_apply :: "replay_op \<Rightarrow> job_redis \<Rightarrow> job_redis" where
  "replay_apply (OpArm rid t) r = arm_replay rid t r"
| "replay_apply (OpCancel rid) r = cancel_scheduled_replay rid r"
| "replay_apply (OpClaim now) r = snd (claim_ready now r)"
| "replay_apply (OpAck rid) r = ack_replay rid r"

definition held :: "job_redis \<Rightarrow> string \<Rightarrow> bool" where
  "held r m \<longleftrightarrow> m \<in> dom (zscore (scheduled_z r)) \<union> dom (zscore (inflight_z r))"

fun settles :: "string \<Rightarrow> replay_op \<Rightarrow> bool" where
  "settles m (OpCancel rid) \<longleftrightarrow> replay_member rid = m"
| "settles m (OpAck rid) \<longleftrightarrow> replay_member rid = m"
| "settles m _ \<longleftrightarrow> False"

lemma replay_apply_ok: "redis_ok r \<Longrightarrow> redis_ok (replay_apply e r)"
proof (cases e)
  case (OpClaim now)
  then show "redis_ok r \<Longrightarrow> redis_ok (replay_apply e r)" by (simp add: redis_ok_claim_ready)
qed (simp_all add: redis_ok_def arm_replay_def cancel_scheduled_replay_def ack_replay_def
      zset_ok_add zset_ok_rem)

interpretation replay_ops: inv_step replay_apply redis_ok
  by unfold_locales (rule replay_apply_ok)

lemma replay_apply_held:
  assumes "replay_parse m \<noteq> None" "held r m" "\<not> settles m e"
  shows "held (replay_apply e r) m"
proof (cases e)
  case (OpClaim now)
  then show ?thesis
    using assms(1,2) by (auto simp: held_def claim_ready_scores dom_def)
qed (use assms in \<open>auto simp: held_def arm_replay_def cancel_scheduled_replay_def ack_replay_def
      zscore_zadd zscore_zrem dom_def\<close>)

lemma replay_ops_held:
  assumes "replay_parse m \<noteq> None" "held r m" "\<forall>e \<in> set es. \<not> settles m e"
  shows "held (fold replay_apply es r) m"
  using assms(2,3) by (induction es arbitrary: r) (simp_all add: replay_apply_held assms(1))

lemma lapsed_or_due_claimed:
  assumes ok: "redis_ok r" and rid: "valid_replay rid" "held r (replay_member rid)"
    and late: "\<forall>s. zscore (scheduled_z r) (replay_member rid) = Some s
        \<or> zscore (inflight_z r) (replay_member rid) = Some s \<longrightarrow> s \<le> now"
    and fits: "zcard (scheduled_z r) + zcard (inflight_z r) \<le> claim_budget"
  shows "rid \<in> set (fst (claim_ready now r))"
proof -
  let ?m = "replay_member rid"
  have z: "zset_ok (scheduled_z r)" "zset_ok (inflight_z r)" using ok by (simp_all add: redis_ok_def)
  have len: "length (zrange_due n now w) \<le> zcard w" for n w
    by (simp add: zrange_due_def zcard_def min.coboundedI1)
  have "?m \<in> set (lapsed_members now r @ due_members now r)"
  proof (cases "zscore (inflight_z r) ?m")
    case (Some s)
    have "zcard (inflight_z r) \<le> claim_budget" using fits by linarith
    then have "lapsed_members now r = map fst (due_rows now (inflight_z r))" by (rule zrange_due_all)
    moreover have "?m \<in> set (map fst (due_rows now (inflight_z r)))"
      using Some late by (force simp: zscore_def dest: map_of_SomeD)
    ultimately show ?thesis by auto
  next
    case None
    then obtain s where s: "zscore (scheduled_z r) ?m = Some s" "s \<le> now"
      using rid(2) late by (auto simp: held_def dom_def)
    have "zcard (scheduled_z r) \<le> claim_budget - length (lapsed_members now r)"
      using fits len [of claim_budget "inflight_z r"] by linarith
    then have "due_members now r = map fst (due_rows now (scheduled_z r))" by (rule zrange_due_all)
    moreover have "?m \<in> set (map fst (due_rows now (scheduled_z r)))"
      using s by (force simp: zscore_def dest: map_of_SomeD)
    ultimately show ?thesis by simp
  qed
  then show ?thesis by (rule claim_ready_result [OF rid(1)])
qed

lemma claim_lease:
  assumes rid: "valid_replay rid" and m: "replay_member rid \<in> set (lapsed_members now r @ due_members now r)"
    and gone: "zscore (scheduled_z (snd (claim_ready now r))) (replay_member rid) = None"
    and ok: "redis_ok r" and t: "now' < now + claim_ttl_seconds"
  shows "replay_member rid \<notin> set (lapsed_members now' (snd (claim_ready now r))
           @ due_members now' (snd (claim_ready now r)))"
proof -
  let ?r = "snd (claim_ready now r)"
  have ok': "zset_ok (scheduled_z ?r)" "zset_ok (inflight_z ?r)"
    using redis_ok_claim_ready [OF ok] by (simp_all add: redis_ok_def)
  have "zscore (inflight_z ?r) (replay_member rid) = Some (now + claim_ttl_seconds)"
    using m rid by (simp add: claim_ready_scores(2) replay_parse_member del: set_append)
  then have "replay_member rid \<notin> set (lapsed_members now' ?r)"
    using redis_zset.due_sound [OF ok'(2)] t by fastforce
  moreover have "replay_member rid \<notin> set (due_members now' ?r)"
    using redis_zset.due_sound [OF ok'(1)] gone by fastforce
  ultimately show ?thesis by simp
qed

section \<open>Properties\<close>

definition due_now :: "time \<Rightarrow> zset \<Rightarrow> string set" where
  "due_now now z = {m. \<exists>s \<le> now. zscore z m = Some s}"

lemma due_now_overdue: "due_now now z = redis_zset.overdue now z"
  by (simp add: due_now_def redis_zset.overdue_def)

text \<open>
  Successive passes over the delayed set hand out every due retry exactly once: no
  member twice, none that is not due, and all of them once the passes of a thousand cover
  their number; members that are not due stay untouched.
\<close>

theorem delayed_retries_drain:
  assumes "zset_ok (delayed_z r)" "card (due_now now (delayed_z r)) \<le> k * 1000"
  shows "case pop_passes k now r of (ds, r') \<Rightarrow>
      distinct (concat ds) \<and> set (concat ds) = due_now now (delayed_z r) \<and> due_now now (delayed_z r') = {}
      \<and> (\<forall>m. m \<notin> due_now now (delayed_z r) \<longrightarrow> zscore (delayed_z r') m = zscore (delayed_z r) m)"
proof -
  obtain ds r' where eq: "pop_passes k now r = (ds, r')" by (cases "pop_passes k now r")
  note spec = pop_passes_spec [OF assms(1), of k now, unfolded eq Let_def prod.case, folded due_now_overdue]
  have "card (due_now now (delayed_z r')) = 0" using spec assms(2) by (simp add: pop_ready_limit_def)
  then have "due_now now (delayed_z r') = {}"
    using redis_zset.finite_overdue [of now "delayed_z r'"] by (simp add: due_now_overdue)
  then show ?thesis using spec by (auto simp: eq)
qed

theorem delayed_retries_drain_witness:
  "case pop_passes 1 10 \<lparr>delayed_z = [(''a'', 3), (''b'', 30)], scheduled_z = [], inflight_z = []\<rparr> of (ds, r') \<Rightarrow>
     set (concat ds) = {''a''} \<and> zscore (delayed_z r') ''b'' = Some 30"
proof -
  let ?r = "\<lparr>delayed_z = [(''a'', 3), (''b'', 30)], scheduled_z = [], inflight_z = []\<rparr>"
  have due: "due_now 10 (delayed_z ?r) = {''a''}" by (auto simp: due_now_def zscore_def split: if_splits)
  show ?thesis
    using delayed_retries_drain [of ?r 10 1] unfolding due
    by (auto simp: zset_ok_def zscore_def split: prod.splits simp del: pop_passes.simps)
qed

text \<open>
  The member text of a scheduled replay parses back to the identifiers it was built
  from, and different replays have different members.
\<close>

theorem replay_member_roundtrip:
  assumes "valid_replay rid"
  shows "replay_parse (replay_member rid) = Some rid
    \<and> (valid_replay rid' \<and> replay_member rid' = replay_member rid \<longrightarrow> rid' = rid)"
  using assms replay_parse_member replay_member_inject by blast

theorem replay_member_roundtrip_witness:
  "replay_parse (replay_member (1, 2, 3)) = Some (1, 2, 3)"
  using replay_member_roundtrip [of "(1, 2, 3)" "(1, 2, 3)"] by simp

text \<open>
  Property C13. An armed replay survives the death of any number of workers: whatever is armed,
  claimed, acknowledged or cancelled for other replays, and however many claims of this one die
  unacknowledged, it is handed out again by the next claim after its time or lease has passed
  (the two sets together holding no more than one claim's budget).
\<close>

theorem armed_replay_survives:
  assumes "redis_ok r" "valid_replay rid" "\<forall>e \<in> set es. \<not> settles (replay_member rid) e"
    and "r' = fold replay_apply es (arm_replay rid t r)"
    and "\<forall>s. zscore (scheduled_z r') (replay_member rid) = Some s
        \<or> zscore (inflight_z r') (replay_member rid) = Some s \<longrightarrow> s \<le> now"
    and "zcard (scheduled_z r') + zcard (inflight_z r') \<le> 1000"
  shows "rid \<in> set (fst (claim_ready now r'))"
proof -
  have arm: "replay_apply (OpArm rid t) r = arm_replay rid t r" by simp
  have "redis_ok r'" unfolding assms(4) arm [symmetric]
    by (rule replay_ops.fold_inv) (rule replay_apply_ok [OF assms(1)])
  moreover have "held (arm_replay rid t r) (replay_member rid)"
    by (simp add: held_def arm_replay_def zscore_zadd)
  then have "held r' (replay_member rid)"
    unfolding assms(4) using replay_ops_held [OF _ _ assms(3)] replay_parse_member [OF assms(2)] by simp
  ultimately show ?thesis
    using lapsed_or_due_claimed [of r' rid now] assms(2,5,6) by (simp add: claim_budget_def)
qed

theorem armed_replay_survives_witness:
  "(4, 2, 3) \<in> set (fst (claim_ready 100 (fold replay_apply [OpClaim 10]
     (arm_replay (4, 2, 3) 5 \<lparr>delayed_z = [], scheduled_z = [], inflight_z = []\<rparr>))))"
proof -
  let ?start = "\<lparr>delayed_z = [], scheduled_z = [], inflight_z = []\<rparr>" and ?m = "replay_member (4, 2, 3)"
  let ?r = "arm_replay (4, 2, 3) 5 ?start"
  have a: "scheduled_z ?r = [(?m, 5)]" "inflight_z ?r = []" by (simp_all add: arm_replay_def zadd_def del: replay_member.simps)
  have dm: "lapsed_members 10 ?r = []" "due_members 10 ?r = [?m]"
    by (simp_all add: zrange_due_def a claim_budget_def del: replay_member.simps)
  have e: "zrange_due claim_budget 10 [(?m, 5)] = [?m]"
    by (simp add: zrange_due_def claim_budget_def del: replay_member.simps)
  have p: "replay_parse ?m = Some (4, 2, 3)" by (rule replay_parse_member) simp
  have z: "scheduled_z (snd (claim_ready 10 ?r)) = []" "inflight_z (snd (claim_ready 10 ?r)) = [(?m, 70)]"
    unfolding claim_ready_eq dm
    by (simp_all add: a e p zadd_def zrem_def claim_ttl_seconds_def del: replay_member.simps)
  show ?thesis
    by (rule armed_replay_survives [of ?start "(4, 2, 3)" "[OpClaim 10]" _ 5])
      (simp_all add: redis_ok_def zset_ok_def z zscore_def zcard_def del: replay_member.simps)
qed

end
