(* ===== verification/Dispatcher.thy ===== *)
theory Dispatcher
  imports Dependency_Resolver Retry_Queue
begin

text \<open>
  \<open>workers/dispatcher.py\<close>: one run of a job (\<open>_run_job\<close>) and the consumer that hands jobs
  to background tasks (\<open>JobDispatcherConsumer\<close>). A run is two transactions with the
  processor in between; \<open>begin_run\<close> and \<open>finish_run\<close> are the two halves, so that anything
  may commit between them.
\<close>

section \<open>The processor under its deadline\<close>

text \<open>
  How the processor's coroutine ends: it returns, it raises a \<open>TimeoutError\<close> of its own, it
  raises something else, or the deadline cancels it.
\<close>

datatype processor_end =
    PReturns dict
  | PRaisesTimeout string
  | PRaises string
  | PCancelledByDeadline

datatype run_error = JobExecutionTimeout string | ProcessorError string

definition execution_timeout_seconds :: "settings \<Rightarrow> string \<Rightarrow> rat" where
  "execution_timeout_seconds cfg ty = job_execution_timeout_seconds cfg"

definition execute_processor ::
    "settings \<Rightarrow> rat \<Rightarrow> processor_end \<Rightarrow> bool \<Rightarrow> run_error + dict" where
  "execute_processor cfg timeout pend expired =
     (let overrun = JobExecutionTimeout
            (''job exceeded the '' @ float_repr cfg timeout @ ''s execution deadline'')
      in case pend of
           PReturns res \<Rightarrow> Inr res
         | PCancelledByDeadline \<Rightarrow> Inl overrun
         | PRaisesTimeout e \<Rightarrow> if expired then Inl overrun else Inl (ProcessorError e)
         | PRaises e \<Rightarrow> Inl (ProcessorError e))"

section \<open>First transaction: load, hold or claim\<close>

definition pause_recheck_seconds :: rat where
  "pause_recheck_seconds = 10"

record run_ctx =
  rc_job_id :: uuid
  rc_payload :: dict
  rc_job_type :: string
  rc_user_id :: uuid
  rc_tenant_id :: uuid
  rc_retry_count :: int
  rc_max_attempts :: int
  rc_prior_error :: "string option"

datatype begin_outcome = NotFound | NotPending | HeldBy uuid | LostClaim | Claimed run_ctx

definition run_ctx_of :: "job \<Rightarrow> run_ctx" where
  "run_ctx_of j = \<lparr>
     rc_job_id = j_id j,
     rc_payload = (case j_payload j of None \<Rightarrow> [] | Some p \<Rightarrow> p),
     rc_job_type = j_type j, rc_user_id = j_user_id j, rc_tenant_id = j_tenant_id j,
     rc_retry_count = j_retry_count j, rc_max_attempts = j_max_attempts j,
     rc_prior_error = j_error_message j\<rparr>"

text \<open>
  The transaction reads the row and the pauses, and then updates; other transactions may commit in
  between. \<open>seen\<close> is the database it read, \<open>d\<close> the one its conditional update meets.
\<close>

definition begin_run :: "time \<Rightarrow> pause_flags \<Rightarrow> uuid \<Rightarrow> db \<Rightarrow> db \<Rightarrow> begin_outcome \<times> db" where
  "begin_run now flags i seen d =
     (case job_by_id seen i of
        None \<Rightarrow> (NotFound, d)
      | Some j \<Rightarrow>
          if j_status j \<noteq> PENDING then (NotPending, d)
          else (case find_blocking_pause flags i seen of
            Some n \<Rightarrow> (HeldBy n, d)
          | None \<Rightarrow>
              (let (claimed, d1) = claim_for_running now i d
               in if claimed then (Claimed (run_ctx_of j), d1) else (LostClaim, d1))))"

text \<open>\<open>push_ok\<close> says whether Redis takes the write; the code logs a failed one.\<close>

definition try_push_delayed :: "bool \<Rightarrow> time \<Rightarrow> string \<Rightarrow> rat \<Rightarrow> job_redis \<Rightarrow> job_redis" where
  "try_push_delayed push_ok now job_id delay r =
     (if push_ok then push_delayed now job_id delay r else r)"

definition hold_run :: "bool \<Rightarrow> time \<Rightarrow> string \<Rightarrow> job_redis \<Rightarrow> job_redis" where
  "hold_run push_ok now job_id r = try_push_delayed push_ok now job_id pause_recheck_seconds r"

section \<open>Second transaction: the outcome\<close>

definition dead_letter_audit :: "run_ctx \<Rightarrow> dict \<Rightarrow> db \<Rightarrow> db" where
  "dead_letter_audit rc extra_data d =
     audit_log_write ''job.dead_letter'' (rc_tenant_id rc)
       (no_args\<lparr>aa_job_id := Some (rc_job_id rc), aa_extra_data := Some extra_data\<rparr>) d"

text \<open>The strategy map: every member of \<open>JobType\<close> has a processor.\<close>

definition processors :: "(job_type \<times> string) list" where
  "processors =
     [(BULK_API_SYNC, ''async_tasks.process_bulk_api_sync''),
      (CSV_UPLOAD, ''thread_adapters.process_csv_upload''),
      (DOC_ANALYSIS, ''cpu_processors.process_doc_analysis''),
      (REPORT_GEN, ''cpu_processors.process_report_gen'')]"

definition processor_for :: "string \<Rightarrow> string option" where
  "processor_for ty = (case parse_job_type ty of None \<Rightarrow> None | Some t \<Rightarrow> map_of processors t)"

definition finish_unregistered :: "settings \<Rightarrow> time \<Rightarrow> run_ctx \<Rightarrow> db \<Rightarrow> db" where
  "finish_unregistered cfg now rc d =
     (let error = ''No processor for type: '' @ rc_job_type rc
      in dead_letter_audit rc [(''error'', JStr error), (''reason'', JStr ''unregistered_type'')]
           (snd (update_status cfg now (rc_job_id rc) DEAD_LETTER
              [SetRetryCount (rc_retry_count rc), SetErrorMessage (Some error)] None None d)))"

definition finish_timeout :: "settings \<Rightarrow> time \<Rightarrow> run_ctx \<Rightarrow> string \<Rightarrow> db \<Rightarrow> db" where
  "finish_timeout cfg now rc exc d =
     (let error = ''Execution timed out: '' @ exc
      in dead_letter_audit rc
           [(''error'', JStr exc), (''reason'', JStr ''execution_timeout''),
            (''timeout_seconds'', JFloat (execution_timeout_seconds cfg (rc_job_type rc))),
            (''retry_count'', JInt (rc_retry_count rc))]
           (snd (update_status cfg now (rc_job_id rc) DEAD_LETTER
              [SetErrorMessage (Some error), SetDeadLetteredBy (Some ''execution_timeout'')]
              (Some error) None d)))"

subsection \<open>The retry decision\<close>

text \<open>
  The answer of \<open>retry_policy.decide_retry\<close>; \<open>None\<close> is any exception of the consultation.
\<close>

record retry_decision =
  rd_dead_letter_now :: bool
  rd_backoff_seconds :: int
  rd_reasoning :: string

record retry_plan =
  rp_delay :: rat
  rp_llm_dead_lettered :: bool
  rp_llm_reasoning :: "string option"

text \<open>\<open>base ** n\<close> for an integer exponent.\<close>

definition power_seconds :: "rat \<Rightarrow> int \<Rightarrow> rat" where
  "power_seconds b n = (if 0 \<le> n then b ^ nat n else inverse (b ^ nat (- n)))"

definition consult_policy :: "settings \<Rightarrow> int \<Rightarrow> int \<Rightarrow> bool" where
  "consult_policy cfg new_retry_count max_attempts \<longleftrightarrow>
     new_retry_count < max_attempts \<and> llm_retry_policy_enabled cfg
     \<and> llm_retry_policy_min_retry_count cfg \<le> new_retry_count"

definition plan_retry :: "settings \<Rightarrow> run_ctx \<Rightarrow> retry_decision option \<Rightarrow> retry_plan" where
  "plan_retry cfg rc decision =
     (let n = rc_retry_count rc + 1;
          deterministic = power_seconds (job_retry_backoff_base cfg) n;
          fallback = \<lparr>rp_delay = deterministic, rp_llm_dead_lettered = False, rp_llm_reasoning = None\<rparr>
      in if consult_policy cfg n (rc_max_attempts rc)
         then (case decision of
             None \<Rightarrow> fallback
           | Some dec \<Rightarrow>
               if rd_dead_letter_now dec
               then \<lparr>rp_delay = deterministic, rp_llm_dead_lettered = True,
                     rp_llm_reasoning = Some (rd_reasoning dec)\<rparr>
               else \<lparr>rp_delay = of_int (rd_backoff_seconds dec), rp_llm_dead_lettered = False,
                     rp_llm_reasoning = Some (rd_reasoning dec)\<rparr>)
         else fallback)"

text \<open>The digits of \<open>f"{x:.0f}"\<close>: nearest integer, ties to even.\<close>

definition round_half_even :: "rat \<Rightarrow> int" where
  "round_half_even q =
     (let f = \<lfloor>q\<rfloor>; r = q - of_int f
      in if r < 1/2 then f else if r > 1/2 then f + 1 else if even f then f else f + 1)"

definition retry_event_payload :: "run_ctx \<Rightarrow> int \<Rightarrow> rat \<Rightarrow> string \<Rightarrow> dict" where
  "retry_event_payload rc n delay exc =
     [(''event'', JStr ''job.failed''),
      (''tenant_id'', juuid (rc_tenant_id rc)),
      (''job_id'', juuid (rc_job_id rc)),
      (''user_id'', juuid (rc_user_id rc)),
      (''job_type'', JStr (rc_job_type rc)),
      (''error'', JStr exc),
      (''message'', JStr (''Retrying in '' @ show_int (round_half_even delay) @ ''s (attempt ''
          @ show_int n @ '' of '' @ show_int (rc_max_attempts rc) @ '')'')),
      (''retry_count'', JInt n),
      (''dead_lettered'', JBool False)]"

definition finish_retry :: "settings \<Rightarrow> time \<Rightarrow> run_ctx \<Rightarrow> int \<Rightarrow> rat \<Rightarrow> string \<Rightarrow> db \<Rightarrow> db" where
  "finish_retry cfg now rc n delay exc d =
     outbox_add now (rc_tenant_id rc) (kafka_topic_job_failed cfg)
       (partition_key (rc_tenant_id rc) (rc_user_id rc)) (retry_event_payload rc n delay exc)
       (snd (update_status cfg now (rc_job_id rc) PENDING
          [SetRetryCount n, SetErrorMessage (Some exc)] None None d))"

definition finish_exhausted ::
    "settings \<Rightarrow> time \<Rightarrow> run_ctx \<Rightarrow> int \<Rightarrow> retry_plan \<Rightarrow> string \<Rightarrow> db \<Rightarrow> db" where
  "finish_exhausted cfg now rc n plan exc d =
     (let reasoning = jstr_opt (rp_llm_reasoning plan);
          reasoning_text = (case rp_llm_reasoning plan of None \<Rightarrow> ''None'' | Some t \<Rightarrow> t);
          job_extra = [SetRetryCount n, SetErrorMessage (Some exc)] @
            (if rp_llm_dead_lettered plan then [SetDeadLetteredBy (Some ''llm_retry_policy'')] else []);
          message = (if rp_llm_dead_lettered plan then ''LLM dead-lettered: '' @ reasoning_text
                     else ''Job exhausted after '' @ show_int n @ '' attempts: '' @ exc);
          dlq_extra = [(''error'', JStr exc), (''retry_count'', JInt n)] @
            (if rp_llm_dead_lettered plan
             then [(''dead_lettered_by'', JStr ''llm_retry_policy''), (''reasoning'', reasoning)]
             else [])
      in dead_letter_audit rc dlq_extra
           (snd (update_status cfg now (rc_job_id rc) DEAD_LETTER job_extra (Some message) None d)))"

definition finish_failure ::
    "settings \<Rightarrow> bool \<Rightarrow> time \<Rightarrow> run_ctx \<Rightarrow> retry_decision option \<Rightarrow> string \<Rightarrow> db \<times> job_redis
      \<Rightarrow> db \<times> job_redis" where
  "finish_failure cfg push_ok now rc decision exc s =
     (let n = rc_retry_count rc + 1;
          plan = plan_retry cfg rc decision
      in if n < rc_max_attempts rc \<and> \<not> rp_llm_dead_lettered plan
         then (finish_retry cfg now rc n (rp_delay plan) exc (fst s),
               try_push_delayed push_ok now (uuid_str (rc_job_id rc)) (rp_delay plan) (snd s))
         else (finish_exhausted cfg now rc n plan exc (fst s), snd s))"

definition finish_success :: "settings \<Rightarrow> time \<Rightarrow> run_ctx \<Rightarrow> dict \<Rightarrow> db \<Rightarrow> db" where
  "finish_success cfg now rc res d =
     audit_log_write ''job.completed'' (rc_tenant_id rc)
       (no_args\<lparr>aa_job_id := Some (rc_job_id rc),
          aa_extra_data := Some [(''type'', JStr (rc_job_type rc)),
            (''retry_count'', JInt (rc_retry_count rc))]\<rparr>)
       (snd (update_status cfg now (rc_job_id rc) COMPLETED [SetResult (Some res)] None None d))"

subsection \<open>The whole run\<close>

text \<open>
  The environment of a run: the processors (given the payload without the trace carrier), how
  the deadline stood, the answer of the retry policy, and whether Redis takes writes.
\<close>

record run_env =
  re_process :: "string \<Rightarrow> dict \<Rightarrow> processor_end"
  re_expired :: bool
  re_decision :: "retry_decision option"
  re_push_ok :: bool

definition finish_run ::
    "settings \<Rightarrow> time \<Rightarrow> run_env \<Rightarrow> run_ctx \<Rightarrow> db \<times> job_redis \<Rightarrow> db \<times> job_redis" where
  "finish_run cfg now env rc s =
     (let payload = drop_key ''__traceparent'' (rc_payload rc)
      in case processor_for (rc_job_type rc) of
           None \<Rightarrow> (finish_unregistered cfg now rc (fst s), snd s)
         | Some p \<Rightarrow>
             (case execute_processor cfg (execution_timeout_seconds cfg (rc_job_type rc))
                     (re_process env p payload) (re_expired env) of
                Inr res \<Rightarrow> (finish_success cfg now rc res (fst s), snd s)
              | Inl (JobExecutionTimeout exc) \<Rightarrow> (finish_timeout cfg now rc exc (fst s), snd s)
              | Inl (ProcessorError exc) \<Rightarrow>
                  finish_failure cfg (re_push_ok env) now rc (re_decision env) exc s))"

text \<open>A run that nothing interrupts; a job id that does not parse raises \<open>ValueError\<close>.\<close>

definition run_job ::
    "settings \<Rightarrow> time \<Rightarrow> time \<Rightarrow> pause_flags \<Rightarrow> run_env \<Rightarrow> string \<Rightarrow> db \<times> job_redis
      \<Rightarrow> app_error + (db \<times> job_redis)" where
  "run_job cfg t0 t1 flags env job_id s =
     (case uuid_parse job_id of
        None \<Rightarrow> Inl ValueError
      | Some i \<Rightarrow>
          (case begin_run t0 flags i (fst s) (fst s) of
             (HeldBy _, d1) \<Rightarrow> Inr (d1, hold_run (re_push_ok env) t0 job_id (snd s))
           | (Claimed rc, d1) \<Rightarrow> Inr (finish_run cfg t1 env rc (d1, snd s))
           | (_, d1) \<Rightarrow> Inr (d1, snd s)))"

section \<open>The consumer\<close>

definition max_concurrent_jobs :: nat where
  "max_concurrent_jobs = 10"

definition max_dispatch_backlog :: nat where
  "max_dispatch_backlog = max_concurrent_jobs * 10"

record task =
  t_id :: nat
  t_job :: json
  t_has_slot :: bool

record dispatcher =
  in_flight :: "task list"
  in_flight_job_ids :: "json list"
  next_task :: nat

definition new_dispatcher :: dispatcher where
  "new_dispatcher = \<lparr>in_flight = [], in_flight_job_ids = [], next_task = 0\<rparr>"

definition slots_taken :: "dispatcher \<Rightarrow> nat" where
  "slots_taken c = length (filter t_has_slot (in_flight c))"

text \<open>
  \<open>handle_message\<close>: a list or a dictionary as job id is not hashable. The raised error
  leaves the offset uncommitted.
\<close>

definition handle_message :: "json \<Rightarrow> dispatcher \<Rightarrow> app_error + dispatcher" where
  "handle_message value c =
     (let job_id = (case value of JObj m \<Rightarrow> jget m ''job_id'' | _ \<Rightarrow> JNull)
      in if \<not> truthy job_id then Inr c
         else if max_dispatch_backlog \<le> length (in_flight c) then Inl DispatchBacklogFull
         else if (case job_id of JArr _ \<Rightarrow> True | JObj _ \<Rightarrow> True | _ \<Rightarrow> False) then Inl TypeError
         else Inr (c\<lparr>in_flight_job_ids := List.insert job_id (in_flight_job_ids c),
                     in_flight := in_flight c @
                       [\<lparr>t_id = next_task c, t_job = job_id, t_has_slot = False\<rparr>],
                     next_task := Suc (next_task c)\<rparr>))"

text \<open>A queued task takes a free slot of the semaphore.\<close>

definition acquire_slot :: "nat \<Rightarrow> dispatcher \<Rightarrow> dispatcher" where
  "acquire_slot t c =
     (if slots_taken c < max_concurrent_jobs
      then c\<lparr>in_flight := update_where (\<lambda>k. t_id k = t \<and> \<not> t_has_slot k)
               (\<lambda>k. k\<lparr>t_has_slot := True\<rparr>) (in_flight c)\<rparr>
      else c)"

text \<open>
  The end of a task, cancelled while queued or after its run: the id is discarded, the slot
  goes back with the task.
\<close>

definition end_task :: "nat \<Rightarrow> dispatcher \<Rightarrow> dispatcher" where
  "end_task t c =
     (case get_by t_id t (in_flight c) of
        None \<Rightarrow> c
      | Some k \<Rightarrow> c\<lparr>in_flight_job_ids := removeAll (t_job k) (in_flight_job_ids c),
                    in_flight := filter (\<lambda>k. t_id k \<noteq> t) (in_flight c)\<rparr>)"

definition force_dead_letter :: "settings \<Rightarrow> time \<Rightarrow> json \<Rightarrow> string \<Rightarrow> db \<Rightarrow> app_error + db" where
  "force_dead_letter cfg now job_id error d =
     (case job_id of
        JStr s \<Rightarrow>
          (case uuid_parse s of
             None \<Rightarrow> Inr d
           | Some i \<Rightarrow>
               (case job_by_id d i of
                  None \<Rightarrow> Inr d
                | Some j \<Rightarrow>
                    if terminal (j_status j) then Inr d
                    else Inr (audit_log_write ''job.dead_letter'' (j_tenant_id j)
                      (no_args\<lparr>aa_job_id := Some i,
                         aa_extra_data := Some [(''error'', JStr error),
                           (''reason'', JStr ''dispatcher_escape'')]\<rparr>)
                      (snd (update_status cfg now i DEAD_LETTER
                         [SetErrorMessage (Some (''Dispatcher escape: '' @ error))] None None d)))))
      | _ \<Rightarrow> Inl AttributeError)"

text \<open>How a run ends in \<open>_run_and_release\<close>: it returned, or it raised.\<close>

definition run_and_release ::
    "settings \<Rightarrow> time \<Rightarrow> json \<Rightarrow> string option \<Rightarrow> nat \<Rightarrow> dispatcher \<times> db \<Rightarrow> dispatcher \<times> db" where
  "run_and_release cfg now job_id escaped t s =
     (end_task t (fst s),
      case escaped of
        None \<Rightarrow> snd s
      | Some error \<Rightarrow>
          (case force_dead_letter cfg now job_id error (snd s) of Inl _ \<Rightarrow> snd s | Inr d \<Rightarrow> d))"

section \<open>Exactly one delivery runs a job\<close>

definition claims :: "begin_outcome \<Rightarrow> bool" where
  "claims b \<longleftrightarrow> (case b of Claimed _ \<Rightarrow> True | _ \<Rightarrow> False)"

text \<open>One delivery of a \<open>job.submitted\<close> message, up to the claim.\<close>

definition delivery :: "time \<Rightarrow> pause_flags \<Rightarrow> db \<Rightarrow> uuid \<Rightarrow> db \<Rightarrow> bool \<times> db" where
  "delivery now flags seen i d = (claims (fst (begin_run now flags i seen d)), snd (begin_run now flags i seen d))"

definition runnable :: "pause_flags \<Rightarrow> db \<Rightarrow> uuid \<Rightarrow> bool" where
  "runnable flags d i \<longleftrightarrow> pending d i \<and> find_blocking_pause flags i d = None"

lemma claim_simps [simp]:
  "job_dependencies (snd (claim_for_running now i d)) = job_dependencies d"
  "outbox_events (snd (claim_for_running now i d)) = outbox_events d"
  by (simp_all add: claim_for_running_def Let_def)

lemma begin_run_ready:
  assumes "runnable flags seen i"
  shows "\<exists>j. job_by_id seen i = Some j \<and> j_status j = PENDING
    \<and> begin_run now flags i seen d = (if fst (claim_for_running now i d) then Claimed (run_ctx_of j) else LostClaim, snd (claim_for_running now i d))"
proof -
  obtain j where "job_by_id seen i = Some j" "j_status j = PENDING"
    using assms by (auto simp: runnable_def job_is_def split: option.splits)
  then show ?thesis using assms by (simp add: begin_run_def runnable_def Let_def case_prod_beta)
qed

lemma begin_run_runnable:
  assumes "wf_db d" "runnable flags d i"
  shows "\<exists>j. job_by_id d i = Some j \<and> j_status j = PENDING
    \<and> begin_run now flags i d d = (Claimed (run_ctx_of j), snd (claim_for_running now i d))"
  using begin_run_ready [OF assms(2), of now d] assms claim.cas_wins by (auto simp: runnable_def)

lemma begin_run_not_ready:
  "\<not> runnable flags seen i \<Longrightarrow> \<not> claims (fst (begin_run now flags i seen d)) \<and> snd (begin_run now flags i seen d) = d"
  by (auto simp: begin_run_def runnable_def job_is_def claims_def split: option.splits)

lemma delivery_eq:
  "delivery now flags seen i d = (if runnable flags seen i then claim_for_running now i d else (False, d))"
  using begin_run_ready [of flags seen i now d] begin_run_not_ready [of flags seen i now d]
  by (auto simp: delivery_def claims_def prod_eq_iff split: if_splits)

text \<open>What a delivery relies on is the update: it wins exactly if the job is pending when it gets there.\<close>

interpretation delivery: compare_and_set "delivery now flags seen" "\<lambda>d i. runnable flags seen i \<and> pending d i" wf_db for now flags seen
proof unfold_locales
  fix d :: db and i k assume wf: "wf_db d"
  show "fst (delivery now flags seen i d) = (runnable flags seen i \<and> pending d i)" using wf claim.cas_wins by (simp add: delivery_eq)
  show "\<not> (runnable flags seen i \<and> pending (snd (delivery now flags seen i d)) i)"
    using claim.cas_disarms [OF wf] by (auto simp: delivery_eq)
  show "wf_db (snd (delivery now flags seen i d))" using wf claim.cas_inv by (simp add: delivery_eq)
  show "\<not> (runnable flags seen i \<and> pending d i) \<Longrightarrow> snd (delivery now flags seen i d) = d"
    using wf claim.cas_loses by (auto simp: delivery_eq)
  show "(runnable flags seen k \<and> pending (snd (delivery now flags seen i d)) k) = (runnable flags seen k \<and> pending d k)" if "k \<noteq> i"
    using claim.cas_frame [OF wf that] by (simp add: delivery_eq)
qed

text \<open>
  Deliveries in the order of their updates, each with whatever it had read, and transactions of others
  between them; the result lists the jobs claimed.
\<close>

datatype delivery_step = Deliver time pause_flags uuid db | Elsewhere "db \<Rightarrow> db"

fun run_deliveries :: "delivery_step list \<Rightarrow> db \<Rightarrow> uuid list" where
  "run_deliveries [] d = []"
| "run_deliveries (Deliver now flags i seen # xs) d =
     (case begin_run now flags i seen d of (b, d') \<Rightarrow> (if claims b then [i] else []) @ run_deliveries xs d')"
| "run_deliveries (Elsewhere f # xs) d = run_deliveries xs (f d)"

definition never_requeues :: "uuid \<Rightarrow> (db \<Rightarrow> db) \<Rightarrow> bool" where
  "never_requeues i f \<longleftrightarrow> (\<forall>d. wf_db d \<longrightarrow> wf_db (f d) \<and> (pending (f d) i \<longrightarrow> pending d i))"

lemma run_deliveries_Deliver:
  "run_deliveries (Deliver now flags k seen # xs) d =
     (if fst (delivery now flags seen k d) then [k] else []) @ run_deliveries xs (snd (delivery now flags seen k d))"
  by (simp add: delivery_def case_prod_beta)

lemma claimed_no_more:
  assumes "wf_db d" "\<not> pending d i" "\<And>f. Elsewhere f \<in> set xs \<Longrightarrow> never_requeues i f"
  shows "count_list (run_deliveries xs d) i = 0"
  using assms
proof (induction xs arbitrary: d)
  case (Cons x xs)
  show ?case
  proof (cases x)
    case (Deliver now flags k seen)
    let ?d = "snd (delivery now flags seen k d)"
    have "wf_db ?d" using Cons.prems(1) by (rule delivery.cas_inv)
    moreover have "\<not> pending ?d i"
      using Cons.prems(1,2) claim.cas_disarms claim.cas_frame by (cases "k = i") (auto simp: delivery_eq)
    ultimately have "count_list (run_deliveries xs ?d) i = 0" using Cons.prems(3) by (intro Cons.IH) auto
    moreover have "k = i \<Longrightarrow> \<not> fst (delivery now flags seen k d)" using Cons.prems(1,2) delivery.cas_wins by simp
    ultimately show ?thesis by (auto simp: Deliver run_deliveries_Deliver simp del: run_deliveries.simps(2))
  next
    case (Elsewhere f)
    then have "never_requeues i f" using Cons.prems(3) by simp
    then have "wf_db (f d)" "\<not> pending (f d) i" using Cons.prems(1,2) by (auto simp: never_requeues_def)
    then have "count_list (run_deliveries xs (f d)) i = 0" using Cons.prems(3) by (intro Cons.IH) auto
    then show ?thesis by (simp add: Elsewhere)
  qed
qed simp

lemma claimed_at_most_once:
  assumes "wf_db d" "\<And>f. Elsewhere f \<in> set xs \<Longrightarrow> never_requeues i f"
  shows "count_list (run_deliveries xs d) i \<le> 1"
  using assms
proof (induction xs arbitrary: d)
  case (Cons x xs)
  show ?case
  proof (cases x)
    case (Deliver now flags k seen)
    let ?d = "snd (delivery now flags seen k d)"
    have wf: "wf_db ?d" using Cons.prems(1) by (rule delivery.cas_inv)
    then have IH: "count_list (run_deliveries xs ?d) i \<le> 1" using Cons.prems(2) by (intro Cons.IH) auto
    show ?thesis
    proof (cases "k = i \<and> fst (delivery now flags seen k d)")
      case True
      then have "\<not> pending ?d i" using claim.cas_disarms [OF Cons.prems(1)] by (auto simp: delivery_eq split: if_splits)
      then have "count_list (run_deliveries xs ?d) i = 0" using claimed_no_more [OF wf] Cons.prems(2) by simp
      then show ?thesis using True by (simp add: Deliver run_deliveries_Deliver del: run_deliveries.simps(2))
    next
      case False
      then show ?thesis using IH by (auto simp: Deliver run_deliveries_Deliver simp del: run_deliveries.simps(2))
    qed
  next
    case (Elsewhere f)
    then have "never_requeues i f" using Cons.prems(2) by simp
    then have "wf_db (f d)" using Cons.prems(1) by (simp add: never_requeues_def)
    then have "count_list (run_deliveries xs (f d)) i \<le> 1" using Cons.prems(2) by (intro Cons.IH) auto
    then show ?thesis by (simp add: Elsewhere)
  qed
qed simp

lemma never_claimed:
  "\<forall>now flags seen. Deliver now flags i seen \<in> set xs \<longrightarrow> \<not> runnable flags seen i \<Longrightarrow> count_list (run_deliveries xs d) i = 0"
proof (induction xs arbitrary: d)
  case (Cons x xs)
  show ?case
  proof (cases x)
    case (Deliver now flags k seen)
    then show ?thesis using Cons by (auto simp: run_deliveries_Deliver delivery_eq simp del: run_deliveries.simps(2))
  next
    case (Elsewhere f)
    then show ?thesis using Cons by simp
  qed
qed simp

lemma claimed_once:
  assumes "wf_db d" "pending d i" "\<And>f. Elsewhere f \<notin> set xs"
    "Deliver now flags i seen \<in> set xs" "runnable flags seen i"
  shows "count_list (run_deliveries xs d) i \<noteq> 0"
  using assms
proof (induction xs arbitrary: d)
  case (Cons x xs)
  obtain t fl k sn where x: "x = Deliver t fl k sn" using Cons.prems(3) by (cases x) auto
  let ?d = "snd (delivery t fl sn k d)"
  show ?case
  proof (cases "k = i \<and> runnable fl sn i")
    case True
    then have "fst (delivery t fl sn k d)" using Cons.prems(1,2) delivery.cas_wins by simp
    then show ?thesis using True by (simp add: x run_deliveries_Deliver del: run_deliveries.simps(2))
  next
    case False
    have "pending ?d i" using Cons.prems(1,2) False claim.cas_frame by (cases "k = i") (auto simp: delivery_eq)
    moreover have "Deliver now flags i seen \<in> set xs" using Cons.prems(4,5) False x by auto
    ultimately have "count_list (run_deliveries xs ?d) i \<noteq> 0"
      using Cons.prems(3,5) delivery.cas_inv [OF Cons.prems(1)] by (intro Cons.IH) auto
    then show ?thesis by (simp add: x run_deliveries_Deliver del: run_deliveries.simps(2))
  qed
qed simp

section \<open>Invariants\<close>

lemma run_extra_plain [simp]:
  "names_started_at (SetRetryCount n # xs) \<longleftrightarrow> names_started_at xs"
  "names_started_at (SetErrorMessage m # xs) \<longleftrightarrow> names_started_at xs"
  "names_started_at (SetDeadLetteredBy b # xs) \<longleftrightarrow> names_started_at xs"
  "names_started_at (SetResult r # xs) \<longleftrightarrow> names_started_at xs"
  "names_completed_at (SetRetryCount n # xs) \<longleftrightarrow> names_completed_at xs"
  "names_completed_at (SetErrorMessage m # xs) \<longleftrightarrow> names_completed_at xs"
  "names_completed_at (SetDeadLetteredBy b # xs) \<longleftrightarrow> names_completed_at xs"
  "names_completed_at (SetResult r # xs) \<longleftrightarrow> names_completed_at xs"
  by (simp_all add: names_started_at_def names_completed_at_def)

lemma db_inv_begin_run [platform_intros]:
  "db_inv cfg d \<Longrightarrow> db_inv cfg (snd (begin_run now flags i seen d))"
  by (auto simp: begin_run_def Let_def case_prod_beta db_inv_claim split: option.splits)

lemma db_inv_finish_run [platform_intros]:
  "db_inv cfg (fst s) \<Longrightarrow> db_inv cfg (fst (finish_run cfg now env rc s))"
  unfolding finish_run_def Let_def finish_unregistered_def finish_success_def finish_timeout_def
    finish_failure_def finish_retry_def finish_exhausted_def dead_letter_audit_def
  by (auto split: option.split sum.split run_error.split
      intro!: db_inv_audit_log_write db_inv_outbox_add db_inv_update_status)

lemma db_inv_force_dead_letter [platform_intros]:
  "db_inv cfg d \<Longrightarrow> force_dead_letter cfg now v err d = Inr d' \<Longrightarrow> db_inv cfg d'"
  by (auto simp: force_dead_letter_def split: json.splits option.splits if_splits
      intro!: db_inv_audit_log_write db_inv_update_status)

section \<open>How a run settles its job\<close>

lemma claimed_row:
  assumes "wf_db d" "runnable flags d i" "job_by_id d i = Some j"
  shows "job_by_id (snd (claim_for_running now i d)) i =
    Some (j\<lparr>j_status := RUNNING, j_started_at := Some now, j_updated_at := now\<rparr>)"
proof -
  have "j_status j = PENDING" "j_id j = i"
    using assms(2,3) get_by_SomeD [OF assms(3)] by (auto simp: runnable_def job_is_def)
  then show ?thesis unfolding claim_is_cas by (simp add: job_by_id_cas_write assms(3))
qed

lemmas finish_defs =
  finish_unregistered_def finish_success_def finish_timeout_def finish_failure_def
  finish_retry_def finish_exhausted_def dead_letter_audit_def

text \<open>
  What the second transaction leaves behind, by how the processor ended. \<open>rc\<close> is what the
  first transaction read, \<open>j\<close> the row as it is now.
\<close>

lemma finish_run_row:
  assumes wf: "wf_db (fst s)" and j: "job_by_id (fst s) (rc_job_id rc) = Some j"
  shows "\<exists>j'. job_by_id (fst (finish_run cfg now env rc s)) (rc_job_id rc) = Some j' \<and> same_identity j j'
    \<and> (case processor_for (rc_job_type rc) of
         None \<Rightarrow> j_status j' = DEAD_LETTER
       | Some p \<Rightarrow>
           (case execute_processor cfg (execution_timeout_seconds cfg (rc_job_type rc))
              (re_process env p (drop_key ''__traceparent'' (rc_payload rc))) (re_expired env) of
              Inr res \<Rightarrow> j_status j' = COMPLETED \<and> j_result j' = Some res
            | Inl (JobExecutionTimeout exc) \<Rightarrow>
                j_status j' = DEAD_LETTER \<and> j_retry_count j' = j_retry_count j
                \<and> j_dead_lettered_by j' = Some ''execution_timeout''
            | Inl (ProcessorError exc) \<Rightarrow>
                j_retry_count j' = rc_retry_count rc + 1 \<and> j_error_message j' = Some exc
                \<and> j_status j' = (if rc_retry_count rc + 1 < rc_max_attempts rc
                    \<and> \<not> rp_llm_dead_lettered (plan_retry cfg rc (re_decision env))
                    then PENDING else DEAD_LETTER)))"
  using job_by_id_update_status_self [OF wf j]
  unfolding finish_run_def Let_def
  by (auto simp: finish_defs Let_def split: option.split sum.split run_error.split)
    (simp_all add: status_values_def Let_def)

text \<open>Consecutive runs of one job; \<open>envs\<close> says how each of them goes.\<close>

primrec run_times ::
    "settings \<Rightarrow> time \<Rightarrow> pause_flags \<Rightarrow> run_env list \<Rightarrow> uuid \<Rightarrow> db \<times> job_redis \<Rightarrow> app_error + (db \<times> job_redis)" where
  "run_times cfg now flags [] i s = Inr s"
| "run_times cfg now flags (env # envs) i s =
     (case run_job cfg now now flags env (uuid_str i) s of
        Inl e \<Rightarrow> Inl e
      | Inr s1 \<Rightarrow> run_times cfg now flags envs i s1)"

definition raises :: "run_env \<Rightarrow> bool" where
  "raises env \<longleftrightarrow> (\<forall>p payload. \<exists>e. re_process env p payload = PRaises e)"

lemma raises_fails:
  assumes "raises env"
  obtains e where "execute_processor cfg t (re_process env q payload) x = Inl (ProcessorError e)"
proof -
  obtain e where "re_process env q payload = PRaises e" using assms by (auto simp: raises_def)
  then show thesis using that by (simp add: execute_processor_def)
qed

lemma wf_finish_run: "db_inv cfg (fst s) \<Longrightarrow> wf_db (fst (finish_run cfg now env rc s))"
  using db_inv_finish_run [of cfg s now env rc] by (simp add: db_inv_def)

lemma update_status_deps [simp]:
  "wf_db d \<Longrightarrow> job_dependencies (snd (update_status cfg now i st extra msg None d)) = job_dependencies d"
  using update_status_rows(3) [of d i] by (cases "job_by_id d i") (auto simp: update_status_missing)

lemma finish_run_deps:
  "wf_db (fst s) \<Longrightarrow> job_dependencies (fst (finish_run cfg now env rc s)) = job_dependencies (fst s)"
  unfolding finish_run_def Let_def
  by (auto simp: finish_defs Let_def split: option.split sum.split run_error.split)

lemma failing_run:
  assumes inv: "db_inv cfg (fst s)" and i: "valid_uuid i" and run: "runnable flags (fst s) i"
    and j: "job_by_id (fst s) i = Some j" and p: "processor_for (j_type j) \<noteq> None"
    and off: "\<not> llm_retry_policy_enabled cfg" and fails: "raises env"
  shows "\<exists>s' j'. run_job cfg now now flags env (uuid_str i) s = Inr s' \<and> db_inv cfg (fst s')
    \<and> job_by_id (fst s') i = Some j' \<and> same_identity j j' \<and> j_retry_count j' = j_retry_count j + 1
    \<and> j_status j' = (if j_retry_count j + 1 < j_max_attempts j then PENDING else DEAD_LETTER)
    \<and> find_blocking_pause flags i (fst s') = None"
proof -
  let ?rc = "run_ctx_of j" and ?d1 = "snd (claim_for_running now i (fst s))"
  let ?s' = "finish_run cfg now env ?rc (?d1, snd s)"
  have wf: "wf_db (fst s)" using inv by (simp add: db_inv_def)
  have ji: "j_id j = i" using get_by_SomeD [OF j] by simp
  have "run_job cfg now now flags env (uuid_str i) s = Inr ?s'"
    using begin_run_runnable [OF wf run, of now] j i by (auto simp: run_job_def uuid_parse_str_bounded)
  moreover have inv1: "db_inv cfg ?d1" using inv by (rule db_inv_claim)
  then have wf1: "wf_db ?d1" by (simp add: db_inv_def)
  moreover have "db_inv cfg (fst ?s')" using inv1 by (simp add: db_inv_finish_run)
  moreover have "find_blocking_pause flags i (fst ?s') = None"
    using run finish_run_deps [of "(?d1, snd s)"] wf1
      find_blocking_pause_deps_only [of "fst ?s'" "fst s" flags i] by (simp add: runnable_def)
  moreover obtain q where q: "processor_for (j_type j) = Some q" using p by auto
  moreover obtain e where e: "execute_processor cfg (execution_timeout_seconds cfg (j_type j))
      (re_process env q (drop_key ''__traceparent'' (rc_payload ?rc))) (re_expired env) = Inl (ProcessorError e)"
    by (rule raises_fails [OF fails])
  moreover have "rp_llm_dead_lettered (plan_retry cfg ?rc (re_decision env)) = False"
    using off by (simp add: plan_retry_def Let_def consult_policy_def)
  ultimately show ?thesis
    using finish_run_row [of "(?d1, snd s)" ?rc _ cfg now env] claimed_row [OF wf run j, of now] ji
    by (auto simp: run_ctx_of_def same_identity_def)
qed

lemma failing_runs:
  assumes "db_inv cfg (fst s)" "valid_uuid i" "runnable flags (fst s) i"
    and "job_by_id (fst s) i = Some j" "processor_for (j_type j) \<noteq> None"
    and "\<not> llm_retry_policy_enabled cfg" "\<forall>env \<in> set envs. raises env" "envs \<noteq> []"
    and "j_retry_count j + int (length envs) \<le> j_max_attempts j"
  shows "\<exists>s' j'. run_times cfg now flags envs i s = Inr s' \<and> job_by_id (fst s') i = Some j'
    \<and> j_retry_count j' = j_retry_count j + int (length envs)
    \<and> j_status j' = (if j_retry_count j + int (length envs) < j_max_attempts j then PENDING else DEAD_LETTER)"
  using assms
proof (induction envs arbitrary: s j)
  case (Cons env envs)
  obtain s1 j1 where step: "run_job cfg now now flags env (uuid_str i) s = Inr s1" "db_inv cfg (fst s1)"
      "job_by_id (fst s1) i = Some j1" "same_identity j j1" "j_retry_count j1 = j_retry_count j + 1"
      "j_status j1 = (if j_retry_count j + 1 < j_max_attempts j then PENDING else DEAD_LETTER)"
      "find_blocking_pause flags i (fst s1) = None"
    using failing_run [OF Cons.prems(1-6), of env now] Cons.prems(7) by auto
  show ?case
  proof (cases "envs = []")
    case True
    then show ?thesis using step by auto
  next
    case False
    then have "1 \<le> int (length envs)" by (cases envs) auto
    with Cons.prems(9) have "j_retry_count j + 1 < j_max_attempts j" by simp
    then have "runnable flags (fst s1) i" using step by (simp add: runnable_def job_is_def)
    with Cons.IH [OF step(2) Cons.prems(2) _ step(3) _ Cons.prems(6) _ False] step Cons.prems
    show ?thesis by (auto simp: same_identity_def)
  qed
qed simp

text \<open>
  Property C4. A job whose processor keeps failing is run at most \<open>max_attempts\<close> times: after
  \<open>k\<close> failing runs its retry count has grown by \<open>k\<close> and it is pending again, until the run
  that reaches the ceiling, which dead-letters it (retry policy off, no pause in between).
\<close>

theorem retries_bounded:
  assumes "db_inv cfg (fst s)" "valid_uuid i" "runnable flags (fst s) i"
    and "job_by_id (fst s) i = Some j" "processor_for (j_type j) \<noteq> None"
    and "\<not> llm_retry_policy_enabled cfg" "\<forall>env \<in> set envs. raises env"
    and "0 < length envs" "j_retry_count j + int (length envs) \<le> j_max_attempts j"
  shows "\<exists>s' j'. run_times cfg now flags envs i s = Inr s' \<and> job_by_id (fst s') i = Some j'
    \<and> j_retry_count j' = j_retry_count j + int (length envs)
    \<and> j_status j' = (if j_retry_count j + int (length envs) < j_max_attempts j then PENDING else DEAD_LETTER)"
  using failing_runs [OF assms(1-7) _ assms(9)] assms(8) by simp

definition boom_env :: run_env where
  "boom_env = \<lparr>re_process = (\<lambda>_ _. PRaises ''boom''), re_expired = False, re_decision = None,
     re_push_ok = True\<rparr>"

definition empty_redis :: job_redis where
  "empty_redis = \<lparr>delayed_z = [], scheduled_z = [], inflight_z = []\<rparr>"

lemma boom_env_simps [simp]:
  "raises boom_env" "re_process boom_env p q = PRaises ''boom''" "re_expired boom_env = False"
  "re_decision boom_env = None" "re_push_ok boom_env"
  by (simp_all add: boom_env_def raises_def)

lemma processor_for_csv [simp]: "processor_for ''csv_upload'' = Some ''thread_adapters.process_csv_upload''"
  by (simp add: processor_for_def parse_job_type_def processors_def)

lemma no_flags [simp]: "find_blocking_pause (PauseFlags []) i d = None"
  by (simp add: find_blocking_pause_def find_None_iff)

lemma default_llm_off [simp]: "\<not> llm_retry_policy_enabled default_settings"
  by (simp add: default_settings_def)

theorem retries_bounded_witness:
  "\<exists>s' j'. run_times default_settings 0 (PauseFlags []) [boom_env, boom_env, boom_env] 1
       (sample_db [sample_job 1 PENDING] [], empty_redis) = Inr s'
     \<and> job_by_id (fst s') 1 = Some j' \<and> j_retry_count j' = 3 \<and> j_status j' = DEAD_LETTER"
  using retries_bounded [of default_settings "(sample_db [sample_job 1 PENDING] [], empty_redis)" 1
      "PauseFlags []" "sample_job 1 PENDING" "[boom_env, boom_env, boom_env]" 0]
  by (simp add: db_inv_sample runnable_def job_is_def)

text \<open>
  Property C2. However many times a \<open>job.submitted\<close> message is delivered, in whatever order with
  deliveries for other jobs, and whatever each delivery read before it updates (two may both have read
  the job pending), at most one claims the job, as long as no other transaction makes it pending again
  meanwhile. With no other transactions, exactly one claims a pending job if some delivery had read it
  as pending and not held by a pause, and none otherwise.
\<close>

theorem delivery_exactly_once:
  assumes "wf_db d" "\<And>f. Elsewhere f \<in> set xs \<Longrightarrow> never_requeues i f"
  shows "count_list (run_deliveries xs d) i \<le> 1
    \<and> ((\<forall>f. Elsewhere f \<notin> set xs) \<longrightarrow> count_list (run_deliveries xs d) i =
         (if pending d i \<and> (\<exists>now flags seen. Deliver now flags i seen \<in> set xs \<and> runnable flags seen i) then 1 else 0))"
proof (intro conjI impI)
  show le: "count_list (run_deliveries xs d) i \<le> 1" using claimed_at_most_once [OF assms] .
  assume no: "\<forall>f. Elsewhere f \<notin> set xs"
  show "count_list (run_deliveries xs d) i =
      (if pending d i \<and> (\<exists>now flags seen. Deliver now flags i seen \<in> set xs \<and> runnable flags seen i) then 1 else 0)"
  proof (cases "pending d i \<and> (\<exists>now flags seen. Deliver now flags i seen \<in> set xs \<and> runnable flags seen i)")
    case True
    then have "count_list (run_deliveries xs d) i \<noteq> 0" using claimed_once [OF assms(1)] no by blast
    then show ?thesis using True le by simp
  next
    case False
    then show ?thesis using claimed_no_more [OF assms(1) _ assms(2)] never_claimed [of i xs d] by auto
  qed
qed

theorem delivery_exactly_once_witness:
  "let d = sample_db [sample_job 1 PENDING, sample_job 2 PENDING] []
   in count_list (run_deliveries [Deliver 5 (PauseFlags []) 1 d, Deliver 6 (PauseFlags []) 2 d, Deliver 7 (PauseFlags []) 1 d] d) 1 = 1"
proof -
  let ?d = "sample_db [sample_job 1 PENDING, sample_job 2 PENDING] []"
  have "wf_db ?d" using db_inv_sample [of "[sample_job 1 PENDING, sample_job 2 PENDING]" "[]"] by (simp add: db_inv_def)
  moreover have "pending ?d 1" "runnable (PauseFlags []) ?d 1" by (simp_all add: runnable_def job_is_def)
  ultimately show ?thesis
    using delivery_exactly_once [of ?d "[Deliver 5 (PauseFlags []) 1 ?d, Deliver 6 (PauseFlags []) 2 ?d, Deliver 7 (PauseFlags []) 1 ?d]" 1]
    by (auto simp: Let_def simp del: run_deliveries.simps)
qed

text \<open>
  Property C3. Once claimed, a run settles its job whatever the processor does: it completes
  with the result, it is dead-lettered for want of a processor or for overrunning the deadline
  (which costs no attempt), or the attempt is counted: the job is then pending again if it is below the
  ceiling and the retry policy, where one is enabled, does not dead-letter it, and is dead-lettered
  otherwise. It is never left running.
\<close>

theorem run_settles:
  assumes "wf_db (fst s)" and "job_by_id (fst s) (rc_job_id rc) = Some j"
  shows "\<exists>j'. job_by_id (fst (finish_run cfg now env rc s)) (rc_job_id rc) = Some j' \<and> same_identity j j'
    \<and> j_status j' \<noteq> RUNNING
    \<and> (case processor_for (rc_job_type rc) of
         None \<Rightarrow> j_status j' = DEAD_LETTER
       | Some p \<Rightarrow>
           (case execute_processor cfg (execution_timeout_seconds cfg (rc_job_type rc))
              (re_process env p (drop_key ''__traceparent'' (rc_payload rc))) (re_expired env) of
              Inr res \<Rightarrow> j_status j' = COMPLETED \<and> j_result j' = Some res
            | Inl (JobExecutionTimeout exc) \<Rightarrow>
                j_status j' = DEAD_LETTER \<and> j_retry_count j' = j_retry_count j
                \<and> j_dead_lettered_by j' = Some ''execution_timeout''
            | Inl (ProcessorError exc) \<Rightarrow>
                j_retry_count j' = rc_retry_count rc + 1 \<and> j_error_message j' = Some exc
                \<and> j_status j' = (if rc_retry_count rc + 1 < rc_max_attempts rc
                    \<and> \<not> rp_llm_dead_lettered (plan_retry cfg rc (re_decision env))
                    then PENDING else DEAD_LETTER)))"
  using finish_run_row [OF assms, of cfg now env]
  by (fastforce split: option.splits sum.splits run_error.splits if_splits)

theorem run_settles_witness:
  "\<exists>j'. job_by_id (fst (finish_run default_settings 9 boom_env (run_ctx_of (sample_job 1 PENDING))
       (sample_db [sample_job 1 PENDING] [], empty_redis))) 1 = Some j'
     \<and> j_status j' = PENDING \<and> j_retry_count j' = 1 \<and> j_error_message j' = Some ''boom''"
proof -
  have "wf_db (sample_db [sample_job 1 PENDING] [])"
    using db_inv_sample [of "[sample_job 1 PENDING]" "[]"] by (simp add: db_inv_def)
  then show ?thesis
    using run_settles [of "(sample_db [sample_job 1 PENDING] [], empty_redis)"
        "run_ctx_of (sample_job 1 PENDING)" "sample_job 1 PENDING" default_settings 9 boom_env]
    by (auto simp: run_ctx_of_def execute_processor_def plan_retry_def consult_policy_def Let_def)
qed

lemma finish_run_redis:
  assumes "processor_for (rc_job_type rc) \<noteq> None" "raises env" "re_push_ok env"
    and "rc_retry_count rc + 1 < rc_max_attempts rc"
    and "\<not> rp_llm_dead_lettered (plan_retry cfg rc (re_decision env))"
  shows "snd (finish_run cfg now env rc s) =
    push_delayed now (uuid_str (rc_job_id rc)) (rp_delay (plan_retry cfg rc (re_decision env))) (snd s)"
proof -
  obtain q where q: "processor_for (rc_job_type rc) = Some q" using assms(1) by auto
  obtain e where "execute_processor cfg (execution_timeout_seconds cfg (rc_job_type rc))
      (re_process env q (drop_key ''__traceparent'' (rc_payload rc))) (re_expired env) = Inl (ProcessorError e)"
    by (rule raises_fails [OF assms(2)])
  then show ?thesis
    using q assms(3-5) by (simp add: finish_run_def Let_def finish_failure_def try_push_delayed_def)
qed

lemma plan_retry_delay:
  assumes "0 \<le> job_retry_backoff_base cfg" "0 \<le> rc_retry_count rc"
    and "\<And>dec. decision = Some dec \<Longrightarrow> 0 \<le> rd_backoff_seconds dec \<and> rd_backoff_seconds dec \<le> 3600"
  shows "0 \<le> rp_delay (plan_retry cfg rc decision)
    \<and> (rp_delay (plan_retry cfg rc decision) = job_retry_backoff_base cfg ^ nat (rc_retry_count rc + 1)
       \<or> rp_delay (plan_retry cfg rc decision) \<le> 3600)"
  using assms by (auto simp: plan_retry_def Let_def power_seconds_def split: option.split)

text \<open>
  A failing run that leaves the job pending has armed its retry timer: the job is
  in the delayed set, due after a delay that is not negative and, when the retry policy chose
  it, at most an hour. \<open>dec\<close> is the policy's answer, whose back-off its schema bounds.
\<close>

theorem retry_is_armed:
  assumes "processor_for (rc_job_type rc) \<noteq> None" "raises env" "re_push_ok env"
    and "rc_retry_count rc + 1 < rc_max_attempts rc" "0 \<le> rc_retry_count rc"
    and "\<not> rp_llm_dead_lettered (plan_retry cfg rc (re_decision env))"
    and "0 \<le> job_retry_backoff_base cfg"
    and "\<And>dec. re_decision env = Some dec \<Longrightarrow> 0 \<le> rd_backoff_seconds dec \<and> rd_backoff_seconds dec \<le> 3600"
  shows "\<exists>delay. zscore (delayed_z (snd (finish_run cfg now env rc s))) (uuid_str (rc_job_id rc)) = Some (now + delay)
    \<and> 0 \<le> delay \<and> (delay = job_retry_backoff_base cfg ^ nat (rc_retry_count rc + 1) \<or> delay \<le> 3600)"
  using finish_run_redis [OF assms(1-4,6), of now s] plan_retry_delay [OF assms(7,5,8)]
  by (simp add: push_delayed_def zscore_zadd)

theorem retry_is_armed_witness:
  "\<exists>delay. zscore (delayed_z (snd (finish_run default_settings 9 boom_env
       (run_ctx_of (sample_job 1 PENDING)) (empty_db, empty_redis)))) (uuid_str 1) = Some (9 + delay)
     \<and> 0 \<le> delay \<and> (delay = 2 \<or> delay \<le> 3600)"
  using retry_is_armed [of "run_ctx_of (sample_job 1 PENDING)" boom_env default_settings 9 "(empty_db, empty_redis)"]
  by (simp add: run_ctx_of_def plan_retry_def consult_policy_def Let_def default_settings_def)

section \<open>The consumer's books\<close>

definition dispatcher_inv :: "dispatcher \<Rightarrow> bool" where
  "dispatcher_inv c \<longleftrightarrow>
     length (in_flight c) \<le> max_dispatch_backlog \<and> slots_taken c \<le> max_concurrent_jobs
     \<and> distinct (map t_id (in_flight c)) \<and> (\<forall>k \<in> set (in_flight c). t_id k < next_task c)
     \<and> set (in_flight_job_ids c) \<subseteq> t_job ` set (in_flight c)"

datatype dispatcher_event = Deliver json | Acquire nat | EndTask nat

fun dispatcher_apply :: "dispatcher_event \<Rightarrow> dispatcher \<Rightarrow> dispatcher" where
  "dispatcher_apply (Deliver v) c = (case handle_message v c of Inl _ \<Rightarrow> c | Inr c' \<Rightarrow> c')"
| "dispatcher_apply (Acquire t) c = acquire_slot t c"
| "dispatcher_apply (EndTask t) c = end_task t c"

lemma filter_slot_update:
  "distinct (map t_id ks) \<Longrightarrow>
   length (filter t_has_slot (update_where (\<lambda>k. t_id k = t \<and> \<not> t_has_slot k) (\<lambda>k. k\<lparr>t_has_slot := True\<rparr>) ks))
     \<le> Suc (length (filter t_has_slot ks))"
proof (induction ks)
  case (Cons k ks)
  have same: "t \<notin> t_id ` set ks \<Longrightarrow> update_where (\<lambda>k. t_id k = t \<and> \<not> t_has_slot k) f ks = ks" for f
    by (rule update_where_none) auto
  show ?case
  proof (cases "t_id k = t")
    case True
    then show ?thesis using same Cons.prems by auto
  next
    case False
    then show ?thesis using Cons by auto
  qed
qed simp

lemma dispatcher_inv_deliver:
  "dispatcher_inv c \<Longrightarrow> handle_message v c = Inr c' \<Longrightarrow> dispatcher_inv c'"
  by (auto simp: handle_message_def dispatcher_inv_def slots_taken_def Let_def less_Suc_eq
      split: json.splits if_splits) (use less_irrefl in blast)+

lemma dispatcher_inv_acquire: "dispatcher_inv c \<Longrightarrow> dispatcher_inv (acquire_slot t c)"
proof -
  assume inv: "dispatcher_inv c"
  let ?ks = "update_where (\<lambda>k. t_id k = t \<and> \<not> t_has_slot k) (\<lambda>k. k\<lparr>t_has_slot := True\<rparr>) (in_flight c)"
  have ids: "map t_id ?ks = map t_id (in_flight c)" by (rule map_update_where) simp
  have job: "map t_job ?ks = map t_job (in_flight c)" by (rule map_update_where) simp
  have img: "t_id ` set ?ks = t_id ` set (in_flight c)" "t_job ` set ?ks = t_job ` set (in_flight c)"
    using arg_cong [OF ids, of set] arg_cong [OF job, of set] by simp_all
  have "\<forall>u \<in> t_id ` set ?ks. u < next_task c" "set (in_flight_job_ids c) \<subseteq> t_job ` set ?ks"
    unfolding img using inv by (simp_all add: dispatcher_inv_def)
  then have "\<forall>k \<in> set ?ks. t_id k < next_task c" "set (in_flight_job_ids c) \<subseteq> t_job ` set ?ks"
    by simp_all
  moreover have "slots_taken c < max_concurrent_jobs \<Longrightarrow>
      length (filter t_has_slot ?ks) \<le> max_concurrent_jobs"
    using filter_slot_update [of "in_flight c" t] inv by (simp add: dispatcher_inv_def slots_taken_def)
  ultimately show ?thesis
    using inv ids by (simp add: acquire_slot_def dispatcher_inv_def slots_taken_def)
qed

lemma dispatcher_inv_end: "dispatcher_inv c \<Longrightarrow> dispatcher_inv (end_task t c)"
proof (cases "get_by t_id t (in_flight c)")
  case (Some k)
  assume inv: "dispatcher_inv c"
  have k: "k \<in> set (in_flight c)" "t_id k = t" using get_by_SomeD [OF Some] by auto
  have len: "length (filter P (filter Q ks)) \<le> length (filter P ks)" for P Q and ks :: "task list"
    by (induction ks) auto
  have "v \<in> t_job ` set (filter (\<lambda>k. t_id k \<noteq> t) (in_flight c))"
    if v: "v \<in> set (in_flight_job_ids c)" "v \<noteq> t_job k" for v
  proof -
    obtain m where m: "m \<in> set (in_flight c)" "v = t_job m" using inv v by (auto simp: dispatcher_inv_def)
    moreover have "m = k" if "t_id m = t"
      using inv m(1) k that by (auto simp: dispatcher_inv_def distinct_map inj_on_def)
    ultimately show ?thesis using v(2) by auto
  qed
  then show ?thesis
    using inv Some len [of "\<lambda>k. t_has_slot k" "\<lambda>k. t_id k \<noteq> t" "in_flight c"]
    by (auto simp: end_task_def dispatcher_inv_def slots_taken_def distinct_map_filter
        intro: order_trans [OF length_filter_le] order_trans)
qed (simp add: end_task_def)

interpretation consumer: inv_step dispatcher_apply dispatcher_inv
proof unfold_locales
  fix c e assume "dispatcher_inv c"
  then show "dispatcher_inv (dispatcher_apply e c)"
    by (cases e) (auto simp: dispatcher_inv_acquire dispatcher_inv_end dispatcher_inv_deliver split: sum.split)
qed

text \<open>
  Whatever messages arrive and however tasks take slots and end, the consumer
  never holds more than a hundred dispatched jobs nor runs more than ten at once, and every id
  it protects from crash recovery belongs to a live task.
\<close>

theorem consumer_bounds:
  "length (in_flight (fold dispatcher_apply es new_dispatcher)) \<le> 100
   \<and> slots_taken (fold dispatcher_apply es new_dispatcher) \<le> 10
   \<and> set (in_flight_job_ids (fold dispatcher_apply es new_dispatcher))
       \<subseteq> t_job ` set (in_flight (fold dispatcher_apply es new_dispatcher))"
proof -
  have "dispatcher_inv new_dispatcher"
    by (simp add: dispatcher_inv_def new_dispatcher_def slots_taken_def)
  from consumer.fold_inv [OF this, of es] show ?thesis
    by (simp add: dispatcher_inv_def max_dispatch_backlog_def max_concurrent_jobs_def)
qed

text \<open>
  Two deliveries of one job in flight at once: when the first task ends, the id is
  dropped although the second task still runs, so crash recovery no longer sees the job as held
  by this worker.
\<close>

theorem duplicate_delivery_drops_protection:
  "\<exists>es. let c = fold dispatcher_apply es new_dispatcher
        in (\<exists>k \<in> set (in_flight c). t_job k = juuid u \<and> t_has_slot k) \<and> juuid u \<notin> set (in_flight_job_ids c)"
proof -
  let ?m = "Deliver (JObj [(''job_id'', juuid u)])"
  have "let c = fold dispatcher_apply [?m, ?m, Acquire 0, Acquire 1, EndTask 1] new_dispatcher
        in (\<exists>k \<in> set (in_flight c). t_job k = juuid u \<and> t_has_slot k) \<and> juuid u \<notin> set (in_flight_job_ids c)"
    by (simp add: Let_def juuid_def handle_message_def acquire_slot_def end_task_def new_dispatcher_def
        max_dispatch_backlog_def max_concurrent_jobs_def slots_taken_def)
  then show ?thesis by blast
qed

end
