(* ===== verification/Sweeps.thy ===== *)
theory Sweeps
  imports Dispatcher
begin

text \<open>
  The background loops of \<open>workers/dispatcher.py\<close> that keep jobs moving: promotion of delayed
  retries, the resume sweep over waiting jobs, the stale-pending backstop, crash recovery of
  running jobs with its lease, and the firing of scheduled replays. Each definition is one
  pass; \<open>workers/control_loop_pause.py\<close> decides whether a pass does its work.
\<close>

section \<open>Pausing a loop\<close>

datatype control_loop_name =
    OUTBOX_RELAY | DELAYED_RETRY_PROMOTE | DLQ_REPLAY_PROMOTE | RESUME_UNBLOCKED_WAITING
  | STALE_PENDING_BACKSTOP | STALE_RUNNING_SWEEP | LEASE_RENEWAL | SLO_EVALUATION | METRICS
  | DIGEST | IDEMPOTENCY_REAPER

fun control_loop_value :: "control_loop_name \<Rightarrow> string" where
  "control_loop_value OUTBOX_RELAY = ''outbox_relay''"
| "control_loop_value DELAYED_RETRY_PROMOTE = ''delayed_retry_promote''"
| "control_loop_value DLQ_REPLAY_PROMOTE = ''dlq_replay_promote''"
| "control_loop_value RESUME_UNBLOCKED_WAITING = ''resume_unblocked_waiting''"
| "control_loop_value STALE_PENDING_BACKSTOP = ''stale_pending_backstop''"
| "control_loop_value STALE_RUNNING_SWEEP = ''stale_running_sweep''"
| "control_loop_value LEASE_RENEWAL = ''lease_renewal''"
| "control_loop_value SLO_EVALUATION = ''slo_evaluation''"
| "control_loop_value METRICS = ''metrics''"
| "control_loop_value DIGEST = ''digest''"
| "control_loop_value IDEMPOTENCY_REAPER = ''idempotency_reaper''"

definition pause_key_for :: "control_loop_name \<Rightarrow> string" where
  "pause_key_for l = ''chaos:pause:'' @ control_loop_value l"

text \<open>\<open>lookup\<close> is the Redis read of a key: \<open>None\<close> when it raises, else whether it is set.\<close>

definition loop_is_paused :: "bool \<Rightarrow> (string \<Rightarrow> bool option) \<Rightarrow> control_loop_name \<Rightarrow> bool" where
  "loop_is_paused chaos_enabled lookup l =
     (if \<not> chaos_enabled then False
      else case lookup (pause_key_for l) of None \<Rightarrow> False | Some p \<Rightarrow> p)"

text \<open>One turn of a loop: the pass unless paused; a pass that raises is logged and leaves no trace.\<close>

definition loop_turn :: "bool \<Rightarrow> ('s \<Rightarrow> app_error + 's) \<Rightarrow> 's \<Rightarrow> 's" where
  "loop_turn paused pass s = (if paused then s else case pass s of Inl _ \<Rightarrow> s | Inr s' \<Rightarrow> s')"

section \<open>Delayed retries\<close>

definition promote_retry_delay_seconds :: rat where
  "promote_retry_delay_seconds = 5"

text \<open>\<open>db_ok\<close> says whether the transaction for this item goes through.\<close>

definition promote_delayed_one ::
    "settings \<Rightarrow> time \<Rightarrow> pause_flags \<Rightarrow> (string \<Rightarrow> bool) \<Rightarrow> bool \<Rightarrow> string \<Rightarrow> db \<times> job_redis \<Rightarrow> db \<times> job_redis" where
  "promote_delayed_one cfg now flags db_ok push_ok job_id s =
     (case uuid_parse job_id of
        None \<Rightarrow> s
      | Some i \<Rightarrow>
          if \<not> db_ok job_id
          then (fst s, try_push_delayed push_ok now job_id promote_retry_delay_seconds (snd s))
          else (case job_by_id (fst s) i of
             None \<Rightarrow> s
           | Some j \<Rightarrow>
               (case find_blocking_pause flags i (fst s) of
                  None \<Rightarrow> (submit cfg now j (fst s), snd s)
                | Some _ \<Rightarrow> (fst s, try_push_delayed push_ok now job_id pause_recheck_seconds (snd s)))))"

definition promote_delayed_once ::
    "settings \<Rightarrow> time \<Rightarrow> pause_flags \<Rightarrow> (string \<Rightarrow> bool) \<Rightarrow> bool \<Rightarrow> db \<times> job_redis \<Rightarrow> db \<times> job_redis" where
  "promote_delayed_once cfg now flags db_ok push_ok s =
     (let (ready_ids, r) = pop_ready_delayed now (snd s)
      in fold (promote_delayed_one cfg now flags db_ok push_ok) ready_ids (fst s, r))"

section \<open>Resume sweep\<close>

definition resume_sweep_limit :: nat where
  "resume_sweep_limit = 200"

type_synonym resume_cursor = "time \<times> uuid"

definition has_unmet_parent :: "db \<Rightarrow> uuid \<Rightarrow> bool" where
  "has_unmet_parent d i \<longleftrightarrow>
     (\<exists>e \<in> set (job_dependencies d). d_job_id e = i \<and>
        (case job_by_id d (d_depends_on_job_id e) of None \<Rightarrow> False | Some p \<Rightarrow> j_status p \<noteq> COMPLETED))"

definition after_cursor :: "resume_cursor option \<Rightarrow> job \<Rightarrow> bool" where
  "after_cursor cursor j =
     (case cursor of
        None \<Rightarrow> True
      | Some (t, i) \<Rightarrow> t < j_created_at j \<or> t = j_created_at j \<and> i < j_id j)"

definition promotable_waiting :: "resume_cursor option \<Rightarrow> db \<Rightarrow> job list" where
  "promotable_waiting cursor d =
     take resume_sweep_limit (sort_key j_created_at (sort_key j_id
       (filter (\<lambda>j. j_status j = WAITING \<and> \<not> has_unmet_parent d (j_id j) \<and> after_cursor cursor j) (jobs d))))"

definition resume_one :: "settings \<Rightarrow> time \<Rightarrow> pause_flags \<Rightarrow> job \<Rightarrow> db \<Rightarrow> db" where
  "resume_one cfg now flags child d =
     (if find_blocking_pause flags (j_id child) d \<noteq> None then d else promote_child cfg now child d)"

definition resume_unblocked_waiting_once ::
    "settings \<Rightarrow> time \<Rightarrow> pause_flags \<Rightarrow> resume_cursor option \<Rightarrow> db \<Rightarrow> resume_cursor option \<times> db" where
  "resume_unblocked_waiting_once cfg now flags cursor d =
     (let rows = promotable_waiting cursor d;
          next_cursor = (if rows = [] then None else Some (j_created_at (last rows), j_id (last rows)))
      in (if length rows < resume_sweep_limit then None else next_cursor,
          fold (resume_one cfg now flags) rows d))"

section \<open>Stale-pending backstop\<close>

definition stale_pending_age_seconds :: rat where
  "stale_pending_age_seconds = 300"

definition stale_pending_limit :: nat where
  "stale_pending_limit = 100"

definition stale_pending :: "time \<Rightarrow> job \<Rightarrow> bool" where
  "stale_pending now j \<longleftrightarrow>
     j_status j = PENDING \<and> j_updated_at j < now - stale_pending_age_seconds
     \<and> (case j_requeued_at j of None \<Rightarrow> True | Some t \<Rightarrow> t < now - stale_pending_age_seconds)"

definition requeue_one :: "settings \<Rightarrow> time \<Rightarrow> job_redis \<Rightarrow> job \<Rightarrow> db \<Rightarrow> db" where
  "requeue_one cfg now r j d =
     (if zscore (delayed_z r) (uuid_str (j_id j)) \<noteq> None then d
      else (let d1 = submit cfg now j d
            in d1\<lparr>jobs := update_where (\<lambda>x. j_id x = j_id j) (\<lambda>x. x\<lparr>j_requeued_at := Some now\<rparr>) (jobs d1)\<rparr>))"

definition requeue_stale_pending_once :: "settings \<Rightarrow> time \<Rightarrow> job_redis \<Rightarrow> db \<Rightarrow> db" where
  "requeue_stale_pending_once cfg now r d =
     fold (requeue_one cfg now r) (take stale_pending_limit (filter (stale_pending now) (jobs d))) d"

section \<open>Crash recovery\<close>

definition stale_running_sweep_limit :: nat where
  "stale_running_sweep_limit = 100"

definition running_lease_ttl_seconds :: rat where
  "running_lease_ttl_seconds = 120"

definition in_flight_exclusion_grace_seconds :: rat where
  "in_flight_exclusion_grace_seconds = 300"

definition stale_running :: "time \<Rightarrow> rat \<Rightarrow> job \<Rightarrow> bool" where
  "stale_running now threshold j \<longleftrightarrow>
     j_status j = RUNNING
     \<and> (case j_started_at j of None \<Rightarrow> False | Some t \<Rightarrow> t < now - threshold)
     \<and> (case j_heartbeat_at j of None \<Rightarrow> True | Some t \<Rightarrow> t < now - running_lease_ttl_seconds)"

definition scan_stale_running :: "time \<Rightarrow> rat \<Rightarrow> db \<Rightarrow> job list" where
  "scan_stale_running now threshold d =
     take stale_running_sweep_limit (filter (stale_running now threshold) (jobs d))"

text \<open>The guard of the write: the row is still what the scan saw.\<close>

definition still_as_seen :: "job \<Rightarrow> job \<Rightarrow> bool" where
  "still_as_seen row j \<longleftrightarrow>
     j_status j = RUNNING \<and> j_started_at j = j_started_at row \<and> j_heartbeat_at j = j_heartbeat_at row"

definition recovery_error :: "bool \<Rightarrow> string" where
  "recovery_error held_here =
     (if held_here
      then ''stuck job recovery: still RUNNING long past its execution deadline while held by this worker''
      else ''worker crash recovery: job exceeded stale-RUNNING threshold'')"

definition recovery_audit :: "settings \<Rightarrow> bool \<Rightarrow> rat \<Rightarrow> job \<Rightarrow> db \<Rightarrow> db" where
  "recovery_audit cfg held_here stale_seconds row d =
     audit_log_write ''job.dead_letter'' (j_tenant_id row)
       (no_args\<lparr>aa_job_id := Some (j_id row),
          aa_extra_data := Some
            [(''error'', JStr (recovery_error held_here)),
             (''reason'', JStr (if held_here then ''stuck_local_job'' else ''worker_crash_recovery'')),
             (''stale_seconds'', JFloat stale_seconds),
             (''started_at'', JStr (iso_format cfg (the (j_started_at row))))]\<rparr>) d"

definition sweep_one ::
    "settings \<Rightarrow> time \<Rightarrow> rat \<Rightarrow> json list \<Rightarrow> job \<Rightarrow> nat \<times> db \<Rightarrow> nat \<times> db" where
  "sweep_one cfg now threshold held_ids row acc =
     (let stale_seconds = now - the (j_started_at row);
          held_here = juuid (j_id row) \<in> set held_ids
      in if held_here \<and> stale_seconds < threshold + in_flight_exclusion_grace_seconds then acc
         else (case update_status cfg now (j_id row) DEAD_LETTER
                      [SetErrorMessage (Some (recovery_error held_here))] None
                      (Some (still_as_seen row)) (snd acc) of
             (None, d1) \<Rightarrow> (fst acc, d1)
           | (Some _, d1) \<Rightarrow> (Suc (fst acc), recovery_audit cfg held_here stale_seconds row d1)))"

definition sweep_stale_running_once ::
    "settings \<Rightarrow> time \<Rightarrow> time \<Rightarrow> rat \<Rightarrow> json list \<Rightarrow> db \<Rightarrow> nat \<times> db" where
  "sweep_stale_running_once cfg now_scan now threshold held_ids d =
     fold (sweep_one cfg now threshold held_ids) (scan_stale_running now_scan threshold d) (0, d)"

text \<open>
  Parsing the ids this process holds: a text that is no uuid is skipped, a truthy value that
  is not a text raises \<open>AttributeError\<close>.
\<close>

fun lease_ids :: "json list \<Rightarrow> app_error + uuid list" where
  "lease_ids [] = Inr []"
| "lease_ids (JStr s # vs) =
     (case lease_ids vs of
        Inl e \<Rightarrow> Inl e
      | Inr us \<Rightarrow> Inr (case uuid_parse s of None \<Rightarrow> us | Some u \<Rightarrow> u # us))"
| "lease_ids (_ # vs) = Inl AttributeError"

definition renew_running_leases_once ::
    "time \<Rightarrow> rat \<Rightarrow> json list \<Rightarrow> db \<Rightarrow> app_error + (nat \<times> db)" where
  "renew_running_leases_once now threshold held_ids d =
     (case lease_ids held_ids of
        Inl e \<Rightarrow> Inl e
      | Inr ids \<Rightarrow>
          if ids = [] then Inr (0, d)
          else Inr (renew_running_leases now ids (threshold + in_flight_exclusion_grace_seconds) d))"

section \<open>Scheduled replays\<close>

definition paused_replay_defer_seconds :: rat where
  "paused_replay_defer_seconds = 30"

definition replay_ctx :: "time \<Rightarrow> pause_flags \<Rightarrow> call_ctx" where
  "replay_ctx now flags = \<lparr>c_now = now, c_flags = flags, c_trace_id = [], c_request_id = [],
     c_otel = [], c_has_dep_repo = True\<rparr>"

definition promote_dlq_replay_one ::
    "settings \<Rightarrow> time \<Rightarrow> pause_flags \<Rightarrow> replay_id \<Rightarrow> db \<times> job_redis \<Rightarrow> db \<times> job_redis" where
  "promote_dlq_replay_one cfg now flags rid s =
     (case rid of (tenant, prin, i) \<Rightarrow>
        (let s1 = (case find_blocking_pause flags i (fst s) of
             Some _ \<Rightarrow> (fst s, snd (schedule_replay now rid paused_replay_defer_seconds (snd s)))
           | None \<Rightarrow>
               (case replay_job cfg (replay_ctx now flags) i tenant None ''service_account'' (Some prin) (fst s) of
                  Inl _ \<Rightarrow> s
                | Inr (_, _, d1) \<Rightarrow> (d1, snd s)))
         in (fst s1, ack_replay rid (snd s1))))"

definition promote_dlq_replay_once ::
    "settings \<Rightarrow> time \<Rightarrow> pause_flags \<Rightarrow> db \<times> job_redis \<Rightarrow> db \<times> job_redis" where
  "promote_dlq_replay_once cfg now flags s =
     (let (ready_ids, r) = claim_ready now (snd s)
      in fold (promote_dlq_replay_one cfg now flags) ready_ids (fst s, r))"

section \<open>Invariants\<close>

lemma db_inv_promote_delayed_one:
  "db_inv cfg (fst s) \<Longrightarrow> db_inv cfg (fst (promote_delayed_one cfg now flags db_ok push_ok i s))"
  by (auto simp: promote_delayed_one_def db_inv_submit split: option.split)

interpretation promote_delayed: inv_step "promote_delayed_one cfg now flags db_ok push_ok"
    "\<lambda>s. db_inv cfg (fst s)" for cfg now flags db_ok push_ok
  by unfold_locales (rule db_inv_promote_delayed_one)

lemma db_inv_promote_delayed [platform_intros]:
  "db_inv cfg (fst s) \<Longrightarrow> db_inv cfg (fst (promote_delayed_once cfg now flags db_ok push_ok s))"
  by (simp add: promote_delayed_once_def Let_def case_prod_beta promote_delayed.fold_inv)

lemma db_inv_resume_one: "db_inv cfg d \<Longrightarrow> db_inv cfg (resume_one cfg now flags c d)"
  by (simp add: resume_one_def db_inv_promote_child)

interpretation resume: inv_step "resume_one cfg now flags" "db_inv cfg" for cfg now flags
  by unfold_locales (rule db_inv_resume_one)

lemma db_inv_resume [platform_intros]:
  "db_inv cfg d \<Longrightarrow> db_inv cfg (snd (resume_unblocked_waiting_once cfg now flags cursor d))"
  by (simp add: resume_unblocked_waiting_once_def Let_def resume.fold_inv)

lemma db_inv_requeue_one: "db_inv cfg d \<Longrightarrow> db_inv cfg (requeue_one cfg now r j d)"
  using db_inv_update_jobs [of cfg "submit cfg now j d" "\<lambda>x. x\<lparr>j_requeued_at := Some now\<rparr>" "\<lambda>x. j_id x = j_id j"]
  by (simp add: requeue_one_def db_inv_submit same_identity_def stamped_job_def)

interpretation requeue: inv_step "requeue_one cfg now r" "db_inv cfg" for cfg now r
  by unfold_locales (rule db_inv_requeue_one)

lemma db_inv_requeue [platform_intros]:
  "db_inv cfg d \<Longrightarrow> db_inv cfg (requeue_stale_pending_once cfg now r d)"
  by (simp add: requeue_stale_pending_once_def requeue.fold_inv)

text \<open>The recovery of one row: nothing, or a guarded dead-letter write with its audit row.\<close>

definition recovers :: "time \<Rightarrow> rat \<Rightarrow> json list \<Rightarrow> job \<Rightarrow> db \<Rightarrow> bool" where
  "recovers now threshold held_ids row d \<longleftrightarrow>
     \<not> (juuid (j_id row) \<in> set held_ids
        \<and> now - the (j_started_at row) < threshold + in_flight_exclusion_grace_seconds)
     \<and> job_is (still_as_seen row) d (j_id row)"

lemma sweep_one_cases:
  assumes wf: "wf_db (snd acc)"
  shows "sweep_one cfg now threshold held_ids row acc =
    (if recovers now threshold held_ids row (snd acc)
     then (Suc (fst acc),
           recovery_audit cfg (juuid (j_id row) \<in> set held_ids) (now - the (j_started_at row)) row
             (snd (update_status cfg now (j_id row) DEAD_LETTER
                [SetErrorMessage (Some (recovery_error (juuid (j_id row) \<in> set held_ids)))] None None (snd acc))))
     else acc)"
proof (cases "job_by_id (snd acc) (j_id row)")
  case None
  then show ?thesis
    by (auto simp: sweep_one_def Let_def recovers_def job_is_def update_status_guarded [OF wf])
next
  case (Some j)
  let ?extra = "[SetErrorMessage (Some (recovery_error (juuid (j_id row) \<in> set held_ids)))]"
  obtain d1 where "update_status cfg now (j_id row) DEAD_LETTER ?extra None None (snd acc) =
      (Some (status_values now DEAD_LETTER ?extra j), d1)"
    using update_status_rows(1) [OF wf Some, of cfg now DEAD_LETTER ?extra None] by (metis prod.collapse)
  with Some show ?thesis
    by (simp add: sweep_one_def Let_def recovers_def job_is_def update_status_guarded [OF wf])
qed

lemma db_inv_sweep_one:
  "db_inv cfg (snd acc) \<Longrightarrow> db_inv cfg (snd (sweep_one cfg now threshold held_ids row acc))"
  by (simp add: sweep_one_cases db_inv_def [of cfg "snd acc"])
    (auto simp: recovery_audit_def db_inv_def [symmetric] intro!: db_inv_audit_log_write db_inv_update_status)

interpretation sweep: inv_step "sweep_one cfg now threshold held_ids" "\<lambda>acc. db_inv cfg (snd acc)"
  for cfg now threshold held_ids
  by unfold_locales (rule db_inv_sweep_one)

lemma db_inv_sweep [platform_intros]:
  "db_inv cfg d \<Longrightarrow> db_inv cfg (snd (sweep_stale_running_once cfg t0 now threshold held_ids d))"
  using sweep.fold_inv [of cfg "(0, d)"] by (simp add: sweep_stale_running_once_def)

lemma db_inv_renew_once [platform_intros]:
  "db_inv cfg d \<Longrightarrow> renew_running_leases_once now threshold held_ids d = Inr (n, d') \<Longrightarrow> db_inv cfg d'"
  using db_inv_renew [of cfg d now _ "threshold + in_flight_exclusion_grace_seconds"]
  by (auto simp: renew_running_leases_once_def split: sum.splits if_splits) (metis snd_conv)

lemma db_inv_promote_dlq_replay_one:
  "db_inv cfg (fst s) \<Longrightarrow> db_inv cfg (fst (promote_dlq_replay_one cfg now flags rid s))"
  using db_inv_replay_job [of cfg "fst s"]
  by (auto simp: promote_dlq_replay_one_def Let_def split: prod.split option.split sum.split)

interpretation fire_replay: inv_step "promote_dlq_replay_one cfg now flags" "\<lambda>s. db_inv cfg (fst s)"
  for cfg now flags
  by unfold_locales (rule db_inv_promote_dlq_replay_one)

lemma db_inv_promote_dlq_replay [platform_intros]:
  "db_inv cfg (fst s) \<Longrightarrow> db_inv cfg (fst (promote_dlq_replay_once cfg now flags s))"
  by (simp add: promote_dlq_replay_once_def Let_def case_prod_beta fire_replay.fold_inv)

section \<open>Crash recovery takes orphans and nothing else\<close>

lemma recovery_audit_jobs [simp]: "jobs (recovery_audit cfg h t row d) = jobs d"
  by (simp add: recovery_audit_def)

lemma wf_recovery_audit: "wf_db d \<Longrightarrow> wf_db (recovery_audit cfg h t row d)"
  by (simp add: recovery_audit_def wf_audit_log_write)

lemma wf_sweep_one: "wf_db (snd acc) \<Longrightarrow> wf_db (snd (sweep_one cfg now threshold held_ids row acc))"
  by (simp add: sweep_one_cases wf_recovery_audit wf_update_status)

lemma sweep_one_other:
  assumes "wf_db (snd acc)" "k \<noteq> j_id row" "job_by_id (snd acc) k = Some x" "j_status x \<noteq> WAITING"
  shows "job_by_id (snd (sweep_one cfg now threshold held_ids row acc)) k = Some x"
  using assms job_by_id_update_status_other [OF assms(1-3)]
  by (simp add: sweep_one_cases cancellable_def)

definition spared :: "time \<Rightarrow> rat \<Rightarrow> json list \<Rightarrow> job \<Rightarrow> bool" where
  "spared now threshold held_ids row \<longleftrightarrow>
     juuid (j_id row) \<in> set held_ids
     \<and> now - the (j_started_at row) < threshold + in_flight_exclusion_grace_seconds"

definition recovered :: "db \<Rightarrow> uuid \<Rightarrow> bool" where
  "recovered d i \<longleftrightarrow> job_is (\<lambda>j. j_status j = DEAD_LETTER) d i"

lemma sweep_one_self:
  fixes cfg :: settings and now :: time and threshold :: rat and held_ids :: "json list"
  assumes wf: "wf_db (snd acc)" and row: "job_by_id (snd acc) (j_id row) = Some row" "j_status row = RUNNING"
  defines "acc' \<equiv> sweep_one cfg now threshold held_ids row acc"
  shows "if spared now threshold held_ids row then acc' = acc
    else recovered (snd acc') (j_id row) \<and> fst acc' = Suc (fst acc)"
  using job_is_update_status_self [OF wf row(1), of DEAD_LETTER "\<lambda>j. j_status j = DEAD_LETTER"] row
  by (simp add: acc'_def sweep_one_cases [OF wf] recovers_def job_is_def still_as_seen_def
      spared_def recovered_def)

lemma sweep_fold:
  fixes cfg :: settings and now :: time and threshold :: rat and held_ids :: "json list"
  assumes "wf_db (snd acc)" "distinct (map j_id rows)"
    and "\<forall>row \<in> set rows. job_by_id (snd acc) (j_id row) = Some row \<and> j_status row = RUNNING"
  defines "acc' \<equiv> fold (sweep_one cfg now threshold held_ids) rows acc"
  shows "(\<forall>row \<in> set rows. if spared now threshold held_ids row
            then job_by_id (snd acc') (j_id row) = Some row else recovered (snd acc') (j_id row))
    \<and> (\<forall>k x. k \<notin> j_id ` set rows \<longrightarrow> job_by_id (snd acc) k = Some x \<longrightarrow> j_status x \<noteq> WAITING
          \<longrightarrow> job_by_id (snd acc') k = Some x)
    \<and> fst acc' = fst acc + length (filter (\<lambda>row. \<not> spared now threshold held_ids row) rows)"
  using assms(1-3) unfolding acc'_def
proof (induction rows arbitrary: acc)
  case (Cons row rows)
  let ?a = "sweep_one cfg now threshold held_ids row acc"
  have wf: "wf_db (snd ?a)" by (rule wf_sweep_one) (rule Cons.prems(1))
  have self: "if spared now threshold held_ids row then ?a = acc
      else recovered (snd ?a) (j_id row) \<and> fst ?a = Suc (fst acc)"
    by (rule sweep_one_self) (use Cons.prems in auto)
  have keep: "job_by_id (snd ?a) k = Some x"
    if "k \<noteq> j_id row" "job_by_id (snd acc) k = Some x" "j_status x \<noteq> WAITING" for k x
    using that by (intro sweep_one_other) (use Cons.prems in auto)
  have "\<forall>row \<in> set rows. job_by_id (snd ?a) (j_id row) = Some row \<and> j_status row = RUNNING"
    using Cons.prems keep by (auto simp: image_iff)
  note IH = Cons.IH [OF wf _ this]
  obtain x where x: "job_by_id (snd ?a) (j_id row) = Some x" "j_status x \<noteq> WAITING"
      "spared now threshold held_ids row \<longrightarrow> x = row" "\<not> spared now threshold held_ids row \<longrightarrow> j_status x = DEAD_LETTER"
    using self Cons.prems by (auto simp: recovered_def job_is_def split: if_splits option.splits)
  have out: "j_id row \<notin> j_id ` set rows" using Cons.prems(2) by auto
  have row': "job_by_id (snd (fold (sweep_one cfg now threshold held_ids) rows ?a)) (j_id row) = Some x"
    using IH Cons.prems(2) out x(1,2) by auto
  show ?case
    using IH Cons.prems(2) x row' self keep
    by (auto simp: recovered_def job_is_def split: if_splits)
qed simp

lemma scan_rows:
  assumes "wf_db d" "row \<in> set (scan_stale_running t0 threshold d)"
  shows "job_by_id d (j_id row) = Some row \<and> stale_running t0 threshold row"
  using assms wf_job_by_id [OF assms(1)] by (auto simp: scan_stale_running_def dest!: in_set_takeD)

lemma scan_distinct: "wf_db d \<Longrightarrow> distinct (map j_id (scan_stale_running t0 threshold d))"
  by (simp add: scan_stale_running_def wf_db_def distinct_map_filter flip: take_map)

text \<open>
  Property C8. One pass of crash recovery: a running job that is stale (started before the
  threshold, no check-in within the lease) and on the page is dead-lettered, unless this worker
  holds it and is still inside the grace; every other job that is not waiting is left exactly
  as it was.
\<close>

theorem crash_recovery:
  assumes "wf_db d" and "job_by_id d i = Some j" and "j_status j \<noteq> WAITING"
    and "length (filter (stale_running t0 threshold) (jobs d)) \<le> 100"
  shows "if stale_running t0 threshold j
        \<and> \<not> (juuid i \<in> set held_ids \<and> now - the (j_started_at j) < threshold + 300)
    then job_is (\<lambda>j. j_status j = DEAD_LETTER) (snd (sweep_stale_running_once cfg t0 now threshold held_ids d)) i
    else job_by_id (snd (sweep_stale_running_once cfg t0 now threshold held_ids d)) i = Some j"
proof -
  let ?rows = "scan_stale_running t0 threshold d"
  have rows: "?rows = filter (stale_running t0 threshold) (jobs d)"
    using assms(4) by (simp add: scan_stale_running_def stale_running_sweep_limit_def)
  have ji: "j_id j = i" "j \<in> set (jobs d)" using get_by_SomeD [OF assms(2)] by auto
  have mem: "j \<in> set ?rows \<longleftrightarrow> stale_running t0 threshold j" using rows ji by simp
  have out: "i \<notin> j_id ` set ?rows" if "\<not> stale_running t0 threshold j"
    using that scan_rows [OF assms(1)] assms(2) by fastforce
  have pre: "\<forall>row \<in> set ?rows. job_by_id (snd (0, d)) (j_id row) = Some row \<and> j_status row = RUNNING"
    using scan_rows [OF assms(1)] by (auto simp: stale_running_def)
  have "spared now threshold held_ids j \<longleftrightarrow>
      juuid i \<in> set held_ids \<and> now - the (j_started_at j) < threshold + 300"
    by (simp add: spared_def ji in_flight_exclusion_grace_seconds_def)
  with sweep_fold [of "(0, d)" ?rows now threshold held_ids cfg] pre assms(1-3) mem out ji
    scan_distinct [OF assms(1), of t0 threshold]
  show ?thesis by (auto simp: sweep_stale_running_once_def recovered_def split: if_splits)
qed

definition sample_running :: "uuid \<Rightarrow> time \<Rightarrow> time option \<Rightarrow> job" where
  "sample_running i started beat = (sample_job i RUNNING)\<lparr>j_started_at := Some started, j_heartbeat_at := beat\<rparr>"

lemma sample_running_simps [simp]:
  "j_id (sample_running i t b) = i" "j_status (sample_running i t b) = RUNNING"
  "j_started_at (sample_running i t b) = Some t" "j_heartbeat_at (sample_running i t b) = b"
  by (simp_all add: sample_running_def)

theorem crash_recovery_witness:
  "job_is (\<lambda>j. j_status j = DEAD_LETTER) (snd (sweep_stale_running_once default_settings 1000 1000 900 []
     (sample_db [sample_running 1 0 None] []))) 1"
  using crash_recovery [of "sample_db [sample_running 1 0 None] []" 1 "sample_running 1 0 None" 1000 900 "[]" 1000
      default_settings]
    wf_sample [of "[sample_running 1 0 None]" "[]"]
  by (simp add: stale_running_def)

text \<open>
  Property C9. Between the scan and the write the row may move: if the job is no longer running,
  was started again, or its lease was renewed, the recovery of that row does nothing.
\<close>

theorem recovery_is_compare_and_set:
  assumes "wf_db (snd acc)"
    and "\<And>j. job_by_id (snd acc) (j_id row) = Some j \<Longrightarrow>
      j_status j \<noteq> RUNNING \<or> j_started_at j \<noteq> j_started_at row \<or> j_heartbeat_at j \<noteq> j_heartbeat_at row"
  shows "sweep_one cfg now threshold held_ids row acc = acc"
  using assms by (auto simp: sweep_one_cases recovers_def job_is_def still_as_seen_def split: option.splits)

theorem recovery_is_compare_and_set_witness:
  "sweep_one default_settings 1000 900 [] (sample_running 1 0 None)
     (0, sample_db [sample_running 1 0 (Some 990)] []) = (0, sample_db [sample_running 1 0 (Some 990)] [])"
  by (rule recovery_is_compare_and_set) (auto intro!: wf_sample)

lemma lease_ids_mem:
  "lease_ids vs = Inr us \<Longrightarrow> valid_uuid i \<Longrightarrow> juuid i \<in> set vs \<Longrightarrow> i \<in> set us"
proof (induction vs arbitrary: us rule: lease_ids.induct)
  case (2 s vs)
  then obtain ws where ws: "lease_ids vs = Inr ws" "us = (case uuid_parse s of None \<Rightarrow> ws | Some u \<Rightarrow> u # ws)"
    by (auto split: sum.splits)
  show ?case
  proof (cases "juuid i = JStr s")
    case True
    then have "uuid_parse s = Some i" using uuid_parse_str_bounded [OF 2(3)] by (simp add: juuid_def)
    then show ?thesis using ws(2) by simp
  next
    case False
    then have "i \<in> set ws" using 2 ws(1) by auto
    then show ?thesis using ws(2) by (auto split: option.split)
  qed
qed auto

text \<open>
  A worker that checks in protects its jobs on every replica: after a renewal, a
  running job the worker holds and that is not past the grace is not picked up by any scan
  during the next two minutes, whatever the age threshold.
\<close>

theorem lease_protects:
  assumes "valid_uuid i" "juuid i \<in> set held_ids" "job_by_id d i = Some j" "j_status j = RUNNING"
    and "j_started_at j = Some t" "now - (threshold + 300) \<le> t"
    and "renew_running_leases_once now threshold held_ids d = Inr (n, d')"
    and "scan_time \<le> now + 120"
  shows "\<exists>j'. job_by_id d' i = Some j' \<and> \<not> stale_running scan_time threshold' j'"
proof -
  obtain ids where ids: "lease_ids held_ids = Inr ids" using assms(7)
    by (auto simp: renew_running_leases_once_def split: sum.splits)
  have i: "i \<in> set ids" using lease_ids_mem [OF ids assms(1,2)] .
  have ji: "j_id j = i" using get_by_SomeD [OF assms(3)] by simp
  have "d' = snd (renew_running_leases now ids (threshold + in_flight_exclusion_grace_seconds) d)"
    using assms(7) ids i by (auto simp: renew_running_leases_once_def split: if_splits)
  then have "job_by_id d' i = Some (j\<lparr>j_heartbeat_at := Some now\<rparr>)"
    using i ji assms(3-6)
    by (auto simp: renew_running_leases_def Let_def get_by_update_where in_flight_exclusion_grace_seconds_def)
  then show ?thesis using assms(8) by (auto simp: stale_running_def running_lease_ttl_seconds_def)
qed

theorem lease_protects_witness:
  "\<exists>j'. job_by_id (snd (renew_running_leases 1000 [1] (900 + in_flight_exclusion_grace_seconds)
       (sample_db [sample_running 1 0 None] []))) 1 = Some j' \<and> \<not> stale_running 1120 900 j'"
proof -
  let ?d = "sample_db [sample_running 1 0 None] []"
  have "lease_ids [juuid 1] = Inr [1]"
    using uuid_parse_str_bounded [of 1] by (simp add: juuid_def)
  then have "renew_running_leases_once 1000 900 [juuid 1] ?d =
      Inr (fst (renew_running_leases 1000 [1] (900 + in_flight_exclusion_grace_seconds) ?d),
           snd (renew_running_leases 1000 [1] (900 + in_flight_exclusion_grace_seconds) ?d))"
    by (simp add: renew_running_leases_once_def)
  from lease_protects [OF _ _ _ _ _ _ this, of 1 "sample_running 1 0 None" 0 1120 900] show ?thesis by simp
qed

section \<open>The stale-pending backstop\<close>

text \<open>The job a pass publishes: not one that waits out a back-off.\<close>

definition no_timer :: "job_redis \<Rightarrow> job \<Rightarrow> bool" where
  "no_timer r j \<longleftrightarrow> zscore (delayed_z r) (uuid_str (j_id j)) = None"

abbreviation stale_page :: "time \<Rightarrow> db \<Rightarrow> job list" where
  "stale_page now d \<equiv> take stale_pending_limit (filter (stale_pending now) (jobs d))"

lemma submit_outbox:
  "outbox_events (submit cfg now j d) = outbox_events d @ [\<lparr>o_id = next_uuid d, o_tenant_id = j_tenant_id j,
     o_topic = kafka_topic_job_submitted cfg, o_key = partition_key (j_tenant_id j) (j_user_id j),
     o_payload = job_submitted_payload j, o_attempts = 0, o_created_at = now, o_published_at = None,
     o_failed_at = None, o_error_message = None\<rparr>]"
  by (simp add: submit_def outbox_add_def)

lemma requeue_fold:
  "map o_payload (outbox_events (fold (requeue_one cfg now r) rows d)) =
     map o_payload (outbox_events d) @ map job_submitted_payload (filter (no_timer r) rows)
   \<and> jobs (fold (requeue_one cfg now r) rows d) =
     update_where (\<lambda>x. j_id x \<in> j_id ` set (filter (no_timer r) rows)) (\<lambda>x. x\<lparr>j_requeued_at := Some now\<rparr>) (jobs d)"
proof (induction rows arbitrary: d)
  case Nil
  then show ?case by (simp add: update_where_none)
next
  case (Cons j rows)
  have "update_where (\<lambda>x. j_id x \<in> A) (\<lambda>x. x\<lparr>j_requeued_at := Some now\<rparr>)
      (update_where (\<lambda>x. j_id x = k) (\<lambda>x. x\<lparr>j_requeued_at := Some now\<rparr>) xs) =
      update_where (\<lambda>x. j_id x \<in> insert k A) (\<lambda>x. x\<lparr>j_requeued_at := Some now\<rparr>) xs" for A k and xs :: "job list"
    by (induction xs) auto
  then show ?case
    using Cons.IH [of "requeue_one cfg now r j d"]
    by (simp add: requeue_one_def Let_def no_timer_def submit_outbox)
qed

text \<open>
  The backstop publishes exactly the stale pending jobs of its page that have no
  retry timer, and writes nothing but the re-publish stamp on their rows; within the next five
  minutes no pass can pick any of them again.
\<close>

theorem backstop_publishes_once:
  assumes "later \<le> now + 300"
  shows "map o_payload (outbox_events (requeue_stale_pending_once cfg now r d)) =
      map o_payload (outbox_events d) @ map job_submitted_payload (filter (no_timer r) (stale_page now d))
    \<and> jobs (requeue_stale_pending_once cfg now r d) =
      update_where (\<lambda>x. j_id x \<in> j_id ` set (filter (no_timer r) (stale_page now d)))
        (\<lambda>x. x\<lparr>j_requeued_at := Some now\<rparr>) (jobs d)
    \<and> j_id ` set (stale_page later (requeue_stale_pending_once cfg now r d))
        \<inter> j_id ` set (filter (no_timer r) (stale_page now d)) = {}"
proof -
  define P where "P = j_id ` set (filter (no_timer r) (stale_page now d))"
  note eff = requeue_fold [of cfg now r "stale_page now d" d, folded requeue_stale_pending_once_def P_def]
  have "j_id x \<notin> P" if "x \<in> set (stale_page later (requeue_stale_pending_once cfg now r d))" for x
  proof
    assume "j_id x \<in> P"
    moreover have "x \<in> set (jobs (requeue_stale_pending_once cfg now r d))" "stale_pending later x"
      using that by (auto dest: in_set_takeD)
    ultimately have "j_requeued_at x = Some now" "stale_pending later x"
      using eff by (auto simp: set_update_where split: if_splits)
    then show False using assms by (simp add: stale_pending_def stale_pending_age_seconds_def)
  qed
  then show ?thesis using eff unfolding P_def by blast
qed

theorem backstop_publishes_once_witness:
  "map o_payload (outbox_events (requeue_stale_pending_once default_settings 1000 empty_redis
     (sample_db [sample_job 1 PENDING] []))) = [job_submitted_payload (sample_job 1 PENDING)]"
  using backstop_publishes_once [of 1000 1000 default_settings empty_redis "sample_db [sample_job 1 PENDING] []"]
  by (simp add: stale_pending_def stale_pending_limit_def stale_pending_age_seconds_def no_timer_def
      empty_redis_def zscore_def)

section \<open>No retry is lost\<close>

datatype promotion_fate = Dropped | Resubmitted job | Requeued rat

definition fate :: "pause_flags \<Rightarrow> (string \<Rightarrow> bool) \<Rightarrow> db \<Rightarrow> string \<Rightarrow> promotion_fate" where
  "fate flags db_ok d job_id =
     (case uuid_parse job_id of
        None \<Rightarrow> Dropped
      | Some i \<Rightarrow>
          if \<not> db_ok job_id then Requeued promote_retry_delay_seconds
          else (case job_by_id d i of
             None \<Rightarrow> Dropped
           | Some j \<Rightarrow> (case find_blocking_pause flags i d of
                None \<Rightarrow> Resubmitted j | Some _ \<Rightarrow> Requeued pause_recheck_seconds)))"

lemma promote_delayed_one_fate:
  "promote_delayed_one cfg now flags db_ok push_ok job_id s =
     (case fate flags db_ok (fst s) job_id of
        Dropped \<Rightarrow> s
      | Resubmitted j \<Rightarrow> (submit cfg now j (fst s), snd s)
      | Requeued delay \<Rightarrow> (fst s, try_push_delayed push_ok now job_id delay (snd s)))"
  by (auto simp: promote_delayed_one_def fate_def split: option.split)

lemma fate_cong: "jobs d = jobs d' \<Longrightarrow> job_dependencies d = job_dependencies d' \<Longrightarrow>
  fate flags db_ok d job_id = fate flags db_ok d' job_id"
  using find_blocking_pause_deps_only [of d d'] by (simp add: fate_def split: option.split)

lemma promote_delayed_fold:
  assumes "s' = fold (promote_delayed_one cfg now flags db_ok True) ids s"
  shows "jobs (fst s') = jobs (fst s) \<and> job_dependencies (fst s') = job_dependencies (fst s)
    \<and> (\<exists>es. outbox_events (fst s') = outbox_events (fst s) @ es
        \<and> (\<forall>m \<in> set ids. \<forall>j. fate flags db_ok (fst s) m = Resubmitted j \<longrightarrow> job_submitted_payload j \<in> o_payload ` set es))
    \<and> (\<forall>m. zscore (delayed_z (snd s)) m \<noteq> None \<longrightarrow> zscore (delayed_z (snd s')) m \<noteq> None)
    \<and> (\<forall>m \<in> set ids. \<forall>t. fate flags db_ok (fst s) m = Requeued t \<longrightarrow> zscore (delayed_z (snd s')) m \<noteq> None)"
  using assms
proof (induction ids arbitrary: s)
  case (Cons m ids)
  let ?s = "promote_delayed_one cfg now flags db_ok True m s"
  have same: "jobs (fst ?s) = jobs (fst s)" "job_dependencies (fst ?s) = job_dependencies (fst s)"
    by (simp_all add: promote_delayed_one_fate split: promotion_fate.split)
  have fate: "fate flags db_ok (fst ?s) k = fate flags db_ok (fst s) k" for k
    using same by (rule fate_cong)
  have up: "zscore (delayed_z (snd s)) k \<noteq> None \<Longrightarrow> zscore (delayed_z (snd ?s)) k \<noteq> None" for k
    by (auto simp: promote_delayed_one_fate try_push_delayed_def push_delayed_def zscore_zadd
        split: promotion_fate.split)
  have this_one: "fate flags db_ok (fst s) m = Requeued t \<Longrightarrow> zscore (delayed_z (snd ?s)) m \<noteq> None" for t
    by (simp add: promote_delayed_one_fate try_push_delayed_def push_delayed_def zscore_zadd)
  obtain e where e: "outbox_events (fst ?s) = outbox_events (fst s) @ e"
      "\<And>j. fate flags db_ok (fst s) m = Resubmitted j \<Longrightarrow> job_submitted_payload j \<in> o_payload ` set e"
    by (cases "fate flags db_ok (fst s) m") (auto simp: promote_delayed_one_fate submit_outbox)
  note IH = Cons.IH [of ?s, unfolded fate same]
  from IH Cons.prems obtain es where es: "outbox_events (fst s') = outbox_events (fst ?s) @ es"
      "\<forall>m \<in> set ids. \<forall>j. fate flags db_ok (fst s) m = Resubmitted j \<longrightarrow> job_submitted_payload j \<in> o_payload ` set es"
    by auto
  have "outbox_events (fst s') = outbox_events (fst s) @ (e @ es)" using es(1) e(1) by simp
  moreover have "\<forall>k \<in> set (m # ids). \<forall>j. fate flags db_ok (fst s) k = Resubmitted j
      \<longrightarrow> job_submitted_payload j \<in> o_payload ` set (e @ es)"
    using es(2) e(2) by (auto simp: image_Un)
  ultimately show ?case using IH Cons.prems up this_one by (auto simp del: set_append)
qed simp

text \<open>
  Property C12. Promoting delayed retries loses none: after a pass over the delayed set, a job
  that was in it is still in it, or its submission has been added to the outbox, whichever
  transactions failed and whatever was paused (Redis taking writes).
\<close>

theorem no_retry_lost:
  assumes "valid_uuid i" "job_by_id (fst s) i = Some j" "zscore (delayed_z (snd s)) (uuid_str i) \<noteq> None"
  shows "(\<exists>due. zscore (delayed_z (snd (promote_delayed_once cfg now flags db_ok True s))) (uuid_str i) = Some due)
    \<or> (\<exists>es. outbox_events (fst (promote_delayed_once cfg now flags db_ok True s)) = outbox_events (fst s) @ es
         \<and> job_submitted_payload j \<in> o_payload ` set es)"
proof -
  let ?ids = "zrange_due pop_ready_limit now (delayed_z (snd s))"
  let ?s1 = "(fst s, (snd s)\<lparr>delayed_z := zrem ?ids (delayed_z (snd s))\<rparr>)"
  have eq: "promote_delayed_once cfg now flags db_ok True s =
      fold (promote_delayed_one cfg now flags db_ok True) ?ids ?s1"
    by (simp add: promote_delayed_once_def pop_ready_delayed_eq)
  note eff = promote_delayed_fold [OF eq]
  show ?thesis
  proof (cases "uuid_str i \<in> set ?ids")
    case True
    have "fate flags db_ok (fst s) (uuid_str i) \<noteq> Dropped"
      using assms(1,2) by (auto simp: fate_def uuid_parse_str_bounded split: option.split)
    moreover have "fate flags db_ok (fst s) (uuid_str i) = Resubmitted j' \<Longrightarrow> j' = j" for j'
      using assms(1,2) by (auto simp: fate_def uuid_parse_str_bounded split: option.splits if_splits)
    ultimately show ?thesis
      using eff True by (cases "fate flags db_ok (fst s) (uuid_str i)") fastforce+
  next
    case False
    then have "zscore (delayed_z (snd ?s1)) (uuid_str i) \<noteq> None" using assms(3) by (simp add: zscore_zrem)
    then show ?thesis using eff by blast
  qed
qed

theorem no_retry_lost_witness:
  "(\<exists>due. zscore (delayed_z (snd (promote_delayed_once default_settings 50 (PauseFlags []) (\<lambda>_. False) True
       (sample_db [sample_job 1 PENDING] [], push_delayed 0 (uuid_str 1) 4 empty_redis)))) (uuid_str 1) = Some due)
    \<or> (\<exists>es. outbox_events (fst (promote_delayed_once default_settings 50 (PauseFlags []) (\<lambda>_. False) True
         (sample_db [sample_job 1 PENDING] [], push_delayed 0 (uuid_str 1) 4 empty_redis))) =
           outbox_events (sample_db [sample_job 1 PENDING] []) @ es
         \<and> job_submitted_payload (sample_job 1 PENDING) \<in> o_payload ` set es)"
  using no_retry_lost [of 1 "(sample_db [sample_job 1 PENDING] [], push_delayed 0 (uuid_str 1) 4 empty_redis)"
      "sample_job 1 PENDING" default_settings 50 "PauseFlags []" "\<lambda>_. False"]
  by (simp add: push_delayed_def zscore_zadd del: sample_db_simps(3))

section \<open>The resume sweep\<close>

text \<open>A job whose dependencies are met and that waits for nothing but a pause.\<close>

definition eligible :: "db \<Rightarrow> job \<Rightarrow> bool" where
  "eligible d j \<longleftrightarrow> j_status j = WAITING \<and> \<not> has_unmet_parent d (j_id j)"

definition eligible_rows :: "db \<Rightarrow> job list" where
  "eligible_rows d = sort_key j_created_at (sort_key j_id (filter (eligible d) (jobs d)))"

definition cursor_of :: "job \<Rightarrow> resume_cursor" where
  "cursor_of j = (j_created_at j, j_id j)"

lemma after_cursor_of:
  "after_cursor (Some (cursor_of a)) b \<longleftrightarrow>
     j_created_at a < j_created_at b \<or> j_created_at a = j_created_at b \<and> j_id a < j_id b"
  by (simp add: after_cursor_def cursor_of_def)

lemma promotable_eq:
  "promotable_waiting cursor d = take resume_sweep_limit (filter (after_cursor cursor) (eligible_rows d))"
  by (simp add: promotable_waiting_def eligible_rows_def eligible_def filter_sort conj_commute conj_left_commute)

lemma eligible_rows_sorted:
  assumes "wf_db d"
  shows "sorted_wrt (\<lambda>a b. after_cursor (Some (cursor_of a)) b) (eligible_rows d)"
proof -
  have "distinct (map j_id (sort_key j_id (filter (eligible d) (jobs d))))"
    using assms by (simp add: wf_db_def distinct_map distinct_filter inj_on_subset [of j_id "set (jobs d)"])
  then have "sorted_wrt (<) (map j_id (sort_key j_id (filter (eligible d) (jobs d))))"
    by (simp add: strict_sorted_iff)
  then have "sorted_wrt (\<lambda>a b. j_id a < j_id b) (sort_key j_id (filter (eligible d) (jobs d)))"
    by (simp add: sorted_wrt_map)
  from sorted_wrt_sort_key [OF this, of j_created_at] show ?thesis
    by (simp add: eligible_rows_def after_cursor_of)
qed

lemma page_after:
  assumes "wf_db d" "m < length (eligible_rows d)"
  shows "promotable_waiting (Some (cursor_of (eligible_rows d ! m))) d =
    take resume_sweep_limit (drop (Suc m) (eligible_rows d))"
proof -
  have "filter (after_cursor (Some (cursor_of (eligible_rows d ! m)))) (eligible_rows d) =
      drop (Suc m) (eligible_rows d)"
    by (rule sorted_wrt_filter_after [OF eligible_rows_sorted [OF assms(1)] _ _ assms(2)])
      (auto simp: after_cursor_of)
  then show ?thesis by (simp add: promotable_eq)
qed

text \<open>The pages successive passes look at while the rows themselves do not change.\<close>

definition next_cursor :: "job list \<Rightarrow> resume_cursor option" where
  "next_cursor rows = (if length rows < resume_sweep_limit then None else Some (cursor_of (last rows)))"

primrec pages :: "nat \<Rightarrow> resume_cursor option \<Rightarrow> db \<Rightarrow> job list list" where
  "pages 0 cursor d = []"
| "pages (Suc n) cursor d =
     (let rows = promotable_waiting cursor d in rows # pages n (next_cursor rows) d)"

lemma resume_cursor: "fst (resume_unblocked_waiting_once cfg now flags cursor d) = next_cursor (promotable_waiting cursor d)"
  by (auto simp: resume_unblocked_waiting_once_def Let_def next_cursor_def cursor_of_def resume_sweep_limit_def)

lemma pages_cover:
  assumes wf: "wf_db d"
    and page: "promotable_waiting cursor d = take resume_sweep_limit (drop m (eligible_rows d))"
    and n: "length (eligible_rows d) < m + n * resume_sweep_limit"
    and m: "m \<le> length (eligible_rows d)"
  shows "set (drop m (eligible_rows d)) \<subseteq> set (concat (pages n cursor d))"
  using page n m
proof (induction n arbitrary: cursor m)
  case (Suc n)
  let ?L = "eligible_rows d" and ?k = resume_sweep_limit
  have k: "0 < ?k" by (simp add: resume_sweep_limit_def)
  define rows where "rows = take ?k (drop m ?L)"
  have split: "set (drop m ?L) = set rows \<union> set (drop (m + ?k) ?L)"
    using arg_cong [OF append_take_drop_id [of ?k "drop m ?L"], of set]
    by (simp add: rows_def add.commute)
  show ?case
  proof (cases "m + ?k \<le> length ?L")
    case True
    then have len: "length rows = ?k" by (simp add: rows_def)
    have "last rows = ?L ! (m + ?k - 1)" using True k len by (simp add: rows_def last_conv_nth)
    then have "next_cursor rows = Some (cursor_of (?L ! (m + ?k - 1)))" using len by (simp add: next_cursor_def)
    moreover have "promotable_waiting (Some (cursor_of (?L ! (m + ?k - 1)))) d = take ?k (drop (m + ?k) ?L)"
      using page_after [OF wf, of "m + ?k - 1"] True k by simp
    ultimately have "set (drop (m + ?k) ?L) \<subseteq> set (concat (pages n (next_cursor rows) d))"
      using Suc.IH [of "next_cursor rows" "m + ?k"] Suc.prems(2) True by (simp add: algebra_simps)
    then show ?thesis using split Suc.prems(1) by (auto simp: rows_def Let_def)
  next
    case False
    then show ?thesis using split Suc.prems(1) by (auto simp: rows_def Let_def)
  qed
qed simp

text \<open>
  The rotating cursor starves no one: starting from the oldest row, every waiting
  job whose parents are completed appears on a page within \<open>n\<close> passes, as soon as \<open>n\<close> pages of
  two hundred are more than the rows there are, however many of them a pause keeps on the list.
\<close>

theorem resume_sweep_fair:
  assumes "wf_db d" "j \<in> set (jobs d)" "j_status j = WAITING" "\<not> has_unmet_parent d (j_id j)"
    and "length (filter (eligible d) (jobs d)) < n * 200"
  shows "\<exists>page \<in> set (pages n None d). j \<in> set page"
proof -
  have "j \<in> set (eligible_rows d)" using assms(2-4) by (simp add: eligible_rows_def eligible_def)
  moreover have "promotable_waiting None d = take resume_sweep_limit (drop 0 (eligible_rows d))"
    by (simp add: promotable_eq after_cursor_def)
  moreover have "length (eligible_rows d) = length (filter (eligible d) (jobs d))"
    by (simp add: eligible_rows_def)
  ultimately show ?thesis
    using pages_cover [OF assms(1), of None 0 n] assms(5) by (auto simp: resume_sweep_limit_def)
qed

theorem resume_sweep_fair_witness:
  "\<exists>page \<in> set (pages 1 None (sample_db [sample_job 1 WAITING] [])). sample_job 1 WAITING \<in> set page"
  using resume_sweep_fair [of "sample_db [sample_job 1 WAITING] []" "sample_job 1 WAITING" 1]
    wf_sample [of "[sample_job 1 WAITING]" "[]"]
  by (simp add: has_unmet_parent_def eligible_def del: pages.simps)

lemma resume_one_effect:
  assumes wf: "wf_db d" and c: "job_by_id d (j_id c) = Some c" "j_status c = WAITING"
  shows "if find_blocking_pause flags (j_id c) d = None
    then resume_one cfg now flags c d = submit cfg now c (snd (promote_waiting_to_pending now (j_id c) d))
    else resume_one cfg now flags c d = d"
proof -
  have "fst (promote_waiting_to_pending now (j_id c) d)"
    using c promote.cas_wins [OF wf] by (simp add: job_is_def)
  then show ?thesis by (simp add: resume_one_def promote_child_def Let_def case_prod_beta)
qed

lemma resume_fold:
  assumes "wf_db d" "distinct (map j_id rows)"
    and "\<forall>c \<in> set rows. job_by_id d (j_id c) = Some c \<and> j_status c = WAITING"
    and "d' = fold (resume_one cfg now flags) rows d"
  shows "map o_payload (outbox_events d') = map o_payload (outbox_events d)
      @ map job_submitted_payload (filter (\<lambda>c. find_blocking_pause flags (j_id c) d = None) rows)
    \<and> (\<forall>c \<in> set rows. find_blocking_pause flags (j_id c) d = None \<longrightarrow> pending d' (j_id c))
    \<and> (\<forall>k. (\<forall>c \<in> set rows. k = j_id c \<longrightarrow> find_blocking_pause flags k d \<noteq> None) \<longrightarrow> job_by_id d' k = job_by_id d k)"
  using assms
proof (induction rows arbitrary: d)
  case (Cons c rows)
  let ?d = "resume_one cfg now flags c d" and ?free = "\<lambda>k. find_blocking_pause flags k d = None"
  let ?p = "snd (promote_waiting_to_pending now (j_id c) d)"
  have c: "job_by_id d (j_id c) = Some c" "j_status c = WAITING" using Cons.prems(3) by auto
  have eff: "?d = (if ?free (j_id c) then submit cfg now c ?p else d)"
    using resume_one_effect [OF Cons.prems(1) c] by (auto split: if_splits)
  have wf: "wf_db ?d"
    using Cons.prems(1) promote.cas_inv [OF Cons.prems(1)] by (simp add: eff submit_def wf_outbox_add)
  have deps: "job_dependencies ?d = job_dependencies d" by (simp add: eff)
  have free: "find_blocking_pause flags k ?d = find_blocking_pause flags k d" for k
    using deps by (rule find_blocking_pause_deps_only)
  have other: "job_by_id ?d k = job_by_id d k" if "k \<noteq> j_id c \<or> \<not> ?free k" for k
    using that by (cases "job_by_id d k") (auto simp: eff job_by_id_promote dest: get_by_SomeD)
  have pend: "pending ?d (j_id c)" if "?free (j_id c)"
    using that c by (simp add: eff job_is_def job_by_id_promote)
  have out: "j_id c \<notin> j_id ` set rows" using Cons.prems(2) by auto
  have "\<forall>x \<in> set rows. job_by_id ?d (j_id x) = Some x \<and> j_status x = WAITING"
    using Cons.prems(3) other out by (auto simp: image_iff)
  note IH = Cons.IH [OF wf _ this, unfolded free]
  have pay: "map o_payload (outbox_events ?d) =
      map o_payload (outbox_events d) @ (if ?free (j_id c) then [job_submitted_payload c] else [])"
    by (simp add: eff submit_outbox)
  have IH': "map o_payload (outbox_events d') = map o_payload (outbox_events ?d)
      @ map job_submitted_payload (filter (\<lambda>c. ?free (j_id c)) rows)"
    "\<forall>c \<in> set rows. ?free (j_id c) \<longrightarrow> pending d' (j_id c)"
    "\<And>k. \<forall>c \<in> set rows. k = j_id c \<longrightarrow> \<not> ?free k \<Longrightarrow> job_by_id d' k = job_by_id ?d k"
    using IH Cons.prems(2,4) by auto
  have "job_by_id d' (j_id c) = job_by_id ?d (j_id c)" using IH'(3) out by auto
  then have "?free (j_id c) \<longrightarrow> pending d' (j_id c)" using pend by (auto simp: job_is_def)
  then show ?case using IH' pay other by auto
qed simp

text \<open>
  One pass of the resume sweep turns exactly the unpaused jobs of its page pending,
  each with one submission event, in page order; everything on a page has all its parents
  completed, and no other job changes.
\<close>

theorem resume_sweep_promotes:
  assumes "wf_db d"
  shows "let page = promotable_waiting cursor d;
             free = filter (\<lambda>c. find_blocking_pause flags (j_id c) d = None) page;
             d' = snd (resume_unblocked_waiting_once cfg now flags cursor d)
    in map o_payload (outbox_events d') = map o_payload (outbox_events d) @ map job_submitted_payload free
       \<and> (\<forall>c \<in> set free. pending d' (j_id c))
       \<and> (\<forall>k. k \<notin> j_id ` set free \<longrightarrow> job_by_id d' k = job_by_id d k)
       \<and> (\<forall>c \<in> set page. \<forall>p. dep_edge d (j_id c) p \<longrightarrow> job_is (\<lambda>j. j_status j = COMPLETED) d p)"
proof -
  let ?page = "promotable_waiting cursor d"
  have rows: "c \<in> set (jobs d) \<and> j_status c = WAITING \<and> \<not> has_unmet_parent d (j_id c)" if "c \<in> set ?page" for c
    using that by (auto simp: promotable_waiting_def dest!: in_set_takeD)
  have "distinct (map j_id (eligible_rows d))"
    using assms by (simp add: eligible_rows_def wf_db_def distinct_map distinct_filter inj_on_subset [of j_id "set (jobs d)"])
  then have dist: "distinct (map j_id ?page)"
    by (simp add: promotable_eq distinct_map_filter flip: take_map)
  have by_id: "\<forall>c \<in> set ?page. job_by_id d (j_id c) = Some c \<and> j_status c = WAITING"
    using rows wf_job_by_id [OF assms] by blast
  have "job_is (\<lambda>j. j_status j = COMPLETED) d p" if "c \<in> set ?page" "dep_edge d (j_id c) p" for c p
  proof -
    have "p \<in> j_id ` set (jobs d)" using that(2) assms by (auto simp: dep_edge_def wf_db_def)
    then obtain j where "job_by_id d p = Some j" by (cases "job_by_id d p") (auto simp: get_by_None_iff)
    then show ?thesis
      using that(2) rows [OF that(1)] by (auto simp: has_unmet_parent_def dep_edge_def job_is_def)
  qed
  moreover note eff = resume_fold [OF assms dist by_id refl, of cfg now flags]
  moreover have "job_by_id (fold (resume_one cfg now flags) ?page d) k = job_by_id d k"
    if "k \<notin> j_id ` set (filter (\<lambda>c. find_blocking_pause flags (j_id c) d = None) ?page)" for k
  proof -
    have "\<forall>c \<in> set ?page. k = j_id c \<longrightarrow> find_blocking_pause flags k d \<noteq> None" using that by auto
    with eff show ?thesis by blast
  qed
  ultimately show ?thesis by (simp add: resume_unblocked_waiting_once_def Let_def)
qed

theorem resume_sweep_promotes_witness:
  "pending (snd (resume_unblocked_waiting_once default_settings 5 (PauseFlags []) None
     (sample_db [sample_job 1 WAITING] []))) 1"
proof -
  have "wf_db (sample_db [sample_job 1 WAITING] [])" by (rule wf_sample) simp_all
  from resume_sweep_promotes [OF this, of None "PauseFlags []" default_settings 5] show ?thesis
    by (simp add: Let_def promotable_waiting_def has_unmet_parent_def after_cursor_def resume_sweep_limit_def)
qed

end
