(* ===== verification/Saga.thy ===== *)
theory Saga
  imports Dependency_Resolver
begin

text \<open>
  Sagas: \<open>repositories/saga.py\<close>, \<open>services/saga.py\<close> and \<open>workers/saga_coordinator.py\<close>. A
  saga is a chain of jobs; the coordinator completes it, or rolls it back by cancelling the
  steps to come and queueing one compensation job per completed step, newest first, and
  settles it once every compensation job is terminal.
\<close>

section \<open>Repository\<close>

definition step_order :: "job list \<Rightarrow> job list" where
  "step_order rows =
     sort_key (\<lambda>j. if j_saga_step_index j = None then 1 else 0 :: nat)
       (sort_key (\<lambda>j. case j_saga_step_index j of None \<Rightarrow> 0 | Some i \<Rightarrow> i)
         (sort_key j_created_at (sort_key j_id rows)))"

definition saga_jobs :: "uuid \<Rightarrow> db \<Rightarrow> job list" where
  "saga_jobs sid d = step_order (filter (\<lambda>j. j_saga_id j = Some sid) (jobs d))"

definition completed_steps :: "uuid \<Rightarrow> db \<Rightarrow> job list" where
  "completed_steps sid d =
     step_order (filter (\<lambda>j. j_saga_id j = Some sid \<and> j_status j = COMPLETED) (jobs d))"

definition waiting_steps :: "uuid \<Rightarrow> db \<Rightarrow> job list" where
  "waiting_steps sid d =
     filter (\<lambda>j. j_saga_id j = Some sid \<and> (j_status j = WAITING \<or> j_status j = PENDING)) (jobs d)"

definition saga_get_for_tenant :: "uuid \<Rightarrow> uuid \<Rightarrow> uuid option \<Rightarrow> db \<Rightarrow> saga option" where
  "saga_get_for_tenant sid tenant user d =
     find (\<lambda>s. s_id s = sid \<and> s_tenant_id s = tenant
        \<and> (case user of None \<Rightarrow> True
           | Some u \<Rightarrow> \<exists>j \<in> set (jobs d). j_user_id j = u \<and> j_saga_id j = Some (s_id s))) (sagas d)"

definition saga_create :: "time \<Rightarrow> uuid \<Rightarrow> string \<Rightarrow> db \<Rightarrow> saga \<times> db" where
  "saga_create now tenant name d =
     (let s = \<lparr>s_id = next_uuid d, s_tenant_id = tenant, s_name = name, s_status = SagaRunning,
               s_created_at = now, s_completed_at = None\<rparr>
      in (s, d\<lparr>sagas := sagas d @ [s], next_uuid := Suc (next_uuid d)\<rparr>))"

text \<open>Assigning columns of one saga through the session's identity map, then flushing.\<close>

definition saga_update :: "uuid \<Rightarrow> (saga \<Rightarrow> saga) \<Rightarrow> db \<Rightarrow> db" where
  "saga_update sid f d = d\<lparr>sagas := update_where (\<lambda>s. s_id s = sid) f (sagas d)\<rparr>"

section \<open>Service\<close>

record saga_step =
  st_type :: string
  st_payload :: "dict option"
  st_priority :: int

definition step_request :: "uuid \<Rightarrow> uuid \<Rightarrow> uuid \<Rightarrow> nat \<Rightarrow> uuid option \<Rightarrow> saga_step \<Rightarrow> create_req" where
  "step_request user tenant sid index prev step = \<lparr>
     r_user_id = user, r_tenant_id = tenant, r_job_type = st_type step, r_payload = st_payload step,
     r_idempotency_key = None, r_priority = st_priority step, r_max_attempts = None,
     r_dependencies = (case prev of None \<Rightarrow> [] | Some p \<Rightarrow> [p]),
     r_saga_id = Some sid, r_saga_step_index = Some (int index)\<rparr>"

fun create_steps ::
    "settings \<Rightarrow> call_ctx \<Rightarrow> uuid \<Rightarrow> uuid \<Rightarrow> uuid \<Rightarrow> nat \<Rightarrow> uuid option \<Rightarrow> saga_step list \<Rightarrow> db
      \<Rightarrow> app_error + db" where
  "create_steps cfg ctx user tenant sid index prev [] d = Inr d"
| "create_steps cfg ctx user tenant sid index prev (step # steps) d =
     (case create_job cfg ctx (step_request user tenant sid index prev step) d d of
        Inl e \<Rightarrow> Inl e
      | Inr (j, d1) \<Rightarrow> create_steps cfg ctx user tenant sid (Suc index) (Some (j_id j)) steps d1)"

definition create_saga ::
    "settings \<Rightarrow> call_ctx \<Rightarrow> uuid \<Rightarrow> uuid \<Rightarrow> string \<Rightarrow> saga_step list \<Rightarrow> db \<Rightarrow> app_error + (saga \<times> db)" where
  "create_saga cfg ctx user tenant name steps d =
     (if steps = [] then Inl (RequestValidationError ''Saga must have at least one step'')
      else let (s, d1) = saga_create (c_now ctx) tenant name d
           in case create_steps cfg ctx user tenant (s_id s) 0 None steps d1 of
                Inl e \<Rightarrow> Inl e
              | Inr d2 \<Rightarrow>
                  Inr (s, audit_log_write ''saga.created'' tenant
                    (no_args\<lparr>aa_user_id := Some user, aa_resource_type := Some ''saga'',
                       aa_resource_id := Some (uuid_str (s_id s)),
                       aa_extra_data := Some [(''name'', JStr name),
                         (''step_count'', JInt (int (length steps)))]\<rparr>) d2))"

section \<open>Coordinator\<close>

definition compensate_suffix :: string where
  "compensate_suffix = ''.compensate''"

definition is_compensation :: "job \<Rightarrow> bool" where
  "is_compensation j \<longleftrightarrow>
     length compensate_suffix \<le> length (j_type j)
     \<and> drop (length (j_type j) - length compensate_suffix) (j_type j) = compensate_suffix"

definition handle_completion :: "time \<Rightarrow> uuid \<Rightarrow> db \<Rightarrow> app_error + db" where
  "handle_completion now sid d =
     (let all_jobs = saga_jobs sid d
      in if all_jobs = [] then Inr d
         else if \<forall>j \<in> set all_jobs. j_status j = COMPLETED then
           (case saga_by_id d sid of
              None \<Rightarrow> Inl AssertionError
            | Some s \<Rightarrow>
                Inr (audit_log_write ''saga.completed'' (s_tenant_id s)
                  (no_args\<lparr>aa_resource_type := Some ''saga'', aa_resource_id := Some (uuid_str sid),
                     aa_extra_data := Some [(''step_count'', JInt (int (length all_jobs)))]\<rparr>)
                  (saga_update sid (\<lambda>s. s\<lparr>s_status := SagaCompleted, s_completed_at := Some now\<rparr>) d)))
         else Inr d)"

definition settle_if_drained :: "time \<Rightarrow> uuid \<Rightarrow> db \<Rightarrow> app_error + db" where
  "settle_if_drained now sid d =
     (let comp_jobs = filter is_compensation (saga_jobs sid d)
      in if \<exists>j \<in> set comp_jobs. \<not> terminal (j_status j) then Inr d
         else
           (let unsuccessful = length (filter (\<lambda>j. j_status j \<noteq> COMPLETED) comp_jobs);
                st = (if unsuccessful = 0 then SagaCompensated else SagaFailed)
            in case saga_by_id d sid of
                 None \<Rightarrow> Inl AssertionError
               | Some s \<Rightarrow>
                   Inr (audit_log_write
                     (if unsuccessful = 0 then ''saga.compensated'' else ''saga.compensation_failed'')
                     (s_tenant_id s)
                     (no_args\<lparr>aa_resource_type := Some ''saga'', aa_resource_id := Some (uuid_str sid),
                        aa_extra_data := Some
                          [(''compensation_steps'', JInt (int (length comp_jobs))),
                           (''dead_lettered'', JInt (int unsuccessful))]\<rparr>)
                     (saga_update sid (\<lambda>s. s\<lparr>s_status := st, s_completed_at := Some now\<rparr>) d))))"

definition cancel_step :: "settings \<Rightarrow> time \<Rightarrow> uuid \<Rightarrow> job \<Rightarrow> nat \<times> db \<Rightarrow> nat \<times> db" where
  "cancel_step cfg now failed w acc =
     (if j_id w = failed then acc
      else (Suc (fst acc), snd (update_status cfg now (j_id w) CANCELLED
              [SetErrorMessage (Some ''saga rollback'')] None None (snd acc))))"

definition compensation_row :: "saga \<Rightarrow> uuid \<Rightarrow> job \<Rightarrow> job" where
  "compensation_row s user done_step =
     (new_job (s_tenant_id s) user (j_type done_step @ compensate_suffix) PENDING)
       \<lparr>j_payload := Some [(''compensates_job_id'', juuid (j_id done_step)), (''saga_id'', juuid (s_id s))],
        j_priority := j_priority done_step, j_max_attempts := j_max_attempts done_step,
        j_trace_id := j_trace_id done_step, j_saga_id := Some (s_id s)\<rparr>"

definition compensate_step :: "settings \<Rightarrow> time \<Rightarrow> saga \<Rightarrow> uuid \<Rightarrow> job \<Rightarrow> db \<Rightarrow> db" where
  "compensate_step cfg now s user done_step d =
     (let (comp, d1) = job_create now (compensation_row s user done_step) d
      in submit cfg now comp d1)"

definition handle_failure :: "settings \<Rightarrow> time \<Rightarrow> uuid \<Rightarrow> uuid \<Rightarrow> uuid \<Rightarrow> db \<Rightarrow> app_error + db" where
  "handle_failure cfg now sid failed user d =
     (case saga_by_id d sid of
        None \<Rightarrow> Inl AssertionError
      | Some s \<Rightarrow>
          (let d1 = saga_update sid (\<lambda>s. s\<lparr>s_status := SagaCompensating\<rparr>) d;
               (cancelled, d2) = fold (cancel_step cfg now failed) (waiting_steps sid d1) (0, d1);
               completed = completed_steps sid d2;
               d3 = fold (compensate_step cfg now s user) (rev completed) d2;
               d4 = audit_log_write ''saga.compensating'' (s_tenant_id s)
                      (no_args\<lparr>aa_resource_type := Some ''saga'', aa_resource_id := Some (uuid_str sid),
                         aa_extra_data := Some
                           [(''failed_job_id'', juuid failed),
                            (''compensations_emitted'', JInt (int (length completed))),
                            (''cancelled_downstream'', JInt (int cancelled))]\<rparr>) d3
           in if completed = [] then settle_if_drained now sid d4 else Inr d4))"

definition coordinator_handle_message :: "settings \<Rightarrow> time \<Rightarrow> json \<Rightarrow> db \<Rightarrow> app_error + db" where
  "coordinator_handle_message cfg now value d =
     (case value of
        JObj m \<Rightarrow>
          if \<not> truthy (jget m ''event'') then Inr d
          else (case message_job_id value of
             Inl e \<Rightarrow> Inl e
           | Inr None \<Rightarrow> Inr d
           | Inr (Some i) \<Rightarrow>
               (case job_by_id d i of
                  None \<Rightarrow> Inr d
                | Some j \<Rightarrow>
                    (case j_saga_id j of
                       None \<Rightarrow> Inr d
                     | Some sid \<Rightarrow>
                         (case saga_by_id d sid of
                            None \<Rightarrow> Inr d
                          | Some s \<Rightarrow>
                              (let is_comp = is_compensation j;
                                   is_done = (jget m ''event'' = JStr ''job.completed'');
                                   is_dlq = (jget m ''event'' = JStr ''job.failed''
                                             \<and> jget m ''dead_lettered'' = JBool True)
                               in if s_status s = SagaRunning \<and> \<not> is_comp then
                                    (if is_done then handle_completion now sid d
                                     else if is_dlq then handle_failure cfg now sid i (j_user_id j) d
                                     else Inr d)
                                  else if s_status s = SagaCompensating \<and> is_comp \<and> (is_done \<or> is_dlq)
                                  then settle_if_drained now sid d
                                  else Inr d)))))
      | _ \<Rightarrow> Inr d)"

section \<open>Invariants\<close>

lemma saga_update_simps [simp]:
  "jobs (saga_update sid f d) = jobs d" "job_dependencies (saga_update sid f d) = job_dependencies d"
  "outbox_events (saga_update sid f d) = outbox_events d" "audit_logs (saga_update sid f d) = audit_logs d"
  "next_uuid (saga_update sid f d) = next_uuid d"
  by (simp_all add: saga_update_def)

lemma wf_saga_update:
  assumes "wf_db d" "\<And>s. s_id (f s) = s_id s"
  shows "wf_db (saga_update sid f d)"
proof -
  have ids: "map s_id (update_where (\<lambda>s. s_id s = sid) f (sagas d)) = map s_id (sagas d)"
    by (rule map_update_where) (rule assms(2))
  then have "s_id ` set (update_where (\<lambda>s. s_id s = sid) f (sagas d)) = s_id ` set (sagas d)"
    by (metis list.set_map)
  then have "\<forall>s \<in> set (update_where (\<lambda>s. s_id s = sid) f (sagas d)). s_id s < next_uuid d"
    using assms(1) by (auto simp: wf_db_def) (metis image_iff)
  then show ?thesis using assms(1) ids by (simp add: saga_update_def wf_db_def)
qed

lemma db_inv_saga_update:
  assumes "db_inv cfg d" "\<And>s. s_id (f s) = s_id s"
  shows "db_inv cfg (saga_update sid f d)"
  using assms wf_saga_update [of d f sid] by (simp add: db_inv_def announced_def stamped_def)

lemma saga_by_id_update:
  assumes "\<And>s. s_id (f s) = s_id s"
  shows "saga_by_id (saga_update sid f d) k =
    map_option (\<lambda>s. if s_id s = sid then f s else s) (saga_by_id d k)"
  using assms by (simp add: saga_update_def get_by_update_where)

lemma db_inv_settle [platform_intros]:
  "db_inv cfg d \<Longrightarrow> settle_if_drained now sid d = Inr d' \<Longrightarrow> db_inv cfg d'"
  by (auto simp: settle_if_drained_def Let_def split: if_splits option.splits
      intro!: db_inv_audit_log_write db_inv_saga_update)

lemma db_inv_handle_completion [platform_intros]:
  "db_inv cfg d \<Longrightarrow> handle_completion now sid d = Inr d' \<Longrightarrow> db_inv cfg d'"
  by (auto simp: handle_completion_def Let_def split: if_splits option.splits
      intro!: db_inv_audit_log_write db_inv_saga_update)

lemma rollback_extra_plain [simp]:
  "\<not> names_started_at [SetErrorMessage m]" "\<not> names_completed_at [SetErrorMessage m]"
  by (simp_all add: names_started_at_def names_completed_at_def)

lemma db_inv_cancel_step:
  "db_inv cfg (snd acc) \<Longrightarrow> db_inv cfg (snd (cancel_step cfg now failed w acc))"
  by (simp add: cancel_step_def db_inv_update_status)

interpretation cancel_steps: inv_step "cancel_step cfg now failed" "\<lambda>acc. db_inv cfg (snd acc)"
  for cfg now failed
  by unfold_locales (rule db_inv_cancel_step)

lemma compensation_row_simps [simp]:
  "j_status (compensation_row s user st) = PENDING"
  "j_type (compensation_row s user st) = j_type st @ compensate_suffix"
  "j_saga_id (compensation_row s user st) = Some (s_id s)"
  "j_tenant_id (compensation_row s user st) = s_tenant_id s"
  "j_user_id (compensation_row s user st) = user"
  by (simp_all add: compensation_row_def new_job_def)

lemma db_inv_compensate_step:
  "db_inv cfg d \<Longrightarrow> db_inv cfg (compensate_step cfg now s user st d)"
  using db_inv_job_create [of cfg d "compensation_row s user st" now]
  by (simp add: compensate_step_def Let_def case_prod_beta db_inv_submit)

interpretation compensate_steps: inv_step "compensate_step cfg now s user" "db_inv cfg" for cfg now s user
  by unfold_locales (rule db_inv_compensate_step)

lemma db_inv_handle_failure [platform_intros]:
  assumes "db_inv cfg d" "handle_failure cfg now sid failed user d = Inr d'"
  shows "db_inv cfg d'"
proof -
  obtain s where s: "saga_by_id d sid = Some s"
    using assms(2) by (auto simp: handle_failure_def split: option.splits)
  define d1 where "d1 = saga_update sid (\<lambda>s. s\<lparr>s_status := SagaCompensating\<rparr>) d"
  define acc where "acc = fold (cancel_step cfg now failed) (waiting_steps sid d1) (0, d1)"
  define d3 where "d3 = fold (compensate_step cfg now s user) (rev (completed_steps sid (snd acc))) (snd acc)"
  have "db_inv cfg d1" unfolding d1_def using assms(1) by (rule db_inv_saga_update) simp
  then have acc: "db_inv cfg (snd acc)"
    unfolding acc_def using cancel_steps.fold_inv [of cfg "(0, d1)"] by simp
  then have "db_inv cfg d3" unfolding d3_def by (rule compensate_steps.fold_inv)
  then show ?thesis
    using assms(2) s acc
    by (auto simp: handle_failure_def Let_def case_prod_beta simp flip: d1_def acc_def d3_def
        split: if_splits intro: db_inv_settle db_inv_audit_log_write)
qed

lemma db_inv_coordinator [platform_intros]:
  assumes inv: "db_inv cfg d" and h: "coordinator_handle_message cfg now v d = Inr d'"
  shows "db_inv cfg d'"
  using h inv unfolding coordinator_handle_message_def Let_def
  by (auto split: json.splits if_splits sum.splits option.splits
      intro: db_inv_handle_completion db_inv_handle_failure db_inv_settle)

section \<open>What a rollback does\<close>

abbreviation cancelled :: "db \<Rightarrow> uuid \<Rightarrow> bool" where
  "cancelled \<equiv> job_is (\<lambda>j. j_status j = CANCELLED)"

abbreviation not_completed :: "db \<Rightarrow> uuid \<Rightarrow> bool" where
  "not_completed \<equiv> job_is (\<lambda>j. j_status j \<noteq> COMPLETED)"

abbreviation done_rows :: "uuid \<Rightarrow> db \<Rightarrow> job list" where
  "done_rows sid d \<equiv> filter (\<lambda>j. j_saga_id j = Some sid \<and> j_status j = COMPLETED) (jobs d)"

lemma filter_update_where:
  "(\<And>x. x \<in> set rows \<Longrightarrow> Q x \<Longrightarrow> \<not> P x \<and> \<not> P (f x)) \<Longrightarrow>
   filter P (update_where Q f rows) = filter P rows"
  by (induction rows) auto

text \<open>Cancelling one job that is not completed: no completed row changes, and nothing is un-cancelled.\<close>

lemma cancel_job_effect:
  fixes cfg :: settings and now :: time and i :: uuid and extra :: "job_assignment list"
    and msg :: "string option" and d :: db
  assumes wf: "wf_db d" and nd: "not_completed d i"
  defines "d' \<equiv> snd (update_status cfg now i CANCELLED extra msg None d)"
  shows "wf_db d'" "done_rows sid d' = done_rows sid d" "cancelled d' i"
    and "cancelled d k \<Longrightarrow> cancelled d' k" "not_completed d k \<Longrightarrow> not_completed d' k"
    and "length (jobs d') = length (jobs d)" "sagas d' = sagas d"
proof -
  obtain j where j: "job_by_id d i = Some j" "j_status j \<noteq> COMPLETED"
    using nd by (auto simp: job_is_def split: option.splits)
  note rows = update_status_rows [OF wf j(1), of cfg now CANCELLED extra msg, folded d'_def]
  show "wf_db d'" "sagas d' = sagas d" by (rule rows(6), rule rows(4))
  obtain reason where r: "jobs d' = rows_after now i CANCELLED extra reason d" using rows(2) by blast
  show "length (jobs d') = length (jobs d)" by (simp add: r rows_after_def written_def)
  let ?C = "cascaded now i CANCELLED extra d"
  have "done_rows sid d' = filter (\<lambda>j. j_saga_id j = Some sid \<and> j_status j = COMPLETED)
      (jobs (written now i CANCELLED extra d))"
    unfolding r rows_after_def
    by (rule filter_update_where) (use cascaded_waiting [OF wf] in \<open>fastforce simp: cancellable_def\<close>)
  also have "\<dots> = done_rows sid d"
    unfolding written_def
    by (simp, rule filter_update_where) (use wf_job_unique [OF wf j(1)] j(2) in auto)
  finally show "done_rows sid d' = done_rows sid d" .
  obtain reason' where by_id: "\<And>k. job_by_id d' k =
     map_option (\<lambda>x. if j_id x \<in> ?C then cancel_values now reason' x else x)
       (job_by_id (written now i CANCELLED extra d) k)"
    using job_by_id_update_status [OF wf j(1), of cfg now CANCELLED extra msg] unfolding d'_def by blast
  show "cancelled d' i" using j by (auto simp: job_is_def by_id job_by_id_written)
  show "cancelled d k \<Longrightarrow> cancelled d' k"
    by (auto simp: job_is_def by_id job_by_id_written split: option.splits)
  show "not_completed d k \<Longrightarrow> not_completed d' k"
    by (auto simp: job_is_def by_id job_by_id_written split: option.splits)
qed

definition kept :: "uuid \<Rightarrow> db \<Rightarrow> db \<Rightarrow> bool" where
  "kept sid d d' \<longleftrightarrow> wf_db d' \<and> done_rows sid d' = done_rows sid d
     \<and> (\<forall>k. cancelled d k \<longrightarrow> cancelled d' k) \<and> (\<forall>k. not_completed d k \<longrightarrow> not_completed d' k)
     \<and> length (jobs d') = length (jobs d) \<and> sagas d' = sagas d"

lemma kept_trans: "kept sid a b \<Longrightarrow> kept sid b c \<Longrightarrow> kept sid a c"
  by (auto simp: kept_def)

lemma cancel_step_kept:
  assumes "wf_db (snd acc)" "not_completed (snd acc) (j_id w)"
  shows "kept sid (snd acc) (snd (cancel_step cfg now failed w acc))
    \<and> (j_id w \<noteq> failed \<longrightarrow> cancelled (snd (cancel_step cfg now failed w acc)) (j_id w))"
  using assms cancel_job_effect [OF assms, where cfg = cfg and now = now
      and extra = "[SetErrorMessage (Some ''saga rollback'')]" and msg = None]
  by (auto simp: cancel_step_def kept_def)

lemma cancel_steps_kept:
  "wf_db (snd acc) \<Longrightarrow> \<forall>w \<in> set ws. not_completed (snd acc) (j_id w) \<Longrightarrow>
   kept sid (snd acc) (snd (fold (cancel_step cfg now failed) ws acc))
   \<and> (\<forall>w \<in> set ws. j_id w \<noteq> failed \<longrightarrow> cancelled (snd (fold (cancel_step cfg now failed) ws acc)) (j_id w))
   \<and> fst (fold (cancel_step cfg now failed) ws acc) = fst acc + length (filter (\<lambda>w. j_id w \<noteq> failed) ws)"
proof (induction ws arbitrary: acc)
  case Nil
  then show ?case by (simp add: kept_def)
next
  case (Cons w ws)
  let ?a = "cancel_step cfg now failed w acc"
  have 1: "kept sid (snd acc) (snd ?a)" "j_id w \<noteq> failed \<Longrightarrow> cancelled (snd ?a) (j_id w)"
    using cancel_step_kept [of acc w] Cons.prems by auto
  have "wf_db (snd ?a)" "\<forall>w \<in> set ws. not_completed (snd ?a) (j_id w)"
    using 1(1) Cons.prems by (auto simp: kept_def)
  note IH = Cons.IH [OF this]
  have "fst ?a = fst acc + (if j_id w \<noteq> failed then 1 else 0)" by (simp add: cancel_step_def)
  then show ?case
    using IH 1 kept_trans [OF 1(1)] by (auto simp: kept_def)
qed

text \<open>The compensation jobs a rollback queues, one per completed step, in the order given.\<close>

definition compensates :: "settings \<Rightarrow> saga \<Rightarrow> uuid \<Rightarrow> db \<Rightarrow> job \<Rightarrow> job \<Rightarrow> bool" where
  "compensates cfg s user d step c \<longleftrightarrow>
     j_type c = j_type step @ compensate_suffix \<and> j_status c = PENDING \<and> j_saga_id c = Some (s_id s)
     \<and> j_user_id c = user \<and> j_tenant_id c = s_tenant_id s
     \<and> j_payload c = Some [(''compensates_job_id'', juuid (j_id step)), (''saga_id'', juuid (s_id s))]
     \<and> (\<exists>e \<in> set (outbox_events d). o_topic e = kafka_topic_job_submitted cfg
          \<and> o_tenant_id e = s_tenant_id s \<and> o_payload e = job_submitted_payload c)"

lemma compensate_step_effect:
  "\<exists>c e. jobs (compensate_step cfg now s user step d) = jobs d @ [c]
     \<and> outbox_events (compensate_step cfg now s user step d) = outbox_events d @ [e]
     \<and> sagas (compensate_step cfg now s user step d) = sagas d
     \<and> compensates cfg s user (compensate_step cfg now s user step d) step c"
  by (auto simp: compensate_step_def Let_def case_prod_beta compensates_def submit_def outbox_add_rows
      compensation_row_def new_job_def)

lemma compensates_mono:
  "compensates cfg s user d step c \<Longrightarrow> set (outbox_events d) \<subseteq> set (outbox_events d') \<Longrightarrow>
   compensates cfg s user d' step c"
  by (auto simp: compensates_def)

lemma compensate_steps_effect:
  "\<exists>cs. jobs (fold (compensate_step cfg now s user) steps d) = jobs d @ cs
     \<and> set (outbox_events d) \<subseteq> set (outbox_events (fold (compensate_step cfg now s user) steps d))
     \<and> sagas (fold (compensate_step cfg now s user) steps d) = sagas d
     \<and> list_all2 (compensates cfg s user (fold (compensate_step cfg now s user) steps d)) steps cs"
proof (induction steps arbitrary: d)
  case (Cons step steps)
  let ?d = "compensate_step cfg now s user step d"
  obtain c e where c: "jobs ?d = jobs d @ [c]" "outbox_events ?d = outbox_events d @ [e]"
    "sagas ?d = sagas d" "compensates cfg s user ?d step c"
    using compensate_step_effect by blast
  obtain cs where cs: "jobs (fold (compensate_step cfg now s user) steps ?d) = jobs ?d @ cs"
     "set (outbox_events ?d) \<subseteq> set (outbox_events (fold (compensate_step cfg now s user) steps ?d))"
     "sagas (fold (compensate_step cfg now s user) steps ?d) = sagas ?d"
     "list_all2 (compensates cfg s user (fold (compensate_step cfg now s user) steps ?d)) steps cs"
    using Cons.IH [of ?d] by blast
  have "jobs (fold (compensate_step cfg now s user) (step # steps) d) = jobs d @ (c # cs)"
    using cs(1) c(1) by simp
  moreover have "list_all2 (compensates cfg s user (fold (compensate_step cfg now s user) (step # steps) d))
      (step # steps) (c # cs)"
    using cs(2,4) compensates_mono [OF c(4)] by simp
  ultimately show ?case using cs(2,3) c(2,3) by auto
qed simp

section \<open>A saga is created as a chain\<close>

fun chain_deps :: "uuid option \<Rightarrow> uuid list \<Rightarrow> job_dependency list" where
  "chain_deps prev [] = []"
| "chain_deps None (i # is) = chain_deps (Some i) is"
| "chain_deps (Some p) (i # is) = \<lparr>d_job_id = i, d_depends_on_job_id = p\<rparr> # chain_deps (Some i) is"

definition step_job :: "uuid \<Rightarrow> nat \<Rightarrow> saga_step \<Rightarrow> job_status \<Rightarrow> job \<Rightarrow> bool" where
  "step_job sid n step st j \<longleftrightarrow>
     j_type j = st_type step \<and> j_saga_id j = Some sid \<and> j_saga_step_index j = Some (int n) \<and> j_status j = st"

lemma step_request_simps [simp]:
  "r_idempotency_key (step_request u t sid n prev step) = None"
  "r_dependencies (step_request u t sid n prev step) = (case prev of None \<Rightarrow> [] | Some p \<Rightarrow> [p])"
  "r_job_type (step_request u t sid n prev step) = st_type step"
  "r_saga_id (step_request u t sid n prev step) = Some sid"
  "r_saga_step_index (step_request u t sid n prev step) = Some (int n)"
  by (simp_all add: step_request_def)

lemma create_step:
  assumes c: "create_job cfg ctx (step_request u t sid n prev step) d d = Inr (j, d1)"
    and prev: "\<And>p. prev = Some p \<Longrightarrow> not_completed d p"
  shows "jobs d1 = jobs d @ [j]" "step_job sid n step (if prev = None then PENDING else WAITING) j"
    and "job_dependencies d1 = job_dependencies d @ chain_deps prev [j_id j]"
    and "map o_payload (outbox_events d1) = map o_payload (outbox_events d) @ (if prev = None then [job_submitted_payload j] else [])"
proof -
  obtain parents where p: "load_parents (case prev of None \<Rightarrow> [] | Some p \<Rightarrow> [p]) d = Inr parents"
      "j = (create_row cfg ctx (step_request u t sid n prev step)
         (initial_status ctx (case prev of None \<Rightarrow> [] | Some p \<Rightarrow> [p]) parents d))\<lparr>j_id := next_uuid d,
          j_created_at := c_now ctx, j_updated_at := c_now ctx\<rparr>"
      "jobs d1 = jobs d @ [j]"
      "j_status j = (if (\<exists>p \<in> set parents. j_status p \<noteq> COMPLETED)
          \<or> c_has_dep_repo ctx \<and> (\<exists>p \<in> set parents. find_blocking_pause (c_flags ctx) (j_id p) d \<noteq> None)
        then WAITING else PENDING)"
      "map o_payload (outbox_events d1) = map o_payload (outbox_events d)
        @ (if j_status j = PENDING then [job_submitted_payload j] else [])"
      "job_dependencies d1 = job_dependencies d
        @ map (\<lambda>p. \<lparr>d_job_id = j_id j, d_depends_on_job_id = p\<rparr>) (case prev of None \<Rightarrow> [] | Some p \<Rightarrow> [p])"
    using create_job_fresh [OF c] by auto
  have st: "j_status j = (if prev = None then PENDING else WAITING)"
  proof (cases prev)
    case None
    then show ?thesis using p(1,4) by simp
  next
    case (Some q)
    then have "\<exists>x \<in> set parents. j_status x \<noteq> COMPLETED"
      using p(1) prev [OF Some] by (auto simp: job_is_def split: option.splits)
    then show ?thesis using p(4) Some by simp
  qed
  show "jobs d1 = jobs d @ [j]" by (rule p(3))
  show "step_job sid n step (if prev = None then PENDING else WAITING) j"
    unfolding step_job_def st [symmetric] by (subst p(2), subst p(2), subst p(2)) (simp add: create_row_def new_job_def)
  show "job_dependencies d1 = job_dependencies d @ chain_deps prev [j_id j]"
    using p(6) by (cases prev) simp_all
  show "map o_payload (outbox_events d1) = map o_payload (outbox_events d) @ (if prev = None then [job_submitted_payload j] else [])"
    using p(5) by (simp add: st)
qed

lemma chain_deps_Cons: "chain_deps prev (i # is) = chain_deps prev [i] @ chain_deps (Some i) is"
  by (cases prev) simp_all

lemma create_steps_chain:
  assumes "create_steps cfg ctx u t sid n prev steps d = Inr d'" "db_inv cfg d"
    and "\<And>p. prev = Some p \<Longrightarrow> not_completed d p"
  shows "\<exists>js. jobs d' = jobs d @ js \<and> length js = length steps
    \<and> (\<forall>k < length steps. step_job sid (n + k) (steps ! k) (if prev = None \<and> k = 0 then PENDING else WAITING) (js ! k))
    \<and> job_dependencies d' = job_dependencies d @ chain_deps prev (map j_id js)
    \<and> map o_payload (outbox_events d') = map o_payload (outbox_events d)
        @ (if prev = None \<and> steps \<noteq> [] then [job_submitted_payload (js ! 0)] else [])"
  using assms
proof (induction steps arbitrary: n prev d)
  case (Cons step steps)
  obtain j d1 where c: "create_job cfg ctx (step_request u t sid n prev step) d d = Inr (j, d1)"
      "create_steps cfg ctx u t sid (Suc n) (Some (j_id j)) steps d1 = Inr d'"
    using Cons.prems(1) by (auto split: sum.splits)
  note one = create_step [OF c(1) Cons.prems(3)]
  have inv1: "db_inv cfg d1" using db_inv_create_job [OF Cons.prems(2) _ c(1)] by simp
  then have "job_by_id d1 (j_id j) = Some j" using wf_job_by_id [of d1 j] one(1) by (simp add: db_inv_def)
  then have "not_completed d1 (j_id j)" using one(2) by (simp add: job_is_def step_job_def)
  then obtain js where js: "jobs d' = jobs d1 @ js" "length js = length steps"
      "\<forall>k < length steps. step_job sid (Suc n + k) (steps ! k) WAITING (js ! k)"
      "job_dependencies d' = job_dependencies d1 @ chain_deps (Some (j_id j)) (map j_id js)"
      "map o_payload (outbox_events d') = map o_payload (outbox_events d1)"
    using Cons.IH [OF c(2) inv1] by auto
  have "step_job sid (n + k) ((step # steps) ! k) (if prev = None \<and> k = 0 then PENDING else WAITING) ((j # js) ! k)"
    if "k < length (step # steps)" for k
    using that one(2) js(3) by (cases k) auto
  moreover have "job_dependencies d' = job_dependencies d @ chain_deps prev (map j_id (j # js))"
    using js(4) one(3) chain_deps_Cons [of prev "j_id j" "map j_id js"] by simp
  ultimately show ?case using js(1,2,5) one(1,4) by (intro exI [of _ "j # js"]) auto
qed simp

lemma saga_create_simps [simp]:
  "jobs (snd (saga_create now t n d)) = jobs d"
  "job_dependencies (snd (saga_create now t n d)) = job_dependencies d"
  "outbox_events (snd (saga_create now t n d)) = outbox_events d"
  "s_id (fst (saga_create now t n d)) = next_uuid d" "s_status (fst (saga_create now t n d)) = SagaRunning"
  "sagas (snd (saga_create now t n d)) = sagas d @ [fst (saga_create now t n d)]"
  by (simp_all add: saga_create_def Let_def)

lemma db_inv_saga_create: "db_inv cfg d \<Longrightarrow> db_inv cfg (snd (saga_create now t n d))"
  by (auto simp: db_inv_def wf_db_def announced_def stamped_def saga_create_def Let_def less_Suc_eq)

lemma db_inv_create_steps:
  "create_steps cfg ctx u t sid n prev steps d = Inr d' \<Longrightarrow> db_inv cfg d \<Longrightarrow> db_inv cfg d'"
proof (induction steps arbitrary: n prev d)
  case (Cons step steps)
  then obtain j d1 where c: "create_job cfg ctx (step_request u t sid n prev step) d d = Inr (j, d1)"
      "create_steps cfg ctx u t sid (Suc n) (Some (j_id j)) steps d1 = Inr d'"
    by (auto split: sum.splits)
  have "db_inv cfg d1" using db_inv_create_job [OF Cons.prems(2) _ c(1)] by simp
  then show ?case by (rule Cons.IH [OF c(2)])
qed simp

lemma create_saga_cases:
  assumes "create_saga cfg ctx user tenant name steps d = Inr (s, d')"
  obtains d2 where "steps \<noteq> []" "s = fst (saga_create (c_now ctx) tenant name d)"
    "create_steps cfg ctx user tenant (s_id s) 0 None steps (snd (saga_create (c_now ctx) tenant name d)) = Inr d2"
    "jobs d' = jobs d2" "job_dependencies d' = job_dependencies d2" "outbox_events d' = outbox_events d2"
    "sagas d' = sagas d2" "db_inv cfg d2 \<Longrightarrow> db_inv cfg d'"
  using assms by (auto simp: create_saga_def Let_def case_prod_beta db_inv_audit_log_write
      split: if_splits sum.splits)

lemma db_inv_create_saga [platform_intros]:
  assumes "db_inv cfg d" "create_saga cfg ctx user tenant name steps d = Inr (s, d')"
  shows "db_inv cfg d'"
  using assms(2)
proof (cases rule: create_saga_cases)
  case (1 d2)
  then show ?thesis using db_inv_create_steps db_inv_saga_create [OF assms(1)] by blast
qed

text \<open>
  A saga is created as a chain of jobs, one per step in order: each carries the saga
  and its index, each depends on exactly the one before it, the first is pending and the only
  one announced, the others wait.
\<close>

theorem create_saga_chain:
  assumes "db_inv cfg d" "create_saga cfg ctx user tenant name steps d = Inr (s, d')"
  shows "\<exists>js. jobs d' = jobs d @ js \<and> length js = length steps \<and> steps \<noteq> [] \<and> s_status s = SagaRunning
    \<and> (\<forall>k < length steps. step_job (s_id s) k (steps ! k) (if k = 0 then PENDING else WAITING) (js ! k))
    \<and> job_dependencies d' = job_dependencies d @ chain_deps None (map j_id js)
    \<and> map o_payload (outbox_events d') = map o_payload (outbox_events d) @ [job_submitted_payload (js ! 0)]"
  using assms(2)
proof (cases rule: create_saga_cases)
  case (1 d2)
  then show ?thesis
    using create_steps_chain [OF 1(3) db_inv_saga_create [OF assms(1)]] by simp
qed

definition sample_step :: "string \<Rightarrow> saga_step" where
  "sample_step ty = \<lparr>st_type = ty, st_payload = None, st_priority = 0\<rparr>"

theorem create_saga_chain_witness:
  "\<exists>s d' js. create_saga default_settings sample_ctx 8 7 ''nightly'' [sample_step ''csv_upload'', sample_step ''report_gen'']
       (sample_db [] []) = Inr (s, d') \<and> jobs d' = js \<and> length js = 2
     \<and> j_status (js ! 0) = PENDING \<and> j_status (js ! 1) = WAITING
     \<and> job_dependencies d' = [\<lparr>d_job_id = j_id (js ! 1), d_depends_on_job_id = j_id (js ! 0)\<rparr>]"
proof -
  let ?steps = "[sample_step ''csv_upload'', sample_step ''report_gen'']"
  let ?call = "create_saga default_settings sample_ctx 8 7 ''nightly'' ?steps (sample_db [] [])"
  have "\<exists>s d'. ?call = Inr (s, d')"
    by (simp add: create_saga_def saga_create_def create_job_def insert_job_def step_request_def job_create_def
        sample_ctx_def Let_def dep_add_def finish_create_def create_audit_def audit_log_write_def submit_def
        outbox_add_def initial_status_def no_args_def none_if_empty_def sample_db_def empty_db_def create_row_def new_job_def
        sample_step_def)
  then obtain s d' where c: "?call = Inr (s, d')" by blast
  have inv: "db_inv default_settings (sample_db [] [])" by (rule db_inv_sample) auto
  obtain js where js: "jobs d' = js" "length js = 2"
      "\<forall>k < 2. step_job (s_id s) k (?steps ! k) (if k = 0 then PENDING else WAITING) (js ! k)"
      "job_dependencies d' = chain_deps None (map j_id js)"
    using create_saga_chain [OF inv c] by auto
  moreover obtain a b where "js = [a, b]" using js(2) by (metis (no_types) length_0_conv length_Suc_conv numeral_2_eq_2)
  moreover have "j_status (js ! 0) = PENDING" "j_status (js ! 1) = WAITING"
    using js(3) [rule_format, of 0] js(3) [rule_format, of 1] by (simp_all add: step_job_def)
  ultimately show ?thesis using c by auto
qed

section \<open>Rolling back and settling\<close>

lemma settle_cases:
  assumes "settle_if_drained now sid d = Inr d'"
  shows "jobs d' = jobs d \<and> outbox_events d' = outbox_events d \<and> job_dependencies d' = job_dependencies d
    \<and> (d' = d \<or> (\<exists>st. st \<in> {SagaCompensated, SagaFailed}
        \<and> sagas d' = sagas (saga_update sid (\<lambda>s. s\<lparr>s_status := st, s_completed_at := Some now\<rparr>) d)))"
  using assms by (auto simp: settle_if_drained_def Let_def split: if_splits option.splits)

lemma set_step_order [simp]: "set (step_order rows) = set rows"
  by (simp add: step_order_def)

lemma compensates_frame:
  "compensates cfg s user d step c \<Longrightarrow> outbox_events d = outbox_events d' \<Longrightarrow> compensates cfg s user d' step c"
  by (simp add: compensates_def)

lemma job_is_append: "job_is P d k \<Longrightarrow> jobs d' = jobs d @ cs \<Longrightarrow> job_is P d' k"
  by (auto simp: job_is_def get_by_append split: option.splits)

definition compensating :: "uuid \<Rightarrow> db \<Rightarrow> db" where
  "compensating sid d = saga_update sid (\<lambda>s. s\<lparr>s_status := SagaCompensating\<rparr>) d"

definition after_cancels :: "settings \<Rightarrow> time \<Rightarrow> uuid \<Rightarrow> uuid \<Rightarrow> db \<Rightarrow> db" where
  "after_cancels cfg now sid failed d =
     snd (fold (cancel_step cfg now failed) (waiting_steps sid (compensating sid d)) (0, compensating sid d))"

lemma rollback_cancels:
  assumes wf: "wf_db d"
  shows "kept sid (compensating sid d) (after_cancels cfg now sid failed d)"
    and "\<forall>w \<in> set (waiting_steps sid d). j_id w \<noteq> failed \<longrightarrow> cancelled (after_cancels cfg now sid failed d) (j_id w)"
    and "completed_steps sid (after_cancels cfg now sid failed d) = completed_steps sid d"
proof -
  let ?d1 = "compensating sid d"
  have d1: "jobs ?d1 = jobs d" "waiting_steps sid ?d1 = waiting_steps sid d"
    by (simp_all add: compensating_def waiting_steps_def)
  have wf1: "wf_db ?d1" unfolding compensating_def by (rule wf_saga_update [OF wf]) simp
  have "\<forall>w \<in> set (waiting_steps sid ?d1). not_completed ?d1 (j_id w)"
    using wf_job_by_id [OF wf1] by (auto simp: waiting_steps_def job_is_def)
  then have c: "kept sid ?d1 (after_cancels cfg now sid failed d)
      \<and> (\<forall>w \<in> set (waiting_steps sid d). j_id w \<noteq> failed \<longrightarrow> cancelled (after_cancels cfg now sid failed d) (j_id w))"
    using cancel_steps_kept [of "(0, ?d1)" "waiting_steps sid ?d1" sid cfg now failed] wf1
    unfolding after_cancels_def d1(2) by simp
  then show "kept sid ?d1 (after_cancels cfg now sid failed d)"
    "\<forall>w \<in> set (waiting_steps sid d). j_id w \<noteq> failed \<longrightarrow> cancelled (after_cancels cfg now sid failed d) (j_id w)"
    by simp_all
  show "completed_steps sid (after_cancels cfg now sid failed d) = completed_steps sid d"
    using c d1(1) by (simp add: kept_def completed_steps_def)
qed

lemma handle_failure_returns:
  assumes "wf_db d" "saga_by_id d sid = Some s" "completed_steps sid d \<noteq> []"
  shows "\<exists>d'. handle_failure cfg now sid failed user d = Inr d'"
  using rollback_cancels(3) [OF assms(1), of sid cfg now failed] assms(2,3)
  by (simp add: handle_failure_def Let_def case_prod_beta after_cancels_def compensating_def)

lemma rollback_effect:
  assumes wf: "wf_db d" and h: "handle_failure cfg now sid failed user d = Inr d'"
  obtains s d2 cs where "saga_by_id d sid = Some s"
    "\<forall>w \<in> set (waiting_steps sid d). j_id w \<noteq> failed \<longrightarrow> cancelled d2 (j_id w)"
    "done_rows sid d2 = done_rows sid d" "length (jobs d2) = length (jobs d)"
    "jobs d' = jobs d2 @ cs" "list_all2 (compensates cfg s user d') (rev (completed_steps sid d)) cs"
    "if completed_steps sid d = []
     then sagas d' = sagas (saga_update sid (\<lambda>s. s\<lparr>s_status := SagaCompensating\<rparr>) d) \<or>
       (\<exists>st d4. st \<in> {SagaCompensated, SagaFailed} \<and> sagas d4 = sagas (saga_update sid (\<lambda>s. s\<lparr>s_status := SagaCompensating\<rparr>) d)
          \<and> sagas d' = sagas (saga_update sid (\<lambda>s. s\<lparr>s_status := st, s_completed_at := Some now\<rparr>) d4))
     else sagas d' = sagas (saga_update sid (\<lambda>s. s\<lparr>s_status := SagaCompensating\<rparr>) d)"
    "completed_steps sid d = [] \<and> (\<forall>j \<in> set (jobs d'). j_saga_id j = Some sid \<longrightarrow> \<not> is_compensation j) \<longrightarrow>
     (\<exists>d4. sagas d4 = sagas (saga_update sid (\<lambda>s. s\<lparr>s_status := SagaCompensating\<rparr>) d)
        \<and> sagas d' = sagas (saga_update sid (\<lambda>s. s\<lparr>s_status := SagaCompensated, s_completed_at := Some now\<rparr>) d4))"
proof -
  obtain s where s: "saga_by_id d sid = Some s" using h by (auto simp: handle_failure_def split: option.splits)
  define d1 where "d1 = compensating sid d"
  define d2 where "d2 = after_cancels cfg now sid failed d"
  define d3 where "d3 = fold (compensate_step cfg now s user) (rev (completed_steps sid d2)) d2"
  have d1: "jobs d1 = jobs d" by (simp add: d1_def compensating_def)
  have c: "kept sid d1 d2" "\<forall>w \<in> set (waiting_steps sid d). j_id w \<noteq> failed \<longrightarrow> cancelled d2 (j_id w)"
      and done2: "completed_steps sid d2 = completed_steps sid d"
    unfolding d1_def d2_def by (rule rollback_cancels [OF wf])+
  obtain cs where cs: "jobs d3 = jobs d2 @ cs" "sagas d3 = sagas d2"
      "list_all2 (compensates cfg s user d3) (rev (completed_steps sid d2)) cs"
    using compensate_steps_effect [of cfg now s user "rev (completed_steps sid d2)" d2] by (auto simp: d3_def)
  define args where "args = no_args\<lparr>aa_resource_type := Some ''saga'', aa_resource_id := Some (uuid_str sid),
      aa_extra_data := Some [(''failed_job_id'', juuid failed),
        (''compensations_emitted'', JInt (int (length (completed_steps sid d2)))),
        (''cancelled_downstream'', JInt (int (fst (fold (cancel_step cfg now failed) (waiting_steps sid d1) (0, d1)))))]\<rparr>"
  have "(let d4 = audit_log_write ''saga.compensating'' (s_tenant_id s) args d3
      in if completed_steps sid d2 = [] then settle_if_drained now sid d4 else Inr d4) = Inr d'"
    using h unfolding args_def d3_def d2_def d1_def after_cancels_def compensating_def handle_failure_def s option.case Let_def case_prod_beta .
  note args = this [unfolded done2]
  define d4 where "d4 = audit_log_write ''saga.compensating'' (s_tenant_id s) args d3"
  have d4: "jobs d4 = jobs d3" "sagas d4 = sagas d1" "outbox_events d4 = outbox_events d3"
      "if completed_steps sid d = [] then settle_if_drained now sid d4 = Inr d' else d' = d4"
    using args cs(2) c(1) by (auto simp: d4_def kept_def Let_def split: if_splits)
  have out: "jobs d' = jobs d4 \<and> outbox_events d' = outbox_events d4"
    using d4(4) settle_cases [of now sid d4 d'] by (auto split: if_splits)
  have "list_all2 (compensates cfg s user d') (rev (completed_steps sid d)) cs"
    using cs(3) out d4(3) compensates_frame [of cfg s user d3 _ _ d'] unfolding done2 by (auto elim!: list_all2_mono)
  moreover have "if completed_steps sid d = []
     then sagas d' = sagas d1 \<or> (\<exists>st d4. st \<in> {SagaCompensated, SagaFailed} \<and> sagas d4 = sagas d1
          \<and> sagas d' = sagas (saga_update sid (\<lambda>s. s\<lparr>s_status := st, s_completed_at := Some now\<rparr>) d4))
     else sagas d' = sagas d1"
    using d4 settle_cases [of now sid d4 d'] by (auto split: if_splits)
  moreover have "\<exists>d4. sagas d4 = sagas d1 \<and> sagas d' = sagas (saga_update sid (\<lambda>s. s\<lparr>s_status := SagaCompensated, s_completed_at := Some now\<rparr>) d4)"
    if "completed_steps sid d = [] \<and> (\<forall>j \<in> set (jobs d'). j_saga_id j = Some sid \<longrightarrow> \<not> is_compensation j)"
  proof -
    have "filter is_compensation (saga_jobs sid d4) = []" using that out by (auto simp: saga_jobs_def filter_empty_conv)
    then have "sagas d' = sagas (saga_update sid (\<lambda>s. s\<lparr>s_status := SagaCompensated, s_completed_at := Some now\<rparr>) d4)"
      using d4(4) that by (auto simp: settle_if_drained_def Let_def split: option.splits)
    then show ?thesis using d4(2) by blast
  qed
  ultimately show thesis
    using that [of s d2 cs, folded compensating_def d1_def] s c cs(1) d4(1) out d1 by (simp add: kept_def)
qed

text \<open>
  Property C7. When a step of a saga is dead-lettered, every other step still waiting or pending is
  cancelled, the completed steps stay as they are, and one compensation job per completed step
  is queued with its submission event, the latest step first. If some step had completed the saga is
  then compensating; if none had, and no compensation job is left over, there is nothing to undo and the
  saga is settled at once, as compensated.
\<close>

theorem saga_rollback:
  assumes "wf_db d" "handle_failure cfg now sid failed user d = Inr d'"
  shows "(\<forall>w \<in> set (waiting_steps sid d). j_id w \<noteq> failed \<longrightarrow> cancelled d' (j_id w))
    \<and> done_rows sid d' = done_rows sid d
    \<and> (\<exists>s old cs. saga_by_id d sid = Some s \<and> jobs d' = old @ cs \<and> length old = length (jobs d)
         \<and> list_all2 (compensates cfg s user d') (rev (completed_steps sid d)) cs)
    \<and> (completed_steps sid d \<noteq> [] \<longrightarrow> (\<exists>s. saga_by_id d' sid = Some s \<and> s_status s = SagaCompensating))
    \<and> (completed_steps sid d = [] \<and> (\<forall>j \<in> set (jobs d'). j_saga_id j = Some sid \<longrightarrow> \<not> is_compensation j) \<longrightarrow>
         (\<exists>s. saga_by_id d' sid = Some s \<and> s_status s = SagaCompensated \<and> s_completed_at s = Some now))"
  using assms
proof (cases rule: rollback_effect)
  case (1 s d2 cs)
  have "j_status c = PENDING" if "c \<in> set cs" for c
    using 1(6) that by (auto simp: list_all2_conv_all_nth in_set_conv_nth compensates_def)
  then have "done_rows sid d' = done_rows sid d" using 1(3,5) by (auto simp: filter_empty_conv)
  moreover have "\<forall>w \<in> set (waiting_steps sid d). j_id w \<noteq> failed \<longrightarrow> cancelled d' (j_id w)"
    using 1(2,5) by (blast intro: job_is_append)
  moreover have "\<exists>s. saga_by_id d' sid = Some s \<and> s_status s = SagaCompensating" if "completed_steps sid d \<noteq> []"
  proof -
    have "saga_by_id d' sid = saga_by_id (saga_update sid (\<lambda>s. s\<lparr>s_status := SagaCompensating\<rparr>) d) sid"
      using 1(7) that by simp
    then show ?thesis using 1(1) get_by_SomeD [OF 1(1)] by (simp add: saga_by_id_update)
  qed
  moreover have "\<exists>s. saga_by_id d' sid = Some s \<and> s_status s = SagaCompensated \<and> s_completed_at s = Some now"
    if none: "completed_steps sid d = [] \<and> (\<forall>j \<in> set (jobs d'). j_saga_id j = Some sid \<longrightarrow> \<not> is_compensation j)"
  proof -
    obtain d4 where d4: "sagas d4 = sagas (saga_update sid (\<lambda>s. s\<lparr>s_status := SagaCompensating\<rparr>) d)"
      "sagas d' = sagas (saga_update sid (\<lambda>s. s\<lparr>s_status := SagaCompensated, s_completed_at := Some now\<rparr>) d4)"
      using 1(8) none by blast
    have sid: "s_id s = sid" using get_by_SomeD [OF 1(1)] by simp
    then have "saga_by_id d4 sid = Some (s\<lparr>s_status := SagaCompensating\<rparr>)" using 1(1) d4(1) by (simp add: saga_by_id_update)
    then show ?thesis using d4(2) sid by (simp add: saga_by_id_update)
  qed
  ultimately show ?thesis using 1(1,4,5,6) by blast
qed

definition saga_row :: "uuid \<Rightarrow> job_status \<Rightarrow> int \<Rightarrow> job" where
  "saga_row i st n = (sample_job i st)\<lparr>j_saga_id := Some 9, j_saga_step_index := Some n\<rparr>"

definition saga_db :: "saga_status \<Rightarrow> job list \<Rightarrow> db" where
  "saga_db st rows = (sample_db rows [])\<lparr>sagas := [\<lparr>s_id = 9, s_tenant_id = 7, s_name = ''n'', s_status = st,
     s_created_at = 0, s_completed_at = None\<rparr>]\<rparr>"

lemma saga_row_simps [simp]:
  "j_id (saga_row i st n) = i" "j_status (saga_row i st n) = st" "j_saga_id (saga_row i st n) = Some 9"
  "j_type (saga_row i st n) = ''csv_upload''" "j_user_id (saga_row i st n) = 8"
  by (simp_all add: saga_row_def)

lemma wf_saga_db: "distinct (map j_id rows) \<Longrightarrow> \<forall>j \<in> set rows. j_id j < 100 \<Longrightarrow> wf_db (saga_db st rows)"
  by (simp add: saga_db_def wf_db_def)

theorem saga_rollback_witness:
  "\<exists>d'. handle_failure default_settings 5 9 3 8
       (saga_db SagaRunning [saga_row 2 COMPLETED 0, saga_row 3 DEAD_LETTER 1, saga_row 4 WAITING 2]) = Inr d'
     \<and> cancelled d' 4 \<and> length (jobs d') = 4"
proof -
  let ?d = "saga_db SagaRunning [saga_row 2 COMPLETED 0, saga_row 3 DEAD_LETTER 1, saga_row 4 WAITING 2]"
  have wf: "wf_db ?d" by (rule wf_saga_db) auto
  have w: "waiting_steps 9 ?d = [saga_row 4 WAITING 2]" by (simp add: waiting_steps_def saga_db_def)
  have c: "completed_steps 9 ?d = [saga_row 2 COMPLETED 0]" by (simp add: completed_steps_def saga_db_def step_order_def)
  obtain d' where d': "handle_failure default_settings 5 9 3 8 ?d = Inr d'"
    using handle_failure_returns [OF wf, of 9 _ default_settings 5 3 8] c by (auto simp: saga_db_def)
  from saga_rollback [OF wf d'] show ?thesis
    using d' unfolding w c by (auto simp: saga_db_def list_all2_Cons1)
qed

text \<open>
  A compensating saga settles exactly when its last compensation job has ended: as
  compensated if all of them completed, else as failed; before that nothing changes.
\<close>

theorem saga_settles:
  assumes "saga_by_id d sid = Some s"
  shows "\<exists>d'. settle_if_drained now sid d = Inr d' \<and> jobs d' = jobs d
    \<and> (if \<exists>j \<in> set (jobs d). j_saga_id j = Some sid \<and> is_compensation j \<and> \<not> terminal (j_status j) then d' = d
       else saga_by_id d' sid = Some (s\<lparr>s_completed_at := Some now,
         s_status := (if \<forall>j \<in> set (jobs d). j_saga_id j = Some sid \<and> is_compensation j \<longrightarrow> j_status j = COMPLETED
                      then SagaCompensated else SagaFailed)\<rparr>))"
proof -
  let ?comp = "filter is_compensation (saga_jobs sid d)"
  have comp: "j \<in> set ?comp \<longleftrightarrow> j \<in> set (jobs d) \<and> j_saga_id j = Some sid \<and> is_compensation j" for j
    by (auto simp: saga_jobs_def)
  have sid: "s_id s = sid" using get_by_SomeD [OF assms] by simp
  show ?thesis
  proof (cases "\<exists>j \<in> set ?comp. \<not> terminal (j_status j)")
    case True
    moreover have "\<exists>j \<in> set (jobs d). j_saga_id j = Some sid \<and> is_compensation j \<and> \<not> terminal (j_status j)"
      using True comp by blast
    ultimately show ?thesis by (auto simp: settle_if_drained_def Let_def)
  next
    case False
    then have no: "\<not> (\<exists>j \<in> set (jobs d). j_saga_id j = Some sid \<and> is_compensation j \<and> \<not> terminal (j_status j))"
      using comp by blast
    have all: "length (filter (\<lambda>j. j_status j \<noteq> COMPLETED) ?comp) = 0 \<longleftrightarrow>
        (\<forall>j \<in> set (jobs d). j_saga_id j = Some sid \<and> is_compensation j \<longrightarrow> j_status j = COMPLETED)"
      unfolding length_0_conv filter_empty_conv using comp by blast
    have "saga_by_id (saga_update sid (\<lambda>s. s\<lparr>s_status := st, s_completed_at := Some now\<rparr>) d) sid =
        Some (s\<lparr>s_status := st, s_completed_at := Some now\<rparr>)" for st
      using assms sid by (simp add: saga_by_id_update)
    then show ?thesis
      unfolding if_not_P [OF no]
      using False assms by (auto simp: settle_if_drained_def Let_def simp flip: all)
  qed
qed

definition comp_row :: "uuid \<Rightarrow> job_status \<Rightarrow> job" where
  "comp_row i st = (sample_job i st)\<lparr>j_type := ''csv_upload.compensate'', j_saga_id := Some 9\<rparr>"

theorem saga_settles_witness:
  "\<exists>d'. settle_if_drained 5 9 (saga_db SagaCompensating [comp_row 2 COMPLETED, comp_row 3 DEAD_LETTER]) = Inr d'
     \<and> (\<exists>s. saga_by_id d' 9 = Some s \<and> s_status s = SagaFailed)"
  using saga_settles [where d = "saga_db SagaCompensating [comp_row 2 COMPLETED, comp_row 3 DEAD_LETTER]"
      and sid = 9 and now = 5]
  by (fastforce simp: saga_db_def comp_row_def is_compensation_def compensate_suffix_def)

section \<open>The life of a saga\<close>

inductive saga_moves :: "saga_status \<Rightarrow> saga_status \<Rightarrow> bool" where
  "saga_moves st st"
| "saga_moves SagaRunning SagaCompleted"
| "saga_moves SagaRunning SagaCompensating"
| "saga_moves SagaRunning SagaCompensated"
| "saga_moves SagaRunning SagaFailed"
| "saga_moves SagaCompensating SagaCompensated"
| "saga_moves SagaCompensating SagaFailed"

code_pred saga_moves .

inductive_simps saga_moves_from [simp]:
  "saga_moves SagaCompleted st" "saga_moves SagaFailed st" "saga_moves SagaCompensated st"
  "saga_moves SagaRunning st" "saga_moves SagaCompensating st"

lemma saga_by_id_cong: "sagas d = sagas d' \<Longrightarrow> saga_by_id d k = saga_by_id d' k"
  by simp

lemma rollback_moves:
  assumes "wf_db d" "handle_failure cfg now sid failed user d = Inr d'"
    and "saga_by_id d k = Some s" "s_status s = SagaRunning \<or> k \<noteq> sid"
  shows "\<exists>s'. saga_by_id d' k = Some s' \<and> saga_moves (s_status s) (s_status s')"
  using assms(1,2)
proof (cases rule: rollback_effect)
  case (1 s0 d2 cs)
  have k: "s_id s = k" using get_by_SomeD [OF assms(3)] by simp
  let ?c = "saga_update sid (\<lambda>s. s\<lparr>s_status := SagaCompensating\<rparr>) d"
  have c: "saga_by_id ?c k = Some (if k = sid then s\<lparr>s_status := SagaCompensating\<rparr> else s)"
    using assms(3) k by (simp add: saga_by_id_update)
  have "sagas d' = sagas ?c \<or> (\<exists>st d4. st \<in> {SagaCompensated, SagaFailed} \<and> sagas d4 = sagas ?c
      \<and> sagas d' = sagas (saga_update sid (\<lambda>s. s\<lparr>s_status := st, s_completed_at := Some now\<rparr>) d4))"
    using 1(7) by (auto split: if_splits)
  then show ?thesis
  proof
    assume "sagas d' = sagas ?c"
    then show ?thesis using c assms(4) saga_by_id_cong [of d' ?c k] by (auto intro: saga_moves.intros)
  next
    assume "\<exists>st d4. st \<in> {SagaCompensated, SagaFailed} \<and> sagas d4 = sagas ?c
      \<and> sagas d' = sagas (saga_update sid (\<lambda>s. s\<lparr>s_status := st, s_completed_at := Some now\<rparr>) d4)"
    then obtain st d4 where st: "st \<in> {SagaCompensated, SagaFailed}" "sagas d4 = sagas ?c"
        "sagas d' = sagas (saga_update sid (\<lambda>s. s\<lparr>s_status := st, s_completed_at := Some now\<rparr>) d4)" by blast
    have "saga_by_id d' k = map_option (\<lambda>s. if s_id s = sid then s\<lparr>s_status := st, s_completed_at := Some now\<rparr> else s)
        (saga_by_id ?c k)"
      unfolding st(2) [symmetric] using saga_by_id_cong [OF st(3)] by (simp add: saga_by_id_update)
    then show ?thesis using c st(1) assms(4) k by (auto intro: saga_moves.intros)
  qed
qed

text \<open>
  Property C28. The coordinator moves a saga only forward: from running to completed, compensating or
  (with nothing to undo) settled, from compensating to settled; a settled saga never changes
  again, and a redelivered message about a step of a saga that is no longer running changes
  nothing at all.
\<close>

theorem saga_lifecycle:
  assumes "wf_db d" "coordinator_handle_message cfg now (JObj m) d = Inr d'" "saga_by_id d k = Some s"
  shows "(\<exists>s'. saga_by_id d' k = Some s' \<and> saga_moves (s_status s) (s_status s'))
    \<and> (\<forall>i j. message_job_id (JObj m) = Inr (Some i) \<and> job_by_id d i = Some j \<and> j_saga_id j = Some k
         \<and> \<not> is_compensation j \<and> s_status s \<noteq> SagaRunning \<longrightarrow> d' = d)"
proof -
  have k: "s_id s = k" using get_by_SomeD [OF assms(3)] by simp
  have same: "\<exists>s'. saga_by_id d k = Some s' \<and> saga_moves (s_status s) (s_status s')"
    using assms(3) by (auto intro: saga_moves.intros)
  have settle: "\<exists>s'. saga_by_id d' k = Some s' \<and> saga_moves (s_status s) (s_status s')"
    if "settle_if_drained now sid d = Inr d'" "saga_by_id d sid = Some s0" "s_status s0 = SagaCompensating" for sid s0
    using settle_cases [OF that(1)] that(2,3) assms(3) k
    by (auto simp: saga_by_id_update dest!: saga_by_id_cong [of d' _ k] intro: saga_moves.intros)
  have complete: "\<exists>s'. saga_by_id d' k = Some s' \<and> saga_moves (s_status s) (s_status s')"
    if "handle_completion now sid d = Inr d'" "saga_by_id d sid = Some s0" "s_status s0 = SagaRunning" for sid s0
  proof -
    have "d' = d \<or> sagas d' = sagas (saga_update sid (\<lambda>s. s\<lparr>s_status := SagaCompleted, s_completed_at := Some now\<rparr>) d)"
      using that(1) by (auto simp: handle_completion_def Let_def split: if_splits option.splits)
    then show ?thesis
      using that(2,3) assms(3) k
      by (auto simp: saga_by_id_update dest!: saga_by_id_cong [of d' _ k] intro: saga_moves.intros)
  qed
  have rollback: "\<exists>s'. saga_by_id d' k = Some s' \<and> saga_moves (s_status s) (s_status s')"
    if "handle_failure cfg now sid i u d = Inr d'" "saga_by_id d sid = Some s0" "s_status s0 = SagaRunning" for sid i u s0
    using that assms(3) by (intro rollback_moves [OF assms(1) that(1)]) auto
  have "\<exists>s'. saga_by_id d' k = Some s' \<and> saga_moves (s_status s) (s_status s')"
    using assms(2,3) same settle complete rollback
    unfolding coordinator_handle_message_def json.case Let_def
    by (auto split: if_splits sum.splits option.splits)
  moreover have "d' = d" if "message_job_id (JObj m) = Inr (Some i)" "job_by_id d i = Some j" "j_saga_id j = Some k"
      "\<not> is_compensation j" "s_status s \<noteq> SagaRunning" for i j
    using assms(2,3) that unfolding coordinator_handle_message_def json.case Let_def by (simp split: if_splits)
  ultimately show ?thesis by blast
qed

theorem saga_lifecycle_witness:
  "coordinator_handle_message default_settings 5 (JObj [(''event'', JStr ''job.failed''),
       (''dead_lettered'', JBool True), (''job_id'', juuid 3)])
     (saga_db SagaCompensating [saga_row 2 COMPLETED 0, saga_row 3 DEAD_LETTER 1]) =
   Inr (saga_db SagaCompensating [saga_row 2 COMPLETED 0, saga_row 3 DEAD_LETTER 1])"
proof -
  let ?m = "[(''event'', JStr ''job.failed''), (''dead_lettered'', JBool True), (''job_id'', juuid 3)]"
  let ?d = "saga_db SagaCompensating [saga_row 2 COMPLETED 0, saga_row 3 DEAD_LETTER 1]"
  have id: "message_job_id (JObj ?m) = Inr (Some 3)"
    by (simp add: message_job_id_def juuid_def uuid_parse_str_bounded)
  have j: "job_by_id ?d 3 = Some (saga_row 3 DEAD_LETTER 1)" "\<not> is_compensation (saga_row 3 DEAD_LETTER 1)"
    by (simp_all add: saga_db_def is_compensation_def compensate_suffix_def)
  have wf: "wf_db ?d" by (rule wf_saga_db) auto
  obtain d' where d': "coordinator_handle_message default_settings 5 (JObj ?m) ?d = Inr d'"
    using id j by (simp add: coordinator_handle_message_def saga_db_def)
  have "d' = ?d" using saga_lifecycle [OF wf d', of 9] id j by (simp add: saga_db_def)
  with d' show ?thesis by simp
qed

end
