(* ===== verification/Admission.thy ===== *)
theory Admission
  imports Saga
begin

text \<open>
  What a request must pass before it may create work: the fixed-window rate limits of
  \<open>utils/rate_limit.py\<close>, the tenant limits of \<open>utils/quota.py\<close>, the backpressure of
  \<open>utils/backpressure.py\<close>, their composition in \<open>utils/admission.py\<close>, and the two endpoints that
  insert jobs (\<open>api/jobs.py\<close>, \<open>api/sagas.py\<close>). Redis counters carry their expiry; a Redis call may
  fail, and \<open>health\<close> says which one does. Error values carry the message and not the \<open>details\<close>.
\<close>

section \<open>Counters in Redis\<close>

type_synonym counters = "string \<Rightarrow> (int \<times> time option) option"

definition live_counter :: "time \<Rightarrow> counters \<Rightarrow> string \<Rightarrow> (int \<times> time option) option" where
  "live_counter now c k =
     (case c k of
        Some (n, Some x) \<Rightarrow> if x \<le> now then None else Some (n, Some x)
      | r \<Rightarrow> r)"

definition redis_incr :: "time \<Rightarrow> string \<Rightarrow> counters \<Rightarrow> int \<times> counters" where
  "redis_incr now k c =
     (case live_counter now c k of
        None \<Rightarrow> (1, c(k \<mapsto> (1, None)))
      | Some (n, ex) \<Rightarrow> (n + 1, c(k \<mapsto> (n + 1, ex))))"

definition redis_expire :: "time \<Rightarrow> string \<Rightarrow> time \<Rightarrow> counters \<Rightarrow> counters" where
  "redis_expire now k secs c = (case c k of None \<Rightarrow> c | Some (n, _) \<Rightarrow> c(k \<mapsto> (n, Some (now + secs))))"

datatype counter_health = RedisUp | IncrFails | ExpireFails

datatype rate_outcome = Within | OverLimit | RedisRaised

text \<open>\<open>count = await redis.incr(key)\<close>, then \<open>expire\<close> on the first increment.\<close>

definition count_hit :: "counter_health \<Rightarrow> time \<Rightarrow> string \<Rightarrow> time \<Rightarrow> int \<Rightarrow> counters \<Rightarrow> rate_outcome \<times> counters" where
  "count_hit health now k ttl limit c =
     (if health = IncrFails then (RedisRaised, c)
      else let (count, c1) = redis_incr now k c
           in if count = 1 \<and> health = ExpireFails then (RedisRaised, c1)
              else let c2 = (if count = 1 then redis_expire now k ttl c1 else c1)
                   in (if limit < count then OverLimit else Within, c2))"

section \<open>Rate limits\<close>

definition window_of :: "int \<Rightarrow> time \<Rightarrow> int" where
  "window_of window now = \<lfloor>now\<rfloor> div window"

definition rate_key :: "string \<Rightarrow> int \<Rightarrow> string" where
  "rate_key key window_start = ''rate:'' @ key @ '':'' @ show_int window_start"

definition rate_check :: "counter_health \<Rightarrow> time \<Rightarrow> string \<Rightarrow> int \<Rightarrow> int \<Rightarrow> counters \<Rightarrow> rate_outcome \<times> counters" where
  "rate_check health now key limit window c =
     count_hit health now (rate_key key (window_of window now)) (of_int (window * 2)) limit c"

definition rate_error :: "int \<Rightarrow> int \<Rightarrow> app_error" where
  "rate_error limit window =
     RateLimitError (''Rate limit exceeded: '' @ show_int limit @ '' requests per '' @ show_int window @ ''s.'')"

definition check_key_rate_limit ::
    "counter_health \<Rightarrow> time \<Rightarrow> string \<Rightarrow> int \<Rightarrow> int \<Rightarrow> counters \<Rightarrow> app_error option \<times> counters" where
  "check_key_rate_limit health now key limit window c =
     (case rate_check health now key limit window c of
        (OverLimit, c') \<Rightarrow> (Some (rate_error limit window), c')
      | (_, c') \<Rightarrow> (None, c'))"

text \<open>\<open>_client_key\<close>: the rightmost non-empty hop of \<open>X-Forwarded-For\<close>, else the peer.\<close>

fun split_comma :: "string \<Rightarrow> string list" where
  "split_comma [] = [[]]"
| "split_comma (c # cs) =
     (if c = CHR '','' then [] # split_comma cs
      else case split_comma cs of [] \<Rightarrow> [[c]] | p # ps \<Rightarrow> (c # p) # ps)"

definition client_key :: "string option \<Rightarrow> string option \<Rightarrow> string" where
  "client_key forwarded_for peer =
     (let parts = (case forwarded_for of None \<Rightarrow> []
                   | Some h \<Rightarrow> filter (\<lambda>p. p \<noteq> []) (map (strip py_space) (split_comma h)))
      in if parts \<noteq> [] then last parts
         else case peer of None \<Rightarrow> ''unknown'' | Some host \<Rightarrow> host)"

definition check_client_rate_limit ::
    "counter_health \<Rightarrow> time \<Rightarrow> string option \<Rightarrow> string option \<Rightarrow> int \<Rightarrow> int \<Rightarrow> string \<Rightarrow> counters
      \<Rightarrow> app_error option \<times> counters" where
  "check_client_rate_limit health now forwarded_for peer limit window key_prefix c =
     (let client = client_key forwarded_for peer
      in check_key_rate_limit health now (if key_prefix = [] then client else key_prefix @ '':'' @ client) limit window c)"

definition check_identity_rate_limit ::
    "counter_health \<Rightarrow> time \<Rightarrow> string \<Rightarrow> int \<Rightarrow> int \<Rightarrow> string \<Rightarrow> counters \<Rightarrow> app_error option \<times> counters" where
  "check_identity_rate_limit health now identity limit window bucket c =
     check_key_rate_limit health now (bucket @ '':'' @ identity) limit window c"

section \<open>Tenant limits\<close>

record tenant =
  tn_id :: uuid
  tn_slug :: string
  tn_rate_limit_per_minute :: int
  tn_quota_jobs_per_month :: int

definition tenant_rate_key :: "uuid \<Rightarrow> int \<Rightarrow> string" where
  "tenant_rate_key i window_start = ''rate:tenant:'' @ uuid_str i @ '':'' @ show_int window_start"

definition check_tenant_rate :: "counter_health \<Rightarrow> time \<Rightarrow> tenant \<Rightarrow> counters \<Rightarrow> app_error option \<times> counters" where
  "check_tenant_rate health now t c =
     (if tn_rate_limit_per_minute t \<le> 0 then (None, c)
      else case count_hit health now (tenant_rate_key (tn_id t) (window_of 60 now)) 120 (tn_rate_limit_per_minute t) c of
        (OverLimit, c') \<Rightarrow> (Some (RateLimitError (''Tenant rate limit exceeded: '' @
            show_int (tn_rate_limit_per_minute t) @ '' requests/min.'')), c')
      | (_, c') \<Rightarrow> (None, c'))"

text \<open>
  \<open>_month_start\<close>: \<open>now.replace(day=1, hour=0, ...)\<close> in the proleptic Gregorian calendar, from the
  day of the month of a day counted from 1970-01-01.
\<close>

definition day_of_month :: "int \<Rightarrow> int" where
  "day_of_month days =
     (let z = days + 719468;
          doe = z mod 146097;
          yoe = (doe - doe div 1460 + doe div 36524 - doe div 146096) div 365;
          doy = doe - (365 * yoe + yoe div 4 - yoe div 100);
          mp = (5 * doy + 2) div 153
      in doy - (153 * mp + 2) div 5 + 1)"

definition month_start :: "time \<Rightarrow> time" where
  "month_start now = (let days = \<lfloor>now / 86400\<rfloor> in of_int (days - (day_of_month days - 1)) * 86400)"

definition jobs_since :: "uuid \<Rightarrow> time \<Rightarrow> db \<Rightarrow> nat" where
  "jobs_since tenant since d = length (filter (\<lambda>j. j_tenant_id j = tenant \<and> since \<le> j_created_at j) (jobs d))"

definition check_monthly_quota :: "time \<Rightarrow> tenant \<Rightarrow> nat \<Rightarrow> db \<Rightarrow> app_error option" where
  "check_monthly_quota now t job_count d =
     (if tn_quota_jobs_per_month t \<le> 0 then None
      else let used = jobs_since (tn_id t) (month_start now) d
           in if tn_quota_jobs_per_month t < int (used + job_count)
              then Some (QuotaExceededError (''Monthly job quota reached for tenant '' @ tn_slug t @ '' ('' @
                     show_nat used @ '' / '' @ show_int (tn_quota_jobs_per_month t) @ '').'' @
                     (if job_count \<noteq> 1 then '' This request would create '' @ show_nat job_count @ '' jobs.'' else []) @
                     '' Quota resets at the start of next month.''))
              else None)"

definition check_tenant_limits ::
    "counter_health \<Rightarrow> time \<Rightarrow> tenant list \<Rightarrow> uuid \<Rightarrow> nat \<Rightarrow> db \<Rightarrow> counters \<Rightarrow> app_error option \<times> counters" where
  "check_tenant_limits health now tenants tenant_id job_count d c =
     (case get_by tn_id tenant_id tenants of
        None \<Rightarrow> (Some (QuotaExceededError (''Tenant '' @ uuid_str tenant_id @ '' not found'')), c)
      | Some t \<Rightarrow>
          (case check_tenant_rate health now t c of
             (Some e, c') \<Rightarrow> (Some e, c')
           | (None, c') \<Rightarrow> (check_monthly_quota now t job_count d, c')))"

section \<open>Backpressure and admission\<close>

text \<open>The lag read: the call failed, or the value of the key.\<close>

datatype lag_read = LagReadFails | LagValue "string option"

definition check_backpressure :: "int \<Rightarrow> lag_read \<Rightarrow> app_error option" where
  "check_backpressure threshold r =
     (if threshold \<le> 0 then None
      else case r of
        LagReadFails \<Rightarrow> None
      | LagValue None \<Rightarrow> None
      | LagValue (Some raw) \<Rightarrow>
          (case py_int raw of
             None \<Rightarrow> None
           | Some lag \<Rightarrow>
               if threshold < lag
               then Some (BackpressureError (''Worker is '' @ show_int lag @ '' messages behind (threshold '' @
                      show_int threshold @ ''); retry shortly.''))
               else None))"

record admission_env =
  ad_now :: time
  ad_threshold :: int
  ad_lag :: lag_read
  ad_health :: counter_health
  ad_tenants :: "tenant list"
  ad_create_limit :: int
  ad_create_window :: int

definition check_job_admission ::
    "admission_env \<Rightarrow> uuid \<Rightarrow> nat \<Rightarrow> db \<Rightarrow> counters \<Rightarrow> app_error option \<times> counters" where
  "check_job_admission e tenant_id job_count d c =
     (case check_backpressure (ad_threshold e) (ad_lag e) of
        Some err \<Rightarrow> (Some err, c)
      | None \<Rightarrow> check_tenant_limits (ad_health e) (ad_now e) (ad_tenants e) tenant_id job_count d c)"

definition job_create_rate_bucket :: string where
  "job_create_rate_bucket = ''jobs:create''"

definition job_create_rate_limiter ::
    "admission_env \<Rightarrow> string option \<Rightarrow> string option \<Rightarrow> counters \<Rightarrow> app_error option \<times> counters" where
  "job_create_rate_limiter e forwarded_for peer c =
     check_client_rate_limit (ad_health e) (ad_now e) forwarded_for peer (ad_create_limit e) (ad_create_window e)
       job_create_rate_bucket c"

text \<open>
  The two endpoints: the address limit, the admission, then the service. A refusal or an error rolls
  the transaction back; the counters stay counted. The transaction is \<open>READ COMMITTED\<close> and takes no lock,
  so each statement sees what others have committed by then: \<open>counted\<close> is the database the quota's count
  saw, \<open>seen\<close> the one the service's reads saw and \<open>d\<close> the one its inserts hit.
\<close>

definition admitted ::
    "admission_env \<Rightarrow> string option \<Rightarrow> string option \<Rightarrow> uuid \<Rightarrow> nat \<Rightarrow> db \<Rightarrow> counters \<Rightarrow> app_error option \<times> counters" where
  "admitted e forwarded_for peer tenant_id job_count d c =
     (case job_create_rate_limiter e forwarded_for peer c of
        (Some err, c1) \<Rightarrow> (Some err, c1)
      | (None, c1) \<Rightarrow> check_job_admission e tenant_id job_count d c1)"

definition api_create_job ::
    "settings \<Rightarrow> admission_env \<Rightarrow> string option \<Rightarrow> string option \<Rightarrow> call_ctx \<Rightarrow> create_req \<Rightarrow> db \<Rightarrow> db \<Rightarrow> db \<Rightarrow> counters
      \<Rightarrow> (app_error + job \<times> db) \<times> counters" where
  "api_create_job cfg e forwarded_for peer ctx req counted seen d c =
     (case admitted e forwarded_for peer (r_tenant_id req) 1 counted c of
        (Some err, c1) \<Rightarrow> (Inl err, c1)
      | (None, c1) \<Rightarrow> (create_job cfg ctx req seen d, c1))"

definition api_create_saga ::
    "settings \<Rightarrow> admission_env \<Rightarrow> string option \<Rightarrow> string option \<Rightarrow> call_ctx \<Rightarrow> uuid \<Rightarrow> uuid \<Rightarrow> string
      \<Rightarrow> saga_step list \<Rightarrow> db \<Rightarrow> db \<Rightarrow> counters \<Rightarrow> (app_error + saga \<times> db) \<times> counters" where
  "api_create_saga cfg e forwarded_for peer ctx user tenant_id name steps counted d c =
     (case admitted e forwarded_for peer tenant_id (length steps) counted c of
        (Some err, c1) \<Rightarrow> (Inl err, c1)
      | (None, c1) \<Rightarrow> (create_saga cfg ctx user tenant_id name steps d, c1))"

section \<open>The limiters are fixed-window counters\<close>

definition counter_value :: "counters \<Rightarrow> string \<Rightarrow> nat" where
  "counter_value c k = (case c k of None \<Rightarrow> 0 | Some (n, _) \<Rightarrow> nat n)"

text \<open>A counter outlives the window it counts.\<close>

definition counters_ok :: "int \<Rightarrow> (int \<Rightarrow> string) \<Rightarrow> counters \<Rightarrow> bool" where
  "counters_ok window key c \<longleftrightarrow> 0 < window
     \<and> (\<forall>w n ex. c (key w) = Some (n, ex) \<longrightarrow> 0 \<le> n \<and> (\<forall>x. ex = Some x \<longrightarrow> of_int ((w + 1) * window) \<le> x))"

lemma window_end: "0 < window \<Longrightarrow> now < of_int ((window_of window now + 1) * window)"
proof -
  assume w: "0 < window"
  have "\<lfloor>now\<rfloor> mod window < window" using w by simp
  moreover have "(\<lfloor>now\<rfloor> div window + 1) * window = window * (\<lfloor>now\<rfloor> div window) + window" by (simp add: algebra_simps)
  ultimately have "\<lfloor>now\<rfloor> < (\<lfloor>now\<rfloor> div window + 1) * window"
    using mult_div_mod_eq [of window "\<lfloor>now\<rfloor>"] by linarith
  then have "\<lfloor>now\<rfloor> + 1 \<le> (window_of window now + 1) * window" by (simp add: window_of_def)
  then have "of_int (\<lfloor>now\<rfloor> + 1) \<le> (of_int ((window_of window now + 1) * window) :: rat)"
    by (simp only: of_int_le_iff)
  then show ?thesis using floor_correct [of now] by linarith
qed

lemma window_span: "0 < window \<Longrightarrow> of_int ((window_of window now + 1) * window) \<le> now + of_int window"
proof -
  assume w: "0 < window"
  have "0 \<le> \<lfloor>now\<rfloor> mod window" using w by simp
  then have "\<lfloor>now\<rfloor> div window * window \<le> \<lfloor>now\<rfloor>" using div_mult_mod_eq [of "\<lfloor>now\<rfloor>" window] by linarith
  then have "(window_of window now + 1) * window \<le> \<lfloor>now\<rfloor> + window" by (simp add: window_of_def algebra_simps)
  then have "of_int ((window_of window now + 1) * window) \<le> (of_int (\<lfloor>now\<rfloor> + window) :: rat)"
    by (simp only: of_int_le_iff)
  then show ?thesis using floor_correct [of now] by (simp only: of_int_add) linarith
qed

lemma count_hit_eq:
  assumes "counters_ok window key c" "inj key" "of_int window \<le> ttl"
  shows "fst (count_hit RedisUp now (key (window_of window now)) ttl limit c) =
      (if int (counter_value c (key (window_of window now))) < limit then Within else OverLimit)"
    and "counter_value (snd (count_hit RedisUp now (key (window_of window now)) ttl limit c)) (key w) =
      counter_value c (key w) + (if w = window_of window now then 1 else 0)"
    and "counters_ok window key (snd (count_hit RedisUp now (key (window_of window now)) ttl limit c))"
proof -
  let ?w = "window_of window now"
  have win: "0 < window" using assms(1) by (simp add: counters_ok_def)
  have "\<not> x \<le> now" if "c (key ?w) = Some (n, Some x)" for n x
  proof -
    have "of_int ((?w + 1) * window) \<le> x" using assms(1) that unfolding counters_ok_def by blast
    then show ?thesis using window_end [OF win, of now] by linarith
  qed
  then have live: "live_counter now c (key ?w) = c (key ?w)" by (auto simp: live_counter_def split: option.split)
  have same: "key w = key ?w \<longleftrightarrow> w = ?w" for w using assms(2) by (auto dest: injD)
  have ttl: "of_int ((?w + 1) * window) \<le> now + ttl" using window_span [OF win, of now] assms(3) by linarith
  have val: "0 \<le> n" if "c (key w) = Some (n, ex)" for w n ex using assms(1) that by (auto simp: counters_ok_def)
  show "fst (count_hit RedisUp now (key ?w) ttl limit c) =
      (if int (counter_value c (key ?w)) < limit then Within else OverLimit)"
    using val [of ?w] by (auto simp: count_hit_def redis_incr_def live counter_value_def Let_def split: option.split)
  show "counter_value (snd (count_hit RedisUp now (key ?w) ttl limit c)) (key w) =
      counter_value c (key w) + (if w = ?w then 1 else 0)"
    using val [of ?w]
    by (auto simp: count_hit_def redis_incr_def live counter_value_def Let_def redis_expire_def same nat_add_distrib
        split: option.split)
  show "counters_ok window key (snd (count_hit RedisUp now (key ?w) ttl limit c))"
    using assms(1) ttl
    by (auto simp: count_hit_def redis_incr_def live counters_ok_def Let_def redis_expire_def same
        split: option.split if_splits)
qed

lemma inj_rate_key: "inj (rate_key key)" "inj (tenant_rate_key i)"
  by (auto simp: inj_def rate_key_def tenant_rate_key_def show_int_inject)

text \<open>One request against a limiter: whether it passes, and the counters after it.\<close>

definition identity_hit :: "string \<Rightarrow> int \<Rightarrow> int \<Rightarrow> string \<Rightarrow> time \<Rightarrow> counters \<Rightarrow> bool \<times> counters" where
  "identity_hit identity limit window bucket t c =
     (let (r, c') = check_identity_rate_limit RedisUp t identity limit window bucket c in (r = None, c'))"

definition tenant_hit :: "tenant \<Rightarrow> time \<Rightarrow> counters \<Rightarrow> bool \<times> counters" where
  "tenant_hit tn t c = (let (r, c') = check_tenant_rate RedisUp t tn c in (r = None, c'))"

lemma count_hit_up: "fst (count_hit RedisUp now k ttl limit c) \<noteq> RedisRaised"
  by (simp add: count_hit_def Let_def split: prod.split)

lemma identity_hit_eq:
  "fst (identity_hit identity limit window bucket t c) \<longleftrightarrow>
     fst (count_hit RedisUp t (rate_key (bucket @ '':'' @ identity) (window_of window t)) (of_int (window * 2)) limit c) = Within"
  "snd (identity_hit identity limit window bucket t c) =
     snd (count_hit RedisUp t (rate_key (bucket @ '':'' @ identity) (window_of window t)) (of_int (window * 2)) limit c)"
  using count_hit_up [of t "rate_key (bucket @ '':'' @ identity) (window_of window t)" "of_int (window * 2)" limit c]
  by (auto simp: identity_hit_def check_identity_rate_limit_def check_key_rate_limit_def rate_check_def Let_def
      split: prod.splits rate_outcome.splits)

lemma tenant_hit_eq:
  assumes "0 < tn_rate_limit_per_minute tn"
  shows "fst (tenant_hit tn t c) \<longleftrightarrow> fst (count_hit RedisUp t (tenant_rate_key (tn_id tn) (window_of 60 t)) 120
      (tn_rate_limit_per_minute tn) c) = Within"
    "snd (tenant_hit tn t c) = snd (count_hit RedisUp t (tenant_rate_key (tn_id tn) (window_of 60 t)) 120
      (tn_rate_limit_per_minute tn) c)"
  using count_hit_up [of t "tenant_rate_key (tn_id tn) (window_of 60 t)" 120 "tn_rate_limit_per_minute tn" c] assms
  by (auto simp: tenant_hit_def check_tenant_rate_def Let_def split: prod.splits rate_outcome.splits)

interpretation identity_window: fixed_window "identity_hit identity limit window bucket" "window_of window"
  "\<lambda>c w. counter_value c (rate_key (bucket @ '':'' @ identity) w)" "nat limit"
  "counters_ok window (rate_key (bucket @ '':'' @ identity))" for identity limit window bucket
proof (unfold_locales, goal_cases)
  case (1 s t)
  then have "of_int window \<le> (of_int (window * 2) :: rat)" by (simp add: counters_ok_def)
  from count_hit_eq(1) [OF 1 inj_rate_key(1) this] show ?case by (auto simp: identity_hit_eq)
next
  case (2 s t w)
  then have "of_int window \<le> (of_int (window * 2) :: rat)" by (simp add: counters_ok_def)
  from count_hit_eq(2) [OF 2 inj_rate_key(1) this] show ?case by (simp add: identity_hit_eq)
next
  case (3 s t)
  then have "of_int window \<le> (of_int (window * 2) :: rat)" by (simp add: counters_ok_def)
  from count_hit_eq(3) [OF 3 inj_rate_key(1) this] show ?case by (simp add: identity_hit_eq)
qed

interpretation tenant_window: fixed_window "tenant_hit tn" "window_of 60"
  "\<lambda>c w. counter_value c (tenant_rate_key (tn_id tn) w)" "nat (tn_rate_limit_per_minute tn)"
  "\<lambda>c. counters_ok 60 (tenant_rate_key (tn_id tn)) c \<and> 0 < tn_rate_limit_per_minute tn" for tn
proof (unfold_locales, goal_cases)
  case (1 s t)
  then show ?case using count_hit_eq(1) [OF _ inj_rate_key(2), of 60 "tn_id tn" s 120] by (auto simp: tenant_hit_eq)
next
  case (2 s t w)
  then show ?case using count_hit_eq(2) [OF _ inj_rate_key(2), of 60 "tn_id tn" s 120] by (simp add: tenant_hit_eq)
next
  case (3 s t)
  then show ?case using count_hit_eq(3) [OF _ inj_rate_key(2), of 60 "tn_id tn" s 120] by (simp add: tenant_hit_eq)
qed

lemma span_two_windows:
  assumes "0 < window" "a \<le> t" "t < a + of_int window"
  shows "window_of window t = window_of window a \<or> window_of window t = window_of window a + 1"
proof -
  have 1: "\<lfloor>a\<rfloor> \<le> \<lfloor>t\<rfloor>" using assms(2) by (rule floor_mono)
  have 2: "\<lfloor>t\<rfloor> \<le> \<lfloor>a\<rfloor> + window" using floor_mono [of t "a + of_int window"] assms(3) by simp
  have "\<lfloor>a\<rfloor> div window \<le> \<lfloor>t\<rfloor> div window" "\<lfloor>t\<rfloor> div window \<le> (\<lfloor>a\<rfloor> + window) div window"
    by (rule zdiv_mono1 [OF 1 assms(1)], rule zdiv_mono1 [OF 2 assms(1)])
  then show ?thesis using assms(1) by (auto simp: window_of_def)
qed

text \<open>
  The rate limits are what their documentation says: of the requests of one identity that
  fall into one window exactly the first \<open>limit\<close> pass, at any clock readings in any order, and within
  any span as long as a window at most twice the limit passes; the per-minute limit of a tenant obeys the
  same two bounds.
\<close>

theorem rate_limit_bound:
  assumes "counters_ok window (rate_key (bucket @ '':'' @ identity)) c"
    and "counters_ok 60 (tenant_rate_key (tn_id tn)) c" "0 < tn_rate_limit_per_minute tn"
  shows "granted (\<lambda>t. window_of window t = w) (run_hits (identity_hit identity limit window bucket) ts c) =
      min (length (filter (\<lambda>t. window_of window t = w) ts))
        (nat limit - counter_value c (rate_key (bucket @ '':'' @ identity) w))
    \<and> granted (\<lambda>t. a \<le> t \<and> t < a + of_int window) (run_hits (identity_hit identity limit window bucket) ts c) \<le> 2 * nat limit
    \<and> granted (\<lambda>t. window_of 60 t = w) (run_hits (tenant_hit tn) ts c) \<le> nat (tn_rate_limit_per_minute tn)
    \<and> granted (\<lambda>t. a \<le> t \<and> t < a + 60) (run_hits (tenant_hit tn) ts c) \<le> 2 * nat (tn_rate_limit_per_minute tn)"
proof -
  have win: "0 < window" using assms(1) by (simp add: counters_ok_def)
  have span: "window_of window t = window_of window a \<or> window_of window t = window_of window a + 1"
    if "a \<le> t \<and> t < a + of_int window" for t
    using span_two_windows [OF win] that by blast
  have "granted (\<lambda>t. a \<le> t \<and> t < a + of_int window) (run_hits (identity_hit identity limit window bucket) ts c) \<le> 2 * nat limit"
    by (rule identity_window.granted_two_windows [OF assms(1) span])
  moreover have "granted (\<lambda>t. a \<le> t \<and> t < a + 60) (run_hits (tenant_hit tn) ts c) \<le> 2 * nat (tn_rate_limit_per_minute tn)"
    by (rule tenant_window.granted_two_windows [where w = "window_of 60 a"])
      (use assms(2,3) span_two_windows [of 60 a] in auto)
  ultimately show ?thesis
    using identity_window.granted_window [OF assms(1)] tenant_window.granted_window [of tn c w ts] assms(2,3) by auto
qed

definition sample_tenant :: tenant where
  "sample_tenant = \<lparr>tn_id = 7, tn_slug = ''acme'', tn_rate_limit_per_minute = 2, tn_quota_jobs_per_month = 1\<rparr>"

theorem rate_limit_bound_witness:
  "granted (\<lambda>t. window_of 60 t = 0) (run_hits (identity_hit ''sa'' 2 60 ''mcp'') [1, 30, 59] Map.empty) = 2"
proof -
  have "counters_ok 60 k Map.empty" for k by (simp add: counters_ok_def)
  moreover have "0 < tn_rate_limit_per_minute sample_tenant" by (simp add: sample_tenant_def)
  moreover have "window_of 60 1 = 0" "window_of 60 30 = 0" "window_of 60 59 = 0" by (simp_all add: window_of_def)
  ultimately show ?thesis
    using rate_limit_bound [of 60 "''mcp''" "''sa''" Map.empty sample_tenant 0 2 "[1, 30, 59]" 0]
    by (simp add: counter_value_def)
qed

section \<open>The address cannot be forged\<close>

lemma split_comma_nonempty: "split_comma s \<noteq> []"
  by (induction s) (auto split: list.split)

lemma split_comma_append:
  "split_comma (xs @ CHR '','' # ys) = split_comma xs @ split_comma ys"
proof (induction xs)
  case (Cons c cs)
  then show ?case using split_comma_nonempty [of cs] by (auto split: list.split)
qed simp

lemma split_comma_plain: "CHR '','' \<notin> set s \<Longrightarrow> split_comma s = [s]"
  by (induction s) auto

text \<open>
  A client cannot choose the address it is limited by: whatever \<open>X-Forwarded-For\<close> it
  sends, once the load balancer has appended the real address as the last hop that address is the key,
  so no forged header moves a request to another bucket.
\<close>

theorem client_key_not_forgeable:
  assumes "CHR '','' \<notin> set ip" "strip py_space ip \<noteq> []"
  shows "client_key (Some (forged @ '','' @ ip)) peer = strip py_space ip
    \<and> check_client_rate_limit health now (Some (forged @ '','' @ ip)) peer limit window prefix c =
        check_client_rate_limit health now (Some ip) peer limit window prefix c"
proof -
  have "client_key (Some (forged @ '','' @ ip)) peer = strip py_space ip" "client_key (Some ip) peer = strip py_space ip"
    using assms by (simp_all add: client_key_def split_comma_append split_comma_plain Let_def)
  then show ?thesis unfolding check_client_rate_limit_def by (simp only: Let_def)
qed

theorem client_key_not_forgeable_witness:
  "client_key (Some (''1.1.1.1'' @ '','' @ '' 9.9.9.9'')) None = ''9.9.9.9''"
proof -
  have ip: "strip py_space '' 9.9.9.9'' = ''9.9.9.9''" by (simp add: strip_def py_space_def)
  have "CHR '','' \<notin> set '' 9.9.9.9''" by simp
  from client_key_not_forgeable [OF this, of "''1.1.1.1''"] show ?thesis unfolding ip by blast
qed

section \<open>Quota\<close>

lemma admitted_quota:
  assumes "admitted e forwarded_for peer tenant n d c = (None, c')" "get_by tn_id tenant (ad_tenants e) = Some t"
    and "0 < tn_quota_jobs_per_month t"
  shows "int (jobs_since tenant (month_start (ad_now e)) d + n) \<le> tn_quota_jobs_per_month t"
proof -
  have "tn_id t = tenant" using get_by_SomeD [OF assms(2)] by simp
  moreover have "check_monthly_quota (ad_now e) t n d = None"
    using assms(1,2) by (auto simp: admitted_def check_job_admission_def check_tenant_limits_def
        split: prod.splits option.splits)
  ultimately show ?thesis using assms(3) by (auto simp: check_monthly_quota_def Let_def split: if_splits)
qed

lemma jobs_since_append:
  "jobs d' = jobs d @ js \<Longrightarrow> jobs_since tenant since d' \<le> jobs_since tenant since d + length js"
  by (simp add: jobs_since_def)

lemma create_job_usage:
  assumes "create_job cfg ctx req seen d = Inr (j, d')"
  shows "jobs_since tenant since d' \<le> jobs_since tenant since d + 1"
  using assms
proof (cases rule: create_job_cases)
  case existing
  then show ?thesis by simp
next
  case (insert parents)
  from insert_job_jobs [OF insert(2)] show ?thesis
  proof
    assume "jobs d' = jobs d \<and> j \<in> set (jobs d)"
    then show ?thesis by (simp add: jobs_since_def)
  next
    assume "jobs d' = jobs d @ [j] \<and> j_id j = next_uuid d \<and> j_status j = initial_status ctx (r_dependencies req) parents seen
      \<and> j_tenant_id j = r_tenant_id req \<and> j_idempotency_key j = r_idempotency_key req
      \<and> (\<forall>k. r_idempotency_key req = Some k \<longrightarrow> get_by_idempotency_key k (r_tenant_id req) d = None)"
    then show ?thesis using jobs_since_append [of d' d "[j]"] by simp
  qed
qed

lemma create_saga_usage:
  assumes "create_saga cfg ctx user tn name steps d = Inr (s, d')"
  shows "jobs_since tenant since d' \<le> jobs_since tenant since d + length steps"
  using assms
proof (cases rule: create_saga_cases)
  case (1 d2)
  have step: "create_steps cfg ctx user tn sid n prev steps d1 = Inr d2 \<Longrightarrow>
      jobs_since tenant since d2 \<le> jobs_since tenant since d1 + length steps" for sid n prev d1
  proof (induction steps arbitrary: n prev d1)
    case (Cons step steps)
    then obtain j d3 where c: "create_job cfg ctx (step_request user tn sid n prev step) d1 d1 = Inr (j, d3)"
        "create_steps cfg ctx user tn sid (Suc n) (Some (j_id j)) steps d3 = Inr d2"
      by (auto split: sum.splits)
    show ?case using Cons.IH [OF c(2)] create_job_usage [OF c(1), of tenant since] by simp
  qed simp
  show ?thesis using step [OF 1(3)] 1(4) by (simp add: jobs_since_def)
qed

abbreviation used_this_month :: "admission_env \<Rightarrow> uuid \<Rightarrow> db \<Rightarrow> int" where
  "used_this_month e tenant d \<equiv> int (jobs_since tenant (month_start (ad_now e)) d)"

lemma over_quota_refused:
  assumes "get_by tn_id tenant (ad_tenants e) = Some t" "0 < tn_quota_jobs_per_month t"
    and "tn_quota_jobs_per_month t < used_this_month e tenant counted + int n"
  shows "\<exists>err c1. admitted e forwarded_for peer tenant n counted c = (Some err, c1)"
proof (cases "admitted e forwarded_for peer tenant n counted c")
  case (Pair r c1)
  then have "r \<noteq> None" using admitted_quota [OF _ assms(1,2)] assms(3) by fastforce
  then show ?thesis using Pair by auto
qed

text \<open>
  Property C24. The monthly quota holds for requests that do not overlap, and is overshot only by what overlaps.
  After \<open>POST /jobs\<close> or \<open>POST /sagas\<close> succeeded for a tenant with a quota, the jobs the tenant created in
  the current UTC month are at most the quota plus the jobs that other transactions committed between this
  request's count and its insert, a saga counting as one job per step. So without such an overlap they are at
  most the quota; and a request whose own jobs do not fit beside those counted is refused whole and changes
  nothing in the database.
\<close>

theorem monthly_quota_held:
  assumes "get_by tn_id tenant (ad_tenants e) = Some t" "0 < tn_quota_jobs_per_month t"
  shows "(r_tenant_id req = tenant \<and> api_create_job cfg e forwarded_for peer ctx req counted seen d c = (Inr (j, d'), c') \<longrightarrow>
        used_this_month e tenant d' \<le> tn_quota_jobs_per_month t + (used_this_month e tenant d - used_this_month e tenant counted))
    \<and> (api_create_saga cfg e forwarded_for peer ctx user tenant name steps counted d c = (Inr (s, d''), c'') \<longrightarrow>
        used_this_month e tenant d'' \<le> tn_quota_jobs_per_month t + (used_this_month e tenant d - used_this_month e tenant counted))
    \<and> (tn_quota_jobs_per_month t < used_this_month e tenant counted + int (length steps) \<longrightarrow>
        (\<exists>err. fst (api_create_saga cfg e forwarded_for peer ctx user tenant name steps counted d c) = Inl err))
    \<and> (r_tenant_id req = tenant \<and> tn_quota_jobs_per_month t \<le> used_this_month e tenant counted \<longrightarrow>
        (\<exists>err. fst (api_create_job cfg e forwarded_for peer ctx req counted seen d c) = Inl err))"
proof (intro conjI impI)
  assume a: "r_tenant_id req = tenant \<and> api_create_job cfg e forwarded_for peer ctx req counted seen d c = (Inr (j, d'), c')"
  then have "admitted e forwarded_for peer tenant 1 counted c = (None, c')" "create_job cfg ctx req seen d = Inr (j, d')"
    by (auto simp: api_create_job_def split: prod.splits option.splits)
  then show "used_this_month e tenant d' \<le> tn_quota_jobs_per_month t + (used_this_month e tenant d - used_this_month e tenant counted)"
    using admitted_quota [OF _ assms(1,2)] create_job_usage [of cfg ctx req seen d j d' tenant "month_start (ad_now e)"]
    by fastforce
next
  assume a: "api_create_saga cfg e forwarded_for peer ctx user tenant name steps counted d c = (Inr (s, d''), c'')"
  then have "admitted e forwarded_for peer tenant (length steps) counted c = (None, c'')"
      "create_saga cfg ctx user tenant name steps d = Inr (s, d'')"
    by (auto simp: api_create_saga_def split: prod.splits option.splits)
  then show "used_this_month e tenant d'' \<le> tn_quota_jobs_per_month t + (used_this_month e tenant d - used_this_month e tenant counted)"
    using admitted_quota [OF _ assms(1,2)]
      create_saga_usage [of cfg ctx user tenant name steps d s d'' tenant "month_start (ad_now e)"]
    by fastforce
next
  assume "tn_quota_jobs_per_month t < used_this_month e tenant counted + int (length steps)"
  then show "\<exists>err. fst (api_create_saga cfg e forwarded_for peer ctx user tenant name steps counted d c) = Inl err"
    using over_quota_refused [OF assms, of counted "length steps" forwarded_for peer c] by (auto simp: api_create_saga_def)
next
  assume "r_tenant_id req = tenant \<and> tn_quota_jobs_per_month t \<le> used_this_month e tenant counted"
  then show "\<exists>err. fst (api_create_job cfg e forwarded_for peer ctx req counted seen d c) = Inl err"
    using over_quota_refused [OF assms, of counted 1 forwarded_for peer c] by (auto simp: api_create_job_def)
qed

text \<open>
  Admission fails open on Redis and on nothing else: when the lag cannot be read and the
  counters cannot be incremented, a request of a known tenant is admitted exactly when its monthly quota
  allows it and the counters are as before; and whatever Redis answers, a request beyond the quota is
  refused, backpressure being reported first.
\<close>

theorem admission_fails_open:
  assumes "get_by tn_id tenant (ad_tenants e) = Some t"
  shows "(ad_lag e = LagReadFails \<and> ad_health e = IncrFails \<longrightarrow>
        admitted e forwarded_for peer tenant n d c = (check_monthly_quota (ad_now e) t n d, c))
    \<and> (check_monthly_quota (ad_now e) t n d \<noteq> None \<longrightarrow> fst (admitted e forwarded_for peer tenant n d c) \<noteq> None)
    \<and> (check_backpressure (ad_threshold e) (ad_lag e) = Some err \<longrightarrow>
        check_job_admission e tenant n d c = (Some err, c))"
proof (intro conjI impI)
  assume "ad_lag e = LagReadFails \<and> ad_health e = IncrFails"
  then show "admitted e forwarded_for peer tenant n d c = (check_monthly_quota (ad_now e) t n d, c)"
    using assms by (simp add: admitted_def job_create_rate_limiter_def check_client_rate_limit_def check_key_rate_limit_def
        rate_check_def count_hit_def check_job_admission_def check_tenant_limits_def check_tenant_rate_def
        check_backpressure_def Let_def)
next
  assume "check_monthly_quota (ad_now e) t n d \<noteq> None"
  then have "fst (check_job_admission e tenant n d c1) \<noteq> None" for c1
    using assms by (auto simp: check_job_admission_def check_tenant_limits_def split: option.split prod.split)
  then show "fst (admitted e forwarded_for peer tenant n d c) \<noteq> None"
    by (auto simp: admitted_def split: option.split prod.split)
qed (simp add: check_job_admission_def)

definition sample_admission :: "lag_read \<Rightarrow> counter_health \<Rightarrow> admission_env" where
  "sample_admission lag health = \<lparr>ad_now = 0, ad_threshold = 100, ad_lag = lag, ad_health = health,
     ad_tenants = [sample_tenant], ad_create_limit = 30, ad_create_window = 60\<rparr>"

lemma sample_lookup: "get_by tn_id 7 (ad_tenants (sample_admission lag health)) = Some sample_tenant"
  by (simp add: sample_admission_def sample_tenant_def)

lemma sample_quota: "check_monthly_quota 0 sample_tenant (Suc 0) (sample_db [] []) = None"
  by (simp add: check_monthly_quota_def sample_tenant_def jobs_since_def Let_def)

theorem admission_fails_open_witness:
  "admitted (sample_admission LagReadFails IncrFails) None None 7 (Suc 0) (sample_db [] []) Map.empty = (None, Map.empty)"
proof -
  have "ad_lag (sample_admission LagReadFails IncrFails) = LagReadFails"
    "ad_health (sample_admission LagReadFails IncrFails) = IncrFails" "ad_now (sample_admission LagReadFails IncrFails) = 0"
    by (simp_all add: sample_admission_def)
  then show ?thesis using admission_fails_open [OF sample_lookup, of LagReadFails IncrFails] sample_quota by metis
qed

lemma sample_admitted:
  "admitted (sample_admission LagReadFails IncrFails) None None 7 (Suc 0) (sample_db [] []) Map.empty = (None, Map.empty)"
  using sample_quota
  by (simp add: admitted_def job_create_rate_limiter_def check_client_rate_limit_def check_key_rate_limit_def
      rate_check_def count_hit_def check_job_admission_def check_tenant_limits_def check_tenant_rate_def
      check_backpressure_def Let_def sample_admission_def sample_tenant_def)

lemma sample_created:
  obtains j d' where "create_job default_settings sample_ctx (sample_req None []) d d = Inr (j, d')"
    "jobs d' = jobs d @ [j]" "j_tenant_id j = 7" "j_created_at j = 5"
  by (simp add: create_job_def sample_req_def insert_job_def create_row_def new_job_def sample_ctx_def Let_def case_prod_beta)

lemma sample_api_created:
  obtains j d' where "api_create_job default_settings (sample_admission LagReadFails IncrFails) None None sample_ctx
       (sample_req None []) (sample_db [] []) d d Map.empty = (Inr (j, d'), Map.empty)"
    "jobs d' = jobs d @ [j]" "j_tenant_id j = 7" "j_created_at j = 5"
proof -
  obtain j d' where c: "create_job default_settings sample_ctx (sample_req None []) d d = Inr (j, d')"
      "jobs d' = jobs d @ [j]" "j_tenant_id j = 7" "j_created_at j = 5" by (rule sample_created)
  have t: "r_tenant_id (sample_req None []) = 7" by (simp add: sample_req_def)
  show thesis by (rule that [of j d']) (simp_all add: api_create_job_def t sample_admitted [simplified] c)
qed

theorem monthly_quota_held_witness:
  "\<exists>j d'. api_create_job default_settings (sample_admission LagReadFails IncrFails) None None sample_ctx
       (sample_req None []) (sample_db [] []) (sample_db [] []) (sample_db [] []) Map.empty = (Inr (j, d'), Map.empty)
     \<and> int (jobs_since 7 (month_start 0) d') \<le> 1"
proof -
  obtain j d' where a: "api_create_job default_settings (sample_admission LagReadFails IncrFails) None None sample_ctx
       (sample_req None []) (sample_db [] []) (sample_db [] []) (sample_db [] []) Map.empty = (Inr (j, d'), Map.empty)"
    by (rule sample_api_created)
  have t: "r_tenant_id (sample_req None []) = 7" by (simp add: sample_req_def)
  have "0 < tn_quota_jobs_per_month sample_tenant" "ad_now (sample_admission LagReadFails IncrFails) = 0"
    "tn_quota_jobs_per_month sample_tenant = 1"
    by (simp_all add: sample_tenant_def sample_admission_def)
  then have "int (jobs_since 7 (month_start 0) d') \<le> 1"
    using monthly_quota_held [OF sample_lookup] t a by (metis diff_self add_0_right)
  then show ?thesis using a by blast
qed

text \<open>
  The overshoot happens: two requests of a tenant with a quota of one, both of which count before either
  has inserted, are both admitted, and the tenant ends the pair with two jobs.
\<close>

theorem quota_race_overshoots:
  "\<exists>j1 d1 j2 d2.
     api_create_job default_settings (sample_admission LagReadFails IncrFails) None None sample_ctx (sample_req None [])
       (sample_db [] []) (sample_db [] []) (sample_db [] []) Map.empty = (Inr (j1, d1), Map.empty)
     \<and> api_create_job default_settings (sample_admission LagReadFails IncrFails) None None sample_ctx (sample_req None [])
       (sample_db [] []) d1 d1 Map.empty = (Inr (j2, d2), Map.empty)
     \<and> tn_quota_jobs_per_month sample_tenant = 1 \<and> jobs_since 7 (month_start 0) d2 = 2"
proof -
  obtain j1 d1 where 1: "api_create_job default_settings (sample_admission LagReadFails IncrFails) None None sample_ctx
       (sample_req None []) (sample_db [] []) (sample_db [] []) (sample_db [] []) Map.empty = (Inr (j1, d1), Map.empty)"
    "jobs d1 = jobs (sample_db [] []) @ [j1]" "j_tenant_id j1 = 7" "j_created_at j1 = 5" by (rule sample_api_created)
  obtain j2 d2 where 2: "api_create_job default_settings (sample_admission LagReadFails IncrFails) None None sample_ctx
       (sample_req None []) (sample_db [] []) d1 d1 Map.empty = (Inr (j2, d2), Map.empty)"
    "jobs d2 = jobs d1 @ [j2]" "j_tenant_id j2 = 7" "j_created_at j2 = 5" by (rule sample_api_created)
  have "day_of_month 0 = 1" by code_simp
  then have m: "month_start 0 = 0" by (simp add: month_start_def)
  have rows: "jobs d2 = [j1, j2]" using 1(2) 2(2) by (simp add: sample_db_def empty_db_def)
  have "jobs_since 7 (month_start 0) d2 = 2" unfolding m jobs_since_def rows using 1(3,4) 2(3,4) by simp
  moreover have "tn_quota_jobs_per_month sample_tenant = 1" by (simp add: sample_tenant_def)
  ultimately show ?thesis using 1(1) 2(1) by (intro exI conjI)
qed

end
