(* ===== verification/Circuit_Breaker.thy ===== *)
theory Circuit_Breaker
  imports Models "HOL-Library.Char_ord" "HOL-Library.List_Lexorder"
begin

text \<open>
  The circuit breaker of \<open>core/circuit_breaker.py\<close> and the record of its state that other
  processes read (\<open>core/breaker_state.py\<close>). A call holds the breaker's lock twice, before and
  after the guarded function runs; between the two other calls, records and resets
  interleave, so the breaker is a state machine whose events are those critical sections.
  The reset signal a breaker reads is \<open>None\<close> when it is absent, unreadable or not a
  timestamp. \<open>logger\<close> calls are left out.
\<close>

section \<open>The breaker\<close>

datatype circuit_state = CLOSED | OPEN | HALF_OPEN

fun circuit_state_value :: "circuit_state \<Rightarrow> string" where
  "circuit_state_value CLOSED = ''closed''"
| "circuit_state_value OPEN = ''open''"
| "circuit_state_value HALF_OPEN = ''half_open''"

text \<open>\<open>mono\<close> is \<open>time.monotonic()\<close>, \<open>wall\<close> is \<open>datetime.now(UTC)\<close>.\<close>

record clock =
  mono :: rat
  wall :: time

record breaker =
  cb_name :: string
  failure_threshold :: int
  recovery_timeout :: rat
  cb_state :: circuit_state
  failure_count :: int
  opened_at :: "rat option"
  probe_in_flight :: bool
  last_state_change_at :: "time option"
  last_failure_at :: "time option"
  last_failure_reason_class :: "string option"
  recorded_at_monotonic :: "rat option"
  observed_reset_at :: "time option"

definition new_breaker :: "string \<Rightarrow> int \<Rightarrow> rat \<Rightarrow> breaker" where
  "new_breaker name threshold timeout = \<lparr>
     cb_name = name, failure_threshold = threshold, recovery_timeout = timeout,
     cb_state = CLOSED, failure_count = 0, opened_at = None, probe_in_flight = False,
     last_state_change_at = None, last_failure_at = None, last_failure_reason_class = None,
     recorded_at_monotonic = None, observed_reset_at = None\<rparr>"

definition set_state :: "time \<Rightarrow> circuit_state \<Rightarrow> breaker \<Rightarrow> breaker" where
  "set_state now st b =
     (if st = cb_state b then b else b\<lparr>cb_state := st, last_state_change_at := Some now\<rparr>)"

text \<open>The exceptions a guarded function raises, by the classes the code tells apart.\<close>

datatype py_exception = PyTimeoutError | PyConnectionError | PyOSError | PyOther

fun classify_failure :: "py_exception \<Rightarrow> string" where
  "classify_failure PyTimeoutError = ''timeout''"
| "classify_failure PyConnectionError = ''connection''"
| "classify_failure PyOSError = ''connection''"
| "classify_failure PyOther = ''other''"

definition failure_classes :: "string list" where
  "failure_classes = [''timeout'', ''connection'', ''other'']"

definition already_clean :: "breaker \<Rightarrow> bool" where
  "already_clean b \<longleftrightarrow>
     cb_state b = CLOSED \<and> failure_count b = 0
     \<and> last_state_change_at b = None \<and> last_failure_at b = None"

definition forget_fault :: "breaker \<Rightarrow> breaker" where
  "forget_fault b = b\<lparr>cb_state := CLOSED, failure_count := 0, opened_at := None,
     probe_in_flight := False, last_state_change_at := None, last_failure_at := None,
     last_failure_reason_class := None\<rparr>"

definition honour_reset :: "time option \<Rightarrow> breaker \<Rightarrow> bool \<times> breaker" where
  "honour_reset signal b =
     (case signal of
        None \<Rightarrow> (False, b)
      | Some reset \<Rightarrow>
          if observed_reset_at b = Some reset then (False, b)
          else let b1 = b\<lparr>observed_reset_at := Some reset\<rparr>
               in if (case last_failure_at b1 of None \<Rightarrow> False | Some t \<Rightarrow> reset < t) then (False, b1)
                  else (\<not> already_clean b1, forget_fault b1))"

text \<open>The first critical section of \<open>call\<close>: is the caller admitted, and is it the probe?\<close>

datatype admission = Rejected | Admitted | AdmittedProbe

definition call_enter :: "clock \<Rightarrow> time option \<Rightarrow> breaker \<Rightarrow> admission \<times> breaker" where
  "call_enter clk signal b =
     (let b1 = (if cb_state b \<noteq> CLOSED then snd (honour_reset signal b) else b)
      in case cb_state b1 of
           CLOSED \<Rightarrow> (Admitted, b1)
         | HALF_OPEN \<Rightarrow> (Rejected, b1)
         | OPEN \<Rightarrow>
             (let elapsed = mono clk - (case opened_at b1 of None \<Rightarrow> 0 | Some t \<Rightarrow> t)
              in if recovery_timeout b1 \<le> elapsed
                 then (AdmittedProbe, (set_state (wall clk) HALF_OPEN b1)\<lparr>probe_in_flight := True\<rparr>)
                 else (Rejected, b1)))"

definition on_success :: "clock \<Rightarrow> breaker \<Rightarrow> breaker" where
  "on_success clk b =
     (set_state (wall clk) CLOSED b)\<lparr>failure_count := 0, opened_at := None, probe_in_flight := False\<rparr>"

definition on_failure :: "clock \<Rightarrow> py_exception \<Rightarrow> breaker \<Rightarrow> breaker" where
  "on_failure clk exc b =
     (let b1 = b\<lparr>probe_in_flight := False, failure_count := failure_count b + 1,
                 last_failure_at := Some (wall clk),
                 last_failure_reason_class := Some (classify_failure exc)\<rparr>
      in if cb_state b1 = HALF_OPEN \<or> failure_threshold b1 \<le> failure_count b1
         then (set_state (wall clk) OPEN b1)\<lparr>opened_at := Some (mono clk)\<rparr>
         else b1)"

text \<open>
  How the guarded function ended: it returned, a nested breaker rejected it, it raised, or
  its task was cancelled, which no handler of \<open>call\<close> catches.
\<close>

datatype call_end = Returned | NestedOpen | Raised py_exception | Cancelled

definition call_exit :: "clock \<Rightarrow> bool \<Rightarrow> call_end \<Rightarrow> breaker \<Rightarrow> breaker" where
  "call_exit clk is_probe fin b =
     (case fin of
        Returned \<Rightarrow> on_success clk b
      | NestedOpen \<Rightarrow> if is_probe then set_state (wall clk) OPEN (b\<lparr>probe_in_flight := False\<rparr>) else b
      | Raised exc \<Rightarrow> on_failure clk exc b
      | Cancelled \<Rightarrow> b)"

section \<open>The published record\<close>

text \<open>
  Timestamps travel as text: \<open>iso\<close> is \<open>datetime.isoformat\<close>, \<open>uniso\<close> is
  \<open>datetime.fromisoformat\<close> (\<open>None\<close> is its \<open>ValueError\<close>), \<open>to_float\<close> is \<open>float(text)\<close>.
\<close>

record codec =
  iso :: "time \<Rightarrow> string"
  uniso :: "string \<Rightarrow> time option"
  to_float :: "string \<Rightarrow> rat option"

record breaker_record =
  br_name :: string
  br_state :: string
  br_failure_count :: int
  br_failure_threshold :: int
  br_recovery_timeout_s :: rat
  br_last_state_change_at :: "time option"
  br_last_failure_at :: "time option"
  br_last_failure_reason_class :: "string option"
  br_recorded_at :: time

definition breaker_state_key_prefix :: string where
  "breaker_state_key_prefix = ''breaker:state:''"

definition breaker_key_for :: "string \<Rightarrow> string" where
  "breaker_key_for name = breaker_state_key_prefix @ name"

definition breaker_refresh_interval_seconds :: rat where
  "breaker_refresh_interval_seconds = 60"

text \<open>
  The part of Redis these functions touch: the text under each \<open>breaker:state:*\<close> key, as the
  value \<open>json.loads\<close> gives or \<open>None\<close> when it raises, and the text of the reset signal. Which
  commands Redis answers is given apart; a key that expires is a key that is not there.
\<close>

record breaker_store =
  bk_states :: "(string \<times> json option) list"
  bk_reset_at :: "string option"

record redis_health =
  can_scan :: bool
  can_get :: "string \<Rightarrow> bool"
  can_set :: "string \<Rightarrow> bool"

fun kv_set :: "string \<Rightarrow> 'v \<Rightarrow> (string \<times> 'v) list \<Rightarrow> (string \<times> 'v) list" where
  "kv_set k v [] = [(k, v)]"
| "kv_set k v ((k', v') # kvs) = (if k' = k then (k, v) # kvs else (k', v') # kv_set k v kvs)"

definition iso_opt :: "codec \<Rightarrow> time option \<Rightarrow> json" where
  "iso_opt c stamp = (case stamp of None \<Rightarrow> JNull | Some t \<Rightarrow> JStr (iso c t))"

definition parse_stamp :: "codec \<Rightarrow> json \<Rightarrow> time option" where
  "parse_stamp c raw = (case raw of JStr s \<Rightarrow> uniso c s | _ \<Rightarrow> None)"

definition record_json :: "codec \<Rightarrow> breaker_record \<Rightarrow> json" where
  "record_json c r = JObj
     [(''name'', JStr (br_name r)), (''state'', JStr (br_state r)),
      (''failure_count'', JInt (br_failure_count r)),
      (''failure_threshold'', JInt (br_failure_threshold r)),
      (''recovery_timeout_s'', JFloat (br_recovery_timeout_s r)),
      (''last_state_change_at'', iso_opt c (br_last_state_change_at r)),
      (''last_failure_at'', iso_opt c (br_last_failure_at r)),
      (''last_failure_reason_class'', jstr_opt (br_last_failure_reason_class r)),
      (''recorded_at'', JStr (iso c (br_recorded_at r)))]"

definition publish_breaker_state ::
    "codec \<Rightarrow> redis_health \<Rightarrow> breaker_record \<Rightarrow> breaker_store \<Rightarrow> breaker_store" where
  "publish_breaker_state c h r st =
     (if can_set h (breaker_key_for (br_name r))
      then st\<lparr>bk_states := kv_set (breaker_key_for (br_name r)) (Some (record_json c r)) (bk_states st)\<rparr>
      else st)"

definition breaker_reset_at_key :: string where
  "breaker_reset_at_key = ''breaker:reset:at''"

definition publish_breaker_reset ::
    "codec \<Rightarrow> redis_health \<Rightarrow> time \<Rightarrow> breaker_store \<Rightarrow> time option \<times> breaker_store" where
  "publish_breaker_reset c h now st =
     (if can_set h breaker_reset_at_key then (Some now, st\<lparr>bk_reset_at := Some (iso c now)\<rparr>)
      else (None, st))"

definition read_breaker_reset_at :: "codec \<Rightarrow> redis_health \<Rightarrow> breaker_store \<Rightarrow> time option" where
  "read_breaker_reset_at c h st =
     (if can_get h breaker_reset_at_key
      then (case bk_reset_at st of None \<Rightarrow> None | Some s \<Rightarrow> uniso c s) else None)"

text \<open>\<open>int(value or 0)\<close> and \<open>float(value or 0.0)\<close> on a loaded value; the errors are not caught.\<close>

definition int_or_0 :: "json \<Rightarrow> app_error + int" where
  "int_or_0 v =
     (if \<not> truthy v then Inr 0
      else case v of
        JInt i \<Rightarrow> Inr i
      | JBool _ \<Rightarrow> Inr 1
      | JFloat q \<Rightarrow> Inr (if 0 \<le> q then \<lfloor>q\<rfloor> else \<lceil>q\<rceil>)
      | JStr s \<Rightarrow> (case py_int s of None \<Rightarrow> Inl ValueError | Some i \<Rightarrow> Inr i)
      | _ \<Rightarrow> Inl TypeError)"

definition float_or_0 :: "codec \<Rightarrow> json \<Rightarrow> app_error + rat" where
  "float_or_0 c v =
     (if \<not> truthy v then Inr 0
      else case v of
        JInt i \<Rightarrow> Inr (of_int i)
      | JBool _ \<Rightarrow> Inr 1
      | JFloat q \<Rightarrow> Inr q
      | JStr s \<Rightarrow> (case to_float c s of None \<Rightarrow> Inl ValueError | Some q \<Rightarrow> Inr q)
      | _ \<Rightarrow> Inl TypeError)"

definition record_from :: "codec \<Rightarrow> json option \<Rightarrow> app_error + breaker_record option" where
  "record_from c raw =
     (case raw of
        Some (JObj loaded) \<Rightarrow>
          (case (parse_stamp c (jget loaded ''recorded_at''), jget loaded ''name'', jget loaded ''state'') of
             (Some recorded_at, JStr name, JStr state) \<Rightarrow>
               (case (int_or_0 (jget loaded ''failure_count''), int_or_0 (jget loaded ''failure_threshold''),
                      float_or_0 c (jget loaded ''recovery_timeout_s'')) of
                  (Inr n, Inr k, Inr q) \<Rightarrow>
                    Inr (Some \<lparr>br_name = name, br_state = state, br_failure_count = n,
                      br_failure_threshold = k, br_recovery_timeout_s = q,
                      br_last_state_change_at = parse_stamp c (jget loaded ''last_state_change_at''),
                      br_last_failure_at = parse_stamp c (jget loaded ''last_failure_at''),
                      br_last_failure_reason_class =
                        (case jget loaded ''last_failure_reason_class'' of JStr s \<Rightarrow> Some s | _ \<Rightarrow> None),
                      br_recorded_at = recorded_at\<rparr>)
                | (Inl e, _, _) \<Rightarrow> Inl e
                | (_, Inl e, _) \<Rightarrow> Inl e
                | (_, _, Inl e) \<Rightarrow> Inl e)
           | _ \<Rightarrow> Inr None)
      | _ \<Rightarrow> Inr None)"

datatype breakers_unknown = NONE_PUBLISHED | UNREACHABLE | UNREADABLE

text \<open>The records under \<open>keys\<close>, or the failure that ends the walk (a read Redis refused, an error).\<close>

fun collect_records ::
    "codec \<Rightarrow> redis_health \<Rightarrow> breaker_store \<Rightarrow> string list
      \<Rightarrow> app_error + breaker_record list option" where
  "collect_records c h st [] = Inr (Some [])"
| "collect_records c h st (k # ks) =
     (if \<not> can_get h k then Inr None
      else case record_from c (case map_of (bk_states st) k of None \<Rightarrow> None | Some v \<Rightarrow> v) of
        Inl e \<Rightarrow> Inl e
      | Inr r \<Rightarrow>
          (case collect_records c h st ks of
             Inl e \<Rightarrow> Inl e
           | Inr None \<Rightarrow> Inr None
           | Inr (Some rs) \<Rightarrow> Inr (Some (case r of None \<Rightarrow> rs | Some r \<Rightarrow> r # rs))))"

definition scan_keys :: "breaker_store \<Rightarrow> string list" where
  "scan_keys st = sorted_list_of_set (fst ` set (bk_states st))"

definition read_breaker_states ::
    "codec \<Rightarrow> redis_health \<Rightarrow> breaker_store
      \<Rightarrow> app_error + (breaker_record list \<times> breakers_unknown option)" where
  "read_breaker_states c h st =
     (if \<not> can_scan h then Inr ([], Some UNREACHABLE)
      else let keys = scan_keys st
           in if keys = [] then Inr ([], Some NONE_PUBLISHED)
              else case collect_records c h st keys of
                Inl e \<Rightarrow> Inl e
              | Inr None \<Rightarrow> Inr ([], Some UNREACHABLE)
              | Inr (Some rs) \<Rightarrow>
                  if rs = [] then Inr ([], Some UNREADABLE)
                  else Inr (sort_key br_name rs, None))"

definition is_reset_clean :: "breaker_record \<Rightarrow> bool" where
  "is_reset_clean r \<longleftrightarrow>
     br_state r = ''closed'' \<and> br_failure_count r = 0 \<and> br_last_failure_at r = None
     \<and> br_last_failure_reason_class r = None \<and> br_last_state_change_at r = None"

definition cleaned :: "time \<Rightarrow> breaker_record \<Rightarrow> breaker_record" where
  "cleaned now r = r\<lparr>br_state := ''closed'', br_failure_count := 0, br_last_state_change_at := None,
     br_last_failure_at := None, br_last_failure_reason_class := None, br_recorded_at := now\<rparr>"

definition reset_one ::
    "codec \<Rightarrow> redis_health \<Rightarrow> time \<Rightarrow> breaker_record \<Rightarrow> nat \<times> breaker_store \<Rightarrow> nat \<times> breaker_store" where
  "reset_one c h now r acc =
     (if is_reset_clean r then acc
      else (Suc (fst acc), publish_breaker_state c h (cleaned now r) (snd acc)))"

definition reset_breaker_states ::
    "codec \<Rightarrow> redis_health \<Rightarrow> time \<Rightarrow> breaker_store \<Rightarrow> app_error + (nat \<times> breaker_store)" where
  "reset_breaker_states c h now st =
     (case publish_breaker_reset c h now st of
        (None, st1) \<Rightarrow> Inr (0, st1)
      | (Some _, st1) \<Rightarrow>
          (case read_breaker_states c h st1 of
             Inl e \<Rightarrow> Inl e
           | Inr (rs, _) \<Rightarrow> Inr (fold (reset_one c h now) rs (0, st1))))"

section \<open>Recording and whole calls\<close>

definition own_record :: "time \<Rightarrow> breaker \<Rightarrow> breaker_record" where
  "own_record now b = \<lparr>br_name = cb_name b, br_state = circuit_state_value (cb_state b),
     br_failure_count = failure_count b, br_failure_threshold = failure_threshold b,
     br_recovery_timeout_s = recovery_timeout b, br_last_state_change_at = last_state_change_at b,
     br_last_failure_at = last_failure_at b,
     br_last_failure_reason_class = last_failure_reason_class b, br_recorded_at = now\<rparr>"

definition record_breaker ::
    "codec \<Rightarrow> redis_health \<Rightarrow> clock \<Rightarrow> bool \<Rightarrow> breaker \<times> breaker_store \<Rightarrow> breaker \<times> breaker_store" where
  "record_breaker c h clk changed s =
     (if \<not> changed \<and> (case recorded_at_monotonic (fst s) of None \<Rightarrow> False
          | Some t \<Rightarrow> mono clk - t < breaker_refresh_interval_seconds)
      then s
      else let b1 = (snd (honour_reset (read_breaker_reset_at c h (snd s)) (fst s)))
                      \<lparr>recorded_at_monotonic := Some (mono clk)\<rparr>
           in (b1, publish_breaker_state c h (own_record (wall clk) b1) (snd s)))"

text \<open>
  A call that nothing interleaves with, entering at \<open>clk1\<close> and ending at \<open>clk2\<close>; the first
  component is the admission, \<open>Rejected\<close> being the \<open>CircuitOpenError\<close>.
\<close>

definition breaker_call ::
    "codec \<Rightarrow> redis_health \<Rightarrow> clock \<Rightarrow> clock \<Rightarrow> call_end \<Rightarrow> breaker \<times> breaker_store
      \<Rightarrow> admission \<times> breaker \<times> breaker_store" where
  "breaker_call c h clk1 clk2 fin s =
     (case call_enter clk1 (read_breaker_reset_at c h (snd s)) (fst s) of
        (Rejected, b1) \<Rightarrow> (Rejected, b1, snd s)
      | (adm, b1) \<Rightarrow>
          (let is_probe = (adm = AdmittedProbe);
               s2 = (if is_probe then record_breaker c h clk1 True (b1, snd s) else (b1, snd s));
               b3 = call_exit clk2 is_probe fin (fst s2)
           in (adm, case fin of
                 Returned \<Rightarrow> record_breaker c h clk2 (cb_state (fst s2) \<noteq> CLOSED) (b3, snd s2)
               | NestedOpen \<Rightarrow> if is_probe then record_breaker c h clk2 True (b3, snd s2) else (b3, snd s2)
               | Raised _ \<Rightarrow> record_breaker c h clk2 (cb_state (fst s2) \<noteq> cb_state b3) (b3, snd s2)
               | Cancelled \<Rightarrow> (b3, snd s2))))"

definition get_circuit_breaker ::
    "string \<Rightarrow> int \<Rightarrow> rat \<Rightarrow> breaker list \<Rightarrow> breaker \<times> breaker list" where
  "get_circuit_breaker name threshold timeout registry =
     (case get_by cb_name name registry of
        Some b \<Rightarrow> (b, registry)
      | None \<Rightarrow> (let b = new_breaker name threshold timeout in (b, registry @ [b])))"

definition registered_breakers :: "breaker list \<Rightarrow> breaker list" where
  "registered_breakers registry = sort_key cb_name registry"

definition record_one ::
    "codec \<Rightarrow> redis_health \<Rightarrow> clock \<Rightarrow> string \<Rightarrow> breaker list \<times> breaker_store \<Rightarrow> breaker list \<times> breaker_store" where
  "record_one c h clk name s =
     (case get_by cb_name name (fst s) of
        None \<Rightarrow> s
      | Some b \<Rightarrow> (let (b1, st1) = record_breaker c h clk True (b, snd s)
                   in (update_where (\<lambda>x. cb_name x = name) (\<lambda>_. b1) (fst s), st1)))"

definition record_registered_breakers ::
    "codec \<Rightarrow> redis_health \<Rightarrow> clock \<Rightarrow> breaker list \<times> breaker_store \<Rightarrow> breaker list \<times> breaker_store" where
  "record_registered_breakers c h clk s =
     fold (record_one c h clk) (map cb_name (registered_breakers (fst s))) s"

section \<open>The state machine\<close>

text \<open>
  The critical sections in the order the lock grants them, from any number of concurrent
  calls: entries, ends (of a probe or not), and the honouring of a reset while recording.
\<close>

datatype breaker_event =
    Enter clock "time option"
  | Exit clock bool call_end
  | Recording "time option" rat

fun breaker_apply :: "breaker_event \<Rightarrow> breaker \<Rightarrow> breaker" where
  "breaker_apply (Enter clk signal) b = snd (call_enter clk signal b)"
| "breaker_apply (Exit clk is_probe fin) b = call_exit clk is_probe fin b"
| "breaker_apply (Recording signal t) b = (snd (honour_reset signal b))\<lparr>recorded_at_monotonic := Some t\<rparr>"

definition breaker_inv :: "breaker \<Rightarrow> bool" where
  "breaker_inv b \<longleftrightarrow>
     0 \<le> failure_count b
     \<and> (cb_state b = CLOSED \<longrightarrow> opened_at b = None
          \<and> (failure_count b = 0 \<or> failure_count b < failure_threshold b))
     \<and> (cb_state b \<noteq> CLOSED \<longrightarrow> last_state_change_at b \<noteq> None)
     \<and> (probe_in_flight b \<longleftrightarrow> cb_state b = HALF_OPEN)
     \<and> (last_failure_at b = None \<longleftrightarrow> last_failure_reason_class b = None)"

text \<open>What also holds as long as no probe is rejected by a breaker nested inside it.\<close>

definition tripped :: "breaker \<Rightarrow> bool" where
  "tripped b \<longleftrightarrow> opened_at b \<noteq> None \<and> 0 < failure_count b
     \<and> failure_threshold b \<le> failure_count b \<and> last_failure_at b \<noteq> None"

definition strict_inv :: "breaker \<Rightarrow> bool" where
  "strict_inv b \<longleftrightarrow> breaker_inv b \<and> (cb_state b \<noteq> CLOSED \<longrightarrow> tripped b)"

fun plain :: "breaker_event \<Rightarrow> bool" where
  "plain (Exit clk True NestedOpen) = False"
| "plain _ = True"

lemmas breaker_defs = call_enter_def call_exit_def honour_reset_def on_success_def on_failure_def
  set_state_def forget_fault_def already_clean_def

lemma honour_reset_None [simp]: "honour_reset None b = (False, b)"
  by (simp add: honour_reset_def)

lemma honour_reset_inv:
  "breaker_inv b \<Longrightarrow> breaker_inv (snd (honour_reset signal b))"
  "strict_inv b \<Longrightarrow> strict_inv (snd (honour_reset signal b))"
  by (auto simp: honour_reset_def forget_fault_def strict_inv_def breaker_inv_def tripped_def Let_def
      split: option.splits if_splits)

text \<open>What the caller sees once a reset has been honoured.\<close>

definition seen_breaker :: "time option \<Rightarrow> breaker \<Rightarrow> breaker" where
  "seen_breaker signal b = (if cb_state b \<noteq> CLOSED then snd (honour_reset signal b) else b)"

lemma call_enter_eq:
  "call_enter clk signal b = call_enter clk None (seen_breaker signal b)"
  by (auto simp: call_enter_def seen_breaker_def Let_def split: circuit_state.split)

lemma seen_breaker_inv:
  "breaker_inv b \<Longrightarrow> breaker_inv (seen_breaker signal b)"
  "strict_inv b \<Longrightarrow> strict_inv (seen_breaker signal b)"
  by (simp_all add: seen_breaker_def honour_reset_inv)

lemma call_enter_inv:
  "breaker_inv b \<Longrightarrow> breaker_inv (snd (call_enter clk signal b))"
  "strict_inv b \<Longrightarrow> strict_inv (snd (call_enter clk signal b))"
proof -
  have "breaker_inv b \<Longrightarrow> breaker_inv (snd (call_enter clk None b))"
    "strict_inv b \<Longrightarrow> strict_inv (snd (call_enter clk None b))" for b
    by (auto simp: call_enter_def Let_def strict_inv_def breaker_inv_def tripped_def
        set_state_def split: circuit_state.split)
  then show "breaker_inv b \<Longrightarrow> breaker_inv (snd (call_enter clk signal b))"
    "strict_inv b \<Longrightarrow> strict_inv (snd (call_enter clk signal b))"
    unfolding call_enter_eq [of clk signal b] by (simp_all add: seen_breaker_inv)
qed

lemma call_exit_inv: "breaker_inv b \<Longrightarrow> breaker_inv (call_exit clk is_probe fin b)"
  by (auto simp: call_exit_def on_success_def on_failure_def set_state_def breaker_inv_def Let_def
      split: call_end.split)

lemma call_exit_strict:
  "strict_inv b \<Longrightarrow> plain (Exit clk is_probe fin) \<Longrightarrow> strict_inv (call_exit clk is_probe fin b)"
  by (cases fin; cases is_probe; cases "cb_state b")
    (auto simp: call_exit_def on_success_def on_failure_def set_state_def strict_inv_def breaker_inv_def
      tripped_def Let_def)

lemma recorded_inv [simp]:
  "breaker_inv (b\<lparr>recorded_at_monotonic := t\<rparr>) = breaker_inv b"
  "strict_inv (b\<lparr>recorded_at_monotonic := t\<rparr>) = strict_inv b"
  by (simp_all add: breaker_inv_def strict_inv_def tripped_def)

interpretation breaker_machine: inv_step breaker_apply breaker_inv
proof
  show "breaker_inv b \<Longrightarrow> breaker_inv (breaker_apply e b)" for b e
    by (cases e) (simp_all add: call_enter_inv call_exit_inv honour_reset_inv)
qed

lemma strict_apply: "strict_inv b \<Longrightarrow> plain e \<Longrightarrow> strict_inv (breaker_apply e b)"
  by (cases e) (simp_all add: call_enter_inv call_exit_strict honour_reset_inv)

lemma strict_trace: "strict_inv b \<Longrightarrow> list_all plain es \<Longrightarrow> strict_inv (fold breaker_apply es b)"
  by (induction es arbitrary: b) (simp_all add: strict_apply)

text \<open>An uninterrupted call is one of the interleavings: its effect on the breaker is a trace.\<close>

lemma record_trace: "\<exists>es. fst (record_breaker c h clk changed (b, st)) = fold breaker_apply es b \<and> list_all plain es"
proof (cases "fst (record_breaker c h clk changed (b, st)) = b")
  case True
  then show ?thesis by (intro exI [of _ "[]"]) simp
next
  case False
  then show ?thesis
    by (intro exI [of _ "[Recording (read_breaker_reset_at c h st) (mono clk)]"])
      (auto simp: record_breaker_def Let_def split: if_splits)
qed

lemma breaker_call_trace:
  "\<exists>es. fst (snd (breaker_call c h clk1 clk2 fin (b, st))) = fold breaker_apply es b"
proof -
  let ?e1 = "Enter clk1 (read_breaker_reset_at c h st)"
  obtain adm b1 where enter: "call_enter clk1 (read_breaker_reset_at c h st) b = (adm, b1)" by fastforce
  then have 1: "b1 = fold breaker_apply [?e1] b" by simp
  let ?p = "adm = AdmittedProbe"
  let ?s2 = "if ?p then record_breaker c h clk1 True (b1, st) else (b1, st)"
  have "\<exists>es2. fst ?s2 = fold breaker_apply es2 b1"
    using record_trace [of c h clk1 True b1 st] by (cases ?p) (auto intro: exI [of _ "[]"])
  then obtain es2 where 2: "fst ?s2 = fold breaker_apply es2 b1" by blast
  let ?b3 = "call_exit clk2 ?p fin (fst ?s2)"
  have 3: "?b3 = fold breaker_apply (es2 @ [Exit clk2 ?p fin]) b1" by (simp add: 2)
  have "\<exists>es. fst (snd (breaker_call c h clk1 clk2 fin (b, st))) = fold breaker_apply es b1
      \<or> fst (snd (breaker_call c h clk1 clk2 fin (b, st))) = fold breaker_apply es ?b3"
    using record_trace [of c h clk2 _ ?b3 "snd ?s2"] enter
    by (cases adm; cases fin) (auto simp: breaker_call_def Let_def intro: exI [of _ "[]"])
  then show ?thesis
    unfolding 3 by (metis 1 fold_append comp_apply)
qed

lemma new_breaker_inv: "strict_inv (new_breaker name threshold timeout)"
  by (simp add: strict_inv_def breaker_inv_def new_breaker_def)

lemma trace_inv: "breaker_inv (fold breaker_apply es (new_breaker name threshold timeout))"
  using breaker_machine.fold_inv new_breaker_inv strict_inv_def by blast

text \<open>
  Property C21. Whatever calls, ends, records and resets interleave, a closed circuit has fewer
  failures than its threshold and no opening time, a probe is in flight exactly while the circuit is
  half open, and a failure time comes with a class. As long as no probe is rejected by a breaker
  nested inside it, a circuit that is not closed has reached its threshold and knows when it opened.
\<close>

theorem breaker_invariant:
  assumes "b = fold breaker_apply es (new_breaker name threshold timeout)"
  shows "(cb_state b = CLOSED \<longrightarrow> opened_at b = None \<and> (failure_count b = 0 \<or> failure_count b < failure_threshold b))
    \<and> (probe_in_flight b \<longleftrightarrow> cb_state b = HALF_OPEN)
    \<and> (last_failure_at b = None \<longleftrightarrow> last_failure_reason_class b = None)
    \<and> (list_all plain es \<and> cb_state b \<noteq> CLOSED \<longrightarrow>
         failure_threshold b \<le> failure_count b \<and> opened_at b \<noteq> None \<and> last_failure_at b \<noteq> None)"
  using trace_inv [of es name threshold timeout] strict_trace [OF new_breaker_inv, of es name threshold timeout]
  by (auto simp: assms breaker_inv_def strict_inv_def tripped_def)

definition at_time :: "rat \<Rightarrow> clock" where
  "at_time t = \<lparr>mono = t, wall = t\<rparr>"

lemma at_time_simps [simp]: "mono (at_time t) = t" "wall (at_time t) = t"
  by (simp_all add: at_time_def)

definition failed_twice :: breaker where
  "failed_twice = fold breaker_apply
     [Exit (at_time 1) False (Raised PyTimeoutError), Exit (at_time 2) False (Raised PyOther)]
     (new_breaker ''api'' 2 30)"

lemma failed_twice_simps [simp]:
  "cb_state failed_twice = OPEN" "opened_at failed_twice = Some 2" "recovery_timeout failed_twice = 30"
  "failure_count failed_twice = 2" "last_failure_at failed_twice = Some 2" "failure_threshold failed_twice = 2"
  by (simp_all add: failed_twice_def new_breaker_def call_exit_def on_failure_def set_state_def Let_def)

theorem breaker_invariant_witness:
  "cb_state failed_twice = OPEN \<and> failure_threshold failed_twice \<le> failure_count failed_twice
    \<and> \<not> probe_in_flight failed_twice"
  using breaker_invariant [OF failed_twice_def] by simp

section \<open>Tripping and probing\<close>

lemma raised_exit:
  "failure_count (call_exit clk p (Raised exc) b) = failure_count b + 1"
  "failure_threshold (call_exit clk p (Raised exc) b) = failure_threshold b"
  "recovery_timeout (call_exit clk p (Raised exc) b) = recovery_timeout b"
  "last_failure_at (call_exit clk p (Raised exc) b) = Some (wall clk)"
  "last_failure_reason_class (call_exit clk p (Raised exc) b) = Some (classify_failure exc)"
  "cb_state (call_exit clk p (Raised exc) b) =
     (if cb_state b = HALF_OPEN \<or> failure_threshold b \<le> failure_count b + 1 then OPEN else cb_state b)"
  "cb_state b = HALF_OPEN \<or> failure_threshold b \<le> failure_count b + 1
    \<Longrightarrow> opened_at (call_exit clk p (Raised exc) b) = Some (mono clk)"
  by (auto simp: call_exit_def on_failure_def set_state_def Let_def)

lemma failing_exits:
  assumes "cb_state b = CLOSED" "failure_count b = 0" "fails \<noteq> []"
  defines "b' \<equiv> fold (\<lambda>(clk, exc). call_exit clk False (Raised exc)) fails b"
  shows "failure_count b' = int (length fails) \<and> failure_threshold b' = failure_threshold b
    \<and> recovery_timeout b' = recovery_timeout b
    \<and> last_failure_at b' = Some (wall (fst (last fails)))
    \<and> last_failure_reason_class b' = Some (classify_failure (snd (last fails)))
    \<and> (if int (length fails) < failure_threshold b then cb_state b' = CLOSED
       else cb_state b' = OPEN \<and> opened_at b' = Some (mono (fst (last fails))))"
  unfolding b'_def using assms(3)
proof (induction fails rule: rev_nonempty_induct)
  case (single x)
  then show ?case
    using assms(1,2) by (cases x) (auto simp: raised_exit)
next
  case (snoc x xs)
  define c where "c = fold (\<lambda>(clk, exc). call_exit clk False (Raised exc)) xs b"
  have "fold (\<lambda>(clk, exc). call_exit clk False (Raised exc)) (xs @ [x]) b =
      call_exit (fst x) False (Raised (snd x)) c"
    by (simp add: c_def case_prod_beta)
  with snoc.IH [folded c_def] show ?case by (auto simp: raised_exit split: if_splits)
qed

text \<open>
  Failures in a row open a closed circuit exactly when they reach the threshold, with
  the count, the opening time and the class of the last one recorded; a success at any point closes
  it again with nothing counted.
\<close>

theorem breaker_trips_at_threshold:
  assumes "cb_state b = CLOSED" "failure_count b = 0" "fails \<noteq> []"
    and "b' = fold (\<lambda>(clk, exc). call_exit clk False (Raised exc)) fails b"
  shows "failure_count b' = int (length fails)
    \<and> (cb_state b' = OPEN \<longleftrightarrow> failure_threshold b \<le> int (length fails))
    \<and> (cb_state b' = CLOSED \<longleftrightarrow> int (length fails) < failure_threshold b)
    \<and> (cb_state b' = OPEN \<longrightarrow> opened_at b' = Some (mono (fst (last fails))))
    \<and> last_failure_reason_class b' = Some (classify_failure (snd (last fails)))
    \<and> cb_state (call_exit clk probe Returned b') = CLOSED
    \<and> failure_count (call_exit clk probe Returned b') = 0"
  using failing_exits [OF assms(1-3)]
  by (auto simp: assms(4) call_exit_def on_success_def set_state_def split: if_splits)

theorem breaker_trips_at_threshold_witness:
  "cb_state (fold (\<lambda>(clk, exc). call_exit clk False (Raised exc))
     [(at_time 1, PyTimeoutError), (at_time 2, PyOther)] (new_breaker ''api'' 2 30)) = OPEN"
  using breaker_trips_at_threshold
    [of "new_breaker ''api'' 2 30" "[(at_time 1, PyTimeoutError), (at_time 2, PyOther)]", OF _ _ _ refl]
  by (simp add: new_breaker_def)

text \<open>Callers arriving one after the other while no call ends and no reset is signalled.\<close>

primrec arrivals :: "clock list \<Rightarrow> breaker \<Rightarrow> admission list \<times> breaker" where
  "arrivals [] b = ([], b)"
| "arrivals (clk # clks) b =
     (let (a, b1) = call_enter clk None b; (as, b2) = arrivals clks b1 in (a # as, b2))"

lemma arrivals_append:
  "arrivals (xs @ ys) b =
     (let (as, b1) = arrivals xs b; (bs, b2) = arrivals ys b1 in (as @ bs, b2))"
  by (induction xs arbitrary: b) (simp_all add: Let_def case_prod_beta)

lemma arrivals_early:
  "cb_state b = OPEN \<Longrightarrow> opened_at b = Some t
    \<Longrightarrow> (\<And>clk. clk \<in> set clks \<Longrightarrow> mono clk - t < recovery_timeout b)
    \<Longrightarrow> arrivals clks b = (replicate (length clks) Rejected, b)"
  by (induction clks) (fastforce simp: call_enter_def Let_def not_le [symmetric])+

lemma arrivals_half_open:
  "cb_state b = HALF_OPEN \<Longrightarrow> arrivals clks b = (replicate (length clks) Rejected, b)"
  by (induction clks) (simp_all add: call_enter_def Let_def)

lemma call_enter_due:
  "cb_state b = OPEN \<Longrightarrow> opened_at b = Some t \<Longrightarrow> recovery_timeout b \<le> mono clk - t
    \<Longrightarrow> fst (call_enter clk None b) = AdmittedProbe \<and> cb_state (snd (call_enter clk None b)) = HALF_OPEN"
  by (simp add: call_enter_def Let_def set_state_def)

text \<open>
  An open circuit lets exactly one caller through to probe: everyone arriving before the
  recovery timeout is rejected, the first to arrive after it is admitted as the probe, and everyone
  else is rejected until a call ends, however many there are.
\<close>

theorem breaker_admits_one_probe:
  assumes "cb_state b = OPEN" "opened_at b = Some t"
    and "\<And>clk. clk \<in> set early \<Longrightarrow> mono clk - t < recovery_timeout b"
    and "recovery_timeout b \<le> mono first - t"
  shows "fst (arrivals (early @ first # others) b) =
      replicate (length early) Rejected @ AdmittedProbe # replicate (length others) Rejected
    \<and> cb_state (snd (arrivals (early @ first # others) b)) = HALF_OPEN"
  using arrivals_early [OF assms(1,2,3), of early] call_enter_due [OF assms(1,2,4)]
    arrivals_half_open [of "snd (call_enter first None b)" others]
  by (simp add: arrivals_append Let_def case_prod_beta)

theorem breaker_admits_one_probe_witness:
  "fst (arrivals ([at_time 10] @ at_time 33 # [at_time 34, at_time 35]) failed_twice) =
     [Rejected, AdmittedProbe, Rejected, Rejected]"
  using breaker_admits_one_probe [of failed_twice 2 "[at_time 10]" "at_time 33" "[at_time 34, at_time 35]"]
  by simp

text \<open>
  A probe whose task is cancelled (the execution deadline of a job does that) leaves the
  circuit half open with no one to end the probe: every later call, however late, is rejected until a
  reset or a call admitted earlier ends.
\<close>

theorem cancelled_probe_strands:
  assumes "cb_state b = OPEN" "opened_at b = Some t" "recovery_timeout b \<le> mono clk - t"
    and "b' = call_exit clk2 True Cancelled (snd (call_enter clk None b))"
  shows "fst (call_enter clk None b) = AdmittedProbe
    \<and> arrivals later b' = (replicate (length later) Rejected, b')"
  using call_enter_due [OF assms(1-3)] arrivals_half_open [of b' later]
  by (simp add: assms(4) call_exit_def)

theorem cancelled_probe_strands_witness:
  "fst (arrivals [at_time 1000, at_time 1000000]
     (call_exit (at_time 34) True Cancelled (snd (call_enter (at_time 33) None failed_twice))))
   = [Rejected, Rejected]"
  using cancelled_probe_strands [of failed_twice 2 "at_time 33" _ "at_time 34" "[at_time 1000, at_time 1000000]", OF _ _ _ refl]
  by simp

section \<open>Resets\<close>

text \<open>
  A breaker forgets a fault older than the reset it is told of, down to the state it had
  at boot, keeps one that came after it, and weighs each reset once: honouring the same signal again
  changes nothing. So no breaker publishes a fault from before a reset over the reset's clean record:
  what it records then is clean.
\<close>

theorem reset_is_weighed_once:
  assumes "observed_reset_at b \<noteq> Some reset"
  shows "(case last_failure_at b of
       Some t \<Rightarrow> reset < t \<longrightarrow> snd (honour_reset (Some reset) b) = b\<lparr>observed_reset_at := Some reset\<rparr>
     | None \<Rightarrow> True)
    \<and> ((case last_failure_at b of None \<Rightarrow> True | Some t \<Rightarrow> t \<le> reset) \<longrightarrow>
         snd (honour_reset (Some reset) b) =
           (new_breaker (cb_name b) (failure_threshold b) (recovery_timeout b))
             \<lparr>recorded_at_monotonic := recorded_at_monotonic b, observed_reset_at := Some reset\<rparr>
         \<and> (read_breaker_reset_at c h st = Some reset \<longrightarrow>
              is_reset_clean (own_record (wall clk) (fst (record_breaker c h clk True (b, st))))
              \<and> snd (record_breaker c h clk True (b, st)) =
                  publish_breaker_state c h (own_record (wall clk) (fst (record_breaker c h clk True (b, st)))) st))
    \<and> honour_reset (Some reset) (snd (honour_reset (Some reset) b)) = (False, snd (honour_reset (Some reset) b))"
  using assms
  by (auto simp: honour_reset_def forget_fault_def new_breaker_def record_breaker_def own_record_def
      is_reset_clean_def Let_def split: option.splits)

theorem reset_is_weighed_once_witness:
  "cb_state (snd (honour_reset (Some 5) failed_twice)) = CLOSED
   \<and> cb_state (snd (honour_reset (Some 1) failed_twice)) = OPEN"
proof -
  have "observed_reset_at failed_twice = None"
    by (simp add: failed_twice_def new_breaker_def call_exit_def on_failure_def set_state_def Let_def)
  then show ?thesis
    using reset_is_weighed_once [of failed_twice 5] reset_is_weighed_once [of failed_twice 1]
    by (simp add: new_breaker_def)
qed

section \<open>Published records read back\<close>

definition stamps :: "breaker_record \<Rightarrow> time set" where
  "stamps r = set_option (br_last_state_change_at r) \<union> set_option (br_last_failure_at r) \<union> {br_recorded_at r}"

text \<open>Parsing inverts printing on the timestamps of \<open>r\<close>, as Python documents for aware datetimes.\<close>

definition codec_ok :: "codec \<Rightarrow> breaker_record \<Rightarrow> bool" where
  "codec_ok c r \<longleftrightarrow> (\<forall>t \<in> stamps r. uniso c (iso c t) = Some t)"

lemma record_from_json: "codec_ok c r \<Longrightarrow> record_from c (Some (record_json c r)) = Inr (Some r)"
  by (cases r; cases "br_last_state_change_at r"; cases "br_last_failure_at r";
      cases "br_last_failure_reason_class r")
    (simp_all add: record_from_def record_json_def codec_ok_def stamps_def parse_stamp_def iso_opt_def
      int_or_0_def float_or_0_def jstr_opt_def)

text \<open>The store holds exactly the records \<open>R\<close>, one per name.\<close>

definition holds :: "codec \<Rightarrow> breaker_store \<Rightarrow> breaker_record set \<Rightarrow> bool" where
  "holds c st R \<longleftrightarrow> distinct (map fst (bk_states st)) \<and> inj_on br_name R \<and> (\<forall>r \<in> R. codec_ok c r)
     \<and> set (bk_states st) = (\<lambda>r. (breaker_key_for (br_name r), Some (record_json c r))) ` R"

lemma breaker_key_inj [simp]: "breaker_key_for m = breaker_key_for n \<longleftrightarrow> m = n"
  by (simp add: breaker_key_for_def)

lemma map_fst_kv_set:
  "map fst (kv_set k v kvs) = (if k \<in> fst ` set kvs then map fst kvs else map fst kvs @ [k])"
  by (induction kvs) (fastforce simp: image_iff)+

lemma kv_set_keys:
  "distinct (map fst kvs) \<Longrightarrow> distinct (map fst (kv_set k v kvs))"
  "distinct (map fst kvs) \<Longrightarrow> set (kv_set k v kvs) = insert (k, v) {kv \<in> set kvs. fst kv \<noteq> k}"
proof -
  show "distinct (map fst kvs) \<Longrightarrow> distinct (map fst (kv_set k v kvs))"
    by (simp add: map_fst_kv_set)
  show "distinct (map fst kvs) \<Longrightarrow> set (kv_set k v kvs) = insert (k, v) {kv \<in> set kvs. fst kv \<noteq> k}"
  proof (induction kvs)
    case (Cons kv kvs)
    then have "\<forall>x \<in> set kvs. fst x \<noteq> fst kv" by (auto simp: image_iff)
    then have "{x \<in> set kvs. fst x \<noteq> fst kv} = set kvs" by auto
    with Cons show ?case by (cases kv) auto
  qed simp
qed

lemma holds_publish:
  assumes "holds c st R" "codec_ok c r" "can_set h (breaker_key_for (br_name r))"
  shows "holds c (publish_breaker_state c h r st) (insert r {x \<in> R. br_name x \<noteq> br_name r})"
proof -
  let ?f = "\<lambda>r. (breaker_key_for (br_name r), Some (record_json c r))"
  have "set (bk_states (publish_breaker_state c h r st)) = insert (?f r) {kv \<in> ?f ` R. fst kv \<noteq> fst (?f r)}"
    using assms by (simp add: publish_breaker_state_def holds_def kv_set_keys(2))
  also have "\<dots> = ?f ` insert r {x \<in> R. br_name x \<noteq> br_name r}" by auto
  finally show ?thesis
    using assms by (auto simp: holds_def publish_breaker_state_def inj_on_def kv_set_keys(1))
qed

lemma collect_records_holds:
  assumes "holds c st R" "\<And>k. can_get h k" "set ks \<subseteq> (\<lambda>r. breaker_key_for (br_name r)) ` R"
  shows "\<exists>rs. collect_records c h st ks = Inr (Some rs) \<and> map (\<lambda>r. breaker_key_for (br_name r)) rs = ks \<and> set rs \<subseteq> R"
  using assms(3)
proof (induction ks)
  case (Cons k ks)
  then obtain r where r: "r \<in> R" "k = breaker_key_for (br_name r)" by auto
  then have "map_of (bk_states st) k = Some (Some (record_json c r))"
    using assms(1) by (auto simp: holds_def intro!: map_of_is_SomeI)
  moreover have "record_from c (Some (record_json c r)) = Inr (Some r)"
    using r assms(1) record_from_json by (auto simp: holds_def)
  ultimately show ?case using Cons r assms(2) by auto
qed simp

lemma read_holds:
  assumes "holds c st R" "R \<noteq> {}" "can_scan h" "\<And>k. can_get h k"
  shows "\<exists>rs. read_breaker_states c h st = Inr (rs, None) \<and> set rs = R \<and> distinct rs \<and> sorted (map br_name rs)"
proof -
  let ?key = "\<lambda>r. breaker_key_for (br_name r)"
  have "fst ` set (bk_states st) = ?key ` R" using assms(1) by (simp add: holds_def image_image)
  then have keys: "set (scan_keys st) = ?key ` R" "distinct (scan_keys st)"
    by (simp_all add: scan_keys_def) (metis List.finite_set finite_imageI set_sorted_list_of_set)
  then obtain rs where rs: "collect_records c h st (scan_keys st) = Inr (Some rs)"
      "map ?key rs = scan_keys st" "set rs \<subseteq> R"
    using collect_records_holds [OF assms(1,4), of "scan_keys st"] by auto
  have inj: "inj_on ?key R" using assms(1) by (auto simp: holds_def inj_on_def)
  have "?key ` set rs = ?key ` R" using keys(1) rs(2) by (metis list.set_map)
  then have "set rs = R" using inj rs(3) by (simp add: inj_on_image_eq_iff)
  moreover have "distinct rs" using rs(2) keys(2) by (metis distinct_map)
  moreover have "scan_keys st \<noteq> []" "rs \<noteq> []" using keys(1) assms(2) \<open>set rs = R\<close> by auto
  ultimately show ?thesis
    using rs(1) assms(3) by (auto simp: read_breaker_states_def)
qed

definition swept :: "time \<Rightarrow> breaker_record set \<Rightarrow> breaker_record \<Rightarrow> breaker_record" where
  "swept now S r = (if r \<in> S \<and> \<not> is_reset_clean r then cleaned now r else r)"

lemma cleaned_simps [simp]: "is_reset_clean (cleaned now r)" "br_name (cleaned now r) = br_name r"
  by (simp_all add: cleaned_def is_reset_clean_def)

lemma swept_clean [simp]: "is_reset_clean r \<Longrightarrow> swept now S r = r"
  by (simp add: swept_def)

lemma swept_insert: "swept now (insert r S) x = (if x = r then (if is_reset_clean r then r else cleaned now r) else swept now S x)"
  by (simp add: swept_def)

lemma reset_fold:
  assumes "holds c st R" "set rs \<subseteq> R" "distinct rs" "\<And>r. r \<in> set rs \<Longrightarrow> codec_ok c (cleaned now r)"
    and "\<And>k. can_set h k"
  shows "holds c (snd (fold (reset_one c h now) rs (n, st))) (swept now (set rs) ` R)
    \<and> fst (fold (reset_one c h now) rs (n, st)) = n + length (filter (\<lambda>r. \<not> is_reset_clean r) rs)"
  using assms
proof (induction rs arbitrary: n st R)
  case Nil
  then show ?case by (simp add: swept_def)
next
  case (Cons r rs)
  show ?case
  proof (cases "is_reset_clean r")
    case True
    then have "swept now (set (r # rs)) = swept now (set rs)" by (auto simp: swept_insert)
    then show ?thesis using Cons True by (simp add: reset_one_def)
  next
    case False
    let ?st = "publish_breaker_state c h (cleaned now r) st"
    let ?R = "insert (cleaned now r) {x \<in> R. br_name x \<noteq> br_name r}"
    have inj: "inj_on br_name R" using Cons.prems(1) by (simp add: holds_def)
    have R: "r \<in> R" using Cons.prems(2) by simp
    have 1: "holds c ?st ?R" using holds_publish [OF Cons.prems(1), of "cleaned now r" h] Cons.prems(4,5) by simp
    have sub: "set rs \<subseteq> ?R" using Cons.prems(2,3) inj R by (auto simp: inj_on_def)
    have split: "{x \<in> R. br_name x \<noteq> br_name r} = R - {r}" using inj R by (auto simp: inj_on_def)
    have "swept now (set rs) ` ?R = insert (cleaned now r) (swept now (set rs) ` (R - {r}))"
      unfolding split by simp
    also have "swept now (set rs) ` (R - {r}) = swept now (set (r # rs)) ` (R - {r})"
      by (rule image_cong) (auto simp: swept_insert)
    also have "insert (cleaned now r) (swept now (set (r # rs)) ` (R - {r})) =
        swept now (set (r # rs)) ` insert r (R - {r})"
    proof -
      have "swept now (set (r # rs)) r = cleaned now r" using False by (simp add: swept_insert)
      then show ?thesis by (simp only: image_insert)
    qed
    also have "insert r (R - {r}) = R" using R by auto
    finally show ?thesis
      using Cons.IH [OF 1 sub, of "Suc n"] Cons.prems(3,4,5) False by (simp add: reset_one_def)
  qed
qed

text \<open>
  A published state reads back as it was written, beside the others and in name order;
  and an environment reset loses no breaker: afterwards every record that was there is there, clean,
  with its own threshold and timeout, and the reset reports how many it rewrote. (Redis answering,
  the clock text of the records parsing back.)
\<close>

theorem breaker_states_roundtrip:
  assumes "holds c st R" "can_scan h" "\<And>k. can_get h k" "\<And>k. can_set h k"
    and "codec_ok c r" "\<And>x. x \<in> R \<Longrightarrow> codec_ok c (cleaned now x)" "R \<noteq> {}"
  shows "(\<exists>rs. read_breaker_states c h (publish_breaker_state c h r st) = Inr (rs, None)
       \<and> set rs = insert r {x \<in> R. br_name x \<noteq> br_name r} \<and> sorted (map br_name rs))
    \<and> (\<exists>st' rs. reset_breaker_states c h now st = Inr (card {x \<in> R. \<not> is_reset_clean x}, st')
       \<and> read_breaker_states c h st' = Inr (rs, None)
       \<and> set rs = (\<lambda>x. if is_reset_clean x then x else cleaned now x) ` R
       \<and> list_all is_reset_clean rs)"
proof
  have "holds c (publish_breaker_state c h r st) (insert r {x \<in> R. br_name x \<noteq> br_name r})"
    by (rule holds_publish [OF assms(1,5,4)])
  from read_holds [OF this _ assms(2,3)]
  show "\<exists>rs. read_breaker_states c h (publish_breaker_state c h r st) = Inr (rs, None)
       \<and> set rs = insert r {x \<in> R. br_name x \<noteq> br_name r} \<and> sorted (map br_name rs)" by auto
next
  let ?st = "st\<lparr>bk_reset_at := Some (iso c now)\<rparr>"
  have held: "holds c ?st R" using assms(1) by (simp add: holds_def)
  obtain rs where rs: "read_breaker_states c h ?st = Inr (rs, None)" "set rs = R" "distinct rs"
    using read_holds [OF held assms(7,2,3)] by blast
  let ?fin = "fold (reset_one c h now) rs (0, ?st)"
  have img: "swept now (set rs) ` R = (\<lambda>x. if is_reset_clean x then x else cleaned now x) ` R"
    by (rule image_cong) (simp_all add: swept_def rs(2))
  have fin: "holds c (snd ?fin) (swept now (set rs) ` R)" "fst ?fin = length (filter (\<lambda>x. \<not> is_reset_clean x) rs)"
    using reset_fold [OF held _ rs(3) assms(6) assms(4), of 0] rs(2) by auto
  have "fst ?fin = card {x \<in> R. \<not> is_reset_clean x}"
    using fin(2) rs(2,3) distinct_card [of "filter (\<lambda>x. \<not> is_reset_clean x) rs"] by simp
  then have 1: "reset_breaker_states c h now st = Inr (card {x \<in> R. \<not> is_reset_clean x}, snd ?fin)"
    using rs(1) assms(4) by (simp add: reset_breaker_states_def publish_breaker_reset_def prod_eq_iff)
  obtain rs' where 2: "read_breaker_states c h (snd ?fin) = Inr (rs', None)" "set rs' = swept now (set rs) ` R"
    using read_holds [OF fin(1) _ assms(2,3)] assms(7) by auto
  have 3: "list_all is_reset_clean rs'" using 2(2) rs(2) by (auto simp: list_all_iff swept_def)
  show "\<exists>st' rs. reset_breaker_states c h now st = Inr (card {x \<in> R. \<not> is_reset_clean x}, st')
       \<and> read_breaker_states c h st' = Inr (rs, None)
       \<and> set rs = (\<lambda>x. if is_reset_clean x then x else cleaned now x) ` R
       \<and> list_all is_reset_clean rs"
    by (rule exI [of _ "snd ?fin"], rule exI [of _ rs'], intro conjI 1 2(1) 3) (simp only: 2(2) img)
qed

definition sample_codec :: codec where
  "sample_codec = \<lparr>iso = (\<lambda>t. if t = 0 then ''0'' else if t = 2 then ''2'' else ''9''),
     uniso = (\<lambda>s. if s = ''0'' then Some 0 else if s = ''2'' then Some 2 else Some 9), to_float = (\<lambda>_. None)\<rparr>"

definition all_up :: redis_health where
  "all_up = \<lparr>can_scan = True, can_get = (\<lambda>_. True), can_set = (\<lambda>_. True)\<rparr>"

definition sample_record :: breaker_record where
  "sample_record = own_record 2 (failed_twice\<lparr>last_state_change_at := Some 2\<rparr>)"

theorem breaker_states_roundtrip_witness:
  "\<exists>st' rs. reset_breaker_states sample_codec all_up 9
      \<lparr>bk_states = [(''breaker:state:api'', Some (record_json sample_codec sample_record))], bk_reset_at = None\<rparr> = Inr (1, st')
    \<and> read_breaker_states sample_codec all_up st' = Inr (rs, None) \<and> set rs = {cleaned 9 sample_record}"
proof -
  let ?st = "\<lparr>bk_states = [(''breaker:state:api'', Some (record_json sample_codec sample_record))], bk_reset_at = None\<rparr>"
  have name: "br_name sample_record = ''api''"
    by (simp add: sample_record_def own_record_def failed_twice_def new_breaker_def call_exit_def
        on_failure_def set_state_def Let_def)
  have dirty: "\<not> is_reset_clean sample_record"
    by (simp add: sample_record_def own_record_def is_reset_clean_def)
  have one: "{x. x = sample_record \<and> \<not> is_reset_clean x} = {sample_record}" using dirty by auto
  have ok: "codec_ok sample_codec sample_record" "codec_ok sample_codec (cleaned 9 sample_record)"
    by (simp_all add: codec_ok_def stamps_def sample_record_def own_record_def sample_codec_def cleaned_def)
  have "holds sample_codec ?st {sample_record}"
    using ok by (simp add: holds_def name breaker_key_for_def breaker_state_key_prefix_def)
  from breaker_states_roundtrip [OF this, of all_up sample_record 9] show ?thesis
    using ok dirty by (auto simp: all_up_def one)
qed

end
