(* ===== verification/Service_Accounts.thy ===== *)
theory Service_Accounts
  imports Outbox "HOL-Library.Char_ord" "HOL-Library.List_Lexorder"
begin

text \<open>
  Machine principals: the scopes of \<open>core/scopes.py\<close>, the accounts and bearer tokens of
  \<open>services/service_account.py\<close> and \<open>repositories/service_account.py\<close>. \<open>sha256\<close> is the hex
  digest of \<open>hashlib\<close>, a parameter, and the secret a mint draws from
  \<open>secrets.token_urlsafe\<close> is an argument. The audit rows go to the audit table of the
  database record.
\<close>

section \<open>Scopes\<close>

datatype scope =
    TELEMETRY_READ | INCIDENTS_READ | ACTIONS_PROPOSE | ACTIONS_EXECUTE | CHAOS_INVOKE | AGENT_RUNS_WRITE

fun scope_value :: "scope \<Rightarrow> string" where
  "scope_value TELEMETRY_READ = ''telemetry:read''"
| "scope_value INCIDENTS_READ = ''incidents:read''"
| "scope_value ACTIONS_PROPOSE = ''actions:propose''"
| "scope_value ACTIONS_EXECUTE = ''actions:execute''"
| "scope_value CHAOS_INVOKE = ''chaos:invoke''"
| "scope_value AGENT_RUNS_WRITE = ''agent_runs:write''"

definition all_scopes :: "string list" where
  "all_scopes = map scope_value
     [TELEMETRY_READ, INCIDENTS_READ, ACTIONS_PROPOSE, ACTIONS_EXECUTE, CHAOS_INVOKE, AGENT_RUNS_WRITE]"

definition api_grantable_scopes :: "string list" where
  "api_grantable_scopes = filter (\<lambda>s. s \<noteq> scope_value CHAOS_INVOKE) all_scopes"

text \<open>The \<open>ValueError\<close> carries the scopes at fault, as its message does.\<close>

definition validate_scopes :: "string list \<Rightarrow> string list + string list" where
  "validate_scopes scopes =
     (let unknown = filter (\<lambda>s. s \<notin> set all_scopes) scopes
      in if unknown = [] then Inr scopes else Inl unknown)"

definition assert_api_grantable :: "string list option \<Rightarrow> bool \<Rightarrow> string list option" where
  "assert_api_grantable scopes chaos_enabled =
     (case scopes of
        None \<Rightarrow> None
      | Some ss \<Rightarrow>
          if ss = [] \<or> chaos_enabled then None
          else let refused = sorted_list_of_set
                 (set ss \<inter> (set all_scopes - set api_grantable_scopes))
               in if refused = [] then None else Some refused)"

section \<open>Accounts and tokens\<close>

record service_account =
  sa_id :: uuid
  sa_tenant_id :: uuid
  sa_name :: string
  sa_scopes :: "string list"
  sa_is_active :: bool
  sa_created_by_user_id :: "uuid option"

record sa_token =
  tk_id :: uuid
  tk_service_account_id :: uuid
  tk_hash :: string
  tk_scopes :: "string list"
  tk_expires_at :: "time option"
  tk_revoked_at :: "time option"
  tk_last_used_at :: "time option"

record sa_db =
  service_accounts :: "service_account list"
  sa_tokens :: "sa_token list"
  sa_next :: uuid
  sa_core :: db

definition get_by_name :: "uuid \<Rightarrow> string \<Rightarrow> sa_db \<Rightarrow> service_account option" where
  "get_by_name tenant name d = find (\<lambda>a. sa_tenant_id a = tenant \<and> sa_name a = name) (service_accounts d)"

definition get_by_hash :: "string \<Rightarrow> sa_db \<Rightarrow> sa_token option" where
  "get_by_hash h d = find (\<lambda>t. tk_hash t = h) (sa_tokens d)"

definition token_prefix :: string where
  "token_prefix = ''sa_''"

definition default_token_ttl :: time where
  "default_token_ttl = 90 * 86400"

definition looks_like_service_account_token :: "string \<Rightarrow> bool" where
  "looks_like_service_account_token v \<longleftrightarrow> take 3 v = token_prefix"

definition jstrs :: "string list \<Rightarrow> json" where
  "jstrs ss = JArr (map JStr ss)"

definition sa_audit ::
    "string \<Rightarrow> string option \<Rightarrow> uuid \<Rightarrow> uuid option \<Rightarrow> string \<Rightarrow> uuid \<Rightarrow> dict \<Rightarrow> sa_db \<Rightarrow> sa_db" where
  "sa_audit action req tenant user rtype rid extra d =
     d\<lparr>sa_core := audit_log_write action tenant
         (no_args\<lparr>aa_user_id := user, aa_resource_type := Some rtype,
            aa_resource_id := Some (uuid_str rid), aa_request_id := req, aa_extra_data := Some extra\<rparr>)
         (sa_core d)\<rparr>"

definition unknown_scopes_error :: "string list \<Rightarrow> app_error" where
  "unknown_scopes_error ss = AuthorizationError (''Unknown scope(s): '' @ py_repr_list ss)"

definition create_service_account ::
    "string option \<Rightarrow> uuid \<Rightarrow> string \<Rightarrow> string list \<Rightarrow> uuid option \<Rightarrow> sa_db
      \<Rightarrow> app_error + (service_account \<times> sa_db)" where
  "create_service_account req tenant name scopes user d =
     (case validate_scopes scopes of
        Inl unknown \<Rightarrow> Inl (unknown_scopes_error unknown)
      | Inr _ \<Rightarrow>
          if get_by_name tenant name d \<noteq> None
          then Inl (ConflictError (''Service account already exists: '' @ name))
          else let a = \<lparr>sa_id = sa_next d, sa_tenant_id = tenant, sa_name = name, sa_scopes = scopes,
                        sa_is_active = True, sa_created_by_user_id = user\<rparr>;
                   d1 = d\<lparr>service_accounts := service_accounts d @ [a], sa_next := Suc (sa_next d)\<rparr>
               in Inr (a, sa_audit ''service_account.created'' req tenant user ''service_account'' (sa_id a)
                    [(''name'', JStr name), (''scopes'', jstrs scopes)] d1))"

definition update_scopes ::
    "string option \<Rightarrow> service_account \<Rightarrow> string list \<Rightarrow> uuid option \<Rightarrow> sa_db
      \<Rightarrow> app_error + (service_account \<times> sa_db)" where
  "update_scopes req a scopes user d =
     (case validate_scopes scopes of
        Inl unknown \<Rightarrow> Inl (unknown_scopes_error unknown)
      | Inr _ \<Rightarrow>
          if sort (sa_scopes a) = sort scopes then Inr (a, d)
          else let a1 = a\<lparr>sa_scopes := scopes\<rparr>;
                   d1 = d\<lparr>service_accounts := update_where (\<lambda>x. sa_id x = sa_id a)
                            (\<lambda>x. x\<lparr>sa_scopes := scopes\<rparr>) (service_accounts d)\<rparr>
               in Inr (a1, sa_audit ''service_account.scopes_updated'' req (sa_tenant_id a) user
                    ''service_account'' (sa_id a)
                    [(''sa_name'', JStr (sa_name a)), (''scopes_before'', jstrs (sa_scopes a)),
                     (''scopes_after'', jstrs scopes)] d1))"

definition mint_token ::
    "(string \<Rightarrow> string) \<Rightarrow> settings \<Rightarrow> time \<Rightarrow> string \<Rightarrow> string option \<Rightarrow> service_account \<Rightarrow> string list option
      \<Rightarrow> time option \<Rightarrow> uuid option \<Rightarrow> sa_db \<Rightarrow> app_error + (sa_token \<times> string \<times> sa_db)" where
  "mint_token sha256 cfg now secret req a scopes ttl user d =
     (if \<not> sa_is_active a then Inl (AuthorizationError ''Service account is disabled'')
      else let requested = (case scopes of None \<Rightarrow> sa_scopes a | Some ss \<Rightarrow> ss)
           in case validate_scopes requested of
                Inl unknown \<Rightarrow> Inl (unknown_scopes_error unknown)
              | Inr _ \<Rightarrow>
                  (let extra = filter (\<lambda>s. s \<notin> set (sa_scopes a)) requested
                   in if extra \<noteq> []
                      then Inl (AuthorizationError
                             (''Requested scopes exceed account scopes: '' @ py_repr_list extra))
                      else let plaintext = token_prefix @ secret;
                               expires = now + (case ttl of None \<Rightarrow> default_token_ttl | Some t \<Rightarrow> t);
                               row = \<lparr>tk_id = sa_next d, tk_service_account_id = sa_id a,
                                      tk_hash = sha256 plaintext, tk_scopes = requested,
                                      tk_expires_at = Some expires, tk_revoked_at = None,
                                      tk_last_used_at = None\<rparr>;
                               d1 = d\<lparr>sa_tokens := sa_tokens d @ [row], sa_next := Suc (sa_next d)\<rparr>
                           in Inr (row, plaintext,
                                sa_audit ''service_account.token_minted'' req (sa_tenant_id a) user
                                  ''service_account_token'' (tk_id row)
                                  [(''service_account_id'', juuid (sa_id a)), (''scopes'', jstrs requested),
                                   (''expires_at'', JStr (iso_format cfg expires))] d1)))"

definition revoke_token ::
    "time \<Rightarrow> string option \<Rightarrow> service_account \<Rightarrow> uuid \<Rightarrow> uuid option \<Rightarrow> sa_db
      \<Rightarrow> app_error + (sa_token \<times> sa_db)" where
  "revoke_token now req a tid user d =
     (case get_by tk_id tid (sa_tokens d) of
        None \<Rightarrow> Inl (NotFoundError (''Token not found: '' @ uuid_str tid))
      | Some t \<Rightarrow>
          if tk_service_account_id t \<noteq> sa_id a then Inl (NotFoundError (''Token not found: '' @ uuid_str tid))
          else if tk_revoked_at t \<noteq> None then Inr (t, d)
          else let d1 = d\<lparr>sa_tokens := update_where (\<lambda>x. tk_id x = tid)
                            (\<lambda>x. x\<lparr>tk_revoked_at := Some now\<rparr>) (sa_tokens d)\<rparr>
               in Inr (t\<lparr>tk_revoked_at := Some now\<rparr>,
                    sa_audit ''service_account.token_revoked'' req (sa_tenant_id a) user
                      ''service_account_token'' tid [(''service_account_id'', juuid (sa_id a))] d1))"

definition verify_token ::
    "(string \<Rightarrow> string) \<Rightarrow> time \<Rightarrow> string \<Rightarrow> sa_db \<Rightarrow> app_error + (service_account \<times> sa_token \<times> sa_db)" where
  "verify_token sha256 now plaintext d =
     (if \<not> looks_like_service_account_token plaintext
      then Inl (AuthenticationError ''Not a service-account token'')
      else case get_by_hash (sha256 plaintext) d of
        None \<Rightarrow> Inl (AuthenticationError ''Invalid token'')
      | Some t \<Rightarrow>
          if tk_revoked_at t \<noteq> None then Inl (AuthenticationError ''Token has been revoked'')
          else if (case tk_expires_at t of None \<Rightarrow> False | Some e \<Rightarrow> e < now)
          then Inl (AuthenticationError ''Token has expired'')
          else case get_by sa_id (tk_service_account_id t) (service_accounts d) of
            None \<Rightarrow> Inl (AuthenticationError ''Service account not found'')
          | Some a \<Rightarrow>
              if \<not> sa_is_active a then Inl (AuthenticationError ''Service account is disabled'')
              else Inr (a, t\<lparr>tk_last_used_at := Some now\<rparr>,
                d\<lparr>sa_tokens := update_where (\<lambda>x. tk_id x = tk_id t)
                    (\<lambda>x. x\<lparr>tk_last_used_at := Some now\<rparr>) (sa_tokens d)\<rparr>))"

section \<open>The admin endpoints\<close>

text \<open>
  \<open>api/service_accounts.py\<close>: a platform admin acting in the tenant already resolved; \<open>chaos\<close>
  is \<open>settings.chaos_enabled\<close>. A refusal is the left summand.
\<close>

definition grant_gate :: "bool \<Rightarrow> string list option \<Rightarrow> app_error option" where
  "grant_gate chaos scopes =
     map_option (\<lambda>refused. AuthorizationError
       (''Scope(s) not grantable through this API: '' @ py_repr_list refused @
        ''. chaos:invoke is provisioned by the operator seed script, or by a platform admin only on a chaos-enabled stack (ADR 0008).''))
       (assert_api_grantable scopes chaos)"

definition account_in_tenant :: "uuid \<Rightarrow> uuid \<Rightarrow> sa_db \<Rightarrow> app_error + service_account" where
  "account_in_tenant tenant i d =
     (case get_by sa_id i (service_accounts d) of
        Some a \<Rightarrow> if sa_tenant_id a = tenant then Inr a
                  else Inl (NotFoundError (''Service account not found: '' @ uuid_str i))
      | None \<Rightarrow> Inl (NotFoundError (''Service account not found: '' @ uuid_str i)))"

definition api_create ::
    "bool \<Rightarrow> string option \<Rightarrow> uuid \<Rightarrow> uuid \<Rightarrow> string \<Rightarrow> string list \<Rightarrow> sa_db \<Rightarrow> app_error + sa_db" where
  "api_create chaos req tenant admin name scopes d =
     (case grant_gate chaos (Some scopes) of
        Some e \<Rightarrow> Inl e
      | None \<Rightarrow> map_sum id snd (create_service_account req tenant name scopes (Some admin) d))"

definition api_update_scopes ::
    "bool \<Rightarrow> string option \<Rightarrow> uuid \<Rightarrow> uuid \<Rightarrow> uuid \<Rightarrow> string list \<Rightarrow> sa_db \<Rightarrow> app_error + sa_db" where
  "api_update_scopes chaos req tenant admin i scopes d =
     (case grant_gate chaos (Some scopes) of
        Some e \<Rightarrow> Inl e
      | None \<Rightarrow>
          (case account_in_tenant tenant i d of
             Inl e \<Rightarrow> Inl e
           | Inr a \<Rightarrow> map_sum id snd (update_scopes req a scopes (Some admin) d)))"

definition api_mint ::
    "(string \<Rightarrow> string) \<Rightarrow> settings \<Rightarrow> bool \<Rightarrow> time \<Rightarrow> string \<Rightarrow> string option \<Rightarrow> uuid \<Rightarrow> uuid \<Rightarrow> uuid
      \<Rightarrow> string list option \<Rightarrow> int option \<Rightarrow> sa_db \<Rightarrow> app_error + (string \<times> sa_db)" where
  "api_mint sha256 cfg chaos now secret req tenant admin i scopes ttl_days d =
     (case grant_gate chaos scopes of
        Some e \<Rightarrow> Inl e
      | None \<Rightarrow>
          (case account_in_tenant tenant i d of
             Inl e \<Rightarrow> Inl e
           | Inr a \<Rightarrow>
               (let ttl = (case ttl_days of None \<Rightarrow> None
                           | Some n \<Rightarrow> if n = 0 then None else Some (of_int n * 86400))
                in map_sum id snd (mint_token sha256 cfg now secret req a scopes ttl (Some admin) d))))"

definition api_revoke ::
    "time \<Rightarrow> string option \<Rightarrow> uuid \<Rightarrow> uuid \<Rightarrow> uuid \<Rightarrow> uuid \<Rightarrow> sa_db \<Rightarrow> app_error + sa_db" where
  "api_revoke now req tenant admin i tid d =
     (case account_in_tenant tenant i d of
        Inl e \<Rightarrow> Inl e
      | Inr a \<Rightarrow> map_sum id snd (revoke_token now req a tid (Some admin) d))"

section \<open>Histories\<close>

datatype sa_op =
    OpCreate "string option" uuid uuid string "string list"
  | OpUpdate "string option" uuid uuid uuid "string list"
  | OpMint time string "string option" uuid uuid uuid "string list option" "int option"
  | OpRevoke time "string option" uuid uuid uuid uuid
  | OpVerify time string

text \<open>An operation that raises rolls its transaction back.\<close>

definition committed :: "'d \<Rightarrow> ('e + 'd) \<Rightarrow> 'd" where
  "committed d r = (case r of Inl _ \<Rightarrow> d | Inr d' \<Rightarrow> d')"

fun sa_apply :: "(string \<Rightarrow> string) \<Rightarrow> settings \<Rightarrow> bool \<Rightarrow> sa_op \<Rightarrow> sa_db \<Rightarrow> sa_db" where
  "sa_apply sha256 cfg chaos (OpCreate req tenant admin name scopes) d =
     committed d (api_create chaos req tenant admin name scopes d)"
| "sa_apply sha256 cfg chaos (OpUpdate req tenant admin i scopes) d =
     committed d (api_update_scopes chaos req tenant admin i scopes d)"
| "sa_apply sha256 cfg chaos (OpMint now secret req tenant admin i scopes ttl) d =
     committed d (map_sum id snd (api_mint sha256 cfg chaos now secret req tenant admin i scopes ttl d))"
| "sa_apply sha256 cfg chaos (OpRevoke now req tenant admin i tid) d =
     committed d (api_revoke now req tenant admin i tid d)"
| "sa_apply sha256 cfg chaos (OpVerify now plaintext) d =
     committed d (map_sum id (snd \<circ> snd) (verify_token sha256 now plaintext d))"

lemma sa_audit_frame [simp]:
  "service_accounts (sa_audit action req tenant user rtype rid extra d) = service_accounts d"
  "sa_tokens (sa_audit action req tenant user rtype rid extra d) = sa_tokens d"
  by (simp_all add: sa_audit_def)

lemmas sa_defs = api_create_def api_update_scopes_def api_mint_def api_revoke_def create_service_account_def
  update_scopes_def mint_token_def revoke_token_def verify_token_def account_in_tenant_def committed_def Let_def

text \<open>The token a hash finds, and whether it has been revoked.\<close>

abbreviation token_of :: "string \<Rightarrow> sa_db \<Rightarrow> sa_token option" where
  "token_of h d \<equiv> get_by tk_hash h (sa_tokens d)"

definition revoked :: "string \<Rightarrow> sa_db \<Rightarrow> bool" where
  "revoked h d \<longleftrightarrow> (case token_of h d of None \<Rightarrow> False | Some t \<Rightarrow> tk_revoked_at t \<noteq> None)"

lemma get_by_hash_eq: "get_by_hash h d = token_of h d"
  by (simp add: get_by_hash_def get_by_def)

lemma revoked_stays: "revoked h d \<Longrightarrow> revoked h (sa_apply sha256 cfg chaos op d)"
  by (cases op)
    (auto simp: sa_defs revoked_def get_by_append get_by_update_where split: option.splits sum.splits if_splits)

interpretation revocations: inv_step "sa_apply sha256 cfg chaos" "revoked h" for sha256 cfg chaos h
  by unfold_locales (rule revoked_stays)

lemma verify_revoked:
  "revoked (sha256 plaintext) d \<Longrightarrow> looks_like_service_account_token plaintext
    \<Longrightarrow> verify_token sha256 now plaintext d = Inl (AuthenticationError ''Token has been revoked'')"
  by (auto simp: verify_token_def get_by_hash_eq revoked_def split: option.splits)

lemma mintedD:
  assumes "mint_token sha256 cfg now secret req a scopes ttl user d = Inr (row, plaintext, d1)"
  shows "plaintext = token_prefix @ secret" "tk_hash row = sha256 plaintext" "tk_id row = sa_next d"
    "tk_service_account_id row = sa_id a" "tk_revoked_at row = None"
    "tk_expires_at row = Some (now + (case ttl of None \<Rightarrow> default_token_ttl | Some t \<Rightarrow> t))"
    "set (tk_scopes row) \<subseteq> set (sa_scopes a) \<inter> set all_scopes"
    "sa_tokens d1 = sa_tokens d @ [row]" "service_accounts d1 = service_accounts d"
  using assms
  by (auto simp: mint_token_def validate_scopes_def Let_def filter_empty_conv split: if_splits sum.splits option.splits)

lemma token_prefix_looks: "looks_like_service_account_token (token_prefix @ secret)"
  by (simp add: looks_like_service_account_token_def token_prefix_def)

text \<open>What never changes of a token, and of its account, once they exist.\<close>

definition token_stands :: "string \<Rightarrow> sa_token \<Rightarrow> sa_db \<Rightarrow> bool" where
  "token_stands h row d \<longleftrightarrow>
     (case token_of h d of
        None \<Rightarrow> False
      | Some t \<Rightarrow> tk_scopes t = tk_scopes row \<and> tk_expires_at t = tk_expires_at row
          \<and> tk_service_account_id t = tk_service_account_id row)
   \<and> (case get_by sa_id (tk_service_account_id row) (service_accounts d) of None \<Rightarrow> False | Some a \<Rightarrow> sa_is_active a)"

lemma token_stands_step: "token_stands h row d \<Longrightarrow> token_stands h row (sa_apply sha256 cfg chaos op d)"
  by (cases op)
    (auto simp: sa_defs token_stands_def get_by_append get_by_update_where split: option.splits sum.splits if_splits)

interpretation token_record: inv_step "sa_apply sha256 cfg chaos" "token_stands h row" for sha256 cfg chaos h row
  by unfold_locales (rule token_stands_step)

lemma verify_standing:
  assumes "token_stands (sha256 plaintext) row d" "\<not> revoked (sha256 plaintext) d" "looks_like_service_account_token plaintext"
    and "tk_expires_at row = Some expires"
  shows "(t \<le> expires \<longrightarrow> (\<exists>a1 t1 d1. verify_token sha256 t plaintext d = Inr (a1, t1, d1)
           \<and> sa_id a1 = tk_service_account_id row \<and> tk_scopes t1 = tk_scopes row))
    \<and> (expires < t \<longrightarrow> verify_token sha256 t plaintext d = Inl (AuthenticationError ''Token has expired''))"
  using assms
  by (auto simp: token_stands_def revoked_def verify_token_def get_by_hash_eq split: option.splits dest: get_by_SomeD)

text \<open>
  Property C35. The life of a bearer token of an active account. When it is minted it carries only scopes that its account has
  at that moment, and it keeps exactly those (an account narrowed later does not narrow the tokens it
  already has: \<open>update_scopes\<close>). Whatever accounts and tokens are created, changed, minted, revoked or used
  afterwards, it is accepted, for its account and with its own scopes, until the moment it expires, and
  refused after, as long as it has not been revoked; and once it has been revoked it is refused for good.
  (No operation of the service disables an account.)
\<close>

theorem token_lifecycle:
  assumes "mint_token sha256 cfg now secret req a scopes ttl user d = Inr (row, plaintext, d1)"
    and "token_of (sha256 plaintext) d = None" "\<And>t. t \<in> set (sa_tokens d) \<Longrightarrow> tk_id t < sa_next d"
    and "get_by sa_id (sa_id a) (service_accounts d) = Some a'" "sa_is_active a'"
    and "tk_expires_at row = Some expires"
  shows "set (tk_scopes row) \<subseteq> set (sa_scopes a)
    \<and> (t \<le> expires \<longrightarrow> (\<exists>d2. verify_token sha256 t plaintext d1 = Inr (a', row\<lparr>tk_last_used_at := Some t\<rparr>, d2)))
    \<and> (expires < t \<longrightarrow> verify_token sha256 t plaintext d1 = Inl (AuthenticationError ''Token has expired''))
    \<and> (let later = fold (sa_apply sha256 cfg chaos) ops d1
        in (case token_of (sha256 plaintext) later of None \<Rightarrow> False | Some row2 \<Rightarrow> tk_scopes row2 = tk_scopes row)
         \<and> (\<not> revoked (sha256 plaintext) later \<longrightarrow>
              (t \<le> expires \<longrightarrow> (\<exists>a2 row2 d2. verify_token sha256 t plaintext later = Inr (a2, row2, d2)
                 \<and> sa_id a2 = sa_id a \<and> tk_scopes row2 = tk_scopes row))
            \<and> (expires < t \<longrightarrow> verify_token sha256 t plaintext later = Inl (AuthenticationError ''Token has expired''))))
    \<and> (revoke_token t1 req1 a (tk_id row) user1 d1 = Inr (row1, d2) \<longrightarrow>
         verify_token sha256 t plaintext (fold (sa_apply sha256 cfg chaos) ops d2) =
           Inl (AuthenticationError ''Token has been revoked''))"
proof (intro conjI impI)
  note m = mintedD [OF assms(1)]
  have tok: "token_of (sha256 plaintext) d1 = Some row"
    using assms(2) m(2) by (simp add: m(8) get_by_append)
  have looks: "looks_like_service_account_token plaintext" using m(1) token_prefix_looks by simp
  show "set (tk_scopes row) \<subseteq> set (sa_scopes a)" using m(7) by simp
  show "\<exists>d2. verify_token sha256 t plaintext d1 = Inr (a', row\<lparr>tk_last_used_at := Some t\<rparr>, d2)" if "t \<le> expires"
    using that looks tok m(4,5,9) assms(4-6) by (simp add: verify_token_def get_by_hash_eq)
  show "verify_token sha256 t plaintext d1 = Inl (AuthenticationError ''Token has expired'')" if "expires < t"
    using that looks tok m(5) assms(6) by (simp add: verify_token_def get_by_hash_eq)
  have "token_stands (sha256 plaintext) row d1" using tok m(4,9) assms(4,5) by (simp add: token_stands_def)
  then have stands: "token_stands (sha256 plaintext) row (fold (sa_apply sha256 cfg chaos) ops d1)"
    by (rule token_record.fold_inv)
  show "let later = fold (sa_apply sha256 cfg chaos) ops d1
        in (case token_of (sha256 plaintext) later of None \<Rightarrow> False | Some row2 \<Rightarrow> tk_scopes row2 = tk_scopes row)
         \<and> (\<not> revoked (sha256 plaintext) later \<longrightarrow>
              (t \<le> expires \<longrightarrow> (\<exists>a2 row2 d2. verify_token sha256 t plaintext later = Inr (a2, row2, d2)
                 \<and> sa_id a2 = sa_id a \<and> tk_scopes row2 = tk_scopes row))
            \<and> (expires < t \<longrightarrow> verify_token sha256 t plaintext later = Inl (AuthenticationError ''Token has expired'')))"
    using stands verify_standing [of sha256 plaintext row "fold (sa_apply sha256 cfg chaos) ops d1" expires t] looks assms(6) m(4) unfolding Let_def
    by (simp add: token_stands_def split: option.splits)
  assume rev: "revoke_token t1 req1 a (tk_id row) user1 d1 = Inr (row1, d2)"
  have "get_by tk_id (tk_id row) (sa_tokens d) = None"
    using assms(3) m(3) by (fastforce simp: get_by_None_iff)
  then have "get_by tk_id (tk_id row) (sa_tokens d1) = Some row" by (simp add: m(8) get_by_append)
  then have "sa_tokens d2 = update_where (\<lambda>x. tk_id x = tk_id row) (\<lambda>x. x\<lparr>tk_revoked_at := Some t1\<rparr>) (sa_tokens d1)"
    using rev m(4,5) by (auto simp: revoke_token_def Let_def)
  then have "revoked (sha256 plaintext) d2" using tok by (simp add: revoked_def get_by_update_where)
  then have "revoked (sha256 plaintext) (fold (sa_apply sha256 cfg chaos) ops d2)" by (rule revocations.fold_inv)
  then show "verify_token sha256 t plaintext (fold (sa_apply sha256 cfg chaos) ops d2) =
           Inl (AuthenticationError ''Token has been revoked'')" using looks by (rule verify_revoked)
qed

definition sample_account :: service_account where
  "sample_account = \<lparr>sa_id = 2, sa_tenant_id = 7, sa_name = ''agent'', sa_scopes = [''telemetry:read''],
     sa_is_active = True, sa_created_by_user_id = None\<rparr>"

definition sample_sa_db :: sa_db where
  "sample_sa_db = \<lparr>service_accounts = [sample_account], sa_tokens = [], sa_next = 3, sa_core = empty_db\<rparr>"

theorem token_lifecycle_witness:
  "\<exists>row plaintext d1. mint_token id default_settings 10 ''s'' None sample_account None (Some 100) None sample_sa_db
       = Inr (row, plaintext, d1)
     \<and> verify_token id 200 plaintext d1 = Inl (AuthenticationError ''Token has expired'')"
proof -
  obtain row plaintext d1 where m: "mint_token id default_settings 10 ''s'' None sample_account None (Some 100) None sample_sa_db
       = Inr (row, plaintext, d1)"
    by (simp add: mint_token_def sample_account_def validate_scopes_def all_scopes_def Let_def)
  have "tk_expires_at row = Some 110" using mintedD(6) [OF m] by simp
  from token_lifecycle [OF m _ _ _ _ this, of sample_account 200] show ?thesis
    using m by (auto simp: sample_sa_db_def sample_account_def)
qed

section \<open>The lab's scope\<close>

definition no_chaos :: "sa_db \<Rightarrow> bool" where
  "no_chaos d \<longleftrightarrow> (\<forall>a \<in> set (service_accounts d). ''chaos:invoke'' \<notin> set (sa_scopes a))
     \<and> (\<forall>t \<in> set (sa_tokens d). ''chaos:invoke'' \<notin> set (tk_scopes t))"

lemma grant_gate_passes: "grant_gate False (Some ss) = None \<Longrightarrow> ''chaos:invoke'' \<notin> set ss"
proof -
  assume pass: "grant_gate False (Some ss) = None"
  have "set all_scopes - set api_grantable_scopes = {''chaos:invoke''}"
    by (auto simp: all_scopes_def api_grantable_scopes_def)
  then show "''chaos:invoke'' \<notin> set ss"
    using pass by (auto simp: grant_gate_def assert_api_grantable_def Let_def split: if_splits)
qed

lemma account_in_tenant_mem: "account_in_tenant tenant i d = Inr a \<Longrightarrow> a \<in> set (service_accounts d)"
  by (auto simp: account_in_tenant_def split: option.splits if_splits dest: get_by_SomeD)

lemma api_mintD:
  assumes "api_mint sha256 cfg chaos now secret req tenant admin i scopes ttl d = Inr r"
  obtains a row ttl' where "account_in_tenant tenant i d = Inr a"
    "mint_token sha256 cfg now secret req a scopes ttl' (Some admin) d = Inr (row, r)"
proof -
  have g: "grant_gate chaos scopes = None" using assms by (auto simp: api_mint_def split: option.splits)
  then obtain a where a: "account_in_tenant tenant i d = Inr a"
    using assms by (auto simp: api_mint_def split: sum.splits)
  define ttl' :: "time option" where
    "ttl' = (case ttl of None \<Rightarrow> None | Some n \<Rightarrow> if n = 0 then None else Some (of_int n * 86400))"
  have "map_sum id snd (mint_token sha256 cfg now secret req a scopes ttl' (Some admin) d) = Inr r"
    using assms g a by (simp add: api_mint_def ttl'_def)
  then obtain row where "mint_token sha256 cfg now secret req a scopes ttl' (Some admin) d = Inr (row, r)"
    by (cases "mint_token sha256 cfg now secret req a scopes ttl' (Some admin) d") auto
  with a show ?thesis by (rule that)
qed

lemma no_chaos_stays: "no_chaos d \<Longrightarrow> no_chaos (sa_apply sha256 cfg False op d)"
proof (cases op)
  case (OpMint now secret req tenant admin i scopes ttl)
  assume d: "no_chaos d"
  show ?thesis
  proof (cases "api_mint sha256 cfg False now secret req tenant admin i scopes ttl d")
    case (Inr r)
    then obtain a row ttl' where a: "account_in_tenant tenant i d = Inr a"
      and m: "mint_token sha256 cfg now secret req a scopes ttl' (Some admin) d = Inr (row, r)"
      by (rule api_mintD)
    obtain plaintext d1 where r: "r = (plaintext, d1)" by fastforce
    have "''chaos:invoke'' \<notin> set (sa_scopes a)" using d account_in_tenant_mem [OF a] by (auto simp: no_chaos_def)
    then have "''chaos:invoke'' \<notin> set (tk_scopes row)" using mintedD(7) [OF m [unfolded r]] by auto
    then show ?thesis
      using d mintedD(8,9) [OF m [unfolded r]] Inr r by (auto simp: OpMint committed_def no_chaos_def)
  qed (use d in \<open>simp add: OpMint committed_def\<close>)
qed (auto simp: sa_defs no_chaos_def set_update_where dest: grant_gate_passes
    split: option.splits sum.splits if_splits)

interpretation lab_scope: inv_step "sa_apply sha256 cfg False" no_chaos for sha256 cfg
  by unfold_locales (rule no_chaos_stays)

text \<open>
  On a stack without chaos the admin API cannot hand out the lab's scope: whatever
  accounts and tokens are created, changed, minted and revoked through it, no account and no token
  ever carries \<open>chaos:invoke\<close>, and no token that carries it is accepted.
\<close>

theorem chaos_scope_not_grantable:
  assumes "no_chaos d"
  shows "no_chaos (fold (sa_apply sha256 cfg False) ops d)
    \<and> (verify_token sha256 now plaintext (fold (sa_apply sha256 cfg False) ops d) = Inr (a, t, d') \<longrightarrow>
         ''chaos:invoke'' \<notin> set (tk_scopes t))"
  using lab_scope.fold_inv [OF assms, of sha256 cfg ops]
  by (auto simp: no_chaos_def verify_token_def get_by_hash_eq split: if_splits option.splits dest!: get_by_SomeD)

theorem chaos_scope_not_grantable_witness:
  "no_chaos (fold (sa_apply id default_settings False)
     [OpCreate None 7 9 ''lab'' [''chaos:invoke''], OpMint 5 ''s'' None 7 9 2 None None] sample_sa_db)"
proof -
  have "no_chaos sample_sa_db" by (simp add: no_chaos_def sample_sa_db_def sample_account_def)
  from chaos_scope_not_grantable [OF this] show ?thesis by blast
qed

end
