(* ===== verification/Operator_Audit.thy ===== *)
theory Operator_Audit
  imports Service_Accounts
begin

text \<open>
  The audit trail of machine principals: \<open>services/operator_audit.py\<close> (which stream a tool call
  is recorded in, and which streams a principal may read) and the reader
  \<open>AuditRepository.list_logs\<close>. Audit rows are listed newest first, by insertion.
\<close>

section \<open>Principals and outcomes\<close>

record principal =
  pr_kind :: string
  pr_id :: uuid
  pr_tenant_id :: uuid
  pr_scopes :: "string list"

datatype tool_outcome = OUTCOME_SUCCESS | OUTCOME_ERROR | OUTCOME_UNAUTHORIZED

fun outcome_value :: "tool_outcome \<Rightarrow> string" where
  "outcome_value OUTCOME_SUCCESS = ''success''"
| "outcome_value OUTCOME_ERROR = ''error''"
| "outcome_value OUTCOME_UNAUTHORIZED = ''unauthorized''"

definition tool_invoked_action :: string where "tool_invoked_action = ''agent.tool_invoked''"
definition chaos_tool_invoked_action :: string where "chaos_tool_invoked_action = ''chaos.tool_invoked''"
definition chaos_tool_denied_action :: string where "chaos_tool_denied_action = ''chaos.tool_denied''"
definition chaos_action_prefix :: string where "chaos_action_prefix = ''chaos.''"
definition agent_run_reported_action :: string where "agent_run_reported_action = ''agent.run_reported''"
definition lab_action_prefix :: string where "lab_action_prefix = ''lab.''"
definition world_reset_action :: string where "world_reset_action = ''lab.world_reset''"
definition lab_probe_action :: string where "lab_probe_action = ''lab.probe''"

lemmas action_defs = tool_invoked_action_def chaos_tool_invoked_action_def chaos_tool_denied_action_def
  chaos_action_prefix_def agent_run_reported_action_def lab_action_prefix_def world_reset_action_def
  lab_probe_action_def

section \<open>Writing\<close>

text \<open>The keyword arguments of \<open>record_tool_invocation\<close>; the latency is the value it records.\<close>

record tool_audit =
  ta_tool_name :: string
  ta_arguments :: dict
  ta_scope_used :: "string option"
  ta_latency_ms :: rat
  ta_outcome :: tool_outcome
  ta_error_message :: "string option"
  ta_request_id :: "string option"
  ta_is_chaos :: bool
  ta_is_commander :: bool
  ta_denied_by :: "string option"
  ta_lab_probe_reason :: "string option"
  ta_lab_probe_principal :: "string option"

definition given :: "string \<Rightarrow> string option \<Rightarrow> dict" where
  "given k v = (case v of None \<Rightarrow> [] | Some s \<Rightarrow> [(k, JStr s)])"

definition audit_extra :: "tool_audit \<Rightarrow> dict" where
  "audit_extra a =
     [(''tool_name'', JStr (ta_tool_name a)), (''arguments'', JObj (ta_arguments a)),
      (''scope_used'', jstr_opt (ta_scope_used a)), (''latency_ms'', JFloat (ta_latency_ms a)),
      (''outcome'', JStr (outcome_value (ta_outcome a)))]
     @ given ''error_message'' (ta_error_message a) @ given ''denied_by'' (ta_denied_by a)
     @ given ''lab_probe_reason'' (ta_lab_probe_reason a)
     @ given ''lab_probe_principal'' (ta_lab_probe_principal a)"

definition audit_action :: "tool_audit \<Rightarrow> string" where
  "audit_action a =
     (if ta_is_chaos a
      then (if ta_denied_by a \<noteq> None then chaos_tool_denied_action else chaos_tool_invoked_action)
      else if ta_is_commander a then agent_run_reported_action
      else if ta_lab_probe_reason a \<noteq> None then lab_probe_action
      else tool_invoked_action)"

definition principal_kwargs :: "principal \<Rightarrow> audit_args \<Rightarrow> audit_args" where
  "principal_kwargs p args =
     (if pr_kind p = ''service_account''
      then args\<lparr>aa_principal_type := Some ''service_account'', aa_principal_id := Some (pr_id p), aa_user_id := None\<rparr>
      else args\<lparr>aa_principal_type := Some principal_type_user, aa_principal_id := Some (pr_id p),
                aa_user_id := Some (pr_id p)\<rparr>)"

text \<open>\<open>ok\<close> says whether the insert, inside its own savepoint, goes through.\<close>

definition record_tool_invocation :: "bool \<Rightarrow> principal \<Rightarrow> tool_audit \<Rightarrow> db \<Rightarrow> bool \<times> db" where
  "record_tool_invocation ok p a d =
     (if ok
      then (True, audit_log_write (audit_action a) (pr_tenant_id p)
              (principal_kwargs p (no_args\<lparr>aa_resource_type := Some ''mcp_tool'',
                 aa_resource_id := Some (ta_tool_name a), aa_request_id := ta_request_id a,
                 aa_extra_data := Some (audit_extra a)\<rparr>)) d)
      else (False, d))"

definition record_world_reset :: "uuid \<Rightarrow> uuid option \<Rightarrow> dict \<Rightarrow> db \<Rightarrow> db" where
  "record_world_reset tenant prin counters d =
     audit_log_write world_reset_action tenant
       (no_args\<lparr>aa_principal_type := Some ''service_account'', aa_principal_id := prin,
          aa_resource_type := Some ''world'', aa_extra_data := Some counters\<rparr>) d"

section \<open>Reading\<close>

definition hidden_audit_action_prefixes :: "principal \<Rightarrow> string list" where
  "hidden_audit_action_prefixes p =
     (if scope_value CHAOS_INVOKE \<in> set (pr_scopes p) then [] else [chaos_action_prefix, lab_action_prefix])
     @ (if scope_value AGENT_RUNS_WRITE \<in> set (pr_scopes p) then [agent_run_reported_action] else [])"

text \<open>
  SQL \<open>LIKE\<close>: \<open>%\<close> stands for any text, \<open>_\<close> for any character, a backslash takes the next
  character as it is.
\<close>

function (sequential) like :: "string \<Rightarrow> string \<Rightarrow> bool" where
  "like [] s = (s = [])"
| "like (p # ps) s =
     (if p = CHR ''%'' then like ps s \<or> (case s of [] \<Rightarrow> False | c # cs \<Rightarrow> like (p # ps) cs)
      else if p = CHR 0x5C then
        (case ps of [] \<Rightarrow> False | e # es \<Rightarrow> (case s of [] \<Rightarrow> False | c # cs \<Rightarrow> c = e \<and> like es cs))
      else case s of [] \<Rightarrow> False | c # cs \<Rightarrow> (p = CHR ''_'' \<or> p = c) \<and> like ps cs)"
  by pat_completeness auto
termination by (relation "measure (\<lambda>(ps, s). length ps + length s)") auto

record audit_filter =
  q_user_id :: "uuid option"
  q_job_id :: "uuid option"
  q_action :: "string option"
  q_action_prefixes :: "string list"
  q_exclude_action_prefixes :: "string list"
  q_principal_type :: "string option"
  q_tenant_id :: "uuid option"
  q_request_id :: "string option"

definition opt_eq :: "'a option \<Rightarrow> 'a \<Rightarrow> bool" where
  "opt_eq want v = (case want of None \<Rightarrow> True | Some w \<Rightarrow> v = w)"

definition log_matches :: "audit_filter \<Rightarrow> audit_log \<Rightarrow> bool" where
  "log_matches q r \<longleftrightarrow>
     (case q_user_id q of None \<Rightarrow> True | Some u \<Rightarrow> a_user_id r = Some u)
     \<and> (case q_job_id q of None \<Rightarrow> True | Some j \<Rightarrow> a_job_id r = Some j)
     \<and> opt_eq (q_action q) (a_action r)
     \<and> (q_action_prefixes q = [] \<or> (\<exists>p \<in> set (q_action_prefixes q). like (p @ ''%'') (a_action r)))
     \<and> (\<forall>p \<in> set (q_exclude_action_prefixes q). \<not> like (p @ ''%'') (a_action r))
     \<and> opt_eq (q_principal_type q) (a_principal_type r)
     \<and> opt_eq (q_tenant_id q) (a_tenant_id r)
     \<and> (case q_request_id q of None \<Rightarrow> True | Some s \<Rightarrow> a_request_id r = Some s)"

definition list_logs :: "nat \<Rightarrow> nat \<Rightarrow> audit_filter \<Rightarrow> db \<Rightarrow> audit_log list \<times> nat" where
  "list_logs offset limit q d =
     (let rows = filter (log_matches q) (rev (audit_logs d))
      in (take limit (drop offset rows), length rows))"

text \<open>The \<open>list_audit_events\<close> tool: the caller's own tenant, minus the streams it may not read.\<close>

definition list_audit_events :: "principal \<Rightarrow> nat \<Rightarrow> string option \<Rightarrow> string option \<Rightarrow> string option
    \<Rightarrow> db \<Rightarrow> audit_log list \<times> nat" where
  "list_audit_events p limit action action_prefix principal_type d =
     list_logs 0 limit
       \<lparr>q_user_id = None, q_job_id = None, q_action = action,
        q_action_prefixes = (case action of None \<Rightarrow> (case action_prefix of None \<Rightarrow> [] | Some x \<Rightarrow> [x]) | Some _ \<Rightarrow> []),
        q_exclude_action_prefixes = hidden_audit_action_prefixes p, q_principal_type = principal_type,
        q_tenant_id = Some (pr_tenant_id p), q_request_id = None\<rparr> d"

section \<open>The lab is invisible to the agent\<close>

lemma like_any: "like ''%'' s"
  by (induction s) (simp_all split: list.split)

lemma like_prefix:
  assumes "\<forall>c \<in> set p. c \<noteq> CHR ''%'' \<and> c \<noteq> CHR 0x5C"
  shows "like (p @ ''%'') (p @ s)"
  using assms
proof (induction p)
  case Nil
  show ?case by (simp only: append.simps like_any)
qed simp

text \<open>
  An agent cannot read the lab: a principal without \<open>chaos:invoke\<close> is shown no row of the
  \<open>chaos.\<close> and \<open>lab.\<close> streams, in the page or in the count, whatever it filters by, and every chaos
  call, labelled probe and world reset is recorded in one of them. A principal that reports runs is
  not shown the reports. Nobody is shown another tenant's rows.
\<close>

theorem lab_rows_hidden:
  assumes "''chaos:invoke'' \<notin> set (pr_scopes p)" "list_audit_events p limit action prefix ptype d = (rows, matched)"
    and "r \<in> set rows"
  shows "take 6 (a_action r) \<noteq> ''chaos.'' \<and> take 4 (a_action r) \<noteq> ''lab.'' \<and> a_tenant_id r = pr_tenant_id p
    \<and> matched \<le> length (filter (\<lambda>r. take 6 (a_action r) \<noteq> ''chaos.'' \<and> take 4 (a_action r) \<noteq> ''lab.'') (audit_logs d))
    \<and> (''agent_runs:write'' \<in> set (pr_scopes p) \<longrightarrow> take 18 (a_action r) \<noteq> ''agent.run_reported'')
    \<and> (ta_is_chaos a \<longrightarrow> take 6 (audit_action a) = ''chaos.'')
    \<and> (\<not> ta_is_chaos a \<and> \<not> ta_is_commander a \<and> ta_lab_probe_reason a \<noteq> None \<longrightarrow> take 4 (audit_action a) = ''lab.'')
    \<and> take 4 world_reset_action = ''lab.''"
proof -
  define q where "q = \<lparr>q_user_id = None, q_job_id = None, q_action = action,
        q_action_prefixes = (case action of None \<Rightarrow> (case prefix of None \<Rightarrow> [] | Some x \<Rightarrow> [x]) | Some _ \<Rightarrow> []),
        q_exclude_action_prefixes = hidden_audit_action_prefixes p, q_principal_type = ptype,
        q_tenant_id = Some (pr_tenant_id p), q_request_id = None\<rparr>"
  have l: "rows = take limit (filter (log_matches q) (rev (audit_logs d)))" "matched = length (filter (log_matches q) (rev (audit_logs d)))"
    using assms(2) by (auto simp: list_audit_events_def list_logs_def q_def Let_def)
  have excl: "\<not> like (x @ ''%'') (a_action r)" if "log_matches q r" "x \<in> set (hidden_audit_action_prefixes p)" for x r
    using that by (auto simp: log_matches_def q_def)
  have hid: "take n (a_action r) \<noteq> x" if "log_matches q r" "x \<in> set (hidden_audit_action_prefixes p)"
      "\<forall>c \<in> set x. c \<noteq> CHR ''%'' \<and> c \<noteq> CHR 0x5C" for x r n
    using excl [OF that(1,2)] like_prefix [OF that(3), of "drop n (a_action r)"]
    by (metis append_take_drop_id)
  have streams: "take 6 (a_action r) \<noteq> ''chaos.'' \<and> take 4 (a_action r) \<noteq> ''lab.''" if "log_matches q r" for r
    using hid [OF that, of "''chaos.''" 6] hid [OF that, of "''lab.''" 4] assms(1)
    by (simp add: hidden_audit_action_prefixes_def action_defs)
  have r: "log_matches q r" using assms(3) by (auto simp: l(1) dest: in_set_takeD)
  have "matched \<le> length (filter (\<lambda>r. take 6 (a_action r) \<noteq> ''chaos.'' \<and> take 4 (a_action r) \<noteq> ''lab.'') (audit_logs d))"
    unfolding l(2) rev_filter [symmetric] length_rev by (rule length_filter_mono) (rule streams)
  moreover have "a_tenant_id r = pr_tenant_id p" using r by (simp add: log_matches_def q_def opt_eq_def)
  moreover have "''agent_runs:write'' \<in> set (pr_scopes p) \<Longrightarrow> take 18 (a_action r) \<noteq> ''agent.run_reported''"
    using hid [OF r, of "''agent.run_reported''" 18] by (simp add: hidden_audit_action_prefixes_def action_defs)
  ultimately show ?thesis using streams [OF r] by (auto simp: audit_action_def action_defs)
qed

text \<open>A principal with only read scopes, and a trail holding a world reset and one of its own calls.\<close>

definition sample_principal :: "string list \<Rightarrow> principal" where
  "sample_principal scopes = \<lparr>pr_kind = ''service_account'', pr_id = 4, pr_tenant_id = 7, pr_scopes = scopes\<rparr>"

definition sample_tool_audit :: "string option \<Rightarrow> tool_audit" where
  "sample_tool_audit lab = \<lparr>ta_tool_name = ''get_job'', ta_arguments = [], ta_scope_used = None, ta_latency_ms = 3,
     ta_outcome = OUTCOME_SUCCESS, ta_error_message = None, ta_request_id = None, ta_is_chaos = False,
     ta_is_commander = False, ta_denied_by = None, ta_lab_probe_reason = lab, ta_lab_probe_principal = lab\<rparr>"

definition sample_trail :: db where
  "sample_trail =
     snd (record_tool_invocation True (sample_principal [''telemetry:read'']) (sample_tool_audit None)
       (record_world_reset 7 None [] empty_db))"

lemma sample_trail_page:
  "\<exists>r. list_audit_events (sample_principal [''telemetry:read'']) 5 None None None sample_trail = ([r], Suc 0)
      \<and> a_action r = ''agent.tool_invoked''"
  by (simp add: sample_trail_def sample_principal_def sample_tool_audit_def record_tool_invocation_def
      record_world_reset_def list_audit_events_def list_logs_def log_matches_def opt_eq_def
      audit_log_write_def Let_def empty_db_def no_args_def principal_kwargs_def hidden_audit_action_prefixes_def
      action_defs audit_action_def)

theorem lab_rows_hidden_witness:
  "snd (list_audit_events (sample_principal [''telemetry:read'']) 5 None None None sample_trail) = Suc 0
    \<and> length (audit_logs sample_trail) = 2
    \<and> take 4 (a_action (hd (fst (list_audit_events (sample_principal [''telemetry:read'']) 5 None None None
        sample_trail)))) \<noteq> ''lab.''"
proof -
  obtain r where r: "list_audit_events (sample_principal [''telemetry:read'']) 5 None None None sample_trail = ([r], Suc 0)"
    using sample_trail_page by blast
  have "''chaos:invoke'' \<notin> set (pr_scopes (sample_principal [''telemetry:read'']))" by (simp add: sample_principal_def)
  moreover have "r \<in> set [r]" by simp
  ultimately have "take 4 (a_action r) \<noteq> ''lab.''" using lab_rows_hidden [OF _ r] by blast
  moreover have "length (audit_logs sample_trail) = 2"
    by (simp add: sample_trail_def record_tool_invocation_def record_world_reset_def audit_log_write_def Let_def empty_db_def)
  ultimately show ?thesis by (simp add: r)
qed

end
