(* ===== verification/Idempotency.thy ===== *)
theory Idempotency
  imports Models "HOL-Library.Char_ord" "HOL-Library.List_Lexorder"
begin

text \<open>
  Idempotency of machine actions: \<open>repositories/idempotency.py\<close> and
  \<open>services/idempotency.py\<close>. A key is claimed by inserting a row without a response before the
  action runs; the response is attached to the claim afterwards, or the claim is released.
  \<open>sha256\<close> is \<open>hashlib.sha256(...).hexdigest()\<close>, a parameter; the JSON text it hashes is
  modelled.
\<close>

section \<open>Rows\<close>

record idem_record =
  ir_id :: uuid
  ir_tenant_id :: uuid
  ir_principal_id :: uuid
  ir_tool_name :: string
  ir_key :: string
  ir_arguments_hash :: string
  ir_response_json :: "dict option"
  ir_created_at :: time
  ir_expires_at :: "time option"

record idem_db =
  idem_records :: "idem_record list"
  idem_next :: uuid

definition in_scope :: "uuid \<Rightarrow> uuid \<Rightarrow> string \<Rightarrow> idem_record \<Rightarrow> bool" where
  "in_scope tenant prin key r \<longleftrightarrow> ir_tenant_id r = tenant \<and> ir_principal_id r = prin \<and> ir_key r = key"

definition get_by_key :: "uuid \<Rightarrow> uuid \<Rightarrow> string \<Rightarrow> idem_db \<Rightarrow> idem_record option" where
  "get_by_key tenant prin key d = find (in_scope tenant prin key) (idem_records d)"

text \<open>\<open>INSERT ... ON CONFLICT DO NOTHING RETURNING id\<close> on the scope's unique index.\<close>

definition insert_claim ::
    "time \<Rightarrow> uuid \<Rightarrow> uuid \<Rightarrow> string \<Rightarrow> string \<Rightarrow> string \<Rightarrow> time option \<Rightarrow> idem_db
      \<Rightarrow> uuid option \<times> idem_db" where
  "insert_claim now tenant prin tool key args_hash expires d =
     (if \<exists>r \<in> set (idem_records d). in_scope tenant prin key r then (None, d)
      else (Some (idem_next d),
        d\<lparr>idem_records := idem_records d @
             [\<lparr>ir_id = idem_next d, ir_tenant_id = tenant, ir_principal_id = prin, ir_tool_name = tool,
               ir_key = key, ir_arguments_hash = args_hash, ir_response_json = None,
               ir_created_at = now, ir_expires_at = expires\<rparr>],
          idem_next := Suc (idem_next d)\<rparr>))"

definition complete_claim :: "uuid \<Rightarrow> dict \<Rightarrow> time option \<Rightarrow> idem_db \<Rightarrow> idem_db" where
  "complete_claim rid response expires d =
     d\<lparr>idem_records := update_where (\<lambda>r. ir_id r = rid)
         (\<lambda>r. r\<lparr>ir_response_json := Some response, ir_expires_at := expires\<rparr>) (idem_records d)\<rparr>"

definition idem_delete_by_id :: "uuid \<Rightarrow> idem_db \<Rightarrow> idem_db" where
  "idem_delete_by_id rid d = d\<lparr>idem_records := filter (\<lambda>r. ir_id r \<noteq> rid) (idem_records d)\<rparr>"

definition lapsed :: "time \<Rightarrow> idem_record \<Rightarrow> bool" where
  "lapsed cutoff r \<longleftrightarrow> (case ir_expires_at r of None \<Rightarrow> False | Some t \<Rightarrow> t < cutoff)"

definition delete_expired :: "time \<Rightarrow> idem_db \<Rightarrow> nat \<times> idem_db" where
  "delete_expired cutoff d =
     (row_count (lapsed cutoff) (idem_records d),
      d\<lparr>idem_records := filter (\<lambda>r. \<not> lapsed cutoff r) (idem_records d)\<rparr>)"

section \<open>The hash of the arguments\<close>

text \<open>
  \<open>json.dumps(arguments, sort_keys=True, separators=(',', ':'), default=str)\<close>: the keys of
  every object sorted, no blanks; \<open>py_str\<close> is \<open>str(x)\<close> of a value JSON does not know.
\<close>

fun canonical_dumps :: "(rat \<Rightarrow> string) \<Rightarrow> string \<Rightarrow> json \<Rightarrow> string" where
  "canonical_dumps fr py_str JNull = ''null''"
| "canonical_dumps fr py_str (JBool b) = (if b then ''true'' else ''false'')"
| "canonical_dumps fr py_str (JInt i) = show_int i"
| "canonical_dumps fr py_str (JFloat q) = fr q"
| "canonical_dumps fr py_str (JStr s) = dump_str s"
| "canonical_dumps fr py_str (JArr xs) = ''['' @ join '','' (map (canonical_dumps fr py_str) xs) @ '']''"
| "canonical_dumps fr py_str (JObj d) =
     ''{'' @ join '','' (map (\<lambda>kv. dump_str (fst kv) @ '':'' @ snd kv)
       (sort_key fst (map (\<lambda>kv. (fst kv, canonical_dumps fr py_str (snd kv))) d))) @ ''}''"
| "canonical_dumps fr py_str JOpaque = dump_str py_str"

record hasher =
  h_sha256 :: "string \<Rightarrow> string"
  h_float_repr :: "rat \<Rightarrow> string"
  h_py_str :: string

definition hash_arguments :: "hasher \<Rightarrow> dict \<Rightarrow> string" where
  "hash_arguments h arguments = h_sha256 h (canonical_dumps (h_float_repr h) (h_py_str h) (JObj arguments))"

section \<open>The service\<close>

datatype idem_error =
    ReusedDifferentArguments string
  | ReusedDifferentTool string
  | KeyInFlight
  | KeyContended

fun idem_error_code :: "idem_error \<Rightarrow> string" where
  "idem_error_code (ReusedDifferentArguments _) = ''idempotency_key_reused''"
| "idem_error_code (ReusedDifferentTool _) = ''idempotency_key_reused''"
| "idem_error_code KeyInFlight = ''idempotency_key_in_flight''"
| "idem_error_code KeyContended = ''idempotency_key_in_flight''"

fun idem_error_message :: "string \<Rightarrow> idem_error \<Rightarrow> string" where
  "idem_error_message key (ReusedDifferentArguments tool) = ''Idempotency key '' @ py_repr key @
     '' was previously used for tool '' @ py_repr tool @
     '' with different arguments. Pick a fresh key or send the exact same arguments.''"
| "idem_error_message key (ReusedDifferentTool tool) = ''Idempotency key '' @ py_repr key @
     '' was previously used for a different tool ('' @ py_repr tool @ '').''"
| "idem_error_message key KeyInFlight = ''Idempotency key '' @ py_repr key @
     '' is currently being executed by another call. Retry shortly.''"
| "idem_error_message key KeyContended = ''Idempotency key '' @ py_repr key @
     '' could not be claimed; another call is contending for it. Retry shortly.''"

record cache_hit =
  hit_response :: dict
  hit_stored_at :: time

datatype acquired = IdemClaim uuid | IdemReplay cache_hit

text \<open>One call on behalf of a principal.\<close>

record idem_call =
  ic_tenant :: uuid
  ic_principal :: uuid
  ic_tool_name :: string
  ic_key :: string
  ic_arguments :: dict

definition is_expired :: "time \<Rightarrow> idem_record \<Rightarrow> bool" where
  "is_expired now r \<longleftrightarrow> (case ir_expires_at r of None \<Rightarrow> False | Some t \<Rightarrow> t < now)"

definition expiry :: "time \<Rightarrow> time option \<Rightarrow> time option" where
  "expiry now ttl = map_option (\<lambda>t. now + t) ttl"

definition assert_same_call :: "idem_record \<Rightarrow> string \<Rightarrow> string \<Rightarrow> idem_error option" where
  "assert_same_call r tool args_hash =
     (if ir_arguments_hash r \<noteq> args_hash then Some (ReusedDifferentArguments (ir_tool_name r))
      else if ir_tool_name r \<noteq> tool then Some (ReusedDifferentTool (ir_tool_name r))
      else None)"

text \<open>The answer a held key gives: a refusal, or the recorded response.\<close>

definition holder_answer :: "hasher \<Rightarrow> idem_call \<Rightarrow> idem_record \<Rightarrow> idem_error + cache_hit" where
  "holder_answer h call r =
     (case assert_same_call r (ic_tool_name call) (hash_arguments h (ic_arguments call)) of
        Some e \<Rightarrow> Inl e
      | None \<Rightarrow>
          (case ir_response_json r of
             None \<Rightarrow> Inl KeyInFlight
           | Some response \<Rightarrow> Inr \<lparr>hit_response = response, hit_stored_at = ir_created_at r\<rparr>))"

definition idem_lookup :: "hasher \<Rightarrow> time \<Rightarrow> idem_call \<Rightarrow> idem_db \<Rightarrow> (idem_error + cache_hit option) \<times> idem_db" where
  "idem_lookup h now call d =
     (case get_by_key (ic_tenant call) (ic_principal call) (ic_key call) d of
        None \<Rightarrow> (Inr None, d)
      | Some r \<Rightarrow>
          if is_expired now r then (Inr None, idem_delete_by_id (ir_id r) d)
          else ((case holder_answer h call r of Inl e \<Rightarrow> Inl e | Inr hit \<Rightarrow> Inr (Some hit)), d))"

text \<open>
  \<open>acquire\<close>: two attempts. \<open>env\<close> is what other transactions commit between the insert of an
  attempt and its read of the holder.
\<close>

definition acquire_attempt ::
    "hasher \<Rightarrow> time \<Rightarrow> time option \<Rightarrow> (idem_db \<Rightarrow> idem_db) \<Rightarrow> bool \<Rightarrow> idem_call \<Rightarrow> idem_db
      \<Rightarrow> (idem_error + acquired) option \<times> idem_db" where
  "acquire_attempt h now expires env first call d =
     (case insert_claim now (ic_tenant call) (ic_principal call) (ic_tool_name call) (ic_key call)
             (hash_arguments h (ic_arguments call)) expires d of
        (Some rid, d1) \<Rightarrow> (Some (Inr (IdemClaim rid)), d1)
      | (None, d1) \<Rightarrow>
          (let d2 = env d1
           in case get_by_key (ic_tenant call) (ic_principal call) (ic_key call) d2 of
                None \<Rightarrow> (None, d2)
              | Some holder \<Rightarrow>
                  if first \<and> is_expired now holder then (None, idem_delete_by_id (ir_id holder) d2)
                  else (Some (case holder_answer h call holder of
                          Inl e \<Rightarrow> Inl e | Inr hit \<Rightarrow> Inr (IdemReplay hit)), d2)))"

definition idem_acquire ::
    "hasher \<Rightarrow> time \<Rightarrow> time option \<Rightarrow> (idem_db \<Rightarrow> idem_db) \<Rightarrow> idem_call \<Rightarrow> idem_db
      \<Rightarrow> (idem_error + acquired) \<times> idem_db" where
  "idem_acquire h now ttl env call d =
     (case acquire_attempt h now (expiry now ttl) env True call d of
        (Some res, d1) \<Rightarrow> (res, d1)
      | (None, d1) \<Rightarrow>
          (case acquire_attempt h now (expiry now ttl) env False call d1 of
             (Some res, d2) \<Rightarrow> (res, d2)
           | (None, d2) \<Rightarrow> (Inl KeyContended, d2)))"

definition idem_complete :: "time \<Rightarrow> time option \<Rightarrow> uuid \<Rightarrow> dict \<Rightarrow> idem_db \<Rightarrow> idem_db" where
  "idem_complete now ttl claim response d = complete_claim claim response (expiry now ttl) d"

definition idem_release :: "uuid \<Rightarrow> idem_db \<Rightarrow> idem_db" where
  "idem_release claim d = idem_delete_by_id claim d"

section \<open>One row per scope\<close>

definition scope_of :: "idem_record \<Rightarrow> uuid \<times> uuid \<times> string" where
  "scope_of r = (ir_tenant_id r, ir_principal_id r, ir_key r)"

definition call_scope :: "idem_call \<Rightarrow> uuid \<times> uuid \<times> string" where
  "call_scope c = (ic_tenant c, ic_principal c, ic_key c)"

definition wf_idem :: "idem_db \<Rightarrow> bool" where
  "wf_idem d \<longleftrightarrow> distinct (map ir_id (idem_records d)) \<and> distinct (map scope_of (idem_records d))
     \<and> (\<forall>r \<in> set (idem_records d). ir_id r < idem_next d)"

abbreviation held_by :: "idem_db \<Rightarrow> uuid \<times> uuid \<times> string \<Rightarrow> idem_record option" where
  "held_by d k \<equiv> get_by scope_of k (idem_records d)"

lemma in_scope_eq: "in_scope t p k = (\<lambda>r. scope_of r = (t, p, k))"
  by (auto simp: in_scope_def scope_of_def fun_eq_iff)

lemma get_by_key_eq: "get_by_key t p k d = held_by d (t, p, k)"
  by (simp add: get_by_key_def in_scope_eq get_by_def)

text \<open>The row a successful claim inserts.\<close>

definition new_claim :: "time \<Rightarrow> uuid \<Rightarrow> uuid \<Rightarrow> string \<Rightarrow> string \<Rightarrow> string \<Rightarrow> time option \<Rightarrow> uuid \<Rightarrow> idem_record" where
  "new_claim now t p tool k args_hash expires rid = \<lparr>ir_id = rid, ir_tenant_id = t, ir_principal_id = p,
     ir_tool_name = tool, ir_key = k, ir_arguments_hash = args_hash, ir_response_json = None,
     ir_created_at = now, ir_expires_at = expires\<rparr>"

lemma insert_claim_eq:
  "insert_claim now t p tool k args_hash expires d =
     (case held_by d (t, p, k) of
        Some _ \<Rightarrow> (None, d)
      | None \<Rightarrow> (Some (idem_next d), d\<lparr>idem_records := idem_records d @
                     [new_claim now t p tool k args_hash expires (idem_next d)], idem_next := Suc (idem_next d)\<rparr>))"
proof (cases "held_by d (t, p, k)")
  case None
  then have "\<not> (\<exists>r \<in> set (idem_records d). scope_of r = (t, p, k))" by (auto simp: get_by_None_iff image_iff)
  with None show ?thesis by (simp add: insert_claim_def in_scope_eq new_claim_def)
next
  case (Some r)
  then show ?thesis
    using get_by_SomeD [OF Some] by (auto simp: insert_claim_def in_scope_eq)
qed

lemma scope_new_claim [simp]: "scope_of (new_claim now t p tool k args_hash expires rid) = (t, p, k)"
  by (simp add: scope_of_def new_claim_def)

lemma held_insert_claim:
  "fst (insert_claim now t p tool k args_hash expires d) \<noteq> None \<longleftrightarrow> held_by d (t, p, k) = None"
  "held_by (snd (insert_claim now t p tool k args_hash expires d)) (t, p, k) \<noteq> None"
  "s \<noteq> (t, p, k) \<Longrightarrow> held_by (snd (insert_claim now t p tool k args_hash expires d)) s = held_by d s"
  "held_by d (t, p, k) \<noteq> None \<Longrightarrow> snd (insert_claim now t p tool k args_hash expires d) = d"
  by (auto simp: insert_claim_eq get_by_append split: option.split)

lemma wf_insert_claim:
  "wf_idem d \<Longrightarrow> wf_idem (snd (insert_claim now t p tool k args_hash expires d))"
  by (auto simp: insert_claim_eq wf_idem_def get_by_None_iff less_Suc_eq new_claim_def scope_of_def
      split: option.split)

interpretation idem_claims: compare_and_set
  "\<lambda>(t, p, k) d. (fst (insert_claim now t p tool k args_hash expires d) \<noteq> None,
       snd (insert_claim now t p tool k args_hash expires d))"
  "\<lambda>d k. held_by d k = None" wf_idem for now tool args_hash expires
proof (unfold_locales, goal_cases)
  case (1 d k)
  then show ?case using held_insert_claim(1) by (cases k) simp
next
  case (2 d k)
  then show ?case using held_insert_claim(2) by (cases k) simp
next
  case (3 d k' k)
  then show ?case using held_insert_claim(3) by (cases k) simp
next
  case (4 d k)
  then show ?case using wf_insert_claim by (cases k) simp
next
  case (5 d k)
  then show ?case using held_insert_claim(4) by (cases k) simp
qed

definition try_claim :: "hasher \<Rightarrow> time \<Rightarrow> time option \<Rightarrow> idem_call \<Rightarrow> idem_db \<Rightarrow> uuid option \<times> idem_db" where
  "try_claim h now expires c d = insert_claim now (ic_tenant c) (ic_principal c) (ic_tool_name c) (ic_key c)
     (hash_arguments h (ic_arguments c)) expires d"

definition claim_row :: "hasher \<Rightarrow> time \<Rightarrow> time option \<Rightarrow> idem_call \<Rightarrow> uuid \<Rightarrow> idem_record" where
  "claim_row h now expires c rid = new_claim now (ic_tenant c) (ic_principal c) (ic_tool_name c) (ic_key c)
     (hash_arguments h (ic_arguments c)) expires rid"

lemma claim_row_simps [simp]:
  "scope_of (claim_row h now expires c rid) = call_scope c" "ir_id (claim_row h now expires c rid) = rid"
  "ir_response_json (claim_row h now expires c rid) = None" "ir_expires_at (claim_row h now expires c rid) = expires"
  "ir_tool_name (claim_row h now expires c rid) = ic_tool_name c" "ir_created_at (claim_row h now expires c rid) = now"
  "ir_arguments_hash (claim_row h now expires c rid) = hash_arguments h (ic_arguments c)"
  by (simp_all add: claim_row_def new_claim_def scope_of_def call_scope_def)

lemma try_claim_eq:
  "try_claim h now expires c d =
     (case held_by d (call_scope c) of
        Some _ \<Rightarrow> (None, d)
      | None \<Rightarrow> (Some (idem_next d), d\<lparr>idem_records := idem_records d @ [claim_row h now expires c (idem_next d)],
                   idem_next := Suc (idem_next d)\<rparr>))"
  unfolding try_claim_def insert_claim_eq call_scope_def claim_row_def by (rule refl)

lemma attempt_eq:
  "acquire_attempt h now expires env first c d =
     (case try_claim h now expires c d of
        (Some rid, d1) \<Rightarrow> (Some (Inr (IdemClaim rid)), d1)
      | (None, d1) \<Rightarrow>
          (case held_by (env d1) (call_scope c) of
             None \<Rightarrow> (None, env d1)
           | Some r \<Rightarrow> if first \<and> is_expired now r then (None, idem_delete_by_id (ir_id r) (env d1))
               else (Some (case holder_answer h c r of Inl e \<Rightarrow> Inl e | Inr hit \<Rightarrow> Inr (IdemReplay hit)), env d1)))"
  unfolding acquire_attempt_def try_claim_def get_by_key_eq call_scope_def Let_def by (rule refl)

lemma wf_claim: "wf_idem d \<Longrightarrow> wf_idem (snd (try_claim h now expires c d))"
  by (auto simp: try_claim_eq wf_idem_def get_by_None_iff less_Suc_eq split: option.split)

lemma held_claim:
  "held_by (snd (try_claim h now expires c d)) k =
     (if k = call_scope c \<and> held_by d k = None then Some (claim_row h now expires c (idem_next d)) else held_by d k)"
  by (auto simp: try_claim_eq get_by_append split: option.split)


section \<open>Acquiring a key\<close>

lemma held_delete:
  "wf_idem d \<Longrightarrow> held_by (idem_delete_by_id rid d) k =
     (case held_by d k of None \<Rightarrow> None | Some r \<Rightarrow> if ir_id r \<noteq> rid then Some r else None)"
  by (simp add: idem_delete_by_id_def get_by_filter wf_idem_def)

lemma held_complete:
  "held_by (complete_claim rid response expires d) k =
     map_option (\<lambda>r. if ir_id r = rid then r\<lparr>ir_response_json := Some response, ir_expires_at := expires\<rparr> else r)
       (held_by d k)"
  by (simp add: complete_claim_def get_by_update_where scope_of_def)

lemma wf_delete: "wf_idem d \<Longrightarrow> wf_idem (idem_delete_by_id rid d)"
  by (auto simp: wf_idem_def idem_delete_by_id_def distinct_map_filter)

lemma wf_complete: "wf_idem d \<Longrightarrow> wf_idem (complete_claim rid response expires d)"
  by (auto simp: wf_idem_def complete_claim_def map_update_where scope_of_def set_update_where)

lemma wf_try_claim: "wf_idem d \<Longrightarrow> wf_idem (snd (try_claim h now expires c d))"
  by (simp add: try_claim_def wf_insert_claim)

text \<open>With no other transaction in between, one look at the holder decides.\<close>

lemma acquire_quiet:
  assumes "wf_idem d"
  shows "idem_acquire h now ttl id c d =
    (case held_by d (call_scope c) of
       None \<Rightarrow> (Inr (IdemClaim (idem_next d)), snd (try_claim h now (expiry now ttl) c d))
     | Some r \<Rightarrow>
         if is_expired now r
         then (Inr (IdemClaim (idem_next d)), snd (try_claim h now (expiry now ttl) c (idem_delete_by_id (ir_id r) d)))
         else (case holder_answer h c r of Inl e \<Rightarrow> Inl e | Inr hit \<Rightarrow> Inr (IdemReplay hit), d))"
proof (cases "held_by d (call_scope c)")
  case None
  then show ?thesis by (simp add: idem_acquire_def attempt_eq try_claim_eq)
next
  case (Some r)
  have gone: "held_by (idem_delete_by_id (ir_id r) d) (call_scope c) = None"
    using Some by (simp add: held_delete [OF assms])
  have next': "idem_next (idem_delete_by_id (ir_id r) d) = idem_next d" by (simp add: idem_delete_by_id_def)
  show ?thesis
    using Some gone next' by (simp add: idem_acquire_def attempt_eq try_claim_eq)
qed

lemma held_after_claim:
  "held_by d (call_scope c) = None \<Longrightarrow>
     held_by (snd (try_claim h now expires c d)) k =
       (if k = call_scope c then Some (claim_row h now expires c (idem_next d)) else held_by d k)"
  by (auto simp: try_claim_eq get_by_append split: option.split)

text \<open>Calls arriving one after the other, each at its own time.\<close>

primrec acquire_all ::
    "hasher \<Rightarrow> time option \<Rightarrow> (time \<times> idem_call) list \<Rightarrow> idem_db \<Rightarrow> (idem_error + acquired) list \<times> idem_db" where
  "acquire_all h ttl [] d = ([], d)"
| "acquire_all h ttl (tc # tcs) d =
     (let (res, d1) = idem_acquire h (fst tc) ttl id (snd tc) d;
          (rs, d2) = acquire_all h ttl tcs d1
      in (res # rs, d2))"

definition refusal :: "hasher \<Rightarrow> idem_call \<Rightarrow> idem_call \<Rightarrow> idem_error" where
  "refusal h winner c =
     (if hash_arguments h (ic_arguments winner) \<noteq> hash_arguments h (ic_arguments c)
      then ReusedDifferentArguments (ic_tool_name winner)
      else if ic_tool_name winner \<noteq> ic_tool_name c then ReusedDifferentTool (ic_tool_name winner)
      else KeyInFlight)"

lemma holder_answer_claimed:
  "holder_answer h c (claim_row h' now expires w rid) = Inl (if h' = h then refusal h w c else
     (case assert_same_call (claim_row h' now expires w rid) (ic_tool_name c) (hash_arguments h (ic_arguments c)) of
        Some e \<Rightarrow> e | None \<Rightarrow> KeyInFlight))"
  by (auto simp: holder_answer_def assert_same_call_def refusal_def)

lemma acquire_all_held:
  assumes "wf_idem d" "held_by d (call_scope w) = Some (claim_row h t0 (expiry t0 ttl) w rid)"
    and "\<And>t c. (t, c) \<in> set tcs \<Longrightarrow> call_scope c = call_scope w \<and> (\<forall>q. ttl = Some q \<longrightarrow> t \<le> t0 + q)"
  shows "acquire_all h ttl tcs d = (map (\<lambda>(t, c). Inl (refusal h w c)) tcs, d)"
  using assms(3)
proof (induction tcs)
  case (Cons tc tcs)
  obtain t c where tc: "tc = (t, c)" by fastforce
  have "call_scope c = call_scope w" "\<not> is_expired t (claim_row h t0 (expiry t0 ttl) w rid)"
    using Cons.prems [of t c] tc by (auto simp: is_expired_def expiry_def split: option.splits)
  then have "idem_acquire h t ttl id c d = (Inl (refusal h w c), d)"
    using assms(1,2) by (simp add: acquire_quiet holder_answer_claimed)
  moreover have "acquire_all h ttl tcs d = (map (\<lambda>(t, c). Inl (refusal h w c)) tcs, d)"
    by (rule Cons.IH) (use Cons.prems in auto)
  ultimately show ?case by (simp add: tc)
qed simp

text \<open>
  A key is taken by exactly one call: of any number of calls with one key arriving
  before its claim expires, the first is told to execute and every other is refused, as in flight
  when it is the same call and as a reuse when its arguments or its tool differ; the table gains one
  row, and the other keys are untouched.
\<close>

theorem acquire_exactly_once:
  assumes "wf_idem d" "held_by d (call_scope w) = None"
    and "\<And>t c. (t, c) \<in> set tcs \<Longrightarrow> call_scope c = call_scope w \<and> (\<forall>q. ttl = Some q \<longrightarrow> t \<le> t0 + q)"
  shows "fst (acquire_all h ttl ((t0, w) # tcs) d) =
      Inr (IdemClaim (idem_next d)) # map (\<lambda>(t, c). Inl (refusal h w c)) tcs
    \<and> idem_records (snd (acquire_all h ttl ((t0, w) # tcs) d)) =
      idem_records d @ [claim_row h t0 (expiry t0 ttl) w (idem_next d)]"
proof -
  let ?d = "snd (try_claim h t0 (expiry t0 ttl) w d)"
  have 1: "idem_acquire h t0 ttl id w d = (Inr (IdemClaim (idem_next d)), ?d)"
    using assms(1,2) by (simp add: acquire_quiet)
  have "acquire_all h ttl tcs ?d = (map (\<lambda>(t, c). Inl (refusal h w c)) tcs, ?d)"
    using acquire_all_held [OF wf_try_claim [OF assms(1)] _ assms(3)] assms(2) by (simp add: held_after_claim)
  then show ?thesis using 1 assms(2) by (simp add: try_claim_eq)
qed

definition sample_hasher :: hasher where
  "sample_hasher = \<lparr>h_sha256 = (\<lambda>s. s), h_float_repr = (\<lambda>_. ''0.0''), h_py_str = ''obj''\<rparr>"

definition sample_call :: "int \<Rightarrow> idem_call" where
  "sample_call n = \<lparr>ic_tenant = 7, ic_principal = 8, ic_tool_name = ''replay'', ic_key = ''k'',
     ic_arguments = [(''limit'', JInt n)]\<rparr>"

definition empty_idem :: idem_db where
  "empty_idem = \<lparr>idem_records = [], idem_next = 3\<rparr>"

lemma sample_scope: "call_scope (sample_call m) = call_scope (sample_call n)"
  by (simp add: call_scope_def sample_call_def)

lemma sample_hash:
  "hash_arguments sample_hasher (ic_arguments (sample_call n)) = ''{'' @ dump_str ''limit'' @ '':'' @ show_int n @ ''}''"
  by (simp add: hash_arguments_def sample_hasher_def sample_call_def)

theorem acquire_exactly_once_witness:
  "fst (acquire_all sample_hasher (Some 100) [(0, sample_call 2), (5, sample_call 2), (6, sample_call 3)] empty_idem) =
     [Inr (IdemClaim 3), Inl KeyInFlight, Inl (ReusedDifferentArguments ''replay'')]"
proof -
  have "wf_idem empty_idem" by (simp add: wf_idem_def empty_idem_def)
  moreover have "refusal sample_hasher (sample_call 2) (sample_call 2) = KeyInFlight" by (simp add: refusal_def)
  moreover have "refusal sample_hasher (sample_call 2) (sample_call 3) = ReusedDifferentArguments ''replay''"
    by (simp add: refusal_def sample_hash show_int_def show_nat.simps digit_char_def) (simp add: sample_call_def)
  moreover have "call_scope c = call_scope (sample_call 2) \<and> (\<forall>q. Some 100 = Some q \<longrightarrow> t \<le> 0 + q)"
    if "(t, c) \<in> set [(5 :: rat, sample_call 2), (6, sample_call 3)]" for t c
    using that sample_scope [of 3 2] by auto
  moreover have "held_by empty_idem k = None" for k by (simp add: empty_idem_def)
  ultimately show ?thesis
    using acquire_exactly_once [of empty_idem "sample_call 2" "[(5, sample_call 2), (6, sample_call 3)]" "Some 100" 0 sample_hasher]
    by (simp del: acquire_all.simps) (simp add: empty_idem_def)
qed

section \<open>From claim to replay\<close>

lemma same_call_answer:
  "holder_answer h c (claim_row h now expires c rid \<lparr>ir_response_json := Some response, ir_expires_at := ex\<rparr>) =
     Inr \<lparr>hit_response = response, hit_stored_at = now\<rparr>"
  by (simp add: holder_answer_def assert_same_call_def)

lemma acquire_claimed:
  assumes "wf_idem d" "idem_acquire h t0 ttl id c d = (Inr (IdemClaim rid), d1)"
  shows "wf_idem d1" "rid = idem_next d" "idem_next d1 = Suc rid"
    "held_by d1 (call_scope c) = Some (claim_row h t0 (expiry t0 ttl) c rid)"
proof -
  have "\<exists>d0. wf_idem d0 \<and> held_by d0 (call_scope c) = None \<and> idem_next d0 = idem_next d
      \<and> d1 = snd (try_claim h t0 (expiry t0 ttl) c d0) \<and> rid = idem_next d"
  proof (cases "held_by d (call_scope c)")
    case None
    then show ?thesis using assms by (auto simp: acquire_quiet)
  next
    case (Some r)
    have "is_expired t0 r" "rid = idem_next d" "d1 = snd (try_claim h t0 (expiry t0 ttl) c (idem_delete_by_id (ir_id r) d))"
      using Some assms(2) by (auto simp: acquire_quiet [OF assms(1)] split: if_splits sum.splits)
    then show ?thesis
      using Some assms(1) by (intro exI [of _ "idem_delete_by_id (ir_id r) d"])
        (simp add: wf_delete held_delete, simp add: idem_delete_by_id_def)
  qed
  then obtain d0 where "wf_idem d0" "held_by d0 (call_scope c) = None" "idem_next d0 = idem_next d"
      "d1 = snd (try_claim h t0 (expiry t0 ttl) c d0)" "rid = idem_next d" by blast
  then show "wf_idem d1" "rid = idem_next d" "idem_next d1 = Suc rid"
    "held_by d1 (call_scope c) = Some (claim_row h t0 (expiry t0 ttl) c rid)"
    by (auto simp: wf_try_claim held_after_claim) (simp_all add: try_claim_eq)
qed

lemma released_key_free:
  assumes "wf_idem d" "idem_acquire h t0 ttl id c d = (Inr (IdemClaim rid), d1)"
  shows "wf_idem (idem_release rid d1)" "held_by (idem_release rid d1) (call_scope c) = None"
    "fst (idem_acquire h t ttl'' id c (idem_release rid d1)) = Inr (IdemClaim (Suc rid))"
proof -
  note c = acquire_claimed [OF assms]
  show w: "held_by (idem_release rid d1) (call_scope c) = None" "wf_idem (idem_release rid d1)"
    using c by (simp_all add: idem_release_def held_delete wf_delete)
  have "idem_next (idem_release rid d1) = Suc rid" using c(3) by (simp add: idem_release_def idem_delete_by_id_def)
  then show "fst (idem_acquire h t ttl'' id c (idem_release rid d1)) = Inr (IdemClaim (Suc rid))"
    using w by (simp add: acquire_quiet)
qed

lemma completed_key:
  assumes "wf_idem d" "idem_acquire h t0 ttl id c d = (Inr (IdemClaim rid), d1)"
  shows "wf_idem (idem_complete t1 ttl' rid response d1)"
    "held_by (idem_complete t1 ttl' rid response d1) (call_scope c) =
       Some ((claim_row h t0 (expiry t0 ttl) c rid)\<lparr>ir_response_json := Some response, ir_expires_at := expiry t1 ttl'\<rparr>)"
    "idem_next (idem_complete t1 ttl' rid response d1) = Suc rid"
  using acquire_claimed [OF assms]
  by (simp_all add: idem_complete_def wf_complete held_complete) (simp_all add: complete_claim_def)

lemma completed_expired:
  "is_expired t (r\<lparr>ir_response_json := x, ir_expires_at := expiry t1 ttl'\<rparr>) \<longleftrightarrow> (\<exists>q. ttl' = Some q \<and> t1 + q < t)"
  by (cases ttl') (auto simp: is_expired_def expiry_def)

lemma completed_key_replays:
  assumes "wf_idem d" "idem_acquire h t0 ttl id c d = (Inr (IdemClaim rid), d1)"
    and "\<forall>q. ttl' = Some q \<longrightarrow> t \<le> t1 + q"
  shows "idem_acquire h t ttl'' id c (idem_complete t1 ttl' rid response d1) =
     (Inr (IdemReplay \<lparr>hit_response = response, hit_stored_at = t0\<rparr>), idem_complete t1 ttl' rid response d1)"
  using completed_key [OF assms(1,2), of t1 ttl' response] assms(3)
  by (auto simp: acquire_quiet completed_expired same_call_answer not_less [symmetric])

text \<open>
  The life of a key: the call that claimed it attaches its response, and from then on
  the same call gets that response back, unexecuted, until the record expires; after that, or after
  the claim is released, the key is free and the next call executes. \<open>t\<close> is the time of the next call.
\<close>

theorem claim_complete_replay:
  assumes "wf_idem d" "idem_acquire h t0 ttl id c d = (Inr (IdemClaim rid), d1)"
    and "d2 = idem_complete t1 ttl' rid response d1"
  shows "((\<forall>q. ttl' = Some q \<longrightarrow> t \<le> t1 + q) \<longrightarrow>
        idem_acquire h t ttl'' id c d2 = (Inr (IdemReplay \<lparr>hit_response = response, hit_stored_at = t0\<rparr>), d2))
    \<and> ((\<exists>q. ttl' = Some q \<and> t1 + q < t) \<longrightarrow> fst (idem_acquire h t ttl'' id c d2) = Inr (IdemClaim (Suc rid)))
    \<and> fst (idem_acquire h t ttl'' id c (idem_release rid d1)) = Inr (IdemClaim (Suc rid))"
  using completed_key [OF assms(1,2), of t1 ttl' response] completed_key_replays [OF assms(1,2), of ttl' t t1]
    released_key_free(3) [OF assms(1,2)]
  by (auto simp: assms(3) acquire_quiet completed_expired same_call_answer)

theorem claim_complete_replay_witness:
  "\<exists>d1. idem_acquire sample_hasher 0 (Some 100) id (sample_call 2) empty_idem = (Inr (IdemClaim 3), d1)
    \<and> fst (idem_acquire sample_hasher 50 None id (sample_call 2) (idem_complete 1 (Some 100) 3 [(''n'', JInt 5)] d1))
      = Inr (IdemReplay \<lparr>hit_response = [(''n'', JInt 5)], hit_stored_at = 0\<rparr>)"
proof -
  have wf: "wf_idem empty_idem" by (simp add: wf_idem_def empty_idem_def)
  obtain d1 where d1: "idem_acquire sample_hasher 0 (Some 100) id (sample_call 2) empty_idem = (Inr (IdemClaim 3), d1)"
    by (simp add: acquire_quiet [OF wf]) (simp add: empty_idem_def)
  from claim_complete_replay [OF wf d1 refl, of "Some 100" 50 1] show ?thesis using d1 by auto
qed

section \<open>Looking without taking\<close>

lemma is_expired_lapsed: "is_expired = lapsed"
  by (simp add: fun_eq_iff is_expired_def lapsed_def)

lemma held_reaped:
  "wf_idem d \<Longrightarrow> held_by (snd (delete_expired cutoff d)) k =
     (case held_by d k of None \<Rightarrow> None | Some r \<Rightarrow> if lapsed cutoff r then None else Some r)"
  by (auto simp: delete_expired_def get_by_filter wf_idem_def split: option.split)

lemma wf_reaped: "wf_idem d \<Longrightarrow> wf_idem (snd (delete_expired cutoff d))"
  by (auto simp: wf_idem_def delete_expired_def distinct_map_filter)

lemma lapsed_mono: "lapsed cutoff r \<Longrightarrow> cutoff \<le> now \<Longrightarrow> lapsed now r"
  by (auto simp: lapsed_def split: option.splits)

lemma lookup_eq:
  "fst (idem_lookup h now c d) =
     (case held_by d (call_scope c) of
        None \<Rightarrow> Inr None
      | Some r \<Rightarrow> if is_expired now r then Inr None
                  else (case holder_answer h c r of Inl e \<Rightarrow> Inl e | Inr hit \<Rightarrow> Inr (Some hit)))"
  by (simp add: idem_lookup_def get_by_key_eq call_scope_def split: option.split)

text \<open>
  Reading a key and taking it agree: \<open>lookup\<close> refuses exactly when \<open>acquire\<close> does and
  with the same error, returns the answer \<open>acquire\<close> would replay, and finds nothing exactly when
  \<open>acquire\<close> would execute. The reaper is mere housekeeping: it deletes the expired records and no
  other, and no later call can tell that it ran.
\<close>

theorem lookup_agrees_with_acquire:
  assumes "wf_idem d" "cutoff \<le> now"
  shows "fst (idem_acquire h now ttl id c d) =
      (case fst (idem_lookup h now c d) of
         Inl e \<Rightarrow> Inl e | Inr (Some hit) \<Rightarrow> Inr (IdemReplay hit) | Inr None \<Rightarrow> Inr (IdemClaim (idem_next d)))
    \<and> fst (idem_lookup h now c (snd (delete_expired cutoff d))) = fst (idem_lookup h now c d)
    \<and> fst (idem_acquire h now ttl id c (snd (delete_expired cutoff d))) = fst (idem_acquire h now ttl id c d)
    \<and> fst (delete_expired cutoff d) = length (idem_records d) - length (idem_records (snd (delete_expired cutoff d)))"
proof (intro conjI)
  let ?d = "snd (delete_expired cutoff d)"
  have agree: "fst (idem_acquire h now ttl id c d) =
      (case fst (idem_lookup h now c d) of
         Inl e \<Rightarrow> Inl e | Inr (Some hit) \<Rightarrow> Inr (IdemReplay hit) | Inr None \<Rightarrow> Inr (IdemClaim (idem_next d)))"
    if "wf_idem d" for d
    by (auto simp: acquire_quiet [OF that] lookup_eq split: option.split sum.split)
  show "fst (idem_acquire h now ttl id c d) =
      (case fst (idem_lookup h now c d) of
         Inl e \<Rightarrow> Inl e | Inr (Some hit) \<Rightarrow> Inr (IdemReplay hit) | Inr None \<Rightarrow> Inr (IdemClaim (idem_next d)))"
    by (rule agree [OF assms(1)])
  show same: "fst (idem_lookup h now c ?d) = fst (idem_lookup h now c d)"
    using lapsed_mono [OF _ assms(2)]
    by (auto simp: lookup_eq held_reaped [OF assms(1)] is_expired_lapsed split: option.split)
  have "idem_next ?d = idem_next d" by (simp add: delete_expired_def)
  then show "fst (idem_acquire h now ttl id c ?d) = fst (idem_acquire h now ttl id c d)"
    using agree [OF assms(1)] agree [OF wf_reaped [OF assms(1), of cutoff]] same by (simp only:)
  show "fst (delete_expired cutoff d) = length (idem_records d) - length (idem_records ?d)"
    using sum_length_filter_compl [of "lapsed cutoff" "idem_records d"] by (simp add: delete_expired_def row_count_def)
qed

theorem lookup_agrees_with_acquire_witness:
  "fst (idem_acquire sample_hasher 5 None id (sample_call 2) empty_idem) = Inr (IdemClaim 3)"
proof -
  have "wf_idem empty_idem" by (simp add: wf_idem_def empty_idem_def)
  from lookup_agrees_with_acquire [OF this, of 4 5 sample_hasher None "sample_call 2"] show ?thesis
    by (auto simp: lookup_eq) (simp add: empty_idem_def)
qed

section \<open>The hash does not see the order of keys\<close>

lemma sorted_keys_distinct: "distinct (map fst xs) \<Longrightarrow> distinct (map fst (sort_key fst xs))"
  by (simp add: distinct_map)

lemma hash_key_order:
  assumes "set d = set e" "distinct (map fst d)" "distinct (map fst e)"
  shows "hash_arguments h d = hash_arguments h e"
proof -
  let ?f = "\<lambda>kv. (fst kv, canonical_dumps (h_float_repr h) (h_py_str h) (snd kv))"
  have "sort_key fst (map ?f d) = sort_key fst (map ?f e)"
  proof (rule map_sorted_distinct_set_unique [where f = fst])
    have "inj_on fst (set d)" using assms(2) by (simp add: distinct_map)
    then show "inj_on fst (set (sort_key fst (map ?f d)) \<union> set (sort_key fst (map ?f e)))"
      using assms(1) by (auto simp: inj_on_def)
    show "distinct (map fst (sort_key fst (map ?f d)))" "distinct (map fst (sort_key fst (map ?f e)))"
      using assms(2,3) sorted_keys_distinct [of "map ?f d"] sorted_keys_distinct [of "map ?f e"]
      by (simp_all add: comp_def)
  qed (use assms in auto)
  then show ?thesis by (simp add: hash_arguments_def)
qed

end
