(* ===== verification/Mcp_Registry.thy ===== *)
theory Mcp_Registry
  imports Operator_Audit Idempotency
begin

text \<open>
  The tools a machine principal can call and who may label a call: \<open>mcp/registry.py\<close>,
  \<open>mcp/chaos.py\<close>, \<open>mcp/commander.py\<close>, \<open>mcp/lab_probe.py\<close>. A tool's input and output models are
  Pydantic classes: a definition carries their JSON schemas and, as \<open>td_parse\<close>, what
  \<open>model_validate\<close> answers; the handler is a function of the parsed input, the caller, the
  database and Redis (of any type).
\<close>

section \<open>The registry\<close>

text \<open>What a handler ends in; the exceptions are told apart as the dispatch layer does.\<close>

datatype tool_raise =
    RaisedAuthentication string
  | RaisedAuthorization string
  | RaisedApp string string
  | RaisedOther string

record tool_output =
  out_json :: dict
  out_text :: string

datatype tool_end = ToolOutput tool_output | ToolRaised tool_raise

record 'r tool_definition =
  td_name :: string
  td_description :: string
  td_required_scope :: "scope option"
  td_input_schema :: dict
  td_output_schema :: dict
  td_parse :: "dict \<Rightarrow> json + dict"
  td_handler :: "dict \<Rightarrow> principal \<Rightarrow> sa_db \<times> 'r \<Rightarrow> tool_end \<times> sa_db \<times> 'r"
  td_is_chaos :: bool
  td_is_commander :: bool
  td_is_idempotent :: bool

type_synonym 'r registry = "(string \<times> 'r tool_definition) list"

text \<open>The \<open>ValueError\<close> of a duplicate name stops the import.\<close>

definition register_tool :: "'r tool_definition \<Rightarrow> 'r registry \<Rightarrow> app_error + 'r registry" where
  "register_tool t reg =
     (if map_of reg (td_name t) \<noteq> None then Inl ValueError else Inr (reg @ [(td_name t, t)]))"

definition get_tool :: "string \<Rightarrow> 'r registry \<Rightarrow> 'r tool_definition option" where
  "get_tool name reg = map_of reg name"

definition list_tools :: "'r registry \<Rightarrow> 'r tool_definition list" where
  "list_tools reg = sort_key td_name (map snd reg)"

datatype blast_radius = SINGLE_CONSUMER | SINGLE_LOOP | SINGLE_SERVICE | SHARED_DEPENDENCY | ENVIRONMENT_WIDE

fun blast_radius_value :: "blast_radius \<Rightarrow> string" where
  "blast_radius_value SINGLE_CONSUMER = ''single_consumer''"
| "blast_radius_value SINGLE_LOOP = ''single_loop''"
| "blast_radius_value SINGLE_SERVICE = ''single_service''"
| "blast_radius_value SHARED_DEPENDENCY = ''shared_dependency''"
| "blast_radius_value ENVIRONMENT_WIDE = ''environment_wide''"

text \<open>The two decorators; \<open>t\<close> holds the name, the description, the models and the handler.\<close>

definition chaos_tool :: "bool \<Rightarrow> blast_radius \<Rightarrow> 'r tool_definition \<Rightarrow> 'r registry \<Rightarrow> app_error + 'r registry" where
  "chaos_tool chaos_enabled radius t reg =
     (if \<not> chaos_enabled then Inr reg
      else register_tool (t\<lparr>td_description := ''[chaos: '' @ blast_radius_value radius @ ''] '' @ td_description t,
             td_required_scope := Some CHAOS_INVOKE, td_is_chaos := True, td_is_commander := False,
             td_is_idempotent := False\<rparr>) reg)"

definition commander_description_prefix :: string where
  "commander_description_prefix = ''[commander: telemetry] ''"

definition commander_tool :: "'r tool_definition \<Rightarrow> 'r registry \<Rightarrow> app_error + 'r registry" where
  "commander_tool t reg =
     register_tool (t\<lparr>td_description := commander_description_prefix @ td_description t,
       td_required_scope := Some AGENT_RUNS_WRITE, td_is_chaos := False, td_is_commander := True,
       td_is_idempotent := False\<rparr>) reg"

text \<open>
  A process imports its tool modules in some order; a plain \<open>@tool\<close> sets neither of the two
  family flags.
\<close>

datatype 'r decoration =
    PlainTool "'r tool_definition"
  | ChaosTool blast_radius "'r tool_definition"
  | CommanderTool "'r tool_definition"

fun decorate :: "bool \<Rightarrow> 'r decoration \<Rightarrow> 'r registry \<Rightarrow> app_error + 'r registry" where
  "decorate chaos (PlainTool t) reg =
     register_tool (t\<lparr>td_is_chaos := False, td_is_commander := False\<rparr>) reg"
| "decorate chaos (ChaosTool radius t) reg = chaos_tool chaos radius t reg"
| "decorate chaos (CommanderTool t) reg = commander_tool t reg"

primrec import_tools :: "bool \<Rightarrow> 'r decoration list \<Rightarrow> 'r registry \<Rightarrow> app_error + 'r registry" where
  "import_tools chaos [] reg = Inr reg"
| "import_tools chaos (x # xs) reg =
     (case decorate chaos x reg of Inl e \<Rightarrow> Inl e | Inr reg' \<Rightarrow> import_tools chaos xs reg')"

section \<open>The registry is sound\<close>

definition registry_ok :: "bool \<Rightarrow> 'r registry \<Rightarrow> bool" where
  "registry_ok chaos reg \<longleftrightarrow> distinct (map fst reg)
     \<and> (\<forall>(n, t) \<in> set reg. td_name t = n
          \<and> (td_is_chaos t \<longrightarrow> chaos \<and> td_required_scope t = Some CHAOS_INVOKE \<and> take 8 (td_description t) = ''[chaos: '')
          \<and> (td_is_commander t \<longrightarrow> td_required_scope t = Some AGENT_RUNS_WRITE))"

lemma register_tool_ok:
  assumes "registry_ok chaos reg" "register_tool t reg = Inr reg'"
    and "td_is_chaos t \<longrightarrow> chaos \<and> td_required_scope t = Some CHAOS_INVOKE \<and> take 8 (td_description t) = ''[chaos: ''"
    and "td_is_commander t \<longrightarrow> td_required_scope t = Some AGENT_RUNS_WRITE"
  shows "registry_ok chaos reg'"
  using assms by (auto simp: registry_ok_def register_tool_def map_of_eq_None_iff split: if_splits)

lemma decorate_ok: "registry_ok chaos reg \<Longrightarrow> decorate chaos x reg = Inr reg' \<Longrightarrow> registry_ok chaos reg'"
  by (cases x) (auto simp: chaos_tool_def commander_tool_def split: if_splits elim!: register_tool_ok)

lemma import_tools_ok: "registry_ok chaos reg \<Longrightarrow> import_tools chaos xs reg = Inr reg' \<Longrightarrow> registry_ok chaos reg'"
  by (induction xs arbitrary: reg) (auto split: sum.splits dest: decorate_ok)

lemma get_tool_listed:
  "registry_ok chaos reg \<Longrightarrow> get_tool n reg = Some t \<longleftrightarrow> t \<in> set (list_tools reg) \<and> td_name t = n"
  by (force simp: get_tool_def list_tools_def registry_ok_def dest: map_of_SomeD)

lemma list_tools_sorted: "sorted (map td_name (list_tools reg))"
  by (simp add: list_tools_def)

lemma distinct_sort_key: "distinct (map f (sort_key g xs)) = distinct (map f xs)"
  by (simp only: distinct_map distinct_sort set_sort)

lemma list_tools_distinct: "registry_ok chaos reg \<Longrightarrow> distinct (map td_name (list_tools reg))"
proof -
  assume ok: "registry_ok chaos reg"
  then have "map td_name (map snd reg) = map fst reg" by (auto simp: registry_ok_def)
  then have "distinct (map td_name (map snd reg))" using ok by (simp only: registry_ok_def)
  then show ?thesis by (simp add: list_tools_def distinct_sort_key)
qed

text \<open>
  The registry is what \<open>tools/list\<close> says it is, and the chaos gate holds: after any
  sequence of imports that does not stop on a duplicate, \<open>list_tools\<close> is sorted by name without
  repetition and lists exactly the tools \<open>get_tool\<close> finds; a chaos tool is there only on a
  chaos-enabled stack, always needs \<open>chaos:invoke\<close> and is announced as chaos, and a telemetry tool
  always needs \<open>agent_runs:write\<close>.
\<close>

theorem registry_sound:
  assumes "import_tools chaos xs [] = Inr reg"
  shows "sorted (map td_name (list_tools reg)) \<and> distinct (map td_name (list_tools reg))
    \<and> (get_tool n reg = Some t \<longleftrightarrow> t \<in> set (list_tools reg) \<and> td_name t = n)
    \<and> (t \<in> set (list_tools reg) \<and> td_is_chaos t \<longrightarrow>
         chaos \<and> td_required_scope t = Some CHAOS_INVOKE \<and> take 8 (td_description t) = ''[chaos: '')
    \<and> (t \<in> set (list_tools reg) \<and> td_is_commander t \<longrightarrow> td_required_scope t = Some AGENT_RUNS_WRITE)"
proof -
  have ok: "registry_ok chaos reg" by (rule import_tools_ok [OF _ assms]) (simp add: registry_ok_def)
  then have "t \<in> set (list_tools reg) \<Longrightarrow>
      (td_is_chaos t \<longrightarrow> chaos \<and> td_required_scope t = Some CHAOS_INVOKE \<and> take 8 (td_description t) = ''[chaos: '')
      \<and> (td_is_commander t \<longrightarrow> td_required_scope t = Some AGENT_RUNS_WRITE)"
    by (auto simp: registry_ok_def list_tools_def)
  then show ?thesis using get_tool_listed [OF ok] list_tools_sorted list_tools_distinct [OF ok] by blast
qed

definition sample_tool :: "string \<Rightarrow> unit tool_definition" where
  "sample_tool n = \<lparr>td_name = n, td_description = ''d'', td_required_scope = None, td_input_schema = [],
     td_output_schema = [], td_parse = Inr, td_handler = (\<lambda>i p w. (ToolOutput \<lparr>out_json = i, out_text = ''{}''\<rparr>, w)),
     td_is_chaos = False, td_is_commander = False, td_is_idempotent = False\<rparr>"

theorem registry_sound_witness:
  "\<exists>reg. import_tools False [PlainTool (sample_tool ''b''), ChaosTool SINGLE_LOOP (sample_tool ''x''),
       PlainTool (sample_tool ''a'')] [] = Inr reg \<and> sorted (map td_name (list_tools reg)) \<and> length reg = 2
     \<and> get_tool ''x'' reg = None"
proof -
  define reg where "reg = [(''b'', (sample_tool ''b'')\<lparr>td_is_chaos := False, td_is_commander := False\<rparr>),
    (''a'', (sample_tool ''a'')\<lparr>td_is_chaos := False, td_is_commander := False\<rparr>)]"
  have i: "import_tools False [PlainTool (sample_tool ''b''), ChaosTool SINGLE_LOOP (sample_tool ''x''),
       PlainTool (sample_tool ''a'')] [] = Inr reg"
    by (simp add: register_tool_def chaos_tool_def sample_tool_def reg_def)
  show ?thesis using registry_sound [OF i] i by (auto simp: reg_def get_tool_def)
qed

section \<open>Who may label a call\<close>

record probe_settings =
  ps_chaos_enabled :: bool
  ps_smoke_account_name :: string

datatype reason_code =
    not_available | credential_missing | credential_invalid | credential_not_authorised | reason_invalid

fun reason_code_value :: "reason_code \<Rightarrow> string" where
  "reason_code_value not_available = ''not_available''"
| "reason_code_value credential_missing = ''credential_missing''"
| "reason_code_value credential_invalid = ''credential_invalid''"
| "reason_code_value credential_not_authorised = ''credential_not_authorised''"
| "reason_code_value reason_invalid = ''reason_invalid''"

datatype lab_probe_basis = chaos_scope | smoke_account

record lab_probe_label =
  lp_reason :: string
  lp_principal_name :: string
  lp_basis :: lab_probe_basis

record lab_probe_refused =
  lr_reason_code :: reason_code
  lr_detail :: string

definition lab_principal_header :: string where "lab_principal_header = ''X-Lab-Principal''"
definition lab_probe_field :: string where "lab_probe_field = ''_lab_probe''"
definition lab_probe_reason_max_length :: nat where "lab_probe_reason_max_length = 200"

definition write_scopes :: "string list" where
  "write_scopes = map scope_value [ACTIONS_EXECUTE, ACTIONS_PROPOSE, AGENT_RUNS_WRITE]"

definition refusal_message :: string where
  "refusal_message = lab_probe_field @ '' is only honoured on a request that also carries a valid '' @
     lab_principal_header @
     '' credential authorised to label a call; this request did not, so nothing ran''"

definition refusal_audit_message :: "lab_probe_refused \<Rightarrow> string" where
  "refusal_audit_message r = lab_probe_field @ '' refused: '' @ lr_detail r"

definition refusal_error_data :: "lab_probe_refused \<Rightarrow> dict" where
  "refusal_error_data r = [(''error_code'', JStr ''lab_probe_refused''),
     (''reason_code'', JStr (reason_code_value (lr_reason_code r)))]"

definition probe_basis :: "string \<Rightarrow> string list \<Rightarrow> probe_settings \<Rightarrow> lab_probe_basis option" where
  "probe_basis name scopes cfg =
     (if scope_value CHAOS_INVOKE \<in> set scopes then Some chaos_scope
      else if name = ps_smoke_account_name cfg \<and> set scopes \<inter> set write_scopes = {} then Some smoke_account
      else None)"

text \<open>\<open>str.partition(' ')\<close> and \<open>str.lower\<close> on the characters of a header.\<close>

definition partition_blank :: "string \<Rightarrow> string \<times> string" where
  "partition_blank s = (takeWhile (\<lambda>c. c \<noteq> CHR '' '') s, drop 1 (dropWhile (\<lambda>c. c \<noteq> CHR '' '') s))"

definition lower_char :: "char \<Rightarrow> char" where
  "lower_char c = (if 65 \<le> (of_char c :: nat) \<and> (of_char c :: nat) \<le> 90 then char_of (of_char c + 32 :: nat) else c)"

definition refuse :: "reason_code \<Rightarrow> string \<Rightarrow> lab_probe_refused + 'a" where
  "refuse code detail = Inl \<lparr>lr_reason_code = code, lr_detail = detail\<rparr>"

text \<open>The bearer token of the header, and the label a verified credential earns.\<close>

definition probe_credential :: "string option \<Rightarrow> lab_probe_refused + string" where
  "probe_credential header =
     (let h = strip py_space (case header of None \<Rightarrow> [] | Some s \<Rightarrow> s)
      in if h = [] then refuse credential_missing (''no '' @ lab_principal_header @ '' header on the request'')
      else let (scheme, token) = partition_blank h
      in if map lower_char scheme \<noteq> ''bearer'' \<or> strip py_space token = []
         then refuse credential_invalid (lab_principal_header @ '' must be '' @ [CHR 0x27] @ ''Bearer <token>'' @ [CHR 0x27])
         else Inr (strip py_space token))"

definition probe_label ::
    "probe_settings \<Rightarrow> string \<Rightarrow> uuid \<Rightarrow> service_account \<Rightarrow> sa_token \<Rightarrow> lab_probe_refused + lab_probe_label" where
  "probe_label cfg v caller_tenant_id account account_token =
     (if sa_tenant_id account \<noteq> caller_tenant_id
      then refuse credential_not_authorised (''the '' @ lab_principal_header @ '' credential belongs to another tenant'')
      else case probe_basis (sa_name account) (tk_scopes account_token) cfg of
        None \<Rightarrow> refuse credential_not_authorised (''the '' @ lab_principal_header @ '' credential may not label a call'')
      | Some basis \<Rightarrow>
          (let reason = strip py_space v
           in if reason = [] then refuse reason_invalid (lab_probe_field @ '' must carry a short reason'')
              else if lab_probe_reason_max_length < length reason
              then refuse reason_invalid (lab_probe_field @ '' is at most '' @
                     show_nat lab_probe_reason_max_length @ '' characters, got '' @ show_nat (length reason))
              else Inr \<lparr>lp_reason = reason, lp_principal_name = sa_name account, lp_basis = basis\<rparr>))"

definition resolve_lab_probe ::
    "(string \<Rightarrow> string) \<Rightarrow> probe_settings \<Rightarrow> time \<Rightarrow> string \<Rightarrow> string option \<Rightarrow> uuid \<Rightarrow> sa_db
      \<Rightarrow> (lab_probe_refused + lab_probe_label) \<times> sa_db" where
  "resolve_lab_probe sha256 cfg now v header caller_tenant_id d =
     (if \<not> ps_chaos_enabled cfg then (refuse not_available ''this deployment does not accept a call label'', d)
      else case probe_credential header of
        Inl r \<Rightarrow> (Inl r, d)
      | Inr token \<Rightarrow>
          (case verify_token sha256 now token d of
             Inl _ \<Rightarrow> (refuse credential_invalid (''the '' @ lab_principal_header @ '' credential was not accepted''), d)
           | Inr (account, account_token, d1) \<Rightarrow>
               (probe_label cfg v caller_tenant_id account account_token, d1)))"

lemma verify_token_core: "verify_token sha256 now t d = Inr (a, tk, d1) \<Longrightarrow> sa_core d1 = sa_core d"
  by (auto simp: verify_token_def split: if_splits option.splits)

lemma resolve_lab_probe_core: "sa_core (snd (resolve_lab_probe sha256 cfg now v header tenant d)) = sa_core d"
  by (auto simp: resolve_lab_probe_def verify_token_core split: sum.split)

lemma probe_labelD:
  assumes "probe_label cfg v tenant a t = Inr l"
  shows "sa_tenant_id a = tenant" "lp_principal_name l = sa_name a" "lp_reason l \<noteq> []" "length (lp_reason l) \<le> 200"
    "''chaos:invoke'' \<in> set (tk_scopes t)
       \<or> sa_name a = ps_smoke_account_name cfg \<and> set (tk_scopes t) \<inter> set write_scopes = {}"
  using assms
  by (auto simp: probe_label_def refuse_def Let_def probe_basis_def lab_probe_reason_max_length_def
      split: if_splits option.splits)

lemma resolve_lab_probeD:
  assumes "resolve_lab_probe sha256 cfg now v header tenant d = (Inr l, d1)"
  obtains token a t where "ps_chaos_enabled cfg" "probe_credential header = Inr token"
    "verify_token sha256 now token d = Inr (a, t, d1)" "probe_label cfg v tenant a t = Inr l"
  using assms by (auto simp: resolve_lab_probe_def refuse_def split: if_splits sum.splits)

end
