(* ===== verification/Mcp_Dispatch.thy ===== *)
theory Mcp_Dispatch
  imports Mcp_Registry
begin

text \<open>
  The dispatch layer of the MCP surface: \<open>mcp/protocol.py\<close>, \<open>mcp/handlers.py\<close> and the request
  transaction of \<open>get_db\<close>. One call is a function from the state before the request to the answer
  and the state after it; no other transaction commits in between (the races on a key are in
  \<open>Idempotency\<close>). Database statements go through, except the three the code guards with a savepoint
  of their own: the audit insert, the completion and the release of a claim. After the lookup the
  code names the tool by \<open>tool_def.name\<close>, which is the name it was registered and found under
  (\<open>registry_sound\<close>).
\<close>

section \<open>Envelopes\<close>

definition jsonrpc_invalid_request :: int where "jsonrpc_invalid_request = -32600"
definition jsonrpc_method_not_found :: int where "jsonrpc_method_not_found = -32601"
definition jsonrpc_invalid_params :: int where "jsonrpc_invalid_params = -32602"
definition jsonrpc_internal_error :: int where "jsonrpc_internal_error = -32603"
definition mcp_unauthorized :: int where "mcp_unauthorized = -32001"
definition mcp_forbidden :: int where "mcp_forbidden = -32002"
definition mcp_rate_limited :: int where "mcp_rate_limited = -32003"
definition mcp_tool_not_found :: int where "mcp_tool_not_found = -32010"
definition mcp_tool_error :: int where "mcp_tool_error = -32011"

record rpc_error =
  re_code :: int
  re_message :: string
  re_data :: "dict option"

record rpc_response =
  rpc_id :: json
  rpc_result :: "dict option"
  rpc_failure :: "rpc_error option"

definition rpc_err :: "json \<Rightarrow> int \<Rightarrow> string \<Rightarrow> dict option \<Rightarrow> rpc_response" where
  "rpc_err i code msg data = \<lparr>rpc_id = i, rpc_result = None,
     rpc_failure = Some \<lparr>re_code = code, re_message = msg, re_data = data\<rparr>\<rparr>"

definition rpc_ok :: "json \<Rightarrow> dict \<Rightarrow> rpc_response" where
  "rpc_ok i result = \<lparr>rpc_id = i, rpc_result = Some result, rpc_failure = None\<rparr>"

record call_params =
  cp_name :: string
  cp_arguments :: dict
  cp_lab_probe :: "string option"

text \<open>\<open>ToolCallParams.model_validate\<close>; \<open>None\<close> is the \<open>ValidationError\<close>.\<close>

definition parse_call_params :: "dict \<Rightarrow> call_params option" where
  "parse_call_params params =
     (case map_of params ''name'' of
        Some (JStr name) \<Rightarrow>
          (case (case map_of params ''arguments'' of None \<Rightarrow> Some [] | Some (JObj a) \<Rightarrow> Some a | Some _ \<Rightarrow> None) of
             None \<Rightarrow> None
           | Some args \<Rightarrow>
               (case map_of params lab_probe_field of
                  None \<Rightarrow> Some \<lparr>cp_name = name, cp_arguments = args, cp_lab_probe = None\<rparr>
                | Some JNull \<Rightarrow> Some \<lparr>cp_name = name, cp_arguments = args, cp_lab_probe = None\<rparr>
                | Some (JStr v) \<Rightarrow> Some \<lparr>cp_name = name, cp_arguments = args, cp_lab_probe = Some v\<rparr>
                | Some _ \<Rightarrow> None))
      | _ \<Rightarrow> None)"

definition tool_call_result :: "string \<Rightarrow> dict" where
  "tool_call_result text =
     [(''content'', JArr [JObj [(''type'', JStr ''text''), (''text'', JStr text)]]), (''isError'', JBool False)]"

section \<open>State and environment of a call\<close>

record 'r mcp_state =
  m_sa :: sa_db
  m_idem :: idem_db
  m_redis :: 'r

text \<open>
  What the call meets outside itself: the clock, the latency it measures, whether the three guarded
  statements go through, the hash functions, Pydantic's error list for a value it refuses.
\<close>

record mcp_env =
  en_now :: time
  en_latency :: rat
  en_audit_ok :: bool
  en_complete_ok :: bool
  en_release_ok :: bool
  en_sha256 :: "string \<Rightarrow> string"
  en_hasher :: hasher
  en_probe :: probe_settings
  en_errors :: "dict \<Rightarrow> json"
  en_request_id :: "string option"

definition idempotency_ttl :: time where
  "idempotency_ttl = 24 * 3600"

section \<open>\<open>tools/call\<close>\<close>

definition scope_string :: "'r tool_definition \<Rightarrow> string option" where
  "scope_string t = map_option scope_value (td_required_scope t)"

definition tool_flags :: "'r tool_definition \<Rightarrow> bool \<times> bool" where
  "tool_flags t = (td_is_chaos t, td_is_commander t)"

definition no_flags :: "bool \<times> bool" where
  "no_flags = (False, False)"

text \<open>What every audit row of one call shares: \<open>lab_fields\<close> and the tool's two family flags.\<close>

definition call_audit ::
    "mcp_env \<Rightarrow> call_params \<Rightarrow> lab_probe_label option \<Rightarrow> bool \<times> bool \<Rightarrow> string option
      \<Rightarrow> tool_outcome \<Rightarrow> string option \<Rightarrow> tool_audit" where
  "call_audit e c lab flags scope_used outcome err =
     \<lparr>ta_tool_name = cp_name c, ta_arguments = cp_arguments c, ta_scope_used = scope_used,
      ta_latency_ms = en_latency e, ta_outcome = outcome, ta_error_message = err,
      ta_request_id = en_request_id e,
      ta_is_chaos = fst flags, ta_is_commander = snd flags,
      ta_denied_by = None, ta_lab_probe_reason = map_option lp_reason lab,
      ta_lab_probe_principal = map_option lp_principal_name lab\<rparr>"

text \<open>\<open>_audit\<close>: \<open>None\<close> is \<open>AuditWriteFailedError\<close>.\<close>

definition audit :: "mcp_env \<Rightarrow> principal \<Rightarrow> tool_audit \<Rightarrow> 'r mcp_state \<Rightarrow> 'r mcp_state option" where
  "audit e p a s =
     (case record_tool_invocation (en_audit_ok e) p a (sa_core (m_sa s)) of
        (True, d) \<Rightarrow> Some (s\<lparr>m_sa := (m_sa s)\<lparr>sa_core := d\<rparr>\<rparr>)
      | (False, d) \<Rightarrow> None)"

definition answer_audited ::
    "mcp_env \<Rightarrow> principal \<Rightarrow> tool_audit \<Rightarrow> rpc_response \<Rightarrow> 'r mcp_state \<Rightarrow> rpc_response option \<times> 'r mcp_state" where
  "answer_audited e p a resp s = (case audit e p a s of None \<Rightarrow> (None, s) | Some s' \<Rightarrow> (Some resp, s'))"

definition extract_idempotency_key :: "dict \<Rightarrow> string option" where
  "extract_idempotency_key arguments =
     (case map_of arguments ''idempotency_key'' of
        Some (JStr k) \<Rightarrow> if k = [] then None else Some k
      | _ \<Rightarrow> None)"

text \<open>\<open>json.dumps(response, default=str)\<close>.\<close>

fun str_opaque :: "string \<Rightarrow> json \<Rightarrow> json" where
  "str_opaque s (JArr xs) = JArr (map (str_opaque s) xs)"
| "str_opaque s (JObj d) = JObj (map (\<lambda>kv. (fst kv, str_opaque s (snd kv))) d)"
| "str_opaque s JOpaque = JStr s"
| "str_opaque s v = v"

definition serialize_cached_response :: "hasher \<Rightarrow> dict \<Rightarrow> string" where
  "serialize_cached_response h response =
     (case json_dumps (h_float_repr h) (str_opaque (h_py_str h) (JObj response)) of None \<Rightarrow> [] | Some t \<Rightarrow> t)"

text \<open>The four \<open>except\<close> clauses around the handler.\<close>

definition failure_answer :: "json \<Rightarrow> tool_raise \<Rightarrow> tool_outcome \<times> string \<times> rpc_response" where
  "failure_answer i x =
     (case x of
        RaisedAuthentication m \<Rightarrow> (OUTCOME_UNAUTHORIZED, m, rpc_err i mcp_unauthorized m None)
      | RaisedAuthorization m \<Rightarrow> (OUTCOME_UNAUTHORIZED, m, rpc_err i mcp_forbidden m None)
      | RaisedApp code m \<Rightarrow> (OUTCOME_ERROR, m, rpc_err i mcp_tool_error m (Some [(''error_code'', JStr code)]))
      | RaisedOther m \<Rightarrow> (OUTCOME_ERROR, m, rpc_err i jsonrpc_internal_error ''internal tool error'' None))"

definition complete_step :: "mcp_env \<Rightarrow> uuid option \<Rightarrow> tool_output \<Rightarrow> 'r mcp_state \<Rightarrow> 'r mcp_state" where
  "complete_step e claim out s =
     (case claim of
        None \<Rightarrow> s
      | Some rid \<Rightarrow>
          if en_complete_ok e
          then s\<lparr>m_idem := idem_complete (en_now e) (Some idempotency_ttl) rid (out_json out) (m_idem s)\<rparr>
          else s)"

definition release_step :: "mcp_env \<Rightarrow> uuid option \<Rightarrow> 'r mcp_state \<Rightarrow> 'r mcp_state" where
  "release_step e claim s =
     (case claim of
        None \<Rightarrow> s
      | Some rid \<Rightarrow> if en_release_ok e then s\<lparr>m_idem := idem_release rid (m_idem s)\<rparr> else s)"

text \<open>
  The handler inside its savepoint: a tool that raises loses what it wrote to the database, and not
  what it wrote to Redis.
\<close>

definition run_handler ::
    "mcp_env \<Rightarrow> json \<Rightarrow> principal \<Rightarrow> call_params \<Rightarrow> lab_probe_label option \<Rightarrow> 'r tool_definition \<Rightarrow> dict
      \<Rightarrow> uuid option \<Rightarrow> 'r mcp_state \<Rightarrow> rpc_response option \<times> 'r mcp_state" where
  "run_handler e i p c lab t parsed claim s =
     (case td_handler t parsed p (m_sa s, m_redis s) of
        (ToolOutput out, sa1, r1) \<Rightarrow>
          (let s1 = s\<lparr>m_sa := sa1, m_redis := r1\<rparr>
           in case audit e p (call_audit e c lab (tool_flags t) (scope_string t) OUTCOME_SUCCESS None) s1 of
                None \<Rightarrow> (None, s1)
              | Some s2 \<Rightarrow> (Some (rpc_ok i (tool_call_result (out_text out))), complete_step e claim out s2))
      | (ToolRaised x, sa1, r1) \<Rightarrow>
          (let s1 = s\<lparr>m_redis := r1\<rparr>;
               (outcome, msg, resp) = failure_answer i x
           in case audit e p (call_audit e c lab (tool_flags t) (scope_string t) outcome (Some msg)) s1 of
                None \<Rightarrow> (None, release_step e claim s1)
              | Some s2 \<Rightarrow> (Some resp, release_step e claim s2)))"

definition idem_call_of :: "principal \<Rightarrow> call_params \<Rightarrow> string \<Rightarrow> idem_call" where
  "idem_call_of p c key = \<lparr>ic_tenant = pr_tenant_id p, ic_principal = pr_id p, ic_tool_name = cp_name c,
     ic_key = key, ic_arguments = cp_arguments c\<rparr>"

definition run_claimed ::
    "mcp_env \<Rightarrow> json \<Rightarrow> principal \<Rightarrow> call_params \<Rightarrow> lab_probe_label option \<Rightarrow> 'r tool_definition \<Rightarrow> dict
      \<Rightarrow> 'r mcp_state \<Rightarrow> rpc_response option \<times> 'r mcp_state" where
  "run_claimed e i p c lab t parsed s =
     (if \<not> td_is_idempotent t then run_handler e i p c lab t parsed None s
      else case extract_idempotency_key (cp_arguments c) of
        None \<Rightarrow>
          answer_audited e p (call_audit e c lab (tool_flags t) (scope_string t) OUTCOME_ERROR (Some ''idempotency_key required''))
            (rpc_err i jsonrpc_invalid_params ''idempotency_key is required for this tool'' None) s
      | Some key \<Rightarrow>
          (case idem_acquire (en_hasher e) (en_now e) (Some idempotency_ttl) id (idem_call_of p c key) (m_idem s) of
             (Inl err, im) \<Rightarrow>
               answer_audited e p
                 (call_audit e c lab (tool_flags t) (scope_string t) OUTCOME_ERROR (Some (idem_error_message key err)))
                 (rpc_err i mcp_tool_error (idem_error_message key err)
                    (Some [(''error_code'', JStr (idem_error_code err))])) (s\<lparr>m_idem := im\<rparr>)
           | (Inr (IdemReplay hit), im) \<Rightarrow>
               answer_audited e p (call_audit e c lab (tool_flags t) (scope_string t) OUTCOME_SUCCESS None)
                 (rpc_ok i (tool_call_result (serialize_cached_response (en_hasher e) (hit_response hit))))
                 (s\<lparr>m_idem := im\<rparr>)
           | (Inr (IdemClaim rid), im) \<Rightarrow> run_handler e i p c lab t parsed (Some rid) (s\<lparr>m_idem := im\<rparr>)))"

text \<open>The arguments against the input model, then the lookup and the scope check before that.\<close>

definition run_authorised ::
    "mcp_env \<Rightarrow> json \<Rightarrow> principal \<Rightarrow> call_params \<Rightarrow> lab_probe_label option \<Rightarrow> 'r tool_definition
      \<Rightarrow> 'r mcp_state \<Rightarrow> rpc_response option \<times> 'r mcp_state" where
  "run_authorised e i p c lab t s =
     (case td_parse t (cp_arguments c) of
        Inl errs \<Rightarrow>
          answer_audited e p
            (call_audit e c lab (tool_flags t) (scope_string t) OUTCOME_ERROR (Some ''invalid arguments''))
            (rpc_err i jsonrpc_invalid_params ''invalid tool arguments'' (Some [(''errors'', errs)])) s
      | Inr parsed \<Rightarrow> run_claimed e i p c lab t parsed s)"

definition missing_scope :: "principal \<Rightarrow> 'r tool_definition \<Rightarrow> string option" where
  "missing_scope p t =
     (case td_required_scope t of
        None \<Rightarrow> None
      | Some sc \<Rightarrow> if scope_value sc \<in> set (pr_scopes p) then None else Some (scope_value sc))"

definition run_labelled ::
    "mcp_env \<Rightarrow> 'r registry \<Rightarrow> json \<Rightarrow> principal \<Rightarrow> call_params \<Rightarrow> lab_probe_label option \<Rightarrow> 'r mcp_state
      \<Rightarrow> rpc_response option \<times> 'r mcp_state" where
  "run_labelled e reg i p c lab s =
     (case get_tool (cp_name c) reg of
        None \<Rightarrow>
          answer_audited e p (call_audit e c lab no_flags None OUTCOME_ERROR (Some ''tool not registered''))
            (rpc_err i mcp_tool_not_found (''unknown tool: '' @ cp_name c) None) s
      | Some t \<Rightarrow>
          (case missing_scope p t of
             Some sc \<Rightarrow>
               answer_audited e p
                 ((call_audit e c lab (tool_flags t) (scope_string t) OUTCOME_UNAUTHORIZED (Some ''missing required scope''))
                    \<lparr>ta_denied_by := if td_is_chaos t then Some ''scope_check'' else None\<rparr>)
                 (rpc_err i mcp_forbidden (''missing required scope: '' @ sc) None) s
           | None \<Rightarrow> run_authorised e i p c lab t s))"

definition run_tool_call ::
    "mcp_env \<Rightarrow> 'r registry \<Rightarrow> json \<Rightarrow> dict \<Rightarrow> principal \<Rightarrow> string option \<Rightarrow> 'r mcp_state
      \<Rightarrow> rpc_response option \<times> 'r mcp_state" where
  "run_tool_call e reg i params p header s =
     (case parse_call_params params of
        None \<Rightarrow> (Some (rpc_err i jsonrpc_invalid_params ''invalid tools/call params''
                  (Some [(''errors'', en_errors e params)])), s)
      | Some c \<Rightarrow>
          (case cp_lab_probe c of
             None \<Rightarrow> run_labelled e reg i p c None s
           | Some v \<Rightarrow>
               (case resolve_lab_probe (en_sha256 e) (en_probe e) (en_now e) v header (pr_tenant_id p) (m_sa s) of
                  (Inl refused, sa1) \<Rightarrow>
                    answer_audited e p
                      (call_audit e c None no_flags None OUTCOME_ERROR (Some (refusal_audit_message refused)))
                      (rpc_err i jsonrpc_invalid_params refusal_message (Some (refusal_error_data refused)))
                      (s\<lparr>m_sa := sa1\<rparr>)
                | (Inr label, sa1) \<Rightarrow> run_labelled e reg i p c (Some label) (s\<lparr>m_sa := sa1\<rparr>))))"

text \<open>
  The request around it: an unwritten audit row is the one exception that escapes
  \<open>handle_tools_call\<close>, and \<open>get_db\<close> then rolls the transaction back. Redis is not rolled back.
\<close>

definition handle_tools_call ::
    "mcp_env \<Rightarrow> 'r registry \<Rightarrow> json \<Rightarrow> dict \<Rightarrow> principal \<Rightarrow> string option \<Rightarrow> 'r mcp_state
      \<Rightarrow> rpc_response option \<times> 'r mcp_state" where
  "handle_tools_call e reg i params p header s =
     (case run_tool_call e reg i params p header s of
        (Some resp, s') \<Rightarrow> (Some resp, s')
      | (None, s') \<Rightarrow> (None, s\<lparr>m_redis := m_redis s'\<rparr>))"

section \<open>The other methods\<close>

definition server_name :: string where "server_name = ''incident-platform-mcp''"
definition server_version :: string where "server_version = ''0.1.0''"
definition supported_protocol_version :: string where "supported_protocol_version = ''2025-03-26''"

text \<open>\<open>InitializeParams\<close>: two optional fields, anything else allowed.\<close>

definition initialize_valid :: "dict \<Rightarrow> bool" where
  "initialize_valid params \<longleftrightarrow>
     (case map_of params ''protocolVersion'' of None \<Rightarrow> True | Some JNull \<Rightarrow> True | Some (JStr _) \<Rightarrow> True | _ \<Rightarrow> False)
     \<and> (case map_of params ''clientInfo'' of None \<Rightarrow> True | Some JNull \<Rightarrow> True | Some (JObj _) \<Rightarrow> True | _ \<Rightarrow> False)"

definition handle_initialize :: "(dict \<Rightarrow> json) \<Rightarrow> json \<Rightarrow> dict \<Rightarrow> rpc_response" where
  "handle_initialize errs i params =
     (if initialize_valid params
      then rpc_ok i [(''protocolVersion'', JStr supported_protocol_version),
             (''serverInfo'', JObj [(''name'', JStr server_name), (''version'', JStr server_version)]),
             (''capabilities'', JObj [(''tools'', JObj [])])]
      else rpc_err i jsonrpc_invalid_params ''invalid initialize params'' (Some [(''errors'', errs params)]))"

definition tool_info :: "'r tool_definition \<Rightarrow> json" where
  "tool_info t = JObj [(''name'', JStr (td_name t)), (''description'', JStr (td_description t)),
     (''inputSchema'', JObj (td_input_schema t)), (''outputSchema'', JObj (td_output_schema t)),
     (''required_scope'', jstr_opt (scope_string t)), (''is_idempotent'', JBool (td_is_idempotent t))]"

definition handle_tools_list :: "'r registry \<Rightarrow> json \<Rightarrow> rpc_response" where
  "handle_tools_list reg i = rpc_ok i [(''tools'', JArr (map tool_info (list_tools reg)))]"

text \<open>The principal, or the message of the error that authentication ended in.\<close>

definition dispatch ::
    "mcp_env \<Rightarrow> 'r registry \<Rightarrow> json \<Rightarrow> string \<Rightarrow> dict \<Rightarrow> string + principal \<Rightarrow> string option \<Rightarrow> 'r mcp_state
      \<Rightarrow> rpc_response option \<times> 'r mcp_state" where
  "dispatch e reg i method params who header s =
     (if method = ''initialize'' then (Some (handle_initialize (en_errors e) i params), s)
      else case who of
        Inl msg \<Rightarrow> (Some (rpc_err i mcp_unauthorized msg None), s)
      | Inr p \<Rightarrow>
          if method = ''tools/list'' then (Some (handle_tools_list reg i), s)
          else if method = ''tools/call'' then handle_tools_call e reg i params p header s
          else (Some (rpc_err i jsonrpc_method_not_found (''unknown method: '' @ method) None), s))"

text \<open>A call without a label that reaches its tool's claim stage with parsed arguments.\<close>

definition reaches_tool :: "'r registry \<Rightarrow> principal \<Rightarrow> dict \<Rightarrow> call_params \<Rightarrow> 'r tool_definition \<Rightarrow> dict \<Rightarrow> bool" where
  "reaches_tool reg p params c t parsed \<longleftrightarrow> parse_call_params params = Some c \<and> cp_lab_probe c = None
     \<and> get_tool (cp_name c) reg = Some t \<and> missing_scope p t = None \<and> td_parse t (cp_arguments c) = Inr parsed"

lemma reaches_tool_run:
  "reaches_tool reg p params c t parsed \<Longrightarrow>
     run_tool_call e reg i params p header s = run_claimed e i p c None t parsed s"
  by (simp add: reaches_tool_def run_tool_call_def run_labelled_def run_authorised_def)

section \<open>Samples\<close>

text \<open>An idempotent action that counts its runs in Redis, and one that raises after counting.\<close>

definition sample_env :: "bool \<Rightarrow> mcp_env" where
  "sample_env audit_ok = \<lparr>en_now = 0, en_latency = 3, en_audit_ok = audit_ok, en_complete_ok = True, en_release_ok = True,
     en_sha256 = id, en_hasher = sample_hasher,
     en_probe = \<lparr>ps_chaos_enabled = True, ps_smoke_account_name = ''smoke''\<rparr>, en_errors = (\<lambda>_. JNull),
     en_request_id = None\<rparr>"

definition bump_tool :: "bool \<Rightarrow> nat tool_definition" where
  "bump_tool fails = \<lparr>td_name = ''bump'', td_description = ''d'', td_required_scope = Some ACTIONS_EXECUTE,
     td_input_schema = [], td_output_schema = [], td_parse = Inr,
     td_handler = (\<lambda>i p (sa, n). (if fails then ToolRaised (RaisedOther ''boom'')
        else ToolOutput \<lparr>out_json = [], out_text = ''{}''\<rparr>, sa, Suc n)),
     td_is_chaos = False, td_is_commander = False, td_is_idempotent = True\<rparr>"

definition bump_args :: dict where
  "bump_args = [(''idempotency_key'', JStr ''k'')]"

definition bump_params :: "string option \<Rightarrow> dict" where
  "bump_params lab = [(''name'', JStr ''bump''), (''arguments'', JObj bump_args), (''_lab_probe'', jstr_opt lab)]"

definition bump_call :: "string option \<Rightarrow> call_params" where
  "bump_call lab = \<lparr>cp_name = ''bump'', cp_arguments = bump_args, cp_lab_probe = lab\<rparr>"

definition sample_state :: "nat mcp_state" where
  "sample_state = \<lparr>m_sa = sample_sa_db, m_idem = empty_idem, m_redis = 5\<rparr>"

abbreviation bump_registry :: "bool \<Rightarrow> nat registry" where
  "bump_registry fails \<equiv> [(''bump'', bump_tool fails)]"

abbreviation executor :: principal where
  "executor \<equiv> sample_principal [''actions:execute'']"

lemma bump_parse: "parse_call_params (bump_params lab) = Some (bump_call lab)"
  by (simp add: parse_call_params_def bump_params_def bump_call_def lab_probe_field_def jstr_opt_def split: option.split)

lemma bump_reaches: "reaches_tool (bump_registry fails) executor (bump_params None) (bump_call None) (bump_tool fails) bump_args"
  unfolding reaches_tool_def bump_parse
  by (simp add: bump_call_def get_tool_def missing_scope_def bump_tool_def sample_principal_def)

lemma bump_key: "extract_idempotency_key (cp_arguments (bump_call lab)) = Some ''k''"
  by (simp add: extract_idempotency_key_def bump_call_def bump_args_def)

lemma wf_empty_idem: "wf_idem empty_idem"
  by (simp add: wf_idem_def empty_idem_def)

lemma bump_acquires:
  obtains im where "idem_acquire (en_hasher (sample_env True)) (en_now (sample_env True)) (Some idempotency_ttl) id
     (idem_call_of executor (bump_call None) ''k'') (m_idem sample_state) = (Inr (IdemClaim 3), im)"
  by (simp add: sample_state_def acquire_quiet [OF wf_empty_idem]) (simp add: empty_idem_def)

section \<open>Every answered call leaves one audit row\<close>

text \<open>
  The bookkeeping a call may leave beside its audit row. In the idempotency table only the row of the
  call's own key can change: the claim of a failed call is deleted, or stays when the release fails,
  and an expired holder is evicted. In the service-account tables only the second credential of a
  labelled call can change, by its \<open>last_used_at\<close> stamp.
\<close>

abbreviation unstamped :: "sa_db \<Rightarrow> sa_token list" where
  "unstamped d \<equiv> map (\<lambda>t. t\<lparr>tk_last_used_at := None\<rparr>) (sa_tokens d)"

definition accounts_kept :: "sa_db \<Rightarrow> sa_db \<Rightarrow> bool" where
  "accounts_kept d d' \<longleftrightarrow> service_accounts d' = service_accounts d \<and> sa_next d' = sa_next d \<and> unstamped d' = unstamped d"

definition own_key :: "principal \<Rightarrow> call_params \<Rightarrow> uuid \<times> uuid \<times> string \<Rightarrow> bool" where
  "own_key p c k \<longleftrightarrow> (\<exists>key. extract_idempotency_key (cp_arguments c) = Some key \<and> k = call_scope (idem_call_of p c key))"

definition keys_kept :: "principal \<Rightarrow> call_params \<Rightarrow> idem_db \<Rightarrow> idem_db \<Rightarrow> bool" where
  "keys_kept p c im im' \<longleftrightarrow> (wf_idem im \<longrightarrow> (\<forall>k. \<not> own_key p c k \<longrightarrow> held_by im' k = held_by im k))"

text \<open>
  What an answered call guarantees, from the state \<open>s\<close> it started in: the last thing written to the
  audit trail is the call's own row, its outcome agrees with the answer, no other call's key is
  touched, and a call that did not succeed wrote nothing else but the stamp of its second credential.
\<close>

definition call_recorded ::
    "principal \<Rightarrow> call_params \<Rightarrow> lab_probe_label option \<Rightarrow> 'r mcp_state \<Rightarrow> rpc_response option \<times> 'r mcp_state \<Rightarrow> bool" where
  "call_recorded p c lab s r \<longleftrightarrow>
     keys_kept p c (m_idem s) (m_idem (snd r))
     \<and> (\<exists>resp a d0. fst r = Some resp
        \<and> sa_core (m_sa (snd r)) = snd (record_tool_invocation True p a d0)
        \<and> ta_tool_name a = cp_name c \<and> ta_arguments a = cp_arguments c
        \<and> ta_lab_probe_reason a = map_option lp_reason lab
        \<and> (ta_outcome a = OUTCOME_SUCCESS \<longleftrightarrow> rpc_failure resp = None)
        \<and> (ta_outcome a \<noteq> OUTCOME_SUCCESS \<longrightarrow> d0 = sa_core (m_sa s) \<and> accounts_kept (m_sa s) (m_sa (snd r))
             \<and> (cp_lab_probe c = None \<longrightarrow> sa_tokens (m_sa (snd r)) = sa_tokens (m_sa s))))"

lemma call_recordedI:
  assumes "fst r = Some resp" "sa_core (m_sa (snd r)) = snd (record_tool_invocation True p a d0)"
    and "ta_tool_name a = cp_name c" "ta_arguments a = cp_arguments c" "ta_lab_probe_reason a = map_option lp_reason lab"
    and "ta_outcome a = OUTCOME_SUCCESS \<longleftrightarrow> rpc_failure resp = None"
    and "ta_outcome a \<noteq> OUTCOME_SUCCESS \<Longrightarrow> d0 = sa_core (m_sa s) \<and> accounts_kept (m_sa s) (m_sa (snd r))
           \<and> (cp_lab_probe c = None \<longrightarrow> sa_tokens (m_sa (snd r)) = sa_tokens (m_sa s))"
    and "keys_kept p c (m_idem s) (m_idem (snd r))"
  shows "call_recorded p c lab s r"
  unfolding call_recorded_def
  by (rule conjI [OF assms(8)], intro exI conjI) (use assms(1-7) in auto)

lemma call_recorded_from:
  assumes "call_recorded p c lab (s\<lparr>m_sa := sa1\<rparr>) r" "cp_lab_probe c \<noteq> None"
    and "sa_core sa1 = sa_core (m_sa s)" "accounts_kept (m_sa s) sa1"
  shows "call_recorded p c lab s r"
proof -
  have f: "m_sa (s\<lparr>m_sa := sa1\<rparr>) = sa1" "m_idem (s\<lparr>m_sa := sa1\<rparr>) = m_idem s" by simp_all
  obtain resp a d0 where r: "fst r = Some resp" "sa_core (m_sa (snd r)) = snd (record_tool_invocation True p a d0)"
      "ta_tool_name a = cp_name c" "ta_arguments a = cp_arguments c" "ta_lab_probe_reason a = map_option lp_reason lab"
      "ta_outcome a = OUTCOME_SUCCESS \<longleftrightarrow> rpc_failure resp = None"
      "ta_outcome a \<noteq> OUTCOME_SUCCESS \<longrightarrow> d0 = sa_core sa1 \<and> accounts_kept sa1 (m_sa (snd r))
         \<and> (cp_lab_probe c = None \<longrightarrow> sa_tokens (m_sa (snd r)) = sa_tokens sa1)"
      "keys_kept p c (m_idem s) (m_idem (snd r))"
    using assms(1) [unfolded call_recorded_def f] by (elim conjE exE) (rule that)
  have "accounts_kept (m_sa s) (m_sa (snd r))" if "accounts_kept sa1 (m_sa (snd r))"
    using that assms(4) by (simp add: accounts_kept_def)
  then show ?thesis using r assms(2,3) by (intro call_recordedI [OF r(1-6)]) auto
qed

lemma call_recorded_claimed:
  assumes "call_recorded p c lab (s\<lparr>m_idem := im\<rparr>) r" "keys_kept p c (m_idem s) (m_idem (snd r))"
  shows "call_recorded p c lab s r"
  using assms unfolding call_recorded_def by auto

lemma held_ids:
  assumes "wf_idem d" "held_by d k = Some r" "held_by d k' = Some r'" "k \<noteq> k'"
  shows "ir_id r \<noteq> ir_id r'"
proof
  assume "ir_id r = ir_id r'"
  moreover have "r \<in> set (idem_records d)" "r' \<in> set (idem_records d)" "scope_of r = k" "scope_of r' = k'"
    using get_by_SomeD [OF assms(2)] get_by_SomeD [OF assms(3)] by auto
  ultimately have "r = r'" using assms(1) by (auto simp: wf_idem_def distinct_map inj_on_def)
  then show False using assms(4) \<open>scope_of r = k\<close> \<open>scope_of r' = k'\<close> by simp
qed

lemma held_delete_other:
  "wf_idem d \<Longrightarrow> held_by d k' = Some r \<Longrightarrow> k \<noteq> k' \<Longrightarrow> held_by (idem_delete_by_id (ir_id r) d) k = held_by d k"
  using held_ids [of d k _ k' r] by (auto simp: held_delete split: option.split)

lemma acquire_other:
  "wf_idem d \<Longrightarrow> k \<noteq> call_scope ic \<Longrightarrow> held_by (snd (idem_acquire h now ttl id ic d)) k = held_by d k"
  by (auto simp: acquire_quiet held_claim held_delete_other split: option.split)

lemma acquired_keys_kept:
  assumes "extract_idempotency_key (cp_arguments c) = Some key"
  shows "keys_kept p c im (snd (idem_acquire h now ttl id (idem_call_of p c key) im))"
  using assms by (auto simp: keys_kept_def own_key_def acquire_other)

text \<open>The end of a claimed call touches only the row of its claim.\<close>

definition claim_of :: "principal \<Rightarrow> call_params \<Rightarrow> uuid option \<Rightarrow> idem_db \<Rightarrow> bool" where
  "claim_of p c claim im \<longleftrightarrow> (\<forall>rid. claim = Some rid \<longrightarrow> wf_idem im
     \<longrightarrow> (\<exists>k r. own_key p c k \<and> held_by im k = Some r \<and> ir_id r = rid))"

lemma closing_keys_kept:
  assumes "claim_of p c claim (m_idem s)"
  shows "keys_kept p c (m_idem s) (m_idem (release_step e claim s))"
    "keys_kept p c (m_idem s) (m_idem (complete_step e claim out s))"
proof -
  show "keys_kept p c (m_idem s) (m_idem (release_step e claim s))"
  proof (cases claim)
    case None
    then show ?thesis by (simp add: release_step_def keys_kept_def)
  next
    case (Some rid)
    have "held_by (idem_release rid (m_idem s)) k = held_by (m_idem s) k"
      if wf: "wf_idem (m_idem s)" and k: "\<not> own_key p c k" for k
    proof -
      obtain k' r where r: "own_key p c k'" "held_by (m_idem s) k' = Some r" "ir_id r = rid"
        using assms Some wf by (auto simp: claim_of_def)
      have "k \<noteq> k'" using r(1) k by auto
      from held_delete_other [OF wf r(2) this] show ?thesis by (simp add: idem_release_def r(3))
    qed
    then show ?thesis using Some by (simp add: keys_kept_def release_step_def)
  qed
  show "keys_kept p c (m_idem s) (m_idem (complete_step e claim out s))"
  proof (cases claim)
    case None
    then show ?thesis by (simp add: complete_step_def keys_kept_def)
  next
    case (Some rid)
    have "held_by (m_idem (complete_step e claim out s)) k = held_by (m_idem s) k"
      if wf: "wf_idem (m_idem s)" and k: "\<not> own_key p c k" for k
    proof -
      obtain k' r where r: "own_key p c k'" "held_by (m_idem s) k' = Some r" "ir_id r = rid"
        using assms Some wf by (auto simp: claim_of_def)
      have "held_by (m_idem s) k = Some r' \<Longrightarrow> ir_id r' \<noteq> rid" for r'
        using held_ids [OF wf _ r(2), of k r'] r k by auto
      then show ?thesis using Some
        by (auto simp: complete_step_def idem_complete_def held_complete map_option_case split: option.split)
    qed
    then show ?thesis by (simp add: keys_kept_def)
  qed
qed

lemma call_audit_simps [simp]:
  "ta_tool_name (call_audit e c lab fl sc oc err) = cp_name c"
  "ta_arguments (call_audit e c lab fl sc oc err) = cp_arguments c"
  "ta_lab_probe_reason (call_audit e c lab fl sc oc err) = map_option lp_reason lab"
  "ta_outcome (call_audit e c lab fl sc oc err) = oc"
  "ta_is_chaos (call_audit e c lab fl sc oc err) = fst fl" "ta_is_commander (call_audit e c lab fl sc oc err) = snd fl"
  by (simp_all add: call_audit_def)

lemma rpc_simps [simp]:
  "rpc_failure (rpc_ok i x) = None" "rpc_failure (rpc_err i code m dt) = Some \<lparr>re_code = code, re_message = m, re_data = dt\<rparr>"
  "rpc_result (rpc_ok i x) = Some x" "rpc_result (rpc_err i code m dt) = None"
  by (simp_all add: rpc_ok_def rpc_err_def)

lemma audit_ok:
  "en_audit_ok e \<Longrightarrow> audit e p a s =
     Some (s\<lparr>m_sa := (m_sa s)\<lparr>sa_core := snd (record_tool_invocation True p a (sa_core (m_sa s)))\<rparr>\<rparr>)"
  by (simp add: audit_def record_tool_invocation_def)


lemma release_step_simps [simp]:
  "m_sa (release_step e claim s) = m_sa s" "m_redis (release_step e claim s) = m_redis s"
  "m_sa (complete_step e claim out s) = m_sa s" "m_redis (complete_step e claim out s) = m_redis s"
  by (auto simp: release_step_def complete_step_def split: option.split)

lemma answer_audited_recorded:
  assumes "en_audit_ok e" "ta_tool_name a = cp_name c" "ta_arguments a = cp_arguments c"
    and "ta_lab_probe_reason a = map_option lp_reason lab"
    and "ta_outcome a = OUTCOME_SUCCESS \<longleftrightarrow> rpc_failure resp = None"
  shows "call_recorded p c lab s (answer_audited e p a resp s)"
  by (rule call_recordedI [where resp = resp and a = a and ?d0.0 = "sa_core (m_sa s)"])
    (use assms in \<open>simp_all add: answer_audited_def audit_ok accounts_kept_def keys_kept_def\<close>)

lemma failure_answer_unsuccessful:
  "failure_answer i x = (oc, m, resp) \<Longrightarrow> oc \<noteq> OUTCOME_SUCCESS \<and> rpc_failure resp \<noteq> None"
  by (auto simp: failure_answer_def split: tool_raise.splits)

lemma run_handler_recorded:
  assumes "en_audit_ok e" "claim_of p c claim (m_idem s)"
  shows "call_recorded p c lab s (run_handler e i p c lab t parsed claim s)"
proof -
  obtain fin sa1 r1 where h: "td_handler t parsed p (m_sa s, m_redis s) = (fin, sa1, r1)" by (metis prod_cases3)
  have kept: "keys_kept p c (m_idem s) (m_idem (release_step e claim s'))"
      "keys_kept p c (m_idem s) (m_idem (complete_step e claim out s'))" if "m_idem s' = m_idem s" for s' :: "'a mcp_state" and out
    using closing_keys_kept [of p c claim s'] assms(2) that by simp_all
  show ?thesis
  proof (cases fin)
    case (ToolOutput out)
    then show ?thesis
      by (intro call_recordedI [where a = "call_audit e c lab (tool_flags t) (scope_string t) OUTCOME_SUCCESS None"
              and ?d0.0 = "sa_core sa1" and resp = "rpc_ok i (tool_call_result (out_text out))"])
        (simp_all add: run_handler_def h audit_ok [OF assms(1)] Let_def kept)
  next
    case (ToolRaised x)
    obtain oc m resp where f: "failure_answer i x = (oc, m, resp)" by (metis prod_cases3)
    then show ?thesis using failure_answer_unsuccessful [OF f] ToolRaised
      by (intro call_recordedI [where a = "call_audit e c lab (tool_flags t) (scope_string t) oc (Some m)"
              and ?d0.0 = "sa_core (m_sa s)"])
        (auto simp: run_handler_def h audit_ok [OF assms(1)] Let_def accounts_kept_def kept)
  qed
qed

lemma answer_audited_frame [simp]:
  "m_redis (snd (answer_audited e p a resp s)) = m_redis s" "m_idem (snd (answer_audited e p a resp s)) = m_idem s"
  "fst (answer_audited e p a resp s) = (if en_audit_ok e then Some resp else None)"
  by (auto simp: answer_audited_def audit_def record_tool_invocation_def split: option.split)

lemma keys_kept_trans:
  "keys_kept p c im im1 \<Longrightarrow> keys_kept p c im1 im2 \<Longrightarrow> wf_idem im1 \<or> \<not> wf_idem im \<Longrightarrow> keys_kept p c im im2"
  by (auto simp: keys_kept_def)

lemma acquire_wf: "wf_idem d \<Longrightarrow> wf_idem (snd (idem_acquire h now ttl id ic d))"
  by (auto simp: acquire_quiet wf_try_claim wf_delete split: option.split)

lemma acquired_claim_of:
  assumes "extract_idempotency_key (cp_arguments c) = Some key"
    and "idem_acquire h now ttl id (idem_call_of p c key) im0 = (Inr (IdemClaim rid), im)" "wf_idem im0"
  shows "claim_of p c (Some rid) im"
  using acquire_claimed(4) [OF assms(3,2)] assms(1) by (auto simp: claim_of_def own_key_def)

text \<open>A call that has settled its key goes on from the table the claim left.\<close>

lemma after_acquire_recorded:
  assumes "extract_idempotency_key (cp_arguments c) = Some key"
    and "idem_acquire h now ttl id (idem_call_of p c key) (m_idem s) = (res, im)"
    and "call_recorded p c lab (s\<lparr>m_idem := im\<rparr>) r"
  shows "call_recorded p c lab s r"
proof (rule call_recorded_claimed [OF assms(3)])
  have "keys_kept p c (m_idem s) im" using acquired_keys_kept [OF assms(1)] assms(2) by (metis snd_conv)
  moreover have "keys_kept p c im (m_idem (snd r))" using assms(3) by (simp add: call_recorded_def)
  moreover have "wf_idem im \<or> \<not> wf_idem (m_idem s)" using acquire_wf assms(2) by (metis snd_conv)
  ultimately show "keys_kept p c (m_idem s) (m_idem (snd r))" by (rule keys_kept_trans)
qed

lemma run_claimed_recorded:
  assumes "en_audit_ok e" "wf_idem (m_idem s)"
  shows "call_recorded p c lab s (run_claimed e i p c lab t parsed s)"
proof (cases "extract_idempotency_key (cp_arguments c)")
  case None
  then show ?thesis
    using run_handler_recorded [OF assms(1), of p c None]
    by (auto simp: run_claimed_def claim_of_def answer_audited_recorded [OF assms(1)])
next
  case (Some key)
  obtain res im where a: "idem_acquire (en_hasher e) (en_now e) (Some idempotency_ttl) id (idem_call_of p c key) (m_idem s) = (res, im)"
    by fastforce
  note from_claim = after_acquire_recorded [OF Some a]
  have plain: "call_recorded p c lab s (run_handler e i p c lab t parsed None s)"
    by (rule run_handler_recorded [OF assms(1)]) (simp add: claim_of_def)
  show ?thesis
  proof (cases "\<exists>rid. res = Inr (IdemClaim rid)")
    case True
    then obtain rid where r: "res = Inr (IdemClaim rid)" by blast
    have "call_recorded p c lab (s\<lparr>m_idem := im\<rparr>) (run_handler e i p c lab t parsed (Some rid) (s\<lparr>m_idem := im\<rparr>))"
      by (rule run_handler_recorded [OF assms(1)]) (use acquired_claim_of [OF Some a [unfolded r] assms(2)] in simp)
    then show ?thesis using from_claim plain Some a r by (auto simp: run_claimed_def)
  next
    case False
    have "call_recorded p c lab s (answer_audited e p (call_audit e c lab fl sc oc err) resp (s\<lparr>m_idem := im\<rparr>))"
      if "oc = OUTCOME_SUCCESS \<longleftrightarrow> rpc_failure resp = None" for fl sc oc err resp
      by (rule from_claim, rule answer_audited_recorded [OF assms(1)]) (use that in simp_all)
    then show ?thesis
      using False plain Some a by (auto simp: run_claimed_def split: sum.split acquired.split)
  qed
qed

lemma run_labelled_recorded:
  "en_audit_ok e \<Longrightarrow> wf_idem (m_idem s) \<Longrightarrow> call_recorded p c lab s (run_labelled e reg i p c lab s)"
  by (auto simp: run_labelled_def run_authorised_def answer_audited_recorded run_claimed_recorded
      split: option.split sum.split)


text \<open>How the label of a call is settled; a refusal is answered and audited without looking further.\<close>

lemma verify_token_keeps: "verify_token sha256 now t d = Inr (a, tk, d1) \<Longrightarrow> accounts_kept d d1"
  by (auto simp: verify_token_def accounts_kept_def update_where_def split: if_splits option.splits)

lemma resolve_lab_probe_keeps: "accounts_kept d (snd (resolve_lab_probe sha256 cfg now v header tenant d))"
  by (auto simp: resolve_lab_probe_def verify_token_keeps split: sum.split) (simp_all add: accounts_kept_def)

lemma run_tool_call_cases:
  assumes "parse_call_params params = Some c"
  obtains (plain) "cp_lab_probe c = None"
      "run_tool_call e reg i params p header s = run_labelled e reg i p c None s"
  | (refused) r sa1 where "cp_lab_probe c \<noteq> None" "sa_core sa1 = sa_core (m_sa s)" "accounts_kept (m_sa s) sa1"
      "run_tool_call e reg i params p header s = answer_audited e p
         (call_audit e c None no_flags None OUTCOME_ERROR (Some (refusal_audit_message r)))
         (rpc_err i jsonrpc_invalid_params refusal_message (Some (refusal_error_data r))) (s\<lparr>m_sa := sa1\<rparr>)"
  | (labelled) v l sa1 where "cp_lab_probe c = Some v" "sa_core sa1 = sa_core (m_sa s)" "accounts_kept (m_sa s) sa1"
      "resolve_lab_probe (en_sha256 e) (en_probe e) (en_now e) v header (pr_tenant_id p) (m_sa s) = (Inr l, sa1)"
      "run_tool_call e reg i params p header s = run_labelled e reg i p c (Some l) (s\<lparr>m_sa := sa1\<rparr>)"
proof (cases "cp_lab_probe c")
  case None
  then show ?thesis using plain assms by (simp add: run_tool_call_def)
next
  case (Some v)
  obtain res sa1 where r: "resolve_lab_probe (en_sha256 e) (en_probe e) (en_now e) v header (pr_tenant_id p) (m_sa s) = (res, sa1)"
    by fastforce
  then have core: "sa_core sa1 = sa_core (m_sa s)" "accounts_kept (m_sa s) sa1"
    using resolve_lab_probe_core resolve_lab_probe_keeps by (metis snd_conv)+
  show ?thesis
  proof (cases res)
    case (Inl x)
    then show ?thesis using refused [of sa1 x] Some assms r core by (simp add: run_tool_call_def)
  next
    case (Inr l)
    then show ?thesis using labelled [of v sa1 l] Some assms r core by (simp add: run_tool_call_def)
  qed
qed




text \<open>
  At a concrete call: a tool that raises leaves the accounts and every key but its own as they were;
  and with the audit row unwritable nothing is answered and the accounts are as before.
\<close>

lemma sample_state_keys: "wf_idem (m_idem sample_state)"
  by (simp add: sample_state_def wf_empty_idem)



text \<open>
  A call label is honoured or the call is refused, never ignored. A request that carries
  \<open>_lab_probe\<close> either runs under a label, and then the stack has chaos enabled, the second credential
  is a live token of an account in the caller's own tenant, and that token holds \<open>chaos:invoke\<close> or
  belongs to the read-only smoke account; or it is answered with invalid params and nothing has run.
\<close>

theorem lab_label_needs_credential:
  assumes "parse_call_params params = Some c" "cp_lab_probe c = Some v" "en_audit_ok e"
    and "handle_tools_call e reg i params p header s = (answer, s')" "wf_idem (m_idem s)"
  shows "\<exists>lab. call_recorded p c lab s (answer, s')
    \<and> (case lab of
         Some l \<Rightarrow> ps_chaos_enabled (en_probe e) \<and> length (lp_reason l) \<le> 200
           \<and> (\<exists>token acc tok sa1. probe_credential header = Inr token
                \<and> verify_token (en_sha256 e) (en_now e) token (m_sa s) = Inr (acc, tok, sa1)
                \<and> sa_tenant_id acc = pr_tenant_id p \<and> lp_principal_name l = sa_name acc
                \<and> (''chaos:invoke'' \<in> set (tk_scopes tok)
                   \<or> sa_name acc = ps_smoke_account_name (en_probe e) \<and> set (tk_scopes tok) \<inter> set write_scopes = {}))
       | None \<Rightarrow> m_redis s' = m_redis s \<and> m_idem s' = m_idem s
           \<and> (\<exists>r. answer = Some (rpc_err i jsonrpc_invalid_params refusal_message (Some (refusal_error_data r)))))"
  using assms(1)
proof (cases rule: run_tool_call_cases [where e = e and reg = reg and i = i and p = p and header = header and s = s])
  case plain
  then show ?thesis using assms(2) by simp
next
  case (refused r sa1)
  have "call_recorded p c None (s\<lparr>m_sa := sa1\<rparr>) (run_tool_call e reg i params p header s)"
    unfolding refused(4) by (rule answer_audited_recorded) (use assms(3) in simp_all)
  then have rec: "call_recorded p c None s (run_tool_call e reg i params p header s)"
    using refused(1-3) by (rule call_recorded_from)
  moreover have run: "run_tool_call e reg i params p header s = (answer, s')"
    using rec assms(4) by (auto simp: handle_tools_call_def call_recorded_def split: prod.splits option.splits)
  moreover have "m_redis (snd (run_tool_call e reg i params p header s)) = m_redis s"
    "m_idem (snd (run_tool_call e reg i params p header s)) = m_idem s"
    "fst (run_tool_call e reg i params p header s) =
       Some (rpc_err i jsonrpc_invalid_params refusal_message (Some (refusal_error_data r)))"
    unfolding refused(4) by (simp_all add: assms(3))
  ultimately show ?thesis using refused(2) by (intro exI [of _ None]) auto
next
  case (labelled v' l sa1)
  have "call_recorded p c (Some l) (s\<lparr>m_sa := sa1\<rparr>) (run_tool_call e reg i params p header s)"
    unfolding labelled(5) by (rule run_labelled_recorded) (use assms(3,5) in simp_all)
  then have rec: "call_recorded p c (Some l) s (run_tool_call e reg i params p header s)"
    by (rule call_recorded_from) (use labelled(1-3) in simp_all)
  moreover have "run_tool_call e reg i params p header s = (answer, s')"
    using rec assms(4) by (auto simp: handle_tools_call_def call_recorded_def split: prod.splits option.splits)
  moreover obtain token a t where l: "ps_chaos_enabled (en_probe e)" "probe_credential header = Inr token"
      "verify_token (en_sha256 e) (en_now e) token (m_sa s) = Inr (a, t, sa1)"
      "probe_label (en_probe e) v' (pr_tenant_id p) a t = Inr l"
    using labelled(4) by (rule resolve_lab_probeD)
  ultimately show ?thesis using probe_labelD [OF l(4)] by (intro exI [of _ "Some l"]) auto
qed

theorem lab_label_needs_credential_witness:
  "m_redis (snd (handle_tools_call (sample_env True) (bump_registry False) JNull (bump_params (Some ''mine'')) executor
     None sample_state)) = 5"
proof -
  obtain answer s' where h: "handle_tools_call (sample_env True) (bump_registry False) JNull (bump_params (Some ''mine''))
      executor None sample_state = (answer, s')" by fastforce
  have c: "cp_lab_probe (bump_call (Some ''mine'')) = Some ''mine''" "en_audit_ok (sample_env True)"
    by (simp_all add: bump_call_def sample_env_def)
  have none: "probe_credential None \<noteq> Inr token" for token
    by (simp add: probe_credential_def refuse_def strip_def Let_def)
  have "m_redis s' = m_redis sample_state"
    using lab_label_needs_credential [OF bump_parse c h sample_state_keys] none by (auto split: option.splits)
  then show ?thesis using h by (simp add: sample_state_def)
qed


section \<open>Scopes, failures and replays\<close>

text \<open>
  Scope is enforced before the tool: a caller without the tool's scope gets no result,
  whatever else the request carries; the tool does not run (neither Redis nor the idempotency table
  nor any table but the audit trail changes), and the refusal itself is recorded, in the denied stream
  when the tool is a chaos tool.
\<close>

theorem missing_scope_never_runs:
  assumes "parse_call_params params = Some c" "get_tool (cp_name c) reg = Some t" "td_required_scope t = Some sc"
    and "scope_value sc \<notin> set (pr_scopes p)" "en_audit_ok e"
    and "handle_tools_call e reg i params p header s = (answer, s')"
  shows "m_redis s' = m_redis s \<and> m_idem s' = m_idem s
    \<and> (\<exists>resp a. answer = Some resp \<and> rpc_result resp = None
         \<and> sa_core (m_sa s') = snd (record_tool_invocation True p a (sa_core (m_sa s)))
         \<and> (cp_lab_probe c = None \<longrightarrow>
              resp = rpc_err i mcp_forbidden (''missing required scope: '' @ scope_value sc) None
              \<and> ta_outcome a = OUTCOME_UNAUTHORIZED \<and> (td_is_chaos t \<longrightarrow> audit_action a = ''chaos.tool_denied'')))"
proof -
  have denied: "run_labelled e reg i p c lab x = answer_audited e p
      ((call_audit e c lab (tool_flags t) (scope_string t) OUTCOME_UNAUTHORIZED (Some ''missing required scope''))
         \<lparr>ta_denied_by := if td_is_chaos t then Some ''scope_check'' else None\<rparr>)
      (rpc_err i mcp_forbidden (''missing required scope: '' @ scope_value sc) None) x" for lab x
    using assms(2-4) by (simp add: run_labelled_def missing_scope_def)
  obtain sa1 a resp where r: "run_tool_call e reg i params p header s = answer_audited e p a resp (s\<lparr>m_sa := sa1\<rparr>)"
      "sa_core sa1 = sa_core (m_sa s)" "rpc_result resp = None"
      "cp_lab_probe c = None \<longrightarrow> resp = rpc_err i mcp_forbidden (''missing required scope: '' @ scope_value sc) None
         \<and> ta_outcome a = OUTCOME_UNAUTHORIZED \<and> (td_is_chaos t \<longrightarrow> audit_action a = ''chaos.tool_denied'')"
    using assms(1)
  proof (cases rule: run_tool_call_cases [where e = e and reg = reg and i = i and p = p and header = header and s = s])
    case plain
    have "s\<lparr>m_sa := m_sa s\<rparr> = s" by simp
    then show ?thesis
      by (intro that [of _ _ "m_sa s"]) (use plain denied in \<open>auto simp: audit_action_def action_defs tool_flags_def\<close>)
  next
    case (refused x sa1)
    show ?thesis by (rule that [OF refused(4,2)]) (use refused(1) in auto)
  next
    case (labelled v l sa1)
    show ?thesis by (rule that [OF labelled(5) [unfolded denied] labelled(2)]) (use labelled(1) in auto)
  qed
  then have "(answer, s') = answer_audited e p a resp (s\<lparr>m_sa := sa1\<rparr>)"
    using assms(5,6) by (auto simp: handle_tools_call_def answer_audited_def audit_ok split: prod.splits option.splits)
  then show ?thesis using r(2-4) assms(5) by (auto simp: answer_audited_def audit_ok)
qed

theorem missing_scope_never_runs_witness:
  "m_redis (snd (handle_tools_call (sample_env True) (bump_registry False) JNull (bump_params None)
     (sample_principal [''telemetry:read'']) None sample_state)) = 5"
proof -
  obtain answer s' where h: "handle_tools_call (sample_env True) (bump_registry False) JNull (bump_params None)
      (sample_principal [''telemetry:read'']) None sample_state = (answer, s')" by fastforce
  have "get_tool (cp_name (bump_call None)) (bump_registry False) = Some (bump_tool False)"
    "td_required_scope (bump_tool False) = Some ACTIONS_EXECUTE" "en_audit_ok (sample_env True)"
    "scope_value ACTIONS_EXECUTE \<notin> set (pr_scopes (sample_principal [''telemetry:read'']))"
    by (simp_all add: get_tool_def bump_call_def bump_tool_def sample_env_def sample_principal_def)
  then have "m_redis s' = m_redis sample_state" using missing_scope_never_runs [OF bump_parse _ _ _ _ h] by blast
  then show ?thesis using h by (simp add: sample_state_def)
qed


text \<open>
  A tool that fails changes nothing and frees its key. Whatever the tool wrote before it
  raised, the database then holds the call's audit row and nothing else new, the client gets an error,
  and the same key can be claimed again at once.
\<close>

theorem failed_tool_frees_key:
  assumes "reaches_tool reg p params c t parsed" "td_is_idempotent t"
    and "extract_idempotency_key (cp_arguments c) = Some key" "wf_idem (m_idem s)"
    and "idem_acquire (en_hasher e) (en_now e) (Some idempotency_ttl) id (idem_call_of p c key) (m_idem s) =
           (Inr (IdemClaim rid), im)"
    and "td_handler t parsed p (m_sa s, m_redis s) = (ToolRaised x, sa1, r1)" "en_audit_ok e" "en_release_ok e"
    and "handle_tools_call e reg i params p header s = (answer, s')"
  shows "(\<exists>a. m_sa s' = (m_sa s)\<lparr>sa_core := snd (record_tool_invocation True p a (sa_core (m_sa s)))\<rparr>)
    \<and> (\<exists>resp err. answer = Some resp \<and> rpc_failure resp = Some err)
    \<and> fst (idem_acquire (en_hasher e) later (Some idempotency_ttl) id (idem_call_of p c key) (m_idem s')) =
        Inr (IdemClaim (Suc rid))"
proof -
  obtain oc m resp where f: "failure_answer i x = (oc, m, resp)" by (metis prod_cases3)
  let ?a = "call_audit e c None (tool_flags t) (scope_string t) oc (Some m)"
  have "run_tool_call e reg i params p header s =
      (Some resp, s\<lparr>m_sa := (m_sa s)\<lparr>sa_core := snd (record_tool_invocation True p ?a (sa_core (m_sa s)))\<rparr>,
         m_idem := idem_release rid im, m_redis := r1\<rparr>)"
    unfolding reaches_tool_run [OF assms(1)]
    using assms(2-8) f by (simp add: run_claimed_def run_handler_def Let_def audit_ok release_step_def)
  then have s': "answer = Some resp" "m_sa s' = (m_sa s)\<lparr>sa_core := snd (record_tool_invocation True p ?a (sa_core (m_sa s)))\<rparr>"
      "m_idem s' = idem_release rid im"
    using assms(9) by (auto simp: handle_tools_call_def)
  show ?thesis
    using released_key_free(3) [OF assms(4,5)] failure_answer_unsuccessful [OF f] s' by auto
qed

theorem failed_tool_frees_key_witness:
  "fst (idem_acquire sample_hasher 4 (Some idempotency_ttl) id (idem_call_of executor (bump_call None) ''k'')
      (m_idem (snd (handle_tools_call (sample_env True) (bump_registry True) JNull (bump_params None) executor None
         sample_state)))) = Inr (IdemClaim 4)"
proof -
  obtain answer s' where h: "handle_tools_call (sample_env True) (bump_registry True) JNull (bump_params None) executor
      None sample_state = (answer, s')" by fastforce
  obtain im where a: "idem_acquire (en_hasher (sample_env True)) (en_now (sample_env True)) (Some idempotency_ttl) id
      (idem_call_of executor (bump_call None) ''k'') (m_idem sample_state) = (Inr (IdemClaim 3), im)"
    by (rule bump_acquires)
  have t: "td_is_idempotent (bump_tool True)" "wf_idem (m_idem sample_state)"
    "td_handler (bump_tool True) bump_args executor (m_sa sample_state, m_redis sample_state) =
       (ToolRaised (RaisedOther ''boom''), m_sa sample_state, Suc (m_redis sample_state))"
    "en_audit_ok (sample_env True)" "en_release_ok (sample_env True)"
    by (simp_all add: bump_tool_def sample_env_def sample_state_def wf_empty_idem)
  from failed_tool_frees_key [OF bump_reaches t(1) bump_key t(2) a t(3-5) h, of 4]
  show ?thesis unfolding h snd_conv by (simp add: sample_env_def)
qed


text \<open>
  Property C15. Running twice is running once. After an idempotent call succeeded and its response was
  recorded, the same call by the same principal within 24 hours is answered with the recorded
  response: Redis, the idempotency table and every table but the audit trail stay as they are, whatever
  the handler would do now.
\<close>

theorem repeat_call_replays:
  assumes "reaches_tool reg p params c t parsed" "td_is_idempotent t"
    and "extract_idempotency_key (cp_arguments c) = Some key" "wf_idem (m_idem s)"
    and "idem_acquire (en_hasher e) (en_now e) (Some idempotency_ttl) id (idem_call_of p c key) (m_idem s) =
           (Inr (IdemClaim rid), im)"
    and "td_handler t parsed p (m_sa s, m_redis s) = (ToolOutput out, sa1, r1)"
    and "en_audit_ok e" "en_complete_ok e" "handle_tools_call e reg i params p header s = (answer, s1)"
    and "reaches_tool reg' p params c t' parsed'" "td_is_idempotent t'" "en_hasher e' = en_hasher e" "en_audit_ok e'"
    and "en_now e' \<le> en_now e + 24 * 3600" "handle_tools_call e' reg' i' params p header' s1 = (answer', s2)"
  shows "answer = Some (rpc_ok i (tool_call_result (out_text out))) \<and> m_redis s1 = r1
    \<and> answer' = Some (rpc_ok i' (tool_call_result (serialize_cached_response (en_hasher e) (out_json out))))
    \<and> m_redis s2 = m_redis s1 \<and> m_idem s2 = m_idem s1
    \<and> (\<exists>a. m_sa s2 = (m_sa s1)\<lparr>sa_core := snd (record_tool_invocation True p a (sa_core (m_sa s1)))\<rparr>)"
proof -
  let ?im = "idem_complete (en_now e) (Some idempotency_ttl) rid (out_json out) im"
  have 1: "answer = Some (rpc_ok i (tool_call_result (out_text out)))" "m_redis s1 = r1" "m_idem s1 = ?im"
    using assms(2-9)
    by (auto simp: handle_tools_call_def reaches_tool_run [OF assms(1)] run_claimed_def run_handler_def Let_def
        audit_ok complete_step_def)
  have "idem_acquire (en_hasher e') (en_now e') (Some idempotency_ttl) id (idem_call_of p c key) (m_idem s1) =
      (Inr (IdemReplay \<lparr>hit_response = out_json out, hit_stored_at = en_now e\<rparr>), m_idem s1)"
    unfolding assms(12) 1(3)
    by (rule completed_key_replays [OF assms(4,5)]) (use assms(14) in \<open>simp add: idempotency_ttl_def\<close>)
  then have "run_tool_call e' reg' i' params p header' s1 =
      answer_audited e' p (call_audit e' c None (tool_flags t') (scope_string t') OUTCOME_SUCCESS None)
        (rpc_ok i' (tool_call_result (serialize_cached_response (en_hasher e) (out_json out)))) s1"
    unfolding reaches_tool_run [OF assms(10)] using assms(3,11,12) by (simp add: run_claimed_def)
  then show ?thesis
    using 1 assms(13,15) by (auto simp: handle_tools_call_def answer_audited_def audit_ok)
qed

theorem repeat_call_replays_witness:
  "m_redis (snd (handle_tools_call (sample_env True) (bump_registry True) JNull (bump_params None) executor None
     (snd (handle_tools_call (sample_env True) (bump_registry False) JNull (bump_params None) executor None
        sample_state)))) = 6"
proof -
  obtain answer s1 where h: "handle_tools_call (sample_env True) (bump_registry False) JNull (bump_params None) executor
      None sample_state = (answer, s1)" by fastforce
  obtain answer' s2 where h': "handle_tools_call (sample_env True) (bump_registry True) JNull (bump_params None) executor
      None s1 = (answer', s2)" by fastforce
  obtain im where a: "idem_acquire (en_hasher (sample_env True)) (en_now (sample_env True)) (Some idempotency_ttl) id
      (idem_call_of executor (bump_call None) ''k'') (m_idem sample_state) = (Inr (IdemClaim 3), im)"
    by (rule bump_acquires)
  have t: "td_is_idempotent (bump_tool False)" "wf_idem (m_idem sample_state)"
    "td_handler (bump_tool False) bump_args executor (m_sa sample_state, m_redis sample_state) =
       (ToolOutput \<lparr>out_json = [], out_text = ''{}''\<rparr>, m_sa sample_state, Suc (m_redis sample_state))"
    "en_audit_ok (sample_env True)" "en_complete_ok (sample_env True)" "td_is_idempotent (bump_tool True)"
    "en_now (sample_env True) \<le> en_now (sample_env True) + 24 * 3600"
    by (simp_all add: bump_tool_def sample_env_def sample_state_def wf_empty_idem)
  from repeat_call_replays [OF bump_reaches t(1) bump_key t(2) a t(3-5) h bump_reaches t(6) refl t(4,7) h']
  show ?thesis unfolding h snd_conv h' by (simp add: sample_state_def)
qed


end
