(* ===== verification/Job_Cache.thy ===== *)
theory Job_Cache
  imports Job_Service
begin

text \<open>
  The read cache of jobs and the deferral of its invalidation: \<open>utils/cache.py\<close>,
  \<open>utils/post_commit.py\<close>, and the cached endpoint \<open>GET /jobs/{id}\<close> of \<open>api/jobs.py\<close>. A slot holds
  the tombstone, a stored value, or a text that is not a JSON object; a stored value is what
  \<open>json.loads\<close> makes of the text \<open>json.dumps\<close> wrote. Every Redis call may fail, which its first
  argument says. Values are of any type, so that a proof can tag them with the time they were read.
\<close>

section \<open>Slots\<close>

datatype 'v slot = Tombstone | Stored 'v | Garbled

type_synonym 'v job_cache = "string \<Rightarrow> ('v slot \<times> time) option"

definition job_ttl :: time where "job_ttl = 10"
definition no_cache_ttl :: time where "no_cache_ttl = 30"

definition cache_key :: "uuid \<Rightarrow> uuid \<Rightarrow> string" where
  "cache_key job_id tenant_id = ''cache:job:'' @ uuid_str tenant_id @ '':'' @ uuid_str job_id"

definition live_slot :: "time \<Rightarrow> 'v job_cache \<Rightarrow> string \<Rightarrow> 'v slot option" where
  "live_slot now c k = (case c k of None \<Rightarrow> None | Some (v, x) \<Rightarrow> if x \<le> now then None else Some v)"

definition cache_get :: "bool \<Rightarrow> time \<Rightarrow> uuid \<Rightarrow> uuid \<Rightarrow> 'v job_cache \<Rightarrow> 'v option" where
  "cache_get ok now job_id tenant_id c =
     (if \<not> ok then None
      else case live_slot now c (cache_key job_id tenant_id) of Some (Stored v) \<Rightarrow> Some v | _ \<Rightarrow> None)"

text \<open>\<open>redis.set(..., ex=ttl, nx=True)\<close>.\<close>

definition cache_set :: "bool \<Rightarrow> time \<Rightarrow> uuid \<Rightarrow> uuid \<Rightarrow> 'v \<Rightarrow> 'v job_cache \<Rightarrow> 'v job_cache" where
  "cache_set ok now job_id tenant_id v c =
     (if ok \<and> live_slot now c (cache_key job_id tenant_id) = None
      then c(cache_key job_id tenant_id \<mapsto> (Stored v, now + job_ttl)) else c)"

definition cache_delete :: "bool \<Rightarrow> uuid \<Rightarrow> uuid \<Rightarrow> 'v job_cache \<Rightarrow> 'v job_cache" where
  "cache_delete ok job_id tenant_id c = (if ok then c(cache_key job_id tenant_id := None) else c)"

definition cache_invalidate :: "bool \<Rightarrow> time \<Rightarrow> uuid \<Rightarrow> uuid \<Rightarrow> 'v job_cache \<Rightarrow> 'v job_cache" where
  "cache_invalidate ok now job_id tenant_id c =
     (if ok then c(cache_key job_id tenant_id \<mapsto> (Tombstone, now + no_cache_ttl)) else c)"

section \<open>After the commit\<close>

text \<open>
  The queue in \<open>session.info\<close>. The rollback guard listens to \<open>after_soft_rollback\<close>, which the
  session fires for the rollback of a savepoint as well as for that of the transaction.
\<close>

type_synonym hooks = "cache_effect list"

definition register_post_commit :: "cache_effect \<Rightarrow> hooks \<Rightarrow> hooks" where
  "register_post_commit h q = q @ [h]"

definition soft_rollback :: "hooks \<Rightarrow> hooks" where
  "soft_rollback q = []"

fun run_effect :: "bool \<Rightarrow> time \<Rightarrow> cache_effect \<Rightarrow> 'v job_cache \<Rightarrow> 'v job_cache" where
  "run_effect ok now (CacheInvalidatePostCommit i t) c = cache_invalidate ok now i t c"
| "run_effect ok now (CacheDelete i t) c = cache_delete ok i t c"

definition run_post_commit :: "bool \<Rightarrow> time \<Rightarrow> hooks \<Rightarrow> 'v job_cache \<Rightarrow> 'v job_cache \<times> hooks" where
  "run_post_commit ok now q c = (fold (run_effect ok now) q c, [])"

section \<open>\<open>GET /jobs/{id}\<close>\<close>

record job_response =
  jr_id :: uuid
  jr_user_id :: uuid
  jr_type :: string
  jr_status :: string
  jr_idempotency_key :: "string option"
  jr_payload :: "dict option"
  jr_result :: "dict option"
  jr_error_message :: "string option"
  jr_retry_count :: int
  jr_max_attempts :: int
  jr_dead_lettered_by :: "string option"
  jr_remediation_hint :: "string option"
  jr_fenced_at :: "time option"
  jr_fenced_by :: "string option"
  jr_priority :: int
  jr_trace_id :: "string option"
  jr_saga_id :: "uuid option"
  jr_created_at :: time
  jr_started_at :: "time option"
  jr_completed_at :: "time option"

definition job_response_of :: "job \<Rightarrow> job_response" where
  "job_response_of j = \<lparr>jr_id = j_id j, jr_user_id = j_user_id j, jr_type = j_type j,
     jr_status = job_status_value (j_status j), jr_idempotency_key = j_idempotency_key j,
     jr_payload = j_payload j, jr_result = j_result j, jr_error_message = j_error_message j,
     jr_retry_count = j_retry_count j, jr_max_attempts = j_max_attempts j,
     jr_dead_lettered_by = j_dead_lettered_by j, jr_remediation_hint = j_remediation_hint j,
     jr_fenced_at = j_fenced_at j, jr_fenced_by = j_fenced_by j, jr_priority = j_priority j,
     jr_trace_id = j_trace_id j, jr_saga_id = j_saga_id j, jr_created_at = j_created_at j,
     jr_started_at = j_started_at j, jr_completed_at = j_completed_at j\<rparr>"

definition dead_lettered_at :: "job_response \<Rightarrow> time option" where
  "dead_lettered_at r = (if jr_status r \<noteq> ''dead_letter'' then None else jr_completed_at r)"

definition api_get_job ::
    "bool \<Rightarrow> time \<Rightarrow> uuid \<Rightarrow> uuid \<Rightarrow> user_role \<Rightarrow> uuid \<Rightarrow> db \<Rightarrow> job_response job_cache
      \<Rightarrow> (app_error + job_response) \<times> job_response job_cache" where
  "api_get_job ok now job_id user role tenant d c =
     (case (case cache_get ok now job_id tenant c of
              None \<Rightarrow> None
            | Some r \<Rightarrow> if role = ADMIN \<or> role = SUPPORT \<or> jr_user_id r = user then Some r else None) of
        Some r \<Rightarrow> (Inr r, c)
      | None \<Rightarrow>
          (case get_job job_id user role tenant d of
             Inl e \<Rightarrow> (Inl e, c)
           | Inr j \<Rightarrow> (Inr (job_response_of j), cache_set ok now job_id tenant (job_response_of j) c)))"

section \<open>A committed change is never hidden by the cache\<close>

text \<open>
  What other processes do to one slot after a change committed at time \<open>t\<close> and was invalidated:
  readers that read their row at some earlier time and store it, further invalidations, and the
  deletions of \<open>resolve_incident\<close> and of the tool \<open>invalidate_cache_key\<close>, which take a tombstone with them.
\<close>

datatype cache_op =
    Store time time
  | Invalidate time
  | Delete time

fun op_time :: "cache_op \<Rightarrow> time" where
  "op_time (Store read_at now) = now"
| "op_time (Invalidate now) = now"
| "op_time (Delete now) = now"

fun cache_step :: "uuid \<Rightarrow> uuid \<Rightarrow> cache_op \<Rightarrow> time job_cache \<Rightarrow> time job_cache" where
  "cache_step i t (Store read_at now) c = cache_set True now i t read_at c"
| "cache_step i t (Invalidate now) c = cache_invalidate True now i t c"
| "cache_step i t (Delete now) c = cache_delete True i t c"

text \<open>A reader stores what it read less than the tombstone's life before.\<close>

fun prompt :: "cache_op \<Rightarrow> bool" where
  "prompt (Store read_at now) \<longleftrightarrow> read_at \<le> now \<and> now \<le> read_at + no_cache_ttl"
| "prompt (Invalidate now) \<longleftrightarrow> True"
| "prompt (Delete now) \<longleftrightarrow> True"

text \<open>
  A row read before \<open>t\<close> is stored after a deletion, with no invalidation between the two: the one
  schedule nothing guards against. \<open>exposed\<close> says that a deletion is the last to have touched the slot's guard.
\<close>

fun stored_unguarded :: "time \<Rightarrow> bool \<Rightarrow> cache_op list \<Rightarrow> bool" where
  "stored_unguarded t exposed [] = False"
| "stored_unguarded t exposed (Store read_at now # ops) = (exposed \<and> read_at < t \<or> stored_unguarded t exposed ops)"
| "stored_unguarded t exposed (Invalidate now # ops) = stored_unguarded t False ops"
| "stored_unguarded t exposed (Delete now # ops) = stored_unguarded t True ops"

definition fresh_slot :: "time \<Rightarrow> bool \<Rightarrow> uuid \<Rightarrow> uuid \<Rightarrow> time job_cache \<Rightarrow> bool" where
  "fresh_slot t exposed i tn c \<longleftrightarrow>
     (case c (cache_key i tn) of
        None \<Rightarrow> exposed
      | Some (Tombstone, x) \<Rightarrow> exposed \<or> t + no_cache_ttl \<le> x
      | Some (Stored read_at, x) \<Rightarrow> t \<le> read_at \<and> (exposed \<or> t + no_cache_ttl \<le> x)
      | Some (Garbled, x) \<Rightarrow> False)"

lemma fresh_store:
  assumes "fresh_slot t exposed i tn c" "read_at \<le> now" "now \<le> read_at + no_cache_ttl" "t \<le> now" "\<not> (exposed \<and> read_at < t)"
  shows "fresh_slot t exposed i tn (cache_set True now i tn read_at c)"
proof (cases "live_slot now c (cache_key i tn) = None")
  case False
  then show ?thesis using assms(1) by (auto simp: cache_set_def)
next
  case True
  have "exposed \<or> t + no_cache_ttl \<le> now"
    using assms(1) True by (cases "c (cache_key i tn)")
      (auto simp: fresh_slot_def live_slot_def split: prod.splits slot.splits if_splits)
  then show ?thesis
    using assms(2-5) True by (auto simp: fresh_slot_def cache_set_def job_ttl_def)
qed

lemma fresh_run:
  assumes "fresh_slot t exposed i tn c" "\<forall>op \<in> set ops. prompt op \<and> t \<le> op_time op" "\<not> stored_unguarded t exposed ops"
  shows "\<exists>exposed'. fresh_slot t exposed' i tn (fold (cache_step i tn) ops c)"
  using assms
proof (induction ops arbitrary: exposed c)
  case Nil
  then show ?case by auto
next
  case (Cons op ops)
  show ?case
  proof (cases op)
    case (Store read_at now)
    have "fresh_slot t exposed i tn (cache_set True now i tn read_at c)"
      by (rule fresh_store) (use Cons.prems Store in auto)
    then show ?thesis using Cons.IH [of exposed "cache_set True now i tn read_at c"] Cons.prems Store by simp
  next
    case (Invalidate now)
    have "fresh_slot t False i tn (cache_invalidate True now i tn c)"
      using Cons.prems(2) Invalidate by (simp add: fresh_slot_def cache_invalidate_def)
    then show ?thesis using Cons.IH [of False "cache_invalidate True now i tn c"] Cons.prems Invalidate by simp
  next
    case (Delete now)
    have "fresh_slot t True i tn (cache_delete True i tn c)" by (simp add: fresh_slot_def cache_delete_def)
    then show ?thesis using Cons.IH [of True "cache_delete True i tn c"] Cons.prems Delete by simp
  qed
qed

text \<open>
  Property C30. Once a change is committed and its invalidation has reached the cache, no read of the cache
  returns an older row: whatever readers store, and whoever else invalidates or deletes the slot
  afterwards, in any interleaving, a value found in the slot was read at or after the invalidation,
  provided that a reader stores what it read within the 30 seconds the tombstone stands, and that none
  stores a row read before the invalidation after the slot was deleted and before it is invalidated again.
  (A deletion takes the tombstone with it; \<open>delete_reopens_the_slot\<close> is that schedule.)
\<close>

theorem no_stale_read:
  assumes "\<forall>op \<in> set ops. prompt op \<and> t \<le> op_time op" "\<not> stored_unguarded t False ops"
    and "cache_get True now i tn (fold (cache_step i tn) ops (cache_invalidate True t i tn c)) = Some read_at"
  shows "t \<le> read_at"
proof -
  have "fresh_slot t False i tn (cache_invalidate True t i tn c)" by (simp add: fresh_slot_def cache_invalidate_def)
  from fresh_run [OF this assms(1,2)] obtain exposed
    where "fresh_slot t exposed i tn (fold (cache_step i tn) ops (cache_invalidate True t i tn c))" by blast
  then show ?thesis
    using assms(3) by (auto simp: fresh_slot_def cache_get_def live_slot_def split: option.splits slot.splits if_splits)
qed

theorem no_stale_read_witness:
  "cache_get True 48 2 7 (fold (cache_step 2 7) [Store 3 12, Delete 15, Store 11 16, Invalidate 17, Store 5 18, Store 40 47]
      (cache_invalidate True 10 2 7 Map.empty)) = Some 40
   \<and> (10 :: rat) \<le> 40"
proof -
  let ?ops = "[Store 3 12, Delete 15, Store 11 16, Invalidate 17, Store 5 18, Store 40 47]"
  have g: "cache_get True 48 2 7 (fold (cache_step 2 7) ?ops (cache_invalidate True 10 2 7 Map.empty)) = Some 40"
    by (simp add: cache_get_def cache_set_def cache_delete_def cache_invalidate_def live_slot_def no_cache_ttl_def job_ttl_def)
  have "\<forall>op \<in> set ?ops. prompt op \<and> 10 \<le> op_time op" "\<not> stored_unguarded 10 False ?ops"
    by (simp_all add: no_cache_ttl_def)
  from no_stale_read [OF this g] g show ?thesis by simp
qed

text \<open>
  The schedule the proviso excludes: a reader that read its row before the change stores it after the
  tombstone was deleted, and the old row is served.
\<close>

lemma delete_reopens_the_slot:
  assumes "read_at < t" "t \<le> now"
  shows "cache_get True now i tn (fold (cache_step i tn) [Delete t, Store read_at now] (cache_invalidate True t i tn c)) = Some read_at"
  using assms by (simp add: cache_get_def cache_set_def cache_delete_def live_slot_def job_ttl_def)

text \<open>
  Deleting before the commit, as \<open>resolve_incident\<close> does, closes nothing: a reader that comes between
  the delete and the commit stores the old row, and it is served after the commit.
\<close>

lemma delete_before_commit_races:
  assumes "t1 < t2" "t2 < t1 + job_ttl"
  shows "cache_get True t2 i tn (cache_set True t1 i tn v (cache_delete True i tn c)) = Some v"
  using assms by (simp add: cache_get_def cache_set_def cache_delete_def live_slot_def)

end
