(* ===== verification/Replay_Tools.thy ===== *)
theory Replay_Tools
  imports Job_Cache Retry_Queue Operator_Audit
begin

text \<open>
  The Tier-1 actions on dead-lettered jobs: \<open>mcp/tools/actions/replay_dlq_by_ids.py\<close>,
  \<open>replay_dlq_by_category.py\<close>, \<open>replay_dlq_messages.py\<close>, \<open>mark_dlq_permanent.py\<close>, \<open>pause_dag.py\<close>
  and the shared \<open>_scheduled_replay.py\<close>. A batch runs each item in a savepoint of its own. The state
  is the database, the queue of post-commit hooks on its session, and the Redis sets of the scheduler.
\<close>

section \<open>One item in its savepoint\<close>

record action_state =
  as_db :: db
  as_hooks :: hooks
  as_redis :: job_redis

definition replay_item ::
    "settings \<Rightarrow> call_ctx \<Rightarrow> principal \<Rightarrow> uuid \<Rightarrow> action_state \<Rightarrow> (app_error + job) \<times> action_state" where
  "replay_item cfg ctx p i s =
     (case replay_job cfg ctx i (pr_tenant_id p) None (pr_kind p) (Some (pr_id p)) (as_db s) of
        Inl e \<Rightarrow> (Inl e, s\<lparr>as_hooks := soft_rollback (as_hooks s)\<rparr>)
      | Inr (u, effects, d) \<Rightarrow> (Inr u, s\<lparr>as_db := d, as_hooks := fold register_post_commit effects (as_hooks s)\<rparr>))"

text \<open>
  How the Redis calls of one scheduling end: whether \<open>zadd\<close> reached the server, whether it raised,
  and whether the compensating \<open>zrem\<close> went through.
\<close>

record arm_io =
  io_applied :: bool
  io_raised :: bool
  io_undone :: bool

definition schedule_audit :: "call_ctx \<Rightarrow> principal \<Rightarrow> uuid \<Rightarrow> int \<Rightarrow> rat \<Rightarrow> dict \<Rightarrow> db \<Rightarrow> db" where
  "schedule_audit ctx p i delay execute_at extra d =
     audit_log_write ''job.replay_scheduled'' (pr_tenant_id p)
       (no_args\<lparr>aa_user_id := (if pr_kind p = ''user'' then Some (pr_id p) else None),
          aa_principal_type := Some (pr_kind p), aa_principal_id := Some (pr_id p), aa_job_id := Some i,
          aa_resource_type := Some ''job'', aa_resource_id := Some (uuid_str i),
          aa_request_id := none_if_empty (c_request_id ctx),
          aa_extra_data := Some ([(''delay_seconds'', JInt delay), (''execute_at'', JFloat execute_at)] @ extra)\<rparr>) d"

definition schedule_one_audited ::
    "call_ctx \<Rightarrow> principal \<Rightarrow> arm_io \<Rightarrow> uuid \<Rightarrow> int \<Rightarrow> dict \<Rightarrow> action_state
      \<Rightarrow> (app_error + rat) \<times> action_state" where
  "schedule_one_audited ctx p io i delay extra s =
     (let execute_at = c_now ctx + of_int delay;
          rid = (pr_tenant_id p, pr_id p, i);
          armed = arm_replay rid execute_at (as_redis s)
      in if \<not> io_raised io
         then (Inr execute_at, s\<lparr>as_db := schedule_audit ctx p i delay execute_at extra (as_db s), as_redis := armed\<rparr>)
         else let r1 = (if io_applied io then armed else as_redis s);
                  r2 = (if io_undone io then cancel_scheduled_replay rid r1 else r1)
              in (Inl (RuntimeError ''redis''), s\<lparr>as_hooks := soft_rollback (as_hooks s), as_redis := r2\<rparr>))"

text \<open>\<open>_schedule_one\<close> of \<open>replay_dlq_by_ids\<close>: the pre-check, then the arming.\<close>

definition schedule_one ::
    "call_ctx \<Rightarrow> principal \<Rightarrow> arm_io \<Rightarrow> uuid \<Rightarrow> int \<Rightarrow> action_state \<Rightarrow> (app_error + rat) \<times> action_state" where
  "schedule_one ctx p io i delay s =
     (case get_for_tenant i (pr_tenant_id p) (as_db s) of
        None \<Rightarrow> (Inl (NotFoundError (''Job '' @ uuid_str i @ '' not found'')), s)
      | Some j \<Rightarrow>
          if \<not> (j_status j = FAILED \<or> j_status j = DEAD_LETTER)
          then (Inl (JobError (''Only failed/dead_letter jobs can be replayed, got: '' @ job_status_value (j_status j))), s)
          else schedule_one_audited ctx p io i delay [] s)"

section \<open>Batches\<close>

primrec run_items :: "(uuid \<Rightarrow> action_state \<Rightarrow> 'r \<times> action_state) \<Rightarrow> uuid list \<Rightarrow> action_state
    \<Rightarrow> (uuid \<times> 'r) list \<times> action_state" where
  "run_items f [] s = ([], s)"
| "run_items f (i # is) s =
     (let (r, s1) = f i s; (rs, s2) = run_items f is s1 in ((i, r) # rs, s2))"

definition ok_count :: "(uuid \<times> (app_error + 'a)) list \<Rightarrow> nat" where
  "ok_count rs = length (filter (\<lambda>(i, r). isl r = False) rs)"

definition err_count :: "(uuid \<times> (app_error + 'a)) list \<Rightarrow> nat" where
  "err_count rs = length (filter (\<lambda>(i, r). isl r) rs)"

record batch_output =
  b_requested :: nat
  b_replayed :: nat
  b_scheduled :: nat
  b_failed :: nat
  b_ids :: "uuid list"

definition ok_ids :: "(uuid \<times> (app_error + 'a)) list \<Rightarrow> uuid list" where
  "ok_ids rs = map fst (filter (\<lambda>(i, r). \<not> isl r) rs)"

definition replay_dlq_by_ids ::
    "settings \<Rightarrow> call_ctx \<Rightarrow> principal \<Rightarrow> (uuid \<Rightarrow> arm_io) \<Rightarrow> uuid list \<Rightarrow> int option \<Rightarrow> action_state
      \<Rightarrow> batch_output \<times> action_state" where
  "replay_dlq_by_ids cfg ctx p io job_ids delay_seconds s =
     (case delay_seconds of
        None \<Rightarrow>
          (let (rs, s1) = run_items (replay_item cfg ctx p) job_ids s
           in (\<lparr>b_requested = length job_ids, b_replayed = ok_count rs, b_scheduled = 0, b_failed = err_count rs,
                b_ids = ok_ids rs\<rparr>, s1))
      | Some delay \<Rightarrow>
          (let (rs, s1) = run_items (\<lambda>i. schedule_one ctx p (io i) i delay) job_ids s
           in (\<lparr>b_requested = length job_ids, b_replayed = 0, b_scheduled = ok_count rs, b_failed = err_count rs,
                b_ids = ok_ids rs\<rparr>, s1)))"

definition human_required :: string where "human_required = ''human_required''"

definition replayable_categories :: "string list" where
  "replayable_categories = [''replay_safe'', ''wait_and_replay'']"

definition dlq_filter :: "string option \<Rightarrow> string option \<Rightarrow> string list \<Rightarrow> job_filter" where
  "dlq_filter job_type hint excluded = \<lparr>f_user_id = None, f_status = Some DEAD_LETTER, f_job_type = job_type,
     f_trace_id = None, f_created_after = None, f_created_before = None, f_retry_count_min = None,
     f_retry_count_max = None, f_remediation_hint = hint, f_exclude_remediation_hints = excluded,
     f_require_trace_id = False\<rparr>"

text \<open>The refusal of a category is the left summand.\<close>

definition replay_dlq_by_category ::
    "settings \<Rightarrow> call_ctx \<Rightarrow> principal \<Rightarrow> (uuid \<Rightarrow> arm_io) \<Rightarrow> string \<Rightarrow> string option \<Rightarrow> nat \<Rightarrow> int option
      \<Rightarrow> action_state \<Rightarrow> (string + batch_output) \<times> action_state" where
  "replay_dlq_by_category cfg ctx p io category job_type max_replays delay_seconds s =
     (if category \<notin> set replayable_categories
      then (Inl (''Category '' @ py_repr category @ '' is not replayable. Allowed: '' @
              py_repr_list replayable_categories @ ''. `human_required` entries must go through a human review path.''), s)
      else let ids = map j_id (fst (list_jobs (pr_tenant_id p) 0 max_replays (dlq_filter job_type (Some category) [])
                 SORT_CREATED_AT (as_db s)))
           in case delay_seconds of
             None \<Rightarrow>
               (let (rs, s1) = run_items (replay_item cfg ctx p) ids s
                in (Inr \<lparr>b_requested = length ids, b_replayed = ok_count rs, b_scheduled = 0,
                         b_failed = err_count rs, b_ids = ok_ids rs\<rparr>, s1))
           | Some delay \<Rightarrow>
               (let (rs, s1) = run_items (\<lambda>i. schedule_one_audited ctx p (io i) i delay
                      [(''category'', JStr category)]) ids s
                in (Inr \<lparr>b_requested = length ids, b_replayed = 0, b_scheduled = ok_count rs,
                         b_failed = err_count rs, b_ids = ok_ids rs\<rparr>, s1)))"

definition replay_dlq_messages ::
    "settings \<Rightarrow> call_ctx \<Rightarrow> principal \<Rightarrow> string option \<Rightarrow> nat \<Rightarrow> bool \<Rightarrow> action_state
      \<Rightarrow> (batch_output \<times> uuid list) \<times> action_state" where
  "replay_dlq_messages cfg ctx p job_type limit include_human_required s =
     (let fenced = (if include_human_required then [] else [human_required]);
          ids = map j_id (fst (list_jobs (pr_tenant_id p) 0 limit (dlq_filter job_type None fenced)
                  SORT_CREATED_AT (as_db s)));
          skipped = (if fenced = [] then []
             else map j_id (fst (list_jobs (pr_tenant_id p) 0 limit (dlq_filter job_type (Some human_required) [])
                    SORT_CREATED_AT (as_db s))));
          (rs, s1) = run_items (replay_item cfg ctx p) ids s
      in ((\<lparr>b_requested = length ids, b_replayed = ok_count rs, b_scheduled = 0, b_failed = err_count rs,
            b_ids = ok_ids rs\<rparr>, skipped), s1))"

section \<open>Fencing and pausing\<close>

definition fence_values :: "time \<Rightarrow> principal \<Rightarrow> job \<Rightarrow> job" where
  "fence_values now p j = j\<lparr>j_remediation_hint := Some human_required, j_updated_at := now, j_fenced_at := Some now,
     j_fenced_by := Some ((if pr_kind p = ''service_account'' then ''service_account'' else ''user'') @ '':'' @ uuid_str (pr_id p))\<rparr>"

definition mark_dlq_permanent ::
    "settings \<Rightarrow> call_ctx \<Rightarrow> principal \<Rightarrow> uuid \<Rightarrow> string \<Rightarrow> db \<Rightarrow> app_error + (bool \<times> db)" where
  "mark_dlq_permanent cfg ctx p i reason d =
     (case job_by_id d i of
        None \<Rightarrow> Inl (NotFoundError (''job not found: '' @ uuid_str i))
      | Some j \<Rightarrow>
          if j_tenant_id j \<noteq> pr_tenant_id p then Inl (NotFoundError (''job not found: '' @ uuid_str i))
          else if j_status j \<noteq> DEAD_LETTER
          then Inl (NotFoundError (''job '' @ uuid_str i @ '' is not in dead_letter (status='' @
                 job_status_value (j_status j) @ '')''))
          else let already = (j_remediation_hint j = Some human_required);
                   d1 = d\<lparr>jobs := update_where (\<lambda>x. j_id x = i) (fence_values (c_now ctx) p) (jobs d)\<rparr>
               in Inr (already, audit_log_write ''job.marked_permanent'' (j_tenant_id j)
                    (no_args\<lparr>aa_job_id := Some i,
                       aa_principal_type := Some (if pr_kind p = ''service_account'' then ''service_account'' else ''user''),
                       aa_principal_id := Some (pr_id p), aa_resource_type := Some ''job'',
                       aa_resource_id := Some (uuid_str i), aa_request_id := none_if_empty (c_request_id ctx),
                       aa_extra_data := Some [(''reason'', JStr reason), (''previous_hint'', jstr_opt (j_remediation_hint j)),
                         (''new_hint'', JStr human_required), (''already_marked'', JBool already),
                         (''fenced_at'', JStr (iso_format cfg (c_now ctx)))]\<rparr>) d1))"

definition pause_dag :: "principal \<Rightarrow> uuid \<Rightarrow> db \<Rightarrow> pause_flags \<Rightarrow> app_error + pause_flags" where
  "pause_dag p root_id d flags =
     (case job_by_id d root_id of
        None \<Rightarrow> Inl (NotFoundError (''job not found: '' @ uuid_str root_id))
      | Some j \<Rightarrow>
          if j_tenant_id j \<noteq> pr_tenant_id p then Inl (NotFoundError (''job not found: '' @ uuid_str root_id))
          else case flags of
            RedisDown \<Rightarrow> Inl (RuntimeError ''redis'')
          | PauseFlags fs \<Rightarrow> Inr (PauseFlags (root_id # fs)))"

section \<open>A batch touches only what it replays\<close>

definition others_kept :: "db \<Rightarrow> db \<Rightarrow> uuid set \<Rightarrow> bool" where
  "others_kept d d' is \<longleftrightarrow> (\<forall>k. k \<notin> is \<longrightarrow> job_by_id d' k = job_by_id d k)"

lemma replay_item_effect:
  assumes "db_inv cfg (as_db s)" "c_has_dep_repo ctx" "replay_item cfg ctx p i s = (r, s')"
  shows "db_inv cfg (as_db s')" "others_kept (as_db s) (as_db s') {i}" "as_redis s' = as_redis s"
    "isl r \<Longrightarrow> as_db s' = as_db s \<and> as_hooks s' = []"
    "r = Inr u \<Longrightarrow> job_by_id (as_db s') i = Some u \<and> j_status u = PENDING
       \<and> (\<exists>j. job_by_id (as_db s) i = Some j \<and> j_tenant_id j = pr_tenant_id p \<and> j_status j \<in> {FAILED, DEAD_LETTER})"
proof -
  have wf: "wf_db (as_db s)" using assms(1) by (simp add: db_inv_def)
  note eff = replay_job_effect [OF wf assms(2), where cfg = cfg and i = i and tenant = "pr_tenant_id p" and requester = None
      and ptype = "pr_kind p" and pid = "Some (pr_id p)"]
  show "db_inv cfg (as_db s')"
    using assms db_inv_replay_job [OF assms(1)] by (auto simp: replay_item_def split: sum.splits)
  show "others_kept (as_db s) (as_db s') {i}" "as_redis s' = as_redis s"
    "isl r \<Longrightarrow> as_db s' = as_db s \<and> as_hooks s' = []"
    "r = Inr u \<Longrightarrow> job_by_id (as_db s') i = Some u \<and> j_status u = PENDING
       \<and> (\<exists>j. job_by_id (as_db s) i = Some j \<and> j_tenant_id j = pr_tenant_id p \<and> j_status j \<in> {FAILED, DEAD_LETTER})"
    using eff assms(3) by (auto simp: replay_item_def others_kept_def soft_rollback_def split: sum.splits)
qed

lemma others_kept_trans:
  "others_kept d d1 A \<Longrightarrow> others_kept d1 d2 B \<Longrightarrow> others_kept d d2 (A \<union> B)"
  by (simp add: others_kept_def)

lemma run_items_length: "run_items f is s = (rs, s') \<Longrightarrow> map fst rs = is"
  by (induction "is" arbitrary: s rs) (auto split: prod.splits)

lemma counts_add: "ok_count rs + err_count rs = length rs"
  by (induction rs) (auto simp: ok_count_def err_count_def)

lemma ok_ids_simps [simp]:
  "ok_ids [] = []" "ok_ids ((i, Inl e) # rs) = ok_ids rs" "ok_ids ((i, Inr x) # rs) = i # ok_ids rs"
  by (simp_all add: ok_ids_def)

lemma replay_batch:
  assumes "db_inv cfg (as_db s)" "c_has_dep_repo ctx" "run_items (replay_item cfg ctx p) is s = (rs, s')"
  shows "db_inv cfg (as_db s') \<and> others_kept (as_db s) (as_db s') (set (ok_ids rs)) \<and> as_redis s' = as_redis s"
  using assms(1,3)
proof (induction "is" arbitrary: s rs)
  case (Cons i "is")
  obtain r s1 where 1: "replay_item cfg ctx p i s = (r, s1)" by fastforce
  obtain rs2 where 2: "run_items (replay_item cfg ctx p) is s1 = (rs2, s')" and rs: "rs = (i, r) # rs2"
    using Cons.prems(2) 1 by (auto split: prod.splits)
  note e = replay_item_effect [OF Cons.prems(1) assms(2) 1]
  have ih: "db_inv cfg (as_db s')" "others_kept (as_db s1) (as_db s') (set (ok_ids rs2))" "as_redis s' = as_redis s1"
    using Cons.IH [OF e(1) 2] by auto
  have "others_kept (as_db s) (as_db s') (set (ok_ids ((i, r) # rs2)))"
  proof (cases r)
    case (Inl x)
    then show ?thesis using e(4) ih(2) by simp
  next
    case (Inr u)
    then show ?thesis using others_kept_trans [OF e(2) ih(2)] by simp
  qed
  then show ?case using ih e(3) rs by simp
qed (simp add: others_kept_def)

text \<open>
  A batch replay is all-or-nothing per item and honest about it: there is one outcome per
  requested id and the counts add up; the database stays consistent, a job changes only when its own id
  was replayed, and nothing is scheduled.
\<close>

theorem replay_by_ids_per_item:
  assumes "db_inv cfg (as_db s)" "c_has_dep_repo ctx"
    and "replay_dlq_by_ids cfg ctx p io job_ids None s = (out, s')"
  shows "b_requested out = length job_ids \<and> b_replayed out + b_failed out = b_requested out \<and> b_scheduled out = 0
    \<and> length (b_ids out) = b_replayed out \<and> db_inv cfg (as_db s') \<and> as_redis s' = as_redis s
    \<and> (\<forall>k. k \<notin> set (b_ids out) \<longrightarrow> job_by_id (as_db s') k = job_by_id (as_db s) k)"
proof -
  obtain rs s1 where r: "run_items (replay_item cfg ctx p) job_ids s = (rs, s1)" by fastforce
  have "length rs = length job_ids" using run_items_length [OF r] by (metis length_map)
  moreover have "length (ok_ids rs) = ok_count rs" by (simp add: ok_ids_def ok_count_def case_prod_beta)
  ultimately show ?thesis
    using replay_batch [OF assms(1,2) r] counts_add [of rs] assms(3) r
    by (auto simp: replay_dlq_by_ids_def others_kept_def)
qed

text \<open>
  A failing item discards the invalidations of the items before it: its savepoint rollback empties the
  whole queue, although those items commit.
\<close>

lemma failed_item_drops_invalidations:
  assumes "db_inv cfg (as_db s)" "c_has_dep_repo ctx" "replay_item cfg ctx p i s = (Inr u, s1)"
    and "replay_item cfg ctx p k s1 = (Inl e, s2)"
  shows "as_hooks s1 = as_hooks s @ [CacheInvalidatePostCommit i (pr_tenant_id p)]
    \<and> job_by_id (as_db s2) i = Some u \<and> j_status u = PENDING \<and> as_hooks s2 = []"
proof -
  note 1 = replay_item_effect [OF assms(1-3)] and 2 = replay_item_effect [OF _ assms(2,4)]
  have "as_hooks s1 = as_hooks s @ [CacheInvalidatePostCommit i (pr_tenant_id p)]"
    using assms(3) by (auto simp: replay_item_def replay_job_def Let_def register_post_commit_def
        split: sum.splits option.splits if_splits prod.splits)
  then show ?thesis using 1(5) 2(4) [OF 1(1)] by auto
qed

definition no_schedules :: job_redis where
  "no_schedules = \<lparr>delayed_z = [], scheduled_z = [], inflight_z = []\<rparr>"

theorem replay_by_ids_per_item_witness:
  "b_replayed (fst (replay_dlq_by_ids default_settings sample_ctx (sample_principal []) undefined [2, 3] None
       \<lparr>as_db = sample_db [sample_job 2 FAILED] [], as_hooks = [], as_redis = no_schedules\<rparr>))
     + b_failed (fst (replay_dlq_by_ids default_settings sample_ctx (sample_principal []) undefined [2, 3] None
       \<lparr>as_db = sample_db [sample_job 2 FAILED] [], as_hooks = [], as_redis = no_schedules\<rparr>)) = 2"
proof -
  let ?s = "\<lparr>as_db = sample_db [sample_job 2 FAILED] [], as_hooks = [], as_redis = no_schedules\<rparr>"
  obtain out s' where h: "replay_dlq_by_ids default_settings sample_ctx (sample_principal []) undefined [2, 3] None ?s = (out, s')"
    by fastforce
  have "db_inv default_settings (as_db ?s)" by (simp add: db_inv_sample)
  moreover have "c_has_dep_repo sample_ctx" by (simp add: sample_ctx_def)
  ultimately show ?thesis using replay_by_ids_per_item [OF _ _ h] by (simp add: h)
qed

section \<open>The fence\<close>

lemma list_jobs_mem: "j \<in> set (fst (list_jobs tenant off n f srt d)) \<Longrightarrow> j \<in> set (jobs d) \<and> job_matches tenant f j"
  by (auto simp: list_jobs_def Let_def dest!: in_set_takeD in_set_dropD)

lemma ok_ids_subset: "run_items f is s = (rs, s') \<Longrightarrow> set (ok_ids rs) \<subseteq> set is"
  using run_items_length [of f "is" s rs s'] by (force simp: ok_ids_def)

lemma fence_values_simps [simp]:
  "j_id (fence_values now p j) = j_id j" "j_status (fence_values now p j) = j_status j"
  "j_remediation_hint (fence_values now p j) = Some human_required" "j_fenced_at (fence_values now p j) = Some now"
  by (simp_all add: fence_values_def)

lemma mark_jobs:
  assumes "mark_dlq_permanent cfg ctx p i reason d = Inr (already, d1)"
  obtains j where "job_by_id d i = Some j" "j_status j = DEAD_LETTER" "j_tenant_id j = pr_tenant_id p"
    "already \<longleftrightarrow> j_remediation_hint j = Some human_required"
    "jobs d1 = update_where (\<lambda>x. j_id x = i) (fence_values (c_now ctx) p) (jobs d)"
  using assms by (auto simp: mark_dlq_permanent_def Let_def split: option.splits if_splits)

lemma mark_effect:
  assumes "mark_dlq_permanent cfg ctx p i reason d = Inr (already, d1)"
  shows "\<exists>j. job_by_id d i = Some j \<and> j_status j = DEAD_LETTER \<and> j_tenant_id j = pr_tenant_id p
     \<and> job_by_id d1 i = Some (fence_values (c_now ctx) p j) \<and> (already \<longleftrightarrow> j_remediation_hint j = Some human_required)"
  using assms
proof (rule mark_jobs)
  fix j
  assume j: "job_by_id d i = Some j" "j_status j = DEAD_LETTER" "j_tenant_id j = pr_tenant_id p"
    "already \<longleftrightarrow> j_remediation_hint j = Some human_required"
    "jobs d1 = update_where (\<lambda>x. j_id x = i) (fence_values (c_now ctx) p) (jobs d)"
  then have "job_by_id d1 i = Some (fence_values (c_now ctx) p j)"
    using get_by_SomeD [OF j(1)] by (simp add: get_by_update_where)
  then show ?thesis using j by blast
qed

lemma fenced_not_listed:
  assumes "wf_db d" "job_by_id d i = Some j" "\<not> job_matches tenant f j"
  shows "i \<notin> set (map j_id (fst (list_jobs tenant off n f srt d)))"
proof
  assume "i \<in> set (map j_id (fst (list_jobs tenant off n f srt d)))"
  then obtain x where x: "x \<in> set (jobs d)" "job_matches tenant f x" "j_id x = i" using list_jobs_mem by fastforce
  then show False using assms wf_job_by_id [OF assms(1) x(1)] by auto
qed

lemma fence_excluded:
  "j_remediation_hint j = Some human_required \<Longrightarrow> \<not> job_matches t (dlq_filter ty None [human_required]) j"
  "j_remediation_hint j = Some human_required \<Longrightarrow> category \<in> set replayable_categories \<Longrightarrow>
     \<not> job_matches t (dlq_filter ty (Some category) []) j"
  by (auto simp: job_matches_def dlq_filter_def if_given_def human_required_def replayable_categories_def)

text \<open>Calls of the two batch replays, by anyone: the blind one without its consent, and the one by category, delayed or not.\<close>

datatype batch_call =
    BlindBatch call_ctx principal "string option" nat
  | CategoryBatch call_ctx principal "uuid \<Rightarrow> arm_io" string "string option" nat "int option"

fun batch_apply :: "settings \<Rightarrow> batch_call \<Rightarrow> action_state \<Rightarrow> action_state" where
  "batch_apply cfg (BlindBatch ctx p ty limit) s = snd (replay_dlq_messages cfg ctx p ty limit False s)"
| "batch_apply cfg (CategoryBatch ctx p io category ty n delay) s = snd (replay_dlq_by_category cfg ctx p io category ty n delay s)"

fun batch_ctx :: "batch_call \<Rightarrow> call_ctx" where
  "batch_ctx (BlindBatch ctx p ty limit) = ctx"
| "batch_ctx (CategoryBatch ctx p io category ty n delay) = ctx"

text \<open>Whatever was armed or disarmed in between, it was the replay of another job.\<close>

definition arms_others :: "uuid \<Rightarrow> job_redis \<Rightarrow> job_redis \<Rightarrow> bool" where
  "arms_others i r r' \<longleftrightarrow> (\<forall>m. zscore (scheduled_z r') m \<noteq> zscore (scheduled_z r) m \<longrightarrow> (\<exists>t q k. k \<noteq> i \<and> m = replay_member (t, q, k)))"

lemma arms_others_trans: "arms_others i r r1 \<Longrightarrow> arms_others i r1 r2 \<Longrightarrow> arms_others i r r2"
  unfolding arms_others_def by metis

definition left_alone :: "settings \<Rightarrow> uuid \<Rightarrow> action_state \<Rightarrow> action_state \<Rightarrow> bool" where
  "left_alone cfg i s s' \<longleftrightarrow> db_inv cfg (as_db s') \<and> job_by_id (as_db s') i = job_by_id (as_db s) i
     \<and> arms_others i (as_redis s) (as_redis s')"

lemma left_alone_trans: "left_alone cfg i s s1 \<Longrightarrow> left_alone cfg i s1 s2 \<Longrightarrow> left_alone cfg i s s2"
  unfolding left_alone_def using arms_others_trans by metis

lemma left_alone_refl: "db_inv cfg (as_db s) \<Longrightarrow> left_alone cfg i s s"
  by (simp add: left_alone_def arms_others_def)

lemma schedule_audited_alone:
  assumes "db_inv cfg (as_db s)" "schedule_one_audited ctx p io k delay extra s = (r, s')" "k \<noteq> i"
  shows "left_alone cfg i s s'"
proof -
  have "jobs (as_db s') = jobs (as_db s)" using assms(2)
    by (auto simp: schedule_one_audited_def schedule_audit_def Let_def split: if_splits)
  moreover have "db_inv cfg (as_db s')"
    using assms(1,2) by (auto simp: schedule_one_audited_def schedule_audit_def Let_def split: if_splits intro: db_inv_audit_log_write)
  moreover have "m = replay_member (pr_tenant_id p, pr_id p, k)"
    if "zscore (scheduled_z (as_redis s')) m \<noteq> zscore (scheduled_z (as_redis s)) m" for m
    using assms(2) that
    by (auto simp: schedule_one_audited_def Let_def arm_replay_def cancel_scheduled_replay_def zscore_zadd zscore_zrem split: if_splits)
  ultimately show ?thesis using assms(3) unfolding left_alone_def arms_others_def by metis
qed

lemma schedule_batch_alone:
  assumes "db_inv cfg (as_db s)" "run_items (\<lambda>k. schedule_one_audited ctx p (io k) k delay extra) ids s = (rs, s')" "i \<notin> set ids"
  shows "left_alone cfg i s s'"
  using assms
proof (induction ids arbitrary: s rs)
  case (Cons k ids)
  obtain r s1 where 1: "schedule_one_audited ctx p (io k) k delay extra s = (r, s1)" by fastforce
  obtain rs2 where 2: "run_items (\<lambda>k. schedule_one_audited ctx p (io k) k delay extra) ids s1 = (rs2, s')"
    using Cons.prems(2) 1 by (auto split: prod.splits)
  have a: "left_alone cfg i s s1" using schedule_audited_alone [OF Cons.prems(1) 1] Cons.prems(3) by simp
  have "left_alone cfg i s1 s'" using Cons.IH [OF _ 2] a Cons.prems(3) by (simp add: left_alone_def)
  with a show ?case by (rule left_alone_trans)
qed (simp add: left_alone_refl)

lemma replay_batch_alone:
  assumes "db_inv cfg (as_db s)" "c_has_dep_repo ctx" "run_items (replay_item cfg ctx p) ids s = (rs, s')" "i \<notin> set ids"
  shows "left_alone cfg i s s'"
  using replay_batch [OF assms(1-3)] ok_ids_subset [OF assms(3)] assms(4)
  by (auto simp: left_alone_def others_kept_def arms_others_def)

lemma batch_leaves_fenced:
  assumes "db_inv cfg (as_db s)" "c_has_dep_repo (batch_ctx b)"
    and "job_by_id (as_db s) i = Some j" "j_remediation_hint j = Some human_required"
  shows "left_alone cfg i s (batch_apply cfg b s)"
proof -
  have wf: "wf_db (as_db s)" using assms(1) by (simp add: db_inv_def)
  show ?thesis
  proof (cases b)
    case (BlindBatch ctx p ty limit)
    then show ?thesis
      using replay_batch_alone [OF assms(1)] fenced_not_listed [OF wf assms(3) fence_excluded(1) [OF assms(4)]] assms(2)
      by (auto simp: replay_dlq_messages_def Let_def split: prod.split)
  next
    case (CategoryBatch ctx p io category ty n delay)
    show ?thesis
    proof (cases "category \<in> set replayable_categories")
      case True
      note out = fenced_not_listed [OF wf assms(3) fence_excluded(2) [OF assms(4) True]]
      show ?thesis
        using True CategoryBatch assms(2) replay_batch_alone [OF assms(1) _ _ out] schedule_batch_alone [OF assms(1) _ out]
        by (auto simp: replay_dlq_by_category_def Let_def split: prod.split option.split)
    next
      case False
      then show ?thesis using CategoryBatch left_alone_refl [OF assms(1)] by (simp add: replay_dlq_by_category_def)
    qed
  qed
qed

lemma batches_leave_fenced:
  assumes "db_inv cfg (as_db s)" "list_all (\<lambda>b. c_has_dep_repo (batch_ctx b)) bs"
    and "job_by_id (as_db s) i = Some j" "j_remediation_hint j = Some human_required"
  shows "left_alone cfg i s (fold (batch_apply cfg) bs s)"
  using assms
proof (induction bs arbitrary: s)
  case (Cons b bs)
  have a: "left_alone cfg i s (batch_apply cfg b s)" by (rule batch_leaves_fenced) (use Cons.prems in auto)
  have "left_alone cfg i (batch_apply cfg b s) (fold (batch_apply cfg) bs (batch_apply cfg b s))"
    by (rule Cons.IH) (use Cons.prems a in \<open>auto simp: left_alone_def\<close>)
  with left_alone_trans [OF a this] show ?case by simp
qed (simp add: left_alone_refl)

text \<open>
  Property C32. The fence holds against the batch replays: once a dead-lettered job is marked permanent,
  any number of calls, begun after the mark and with nothing else between them, of the blind batch replay
  (without its explicit consent) and of the replay by category, whatever the category, delayed or at once
  and by whomever, leave it dead-lettered, fenced and stamped, and arm no replay of it. Re-marking reports
  that it was already marked. (The fence does not bind a replay that names the job, nor a batch already
  under way when the mark commits, nor what a delayed batch armed before the mark:
  \<open>armed_before_mark_unfences\<close>.)
\<close>

theorem fence_holds:
  assumes "mark_dlq_permanent cfg ctx p i reason d = Inr (already, d1)" "db_inv cfg d1" "as_db s = d1"
    and "list_all (\<lambda>b. c_has_dep_repo (batch_ctx b)) bs"
  shows "\<exists>j. job_by_id d1 i = Some j \<and> j_status j = DEAD_LETTER \<and> j_remediation_hint j = Some human_required
    \<and> j_fenced_at j = Some (c_now ctx)
    \<and> job_by_id (as_db (fold (batch_apply cfg) bs s)) i = Some j
    \<and> arms_others i (as_redis s) (as_redis (fold (batch_apply cfg) bs s))
    \<and> (\<exists>d2. mark_dlq_permanent cfg ctx p i reason' d1 = Inr (True, d2))"
proof -
  obtain j0 where j0: "j_status j0 = DEAD_LETTER" "j_tenant_id j0 = pr_tenant_id p"
      "job_by_id d1 i = Some (fence_values (c_now ctx) p j0)"
    using mark_effect [OF assms(1)] by blast
  have "left_alone cfg i s (fold (batch_apply cfg) bs s)"
    by (rule batches_leave_fenced [OF _ assms(4), where j = "fence_values (c_now ctx) p j0"]) (use assms(2,3) j0(3) in simp_all)
  moreover have "\<exists>d2. mark_dlq_permanent cfg ctx p i reason' d1 = Inr (True, d2)"
    using j0 by (simp add: mark_dlq_permanent_def Let_def) (simp add: fence_values_def)
  ultimately show ?thesis using j0 assms(3) by (auto simp: left_alone_def)
qed

text \<open>
  What is past the fence: the scheduler replays an armed job by \<open>replay_job\<close>, which reads its status and
  not its hint. A replay that was armed before the mark, when it comes due, requeues the fenced job and clears the fence.
\<close>

theorem armed_before_mark_unfences:
  assumes "mark_dlq_permanent cfg ctx p i reason d = Inr (already, d1)" "db_inv cfg d1"
    and "c_has_dep_repo ctx'" "find_blocking_pause (c_flags ctx') i d1 = None"
  shows "\<exists>u fx d2. replay_job cfg ctx' i (pr_tenant_id p) None ''service_account'' prin d1 = Inr (u, fx, d2)
    \<and> job_by_id d2 i = Some u \<and> j_status u = PENDING \<and> j_remediation_hint u = None"
proof -
  have wf: "wf_db d1" using assms(2) by (simp add: db_inv_def)
  obtain j0 where j0: "j_status j0 = DEAD_LETTER" "j_tenant_id j0 = pr_tenant_id p"
      "job_by_id d1 i = Some (fence_values (c_now ctx) p j0)"
    using mark_effect [OF assms(1)] by blast
  have t: "j_tenant_id (fence_values (c_now ctx) p j0) = pr_tenant_id p" using j0(2) by (simp add: fence_values_def)
  show ?thesis
    using replay_job_effect [OF wf assms(3), where cfg = cfg and i = i and tenant = "pr_tenant_id p" and requester = None
        and ptype = "''service_account''" and pid = prin] j0(1,3) t assms(4)
    by (auto split: sum.splits prod.splits)
qed

lemma db_inv_mark [platform_intros]:
  assumes "db_inv cfg d" "mark_dlq_permanent cfg ctx p i reason d = Inr (already, d1)"
  shows "db_inv cfg d1"
proof -
  let ?d = "d\<lparr>jobs := update_where (\<lambda>x. j_id x = i) (fence_values (c_now ctx) p) (jobs d)\<rparr>"
  have ids: "map j_id (jobs ?d) = map j_id (jobs d)" by (simp add: map_update_where)
  then have set_ids: "j_id ` set (jobs ?d) = j_id ` set (jobs d)" by (metis set_map)
  have rows: "\<exists>y \<in> set (jobs d). j_id x = j_id y \<and> j_status x = j_status y \<and> stamped_job x = stamped_job y
      \<and> (\<forall>e. announces cfg x e = announces cfg y e)" if "x \<in> set (jobs ?d)" for x
    using that by (auto simp: set_update_where stamped_job_def announces_def fence_values_def split: if_splits)
  have "wf_db ?d"
    using assms(1) ids set_ids rows by (simp add: db_inv_def wf_db_def) metis
  moreover have "announced cfg ?d" "stamped ?d"
    using assms(1) rows by (auto simp: db_inv_def announced_def stamped_def) metis+
  ultimately have "db_inv cfg ?d" by (simp add: db_inv_def)
  then show ?thesis
    using assms(2) by (auto simp: mark_dlq_permanent_def Let_def db_inv_audit_log_write split: option.splits if_splits)
qed

definition sample_dead :: db where
  "sample_dead = snd (update_status default_settings 5 2 DEAD_LETTER [] None None (sample_db [sample_job 2 PENDING] []))"

lemma sample_dead_inv: "db_inv default_settings sample_dead"
  unfolding sample_dead_def by (rule db_inv_update_status) (simp_all add: db_inv_sample no_extra_plain)

lemma sample_dead_row: "\<exists>j. job_by_id sample_dead 2 = Some j \<and> j_status j = DEAD_LETTER \<and> j_tenant_id j = 7"
proof -
  have wf: "wf_db (sample_db [sample_job 2 PENDING] [])" by (rule wf_sample) auto
  have j: "job_by_id (sample_db [sample_job 2 PENDING] []) 2 = Some (sample_job 2 PENDING)" by simp
  show ?thesis
    using job_by_id_update_status_self [OF wf j, where cfg = default_settings and now = 5 and st = DEAD_LETTER
        and extra = "[]" and msg = None]
    by (auto simp: sample_dead_def) (simp add: status_values_def sample_job_def new_job_def Let_def)
qed

lemma sample_marked:
  obtains already d1 where
    "mark_dlq_permanent default_settings sample_ctx (sample_principal []) 2 ''broken parser'' sample_dead = Inr (already, d1)"
    "db_inv default_settings d1"
proof -
  obtain already d1 where m: "mark_dlq_permanent default_settings sample_ctx (sample_principal []) 2 ''broken parser'' sample_dead
      = Inr (already, d1)"
    using sample_dead_row by (auto simp: mark_dlq_permanent_def sample_principal_def Let_def)
  from that [OF m db_inv_mark [OF sample_dead_inv m]] show thesis .
qed

theorem fence_holds_witness:
  "\<exists>already d1 j. mark_dlq_permanent default_settings sample_ctx (sample_principal []) 2 ''broken parser'' sample_dead
       = Inr (already, d1)
     \<and> job_by_id (as_db (fold (batch_apply default_settings) [BlindBatch sample_ctx (sample_principal []) None 25,
          CategoryBatch sample_ctx (sample_principal []) (\<lambda>_. \<lparr>io_applied = True, io_raised = False, io_undone = False\<rparr>) ''replay_safe'' None 10 (Some 60)]
          \<lparr>as_db = d1, as_hooks = [], as_redis = no_schedules\<rparr>)) 2 = Some j
     \<and> j_status j = DEAD_LETTER \<and> j_remediation_hint j = Some human_required"
proof -
  obtain already d1 where m: "mark_dlq_permanent default_settings sample_ctx (sample_principal []) 2 ''broken parser'' sample_dead
      = Inr (already, d1)" "db_inv default_settings d1" by (rule sample_marked)
  let ?s = "\<lparr>as_db = d1, as_hooks = [], as_redis = no_schedules\<rparr>"
  let ?bs = "[BlindBatch sample_ctx (sample_principal []) None 25,
      CategoryBatch sample_ctx (sample_principal []) (\<lambda>_. \<lparr>io_applied = True, io_raised = False, io_undone = False\<rparr>) ''replay_safe'' None 10 (Some 60)]"
  have s: "as_db ?s = d1" and b: "list_all (\<lambda>b. c_has_dep_repo (batch_ctx b)) ?bs" by (simp_all add: sample_ctx_def)
  from fence_holds [OF m s b] show ?thesis using m(1) by blast
qed

section \<open>Scheduling\<close>

lemma schedule_audit_simps [simp]:
  "audit_logs (schedule_audit ctx p i delay t extra d) \<noteq> audit_logs d" "jobs (schedule_audit ctx p i delay t extra d) = jobs d"
  by (simp_all add: schedule_audit_def audit_log_write_def Let_def)

text \<open>
  A delayed replay is armed exactly when it is recorded: when the scheduling succeeds, the
  job is in the scheduler's set at its time and the audit trail has gained one \<open>job.replay_scheduled\<close>
  row; when Redis raises, the row is gone and, provided the compensation went through or the write never
  arrived, nothing new is armed. The jobs themselves are not touched.
\<close>

theorem scheduled_iff_audited:
  assumes "schedule_one_audited ctx p io i delay extra s = (r, s')" "io_undone io \<or> \<not> io_applied io"
    and "zscore (scheduled_z (as_redis s)) (replay_member (pr_tenant_id p, pr_id p, i)) = None"
  shows "(zscore (scheduled_z (as_redis s')) (replay_member (pr_tenant_id p, pr_id p, i)) \<noteq> None
        \<longleftrightarrow> audit_logs (as_db s') \<noteq> audit_logs (as_db s))
    \<and> (\<not> isl r \<longleftrightarrow> audit_logs (as_db s') \<noteq> audit_logs (as_db s))
    \<and> (\<forall>t. r = Inr t \<longrightarrow> t = c_now ctx + of_int delay
         \<and> zscore (scheduled_z (as_redis s')) (replay_member (pr_tenant_id p, pr_id p, i)) = Some t)
    \<and> jobs (as_db s') = jobs (as_db s)"
  using assms
  by (auto simp: schedule_one_audited_def Let_def arm_replay_def cancel_scheduled_replay_def zscore_zadd zscore_zrem
      split: if_splits)

theorem scheduled_iff_audited_witness:
  "zscore (scheduled_z (as_redis (snd (schedule_one_audited sample_ctx (sample_principal [])
     \<lparr>io_applied = True, io_raised = True, io_undone = True\<rparr> 2 60 []
     \<lparr>as_db = sample_dead, as_hooks = [], as_redis = no_schedules\<rparr>)))) (replay_member (7, 4, 2)) = None"
proof -
  let ?io = "\<lparr>io_applied = True, io_raised = True, io_undone = True\<rparr>"
    and ?s = "\<lparr>as_db = sample_dead, as_hooks = [], as_redis = no_schedules\<rparr>"
  obtain r s' where h: "schedule_one_audited sample_ctx (sample_principal []) ?io 2 60 [] ?s = (r, s')" by fastforce
  have p: "pr_tenant_id (sample_principal []) = 7" "pr_id (sample_principal []) = 4" by (simp_all add: sample_principal_def)
  have "isl r" using h by (auto simp: schedule_one_audited_def Let_def)
  moreover have "zscore (scheduled_z (as_redis ?s)) m = None" for m by (simp add: zscore_def no_schedules_def)
  ultimately show ?thesis using scheduled_iff_audited [OF h, unfolded p] h by auto
qed

end
