(* ===== verification/Kafka_Consumer.thy ===== *)
theory Kafka_Consumer
  imports Models
begin

text \<open>
  The base Kafka consumer, \<open>workers/kafka_consumer.py\<close>, the topic schema registry,
  \<open>workers/schema_registry.py\<close>, and the chaos tools that stop and restart a group
  (\<open>mcp/tools/chaos/kill_consumer.py\<close>, \<open>mcp/tools/actions/restart_consumer_group.py\<close>).

  The broker is not part of the repository. What the consumer relies on is written into the
  state and the steps: a partition is an append-only list of records at offsets 0, 1, ...; an
  assigned consumer has a position per partition; \<open>getmany\<close> hands out the next records and moves
  the position past them; an assignment starts at the committed offset, or at the beginning
  (\<open>auto_offset_reset = earliest\<close>); \<open>seek\<close> raises when the partition is no longer assigned. Two
  consumers may believe to own a partition at the same time. The pauses of the loop are left out.
\<close>

section \<open>Schema registry (\<open>workers/schema_registry.py\<close>)\<close>

definition topic_fields :: "settings \<Rightarrow> (string \<times> string) list" where
  "topic_fields cfg =
     [(''job_submitted'', kafka_topic_job_submitted cfg), (''job_progress'', kafka_topic_job_progress cfg),
      (''job_completed'', kafka_topic_job_completed cfg), (''job_failed'', kafka_topic_job_failed cfg),
      (''job_cancelled'', kafka_topic_job_cancelled cfg), (''job_dlq'', kafka_topic_job_dlq cfg)]"

definition shared_schema :: "string \<Rightarrow> string option" where
  "shared_schema = map_of [(''job_dlq'', ''job_failed'')]"

definition schema_file :: "string \<Rightarrow> string" where
  "schema_file suffix = (case shared_schema suffix of None \<Rightarrow> suffix | Some stem \<Rightarrow> stem) @ ''.schema.json''"

text \<open>Later fields overwrite earlier ones of the same topic, as in a dict.\<close>

definition topic_schema_files :: "settings \<Rightarrow> string \<rightharpoonup> string" where
  "topic_schema_files cfg = fold (\<lambda>(suffix, topic) m. m(topic \<mapsto> schema_file suffix)) (topic_fields cfg) Map.empty"

text \<open>
  A validator is what \<open>Draft202012Validator(schema).validate\<close> does with a payload: nothing, or a
  \<open>ValidationError\<close> with its message. \<open>files\<close> is the schema directory.
\<close>

type_synonym validator = "json \<Rightarrow> string option"

definition load_all :: "(string \<rightharpoonup> validator) \<Rightarrow> settings \<Rightarrow> string list + (string \<rightharpoonup> validator)" where
  "load_all files cfg =
     (let topics = remdups (map snd (topic_fields cfg));
          missing = filter (\<lambda>t. files (the (topic_schema_files cfg t)) = None) topics
      in if missing \<noteq> [] then Inl missing
         else Inr (\<lambda>t. case topic_schema_files cfg t of None \<Rightarrow> None | Some f \<Rightarrow> files f))"

datatype schema_error = UnknownTopicError string | SchemaValidationFailed string string

definition validate_schema :: "(string \<rightharpoonup> validator) \<Rightarrow> string \<Rightarrow> json \<Rightarrow> schema_error option" where
  "validate_schema validators topic payload =
     (case validators topic of
        None \<Rightarrow> Some (UnknownTopicError topic)
      | Some v \<Rightarrow> map_option (SchemaValidationFailed topic) (v payload))"

section \<open>The consumer\<close>

type_synonym tp = "string \<times> nat"

record kmessage =
  m_topic :: string
  m_partition :: nat
  m_offset :: nat
  m_key :: "string option"
  m_value :: json

abbreviation m_tp :: "kmessage \<Rightarrow> tp" where
  "m_tp m \<equiv> (m_topic m, m_partition m)"

text \<open>
  One consumer group: the broker's log and committed offsets, the position of every consumer, and
  the state its handlers work on. \<open>k_settled\<close> is a trace for the statements below: the messages
  whose handler returned, and the schema-invalid ones that were dropped.
\<close>

record 's kafka =
  k_log :: "tp \<Rightarrow> (string option \<times> json) list"
  k_committed :: "tp \<Rightarrow> nat option"
  k_position :: "nat \<Rightarrow> tp \<Rightarrow> nat option"
  k_app :: 's
  k_settled :: "(tp \<times> nat) list"

datatype handler_end = HandlerOk | HandlerRaised | HandlerCancelled

text \<open>What the world does during one batch.\<close>

record 's batch_env =
  be_validate :: "string \<Rightarrow> json \<Rightarrow> schema_error option"
  be_handle :: "kmessage \<Rightarrow> 's \<Rightarrow> handler_end \<times> 's"
  be_commit_ok :: "kmessage \<Rightarrow> bool"
  be_revoked :: "kmessage \<Rightarrow> bool"

datatype message_end = Processed bool | MessageRaised | MessageCancelled

definition commit_offset :: "kmessage \<Rightarrow> 's kafka \<Rightarrow> 's kafka" where
  "commit_offset m s = s\<lparr>k_committed := (k_committed s)(m_tp m \<mapsto> Suc (m_offset m))\<rparr>"

definition settle :: "kmessage \<Rightarrow> 's kafka \<Rightarrow> 's kafka" where
  "settle m s = s\<lparr>k_settled := (m_tp m, m_offset m) # k_settled s\<rparr>"

definition process_one :: "'s batch_env \<Rightarrow> kmessage \<Rightarrow> 's kafka \<Rightarrow> message_end \<times> 's kafka" where
  "process_one e m s =
     (if be_validate e (m_topic m) (m_value m) \<noteq> None
      then (if be_commit_ok e m then (Processed True, commit_offset m (settle m s))
            else (MessageRaised, settle m s))
      else (case be_handle e m (k_app s) of
              (HandlerOk, a) \<Rightarrow>
                (let s1 = settle m (s\<lparr>k_app := a\<rparr>)
                 in if be_commit_ok e m then (Processed True, commit_offset m s1) else (Processed False, s1))
            | (HandlerRaised, a) \<Rightarrow> (Processed False, s\<lparr>k_app := a\<rparr>)
            | (HandlerCancelled, a) \<Rightarrow> (MessageCancelled, s\<lparr>k_app := a\<rparr>)))"

text \<open>A failed \<open>seek\<close> is swallowed; the partition is not this consumer's any more.\<close>

definition seek :: "'s batch_env \<Rightarrow> nat \<Rightarrow> tp \<Rightarrow> kmessage \<Rightarrow> 's kafka \<Rightarrow> 's kafka" where
  "seek e c tp m s =
     s\<lparr>k_position := (k_position s)(c := (k_position s c)(tp := if be_revoked e m then None else Some (m_offset m)))\<rparr>"

datatype batch_end = BatchDone bool | BatchRaised | BatchCancelled

fun process_partition :: "'s batch_env \<Rightarrow> nat \<Rightarrow> tp \<Rightarrow> kmessage list \<Rightarrow> 's kafka \<Rightarrow> batch_end \<times> 's kafka" where
  "process_partition e c tp [] s = (BatchDone False, s)"
| "process_partition e c tp (m # ms) s =
     (case process_one e m s of
        (Processed True, s1) \<Rightarrow> process_partition e c tp ms s1
      | (Processed False, s1) \<Rightarrow> (BatchDone True, seek e c tp m s1)
      | (MessageRaised, s1) \<Rightarrow> (BatchRaised, s1)
      | (MessageCancelled, s1) \<Rightarrow> (BatchCancelled, s1))"

fun process_batch :: "'s batch_env \<Rightarrow> nat \<Rightarrow> (tp \<times> kmessage list) list \<Rightarrow> 's kafka \<Rightarrow> batch_end \<times> 's kafka" where
  "process_batch e c [] s = (BatchDone False, s)"
| "process_batch e c ((tp, ms) # records) s =
     (case process_partition e c tp ms s of
        (BatchDone f, s1) \<Rightarrow>
          (case process_batch e c records s1 of
             (BatchDone g, s2) \<Rightarrow> (BatchDone (f \<or> g), s2)
           | r \<Rightarrow> r)
      | r \<Rightarrow> r)"

subsection \<open>One turn of the loop\<close>

definition message_at :: "'s kafka \<Rightarrow> tp \<Rightarrow> nat \<Rightarrow> kmessage" where
  "message_at s tp off = \<lparr>m_topic = fst tp, m_partition = snd tp, m_offset = off,
     m_key = fst (k_log s tp ! off), m_value = snd (k_log s tp ! off)\<rparr>"

text \<open>What \<open>getmany\<close> returned: up to the given number of records of each partition, 10 in all.\<close>

definition next_records :: "'s kafka \<Rightarrow> nat \<Rightarrow> tp \<times> nat \<Rightarrow> tp \<times> kmessage list" where
  "next_records s c = (\<lambda>(tp, n). (tp,
     case k_position s c tp of
       None \<Rightarrow> []
     | Some p \<Rightarrow> map (message_at s tp) [p ..< min (p + n) (length (k_log s tp))]))"

definition getmany :: "nat \<Rightarrow> (tp \<times> nat) list \<Rightarrow> 's kafka \<Rightarrow> (tp \<times> kmessage list) list \<times> 's kafka" where
  "getmany c wanted s =
     (let records = map (next_records s c) wanted
      in (records, s\<lparr>k_position := (k_position s)(c := (\<lambda>tp.
            case map_of records tp of
              None \<Rightarrow> k_position s c tp
            | Some ms \<Rightarrow> map_option (\<lambda>p. p + length ms) (k_position s c tp)))\<rparr>))"

datatype fetch = Fetched "(tp \<times> nat) list" | FetchTimeout | FetchRaised | FetchCancelled

record consumer_proc =
  cp_started :: bool
  cp_running :: bool
  cp_chaos_killed :: bool
  cp_restarting :: bool
  cp_last_poll_at :: "time option"

definition consumer_start :: "consumer_proc \<Rightarrow> consumer_proc" where
  "consumer_start p = p\<lparr>cp_started := True, cp_running := True, cp_chaos_killed := False\<rparr>"

definition consumer_stop :: "nat \<Rightarrow> consumer_proc \<times> 's kafka \<Rightarrow> consumer_proc \<times> 's kafka" where
  "consumer_stop c = (\<lambda>(p, s). (p\<lparr>cp_running := False, cp_started := False\<rparr>,
     s\<lparr>k_position := (k_position s)(c := (\<lambda>_. None))\<rparr>))"

datatype turn = Again | Leave

text \<open>\<open>killed\<close> is what \<open>_check_chaos_kill\<close> answers, asked only with chaos enabled.\<close>

definition run_turn ::
    "bool \<Rightarrow> bool \<Rightarrow> time \<Rightarrow> fetch \<Rightarrow> 's batch_env \<Rightarrow> nat \<Rightarrow> consumer_proc \<times> 's kafka \<Rightarrow> turn \<times> consumer_proc \<times> 's kafka" where
  "run_turn chaos_enabled killed now fetch e c = (\<lambda>(p, s).
     if \<not> cp_running p then (Leave, p, s)
     else if chaos_enabled \<and> killed then (Leave, p\<lparr>cp_chaos_killed := True\<rparr>, s)
     else (let p1 = p\<lparr>cp_last_poll_at := Some now\<rparr>
           in case fetch of
                FetchTimeout \<Rightarrow> (Again, p1, s)
              | FetchRaised \<Rightarrow> (Again, p1, s)
              | FetchCancelled \<Rightarrow> (Leave, p1, s)
              | Fetched wanted \<Rightarrow>
                  (let (records, s1) = getmany c wanted s
                   in case process_batch e c records s1 of
                        (BatchDone _, s2) \<Rightarrow> (Again, p1, s2)
                      | (BatchRaised, s2) \<Rightarrow> (Again, p1, s2)
                      | (BatchCancelled, s2) \<Rightarrow> (Leave, p1, s2))))"

subsection \<open>Lag\<close>

definition sum_partition_lag :: "(tp \<Rightarrow> nat option) \<Rightarrow> (tp \<Rightarrow> nat option) \<Rightarrow> tp list \<Rightarrow> nat" where
  "sum_partition_lag end_offsets committed assignment =
     sum_list (map (\<lambda>tp. let e = (case end_offsets tp of None \<Rightarrow> 0 | Some n \<Rightarrow> n)
                         in case committed tp of None \<Rightarrow> e | Some n \<Rightarrow> e - n) assignment)"

datatype lag_query = LagAnswered "tp \<Rightarrow> nat option" | LagTimedOut | LagRaised

definition consumer_lag :: "lag_query \<Rightarrow> tp list \<Rightarrow> consumer_proc \<Rightarrow> 's kafka \<Rightarrow> nat option" where
  "consumer_lag q assignment p s =
     (if \<not> cp_started p \<or> cp_restarting p then None
      else if assignment = [] then None
      else (case q of
              LagAnswered end_offsets \<Rightarrow> Some (sum_partition_lag end_offsets (k_committed s) assignment)
            | LagTimedOut \<Rightarrow> None
            | LagRaised \<Rightarrow> None))"

section \<open>Delivery\<close>

text \<open>Everything of the partition below an offset has been settled.\<close>

definition behind :: "tp \<Rightarrow> nat \<Rightarrow> 's kafka \<Rightarrow> bool" where
  "behind tp n s \<longleftrightarrow> (\<forall>off < n. (tp, off) \<in> set (k_settled s))"

lemma behind_mono: "behind tp n s \<Longrightarrow> set (k_settled s) \<subseteq> set (k_settled s') \<Longrightarrow> behind tp n s'"
  by (auto simp: behind_def)

lemma behind_Suc: "behind tp (Suc n) s \<longleftrightarrow> behind tp n s \<and> (tp, n) \<in> set (k_settled s)"
  by (auto simp: behind_def less_Suc_eq)

text \<open>
  Committed offsets and positions have nothing unsettled behind them; while consumer \<open>c\<close> works on a
  batch, its positions on the partitions \<open>R\<close> still to come are exempt.
\<close>

definition mid :: "nat \<Rightarrow> tp set \<Rightarrow> 's kafka \<Rightarrow> bool" where
  "mid c R s \<longleftrightarrow> (\<forall>tp n. k_committed s tp = Some n \<longrightarrow> behind tp n s)
     \<and> (\<forall>c' tp n. k_position s c' tp = Some n \<longrightarrow> c' \<noteq> c \<or> tp \<notin> R \<longrightarrow> behind tp n s)"

abbreviation delivery_inv :: "'s kafka \<Rightarrow> bool" where
  "delivery_inv s \<equiv> mid 0 {} s"

lemma mid_weaken: "mid c R s \<Longrightarrow> R \<subseteq> R' \<Longrightarrow> mid c R' s"
  unfolding mid_def by blast

lemma mid_any: "mid c {} s \<Longrightarrow> mid c' R s"
  unfolding mid_def by blast

lemma mid_tighten:
  assumes "mid c (insert tp R) s" "\<And>n. k_position s c tp = Some n \<Longrightarrow> behind tp n s"
  shows "mid c R s"
  using assms unfolding mid_def by blast

lemma process_one_frame:
  assumes "process_one e m s = (r, s')"
  shows "k_position s' = k_position s" "k_log s' = k_log s" "set (k_settled s) \<subseteq> set (k_settled s')"
    "r = Processed True \<Longrightarrow> (m_tp m, m_offset m) \<in> set (k_settled s')
       \<and> k_committed s' = (k_committed s)(m_tp m \<mapsto> Suc (m_offset m))"
    "r \<noteq> Processed True \<Longrightarrow> k_committed s' = k_committed s"
  using assms
  by (auto simp: process_one_def settle_def commit_offset_def Let_def split: if_splits prod.splits handler_end.splits)

lemma mid_process_one:
  assumes "mid c R s" "process_one e m s = (r, s')" "behind (m_tp m) (m_offset m) s"
  shows "mid c R s' \<and> (r = Processed True \<longrightarrow> behind (m_tp m) (Suc (m_offset m)) s')"
proof -
  note f = process_one_frame [OF assms(2)]
  have b: "behind tp n s'" if "behind tp n s" for tp n using that f(3) by (rule behind_mono)
  have "behind (m_tp m) (Suc (m_offset m)) s'" if "r = Processed True"
    unfolding behind_Suc using that f(4) b [OF assms(3)] by simp
  then show ?thesis
    using assms(1) b f(1,4,5) by (cases "r = Processed True") (fastforce simp: mid_def)+
qed

lemma mid_seek:
  assumes "mid c (insert tp R) s" "behind tp (m_offset m) s"
  shows "mid c R (seek e c tp m s)"
proof -
  have "behind tp' n (seek e c tp m s) = behind tp' n s" for tp' n by (simp add: behind_def seek_def)
  then show ?thesis using assms by (auto simp: mid_def seek_def split: if_splits)
qed

lemma process_partition_mid:
  assumes "process_partition e c tp ms s = (r, s')" "mid c (insert tp R) s" "tp \<notin> R" "behind tp b s"
    and "map m_offset ms = [b ..< b + length ms]" "\<forall>m \<in> set ms. m_tp m = tp"
    and "k_position s c tp \<in> {None, Some (b + length ms)}"
  shows "set (k_settled s) \<subseteq> set (k_settled s')
    \<and> (\<forall>tp'. tp' \<noteq> tp \<longrightarrow> k_position s' c tp' = k_position s c tp')
    \<and> mid c (insert tp R) s' \<and> (\<forall>f. r = BatchDone f \<longrightarrow> mid c R s')"
  using assms
proof (induction ms arbitrary: b s)
  case Nil
  then have "mid c R s" by (intro mid_tighten [OF Nil.prems(2)]) auto
  then show ?case using Nil.prems(1,2) by simp
next
  case (Cons m ms)
  have off: "m_offset m = b" and rest: "map m_offset ms = [Suc b ..< Suc b + length ms]" and tp: "m_tp m = tp"
    using Cons.prems(5,6) by (simp_all add: upt_rec del: upt_Suc)
  obtain q s1 where q: "process_one e m s = (q, s1)" by fastforce
  note fr = process_one_frame [OF q]
  have behind_m: "behind (m_tp m) (m_offset m) s" using Cons.prems(4) by (simp only: off tp)
  have m1: "mid c (insert tp R) s1" "q = Processed True \<Longrightarrow> behind tp (Suc b) s1"
    using mid_process_one [OF Cons.prems(2) q behind_m] by (simp_all add: off tp [simplified])
  have b1: "behind tp b s1" using Cons.prems(4) fr(3) by (rule behind_mono)
  show ?case
  proof (cases q)
    case (Processed ok)
    show ?thesis
    proof (cases ok)
      case True
      have "process_partition e c tp ms s1 = (r, s')" using Cons.prems(1) q Processed True by simp
      from Cons.IH [OF this m1(1) Cons.prems(3) m1(2) rest] Cons.prems(6,7) fr(1,3) Processed True
      show ?thesis by fastforce
    next
      case False
      then have "s' = seek e c tp m s1" using Cons.prems(1) q Processed by simp
      moreover have "mid c R (seek e c tp m s1)" using m1(1) b1 off by (intro mid_seek) simp_all
      ultimately show ?thesis using fr(1,3) by (auto simp: seek_def intro: mid_weaken)
    qed
  qed (use Cons.prems(1) q m1(1) fr(1,3) in auto)
qed

text \<open>A run of records of one partition that starts where consumer \<open>c\<close> has everything settled.\<close>

definition run_from_settled :: "nat \<Rightarrow> 's kafka \<Rightarrow> tp \<times> kmessage list \<Rightarrow> bool" where
  "run_from_settled c s = (\<lambda>(tp, ms). \<exists>b. behind tp b s \<and> map m_offset ms = [b ..< b + length ms]
     \<and> (\<forall>m \<in> set ms. m_tp m = tp) \<and> k_position s c tp \<in> {None, Some (b + length ms)})"

lemma process_batch_mid:
  assumes "process_batch e c records s = (r, s')" "mid c (fst ` set records) s" "distinct (map fst records)"
    and "list_all (run_from_settled c s) records"
  shows "case r of BatchDone _ \<Rightarrow> mid c {} s' | _ \<Rightarrow> mid c UNIV s'"
  using assms
proof (induction e c records s arbitrary: r s' rule: process_batch.induct)
  case (1 e c s)
  then show ?case by auto
next
  case (2 e c tp ms records s)
  obtain b where b: "behind tp b s" "map m_offset ms = [b ..< b + length ms]" "\<forall>m \<in> set ms. m_tp m = tp"
      "k_position s c tp \<in> {None, Some (b + length ms)}"
    using 2(5) by (auto simp: run_from_settled_def)
  obtain q s1 where q: "process_partition e c tp ms s = (q, s1)" by fastforce
  have mid0: "mid c (insert tp (fst ` set records)) s" and new: "tp \<notin> fst ` set records"
    using 2(3,4) by auto
  note p = process_partition_mid [OF q mid0 new b]
  show ?case
  proof (cases q)
    case (BatchDone f)
    have "run_from_settled c s1 x" if "run_from_settled c s x" "x \<in> set records" for x
      using that p new by (auto simp: run_from_settled_def image_iff intro: behind_mono) (metis behind_mono fst_conv)+
    then have "list_all (run_from_settled c s1) records" using 2(5) by (auto simp: list_all_iff)
    moreover obtain r2 s2 where r2: "process_batch e c records s1 = (r2, s2)" by fastforce
    ultimately have "case r2 of BatchDone _ \<Rightarrow> mid c {} s2 | _ \<Rightarrow> mid c UNIV s2"
      using 2(1) [OF q [symmetric] BatchDone r2] p 2(4) BatchDone by simp
    then show ?thesis using 2(2) q BatchDone r2 by (auto split: batch_end.splits)
  qed (use 2(2) q p mid_weaken [where R' = UNIV] in auto)
qed

lemma upt_plus_diff: "[p ..< p + (q - p)] = [p ..< q]"
  by (cases "p \<le> q") simp_all

lemma next_records_run:
  "next_records s c (tp, n) = (tp, ms) \<Longrightarrow>
     (\<forall>m \<in> set ms. m_tp m = tp) \<and> (k_position s c tp = None \<longrightarrow> ms = [])
     \<and> (\<forall>p. k_position s c tp = Some p \<longrightarrow> map m_offset ms = [p ..< p + length ms])"
  by (auto simp: next_records_def message_at_def comp_def upt_plus_diff split: option.splits)

lemma getmany_ready:
  assumes "getmany c wanted s = (records, s1)" "delivery_inv s" "distinct (map fst wanted)"
  shows "map fst records = map fst wanted" "mid c (fst ` set records) s1" "list_all (run_from_settled c s1) records"
proof -
  have rec: "records = map (next_records s c) wanted" using assms(1) by (auto simp: getmany_def Let_def)
  show fst_eq: "map fst records = map fst wanted" by (auto simp: rec next_records_def)
  have s1: "k_position s1 = (k_position s)(c := (\<lambda>tp. case map_of records tp of None \<Rightarrow> k_position s c tp
              | Some ms \<Rightarrow> map_option (\<lambda>p. p + length ms) (k_position s c tp)))"
      "k_committed s1 = k_committed s" "k_settled s1 = k_settled s"
    using assms(1) by (auto simp: getmany_def Let_def)
  have b: "behind tp n s1 = behind tp n s" for tp n by (simp add: behind_def s1(3))
  have "k_position s1 c' tp = k_position s c' tp" if "c' \<noteq> c \<or> tp \<notin> fst ` set records" for c' tp
    using that by (auto simp: s1(1) map_of_eq_None_iff [THEN iffD2])
  then show "mid c (fst ` set records) s1"
    using assms(2) unfolding mid_def b s1(2) by (metis empty_iff)
  have "run_from_settled c s1 (tp, ms)" if mem: "(tp, ms) \<in> set records" for tp ms
  proof -
    have of: "map_of records tp = Some ms" using mem assms(3) fst_eq by simp
    obtain n where "next_records s c (tp, n) = (tp, ms)" using mem by (auto simp: rec next_records_def)
    note run = next_records_run [OF this]
    show ?thesis
    proof (cases "k_position s c tp")
      case None
      then show ?thesis
        using run of by (auto simp: run_from_settled_def s1(1) intro: exI [of _ 0] simp: behind_def)
    next
      case (Some p)
      then have "behind tp p s1" using assms(2) unfolding b mid_def by blast
      then show ?thesis using run of Some by (auto simp: run_from_settled_def s1(1) intro: exI [of _ p])
    qed
  qed
  then show "list_all (run_from_settled c s1) records" by (auto simp: list_all_iff)
qed

lemma process_partition_no_raise:
  assumes "\<And>m. be_validate e (m_topic m) (m_value m) \<noteq> None \<Longrightarrow> be_commit_ok e m"
  shows "fst (process_partition e c tp ms s) \<noteq> BatchRaised"
proof (induction ms arbitrary: s)
  case (Cons m ms)
  have "fst (process_one e m s) \<noteq> MessageRaised"
    using assms [of m] by (auto simp: process_one_def Let_def split: prod.split handler_end.split)
  then show ?case using Cons.IH by (auto split: prod.split message_end.split bool.split)
qed simp

lemma process_batch_no_raise:
  assumes "\<And>m. be_validate e (m_topic m) (m_value m) \<noteq> None \<Longrightarrow> be_commit_ok e m"
  shows "fst (process_batch e c records s) \<noteq> BatchRaised"
proof (induction records arbitrary: s)
  case (Cons x records)
  obtain tp ms where x: "x = (tp, ms)" by fastforce
  have "process_batch e c records s1 \<noteq> (BatchRaised, s2)" for s1 s2 using Cons.IH [of s1] by auto
  then show ?case
    using process_partition_no_raise [OF assms, of c tp ms s]
    by (auto simp: x split: prod.split batch_end.split)
qed simp

text \<open>
  The steps of a group whose batches the world treats as \<open>E\<close> allows: records are produced,
  partitions are assigned and revoked at any time, and any consumer takes a turn of its loop; one
  that leaves the loop is stopped.
\<close>

inductive kafka_step :: "('s batch_env \<Rightarrow> bool) \<Rightarrow> 's kafka \<Rightarrow> 's kafka \<Rightarrow> bool" for E where
  k_produce: "kafka_step E s (s\<lparr>k_log := (k_log s)(tp := k_log s tp @ [record])\<rparr>)"
| k_assign: "kafka_step E s (s\<lparr>k_position := (k_position s)(c := (k_position s c)(tp :=
     Some (case k_committed s tp of None \<Rightarrow> 0 | Some n \<Rightarrow> n)))\<rparr>)"
| k_revoke: "kafka_step E s (s\<lparr>k_position := (k_position s)(c := (k_position s c)(tp := None))\<rparr>)"
| k_turn: "E e \<Longrightarrow> distinct (map fst wanted) \<Longrightarrow> f = Fetched wanted \<or> f = FetchTimeout \<or> f = FetchRaised \<Longrightarrow>
     run_turn chaos killed now f e c (p, s) = (Again, p', s') \<Longrightarrow> kafka_step E s s'"
| k_leave: "E e \<Longrightarrow> distinct (map fst wanted) \<Longrightarrow> f = Fetched wanted \<or> f = FetchCancelled \<Longrightarrow>
     run_turn chaos killed now f e c (p, s) = (Leave, p', s') \<Longrightarrow> kafka_step E s (snd (consumer_stop c (p', s')))"

inductive kafka_reachable :: "('s batch_env \<Rightarrow> bool) \<Rightarrow> 's kafka \<Rightarrow> 's kafka \<Rightarrow> bool" for E s0 where
  kr_init: "kafka_reachable E s0 s0"
| kr_step: "kafka_reachable E s0 s \<Longrightarrow> kafka_step E s s' \<Longrightarrow> kafka_reachable E s0 s'"

definition fresh_group :: "'s \<Rightarrow> 's kafka" where
  "fresh_group a = \<lparr>k_log = (\<lambda>_. []), k_committed = (\<lambda>_. None), k_position = (\<lambda>_ _. None), k_app = a, k_settled = []\<rparr>"

lemma delivery_inv_fresh: "delivery_inv (fresh_group a)"
  by (simp add: mid_def fresh_group_def)

lemma delivery_inv_stop: "mid c UNIV s \<Longrightarrow> delivery_inv (snd (consumer_stop c (p, s)))"
  by (auto simp: mid_def consumer_stop_def behind_def)

lemma run_turn_delivery:
  assumes "run_turn chaos killed now f e c (p, s) = (t, p', s')" "delivery_inv s"
    and "\<And>wanted. f = Fetched wanted \<Longrightarrow> distinct (map fst wanted)"
    and "\<And>m. be_validate e (m_topic m) (m_value m) \<noteq> None \<Longrightarrow> be_commit_ok e m"
  shows "mid c UNIV s' \<and> (t = Again \<longrightarrow> delivery_inv s')"
proof (cases "f = Fetched (case f of Fetched w \<Rightarrow> w) \<and> cp_running p \<and> \<not> (chaos \<and> killed)")
  case True
  define w where "w = (case f of Fetched w \<Rightarrow> w)"
  obtain records s1 where g: "getmany c w s = (records, s1)" by fastforce
  obtain r s2 where r: "process_batch e c records s1 = (r, s2)" by fastforce
  have f: "f = Fetched w" "distinct (map fst w)" using True assms(3) by (auto simp: w_def)
  note ready = getmany_ready [OF g assms(2) f(2)]
  have "case r of BatchDone _ \<Rightarrow> mid c {} s2 | _ \<Rightarrow> mid c UNIV s2"
    using process_batch_mid [OF r ready(2) _ ready(3)] ready(1) f(2) by simp
  moreover have "r \<noteq> BatchRaised" using process_batch_no_raise [OF assms(4), of c records s1] r by simp
  moreover have "s' = s2" "t = Again \<longleftrightarrow> (\<exists>b. r = BatchDone b) \<or> r = BatchRaised"
    using assms(1) True f(1) g r by (auto simp: run_turn_def Let_def split: batch_end.splits)
  ultimately show ?thesis by (auto intro: mid_any split: batch_end.splits)
next
  case False
  then have "s' = s" using assms(1) by (auto simp: run_turn_def Let_def split: if_splits fetch.splits)
  then show ?thesis using assms(2) by (auto intro: mid_any)
qed

lemma delivery_inv_step:
  assumes "kafka_step E s s'" "delivery_inv s"
    and "\<And>e m. E e \<Longrightarrow> be_validate e (m_topic m) (m_value m) \<noteq> None \<Longrightarrow> be_commit_ok e m"
  shows "delivery_inv s'"
  using assms(1)
proof (cases rule: kafka_step.cases)
  case (k_turn e wanted f chaos killed now c p p')
  then show ?thesis using run_turn_delivery [OF k_turn(4) assms(2) _ assms(3) [OF k_turn(1)]] by auto
next
  case (k_leave e wanted f chaos killed now c p p' s2)
  then show ?thesis using run_turn_delivery [OF k_leave(5) assms(2) _ assms(3) [OF k_leave(2)]] delivery_inv_stop by auto
next
  case (k_assign c tp)
  then show ?thesis using assms(2) unfolding mid_def by (auto simp: behind_def split: option.split)
qed (use assms(2) in \<open>auto simp: mid_def behind_def\<close>)

lemma delivery_inv_reachable:
  assumes "kafka_reachable E s0 s" "delivery_inv s0"
    and "\<And>e m. E e \<Longrightarrow> be_validate e (m_topic m) (m_value m) \<noteq> None \<Longrightarrow> be_commit_ok e m"
  shows "delivery_inv s"
  using assms(1) by induction (use assms(2) delivery_inv_step [OF _ _ assms(3)] in blast)+

lemma kafka_step_mono: "kafka_step E s s' \<Longrightarrow> (\<And>e. E e \<Longrightarrow> E' e) \<Longrightarrow> kafka_step E' s s'"
  by (induction rule: kafka_step.induct) (auto intro: kafka_step.intros)

lemma kafka_reachable_mono: "kafka_reachable E s0 s \<Longrightarrow> (\<And>e. E e \<Longrightarrow> E' e) \<Longrightarrow> kafka_reachable E' s0 s"
  by (induction rule: kafka_reachable.induct) (auto intro: kafka_reachable.intros kafka_step_mono)

subsection \<open>What a consumer's handlers leave behind\<close>

text \<open>
  A client of at-least-once delivery: handling a valid message has an effect, which handling other
  messages (or the same one again) does not undo.
\<close>

locale at_least_once_client =
  fixes E :: "'s batch_env \<Rightarrow> bool"
    and validate :: "string \<Rightarrow> json \<Rightarrow> schema_error option"
    and effect :: "kmessage \<Rightarrow> 's \<Rightarrow> bool"
    and inv :: "'s \<Rightarrow> bool"
  assumes same_schema: "E e \<Longrightarrow> be_validate e = validate"
    and handled: "E e \<Longrightarrow> inv a \<Longrightarrow> validate (m_topic m) (m_value m) = None \<Longrightarrow>
      be_handle e m a = (HandlerOk, a') \<Longrightarrow> effect m a'"
    and kept: "E e \<Longrightarrow> inv a \<Longrightarrow> effect m' a \<Longrightarrow> be_handle e m a = (r, a') \<Longrightarrow> effect m' a'"
    and inv_kept: "E e \<Longrightarrow> inv a \<Longrightarrow> be_handle e m a = (r, a') \<Longrightarrow> inv a'"
begin

definition left_behind :: "'s kafka \<Rightarrow> bool" where
  "left_behind s \<longleftrightarrow> inv (k_app s) \<and> (\<forall>tp off. (tp, off) \<in> set (k_settled s) \<longrightarrow>
     off < length (k_log s tp)
     \<and> (validate (fst tp) (snd (k_log s tp ! off)) = None \<longrightarrow> effect (message_at s tp off) (k_app s)))"

definition logged :: "'s kafka \<Rightarrow> kmessage \<Rightarrow> bool" where
  "logged s m \<longleftrightarrow> m_offset m < length (k_log s (m_tp m)) \<and> m = message_at s (m_tp m) (m_offset m)"

lemma logged_cong: "k_log s' = k_log s \<Longrightarrow> logged s' m = logged s m"
  by (simp add: logged_def message_at_def)

lemma left_app:
  "left_behind s \<Longrightarrow> inv a \<Longrightarrow> (\<And>m. effect m (k_app s) \<Longrightarrow> effect m a) \<Longrightarrow> left_behind (s\<lparr>k_app := a\<rparr>)"
  unfolding left_behind_def message_at_def by simp

lemma left_settle:
  assumes "left_behind s" "logged s m" "validate (m_topic m) (m_value m) = None \<Longrightarrow> effect m (k_app s)"
  shows "left_behind (settle m s)"
proof -
  have m: "message_at s (m_tp m) (m_offset m) = m" "m_offset m < length (k_log s (m_tp m))"
    using assms(2) by (simp_all add: logged_def)
  have "snd (k_log s (m_tp m) ! m_offset m) = m_value m" by (subst m(1) [symmetric]) (simp add: message_at_def)
  then show ?thesis
    using assms(1,3) m by (auto simp: left_behind_def settle_def message_at_def)
qed

lemma left_other:
  "left_behind (s\<lparr>k_position := p\<rparr>) = left_behind s" "left_behind (s\<lparr>k_committed := x\<rparr>) = left_behind s"
  by (simp_all add: left_behind_def message_at_def)

lemma process_one_left:
  assumes "E e" "left_behind s" "logged s m" "process_one e m s = (r, s')"
  shows "left_behind s'"
proof -
  obtain q a where h: "be_handle e m (k_app s) = (q, a)" by fastforce
  have inv: "inv (k_app s)" using assms(2) by (simp add: left_behind_def)
  have app: "left_behind (s\<lparr>k_app := a\<rparr>)"
    by (rule left_app [OF assms(2)]) (use inv_kept [OF assms(1) inv h] kept [OF assms(1) inv _ h] in auto)
  have ok: "left_behind (settle m (s\<lparr>k_app := a\<rparr>))" if "q = HandlerOk"
    by (rule left_settle [OF app])
      (use assms(3) handled [OF assms(1) inv _ h [unfolded that]] in \<open>auto simp: logged_def message_at_def\<close>)
  have "left_behind (settle m s)" if "validate (m_topic m) (m_value m) \<noteq> None"
    by (rule left_settle [OF assms(2,3)]) (use that in simp)
  then show ?thesis
    using assms(4) h app ok
    by (auto simp: process_one_def Let_def commit_offset_def left_other same_schema [OF assms(1)]
        split: if_splits handler_end.splits)
qed

lemma process_partition_left:
  assumes "E e" "left_behind s" "list_all (logged s) ms" "process_partition e c tp ms s = (r, s')"
  shows "left_behind s' \<and> k_log s' = k_log s"
  using assms(2-4)
proof (induction ms arbitrary: s)
  case (Cons m ms)
  obtain q s1 where q: "process_one e m s = (q, s1)" by fastforce
  have s1: "left_behind s1" "k_log s1 = k_log s"
    using process_one_left [OF assms(1) Cons.prems(1) _ q] Cons.prems(2) process_one_frame(2) [OF q] by auto
  then have "list_all (logged s1) ms" using Cons.prems(2) logged_cong [OF s1(2)] by (simp add: list_all_iff)
  with Cons.IH [OF s1(1) this] Cons.prems(3) q s1 show ?case
    by (auto simp: seek_def left_other split: message_end.splits bool.splits)
qed simp

lemma process_batch_left:
  assumes "E e" "left_behind s" "list_all (\<lambda>(tp, ms). list_all (logged s) ms) records"
    and "process_batch e c records s = (r, s')"
  shows "left_behind s' \<and> k_log s' = k_log s"
  using assms(2-4)
proof (induction records arbitrary: s r)
  case (Cons x records)
  obtain tp ms where x: "x = (tp, ms)" by fastforce
  obtain q s1 where q: "process_partition e c tp ms s = (q, s1)" by fastforce
  have s1: "left_behind s1" "k_log s1 = k_log s"
    using process_partition_left [OF assms(1) Cons.prems(1) _ q] Cons.prems(2) by (auto simp: x)
  then have "list_all (\<lambda>(tp, ms). list_all (logged s1) ms) records"
    using Cons.prems(2) logged_cong [OF s1(2)] by (simp add: list_all_iff case_prod_beta)
  with Cons.IH [OF s1(1) this] Cons.prems(3) q s1 show ?case by (auto simp: x split: prod.splits batch_end.splits)
qed simp

lemma run_turn_left:
  assumes "E e" "left_behind s" "run_turn chaos killed now f e c (p, s) = (t, p', s')"
  shows "left_behind s'"
proof (cases "f = Fetched (case f of Fetched w \<Rightarrow> w) \<and> cp_running p \<and> \<not> (chaos \<and> killed)")
  case True
  obtain records s1 where g: "getmany c (case f of Fetched w \<Rightarrow> w) s = (records, s1)" by fastforce
  obtain r s2 where r: "process_batch e c records s1 = (r, s2)" by fastforce
  have s1: "left_behind s1" "k_log s1 = k_log s" using g assms(2) by (auto simp: getmany_def Let_def left_other)
  have "list_all (\<lambda>(tp, ms). list_all (logged s) ms) records"
    using g by (auto simp: getmany_def Let_def next_records_def list_all_iff logged_def message_at_def split: option.splits)
  then have "left_behind s2"
    using process_batch_left [OF assms(1) s1(1) _ r] logged_cong [OF s1(2)] by (simp add: list_all_iff case_prod_beta)
  moreover have "s' = s2" using assms(3) True g r by (auto simp: run_turn_def Let_def split: fetch.splits batch_end.splits)
  ultimately show ?thesis by simp
next
  case False
  then show ?thesis using assms(2,3) by (auto simp: run_turn_def Let_def split: if_splits fetch.splits)
qed

lemma left_step:
  assumes "kafka_step E s s'" "left_behind s"
  shows "left_behind s'"
  using assms(1)
proof (cases rule: kafka_step.cases)
  case (k_produce tp r)
  then show ?thesis using assms(2) by (auto simp: left_behind_def message_at_def nth_append)
next
  case (k_leave e wanted f chaos killed now c p p' s2)
  then show ?thesis using run_turn_left [OF k_leave(2) assms(2) k_leave(5)] by (simp add: consumer_stop_def left_other)
qed (use assms(2) run_turn_left left_other in auto)

lemma left_reachable: "kafka_reachable E (fresh_group a) s \<Longrightarrow> inv a \<Longrightarrow> left_behind s"
  by (induction rule: kafka_reachable.induct) (simp add: left_behind_def fresh_group_def, blast intro: left_step)

lemma committed_effect:
  assumes "kafka_reachable E (fresh_group a) s" "inv a" "delivery_inv s" "k_committed s tp = Some n" "off < n"
  shows "off < length (k_log s tp)
    \<and> (validate (fst tp) (snd (k_log s tp ! off)) = None \<longrightarrow> effect (message_at s tp off) (k_app s))"
  using assms(3-5) left_reachable [OF assms(1,2)] unfolding left_behind_def mid_def behind_def by blast

end

section \<open>Guarantees\<close>

text \<open>
  Property C18. Delivery is at least once: whatever is produced, however partitions move between
  consumers, handlers raise or are cancelled and commits and seeks fail, an offset is committed only
  when every message before it was handled or dropped as schema-invalid, and no consumer's position
  stands past an unsettled message between two turns of its loop. (The commit that steps over a
  schema-invalid message must not itself fail.)
\<close>

theorem at_least_once:
  assumes "kafka_reachable E (fresh_group a) s"
    and "\<And>e m. E e \<Longrightarrow> be_validate e (m_topic m) (m_value m) \<noteq> None \<Longrightarrow> be_commit_ok e m"
    and "k_committed s tp = Some n \<or> k_position s c tp = Some n" "off < n"
  shows "(tp, off) \<in> set (k_settled s)"
  using delivery_inv_reachable [OF assms(1) delivery_inv_fresh assms(2)] assms(3,4)
  unfolding mid_def behind_def by blast

text \<open>A world in which messages end the same way whenever they are tried.\<close>

definition good :: "'s batch_env \<Rightarrow> kmessage \<Rightarrow> bool" where
  "good e m \<longleftrightarrow> be_commit_ok e m
     \<and> (be_validate e (m_topic m) (m_value m) \<noteq> None \<or> (\<forall>a. fst (be_handle e m a) = HandlerOk))"

definition bad :: "'s batch_env \<Rightarrow> kmessage \<Rightarrow> bool" where
  "bad e m \<longleftrightarrow> be_validate e (m_topic m) (m_value m) = None
     \<and> ((\<forall>a. fst (be_handle e m a) = HandlerRaised) \<or> \<not> be_commit_ok e m \<and> (\<forall>a. fst (be_handle e m a) = HandlerOk))"

lemma process_one_good:
  assumes "good e m"
  obtains s' where "process_one e m s = (Processed True, s')" "k_position s' = k_position s"
    "k_committed s' = (k_committed s)(m_tp m \<mapsto> Suc (m_offset m))"
proof -
  have "be_validate e (m_topic m) (m_value m) \<noteq> None \<or> fst (be_handle e m (k_app s)) = HandlerOk" "be_commit_ok e m"
    using assms by (auto simp: good_def)
  then have "fst (process_one e m s) = Processed True"
    by (cases "be_handle e m (k_app s)") (auto simp: process_one_def Let_def)
  then obtain s' where p: "process_one e m s = (Processed True, s')" by (metis prod.collapse)
  show thesis by (rule that [OF p]) (use process_one_frame [OF p] in auto)
qed

lemma process_one_bad:
  assumes "bad e m"
  obtains s' where "process_one e m s = (Processed False, s')" "k_position s' = k_position s" "k_committed s' = k_committed s"
proof -
  have "fst (be_handle e m (k_app s)) = HandlerRaised \<or> fst (be_handle e m (k_app s)) = HandlerOk \<and> \<not> be_commit_ok e m"
      "be_validate e (m_topic m) (m_value m) = None"
    using assms by (auto simp: bad_def)
  then have "fst (process_one e m s) = Processed False"
    by (cases "be_handle e m (k_app s)") (auto simp: process_one_def Let_def)
  then obtain s' where p: "process_one e m s = (Processed False, s')" by (metis prod.collapse)
  show thesis by (rule that [OF p]) (use process_one_frame [OF p] in auto)
qed

definition reached :: "'s batch_env \<Rightarrow> kmessage list \<Rightarrow> nat" where
  "reached e ms = length (takeWhile (good e) ms)"

definition own_position :: "'s batch_env \<Rightarrow> kmessage list \<Rightarrow> nat option \<Rightarrow> nat option" where
  "own_position e ms old =
     (if reached e ms = length ms then old
      else if be_revoked e (ms ! reached e ms) then None else Some (m_offset (ms ! reached e ms)))"

definition own_commit :: "'s batch_env \<Rightarrow> kmessage list \<Rightarrow> nat option \<Rightarrow> nat option" where
  "own_commit e ms old = (if reached e ms = 0 then old else Some (Suc (m_offset (ms ! (reached e ms - 1)))))"

lemma good_not_bad: "good e m \<Longrightarrow> \<not> bad e m"
  by (auto simp: good_def bad_def)

lemma process_partition_own:
  assumes "\<forall>m \<in> set ms. m_tp m = tp \<and> (good e m \<or> bad e m)" "process_partition e c tp ms s = (r, s')"
  shows "r = BatchDone (\<exists>m \<in> set ms. bad e m)
    \<and> k_committed s' = (k_committed s)(tp := own_commit e ms (k_committed s tp))
    \<and> k_position s' = (k_position s)(c := (k_position s c)(tp := own_position e ms (k_position s c tp)))"
  using assms
proof (induction ms arbitrary: s)
  case Nil
  then show ?case by (simp add: own_commit_def own_position_def reached_def)
next
  case (Cons m ms)
  have tp: "m_tp m = tp" using Cons.prems(1) by simp
  show ?case
  proof (cases "good e m")
    case True
    from process_one_good [OF this, of s] obtain s1 where s1: "process_one e m s = (Processed True, s1)"
      "k_position s1 = k_position s" "k_committed s1 = (k_committed s)(m_tp m \<mapsto> Suc (m_offset m))" .
    have r: "reached e (m # ms) = Suc (reached e ms)" using True by (simp add: reached_def)
    have "own_commit e (m # ms) old = own_commit e ms (Some (Suc (m_offset m)))" for old
      by (simp add: own_commit_def r nth_Cons')
    moreover have "own_position e (m # ms) old = own_position e ms old" for old by (simp add: own_position_def r)
    ultimately show ?thesis
      using Cons.IH [of s1] Cons.prems s1 tp good_not_bad [OF True] by auto
  next
    case False
    then have "bad e m" using Cons.prems(1) by simp
    from process_one_bad [OF this, of s] obtain s1 where s1: "process_one e m s = (Processed False, s1)"
      "k_position s1 = k_position s" "k_committed s1 = k_committed s" .
    have "reached e (m # ms) = 0" using False by (simp add: reached_def)
    then have "own_commit e (m # ms) old = old"
        "own_position e (m # ms) old = (if be_revoked e m then None else Some (m_offset m))" for old
      by (simp_all add: own_commit_def own_position_def)
    then show ?thesis using Cons.prems(2) s1 \<open>bad e m\<close> by (auto simp: seek_def fun_eq_iff)
  qed
qed

lemma process_batch_own:
  assumes "distinct (map fst records)" "process_batch e c records s = (r, s')"
    and "\<forall>(tp, ms) \<in> set records. \<forall>m \<in> set ms. m_tp m = tp \<and> (good e m \<or> bad e m)"
  shows "r = BatchDone (\<exists>(tp, ms) \<in> set records. \<exists>m \<in> set ms. bad e m)
    \<and> (\<forall>tp. tp \<notin> fst ` set records \<longrightarrow> k_committed s' tp = k_committed s tp \<and> k_position s' c tp = k_position s c tp)
    \<and> (\<forall>(tp, ms) \<in> set records. k_committed s' tp = own_commit e ms (k_committed s tp)
         \<and> k_position s' c tp = own_position e ms (k_position s c tp))"
  using assms
proof (induction records arbitrary: s r s')
  case (Cons x records)
  obtain tp ms where x: "x = (tp, ms)" by fastforce
  obtain q s1 where q: "process_partition e c tp ms s = (q, s1)" by fastforce
  have "\<forall>m \<in> set ms. m_tp m = tp \<and> (good e m \<or> bad e m)"
      and st: "\<forall>(tp, ms) \<in> set records. \<forall>m \<in> set ms. m_tp m = tp \<and> (good e m \<or> bad e m)"
    using Cons.prems(3) by (simp_all add: x)
  note own = process_partition_own [OF \<open>\<forall>m \<in> set ms. _\<close> q]
  obtain r2 s2 where r2: "process_batch e c records s1 = (r2, s2)" by fastforce
  have new: "tp \<notin> fst ` set records" and dist: "distinct (map fst records)" using Cons.prems(1) x by simp_all
  note ih = Cons.IH [OF dist r2 st]
  have r: "r = BatchDone ((\<exists>m \<in> set ms. bad e m) \<or> (\<exists>(tp, ms) \<in> set records. \<exists>m \<in> set ms. bad e m))" "s' = s2"
    using Cons.prems(2) q own r2 conjunct1 [OF ih] x by auto
  have frame: "k_committed s1 t = k_committed s t" "k_position s1 c t = k_position s c t" if "t \<noteq> tp" for t
    using own that by simp_all
  have out: "k_committed s2 t = k_committed s1 t" "k_position s2 c t = k_position s1 c t" if "t \<notin> fst ` set records" for t
    using ih that by blast+
  have inn: "k_committed s2 t = own_commit e xs (k_committed s t)" "k_position s2 c t = own_position e xs (k_position s c t)"
    if "(t, xs) \<in> set records" for t xs
  proof -
    have "t \<noteq> tp" using that new by force
    then show "k_committed s2 t = own_commit e xs (k_committed s t)" "k_position s2 c t = own_position e xs (k_position s c t)"
      using bspec [OF conjunct2 [OF conjunct2 [OF ih]] that] frame [OF \<open>t \<noteq> tp\<close>] by auto
  qed
  have "\<forall>(t, xs) \<in> set (x # records). k_committed s2 t = own_commit e xs (k_committed s t)
      \<and> k_position s2 c t = own_position e xs (k_position s c t)"
    using inn out [OF new] own by (auto simp: x)
  moreover have "\<forall>t. t \<notin> fst ` set (x # records) \<longrightarrow> k_committed s2 t = k_committed s t \<and> k_position s2 c t = k_position s c t"
    using out frame by (simp add: x)
  ultimately show ?case by (simp only: r x list.set bex_simps prod.case)
qed simp

text \<open>
  A failing message blocks its own partition and no other. Each partition of a batch is
  committed past its leading messages that succeed (a schema-invalid one counts as such), up to the
  first that fails, to which the consumer seeks back; the loop is told of the failure. What happens on
  one partition does not depend on the others.
\<close>

theorem failure_blocks_own_partition:
  assumes "distinct (map fst records)" "process_batch e c records s = (r, s')" "(tp, ms) \<in> set records"
    and "\<forall>(tp, ms) \<in> set records. \<forall>m \<in> set ms. m_tp m = tp \<and> (good e m \<or> bad e m)"
    and "n = length (takeWhile (good e) ms)"
  shows "k_committed s' tp = (if n = 0 then k_committed s tp else Some (Suc (m_offset (ms ! (n - 1)))))
    \<and> (n < length ms \<longrightarrow> k_position s' c tp = (if be_revoked e (ms ! n) then None else Some (m_offset (ms ! n))))
    \<and> (n = length ms \<longrightarrow> k_position s' c tp = k_position s c tp)
    \<and> r = BatchDone (\<exists>(tp, ms) \<in> set records. \<exists>m \<in> set ms. bad e m)"
  using process_batch_own [OF assms(1,2,4)] assms(3)
  by (auto simp: own_commit_def own_position_def reached_def assms(5))

definition sample_message :: "nat \<Rightarrow> nat \<Rightarrow> kmessage" where
  "sample_message part off = \<lparr>m_topic = ''job.completed'', m_partition = part, m_offset = off, m_key = None, m_value = JInt (int off)\<rparr>"

text \<open>A handler that raises on the payload 1; the payload 7 is schema-invalid.\<close>

definition sample_env :: "bool \<Rightarrow> json list batch_env" where
  "sample_env commit = \<lparr>be_validate = (\<lambda>t v. if v = JInt 7 then Some (SchemaValidationFailed t ''bad'') else None),
     be_handle = (\<lambda>m a. if m_value m = JInt 1 then (HandlerRaised, a) else (HandlerOk, m_value m # a)),
     be_commit_ok = (\<lambda>m. commit \<or> m_value m \<noteq> JInt 7), be_revoked = (\<lambda>m. False)\<rparr>"

definition sample_records :: "(tp \<times> kmessage list) list" where
  "sample_records = [((''job.completed'', 0), [sample_message 0 0, sample_message 0 1, sample_message 0 2]),
     ((''job.completed'', 1), [sample_message 1 6, sample_message 1 7])]"

theorem failure_blocks_own_partition_witness:
  "k_committed (snd (process_batch (sample_env True) 5 sample_records (fresh_group []))) (''job.completed'', 0) = Some 1
   \<and> k_committed (snd (process_batch (sample_env True) 5 sample_records (fresh_group []))) (''job.completed'', 1) = Some 8"
proof -
  have g: "good (sample_env True) (sample_message 0 0)" "bad (sample_env True) (sample_message 0 1)"
      "\<not> good (sample_env True) (sample_message 0 1)" "good (sample_env True) (sample_message 0 2)"
      "good (sample_env True) (sample_message 1 6)" "good (sample_env True) (sample_message 1 7)"
    by (simp_all add: good_def bad_def sample_env_def sample_message_def)
  have st: "\<forall>(tp, ms) \<in> set sample_records. \<forall>m \<in> set ms. m_tp m = tp \<and> (good (sample_env True) m \<or> bad (sample_env True) m)"
    using g by (simp add: sample_records_def) (simp add: sample_message_def)
  have d: "distinct (map fst sample_records)" by (simp add: sample_records_def)
  obtain r s' where p: "process_batch (sample_env True) 5 sample_records (fresh_group []) = (r, s')" by fastforce
  have "k_committed s' (''job.completed'', 0) = Some 1"
    using failure_blocks_own_partition [OF d p _ st refl, of "(''job.completed'', 0)" "[sample_message 0 0, sample_message 0 1, sample_message 0 2]"] g
    by (simp add: sample_records_def) (simp add: sample_message_def)
  moreover have "k_committed s' (''job.completed'', 1) = Some 8"
    using failure_blocks_own_partition [OF d p _ st refl, of "(''job.completed'', 1)" "[sample_message 1 6, sample_message 1 7]"] g
    by (simp add: sample_records_def) (simp add: sample_message_def)
  ultimately show ?thesis by (simp add: p)
qed

subsection \<open>A delivery, and a loss\<close>

definition running_proc :: consumer_proc where
  "running_proc = consumer_start \<lparr>cp_started = False, cp_running = False, cp_chaos_killed = False, cp_restarting = False, cp_last_poll_at = None\<rparr>"

abbreviation tp_a :: tp where "tp_a \<equiv> (''job.completed'', 0)"
abbreviation tp_b :: tp where "tp_b \<equiv> (''job.completed'', 2)"

definition take_turn :: "bool \<Rightarrow> (tp \<times> nat) list \<Rightarrow> json list kafka \<Rightarrow> json list kafka" where
  "take_turn commit wanted s = snd (snd (run_turn True False 0 (Fetched wanted) (sample_env commit) 0 (running_proc, s)))"

lemmas turn_simps =
  take_turn_def run_turn_def running_proc_def consumer_start_def getmany_def next_records_def message_at_def process_one_def
  settle_def commit_offset_def sample_env_def seek_def Let_def

text \<open>One record is produced, its partition assigned to consumer 0, and polled.\<close>

definition one_assigned :: "'s \<Rightarrow> json \<Rightarrow> 's kafka" where
  "one_assigned a v = (fresh_group a)\<lparr>k_log := (\<lambda>_. [])(tp_a := [(None, v)]), k_position := (\<lambda>_. Map.empty)(0 := [tp_a \<mapsto> 0])\<rparr>"

definition one_polled :: "'s batch_env \<Rightarrow> 's \<Rightarrow> json \<Rightarrow> 's kafka" where
  "one_polled e a v = snd (snd (run_turn True False 0 (Fetched [(tp_a, 1)]) e 0 (running_proc, one_assigned a v)))"

definition one_message :: "json \<Rightarrow> kmessage" where
  "one_message v = \<lparr>m_topic = ''job.completed'', m_partition = 0, m_offset = 0, m_key = None, m_value = v\<rparr>"

lemma one_assigned_reachable: "kafka_reachable E (fresh_group a) (one_assigned a v)"
proof -
  let ?s = "(fresh_group a)\<lparr>k_log := (k_log (fresh_group a))(tp_a := k_log (fresh_group a) tp_a @ [(None, v)])\<rparr>"
  have "kafka_reachable E (fresh_group a) ?s" by (rule kr_step [OF kr_init k_produce])
  from kr_step [OF this k_assign [where c = 0 and tp = tp_a]] show ?thesis
    by (simp add: one_assigned_def fresh_group_def)
qed

lemma one_polled:
  assumes "E e" "be_validate e ''job.completed'' v = None" "be_handle e (one_message v) a = (HandlerOk, a')"
    and "be_commit_ok e (one_message v)"
  shows "kafka_reachable E (fresh_group a) (one_polled e a v)" "k_committed (one_polled e a v) tp_a = Some 1"
    "k_app (one_polled e a v) = a'" "message_at (one_polled e a v) tp_a 0 = one_message v"
proof -
  have poll: "run_turn True False 0 (Fetched [(tp_a, 1)]) e 0 (running_proc, one_assigned a v) =
      (Again, running_proc\<lparr>cp_last_poll_at := Some 0\<rparr>, one_polled e a v)"
    and eqs: "k_committed (one_polled e a v) tp_a = Some 1" "k_app (one_polled e a v) = a'"
      "k_log (one_polled e a v) tp_a = [(None, v)]"
    using assms(2-4) by (simp_all add: one_polled_def one_assigned_def one_message_def fresh_group_def turn_simps)
  have "kafka_step E (one_assigned a v) (one_polled e a v)" by (rule k_turn [where wanted = "[(tp_a, 1)]" and E = E and e = e, OF _ _ _ poll]) (use assms(1) in auto)
  then show "kafka_reachable E (fresh_group a) (one_polled e a v)" by (rule kr_step [OF one_assigned_reachable])
  show "k_committed (one_polled e a v) tp_a = Some 1" "k_app (one_polled e a v) = a'" by (rule eqs)+
  show "message_at (one_polled e a v) tp_a 0 = one_message v" by (simp add: message_at_def eqs(3) one_message_def)
qed

theorem at_least_once_witness:
  "k_committed (one_polled (sample_env True) [] (JInt 4)) tp_a = Some 1
   \<and> (tp_a, 0) \<in> set (k_settled (one_polled (sample_env True) [] (JInt 4)))"
proof -
  note polled = one_polled [where E = "\<lambda>e. e = sample_env True" and e = "sample_env True" and v = "JInt 4" and a = "[]" and a' = "[JInt 4]"]
  have p: "kafka_reachable (\<lambda>e. e = sample_env True) (fresh_group []) (one_polled (sample_env True) [] (JInt 4))"
      "k_committed (one_polled (sample_env True) [] (JInt 4)) tp_a = Some 1"
    using polled(1,2) by (simp_all add: sample_env_def one_message_def)
  moreover have "be_commit_ok e m" if "e = sample_env True" for e m using that by (simp add: sample_env_def)
  ultimately show ?thesis using at_least_once [OF p(1), of tp_a 1 0 0] by auto
qed

text \<open>
  The exemption of the commit over a schema-invalid message is needed. That commit stands outside the
  \<open>try\<close> that turns a failure into a seek back: when it raises, the exception leaves the whole batch and
  the loop goes on polling, with the positions of the other partitions already moved past records nobody
  has looked at. Here the second partition's first record is never handled, and the next turn commits
  past it.
\<close>

definition poison_start :: "json list kafka" where
  "poison_start = (fresh_group [])\<lparr>k_log := (\<lambda>_. [])(tp_a := [(None, JInt 7)], tp_b := [(None, JInt 3), (None, JInt 4)]),
     k_position := (\<lambda>_. Map.empty)(0 := Map.empty(tp_a \<mapsto> 0, tp_b \<mapsto> 0))\<rparr>"

lemma poison_start_simps:
  "k_log poison_start tp_a = [(None, JInt 7)]" "k_log poison_start tp_b = [(None, JInt 3), (None, JInt 4)]"
  "k_position poison_start 0 tp_a = Some 0" "k_position poison_start 0 tp_b = Some 0"
  "k_app poison_start = []" "k_settled poison_start = []" "k_committed poison_start = (\<lambda>_. None)"
  by (simp_all add: poison_start_def fresh_group_def)

theorem poison_commit_failure_loses:
  "k_committed (take_turn True [(tp_b, 1)] (take_turn False [(tp_a, 1), (tp_b, 1)] poison_start)) tp_b = Some 2
   \<and> (tp_b, 0) \<notin> set (k_settled (take_turn True [(tp_b, 1)] (take_turn False [(tp_a, 1), (tp_b, 1)] poison_start)))
   \<and> k_app (take_turn True [(tp_b, 1)] (take_turn False [(tp_a, 1), (tp_b, 1)] poison_start)) = [JInt 4]"
  by (simp add: turn_simps poison_start_simps)

end
