(* ===== verification/Supervision.thy ===== *)
theory Supervision
  imports Kafka_Consumer
begin

text \<open>
  Keeping consumers and the worker alive: the chaos kill switch of \<open>workers/kafka_consumer.py\<close> and
  the tools that set and clear it (\<open>mcp/tools/chaos/kill_consumer.py\<close>, \<open>inject_latency.py\<close>,
  \<open>mcp/tools/actions/restart_consumer_group.py\<close>), the consumer supervisor of \<open>workers/dispatcher.py\<close>,
  and the worker supervisor with its liveness report, \<open>workers/supervisor.py\<close>. Redis and the platform
  read one clock. Log lines, metrics and the numbers in the health report's reasons are left out.
\<close>

section \<open>The kill switch\<close>

text \<open>
  The three keys of one group, each with its expiry. The marker's text is the deadline, or something
  \<open>float\<close> does not read as a finite number; the latency's text is an integer, or something \<open>int\<close> does
  not read. The flag's text is never looked at.
\<close>

record kill_keys =
  kk_flag :: "time option"
  kk_marker :: "(time option \<times> time) option"
  kk_latency :: "(int option \<times> time) option"

definition no_kill_keys :: kill_keys where
  "no_kill_keys = \<lparr>kk_flag = None, kk_marker = None, kk_latency = None\<rparr>"

definition live_value :: "time \<Rightarrow> ('a \<times> time) option \<Rightarrow> 'a option" where
  "live_value now slot = (case slot of Some (v, expires) \<Rightarrow> if now < expires then Some v else None | None \<Rightarrow> None)"

definition flag_live :: "time \<Rightarrow> kill_keys \<Rightarrow> bool" where
  "flag_live now ks \<longleftrightarrow> (case kk_flag ks of None \<Rightarrow> False | Some expires \<Rightarrow> now < expires)"

text \<open>\<open>round\<close> to the nearest integer, ties to even.\<close>

definition py_round :: "rat \<Rightarrow> int" where
  "py_round q =
     (let f = \<lfloor>q\<rfloor>; d = q - of_int f
      in if d < 1 / 2 then f else if 1 / 2 < d then f + 1 else if even f then f else f + 1)"

definition milliseconds :: "time \<Rightarrow> time" where
  "milliseconds t = of_int (py_round (t * 1000)) / 1000"

definition sticky_deadline :: "time option option \<Rightarrow> time option" where
  "sticky_deadline raw = (case raw of None \<Rightarrow> None | Some d \<Rightarrow> d)"

definition rearm_sticky_kill :: "bool \<Rightarrow> time \<Rightarrow> time option option \<Rightarrow> kill_keys \<Rightarrow> bool \<times> kill_keys" where
  "rearm_sticky_kill chaos_enabled now marker ks =
     (case sticky_deadline marker of
        None \<Rightarrow> (False, ks)
      | Some deadline \<Rightarrow>
          if deadline - now \<le> 0 then (False, ks)
          else if \<not> chaos_enabled then (False, ks)
          else (True, ks\<lparr>kk_flag := Some (milliseconds deadline)\<rparr>))"

definition read_kill_state :: "bool \<Rightarrow> time \<Rightarrow> kill_keys \<Rightarrow> bool \<times> kill_keys" where
  "read_kill_state chaos_enabled now ks =
     (if flag_live now ks then (True, ks)
      else rearm_sticky_kill chaos_enabled now (live_value now (kk_marker ks)) ks)"

text \<open>The loop's check fails open; the supervisor's raises when Redis does not answer.\<close>

definition check_chaos_kill :: "bool \<Rightarrow> bool \<Rightarrow> time \<Rightarrow> kill_keys \<Rightarrow> bool \<times> kill_keys" where
  "check_chaos_kill redis_ok chaos_enabled now ks = (if redis_ok then read_kill_state chaos_enabled now ks else (False, ks))"

definition check_chaos_kill_strict :: "bool \<Rightarrow> bool \<Rightarrow> time \<Rightarrow> kill_keys \<Rightarrow> bool option \<times> kill_keys" where
  "check_chaos_kill_strict redis_ok chaos_enabled now ks =
     (if redis_ok then (let (killed, ks1) = read_kill_state chaos_enabled now ks in (Some killed, ks1)) else (None, ks))"

definition check_chaos_latency :: "bool \<Rightarrow> time \<Rightarrow> kill_keys \<Rightarrow> int" where
  "check_chaos_latency redis_ok now ks =
     (if redis_ok then (case live_value now (kk_latency ks) of Some (Some ms) \<Rightarrow> ms | _ \<Rightarrow> 0) else 0)"

definition kill_consumer :: "time \<Rightarrow> int \<Rightarrow> bool \<Rightarrow> kill_keys \<Rightarrow> kill_keys" where
  "kill_consumer now ttl_seconds sticky ks =
     (let expires_at = now + of_int ttl_seconds;
          ks1 = ks\<lparr>kk_flag := Some expires_at\<rparr>
      in if sticky then ks1\<lparr>kk_marker := Some (Some (milliseconds expires_at), expires_at)\<rparr> else ks1)"

definition inject_latency :: "time \<Rightarrow> int \<Rightarrow> int \<Rightarrow> kill_keys \<Rightarrow> kill_keys" where
  "inject_latency now latency_ms ttl_seconds ks = ks\<lparr>kk_latency := Some (Some latency_ms, now + of_int ttl_seconds)\<rparr>"

record restart_output =
  kill_key_cleared :: bool
  latency_key_cleared :: bool
  group_recognized :: bool

definition restart_consumer_group :: "string list \<Rightarrow> time \<Rightarrow> string \<Rightarrow> kill_keys \<Rightarrow> restart_output \<times> kill_keys" where
  "restart_consumer_group known_groups now consumer_group ks =
     (\<lparr>kill_key_cleared = flag_live now ks, latency_key_cleared = live_value now (kk_latency ks) \<noteq> None,
       group_recognized = consumer_group \<in> set known_groups\<rparr>,
      ks\<lparr>kk_flag := None, kk_latency := None\<rparr>)"

section \<open>The consumer supervisor\<close>

definition supervisor_max_backoff_seconds :: rat where
  "supervisor_max_backoff_seconds = 30"

text \<open>
  \<open>_restart_consumer\<close>: one entry per attempt, whether \<open>stop\<close> and \<open>start\<close> went through. The answer is
  the delays slept and whether the consumer was started; \<open>False\<close> when the attempts given all failed, in
  which case the loop is still trying.
\<close>

fun restart_attempts :: "rat \<Rightarrow> bool list \<Rightarrow> rat list \<times> bool" where
  "restart_attempts backoff [] = ([], False)"
| "restart_attempts backoff (ok # oks) =
     (if ok then ([], True)
      else (let (ds, started) = restart_attempts (backoff * 2) oks
            in (min backoff supervisor_max_backoff_seconds # ds, started)))"

definition restart_consumer :: "bool list \<Rightarrow> nat \<Rightarrow> consumer_proc \<times> 's kafka \<Rightarrow> (rat list \<times> bool) \<times> consumer_proc \<times> 's kafka" where
  "restart_consumer oks c = (\<lambda>(p, s).
     (let r = restart_attempts 1 oks; (p1, s1) = consumer_stop c (p\<lparr>cp_restarting := True\<rparr>, s)
      in (r, if snd r then ((consumer_start p1)\<lparr>cp_restarting := False\<rparr>, s1) else (p1, s1))))"

datatype supervision = Supervising | HeldDown | SupervisionEnded

text \<open>How \<open>run\<close> ends, and what a look at the kill key finds (\<open>None\<close>: the lookup raised).\<close>

datatype supervisor_event = RunCrashed | RunReturned | KillLookup "bool option"

text \<open>The next state, and whether the consumer is restarted on the way.\<close>

definition supervise_consumer :: "supervisor_event \<Rightarrow> consumer_proc \<Rightarrow> supervision \<Rightarrow> supervision \<times> bool" where
  "supervise_consumer ev p st =
     (case (st, ev) of
        (Supervising, RunCrashed) \<Rightarrow> (Supervising, True)
      | (Supervising, RunReturned) \<Rightarrow> (if cp_chaos_killed p then HeldDown else SupervisionEnded, False)
      | (HeldDown, KillLookup (Some False)) \<Rightarrow> (Supervising, True)
      | _ \<Rightarrow> (st, False))"

section \<open>The worker supervisor\<close>

datatype worker_state = NOT_STARTED | WORKER_RUNNING | RESTARTING | STOPPED

record worker_health =
  wh_state :: worker_state
  wh_last_alive :: "time option"
  wh_last_tick :: "time option"
  wh_restarts :: nat
  wh_last_error :: "string option"

datatype worker_task = Live | Finished

record supervisor =
  sv_health :: worker_health
  sv_task :: "worker_task option"
  sv_supervising :: bool
  sv_tick_seen :: bool
  sv_attempt :: nat
  sv_started :: time

definition boot_supervisor :: supervisor where
  "boot_supervisor = \<lparr>sv_health = \<lparr>wh_state = NOT_STARTED, wh_last_alive = None, wh_last_tick = None, wh_restarts = 0,
     wh_last_error = None\<rparr>, sv_task = None, sv_supervising = False, sv_tick_seen = False, sv_attempt = 0, sv_started = 0\<rparr>"

definition heartbeat :: "time \<Rightarrow> supervisor \<Rightarrow> supervisor" where
  "heartbeat now sv = sv\<lparr>sv_health := (sv_health sv)\<lparr>wh_last_alive := Some now\<rparr>\<rparr>"

definition worker_tick :: "time \<Rightarrow> supervisor \<Rightarrow> supervisor" where
  "worker_tick now sv = sv\<lparr>sv_tick_seen := True, sv_health := (sv_health sv)\<lparr>wh_last_tick := Some now\<rparr>\<rparr>"

definition worker_status :: "time \<Rightarrow> time \<Rightarrow> supervisor \<Rightarrow> bool \<times> string option" where
  "worker_status stale_after now sv =
     (let h = sv_health sv
      in if wh_state h = NOT_STARTED \<or> wh_state h = STOPPED then (False, None)
         else if sv_task sv \<noteq> Some Live then (False, Some ''worker task is not running'')
         else if (case wh_last_alive h of None \<Rightarrow> True | Some t \<Rightarrow> stale_after < now - t) then (False, Some ''no heartbeat'')
         else if (case wh_last_tick h of None \<Rightarrow> False | Some t \<Rightarrow> stale_after < now - t) then (False, Some ''no worker loop tick'')
         else (True, None))"

definition spawn :: "time \<Rightarrow> supervisor \<Rightarrow> supervisor" where
  "spawn now sv =
     (let sv1 = heartbeat now (sv\<lparr>sv_task := Some Live\<rparr>)
      in sv1\<lparr>sv_health := (sv_health sv1)\<lparr>wh_last_tick := (if sv_tick_seen sv then Some now else None)\<rparr>, sv_started := now\<rparr>)"

definition start_worker :: "time \<Rightarrow> supervisor \<Rightarrow> supervisor" where
  "start_worker now sv =
     (spawn now (heartbeat now (sv\<lparr>sv_health := (sv_health sv)\<lparr>wh_state := WORKER_RUNNING, wh_restarts := 0, wh_last_error := None\<rparr>\<rparr>)))
       \<lparr>sv_supervising := True, sv_attempt := 0\<rparr>"

definition stop_worker :: "supervisor \<Rightarrow> supervisor" where
  "stop_worker sv = sv\<lparr>sv_task := None, sv_supervising := False, sv_health := (sv_health sv)\<lparr>wh_state := STOPPED\<rparr>\<rparr>"

datatype worker_end = WorkerCancelled | WorkerRaised string | WorkerReturned

definition on_worker_done :: "worker_end \<Rightarrow> supervisor \<Rightarrow> supervisor" where
  "on_worker_done e sv =
     sv\<lparr>sv_task := Some Finished, sv_health := (sv_health sv)\<lparr>wh_last_error := Some
       (case e of WorkerCancelled \<Rightarrow> ''cancelled'' | WorkerRaised x \<Rightarrow> x | WorkerReturned \<Rightarrow> ''returned'')\<rparr>\<rparr>"

text \<open>The heartbeat loop is the supervisor's watchdog task, cancelled when the supervisor ends.\<close>

definition heartbeat_turn :: "time \<Rightarrow> supervisor \<Rightarrow> supervisor" where
  "heartbeat_turn now sv = (if sv_supervising sv \<and> sv_task sv = Some Live then heartbeat now sv else sv)"

definition restart_backoff_base_seconds :: rat where
  "restart_backoff_base_seconds = 1"

definition restart_backoff_max_seconds :: rat where
  "restart_backoff_max_seconds = 30"

definition stable_run_seconds :: rat where
  "stable_run_seconds = 60"

text \<open>
  Python's \<open>float(n)\<close> of a power of two: exact below \<open>2 ** 1024\<close>, \<open>OverflowError\<close> (\<open>None\<close>) from there on.
\<close>

definition float_of_power :: "nat \<Rightarrow> rat option" where
  "float_of_power k = (if k < 1024 then Some (2 ^ k) else None)"

text \<open>\<open>_backoff_for\<close>; \<open>None\<close> is the \<open>OverflowError\<close> of the conversion, which the cap comes too late to prevent.\<close>

definition backoff_for :: "nat \<Rightarrow> rat option" where
  "backoff_for attempt =
     (if attempt \<le> 1 then Some 0
      else map_option (\<lambda>p. min (restart_backoff_base_seconds * p) restart_backoff_max_seconds) (float_of_power (attempt - 2)))"

text \<open>
  The supervisor notices that the task has ended: the delay it will sleep, and its state while it does.
  \<open>_supervise\<close> catches nothing but a cancellation, so an exception of \<open>_backoff_for\<close> ends it, and its
  watchdog with it, before the health record is touched.
\<close>

definition supervise_notice :: "time \<Rightarrow> supervisor \<Rightarrow> rat option \<times> supervisor" where
  "supervise_notice now sv =
     (let attempt = (if stable_run_seconds \<le> now - sv_started sv then 0 else Suc (sv_attempt sv))
      in case backoff_for attempt of
           None \<Rightarrow> (None, sv\<lparr>sv_attempt := attempt, sv_supervising := False\<rparr>)
         | Some delay \<Rightarrow> (Some delay,
             sv\<lparr>sv_attempt := attempt, sv_health := (sv_health sv)\<lparr>wh_state := RESTARTING, wh_restarts := Suc (wh_restarts (sv_health sv))\<rparr>\<rparr>))"

definition supervise_respawn :: "time \<Rightarrow> supervisor \<Rightarrow> supervisor" where
  "supervise_respawn now sv =
     (let sv1 = spawn now sv in sv1\<lparr>sv_health := (sv_health sv1)\<lparr>wh_state := WORKER_RUNNING\<rparr>\<rparr>)"

section \<open>A sticky kill has an absolute window\<close>

lemma py_round_near: "\<bar>of_int (py_round q) - q\<bar> \<le> 1 / 2"
proof -
  have "q - of_int \<lfloor>q\<rfloor> < 1" "of_int \<lfloor>q\<rfloor> \<le> q" by linarith+
  then show ?thesis by (auto simp: py_round_def Let_def)
qed

lemma py_round_of_int [simp]: "py_round (of_int n) = n"
  by (simp add: py_round_def)

lemma milliseconds_near: "\<bar>milliseconds t - t\<bar> \<le> 1 / 2000"
proof -
  have eq: "milliseconds t - t = (of_int (py_round (t * 1000)) - t * 1000) / 1000" by (simp add: milliseconds_def field_simps)
  show ?thesis unfolding eq abs_divide using py_round_near [of "t * 1000"] by simp
qed

lemma milliseconds_idem [simp]: "milliseconds (milliseconds t) = milliseconds t"
  by (simp add: milliseconds_def)

datatype kill_op = Look bool bool time | LookStrict bool bool time | Restart time

fun kill_step :: "kill_op \<Rightarrow> kill_keys \<Rightarrow> kill_keys" where
  "kill_step (Look redis_ok chaos now) ks = snd (check_chaos_kill redis_ok chaos now ks)"
| "kill_step (LookStrict redis_ok chaos now) ks = snd (check_chaos_kill_strict redis_ok chaos now ks)"
| "kill_step (Restart now) ks = snd (restart_consumer_group [] now [] ks)"

definition window_ok :: "time \<Rightarrow> kill_keys \<Rightarrow> bool" where
  "window_ok expires ks \<longleftrightarrow> kk_marker ks = Some (Some (milliseconds expires), expires)
     \<and> (\<forall>t. kk_flag ks = Some t \<longrightarrow> t \<le> max (milliseconds expires) expires)"

lemma window_read: "window_ok expires ks \<Longrightarrow> window_ok expires (snd (read_kill_state chaos now ks))"
  by (auto simp: window_ok_def read_kill_state_def rearm_sticky_kill_def sticky_deadline_def live_value_def)

interpretation kill_window: inv_step kill_step "window_ok expires"
proof
  fix ks op assume "window_ok expires ks"
  then show "window_ok expires (kill_step op ks)"
    using window_read [of expires ks]
    by (cases op) (auto simp: check_chaos_kill_def check_chaos_kill_strict_def restart_consumer_group_def
        window_ok_def case_prod_beta)
qed

text \<open>
  The window of a sticky kill is absolute. However often consumers and their supervisor
  look, with Redis answering or not, and however often the group is restarted in between, it reads as
  killed at every moment before the end the kill announced and at none after it, up to the rounding of
  the stored deadline to a millisecond. A plain kill ends with the first restart.
\<close>

theorem sticky_window_absolute:
  assumes "expires = began + of_int ttl" "ks = fold kill_step ops (kill_consumer began ttl True old)"
  shows "(t < expires - 1 / 2000 \<longrightarrow> fst (read_kill_state True t ks))
    \<and> (expires + 1 / 2000 \<le> t \<longrightarrow> \<not> fst (read_kill_state chaos t ks))
    \<and> (kk_marker old = None \<longrightarrow>
         \<not> fst (read_kill_state chaos t (snd (restart_consumer_group known now grp (kill_consumer began ttl False old)))))"
proof -
  have "window_ok expires (kill_consumer began ttl True old)" by (simp add: window_ok_def kill_consumer_def assms(1) Let_def)
  then have w: "window_ok expires ks" unfolding assms(2) by (rule kill_window.fold_inv)
  have "fst (read_kill_state True t ks)" if "t < expires - 1 / 2000"
    using w that milliseconds_near [of expires]
    by (auto simp: window_ok_def read_kill_state_def rearm_sticky_kill_def sticky_deadline_def live_value_def)
  moreover have "\<not> fst (read_kill_state chaos t ks)" if "expires + 1 / 2000 \<le> t"
  proof -
    have "milliseconds expires \<le> t" "expires \<le> t" using that abs_le_D1 [OF milliseconds_near [of expires]] by linarith+
    then show ?thesis
      using w by (auto simp: window_ok_def read_kill_state_def rearm_sticky_kill_def sticky_deadline_def live_value_def
          flag_live_def split: option.splits)
  qed
  ultimately show ?thesis
    by (auto simp: read_kill_state_def restart_consumer_group_def kill_consumer_def flag_live_def live_value_def
        rearm_sticky_kill_def sticky_deadline_def Let_def)
qed

theorem sticky_window_absolute_witness:
  "fst (read_kill_state True 200 (fold kill_step [Restart 50, Look True True 60, Restart 100] (kill_consumer 0 300 True no_kill_keys)))
   \<and> \<not> fst (read_kill_state True 301 (fold kill_step [Restart 50, Look True True 60, Restart 100] (kill_consumer 0 300 True no_kill_keys)))"
  using sticky_window_absolute [OF refl refl, where began = 0 and ttl = 300 and old = no_kill_keys
      and ops = "[Restart 50, Look True True 60, Restart 100]" and t = 200]
    sticky_window_absolute [OF refl refl, where began = 0 and ttl = 300 and old = no_kill_keys and chaos = True
      and ops = "[Restart 50, Look True True 60, Restart 100]" and t = 301]
  by simp

section \<open>Restarts and the liveness report\<close>

lemma restart_attempts_eq:
  "restart_attempts b (replicate n False @ oks) =
     (map (\<lambda>i. min (b * 2 ^ i) supervisor_max_backoff_seconds) [0 ..< n] @ fst (restart_attempts (b * 2 ^ n) oks),
      snd (restart_attempts (b * 2 ^ n) oks))"
proof (induction n arbitrary: b)
  case (Suc n)
  have "map (\<lambda>i. min (b * 2 ^ i) supervisor_max_backoff_seconds) [0 ..< Suc n] =
      min b supervisor_max_backoff_seconds # map (\<lambda>i. min (b * 2 * 2 ^ i) supervisor_max_backoff_seconds) [0 ..< n]"
    by (simp add: upt_conv_Cons map_Suc_upt [symmetric] mult.assoc del: upt_Suc map_map) (simp add: comp_def)
  then show ?case using Suc.IH [of "b * 2"] by (simp add: case_prod_beta mult.assoc del: upt_Suc)
qed simp

datatype worker_event =
  Tick time | Beat time | Ends worker_end | Notice time | Respawn time

fun worker_apply :: "worker_event \<Rightarrow> supervisor \<Rightarrow> supervisor" where
  "worker_apply (Tick now) sv = (if sv_task sv = Some Live then worker_tick now sv else sv)"
| "worker_apply (Beat now) sv = heartbeat_turn now sv"
| "worker_apply (Ends e) sv = on_worker_done e sv"
| "worker_apply (Notice now) sv = (if sv_supervising sv then snd (supervise_notice now sv) else sv)"
| "worker_apply (Respawn now) sv = (if sv_supervising sv then supervise_respawn now sv else sv)"

definition dead :: "supervisor \<Rightarrow> bool" where
  "dead sv \<longleftrightarrow> sv_task sv = Some Finished"

definition ticked_by :: "time \<Rightarrow> supervisor \<Rightarrow> bool" where
  "ticked_by t sv \<longleftrightarrow> (\<exists>t'. wh_last_tick (sv_health sv) = Some t' \<and> t' \<le> t)"

definition no_respawn :: "worker_event \<Rightarrow> bool" where
  "no_respawn ev \<longleftrightarrow> (case ev of Respawn _ \<Rightarrow> False | _ \<Rightarrow> True)"

definition no_progress :: "worker_event \<Rightarrow> bool" where
  "no_progress ev \<longleftrightarrow> (case ev of Respawn _ \<Rightarrow> False | Tick _ \<Rightarrow> False | _ \<Rightarrow> True)"

lemma supervise_notice_frame [simp]:
  "sv_task (snd (supervise_notice now sv)) = sv_task sv"
  "wh_last_tick (sv_health (snd (supervise_notice now sv))) = wh_last_tick (sv_health sv)"
  "sv_tick_seen (snd (supervise_notice now sv)) = sv_tick_seen sv"
  by (simp_all add: supervise_notice_def Let_def split: option.split)

lemma dead_fold: "dead sv \<Longrightarrow> list_all no_respawn es \<Longrightarrow> dead (fold worker_apply es sv)"
proof (induction es arbitrary: sv)
  case (Cons ev es)
  then have "dead (worker_apply ev sv)"
    by (cases ev) (simp_all add: dead_def no_respawn_def heartbeat_turn_def on_worker_done_def)
  then show ?case using Cons by simp
qed simp

lemma ticked_fold: "ticked_by t sv \<Longrightarrow> list_all no_progress es \<Longrightarrow> ticked_by t (fold worker_apply es sv)"
proof (induction es arbitrary: sv)
  case (Cons ev es)
  then have "ticked_by t (worker_apply ev sv)"
    by (cases ev) (simp_all add: ticked_by_def no_progress_def heartbeat_turn_def heartbeat_def on_worker_done_def)
  then show ?case using Cons by simp
qed simp

lemma worker_status_dead: "dead sv \<Longrightarrow> \<not> fst (worker_status stale now sv)"
  by (simp add: dead_def worker_status_def Let_def)

lemma worker_status_wedged: "ticked_by t sv \<Longrightarrow> t + stale < now \<Longrightarrow> \<not> fst (worker_status stale now sv)"
  by (auto simp: ticked_by_def worker_status_def Let_def)

lemma backoff_bounds:
  "n < 1026 \<Longrightarrow> \<exists>delay. backoff_for n = Some delay \<and> 0 \<le> delay \<and> delay \<le> 30 \<and> (n \<le> 1 \<longrightarrow> delay = 0)"
  by (auto simp: backoff_for_def float_of_power_def restart_backoff_base_seconds_def restart_backoff_max_seconds_def)

lemma backoff_overflows: "1026 \<le> n \<Longrightarrow> backoff_for n = None"
  by (simp add: backoff_for_def float_of_power_def)

text \<open>The attempts since the last stable run are few enough for the ladder to be a float.\<close>

definition few_attempts :: "time \<Rightarrow> supervisor \<Rightarrow> bool" where
  "few_attempts now sv \<longleftrightarrow> sv_attempt sv < 1025 \<or> stable_run_seconds \<le> now - sv_started sv"

lemma notice_delay:
  assumes "few_attempts now sv"
  shows "\<exists>delay. fst (supervise_notice now sv) = Some delay \<and> 0 \<le> delay \<and> delay \<le> 30
    \<and> (sv_attempt sv = 0 \<or> stable_run_seconds \<le> now - sv_started sv \<longrightarrow> delay = 0)
    \<and> sv_supervising (snd (supervise_notice now sv)) = sv_supervising sv"
proof -
  define n where "n = (if stable_run_seconds \<le> now - sv_started sv then 0 else Suc (sv_attempt sv))"
  have "n < 1026" using assms by (auto simp: n_def few_attempts_def)
  then obtain delay where "backoff_for n = Some delay" "0 \<le> delay" "delay \<le> 30" "n \<le> 1 \<longrightarrow> delay = 0"
    using backoff_bounds by blast
  moreover from this have "fst (supervise_notice now sv) = Some delay" "sv_supervising (snd (supervise_notice now sv)) = sv_supervising sv"
    by (simp_all add: supervise_notice_def Let_def flip: n_def)
  moreover have "n \<le> 1" if "sv_attempt sv = 0 \<or> stable_run_seconds \<le> now - sv_started sv" using that by (auto simp: n_def)
  ultimately show ?thesis by blast
qed

text \<open>
  Property C36. The liveness report cannot be kept green by its own watchdog. From the moment the worker
  task ends until it is spawned again it is reported dead; a worker whose loops stop coming round is
  reported within the staleness bound of their last tick, however many heartbeats the supervisor goes
  on recording. While fewer than 1025 restarts in a row have followed runs of under a minute, the
  supervisor survives the end of the worker: the pause before the respawn never exceeds thirty seconds
  and is nothing for the first failure and after a stable run, and the respawned worker is healthy at
  once, with its tick clock restarted. (With 1025 of them behind it, the next short run overflows the
  ladder's float and ends the supervisor: \<open>backoff_overflow_ends_supervision\<close>.) A consumer that fails to start is retried after
  1, 2, 4, ... and at most thirty seconds until it starts.
\<close>

theorem worker_liveness:
  assumes "sv1 = on_worker_done e sv"
  shows "(list_all no_respawn es \<longrightarrow> \<not> fst (worker_status stale now (fold worker_apply es sv1)))
    \<and> (ticked_by t sv \<and> list_all no_progress es \<and> t + stale < now \<longrightarrow>
         \<not> fst (worker_status stale now (fold worker_apply es sv)))
    \<and> (sv_supervising sv \<and> few_attempts t1 sv \<longrightarrow>
         (\<exists>delay. fst (supervise_notice t1 sv1) = Some delay \<and> 0 \<le> delay \<and> delay \<le> 30
            \<and> (sv_attempt sv = 0 \<or> 60 \<le> t1 - sv_started sv \<longrightarrow> delay = 0))
         \<and> (0 \<le> stale \<longrightarrow> fst (worker_status stale t2 (fold worker_apply [Notice t1, Respawn t2] sv1)))
         \<and> (sv_tick_seen sv \<longrightarrow> ticked_by t2 (fold worker_apply [Notice t1, Respawn t2] sv1)))
    \<and> restart_attempts 1 (replicate n False @ [True]) = (map (\<lambda>i. min (2 ^ i) 30) [0 ..< n], True)"
proof -
  have sv1: "dead sv1" "sv_supervising sv1 = sv_supervising sv" "few_attempts t1 sv1 = few_attempts t1 sv"
    "sv_attempt sv1 = sv_attempt sv" "sv_started sv1 = sv_started sv" "sv_tick_seen sv1 = sv_tick_seen sv"
    by (simp_all add: assms dead_def on_worker_done_def few_attempts_def)
  have "\<not> fst (worker_status stale now (fold worker_apply es sv1))" if "list_all no_respawn es"
    using dead_fold worker_status_dead sv1(1) that by blast
  moreover have "\<not> fst (worker_status stale now (fold worker_apply es sv))"
    if "ticked_by t sv" "list_all no_progress es" "t + stale < now"
    using ticked_fold worker_status_wedged that by blast
  moreover have
    "(\<exists>delay. fst (supervise_notice t1 sv1) = Some delay \<and> 0 \<le> delay \<and> delay \<le> 30
        \<and> (sv_attempt sv = 0 \<or> 60 \<le> t1 - sv_started sv \<longrightarrow> delay = 0))
      \<and> (0 \<le> stale \<longrightarrow> fst (worker_status stale t2 (fold worker_apply [Notice t1, Respawn t2] sv1)))
      \<and> (sv_tick_seen sv \<longrightarrow> ticked_by t2 (fold worker_apply [Notice t1, Respawn t2] sv1))"
    if alive: "sv_supervising sv" "few_attempts t1 sv"
  proof -
    have few: "few_attempts t1 sv1" "sv_supervising sv1" using alive sv1 by simp_all
    obtain delay where n: "fst (supervise_notice t1 sv1) = Some delay" "0 \<le> delay" "delay \<le> 30"
        "sv_attempt sv = 0 \<or> 60 \<le> t1 - sv_started sv \<longrightarrow> delay = 0" "sv_supervising (snd (supervise_notice t1 sv1))"
      using notice_delay [OF few(1)] few(2) sv1(4,5) by (auto simp: stable_run_seconds_def)
    have up: "fold worker_apply [Notice t1, Respawn t2] sv1 = supervise_respawn t2 (snd (supervise_notice t1 sv1))"
      using few(2) n(5) by simp
    show ?thesis unfolding up
      using n(1-4) sv1(6) by (auto simp: supervise_respawn_def spawn_def heartbeat_def worker_status_def ticked_by_def Let_def)
  qed
  ultimately show ?thesis using restart_attempts_eq [of 1 n "[True]"] by (simp add: supervisor_max_backoff_seconds_def)
qed

theorem worker_liveness_witness:
  "\<not> fst (worker_status 60 200 (fold worker_apply [Beat 150, Beat 199] (worker_tick 100 (start_worker 90 boot_supervisor))))
   \<and> fst (supervise_notice 95 (on_worker_done WorkerReturned (start_worker 90 boot_supervisor))) = Some 0"
proof -
  have "ticked_by 100 (worker_tick 100 (start_worker 90 boot_supervisor))" by (simp add: ticked_by_def worker_tick_def)
  moreover have "few_attempts 95 (start_worker 90 boot_supervisor)" "sv_supervising (start_worker 90 boot_supervisor)"
    by (simp_all add: few_attempts_def start_worker_def)
  ultimately show ?thesis
    using worker_liveness [OF refl, of "[Beat 150, Beat 199]" 60 200 WorkerReturned "worker_tick 100 (start_worker 90 boot_supervisor)" 100]
      worker_liveness [OF refl, where e = WorkerReturned and sv = "start_worker 90 boot_supervisor" and ?t1.0 = 95]
    by (auto simp: no_progress_def start_worker_def)
qed

section \<open>Where the ladder overflows\<close>

text \<open>One run of the worker that ends at once, is noticed and is followed by a respawn.\<close>

definition crash_cycle :: "worker_event list" where
  "crash_cycle = [Ends WorkerReturned, Notice 0, Respawn 0]"

lemma crash_cycle_counts:
  assumes "sv_supervising sv" "sv_started sv = 0" "sv_attempt sv < 1025"
  shows "sv_supervising (fold worker_apply crash_cycle sv) \<and> sv_started (fold worker_apply crash_cycle sv) = 0
    \<and> sv_attempt (fold worker_apply crash_cycle sv) = Suc (sv_attempt sv)"
proof -
  obtain delay where "backoff_for (Suc (sv_attempt sv)) = Some delay" using backoff_bounds [of "Suc (sv_attempt sv)"] assms(3) by auto
  then show ?thesis using assms
    by (simp add: crash_cycle_def on_worker_done_def supervise_notice_def supervise_respawn_def spawn_def heartbeat_def
        stable_run_seconds_def Let_def)
qed

lemma crash_cycles:
  "k \<le> 1025 \<Longrightarrow> let sv = fold worker_apply (concat (replicate k crash_cycle)) (start_worker 0 boot_supervisor)
    in sv_supervising sv \<and> sv_started sv = 0 \<and> sv_attempt sv = k"
proof (induction k)
  case 0
  show ?case by (simp add: start_worker_def spawn_def heartbeat_def)
next
  case (Suc k)
  have "concat (replicate (Suc k) crash_cycle) = concat (replicate k crash_cycle) @ crash_cycle"
    by (simp flip: replicate_append_same)
  then show ?case using Suc crash_cycle_counts by (simp add: Let_def)
qed

definition abandoned :: "supervisor \<Rightarrow> bool" where
  "abandoned sv \<longleftrightarrow> dead sv \<and> \<not> sv_supervising sv"

interpretation abandonment: inv_step worker_apply abandoned
proof
  fix sv ev assume "abandoned sv"
  then show "abandoned (worker_apply ev sv)"
    by (cases ev) (simp_all add: abandoned_def dead_def heartbeat_turn_def on_worker_done_def)
qed

text \<open>
  A worker that fails within a minute of every start is not restarted for ever: at the 1026th such failure in
  a row \<open>float(2 ** 1024)\<close> raises before the ladder is capped, the supervisor dies of it, and from then
  on nothing respawns the worker, which is reported dead until the process is restarted.
\<close>

theorem backoff_overflow_ends_supervision:
  "\<not> fst (worker_status stale now (fold worker_apply (concat (replicate 1025 crash_cycle) @ crash_cycle @ es)
     (start_worker 0 boot_supervisor)))"
proof -
  define sv where "sv = fold worker_apply (concat (replicate 1025 crash_cycle)) (start_worker 0 boot_supervisor)"
  have sv: "sv_supervising sv" "sv_started sv = 0" "sv_attempt sv = 1025"
    using crash_cycles [of 1025] by (simp_all only: sv_def Let_def order_refl simp_thms)
  have "backoff_for (Suc (sv_attempt sv)) = None" using backoff_overflows [of "Suc (sv_attempt sv)"] sv(3) by simp
  then have "abandoned (fold worker_apply crash_cycle sv)"
    using sv(1,2) by (simp add: crash_cycle_def on_worker_done_def supervise_notice_def abandoned_def dead_def stable_run_seconds_def Let_def)
  then have "abandoned (fold worker_apply es (fold worker_apply crash_cycle sv))" by (rule abandonment.fold_inv)
  then show ?thesis using worker_status_dead by (simp add: abandoned_def sv_def)
qed

end
