(* ===== verification/Read_Model.thy ===== *)
theory Read_Model
  imports Retry_Queue Job_Repository
begin

text \<open>
  The read-model projector, \<open>workers/read_model.py\<close>: per tenant and per user, one bounded sorted set
  of job ids for each tracked status, with a counter of what the bound evicted. Keys of the legacy
  type and the week-long expiry of idle keys are left out.
\<close>

section \<open>Keys\<close>

definition tracked_statuses :: "string list" where
  "tracked_statuses = [''running'', ''completed'', ''failed'', ''dead_letter'', ''cancelled'']"

definition terminal_statuses :: "string list" where
  "terminal_statuses = [''completed'', ''dead_letter'', ''cancelled'']"

definition event_to_status :: "string \<Rightarrow> string option" where
  "event_to_status = map_of [(''job.progress'', ''running''), (''job.completed'', ''completed''),
     (''job.cancelled'', ''cancelled'')]"

definition read_model_window :: nat where
  "read_model_window = 10000"

definition tenant_key :: "string \<Rightarrow> string \<Rightarrow> string" where
  "tenant_key tenant_id status = ''jobs:tenant:'' @ tenant_id @ '':status:'' @ status"

definition user_key :: "string \<Rightarrow> string \<Rightarrow> string" where
  "user_key user_id status = ''jobs:user:'' @ user_id @ '':status:'' @ status"

text \<open>The counter of a key is stored under the key with \<open>:evicted\<close> appended.\<close>

record read_model =
  rm_views :: "string \<Rightarrow> zset"
  rm_evicted :: "string \<Rightarrow> int"

section \<open>Projection\<close>

text \<open>\<open>ZREMRANGEBYRANK key 0 n-1\<close>: the members of the lowest scores.\<close>

definition lowest :: "nat \<Rightarrow> zset \<Rightarrow> string list" where
  "lowest n z = take n (map fst (sort_key snd (sort_key fst z)))"

definition project :: "string \<Rightarrow> string \<Rightarrow> rat \<Rightarrow> read_model \<Rightarrow> read_model" where
  "project key job_id score rm =
     (let z = zadd job_id score (rm_views rm key);
          overflow = zcard z - read_model_window;
          gone = lowest overflow z
      in if read_model_window < zcard z
         then rm\<lparr>rm_views := (rm_views rm)(key := zrem gone z),
                 rm_evicted := (rm_evicted rm)(key := rm_evicted rm key + int (length gone))\<rparr>
         else rm\<lparr>rm_views := (rm_views rm)(key := z)\<rparr>)"

definition member_count :: "string \<Rightarrow> read_model \<Rightarrow> int" where
  "member_count key rm = int (zcard (rm_views rm key)) + rm_evicted rm key"

definition drop_from :: "string \<Rightarrow> string \<Rightarrow> read_model \<Rightarrow> read_model" where
  "drop_from job_id key rm = rm\<lparr>rm_views := (rm_views rm)(key := zrem [job_id] (rm_views rm key))\<rparr>"

definition move_job :: "rat \<Rightarrow> string \<Rightarrow> string \<Rightarrow> string \<Rightarrow> string \<Rightarrow> read_model \<Rightarrow> read_model" where
  "move_job now tenant_id user_id job_id new_status rm =
     (let cleared = fold (\<lambda>st r. if st = new_status then r
                 else drop_from job_id (user_key user_id st) (drop_from job_id (tenant_key tenant_id st) r))
            tracked_statuses rm
      in project (user_key user_id new_status) job_id now (project (tenant_key tenant_id new_status) job_id now cleared))"

text \<open>\<open>str(value)\<close> of a JSON value.\<close>

fun py_repr_json :: "(rat \<Rightarrow> string) \<Rightarrow> json \<Rightarrow> string" where
  "py_repr_json fr JNull = ''None''"
| "py_repr_json fr (JBool b) = (if b then ''True'' else ''False'')"
| "py_repr_json fr (JInt i) = show_int i"
| "py_repr_json fr (JFloat q) = fr q"
| "py_repr_json fr (JStr s) = py_repr s"
| "py_repr_json fr (JArr xs) = ''['' @ commas (map (py_repr_json fr) xs) @ '']''"
| "py_repr_json fr (JObj d) = ''{'' @ commas (map (\<lambda>kv. py_repr (fst kv) @ '': '' @ py_repr_json fr (snd kv)) d) @ ''}''"
| "py_repr_json fr JOpaque = ''object''"

definition py_str_json :: "(rat \<Rightarrow> string) \<Rightarrow> json \<Rightarrow> string" where
  "py_str_json fr v = (case v of JStr s \<Rightarrow> s | _ \<Rightarrow> py_repr_json fr v)"

text \<open>\<open>int(value)\<close>; \<open>None\<close> is the \<open>TypeError\<close> or \<open>ValueError\<close>.\<close>

definition int_of_json :: "json \<Rightarrow> int option" where
  "int_of_json v =
     (case v of
        JInt i \<Rightarrow> Some i
      | JBool b \<Rightarrow> Some (if b then 1 else 0)
      | JFloat q \<Rightarrow> Some (if 0 \<le> q then \<lfloor>q\<rfloor> else \<lceil>q\<rceil>)
      | JStr s \<Rightarrow> py_int s
      | _ \<Rightarrow> None)"

definition get_or :: "dict \<Rightarrow> string \<Rightarrow> json \<Rightarrow> json" where
  "get_or v k fallback = (case map_of v k of None \<Rightarrow> fallback | Some x \<Rightarrow> x)"

text \<open>
  The status an event stands for: \<open>None\<close> for an event that changes no view; an event name that is a
  list or an object cannot be looked up and raises \<open>TypeError\<close>.
\<close>

definition new_status_of :: "dict \<Rightarrow> app_error + string option" where
  "new_status_of v =
     (case jget v ''event'' of
        JStr e \<Rightarrow>
          if e = ''job.failed''
          then Inr (Some (if jget v ''dead_lettered'' = JBool True then ''dead_letter'' else ''failed''))
          else Inr (event_to_status e)
      | JArr _ \<Rightarrow> Inl TypeError
      | JObj _ \<Rightarrow> Inl TypeError
      | _ \<Rightarrow> Inr None)"

definition in_terminal :: "string \<Rightarrow> string \<Rightarrow> read_model \<Rightarrow> bool" where
  "in_terminal tenant_id job_id rm \<longleftrightarrow>
     (\<exists>st \<in> set terminal_statuses. zscore (rm_views rm (tenant_key tenant_id st)) job_id \<noteq> None)"

definition projector_handle_message :: "(rat \<Rightarrow> string) \<Rightarrow> rat \<Rightarrow> json \<Rightarrow> read_model \<Rightarrow> app_error + read_model" where
  "projector_handle_message fr now value rm =
     (case value of
        JObj v \<Rightarrow>
          if \<not> (truthy (jget v ''job_id'') \<and> truthy (jget v ''user_id'') \<and> truthy (jget v ''tenant_id'')
                 \<and> truthy (jget v ''event'')) then Inr rm
          else (case new_status_of v of
                  Inl e \<Rightarrow> Inl e
                | Inr None \<Rightarrow> Inr rm
                | Inr (Some st) \<Rightarrow>
                    (let tid = py_str_json fr (jget v ''tenant_id''); jid = py_str_json fr (jget v ''job_id'')
                     in if st \<notin> set terminal_statuses \<and> in_terminal tid jid rm then Inr rm
                        else Inr (move_job now tid (py_str_json fr (jget v ''user_id'')) jid st rm)))
      | _ \<Rightarrow> Inr rm)"

definition read_global_stats :: "string \<Rightarrow> read_model \<Rightarrow> (string \<times> int) list" where
  "read_global_stats tenant_id rm = map (\<lambda>st. (st, member_count (tenant_key tenant_id st) rm)) tracked_statuses"

definition read_user_stats :: "string \<Rightarrow> read_model \<Rightarrow> (string \<times> int) list" where
  "read_user_stats user_id rm = map (\<lambda>st. (st, member_count (user_key user_id st) rm)) tracked_statuses"

section \<open>Rebuilding from the jobs table\<close>

text \<open>The rows of a rebuild, and the (scope, status) group of a row.\<close>

definition rebuild_rows :: "uuid option \<Rightarrow> db \<Rightarrow> job list" where
  "rebuild_rows scope d = filter (\<lambda>j. job_status_value (j_status j) \<in> set tracked_statuses
     \<and> (case scope of None \<Rightarrow> True | Some t \<Rightarrow> j_tenant_id j = t)) (jobs d)"

definition group_of :: "(job \<Rightarrow> uuid) \<Rightarrow> job \<Rightarrow> string \<times> string" where
  "group_of col j = (uuid_str (col j), job_status_value (j_status j))"

definition status_counts :: "(job \<Rightarrow> uuid) \<Rightarrow> uuid option \<Rightarrow> db \<Rightarrow> ((string \<times> string) \<times> nat) list" where
  "status_counts col scope d =
     (let rows = rebuild_rows scope d
      in map (\<lambda>g. (g, length (filter (\<lambda>j. group_of col j = g) rows))) (remdups (map (group_of col) rows)))"

definition windowed_members :: "(job \<Rightarrow> uuid) \<Rightarrow> uuid option \<Rightarrow> db \<Rightarrow> string \<times> string \<Rightarrow> (string \<times> rat) list" where
  "windowed_members col scope d g =
     map (\<lambda>j. (uuid_str (j_id j), j_updated_at j))
       (take read_model_window (sort_key (\<lambda>j. - j_updated_at j) (sort_key (\<lambda>j. - int (j_id j))
          (filter (\<lambda>j. group_of col j = g) (rebuild_rows scope d)))))"

definition scan_delete :: "string \<Rightarrow> read_model \<Rightarrow> read_model" where
  "scan_delete prefix rm =
     \<lparr>rm_views = (\<lambda>k. if take (length prefix) k = prefix then [] else rm_views rm k),
      rm_evicted = (\<lambda>k. if take (length prefix) (k @ '':evicted'') = prefix then 0 else rm_evicted rm k)\<rparr>"

definition write_group :: "string \<Rightarrow> nat \<Rightarrow> (string \<times> rat) list \<Rightarrow> read_model \<Rightarrow> read_model" where
  "write_group key n retained rm =
     (let rm1 = rm\<lparr>rm_views := (rm_views rm)(key := fold (\<lambda>(m, s). zadd m s) retained (rm_views rm key))\<rparr>;
          evicted = n - length retained
      in if evicted = 0 then rm1 else rm1\<lparr>rm_evicted := (rm_evicted rm1)(key := int evicted)\<rparr>)"

definition write_groups ::
    "(string \<Rightarrow> string \<Rightarrow> string) \<Rightarrow> (string \<times> string \<Rightarrow> (string \<times> rat) list) \<Rightarrow> ((string \<times> string) \<times> nat) list
      \<Rightarrow> read_model \<Rightarrow> read_model" where
  "write_groups key_for members counts rm =
     fold (\<lambda>(g, n). write_group (key_for (fst g) (snd g)) n (members g)) counts rm"

definition rebuild_read_model :: "uuid option \<Rightarrow> db \<Rightarrow> read_model \<Rightarrow> read_model" where
  "rebuild_read_model scope d rm =
     (let tenant_counts = status_counts j_tenant_id scope d;
          user_counts = status_counts j_user_id scope d;
          emptied = (case scope of
             None \<Rightarrow> scan_delete ''jobs:user:'' (scan_delete ''jobs:tenant:'' rm)
           | Some t \<Rightarrow> fold (\<lambda>(g, n). scan_delete (''jobs:user:'' @ fst g @ '':status:'')) user_counts
                 (scan_delete (''jobs:tenant:'' @ uuid_str t @ '':status:'') rm))
      in write_groups user_key (windowed_members j_user_id scope d) user_counts
           (write_groups tenant_key (windowed_members j_tenant_id scope d) tenant_counts emptied))"

section \<open>Keys do not collide\<close>

definition last_part :: "string \<Rightarrow> string" where
  "last_part k = rev (takeWhile (\<lambda>c. c \<noteq> CHR '':'') (rev k))"

lemma last_part_append: "CHR '':'' \<notin> set s \<Longrightarrow> last_part (xs @ CHR '':'' # s) = s"
proof -
  assume "CHR '':'' \<notin> set s"
  then have "takeWhile (\<lambda>c. c \<noteq> CHR '':'') (rev s @ CHR '':'' # rev xs) = rev s"
    by (subst takeWhile_append2) auto
  then show ?thesis by (simp add: last_part_def)
qed

lemma tracked_no_colon: "st \<in> set tracked_statuses \<Longrightarrow> CHR '':'' \<notin> set st"
  by (auto simp: tracked_statuses_def)

lemma last_part_key:
  "st \<in> set tracked_statuses \<Longrightarrow> last_part (tenant_key t st) = st"
  "st \<in> set tracked_statuses \<Longrightarrow> last_part (user_key t st) = st"
  using last_part_append [OF tracked_no_colon, of st "''jobs:tenant:'' @ t @ '':status''"]
    last_part_append [OF tracked_no_colon, of st "''jobs:user:'' @ t @ '':status''"]
  by (simp_all add: tenant_key_def user_key_def)

lemma key_inject:
  "st \<in> set tracked_statuses \<Longrightarrow> st' \<in> set tracked_statuses \<Longrightarrow> tenant_key t st = tenant_key t' st' \<longleftrightarrow> t = t' \<and> st = st'"
  "st \<in> set tracked_statuses \<Longrightarrow> st' \<in> set tracked_statuses \<Longrightarrow> user_key t st = user_key t' st' \<longleftrightarrow> t = t' \<and> st = st'"
  "tenant_key t st \<noteq> user_key u st'" "user_key u st' \<noteq> tenant_key t st"
  using last_part_key [of st t] last_part_key [of st' t'] by (auto simp: tenant_key_def user_key_def)

section \<open>Views\<close>

lemma fst_zrem: "map fst (zrem ms z) = filter (\<lambda>m. m \<notin> set ms) (map fst z)"
  by (induction z) (auto simp: zrem_def)

lemma lowest_props:
  assumes "zset_ok z"
  shows "distinct (lowest n z)" "set (lowest n z) \<subseteq> fst ` set z" "length (lowest n z) = min n (length z)"
proof -
  have d: "distinct (map fst (sort_key snd (sort_key fst z)))"
    using assms by (simp only: zset_ok_def distinct_map distinct_sort set_sort)
  then show "distinct (lowest n z)" by (simp add: lowest_def)
  show "set (lowest n z) \<subseteq> fst ` set z"
    using set_take_subset [of n "map fst (sort_key snd (sort_key fst z))"] by (auto simp: lowest_def)
  show "length (lowest n z) = min n (length z)" by (auto simp: lowest_def)
qed

lemma zcard_zrem_lowest: "zset_ok z \<Longrightarrow> zcard (zrem (lowest n z) z) = zcard z - n"
proof -
  assume ok: "zset_ok z"
  have "zcard (zrem (lowest n z) z) = length (filter (\<lambda>m. m \<notin> set (lowest n z)) (map fst z))"
    unfolding fst_zrem [symmetric] by (simp add: zcard_def)
  also have "\<dots> = card (fst ` set z - set (lowest n z))"
    using ok distinct_card [of "filter (\<lambda>m. m \<notin> set (lowest n z)) (map fst z)"]
    by (simp add: zset_ok_def) (metis set_diff_eq set_filter list.set_map)
  also have "\<dots> = length z - min n (length z)"
    using lowest_props [OF ok, of n] ok
    by (simp add: card_Diff_subset distinct_card) (metis distinct_card length_map list.set_map zset_ok_def)
  finally show ?thesis by (simp add: zcard_def)
qed

lemma zcard_zadd: "zset_ok z \<Longrightarrow> zcard (zadd m sc z) = (if zscore z m = None then Suc (zcard z) else zcard z)"
  by (induction z) (auto simp: zcard_def zadd_def zscore_def zset_ok_def filter_id_conv split: if_splits, force)

definition views_ok :: "read_model \<Rightarrow> bool" where
  "views_ok rm \<longleftrightarrow> (\<forall>k. zset_ok (rm_views rm k) \<and> zcard (rm_views rm k) \<le> read_model_window)"

text \<open>A job is in at most one of a scope's status views.\<close>

definition exclusive :: "(string \<Rightarrow> string \<Rightarrow> string) \<Rightarrow> read_model \<Rightarrow> bool" where
  "exclusive key rm \<longleftrightarrow>
     (\<forall>scope job_id. \<forall>st \<in> set tracked_statuses. \<forall>st' \<in> set tracked_statuses.
        zscore (rm_views rm (key scope st)) job_id \<noteq> None \<and> zscore (rm_views rm (key scope st')) job_id \<noteq> None \<longrightarrow> st = st')"

definition rm_inv :: "read_model \<Rightarrow> bool" where
  "rm_inv rm \<longleftrightarrow> views_ok rm \<and> exclusive tenant_key rm \<and> exclusive user_key rm"

lemma zcard_zrem_le: "zcard (zrem ms z) \<le> zcard z"
  by (simp add: zcard_def zrem_def)

lemma views_ok_drop: "views_ok rm \<Longrightarrow> views_ok (drop_from j k rm)"
  by (auto simp: views_ok_def drop_from_def zset_ok_rem intro: order.trans [OF zcard_zrem_le])

lemma views_ok_project: "views_ok rm \<Longrightarrow> views_ok (project k j now rm)"
proof -
  assume ok: "views_ok rm"
  let ?z = "zadd j now (rm_views rm k)"
  have z: "zset_ok ?z" using ok by (simp add: views_ok_def zset_ok_add)
  show ?thesis
    using ok z zset_ok_rem [OF z] zcard_zrem_lowest [OF z, of "zcard ?z - read_model_window"]
    by (auto simp: views_ok_def project_def Let_def)
qed

lemma zscore_drop:
  "zscore (rm_views (drop_from j k rm) k') m = (if k' = k \<and> m = j then None else zscore (rm_views rm k') m)"
  by (simp add: drop_from_def zscore_zrem)

lemma zscore_project:
  "zscore (rm_views (project k j now rm) k') m \<noteq> None \<Longrightarrow> zscore (rm_views rm k') m \<noteq> None \<or> k' = k \<and> m = j"
  by (auto simp: project_def Let_def zscore_zrem zscore_zadd split: if_splits)

lemma zscore_project_room:
  assumes "zset_ok (rm_views rm k)" "zcard (rm_views rm k) < read_model_window"
  shows "zscore (rm_views (project k j now rm) k') m = (if k' = k \<and> m = j then Some now else zscore (rm_views rm k') m)"
  using zcard_zadd [OF assms(1), of j now] assms(2) by (auto simp: project_def Let_def zscore_zadd split: if_splits)

lemma count_project:
  assumes "zset_ok (rm_views rm k)"
  shows "member_count k (project k j now rm) =
      member_count k rm + (if zscore (rm_views rm k) j = None then 1 else 0)"
    and "k' \<noteq> k \<Longrightarrow> member_count k' (project k j now rm) = member_count k' rm"
proof -
  let ?z = "zadd j now (rm_views rm k)"
  have z: "zset_ok ?z" using assms by (rule zset_ok_add)
  show "member_count k (project k j now rm) = member_count k rm + (if zscore (rm_views rm k) j = None then 1 else 0)"
    using zcard_zadd [OF assms, of j now] zcard_zrem_lowest [OF z, of "zcard ?z - read_model_window"]
      lowest_props(3) [OF z, of "zcard ?z - read_model_window"]
    by (auto simp: project_def Let_def member_count_def zcard_def split: if_splits)
  show "k' \<noteq> k \<Longrightarrow> member_count k' (project k j now rm) = member_count k' rm"
    by (simp add: project_def Let_def member_count_def)
qed

text \<open>Clearing the other views of a job.\<close>

definition cleared :: "string \<Rightarrow> string \<Rightarrow> string \<Rightarrow> string \<Rightarrow> read_model \<Rightarrow> read_model" where
  "cleared t u j new rm = fold (\<lambda>st r. if st = new then r
     else drop_from j (user_key u st) (drop_from j (tenant_key t st) r)) tracked_statuses rm"

lemma move_job_cleared:
  "move_job now t u j new rm = project (user_key u new) j now (project (tenant_key t new) j now (cleared t u j new rm))"
  by (simp add: move_job_def cleared_def Let_def)

lemma views_ok_cleared: "views_ok rm \<Longrightarrow> views_ok (cleared t u j new rm)"
proof -
  have "views_ok rm \<Longrightarrow> views_ok (fold (\<lambda>st r. if st = new then r
     else drop_from j (user_key u st) (drop_from j (tenant_key t st) r)) sts rm)" for sts
    by (induction sts arbitrary: rm) (auto simp: views_ok_drop)
  then show "views_ok rm \<Longrightarrow> views_ok (cleared t u j new rm)" by (simp add: cleared_def)
qed

lemma zscore_cleared:
  "zscore (rm_views (cleared t u j new rm) k) m =
     (if m = j \<and> (\<exists>st \<in> set tracked_statuses. st \<noteq> new \<and> (k = tenant_key t st \<or> k = user_key u st))
      then None else zscore (rm_views rm k) m)"
proof -
  have "zscore (rm_views (fold (\<lambda>st r. if st = new then r
       else drop_from j (user_key u st) (drop_from j (tenant_key t st) r)) sts rm) k) m =
     (if m = j \<and> (\<exists>st \<in> set sts. st \<noteq> new \<and> (k = tenant_key t st \<or> k = user_key u st))
      then None else zscore (rm_views rm k) m)" for sts
    by (induction sts arbitrary: rm) (auto simp: zscore_drop)
  then show ?thesis by (simp add: cleared_def)
qed

lemma cleared_target:
  assumes "new \<in> set tracked_statuses"
  shows "rm_views (cleared t u j new rm) (tenant_key t new) = rm_views rm (tenant_key t new)"
proof -
  have "set sts \<subseteq> set tracked_statuses \<Longrightarrow> rm_views (fold (\<lambda>st r. if st = new then r
       else drop_from j (user_key u st) (drop_from j (tenant_key t st) r)) sts rm) (tenant_key t new) =
     rm_views rm (tenant_key t new)" for sts
    by (induction sts arbitrary: rm) (auto simp: drop_from_def key_inject assms)
  then show ?thesis by (simp add: cleared_def)
qed

lemma zscore_move:
  assumes "zscore (rm_views (move_job now t u j new rm) k) m \<noteq> None"
  shows "m = j \<and> (k = tenant_key t new \<or> k = user_key u new) \<or>
    zscore (rm_views rm k) m \<noteq> None
      \<and> \<not> (m = j \<and> (\<exists>st \<in> set tracked_statuses. st \<noteq> new \<and> (k = tenant_key t st \<or> k = user_key u st)))"
  using zscore_project [OF assms [unfolded move_job_cleared]]
    zscore_project [of "tenant_key t new" j now "cleared t u j new rm" k m] zscore_cleared [of t u j new rm k m]
  by (auto split: if_splits)

lemma rm_inv_move:
  assumes "rm_inv rm" "new \<in> set tracked_statuses"
  shows "rm_inv (move_job now t u j new rm)"
proof -
  have "views_ok (move_job now t u j new rm)"
    using assms(1) by (simp add: rm_inv_def move_job_cleared views_ok_project views_ok_cleared)
  moreover have "exclusive key (move_job now t u j new rm)"
    if "exclusive key rm" and key: "key = tenant_key \<or> key = user_key" for key
    unfolding exclusive_def
  proof (intro allI ballI impI, elim conjE)
    fix scope m st st'
    assume st: "st \<in> set tracked_statuses" "st' \<in> set tracked_statuses"
      and a: "zscore (rm_views (move_job now t u j new rm) (key scope st)) m \<noteq> None"
      and b: "zscore (rm_views (move_job now t u j new rm) (key scope st')) m \<noteq> None"
    show "st = st'"
      using zscore_move [OF a] zscore_move [OF b] st key that(1) assms(2)
      by (auto simp: key_inject exclusive_def) blast+
  qed
  ultimately show ?thesis using assms(1) by (simp add: rm_inv_def)
qed

section \<open>Consuming events\<close>

definition consume :: "(rat \<Rightarrow> string) \<Rightarrow> rat \<times> json \<Rightarrow> read_model \<Rightarrow> read_model" where
  "consume fr msg rm = (case projector_handle_message fr (fst msg) (snd msg) rm of Inr r \<Rightarrow> r | Inl _ \<Rightarrow> rm)"

lemma new_status_tracked: "new_status_of v = Inr (Some st) \<Longrightarrow> st \<in> set tracked_statuses"
  by (auto simp: new_status_of_def tracked_statuses_def event_to_status_def split: json.splits if_splits)

lemma rm_inv_handle: "rm_inv rm \<Longrightarrow> projector_handle_message fr now v rm = Inr rm' \<Longrightarrow> rm_inv rm'"
  by (auto simp: projector_handle_message_def Let_def rm_inv_move new_status_tracked
      split: json.splits if_splits sum.splits option.splits)

interpretation projector: inv_step "consume fr" rm_inv for fr
  by unfold_locales (auto simp: consume_def rm_inv_handle split: sum.split)

definition empty_read_model :: read_model where
  "empty_read_model = \<lparr>rm_views = (\<lambda>_. []), rm_evicted = (\<lambda>_. 0)\<rparr>"

lemma rm_inv_empty: "rm_inv empty_read_model"
  by (simp add: rm_inv_def views_ok_def exclusive_def empty_read_model_def zset_ok_def zcard_def zscore_def)

text \<open>
  Property C33. The status views stay coherent under any stream of messages, duplicated, reordered or
  malformed: starting from nothing, every view is bounded by its window, and a job is in at most one
  status view of a tenant and of a user. Projecting an id adds exactly one to the count the view reports,
  evicted members included, unless the id was there already.
\<close>

theorem read_model_coherent:
  assumes "rm = fold (consume fr) msgs empty_read_model"
  shows "zcard (rm_views rm k) \<le> read_model_window
    \<and> (st \<in> set tracked_statuses \<and> st' \<in> set tracked_statuses \<and> st \<noteq> st' \<longrightarrow>
        zscore (rm_views rm (tenant_key scope st)) j = None \<or> zscore (rm_views rm (tenant_key scope st')) j = None)
    \<and> (st \<in> set tracked_statuses \<and> st' \<in> set tracked_statuses \<and> st \<noteq> st' \<longrightarrow>
        zscore (rm_views rm (user_key scope st)) j = None \<or> zscore (rm_views rm (user_key scope st')) j = None)
    \<and> member_count k (project k j now rm) = member_count k rm + (if zscore (rm_views rm k) j = None then 1 else 0)"
proof -
  have inv: "rm_inv rm" unfolding assms by (rule projector.fold_inv [OF rm_inv_empty])
  then have "zset_ok (rm_views rm k)" by (simp add: rm_inv_def views_ok_def)
  from count_project(1) [OF this] inv show ?thesis
    unfolding rm_inv_def views_ok_def exclusive_def by blast
qed

text \<open>
  The projection ends where the job ended: the event that announces a terminal status moves
  the job into that status's view of its tenant and out of every other, and from then on a late progress
  or retry event about the job changes nothing.
\<close>

theorem terminal_event_settles:
  assumes "rm_inv rm" "zcard (rm_views rm (tenant_key (uuid_str (j_tenant_id j)) st)) < read_model_window"
    and "(p, st) \<in> {(dlq_event_payload cfg j msg, ''dead_letter''), (completed_event_payload j, ''completed''),
           (cancelled_event_payload j, ''cancelled'')}"
    and "jget v ''job_id'' = juuid (j_id j)" "jget v ''tenant_id'' = juuid (j_tenant_id j)"
    and "jget v ''event'' = JStr ''job.progress'' \<or> jget v ''event'' = JStr ''job.failed'' \<and> jget v ''dead_lettered'' \<noteq> JBool True"
  shows "\<exists>rm'. projector_handle_message fr now (JObj p) rm = Inr rm'
    \<and> (\<forall>st'. st' \<in> set tracked_statuses \<longrightarrow>
         (zscore (rm_views rm' (tenant_key (uuid_str (j_tenant_id j)) st')) (uuid_str (j_id j)) \<noteq> None \<longleftrightarrow> st' = st))
    \<and> projector_handle_message fr later (JObj v) rm' = Inr rm'"
proof -
  let ?t = "uuid_str (j_tenant_id j)" and ?u = "uuid_str (j_user_id j)" and ?j = "uuid_str (j_id j)"
  let ?rm = "move_job now ?t ?u ?j st rm"
  have st: "st \<in> set terminal_statuses" "st \<in> set tracked_statuses"
    using assms(3) by (auto simp: terminal_statuses_def tracked_statuses_def)
  have h: "projector_handle_message fr now (JObj p) rm = Inr ?rm"
    using assms(3) st(1)
    by (auto simp: projector_handle_message_def new_status_of_def dlq_event_payload_def completed_event_payload_def
        cancelled_event_payload_def event_to_status_def juuid_def py_str_json_def Let_def)
  have room: "zset_ok (rm_views (cleared ?t ?u ?j st rm) (tenant_key ?t st))"
      "zcard (rm_views (cleared ?t ?u ?j st rm) (tenant_key ?t st)) < read_model_window"
    using views_ok_cleared [of rm ?t ?u ?j st] assms(1,2) cleared_target [of st ?t ?u ?j rm] st(2)
    by (simp_all add: rm_inv_def views_ok_def)
  have present: "zscore (rm_views ?rm (tenant_key ?t st)) ?j = Some now"
    using zscore_project_room [OF room] by (simp add: move_job_cleared project_def Let_def key_inject)
  have absent: "zscore (rm_views ?rm (tenant_key ?t st')) ?j = None" if "st' \<in> set tracked_statuses" "st' \<noteq> st" for st'
  proof (rule ccontr)
    assume "zscore (rm_views ?rm (tenant_key ?t st')) ?j \<noteq> None"
    from zscore_move [OF this] show False using that st(2) by (auto simp: key_inject)
  qed
  have "in_terminal ?t ?j ?rm" using present st(1) by (auto simp: in_terminal_def)
  then have late: "projector_handle_message fr later (JObj v) ?rm = Inr ?rm"
    using assms(4-6)
    by (auto simp: projector_handle_message_def new_status_of_def event_to_status_def terminal_statuses_def juuid_def
        py_str_json_def Let_def)
  show ?thesis
  proof (intro exI [of _ ?rm] conjI allI impI)
    fix st'
    assume "st' \<in> set tracked_statuses"
    then show "zscore (rm_views ?rm (tenant_key ?t st')) ?j \<noteq> None \<longleftrightarrow> st' = st"
      using present absent [of st'] by (cases "st' = st") simp_all
  qed (rule h, rule late)
qed

theorem read_model_coherent_witness:
  "zcard (rm_views (fold (consume (\<lambda>_. []))
       [(1, JObj (completed_event_payload (new_job 7 8 ''t'' COMPLETED))), (2, JNull)] empty_read_model) (tenant_key (uuid_str 7) ''completed'')) \<le> read_model_window"
  using read_model_coherent [OF refl] by blast

definition late_progress :: dict where
  "late_progress = [(''event'', JStr ''job.progress''), (''tenant_id'', juuid 7), (''job_id'', juuid 0), (''user_id'', juuid 8)]"

theorem terminal_event_settles_witness:
  "\<exists>rm'. projector_handle_message (\<lambda>_. []) 3 (JObj (completed_event_payload (new_job 7 8 ''t'' COMPLETED))) empty_read_model = Inr rm'
     \<and> projector_handle_message (\<lambda>_. []) 4 (JObj late_progress) rm' = Inr rm'"
proof -
  let ?j = "new_job 7 8 ''t'' COMPLETED"
  have "zcard (rm_views empty_read_model k) < read_model_window" for k
    by (simp add: empty_read_model_def zcard_def read_model_window_def)
  moreover have "jget late_progress ''job_id'' = juuid (j_id ?j)" "jget late_progress ''tenant_id'' = juuid (j_tenant_id ?j)"
    "jget late_progress ''event'' = JStr ''job.progress''"
    by (simp_all add: late_progress_def new_job_def)
  ultimately show ?thesis
    using terminal_event_settles [OF rm_inv_empty, where j = ?j and p = "completed_event_payload ?j" and st = "''completed''"
        and v = late_progress and fr = "\<lambda>_. []" and now = 3 and later = 4] by blast
qed

section \<open>A rebuild is exact\<close>

lemma fold_zadd_fresh:
  "zset_ok z \<Longrightarrow> distinct (map fst xs) \<Longrightarrow> fst ` set xs \<inter> fst ` set z = {} \<Longrightarrow>
     zcard (fold (\<lambda>(m, s). zadd m s) xs z) = zcard z + length xs"
proof (induction xs arbitrary: z)
  case (Cons x xs)
  obtain m s where x: "x = (m, s)" by fastforce
  have "m \<notin> fst ` set z" using Cons.prems(3) x by auto
  then have "zscore z m = None" by (simp add: zscore_def map_of_eq_None_iff)
  then have "zcard (zadd m s z) = Suc (zcard z)" using zcard_zadd [OF Cons.prems(1)] by simp
  moreover have "fst ` set xs \<inter> fst ` set (zadd m s z) = {}"
    using Cons.prems(2,3) x by (auto simp: zadd_def)
  ultimately show ?case using Cons.IH [OF zset_ok_add [OF Cons.prems(1)]] Cons.prems(2) x by simp
qed simp

lemma count_write_group:
  assumes "rm_views rm key = []" "rm_evicted rm key = 0" "distinct (map fst retained)" "length retained \<le> n"
  shows "member_count key (write_group key n retained rm) = int n"
  using assms fold_zadd_fresh [of "[]" retained]
  by (simp add: write_group_def member_count_def Let_def zset_ok_def zcard_def)

lemma write_group_other:
  "k \<noteq> key \<Longrightarrow> rm_views (write_group key n retained rm) k = rm_views rm k
     \<and> rm_evicted (write_group key n retained rm) k = rm_evicted rm k"
  by (simp add: write_group_def Let_def)

lemma write_groups_other:
  "k \<notin> (\<lambda>(g, n). key_for (fst g) (snd g)) ` set counts \<Longrightarrow>
     rm_views (write_groups key_for members counts rm) k = rm_views rm k
     \<and> rm_evicted (write_groups key_for members counts rm) k = rm_evicted rm k"
proof (induction counts arbitrary: rm)
  case (Cons c counts)
  then show ?case
    using write_group_other [of k "key_for (fst (fst c)) (snd (fst c))"]
    by (auto simp: write_groups_def case_prod_beta)
qed (simp add: write_groups_def)

lemma count_write_groups:
  assumes "(g, n) \<in> set counts" "distinct (map (\<lambda>(g, n). key_for (fst g) (snd g)) counts)"
    and "rm_views rm (key_for (fst g) (snd g)) = [] \<and> rm_evicted rm (key_for (fst g) (snd g)) = 0"
    and "distinct (map fst (members g))" "length (members g) \<le> n"
  shows "member_count (key_for (fst g) (snd g)) (write_groups key_for members counts rm) = int n"
  using assms(1-3)
proof (induction counts arbitrary: rm)
  case (Cons c counts)
  let ?key = "\<lambda>c. key_for (fst (fst c)) (snd (fst c))" and ?k = "key_for (fst g) (snd g)"
  let ?rm = "write_group (?key c) (snd c) (members (fst c)) rm"
  have step: "write_groups key_for members (c # counts) rm = write_groups key_for members counts ?rm"
    by (simp add: write_groups_def case_prod_beta)
  show ?case
  proof (cases "c = (g, n)")
    case True
    then have "?k \<notin> (\<lambda>(g, n). key_for (fst g) (snd g)) ` set counts" using Cons.prems(2) by auto
    from write_groups_other [OF this, of members ?rm] show ?thesis
      unfolding step using True count_write_group [of rm ?k "members g" n] Cons.prems(3) assms(4,5)
      by (simp add: member_count_def)
  next
    case False
    then have mem: "(g, n) \<in> set counts" using Cons.prems(1) by simp
    then have "?k \<in> (\<lambda>(g, n). key_for (fst g) (snd g)) ` set counts" by (metis (no_types, lifting) case_prod_conv imageI)
    moreover have "?key c \<notin> (\<lambda>(g, n). key_for (fst g) (snd g)) ` set counts"
      using Cons.prems(2) by (simp add: case_prod_beta)
    ultimately have "?k \<noteq> ?key c" by metis
    then have "rm_views ?rm ?k = [] \<and> rm_evicted ?rm ?k = 0" using write_group_other Cons.prems(3) by metis
    then show ?thesis unfolding step using Cons.IH [OF mem] Cons.prems(2) by simp
  qed
qed simp

lemma counts_groups:
  "(g, n) \<in> set (status_counts col scope d) \<longleftrightarrow> g \<in> group_of col ` set (rebuild_rows scope d)
     \<and> n = length (filter (\<lambda>j. group_of col j = g) (rebuild_rows scope d))"
  by (auto simp: status_counts_def Let_def)

lemma counts_tracked: "(g, n) \<in> set (status_counts col scope d) \<Longrightarrow> snd g \<in> set tracked_statuses"
  by (auto simp: counts_groups group_of_def rebuild_rows_def)

lemma counts_keys_distinct:
  assumes "\<And>s s' st st'. st \<in> set tracked_statuses \<Longrightarrow> st' \<in> set tracked_statuses \<Longrightarrow>
      key_for s st = key_for s' st' \<longleftrightarrow> s = s' \<and> st = st'"
  shows "distinct (map (\<lambda>(g, n). key_for (fst g) (snd g)) (status_counts col scope d))"
proof -
  let ?gs = "remdups (map (group_of col) (rebuild_rows scope d))"
  have "map (\<lambda>(g, n). key_for (fst g) (snd g)) (status_counts col scope d) = map (\<lambda>g. key_for (fst g) (snd g)) ?gs"
    by (simp add: status_counts_def Let_def comp_def)
  moreover have "inj_on (\<lambda>g. key_for (fst g) (snd g)) (set ?gs)"
    using assms by (auto simp: inj_on_def group_of_def rebuild_rows_def)
  ultimately show ?thesis by (simp add: distinct_map)
qed

lemma windowed_members_props:
  assumes "distinct (map j_id (jobs d))" "\<forall>j \<in> set (jobs d). j_id j < 2 ^ 128"
  shows "distinct (map fst (windowed_members col scope d g))"
    "length (windowed_members col scope d g) \<le> length (filter (\<lambda>j. group_of col j = g) (rebuild_rows scope d))"
proof -
  let ?rows = "filter (\<lambda>j. group_of col j = g) (rebuild_rows scope d)"
  let ?sorted = "sort_key (\<lambda>j. - j_updated_at j) (sort_key (\<lambda>j. - int (j_id j)) ?rows)"
  have ids: "inj_on j_id (set (jobs d))" "distinct (jobs d)" using assms(1) by (simp_all add: distinct_map)
  have "inj_on (\<lambda>j. uuid_str (j_id j)) (set ?rows)"
    using ids(1) assms(2) by (auto simp: inj_on_def uuid_str_inject rebuild_rows_def)
  moreover have "distinct ?rows" using ids(2) by (simp add: rebuild_rows_def)
  ultimately have "distinct (map (\<lambda>j. uuid_str (j_id j)) ?sorted)" by (simp only: distinct_map distinct_sort set_sort)
  then have "distinct (take read_model_window (map (\<lambda>j. uuid_str (j_id j)) ?sorted))" by (rule distinct_take)
  then show "distinct (map fst (windowed_members col scope d g))"
    by (simp add: windowed_members_def take_map comp_def)
  show "length (windowed_members col scope d g) \<le> length ?rows" by (simp add: windowed_members_def)
qed

text \<open>
  Property C34. The rebuild repairs the projection whatever state it was in: after \<open>rebuild_read_model\<close>
  over all tenants, the count reported for every tenant and tracked status is exactly the number of rows
  of the jobs table, also when the view holds fewer ids than that.
\<close>

theorem rebuild_exact:
  assumes "wf_db d" "\<forall>j \<in> set (jobs d). j_id j < 2 ^ 128 \<and> j_tenant_id j < 2 ^ 128" "tenant < 2 ^ 128"
    and "job_status_value st \<in> set tracked_statuses"
  shows "map_of (read_global_stats (uuid_str tenant) (rebuild_read_model None d rm)) (job_status_value st) =
      Some (int (length (filter (\<lambda>j. j_tenant_id j = tenant \<and> j_status j = st) (jobs d))))"
proof -
  let ?g = "(uuid_str tenant, job_status_value st)" and ?k = "tenant_key (uuid_str tenant) (job_status_value st)"
  let ?rm0 = "scan_delete ''jobs:user:'' (scan_delete ''jobs:tenant:'' rm)"
  let ?rm1 = "write_groups tenant_key (windowed_members j_tenant_id None d) (status_counts j_tenant_id None d) ?rm0"
  let ?n = "length (filter (\<lambda>j. group_of j_tenant_id j = ?g) (rebuild_rows None d))"
  have value_inj: "job_status_value a = job_status_value b \<longleftrightarrow> a = b" for a b by (cases a; cases b) simp_all
  have n: "?n = length (filter (\<lambda>j. j_tenant_id j = tenant \<and> j_status j = st) (jobs d))"
    using assms(2-4) by (auto simp: rebuild_rows_def group_of_def value_inj uuid_str_inject
        intro!: arg_cong [where f = length] filter_cong)
  have empty: "rm_views ?rm0 ?k = [] \<and> rm_evicted ?rm0 ?k = 0" by (simp add: scan_delete_def tenant_key_def)
  have "member_count ?k ?rm1 = int ?n"
  proof (cases "(?g, ?n) \<in> set (status_counts j_tenant_id None d)")
    case True
    have "distinct (map (\<lambda>(g, n). tenant_key (fst g) (snd g)) (status_counts j_tenant_id None d))"
      by (rule counts_keys_distinct) (rule key_inject(1))
    moreover have "distinct (map j_id (jobs d))" "\<forall>j \<in> set (jobs d). j_id j < 2 ^ 128" using assms(1,2) by (auto simp: wf_db_def)
    note windowed_members_props [OF this, of j_tenant_id None ?g]
    ultimately show ?thesis using count_write_groups [OF True, of tenant_key ?rm0] empty by simp
  next
    case False
    then have none: "?g \<notin> group_of j_tenant_id ` set (rebuild_rows None d)" by (simp add: counts_groups)
    then have zero: "?n = 0" by (force simp: filter_empty_conv)
    have "?k \<notin> (\<lambda>(g, n). tenant_key (fst g) (snd g)) ` set (status_counts j_tenant_id None d)"
      using counts_tracked [of _ _ j_tenant_id None d] none assms(4) by (force simp: key_inject counts_groups)
    from write_groups_other [OF this] show ?thesis using empty zero by (simp add: member_count_def zcard_def)
  qed
  moreover have "?k \<notin> (\<lambda>(g, n). user_key (fst g) (snd g)) ` set (status_counts j_user_id None d)"
    by (auto simp: key_inject)
  ultimately have "member_count ?k (rebuild_read_model None d rm) = int ?n"
    by (simp add: rebuild_read_model_def Let_def member_count_def write_groups_other)
  then show ?thesis using assms(4) n by (simp add: read_global_stats_def map_of_map_restrict map_of_map comp_def)
qed

theorem rebuild_exact_witness:
  "map_of (read_global_stats (uuid_str 7) (rebuild_read_model None (sample_db [sample_job 2 FAILED, sample_job 3 PENDING] [])
     empty_read_model)) ''failed'' = Some 1"
proof -
  let ?d = "sample_db [sample_job 2 FAILED, sample_job 3 PENDING] []"
  have d: "wf_db ?d" "\<forall>j \<in> set (jobs ?d). j_id j < 2 ^ 128 \<and> j_tenant_id j < 2 ^ 128" "(7 :: nat) < 2 ^ 128"
      "job_status_value FAILED \<in> set tracked_statuses"
    by (rule wf_sample) (auto simp: sample_job_def new_job_def tracked_statuses_def)
  from rebuild_exact [OF d, of empty_read_model] show ?thesis by (simp add: sample_job_def new_job_def)
qed

end
