(* ===== verification/Event_Consumers.thy ===== *)
theory Event_Consumers
  imports Kafka_Consumer Read_Model
begin

text \<open>
  The two consumers that keep a record of every lifecycle event: \<open>workers/event_log_consumer.py\<close>
  (the table \<open>job_events\<close>) and \<open>workers/audit_consumer.py\<close> (\<open>event.*\<close> rows of the audit log). Kafka
  delivers a message at least once; a unique constraint on its coordinates makes the second write
  fail, and the consumer takes the failure for the message having been recorded. The constraints are
  checked as the database does: the coordinates are new and every foreign key has its row.
\<close>

section \<open>Tables\<close>

record job_event =
  je_tenant_id :: uuid
  je_job_id :: "uuid option"
  je_event_name :: string
  je_payload :: dict
  je_kafka :: "string \<times> nat \<times> nat"
  je_recorded_at :: time

record event_state =
  es_db :: db
  es_events :: "job_event list"
  es_tenants :: "uuid list"
  es_users :: "uuid list"

abbreviation m_coord :: "kmessage \<Rightarrow> string \<times> nat \<times> nat" where
  "m_coord m \<equiv> (m_topic m, m_partition m, m_offset m)"

section \<open>Event log (\<open>workers/event_log_consumer.py\<close>)\<close>

definition add_job_event :: "job_event \<Rightarrow> event_state \<Rightarrow> event_state option" where
  "add_job_event r a =
     (if je_tenant_id r \<notin> set (es_tenants a) \<or> je_kafka r \<in> je_kafka ` set (es_events a) then None
      else Some (a\<lparr>es_events := es_events a @ [r]\<rparr>))"

text \<open>The tenant a message names, when it is a well-formed text.\<close>

definition tenant_of :: "dict \<Rightarrow> uuid option" where
  "tenant_of v = (case jget v ''tenant_id'' of JStr t \<Rightarrow> uuid_parse t | _ \<Rightarrow> None)"

definition event_row :: "(rat \<Rightarrow> string) \<Rightarrow> time \<Rightarrow> kmessage \<Rightarrow> dict \<Rightarrow> uuid \<Rightarrow> job_event" where
  "event_row fr now m v tenant_id =
     \<lparr>je_tenant_id = tenant_id, je_job_id = (case jget v ''job_id'' of JStr j \<Rightarrow> uuid_parse j | _ \<Rightarrow> None),
      je_event_name = py_str_json fr (jget v ''event''), je_payload = v, je_kafka = m_coord m, je_recorded_at = now\<rparr>"

definition event_log_handle :: "(rat \<Rightarrow> string) \<Rightarrow> bool \<Rightarrow> time \<Rightarrow> kmessage \<Rightarrow> event_state \<Rightarrow> handler_end \<times> event_state" where
  "event_log_handle fr db_ok now m a =
     (case m_value m of
        JObj v \<Rightarrow>
          if \<not> truthy (jget v ''event'') then (HandlerOk, a)
          else (case tenant_of v of
                  None \<Rightarrow> (HandlerOk, a)
                | Some tenant_id \<Rightarrow>
                    if \<not> db_ok then (HandlerRaised, a)
                    else (case add_job_event (event_row fr now m v tenant_id) a of
                            None \<Rightarrow> (HandlerOk, a)
                          | Some a' \<Rightarrow> (HandlerOk, a')))
      | _ \<Rightarrow> (HandlerOk, a))"

section \<open>Audit rows (\<open>workers/audit_consumer.py\<close>)\<close>

definition event_to_action :: "string \<Rightarrow> string option" where
  "event_to_action = map_of [(''job.submitted'', ''event.job.submitted''), (''job.completed'', ''event.job.completed''),
     (''job.failed'', ''event.job.failed''), (''job.cancelled'', ''event.job.cancelled'')]"

text \<open>\<open>Inl\<close>: the event name cannot be a dictionary key.\<close>

definition audit_event_action :: "dict \<Rightarrow> unit + string option" where
  "audit_event_action v =
     (if jget v ''event'' = JStr ''job.failed'' \<and> jget v ''dead_lettered'' = JBool True then Inr (Some ''event.job.dead_letter'')
      else (case jget v ''event'' of
              JStr e \<Rightarrow> Inr (event_to_action e)
            | JArr _ \<Rightarrow> Inl ()
            | JObj _ \<Rightarrow> Inl ()
            | _ \<Rightarrow> Inr None))"

definition parse_uuid_json :: "json \<Rightarrow> uuid option" where
  "parse_uuid_json v = (case v of JStr t \<Rightarrow> if t = [] then None else uuid_parse t | _ \<Rightarrow> None)"

definition fk_ok :: "uuid list \<Rightarrow> uuid option \<Rightarrow> bool" where
  "fk_ok known ref \<longleftrightarrow> (case ref of None \<Rightarrow> True | Some u \<Rightarrow> u \<in> set known)"

definition add_audit_event :: "string \<Rightarrow> uuid \<Rightarrow> audit_args \<Rightarrow> event_state \<Rightarrow> event_state option" where
  "add_audit_event action tenant args a =
     (if tenant \<notin> set (es_tenants a) \<or> \<not> fk_ok (es_users a) (aa_user_id args)
         \<or> \<not> fk_ok (map j_id (jobs (es_db a))) (aa_job_id args)
         \<or> aa_kafka args \<noteq> None \<and> aa_kafka args \<in> a_kafka ` set (audit_logs (es_db a)) then None
      else Some (a\<lparr>es_db := audit_log_write action tenant args (es_db a)\<rparr>))"

definition audit_event_args :: "kmessage \<Rightarrow> dict \<Rightarrow> audit_args" where
  "audit_event_args m v =
     (let job_id = parse_uuid_json (jget v ''job_id'')
      in no_args\<lparr>aa_user_id := parse_uuid_json (jget v ''user_id''), aa_job_id := job_id, aa_resource_type := Some ''job'',
           aa_resource_id := map_option uuid_str job_id,
           aa_extra_data := Some (filter (\<lambda>kv. fst kv \<notin> {''event'', ''tenant_id'', ''job_id'', ''user_id''}) v),
           aa_kafka := Some (m_coord m)\<rparr>)"

definition audit_handle :: "bool \<Rightarrow> kmessage \<Rightarrow> event_state \<Rightarrow> handler_end \<times> event_state" where
  "audit_handle db_ok m a =
     (case m_value m of
        JObj v \<Rightarrow>
          if \<not> truthy (jget v ''event'') then (HandlerOk, a)
          else (case audit_event_action v of
                  Inl _ \<Rightarrow> (HandlerRaised, a)
                | Inr None \<Rightarrow> (HandlerOk, a)
                | Inr (Some action) \<Rightarrow>
                    (case parse_uuid_json (jget v ''tenant_id'') of
                       None \<Rightarrow> (HandlerOk, a)
                     | Some tenant_id \<Rightarrow>
                         if \<not> db_ok then (HandlerRaised, a)
                         else (case add_audit_event action tenant_id (audit_event_args m v) a of
                                 None \<Rightarrow> (HandlerOk, a)
                               | Some a' \<Rightarrow> (HandlerOk, a'))))
      | _ \<Rightarrow> (HandlerOk, a))"

section \<open>One row per event\<close>

text \<open>
  The worlds a consumer's batches meet: its own schema registry, its own handler with any database
  answer and clock at each message, and commits that succeed or fail anywhere.
\<close>

definition consumer_env ::
    "(string \<rightharpoonup> validator) \<Rightarrow> ('w \<Rightarrow> kmessage \<Rightarrow> event_state \<Rightarrow> handler_end \<times> event_state) \<Rightarrow> event_state batch_env \<Rightarrow> bool" where
  "consumer_env validators handle e \<longleftrightarrow> be_validate e = validate_schema validators
     \<and> (\<exists>world. be_handle e = (\<lambda>m. handle (world m) m))"

text \<open>
  Among such worlds, those in which the commit that steps over a schema-invalid message does not fail
  (\<open>poison_commit_failure_loses\<close> is what happens when it does).
\<close>

definition poison_committed :: "(string \<rightharpoonup> validator) \<Rightarrow> (event_state batch_env \<Rightarrow> bool) \<Rightarrow> bool" where
  "poison_committed validators E \<longleftrightarrow>
     (\<forall>e m. E e \<longrightarrow> validate_schema validators (m_topic m) (m_value m) \<noteq> None \<longrightarrow> be_commit_ok e m)"

definition log_rows :: "string \<times> nat \<times> nat \<Rightarrow> event_state \<Rightarrow> job_event list" where
  "log_rows k a = filter (\<lambda>r. je_kafka r = k) (es_events a)"

definition audit_rows :: "string \<times> nat \<times> nat \<Rightarrow> event_state \<Rightarrow> audit_log list" where
  "audit_rows k a = filter (\<lambda>r. a_kafka r = Some k) (audit_logs (es_db a))"

text \<open>The messages the event log keeps, and those the audit log keeps.\<close>

definition loggable :: "uuid list \<Rightarrow> kmessage \<Rightarrow> bool" where
  "loggable tenants m \<longleftrightarrow>
     (case m_value m of
        JObj v \<Rightarrow> truthy (jget v ''event'') \<and> (case tenant_of v of None \<Rightarrow> False | Some t \<Rightarrow> t \<in> set tenants)
      | _ \<Rightarrow> False)"

definition auditable :: "event_state \<Rightarrow> kmessage \<Rightarrow> bool" where
  "auditable a m \<longleftrightarrow>
     (case m_value m of
        JObj v \<Rightarrow> truthy (jget v ''event'') \<and> (\<exists>action. audit_event_action v = Inr (Some action))
          \<and> (case parse_uuid_json (jget v ''tenant_id'') of None \<Rightarrow> False | Some t \<Rightarrow> t \<in> set (es_tenants a))
          \<and> fk_ok (es_users a) (aa_user_id (audit_event_args m v)) \<and> fk_ok (map j_id (jobs (es_db a))) (aa_job_id (audit_event_args m v))
      | _ \<Rightarrow> False)"

text \<open>What a consumer of this kind promises: it writes at most one row per coordinate and never removes one.\<close>

locale recording_consumer =
  fixes handle :: "'w \<Rightarrow> kmessage \<Rightarrow> event_state \<Rightarrow> handler_end \<times> event_state"
    and rows :: "string \<times> nat \<times> nat \<Rightarrow> event_state \<Rightarrow> 'r list"
    and wanted :: "event_state \<Rightarrow> kmessage \<Rightarrow> bool"
  assumes writes_own: "handle w m a = (r, a') \<Longrightarrow> k \<noteq> m_coord m \<Longrightarrow> rows k a' = rows k a"
    and writes_once: "handle w m a = (r, a') \<Longrightarrow> rows (m_coord m) a \<noteq> [] \<Longrightarrow> rows (m_coord m) a' = rows (m_coord m) a"
    and at_most_one: "handle w m a = (r, a') \<Longrightarrow> rows (m_coord m) a = [] \<Longrightarrow> length (rows (m_coord m) a') \<le> 1"
    and writes: "handle w m a = (HandlerOk, a') \<Longrightarrow> wanted a m \<Longrightarrow> rows (m_coord m) a' \<noteq> []"
    and wanted_kept: "handle w m' a = (r, a') \<Longrightarrow> wanted a' m = wanted a m"
begin

definition unique_rows :: "event_state \<Rightarrow> bool" where
  "unique_rows a \<longleftrightarrow> (\<forall>k. length (rows k a) \<le> 1)"

lemma unique_at: "unique_rows a \<Longrightarrow> length (rows k a) \<le> 1"
  unfolding unique_rows_def by blast

lemma rows_kept: "handle w m a = (r, a') \<Longrightarrow> rows k a \<noteq> [] \<Longrightarrow> rows k a' = rows k a"
  using writes_own writes_once by (cases "k = m_coord m") auto

lemma unique_kept:
  assumes "handle w m a = (r, a')" "unique_rows a"
  shows "unique_rows a'"
  unfolding unique_rows_def
proof
  fix k
  show "length (rows k a') \<le> 1"
    using writes_own [OF assms(1), of k] rows_kept [OF assms(1), of k] at_most_one [OF assms(1)] unique_at [OF assms(2), of k]
    by (cases "k = m_coord m"; cases "rows k a = []") auto
qed

end

text \<open>Such a consumer is a client of at-least-once delivery, whatever the schemas.\<close>

sublocale recording_consumer \<subseteq> delivery: at_least_once_client "consumer_env validators handle"
  "validate_schema validators" "\<lambda>m a. wanted a m \<longrightarrow> rows (m_coord m) a \<noteq> []" unique_rows for validators
proof
  fix e m a a' assume e: "consumer_env validators handle e" and h: "be_handle e m a = (HandlerOk, a')"
  then obtain w where "handle w m a = (HandlerOk, a')" by (auto simp: consumer_env_def)
  then show "wanted a' m \<longrightarrow> rows (m_coord m) a' \<noteq> []" using writes wanted_kept by blast
next
  fix e m m' a a' r assume e: "consumer_env validators handle e" and h: "be_handle e m a = (r, a')"
    and eff: "wanted a m' \<longrightarrow> rows (m_coord m') a \<noteq> []"
  then obtain w where "handle w m a = (r, a')" by (auto simp: consumer_env_def)
  then show "wanted a' m' \<longrightarrow> rows (m_coord m') a' \<noteq> []" using eff wanted_kept rows_kept by metis
next
  fix e m a a' r assume e: "consumer_env validators handle e" and h: "be_handle e m a = (r, a')" and u: "unique_rows a"
  then obtain w where "handle w m a = (r, a')" by (auto simp: consumer_env_def)
  then show "unique_rows a'" using unique_kept u by blast
qed (auto simp: consumer_env_def)

context recording_consumer
begin

lemma never_two_rows:
  assumes "kafka_reachable E (fresh_group a0) s" "\<And>e. E e \<Longrightarrow> consumer_env validators handle e" "unique_rows a0"
  shows "unique_rows (k_app s)"
proof -
  have "kafka_reachable (consumer_env validators handle) (fresh_group a0) s"
    using assms(1,2) by (rule kafka_reachable_mono)
  from delivery.left_reachable [OF this assms(3)] show ?thesis by (simp add: delivery.left_behind_def)
qed

lemma exactly_one_row:
  assumes "kafka_reachable E (fresh_group a0) s" "\<And>e. E e \<Longrightarrow> consumer_env validators handle e" "unique_rows a0"
    and "poison_committed validators E"
    and "k_committed s tp = Some n" "off < n" "validate_schema validators (fst tp) (snd (k_log s tp ! off)) = None"
    and "wanted (k_app s) (message_at s tp off)"
  shows "length (rows (fst tp, snd tp, off) (k_app s)) = 1"
proof -
  have "be_commit_ok e m" if "E e" "be_validate e (m_topic m) (m_value m) \<noteq> None" for e m
    using assms(2) [OF that(1)] assms(4) that by (auto simp: consumer_env_def poison_committed_def)
  then have d: "delivery_inv s" by (rule delivery_inv_reachable [OF assms(1) delivery_inv_fresh])
  have r: "kafka_reachable (consumer_env validators handle) (fresh_group a0) s"
    using assms(1,2) by (rule kafka_reachable_mono)
  have "rows (fst tp, snd tp, off) (k_app s) \<noteq> []"
    using delivery.committed_effect [OF r assms(3) d assms(5,6)] assms(7,8) by (auto simp: message_at_def)
  then show ?thesis
    using unique_at [OF never_two_rows [OF assms(1-3)], of "(fst tp, snd tp, off)"] by (simp add: le_Suc_eq)
qed

end

abbreviation event_log_in :: "(rat \<Rightarrow> string) \<Rightarrow> bool \<times> time \<Rightarrow> kmessage \<Rightarrow> event_state \<Rightarrow> handler_end \<times> event_state" where
  "event_log_in fr \<equiv> \<lambda>(db_ok, now). event_log_handle fr db_ok now"

lemma event_row_kafka [simp]: "je_kafka (event_row fr now m v t) = m_coord m" "je_tenant_id (event_row fr now m v t) = t"
  by (simp_all add: event_row_def)

lemma event_log_cases:
  assumes "event_log_in fr w m a = (r, a')"
  obtains (same) "a' = a" "r = HandlerOk \<Longrightarrow> loggable (es_tenants a) m \<Longrightarrow> log_rows (m_coord m) a \<noteq> []"
  | (wrote) row where "je_kafka row = m_coord m" "log_rows (m_coord m) a = []" "a' = a\<lparr>es_events := es_events a @ [row]\<rparr>"
proof -
  obtain db_ok now where w: "w = (db_ok, now)" by fastforce
  have h: "event_log_handle fr db_ok now m a = (r, a')" using assms by (simp add: w)
  show thesis
  proof (cases "\<exists>v t. add_job_event (event_row fr now m v t) a = Some a'")
    case True
    then show thesis
      by (auto simp: add_job_event_def log_rows_def filter_empty_conv image_iff split: if_splits intro!: wrote) metis
  next
    case False
    then have "a' = a" using h by (auto simp: event_log_handle_def split: json.splits option.splits if_splits)
    moreover have "log_rows (m_coord m) a \<noteq> []" if "r = HandlerOk" "loggable (es_tenants a) m"
      using h that False
      by (auto simp: event_log_handle_def loggable_def add_job_event_def log_rows_def filter_empty_conv
          split: json.splits option.splits if_splits)
    ultimately show thesis by (rule same)
  qed
qed

interpretation event_log: recording_consumer "event_log_in fr" log_rows "\<lambda>a. loggable (es_tenants a)"
proof
  fix w m a a' assume h: "event_log_in fr w m a = (HandlerOk, a')" "loggable (es_tenants a) m"
  from h(1) show "log_rows (m_coord m) a' \<noteq> []"
    by (cases rule: event_log_cases) (use h(2) in \<open>auto simp: log_rows_def\<close>)
next
  fix w m a a' r assume h: "event_log_in fr w m a = (r, a')"
  show "log_rows (m_coord m) a' = log_rows (m_coord m) a" if "log_rows (m_coord m) a \<noteq> []"
    using h by (cases rule: event_log_cases) (use that in auto)
  show "length (log_rows (m_coord m) a') \<le> 1" if "log_rows (m_coord m) a = []"
    using h by (cases rule: event_log_cases) (use that in \<open>auto simp: log_rows_def\<close>)
  show "log_rows k a' = log_rows k a" if "k \<noteq> m_coord m" for k
    using h by (cases rule: event_log_cases) (use that in \<open>auto simp: log_rows_def\<close>)
  show "loggable (es_tenants a') m' = loggable (es_tenants a) m'" for m'
    using h by (cases rule: event_log_cases) auto
qed

lemma audit_log_write_rows:
  "audit_rows k (a\<lparr>es_db := audit_log_write action tenant args (es_db a)\<rparr>) =
     audit_rows k a @ (if aa_kafka args = Some k
       then [last (audit_logs (audit_log_write action tenant args (es_db a)))] else [])"
  by (simp add: audit_rows_def audit_log_write_def Let_def)

lemma auditable_cong:
  "es_tenants a' = es_tenants a \<Longrightarrow> es_users a' = es_users a \<Longrightarrow> jobs (es_db a') = jobs (es_db a) \<Longrightarrow> auditable a' m = auditable a m"
  by (cases "m_value m") (simp_all add: auditable_def split: option.split)

lemma audit_handle_cases:
  assumes "audit_handle w m a = (r, a')"
  obtains (same) "a' = a" "r = HandlerOk \<Longrightarrow> auditable a m \<Longrightarrow> audit_rows (m_coord m) a \<noteq> []"
  | (wrote) v action tenant where "m_value m = JObj v" "r = HandlerOk" "audit_rows (m_coord m) a = []"
      "a' = a\<lparr>es_db := audit_log_write action tenant (audit_event_args m v) (es_db a)\<rparr>"
proof (cases "\<exists>v action tenant. m_value m = JObj v \<and> r = HandlerOk
    \<and> add_audit_event action tenant (audit_event_args m v) a = Some a'")
  case True
  then obtain v action tenant where "m_value m = JObj v" "r = HandlerOk"
      "add_audit_event action tenant (audit_event_args m v) a = Some a'" by blast
  then show thesis
    by (intro wrote) (auto simp: add_audit_event_def audit_rows_def filter_empty_conv audit_event_args_def Let_def image_iff split: if_splits)
next
  case False
  then have same_state: "a' = a" using assms by (auto simp: audit_handle_def split: json.splits option.splits if_splits sum.splits)
  have "audit_rows (m_coord m) a \<noteq> []" if ok: "r = HandlerOk" "auditable a m"
  proof -
    obtain v action tenant where v: "m_value m = JObj v" "audit_event_action v = Inr (Some action)"
        "parse_uuid_json (jget v ''tenant_id'') = Some tenant" "tenant \<in> set (es_tenants a)" "truthy (jget v ''event'')"
        "fk_ok (es_users a) (aa_user_id (audit_event_args m v))" "fk_ok (map j_id (jobs (es_db a))) (aa_job_id (audit_event_args m v))"
      using ok(2) by (auto simp: auditable_def split: json.splits option.splits)
    then have "add_audit_event action tenant (audit_event_args m v) a = None"
      using assms ok(1) False by (auto simp: audit_handle_def split: if_splits option.splits)
    then show ?thesis using v
      by (auto simp: add_audit_event_def audit_rows_def filter_empty_conv audit_event_args_def Let_def image_iff split: if_splits)
  qed
  then show thesis by (rule same [OF same_state])
qed

lemma audit_event_kafka [simp]: "aa_kafka (audit_event_args m v) = Some (m_coord m)"
  by (simp add: audit_event_args_def Let_def)

interpretation audit_writer: recording_consumer audit_handle audit_rows auditable
proof
  fix w m a a' assume h: "audit_handle w m a = (HandlerOk, a')" "auditable a m"
  from h(1) show "audit_rows (m_coord m) a' \<noteq> []"
    by (cases rule: audit_handle_cases) (use h(2) in \<open>auto simp: audit_log_write_rows\<close>)
next
  fix w m a a' r assume h: "audit_handle w m a = (r, a')"
  show "audit_rows (m_coord m) a' = audit_rows (m_coord m) a" if "audit_rows (m_coord m) a \<noteq> []"
    using h by (cases rule: audit_handle_cases) (use that in auto)
  show "length (audit_rows (m_coord m) a') \<le> 1" if "audit_rows (m_coord m) a = []"
    using h by (cases rule: audit_handle_cases) (use that in \<open>auto simp: audit_log_write_rows\<close>)
  show "audit_rows k a' = audit_rows k a" if "k \<noteq> m_coord m" for k
    using h by (cases rule: audit_handle_cases) (use that in \<open>auto simp: audit_log_write_rows\<close>)
  show "auditable a' m' = auditable a m'" for m'
    using h
  proof (cases rule: audit_handle_cases)
    case (wrote v action tenant)
    then show ?thesis by (intro auditable_cong) (simp_all add: audit_log_write_def Let_def)
  qed simp
qed

text \<open>
  Property C19. Recording is exactly once. Redelivery, rebalancing, crashing handlers and failing commits
  notwithstanding, no message of the topics ever has two rows in \<open>job_events\<close>, nor two \<open>event.*\<close> rows in
  the audit log. As long as the commit that steps over a schema-invalid message does not itself fail,
  every committed valid message that names an event and a known tenant has exactly one row in
  \<open>job_events\<close>, and every one the audit log keeps (an event it maps to an action, whose tenant, user and
  job exist) exactly one there.
\<close>

theorem recorded_exactly_once:
  assumes "kafka_reachable E (fresh_group a) s" "\<And>e. E e \<Longrightarrow> consumer_env validators (event_log_in fr) e"
    and "kafka_reachable E2 (fresh_group a) s2" "\<And>e. E2 e \<Longrightarrow> consumer_env validators audit_handle e"
    and "es_events a = []" "\<forall>r \<in> set (audit_logs (es_db a)). a_kafka r = None"
  shows "length (log_rows k (k_app s)) \<le> 1 \<and> length (audit_rows k (k_app s2)) \<le> 1
    \<and> (poison_committed validators E \<and> k_committed s tp = Some n \<and> off < n
        \<and> validate_schema validators (fst tp) (snd (k_log s tp ! off)) = None
        \<and> loggable (es_tenants (k_app s)) (message_at s tp off) \<longrightarrow> length (log_rows (fst tp, snd tp, off) (k_app s)) = 1)
    \<and> (poison_committed validators E2 \<and> k_committed s2 tp = Some n \<and> off < n
        \<and> validate_schema validators (fst tp) (snd (k_log s2 tp ! off)) = None
        \<and> auditable (k_app s2) (message_at s2 tp off) \<longrightarrow> length (audit_rows (fst tp, snd tp, off) (k_app s2)) = 1)"
proof -
  have u: "event_log.unique_rows a" "audit_writer.unique_rows a"
    using assms(5,6)
    by (auto simp: event_log.unique_rows_def audit_writer.unique_rows_def log_rows_def audit_rows_def filter_False)
  show ?thesis
    using event_log.unique_at [OF event_log.never_two_rows [OF assms(1,2) u(1)]]
      audit_writer.unique_at [OF audit_writer.never_two_rows [OF assms(3,4) u(2)]]
      event_log.exactly_one_row [OF assms(1,2) u(1)] audit_writer.exactly_one_row [OF assms(3,4) u(2)] by blast
qed

definition no_events :: event_state where
  "no_events = \<lparr>es_db = empty_db, es_events = [], es_tenants = [7], es_users = []\<rparr>"

definition lifecycle_validators :: "string \<rightharpoonup> validator" where
  "lifecycle_validators = [''job.completed'' \<mapsto> (\<lambda>_. None)]"

definition lifecycle_value :: json where
  "lifecycle_value = JObj [(''event'', JStr ''job.completed''), (''tenant_id'', JStr (uuid_str 7))]"

definition lifecycle_env :: "(kmessage \<Rightarrow> event_state \<Rightarrow> handler_end \<times> event_state) \<Rightarrow> event_state batch_env" where
  "lifecycle_env handle = \<lparr>be_validate = validate_schema lifecycle_validators, be_handle = handle,
     be_commit_ok = (\<lambda>_. True), be_revoked = (\<lambda>_. False)\<rparr>"

theorem recorded_exactly_once_witness:
  "length (log_rows (''job.completed'', 0, 0) (k_app (one_polled (lifecycle_env (event_log_handle (\<lambda>_. []) True 0)) no_events lifecycle_value))) = 1
   \<and> length (audit_rows (''job.completed'', 0, 0) (k_app (one_polled (lifecycle_env (audit_handle True)) no_events lifecycle_value))) = 1"
proof -
  let ?e = "lifecycle_env (event_log_handle (\<lambda>_. []) True 0)" and ?e2 = "lifecycle_env (audit_handle True)"
  have t: "uuid_parse (uuid_str 7) = Some 7" by (rule uuid_parse_str_bounded) simp
  define a1 where "a1 = no_events\<lparr>es_events := [event_row (\<lambda>_. []) 0 (one_message lifecycle_value)
      [(''event'', JStr ''job.completed''), (''tenant_id'', JStr (uuid_str 7))] 7]\<rparr>"
  define a2 where "a2 = no_events\<lparr>es_db := audit_log_write ''event.job.completed'' 7 (audit_event_args (one_message lifecycle_value)
      [(''event'', JStr ''job.completed''), (''tenant_id'', JStr (uuid_str 7))]) empty_db\<rparr>"
  have ne: "uuid_str 7 \<noteq> []" using t by (auto simp: uuid_parse_def)
  have h: "event_log_handle (\<lambda>_. []) True 0 (one_message lifecycle_value) no_events = (HandlerOk, a1)"
    by (simp add: event_log_handle_def one_message_def lifecycle_value_def jget_def tenant_of_def t no_events_def
        add_job_event_def a1_def)
  have h2: "audit_handle True (one_message lifecycle_value) no_events = (HandlerOk, a2)"
    by (simp add: audit_handle_def one_message_def lifecycle_value_def jget_def t ne no_events_def parse_uuid_json_def
        audit_event_action_def event_to_action_def add_audit_event_def audit_event_args_def fk_ok_def empty_db_def no_args_def a2_def)
  have E: "consumer_env lifecycle_validators (event_log_in (\<lambda>_. [])) ?e" "consumer_env lifecycle_validators audit_handle ?e2"
    by (auto simp: consumer_env_def lifecycle_env_def intro: exI [of _ "\<lambda>_. (True, 0)"] exI [of _ "\<lambda>_. True"])
  have v: "validate_schema lifecycle_validators ''job.completed'' lifecycle_value = None"
    by (simp add: validate_schema_def lifecycle_validators_def)
  have s1: "kafka_reachable ((=) ?e) (fresh_group no_events) (one_polled ?e no_events lifecycle_value)"
      "k_committed (one_polled ?e no_events lifecycle_value) tp_a = Some 1" "k_app (one_polled ?e no_events lifecycle_value) = a1"
      "message_at (one_polled ?e no_events lifecycle_value) tp_a 0 = one_message lifecycle_value"
    by (rule one_polled [where E = "(=) ?e", OF refl]; simp add: lifecycle_env_def v h)+
  have s2: "kafka_reachable ((=) ?e2) (fresh_group no_events) (one_polled ?e2 no_events lifecycle_value)"
      "k_committed (one_polled ?e2 no_events lifecycle_value) tp_a = Some 1" "k_app (one_polled ?e2 no_events lifecycle_value) = a2"
      "message_at (one_polled ?e2 no_events lifecycle_value) tp_a 0 = one_message lifecycle_value"
    by (rule one_polled [where E = "(=) ?e2", OF refl]; simp add: lifecycle_env_def v h2)+
  have val: "snd (k_log s tp_a ! 0) = lifecycle_value" if "message_at s tp_a 0 = one_message lifecycle_value" for s :: "event_state kafka"
    using that by (simp add: message_at_def one_message_def)
  have "loggable (es_tenants a1) (one_message lifecycle_value)" "auditable a2 (one_message lifecycle_value)"
    by (simp_all add: loggable_def auditable_def one_message_def lifecycle_value_def jget_def tenant_of_def t ne a1_def a2_def no_events_def
        audit_event_action_def event_to_action_def parse_uuid_json_def audit_event_args_def no_args_def fk_ok_def)
  moreover have "poison_committed lifecycle_validators ((=) ?e)" "poison_committed lifecycle_validators ((=) ?e2)"
    by (auto simp: poison_committed_def lifecycle_env_def)
  moreover have "(=) ?e x \<Longrightarrow> consumer_env lifecycle_validators (event_log_in (\<lambda>_. [])) x"
      "(=) ?e2 x \<Longrightarrow> consumer_env lifecycle_validators audit_handle x" for x using E by auto
  ultimately show ?thesis
    using recorded_exactly_once [OF s1(1) _ s2(1), of lifecycle_validators "\<lambda>_. []" "(''job.completed'', 0, 0)" tp_a 1 0] s1(2-4) s2(2-4) v val
    by (simp add: no_events_def empty_db_def)
qed

end
