(* ===== verification/Consumer_Lag.thy ===== *)
theory Consumer_Lag
  imports Circuit_Breaker Supervision
begin

text \<open>
  The reading of a consumer group's lag: \<open>core/consumer_lag.py\<close>, the writers of it in the metrics loop of
  \<open>workers/dispatcher.py\<close>, and the tool \<open>mcp/tools/consumer_lag.py\<close>. Redis holds three keys a group: the
  value, the window of dated samples, and the record of the consumer's last poll.
\<close>

section \<open>The clock (\<open>core/consumer_lag.py\<close>)\<close>

definition lag_samples_window_seconds :: rat where
  "lag_samples_window_seconds = 900"

definition lag_samples_max_entries :: nat where
  "lag_samples_max_entries = 240"

definition lag_samples_agent_cap :: nat where
  "lag_samples_agent_cap = 15"

definition lag_samples_ttl :: rat where
  "lag_samples_ttl = lag_samples_window_seconds + 180"

definition metrics_interval_seconds :: "rat \<Rightarrow> rat" where
  "metrics_interval_seconds configured = max 1 configured"

definition lag_value_ttl_seconds :: "rat \<Rightarrow> int" where
  "lag_value_ttl_seconds configured = max 15 \<lceil>3 * metrics_interval_seconds configured\<rceil>"

definition lag_query_timeout_seconds :: "rat \<Rightarrow> rat" where
  "lag_query_timeout_seconds configured = min 2 (metrics_interval_seconds configured / 2)"

definition lag_samples_at_interval :: "rat \<Rightarrow> nat" where
  "lag_samples_at_interval interval_seconds =
     min lag_samples_max_entries (max 1 (nat \<lfloor>lag_samples_window_seconds / max 1 interval_seconds\<rfloor>))"

section \<open>Groups and keys\<close>

definition live_refreshed_group :: string where
  "live_refreshed_group = ''worker-dispatcher''"

definition dependency_resolver_group :: string where
  "dependency_resolver_group = ''dependency-resolver''"

definition live_refreshed_groups :: "string list" where
  "live_refreshed_groups = [live_refreshed_group, dependency_resolver_group]"

definition paged_lag_groups :: "string list" where
  "paged_lag_groups = [live_refreshed_group]"

definition static_lag_groups :: "string list" where
  "static_lag_groups = [''billing-consumer'', ''orders-consumer'', ''notifications-consumer'', ''analytics-consumer'',
     ''payments-consumer'', ''shipping-consumer'', ''healthy-consumer'']"

datatype lag_source = live | static | unrecognized

definition lag_key :: "string \<Rightarrow> string" where
  "lag_key grp = ''kafka:consumer_lag:'' @ grp"

definition samples_key :: "string \<Rightarrow> string" where
  "samples_key grp = lag_key grp @ '':samples''"

definition last_poll_key :: "string \<Rightarrow> string" where
  "last_poll_key grp = lag_key grp @ '':last_poll''"

definition source_for :: "string \<Rightarrow> lag_source" where
  "source_for grp =
     (if grp \<in> set live_refreshed_groups then live
      else if grp \<in> set static_lag_groups then static else unrecognized)"

section \<open>The polling verdict\<close>

definition poll_fetch_bound_seconds :: rat where
  "poll_fetch_bound_seconds = 2"

definition poll_retry_pause_seconds :: rat where
  "poll_retry_pause_seconds = 1"

definition polling_intervals :: rat where
  "polling_intervals = 5"

definition poll_interval_seconds :: "string \<Rightarrow> rat option" where
  "poll_interval_seconds grp = (if grp \<in> set live_refreshed_groups then Some poll_fetch_bound_seconds else None)"

definition polling_verdict :: "time option \<Rightarrow> time option \<Rightarrow> rat option \<Rightarrow> bool option" where
  "polling_verdict last_poll_at observed_at interval_seconds =
     (case (last_poll_at, observed_at, interval_seconds) of
        (Some polled, Some observed, Some interval) \<Rightarrow> Some (max 0 (observed - polled) \<le> polling_intervals * interval)
      | _ \<Rightarrow> None)"

section \<open>Stored values\<close>

text \<open>
  The value key holds the decimal text. A window or a poll record is a text that \<open>json.loads\<close> reads as a
  value, or one that it refuses; each key has its expiry.
\<close>

datatype stored = Json json | NotJson string

record lag_store =
  lg_value :: "string \<Rightarrow> (string \<times> time) option"
  lg_json :: "string \<Rightarrow> (stored \<times> time) option"

record lag_sample =
  smp_lag :: int
  smp_measured_at :: time

record lag_reading =
  lr_consumer_group :: string
  lr_lag :: "int option"
  lr_lag_known :: bool
  lr_source :: lag_source
  lr_cache_key :: string
  lr_measured_at :: "time option"
  lr_age_seconds :: "int option"
  lr_recent_samples :: "lag_sample list"
  lr_last_poll_at :: "time option"
  lr_last_poll_age_seconds :: "int option"
  lr_polling :: "bool option"
  lr_poll_interval_seconds :: "rat option"

text \<open>\<open>int(raw)\<close> on a text and on a loaded value; \<open>TypeError\<close> and \<open>ValueError\<close> give \<open>None\<close>.\<close>

definition parse_lag :: "json \<Rightarrow> int option" where
  "parse_lag raw =
     (case raw of
        JInt i \<Rightarrow> Some i
      | JBool b \<Rightarrow> Some (if b then 1 else 0)
      | JFloat q \<Rightarrow> Some (if 0 \<le> q then \<lfloor>q\<rfloor> else \<lceil>q\<rceil>)
      | JStr s \<Rightarrow> py_int s
      | _ \<Rightarrow> None)"

definition parse_sample :: "codec \<Rightarrow> json \<Rightarrow> lag_sample option" where
  "parse_sample c entry =
     (case entry of
        JObj d \<Rightarrow>
          (case (parse_lag (jget d ''lag''), parse_stamp c (jget d ''measured_at'')) of
             (Some lag, Some measured_at) \<Rightarrow> Some \<lparr>smp_lag = lag, smp_measured_at = measured_at\<rparr>
           | _ \<Rightarrow> None)
      | _ \<Rightarrow> None)"

definition parse_samples :: "codec \<Rightarrow> stored option \<Rightarrow> lag_sample list" where
  "parse_samples c raw =
     (case raw of
        Some (Json (JArr loaded)) \<Rightarrow>
          take lag_samples_max_entries (sort_key (\<lambda>s. - smp_measured_at s) (List.map_filter (parse_sample c) loaded))
      | _ \<Rightarrow> [])"

definition sample_json :: "codec \<Rightarrow> int \<Rightarrow> time \<Rightarrow> json" where
  "sample_json c lag now = JObj [(''lag'', JInt lag), (''measured_at'', JStr (iso c now))]"

definition keep_sample :: "codec \<Rightarrow> time \<Rightarrow> json \<Rightarrow> bool" where
  "keep_sample c cutoff entry =
     (case entry of
        JObj d \<Rightarrow> (case parse_stamp c (jget d ''measured_at'') of None \<Rightarrow> False | Some t \<Rightarrow> cutoff < t)
      | _ \<Rightarrow> False)"

definition record_lag_sample :: "codec \<Rightarrow> time \<Rightarrow> int \<Rightarrow> string \<Rightarrow> lag_store \<Rightarrow> lag_store" where
  "record_lag_sample c now lag grp st =
     (let cutoff = now - lag_samples_window_seconds;
          samples = (case live_value now (lg_json st (samples_key grp)) of
                       Some (Json (JArr loaded)) \<Rightarrow> filter (keep_sample c cutoff) loaded
                     | _ \<Rightarrow> []);
          window = take lag_samples_max_entries (sample_json c lag now # samples)
      in st\<lparr>lg_json := (lg_json st)(samples_key grp \<mapsto> (Json (JArr window), now + lag_samples_ttl))\<rparr>)"

definition record_last_poll :: "codec \<Rightarrow> rat \<Rightarrow> time \<Rightarrow> time \<Rightarrow> time \<Rightarrow> string \<Rightarrow> lag_store \<Rightarrow> lag_store" where
  "record_last_poll c configured now polled_at observed_at grp st =
     st\<lparr>lg_json := (lg_json st)(last_poll_key grp \<mapsto>
       (Json (JObj [(''last_poll_at'', JStr (iso c polled_at)), (''observed_at'', JStr (iso c observed_at))]),
        now + of_int (lag_value_ttl_seconds configured)))\<rparr>"

definition parse_last_poll :: "codec \<Rightarrow> stored option \<Rightarrow> time option \<times> time option" where
  "parse_last_poll c raw =
     (case raw of
        Some (Json (JObj d)) \<Rightarrow> (parse_stamp c (jget d ''last_poll_at''), parse_stamp c (jget d ''observed_at''))
      | Some (NotJson s) \<Rightarrow> (uniso c s, None)
      | _ \<Rightarrow> (None, None))"

definition whole_age :: "time \<Rightarrow> time \<Rightarrow> int" where
  "whole_age now t = max 0 \<lfloor>now - t\<rfloor>"

definition read_lag :: "codec \<Rightarrow> time \<Rightarrow> string \<Rightarrow> lag_store \<Rightarrow> lag_reading" where
  "read_lag c now grp st =
     (let lag = (case live_value now (lg_value st (lag_key grp)) of None \<Rightarrow> None | Some raw \<Rightarrow> parse_lag (JStr raw));
          source = source_for grp;
          samples = (if source = live then parse_samples c (live_value now (lg_json st (samples_key grp))) else []);
          (last_poll_at, observed_at) =
            (if source = live then parse_last_poll c (live_value now (lg_json st (last_poll_key grp))) else (None, None));
          interval = poll_interval_seconds grp;
          measured_at = (if samples \<noteq> [] \<and> lag \<noteq> None \<and> Some (smp_lag (hd samples)) = lag
                         then Some (smp_measured_at (hd samples)) else None)
      in \<lparr>lr_consumer_group = grp, lr_lag = lag, lr_lag_known = (lag \<noteq> None), lr_source = source,
          lr_cache_key = lag_key grp, lr_measured_at = measured_at,
          lr_age_seconds = map_option (whole_age now) measured_at, lr_recent_samples = samples,
          lr_last_poll_at = last_poll_at, lr_last_poll_age_seconds = map_option (whole_age now) last_poll_at,
          lr_polling = polling_verdict last_poll_at observed_at interval,
          lr_poll_interval_seconds = interval\<rparr>)"

text \<open>The tool answers the same reading with the newest fifteen samples.\<close>

definition get_consumer_lag :: "codec \<Rightarrow> time \<Rightarrow> string \<Rightarrow> lag_store \<Rightarrow> lag_reading" where
  "get_consumer_lag c now grp st =
     (let reading = read_lag c now grp st
      in reading\<lparr>lr_recent_samples := take lag_samples_agent_cap (lr_recent_samples reading)\<rparr>)"

section \<open>The writers (\<open>workers/dispatcher.py\<close>)\<close>

text \<open>Which of a pass's Redis writes answer: the value key, the window, the poll record.\<close>

record lag_io =
  io_value_ok :: bool
  io_sample_ok :: bool
  io_poll_ok :: bool

definition set_lag_value :: "rat \<Rightarrow> time \<Rightarrow> int \<Rightarrow> string \<Rightarrow> lag_store \<Rightarrow> lag_store" where
  "set_lag_value configured now lag grp st =
     st\<lparr>lg_value := (lg_value st)(lag_key grp \<mapsto> (show_int lag, now + of_int (lag_value_ttl_seconds configured)))\<rparr>"

text \<open>The dispatcher's own value: a failed value write ends the pass (\<open>False\<close>), a lost sample does not.\<close>

definition record_dispatcher_lag :: "codec \<Rightarrow> rat \<Rightarrow> lag_io \<Rightarrow> time \<Rightarrow> int \<Rightarrow> lag_store \<Rightarrow> bool \<times> lag_store" where
  "record_dispatcher_lag c configured io now lag st =
     (if \<not> io_value_ok io then (False, st)
      else (let st1 = set_lag_value configured now lag live_refreshed_group st
            in (True, if io_sample_ok io then record_lag_sample c now lag live_refreshed_group st1 else st1)))"

definition record_group_lag :: "codec \<Rightarrow> rat \<Rightarrow> lag_io \<Rightarrow> time \<Rightarrow> string \<Rightarrow> int \<Rightarrow> lag_store \<Rightarrow> lag_store" where
  "record_group_lag c configured io now grp lag st =
     (if \<not> io_value_ok io then st
      else (let st1 = set_lag_value configured now lag grp st
            in if io_sample_ok io then record_lag_sample c now lag grp st1 else st1))"

definition publish_last_poll :: "codec \<Rightarrow> rat \<Rightarrow> lag_io \<Rightarrow> time \<Rightarrow> string \<Rightarrow> time option \<Rightarrow> lag_store \<Rightarrow> lag_store" where
  "publish_last_poll c configured io now grp polled st =
     (case polled of
        None \<Rightarrow> st
      | Some polled_at \<Rightarrow> if io_poll_ok io then record_last_poll c configured now polled_at now grp st else st)"

section \<open>The window is the last fifteen minutes\<close>

lemma filter_take_desc:
  fixes f :: "'a \<Rightarrow> 'b :: linorder"
  assumes "sorted_wrt (\<lambda>a b. f b \<le> f a) xs"
  shows "filter (\<lambda>x. k < f x) (take n xs) = take n (filter (\<lambda>x. k < f x) xs)"
  using assms
proof (induction xs arbitrary: n)
  case (Cons x xs)
  show ?case
  proof (cases "k < f x")
    case True
    then show ?thesis using Cons by (cases n) simp_all
  next
    case False
    then have "\<not> k < f y" if "y \<in> set xs" for y using Cons.prems that by auto
    then have none: "\<not> k < f y" if "y \<in> set (x # xs)" for y using False that by auto
    then have "filter (\<lambda>x. k < f x) (x # xs) = []" unfolding filter_empty_conv by blast
    moreover have "filter (\<lambda>x. k < f x) (take n (x # xs)) = []"
      using none unfolding filter_empty_conv by (blast dest: in_set_takeD)
    ultimately show ?thesis by simp
  qed
qed simp

definition to_sample :: "time \<times> int \<Rightarrow> lag_sample" where
  "to_sample m = \<lparr>smp_lag = snd m, smp_measured_at = fst m\<rparr>"

text \<open>The window after the measurements \<open>hist\<close>, newest first.\<close>

definition recent :: "(time \<times> int) list \<Rightarrow> (time \<times> int) list" where
  "recent hist = (case hist of [] \<Rightarrow> []
     | (t, _) # _ \<Rightarrow> take lag_samples_max_entries (filter (\<lambda>m. t - lag_samples_window_seconds < fst m) hist))"

abbreviation dated :: "codec \<Rightarrow> (time \<times> int) list \<Rightarrow> bool" where
  "dated c ms \<equiv> list_all (\<lambda>m. uniso c (iso c (fst m)) = Some (fst m)) ms"

abbreviation newest_first :: "(time \<times> int) list \<Rightarrow> bool" where
  "newest_first ms \<equiv> sorted_wrt (\<lambda>a b. fst b \<le> fst a) ms"

definition window_holds :: "codec \<Rightarrow> string \<Rightarrow> (time \<times> int) list \<Rightarrow> lag_store \<Rightarrow> bool" where
  "window_holds c grp hist st \<longleftrightarrow>
     lg_json st (samples_key grp) =
       (case hist of [] \<Rightarrow> None
        | (t, _) # _ \<Rightarrow> Some (Json (JArr (map (\<lambda>m. sample_json c (snd m) (fst m)) (recent hist))), t + lag_samples_ttl))"

lemma set_recent: "set (recent hist) \<subseteq> set hist"
  by (auto simp: recent_def dest!: in_set_takeD split: list.splits if_splits)

lemma newest_first_recent: "newest_first hist \<Longrightarrow> newest_first (recent hist)"
  by (cases hist) (auto simp: recent_def sorted_wrt_take sorted_wrt_filter split: prod.splits)

lemma parse_sample_json: "uniso c (iso c t) = Some t \<Longrightarrow> parse_sample c (sample_json c l t) = Some (to_sample (t, l))"
  by (simp add: parse_sample_def sample_json_def parse_lag_def parse_stamp_def to_sample_def)

lemma keep_sample_json: "uniso c (iso c t) = Some t \<Longrightarrow> keep_sample c k (sample_json c l t) \<longleftrightarrow> k < t"
  by (simp add: keep_sample_def sample_json_def parse_stamp_def)

lemma filter_keep_map:
  "dated c ms \<Longrightarrow> filter (keep_sample c k) (map (\<lambda>m. sample_json c (snd m) (fst m)) ms)
     = map (\<lambda>m. sample_json c (snd m) (fst m)) (filter (\<lambda>m. k < fst m) ms)"
  by (induction ms) (auto simp: keep_sample_json)

lemma parse_map: "dated c ms \<Longrightarrow> List.map_filter (parse_sample c) (map (\<lambda>m. sample_json c (snd m) (fst m)) ms) = map to_sample ms"
  by (induction ms) (auto simp: parse_sample_json)

lemma filter_recent:
  assumes "newest_first hist" "hist \<noteq> [] \<Longrightarrow> fst (hd hist) \<le> t"
  shows "filter (\<lambda>m. t - lag_samples_window_seconds < fst m) (recent hist)
    = take lag_samples_max_entries (filter (\<lambda>m. t - lag_samples_window_seconds < fst m) hist)"
proof (cases hist)
  case (Cons h hs)
  let ?w = lag_samples_window_seconds
  have sub: "filter (\<lambda>m. t - ?w < fst m) (filter (\<lambda>m. fst h - ?w < fst m) hist) = filter (\<lambda>m. t - ?w < fst m) hist"
    unfolding filter_filter by (rule filter_cong [OF refl]) (use assms(2) Cons in auto)
  have "sorted_wrt (\<lambda>a b. fst b \<le> fst a) (filter (\<lambda>m. fst h - ?w < fst m) hist)"
    using assms(1) by (rule sorted_wrt_filter)
  from filter_take_desc [OF this, of "t - ?w" lag_samples_max_entries] sub show ?thesis
    by (simp add: recent_def Cons split_beta)
qed (simp add: recent_def)

lemma record_keeps_window:
  assumes "window_holds c grp hist st" "newest_first hist" "dated c hist" "hist \<noteq> [] \<Longrightarrow> fst (hd hist) \<le> t"
  shows "window_holds c grp ((t, l) # hist) (record_lag_sample c t l grp st)"
proof -
  let ?keep = "filter (\<lambda>m. t - lag_samples_window_seconds < fst m)"
  let ?js = "map (\<lambda>m. sample_json c (snd m) (fst m))"
  have old: "(case live_value t (lg_json st (samples_key grp)) of
      Some (Json (JArr loaded)) \<Rightarrow> filter (keep_sample c (t - lag_samples_window_seconds)) loaded | _ \<Rightarrow> [])
    = ?js (take lag_samples_max_entries (?keep hist))"
  proof (cases hist)
    case Nil
    then show ?thesis using assms(1) by (simp add: window_holds_def live_value_def)
  next
    case (Cons h hs)
    have d: "dated c (recent hist)" using assms(3) set_recent [of hist] by (auto simp: list_all_iff)
    have "?keep hist = []" if "fst h + lag_samples_ttl \<le> t"
      using that assms(2) by (auto simp: Cons filter_empty_conv lag_samples_ttl_def lag_samples_window_seconds_def)
    then show ?thesis
      using assms(1) filter_keep_map [OF d, of "t - lag_samples_window_seconds"] filter_recent [OF assms(2,4)]
      by (auto simp: window_holds_def live_value_def Cons split_beta not_less)
  qed
  have "take n (f x # map f (take n xs)) = map f (take n (x # xs))" for n f and x :: "time \<times> int" and xs
    by (cases n) (simp_all add: take_map)
  from this [of lag_samples_max_entries "\<lambda>m. sample_json c (snd m) (fst m)" "(t, l)" "?keep hist"]
  show ?thesis
    unfolding window_holds_def record_lag_sample_def Let_def old
    by (simp add: recent_def lag_samples_window_seconds_def)
qed

lemma window_reading:
  assumes "window_holds c grp ((t, l) # hist) st" "newest_first ((t, l) # hist)" "dated c ((t, l) # hist)" "now < t + lag_samples_ttl"
  shows "parse_samples c (live_value now (lg_json st (samples_key grp))) = map to_sample (recent ((t, l) # hist))"
proof -
  let ?r = "recent ((t, l) # hist)"
  have "dated c ?r" using assms(3) set_recent [of "(t, l) # hist"] by (auto simp: list_all_iff)
  moreover have "sorted (map (\<lambda>s. - smp_measured_at s) (map to_sample ?r))"
    using newest_first_recent [OF assms(2)] by (simp add: to_sample_def sorted_map sorted_wrt_map)
  moreover have "length ?r \<le> lag_samples_max_entries" by (simp add: recent_def)
  ultimately show ?thesis
    using assms(1,4) by (simp add: parse_samples_def window_holds_def live_value_def parse_map sort_key_id_if_sorted)
qed

text \<open>
  The metrics passes as seen from the dispatcher's keys: a pass has its time, the lag it measured
  (\<open>None\<close> when the query failed or had no assignment) and which writes answered.
\<close>

definition measure_pass :: "codec \<Rightarrow> rat \<Rightarrow> time \<times> int option \<times> lag_io \<Rightarrow> lag_store \<Rightarrow> lag_store" where
  "measure_pass c configured = (\<lambda>(t, lag, io) st.
     case lag of None \<Rightarrow> st | Some l \<Rightarrow> snd (record_dispatcher_lag c configured io t l st))"

fun valued :: "time \<times> int option \<times> lag_io \<Rightarrow> (time \<times> int) option" where
  "valued (t, lag, io) = (if io_value_ok io then map_option (Pair t) lag else None)"

fun sampled :: "time \<times> int option \<times> lag_io \<Rightarrow> (time \<times> int) option" where
  "sampled (t, lag, io) = (if io_value_ok io \<and> io_sample_ok io then map_option (Pair t) lag else None)"

definition no_lag :: lag_store where
  "no_lag = \<lparr>lg_value = (\<lambda>_. None), lg_json = (\<lambda>_. None)\<rparr>"

abbreviation values_of :: "(time \<times> int option \<times> lag_io) list \<Rightarrow> (time \<times> int) list" where
  "values_of ps \<equiv> rev (List.map_filter valued ps)"

abbreviation samples_of :: "(time \<times> int option \<times> lag_io) list \<Rightarrow> (time \<times> int) list" where
  "samples_of ps \<equiv> rev (List.map_filter sampled ps)"

lemma sampled_Some_iff: "sampled p = Some m \<longleftrightarrow> (\<exists>l. p = (fst m, Some (snd m), l) \<and> io_value_ok l \<and> io_sample_ok l)"
  by (cases p; cases m) auto

lemma in_samples_of: "m \<in> set (samples_of ps) \<Longrightarrow> fst m \<in> fst ` set ps \<and> m \<in> set (values_of ps)"
  by (induction ps) (auto simp: sampled_Some_iff split: option.splits if_splits)

lemma map_filter_append: "List.map_filter f (xs @ ys) = List.map_filter f xs @ List.map_filter f ys"
  by (induction xs) (auto split: option.splits)

lemma passes_window:
  assumes "sorted (map fst ps)" "dated c (samples_of ps)" "st = fold (measure_pass c configured) ps no_lag"
  shows "window_holds c live_refreshed_group (samples_of ps) st \<and> newest_first (samples_of ps)
    \<and> lg_value st (lag_key live_refreshed_group) =
        (case values_of ps of [] \<Rightarrow> None | (t, l) # _ \<Rightarrow> Some (show_int l, t + of_int (lag_value_ttl_seconds configured)))"
  using assms
proof (induction ps arbitrary: st rule: rev_induct)
  case Nil
  then show ?case by (simp add: window_holds_def no_lag_def)
next
  case (snoc p ps)
  obtain t lo io where p: "p = (t, lo, io)" by (cases p)
  let ?st = "fold (measure_pass c configured) ps no_lag" and ?g = live_refreshed_group
  have before: "u \<le> t" if "u \<in> fst ` set ps" for u using snoc.prems(1) that by (force simp: p sorted_append)
  have "dated c (samples_of ps)" using snoc.prems(2) by (simp add: map_filter_append)
  with snoc.IH [of ?st] snoc.prems(1) have IH: "window_holds c ?g (samples_of ps) ?st" "newest_first (samples_of ps)"
      "lg_value ?st (lag_key ?g) = (case values_of ps of [] \<Rightarrow> None
         | (t, l) # _ \<Rightarrow> Some (show_int l, t + of_int (lag_value_ttl_seconds configured)))"
    by (simp_all add: sorted_append)
  have le: "fst m \<le> t" if "m \<in> set (samples_of ps)" for m using in_samples_of [OF that] before by blast
  have st: "st = measure_pass c configured p ?st" using snoc.prems(3) by simp
  show ?case
  proof (cases "lo \<noteq> None \<and> io_value_ok io")
    case False
    then have "st = ?st" "sampled p = None" "valued p = None"
      by (auto simp: st p measure_pass_def record_dispatcher_lag_def split: option.splits)
    then show ?thesis using IH by (simp add: map_filter_append)
  next
    case True
    then obtain l where l: "lo = Some l" and ok: "io_value_ok io" by auto
    let ?v = "set_lag_value configured t l ?g ?st"
    have v: "window_holds c ?g (samples_of ps) ?v"
        "lg_value ?v (lag_key ?g) = Some (show_int l, t + of_int (lag_value_ttl_seconds configured))"
      using IH(1) by (simp_all add: window_holds_def set_lag_value_def)
    have val: "values_of (ps @ [p]) = (t, l) # values_of ps" by (simp add: map_filter_append p l ok)
    show ?thesis
    proof (cases "io_sample_ok io")
      case False
      then have "st = ?v" "samples_of (ps @ [p]) = samples_of ps"
        by (simp_all add: st p l ok measure_pass_def record_dispatcher_lag_def map_filter_append)
      then show ?thesis using v IH(2) val by simp
    next
      case True
      then have st': "st = record_lag_sample c t l ?g ?v" and s: "samples_of (ps @ [p]) = (t, l) # samples_of ps"
        by (simp_all add: st p l ok measure_pass_def record_dispatcher_lag_def map_filter_append)
      have "window_holds c ?g ((t, l) # samples_of ps) st"
        unfolding st' by (rule record_keeps_window [OF v(1) IH(2)])
          (use snoc.prems(2) s le in \<open>simp, metis hd_in_set\<close>)+
      moreover have "newest_first ((t, l) # samples_of ps)" using IH(2) le by simp
      moreover have "lg_value st = lg_value ?v" by (simp add: st' record_lag_sample_def Let_def)
      ultimately show ?thesis unfolding s val using v(2) by simp
    qed
  qed
qed

lemma source_live: "source_for live_refreshed_group = live"
  by (simp add: source_for_def live_refreshed_groups_def)

text \<open>
  A lag reading is a measurement, dated. After any run of metrics passes, in which queries fail
  and writes are lost, the dispatcher's lag reads as the newest value that was written and is still fresh,
  and as unknown otherwise, never as zero; the history is exactly the samples of the fifteen minutes
  before the newest one, newest first and at most 240 of them, however the passes are spaced; the tool's
  history is its first fifteen; and a date is given to the number only when that very number was sampled
  at that time.
\<close>

theorem lag_reading_exact:
  assumes "sorted (map fst ps)" "dated c (samples_of ps)" "st = fold (measure_pass c configured) ps no_lag"
    and "r = read_lag c now live_refreshed_group st"
  shows "lr_lag r = (case values_of ps of [] \<Rightarrow> None
        | (t, l) # _ \<Rightarrow> if now < t + of_int (lag_value_ttl_seconds configured) then Some l else None)
    \<and> lr_lag_known r = (lr_lag r \<noteq> None)
    \<and> lr_recent_samples r = (case samples_of ps of [] \<Rightarrow> []
        | (t, l) # _ \<Rightarrow> if now < t + 1080
            then map to_sample (take 240 (filter (\<lambda>m. t - 900 < fst m) (samples_of ps))) else [])
    \<and> lr_recent_samples (get_consumer_lag c now live_refreshed_group st) = take 15 (lr_recent_samples r)
    \<and> (\<forall>u. lr_measured_at r = Some u \<longrightarrow> (\<exists>l. lr_lag r = Some l \<and> (u, l) \<in> set (samples_of ps)))"
proof -
  let ?g = live_refreshed_group
  note inv = passes_window [OF assms(1-3)]
  let ?w = "parse_samples c (live_value now (lg_json st (samples_key ?g)))"
  have w: "?w = (case samples_of ps of [] \<Rightarrow> []
      | (t, l) # _ \<Rightarrow> if now < t + 1080
          then map to_sample (take 240 (filter (\<lambda>m. t - 900 < fst m) (samples_of ps))) else [])"
  proof (cases "samples_of ps")
    case Nil
    then show ?thesis using inv by (simp add: window_holds_def live_value_def parse_samples_def)
  next
    case (Cons m ms)
    obtain t l where m: "m = (t, l)" by (cases m)
    have "?w = map to_sample (recent (samples_of ps))" if "now < t + lag_samples_ttl"
      using window_reading [of c ?g t l ms st now] inv assms(2) that Cons m by simp
    moreover have "?w = []" if "\<not> now < t + lag_samples_ttl"
      using that inv by (simp add: window_holds_def Cons m live_value_def parse_samples_def)
    ultimately show ?thesis
      by (simp add: Cons m recent_def lag_samples_ttl_def lag_samples_window_seconds_def lag_samples_max_entries_def)
  qed
  have lag: "lr_lag r = (case values_of ps of [] \<Rightarrow> None
        | (t, l) # _ \<Rightarrow> if now < t + of_int (lag_value_ttl_seconds configured) then Some l else None)"
    using inv by (auto simp: assms(4) read_lag_def Let_def split_beta live_value_def parse_lag_def split: list.splits)
  have r: "lr_recent_samples r = ?w" "lr_lag_known r = (lr_lag r \<noteq> None)"
      "lr_recent_samples (get_consumer_lag c now ?g st) = take 15 ?w"
      "lr_measured_at r = (if ?w \<noteq> [] \<and> lr_lag r \<noteq> None \<and> Some (smp_lag (hd ?w)) = lr_lag r
         then Some (smp_measured_at (hd ?w)) else None)"
    by (simp_all add: assms(4) read_lag_def get_consumer_lag_def Let_def split_beta source_live lag_samples_agent_cap_def)
  have "\<exists>m \<in> set (samples_of ps). s = to_sample m" if "s \<in> set ?w" for s
    using that unfolding w by (auto split: list.splits if_splits dest!: in_set_takeD)
  then have "\<exists>m \<in> set (samples_of ps). hd ?w = to_sample m" if "?w \<noteq> []" using that hd_in_set by blast
  then have "\<exists>l. lr_lag r = Some l \<and> (u, l) \<in> set (samples_of ps)" if "lr_measured_at r = Some u" for u
    using that by (fastforce simp: r(4) to_sample_def split: if_splits)
  then show ?thesis using lag r(1-3) w by simp
qed

definition all_writes :: lag_io where
  "all_writes = \<lparr>io_value_ok = True, io_sample_ok = True, io_poll_ok = True\<rparr>"

theorem lag_reading_exact_witness:
  "lr_recent_samples (read_lag sample_codec 10 live_refreshed_group
     (fold (measure_pass sample_codec 60) [(0, Some 5, all_writes), (2, None, all_writes), (9, Some 7, all_writes)] no_lag))
   = [\<lparr>smp_lag = 7, smp_measured_at = 9\<rparr>, \<lparr>smp_lag = 5, smp_measured_at = 0\<rparr>]"
  using lag_reading_exact [OF _ _ refl refl,
      of "[(0, Some 5, all_writes), (2, None, all_writes), (9, Some 7, all_writes)]" sample_codec 10 60]
  by (simp add: all_writes_def sample_codec_def to_sample_def)

lemma metrics_interval_pos: "1 \<le> metrics_interval_seconds configured"
  by (simp add: metrics_interval_seconds_def)

text \<open>
  The verdict on a consumer is the one drawn at the look: while the record lives it does not change with
  the reader's clock, afterwards it is unknown; a consumer whose fetch, pause and batch stay within ten
  seconds is never called stopped, and one lost metrics pass neither blanks the lag nor the verdict.
\<close>

theorem polling_fixed_at_look:
  assumes "grp \<in> set live_refreshed_groups" "uniso c (iso c p) = Some p" "uniso c (iso c t) = Some t" "io_poll_ok io"
    and "st' = publish_last_poll c configured io t grp (Some p) st"
  shows "lr_polling (read_lag c now grp st')
        = (if now < t + of_int (lag_value_ttl_seconds configured) then Some (t - p \<le> 10) else None)
    \<and> (t - p \<le> poll_fetch_bound_seconds + poll_retry_pause_seconds + handling \<and> handling \<le> 7 \<longrightarrow> t - p \<le> 10)
    \<and> 2 * metrics_interval_seconds configured < of_int (lag_value_ttl_seconds configured)
    \<and> 2 * lag_query_timeout_seconds configured \<le> metrics_interval_seconds configured"
proof -
  have "lr_polling (read_lag c now grp st')
      = (if now < t + of_int (lag_value_ttl_seconds configured) then Some (t - p \<le> 10) else None)"
    using assms by (simp add: publish_last_poll_def record_last_poll_def read_lag_def Let_def split_beta source_for_def
        parse_last_poll_def live_value_def parse_stamp_def polling_verdict_def poll_interval_seconds_def
        poll_fetch_bound_seconds_def polling_intervals_def)
  moreover have "3 * metrics_interval_seconds configured \<le> of_int (lag_value_ttl_seconds configured)"
    unfolding lag_value_ttl_seconds_def by (rule order_trans [OF le_of_int_ceiling]) (simp only: of_int_le_iff max.cobounded2)
  ultimately show ?thesis
    using metrics_interval_pos [of configured]
    by (auto simp: poll_fetch_bound_seconds_def poll_retry_pause_seconds_def lag_query_timeout_seconds_def)
qed

theorem polling_fixed_at_look_witness:
  "lr_polling (read_lag sample_codec 30 dependency_resolver_group
     (publish_last_poll sample_codec 60 all_writes 9 dependency_resolver_group (Some 2) no_lag)) = Some True"
proof -
  have "(60 :: rat) < of_int (lag_value_ttl_seconds 60)"
    by (simp add: lag_value_ttl_seconds_def metrics_interval_seconds_def)
  then show ?thesis
    using polling_fixed_at_look [of dependency_resolver_group sample_codec 2 9 all_writes _ 60 no_lag 30, OF _ _ _ _ refl]
    by (simp add: live_refreshed_groups_def sample_codec_def all_writes_def)
qed

end
