(* ===== verification/Control_Loops.thy ===== *)
theory Control_Loops
  imports Sweeps Supervision Idempotency
begin

text \<open>
  The worker's background loops: the advisory-lock gate of \<open>core/leader_lock.py\<close>, the pause keys and
  intervals of \<open>workers/control_loop_pause.py\<close>, the record of completed passes in
  \<open>core/loop_heartbeat.py\<close> and \<open>core/outbox_heartbeat.py\<close>, the loop bodies of \<open>workers/dispatcher.py\<close>
  around the passes of the other theories, and the tool that reads their state,
  \<open>mcp/tools/control_loops.py\<close>. A loop sleeps between turns; a turn is a function.
\<close>

section \<open>The leader lock (\<open>core/leader_lock.py\<close>)\<close>

text \<open>
  Postgres session locks of one key: the connection that holds it and how often it took it, since a
  session may take its own lock again. A connection is checked out of the pool by at most one gate at a
  time; the gates that are inside hold their connection and what they were told.
\<close>

record lock_state =
  lk_holder :: "(nat \<times> nat) option"
  lk_gates :: "(nat \<times> bool) list"

definition pg_try_advisory_lock :: "nat \<Rightarrow> lock_state \<Rightarrow> bool \<times> lock_state" where
  "pg_try_advisory_lock c lk =
     (case lk_holder lk of
        None \<Rightarrow> (True, lk\<lparr>lk_holder := Some (c, 1)\<rparr>)
      | Some (c', n) \<Rightarrow> if c' = c then (True, lk\<lparr>lk_holder := Some (c, Suc n)\<rparr>) else (False, lk))"

definition pg_advisory_unlock :: "nat \<Rightarrow> lock_state \<Rightarrow> lock_state" where
  "pg_advisory_unlock c lk =
     (case lk_holder lk of
        None \<Rightarrow> lk
      | Some (c', n) \<Rightarrow>
          if c' \<noteq> c then lk else lk\<lparr>lk_holder := (if n \<le> 1 then None else Some (c, n - 1))\<rparr>)"

text \<open>A connection that is discarded, or dies with its process, loses its session's locks.\<close>

definition drop_connection :: "nat \<Rightarrow> lock_state \<Rightarrow> lock_state" where
  "drop_connection c lk = (case lk_holder lk of
     None \<Rightarrow> lk | Some (c', n) \<Rightarrow> if c' = c then lk\<lparr>lk_holder := None\<rparr> else lk)"

definition release_lock :: "bool \<Rightarrow> nat \<Rightarrow> lock_state \<Rightarrow> lock_state" where
  "release_lock release_ok c lk = (if release_ok then pg_advisory_unlock c lk else drop_connection c lk)"

text \<open>Entering the gate with a connection fresh from the pool, and leaving it with what was told.\<close>

definition enter_gate :: "nat \<Rightarrow> lock_state \<Rightarrow> bool \<times> lock_state" where
  "enter_gate c lk =
     (let (acquired, lk1) = pg_try_advisory_lock c lk in (acquired, lk1\<lparr>lk_gates := (c, acquired) # lk_gates lk1\<rparr>))"

definition leave_gate :: "bool \<Rightarrow> nat \<Rightarrow> lock_state \<Rightarrow> lock_state" where
  "leave_gate release_ok c lk =
     (let lk1 = (if (c, True) \<in> set (lk_gates lk) then release_lock release_ok c lk else lk)
      in lk1\<lparr>lk_gates := filter (\<lambda>g. fst g \<noteq> c) (lk_gates lk1)\<rparr>)"

datatype gate_event = Enter nat | Exit bool nat | ProcessDies nat

text \<open>The pool hands out no connection twice; a process that dies takes its connection with it.\<close>

definition gate_apply :: "gate_event \<Rightarrow> lock_state \<Rightarrow> lock_state" where
  "gate_apply ev lk =
     (case ev of
        Enter c \<Rightarrow> if c \<in> fst ` set (lk_gates lk) then lk else snd (enter_gate c lk)
      | Exit ok c \<Rightarrow> if c \<in> fst ` set (lk_gates lk) then leave_gate ok c lk else lk
      | ProcessDies c \<Rightarrow> (drop_connection c lk)\<lparr>lk_gates := filter (\<lambda>g. fst g \<noteq> c) (lk_gates lk)\<rparr>)"

definition no_locks :: lock_state where
  "no_locks = \<lparr>lk_holder = None, lk_gates = []\<rparr>"

definition lock_inv :: "lock_state \<Rightarrow> bool" where
  "lock_inv lk \<longleftrightarrow> distinct (map fst (lk_gates lk))
     \<and> (case lk_holder lk of
           None \<Rightarrow> \<forall>g \<in> set (lk_gates lk). \<not> snd g
         | Some (c, n) \<Rightarrow> n = 1 \<and> (c, True) \<in> set (lk_gates lk) \<and> (\<forall>g \<in> set (lk_gates lk). snd g \<longrightarrow> fst g = c))"

interpretation leader: inv_step gate_apply lock_inv
proof
  fix lk ev assume inv: "lock_inv lk"
  then have d: "distinct (map fst (filter P (lk_gates lk)))" for P by (simp add: lock_inv_def distinct_map_filter)
  show "lock_inv (gate_apply ev lk)"
  proof (cases ev)
    case (Enter c)
    then show ?thesis
      using inv by (auto simp: lock_inv_def gate_apply_def enter_gate_def pg_try_advisory_lock_def Let_def image_iff split: option.splits)
  next
    case (Exit ok c)
    then show ?thesis
      using inv d by (auto simp: lock_inv_def gate_apply_def leave_gate_def release_lock_def pg_advisory_unlock_def
          drop_connection_def Let_def split: option.splits if_splits)
  next
    case (ProcessDies c)
    then show ?thesis
      using inv d by (auto simp: lock_inv_def gate_apply_def drop_connection_def split: option.splits if_splits)
  qed
qed

lemma distinct_at_most_one:
  assumes "distinct xs" "\<And>x y. x \<in> set xs \<Longrightarrow> y \<in> set xs \<Longrightarrow> x = y"
  shows "length xs \<le> 1"
proof (cases xs)
  case (Cons x ys)
  show ?thesis
  proof (cases ys)
    case (Cons y zs)
    have "x = y" by (rule assms(2)) (simp_all add: \<open>xs = x # ys\<close> Cons)
    then show ?thesis using assms(1) by (simp add: \<open>xs = x # ys\<close> Cons)
  qed (simp add: \<open>xs = x # ys\<close>)
qed simp

text \<open>
  One writer, and never none for good: whatever order replicas enter and leave the gate in, whatever
  releases fail and whichever processes die, at most one gate is told it leads; and when no leader is
  inside, the next replica to come is told so.
\<close>

theorem single_leader:
  assumes "lk = fold gate_apply evs no_locks"
  shows "length (filter snd (lk_gates lk)) \<le> 1
    \<and> (filter snd (lk_gates lk) = [] \<longrightarrow> fst (enter_gate c lk))
    \<and> (filter snd (lk_gates lk) \<noteq> [] \<and> c \<notin> fst ` set (lk_gates lk) \<longrightarrow> \<not> fst (enter_gate c lk))"
proof -
  have inv: "lock_inv lk" unfolding assms by (rule leader.fold_inv) (simp add: lock_inv_def no_locks_def)
  have "distinct (filter snd (lk_gates lk))" using inv by (simp add: lock_inv_def distinct_map)
  moreover have held: "lk_holder lk = Some (fst g, 1)" if "g \<in> set (filter snd (lk_gates lk))" for g
    using inv that by (auto simp: lock_inv_def split: option.splits)
  have "g = h" if "g \<in> set (filter snd (lk_gates lk))" "h \<in> set (filter snd (lk_gates lk))" for g h
    using held [OF that(1)] held [OF that(2)] that by (intro prod_eqI) auto
  ultimately have "length (filter snd (lk_gates lk)) \<le> 1" by (intro distinct_at_most_one)
  moreover have "filter snd (lk_gates lk) = [] \<longleftrightarrow> lk_holder lk = None"
    using inv by (auto simp: lock_inv_def filter_empty_conv split: option.splits) force
  moreover have "c' \<in> fst ` set (lk_gates lk)" if "lk_holder lk = Some (c', n)" for c' n
    using inv that by (force simp: lock_inv_def)
  ultimately show ?thesis
    by (auto simp: enter_gate_def pg_try_advisory_lock_def Let_def split: option.splits)
qed

theorem single_leader_witness:
  "length (filter snd (lk_gates (fold gate_apply [Enter 1, Enter 2, Exit False 1, Enter 3, ProcessDies 3] no_locks))) \<le> 1"
  using single_leader [OF refl] by blast

section \<open>Intervals, pauses and stamps\<close>

record loop_settings =
  ls_chaos_enabled :: bool
  ls_llm_digest_interval_hours :: int
  ls_slo_evaluation_interval_seconds :: rat
  ls_metrics_interval_seconds :: rat

fun tick_interval_seconds :: "loop_settings \<Rightarrow> control_loop_name \<Rightarrow> rat option" where
  "tick_interval_seconds ls OUTBOX_RELAY = Some 1"
| "tick_interval_seconds ls DELAYED_RETRY_PROMOTE = Some (1 / 2)"
| "tick_interval_seconds ls DLQ_REPLAY_PROMOTE = Some (1 / 2)"
| "tick_interval_seconds ls RESUME_UNBLOCKED_WAITING = Some 10"
| "tick_interval_seconds ls STALE_PENDING_BACKSTOP = Some 60"
| "tick_interval_seconds ls STALE_RUNNING_SWEEP = Some 60"
| "tick_interval_seconds ls LEASE_RENEWAL = Some 20"
| "tick_interval_seconds ls IDEMPOTENCY_REAPER = Some 3600"
| "tick_interval_seconds ls DIGEST = Some (of_int (max 60 (ls_llm_digest_interval_hours ls * 3600)))"
| "tick_interval_seconds ls SLO_EVALUATION =
     (if 0 < ls_slo_evaluation_interval_seconds ls then Some (ls_slo_evaluation_interval_seconds ls) else None)"
| "tick_interval_seconds ls METRICS = Some (max 1 (ls_metrics_interval_seconds ls))"

text \<open>
  The pause keys (each with its expiry, if any) and the stamps of completed passes (time and expiry).
\<close>

record loop_store =
  lp_pause :: "control_loop_name \<Rightarrow> time option option"
  lp_stamp :: "control_loop_name \<Rightarrow> (time \<times> time) option"

definition empty_loop_store :: loop_store where
  "empty_loop_store = \<lparr>lp_pause = (\<lambda>_. None), lp_stamp = (\<lambda>_. None)\<rparr>"

definition pause_live :: "time \<Rightarrow> time option option \<Rightarrow> bool" where
  "pause_live now slot \<longleftrightarrow> (case slot of None \<Rightarrow> False | Some None \<Rightarrow> True | Some (Some expires) \<Rightarrow> now < expires)"

definition pause_lookup :: "bool \<Rightarrow> time \<Rightarrow> loop_store \<Rightarrow> control_loop_name \<Rightarrow> bool option" where
  "pause_lookup up now st l = (if up then Some (pause_live now (lp_pause st l)) else None)"

text \<open>The reader's half: it does not answer when Redis does not. \<open>None\<close> of the second part: no expiry;
  Redis answers a time to live in whole seconds, to the nearest.\<close>

definition loop_pause_state :: "bool \<Rightarrow> bool \<Rightarrow> time \<Rightarrow> loop_store \<Rightarrow> control_loop_name \<Rightarrow> (bool \<times> time option) option" where
  "loop_pause_state chaos_enabled up now st l =
     (if \<not> chaos_enabled then Some (False, None)
      else if \<not> up then None
      else (case lp_pause st l of
              None \<Rightarrow> Some (False, None)
            | Some None \<Rightarrow> Some (True, None)
            | Some (Some expires) \<Rightarrow> if now < expires then Some (True, Some (of_int (floor (expires - now + 1 / 2)))) else Some (False, None)))"

definition loop_run_ttl_seconds :: "control_loop_name \<Rightarrow> rat" where
  "loop_run_ttl_seconds l = (if l = OUTBOX_RELAY then 86400 else 3 * 86400)"

definition record_loop_run :: "bool \<Rightarrow> time \<Rightarrow> control_loop_name \<Rightarrow> loop_store \<Rightarrow> loop_store" where
  "record_loop_run up now l st =
     (if up then st\<lparr>lp_stamp := (lp_stamp st)(l \<mapsto> (now, now + loop_run_ttl_seconds l))\<rparr> else st)"

definition read_loop_run :: "bool \<Rightarrow> time \<Rightarrow> control_loop_name \<Rightarrow> loop_store \<Rightarrow> time option option" where
  "read_loop_run up now l st = (if up then Some (live_value now (lp_stamp st l)) else None)"

section \<open>Loop bodies\<close>

text \<open>
  What one turn meets: the clock, whether the pause key and the stamp reach Redis. A pass says whether
  it completed, and leaves its state either way.
\<close>

record turn_env =
  te_chaos :: bool
  te_now :: time
  te_pause_ok :: bool
  te_stamp_ok :: bool

definition turn_paused :: "turn_env \<Rightarrow> control_loop_name \<Rightarrow> loop_store \<Rightarrow> bool" where
  "turn_paused e l st = loop_is_paused (te_chaos e) (\<lambda>_. pause_lookup (te_pause_ok e) (te_now e) st l) l"

definition timed_turn ::
    "turn_env \<Rightarrow> control_loop_name \<Rightarrow> ('s \<Rightarrow> bool \<times> 's) \<Rightarrow> loop_store \<times> 's \<Rightarrow> loop_store \<times> 's" where
  "timed_turn e l pass = (\<lambda>(st, s).
     if turn_paused e l st then (st, s)
     else (let (completed, s') = pass s
           in (if completed then record_loop_run (te_stamp_ok e) (te_now e) l st else st, s')))"

definition promote_delayed_turn where
  "promote_delayed_turn e cfg flags db_ok push_ok = (\<lambda>(sv, st, s).
     (worker_tick (te_now e) sv,
      timed_turn e DELAYED_RETRY_PROMOTE (\<lambda>s. (True, promote_delayed_once cfg (te_now e) flags db_ok push_ok s)) (st, s)))"

definition promote_dlq_replay_turn where
  "promote_dlq_replay_turn e cfg flags =
     timed_turn e DLQ_REPLAY_PROMOTE (\<lambda>s. (True, promote_dlq_replay_once cfg (te_now e) flags s))"

text \<open>The cursor is kept across a pause and reset by a pass that fails.\<close>

definition resume_turn where
  "resume_turn e cfg flags db_ok =
     timed_turn e RESUME_UNBLOCKED_WAITING (\<lambda>(cursor, d).
       if db_ok then (True, resume_unblocked_waiting_once cfg (te_now e) flags cursor d) else (False, None, d))"

definition requeue_turn where
  "requeue_turn e cfg r db_ok =
     timed_turn e STALE_PENDING_BACKSTOP (\<lambda>d. if db_ok then (True, requeue_stale_pending_once cfg (te_now e) r d) else (False, d))"

definition renew_leases_turn where
  "renew_leases_turn e threshold held_ids =
     timed_turn e LEASE_RENEWAL (\<lambda>d. case renew_running_leases_once (te_now e) threshold held_ids d of
       Inl _ \<Rightarrow> (False, d) | Inr (_, d') \<Rightarrow> (True, d'))"

definition sweep_running_turn where
  "sweep_running_turn e cfg threshold held_ids db_ok =
     timed_turn e STALE_RUNNING_SWEEP (\<lambda>d.
       if db_ok then (True, snd (sweep_stale_running_once cfg (te_now e) (te_now e) threshold held_ids d)) else (False, d))"

definition reaper_turn where
  "reaper_turn e db_ok =
     timed_turn e IDEMPOTENCY_REAPER (\<lambda>d. if db_ok then (True, snd (delete_expired (te_now e) d)) else (False, d))"

text \<open>The relay's turn enters the gate, and checks the pause inside it.\<close>

definition relay_turn where
  "relay_turn e cfg publish c release_ok = (\<lambda>(lk, st, d).
     (let (is_leader, lk1) = enter_gate c lk;
          (st1, d1) = (if is_leader then timed_turn e OUTBOX_RELAY (\<lambda>d. (True, outbox_relay_tick cfg (te_now e) publish d)) (st, d)
                       else (st, d))
      in (leave_gate release_ok c lk1, st1, d1)))"

section \<open>The reading (\<open>mcp/tools/control_loops.py\<close>)\<close>

definition all_loops :: "control_loop_name list" where
  "all_loops = [OUTBOX_RELAY, DELAYED_RETRY_PROMOTE, DLQ_REPLAY_PROMOTE, RESUME_UNBLOCKED_WAITING, STALE_PENDING_BACKSTOP,
     STALE_RUNNING_SWEEP, LEASE_RENEWAL, SLO_EVALUATION, METRICS, DIGEST, IDEMPOTENCY_REAPER]"

record control_loop_state =
  cs_name :: control_loop_name
  cs_paused :: "bool option"
  cs_paused_expires_in_seconds :: "time option"
  cs_tick_interval_seconds :: "rat option"
  cs_last_run_at :: "time option"
  cs_last_run_age_seconds :: "time option"

definition loop_age_seconds :: "time \<Rightarrow> time option \<Rightarrow> time option" where
  "loop_age_seconds read_at last_run = map_option (\<lambda>t. of_int (py_round (max 0 (read_at - t) * 10)) / 10) last_run"

definition loop_state :: "loop_settings \<Rightarrow> bool \<Rightarrow> time \<Rightarrow> loop_store \<Rightarrow> control_loop_name \<Rightarrow> control_loop_state option" where
  "loop_state ls up read_at st l =
     (case loop_pause_state (ls_chaos_enabled ls) up read_at st l of
        None \<Rightarrow> None
      | Some (paused, expires_in) \<Rightarrow>
          (case read_loop_run up read_at l st of
             None \<Rightarrow> None
           | Some last_run_at \<Rightarrow>
               Some \<lparr>cs_name = l, cs_paused = Some paused, cs_paused_expires_in_seconds = expires_in,
                     cs_tick_interval_seconds = tick_interval_seconds ls l, cs_last_run_at = last_run_at,
                     cs_last_run_age_seconds = loop_age_seconds read_at last_run_at\<rparr>))"

text \<open>All of them, or none and the reason why.\<close>

definition get_control_loops :: "loop_settings \<Rightarrow> bool \<Rightarrow> time \<Rightarrow> loop_store \<Rightarrow> control_loop_state list \<times> bool" where
  "get_control_loops ls up read_at st =
     (let states = map (loop_state ls up read_at st) all_loops
      in if None \<in> set states
         then (map (\<lambda>l. \<lparr>cs_name = l, cs_paused = None, cs_paused_expires_in_seconds = None,
                 cs_tick_interval_seconds = tick_interval_seconds ls l, cs_last_run_at = None, cs_last_run_age_seconds = None\<rparr>)
                all_loops, True)
         else (map the states, False))"

datatype loop_event = Turn turn_env control_loop_name bool | SetPause control_loop_name "time option option"

fun loop_apply :: "loop_event \<Rightarrow> loop_store \<Rightarrow> loop_store" where
  "loop_apply (Turn e l completed) st = fst (timed_turn e l (\<lambda>s. (completed, s)) (st, ()))"
| "loop_apply (SetPause l slot) st = st\<lparr>lp_pause := (lp_pause st)(l := slot)\<rparr>"

text \<open>The turn stamped its loop: it was not paused, its pass completed, and Redis took the stamp.\<close>

definition stamps :: "loop_event \<Rightarrow> control_loop_name \<Rightarrow> loop_store \<Rightarrow> time \<Rightarrow> bool" where
  "stamps ev l st t \<longleftrightarrow> (case ev of
     Turn e l' completed \<Rightarrow> l' = l \<and> completed \<and> te_stamp_ok e \<and> te_now e = t \<and> \<not> turn_paused e l st | SetPause _ _ \<Rightarrow> False)"

lemma loop_apply_stamp:
  "lp_stamp (loop_apply ev st) l =
     (if \<exists>t. stamps ev l st t then Some (let t = (case ev of Turn e _ _ \<Rightarrow> te_now e) in (t, t + loop_run_ttl_seconds l))
      else lp_stamp st l)"
  by (cases ev) (auto simp: stamps_def timed_turn_def record_loop_run_def Let_def)

lemma stamp_origin:
  assumes "lp_stamp (fold loop_apply evs empty_loop_store) l = Some (t, expires)"
  shows "expires = t + loop_run_ttl_seconds l
    \<and> (\<exists>pre ev post. evs = pre @ ev # post \<and> stamps ev l (fold loop_apply pre empty_loop_store) t)"
  using assms
proof (induction evs rule: rev_induct)
  case Nil
  then show ?case by (simp add: empty_loop_store_def)
next
  case (snoc ev evs)
  let ?st = "fold loop_apply evs empty_loop_store"
  show ?case
  proof (cases "\<exists>t. stamps ev l ?st t")
    case True
    then have "t = (case ev of Turn e _ _ \<Rightarrow> te_now e) \<and> expires = t + loop_run_ttl_seconds l"
      using snoc.prems by (simp add: loop_apply_stamp Let_def)
    moreover have "stamps ev l ?st (case ev of Turn e _ _ \<Rightarrow> te_now e)" using True by (auto simp: stamps_def split: loop_event.splits)
    ultimately show ?thesis by (metis append_Nil2 append_eq_append_conv2)
  next
    case False
    then have "lp_stamp ?st l = Some (t, expires)" using snoc.prems by (simp add: loop_apply_stamp)
    from snoc.IH [OF this] show ?thesis by fastforce
  qed
qed

lemma pause_state_agrees:
  assumes "te_chaos e = ls_chaos_enabled ls" "te_now e = t" "te_pause_ok e"
  shows "\<exists>x. loop_pause_state (ls_chaos_enabled ls) True t st l = Some (turn_paused e l st, x)"
  using assms
  by (auto simp: loop_pause_state_def turn_paused_def loop_is_paused_def pause_lookup_def pause_live_def split: option.splits)

lemma loop_state_some:
  "\<exists>r. loop_state ls True t st l = Some r"
  by (auto simp: loop_state_def loop_pause_state_def read_loop_run_def split: option.splits)

lemma get_control_loops_up:
  "get_control_loops ls True t st = (map (\<lambda>l. the (loop_state ls True t st l)) all_loops, False)"
proof -
  have "None \<notin> set (map (loop_state ls True t st) all_loops)" using loop_state_some [of ls t st] by (metis (no_types, lifting) imageE list.set_map option.distinct(1))
  then show ?thesis by (simp add: get_control_loops_def Let_def)
qed

text \<open>
  The reading of the background loops says what is so. It lists every loop; a loop is
  reported paused exactly when its own next turn at that moment would skip its work; a last run is the
  time of a pass that completed while the loop was not paused, so a loop that only keeps turning, paused
  or failing, never looks alive; and the last stamped pass is reported until its record expires. When
  Redis does not answer, nothing is claimed about any loop.
\<close>

theorem loop_reading_truthful:
  assumes "st = fold loop_apply evs empty_loop_store" "get_control_loops ls True t st = (rs, unknown)" "r \<in> set rs"
    and "te_chaos e = ls_chaos_enabled ls" "te_now e = t" "te_pause_ok e"
  shows "\<not> unknown \<and> map cs_name rs = all_loops \<and> l \<in> set all_loops
    \<and> cs_paused r = Some (turn_paused e (cs_name r) st)
    \<and> (\<forall>t0. cs_last_run_at r = Some t0 \<longrightarrow>
         (\<exists>pre ev post. evs = pre @ ev # post \<and> stamps ev (cs_name r) (fold loop_apply pre empty_loop_store) t0))
    \<and> (stamps ev (cs_name r) st t1 \<and> t < t1 + loop_run_ttl_seconds (cs_name r) \<longrightarrow>
         read_loop_run True t (cs_name r) (loop_apply ev st) = Some (Some t1))
    \<and> snd (get_control_loops ls False t st)
    \<and> list_all (\<lambda>r. cs_paused r = None \<and> cs_last_run_at r = None) (fst (get_control_loops ls False t st))"
proof -
  have rs: "rs = map (\<lambda>l. the (loop_state ls True t st l)) all_loops" "\<not> unknown"
    using assms(2) by (simp_all add: get_control_loops_up)
  have name: "cs_name (the (loop_state ls True t st l)) = l" for l
    by (auto simp: loop_state_def loop_pause_state_def read_loop_run_def split: option.splits)
  obtain l0 where l0: "r = the (loop_state ls True t st l0)" using assms(3) rs by auto
  obtain x where x: "loop_pause_state (ls_chaos_enabled ls) True t st l0 = Some (turn_paused e l0 st, x)"
    using pause_state_agrees [OF assms(4-6)] by blast
  have r: "cs_name r = l0" "cs_paused r = Some (turn_paused e l0 st)" "cs_last_run_at r = live_value t (lp_stamp st l0)"
    using x by (simp_all add: l0 name) (simp_all add: loop_state_def read_loop_run_def)
  have "\<exists>pre ev post. evs = pre @ ev # post \<and> stamps ev l0 (fold loop_apply pre empty_loop_store) t0"
    if "cs_last_run_at r = Some t0" for t0
    using that stamp_origin [of evs l0 t0] by (auto simp: r(3) live_value_def assms(1) split: option.splits if_splits)
  moreover have "read_loop_run True t l0 (loop_apply ev st) = Some (Some t1)"
    if "stamps ev l0 st t1 \<and> t < t1 + loop_run_ttl_seconds l0"
    using that by (auto simp: read_loop_run_def loop_apply_stamp live_value_def stamps_def Let_def split: loop_event.splits)
  moreover have "l \<in> set all_loops" by (cases l) (simp_all add: all_loops_def)
  moreover have "map cs_name rs = all_loops" by (simp add: rs(1) name comp_def)
  moreover have "None \<in> set (map (loop_state ls False t st) all_loops)"
    by (auto simp: all_loops_def loop_state_def read_loop_run_def split: option.splits)
  ultimately show ?thesis
    using rs(2) r by (auto simp: get_control_loops_def Let_def list_all_iff)
qed

definition lab_loops :: loop_settings where
  "lab_loops = \<lparr>ls_chaos_enabled = True, ls_llm_digest_interval_hours = 24, ls_slo_evaluation_interval_seconds = 60,
     ls_metrics_interval_seconds = 60\<rparr>"

theorem loop_reading_truthful_witness:
  "cs_paused (hd (fst (get_control_loops lab_loops True 8 (fold loop_apply [SetPause OUTBOX_RELAY (Some None)] empty_loop_store)))) = Some True"
proof -
  let ?st = "fold loop_apply [SetPause OUTBOX_RELAY (Some None)] empty_loop_store"
  let ?e = "\<lparr>te_chaos = True, te_now = 8, te_pause_ok = True, te_stamp_ok = True\<rparr>"
  obtain rs u where g: "get_control_loops lab_loops True 8 ?st = (rs, u)" by fastforce
  then have rs: "rs = map (\<lambda>l. the (loop_state lab_loops True 8 ?st l)) all_loops" by (simp add: get_control_loops_up)
  then have "hd rs \<in> set rs" by (intro hd_in_set) (simp add: all_loops_def)
  from loop_reading_truthful [OF refl g this, of ?e] have "cs_paused (hd rs) = Some (turn_paused ?e (cs_name (hd rs)) ?st)"
      "map cs_name rs = all_loops"
    by (simp_all add: lab_loops_def)
  moreover have "cs_name (hd rs) = OUTBOX_RELAY" using \<open>map cs_name rs = all_loops\<close> by (cases rs) (simp_all add: all_loops_def)
  ultimately have "cs_paused (hd rs) = Some True"
    by (simp add: turn_paused_def loop_is_paused_def pause_lookup_def pause_live_def empty_loop_store_def)
  then show ?thesis unfolding g fst_conv .
qed

end
