(* ===== verification/Alerts.thy ===== *)
theory Alerts
  imports Consumer_Lag Control_Loops Job_Repository
begin

text \<open>
  Alerts and the rules that raise them: \<open>models/alert.py\<close>, \<open>repositories/alert.py\<close>,
  \<open>services/alerts.py\<close>, the episodes of \<open>services/alert_rules.py\<close>, and the metrics pass of
  \<open>workers/dispatcher.py\<close> that evaluates them. The statements of one raise are separate steps, since
  other replicas commit between them.
\<close>

section \<open>Rows and queries (\<open>models/alert.py\<close>, \<open>repositories/alert.py\<close>)\<close>

definition severity_critical :: string where
  "severity_critical = ''critical''"

definition allowed_severities :: "string list" where
  "allowed_severities = [''low'', ''info'', ''warning'', severity_critical]"

definition default_tenant_id :: uuid where
  "default_tenant_id = 281765665447109945354575765614876039134"

record alert =
  al_id :: uuid
  al_tenant_id :: uuid
  al_severity :: string
  al_source :: string
  al_title :: string
  al_description :: "string option"
  al_fired_at :: time
  al_resolved_at :: "time option"
  al_extra_data :: "dict option"
  al_request_id :: "string option"
  al_dedup_key :: "string option"

text \<open>The database, the alerts table, and the deliveries that were attempted.\<close>

record webhook_request =
  wr_url :: string
  wr_body :: string
  wr_signature :: string
  wr_timestamp :: string
  wr_nonce :: string

record alert_state =
  at_db :: db
  at_alerts :: "alert list"
  at_sent :: "webhook_request list"

abbreviation open_row :: "alert \<Rightarrow> bool" where
  "open_row a \<equiv> al_resolved_at a = None"

definition newest_alerts :: "(alert \<Rightarrow> bool) \<Rightarrow> alert list \<Rightarrow> alert list" where
  "newest_alerts P rows = sort_key (\<lambda>a. - al_fired_at a) (sort_key (\<lambda>a. - int (al_id a)) (filter P rows))"

definition list_for_tenant ::
    "uuid \<Rightarrow> bool option \<Rightarrow> string option \<Rightarrow> nat \<Rightarrow> nat \<Rightarrow> alert list \<Rightarrow> alert list \<times> nat" where
  "list_for_tenant tenant_id active severity offset limit rows =
     (let P = (\<lambda>a. al_tenant_id a = tenant_id \<and> if_given active (\<lambda>b. open_row a = b)
                \<and> if_given severity (\<lambda>s. al_severity a = s))
      in (take limit (drop offset (newest_alerts P rows)), row_count P rows))"

definition list_active_for_tenant :: "uuid \<Rightarrow> nat \<Rightarrow> nat \<Rightarrow> string option \<Rightarrow> alert list \<Rightarrow> alert list \<times> nat" where
  "list_active_for_tenant tenant_id offset limit severity rows =
     (let P = (\<lambda>a. al_tenant_id a = tenant_id \<and> open_row a \<and> if_given severity (\<lambda>s. al_severity a = s))
      in (take limit (drop offset (sort_key (\<lambda>a. - al_fired_at a) (filter P rows))), row_count P rows))"

section \<open>The service (\<open>services/alerts.py\<close>)\<close>

text \<open>
  What the service reads: the webhook settings, the runtime's text of floats and times, and
  \<open>hmac.new(key, message, sha256).hexdigest()\<close>; of the rules, their switch and thresholds.
\<close>

record alert_config =
  ac_webhook_url :: "string option"
  ac_webhook_secret :: "string option"
  ac_hmac :: "string \<Rightarrow> string \<Rightarrow> string"
  ac_float_repr :: "rat \<Rightarrow> string"
  ac_codec :: codec
  ac_rules_enabled :: bool
  ac_consumer_lag_threshold :: int
  ac_dlq_depth_threshold :: int
  ac_dedup_window_seconds :: rat

datatype alert_error = AlertValidationError string | AlertConflict | ZeroDivisionError

record alert_req =
  rq_tenant_id :: uuid
  rq_severity :: string
  rq_source :: string
  rq_title :: string
  rq_description :: "string option"
  rq_extra_data :: "dict option"
  rq_dedup_key :: "string option"

definition webhook_payload :: "alert_config \<Rightarrow> alert \<Rightarrow> dict" where
  "webhook_payload cfg a =
     [(''alert_id'', juuid (al_id a)), (''tenant_id'', juuid (al_tenant_id a)),
      (''severity'', JStr (al_severity a)), (''source'', JStr (al_source a)), (''title'', JStr (al_title a)),
      (''description'', jstr_opt (al_description a)), (''fired_at'', JStr (iso (ac_codec cfg) (al_fired_at a))),
      (''extra_data'', JObj (case al_extra_data a of None \<Rightarrow> [] | Some d \<Rightarrow> d))]"

definition signed_material :: "string \<Rightarrow> string \<Rightarrow> string \<Rightarrow> string" where
  "signed_material timestamp nonce body = timestamp @ ''.'' @ nonce @ ''.'' @ body"

definition sign_delivery :: "alert_config \<Rightarrow> string \<Rightarrow> string \<Rightarrow> string \<Rightarrow> string \<Rightarrow> string" where
  "sign_delivery cfg secret timestamp nonce body =
     ''sha256='' @ ac_hmac cfg secret (signed_material timestamp nonce body)"

definition deliver_webhook :: "alert_config \<Rightarrow> time \<Rightarrow> uuid \<Rightarrow> dict \<Rightarrow> webhook_request option" where
  "deliver_webhook cfg now nonce_id payload =
     (case (ac_webhook_url cfg, ac_webhook_secret cfg) of
        (Some url, Some secret) \<Rightarrow>
          if url = [] \<or> secret = [] then None
          else (let body = canonical_dumps (ac_float_repr cfg) [] (JObj payload);
                    timestamp = show_int \<lfloor>now * 1000\<rfloor>;
                    nonce = hex_fixed 32 nonce_id
                in Some \<lparr>wr_url = url, wr_body = body, wr_signature = sign_delivery cfg secret timestamp nonce body,
                         wr_timestamp = timestamp, wr_nonce = nonce\<rparr>)
      | _ \<Rightarrow> None)"

definition run_delivery :: "alert_config \<Rightarrow> time \<Rightarrow> dict \<Rightarrow> alert_state \<Rightarrow> alert_state" where
  "run_delivery cfg now payload s =
     (case deliver_webhook cfg now (next_uuid (at_db s)) payload of
        None \<Rightarrow> s
      | Some r \<Rightarrow> s\<lparr>at_sent := at_sent s @ [r], at_db := (at_db s)\<lparr>next_uuid := Suc (next_uuid (at_db s))\<rparr>\<rparr>)"

text \<open>The unique constraint on \<open>(tenant_id, dedup_key)\<close>; rows without a key do not collide.\<close>

definition key_taken :: "uuid \<Rightarrow> string option \<Rightarrow> alert list \<Rightarrow> bool" where
  "key_taken tenant_id key rows \<longleftrightarrow> key \<noteq> None \<and> list_ex (\<lambda>a. al_tenant_id a = tenant_id \<and> al_dedup_key a = key) rows"

definition create_alert :: "time \<Rightarrow> string \<Rightarrow> alert_req \<Rightarrow> alert_state \<Rightarrow> (alert_error + alert) \<times> alert_state" where
  "create_alert now request_id rq s =
     (if rq_severity rq \<notin> set allowed_severities
      then (Inl (AlertValidationError (''Unknown severity '' @ py_repr (rq_severity rq) @ ''; allowed: '' @
              py_repr_list [''critical'', ''info'', ''low'', ''warning''])), s)
      else if rq_title rq = [] then (Inl (AlertValidationError ''Alert title must not be empty''), s)
      else if key_taken (rq_tenant_id rq) (rq_dedup_key rq) (at_alerts s) then (Inl AlertConflict, s)
      else (let a = \<lparr>al_id = next_uuid (at_db s), al_tenant_id = rq_tenant_id rq, al_severity = rq_severity rq,
                     al_source = rq_source rq, al_title = rq_title rq, al_description = rq_description rq,
                     al_fired_at = now, al_resolved_at = None, al_extra_data = rq_extra_data rq,
                     al_request_id = (if request_id = [] then None else Some request_id),
                     al_dedup_key = rq_dedup_key rq\<rparr>
            in (Inr a, s\<lparr>at_alerts := at_alerts s @ [a], at_db := (at_db s)\<lparr>next_uuid := Suc (next_uuid (at_db s))\<rparr>\<rparr>)))"

section \<open>Episodes (\<open>services/alert_rules.py\<close>)\<close>

definition consumer_stalled_fingerprint :: string where
  "consumer_stalled_fingerprint = ''consumer_stalled''"

definition dlq_depth_fingerprint :: string where
  "dlq_depth_fingerprint = ''dlq_depth_warning''"

definition consumer_lag_alert_source :: string where
  "consumer_lag_alert_source = ''kafka:consumer_lag''"

definition dlq_depth_alert_source :: string where
  "dlq_depth_alert_source = ''dlq:threshold''"

definition dlq_subject :: string where
  "dlq_subject = ''total''"

definition alert_raised_action :: string where
  "alert_raised_action = ''alert.raised''"

definition alert_resolved_action :: string where
  "alert_resolved_action = ''alert.resolved''"

definition alert_resource_type :: string where
  "alert_resource_type = ''alert''"

definition dedup_namespace :: string where
  "dedup_namespace = ''rule''"

record episode =
  ep_fingerprint :: string
  ep_subject :: string
  ep_tenant_id :: uuid
  ep_source :: string
  ep_title :: string
  ep_summary :: string
  ep_payload :: dict

definition dedup_prefix :: "string \<Rightarrow> string \<Rightarrow> string" where
  "dedup_prefix fingerprint subject = dedup_namespace @ '':'' @ fingerprint @ '':'' @ subject @ '':''"

definition dedup_key :: "string \<Rightarrow> string \<Rightarrow> nat \<Rightarrow> string" where
  "dedup_key fingerprint subject ordinal = dedup_prefix fingerprint subject @ show_nat ordinal"

definition startswith :: "string \<Rightarrow> string option \<Rightarrow> bool" where
  "startswith prefix key = (case key of None \<Rightarrow> False | Some k \<Rightarrow> take (length prefix) k = prefix)"

abbreviation in_series :: "uuid \<Rightarrow> string \<Rightarrow> alert \<Rightarrow> bool" where
  "in_series tenant_id prefix a \<equiv> al_tenant_id a = tenant_id \<and> startswith prefix (al_dedup_key a)"

definition open_alert :: "uuid \<Rightarrow> string \<Rightarrow> alert_state \<Rightarrow> alert option" where
  "open_alert tenant_id prefix s =
     (case sort_key (\<lambda>a. - al_fired_at a) (filter (\<lambda>a. in_series tenant_id prefix a \<and> open_row a) (at_alerts s)) of
        [] \<Rightarrow> None | a # _ \<Rightarrow> Some a)"

definition episodes_so_far :: "uuid \<Rightarrow> string \<Rightarrow> alert_state \<Rightarrow> nat" where
  "episodes_so_far tenant_id prefix s = row_count (in_series tenant_id prefix) (at_alerts s)"

definition record_transition :: "string \<Rightarrow> alert \<Rightarrow> string \<Rightarrow> string \<Rightarrow> string \<Rightarrow> dict \<Rightarrow> alert_state \<Rightarrow> alert_state" where
  "record_transition action a fingerprint subject summary extra s =
     s\<lparr>at_db := audit_log_write action (al_tenant_id a)
        (no_args\<lparr>aa_principal_type := Some ''service_account'', aa_resource_type := Some alert_resource_type,
                 aa_resource_id := Some (uuid_str (al_id a)),
                 aa_extra_data := Some ([(''alert_id'', juuid (al_id a)), (''fingerprint'', JStr fingerprint),
                   (''subject'', JStr subject), (''source'', JStr (al_source a)), (''severity'', JStr (al_severity a)),
                   (''summary'', JStr summary), (''dedup_key'', jstr_opt (al_dedup_key a))] @ extra)\<rparr>) (at_db s)\<rparr>"

text \<open>
  The three statements of a raise: the look for an open alert, the count, and the insert with its audit
  row, at whose commit the unique constraint speaks; the delivery follows the commit.
\<close>

definition raise_clear :: "episode \<Rightarrow> alert_state \<Rightarrow> bool" where
  "raise_clear ep s \<longleftrightarrow> open_alert (ep_tenant_id ep) (dedup_prefix (ep_fingerprint ep) (ep_subject ep)) s = None"

definition raise_ordinal :: "episode \<Rightarrow> alert_state \<Rightarrow> nat" where
  "raise_ordinal ep s = episodes_so_far (ep_tenant_id ep) (dedup_prefix (ep_fingerprint ep) (ep_subject ep)) s"

definition raise_insert ::
    "alert_config \<Rightarrow> time \<Rightarrow> episode \<Rightarrow> nat \<Rightarrow> alert_state \<Rightarrow> (alert_error + uuid option) \<times> alert_state" where
  "raise_insert cfg now ep ordinal s =
     (case create_alert now [] \<lparr>rq_tenant_id = ep_tenant_id ep, rq_severity = severity_critical, rq_source = ep_source ep,
             rq_title = ep_title ep, rq_description = Some (ep_summary ep), rq_extra_data = Some (ep_payload ep),
             rq_dedup_key = Some (dedup_key (ep_fingerprint ep) (ep_subject ep) ordinal)\<rparr> s of
        (Inl AlertConflict, _) \<Rightarrow> (Inr None, s)
      | (Inl e, _) \<Rightarrow> (Inl e, s)
      | (Inr a, s1) \<Rightarrow>
          (Inr (Some (al_id a)),
           run_delivery cfg now (webhook_payload cfg a)
             (record_transition alert_raised_action a (ep_fingerprint ep) (ep_subject ep) (ep_summary ep) [] s1)))"

definition raise_episode ::
    "alert_config \<Rightarrow> time \<Rightarrow> episode \<Rightarrow> alert_state \<Rightarrow> (alert_error + uuid option) \<times> alert_state" where
  "raise_episode cfg now ep s =
     (if raise_clear ep s then raise_insert cfg now ep (raise_ordinal ep s) s else (Inr None, s))"

definition resolve_row :: "time \<Rightarrow> uuid \<Rightarrow> alert_state \<Rightarrow> alert_state" where
  "resolve_row now i s = s\<lparr>at_alerts := update_where (\<lambda>a. al_id a = i) (\<lambda>a. a\<lparr>al_resolved_at := Some now\<rparr>) (at_alerts s)\<rparr>"

definition resolve_episode :: "time \<Rightarrow> uuid \<Rightarrow> string \<Rightarrow> string \<Rightarrow> string \<Rightarrow> alert_state \<Rightarrow> uuid option \<times> alert_state" where
  "resolve_episode now tenant_id fingerprint subject reason s =
     (case open_alert tenant_id (dedup_prefix fingerprint subject) s of
        None \<Rightarrow> (None, s)
      | Some a \<Rightarrow>
          (Some (al_id a),
           record_transition alert_resolved_action a fingerprint subject (subject @ '': '' @ reason)
             [(''resolved_reason'', JStr reason)] (resolve_row now (al_id a) s)))"

section \<open>The rules\<close>

record rule_outcome =
  ro_raised :: "uuid list"
  ro_resolved :: "uuid list"

definition quiet :: rule_outcome where
  "quiet = \<lparr>ro_raised = [], ro_resolved = []\<rparr>"

text \<open>One step after the other; an error ends the sequence, what was committed stays.\<close>

fun each :: "('x \<Rightarrow> 's \<Rightarrow> ('e + uuid option) \<times> 's) \<Rightarrow> 'x list \<Rightarrow> 's \<Rightarrow> ('e + uuid list) \<times> 's" where
  "each f [] s = (Inr [], s)"
| "each f (x # xs) s =
     (case f x s of
        (Inl e, s1) \<Rightarrow> (Inl e, s1)
      | (Inr i, s1) \<Rightarrow>
          (case each f xs s1 of
             (Inl e, s2) \<Rightarrow> (Inl e, s2)
           | (Inr is, s2) \<Rightarrow> (Inr (case i of None \<Rightarrow> is | Some i \<Rightarrow> i # is), s2)))"

definition lag_summary :: "codec \<Rightarrow> string \<Rightarrow> lag_sample \<Rightarrow> int \<Rightarrow> string" where
  "lag_summary c grp sample threshold =
     grp @ '' is '' @ show_int (smp_lag sample) @ '' messages behind (threshold '' @ show_int threshold @
     ''); the group holds its assignment and keeps reporting, so the backlog is real. Measured at '' @
     iso c (smp_measured_at sample) @ ''.''"

definition lag_payload :: "codec \<Rightarrow> string \<Rightarrow> lag_sample \<Rightarrow> int \<Rightarrow> string \<Rightarrow> dict" where
  "lag_payload c grp sample threshold summary =
     [(''fingerprint'', JStr consumer_stalled_fingerprint), (''severity'', JStr severity_critical),
      (''source'', JStr consumer_lag_alert_source), (''consumer_group'', JStr grp), (''group'', JStr grp),
      (''lag'', JInt (smp_lag sample)), (''measured_at'', JStr (iso c (smp_measured_at sample))),
      (''threshold'', JInt threshold), (''summary'', JStr summary)]"

definition measured_groups :: "string list" where
  "measured_groups = filter (\<lambda>g. source_for g = live) paged_lag_groups"

definition lag_episode :: "codec \<Rightarrow> string \<Rightarrow> lag_sample \<Rightarrow> int \<Rightarrow> episode" where
  "lag_episode c grp sample threshold =
     (let summary = lag_summary c grp sample threshold
      in \<lparr>ep_fingerprint = consumer_stalled_fingerprint, ep_subject = grp, ep_tenant_id = default_tenant_id,
          ep_source = consumer_lag_alert_source,
          ep_title = ''Consumer lag on '' @ grp @ '': '' @ show_int (smp_lag sample) @ '' messages behind'',
          ep_summary = summary, ep_payload = lag_payload c grp sample threshold summary\<rparr>)"

text \<open>One group of the lag rule: a breach raises, a measured recovery resolves, no measurement does neither.\<close>

definition lag_rule_step ::
    "alert_config \<Rightarrow> time \<Rightarrow> lag_store \<Rightarrow> string \<Rightarrow> rule_outcome \<times> alert_state \<Rightarrow> (alert_error + rule_outcome) \<times> alert_state" where
  "lag_rule_step cfg now st grp = (\<lambda>(out, s).
     case lr_recent_samples (read_lag (ac_codec cfg) now grp st) of
       [] \<Rightarrow> (Inr out, s)
     | sample # _ \<Rightarrow>
         (let threshold = ac_consumer_lag_threshold cfg
          in if threshold \<le> smp_lag sample
             then (case raise_episode cfg now (lag_episode (ac_codec cfg) grp sample threshold) s of
                     (Inl e, s1) \<Rightarrow> (Inl e, s1)
                   | (Inr i, s1) \<Rightarrow> (Inr (out\<lparr>ro_raised := ro_raised out @ (case i of None \<Rightarrow> [] | Some i \<Rightarrow> [i])\<rparr>), s1))
             else (case resolve_episode now default_tenant_id consumer_stalled_fingerprint grp
                          (''lag measured at '' @ show_int (smp_lag sample) @ '', below the threshold of '' @ show_int threshold) s of
                     (i, s1) \<Rightarrow> (Inr (out\<lparr>ro_resolved := ro_resolved out @ (case i of None \<Rightarrow> [] | Some i \<Rightarrow> [i])\<rparr>), s1))))"

fun lag_rule :: "alert_config \<Rightarrow> time \<Rightarrow> lag_store \<Rightarrow> string list \<Rightarrow> rule_outcome \<times> alert_state \<Rightarrow> (alert_error + rule_outcome) \<times> alert_state" where
  "lag_rule cfg now st [] (out, s) = (Inr out, s)"
| "lag_rule cfg now st (g # gs) (out, s) =
     (case lag_rule_step cfg now st g (out, s) of
        (Inl e, s1) \<Rightarrow> (Inl e, s1)
      | (Inr out1, s1) \<Rightarrow> lag_rule cfg now st gs (out1, s1))"

definition evaluate_consumer_lag ::
    "alert_config \<Rightarrow> time \<Rightarrow> lag_store \<Rightarrow> alert_state \<Rightarrow> (alert_error + rule_outcome) \<times> alert_state" where
  "evaluate_consumer_lag cfg now st s = lag_rule cfg now st measured_groups (quiet, s)"

definition dlq_summary :: "nat \<Rightarrow> int \<Rightarrow> string option \<Rightarrow> string" where
  "dlq_summary depth threshold hint =
     show_nat depth @ '' jobs are in the dead-letter queue (threshold '' @ show_int threshold @ '').'' @
     (case hint of
        Some h \<Rightarrow> '' The rows above the baseline are categorised `'' @ h @ ''`.''
      | None \<Rightarrow> '' The rows above the baseline carry no category yet.'')"

definition dlq_payload :: "codec \<Rightarrow> nat \<Rightarrow> int \<Rightarrow> string option \<Rightarrow> string \<Rightarrow> time \<Rightarrow> dict" where
  "dlq_payload c depth threshold hint summary seen_at =
     [(''fingerprint'', JStr dlq_depth_fingerprint), (''severity'', JStr severity_critical),
      (''source'', JStr dlq_depth_alert_source), (''dlq_depth'', JInt (int depth)), (''threshold'', JInt threshold),
      (''remediation_hint'', jstr_opt hint), (''dlq_scope'', if hint = None then JStr ''unclassified'' else JNull),
      (''measured_at'', JStr (iso c seen_at)), (''summary'', JStr summary)]"

definition dead_lettered :: "uuid \<Rightarrow> job \<Rightarrow> bool" where
  "dead_lettered tenant_id j \<longleftrightarrow> j_tenant_id j = tenant_id \<and> j_status j = DEAD_LETTER"

definition dlq_depth :: "uuid \<Rightarrow> db \<Rightarrow> nat" where
  "dlq_depth tenant_id d = row_count (dead_lettered tenant_id) (jobs d)"

definition dlq_depth_by_tenant :: "db \<Rightarrow> (uuid \<times> nat) list" where
  "dlq_depth_by_tenant d =
     map (\<lambda>t. (t, dlq_depth t d)) (remdups (map j_tenant_id (filter (\<lambda>j. j_status j = DEAD_LETTER) (jobs d))))"

definition dominant_hint_above_baseline :: "uuid \<Rightarrow> int \<Rightarrow> db \<Rightarrow> string option" where
  "dominant_hint_above_baseline tenant_id n_above d =
     (if n_above \<le> 0 then None
      else (let rows = take (nat n_above) (sort_key (\<lambda>j. - sort_column SORT_DEAD_LETTERED_AT j)
                         (sort_key (\<lambda>j. - int (j_id j)) (filter (dead_lettered tenant_id) (jobs d))));
                categories = remdups (List.map_filter j_remediation_hint rows)
            in case categories of [h] \<Rightarrow> Some h | _ \<Rightarrow> None))"

definition breaching_tenants :: "int \<Rightarrow> db \<Rightarrow> (uuid \<times> nat \<times> string option) list" where
  "breaching_tenants threshold d =
     map (\<lambda>(t, depth). (t, depth, dominant_hint_above_baseline t (int depth - (threshold - 1)) d))
       (filter (\<lambda>(t, depth). threshold \<le> int depth) (dlq_depth_by_tenant d))"

definition dlq_episode :: "codec \<Rightarrow> time \<Rightarrow> int \<Rightarrow> uuid \<times> nat \<times> string option \<Rightarrow> episode" where
  "dlq_episode c now threshold = (\<lambda>(tenant_id, depth, hint).
     let summary = dlq_summary depth threshold hint
     in \<lparr>ep_fingerprint = dlq_depth_fingerprint, ep_subject = dlq_subject, ep_tenant_id = tenant_id,
         ep_source = dlq_depth_alert_source,
         ep_title = ''Dead-letter queue depth '' @ show_nat depth @ '' (threshold '' @ show_int threshold @ '')'',
         ep_summary = summary, ep_payload = dlq_payload c depth threshold hint summary now\<rparr>)"

definition tenants_with_open_episode :: "string \<Rightarrow> string \<Rightarrow> alert_state \<Rightarrow> uuid list" where
  "tenants_with_open_episode fingerprint subject s =
     remdups (map al_tenant_id (filter (\<lambda>a. open_row a \<and> startswith (dedup_prefix fingerprint subject) (al_dedup_key a)) (at_alerts s)))"

definition resolve_drained :: "time \<Rightarrow> int \<Rightarrow> db \<Rightarrow> uuid \<Rightarrow> alert_state \<Rightarrow> (alert_error + uuid option) \<times> alert_state" where
  "resolve_drained now threshold d tenant_id s =
     map_prod Inr id (resolve_episode now tenant_id dlq_depth_fingerprint dlq_subject
       (''depth '' @ show_nat (dlq_depth tenant_id d) @ '', below the threshold of '' @ show_int threshold) s)"

definition evaluate_dlq_depth :: "alert_config \<Rightarrow> time \<Rightarrow> alert_state \<Rightarrow> (alert_error + rule_outcome) \<times> alert_state" where
  "evaluate_dlq_depth cfg now s =
     (let threshold = ac_dlq_depth_threshold cfg; d = at_db s;
          breaching = breaching_tenants threshold d
      in case each (\<lambda>b. raise_episode cfg now (dlq_episode (ac_codec cfg) now threshold b)) breaching s of
           (Inl e, s1) \<Rightarrow> (Inl e, s1)
         | (Inr raised, s1) \<Rightarrow>
             (case each (resolve_drained now threshold d)
                     (filter (\<lambda>t. t \<notin> fst ` set breaching) (tenants_with_open_episode dlq_depth_fingerprint dlq_subject s1)) s1 of
                (Inl e, s2) \<Rightarrow> (Inl e, s2)
              | (Inr resolved, s2) \<Rightarrow> (Inr \<lparr>ro_raised = raised, ro_resolved = resolved\<rparr>, s2)))"

text \<open>Both rules; one that fails is logged and does not stop the other.\<close>

definition evaluate_alert_rules :: "alert_config \<Rightarrow> time \<Rightarrow> lag_store \<Rightarrow> alert_state \<Rightarrow> rule_outcome \<times> alert_state" where
  "evaluate_alert_rules cfg now st s =
     (if \<not> ac_rules_enabled cfg then (quiet, s)
      else (let (r1, s1) = evaluate_consumer_lag cfg now st s;
                (r2, s2) = evaluate_dlq_depth cfg now s1;
                pick = (\<lambda>f. (case r1 of Inl _ \<Rightarrow> [] | Inr out \<Rightarrow> f out) @ (case r2 of Inl _ \<Rightarrow> [] | Inr out \<Rightarrow> f out))
            in (\<lparr>ro_raised = pick ro_raised, ro_resolved = pick ro_resolved\<rparr>, s2)))"

text \<open>\<open>text.split(':')\<close>, and the split of a key into fingerprint and subject.\<close>

fun colon_parts :: "string \<Rightarrow> string list" where
  "colon_parts [] = [[]]"
| "colon_parts (c # cs) =
     (if c = CHR '':'' then [] # colon_parts cs
      else (case colon_parts cs of [] \<Rightarrow> [[c]] | w # ws \<Rightarrow> (c # w) # ws))"

definition series_of_key :: "string \<Rightarrow> (string \<times> string) option" where
  "series_of_key key =
     (let parts = colon_parts key
      in if length parts < 4 then None else Some (parts ! 1, join '':'' (butlast (drop 2 parts))))"

definition resolve_open_episodes :: "time \<Rightarrow> string \<Rightarrow> alert_state \<Rightarrow> (alert_error + uuid list) \<times> alert_state" where
  "resolve_open_episodes now reason s =
     each (\<lambda>(tenant_id, key) s.
         (case series_of_key key of
            None \<Rightarrow> (Inr None, s)
          | Some (fingerprint, subject) \<Rightarrow> map_prod Inr id (resolve_episode now tenant_id fingerprint subject reason s)))
       (List.map_filter (\<lambda>a. if open_row a \<and> startswith (dedup_namespace @ '':'') (al_dedup_key a)
                             then map_option (Pair (al_tenant_id a)) (al_dedup_key a) else None) (at_alerts s)) s"

section \<open>Replicas, statement by statement\<close>

text \<open>
  Every replica runs the rules. A replica inside a raise has looked and found no open alert, or has also
  counted; the database is shared and each statement sees what has been committed. Alerts of other
  producers carry no key of the rules' namespace.
\<close>

datatype rule_txn = Clear episode | Counted episode nat

record rule_world =
  rw_state :: alert_state
  rw_txn :: "nat \<Rightarrow> rule_txn option"

datatype rule_event =
    Look nat episode
  | Count nat
  | Commit nat time
  | Recover time uuid string string string
  | OtherAlert time alert_req

definition rule_apply :: "alert_config \<Rightarrow> rule_event \<Rightarrow> rule_world \<Rightarrow> rule_world" where
  "rule_apply cfg ev w =
     (case ev of
        Look r ep \<Rightarrow> w\<lparr>rw_txn := (rw_txn w)(r := if raise_clear ep (rw_state w) then Some (Clear ep) else None)\<rparr>
      | Count r \<Rightarrow>
          (case rw_txn w r of
             Some (Clear ep) \<Rightarrow> w\<lparr>rw_txn := (rw_txn w)(r \<mapsto> Counted ep (raise_ordinal ep (rw_state w)))\<rparr>
           | _ \<Rightarrow> w)
      | Commit r now \<Rightarrow>
          (case rw_txn w r of
             Some (Counted ep n) \<Rightarrow>
               w\<lparr>rw_state := snd (raise_insert cfg now ep n (rw_state w)), rw_txn := (rw_txn w)(r := None)\<rparr>
           | _ \<Rightarrow> w)
      | Recover now t f sub reason \<Rightarrow> w\<lparr>rw_state := snd (resolve_episode now t f sub reason (rw_state w))\<rparr>
      | OtherAlert now rq \<Rightarrow>
          if startswith (dedup_namespace @ '':'') (rq_dedup_key rq) then w
          else w\<lparr>rw_state := snd (create_alert now [] rq (rw_state w))\<rparr>)"

definition no_alerts :: rule_world where
  "no_alerts = \<lparr>rw_state = \<lparr>at_db = empty_db, at_alerts = [], at_sent = []\<rparr>, rw_txn = (\<lambda>_. None)\<rparr>"

section \<open>Keys\<close>

abbreviation no_colon :: "string \<Rightarrow> bool" where
  "no_colon s \<equiv> CHR '':'' \<notin> set s"

lemma startswith_iff: "startswith p (Some k) \<longleftrightarrow> (\<exists>r. k = p @ r)"
  by (simp add: startswith_def) (metis append_eq_conv_conj append_take_drop_id)

lemma startswith_None [simp]: "\<not> startswith p None"
  by (simp add: startswith_def)

lemma dedup_key_series:
  assumes "no_colon f" "no_colon sub" "no_colon f'" "no_colon sub'"
  shows "startswith (dedup_prefix f' sub') (Some (dedup_key f sub n)) \<longleftrightarrow> f' = f \<and> sub' = sub"
proof -
  have "(\<exists>r. f @ CHR '':'' # sub @ CHR '':'' # show_nat n = f' @ CHR '':'' # sub' @ CHR '':'' # r) \<longleftrightarrow> f' = f \<and> sub' = sub"
    using assms by (auto simp: append_sep_iff)
  then show ?thesis by (simp add: startswith_iff dedup_prefix_def dedup_key_def)
qed

lemma dedup_key_inject: "dedup_key f sub m = dedup_key f sub n \<longleftrightarrow> m = n"
  by (simp add: dedup_key_def show_nat_inject)

lemma dedup_prefix_rule: "startswith (dedup_prefix f sub) k \<Longrightarrow> startswith (dedup_namespace @ '':'') k"
  by (cases k) (auto simp: startswith_iff dedup_prefix_def)

definition series :: "uuid \<Rightarrow> string \<Rightarrow> string \<Rightarrow> alert list \<Rightarrow> alert list" where
  "series t f sub rows = filter (in_series t (dedup_prefix f sub)) rows"

definition numbered :: "uuid \<Rightarrow> string \<Rightarrow> string \<Rightarrow> alert list \<Rightarrow> bool" where
  "numbered t f sub rows \<longleftrightarrow>
     map al_dedup_key (series t f sub rows) = map (\<lambda>n. Some (dedup_key f sub n)) [0..<length (series t f sub rows)]"

lemma key_taken_numbered:
  assumes "numbered t f sub rows"
  shows "key_taken t (Some (dedup_key f sub n)) rows \<longleftrightarrow> n < length (series t f sub rows)"
proof -
  have own: "startswith (dedup_prefix f sub) (Some (dedup_key f sub n))" by (simp add: startswith_iff dedup_key_def)
  have "key_taken t (Some (dedup_key f sub n)) rows \<longleftrightarrow> Some (dedup_key f sub n) \<in> set (map al_dedup_key (series t f sub rows))"
    using own by (force simp: key_taken_def list_ex_iff series_def)
  also have "\<dots> \<longleftrightarrow> n < length (series t f sub rows)"
    unfolding assms [unfolded numbered_def] by (auto simp: dedup_key_inject)
  finally show ?thesis .
qed

lemma open_alert_None_iff: "open_alert t (dedup_prefix f sub) s = None \<longleftrightarrow> filter open_row (series t f sub (at_alerts s)) = []"
proof -
  have e: "filter (\<lambda>a. in_series t (dedup_prefix f sub) a \<and> open_row a) (at_alerts s) = filter open_row (series t f sub (at_alerts s))"
    by (simp add: series_def conj_commute)
  have "sort_key g xs = [] \<longleftrightarrow> xs = []" for g :: "alert \<Rightarrow> time" and xs by (metis length_0_conv length_sort)
  then show ?thesis unfolding open_alert_def e by (auto split: list.splits)
qed

lemma open_alert_SomeD:
  assumes "open_alert t p s = Some a"
  shows "a \<in> set (at_alerts s) \<and> in_series t p a \<and> open_row a"
proof -
  have "a \<in> set (sort_key (\<lambda>a. - al_fired_at a) (filter (\<lambda>a. in_series t p a \<and> open_row a) (at_alerts s)))"
    using assms unfolding open_alert_def by (auto simp del: set_sort split: list.splits)
  then show ?thesis by simp
qed

section \<open>Series stay numbered\<close>

definition ids_ok :: "alert_state \<Rightarrow> bool" where
  "ids_ok s \<longleftrightarrow> distinct (map al_id (at_alerts s)) \<and> (\<forall>a \<in> set (at_alerts s). al_id a < next_uuid (at_db s))"

definition rule_keyed :: "alert \<Rightarrow> bool" where
  "rule_keyed a \<longleftrightarrow> startswith (dedup_namespace @ '':'') (al_dedup_key a) \<longrightarrow>
     (\<exists>f sub n. no_colon f \<and> no_colon sub \<and> al_dedup_key a = Some (dedup_key f sub n))"

definition series_ok :: "alert_state \<Rightarrow> bool" where
  "series_ok s \<longleftrightarrow> ids_ok s \<and> (\<forall>a \<in> set (at_alerts s). rule_keyed a)
     \<and> (\<forall>t f sub. no_colon f \<longrightarrow> no_colon sub \<longrightarrow>
          numbered t f sub (at_alerts s) \<and> length (filter open_row (series t f sub (at_alerts s))) \<le> 1)"

abbreviation ep_plain :: "episode \<Rightarrow> bool" where
  "ep_plain ep \<equiv> no_colon (ep_fingerprint ep) \<and> no_colon (ep_subject ep)"

abbreviation ep_series :: "episode \<Rightarrow> alert_state \<Rightarrow> alert list" where
  "ep_series ep s \<equiv> series (ep_tenant_id ep) (ep_fingerprint ep) (ep_subject ep) (at_alerts s)"

definition txn_ok :: "alert_state \<Rightarrow> rule_txn option \<Rightarrow> bool" where
  "txn_ok s tx \<longleftrightarrow>
     (case tx of
        None \<Rightarrow> True
      | Some (Clear ep) \<Rightarrow> False
      | Some (Counted ep n) \<Rightarrow> ep_plain ep \<and> n \<le> length (ep_series ep s)
          \<and> (n = length (ep_series ep s) \<longrightarrow> filter open_row (ep_series ep s) = []))"

definition rules_inv :: "rule_world \<Rightarrow> bool" where
  "rules_inv w \<longleftrightarrow> series_ok (rw_state w) \<and> (\<forall>r. txn_ok (rw_state w) (rw_txn w r))"

text \<open>A step leaves the table, or appends one row, or closes one.\<close>

definition appends :: "alert \<Rightarrow> alert_state \<Rightarrow> alert_state \<Rightarrow> bool" where
  "appends a s s' \<longleftrightarrow> at_alerts s' = at_alerts s @ [a] \<and> open_row a \<and> al_id a = next_uuid (at_db s)
     \<and> next_uuid (at_db s) < next_uuid (at_db s') \<and> jobs (at_db s') = jobs (at_db s)"

definition closes :: "time \<Rightarrow> uuid \<Rightarrow> alert_state \<Rightarrow> alert_state \<Rightarrow> bool" where
  "closes now i s s' \<longleftrightarrow>
     at_alerts s' = update_where (\<lambda>a. al_id a = i) (\<lambda>a. a\<lparr>al_resolved_at := Some now\<rparr>) (at_alerts s)
     \<and> next_uuid (at_db s) \<le> next_uuid (at_db s') \<and> jobs (at_db s') = jobs (at_db s)"

lemma record_transition_frame [simp]:
  "at_alerts (record_transition act a f sub sm ex s) = at_alerts s"
  "next_uuid (at_db (record_transition act a f sub sm ex s)) = Suc (next_uuid (at_db s))"
  "jobs (at_db (record_transition act a f sub sm ex s)) = jobs (at_db s)"
  by (simp_all add: record_transition_def audit_log_write_def Let_def)

lemma run_delivery_frame [simp]:
  "at_alerts (run_delivery cfg now p s) = at_alerts s" "jobs (at_db (run_delivery cfg now p s)) = jobs (at_db s)"
  "next_uuid (at_db s) \<le> next_uuid (at_db (run_delivery cfg now p s))"
  by (simp_all add: run_delivery_def split: option.splits)

lemma create_alert_cases:
  obtains (Refused) e where "create_alert now rid rq s = (Inl e, s)"
  | (Created) a where "create_alert now rid rq s = (Inr a, snd (create_alert now rid rq s))"
      "appends a s (snd (create_alert now rid rq s))" "al_tenant_id a = rq_tenant_id rq" "al_dedup_key a = rq_dedup_key rq"
      "\<not> key_taken (rq_tenant_id rq) (rq_dedup_key rq) (at_alerts s)" "at_sent (snd (create_alert now rid rq s)) = at_sent s"
  by (cases "fst (create_alert now rid rq s)") (auto simp: create_alert_def appends_def Let_def split: if_splits)

lemma raise_insert_taken:
  "key_taken (ep_tenant_id ep) (Some (dedup_key (ep_fingerprint ep) (ep_subject ep) n)) (at_alerts s) \<Longrightarrow>
     snd (raise_insert cfg now ep n s) = s"
  by (simp add: raise_insert_def create_alert_def)

lemma raise_insert_new:
  assumes "\<not> key_taken (ep_tenant_id ep) (Some (dedup_key (ep_fingerprint ep) (ep_subject ep) n)) (at_alerts s)" "ep_title ep \<noteq> []"
  shows "\<exists>a. raise_insert cfg now ep n s = (Inr (Some (al_id a)), snd (raise_insert cfg now ep n s))
    \<and> appends a s (snd (raise_insert cfg now ep n s)) \<and> al_tenant_id a = ep_tenant_id ep
    \<and> al_dedup_key a = Some (dedup_key (ep_fingerprint ep) (ep_subject ep) n)"
proof -
  let ?rq = "\<lparr>rq_tenant_id = ep_tenant_id ep, rq_severity = severity_critical, rq_source = ep_source ep,
      rq_title = ep_title ep, rq_description = Some (ep_summary ep), rq_extra_data = Some (ep_payload ep),
      rq_dedup_key = Some (dedup_key (ep_fingerprint ep) (ep_subject ep) n)\<rparr>"
  show ?thesis
  proof (cases rule: create_alert_cases [of now "[]" ?rq s])
    case (Refused e)
    then show ?thesis using assms by (simp add: create_alert_def allowed_severities_def Let_def)
  next
    case (Created a)
    let ?s1 = "snd (create_alert now [] ?rq s)"
    have r: "raise_insert cfg now ep n s = (Inr (Some (al_id a)), run_delivery cfg now (webhook_payload cfg a)
        (record_transition alert_raised_action a (ep_fingerprint ep) (ep_subject ep) (ep_summary ep) [] ?s1))"
      unfolding raise_insert_def by (subst Created(1)) simp
    have "next_uuid (at_db s) < next_uuid (at_db (run_delivery cfg now p (record_transition act a f sub sm ex ?s1)))" for p act f sub sm ex
      using Created(2) run_delivery_frame(3) [of "record_transition act a f sub sm ex ?s1" cfg now p] by (simp add: appends_def)
    then show ?thesis unfolding r using Created(2-4) by (intro exI [of _ a]) (simp add: appends_def)
  qed
qed

lemma resolve_episode_cases:
  obtains (Nothing) "open_alert t (dedup_prefix f sub) s = None" "resolve_episode now t f sub reason s = (None, s)"
  | (Closed) a where "open_alert t (dedup_prefix f sub) s = Some a"
      "resolve_episode now t f sub reason s = (Some (al_id a), snd (resolve_episode now t f sub reason s))"
      "closes now (al_id a) s (snd (resolve_episode now t f sub reason s))"
  by (cases "open_alert t (dedup_prefix f sub) s") (auto simp: resolve_episode_def closes_def resolve_row_def)

lemma series_append: "series t f sub (rows @ [a]) = series t f sub rows @ (if in_series t (dedup_prefix f sub) a then [a] else [])"
  by (simp add: series_def)

lemma series_update:
  "series t f sub (update_where P (\<lambda>a. a\<lparr>al_resolved_at := x\<rparr>) rows)
     = update_where P (\<lambda>a. a\<lparr>al_resolved_at := x\<rparr>) (series t f sub rows)"
  by (induction rows) (auto simp: series_def)

lemma open_count_update:
  "length (filter open_row (update_where P (\<lambda>a. a\<lparr>al_resolved_at := Some t\<rparr>) rows)) \<le> length (filter open_row rows)"
  by (induction rows) auto

lemma raise_insert_untitled: "ep_title ep = [] \<Longrightarrow> snd (raise_insert cfg now ep n s) = s"
  by (simp add: raise_insert_def create_alert_def severity_critical_def allowed_severities_def)

lemma series_ok_appended:
  assumes ok: "series_ok s" and app: "appends a s s'"
    and key: "\<not> startswith (dedup_namespace @ '':'') (al_dedup_key a)
      \<or> (\<exists>f sub. no_colon f \<and> no_colon sub \<and> filter open_row (series (al_tenant_id a) f sub (at_alerts s)) = []
           \<and> al_dedup_key a = Some (dedup_key f sub (length (series (al_tenant_id a) f sub (at_alerts s)))))"
  shows "series_ok s'"
proof -
  have rows: "at_alerts s' = at_alerts s @ [a]" and new: "open_row a" using app by (simp_all add: appends_def)
  have "ids_ok s'" using ok app by (force simp: series_ok_def ids_ok_def appends_def)
  moreover have "\<forall>b \<in> set (at_alerts s'). rule_keyed b" using ok key unfolding rows by (auto simp: series_ok_def rule_keyed_def)
  moreover have "numbered t f sub (at_alerts s') \<and> length (filter open_row (series t f sub (at_alerts s'))) \<le> 1"
    if p: "no_colon f" "no_colon sub" for t f sub
  proof (cases "in_series t (dedup_prefix f sub) a")
    case False
    then have "series t f sub (at_alerts s') = series t f sub (at_alerts s)" unfolding rows series_append by (simp only: if_False append_Nil2)
    then show ?thesis using ok p unfolding series_ok_def numbered_def by presburger
  next
    case True
    then have "startswith (dedup_namespace @ '':'') (al_dedup_key a)" using dedup_prefix_rule by blast
    with key obtain f0 sub0 where k: "no_colon f0" "no_colon sub0" "filter open_row (series (al_tenant_id a) f0 sub0 (at_alerts s)) = []"
        "al_dedup_key a = Some (dedup_key f0 sub0 (length (series (al_tenant_id a) f0 sub0 (at_alerts s))))"
      by blast
    with True p have "f0 = f" "sub0 = sub" "al_tenant_id a = t" by (auto simp: dedup_key_series)
    then show ?thesis using ok p k True new by (simp add: series_ok_def numbered_def rows series_append)
  qed
  ultimately show ?thesis by (simp add: series_ok_def)
qed

lemma series_ok_closed:
  assumes "series_ok s" "closes now i s s'"
  shows "series_ok s'"
proof -
  have rows: "at_alerts s' = update_where (\<lambda>a. al_id a = i) (\<lambda>a. a\<lparr>al_resolved_at := Some now\<rparr>) (at_alerts s)"
    and le: "next_uuid (at_db s) \<le> next_uuid (at_db s')" using assms(2) by (simp_all add: closes_def)
  have "ids_ok s'"
    using assms(1) le by (force simp: series_ok_def ids_ok_def rows map_update_where set_update_where)
  moreover have "\<forall>b \<in> set (at_alerts s'). rule_keyed b"
    using assms(1) unfolding rows set_update_where by (auto simp: series_ok_def rule_keyed_def)
  moreover have "numbered t f sub (at_alerts s') \<and> length (filter open_row (series t f sub (at_alerts s'))) \<le> 1"
    if "no_colon f" "no_colon sub" for t f sub
    using assms(1) that open_count_update [of "\<lambda>a. al_id a = i" now "series t f sub (at_alerts s)"]
    by (auto simp: series_ok_def numbered_def rows series_update map_update_where intro: le_trans)
  ultimately show ?thesis by (simp add: series_ok_def)
qed

lemma txn_ok_appended: "txn_ok s tx \<Longrightarrow> appends a s s' \<Longrightarrow> txn_ok s' tx"
  by (auto simp: txn_ok_def appends_def series_append split: option.splits rule_txn.splits)

lemma txn_ok_closed:
  assumes "txn_ok s tx" "closes now i s s'"
  shows "txn_ok s' tx"
proof -
  have "length (ep_series ep s') = length (ep_series ep s)"
       "length (filter open_row (ep_series ep s')) \<le> length (filter open_row (ep_series ep s))" for ep
    using assms(2) open_count_update [of "\<lambda>a. al_id a = i" now "ep_series ep s"] by (simp_all add: closes_def series_update)
  then show ?thesis using assms(1) by (auto simp: txn_ok_def split: option.splits rule_txn.splits) (metis le_zero_eq length_0_conv)
qed

lemma rules_inv_appended:
  "rules_inv w \<Longrightarrow> appends a (rw_state w) s' \<Longrightarrow> series_ok s' \<Longrightarrow> rules_inv (w\<lparr>rw_state := s'\<rparr>)"
  by (auto simp: rules_inv_def intro: txn_ok_appended)

lemma rules_inv_closed: "rules_inv w \<Longrightarrow> closes now i (rw_state w) s' \<Longrightarrow> rules_inv (w\<lparr>rw_state := s'\<rparr>)"
  by (auto simp: rules_inv_def intro: txn_ok_closed series_ok_closed)

lemma rules_inv_txn: "rules_inv w \<Longrightarrow> txn_ok (rw_state w) tx \<Longrightarrow> rules_inv (w\<lparr>rw_txn := (rw_txn w)(r := tx)\<rparr>)"
  by (simp add: rules_inv_def)

lemma commit_keeps:
  assumes inv: "rules_inv w" and tx: "rw_txn w r = Some (Counted ep n)"
  shows "rules_inv (w\<lparr>rw_state := snd (raise_insert cfg now ep n (rw_state w))\<rparr>)"
proof -
  let ?s = "rw_state w" and ?t = "ep_tenant_id ep" and ?f = "ep_fingerprint ep" and ?u = "ep_subject ep"
  have p: "ep_plain ep" "n \<le> length (ep_series ep ?s)" "n = length (ep_series ep ?s) \<Longrightarrow> filter open_row (ep_series ep ?s) = []"
    and ok: "series_ok ?s" "numbered ?t ?f ?u (at_alerts ?s)"
    using inv spec [of "\<lambda>r. txn_ok ?s (rw_txn w r)" r] tx by (auto simp: rules_inv_def txn_ok_def series_ok_def)
  show ?thesis
  proof (cases "key_taken ?t (Some (dedup_key ?f ?u n)) (at_alerts ?s) \<or> ep_title ep = []")
    case True
    then show ?thesis using inv raise_insert_taken raise_insert_untitled by fastforce
  next
    case False
    then have n: "n = length (ep_series ep ?s)" using key_taken_numbered [OF ok(2), of n] p(2) by simp
    from False obtain a where a: "appends a ?s (snd (raise_insert cfg now ep n ?s))" "al_tenant_id a = ?t"
        "al_dedup_key a = Some (dedup_key ?f ?u n)"
      using raise_insert_new by blast
    then have "series_ok (snd (raise_insert cfg now ep n ?s))"
      using p(1) p(3) [OF n] n by (intro series_ok_appended [OF ok(1) a(1)]) auto
    then show ?thesis by (rule rules_inv_appended [OF inv a(1)])
  qed
qed

text \<open>A block of statements: a raise's look and count see one snapshot; everything else stands alone.\<close>

fun undivided :: "rule_event list \<Rightarrow> bool" where
  "undivided [Look r ep, Count r'] = (r = r' \<and> ep_plain ep)"
| "undivided [Commit r now] = True"
| "undivided [Recover now t f sub reason] = True"
| "undivided [OtherAlert now rq] = True"
| "undivided _ = False"

definition apply_block :: "alert_config \<Rightarrow> rule_event list \<Rightarrow> rule_world \<Rightarrow> rule_world" where
  "apply_block cfg b w = (if undivided b then fold (rule_apply cfg) b w else w)"

interpretation rules: inv_step "apply_block cfg" rules_inv for cfg
proof
  fix w b assume inv: "rules_inv w"
  let ?s = "rw_state w"
  show "rules_inv (apply_block cfg b w)"
  proof (cases b rule: undivided.cases)
    case (1 r ep r')
    show ?thesis
    proof (cases "r = r' \<and> ep_plain ep \<and> raise_clear ep ?s")
      case True
      have "raise_ordinal ep ?s = length (ep_series ep ?s)"
        by (simp add: raise_ordinal_def episodes_so_far_def row_count_def series_def)
      moreover have "filter open_row (ep_series ep ?s) = []" using True by (simp add: raise_clear_def open_alert_None_iff)
      ultimately have "txn_ok ?s (Some (Counted ep (raise_ordinal ep ?s)))" using True by (simp add: txn_ok_def)
      from rules_inv_txn [OF inv this, of r] show ?thesis using True by (simp add: 1 apply_block_def rule_apply_def)
    next
      case False
      moreover have "rules_inv (w\<lparr>rw_txn := (rw_txn w)(r := None)\<rparr>)" by (rule rules_inv_txn [OF inv]) (simp add: txn_ok_def)
      ultimately show ?thesis using inv by (auto simp: 1 apply_block_def rule_apply_def)
    qed
  next
    case (2 r now)
    show ?thesis
    proof (cases "\<exists>ep n. rw_txn w r = Some (Counted ep n)")
      case True
      then obtain ep n where tx: "rw_txn w r = Some (Counted ep n)" by blast
      from rules_inv_txn [OF commit_keeps [OF inv tx, of cfg now], of None r] show ?thesis
        by (simp add: 2 apply_block_def rule_apply_def tx txn_ok_def)
    next
      case False
      then show ?thesis using inv by (auto simp: 2 apply_block_def rule_apply_def split: option.splits rule_txn.splits)
    qed
  next
    case (3 now t f sub reason)
    then show ?thesis
      using inv rules_inv_closed [OF inv]
      by (cases rule: resolve_episode_cases [of t f sub ?s now reason]) (simp_all add: apply_block_def rule_apply_def)
  next
    case (4 now rq)
    show ?thesis
    proof (cases "startswith (dedup_namespace @ '':'') (rq_dedup_key rq)")
      case True
      then show ?thesis using inv by (simp add: 4 apply_block_def rule_apply_def)
    next
      case other: False
      then have e: "apply_block cfg b w = w\<lparr>rw_state := snd (create_alert now [] rq ?s)\<rparr>" by (simp add: 4 apply_block_def rule_apply_def)
      show ?thesis
      proof (cases rule: create_alert_cases [of now "[]" rq ?s])
        case (Refused e)
        then show ?thesis using inv e by simp
      next
        case (Created a)
        have "series_ok (snd (create_alert now [] rq ?s))"
          by (rule series_ok_appended [OF _ Created(2)]) (use inv other Created(4) in \<open>simp_all add: rules_inv_def\<close>)
        then show ?thesis unfolding e by (rule rules_inv_appended [OF inv Created(2)])
      qed
    qed
  qed (use inv in \<open>simp_all add: apply_block_def\<close>)
qed

section \<open>Any interleaving keeps the numbering\<close>

text \<open>
  Statement by statement, with nothing assumed of what a raise's look and count see, the rows stay
  numbered; only the bound of one open alert per condition needs the single snapshot.
\<close>

definition rows_ok :: "alert_state \<Rightarrow> bool" where
  "rows_ok s \<longleftrightarrow> ids_ok s \<and> (\<forall>a \<in> set (at_alerts s). rule_keyed a)
     \<and> (\<forall>t f sub. no_colon f \<longrightarrow> no_colon sub \<longrightarrow> numbered t f sub (at_alerts s))"

definition pages_singly :: "alert_state \<Rightarrow> bool" where
  "pages_singly s \<longleftrightarrow> (\<forall>t f sub. no_colon f \<longrightarrow> no_colon sub \<longrightarrow> length (filter open_row (series t f sub (at_alerts s))) \<le> 1)"

lemma series_ok_split: "series_ok s \<longleftrightarrow> rows_ok s \<and> pages_singly s"
  unfolding series_ok_def rows_ok_def pages_singly_def by blast

fun plain_event :: "rule_event \<Rightarrow> bool" where
  "plain_event (Look r ep) = ep_plain ep"
| "plain_event _ = True"

definition txn_rows :: "alert_state \<Rightarrow> rule_txn option \<Rightarrow> bool" where
  "txn_rows s tx \<longleftrightarrow>
     (case tx of
        None \<Rightarrow> True
      | Some (Clear ep) \<Rightarrow> ep_plain ep
      | Some (Counted ep n) \<Rightarrow> ep_plain ep \<and> n \<le> length (ep_series ep s))"

definition rows_inv :: "rule_world \<Rightarrow> bool" where
  "rows_inv w \<longleftrightarrow> rows_ok (rw_state w) \<and> (\<forall>r. txn_rows (rw_state w) (rw_txn w r))"

lemma rows_ok_appended:
  assumes ok: "rows_ok s" and app: "appends a s s'"
    and key: "\<not> startswith (dedup_namespace @ '':'') (al_dedup_key a)
      \<or> (\<exists>f sub. no_colon f \<and> no_colon sub
           \<and> al_dedup_key a = Some (dedup_key f sub (length (series (al_tenant_id a) f sub (at_alerts s)))))"
  shows "rows_ok s'"
proof -
  have rows: "at_alerts s' = at_alerts s @ [a]" using app by (simp add: appends_def)
  have "ids_ok s'" using ok app by (force simp: rows_ok_def ids_ok_def appends_def)
  moreover have "\<forall>b \<in> set (at_alerts s'). rule_keyed b" using ok key unfolding rows by (auto simp: rows_ok_def rule_keyed_def)
  moreover have "numbered t f sub (at_alerts s')" if p: "no_colon f" "no_colon sub" for t f sub
  proof (cases "in_series t (dedup_prefix f sub) a")
    case False
    then have "series t f sub (at_alerts s') = series t f sub (at_alerts s)" unfolding rows series_append by (simp only: if_False append_Nil2)
    then show ?thesis using ok p unfolding rows_ok_def numbered_def by presburger
  next
    case True
    then have "startswith (dedup_namespace @ '':'') (al_dedup_key a)" using dedup_prefix_rule by blast
    with key obtain f0 sub0 where k: "no_colon f0" "no_colon sub0"
        "al_dedup_key a = Some (dedup_key f0 sub0 (length (series (al_tenant_id a) f0 sub0 (at_alerts s))))"
      by blast
    with True p have "f0 = f" "sub0 = sub" "al_tenant_id a = t" by (auto simp: dedup_key_series)
    then show ?thesis using ok p k True by (simp add: rows_ok_def numbered_def rows series_append)
  qed
  ultimately show ?thesis by (simp add: rows_ok_def)
qed

lemma rows_ok_closed:
  assumes "rows_ok s" "closes now i s s'"
  shows "rows_ok s'"
proof -
  have rows: "at_alerts s' = update_where (\<lambda>a. al_id a = i) (\<lambda>a. a\<lparr>al_resolved_at := Some now\<rparr>) (at_alerts s)"
    and le: "next_uuid (at_db s) \<le> next_uuid (at_db s')" using assms(2) by (simp_all add: closes_def)
  have "ids_ok s'" using assms(1) le by (force simp: rows_ok_def ids_ok_def rows map_update_where set_update_where)
  moreover have "\<forall>b \<in> set (at_alerts s'). rule_keyed b"
    using assms(1) unfolding rows set_update_where by (auto simp: rows_ok_def rule_keyed_def)
  moreover have "numbered t f sub (at_alerts s')" if "no_colon f" "no_colon sub" for t f sub
    using assms(1) that by (auto simp: rows_ok_def numbered_def rows series_update map_update_where)
  ultimately show ?thesis by (simp add: rows_ok_def)
qed

lemma txn_rows_grow:
  assumes "txn_rows s tx" "\<And>ep. length (ep_series ep s) \<le> length (ep_series ep s')"
  shows "txn_rows s' tx"
  using assms(1) by (auto simp: txn_rows_def split: option.splits rule_txn.splits intro: le_trans [OF _ assms(2)])

lemma rows_inv_appended:
  assumes "rows_inv w" "appends a (rw_state w) s'" "rows_ok s'"
  shows "rows_inv (w\<lparr>rw_state := s'\<rparr>)"
proof -
  have grow: "length (ep_series ep (rw_state w)) \<le> length (ep_series ep s')" for ep
    using assms(2) by (simp add: appends_def series_append)
  show ?thesis using assms(1,3) txn_rows_grow [OF _ grow] by (simp add: rows_inv_def)
qed

lemma rows_inv_closed:
  assumes "rows_inv w" "closes now i (rw_state w) s'"
  shows "rows_inv (w\<lparr>rw_state := s'\<rparr>)"
proof -
  have grow: "length (ep_series ep (rw_state w)) \<le> length (ep_series ep s')" for ep
    using assms(2) by (simp add: closes_def series_update)
  show ?thesis using assms(1) rows_ok_closed [OF _ assms(2)] txn_rows_grow [OF _ grow] by (simp add: rows_inv_def)
qed

lemma rows_inv_txn: "rows_inv w \<Longrightarrow> txn_rows (rw_state w) tx \<Longrightarrow> rows_inv (w\<lparr>rw_txn := (rw_txn w)(r := tx)\<rparr>)"
  by (simp add: rows_inv_def)

lemma commit_keeps_rows:
  assumes inv: "rows_inv w" and tx: "rw_txn w r = Some (Counted ep n)"
  shows "rows_inv (w\<lparr>rw_state := snd (raise_insert cfg now ep n (rw_state w))\<rparr>)"
proof -
  let ?s = "rw_state w" and ?t = "ep_tenant_id ep" and ?f = "ep_fingerprint ep" and ?u = "ep_subject ep"
  have p: "ep_plain ep" "n \<le> length (ep_series ep ?s)" and ok: "rows_ok ?s" "numbered ?t ?f ?u (at_alerts ?s)"
    using inv spec [of "\<lambda>r. txn_rows ?s (rw_txn w r)" r] tx by (auto simp: rows_inv_def txn_rows_def rows_ok_def)
  show ?thesis
  proof (cases "key_taken ?t (Some (dedup_key ?f ?u n)) (at_alerts ?s) \<or> ep_title ep = []")
    case True
    then show ?thesis using inv raise_insert_taken raise_insert_untitled by fastforce
  next
    case False
    then have n: "n = length (ep_series ep ?s)" using key_taken_numbered [OF ok(2), of n] p(2) by simp
    from False obtain a where a: "appends a ?s (snd (raise_insert cfg now ep n ?s))" "al_tenant_id a = ?t"
        "al_dedup_key a = Some (dedup_key ?f ?u n)"
      using raise_insert_new by blast
    then have "rows_ok (snd (raise_insert cfg now ep n ?s))"
      using p(1) n by (intro rows_ok_appended [OF ok(1) a(1)]) auto
    then show ?thesis by (rule rows_inv_appended [OF inv a(1)])
  qed
qed

lemma rule_apply_rows:
  assumes inv: "rows_inv w" and ev: "plain_event ev"
  shows "rows_inv (rule_apply cfg ev w)"
proof (cases ev)
  case (Look r ep)
  then show ?thesis using ev rows_inv_txn [OF inv, of _ r] by (simp add: rule_apply_def txn_rows_def)
next
  case (Count r)
  have "txn_rows (rw_state w) (Some (Counted ep (raise_ordinal ep (rw_state w))))" if "rw_txn w r = Some (Clear ep)" for ep
    using inv spec [of "\<lambda>r. txn_rows (rw_state w) (rw_txn w r)" r] that
    by (auto simp: rows_inv_def txn_rows_def raise_ordinal_def episodes_so_far_def row_count_def series_def)
  then show ?thesis
    using inv rows_inv_txn [OF inv, of _ r] by (auto simp: Count rule_apply_def split: option.split rule_txn.split)
next
  case (Commit r now)
  have "rows_inv (w\<lparr>rw_state := snd (raise_insert cfg now ep n (rw_state w)), rw_txn := (rw_txn w)(r := None)\<rparr>)"
    if "rw_txn w r = Some (Counted ep n)" for ep n
    using rows_inv_txn [OF commit_keeps_rows [OF inv that, of cfg now], of None r] by (simp add: txn_rows_def)
  then show ?thesis using inv by (auto simp: Commit rule_apply_def split: option.split rule_txn.split)
next
  case (Recover now t f sub reason)
  then show ?thesis
    using inv rows_inv_closed [OF inv]
    by (cases rule: resolve_episode_cases [of t f sub "rw_state w" now reason]) (simp_all add: rule_apply_def)
next
  case (OtherAlert now rq)
  show ?thesis
  proof (cases rule: create_alert_cases [of now "[]" rq "rw_state w"])
    case (Refused e)
    then show ?thesis using inv by (simp add: OtherAlert rule_apply_def)
  next
    case (Created a)
    have "rows_ok (snd (create_alert now [] rq (rw_state w)))" if "\<not> startswith (dedup_namespace @ '':'') (rq_dedup_key rq)"
      by (rule rows_ok_appended [OF _ Created(2)]) (use inv that Created(4) in \<open>simp_all add: rows_inv_def\<close>)
    then show ?thesis using inv rows_inv_appended [OF inv Created(2)] by (auto simp: OtherAlert rule_apply_def)
  qed
qed

lemma rows_inv_reached: "list_all plain_event evs \<Longrightarrow> rows_inv (fold (rule_apply cfg) evs no_alerts)"
proof (induction evs rule: rev_induct)
  case Nil
  show ?case by (simp add: rows_inv_def rows_ok_def ids_ok_def no_alerts_def numbered_def series_def txn_rows_def)
next
  case (snoc ev evs)
  then show ?case by (simp add: rule_apply_rows)
qed

section \<open>One open alert per condition\<close>

text \<open>The series, by tenant, fingerprint and subject, that have an open alert.\<close>

definition open_series :: "alert_state \<Rightarrow> (uuid \<times> string \<times> string) set" where
  "open_series s = {(t, f, sub). no_colon f \<and> no_colon sub \<and> filter open_row (series t f sub (at_alerts s)) \<noteq> []}"

abbreviation of_ep :: "episode \<Rightarrow> uuid \<times> string \<times> string" where
  "of_ep ep \<equiv> (ep_tenant_id ep, ep_fingerprint ep, ep_subject ep)"

lemma raise_episode_opens:
  assumes ok: "series_ok s" and ep: "ep_plain ep" "ep_title ep \<noteq> []"
  shows "\<exists>r s'. raise_episode cfg now ep s = (Inr r, s') \<and> series_ok s' \<and> jobs (at_db s') = jobs (at_db s)
    \<and> (r = None \<longleftrightarrow> of_ep ep \<in> open_series s) \<and> open_series s' = insert (of_ep ep) (open_series s)"
proof (cases "raise_clear ep s")
  case False
  then have "of_ep ep \<in> open_series s" using ep by (simp add: raise_clear_def open_alert_None_iff open_series_def)
  then show ?thesis using ok False by (auto simp: raise_episode_def)
next
  case True
  let ?t = "ep_tenant_id ep" and ?f = "ep_fingerprint ep" and ?u = "ep_subject ep"
  have none: "filter open_row (ep_series ep s) = []" using True by (simp add: raise_clear_def open_alert_None_iff)
  have n: "raise_ordinal ep s = length (ep_series ep s)"
    by (simp add: raise_ordinal_def episodes_so_far_def row_count_def series_def)
  have "numbered ?t ?f ?u (at_alerts s)" using ok ep by (simp add: series_ok_def)
  from key_taken_numbered [OF this] have "\<not> key_taken ?t (Some (dedup_key ?f ?u (raise_ordinal ep s))) (at_alerts s)" by (simp add: n)
  from raise_insert_new [OF this ep(2)] obtain a s' where
    a: "raise_insert cfg now ep (raise_ordinal ep s) s = (Inr (Some (al_id a)), s')" "appends a s s'"
      "al_tenant_id a = ?t" "al_dedup_key a = Some (dedup_key ?f ?u (raise_ordinal ep s))"
    by (metis prod.collapse)
  have ok': "series_ok s'" using ep none n a(3,4) by (intro series_ok_appended [OF ok a(2)]) auto
  have ser: "series t f u (at_alerts s') = series t f u (at_alerts s) @ (if (t, f, u) = of_ep ep then [a] else [])"
    if "no_colon f" "no_colon u" for t f u
    using a ep that by (auto simp: appends_def series_append dedup_key_series)
  have "open_series s' = insert (of_ep ep) (open_series s)"
    using a(2) ep ser by (auto simp: open_series_def appends_def)
  moreover have "raise_episode cfg now ep s = (Inr (Some (al_id a)), s')" using True a(1) by (simp add: raise_episode_def)
  moreover have "jobs (at_db s') = jobs (at_db s)" using a(2) by (simp add: appends_def)
  moreover have "of_ep ep \<notin> open_series s" using none by (simp add: open_series_def)
  ultimately show ?thesis using ok' by blast
qed

lemma series_of_rule_row:
  assumes "series_ok s" "a \<in> set (at_alerts s)" "startswith (dedup_prefix f sub) (al_dedup_key a)" "no_colon f" "no_colon sub" "no_colon f'" "no_colon sub'"
  shows "startswith (dedup_prefix f' sub') (al_dedup_key a) \<longleftrightarrow> f' = f \<and> sub' = sub"
proof -
  have "rule_keyed a" using assms(1,2) by (simp add: series_ok_def)
  with dedup_prefix_rule [OF assms(3)] obtain f0 sub0 n where "no_colon f0" "no_colon sub0" "al_dedup_key a = Some (dedup_key f0 sub0 n)"
    by (auto simp: rule_keyed_def)
  then show ?thesis using assms(3-7) by (auto simp: dedup_key_series)
qed

lemma resolve_episode_closes:
  assumes ok: "series_ok s" and p: "no_colon f" "no_colon sub"
  shows "\<exists>r s'. resolve_episode now t f sub reason s = (r, s') \<and> series_ok s' \<and> jobs (at_db s') = jobs (at_db s)
    \<and> (r = None \<longleftrightarrow> (t, f, sub) \<notin> open_series s) \<and> open_series s' = open_series s - {(t, f, sub)}"
proof (cases rule: resolve_episode_cases [of t f sub s now reason])
  case Nothing
  then have "(t, f, sub) \<notin> open_series s" by (simp add: open_alert_None_iff open_series_def)
  then show ?thesis using ok Nothing by simp
next
  case (Closed a)
  let ?s = "snd (resolve_episode now t f sub reason s)" and ?c = "\<lambda>a. a\<lparr>al_resolved_at := Some now\<rparr>"
  have a: "a \<in> set (at_alerts s)" "in_series t (dedup_prefix f sub) a" "open_row a" using open_alert_SomeD [OF Closed(1)] by auto
  have dist: "distinct (map al_id (at_alerts s))" using ok by (simp add: series_ok_def ids_ok_def)
  have upd: "series t' f' sub' (at_alerts ?s) = update_where (\<lambda>b. al_id b = al_id a) ?c (series t' f' sub' (at_alerts s))" for t' f' sub'
    using Closed(3) by (simp add: closes_def series_update)
  have same: "b = a" if "b \<in> set (at_alerts s)" "al_id b = al_id a" for b
    using that dist a(1) by (auto simp: distinct_map dest: inj_onD)
  have other: "series t' f' sub' (at_alerts ?s) = series t' f' sub' (at_alerts s)"
    if "(t', f', sub') \<noteq> (t, f, sub)" "no_colon f'" "no_colon sub'" for t' f' sub'
    unfolding upd by (rule update_where_none)
      (use same a that series_of_rule_row [OF ok a(1) _ p that(2,3)] in \<open>auto simp: series_def\<close>)
  have shut: "filter open_row (series t f sub (at_alerts ?s)) = []"
  proof -
    have in_a: "a \<in> set (filter open_row (series t f sub (at_alerts s)))" using a by (simp add: series_def)
    moreover have "length (filter open_row (series t f sub (at_alerts s))) \<le> 1" using ok p by (simp add: series_ok_def)
    ultimately have one: "filter open_row (series t f sub (at_alerts s)) = [a]"
      by (cases "filter open_row (series t f sub (at_alerts s))") auto
    have "\<not> open_row b" if b: "b \<in> set (series t f sub (at_alerts ?s))" for b
    proof -
      obtain b0 where b0: "b0 \<in> set (series t f sub (at_alerts s))" "b = (if al_id b0 = al_id a then ?c b0 else b0)"
        by (rule imageE [OF b [unfolded upd set_update_where]])
      show ?thesis
      proof
        assume "open_row b"
        then have "al_id b0 \<noteq> al_id a" "open_row b0" using b0(2) by (auto split: if_splits)
        then have "b0 \<in> set (filter open_row (series t f sub (at_alerts s)))" using b0(1) by simp
        with one \<open>al_id b0 \<noteq> al_id a\<close> show False by simp
      qed
    qed
    then show ?thesis by (simp add: filter_empty_conv)
  qed
  have "x \<in> open_series ?s \<longleftrightarrow> x \<in> open_series s - {(t, f, sub)}" for x
  proof (cases x)
    case (fields t' f' sub')
    show ?thesis
    proof (cases "x = (t, f, sub)")
      case True
      then show ?thesis using shut by (simp add: open_series_def)
    next
      case False
      then show ?thesis using other [of t' f' sub'] unfolding fields open_series_def by auto
    qed
  qed
  then have "open_series ?s = open_series s - {(t, f, sub)}" by blast
  moreover have "(t, f, sub) \<in> open_series s" using p Closed(1) open_alert_None_iff [of t f sub s] by (auto simp: open_series_def)
  ultimately show ?thesis
    using Closed series_ok_closed [OF ok Closed(3)] unfolding closes_def by (metis option.distinct(1))
qed

text \<open>A sequence of steps, each of which sets one tenant's state, sets them all.\<close>

lemma each_sets:
  assumes "\<And>x s. I s \<Longrightarrow> x \<in> set xs \<Longrightarrow> \<exists>r s'. step x s = (Inr r, s') \<and> I s' \<and> op s' = g (op s) {k x}"
    and "\<And>A. g A {} = A" "\<And>A B C. g (g A B) C = g A (B \<union> C)"
  shows "I s \<Longrightarrow> \<exists>rs s'. each step xs s = (Inr rs, s') \<and> I s' \<and> op s' = g (op s) (k ` set xs)"
  using assms(1)
proof (induction xs arbitrary: s)
  case (Cons x xs)
  obtain r s1 where 1: "step x s = (Inr r, s1)" "I s1" "op s1 = g (op s) {k x}"
    using Cons.prems(2) [OF Cons.prems(1), of x] by auto
  have "\<exists>rs s2. each step xs s1 = (Inr rs, s2) \<and> I s2 \<and> op s2 = g (op s1) (k ` set xs)"
    by (rule Cons.IH [OF 1(2)]) (rule Cons.prems(2), simp_all)
  then obtain rs s2 where 2: "each step xs s1 = (Inr rs, s2)" "I s2" "op s2 = g (op s1) (k ` set xs)" by blast
  show ?case
    using 1 2 assms(3) [of "op s" "{k x}" "k ` set xs"]
    by (intro exI [of _ "case r of None \<Rightarrow> rs | Some i \<Rightarrow> i # rs"] exI [of _ s2]) simp
qed (simp add: assms(2))

lemma each_idle: "(\<And>x. x \<in> set xs \<Longrightarrow> step x s = (Inr None, s)) \<Longrightarrow> each step xs s = (Inr [], s)"
  by (induction xs) simp_all

section \<open>The rules track their conditions\<close>

lemmas rule_names = consumer_stalled_fingerprint_def dlq_depth_fingerprint_def dlq_subject_def live_refreshed_group_def

abbreviation lag_series :: "uuid \<times> string \<times> string" where
  "lag_series \<equiv> (default_tenant_id, consumer_stalled_fingerprint, live_refreshed_group)"

abbreviation dlq_series :: "uuid \<Rightarrow> uuid \<times> string \<times> string" where
  "dlq_series t \<equiv> (t, dlq_depth_fingerprint, dlq_subject)"

lemma breaching_iff:
  assumes "1 \<le> threshold"
  shows "t \<in> fst ` set (breaching_tenants threshold d) \<longleftrightarrow> threshold \<le> int (dlq_depth t d)"
proof -
  have "dlq_depth t d \<noteq> 0 \<longleftrightarrow> (\<exists>j \<in> set (jobs d). j_status j = DEAD_LETTER \<and> j_tenant_id j = t)"
    unfolding dlq_depth_def row_count_zero_iff by (auto simp: dead_lettered_def)
  moreover have "threshold \<le> int (dlq_depth t d) \<Longrightarrow> dlq_depth t d \<noteq> 0" using assms by linarith
  ultimately show ?thesis
    by (auto simp: breaching_tenants_def dlq_depth_by_tenant_def image_iff split_beta)
qed

lemma open_tenants_iff: "t \<in> set (tenants_with_open_episode dlq_depth_fingerprint dlq_subject s) \<longleftrightarrow> dlq_series t \<in> open_series s"
  by (auto simp: tenants_with_open_episode_def open_series_def series_def filter_empty_conv rule_names)

lemma dlq_depth_cong: "jobs d = jobs d' \<Longrightarrow> dlq_depth t d = dlq_depth t d'"
  by (simp add: dlq_depth_def)

lemma evaluate_dlq_depth_tracks:
  assumes ok: "series_ok s" and threshold: "1 \<le> ac_dlq_depth_threshold cfg"
  shows "\<exists>out s'. evaluate_dlq_depth cfg now s = (Inr out, s') \<and> series_ok s' \<and> jobs (at_db s') = jobs (at_db s)
    \<and> open_series s' = open_series s - range dlq_series \<union> {dlq_series t | t. ac_dlq_depth_threshold cfg \<le> int (dlq_depth t (at_db s))}"
proof -
  let ?th = "ac_dlq_depth_threshold cfg" and ?d = "at_db s"
  let ?b = "breaching_tenants ?th ?d" and ?I = "\<lambda>s'. series_ok s' \<and> jobs (at_db s') = jobs ?d"
  have raise: "\<exists>r s'. raise_episode cfg now (dlq_episode (ac_codec cfg) now ?th b) s1 = (Inr r, s') \<and> ?I s'
      \<and> open_series s' = open_series s1 \<union> {dlq_series (fst b)}" if "?I s1" for b s1
    using that raise_episode_opens [of s1 "dlq_episode (ac_codec cfg) now ?th b" cfg now]
    by (auto simp: dlq_episode_def Let_def split_beta rule_names)
  have "\<exists>rs s1. each (\<lambda>b. raise_episode cfg now (dlq_episode (ac_codec cfg) now ?th b)) ?b s = (Inr rs, s1) \<and> ?I s1
      \<and> open_series s1 = open_series s \<union> (\<lambda>b. dlq_series (fst b)) ` set ?b"
    by (rule each_sets [where I = ?I and op = open_series]) (use raise ok in auto)
  then obtain rs s1 where 1: "each (\<lambda>b. raise_episode cfg now (dlq_episode (ac_codec cfg) now ?th b)) ?b s = (Inr rs, s1)" "?I s1"
      "open_series s1 = open_series s \<union> (\<lambda>b. dlq_series (fst b)) ` set ?b"
    by blast
  let ?q = "filter (\<lambda>t. t \<notin> fst ` set ?b) (tenants_with_open_episode dlq_depth_fingerprint dlq_subject s1)"
  have resolve: "\<exists>r s'. resolve_drained now ?th ?d t s1 = (Inr r, s') \<and> ?I s' \<and> open_series s' = open_series s1 - {dlq_series t}"
    if "?I s1" for t s1
    using that resolve_episode_closes [of s1 dlq_depth_fingerprint dlq_subject now t
        "''depth '' @ show_nat (dlq_depth t ?d) @ '', below the threshold of '' @ show_int ?th"]
    by (auto simp: resolve_drained_def rule_names)
  have "\<exists>qs s2. each (resolve_drained now ?th ?d) ?q s1 = (Inr qs, s2) \<and> ?I s2 \<and> open_series s2 = open_series s1 - dlq_series ` set ?q"
    by (rule each_sets [where I = ?I and op = open_series]) (use resolve 1(2) in auto)
  then obtain qs s2 where 2: "each (resolve_drained now ?th ?d) ?q s1 = (Inr qs, s2)" "?I s2"
      "open_series s2 = open_series s1 - dlq_series ` set ?q"
    by blast
  have "evaluate_dlq_depth cfg now s = (Inr \<lparr>ro_raised = rs, ro_resolved = qs\<rparr>, s2)"
    using 1(1) 2(1) by (simp add: evaluate_dlq_depth_def Let_def)
  moreover have "open_series s2 = open_series s - range dlq_series \<union> {dlq_series t | t. ?th \<le> int (dlq_depth t ?d)}"
    unfolding 2(3) 1(3) breaching_iff [OF threshold, symmetric] by (auto simp: open_tenants_iff 1(3))
  ultimately show ?thesis using 2(2) by blast
qed

lemma dlq_rule_idle:
  assumes "\<And>t. dlq_series t \<in> open_series s \<longleftrightarrow> ac_dlq_depth_threshold cfg \<le> int (dlq_depth t (at_db s))" "1 \<le> ac_dlq_depth_threshold cfg"
  shows "evaluate_dlq_depth cfg now s = (Inr quiet, s)"
proof -
  let ?th = "ac_dlq_depth_threshold cfg" and ?b = "breaching_tenants (ac_dlq_depth_threshold cfg) (at_db s)"
  have "raise_episode cfg now (dlq_episode (ac_codec cfg) now ?th b) s = (Inr None, s)" if "b \<in> set ?b" for b
  proof -
    have "dlq_series (fst b) \<in> open_series s" using that breaching_iff [OF assms(2)] assms(1) by blast
    then show ?thesis
      by (auto simp: raise_episode_def raise_clear_def open_alert_None_iff dlq_episode_def Let_def split_beta open_series_def)
  qed
  then have "each (\<lambda>b. raise_episode cfg now (dlq_episode (ac_codec cfg) now ?th b)) ?b s = (Inr [], s)" by (rule each_idle)
  moreover have "filter (\<lambda>t. t \<notin> fst ` set ?b) (tenants_with_open_episode dlq_depth_fingerprint dlq_subject s) = []"
    unfolding filter_empty_conv using breaching_iff [OF assms(2)] assms(1) open_tenants_iff by blast
  ultimately show ?thesis by (simp add: evaluate_dlq_depth_def Let_def quiet_def)
qed

lemma measured_groups_eq: "measured_groups = [live_refreshed_group]"
  by (simp add: measured_groups_def paged_lag_groups_def source_live)

text \<open>What the lag rule sees: the newest sample of the dispatcher's window, if there is one.\<close>

definition lag_seen :: "alert_config \<Rightarrow> time \<Rightarrow> lag_store \<Rightarrow> lag_sample option" where
  "lag_seen cfg now st =
     (case lr_recent_samples (read_lag (ac_codec cfg) now live_refreshed_group st) of [] \<Rightarrow> None | x # _ \<Rightarrow> Some x)"

definition lag_verdict :: "alert_config \<Rightarrow> time \<Rightarrow> lag_store \<Rightarrow> bool \<Rightarrow> bool" where
  "lag_verdict cfg now st before =
     (case lag_seen cfg now st of None \<Rightarrow> before | Some x \<Rightarrow> ac_consumer_lag_threshold cfg \<le> smp_lag x)"

lemma lag_series_plain: "no_colon consumer_stalled_fingerprint" "no_colon live_refreshed_group"
  by (simp_all add: rule_names)

lemma evaluate_consumer_lag_tracks:
  assumes ok: "series_ok s"
  shows "\<exists>out s'. evaluate_consumer_lag cfg now st s = (Inr out, s') \<and> series_ok s' \<and> jobs (at_db s') = jobs (at_db s)
    \<and> open_series s' = (if lag_verdict cfg now st (lag_series \<in> open_series s) then insert lag_series (open_series s)
                        else open_series s - {lag_series})"
proof (cases "lr_recent_samples (read_lag (ac_codec cfg) now live_refreshed_group st)")
  case Nil
  then show ?thesis
    using ok by (auto simp: evaluate_consumer_lag_def measured_groups_eq lag_rule_step_def lag_verdict_def lag_seen_def insert_absorb)
next
  case (Cons x xs)
  let ?th = "ac_consumer_lag_threshold cfg"
  have ep: "ep_plain (lag_episode (ac_codec cfg) live_refreshed_group x ?th)" "ep_title (lag_episode (ac_codec cfg) live_refreshed_group x ?th) \<noteq> []"
      "of_ep (lag_episode (ac_codec cfg) live_refreshed_group x ?th) = lag_series"
    by (simp_all add: lag_episode_def Let_def lag_series_plain)
  show ?thesis
    using raise_episode_opens [OF ok ep(1,2), of cfg now] ep(3)
      resolve_episode_closes [OF ok lag_series_plain, of now default_tenant_id
        "''lag measured at '' @ show_int (smp_lag x) @ '', below the threshold of '' @ show_int ?th"]
    by (auto simp: evaluate_consumer_lag_def measured_groups_eq lag_rule_step_def lag_verdict_def lag_seen_def Cons Let_def)
qed

lemma lag_rule_idle:
  assumes "lag_series \<in> open_series s \<longleftrightarrow> lag_verdict cfg now st (lag_series \<in> open_series s)"
  shows "evaluate_consumer_lag cfg now st s = (Inr quiet, s)"
proof -
  have e: "open_alert default_tenant_id (dedup_prefix consumer_stalled_fingerprint live_refreshed_group) s = None
      \<longleftrightarrow> lag_series \<notin> open_series s"
    by (simp add: open_alert_None_iff open_series_def lag_series_plain)
  show ?thesis
    using assms e
    by (auto simp: evaluate_consumer_lag_def measured_groups_eq lag_rule_step_def lag_verdict_def lag_seen_def raise_episode_def
        raise_clear_def resolve_episode_def lag_episode_def Let_def quiet_def split: list.splits if_splits)
qed

text \<open>
  Property C17. The platform's own alerts follow the conditions they stand for. Take any state that the
  replicas' raises and recoveries lead to, statement by statement and however interleaved, in which no
  condition has two open alerts, whatever the jobs table has become meanwhile. After an evaluation of the
  rules there (enabled, with a depth threshold of at least one), run to its end with nothing in between, a tenant has an open depth alert exactly when its
  dead-letter queue is at the threshold or above; the consumer alert is open exactly when the newest
  measured lag is at its threshold, and stays as it was when nothing was measured; no other series is
  touched; and evaluating again raises and resolves nothing, so a sustained breach pages once. The
  proviso is needed: a replica that looks before another's commit and counts after it opens a second alert
  (\<open>late_count_pages_twice\<close>), while none arises as long as look and count see one snapshot
  (\<open>episode_pages_once\<close>).
\<close>

theorem alerts_track_conditions:
  assumes "w = fold (rule_apply cfg) evs no_alerts" "list_all plain_event evs" "pages_singly s"
    and "at_alerts s = at_alerts (rw_state w)" "next_uuid (at_db (rw_state w)) \<le> next_uuid (at_db s)"
    and "ac_rules_enabled cfg" "1 \<le> ac_dlq_depth_threshold cfg"
    and "evaluate_alert_rules cfg now st s = (out, s')"
  shows "(dlq_series t \<in> open_series s' \<longleftrightarrow> ac_dlq_depth_threshold cfg \<le> int (dlq_depth t (at_db s)))
    \<and> (lag_series \<in> open_series s' \<longleftrightarrow> lag_verdict cfg now st (lag_series \<in> open_series s))
    \<and> open_series s' - insert lag_series (range dlq_series) = open_series s - insert lag_series (range dlq_series)
    \<and> evaluate_alert_rules cfg now st s' = (quiet, s')"
proof -
  let ?th = "ac_dlq_depth_threshold cfg"
  have "rows_inv w" unfolding assms(1) by (rule rows_inv_reached [OF assms(2)])
  then have "rows_ok s"
    using assms(4,5) by (auto simp: rows_inv_def rows_ok_def ids_ok_def intro: less_le_trans)
  then have ok: "series_ok s" using assms(3) by (simp add: series_ok_split)
  obtain o1 s1 where 1: "evaluate_consumer_lag cfg now st s = (Inr o1, s1)" "series_ok s1" "jobs (at_db s1) = jobs (at_db s)"
      "open_series s1 = (if lag_verdict cfg now st (lag_series \<in> open_series s) then insert lag_series (open_series s)
                         else open_series s - {lag_series})"
    using evaluate_consumer_lag_tracks [OF ok] by blast
  obtain o2 s2 where 2: "evaluate_dlq_depth cfg now s1 = (Inr o2, s2)" "jobs (at_db s2) = jobs (at_db s1)"
      "open_series s2 = open_series s1 - range dlq_series \<union> {dlq_series t | t. ?th \<le> int (dlq_depth t (at_db s1))}"
    using evaluate_dlq_depth_tracks [OF 1(2) assms(7)] by blast
  have s': "s' = s2" using assms(6,8) 1(1) 2(1) by (simp add: evaluate_alert_rules_def)
  have ne: "lag_series \<noteq> dlq_series t" for t by (simp add: rule_names)
  have depth: "dlq_depth t (at_db s1) = dlq_depth t (at_db s)" "dlq_depth t (at_db s2) = dlq_depth t (at_db s)" for t
    using 1(3) 2(2) by (simp_all add: dlq_depth_def)
  have dlq: "dlq_series t \<in> open_series s2 \<longleftrightarrow> ?th \<le> int (dlq_depth t (at_db s2))" for t
    unfolding 2(3) depth by auto
  have lag: "lag_series \<in> open_series s2 \<longleftrightarrow> lag_verdict cfg now st (lag_series \<in> open_series s)"
    unfolding 2(3) 1(4) using ne by auto
  have "lag_series \<in> open_series s2 \<longleftrightarrow> lag_verdict cfg now st (lag_series \<in> open_series s2)"
    unfolding lag by (simp add: lag_verdict_def split: option.splits)
  then have idle: "evaluate_alert_rules cfg now st s2 = (quiet, s2)"
    using lag_rule_idle [of s2 cfg now st] dlq_rule_idle [OF dlq assms(7), of now] assms(6)
    by (simp add: evaluate_alert_rules_def quiet_def)
  have "open_series s2 - insert lag_series (range dlq_series) = open_series s - insert lag_series (range dlq_series)"
    unfolding 2(3) 1(4) by auto
  then show ?thesis using dlq [of t] lag idle by (simp add: s' depth)
qed

definition lab_alerts :: alert_config where
  "lab_alerts = \<lparr>ac_webhook_url = None, ac_webhook_secret = None, ac_hmac = (\<lambda>k m. k @ m), ac_float_repr = (\<lambda>_. ''0.0''),
     ac_codec = sample_codec, ac_rules_enabled = True, ac_consumer_lag_threshold = 20, ac_dlq_depth_threshold = 1,
     ac_dedup_window_seconds = 3600\<rparr>"

theorem alerts_track_conditions_witness:
  "dlq_series 7 \<in> open_series (snd (evaluate_alert_rules lab_alerts 9 no_lag
     \<lparr>at_db = empty_db\<lparr>jobs := [sample_job 1 DEAD_LETTER]\<rparr>, at_alerts = [], at_sent = []\<rparr>))"
proof -
  let ?s = "\<lparr>at_db = empty_db\<lparr>jobs := [sample_job 1 DEAD_LETTER]\<rparr>, at_alerts = [], at_sent = []\<rparr>"
  obtain out s' where e: "evaluate_alert_rules lab_alerts 9 no_lag ?s = (out, s')" by fastforce
  have "dlq_depth 7 (at_db ?s) = 1"
    by (simp add: dlq_depth_def row_count_def dead_lettered_def sample_job_def new_job_def)
  moreover have "pages_singly ?s" by (simp add: pages_singly_def series_def)
  ultimately show ?thesis
    using alerts_track_conditions [of no_alerts lab_alerts "[]" ?s 9 no_lag out s' 7, OF _ _ _ _ _ _ _ e] e
    by (simp add: lab_alerts_def no_alerts_def empty_db_def)
qed

text \<open>
  An episode is one alert. However the raises, recoveries and other alerts of all replicas
  interleave, as long as the look and the count of a raise see one snapshot, a condition never has two
  open alerts, and the alerts of a condition are numbered from zero without gap or repetition, so every
  recovery is followed by a new number and no number is ever paged twice.
\<close>

theorem episode_pages_once:
  assumes "w = fold (apply_block cfg) blocks no_alerts" "no_colon f" "no_colon sub"
  shows "length (filter open_row (series t f sub (at_alerts (rw_state w)))) \<le> 1
    \<and> map al_dedup_key (series t f sub (at_alerts (rw_state w)))
        = map (\<lambda>n. Some (dedup_key f sub n)) [0..<length (series t f sub (at_alerts (rw_state w)))]"
proof -
  have "rules_inv w" unfolding assms(1)
    by (rule rules.fold_inv) (simp add: rules_inv_def series_ok_def ids_ok_def no_alerts_def numbered_def series_def txn_ok_def)
  then show ?thesis using assms(2,3) by (simp add: rules_inv_def series_ok_def numbered_def)
qed

definition lab_episode :: episode where
  "lab_episode = \<lparr>ep_fingerprint = ''f'', ep_subject = ''g'', ep_tenant_id = 7, ep_source = ''x'', ep_title = ''T'',
     ep_summary = ''S'', ep_payload = []\<rparr>"

theorem episode_pages_once_witness:
  "length (filter open_row (series 7 ''f'' ''g'' (at_alerts (rw_state (fold (apply_block lab_alerts)
     [[Look 1 lab_episode, Count 1], [Look 2 lab_episode, Count 2], [Commit 1 5], [Commit 2 6]] no_alerts))))) \<le> 1"
  by (rule conjunct1 [OF episode_pages_once [OF refl]]) simp_all

text \<open>
  The proviso of one snapshot is needed, and the code does not secure it: the look and the count are two
  statements of a transaction that sees every commit in between. A replica that has looked before another
  one commits, and counts after, opens a second alert for the same condition.
\<close>

theorem late_count_pages_twice:
  "length (filter open_row (series 7 ''f'' ''g'' (at_alerts (rw_state (fold (rule_apply lab_alerts)
     [Look 1 lab_episode, Look 2 lab_episode, Count 1, Commit 1 5, Count 2, Commit 2 6] no_alerts))))) = 2"
  by (simp add: rule_apply_def raise_clear_def raise_ordinal_def raise_insert_def create_alert_def open_alert_def episodes_so_far_def
      row_count_def startswith_def dedup_prefix_def dedup_key_def dedup_namespace_def lab_episode_def lab_alerts_def no_alerts_def
      series_def key_taken_def severity_critical_def allowed_severities_def run_delivery_def deliver_webhook_def
      record_transition_def audit_log_write_def empty_db_def show_nat.simps digit_char_def Let_def)

section \<open>Keys name their series\<close>

lemma colon_parts_plain: "no_colon xs \<Longrightarrow> colon_parts (xs @ CHR '':'' # ys) = xs # colon_parts ys"
  by (induction xs) auto

lemma colon_parts_nonempty: "colon_parts xs \<noteq> []"
  by (induction xs) (auto split: list.splits)

lemma colon_parts_last: "no_colon ys \<Longrightarrow> colon_parts (xs @ CHR '':'' # ys) = colon_parts xs @ [ys]"
proof (induction xs)
  case Nil
  then have "colon_parts ys = [ys]" by (induction ys) auto
  then show ?case by simp
next
  case (Cons x xs)
  then show ?case using colon_parts_nonempty [of xs] by (auto split: list.splits)
qed

lemma join_colon_parts: "join '':'' (colon_parts xs) = xs"
proof (induction xs)
  case (Cons x xs)
  obtain w ws where w: "colon_parts xs = w # ws" using colon_parts_nonempty by (cases "colon_parts xs") auto
  have "join '':'' ((x # w) # ws) = x # join '':'' (w # ws)" by (cases ws) simp_all
  then show ?case using Cons w by auto
qed simp

lemma show_nat_no_colon: "no_colon (show_nat n)"
  using set_show_nat [of n] by auto

text \<open>
  A key gives back the series it was made for, also when the subject contains the separator.
\<close>

lemma series_of_dedup_key:
  assumes "no_colon f"
  shows "series_of_key (dedup_key f sub n) = Some (f, sub)"
proof -
  have "dedup_key f sub n = ''rule'' @ CHR '':'' # (f @ CHR '':'' # (sub @ CHR '':'' # show_nat n))"
    by (simp add: dedup_key_def dedup_prefix_def dedup_namespace_def)
  then have "colon_parts (dedup_key f sub n) = ''rule'' # f # (colon_parts sub @ [show_nat n])"
    using assms by (simp add: colon_parts_plain colon_parts_last show_nat_no_colon del: append.simps)
  then show ?thesis
    using colon_parts_nonempty [of sub] join_colon_parts [of sub]
    by (cases "colon_parts sub") (auto simp: series_of_key_def Let_def butlast_append)
qed

lemma open_rule_row_series:
  assumes "series_ok s" "a \<in> set (at_alerts s)" "open_row a" "startswith (dedup_namespace @ '':'') (al_dedup_key a)"
  shows "\<exists>f sub n. no_colon f \<and> no_colon sub \<and> al_dedup_key a = Some (dedup_key f sub n) \<and> (al_tenant_id a, f, sub) \<in> open_series s"
proof -
  have "rule_keyed a" using assms(1,2) by (simp add: series_ok_def)
  then obtain f sub n where k: "no_colon f" "no_colon sub" "al_dedup_key a = Some (dedup_key f sub n)"
    using assms(4) by (auto simp: rule_keyed_def)
  then have "a \<in> set (filter open_row (series (al_tenant_id a) f sub (at_alerts s)))"
    using assms(2,3) by (simp add: series_def dedup_key_series)
  then have "(al_tenant_id a, f, sub) \<in> open_series s" using k(1,2) by (auto simp: open_series_def filter_empty_conv)
  then show ?thesis using k by blast
qed

definition key_series :: "uuid \<times> string \<Rightarrow> uuid \<times> string \<times> string" where
  "key_series tk = (fst tk, the (series_of_key (snd tk)))"

text \<open>
  The reset leaves no rule's alert open. From any state the replicas lead to, closing the open
  episodes succeeds, every alert with a key of the rules is resolved afterwards, and the jobs are as they
  were.
\<close>

theorem reset_closes_episodes:
  assumes "w = fold (apply_block cfg) blocks no_alerts"
  shows "\<exists>closed s'. resolve_open_episodes now reason (rw_state w) = (Inr closed, s')
    \<and> list_all (\<lambda>a. startswith (dedup_namespace @ '':'') (al_dedup_key a) \<longrightarrow> al_resolved_at a \<noteq> None) (at_alerts s')
    \<and> jobs (at_db s') = jobs (at_db (rw_state w))"
proof -
  let ?s = "rw_state w"
  let ?rule = "startswith (dedup_namespace @ '':'')"
  let ?I = "\<lambda>s'. series_ok s' \<and> jobs (at_db s') = jobs (at_db ?s)"
  let ?step = "\<lambda>(tenant_id, key) s. (case series_of_key key of None \<Rightarrow> (Inr None :: alert_error + uuid option, s)
      | Some (fingerprint, subject) \<Rightarrow> map_prod Inr id (resolve_episode now tenant_id fingerprint subject reason s))"
  let ?xs = "List.map_filter (\<lambda>a. if open_row a \<and> ?rule (al_dedup_key a) then map_option (Pair (al_tenant_id a)) (al_dedup_key a) else None) (at_alerts ?s)"
  have "rules_inv w" unfolding assms
    by (rule rules.fold_inv) (simp add: rules_inv_def series_ok_def ids_ok_def no_alerts_def numbered_def series_def txn_ok_def)
  then have ok: "series_ok ?s" by (simp add: rules_inv_def)
  have xs: "(t, k) \<in> set ?xs \<longleftrightarrow> (\<exists>a \<in> set (at_alerts ?s). open_row a \<and> ?rule (al_dedup_key a) \<and> t = al_tenant_id a \<and> al_dedup_key a = Some k)" for t k
    by (auto simp: List.map_filter_def split: if_splits) force
  have key: "\<exists>f sub. no_colon f \<and> no_colon sub \<and> series_of_key k = Some (f, sub)" if tk: "(t, k) \<in> set ?xs" for t k
    using tk open_rule_row_series [OF ok] series_of_dedup_key unfolding xs by fastforce
  have "\<exists>rs s'. each ?step ?xs ?s = (Inr rs, s') \<and> ?I s' \<and> open_series s' = open_series ?s - key_series ` set ?xs"
  proof (rule each_sets [where I = ?I and op = open_series])
    fix x s assume I: "?I s" and x: "x \<in> set ?xs"
    obtain t k where tk: "x = (t, k)" by (cases x)
    obtain f sub where f: "no_colon f" "no_colon sub" "series_of_key k = Some (f, sub)" using key x tk by blast
    then have "key_series x = (t, f, sub)" by (simp add: key_series_def tk)
    then show "\<exists>r s'. ?step x s = (Inr r, s') \<and> ?I s' \<and> open_series s' = open_series s - {key_series x}"
      using resolve_episode_closes [of s f sub now t reason] I f by (auto simp: tk)
  qed (use ok in auto)
  then obtain rs s' where r: "each ?step ?xs ?s = (Inr rs, s')" "?I s'" "open_series s' = open_series ?s - key_series ` set ?xs" by blast
  have "y \<in> key_series ` set ?xs" if y: "y \<in> open_series ?s" for y
  proof -
    obtain t f sub where y': "y = (t, f, sub)" by (cases y)
    then obtain a where a: "a \<in> set (at_alerts ?s)" "open_row a" "al_tenant_id a = t" "startswith (dedup_prefix f sub) (al_dedup_key a)"
      and p: "no_colon f" "no_colon sub"
      using y by (auto simp: open_series_def series_def filter_empty_conv)
    from a p series_of_rule_row [OF ok a(1,4) p] open_rule_row_series [OF ok a(1,2) dedup_prefix_rule [OF a(4)]]
    obtain n where "al_dedup_key a = Some (dedup_key f sub n)" by (metis dedup_key_series)
    with a have "(t, dedup_key f sub n) \<in> set ?xs" unfolding xs using dedup_prefix_rule [OF a(4)] by blast
    moreover have "key_series (t, dedup_key f sub n) = y" by (simp add: key_series_def series_of_dedup_key [OF p(1)] y')
    ultimately show ?thesis by force
  qed
  then have "open_series s' = {}" unfolding r(3) by blast
  then have "list_all (\<lambda>a. ?rule (al_dedup_key a) \<longrightarrow> al_resolved_at a \<noteq> None) (at_alerts s')"
    using open_rule_row_series [of s'] r(2) unfolding list_all_iff by blast
  then show ?thesis using r(1,2) unfolding resolve_open_episodes_def by blast
qed

theorem reset_closes_episodes_witness:
  "\<exists>closed s'. resolve_open_episodes 9 ''take'' (rw_state (fold (apply_block lab_alerts) [[Look 1 lab_episode, Count 1], [Commit 1 5]] no_alerts))
     = (Inr closed, s')"
  using reset_closes_episodes [OF refl, of 9 "''take''"] by blast

section \<open>Deliveries are bound to their time and nonce\<close>

lemma hex_chars_no_dot: "CHR ''.'' \<notin> hex_chars"
  by (simp add: hex_chars_def)

lemma show_int_no_dot: "CHR ''.'' \<notin> set (show_int i)"
proof -
  have "CHR ''.'' \<notin> set (show_nat n)" for n using set_show_nat [of n] by auto
  then show ?thesis by (simp add: show_int_def)
qed

text \<open>
  A signature belongs to one delivery. Where the keyed digest does not collide, two deliveries
  under one secret carry the same signature only when time, nonce and body are all the same: a captured
  request cannot be sent again under a new time or nonce, nor with another alert.
\<close>

theorem delivery_signature_binds:
  assumes "deliver_webhook cfg now nonce_id payload = Some r" "deliver_webhook cfg now' nonce_id' payload' = Some r'"
    and "\<And>secret m m'. ac_hmac cfg secret m = ac_hmac cfg secret m' \<Longrightarrow> m = m'"
    and "wr_signature r = wr_signature r'"
  shows "wr_timestamp r = wr_timestamp r' \<and> wr_nonce r = wr_nonce r' \<and> wr_body r = wr_body r'"
proof -
  obtain secret where s: "wr_signature r = sign_delivery cfg secret (wr_timestamp r) (wr_nonce r) (wr_body r)"
      "wr_signature r' = sign_delivery cfg secret (wr_timestamp r') (wr_nonce r') (wr_body r')"
    and t: "wr_timestamp r = show_int \<lfloor>now * 1000\<rfloor>" "wr_timestamp r' = show_int \<lfloor>now' * 1000\<rfloor>"
      "wr_nonce r = hex_fixed 32 nonce_id" "wr_nonce r' = hex_fixed 32 nonce_id'"
    using assms(1,2) by (auto simp: deliver_webhook_def Let_def split: option.splits if_splits)
  have dots: "CHR ''.'' \<notin> set (wr_timestamp r)" "CHR ''.'' \<notin> set (wr_timestamp r')"
      "CHR ''.'' \<notin> set (wr_nonce r)" "CHR ''.'' \<notin> set (wr_nonce r')"
    using t set_hex_fixed hex_chars_no_dot by (auto simp: show_int_no_dot)
  have "signed_material (wr_timestamp r) (wr_nonce r) (wr_body r) = signed_material (wr_timestamp r') (wr_nonce r') (wr_body r')"
    using assms(3,4) s by (simp add: sign_delivery_def)
  then show ?thesis using dots by (simp add: signed_material_def append_sep_iff)
qed

definition lab_webhook :: alert_config where
  "lab_webhook = lab_alerts\<lparr>ac_webhook_url := Some ''u'', ac_webhook_secret := Some ''k''\<rparr>"

theorem delivery_signature_binds_witness:
  "\<exists>r r'. deliver_webhook lab_webhook 5 3 [] = Some r \<and> deliver_webhook lab_webhook 6 3 [] = Some r' \<and> wr_signature r \<noteq> wr_signature r'"
proof -
  obtain r r' where r: "deliver_webhook lab_webhook 5 3 [] = Some r" "deliver_webhook lab_webhook 6 3 [] = Some r'"
    by (simp add: deliver_webhook_def lab_webhook_def lab_alerts_def Let_def)
  have "ac_hmac lab_webhook secret m = ac_hmac lab_webhook secret m' \<Longrightarrow> m = m'" for secret m m'
    by (simp add: lab_webhook_def lab_alerts_def)
  moreover have "wr_timestamp r = show_int 5000" "wr_timestamp r' = show_int 6000"
    using r by (auto simp: deliver_webhook_def lab_webhook_def lab_alerts_def Let_def)
  ultimately have "wr_signature r \<noteq> wr_signature r'"
    using delivery_signature_binds [OF r] by (auto simp: show_int_inject)
  then show ?thesis using r by blast
qed

end
