(* ===== verification/Slo.thy ===== *)
theory Slo
  imports Alerts
begin

text \<open>
  Service-level objectives: \<open>services/slo.py\<close>, the loop that evaluates them and the metrics loop of
  \<open>workers/dispatcher.py\<close>, and the tools \<open>get_slo_status\<close> and \<open>list_active_alerts\<close>. Rates are exact
  rationals; an infinite burn rate is a value of its own. Texts are written with the nearest ASCII sign.
\<close>

section \<open>Objectives\<close>

record slo_definition =
  slo_id :: string
  slo_name :: string
  slo_description :: string
  slo_target :: rat
  slo_window_hours :: int
  slo_runbook_id :: string
  slo_latency_threshold_seconds :: "rat option"

definition job_completion_slo :: slo_definition where
  "job_completion_slo = \<lparr>slo_id = ''job_completion_rate'', slo_name = ''Job completion rate'',
     slo_description = ''Share of jobs that reach COMPLETED rather than DEAD_LETTER. Cancelled jobs are excluded from the denominator.'',
     slo_target = 99 / 100, slo_window_hours = 24, slo_runbook_id = ''rb-slo-job-completion'',
     slo_latency_threshold_seconds = None\<rparr>"

definition dispatch_latency_slo :: slo_definition where
  "dispatch_latency_slo = \<lparr>slo_id = ''job_dispatch_latency'', slo_name = ''Job dispatch latency'',
     slo_description = ''Share of dispatched jobs that left PENDING within 30 seconds of creation.'' @
       '' Waiting jobs (held by the DAG) and cancelled jobs (saga rollback, or a stranded dependency parent) are excluded '' @
       ''- a job nobody decided to dispatch has no dispatch latency.'',
     slo_target = 95 / 100, slo_window_hours = 24, slo_runbook_id = ''rb-slo-dispatch-latency'',
     slo_latency_threshold_seconds = Some 30\<rparr>"

definition SLOS :: "slo_definition list" where
  "SLOS = [job_completion_slo, dispatch_latency_slo]"

definition fast_burn_threshold :: rat where
  "fast_burn_threshold = 144 / 10"

definition dispatched_statuses :: "job_status list" where
  "dispatched_statuses = [RUNNING, COMPLETED, FAILED, DEAD_LETTER]"

definition lab_fixture_payload_markers :: "string list" where
  "lab_fixture_payload_markers = [''eval_fixture'', ''seeded_fixture'']"

text \<open>\<open>payload @> {marker: true}\<close>, with a missing payload as false.\<close>

definition not_a_lab_fixture :: "job \<Rightarrow> bool" where
  "not_a_lab_fixture j \<longleftrightarrow>
     (case j_payload j of
        None \<Rightarrow> True
      | Some p \<Rightarrow> list_all (\<lambda>marker. jget p marker \<noteq> JBool True) lab_fixture_payload_markers)"

definition dispatched_in_window :: "time \<Rightarrow> job \<Rightarrow> bool" where
  "dispatched_in_window since j \<longleftrightarrow>
     since \<le> j_created_at j \<and> j_status j \<in> set dispatched_statuses \<and> not_a_lab_fixture j"

datatype burn = Burn rat | BurnInf

record slo_state =
  st_definition :: slo_definition
  st_total :: nat
  st_failed :: nat
  st_current :: rat
  st_budget_remaining_pct :: rat
  st_burn_rate :: burn
  st_healthy :: bool

section \<open>Computation\<close>

definition slo_state_of :: "slo_definition \<Rightarrow> nat \<Rightarrow> nat \<Rightarrow> slo_state" where
  "slo_state_of slo n_total failed =
     (if n_total = 0
      then \<lparr>st_definition = slo, st_total = 0, st_failed = 0, st_current = 1, st_budget_remaining_pct = 100,
            st_burn_rate = Burn 0, st_healthy = True\<rparr>
      else (let failure_rate = of_nat failed / of_nat n_total;
                current = 1 - failure_rate;
                budget_allowed = 1 - slo_target slo;
                (burn_rate, budget) =
                  (if budget_allowed \<le> 0
                   then (if 0 < failed then BurnInf else Burn 0, if 0 < failed then - 100 else 100)
                   else (Burn (failure_rate / budget_allowed), max (- 100) ((1 - failure_rate / budget_allowed) * 100)))
            in \<lparr>st_definition = slo, st_total = n_total, st_failed = failed, st_current = current,
                st_budget_remaining_pct = budget, st_burn_rate = burn_rate, st_healthy = (slo_target slo \<le> current)\<rparr>))"

abbreviation since_of :: "time \<Rightarrow> slo_definition \<Rightarrow> time" where
  "since_of now slo \<equiv> now - of_int (slo_window_hours slo) * 3600"

definition compute_completion_slo :: "time \<Rightarrow> slo_definition \<Rightarrow> db \<Rightarrow> slo_state" where
  "compute_completion_slo now slo d =
     (let rows = filter (\<lambda>j. since_of now slo \<le> j_created_at j \<and> j_status j \<in> {COMPLETED, DEAD_LETTER} \<and> not_a_lab_fixture j) (jobs d)
      in slo_state_of slo (length rows) (sum_list (map (\<lambda>j. if j_status j = DEAD_LETTER then 1 else 0) rows)))"

text \<open>\<open>CASE WHEN started_at IS NULL THEN 1 WHEN latency > threshold THEN 1 ELSE 0 END\<close>, summed by the database.\<close>

definition latency_case :: "rat \<Rightarrow> job \<Rightarrow> nat" where
  "latency_case threshold j =
     (case j_started_at j of None \<Rightarrow> 1 | Some started \<Rightarrow> if threshold < started - j_created_at j then 1 else 0)"

definition compute_latency_slo_sql :: "time \<Rightarrow> slo_definition \<Rightarrow> rat \<Rightarrow> db \<Rightarrow> slo_state" where
  "compute_latency_slo_sql now slo threshold d =
     (let rows = filter (dispatched_in_window (since_of now slo)) (jobs d)
      in slo_state_of slo (length rows) (sum_list (map (latency_case threshold) rows)))"

text \<open>The fallback: a scan that counts in the process.\<close>

fun latency_scan :: "rat \<Rightarrow> (time \<times> time option) list \<Rightarrow> nat \<times> nat \<Rightarrow> nat \<times> nat" where
  "latency_scan threshold [] (n_total, failed) = (n_total, failed)"
| "latency_scan threshold ((created, None) # rows) (n_total, failed) = latency_scan threshold rows (n_total + 1, failed + 1)"
| "latency_scan threshold ((created, Some started) # rows) (n_total, failed) =
     latency_scan threshold rows (n_total + 1, if threshold < started - created then failed + 1 else failed)"

definition compute_latency_slo_python :: "time \<Rightarrow> slo_definition \<Rightarrow> rat \<Rightarrow> db \<Rightarrow> slo_state" where
  "compute_latency_slo_python now slo threshold d =
     (let rows = map (\<lambda>j. (j_created_at j, j_started_at j)) (filter (dispatched_in_window (since_of now slo)) (jobs d));
          (n_total, failed) = latency_scan threshold rows (0, 0)
      in slo_state_of slo n_total failed)"

text \<open>\<open>extract_ok\<close>: the database supports \<open>EXTRACT(EPOCH FROM ...)\<close>.\<close>

definition compute_latency_slo :: "bool \<Rightarrow> time \<Rightarrow> slo_definition \<Rightarrow> rat \<Rightarrow> db \<Rightarrow> slo_state" where
  "compute_latency_slo extract_ok now slo threshold d =
     (if extract_ok then compute_latency_slo_sql now slo threshold d else compute_latency_slo_python now slo threshold d)"

definition compute_all :: "bool \<Rightarrow> time \<Rightarrow> db \<Rightarrow> slo_state list" where
  "compute_all extract_ok now d =
     map (\<lambda>slo. case slo_latency_threshold_seconds slo of
            Some threshold \<Rightarrow> compute_latency_slo extract_ok now slo threshold d
          | None \<Rightarrow> compute_completion_slo now slo d) SLOS"

section \<open>Alerts on a fast burn\<close>

definition is_fast_burning :: "slo_state \<Rightarrow> bool" where
  "is_fast_burning st = (case st_burn_rate st of BurnInf \<Rightarrow> True | Burn r \<Rightarrow> fast_burn_threshold \<le> r)"

definition fast_burn_bucket :: "rat \<Rightarrow> time \<Rightarrow> int" where
  "fast_burn_bucket window_seconds now = \<lfloor>now / window_seconds\<rfloor>"

definition fast_burn_key :: "string \<Rightarrow> int \<Rightarrow> string" where
  "fast_burn_key sid bucket = ''slo:'' @ sid @ '':fast_burn:'' @ show_int bucket"

definition round_to :: "nat \<Rightarrow> rat \<Rightarrow> rat" where
  "round_to digits q = of_int (py_round (q * 10 ^ digits)) / 10 ^ digits"

text \<open>The text of a float under the format specifications the description uses.\<close>

record slo_format =
  fmt_burn :: "burn \<Rightarrow> string"
  fmt_percent1 :: "rat \<Rightarrow> string"
  fmt_percent0 :: "rat \<Rightarrow> string"
  fmt_fixed0 :: "rat \<Rightarrow> string"

definition alert_description :: "slo_format \<Rightarrow> slo_state \<Rightarrow> string" where
  "alert_description fmt st =
     (let d = st_definition st
      in slo_name d @ '' is burning error budget at '' @ fmt_burn fmt (st_burn_rate st) @ ''x the sustainable rate ('' @
         show_nat (st_failed st) @ '' failed of '' @ show_nat (st_total st) @ '' in the last '' @ show_int (slo_window_hours d) @
         ''h, '' @ fmt_percent1 fmt (st_current st) @ '' against a '' @ fmt_percent0 fmt (slo_target d) @
         '' target). Budget remaining: '' @ fmt_fixed0 fmt (st_budget_remaining_pct st) @ ''%. Runbook: '' @ slo_runbook_id d @ ''.'')"

definition fast_burn_data :: "slo_state \<Rightarrow> dict" where
  "fast_burn_data st =
     (let d = st_definition st
      in [(''slo_id'', JStr (slo_id d)), (''runbook_id'', JStr (slo_runbook_id d)),
          (''burn_rate'', case st_burn_rate st of BurnInf \<Rightarrow> JNull | Burn r \<Rightarrow> JFloat (round_to 3 r)),
          (''threshold'', JFloat fast_burn_threshold), (''target'', JFloat (slo_target d)),
          (''current'', JFloat (round_to 6 (st_current st))),
          (''budget_remaining_pct'', JFloat (round_to 2 (st_budget_remaining_pct st))),
          (''window_hours'', JInt (slo_window_hours d)), (''total'', JInt (int (st_total st))), (''failed'', JInt (int (st_failed st)))])"

definition raise_fast_burn_alert ::
    "alert_config \<Rightarrow> slo_format \<Rightarrow> slo_state \<Rightarrow> time \<Rightarrow> alert_state \<Rightarrow> (alert_error + uuid option) \<times> alert_state" where
  "raise_fast_burn_alert cfg fmt st now s =
     (if ac_dedup_window_seconds cfg = 0 then (Inl ZeroDivisionError, s)
      else (case create_alert now [] \<lparr>rq_tenant_id = default_tenant_id, rq_severity = severity_critical,
                  rq_source = ''slo:'' @ slo_id (st_definition st), rq_title = ''SLO fast burn: '' @ slo_name (st_definition st),
                  rq_description = Some (alert_description fmt st), rq_extra_data = Some (fast_burn_data st),
                  rq_dedup_key = Some (fast_burn_key (slo_id (st_definition st)) (fast_burn_bucket (ac_dedup_window_seconds cfg) now))\<rparr> s of
              (Inl AlertConflict, _) \<Rightarrow> (Inr None, s)
            | (Inl e, _) \<Rightarrow> (Inl e, s)
            | (Inr a, s1) \<Rightarrow> (Inr (Some (al_id a)), run_delivery cfg now (webhook_payload cfg a) s1)))"

definition run_evaluation ::
    "alert_config \<Rightarrow> slo_format \<Rightarrow> bool \<Rightarrow> time \<Rightarrow> alert_state \<Rightarrow> (alert_error + uuid list) \<times> alert_state" where
  "run_evaluation cfg fmt extract_ok now s =
     each (\<lambda>st. raise_fast_burn_alert cfg fmt st now) (filter is_fast_burning (compute_all extract_ok now (at_db s))) s"

section \<open>Loop bodies and tools\<close>

text \<open>The evaluation loop; an interval of zero or less leaves it idle.\<close>

definition slo_turn ::
    "turn_env \<Rightarrow> loop_settings \<Rightarrow> alert_config \<Rightarrow> slo_format \<Rightarrow> bool \<Rightarrow> loop_store \<times> alert_state \<Rightarrow> loop_store \<times> alert_state" where
  "slo_turn e ls cfg fmt extract_ok sts =
     (if ls_slo_evaluation_interval_seconds ls \<le> 0 then sts
      else timed_turn e SLO_EVALUATION (\<lambda>s. map_prod (\<lambda>r. case r of Inl _ \<Rightarrow> False | Inr _ \<Rightarrow> True) id
             (run_evaluation cfg fmt extract_ok (te_now e) s)) sts)"

text \<open>
  The metrics pass: the measured lags (\<open>None\<close>: unknown), when each consumer last polled, and which Redis
  calls answer. The depth of the delayed queue and the gauges only go out.
\<close>

record metrics_env =
  me_delayed_ok :: bool
  me_lag :: "int option"
  me_resolver :: "(int option \<times> time option) option"
  me_last_poll :: "time option"
  me_io :: lag_io
  me_resolver_io :: lag_io
  me_configured :: rat

definition metrics_pass :: "alert_config \<Rightarrow> metrics_env \<Rightarrow> time \<Rightarrow> lag_store \<times> alert_state \<Rightarrow> bool \<times> lag_store \<times> alert_state" where
  "metrics_pass cfg m now = (\<lambda>(st, s).
     if \<not> me_delayed_ok m then (False, st, s)
     else (let c = ac_codec cfg;
               (written, st1) = (case me_lag m of None \<Rightarrow> (True, st) | Some lag \<Rightarrow> record_dispatcher_lag c (me_configured m) (me_io m) now lag st)
           in if \<not> written then (False, st1, s)
              else (let st2 = (case me_resolver m of Some (Some lag, _) \<Rightarrow>
                                 record_group_lag c (me_configured m) (me_resolver_io m) now dependency_resolver_group lag st1 | _ \<Rightarrow> st1);
                        st3 = publish_last_poll c (me_configured m) (me_io m) now live_refreshed_group (me_last_poll m) st2;
                        st4 = (case me_resolver m of None \<Rightarrow> st3 | Some (_, polled) \<Rightarrow>
                                 publish_last_poll c (me_configured m) (me_resolver_io m) now dependency_resolver_group polled st3)
                    in (True, st4, snd (evaluate_alert_rules cfg now st4 s)))))"

definition metrics_turn where
  "metrics_turn e cfg m = timed_turn e METRICS (metrics_pass cfg m (te_now e))"

record slo_objective =
  ob_id :: string
  ob_target :: rat
  ob_total :: nat
  ob_failed :: nat
  ob_current_success_rate :: rat
  ob_budget_remaining_pct :: rat
  ob_burn_rate :: "rat option"
  ob_healthy :: bool
  ob_fast_burn :: bool

definition slo_objective_of :: "slo_state \<Rightarrow> slo_objective" where
  "slo_objective_of st = \<lparr>ob_id = slo_id (st_definition st), ob_target = slo_target (st_definition st), ob_total = st_total st,
     ob_failed = st_failed st, ob_current_success_rate = st_current st, ob_budget_remaining_pct = st_budget_remaining_pct st,
     ob_burn_rate = (case st_burn_rate st of BurnInf \<Rightarrow> None | Burn r \<Rightarrow> Some r), ob_healthy = st_healthy st,
     ob_fast_burn = is_fast_burning st\<rparr>"

text \<open>The tool runs under the caller's row-level policies: it sees the rows of its tenant.\<close>

definition get_slo_status :: "bool \<Rightarrow> time \<Rightarrow> uuid \<Rightarrow> db \<Rightarrow> slo_objective list" where
  "get_slo_status extract_ok now tenant_id d =
     map slo_objective_of (compute_all extract_ok now (d\<lparr>jobs := filter (\<lambda>j. j_tenant_id j = tenant_id) (jobs d)\<rparr>))"

definition list_active_alerts :: "uuid \<Rightarrow> string option \<Rightarrow> nat \<Rightarrow> alert_state \<Rightarrow> nat \<times> alert list" where
  "list_active_alerts tenant_id severity limit s =
     (let (rows, n) = list_active_for_tenant tenant_id 0 limit severity (at_alerts s) in (n, rows))"

section \<open>Readings\<close>

lemma latency_scan_eq:
  "latency_scan threshold (map (\<lambda>j. (j_created_at j, j_started_at j)) js) (n, k)
     = (n + length js, k + sum_list (map (latency_case threshold) js))"
proof (induction js arbitrary: n k)
  case (Cons j js)
  then show ?case by (cases "j_started_at j") (simp_all add: latency_case_def)
qed simp

text \<open>
  The two ways of computing the dispatch-latency objective, the database's sum and the scan in
  the process, give the same state on every table.
\<close>

theorem latency_paths_agree:
  "compute_latency_slo_python now slo threshold d = compute_latency_slo_sql now slo threshold d"
  by (simp add: compute_latency_slo_python_def compute_latency_slo_sql_def latency_scan_eq Let_def)

lemma sum_list_le_length: "(\<And>x. x \<in> set xs \<Longrightarrow> f x \<le> (1::nat)) \<Longrightarrow> sum_list (map f xs) \<le> length xs"
proof (induction xs)
  case (Cons x xs)
  have "f x \<le> 1" "sum_list (map f xs) \<le> length xs" using Cons by simp_all
  then show ?case by simp
qed simp

lemma compute_all_counts:
  assumes "st \<in> set (compute_all extract_ok now d)"
  shows "\<exists>slo n k. slo \<in> set SLOS \<and> k \<le> n \<and> st = slo_state_of slo n k"
proof -
  have one: "latency_case threshold j \<le> 1" for threshold j by (simp add: latency_case_def split: option.splits)
  have "compute_latency_slo extract_ok now slo threshold d = compute_latency_slo_sql now slo threshold d" for slo threshold
    using latency_scan_eq by (simp add: compute_latency_slo_def compute_latency_slo_python_def compute_latency_slo_sql_def Let_def)
  then have lat: "\<exists>n k. k \<le> n \<and> compute_latency_slo extract_ok now slo threshold d = slo_state_of slo n k" for slo threshold
    unfolding compute_latency_slo_sql_def Let_def by (intro exI conjI [rotated], assumption) (rule sum_list_le_length, rule one)
  have "\<exists>n k. k \<le> n \<and> compute_completion_slo now slo d = slo_state_of slo n k" for slo
    unfolding compute_completion_slo_def Let_def by (intro exI conjI [rotated], rule refl) (rule sum_list_le_length, simp)
  with lat assms show ?thesis unfolding compute_all_def by (auto split: option.splits)
qed

lemma slo_state_sound:
  assumes "k \<le> n" "0 \<le> slo_target slo" "slo_target slo < 1" "st = slo_state_of slo n k"
  shows "0 \<le> st_current st \<and> st_current st \<le> 1 \<and> -100 \<le> st_budget_remaining_pct st \<and> st_budget_remaining_pct st \<le> 100
    \<and> (\<exists>r. st_burn_rate st = Burn r \<and> 0 \<le> r \<and> (st_healthy st \<longleftrightarrow> r \<le> 1)
          \<and> st_budget_remaining_pct st = max (-100) ((1 - r) * 100))"
proof (cases "n = 0")
  case True
  then show ?thesis using assms by (simp add: slo_state_of_def)
next
  case False
  let ?f = "of_nat k / of_nat n :: rat" and ?a = "1 - slo_target slo"
  have f: "0 \<le> ?f" "?f \<le> 1" and a: "0 < ?a" using assms(1,3) False by (simp_all add: divide_le_eq)
  have st: "st_current st = 1 - ?f" "st_burn_rate st = Burn (?f / ?a)" "st_budget_remaining_pct st = max (-100) ((1 - ?f / ?a) * 100)"
      "st_healthy st \<longleftrightarrow> slo_target slo \<le> 1 - ?f"
    using False a by (simp_all add: assms(4) slo_state_of_def Let_def)
  have "t \<le> 1 - f \<longleftrightarrow> f / (1 - t) \<le> 1" if "t < 1" for f t :: rat using that by (simp add: divide_le_eq) linarith
  note h = this [OF assms(3), of ?f]
  have r: "0 \<le> ?f / ?a" using f(1) a by simp
  have "-100 \<le> max (-100) ((1 - r) * 100) \<and> max (-100) ((1 - r) * 100) \<le> 100" if "0 \<le> r" for r :: rat using that by auto
  from this [OF r] show ?thesis unfolding st h using f r by (intro conjI exI [of _ "?f / ?a"]) (linarith | rule refl | blast)+
qed

text \<open>
  The readings of the objectives mean what they say. Every success share is in the unit
  interval and every remaining budget between -100 and 100 percent; an objective is healthy exactly when
  it burns at most once its allowance, and one that pages is never healthy; and cancelled jobs and
  declared fixtures count in neither half of any fraction.
\<close>

theorem slo_readings_sound:
  assumes "st \<in> set (compute_all extract_ok now d)"
  shows "0 \<le> st_current st \<and> st_current st \<le> 1 \<and> -100 \<le> st_budget_remaining_pct st \<and> st_budget_remaining_pct st \<le> 100
    \<and> (\<exists>r. st_burn_rate st = Burn r \<and> 0 \<le> r \<and> (st_healthy st \<longleftrightarrow> r \<le> 1)
          \<and> st_budget_remaining_pct st = max (-100) ((1 - r) * 100))
    \<and> (is_fast_burning st \<longrightarrow> \<not> st_healthy st)
    \<and> compute_all extract_ok now (d\<lparr>jobs := filter (\<lambda>j. j_status j \<noteq> CANCELLED \<and> not_a_lab_fixture j) (jobs d)\<rparr>)
        = compute_all extract_ok now d"
proof -
  obtain slo n k where s: "slo \<in> set SLOS" "k \<le> n" "st = slo_state_of slo n k" using compute_all_counts [OF assms] by blast
  have t: "0 \<le> slo_target slo" "slo_target slo < 1" using s(1) by (auto simp: SLOS_def job_completion_slo_def dispatch_latency_slo_def)
  note sound = slo_state_sound [OF s(2) t s(3)]
  have same: "filter P (filter (\<lambda>j. j_status j \<noteq> CANCELLED \<and> not_a_lab_fixture j) js) = filter P js"
    if "\<And>j. P j \<Longrightarrow> j_status j \<noteq> CANCELLED \<and> not_a_lab_fixture j" for P and js :: "job list"
    unfolding filter_filter by (rule filter_cong) (use that in auto)
  have e1: "filter (dispatched_in_window since) (filter (\<lambda>j. j_status j \<noteq> CANCELLED \<and> not_a_lab_fixture j) js)
      = filter (dispatched_in_window since) js" for since js
    by (rule same) (auto simp: dispatched_in_window_def dispatched_statuses_def)
  have e2: "filter (\<lambda>j. since \<le> j_created_at j \<and> j_status j \<in> {COMPLETED, DEAD_LETTER} \<and> not_a_lab_fixture j)
      (filter (\<lambda>j. j_status j \<noteq> CANCELLED \<and> not_a_lab_fixture j) js)
      = filter (\<lambda>j. since \<le> j_created_at j \<and> j_status j \<in> {COMPLETED, DEAD_LETTER} \<and> not_a_lab_fixture j) js" for since js
    by (rule same) auto
  have upd: "jobs (d\<lparr>jobs := js\<rparr>) = js" for js by simp
  have "compute_all extract_ok now (d\<lparr>jobs := filter (\<lambda>j. j_status j \<noteq> CANCELLED \<and> not_a_lab_fixture j) (jobs d)\<rparr>)
      = compute_all extract_ok now d"
    unfolding compute_all_def compute_completion_slo_def compute_latency_slo_def compute_latency_slo_sql_def
      compute_latency_slo_python_def by (simp only: upd e1 e2)
  then show ?thesis using sound by (auto simp: is_fast_burning_def fast_burn_threshold_def)
qed

theorem slo_readings_sound_witness:
  "\<exists>r. st_burn_rate (hd (compute_all True 9 (empty_db\<lparr>jobs := [sample_job 1 DEAD_LETTER]\<rparr>))) = Burn r \<and> 0 \<le> r"
proof -
  let ?all = "compute_all True 9 (empty_db\<lparr>jobs := [sample_job 1 DEAD_LETTER]\<rparr>)"
  have "hd ?all \<in> set ?all" by (intro hd_in_set) (simp add: compute_all_def SLOS_def)
  from slo_readings_sound [OF this] show ?thesis by blast
qed

section \<open>A burn pages once a window\<close>

definition burn_row :: "rat \<Rightarrow> string \<Rightarrow> int \<Rightarrow> alert \<Rightarrow> bool" where
  "burn_row w sid b a \<longleftrightarrow> al_tenant_id a = default_tenant_id \<and> al_dedup_key a = Some (fast_burn_key sid b)"

abbreviation sid_of :: "slo_state \<Rightarrow> string" where
  "sid_of st \<equiv> slo_id (st_definition st)"

lemma slo_ids_plain: "slo \<in> set SLOS \<Longrightarrow> no_colon (slo_id slo)"
  by (auto simp: SLOS_def job_completion_slo_def dispatch_latency_slo_def)

lemma fast_burn_key_inject:
  "no_colon sid \<Longrightarrow> no_colon sid' \<Longrightarrow> fast_burn_key sid b = fast_burn_key sid' b' \<longleftrightarrow> sid = sid' \<and> b = b'"
  by (simp add: fast_burn_key_def append_sep_iff show_int_inject)

lemma raise_fast_burn_rows:
  assumes "ac_dedup_window_seconds cfg \<noteq> 0"
  obtains (Taken) "key_taken default_tenant_id (Some (fast_burn_key (sid_of st) (fast_burn_bucket (ac_dedup_window_seconds cfg) t))) (at_alerts s)"
      "at_alerts (snd (raise_fast_burn_alert cfg fmt st t s)) = at_alerts s"
  | (New) a where "\<not> key_taken default_tenant_id (Some (fast_burn_key (sid_of st) (fast_burn_bucket (ac_dedup_window_seconds cfg) t))) (at_alerts s)"
      "at_alerts (snd (raise_fast_burn_alert cfg fmt st t s)) = at_alerts s @ [a]" "al_tenant_id a = default_tenant_id"
      "al_dedup_key a = Some (fast_burn_key (sid_of st) (fast_burn_bucket (ac_dedup_window_seconds cfg) t))" "al_fired_at a = t"
  using assms
  by (cases "key_taken default_tenant_id (Some (fast_burn_key (sid_of st) (fast_burn_bucket (ac_dedup_window_seconds cfg) t))) (at_alerts s)")
    (simp_all add: raise_fast_burn_alert_def create_alert_def severity_critical_def allowed_severities_def Let_def)

text \<open>The evaluations of all replicas, in the order their inserts commit.\<close>

definition fast_burns :: "alert_config \<Rightarrow> slo_format \<Rightarrow> (time \<times> slo_state) list \<Rightarrow> alert_state \<Rightarrow> alert_state" where
  "fast_burns cfg fmt = fold (\<lambda>(t, st) s. snd (raise_fast_burn_alert cfg fmt st t s))"

lemma length_filter_disj:
  "(\<And>x. P x \<Longrightarrow> Q x \<or> R x) \<Longrightarrow> length (filter P xs) \<le> length (filter Q xs) + length (filter R xs)"
proof (induction xs)
  case (Cons x xs)
  then show ?case using Cons.prems [of x] by auto
qed simp

lemma fast_burns_rows:
  assumes w: "ac_dedup_window_seconds cfg = w" "0 < w" and "slo \<in> set SLOS" "at_alerts s = []"
    and "list_all (\<lambda>(t, st). st_definition st \<in> set SLOS) es"
  shows "length (filter (burn_row w (slo_id slo) b) (at_alerts (fast_burns cfg fmt es s)))
      = (if list_ex (\<lambda>(t, st). sid_of st = slo_id slo \<and> fast_burn_bucket w t = b) es then 1 else 0)"
  using assms(5)
proof (induction es rule: rev_induct)
  case Nil
  then show ?case using assms(4) by (simp add: fast_burns_def)
next
  case (snoc e es)
  obtain t st where e: "e = (t, st)" by (cases e)
  let ?s = "fast_burns cfg fmt es s" and ?b = "fast_burn_bucket w t" and ?row = "burn_row w (slo_id slo) b"
  have def_in: "st_definition st \<in> set SLOS" using snoc.prems by (simp add: e)
  have same_key: "fast_burn_key (sid_of st) ?b = fast_burn_key (slo_id slo) b \<longleftrightarrow> sid_of st = slo_id slo \<and> ?b = b"
    by (rule fast_burn_key_inject [OF slo_ids_plain [OF def_in] slo_ids_plain [OF assms(3)]])
  have IH: "length (filter ?row (at_alerts ?s)) = (if list_ex (\<lambda>(t, st). sid_of st = slo_id slo \<and> fast_burn_bucket w t = b) es then 1 else 0)"
    using snoc.IH snoc.prems by simp
  have step: "fast_burns cfg fmt (es @ [e]) s = snd (raise_fast_burn_alert cfg fmt st t ?s)" by (simp add: fast_burns_def e)
  have taken: "key_taken default_tenant_id (Some (fast_burn_key (sid_of st) ?b)) (at_alerts ?s) \<longleftrightarrow> filter ?row (at_alerts ?s) \<noteq> []"
    if "sid_of st = slo_id slo \<and> ?b = b"
    using that by (auto simp: key_taken_def list_ex_iff burn_row_def filter_empty_conv)
  have w0: "ac_dedup_window_seconds cfg \<noteq> 0" using w by simp
  show ?case
  proof (cases rule: raise_fast_burn_rows [OF w0, of st t ?s fmt])
    case 1
    then show ?thesis using IH taken unfolding step w(1) by (auto simp: e split: if_splits)
  next
    case (2 a)
    then have "?row a \<longleftrightarrow> sid_of st = slo_id slo \<and> ?b = b" using same_key by (auto simp: burn_row_def w(1))
    then show ?thesis using 2 IH taken unfolding step w(1) by (auto simp: e split: if_splits)
  qed
qed

text \<open>
  A sustained burn is one alert a window, however many replicas evaluate it and however often.
  For every objective and every window, the run of all evaluations leaves exactly one alert when one of
  them fell into the window and found the objective burning, and none otherwise; so no stretch of time as
  long as a window sees more than two alerts of one objective.
\<close>

theorem fast_burn_pages_once:
  assumes "ac_dedup_window_seconds cfg = w" "0 < w" "slo \<in> set SLOS" "at_alerts s = []"
    and "list_all (\<lambda>(t, st). st_definition st \<in> set SLOS) es"
  shows "length (filter (burn_row w (slo_id slo) b) (at_alerts (fast_burns cfg fmt es s)))
      = (if list_ex (\<lambda>(t, st). sid_of st = slo_id slo \<and> fast_burn_bucket w t = b) es then 1 else 0)
    \<and> length (filter (\<lambda>a. burn_row w (slo_id slo) (fast_burn_bucket w (al_fired_at a)) a \<and> lo \<le> al_fired_at a \<and> al_fired_at a < lo + w)
        (at_alerts (fast_burns cfg fmt es s))) \<le> 2"
proof -
  note rows = fast_burns_rows [OF assms]
  let ?B = "fast_burn_bucket w lo" and ?n = "\<lambda>P. length (filter P (at_alerts (fast_burns cfg fmt es s)))"
  have le1: "?n (burn_row w (slo_id slo) c) \<le> 1" for c using rows [of c fmt] by simp
  have near: "fast_burn_bucket w x = ?B \<or> fast_burn_bucket w x = ?B + 1" if "lo \<le> x" "x < lo + w" for x
  proof -
    have "lo / w \<le> x / w" "x / w < lo / w + 1" using that assms(2) by (simp_all add: field_simps)
    then show ?thesis unfolding fast_burn_bucket_def by linarith
  qed
  have "?n (\<lambda>a. burn_row w (slo_id slo) (fast_burn_bucket w (al_fired_at a)) a \<and> lo \<le> al_fired_at a \<and> al_fired_at a < lo + w)
      \<le> ?n (burn_row w (slo_id slo) ?B) + ?n (burn_row w (slo_id slo) (?B + 1))"
    by (rule length_filter_disj) (use near in metis)
  then show ?thesis using le1 [of ?B] le1 [of "?B + 1"] rows [of b fmt] by (intro conjI) (assumption, linarith)
qed

definition lab_format :: slo_format where
  "lab_format = \<lparr>fmt_burn = (\<lambda>_. []), fmt_percent1 = (\<lambda>_. []), fmt_percent0 = (\<lambda>_. []), fmt_fixed0 = (\<lambda>_. [])\<rparr>"

theorem fast_burn_pages_once_witness:
  "length (filter (burn_row 1 (slo_id job_completion_slo) 5) (at_alerts (fast_burns (lab_alerts\<lparr>ac_dedup_window_seconds := 1\<rparr>) lab_format
     [(5, slo_state_of job_completion_slo 1 1), (5, slo_state_of job_completion_slo 1 1)]
     \<lparr>at_db = empty_db, at_alerts = [], at_sent = []\<rparr>))) = 1"
proof -
  have "st_definition (slo_state_of job_completion_slo 1 1) = job_completion_slo" by (simp add: slo_state_of_def Let_def split_beta)
  then show ?thesis
    using conjunct1 [OF fast_burn_pages_once [of "lab_alerts\<lparr>ac_dedup_window_seconds := 1\<rparr>" 1 job_completion_slo
        "\<lparr>at_db = empty_db, at_alerts = [], at_sent = []\<rparr>"
        "[(5, slo_state_of job_completion_slo 1 1), (5, slo_state_of job_completion_slo 1 1)]" 5 lab_format]]
    by (simp add: SLOS_def fast_burn_bucket_def)
qed

end
