(* ===== verification/Agent_Runs.thy ===== *)
theory Agent_Runs
  imports Circuit_Breaker
begin

text \<open>
  The record of what an autonomous responder says it is doing: \<open>models/agent_run.py\<close>,
  \<open>repositories/agent_run.py\<close>, \<open>services/agent_run.py\<close>, the two reporting tools of
  \<open>mcp/tools/commander_runs.py\<close> with the limits of their input models, and the operator's reads in
  \<open>api/admin.py\<close>. The model of a JSON column is the value itself.
\<close>

section \<open>Rows\<close>

definition reportable_states :: "string list" where
  "reportable_states = [''triage'', ''investigating'', ''planning'', ''awaiting_approval'', ''remediating'', ''verifying'',
     ''resolved'', ''escalated'', ''failed'']"

definition terminal_agent_run_states :: "string list" where
  "terminal_agent_run_states = [''resolved'', ''escalated'', ''failed'']"

record agent_run =
  ar_id :: uuid
  ar_tenant_id :: uuid
  ar_alert_id :: "uuid option"
  ar_service_account_id :: uuid
  ar_scenario :: "string option"
  ar_state :: string
  ar_phase_history :: "dict list"
  ar_current_hypothesis :: "dict option"
  ar_last_step :: "dict option"
  ar_hypotheses :: "dict list"
  ar_plan :: "dict option"
  ar_verification :: "dict option"
  ar_verifications :: "dict list"
  ar_steps :: "dict list"
  ar_steps_dropped :: nat
  ar_budget :: "dict option"
  ar_briefing :: "dict option"
  ar_started_at :: time
  ar_updated_at :: time
  ar_finished_at :: "time option"

text \<open>The table, and the ids of the alerts its foreign key may name.\<close>

record run_db =
  rd_runs :: "agent_run list"
  rd_alerts :: "uuid list"

definition run_for_tenant :: "uuid \<Rightarrow> uuid \<Rightarrow> run_db \<Rightarrow> agent_run option" where
  "run_for_tenant run_id tenant_id d = find (\<lambda>r. ar_id r = run_id \<and> ar_tenant_id r = tenant_id) (rd_runs d)"

definition list_runs_for_tenant ::
    "uuid \<Rightarrow> uuid option \<Rightarrow> bool option \<Rightarrow> nat \<Rightarrow> nat \<Rightarrow> run_db \<Rightarrow> agent_run list \<times> nat" where
  "list_runs_for_tenant tenant_id alert_id active offset limit d =
     (let P = (\<lambda>r. ar_tenant_id r = tenant_id \<and> (alert_id \<noteq> None \<longrightarrow> ar_alert_id r = alert_id)
                \<and> (case active of None \<Rightarrow> True | Some b \<Rightarrow> (ar_finished_at r = None) = b));
          rows = filter P (rd_runs d)
      in (take limit (drop offset (sort_key (\<lambda>r. - ar_started_at r) (sort_key (\<lambda>r. - int (ar_id r)) rows))), length rows))"

section \<open>The service (\<open>services/agent_run.py\<close>)\<close>

definition steps_cap :: nat where
  "steps_cap = 200"

definition verifications_cap :: nat where
  "verifications_cap = 50"

datatype run_report_error =
    AgentRunAlreadyFinished string
  | AgentRunBriefingAlreadyRecorded string
  | AgentRunNotFound string
  | AgentRunIntegrity
  | AgentRunStaleData
  | AgentRunAssertion

record run_report =
  rr_run_id :: uuid
  rr_tenant_id :: uuid
  rr_service_account_id :: uuid
  rr_state :: string
  rr_at :: time
  rr_alert_id :: "uuid option"
  rr_scenario :: "string option"
  rr_current_hypothesis :: "dict option"
  rr_last_step :: "dict option"
  rr_hypotheses :: "dict list option"
  rr_plan :: "dict option"
  rr_verification :: "dict option"
  rr_step :: "dict option"
  rr_budget :: "dict option"

definition phase_entry :: "codec \<Rightarrow> string \<Rightarrow> time \<Rightarrow> dict" where
  "phase_entry c state t = [(''state'', JStr state), (''at'', JStr (iso c t))]"

definition capped :: "nat \<Rightarrow> dict list \<Rightarrow> dict list" where
  "capped cap entries = (if cap < length entries then drop (length entries - cap) entries else entries)"

definition append_step :: "dict list \<Rightarrow> dict \<Rightarrow> dict list \<times> nat" where
  "append_step steps step =
     (let seq = jget step ''seq''
      in if seq \<noteq> JNull \<and> list_ex (\<lambda>e. jget e ''seq'' = seq) steps then (steps, 0)
         else (let grown = steps @ [step] in (capped steps_cap grown, length grown - steps_cap)))"

definition new_run :: "codec \<Rightarrow> time \<Rightarrow> run_report \<Rightarrow> agent_run" where
  "new_run c now rr = \<lparr>ar_id = rr_run_id rr, ar_tenant_id = rr_tenant_id rr, ar_alert_id = rr_alert_id rr,
     ar_service_account_id = rr_service_account_id rr, ar_scenario = rr_scenario rr, ar_state = rr_state rr,
     ar_phase_history = [phase_entry c (rr_state rr) (rr_at rr)], ar_current_hypothesis = rr_current_hypothesis rr,
     ar_last_step = rr_last_step rr, ar_hypotheses = (case rr_hypotheses rr of None \<Rightarrow> [] | Some hs \<Rightarrow> hs),
     ar_plan = rr_plan rr, ar_verification = rr_verification rr,
     ar_verifications = (case rr_verification rr of None \<Rightarrow> [] | Some v \<Rightarrow> [v]),
     ar_steps = (case rr_step rr of None \<Rightarrow> [] | Some s \<Rightarrow> [s]), ar_steps_dropped = 0, ar_budget = rr_budget rr,
     ar_briefing = None, ar_started_at = now, ar_updated_at = now,
     ar_finished_at = (if rr_state rr \<in> set terminal_agent_run_states then Some (rr_at rr) else None)\<rparr>"

definition or_keep :: "'a option \<Rightarrow> 'a option \<Rightarrow> 'a option" where
  "or_keep given stored = (case given of None \<Rightarrow> stored | Some v \<Rightarrow> Some v)"

text \<open>The column's \<open>onupdate\<close>: a flush that changes no other column sends no statement and moves no clock.\<close>

definition touched :: "time \<Rightarrow> agent_run \<Rightarrow> agent_run \<Rightarrow> agent_run" where
  "touched now r r' = (if r' = r then r else r'\<lparr>ar_updated_at := now\<rparr>)"

definition updated_run :: "codec \<Rightarrow> time \<Rightarrow> run_report \<Rightarrow> agent_run \<Rightarrow> agent_run" where
  "updated_run c now rr r =
     (let (steps, dropped) = (case rr_step rr of None \<Rightarrow> (ar_steps r, 0) | Some s \<Rightarrow> append_step (ar_steps r) s)
      in touched now r (r\<lparr>ar_phase_history := (if ar_state r \<noteq> rr_state rr then ar_phase_history r @ [phase_entry c (rr_state rr) (rr_at rr)]
                                else ar_phase_history r),
           ar_state := rr_state rr,
           ar_current_hypothesis := rr_current_hypothesis rr,
           ar_last_step := rr_last_step rr,
           ar_alert_id := or_keep (rr_alert_id rr) (ar_alert_id r),
           ar_scenario := or_keep (rr_scenario rr) (ar_scenario r),
           ar_hypotheses := (case rr_hypotheses rr of None \<Rightarrow> ar_hypotheses r | Some hs \<Rightarrow> hs),
           ar_plan := or_keep (rr_plan rr) (ar_plan r),
           ar_budget := or_keep (rr_budget rr) (ar_budget r),
           ar_verification := or_keep (rr_verification rr) (ar_verification r),
           ar_verifications := (case rr_verification rr of None \<Rightarrow> ar_verifications r
                                | Some v \<Rightarrow> capped verifications_cap (ar_verifications r @ [v])),
           ar_steps := steps, ar_steps_dropped := ar_steps_dropped r + dropped,
           ar_finished_at := (if rr_state rr \<in> set terminal_agent_run_states then Some (rr_at rr) else ar_finished_at r)\<rparr>))"

record report_outcome =
  out_run :: agent_run
  out_created :: bool
  out_phase_appended :: bool

text \<open>The foreign key on \<open>alert_id\<close> and the primary key, which is unique over all tenants.\<close>

definition alert_known :: "uuid option \<Rightarrow> run_db \<Rightarrow> bool" where
  "alert_known alert_id d \<longleftrightarrow> (case alert_id of None \<Rightarrow> True | Some i \<Rightarrow> i \<in> set (rd_alerts d))"

definition put_run :: "agent_run \<Rightarrow> run_db \<Rightarrow> run_db" where
  "put_run r d = d\<lparr>rd_runs := update_where (\<lambda>x. ar_id x = ar_id r) (\<lambda>_. r) (rd_runs d)\<rparr>"

text \<open>
  The flush: of the row as it was read, the columns that the session has changed are written, whole, over
  whatever the row holds by then; no lock is taken and no version is checked. The row is then read back.
\<close>

definition changed :: "(agent_run \<Rightarrow> 'a) \<Rightarrow> agent_run \<Rightarrow> agent_run \<Rightarrow> agent_run \<Rightarrow> 'a" where
  "changed f r r' x = (if f r' = f r then f x else f r')"

definition save_columns :: "agent_run \<Rightarrow> agent_run \<Rightarrow> agent_run \<Rightarrow> agent_run" where
  "save_columns r r' x = x\<lparr>ar_alert_id := changed ar_alert_id r r' x, ar_scenario := changed ar_scenario r r' x,
     ar_state := changed ar_state r r' x, ar_phase_history := changed ar_phase_history r r' x,
     ar_current_hypothesis := changed ar_current_hypothesis r r' x, ar_last_step := changed ar_last_step r r' x,
     ar_hypotheses := changed ar_hypotheses r r' x, ar_plan := changed ar_plan r r' x,
     ar_verification := changed ar_verification r r' x, ar_verifications := changed ar_verifications r r' x,
     ar_steps := changed ar_steps r r' x, ar_steps_dropped := changed ar_steps_dropped r r' x, ar_budget := changed ar_budget r r' x,
     ar_briefing := changed ar_briefing r r' x, ar_updated_at := changed ar_updated_at r r' x,
     ar_finished_at := changed ar_finished_at r r' x\<rparr>"

definition save_run :: "agent_run \<Rightarrow> agent_run \<Rightarrow> run_db \<Rightarrow> (agent_run \<times> run_db) option" where
  "save_run r r' d =
     (case find (\<lambda>x. ar_id x = ar_id r) (rd_runs d) of
        None \<Rightarrow> None
      | Some x \<Rightarrow> (let y = save_columns r r' x in Some (y, put_run y d)))"

text \<open>\<open>seen\<close> is the database the read of the row saw, \<open>d\<close> the one the flush meets.\<close>

definition report_run ::
    "codec \<Rightarrow> time \<Rightarrow> run_report \<Rightarrow> run_db \<Rightarrow> run_db \<Rightarrow> (run_report_error + report_outcome) \<times> run_db" where
  "report_run c now rr seen d =
     (case run_for_tenant (rr_run_id rr) (rr_tenant_id rr) seen of
        None \<Rightarrow>
          (let r = new_run c now rr
           in if ar_id r \<in> ar_id ` set (rd_runs d) \<or> \<not> alert_known (ar_alert_id r) d then (Inl AgentRunIntegrity, d)
              else (Inr \<lparr>out_run = r, out_created = True, out_phase_appended = True\<rparr>, d\<lparr>rd_runs := rd_runs d @ [r]\<rparr>))
      | Some r \<Rightarrow>
          if ar_finished_at r \<noteq> None
          then (Inl (AgentRunAlreadyFinished (''run '' @ uuid_str (rr_run_id rr) @ '' already reached a terminal state ('' @
                  ar_state r @ ''); a closed run is not reopened'')), d)
          else if \<not> alert_known (rr_alert_id rr) d then (Inl AgentRunIntegrity, d)
          else (case save_run r (updated_run c now rr r) d of
                  None \<Rightarrow> (Inl AgentRunStaleData, d)
                | Some (y, d') \<Rightarrow> (Inr \<lparr>out_run = y, out_created = False, out_phase_appended = (ar_state r \<noteq> rr_state rr)\<rparr>, d')))"

definition briefed :: "codec \<Rightarrow> time \<Rightarrow> dict \<Rightarrow> string option \<Rightarrow> time \<Rightarrow> agent_run \<Rightarrow> agent_run" where
  "briefed c now briefing prose t r =
     r\<lparr>ar_briefing := Some (kv_set ''recorded_at'' (JStr (iso c t)) (kv_set ''prose'' (jstr_opt prose) briefing)),
       ar_finished_at := or_keep (ar_finished_at r) (Some t), ar_updated_at := now\<rparr>"

definition report_briefing ::
    "codec \<Rightarrow> time \<Rightarrow> uuid \<Rightarrow> uuid \<Rightarrow> dict \<Rightarrow> string option \<Rightarrow> time \<Rightarrow> run_db \<Rightarrow> run_db \<Rightarrow> (run_report_error + agent_run) \<times> run_db" where
  "report_briefing c now run_id tenant_id briefing prose t seen d =
     (case run_for_tenant run_id tenant_id seen of
        None \<Rightarrow> (Inl (AgentRunNotFound (''no run '' @ uuid_str run_id @ '' to attach a briefing to; report its state first'')), d)
      | Some r \<Rightarrow>
          if ar_briefing r \<noteq> None
          then (Inl (AgentRunBriefingAlreadyRecorded (''run '' @ uuid_str run_id @ '' already has a briefing; it is written once'')), d)
          else (case save_run r (briefed c now briefing prose t r) d of
                  None \<Rightarrow> (Inl AgentRunStaleData, d)
                | Some (y, d') \<Rightarrow> (Inr y, d')))"

section \<open>The reporting tools (\<open>mcp/tools/commander_runs.py\<close>)\<close>

text \<open>The limits of the input models; a report over one is refused before the handler runs.\<close>

abbreviation at_most :: "nat \<Rightarrow> string option \<Rightarrow> bool" where
  "at_most n s \<equiv> (case s of None \<Rightarrow> True | Some t \<Rightarrow> length t \<le> n)"

record hypothesis_report =
  hr_name :: string
  hr_category :: "string option"
  hr_confidence :: "rat option"
  hr_reasoning_excerpt :: "string option"

definition valid_hypothesis :: "hypothesis_report \<Rightarrow> bool" where
  "valid_hypothesis h \<longleftrightarrow> length (hr_name h) \<le> 128 \<and> at_most 64 (hr_category h)
     \<and> (case hr_confidence h of None \<Rightarrow> True | Some q \<Rightarrow> 0 \<le> q \<and> q \<le> 1) \<and> at_most 280 (hr_reasoning_excerpt h)"

definition jrat_opt :: "rat option \<Rightarrow> json" where
  "jrat_opt q = (case q of None \<Rightarrow> JNull | Some x \<Rightarrow> JFloat x)"

definition jint_opt :: "int option \<Rightarrow> json" where
  "jint_opt q = (case q of None \<Rightarrow> JNull | Some x \<Rightarrow> JInt x)"

definition jobj_opt :: "dict option \<Rightarrow> json" where
  "jobj_opt q = (case q of None \<Rightarrow> JNull | Some x \<Rightarrow> JObj x)"

definition dump_hypothesis :: "hypothesis_report \<Rightarrow> dict" where
  "dump_hypothesis h = [(''name'', JStr (hr_name h)), (''category'', jstr_opt (hr_category h)), (''confidence'', jrat_opt (hr_confidence h))]"

definition dump_ranked :: "hypothesis_report \<Rightarrow> dict" where
  "dump_ranked h = dump_hypothesis h @ [(''reasoning_excerpt'', jstr_opt (hr_reasoning_excerpt h))]"

record step_event_report =
  se_seq :: int
  se_kind :: string
  se_tool :: "string option"
  se_arguments :: "dict option"
  se_result_excerpt :: "string option"
  se_outcome :: "string option"
  se_latency_ms :: "rat option"
  se_at :: "time option"

definition valid_step_event :: "step_event_report \<Rightarrow> bool" where
  "valid_step_event s \<longleftrightarrow> 0 \<le> se_seq s \<and> se_kind s \<in> {''read'', ''action'', ''report''} \<and> at_most 128 (se_tool s)
     \<and> at_most 400 (se_result_excerpt s) \<and> at_most 64 (se_outcome s)
     \<and> (case se_latency_ms s of None \<Rightarrow> True | Some q \<Rightarrow> 0 \<le> q)"

definition dump_step_event :: "codec \<Rightarrow> step_event_report \<Rightarrow> dict" where
  "dump_step_event c s = [(''seq'', JInt (se_seq s)), (''kind'', JStr (se_kind s)), (''tool'', jstr_opt (se_tool s)),
     (''arguments'', jobj_opt (se_arguments s)), (''result_excerpt'', jstr_opt (se_result_excerpt s)),
     (''outcome'', jstr_opt (se_outcome s)), (''latency_ms'', jrat_opt (se_latency_ms s)), (''at'', iso_opt c (se_at s))]"

record verification_report =
  vr_verdict :: string
  vr_reasoning_excerpt :: "string option"
  vr_attempt :: "int option"
  vr_of :: "int option"

definition valid_verification :: "verification_report \<Rightarrow> bool" where
  "valid_verification v \<longleftrightarrow> length (vr_verdict v) \<le> 64 \<and> at_most 280 (vr_reasoning_excerpt v)
     \<and> (case vr_attempt v of None \<Rightarrow> True | Some n \<Rightarrow> 1 \<le> n) \<and> (case vr_of v of None \<Rightarrow> True | Some n \<Rightarrow> 1 \<le> n)"

definition dump_verification :: "verification_report \<Rightarrow> dict" where
  "dump_verification v = [(''verdict'', JStr (vr_verdict v)), (''reasoning_excerpt'', jstr_opt (vr_reasoning_excerpt v)),
     (''attempt'', jint_opt (vr_attempt v)), (''of'', jint_opt (vr_of v))]"

record plan_report =
  pl_action_tool :: string
  pl_action_arguments :: "dict option"
  pl_target_hypothesis :: "string option"
  pl_rationale_excerpt :: "string option"

definition valid_plan :: "plan_report \<Rightarrow> bool" where
  "valid_plan p \<longleftrightarrow> length (pl_action_tool p) \<le> 128 \<and> at_most 128 (pl_target_hypothesis p) \<and> at_most 280 (pl_rationale_excerpt p)"

definition dump_plan :: "plan_report \<Rightarrow> dict" where
  "dump_plan p = [(''action_tool'', JStr (pl_action_tool p)), (''action_arguments'', jobj_opt (pl_action_arguments p)),
     (''target_hypothesis'', jstr_opt (pl_target_hypothesis p)), (''rationale_excerpt'', jstr_opt (pl_rationale_excerpt p))]"

record budget_report =
  bu_tool_calls_used :: "int option"
  bu_tool_calls_max :: "int option"
  bu_tokens_used :: "int option"
  bu_usd_used :: "rat option"
  bu_wall_seconds :: "rat option"

definition valid_budget :: "budget_report \<Rightarrow> bool" where
  "valid_budget b \<longleftrightarrow> list_all (\<lambda>n. case n of None \<Rightarrow> True | Some i \<Rightarrow> 0 \<le> i) [bu_tool_calls_used b, bu_tool_calls_max b, bu_tokens_used b]
     \<and> list_all (\<lambda>n. case n of None \<Rightarrow> True | Some q \<Rightarrow> 0 \<le> q) [bu_usd_used b, bu_wall_seconds b]"

definition dump_budget :: "budget_report \<Rightarrow> dict" where
  "dump_budget b = [(''tool_calls_used'', jint_opt (bu_tool_calls_used b)), (''tool_calls_max'', jint_opt (bu_tool_calls_max b)),
     (''tokens_used'', jint_opt (bu_tokens_used b)), (''usd_used'', jrat_opt (bu_usd_used b)), (''wall_seconds'', jrat_opt (bu_wall_seconds b))]"

text \<open>\<open>last_step\<close>: a kind, a tool and a time; \<open>current_hypothesis\<close> has no excerpt.\<close>

record report_input =
  ri_run_id :: uuid
  ri_state :: string
  ri_at :: "time option"
  ri_alert_id :: "uuid option"
  ri_run_label :: "string option"
  ri_current_hypothesis :: "hypothesis_report option"
  ri_last_step :: "(string \<times> string \<times> time option) option"
  ri_hypotheses :: "hypothesis_report list option"
  ri_plan :: "plan_report option"
  ri_verification :: "verification_report option"
  ri_step :: "step_event_report option"
  ri_budget :: "budget_report option"

abbreviation if_sent :: "('a \<Rightarrow> bool) \<Rightarrow> 'a option \<Rightarrow> bool" where
  "if_sent P x \<equiv> (case x of None \<Rightarrow> True | Some v \<Rightarrow> P v)"

definition valid_report :: "report_input \<Rightarrow> bool" where
  "valid_report inp \<longleftrightarrow> ri_state inp \<in> set reportable_states \<and> at_most 128 (ri_run_label inp)
     \<and> if_sent valid_hypothesis (ri_current_hypothesis inp)
     \<and> if_sent (\<lambda>(kind, tool, _). kind \<in> {''read'', ''action''} \<and> length tool \<le> 128) (ri_last_step inp)
     \<and> if_sent (list_all valid_hypothesis) (ri_hypotheses inp) \<and> if_sent valid_plan (ri_plan inp)
     \<and> if_sent valid_verification (ri_verification inp) \<and> if_sent valid_step_event (ri_step inp) \<and> if_sent valid_budget (ri_budget inp)"

record report_receipt =
  rc_run_id :: uuid
  rc_state :: string
  rc_created :: bool
  rc_phase_appended :: bool
  rc_phase_count :: nat
  rc_started_at :: time
  rc_updated_at :: time
  rc_finished_at :: "time option"
  rc_steps_count :: nat
  rc_steps_dropped :: nat

definition report_of_input :: "codec \<Rightarrow> time \<Rightarrow> uuid \<Rightarrow> uuid \<Rightarrow> report_input \<Rightarrow> run_report" where
  "report_of_input c now tenant_id account_id inp = \<lparr>rr_run_id = ri_run_id inp, rr_tenant_id = tenant_id, rr_service_account_id = account_id,
     rr_state = ri_state inp, rr_at = (case ri_at inp of None \<Rightarrow> now | Some t \<Rightarrow> t), rr_alert_id = ri_alert_id inp,
     rr_scenario = ri_run_label inp, rr_current_hypothesis = map_option dump_hypothesis (ri_current_hypothesis inp),
     rr_last_step = map_option (\<lambda>(kind, tool, t). [(''kind'', JStr kind), (''tool'', JStr tool), (''at'', iso_opt c t)]) (ri_last_step inp),
     rr_hypotheses = map_option (map dump_ranked) (ri_hypotheses inp), rr_plan = map_option dump_plan (ri_plan inp),
     rr_verification = map_option dump_verification (ri_verification inp), rr_step = map_option (dump_step_event c) (ri_step inp),
     rr_budget = map_option dump_budget (ri_budget inp)\<rparr>"

definition report_agent_run ::
    "codec \<Rightarrow> time \<Rightarrow> uuid \<Rightarrow> uuid option \<Rightarrow> report_input \<Rightarrow> run_db \<Rightarrow> run_db \<Rightarrow> (run_report_error + report_receipt) \<times> run_db" where
  "report_agent_run c now tenant_id account inp seen d =
     (case account of
        None \<Rightarrow> (Inl AgentRunAssertion, d)
      | Some account_id \<Rightarrow>
          (case report_run c now (report_of_input c now tenant_id account_id inp) seen d of
             (Inl e, d') \<Rightarrow> (Inl e, d')
           | (Inr out, d') \<Rightarrow>
               (let r = out_run out
                in (Inr \<lparr>rc_run_id = ar_id r, rc_state = ar_state r, rc_created = out_created out, rc_phase_appended = out_phase_appended out,
                        rc_phase_count = length (ar_phase_history r), rc_started_at = ar_started_at r, rc_updated_at = ar_updated_at r,
                        rc_finished_at = ar_finished_at r, rc_steps_count = length (ar_steps r), rc_steps_dropped = ar_steps_dropped r\<rparr>, d'))))"

record briefing_receipt =
  br_run_id :: uuid
  br_run_state :: string
  br_recorded :: time
  br_finished :: time

definition report_agent_briefing ::
    "codec \<Rightarrow> time \<Rightarrow> uuid \<Rightarrow> uuid \<Rightarrow> dict \<Rightarrow> string option \<Rightarrow> time option \<Rightarrow> run_db \<Rightarrow> run_db
      \<Rightarrow> (run_report_error + briefing_receipt) \<times> run_db" where
  "report_agent_briefing c now tenant_id run_id briefing prose sent_at seen d =
     (let t = (case sent_at of None \<Rightarrow> now | Some t \<Rightarrow> t)
      in case report_briefing c now run_id tenant_id briefing prose t seen d of
           (Inl e, d') \<Rightarrow> (Inl e, d')
         | (Inr r, d') \<Rightarrow>
             (case ar_finished_at r of
                None \<Rightarrow> (Inl AgentRunAssertion, d')
              | Some f \<Rightarrow> (Inr \<lparr>br_run_id = ar_id r, br_run_state = ar_state r, br_recorded = t, br_finished = f\<rparr>, d')))"

section \<open>The operator's reads (\<open>api/admin.py\<close>)\<close>

definition step_seq :: "dict \<Rightarrow> int" where
  "step_seq step = (case jget step ''seq'' of JInt i \<Rightarrow> i | _ \<Rightarrow> - 1)"

record steps_page =
  sp_state :: string
  sp_finished_at :: "time option"
  sp_steps :: "dict list"
  sp_returned :: nat
  sp_total :: nat
  sp_steps_dropped :: nat
  sp_next_after_seq :: "int option"

definition admin_get_agent_run :: "uuid \<Rightarrow> uuid \<Rightarrow> run_db \<Rightarrow> app_error + agent_run" where
  "admin_get_agent_run run_id tenant_id d =
     (case run_for_tenant run_id tenant_id d of
        None \<Rightarrow> Inl (NotFoundError (''Agent run '' @ uuid_str run_id @ '' not found'')) | Some r \<Rightarrow> Inr r)"

definition admin_agent_run_steps :: "uuid \<Rightarrow> int option \<Rightarrow> uuid \<Rightarrow> run_db \<Rightarrow> app_error + steps_page" where
  "admin_agent_run_steps run_id after_seq tenant_id d =
     (case run_for_tenant run_id tenant_id d of
        None \<Rightarrow> Inl (NotFoundError (''Agent run '' @ uuid_str run_id @ '' not found''))
      | Some r \<Rightarrow>
          (let stored = sort_key step_seq (ar_steps r);
               selected = filter (\<lambda>s. case after_seq of None \<Rightarrow> True | Some a \<Rightarrow> a < step_seq s) stored;
               highest = (if stored = [] then None else Some (step_seq (last stored)))
           in Inr \<lparr>sp_state = ar_state r, sp_finished_at = ar_finished_at r, sp_steps = selected, sp_returned = length selected,
                   sp_total = length stored, sp_steps_dropped = ar_steps_dropped r,
                   sp_next_after_seq = (case highest of None \<Rightarrow> after_seq | Some h \<Rightarrow> Some h)\<rparr>))"

section \<open>The record only grows\<close>

text \<open>Calls of the two tools, as the protocol lets them through.\<close>

datatype run_event =
    Reported time uuid "uuid option" report_input
  | Briefed time uuid uuid dict "string option" "time option"

fun run_apply_seen :: "codec \<Rightarrow> run_event \<Rightarrow> run_db \<Rightarrow> run_db \<Rightarrow> run_db" where
  "run_apply_seen c (Reported now tenant_id account inp) seen d =
     (if valid_report inp then snd (report_agent_run c now tenant_id account inp seen d) else d)"
| "run_apply_seen c (Briefed now tenant_id run_id briefing prose sent_at) seen d =
     snd (report_agent_briefing c now tenant_id run_id briefing prose sent_at seen d)"

text \<open>
  Calls handled one after another, and calls that overlap: of the latter each read its row from any of the
  databases there have been, the newest at the head of the list.
\<close>

definition run_apply :: "codec \<Rightarrow> run_event \<Rightarrow> run_db \<Rightarrow> run_db" where
  "run_apply c ev d = run_apply_seen c ev d d"

definition run_overlap :: "codec \<Rightarrow> nat \<times> run_event \<Rightarrow> run_db list \<Rightarrow> run_db list" where
  "run_overlap c ke ds = (case ds of [] \<Rightarrow> [] | d # _ \<Rightarrow>
     run_apply_seen c (snd ke) (if fst ke < length ds then ds ! fst ke else d) d # ds)"

text \<open>What the limits and the append rules keep of a row.\<close>

definition entry_state :: "dict \<Rightarrow> json" where
  "entry_state e = jget e ''state''"

definition excerpt_ok :: "dict \<Rightarrow> bool" where
  "excerpt_ok s \<longleftrightarrow> (case jget s ''result_excerpt'' of JStr t \<Rightarrow> length t \<le> 400 | _ \<Rightarrow> True)"

definition run_ok :: "agent_run \<Rightarrow> bool" where
  "run_ok r \<longleftrightarrow> ar_phase_history r \<noteq> [] \<and> entry_state (last (ar_phase_history r)) = JStr (ar_state r)
     \<and> successively (\<lambda>e e'. entry_state e \<noteq> entry_state e') (ar_phase_history r)
     \<and> length (ar_steps r) \<le> steps_cap \<and> length (ar_verifications r) \<le> verifications_cap
     \<and> distinct (map step_seq (ar_steps r)) \<and> list_all (\<lambda>s. \<exists>i. jget s ''seq'' = JInt i) (ar_steps r)
     \<and> list_all excerpt_ok (ar_steps r)
     \<and> (ar_steps_dropped r = 0 \<or> length (ar_steps r) = steps_cap)"

text \<open>The part of it that overlapping calls keep too.\<close>

definition run_shape :: "agent_run \<Rightarrow> bool" where
  "run_shape r \<longleftrightarrow> ar_phase_history r \<noteq> [] \<and> entry_state (last (ar_phase_history r)) = JStr (ar_state r)
     \<and> successively (\<lambda>e e'. entry_state e \<noteq> entry_state e') (ar_phase_history r)
     \<and> length (ar_steps r) \<le> steps_cap \<and> length (ar_verifications r) \<le> verifications_cap
     \<and> distinct (map step_seq (ar_steps r)) \<and> list_all (\<lambda>s. \<exists>i. jget s ''seq'' = JInt i) (ar_steps r)
     \<and> list_all excerpt_ok (ar_steps r)"

definition runs_inv :: "run_db \<Rightarrow> bool" where
  "runs_inv d \<longleftrightarrow> distinct (map ar_id (rd_runs d)) \<and> list_all run_ok (rd_runs d)"

text \<open>How a later row of a run relates to an earlier one.\<close>

definition ledger_grown :: "agent_run \<Rightarrow> agent_run \<Rightarrow> bool" where
  "ledger_grown r r' \<longleftrightarrow> ar_steps_dropped r \<le> ar_steps_dropped r'
     \<and> (\<exists>more. drop (ar_steps_dropped r' - ar_steps_dropped r) (ar_steps r @ more) = ar_steps r')
     \<and> length (ar_steps r) + ar_steps_dropped r \<le> length (ar_steps r') + ar_steps_dropped r'"

definition sealed :: "agent_run \<Rightarrow> agent_run \<Rightarrow> bool" where
  "sealed r r' \<longleftrightarrow> (ar_finished_at r \<noteq> None \<longrightarrow> ar_finished_at r' = ar_finished_at r \<and> ar_state r' = ar_state r
     \<and> ar_phase_history r' = ar_phase_history r \<and> ar_steps r' = ar_steps r \<and> ar_steps_dropped r' = ar_steps_dropped r
     \<and> ar_verifications r' = ar_verifications r \<and> ar_plan r' = ar_plan r)"

definition filled :: "agent_run \<Rightarrow> agent_run \<Rightarrow> bool" where
  "filled r r' \<longleftrightarrow> ar_started_at r' = ar_started_at r \<and> (\<exists>more. ar_phase_history r' = ar_phase_history r @ more)
     \<and> (ar_alert_id r \<noteq> None \<longrightarrow> ar_alert_id r' \<noteq> None) \<and> (ar_plan r \<noteq> None \<longrightarrow> ar_plan r' \<noteq> None)
     \<and> (ar_briefing r \<noteq> None \<longrightarrow> ar_briefing r' = ar_briefing r)"

definition grown :: "agent_run \<Rightarrow> agent_run \<Rightarrow> bool" where
  "grown r r' \<longleftrightarrow> ledger_grown r r' \<and> sealed r r' \<and> filled r r'"

lemma touched_simps [simp]:
  "ar_id (touched now r r') = ar_id r'"
  "ar_tenant_id (touched now r r') = ar_tenant_id r'"
  "ar_alert_id (touched now r r') = ar_alert_id r'"
  "ar_service_account_id (touched now r r') = ar_service_account_id r'"
  "ar_scenario (touched now r r') = ar_scenario r'"
  "ar_state (touched now r r') = ar_state r'"
  "ar_phase_history (touched now r r') = ar_phase_history r'"
  "ar_current_hypothesis (touched now r r') = ar_current_hypothesis r'"
  "ar_last_step (touched now r r') = ar_last_step r'"
  "ar_hypotheses (touched now r r') = ar_hypotheses r'"
  "ar_plan (touched now r r') = ar_plan r'"
  "ar_verification (touched now r r') = ar_verification r'"
  "ar_verifications (touched now r r') = ar_verifications r'"
  "ar_steps (touched now r r') = ar_steps r'"
  "ar_steps_dropped (touched now r r') = ar_steps_dropped r'"
  "ar_budget (touched now r r') = ar_budget r'"
  "ar_briefing (touched now r r') = ar_briefing r'"
  "ar_started_at (touched now r r') = ar_started_at r'"
  "ar_finished_at (touched now r r') = ar_finished_at r'"
  by (simp_all add: touched_def)

lemma grown_refl: "grown r r"
  by (simp add: grown_def ledger_grown_def sealed_def filled_def exI [of _ "[]"])

lemma drop_past: "a \<le> length xs \<Longrightarrow> drop (a + b) (xs @ ys) = drop b (drop a xs @ ys)"
  by (metis add.commute diff_is_0_eq drop0 drop_append drop_drop)

lemma ledger_grown_trans:
  assumes "ledger_grown r r'" "ledger_grown r' r''"
  shows "ledger_grown r r''"
proof -
  obtain m m' where m: "drop (ar_steps_dropped r' - ar_steps_dropped r) (ar_steps r @ m) = ar_steps r'"
      "drop (ar_steps_dropped r'' - ar_steps_dropped r') (ar_steps r' @ m') = ar_steps r''"
    and le: "ar_steps_dropped r \<le> ar_steps_dropped r'" "ar_steps_dropped r' \<le> ar_steps_dropped r''"
      "length (ar_steps r) + ar_steps_dropped r \<le> length (ar_steps r'') + ar_steps_dropped r''"
    using assms unfolding ledger_grown_def by (elim conjE exE) (metis le_trans)
  let ?a = "ar_steps_dropped r' - ar_steps_dropped r" and ?b = "ar_steps_dropped r'' - ar_steps_dropped r'"
  have "\<exists>k. drop (?a + ?b) (ar_steps r @ k) = ar_steps r''"
  proof (cases "?a \<le> length (ar_steps r @ m)")
    case True
    from drop_past [OF this, of ?b m'] m show ?thesis by (metis append_assoc)
  next
    case False
    then have "ar_steps r' = []" using m(1) by simp
    moreover have "?a \<le> length (ar_steps r @ replicate (?a - length (ar_steps r)) [])" using False by simp
    from drop_past [OF this, of ?b m'] have "drop (?a + ?b) ((ar_steps r @ replicate (?a - length (ar_steps r)) []) @ m') = drop ?b m'"
      using False by simp
    ultimately show ?thesis using m(2) by (metis append.assoc append_Nil)
  qed
  moreover have "?a + ?b = ar_steps_dropped r'' - ar_steps_dropped r" using le by simp
  ultimately show ?thesis using le unfolding ledger_grown_def by simp
qed

lemma sealed_trans: "sealed r r' \<Longrightarrow> sealed r' r'' \<Longrightarrow> sealed r r''"
  unfolding sealed_def by presburger

lemma filled_trans: "filled r r' \<Longrightarrow> filled r' r'' \<Longrightarrow> filled r r''"
  unfolding filled_def by (metis append_assoc)

lemma grown_trans: "grown r r' \<Longrightarrow> grown r' r'' \<Longrightarrow> grown r r''"
  unfolding grown_def using ledger_grown_trans sealed_trans filled_trans by blast

definition steps_ok :: "dict list \<Rightarrow> bool" where
  "steps_ok xs \<longleftrightarrow> length xs \<le> steps_cap \<and> distinct (map step_seq xs)
     \<and> list_all (\<lambda>s. \<exists>i. jget s ''seq'' = JInt i) xs \<and> list_all excerpt_ok xs"

lemma step_seq_eq: "jget s ''seq'' = JInt i \<Longrightarrow> step_seq s = i"
  by (simp add: step_seq_def)

lemma list_all_drop: "list_all P xs \<Longrightarrow> list_all P (drop n xs)"
  by (auto simp: list_all_iff dest: in_set_dropD)

lemma append_step_ok:
  assumes "steps_ok xs" "jget s ''seq'' = JInt i" "excerpt_ok s" "append_step xs s = (ys, k)"
  shows "steps_ok ys \<and> (\<exists>more. drop k (xs @ more) = ys) \<and> length xs \<le> length ys + k \<and> (k = 0 \<or> length ys = steps_cap)"
proof (cases "list_ex (\<lambda>e. jget e ''seq'' = JInt i) xs")
  case True
  then show ?thesis using assms by (auto simp: append_step_def)
next
  case False
  let ?g = "xs @ [s]"
  have ys: "ys = drop (length ?g - steps_cap) ?g" "k = length ?g - steps_cap"
    using assms(2,4) False by (auto simp: append_step_def Let_def capped_def)
  have "i \<notin> step_seq ` set xs"
  proof
    assume "i \<in> step_seq ` set xs"
    then obtain e where e: "e \<in> set xs" "i = step_seq e" by blast
    then obtain j where "jget e ''seq'' = JInt j" using assms(1) by (auto simp: steps_ok_def list_all_iff)
    then show False using e False step_seq_eq by (auto simp: list_ex_iff)
  qed
  then have "distinct (map step_seq ?g)" using assms(1) step_seq_eq [OF assms(2)] by (auto simp: steps_ok_def)
  then have "distinct (map step_seq ys)" unfolding ys(1) drop_map [symmetric] by (rule distinct_drop)
  moreover have "list_all (\<lambda>s. \<exists>i. jget s ''seq'' = JInt i) ys" "list_all excerpt_ok ys"
    unfolding ys(1) using assms(1-3) by (auto simp: steps_ok_def intro!: list_all_drop)
  moreover have "length ys \<le> steps_cap" "length xs \<le> length ys + k" "k = 0 \<or> length ys = steps_cap" using ys by auto
  moreover have "drop k (xs @ [s]) = ys" by (simp only: ys)
  ultimately show ?thesis unfolding steps_ok_def by blast
qed

lemma run_ok_alt: "run_ok r \<longleftrightarrow> ar_phase_history r \<noteq> [] \<and> entry_state (last (ar_phase_history r)) = JStr (ar_state r)
     \<and> successively (\<lambda>e e'. entry_state e \<noteq> entry_state e') (ar_phase_history r)
     \<and> length (ar_verifications r) \<le> verifications_cap \<and> steps_ok (ar_steps r) \<and> (ar_steps_dropped r = 0 \<or> length (ar_steps r) = steps_cap)"
  by (auto simp: run_ok_def steps_ok_def)

lemma length_capped: "length (capped cap xs) \<le> cap"
  by (simp add: capped_def)

lemma updated_run_ok:
  assumes "run_ok r" "ar_finished_at r = None"
    and step: "\<And>s. rr_step rr = Some s \<Longrightarrow> (\<exists>i. jget s ''seq'' = JInt i) \<and> excerpt_ok s"
  shows "run_ok (updated_run c now rr r) \<and> grown r (updated_run c now rr r)"
proof -
  obtain ys k where yk: "(case rr_step rr of None \<Rightarrow> (ar_steps r, 0) | Some s \<Rightarrow> append_step (ar_steps r) s) = (ys, k)" by fastforce
  let ?h = "if ar_state r \<noteq> rr_state rr then ar_phase_history r @ [phase_entry c (rr_state rr) (rr_at rr)] else ar_phase_history r"
  have st: "steps_ok ys \<and> (\<exists>more. drop k (ar_steps r @ more) = ys) \<and> length (ar_steps r) \<le> length ys + k
      \<and> (ar_steps_dropped r + k = 0 \<or> length ys = steps_cap)"
  proof (cases "rr_step rr")
    case None
    then show ?thesis using yk assms(1) by (auto simp: run_ok_alt)
  next
    case (Some s)
    then show ?thesis
      using yk step [OF Some] append_step_ok [of "ar_steps r" s _ ys k] assms(1) by (auto simp: run_ok_alt steps_ok_def)
  qed
  have "successively (\<lambda>e e'. entry_state e \<noteq> entry_state e') ?h" "entry_state (last ?h) = JStr (rr_state rr)" "?h \<noteq> []"
    using assms(1) by (auto simp: run_ok_alt successively_append_iff phase_entry_def entry_state_def)
  moreover have "length (case rr_verification rr of None \<Rightarrow> ar_verifications r | Some v \<Rightarrow> capped verifications_cap (ar_verifications r @ [v])) \<le> verifications_cap"
    using assms(1) length_capped by (auto simp: run_ok_alt split: option.splits)
  ultimately have "run_ok (updated_run c now rr r)" unfolding run_ok_alt updated_run_def yk using st by simp
  moreover have "\<exists>more. ?h = ar_phase_history r @ more" by auto
  then have "grown r (updated_run c now rr r)"
    unfolding grown_def ledger_grown_def sealed_def filled_def updated_run_def yk using st assms(2)
    by (auto simp: or_keep_def split: option.splits)
  ultimately show ?thesis by blast
qed

lemma new_run_ok:
  assumes "\<And>s. rr_step rr = Some s \<Longrightarrow> (\<exists>i. jget s ''seq'' = JInt i) \<and> excerpt_ok s"
  shows "run_ok (new_run c now rr)"
  using assms by (auto simp: run_ok_def new_run_def phase_entry_def entry_state_def steps_cap_def verifications_cap_def split: option.splits)

lemma dumped_step_ok: "valid_step_event s \<Longrightarrow> (\<exists>i. jget (dump_step_event c s) ''seq'' = JInt i) \<and> excerpt_ok (dump_step_event c s)"
  by (auto simp: dump_step_event_def excerpt_ok_def valid_step_event_def jstr_opt_def split: option.splits)

lemma run_for_tenant_SomeD: "run_for_tenant i t d = Some r \<Longrightarrow> r \<in> set (rd_runs d) \<and> ar_id r = i \<and> ar_tenant_id r = t"
  by (auto simp: run_for_tenant_def find_Some_iff)

lemma run_for_tenant_iff:
  "distinct (map ar_id (rd_runs d)) \<Longrightarrow> run_for_tenant i t d = Some r \<longleftrightarrow> r \<in> set (rd_runs d) \<and> ar_id r = i \<and> ar_tenant_id r = t"
proof
  assume dist: "distinct (map ar_id (rd_runs d))" and r: "r \<in> set (rd_runs d) \<and> ar_id r = i \<and> ar_tenant_id r = t"
  then obtain r' where r': "run_for_tenant i t d = Some r'" by (cases "run_for_tenant i t d") (auto simp: run_for_tenant_def find_None_iff)
  then have "r' = r" using run_for_tenant_SomeD [OF r'] r dist by (auto simp: distinct_map dest: inj_onD)
  then show "run_for_tenant i t d = Some r" using r' by simp
qed (rule run_for_tenant_SomeD)

definition runs_step :: "run_db \<Rightarrow> run_db \<Rightarrow> bool" where
  "runs_step d d' \<longleftrightarrow> runs_inv d' \<and> (\<forall>i t r. run_for_tenant i t d = Some r \<longrightarrow> (\<exists>r'. run_for_tenant i t d' = Some r' \<and> grown r r'))"

lemma runs_step_refl: "runs_inv d \<Longrightarrow> runs_step d d"
  using grown_refl by (auto simp: runs_step_def)

lemma put_run_step:
  assumes "runs_inv d" "r \<in> set (rd_runs d)" "run_ok r'" "ar_id r' = ar_id r" "ar_tenant_id r' = ar_tenant_id r" "grown r r'"
  shows "runs_step d (put_run r' d)"
proof -
  have dist: "distinct (map ar_id (rd_runs d))" using assms(1) by (simp add: runs_inv_def)
  have rows: "set (rd_runs (put_run r' d)) = (\<lambda>x. if ar_id x = ar_id r then r' else x) ` set (rd_runs d)"
    by (simp add: put_run_def set_update_where assms(4))
  have "map ar_id (rd_runs (put_run r' d)) = map ar_id (rd_runs d)"
    by (simp add: put_run_def update_where_def assms(4))
  then have dist': "distinct (map ar_id (rd_runs (put_run r' d)))" using dist by simp
  have "runs_inv (put_run r' d)"
    using assms(1,3) dist' unfolding runs_inv_def list_all_iff rows by auto
  moreover have "\<exists>x'. run_for_tenant i t (put_run r' d) = Some x' \<and> grown x x'" if "run_for_tenant i t d = Some x" for i t x
  proof (cases "ar_id x = ar_id r")
    case True
    have x: "x \<in> set (rd_runs d)" "ar_id x = i" "ar_tenant_id x = t" using run_for_tenant_SomeD [OF that] by auto
    then have "x = r" using True dist assms(2) by (auto simp: distinct_map dest: inj_onD)
    moreover have "r' \<in> set (rd_runs (put_run r' d))" unfolding rows using assms(2) by force
    ultimately show ?thesis using x assms(4-6) by (auto simp: run_for_tenant_iff [OF dist'])
  next
    case False
    have x: "x \<in> set (rd_runs d)" "ar_id x = i" "ar_tenant_id x = t" using run_for_tenant_SomeD [OF that] by auto
    then have "x \<in> set (rd_runs (put_run r' d))" unfolding rows using False by force
    then show ?thesis using x grown_refl by (auto simp: run_for_tenant_iff [OF dist'])
  qed
  ultimately show ?thesis by (simp add: runs_step_def)
qed

text \<open>A flush that meets the row it has read writes exactly the row it has made.\<close>

definition same_run :: "agent_run \<Rightarrow> agent_run \<Rightarrow> bool" where
  "same_run r r' \<longleftrightarrow> ar_id r' = ar_id r \<and> ar_tenant_id r' = ar_tenant_id r
     \<and> ar_service_account_id r' = ar_service_account_id r \<and> ar_started_at r' = ar_started_at r"

lemma same_run_made: "same_run r (updated_run c now rr r)" "same_run r (briefed c now b p t r)"
  by (simp_all add: same_run_def updated_run_def briefed_def split_beta Let_def)

lemma save_columns_seen: "same_run r r' \<Longrightarrow> save_columns r r' r = r'"
  by (simp add: save_columns_def changed_def same_run_def)

lemma save_run_seen:
  assumes "distinct (map ar_id (rd_runs d))" "run_for_tenant i t d = Some r" "same_run r r'"
  shows "save_run r r' d = Some (r', put_run r' d)"
proof -
  obtain x where x: "find (\<lambda>x. ar_id x = ar_id r) (rd_runs d) = Some x"
    using run_for_tenant_SomeD [OF assms(2)] by (cases "find (\<lambda>x. ar_id x = ar_id r) (rd_runs d)") (auto simp: find_None_iff)
  then have "x \<in> set (rd_runs d)" "ar_id x = ar_id r" by (auto simp: find_Some_iff)
  then have "x = r" using run_for_tenant_SomeD [OF assms(2)] assms(1) by (auto simp: distinct_map dest: inj_onD)
  then show ?thesis using x save_columns_seen [OF assms(3)] by (simp add: save_run_def Let_def)
qed

lemma report_run_step:
  assumes inv: "runs_inv d" and step: "\<And>s. rr_step rr = Some s \<Longrightarrow> (\<exists>i. jget s ''seq'' = JInt i) \<and> excerpt_ok s"
  shows "runs_step d (snd (report_run c now rr d d))"
proof (cases "run_for_tenant (rr_run_id rr) (rr_tenant_id rr) d")
  case None
  show ?thesis
  proof (cases "rr_run_id rr \<in> ar_id ` set (rd_runs d) \<or> \<not> alert_known (rr_alert_id rr) d")
    case True
    then show ?thesis using None inv by (auto simp: report_run_def new_run_def intro: runs_step_refl)
  next
    case False
    let ?d = "d\<lparr>rd_runs := rd_runs d @ [new_run c now rr]\<rparr>"
    have e: "snd (report_run c now rr d d) = ?d" using None False by (simp add: report_run_def Let_def) (simp add: new_run_def)
    have id: "ar_id (new_run c now rr) = rr_run_id rr" by (simp add: new_run_def)
    have inv': "runs_inv ?d" using inv False new_run_ok [OF step] id by (simp add: runs_inv_def)
    then have dist': "distinct (map ar_id (rd_runs ?d))" by (simp add: runs_inv_def)
    have "run_for_tenant i t ?d = Some r" if "run_for_tenant i t d = Some r" for i t r
      unfolding run_for_tenant_iff [OF dist'] using run_for_tenant_SomeD [OF that] by simp
    then show ?thesis unfolding e using inv' grown_refl by (auto simp: runs_step_def)
  qed
next
  case (Some r)
  have r: "r \<in> set (rd_runs d)" using run_for_tenant_SomeD [OF Some] by simp
  show ?thesis
  proof (cases "ar_finished_at r \<noteq> None \<or> \<not> alert_known (rr_alert_id rr) d")
    case True
    then show ?thesis using Some inv by (auto simp: report_run_def Let_def intro: runs_step_refl)
  next
    case False
    have ok: "run_ok r" using inv r by (auto simp: runs_inv_def list_all_iff)
    have "run_ok (updated_run c now rr r) \<and> grown r (updated_run c now rr r)" using ok False step by (intro updated_run_ok) auto
    moreover have "ar_id (updated_run c now rr r) = ar_id r" "ar_tenant_id (updated_run c now rr r) = ar_tenant_id r"
      by (simp_all add: updated_run_def split_beta Let_def)
    ultimately show ?thesis
      using Some False put_run_step [OF inv r] save_run_seen [OF _ Some same_run_made(1)] inv by (simp add: report_run_def runs_inv_def)
  qed
qed

lemma briefing_grown:
  assumes "ar_briefing r = None"
  shows "grown r (briefed c now b p t r)"
  using assms by (simp add: briefed_def grown_def ledger_grown_def sealed_def filled_def or_keep_def exI [of _ "[]"] split: option.splits)

lemma report_briefing_step:
  assumes inv: "runs_inv d"
  shows "runs_step d (snd (report_briefing c now i t b p time d d))"
proof (cases "run_for_tenant i t d")
  case None
  then show ?thesis using inv by (simp add: report_briefing_def runs_step_refl)
next
  case (Some r)
  have r: "r \<in> set (rd_runs d)" using run_for_tenant_SomeD [OF Some] by simp
  have ok: "run_ok r" using inv r by (auto simp: runs_inv_def list_all_iff)
  show ?thesis
  proof (cases "ar_briefing r")
    case None
    let ?r = "briefed c now b p time r"
    have "run_ok ?r" using ok by (simp add: run_ok_def briefed_def)
    then have "runs_step d (put_run ?r d)"
      using put_run_step [OF inv r] briefing_grown [OF None] same_run_made(2) by (simp add: same_run_def)
    moreover have "save_run r ?r d = Some (?r, put_run ?r d)"
      by (rule save_run_seen [OF _ Some same_run_made(2)]) (use inv in \<open>simp add: runs_inv_def\<close>)
    ultimately show ?thesis using Some None by (simp add: report_briefing_def)
  next
    case (Some b')
    then show ?thesis using \<open>run_for_tenant i t d = Some r\<close> inv by (simp add: report_briefing_def runs_step_refl)
  qed
qed

lemma run_apply_step:
  assumes "runs_inv d"
  shows "runs_step d (run_apply c ev d)"
proof (cases ev)
  case (Reported now t acc inp)
  show ?thesis
  proof (cases "valid_report inp \<and> acc \<noteq> None")
    case True
    then obtain a where a: "acc = Some a" by auto
    let ?rr = "report_of_input c now t a inp"
    have "(\<exists>i. jget s ''seq'' = JInt i) \<and> excerpt_ok s" if "rr_step ?rr = Some s" for s
      using that True dumped_step_ok by (auto simp: report_of_input_def valid_report_def split: option.splits)
    from report_run_step [OF assms this] have "runs_step d (snd (report_run c now ?rr d d))" .
    then show ?thesis using True a by (auto simp: run_apply_def Reported report_agent_run_def Let_def split: prod.splits sum.splits)
  next
    case False
    then show ?thesis using assms by (auto simp: run_apply_def Reported report_agent_run_def runs_step_refl split: option.splits)
  qed
next
  case (Briefed now t i b p sent)
  then show ?thesis
    using report_briefing_step [OF assms, of c now i t b p "case sent of None \<Rightarrow> now | Some t \<Rightarrow> t"]
    by (auto simp: run_apply_def report_agent_briefing_def Let_def split: prod.splits sum.splits option.splits)
qed

lemma runs_step_trans: "runs_step d d' \<Longrightarrow> runs_step d' d'' \<Longrightarrow> runs_step d d''"
  unfolding runs_step_def using grown_trans by blast

lemma run_applies_step: "runs_inv d \<Longrightarrow> runs_step d (fold (run_apply c) evs d)"
proof (induction evs arbitrary: d)
  case (Cons ev evs)
  have 1: "runs_step d (run_apply c ev d)" by (rule run_apply_step [OF Cons.prems])
  then have "runs_inv (run_apply c ev d)" by (simp add: runs_step_def)
  from runs_step_trans [OF 1 Cons.IH [OF this]] show ?case by simp
qed (simp add: runs_step_refl)

subsection \<open>Calls that overlap\<close>

lemma run_ok_shape: "run_ok r \<Longrightarrow> run_shape r"
  by (simp add: run_ok_def run_shape_def)

lemma run_shape_alt: "run_shape r \<longleftrightarrow> ar_phase_history r \<noteq> [] \<and> entry_state (last (ar_phase_history r)) = JStr (ar_state r)
     \<and> successively (\<lambda>e e'. entry_state e \<noteq> entry_state e') (ar_phase_history r)
     \<and> length (ar_verifications r) \<le> verifications_cap \<and> steps_ok (ar_steps r)"
  by (auto simp: run_shape_def steps_ok_def)

text \<open>The state and the timeline are written together or not at all, each other limited column by itself.\<close>

lemma save_shape:
  assumes "run_shape x" "run_shape r'" "ar_state r' = ar_state r \<longleftrightarrow> ar_phase_history r' = ar_phase_history r"
  shows "run_shape (save_columns r r' x)"
  using assms by (auto simp: run_shape_alt save_columns_def changed_def)

lemma updated_run_shape:
  assumes "run_shape r" and step: "\<And>s. rr_step rr = Some s \<Longrightarrow> (\<exists>i. jget s ''seq'' = JInt i) \<and> excerpt_ok s"
  shows "run_shape (updated_run c now rr r)"
    "ar_state (updated_run c now rr r) = ar_state r \<longleftrightarrow> ar_phase_history (updated_run c now rr r) = ar_phase_history r"
proof -
  obtain ys k where yk: "(case rr_step rr of None \<Rightarrow> (ar_steps r, 0) | Some s \<Rightarrow> append_step (ar_steps r) s) = (ys, k)" by fastforce
  let ?h = "if ar_state r \<noteq> rr_state rr then ar_phase_history r @ [phase_entry c (rr_state rr) (rr_at rr)] else ar_phase_history r"
  have st: "steps_ok ys"
  proof (cases "rr_step rr")
    case None
    then show ?thesis using yk assms(1) by (simp add: run_shape_alt)
  next
    case (Some s)
    then show ?thesis
      using yk step [OF Some] append_step_ok [of "ar_steps r" s _ ys k] assms(1) by (auto simp: run_shape_alt)
  qed
  have "successively (\<lambda>e e'. entry_state e \<noteq> entry_state e') ?h" "entry_state (last ?h) = JStr (rr_state rr)" "?h \<noteq> []"
    using assms(1) by (auto simp: run_shape_alt successively_append_iff phase_entry_def entry_state_def)
  moreover have "length (case rr_verification rr of None \<Rightarrow> ar_verifications r | Some v \<Rightarrow> capped verifications_cap (ar_verifications r @ [v])) \<le> verifications_cap"
    using assms(1) length_capped by (auto simp: run_shape_alt split: option.splits)
  ultimately show "run_shape (updated_run c now rr r)" unfolding run_shape_alt updated_run_def yk using st by simp
  show "ar_state (updated_run c now rr r) = ar_state r \<longleftrightarrow> ar_phase_history (updated_run c now rr r) = ar_phase_history r"
    unfolding updated_run_def yk by simp
qed

abbreviation shaped :: "run_db \<Rightarrow> bool" where
  "shaped d \<equiv> list_all run_shape (rd_runs d)"

lemma save_run_shaped:
  assumes "shaped d" "run_shape r'" "ar_state r' = ar_state r \<longleftrightarrow> ar_phase_history r' = ar_phase_history r"
    and "save_run r r' d = Some (y, d')"
  shows "shaped d'"
proof -
  obtain x where "x \<in> set (rd_runs d)" "y = save_columns r r' x" "d' = put_run y d"
    using assms(4) by (auto simp: save_run_def find_Some_iff Let_def split: option.splits intro: nth_mem)
  then show ?thesis
    using assms(1) save_shape [OF _ assms(2,3), of x] by (auto simp: put_run_def list_all_iff set_update_where)
qed

lemma apply_seen_shaped:
  assumes "shaped seen" "shaped d"
  shows "shaped (run_apply_seen c ev seen d)"
proof (cases ev)
  case (Reported now t acc inp)
  let ?rr = "\<lambda>a. report_of_input c now t a inp"
  have step: "(\<exists>i. jget s ''seq'' = JInt i) \<and> excerpt_ok s" if "rr_step (?rr a) = Some s" "valid_report inp" for s a
    using that dumped_step_ok by (auto simp: report_of_input_def valid_report_def split: option.splits)
  have "shaped (snd (report_run c now (?rr a) seen d))" if v: "valid_report inp" for a
  proof (cases "run_for_tenant (rr_run_id (?rr a)) (rr_tenant_id (?rr a)) seen")
    case None
    then show ?thesis using assms(2) run_ok_shape [OF new_run_ok [of "?rr a"]] step [of a] v by (auto simp: report_run_def Let_def)
  next
    case (Some r)
    then have r: "run_shape r" using assms(1) run_for_tenant_SomeD [OF Some] by (auto simp: list_all_iff)
    have u: "run_shape (updated_run c now (?rr a) r)"
      "ar_state (updated_run c now (?rr a) r) = ar_state r \<longleftrightarrow> ar_phase_history (updated_run c now (?rr a) r) = ar_phase_history r"
      by (rule updated_run_shape [OF r]; use step [of a] v in blast)+
    show ?thesis using assms(2) save_run_shaped [OF assms(2) u] Some by (auto simp: report_run_def split: option.splits)
  qed
  moreover have "snd (report_agent_run c now t acc inp seen d) =
      (case acc of None \<Rightarrow> d | Some a \<Rightarrow> snd (report_run c now (?rr a) seen d))"
    by (simp add: report_agent_run_def Let_def split: option.split prod.split sum.split)
  ultimately show ?thesis using assms(2) by (simp add: Reported split: option.split)
next
  case (Briefed now t i b p sent)
  have "shaped (snd (report_briefing c now i t b p time seen d))" for time
  proof (cases "run_for_tenant i t seen")
    case None
    then show ?thesis using assms(2) by (simp add: report_briefing_def)
  next
    case (Some r)
    then have r: "run_shape r" using assms(1) run_for_tenant_SomeD [OF Some] by (auto simp: list_all_iff)
    have u: "run_shape (briefed c now b p time r)"
      "ar_state (briefed c now b p time r) = ar_state r \<longleftrightarrow> ar_phase_history (briefed c now b p time r) = ar_phase_history r"
      using r by (simp_all add: run_shape_def briefed_def)
    show ?thesis using assms(2) save_run_shaped [OF assms(2) u] Some by (auto simp: report_briefing_def split: option.splits)
  qed
  moreover have "snd (report_agent_briefing c now t i b p sent seen d) =
      snd (report_briefing c now i t b p (case sent of None \<Rightarrow> now | Some t \<Rightarrow> t) seen d)"
    by (simp add: report_agent_briefing_def Let_def split: option.split prod.split sum.split)
  ultimately show ?thesis by (simp add: Briefed)
qed

lemma overlap_shaped: "list_all shaped ds \<Longrightarrow> list_all shaped (fold (run_overlap c) kes ds)"
proof (induction kes arbitrary: ds)
  case (Cons ke kes)
  have "list_all shaped (run_overlap c ke ds)"
  proof (cases ds)
    case (Cons d ds')
    have "shaped d" using \<open>list_all shaped ds\<close> Cons by simp
    moreover have "shaped (ds ! k)" if "k < length ds" for k using \<open>list_all shaped ds\<close> that by (simp add: list_all_length)
    ultimately have "shaped (run_apply_seen c (snd ke) (if fst ke < length ds then ds ! fst ke else d) d)"
      by (intro apply_seen_shaped) simp_all
    then show ?thesis using \<open>list_all shaped ds\<close> unfolding run_overlap_def Cons by simp
  qed (simp add: run_overlap_def)
  then show ?case using Cons.IH by simp
qed simp

text \<open>
  Property C31. The record of a run can be trusted afterwards. Whatever is reported, by whomever, in whatever
  order and however the calls overlap: the last entry of a run's timeline is its state and no two
  adjacent entries are of one state; its ledger holds at most 200 steps of distinct number, none with a
  result longer than 400 characters. Of calls handled one after another besides: the timeline only grows;
  the ledger is the newest part of what was recorded, and counts what it dropped; a closed run keeps its
  state, timeline, plan, steps and verdicts for ever; and a briefing, once written, is never replaced. (Calls
  that overlap can lose that: \<open>late_report_rewrites_closed_run\<close>.)
\<close>

theorem agent_run_record:
  assumes "d = fold (run_apply c) evs \<lparr>rd_runs = [], rd_alerts = as\<rparr>" "run_for_tenant i t d = Some r"
    and "d' \<in> set (fold (run_overlap c) kes [\<lparr>rd_runs = [], rd_alerts = as'\<rparr>])" "run_for_tenant i' t' d' = Some x"
  shows "run_shape x \<and> run_ok r
    \<and> (\<exists>r'. run_for_tenant i t (fold (run_apply c) later d) = Some r' \<and> run_ok r' \<and> grown r r')"
proof -
  have "runs_inv \<lparr>rd_runs = [], rd_alerts = as\<rparr>" by (simp add: runs_inv_def)
  from run_applies_step [OF this, of c evs] have inv: "runs_inv d" by (simp add: assms(1) runs_step_def)
  have ok: "run_ok x" if "runs_inv d'" "run_for_tenant i t d' = Some x" for d' x
    using that run_for_tenant_SomeD by (fastforce simp: runs_inv_def list_all_iff)
  have "shaped d'" using overlap_shaped [of "[\<lparr>rd_runs = [], rd_alerts = as'\<rparr>]" c kes] assms(3) by (auto simp: list_all_iff)
  then have "run_shape x" using run_for_tenant_SomeD [OF assms(4)] by (auto simp: list_all_iff)
  then show ?thesis
    using run_applies_step [OF inv, of c later] assms(2) ok [OF inv assms(2)] ok unfolding runs_step_def by blast
qed

definition lab_report :: "string \<Rightarrow> report_input" where
  "lab_report st = \<lparr>ri_run_id = 1, ri_state = st, ri_at = None, ri_alert_id = None, ri_run_label = None, ri_current_hypothesis = None,
     ri_last_step = None, ri_hypotheses = None, ri_plan = None, ri_verification = None, ri_step = None, ri_budget = None\<rparr>"

lemmas lab_report_simps = run_apply_def run_overlap_def valid_report_def reportable_states_def report_agent_run_def report_run_def
  run_for_tenant_def new_run_def updated_run_def touched_def report_of_input_def lab_report_def alert_known_def save_run_def put_run_def save_columns_def
  changed_def terminal_agent_run_states_def phase_entry_def or_keep_def Let_def

theorem agent_run_record_witness:
  "\<exists>r. run_for_tenant 1 7 (fold (run_apply sample_codec) [Reported 2 7 (Some 3) (lab_report ''resolved''), Reported 9 7 (Some 3) (lab_report ''triage'')]
      \<lparr>rd_runs = [], rd_alerts = []\<rparr>) = Some r \<and> run_ok r"
proof -
  let ?d = "fold (run_apply sample_codec) [Reported 2 7 (Some 3) (lab_report ''resolved'')] \<lparr>rd_runs = [], rd_alerts = []\<rparr>"
  let ?ds = "fold (run_overlap sample_codec) [(0, Reported 2 7 (Some 3) (lab_report ''resolved''))] [\<lparr>rd_runs = [], rd_alerts = []\<rparr>]"
  obtain r where r: "run_for_tenant 1 7 ?d = Some r" by (simp add: lab_report_simps)
  have "?d \<in> set ?ds" by (simp add: run_overlap_def run_apply_def)
  from agent_run_record [OF refl r this r, of "[Reported 9 7 (Some 3) (lab_report ''triage'')]"] show ?thesis by auto
qed

text \<open>
  The overlap that loses the end of a run: a report reads the run while it is open, another closes it as
  resolved, and the first then writes its columns. The row is closed and its state is the late report's; the entry
  of the resolution is gone from the timeline.
\<close>

theorem late_report_rewrites_closed_run:
  "map (\<lambda>r. (ar_state r, ar_finished_at r, map entry_state (ar_phase_history r)))
     (rd_runs (hd (fold (run_overlap sample_codec)
        [(0, Reported 2 7 (Some 3) (lab_report ''triage'')), (0, Reported 4 7 (Some 3) (lab_report ''resolved'')),
         (1, Reported 5 7 (Some 3) (lab_report ''planning''))] [\<lparr>rd_runs = [], rd_alerts = []\<rparr>])))
   = [(''planning'', Some 4, [JStr ''triage'', JStr ''planning''])]"
  by (simp add: lab_report_simps entry_state_def)

text \<open>
  A report that names an alert the platform does not have is refused by the foreign key, and with it the
  state, step and verdict it carried; the tool's description says that unknown ids are stored as given.
\<close>

lemma unknown_alert_loses_report:
  assumes "rr_alert_id rr = Some a" "a \<notin> set (rd_alerts d)"
  shows "\<exists>e. report_run c now rr seen d = (Inl e, d)"
  using assms by (auto simp: report_run_def new_run_def alert_known_def Let_def split: option.splits)

text \<open>
  Reports are retried, but a verdict has no number of its own: the retry of a report that carries one is
  counted again.
\<close>

definition lab_verdict :: report_input where
  "lab_verdict = (lab_report ''verifying'')\<lparr>ri_verification := Some \<lparr>vr_verdict = ''verified'', vr_reasoning_excerpt = None,
     vr_attempt = Some 1, vr_of = Some 1\<rparr>\<rparr>"

lemma retried_verdict_counted_twice:
  "map (\<lambda>r. length (ar_verifications r)) (rd_runs (fold (run_apply sample_codec)
     [Reported 2 7 (Some 3) lab_verdict, Reported 9 7 (Some 3) lab_verdict] \<lparr>rd_runs = [], rd_alerts = []\<rparr>)) = [2]"
  by (simp add: lab_report_simps lab_verdict_def valid_verification_def dump_verification_def capped_def verifications_cap_def)

section \<open>Polling the ledger\<close>

lemma last_sorted_max:
  assumes "xs \<noteq> []" "s \<in> set xs"
  shows "step_seq s \<le> step_seq (last (sort_key step_seq xs))"
proof -
  let ?ys = "sort_key step_seq xs"
  have ne: "?ys \<noteq> []" using assms(1) by (metis length_0_conv length_sort)
  have "sorted (map step_seq ?ys)" by simp
  then have "sorted (map step_seq (butlast ?ys) @ [step_seq (last ?ys)])"
    using ne by (metis append_butlast_last_id list.simps(8,9) map_append)
  then have "x \<le> step_seq (last ?ys)" if "x \<in> set (map step_seq (butlast ?ys @ [last ?ys]))" for x
    using that by (auto simp: sorted_append)
  moreover have "set (butlast ?ys @ [last ?ys]) = set xs" by (simp only: append_butlast_last_id [OF ne] set_sort)
  then have "step_seq s \<in> set (map step_seq (butlast ?ys @ [last ?ys]))" using assms(2) unfolding set_map by blast
  ultimately show ?thesis by blast
qed

text \<open>
  A console that polls with the cursor it was given sees every step that arrives in order exactly once:
  the next page holds precisely the new steps, when their numbers are above those already recorded, and
  never one it has been shown.
\<close>

lemma polling_sees_new_steps:
  assumes "admin_agent_run_steps i a t d = Inr p1" "run_for_tenant i t d = Some r"
    and "run_for_tenant i t d' = Some r'" "ar_steps r' = ar_steps r @ fresh" "ar_steps r \<noteq> []"
    and "list_all (\<lambda>s. list_all (\<lambda>x. step_seq x < step_seq s) (ar_steps r)) fresh"
    and "admin_agent_run_steps i (sp_next_after_seq p1) t d' = Inr p2"
  shows "set (sp_steps p2) = set fresh \<and> set (sp_steps p1) \<inter> set (sp_steps p2) = {}"
proof -
  let ?h = "step_seq (last (sort_key step_seq (ar_steps r)))"
  have ne: "sort_key step_seq (ar_steps r) \<noteq> []" using assms(5) by (metis length_0_conv length_sort)
  then have n: "sp_next_after_seq p1 = Some ?h" and p1: "set (sp_steps p1) \<subseteq> set (ar_steps r)"
    using assms(1,2) by (auto simp: admin_agent_run_steps_def Let_def)
  have "last (sort_key step_seq (ar_steps r)) \<in> set (ar_steps r)" using last_in_set [OF ne] by simp
  then have above: "?h < step_seq s" if "s \<in> set fresh" for s using assms(6) that by (auto simp: list_all_iff)
  have below: "step_seq s \<le> ?h" if "s \<in> set (ar_steps r)" for s by (rule last_sorted_max [OF assms(5) that])
  have "set (sp_steps p2) = {s \<in> set (ar_steps r @ fresh). ?h < step_seq s}"
    using assms(3,4,7) by (auto simp: admin_agent_run_steps_def Let_def n)
  then show ?thesis using p1 above below by (force simp: not_less)
qed

end
