(* ===== verification/Identity.thy ===== *)
theory Identity
  imports Admission Operator_Audit Circuit_Breaker "HOL-Library.Countable"
begin

text \<open>
  Who is calling and for which tenant: \<open>core/security.py\<close>, \<open>services/auth.py\<close>, \<open>api/auth.py\<close>,
  \<open>dependencies.py\<close>, \<open>core/tenant_scope.py\<close>, the users and tenants with their repositories, and the tenant
  endpoints of \<open>api/admin.py\<close>. The database is PostgreSQL with the policies of migration
  \<open>e2a9c4f70b31\<close>. \<open>bcrypt\<close> and \<open>jose\<close> are parameters: a hash, a check of a password that may raise,
  the signing and reading of claims
  under the configured key, and the text of a claim that is neither a string nor null. The address of the peer is not recorded.
\<close>

section \<open>Row-level security\<close>

text \<open>
  The two settings of a transaction that the policies read (an empty setting counts as none), the strict
  predicate of \<open>tenant_isolation\<close>, and which policy a table carries. \<open>deploy_markers\<close> also shows and takes rows
  without a tenant, and \<open>service_accounts\<close> can be read, not written, before a tenant is declared. A table
  in neither list (\<open>users\<close>, and those without a tenant of their own) has no policy; \<open>agent_runs\<close> gets the
  same strict one from the migration that creates it. The rows of
  \<open>audit_logs\<close> are besides protected from update and deletion.
\<close>

record tx_scope =
  app_tenant_id :: "uuid option"
  app_platform :: bool

definition new_tx :: tx_scope where
  "new_tx = \<lparr>app_tenant_id = None, app_platform = False\<rparr>"

definition rls_match :: "tx_scope \<Rightarrow> uuid \<Rightarrow> bool" where
  "rls_match s tenant_id \<longleftrightarrow> app_platform s \<or> app_tenant_id s = Some tenant_id"

definition rls_tables :: "string list" where
  "rls_tables = [''jobs'', ''audit_logs'', ''outbox_events'', ''job_events'', ''sagas'', ''job_triages'',
     ''incident_summaries'', ''service_accounts'', ''alerts'', ''idempotency_records'', ''agent_runs'']"

definition null_tenant_tables :: "string list" where
  "null_tenant_tables = [''deploy_markers'']"

definition tenant_isolation :: "string \<Rightarrow> tx_scope \<Rightarrow> uuid option \<Rightarrow> bool" where
  "tenant_isolation table s row_tenant \<longleftrightarrow>
     (if table \<in> set null_tenant_tables \<and> row_tenant = None then True
      else case row_tenant of None \<Rightarrow> app_platform s | Some t \<Rightarrow> rls_match s t)"

definition service_accounts_bootstrap_read :: "string \<Rightarrow> tx_scope \<Rightarrow> bool" where
  "service_accounts_bootstrap_read table s \<longleftrightarrow> table = ''service_accounts'' \<and> app_tenant_id s = None"

definition rls_read :: "string \<Rightarrow> tx_scope \<Rightarrow> uuid option \<Rightarrow> bool" where
  "rls_read table s row_tenant \<longleftrightarrow> table \<notin> set rls_tables \<union> set null_tenant_tables
     \<or> tenant_isolation table s row_tenant \<or> service_accounts_bootstrap_read table s"

definition rls_write :: "string \<Rightarrow> tx_scope \<Rightarrow> uuid option \<Rightarrow> bool" where
  "rls_write table s row_tenant \<longleftrightarrow> table \<notin> set rls_tables \<union> set null_tenant_tables \<or> tenant_isolation table s row_tenant"

section \<open>Users and tenants\<close>

fun role_value :: "user_role \<Rightarrow> string" where
  "role_value USER = ''user''"
| "role_value SUPPORT = ''support''"
| "role_value ADMIN = ''admin''"

record user =
  us_id :: uuid
  us_tenant_id :: uuid
  us_email :: string
  us_hashed_password :: string
  us_role :: user_role
  us_is_active :: bool
  us_is_platform_admin :: bool
  us_created_at :: time

record tenant_row = tenant +
  tn_name :: string
  tn_is_active :: bool
  tn_created_at :: time

definition default_tenant_slug :: string where
  "default_tenant_slug = ''default''"

text \<open>One transaction: its scope and the tables it reads and writes.\<close>

record auth_db =
  au_tx :: tx_scope
  au_users :: "user list"
  au_tenants :: "tenant_row list"
  au_sa :: sa_db

abbreviation au_core :: "auth_db \<Rightarrow> db" where
  "au_core d \<equiv> sa_core (au_sa d)"

definition get_by_email :: "string \<Rightarrow> auth_db \<Rightarrow> user option" where
  "get_by_email email d = get_by us_email email (au_users d)"

definition user_for_tenant :: "uuid \<Rightarrow> uuid \<Rightarrow> auth_db \<Rightarrow> user option" where
  "user_for_tenant user_id tenant_id d = find (\<lambda>u. us_id u = user_id \<and> us_tenant_id u = tenant_id) (au_users d)"

definition list_users :: "nat \<Rightarrow> nat \<Rightarrow> uuid option \<Rightarrow> auth_db \<Rightarrow> user list \<times> nat" where
  "list_users offset limit tenant_id d =
     (let rows = filter (\<lambda>u. case tenant_id of None \<Rightarrow> True | Some t \<Rightarrow> us_tenant_id u = t) (au_users d)
      in (take limit (drop offset (sort_key (\<lambda>u. - us_created_at u) (sort_key (\<lambda>u. - int (us_id u)) rows))), length rows))"

definition get_by_slug :: "string \<Rightarrow> auth_db \<Rightarrow> tenant_row option" where
  "get_by_slug slug d = get_by tn_slug slug (au_tenants d)"

definition list_tenants :: "nat \<Rightarrow> nat \<Rightarrow> auth_db \<Rightarrow> tenant_row list \<times> nat" where
  "list_tenants offset limit d =
     (take limit (drop offset (sort_key (\<lambda>t. - tn_created_at t) (sort_key (\<lambda>t. - int (tn_id t)) (au_tenants d)))),
      length (au_tenants d))"

text \<open>The count of jobs reads a table under the policy; the one of users does not.\<close>

definition counts_for :: "uuid \<Rightarrow> auth_db \<Rightarrow> nat \<times> nat" where
  "counts_for tenant_id d =
     (length (filter (\<lambda>u. us_tenant_id u = tenant_id) (au_users d)),
      length (filter (\<lambda>j. rls_match (au_tx d) (j_tenant_id j) \<and> j_tenant_id j = tenant_id) (jobs (au_core d))))"

definition fresh_id :: "auth_db \<Rightarrow> uuid \<times> auth_db" where
  "fresh_id d = (next_uuid (au_core d),
     d\<lparr>au_sa := (au_sa d)\<lparr>sa_core := (au_core d)\<lparr>next_uuid := Suc (next_uuid (au_core d))\<rparr>\<rparr>\<rparr>)"

text \<open>The inserts, with the unique keys and the widths of the columns.\<close>

definition create_tenant :: "time \<Rightarrow> string \<Rightarrow> string \<Rightarrow> auth_db \<Rightarrow> app_error + (tenant_row \<times> auth_db)" where
  "create_tenant now slug name d =
     (if get_by_slug slug d \<noteq> None \<or> 64 < length slug \<or> 255 < length name then Inl IntegrityError
      else let (i, d1) = fresh_id d;
               t = \<lparr>tn_id = i, tn_slug = slug, tn_rate_limit_per_minute = 120, tn_quota_jobs_per_month = 100000,
                    tn_name = name, tn_is_active = True, tn_created_at = now\<rparr>
           in Inr (t, d1\<lparr>au_tenants := au_tenants d1 @ [t]\<rparr>))"

definition create_user ::
    "time \<Rightarrow> string \<Rightarrow> string \<Rightarrow> user_role \<Rightarrow> uuid \<Rightarrow> auth_db \<Rightarrow> app_error + (user \<times> auth_db)" where
  "create_user now email hashed role tenant_id d =
     (if get_by_email email d \<noteq> None \<or> 255 < length email \<or> 255 < length hashed \<or> tenant_id \<notin> tn_id ` set (au_tenants d)
      then Inl IntegrityError
      else let (i, d1) = fresh_id d;
               u = \<lparr>us_id = i, us_tenant_id = tenant_id, us_email = email, us_hashed_password = hashed, us_role = role,
                    us_is_active = True, us_is_platform_admin = False, us_created_at = now\<rparr>
           in Inr (u, d1\<lparr>au_users := au_users d1 @ [u]\<rparr>))"

section \<open>Scope of a transaction (\<open>core/tenant_scope.py\<close>)\<close>

definition declare_tenant_scope :: "uuid \<Rightarrow> auth_db \<Rightarrow> auth_db" where
  "declare_tenant_scope tenant_id d = d\<lparr>au_tx := (au_tx d)\<lparr>app_tenant_id := Some tenant_id\<rparr>\<rparr>"

text \<open>An audit row that the policy's \<open>WITH CHECK\<close> does not admit is refused.\<close>

definition rls_refused :: app_error where
  "rls_refused = RuntimeError ''new row violates row-level security policy for table audit_logs''"

definition auth_audit ::
    "string \<Rightarrow> uuid \<Rightarrow> uuid \<Rightarrow> string \<Rightarrow> uuid \<Rightarrow> string option \<Rightarrow> dict option \<Rightarrow> auth_db \<Rightarrow> app_error + auth_db" where
  "auth_audit action tenant_id user_id resource_type resource_id request_id extra_data d =
     (if \<not> rls_match (au_tx d) tenant_id then Inl rls_refused
      else Inr (d\<lparr>au_sa := (au_sa d)\<lparr>sa_core := audit_log_write action tenant_id
             (no_args\<lparr>aa_user_id := Some user_id, aa_resource_type := Some resource_type,
                aa_resource_id := Some (uuid_str resource_id), aa_request_id := request_id, aa_extra_data := extra_data\<rparr>)
             (au_core d)\<rparr>\<rparr>))"

section \<open>Passwords and tokens (\<open>core/security.py\<close>)\<close>

record crypto =
  hashpw :: "nat \<Rightarrow> string \<Rightarrow> string option"
  checkpw :: "string \<Rightarrow> string \<Rightarrow> bool option"
  jwt_encode :: "dict \<Rightarrow> string"
  jwt_decode :: "time \<Rightarrow> string \<Rightarrow> dict option"
  py_str :: "json \<Rightarrow> string"

definition verify_password :: "crypto \<Rightarrow> string \<Rightarrow> string \<Rightarrow> bool" where
  "verify_password cr pw hashed = (case checkpw cr pw hashed of None \<Rightarrow> False | Some b \<Rightarrow> b)"

definition token_payload :: "time \<Rightarrow> nat \<Rightarrow> dict \<Rightarrow> time \<Rightarrow> string \<Rightarrow> dict" where
  "token_payload now jti claims expires_delta token_type =
     kv_set ''jti'' (JStr (uuid_str jti)) (kv_set ''type'' (JStr token_type)
       (kv_set ''iat'' (JInt \<lfloor>now\<rfloor>) (kv_set ''exp'' (JInt \<lfloor>now + expires_delta\<rfloor>) claims)))"

definition make_token :: "crypto \<Rightarrow> time \<Rightarrow> nat \<Rightarrow> dict \<Rightarrow> time \<Rightarrow> string \<Rightarrow> string" where
  "make_token cr now jti claims expires_delta token_type = jwt_encode cr (token_payload now jti claims expires_delta token_type)"

record token_ttls =
  access_token_expire_minutes :: int
  refresh_token_expire_days :: int

definition create_access_token :: "crypto \<Rightarrow> token_ttls \<Rightarrow> time \<Rightarrow> nat \<Rightarrow> dict \<Rightarrow> string" where
  "create_access_token cr cfg now jti claims = make_token cr now jti claims (of_int (access_token_expire_minutes cfg * 60)) ''access''"

definition create_refresh_token :: "crypto \<Rightarrow> token_ttls \<Rightarrow> time \<Rightarrow> nat \<Rightarrow> dict \<Rightarrow> string" where
  "create_refresh_token cr cfg now jti claims = make_token cr now jti claims (of_int (refresh_token_expire_days cfg * 86400)) ''refresh''"

definition stream_token_ttl_seconds :: time where
  "stream_token_ttl_seconds = 60"

definition create_stream_token :: "crypto \<Rightarrow> time \<Rightarrow> nat \<Rightarrow> uuid \<Rightarrow> uuid \<Rightarrow> string" where
  "create_stream_token cr now jti job_id tenant_id =
     make_token cr now jti [(''sub'', juuid job_id), (''tenant_id'', juuid tenant_id)] stream_token_ttl_seconds ''stream''"

definition claim_text :: "crypto \<Rightarrow> json \<Rightarrow> string" where
  "claim_text cr v = (case v of JStr s \<Rightarrow> s | JNull \<Rightarrow> ''None'' | _ \<Rightarrow> py_str cr v)"

definition decode_token :: "crypto \<Rightarrow> time \<Rightarrow> string \<Rightarrow> string \<Rightarrow> app_error + dict" where
  "decode_token cr now token expected_type =
     (case jwt_decode cr now token of
        None \<Rightarrow> Inl (AuthenticationError ''Invalid or expired token'')
      | Some payload \<Rightarrow>
          if jget payload ''type'' \<noteq> JStr expected_type
          then Inl (AuthenticationError (''Expected '' @ expected_type @ '' token, got '' @ claim_text cr (jget payload ''type'')))
          else Inr payload)"

section \<open>The auth service (\<open>services/auth.py\<close>)\<close>

record sign_up =
  su_email :: string
  su_password :: string
  su_tenant_slug :: string
  su_new_tenant_name :: "string option"

text \<open>The tenant a registration lands in, and the role it earns there.\<close>

definition register_tenant :: "time \<Rightarrow> sign_up \<Rightarrow> auth_db \<Rightarrow> app_error + (tenant_row \<times> user_role \<times> auth_db)" where
  "register_tenant now b d =
     (let missing = Inl (NotFoundError (''Tenant '' @ su_tenant_slug b @ '' not found or inactive''))
      in case get_by_slug (su_tenant_slug b) d of
           None \<Rightarrow>
             (case su_new_tenant_name b of
                None \<Rightarrow> missing
              | Some name \<Rightarrow>
                  if name = [] then missing
                  else (case create_tenant now (su_tenant_slug b) name d of
                          Inl e \<Rightarrow> Inl e
                        | Inr (t, d1) \<Rightarrow> if tn_is_active t then Inr (t, ADMIN, d1) else missing))
         | Some t \<Rightarrow>
             if su_tenant_slug b \<noteq> default_tenant_slug
             then Inl (AuthorizationError (''Registration into tenant '' @ py_repr (su_tenant_slug b) @
                    '' requires an invitation from one of its administrators''))
             else if tn_is_active t then Inr (t, USER, d) else missing)"

definition register_user ::
    "crypto \<Rightarrow> time \<Rightarrow> nat \<Rightarrow> string option \<Rightarrow> sign_up \<Rightarrow> auth_db \<Rightarrow> app_error + (user \<times> auth_db)" where
  "register_user cr now salt req b d =
     (if get_by_email (su_email b) d \<noteq> None then Inl (ConflictError (''Email already registered: '' @ su_email b))
      else case register_tenant now b d of
        Inl e \<Rightarrow> Inl e
      | Inr (t, role, d1) \<Rightarrow>
          (case hashpw cr salt (su_password b) of
             None \<Rightarrow> Inl ValueError
           | Some hashed \<Rightarrow>
               (case create_user now (su_email b) hashed role (tn_id t) d1 of
                  Inl e \<Rightarrow> Inl e
                | Inr (u, d2) \<Rightarrow>
                    map_sum id (\<lambda>d3. (u, d3)) (auth_audit ''user.registered'' (tn_id t) (us_id u) ''user'' (us_id u) req None
                      (declare_tenant_scope (tn_id t) d2)))))"

definition add_tenant_member ::
    "crypto \<Rightarrow> time \<Rightarrow> nat \<Rightarrow> string option \<Rightarrow> user \<Rightarrow> string \<Rightarrow> string \<Rightarrow> auth_db \<Rightarrow> app_error + (user \<times> auth_db)" where
  "add_tenant_member cr now salt req admin email password d =
     (if get_by_email email d \<noteq> None then Inl (ConflictError (''Email already registered: '' @ email))
      else case hashpw cr salt password of
        None \<Rightarrow> Inl ValueError
      | Some hashed \<Rightarrow>
          (case create_user now email hashed USER (us_tenant_id admin) d of
             Inl e \<Rightarrow> Inl e
           | Inr (u, d1) \<Rightarrow>
               map_sum id (\<lambda>d2. (u, d2)) (auth_audit ''user.enrolled'' (us_tenant_id admin) (us_id admin) ''user'' (us_id u) req
                 (Some [(''email'', JStr email), (''role'', JStr ''user'')]) d1)))"

definition session_claims :: "user \<Rightarrow> dict" where
  "session_claims u = [(''sub'', juuid (us_id u)), (''tenant_id'', juuid (us_tenant_id u)), (''role'', JStr (role_value (us_role u))),
     (''email'', JStr (us_email u))]"

definition token_pair :: "crypto \<Rightarrow> token_ttls \<Rightarrow> time \<Rightarrow> nat \<times> nat \<Rightarrow> user \<Rightarrow> string \<times> string" where
  "token_pair cr cfg now jtis u =
     (create_access_token cr cfg now (fst jtis) (session_claims u), create_refresh_token cr cfg now (snd jtis) (session_claims u))"

definition login ::
    "crypto \<Rightarrow> token_ttls \<Rightarrow> time \<Rightarrow> nat \<times> nat \<Rightarrow> string option \<Rightarrow> string \<Rightarrow> string \<Rightarrow> auth_db
      \<Rightarrow> app_error + ((string \<times> string) \<times> auth_db)" where
  "login cr cfg now jtis req email password d =
     (case get_by_email email d of
        None \<Rightarrow> Inl (AuthenticationError ''Invalid email or password'')
      | Some u \<Rightarrow>
          if \<not> verify_password cr password (us_hashed_password u) then Inl (AuthenticationError ''Invalid email or password'')
          else if \<not> us_is_active u then Inl (AuthenticationError ''Account is disabled'')
          else map_sum id (\<lambda>d1. (token_pair cr cfg now jtis u, d1))
                 (auth_audit ''user.login'' (us_tenant_id u) (us_id u) ''user'' (us_id u) req None
                   (declare_tenant_scope (us_tenant_id u) d)))"

text \<open>\<open>uuid.UUID(payload['sub'])\<close>; a subject that is no text never passes the library's own check of claims.\<close>

definition subject :: "dict \<Rightarrow> app_error + uuid" where
  "subject payload =
     (case map_of payload ''sub'' of
        None \<Rightarrow> Inl (RuntimeError ''KeyError: sub'')
      | Some (JStr s) \<Rightarrow> (case uuid_parse s of None \<Rightarrow> Inl ValueError | Some i \<Rightarrow> Inr i)
      | Some JNull \<Rightarrow> Inl TypeError
      | Some _ \<Rightarrow> Inl AttributeError)"

definition refresh ::
    "crypto \<Rightarrow> token_ttls \<Rightarrow> time \<Rightarrow> nat \<times> nat \<Rightarrow> string \<Rightarrow> auth_db \<Rightarrow> app_error + (string \<times> string)" where
  "refresh cr cfg now jtis refresh_token d =
     (case decode_token cr now refresh_token ''refresh'' of
        Inl e \<Rightarrow> Inl e
      | Inr payload \<Rightarrow>
          (case subject payload of
             Inl e \<Rightarrow> Inl e
           | Inr i \<Rightarrow>
               (case get_by us_id i (au_users d) of
                  None \<Rightarrow> Inl (AuthenticationError ''User not found or disabled'')
                | Some u \<Rightarrow> if us_is_active u then Inr (token_pair cr cfg now jtis u)
                            else Inl (AuthenticationError ''User not found or disabled''))))"

section \<open>Dependencies of a request (\<open>dependencies.py\<close>)\<close>

definition get_current_user :: "crypto \<Rightarrow> time \<Rightarrow> string \<Rightarrow> auth_db \<Rightarrow> app_error + (user \<times> auth_db)" where
  "get_current_user cr now token d =
     (case decode_token cr now token ''access'' of
        Inl e \<Rightarrow> Inl e
      | Inr payload \<Rightarrow>
          (case subject payload of
             Inl TypeError \<Rightarrow> Inl TypeError
           | Inl AttributeError \<Rightarrow> Inl AttributeError
           | Inl _ \<Rightarrow> Inl (AuthenticationError ''Malformed token payload'')
           | Inr i \<Rightarrow>
               (case get_by us_id i (au_users d) of
                  None \<Rightarrow> Inl (AuthenticationError ''User not found'')
                | Some u \<Rightarrow>
                    if \<not> us_is_active u then Inl (AuthenticationError ''Account is disabled'')
                    else if jget payload ''tenant_id'' \<noteq> JNull \<and> jget payload ''tenant_id'' \<noteq> juuid (us_tenant_id u)
                    then Inl (AuthenticationError ''Token tenant_id does not match user'')
                    else Inr (u, declare_tenant_scope (us_tenant_id u) d))))"

definition require_role :: "user_role list \<Rightarrow> user \<Rightarrow> app_error option" where
  "require_role roles u =
     (if us_role u \<in> set roles then None
      else Some (AuthorizationError (''Required role: '' @ py_repr_list (map role_value roles) @ '', got: '' @ role_value (us_role u))))"

definition require_platform_admin :: "user \<Rightarrow> app_error option" where
  "require_platform_admin u =
     (if us_is_platform_admin u then None else Some (AuthorizationError ''Platform admin role required''))"

definition get_current_principal ::
    "(string \<Rightarrow> string) \<Rightarrow> crypto \<Rightarrow> time \<Rightarrow> string \<Rightarrow> auth_db \<Rightarrow> app_error + (principal \<times> auth_db)" where
  "get_current_principal sha256 cr now token d =
     (if looks_like_service_account_token token
      then (case verify_token sha256 now token (au_sa d) of
              Inl e \<Rightarrow> Inl e
            | Inr (a, tk, sa1) \<Rightarrow>
                Inr (\<lparr>pr_kind = ''service_account'', pr_id = sa_id a, pr_tenant_id = sa_tenant_id a, pr_scopes = tk_scopes tk\<rparr>,
                  declare_tenant_scope (sa_tenant_id a) (d\<lparr>au_sa := sa1\<rparr>)))
      else (case get_current_user cr now token d of
              Inl e \<Rightarrow> Inl e
            | Inr (u, d1) \<Rightarrow> Inr (\<lparr>pr_kind = ''user'', pr_id = us_id u, pr_tenant_id = us_tenant_id u, pr_scopes = []\<rparr>, d1)))"

definition require_scope :: "scope list \<Rightarrow> principal \<Rightarrow> app_error option" where
  "require_scope required p =
     (if pr_kind p \<noteq> ''service_account'' then Some (AuthorizationError ''This endpoint requires a service-account token'')
      else let missing = sorted_list_of_set (set (map scope_value required) - set (pr_scopes p))
           in if missing = [] then None else Some (AuthorizationError (''Missing required scope(s): '' @ py_repr_list missing)))"

definition resolve_admin_tenant :: "user \<Rightarrow> uuid option \<Rightarrow> auth_db \<Rightarrow> uuid \<times> auth_db" where
  "resolve_admin_tenant u requested d =
     (case requested of
        None \<Rightarrow> (us_tenant_id u, d)
      | Some t \<Rightarrow>
          if \<not> us_is_platform_admin u then (us_tenant_id u, d)
          else (t, if t \<noteq> us_tenant_id u then declare_tenant_scope t d else d))"

definition get_effective_tenant :: "crypto \<Rightarrow> time \<Rightarrow> string \<Rightarrow> uuid option \<Rightarrow> auth_db \<Rightarrow> app_error + (uuid \<times> auth_db)" where
  "get_effective_tenant cr now token requested d =
     (case get_current_user cr now token d of
        Inl e \<Rightarrow> Inl e | Inr (u, d1) \<Rightarrow> Inr (resolve_admin_tenant u requested d1))"

section \<open>The requests of \<open>api/auth.py\<close>\<close>

text \<open>
  One transaction per request: a handler that raises leaves the tables as they were. The rate counters are
  in Redis and survive it. Bodies are the ones the models of \<open>schemas/user.py\<close> accept.
\<close>

definition get_db :: "(auth_db \<Rightarrow> app_error + ('a \<times> auth_db)) \<Rightarrow> auth_db \<Rightarrow> (app_error + 'a) \<times> auth_db" where
  "get_db handler d =
     (case handler (d\<lparr>au_tx := new_tx\<rparr>) of
        Inl e \<Rightarrow> (Inl e, d) | Inr (x, d') \<Rightarrow> (Inr x, d'\<lparr>au_tx := new_tx\<rparr>))"

record request =
  rq_now :: time
  rq_id :: "string option"
  rq_forwarded_for :: "string option"
  rq_peer :: "string option"
  rq_redis :: counter_health

record auth_world =
  aw_db :: auth_db
  aw_counters :: counters

definition auth_rate_limit :: "request \<Rightarrow> string \<Rightarrow> counters \<Rightarrow> app_error option \<times> counters" where
  "auth_rate_limit rq key_prefix c = check_client_rate_limit (rq_redis rq) (rq_now rq) (rq_forwarded_for rq) (rq_peer rq) 10 60 key_prefix c"

text \<open>A handler behind the limiter: the request is counted, then let in or refused.\<close>

definition limited :: "request \<Rightarrow> string \<Rightarrow> (auth_db \<Rightarrow> app_error + ('a \<times> auth_db)) \<Rightarrow> auth_world \<Rightarrow> (app_error + 'a) \<times> auth_world" where
  "limited rq key_prefix handler w =
     (case auth_rate_limit rq key_prefix (aw_counters w) of
        (Some e, c) \<Rightarrow> (Inl e, w\<lparr>aw_counters := c\<rparr>)
      | (None, c) \<Rightarrow> (case get_db handler (aw_db w) of (r, d) \<Rightarrow> (r, \<lparr>aw_db = d, aw_counters = c\<rparr>)))"

definition valid_sign_up :: "sign_up \<Rightarrow> bool" where
  "valid_sign_up b \<longleftrightarrow> 8 \<le> length (su_password b) \<and> 1 \<le> length (su_tenant_slug b) \<and> length (su_tenant_slug b) \<le> 64
     \<and> (case su_new_tenant_name b of None \<Rightarrow> True | Some n \<Rightarrow> 1 \<le> length n \<and> length n \<le> 128)"

definition api_register :: "crypto \<Rightarrow> request \<Rightarrow> nat \<Rightarrow> sign_up \<Rightarrow> auth_world \<Rightarrow> (app_error + user) \<times> auth_world" where
  "api_register cr rq salt b = limited rq ''register'' (register_user cr (rq_now rq) salt (rq_id rq) b)"

text \<open>The caller and the role come before the limiter, so a refused caller is not counted.\<close>

definition api_add_tenant_member ::
    "crypto \<Rightarrow> request \<Rightarrow> string \<Rightarrow> nat \<Rightarrow> string \<Rightarrow> string \<Rightarrow> auth_world \<Rightarrow> (app_error + user) \<times> auth_world" where
  "api_add_tenant_member cr rq token salt email password w =
     (case get_current_user cr (rq_now rq) token ((aw_db w)\<lparr>au_tx := new_tx\<rparr>) of
        Inl e \<Rightarrow> (Inl e, w)
      | Inr (u, d) \<Rightarrow>
          (case require_role [ADMIN] u of
             Some e \<Rightarrow> (Inl e, w)
           | None \<Rightarrow> limited rq ''enrol'' (\<lambda>d. add_tenant_member cr (rq_now rq) salt (rq_id rq) u email password
                        (declare_tenant_scope (us_tenant_id u) d)) w))"

definition api_login ::
    "crypto \<Rightarrow> token_ttls \<Rightarrow> request \<Rightarrow> nat \<times> nat \<Rightarrow> string \<Rightarrow> string \<Rightarrow> auth_world \<Rightarrow> (app_error + string \<times> string) \<times> auth_world" where
  "api_login cr cfg rq jtis email password = limited rq ''login'' (login cr cfg (rq_now rq) jtis (rq_id rq) email password)"

definition api_refresh ::
    "crypto \<Rightarrow> token_ttls \<Rightarrow> request \<Rightarrow> nat \<times> nat \<Rightarrow> string \<Rightarrow> auth_world \<Rightarrow> app_error + string \<times> string" where
  "api_refresh cr cfg rq jtis token w = refresh cr cfg (rq_now rq) jtis token (aw_db w)"

definition api_me :: "crypto \<Rightarrow> request \<Rightarrow> string \<Rightarrow> auth_world \<Rightarrow> app_error + (user \<times> string option)" where
  "api_me cr rq token w =
     map_sum id (\<lambda>(u, d). (u, map_option tn_slug (get_by tn_id (us_tenant_id u) (au_tenants d))))
       (get_current_user cr (rq_now rq) token (aw_db w))"

section \<open>The tenant endpoints of \<open>api/admin.py\<close>\<close>

definition py_alnum :: "char \<Rightarrow> bool" where
  "py_alnum c \<longleftrightarrow> (let n = of_char c :: nat in 48 \<le> n \<and> n \<le> 57 \<or> 65 \<le> n \<and> n \<le> 90 \<or> 97 \<le> n \<and> n \<le> 122 \<or> n = 170 \<or> 178 \<le> n \<and> n \<le> 179 \<or> n = 181 \<or> 185 \<le> n \<and> n \<le> 186 \<or> 188 \<le> n \<and> n \<le> 190 \<or> 192 \<le> n \<and> n \<le> 214 \<or> 216 \<le> n \<and> n \<le> 246 \<or> 248 \<le> n \<and> n \<le> 255)"

definition as_platform_admin ::
    "crypto \<Rightarrow> request \<Rightarrow> string \<Rightarrow> (user \<Rightarrow> auth_db \<Rightarrow> app_error + ('a \<times> auth_db)) \<Rightarrow> auth_db \<Rightarrow> app_error + ('a \<times> auth_db)" where
  "as_platform_admin cr rq token handler d =
     (case get_current_user cr (rq_now rq) token d of
        Inl e \<Rightarrow> Inl e
      | Inr (u, d1) \<Rightarrow> (case require_platform_admin u of Some e \<Rightarrow> Inl e | None \<Rightarrow> handler u d1))"

record tenant_view =
  tv_tenant :: tenant_row
  tv_users :: nat
  tv_jobs :: nat

definition tenant_view_of :: "auth_db \<Rightarrow> tenant_row \<Rightarrow> tenant_view" where
  "tenant_view_of d t = (let (n, m) = counts_for (tn_id t) d in \<lparr>tv_tenant = t, tv_users = n, tv_jobs = m\<rparr>)"

definition admin_list_tenants ::
    "crypto \<Rightarrow> request \<Rightarrow> string \<Rightarrow> nat \<Rightarrow> nat \<Rightarrow> auth_db \<Rightarrow> (app_error + tenant_view list \<times> nat) \<times> auth_db" where
  "admin_list_tenants cr rq token page page_size =
     get_db (as_platform_admin cr rq token (\<lambda>_ d.
       (case list_tenants ((page - 1) * page_size) page_size d of
          (ts, total_count) \<Rightarrow> Inr ((map (tenant_view_of d) ts, total_count), d))))"

text \<open>\<open>(body.get(key) or '').strip()\<close>: a value that is truthy and no text has no \<open>strip\<close>.\<close>

definition body_text :: "dict \<Rightarrow> string \<Rightarrow> app_error + string" where
  "body_text body key =
     (let v = jget body key
      in if \<not> truthy v then Inr []
         else case v of JStr s \<Rightarrow> Inr (strip py_space s) | _ \<Rightarrow> Inl AttributeError)"

definition slug_ok :: "string \<Rightarrow> bool" where
  "slug_ok slug \<longleftrightarrow> (let s = filter (\<lambda>c. c \<noteq> CHR ''-'' \<and> c \<noteq> CHR ''_'') slug in s \<noteq> [] \<and> list_all py_alnum s)"

definition create_tenant_as :: "time \<Rightarrow> string option \<Rightarrow> dict \<Rightarrow> user \<Rightarrow> auth_db \<Rightarrow> app_error + (tenant_row \<times> auth_db)" where
  "create_tenant_as now req body u d =
     (case body_text body ''slug'' of
        Inl e \<Rightarrow> Inl e
      | Inr slug \<Rightarrow>
          (case body_text body ''name'' of
             Inl e \<Rightarrow> Inl e
           | Inr name \<Rightarrow>
               if slug = [] \<or> name = [] then Inl (RequestValidationError ''slug and name are required'')
               else if \<not> slug_ok slug
               then Inl (RequestValidationError (''slug may only contain alphanumerics, '' @ py_repr ''-'' @ '', '' @ py_repr ''_''))
               else if get_by_slug slug d \<noteq> None then Inl (ConflictError (''Tenant slug already exists: '' @ slug))
               else (case create_tenant now slug name d of
                       Inl e \<Rightarrow> Inl e
                     | Inr (t, d1) \<Rightarrow>
                         map_sum id (\<lambda>d2. (t, declare_tenant_scope (us_tenant_id u) d2))
                           (auth_audit ''tenant.created'' (tn_id t) (us_id u) ''tenant'' (tn_id t) req
                             (Some [(''slug'', JStr slug), (''name'', JStr name)]) (declare_tenant_scope (tn_id t) d1)))))"

definition admin_create_tenant ::
    "crypto \<Rightarrow> request \<Rightarrow> string \<Rightarrow> dict \<Rightarrow> auth_db \<Rightarrow> (app_error + tenant_row) \<times> auth_db" where
  "admin_create_tenant cr rq token body =
     get_db (as_platform_admin cr rq token (create_tenant_as (rq_now rq) (rq_id rq) body))"

definition admin_get_tenant :: "crypto \<Rightarrow> request \<Rightarrow> string \<Rightarrow> uuid \<Rightarrow> auth_db \<Rightarrow> (app_error + tenant_view) \<times> auth_db" where
  "admin_get_tenant cr rq token tenant_id =
     get_db (as_platform_admin cr rq token (\<lambda>_ d.
       (case get_by tn_id tenant_id (au_tenants d) of
          None \<Rightarrow> Inl (NotFoundError (''Tenant '' @ uuid_str tenant_id @ '' not found''))
        | Some t \<Rightarrow> Inr (tenant_view_of d t, d))))"

text \<open>\<open>TenantLimitsUpdate\<close>: an omitted field is \<open>None\<close>; a null is refused by the model.\<close>

definition int32_max :: int where
  "int32_max = 2 ^ 31 - 1"

record limits_update =
  lu_rate_limit_per_minute :: "int option"
  lu_quota_jobs_per_month :: "int option"

definition valid_limits :: "limits_update \<Rightarrow> bool" where
  "valid_limits b \<longleftrightarrow> (\<forall>v \<in> set_option (lu_rate_limit_per_minute b) \<union> set_option (lu_quota_jobs_per_month b). 0 \<le> v \<and> v \<le> int32_max)"

definition with_limits :: "limits_update \<Rightarrow> tenant_row \<Rightarrow> tenant_row" where
  "with_limits b t =
     t\<lparr>tn_rate_limit_per_minute := (case lu_rate_limit_per_minute b of None \<Rightarrow> tn_rate_limit_per_minute t | Some v \<Rightarrow> v),
       tn_quota_jobs_per_month := (case lu_quota_jobs_per_month b of None \<Rightarrow> tn_quota_jobs_per_month t | Some v \<Rightarrow> v)\<rparr>"

definition limits_json :: "tenant_row \<Rightarrow> json" where
  "limits_json t = JObj [(''rate_limit_per_minute'', JInt (tn_rate_limit_per_minute t)), (''quota_jobs_per_month'', JInt (tn_quota_jobs_per_month t))]"

definition update_limits_as :: "string option \<Rightarrow> uuid \<Rightarrow> limits_update \<Rightarrow> user \<Rightarrow> auth_db \<Rightarrow> app_error + (tenant_row \<times> auth_db)" where
  "update_limits_as req tenant_id b u d =
     (case get_by tn_id tenant_id (au_tenants d) of
        None \<Rightarrow> Inl (NotFoundError (''Tenant '' @ uuid_str tenant_id @ '' not found''))
      | Some t \<Rightarrow>
          (let t' = with_limits b t
           in if t' = t then Inr (t, d)
              else map_sum id (\<lambda>d1. (t', declare_tenant_scope (us_tenant_id u) d1))
                (auth_audit ''tenant.limits_updated'' tenant_id (us_id u) ''tenant'' tenant_id req
                  (Some [(''before'', limits_json t), (''after'', limits_json t')])
                  (declare_tenant_scope tenant_id (d\<lparr>au_tenants := update_where (\<lambda>x. tn_id x = tenant_id) (with_limits b) (au_tenants d)\<rparr>)))))"

definition admin_update_tenant_limits ::
    "crypto \<Rightarrow> request \<Rightarrow> string \<Rightarrow> uuid \<Rightarrow> limits_update \<Rightarrow> auth_db \<Rightarrow> (app_error + tenant_row) \<times> auth_db" where
  "admin_update_tenant_limits cr rq token tenant_id b =
     get_db (as_platform_admin cr rq token (update_limits_as (rq_id rq) tenant_id b))"

section \<open>What a session is worth\<close>

text \<open>
  What the code relies on of its libraries: a token it signed reads back as its claims until the second of
  its expiry has passed and is refused afterwards, and a password checks against its own hash.
\<close>

definition alive :: "time \<Rightarrow> time \<Rightarrow> time \<Rightarrow> bool" where
  "alive t issued ttl \<longleftrightarrow> \<lfloor>t\<rfloor> \<le> \<lfloor>issued + ttl\<rfloor>"

definition text_claims :: "dict \<Rightarrow> bool" where
  "text_claims claims \<longleftrightarrow> list_all (\<lambda>(_, v). case v of JStr _ \<Rightarrow> True | _ \<Rightarrow> False) claims"

definition crypto_ok :: "crypto \<Rightarrow> bool" where
  "crypto_ok cr \<longleftrightarrow>
     (\<forall>t now jti claims ttl ty. text_claims claims \<longrightarrow>
        jwt_decode cr t (jwt_encode cr (token_payload now jti claims ttl ty)) =
          (if alive t now ttl then Some (token_payload now jti claims ttl ty) else None))
     \<and> (\<forall>salt pw h. hashpw cr salt pw = Some h \<longrightarrow> checkpw cr pw h = Some True)"

lemma map_of_kv_set: "map_of (kv_set k v kvs) = (map_of kvs)(k \<mapsto> v)"
  by (induction kvs) (auto simp: fun_eq_iff)

lemma token_payload_get [simp]:
  "map_of (token_payload now jti claims ttl ty) ''sub'' = map_of claims ''sub''"
  "jget (token_payload now jti claims ttl ty) ''tenant_id'' = jget claims ''tenant_id''"
  "jget (token_payload now jti claims ttl ty) ''type'' = JStr ty"
  by (simp_all add: token_payload_def jget_def map_of_kv_set)

lemma decode_made:
  assumes "crypto_ok cr" "text_claims claims"
  shows "decode_token cr t (make_token cr now jti claims ttl ty) expected =
    (if \<not> alive t now ttl then Inl (AuthenticationError ''Invalid or expired token'')
     else if ty \<noteq> expected then Inl (AuthenticationError (''Expected '' @ expected @ '' token, got '' @ ty))
     else Inr (token_payload now jti claims ttl ty))"
  using assms by (auto simp: crypto_ok_def decode_token_def make_token_def claim_text_def)

lemma session_claims_text [simp]: "text_claims (session_claims u)"
  by (simp add: text_claims_def session_claims_def juuid_def)

lemma session_claims_get [simp]:
  "map_of (session_claims u) ''sub'' = Some (JStr (uuid_str (us_id u)))"
  "jget (session_claims u) ''tenant_id'' = juuid (us_tenant_id u)"
  by (simp_all add: session_claims_def jget_def juuid_def)

lemma subject_session:
  "us_id u < 2 ^ 128 \<Longrightarrow> subject (token_payload now jti (session_claims u) ttl ty) = Inr (us_id u)"
  using uuid_parse_str_bounded [of "us_id u"] by (simp add: subject_def)

definition ids_bounded :: "auth_db \<Rightarrow> bool" where
  "ids_bounded d \<longleftrightarrow> list_all (\<lambda>u. us_id u < 2 ^ 128 \<and> us_tenant_id u < 2 ^ 128) (au_users d)"

lemma get_by_mem: "get_by f k xs = Some x \<Longrightarrow> x \<in> set xs \<and> f x = k"
  by (auto simp: get_by_def find_Some_iff)

text \<open>How long the two tokens of a pair work.\<close>

definition access_ttl :: "token_ttls \<Rightarrow> time" where
  "access_ttl cfg = of_int (access_token_expire_minutes cfg * 60)"

definition refresh_ttl :: "token_ttls \<Rightarrow> time" where
  "refresh_ttl cfg = of_int (refresh_token_expire_days cfg * 86400)"

lemma inr_if: "(if \<not> a then Inl e1 else if \<not> b then Inl e2 else if c then Inl e3 else Inr (y, z)) = Inr (x, d') \<longleftrightarrow>
    a \<and> b \<and> \<not> c \<and> y = x \<and> z = d'"
  by simp

lemma access_token_works:
  assumes "crypto_ok cr" "us_id u < 2 ^ 128" "us_tenant_id u < 2 ^ 128" "ids_bounded d"
  shows "get_current_user cr now (fst (token_pair cr cfg t0 jtis u)) d = Inr (x, d') \<longleftrightarrow>
     alive now t0 (access_ttl cfg) \<and> get_by us_id (us_id u) (au_users d) = Some x \<and> us_is_active x
     \<and> us_tenant_id x = us_tenant_id u \<and> d' = declare_tenant_scope (us_tenant_id x) d"
proof -
  have eq: "juuid (us_tenant_id u) = juuid (us_tenant_id x) \<longleftrightarrow> us_tenant_id u = us_tenant_id x"
    if "get_by us_id (us_id u) (au_users d) = Some x" for x
    using get_by_mem [OF that] assms(3,4) uuid_str_inject by (auto simp: ids_bounded_def list_all_iff juuid_def)
  have dec: "decode_token cr now (fst (token_pair cr cfg t0 jtis u)) ''access'' =
      (if \<not> alive now t0 (access_ttl cfg) then Inl (AuthenticationError ''Invalid or expired token'')
       else Inr (token_payload t0 (fst jtis) (session_claims u) (access_ttl cfg) ''access''))"
    using decode_made [OF assms(1) session_claims_text] by (simp add: token_pair_def create_access_token_def access_ttl_def)
  have nn: "juuid i \<noteq> JNull" for i by (simp add: juuid_def)
  show ?thesis
  proof (cases "get_by us_id (us_id u) (au_users d)")
    case None
    then show ?thesis unfolding get_current_user_def dec by (simp add: subject_session [OF assms(2)])
  next
    case (Some y)
    have nf: "get_current_user cr now (fst (token_pair cr cfg t0 jtis u)) d =
        (if \<not> alive now t0 (access_ttl cfg) then Inl (AuthenticationError ''Invalid or expired token'')
         else if \<not> us_is_active y then Inl (AuthenticationError ''Account is disabled'')
         else if us_tenant_id u \<noteq> us_tenant_id y then Inl (AuthenticationError ''Token tenant_id does not match user'')
         else Inr (y, declare_tenant_scope (us_tenant_id y) d))"
      unfolding get_current_user_def dec by (simp add: subject_session [OF assms(2)] Some nn eq [OF Some])
    show ?thesis unfolding nf inr_if Some option.inject by metis
  qed
qed

lemma refresh_token_works:
  assumes "crypto_ok cr" "us_id u < 2 ^ 128"
  shows "refresh cr cfg now jtis' (snd (token_pair cr cfg t0 jtis u)) d = Inr p \<longleftrightarrow>
     alive now t0 (refresh_ttl cfg) \<and>
     (\<exists>x. get_by us_id (us_id u) (au_users d) = Some x \<and> us_is_active x \<and> p = token_pair cr cfg now jtis' x)"
proof -
  have dec: "decode_token cr now (snd (token_pair cr cfg t0 jtis u)) ''refresh'' =
      (if \<not> alive now t0 (refresh_ttl cfg) then Inl (AuthenticationError ''Invalid or expired token'')
       else Inr (token_payload t0 (snd jtis) (session_claims u) (refresh_ttl cfg) ''refresh''))"
    using decode_made [OF assms(1) session_claims_text] by (simp add: token_pair_def create_refresh_token_def refresh_ttl_def)
  show ?thesis
    by (cases "get_by us_id (us_id u) (au_users d)") (auto simp: refresh_def dec subject_session [OF assms(2)])
qed

lemma wrong_type_refused:
  assumes "crypto_ok cr" "text_claims claims"
  shows "ty \<noteq> ''access'' \<Longrightarrow> \<exists>m. get_current_user cr now (make_token cr t0 jti claims ttl ty) d = Inl (AuthenticationError m)"
    and "ty \<noteq> ''refresh'' \<Longrightarrow> \<exists>m. refresh cr cfg now jtis (make_token cr t0 jti claims ttl ty) d = Inl (AuthenticationError m)"
  using decode_made [OF assms] by (simp_all add: get_current_user_def refresh_def)

text \<open>
  Property C25. A session is worth what the account is worth now. A pair of tokens issued to a user
  authenticates with its access token until the second it expires, and then only as the row the database
  holds at that moment, which must still be active and in the tenant the token was issued for. Its
  refresh token, until it expires, buys a new pair exactly when that row is active, and the pair is for
  the tenant the row is in by then, whether or not it is the one the token was issued for. Of access,
  refresh and stream tokens, each is refused by authentication and by the refresh unless it is of the kind
  asked for, and neither token of a pair decodes as a stream token.
\<close>

theorem session_worth:
  assumes "crypto_ok cr" "us_id u < 2 ^ 128" "us_tenant_id u < 2 ^ 128" "ids_bounded d" "token_pair cr cfg t0 jtis u = (access, refr)"
  shows "(get_current_user cr now access d = Inr (x, d') \<longleftrightarrow>
        alive now t0 (access_ttl cfg) \<and> get_by us_id (us_id u) (au_users d) = Some x \<and> us_is_active x
        \<and> us_tenant_id x = us_tenant_id u \<and> d' = declare_tenant_scope (us_tenant_id x) d)
     \<and> (refresh cr cfg now jtis' refr d = Inr p \<longleftrightarrow>
        alive now t0 (refresh_ttl cfg) \<and>
        (\<exists>y. get_by us_id (us_id u) (au_users d) = Some y \<and> us_is_active y \<and> p = token_pair cr cfg now jtis' y))
     \<and> (\<exists>m. get_current_user cr now refr d = Inl (AuthenticationError m))
     \<and> (\<exists>m. refresh cr cfg now jtis' access d = Inl (AuthenticationError m))
     \<and> (\<exists>m. get_current_user cr now (create_stream_token cr t0 jti job_id tenant_id) d = Inl (AuthenticationError m))
     \<and> (\<exists>m. refresh cr cfg now jtis' (create_stream_token cr t0 jti job_id tenant_id) d = Inl (AuthenticationError m))
     \<and> (\<exists>m. decode_token cr now access ''stream'' = Inl (AuthenticationError m))
     \<and> (\<exists>m. decode_token cr now refr ''stream'' = Inl (AuthenticationError m))"
proof -
  have a: "access = fst (token_pair cr cfg t0 jtis u)" "refr = snd (token_pair cr cfg t0 jtis u)" using assms(5) by simp_all
  have st: "text_claims [(''sub'', juuid job_id), (''tenant_id'', juuid tenant_id)]" by (simp add: text_claims_def juuid_def)
  note w = wrong_type_refused [OF assms(1)]
  show ?thesis
    unfolding a
    by (intro conjI access_token_works [OF assms(1-4)] refresh_token_works [OF assms(1,2)])
      (simp_all add: token_pair_def create_access_token_def create_refresh_token_def create_stream_token_def w st
        decode_made [OF assms(1)])
qed

section \<open>Which rows a request can reach\<close>

lemma get_current_user_scope:
  assumes "get_current_user cr now token d = Inr (u, d1)"
  shows "u \<in> set (au_users d) \<and> us_is_active u \<and> d1 = declare_tenant_scope (us_tenant_id u) d"
proof -
  obtain payload i where "decode_token cr now token ''access'' = Inr payload" "subject payload = Inr i"
    using assms by (auto simp: get_current_user_def split: sum.splits app_error.splits)
  with assms show ?thesis by (auto simp: get_current_user_def dest: get_by_mem split: option.splits if_splits)
qed

lemma rls_match_declared [simp]:
  "au_tx d = new_tx \<Longrightarrow> rls_match (au_tx (declare_tenant_scope t d)) i \<longleftrightarrow> i = t"
  "au_tx d = new_tx \<Longrightarrow> rls_match (au_tx (declare_tenant_scope t (declare_tenant_scope t' d))) i \<longleftrightarrow> i = t"
  by (auto simp: rls_match_def declare_tenant_scope_def new_tx_def)

lemma rls_declared:
  assumes "\<forall>i. rls_match s i \<longleftrightarrow> i = t" "app_tenant_id s = Some t" "table \<in> set rls_tables \<union> set null_tenant_tables"
  shows "rls_read table s row \<longleftrightarrow> row = Some t \<or> table = ''deploy_markers'' \<and> row = None"
    "rls_write table s row \<longleftrightarrow> row = Some t \<or> table = ''deploy_markers'' \<and> row = None"
proof -
  have "\<not> app_platform s"
  proof
    assume "app_platform s"
    then have "rls_match s (Suc t)" by (simp add: rls_match_def)
    then show False using assms(1) by simp
  qed
  then show "rls_read table s row \<longleftrightarrow> row = Some t \<or> table = ''deploy_markers'' \<and> row = None"
    "rls_write table s row \<longleftrightarrow> row = Some t \<or> table = ''deploy_markers'' \<and> row = None"
    using assms
    by (auto simp: rls_read_def rls_write_def tenant_isolation_def service_accounts_bootstrap_read_def null_tenant_tables_def
        split: option.splits)
qed

text \<open>
  Property C39. No request reads or writes past its tenant where the tables have a policy. The tenant an
  operator's read runs against is the caller's own, except where a platform admin asked for another; a
  machine's is that of its account. In each case the policies of the tables that carry one admit in that
  transaction, for reading and for writing, exactly the rows of that tenant, and of \<open>deploy_markers\<close> also the
  rows of no tenant (an audit row can be read and inserted, not changed: a second policy refuses that). A request that has not identified its caller can read service accounts, which is how
  machines authenticate, and deploy markers of no tenant, which it can also write, and nothing else there.
  (\<open>users\<close>, \<open>tenants\<close>, \<open>service_account_tokens\<close> and \<open>job_dependencies\<close> carry no policy.)
\<close>

theorem request_confined:
  assumes "au_tx d = new_tx" "table \<in> set rls_tables \<union> set null_tenant_tables"
  shows "(get_effective_tenant cr now token requested d = Inr (t, d') \<longrightarrow>
       (\<exists>u. u \<in> set (au_users d) \<and> us_is_active u
          \<and> (t = us_tenant_id u \<or> us_is_platform_admin u \<and> requested = Some t))
       \<and> (rls_read table (au_tx d') row \<longleftrightarrow> row = Some t \<or> table = ''deploy_markers'' \<and> row = None)
       \<and> (rls_write table (au_tx d') row \<longleftrightarrow> row = Some t \<or> table = ''deploy_markers'' \<and> row = None))
     \<and> (get_current_principal sha256 cr now token d = Inr (p, d') \<longrightarrow>
       (rls_read table (au_tx d') row \<longleftrightarrow> row = Some (pr_tenant_id p) \<or> table = ''deploy_markers'' \<and> row = None)
       \<and> (rls_write table (au_tx d') row \<longleftrightarrow> row = Some (pr_tenant_id p) \<or> table = ''deploy_markers'' \<and> row = None))
     \<and> (require_scope required p = None \<longrightarrow> pr_kind p = ''service_account'' \<and> scope_value ` set required \<subseteq> set (pr_scopes p))
     \<and> (rls_read table (au_tx d) row \<longleftrightarrow> table = ''service_accounts'' \<or> table = ''deploy_markers'' \<and> row = None)
     \<and> (rls_write table (au_tx d) row \<longleftrightarrow> table = ''deploy_markers'' \<and> row = None)"
proof -
  have 1: "(\<exists>u. u \<in> set (au_users d) \<and> us_is_active u \<and> (t = us_tenant_id u \<or> us_is_platform_admin u \<and> requested = Some t))
      \<and> (\<forall>i. rls_match (au_tx d') i \<longleftrightarrow> i = t) \<and> app_tenant_id (au_tx d') = Some t"
    if "get_effective_tenant cr now token requested d = Inr (t, d')"
  proof -
    obtain u d1 where u: "get_current_user cr now token d = Inr (u, d1)" "resolve_admin_tenant u requested d1 = (t, d')"
      using \<open>get_effective_tenant cr now token requested d = Inr (t, d')\<close> by (auto simp: get_effective_tenant_def split: sum.splits)
    note s = get_current_user_scope [OF u(1)]
    have "(t = us_tenant_id u \<or> us_is_platform_admin u \<and> requested = Some t) \<and> (\<forall>i. rls_match (au_tx d') i \<longleftrightarrow> i = t)"
      using u(2) s assms by (auto simp: resolve_admin_tenant_def split: option.splits if_splits)
    moreover have "app_tenant_id (au_tx d') = Some t"
      using u(2) s by (auto simp: resolve_admin_tenant_def declare_tenant_scope_def split: option.splits if_splits)
    ultimately show ?thesis using s by blast
  qed
  have 2: "(\<forall>i. rls_match (au_tx d') i \<longleftrightarrow> i = pr_tenant_id p) \<and> app_tenant_id (au_tx d') = Some (pr_tenant_id p)"
    if p: "get_current_principal sha256 cr now token d = Inr (p, d')"
  proof -
    have "au_tx (d\<lparr>au_sa := x\<rparr>) = new_tx" for x using assms(1) by simp
    then show ?thesis
      using p assms(1) get_current_user_scope
      by (fastforce simp: get_current_principal_def declare_tenant_scope_def rls_match_def new_tx_def split: if_splits sum.splits)
  qed
  have 3: "pr_kind p = ''service_account'' \<and> scope_value ` set required \<subseteq> set (pr_scopes p)" if "require_scope required p = None"
    using that by (auto simp: require_scope_def Let_def split: if_splits)
  have 4: "rls_read table (au_tx d) row \<longleftrightarrow> table = ''service_accounts'' \<or> table = ''deploy_markers'' \<and> row = None"
      "rls_write table (au_tx d) row \<longleftrightarrow> table = ''deploy_markers'' \<and> row = None"
    using assms
    by (auto simp: rls_read_def rls_write_def tenant_isolation_def service_accounts_bootstrap_read_def null_tenant_tables_def
        rls_match_def new_tx_def split: option.splits)
  show ?thesis
    by (intro conjI impI)
      (use 1 2 3 4 rls_declared [OF _ _ assms(2), of "au_tx d'" t row] rls_declared [OF _ _ assms(2), of "au_tx d'" "pr_tenant_id p" row]
        in \<open>simp_all only: simp_thms\<close>)
qed

text \<open>
  The same policies empty a reading: the platform admin's list of tenants is made under the admin's own
  scope, so the jobs of every other tenant are counted as none.
\<close>

lemma sibling_jobs_uncounted:
  assumes "admin_list_tenants cr rq token page page_size d = (Inr (views, n), d')"
    and "get_current_user cr (rq_now rq) token (d\<lparr>au_tx := new_tx\<rparr>) = Inr (u, d1)"
    and "v \<in> set views" "tn_id (tv_tenant v) \<noteq> us_tenant_id u"
  shows "tv_jobs v = 0"
proof -
  have "views = map (tenant_view_of d1) (fst (list_tenants ((page - 1) * page_size) page_size d1))"
    using assms(1,2) by (auto simp: admin_list_tenants_def get_db_def as_platform_admin_def split: option.splits prod.splits)
  then obtain t where t: "v = tenant_view_of d1 t" using assms(3) by auto
  then have "tn_id t \<noteq> us_tenant_id u" using assms(4) by (simp add: tenant_view_of_def counts_for_def)
  moreover have "rls_match (au_tx d1) i \<longleftrightarrow> i = us_tenant_id u" for i
    using get_current_user_scope [OF assms(2)] by simp
  ultimately show ?thesis by (auto simp: t tenant_view_of_def counts_for_def)
qed

section \<open>How people get in\<close>

text \<open>The requests that change users, tenants or their trail, in the order they commit.\<close>

datatype auth_event =
    Registers request nat sign_up
  | Enrols request string nat string string
  | LogsIn request "nat \<times> nat" string string
  | CreatesTenant request string dict
  | UpdatesLimits request string uuid limits_update

fun auth_apply :: "crypto \<Rightarrow> token_ttls \<Rightarrow> auth_event \<Rightarrow> auth_world \<Rightarrow> auth_world" where
  "auth_apply cr cfg (Registers rq salt b) w = (if valid_sign_up b then snd (api_register cr rq salt b w) else w)"
| "auth_apply cr cfg (Enrols rq token salt email password) w = snd (api_add_tenant_member cr rq token salt email password w)"
| "auth_apply cr cfg (LogsIn rq jtis email password) w = snd (api_login cr cfg rq jtis email password w)"
| "auth_apply cr cfg (CreatesTenant rq token body) w = w\<lparr>aw_db := snd (admin_create_tenant cr rq token body (aw_db w))\<rparr>"
| "auth_apply cr cfg (UpdatesLimits rq token tenant_id b) w =
     (if valid_limits b then w\<lparr>aw_db := snd (admin_update_tenant_limits cr rq token tenant_id b (aw_db w))\<rparr> else w)"

abbreviation tenant_names :: "auth_db \<Rightarrow> (uuid \<times> string) list" where
  "tenant_names d \<equiv> map (\<lambda>t. (tn_id t, tn_slug t)) (au_tenants d)"

definition auth_inv :: "auth_db \<Rightarrow> bool" where
  "auth_inv d \<longleftrightarrow> au_tx d = new_tx \<and> distinct (map us_email (au_users d)) \<and> distinct (map us_id (au_users d))
     \<and> distinct (map snd (tenant_names d)) \<and> distinct (map fst (tenant_names d))
     \<and> list_all (\<lambda>u. us_id u < next_uuid (au_core d) \<and> us_tenant_id u \<in> fst ` set (tenant_names d)) (au_users d)
     \<and> list_all (\<lambda>t. fst t < next_uuid (au_core d)) (tenant_names d)"

text \<open>The audit row that accounts for a user who was not there at the start.\<close>

definition signed_up :: "auth_db \<Rightarrow> auth_db \<Rightarrow> user \<Rightarrow> audit_log \<Rightarrow> bool" where
  "signed_up d0 d u a \<longleftrightarrow> a_action a = ''user.registered'' \<and> a_user_id a = Some (us_id u)
     \<and> (us_role u = USER \<and> (us_tenant_id u, default_tenant_slug) \<in> set (tenant_names d)
        \<or> us_role u = ADMIN \<and> us_tenant_id u \<notin> fst ` set (tenant_names d0))"

definition enrolled :: "auth_db \<Rightarrow> user \<Rightarrow> audit_log \<Rightarrow> bool" where
  "enrolled d u a \<longleftrightarrow> a_action a = ''user.enrolled'' \<and> us_role u = USER
     \<and> (\<exists>admin \<in> set (au_users d). us_role admin = ADMIN \<and> us_tenant_id admin = us_tenant_id u \<and> a_user_id a = Some (us_id admin))"

definition accounted :: "auth_db \<Rightarrow> auth_db \<Rightarrow> user \<Rightarrow> bool" where
  "accounted d0 d u \<longleftrightarrow> \<not> us_is_platform_admin u \<and>
     (\<exists>a \<in> set (audit_logs (au_core d)). a_tenant_id a = us_tenant_id u \<and> a_resource_type a = Some ''user''
        \<and> a_resource_id a = Some (uuid_str (us_id u)) \<and> (signed_up d0 d u a \<or> enrolled d u a))"

definition founders :: "user list \<Rightarrow> uuid list" where
  "founders us = map us_tenant_id (filter (\<lambda>u. us_role u = ADMIN) us)"

text \<open>One step: the tables only grow, and by at most one user, who is accounted for.\<close>

definition auth_grows :: "auth_db \<Rightarrow> auth_db \<Rightarrow> bool" where
  "auth_grows d d' \<longleftrightarrow> (\<exists>ls. audit_logs (au_core d') = audit_logs (au_core d) @ ls) \<and> (\<exists>ts. tenant_names d' = tenant_names d @ ts)
     \<and> next_uuid (au_core d) \<le> next_uuid (au_core d')"

definition auth_step :: "auth_db \<Rightarrow> auth_db \<Rightarrow> bool" where
  "auth_step d d' \<longleftrightarrow> auth_grows d d' \<and> auth_inv d' \<and>
     (au_users d' = au_users d
      \<or> (\<exists>u. au_users d' = au_users d @ [u] \<and> accounted d d' u
           \<and> (us_role u = ADMIN \<longrightarrow> us_tenant_id u \<notin> fst ` set (tenant_names d))))"

lemma auth_step_refl: "auth_inv d \<Longrightarrow> auth_step d d"
  by (simp add: auth_step_def auth_grows_def)

lemma declare_frame [simp]:
  "au_users (declare_tenant_scope t d) = au_users d" "au_tenants (declare_tenant_scope t d) = au_tenants d"
  "au_sa (declare_tenant_scope t d) = au_sa d"
  by (simp_all add: declare_tenant_scope_def)

lemma audit_write_next [simp]: "next_uuid (audit_log_write action t args d) = Suc (next_uuid d)"
  by (simp add: audit_log_write_def Let_def)

text \<open>What an audit row of this surface leaves behind.\<close>

lemma auth_audit_Inr:
  assumes "auth_audit action t i rt ri req ex d = Inr d'"
  shows "au_users d' = au_users d \<and> au_tenants d' = au_tenants d \<and> au_tx d' = au_tx d
    \<and> next_uuid (au_core d') = Suc (next_uuid (au_core d))
    \<and> (\<exists>a. audit_logs (au_core d') = audit_logs (au_core d) @ [a] \<and> a_action a = action \<and> a_tenant_id a = t
         \<and> a_user_id a = Some i \<and> a_resource_type a = Some rt \<and> a_resource_id a = Some (uuid_str ri))"
  using assms by (auto simp: auth_audit_def audit_log_write_def no_args_def Let_def split: if_splits)

lemma create_user_Inr:
  assumes "create_user now email hashed role t d = Inr (u, d')"
  shows "au_users d' = au_users d @ [u] \<and> au_tenants d' = au_tenants d \<and> au_tx d' = au_tx d
    \<and> next_uuid (au_core d') = Suc (next_uuid (au_core d)) \<and> audit_logs (au_core d') = audit_logs (au_core d)
    \<and> us_id u = next_uuid (au_core d) \<and> us_tenant_id u = t \<and> us_email u = email \<and> us_hashed_password u = hashed
    \<and> us_role u = role \<and> us_is_active u \<and> \<not> us_is_platform_admin u
    \<and> get_by_email email d = None \<and> t \<in> tn_id ` set (au_tenants d)"
  using assms by (auto simp: create_user_def fresh_id_def Let_def split: if_splits)

lemma create_tenant_Inr:
  assumes "create_tenant now slug name d = Inr (t, d')"
  shows "au_tenants d' = au_tenants d @ [t] \<and> au_users d' = au_users d \<and> au_tx d' = au_tx d
    \<and> next_uuid (au_core d') = Suc (next_uuid (au_core d)) \<and> audit_logs (au_core d') = audit_logs (au_core d)
    \<and> tn_id t = next_uuid (au_core d) \<and> tn_slug t = slug \<and> get_by_slug slug d = None"
  using assms by (auto simp: create_tenant_def fresh_id_def Let_def split: if_splits)

lemma map_sum_Inr: "map_sum f g s = Inr y \<longleftrightarrow> (\<exists>x. s = Inr x \<and> y = g x)"
  by (cases s) auto

lemma get_by_None: "get_by f k xs = None \<longleftrightarrow> k \<notin> f ` set xs"
  by (auto simp: get_by_def find_None_iff)

lemma auth_inv_reset [simp]: "auth_inv d \<Longrightarrow> d\<lparr>au_tx := new_tx\<rparr> = d"
  by (simp add: auth_inv_def)

lemma auth_grows_trans: "auth_grows d d' \<Longrightarrow> auth_grows d' d'' \<Longrightarrow> auth_grows d d''"
  unfolding auth_grows_def by (elim conjE exE) simp

text \<open>The insert of a tenant, and the insert of a user with its audit row.\<close>

lemma tenant_founded:
  assumes "auth_inv d" "create_tenant now slug name d = Inr (t, d1)"
  shows "auth_inv d1 \<and> auth_grows d d1 \<and> tenant_names d1 = tenant_names d @ [(tn_id t, tn_slug t)] \<and> au_users d1 = au_users d
    \<and> tn_id t \<notin> fst ` set (tenant_names d)"
proof -
  note c = create_tenant_Inr [OF assms(2)]
  have slug: "tn_slug t \<notin> tn_slug ` set (au_tenants d)" using c by (simp add: get_by_slug_def get_by_None)
  have new: "tn_id t \<notin> tn_id ` set (au_tenants d)" using assms(1) c by (auto simp: auth_inv_def list_all_iff)
  note i = assms(1) [unfolded auth_inv_def list_all_iff]
  have "auth_inv d1" unfolding auth_inv_def list_all_iff
  proof (intro conjI)
    have n: "map snd (tenant_names d1) = map tn_slug (au_tenants d) @ [tn_slug t]" "map fst (tenant_names d1) = map tn_id (au_tenants d) @ [tn_id t]"
      using c by (simp_all add: comp_def)
    have o: "distinct (map tn_slug (au_tenants d))" "distinct (map tn_id (au_tenants d))" using i by (simp_all add: comp_def)
    show "distinct (map snd (tenant_names d1))" "distinct (map fst (tenant_names d1))"
      unfolding n using o slug new by simp_all
    show "\<forall>u \<in> set (au_users d1). us_id u < next_uuid (au_core d1) \<and> us_tenant_id u \<in> fst ` set (tenant_names d1)"
      using i c by (auto intro: less_SucI)
    show "\<forall>t \<in> set (tenant_names d1). fst t < next_uuid (au_core d1)"
      using i c by (auto intro: less_SucI)
  qed (use i c in simp_all)
  then show ?thesis using c new by (simp add: auth_grows_def image_image)
qed

lemma user_joins:
  assumes "auth_inv d" "create_user now email hashed role t d = Inr (u, d1)"
    and "auth_audit action t i ''user'' (us_id u) req ex (declare_tenant_scope t d1) = Inr d2"
  shows "auth_inv (d2\<lparr>au_tx := new_tx\<rparr>) \<and> auth_grows d (d2\<lparr>au_tx := new_tx\<rparr>) \<and> au_users d2 = au_users d @ [u]
    \<and> tenant_names d2 = tenant_names d
    \<and> (\<exists>a \<in> set (audit_logs (au_core d2)). a_action a = action \<and> a_tenant_id a = us_tenant_id u \<and> a_user_id a = Some i
         \<and> a_resource_type a = Some ''user'' \<and> a_resource_id a = Some (uuid_str (us_id u)))"
proof -
  note c = create_user_Inr [OF assms(2)] and a = auth_audit_Inr [OF assms(3)]
  have mail: "us_email u \<notin> us_email ` set (au_users d)" using c by (simp add: get_by_email_def get_by_None)
  have new: "us_id u \<notin> us_id ` set (au_users d)" using assms(1) c by (auto simp: auth_inv_def list_all_iff)
  note i = assms(1) [unfolded auth_inv_def list_all_iff]
  have "auth_inv (d2\<lparr>au_tx := new_tx\<rparr>)" unfolding auth_inv_def list_all_iff
  proof (intro conjI)
    let ?d = "d2\<lparr>au_tx := new_tx\<rparr>"
    show "distinct (map us_email (au_users ?d))" "distinct (map us_id (au_users ?d))"
      using i c a mail new by simp_all
    show "\<forall>u \<in> set (au_users ?d). us_id u < next_uuid (au_core ?d) \<and> us_tenant_id u \<in> fst ` set (tenant_names ?d)"
      using i c a by (auto simp: image_image intro: less_SucI)
    show "\<forall>t \<in> set (tenant_names ?d). fst t < next_uuid (au_core ?d)"
      using i c a by (auto intro: less_SucI)
  qed (use i c a in simp_all)
  then show ?thesis using c a by (auto simp: auth_grows_def)
qed

lemma register_step:
  assumes "auth_inv d" "register_user cr now salt req b d = Inr (u, d')"
  shows "auth_step d (d'\<lparr>au_tx := new_tx\<rparr>)"
proof -
  obtain t role d1 hashed d2 where r: "register_tenant now b d = Inr (t, role, d1)"
    and c: "create_user now (su_email b) hashed role (tn_id t) d1 = Inr (u, d2)"
    and a: "auth_audit ''user.registered'' (tn_id t) (us_id u) ''user'' (us_id u) req None (declare_tenant_scope (tn_id t) d2) = Inr d'"
    using assms(2) by (auto simp: register_user_def map_sum_Inr split: if_splits sum.splits option.splits)
  have u: "us_tenant_id u = tn_id t" "us_role u = role" "\<not> us_is_platform_admin u" using create_user_Inr [OF c] by simp_all
  show ?thesis
  proof (cases "get_by_slug (su_tenant_slug b) d")
    case None
    then obtain name where ct: "create_tenant now (su_tenant_slug b) name d = Inr (t, d1)" and role: "role = ADMIN"
      using r by (auto simp: register_tenant_def Let_def split: option.splits if_splits sum.splits)
    note f = tenant_founded [OF assms(1) ct]
    note j = user_joins [OF conjunct1 [OF f] c a]
    have "accounted d (d'\<lparr>au_tx := new_tx\<rparr>) u"
      using j u role f unfolding accounted_def signed_up_def by auto
    then show ?thesis
      using j f u auth_grows_trans [of d d1] unfolding auth_step_def by simp
  next
    case (Some x)
    then have d: "d1 = d" "x = t" "role = USER" "su_tenant_slug b = default_tenant_slug"
      using r by (auto simp: register_tenant_def Let_def split: if_splits)
    note j = user_joins [OF assms(1) c [unfolded d(1)] a]
    have "t \<in> set (au_tenants d)" "tn_slug t = default_tenant_slug"
      using get_by_mem [OF Some [unfolded get_by_slug_def]] d by simp_all
    then have "(us_tenant_id u, default_tenant_slug) \<in> set (tenant_names d')" using j u by force
    then have "accounted d (d'\<lparr>au_tx := new_tx\<rparr>) u"
      using j u d unfolding accounted_def signed_up_def by auto
    then show ?thesis using j u d unfolding auth_step_def by simp
  qed
qed

lemma enrol_step:
  assumes "auth_inv d" "add_tenant_member cr now salt req admin email password (declare_tenant_scope (us_tenant_id admin) d) = Inr (u, d')"
    and "admin \<in> set (au_users d)" "us_role admin = ADMIN"
  shows "auth_step d (d'\<lparr>au_tx := new_tx\<rparr>)"
proof -
  let ?d = "declare_tenant_scope (us_tenant_id admin) d"
  obtain hashed d1 ex where c: "create_user now email hashed USER (us_tenant_id admin) ?d = Inr (u, d1)"
    and a: "auth_audit ''user.enrolled'' (us_tenant_id admin) (us_id admin) ''user'' (us_id u) req ex d1 = Inr d'"
    using assms(2) by (auto simp: add_tenant_member_def map_sum_Inr split: if_splits sum.splits option.splits)
  obtain d2 where c': "create_user now email hashed USER (us_tenant_id admin) d = Inr (u, d2)"
      and d1: "d1 = declare_tenant_scope (us_tenant_id admin) d2"
    using c by (auto simp: create_user_def get_by_email_def fresh_id_def declare_tenant_scope_def Let_def split: if_splits)
  note j = user_joins [OF assms(1) c' a [unfolded d1]]
  have u: "us_tenant_id u = us_tenant_id admin" "us_role u = USER" "\<not> us_is_platform_admin u" using create_user_Inr [OF c'] by simp_all
  have "accounted d (d'\<lparr>au_tx := new_tx\<rparr>) u"
    using j u assms(3,4) unfolding accounted_def enrolled_def by auto
  then show ?thesis using j u unfolding auth_step_def by simp
qed

text \<open>A step that only writes the trail, or tenants beside it.\<close>

lemma quiet_step:
  assumes "auth_inv d" "auth_inv d1" "auth_grows d d1" "au_users d1 = au_users d"
    and "auth_audit action t i rt ri req ex (declare_tenant_scope s d1) = Inr d2"
  shows "auth_step d (d2\<lparr>au_tx := new_tx\<rparr>)"
proof -
  note a = auth_audit_Inr [OF assms(5)] and i = assms(2) [unfolded auth_inv_def list_all_iff]
  have "auth_inv (d2\<lparr>au_tx := new_tx\<rparr>)" unfolding auth_inv_def list_all_iff
    by (intro conjI) (use i a in \<open>auto intro: less_SucI\<close>)
  moreover have "auth_grows d1 (d2\<lparr>au_tx := new_tx\<rparr>)" using a by (auto simp: auth_grows_def)
  ultimately show ?thesis using a assms(4) auth_grows_trans [OF assms(3)] by (simp add: auth_step_def)
qed

lemma auth_grows_refl: "auth_grows d d"
  by (simp add: auth_grows_def)

lemma login_step:
  assumes "auth_inv d" "login cr cfg now jtis req email password d = Inr (p, d')"
  shows "auth_step d (d'\<lparr>au_tx := new_tx\<rparr>)"
proof -
  obtain u :: user where "auth_audit ''user.login'' (us_tenant_id u) (us_id u) ''user'' (us_id u) req None (declare_tenant_scope (us_tenant_id u) d) = Inr d'"
    using assms(2) by (auto simp: login_def map_sum_Inr split: option.splits if_splits)
  from quiet_step [OF assms(1,1) auth_grows_refl refl this] show ?thesis .
qed

lemma declare_twice [simp]:
  "declare_tenant_scope t (declare_tenant_scope s d) = declare_tenant_scope t d"
  "(declare_tenant_scope t d)\<lparr>au_tx := x\<rparr> = d\<lparr>au_tx := x\<rparr>"
  by (simp_all add: declare_tenant_scope_def)

lemma create_tenant_declared:
  "create_tenant now slug name (declare_tenant_scope s d) = map_sum id (\<lambda>(t, d'). (t, declare_tenant_scope s d')) (create_tenant now slug name d)"
  by (simp add: create_tenant_def get_by_slug_def fresh_id_def declare_tenant_scope_def Let_def)

lemma create_tenant_step:
  assumes "auth_inv d" "create_tenant_as now req body u (declare_tenant_scope (us_tenant_id u) d) = Inr (t, d')"
  shows "auth_step d (d'\<lparr>au_tx := new_tx\<rparr>)"
proof -
  obtain slug name d1 ex d2 where "create_tenant now slug name (declare_tenant_scope (us_tenant_id u) d) = Inr (t, d1)"
    and a: "auth_audit ''tenant.created'' (tn_id t) (us_id u) ''tenant'' (tn_id t) req ex (declare_tenant_scope (tn_id t) d1) = Inr d2"
    and d': "d' = declare_tenant_scope (us_tenant_id u) d2"
    using assms(2) by (auto simp: create_tenant_as_def map_sum_Inr split: sum.splits if_splits)
  then obtain d3 where c: "create_tenant now slug name d = Inr (t, d3)" and d1: "d1 = declare_tenant_scope (us_tenant_id u) d3"
    by (auto simp: create_tenant_declared map_sum_Inr)
  note f = tenant_founded [OF assms(1) c]
  have "auth_audit ''tenant.created'' (tn_id t) (us_id u) ''tenant'' (tn_id t) req ex (declare_tenant_scope (tn_id t) d3) = Inr d2"
    using a by (simp add: d1)
  from quiet_step [OF assms(1) _ _ _ this] f show ?thesis by (simp add: d')
qed

lemma with_limits_names [simp]:
  "map (\<lambda>t. (tn_id t, tn_slug t)) (update_where P (with_limits b) ts) = map (\<lambda>t. (tn_id t, tn_slug t)) ts"
  by (simp add: update_where_def with_limits_def)

lemma update_limits_step:
  assumes "auth_inv d" "update_limits_as req tenant_id b u (declare_tenant_scope (us_tenant_id u) d) = Inr (t, d')"
  shows "auth_step d (d'\<lparr>au_tx := new_tx\<rparr>)"
proof -
  let ?d = "d\<lparr>au_tenants := update_where (\<lambda>x. tn_id x = tenant_id) (with_limits b) (au_tenants d)\<rparr>"
  consider "d' = declare_tenant_scope (us_tenant_id u) d"
    | ex d2 where "auth_audit ''tenant.limits_updated'' tenant_id (us_id u) ''tenant'' tenant_id req ex (declare_tenant_scope tenant_id ?d) = Inr d2"
        "d' = declare_tenant_scope (us_tenant_id u) d2"
    using assms(2)
    by (auto simp: update_limits_as_def map_sum_Inr declare_tenant_scope_def Let_def split: option.splits if_splits)
  then show ?thesis
  proof cases
    case 1
    then show ?thesis using auth_step_refl assms(1) by simp
  next
    case 2
    have "auth_inv ?d" using assms(1) by (simp add: auth_inv_def)
    moreover have "auth_grows d ?d" by (simp add: auth_grows_def)
    ultimately show ?thesis using quiet_step [OF assms(1) _ _ _ 2(1)] 2(2) by simp
  qed
qed

lemma get_db_step:
  assumes "auth_inv d" "\<And>x d'. handler d = Inr (x, d') \<Longrightarrow> auth_step d (d'\<lparr>au_tx := new_tx\<rparr>)"
  shows "auth_step d (snd (get_db handler d))"
  using assms auth_step_refl by (auto simp: get_db_def split: sum.splits)

lemma limited_step:
  assumes "auth_inv (aw_db w)" "\<And>x d'. handler (aw_db w) = Inr (x, d') \<Longrightarrow> auth_step (aw_db w) (d'\<lparr>au_tx := new_tx\<rparr>)"
  shows "auth_step (aw_db w) (aw_db (snd (limited rq key_prefix handler w)))"
proof -
  have "auth_step (aw_db w) (snd (get_db handler (aw_db w)))" by (rule get_db_step) (use assms in auto)
  then show ?thesis using auth_step_refl [OF assms(1)] by (auto simp: limited_def split: prod.splits option.splits)
qed

lemma as_platform_admin_step:
  assumes "auth_inv d" "\<And>u x d'. handler u (declare_tenant_scope (us_tenant_id u) d) = Inr (x, d') \<Longrightarrow> auth_step d (d'\<lparr>au_tx := new_tx\<rparr>)"
  shows "auth_step d (snd (get_db (as_platform_admin cr rq token handler) d))"
  by (rule get_db_step [OF assms(1)])
    (use assms(2) get_current_user_scope in \<open>fastforce simp: as_platform_admin_def split: sum.splits option.splits\<close>)

lemma auth_apply_step:
  assumes "auth_inv (aw_db w)"
  shows "auth_step (aw_db w) (aw_db (auth_apply cr cfg ev w))"
proof (cases ev)
  case (Registers rq salt b)
  have "auth_step (aw_db w) (aw_db (snd (api_register cr rq salt b w)))"
    unfolding api_register_def by (rule limited_step [OF assms]) (rule register_step [OF assms])
  then show ?thesis using auth_step_refl [OF assms] by (simp add: Registers)
next
  case (Enrols rq token salt email password)
  show ?thesis
  proof (cases "get_current_user cr (rq_now rq) token (aw_db w)")
    case (Inl e)
    then show ?thesis using assms auth_step_refl by (simp add: Enrols api_add_tenant_member_def)
  next
    case (Inr p)
    then obtain u d where p: "get_current_user cr (rq_now rq) token (aw_db w) = Inr (u, d)" by (cases p) auto
    show ?thesis
    proof (cases "us_role u = ADMIN")
      case True
      have "auth_step (aw_db w) (aw_db (snd (limited rq ''enrol'' (\<lambda>d. add_tenant_member cr (rq_now rq) salt (rq_id rq) u email password
              (declare_tenant_scope (us_tenant_id u) d)) w)))"
        by (rule limited_step [OF assms], rule enrol_step [OF assms])
          (use True get_current_user_scope [OF p] in auto)
      then show ?thesis using assms True by (simp add: Enrols api_add_tenant_member_def p require_role_def)
    next
      case False
      then show ?thesis using assms auth_step_refl by (simp add: Enrols api_add_tenant_member_def p require_role_def)
    qed
  qed
next
  case (LogsIn rq jtis email password)
  show ?thesis unfolding LogsIn auth_apply.simps api_login_def by (rule limited_step [OF assms]) (rule login_step [OF assms])
next
  case (CreatesTenant rq token body)
  have "auth_step (aw_db w) (snd (admin_create_tenant cr rq token body (aw_db w)))"
    unfolding admin_create_tenant_def by (rule as_platform_admin_step [OF assms]) (rule create_tenant_step [OF assms])
  then show ?thesis by (simp add: CreatesTenant)
next
  case (UpdatesLimits rq token tenant_id b)
  have "auth_step (aw_db w) (snd (admin_update_tenant_limits cr rq token tenant_id b (aw_db w)))"
    unfolding admin_update_tenant_limits_def by (rule as_platform_admin_step [OF assms]) (rule update_limits_step [OF assms])
  then show ?thesis using auth_step_refl [OF assms] by (simp add: UpdatesLimits)
qed

text \<open>What a history leaves of the database it started from.\<close>

definition auth_reached :: "auth_db \<Rightarrow> auth_world \<Rightarrow> bool" where
  "auth_reached d0 w \<longleftrightarrow> auth_inv (aw_db w) \<and> auth_grows d0 (aw_db w) \<and>
     (\<exists>new. au_users (aw_db w) = au_users d0 @ new \<and> list_all (accounted d0 (aw_db w)) new \<and> distinct (founders new))"

lemma accounted_later:
  assumes "accounted d d' u" "auth_grows d0 d" "auth_grows d' d''" "\<exists>us. au_users d'' = au_users d' @ us"
  shows "accounted d0 d'' u"
proof -
  have "set (tenant_names d0) \<subseteq> set (tenant_names d)" "set (tenant_names d') \<subseteq> set (tenant_names d'')"
    "set (audit_logs (au_core d')) \<subseteq> set (audit_logs (au_core d''))" "set (au_users d') \<subseteq> set (au_users d'')"
    using assms(2-4) unfolding auth_grows_def by (metis Un_upper1 set_append)+
  then have "signed_up d d' u a \<Longrightarrow> signed_up d0 d'' u a" "enrolled d' u a \<Longrightarrow> enrolled d'' u a" for a
    unfolding signed_up_def enrolled_def by blast+
  then show ?thesis using assms(1) \<open>set (audit_logs (au_core d')) \<subseteq> _\<close> unfolding accounted_def by blast
qed

lemma auth_step_users: "auth_step d d' \<Longrightarrow> \<exists>us. au_users d' = au_users d @ us"
  by (auto simp: auth_step_def)

lemma auth_reached_step:
  assumes "auth_reached d0 w"
  shows "auth_reached d0 (auth_apply cr cfg ev w)"
proof -
  let ?d = "aw_db w" and ?d' = "aw_db (auth_apply cr cfg ev w)"
  obtain new where inv: "auth_inv ?d" and g: "auth_grows d0 ?d" and us: "au_users ?d = au_users d0 @ new"
    and new: "list_all (accounted d0 ?d) new" "distinct (founders new)"
    using assms by (auto simp: auth_reached_def)
  note s = auth_apply_step [OF inv, of cr cfg ev]
  have g': "auth_grows ?d ?d'" and inv': "auth_inv ?d'" using s by (simp_all add: auth_step_def)
  have old: "list_all (accounted d0 ?d') new"
    using new(1) accounted_later [OF _ auth_grows_refl g' auth_step_users [OF s]] by (auto simp: list_all_iff)
  from s consider "au_users ?d' = au_users ?d"
    | u where "au_users ?d' = au_users ?d @ [u]" "accounted ?d ?d' u" "us_role u = ADMIN \<longrightarrow> us_tenant_id u \<notin> fst ` set (tenant_names ?d)"
    by (auto simp: auth_step_def)
  then have "\<exists>new. au_users ?d' = au_users d0 @ new \<and> list_all (accounted d0 ?d') new \<and> distinct (founders new)"
  proof cases
    case 1
    then show ?thesis using us old new(2) by metis
  next
    case (2 u)
    have "us_tenant_id x \<in> fst ` set (tenant_names ?d)" if "x \<in> set new" for x
      using that inv us by (auto simp: auth_inv_def list_all_iff)
    then have "distinct (founders (new @ [u]))" using new(2) 2(3) by (auto simp: founders_def)
    moreover have "accounted d0 ?d' u" by (rule accounted_later [OF 2(2) g auth_grows_refl]) simp
    ultimately show ?thesis using 2(1) us old by (intro exI [of _ "new @ [u]"]) simp
  qed
  then show ?thesis using inv' auth_grows_trans [OF g g'] by (simp add: auth_reached_def)
qed

interpretation auth_history: inv_step "auth_apply cr cfg" "auth_reached d0" for cr cfg d0
  by unfold_locales (rule auth_reached_step)

text \<open>
  Property C29. Everyone who gets in is accounted for. Whatever is asked of registration, enrolment, login and the
  tenant endpoints, in any order: no user changes or disappears and no address is used twice; a new user
  is never a platform admin and has an audit row in its own tenant; it either signed itself up, into the default tenant
  as a plain user or into a tenant that did not exist before as its only admin, or was enrolled as a plain
  user by an admin of its tenant, whom the row names.
\<close>

theorem enrolment_accounted:
  assumes "auth_inv d0" "w = fold (auth_apply cr cfg) evs \<lparr>aw_db = d0, aw_counters = c\<rparr>"
  shows "\<exists>new. au_users (aw_db w) = au_users d0 @ new \<and> list_all (accounted d0 (aw_db w)) new \<and> distinct (founders new)
    \<and> distinct (map us_email (au_users (aw_db w)))"
proof -
  have "auth_reached d0 \<lparr>aw_db = d0, aw_counters = c\<rparr>" using assms(1) by (simp add: auth_reached_def auth_grows_refl founders_def)
  from auth_history.fold_inv [OF this, where es = evs] have "auth_reached d0 w" by (simp add: assms(2))
  then show ?thesis by (auto simp: auth_reached_def auth_inv_def)
qed

section \<open>Signing up and signing in\<close>

lemma auth_audit_admitted: "rls_match (au_tx d) t \<Longrightarrow> \<exists>d'. auth_audit action t i rt ri req ex d = Inr d'"
  by (simp add: auth_audit_def)

lemma get_by_unique:
  assumes "x \<in> set xs" "distinct (map f xs)"
  shows "get_by f (f x) xs = Some x"
  using assms by (induction xs) (auto simp: get_by_def)

lemma registered_user:
  assumes "register_user cr t0 salt req b d = Inr (u, d1)"
  shows "us_email u = su_email b \<and> hashpw cr salt (su_password b) = Some (us_hashed_password u) \<and> us_is_active u \<and> u \<in> set (au_users d1)"
proof -
  obtain t :: tenant_row and role d2 hashed d3 where h: "hashpw cr salt (su_password b) = Some hashed"
    and c: "create_user t0 (su_email b) hashed role (tn_id t) d2 = Inr (u, d3)"
    and a: "auth_audit ''user.registered'' (tn_id t) (us_id u) ''user'' (us_id u) req None (declare_tenant_scope (tn_id t) d3) = Inr d1"
    using assms by (auto simp: register_user_def map_sum_Inr split: if_splits sum.splits option.splits)
  show ?thesis using h create_user_Inr [OF c] auth_audit_Inr [OF a] by simp
qed

text \<open>
  Property C40. Signing up works. Whoever registered can log in with the address and the password they gave,
  whatever the time, and the access token they are handed identifies them as the row that registration
  created until it expires.
\<close>

theorem register_login_roundtrip:
  assumes "crypto_ok cr" "auth_inv d" "register_user cr t0 salt req b d = Inr (u, d1)" "next_uuid (au_core d1) \<le> 2 ^ 128"
  shows "\<exists>access refr d2. login cr cfg t1 jtis req' (su_email b) (su_password b) (d1\<lparr>au_tx := new_tx\<rparr>) = Inr ((access, refr), d2)
    \<and> (alive now t1 (access_ttl cfg) \<longrightarrow> get_current_user cr now access d2 = Inr (u, declare_tenant_scope (us_tenant_id u) d2))"
proof -
  let ?d = "d1\<lparr>au_tx := new_tx\<rparr>"
  note u = registered_user [OF assms(3)]
  have inv: "auth_inv ?d" using register_step [OF assms(2,3)] by (simp add: auth_step_def)
  have mail: "get_by_email (su_email b) ?d = Some u"
    unfolding get_by_email_def using u inv get_by_unique [of u "au_users d1" us_email] by (simp add: auth_inv_def)
  have pw: "verify_password cr (su_password b) (us_hashed_password u)"
  proof -
    have "checkpw cr (su_password b) (us_hashed_password u) = Some True" using u assms(1) unfolding crypto_ok_def by blast
    then show ?thesis by (simp add: verify_password_def)
  qed
  have "rls_match (au_tx (declare_tenant_scope (us_tenant_id u) ?d)) (us_tenant_id u)" by simp
  from auth_audit_admitted [OF this] obtain d2 where
    a: "auth_audit ''user.login'' (us_tenant_id u) (us_id u) ''user'' (us_id u) req' None (declare_tenant_scope (us_tenant_id u) ?d) = Inr d2"
    by metis
  have users: "au_users d2 = au_users d1" using auth_audit_Inr [OF a] by simp
  have lim: "us_id x < 2 ^ 128 \<and> us_tenant_id x < 2 ^ 128" if "x \<in> set (au_users d1)" for x
    using inv that assms(4) unfolding auth_inv_def list_all_iff by fastforce
  have "ids_bounded d2" using lim by (simp add: ids_bounded_def list_all_iff users)
  moreover have "get_by us_id (us_id u) (au_users d2) = Some u"
    using u inv get_by_unique [of u "au_users d1" us_id] by (simp add: auth_inv_def users)
  ultimately have "get_current_user cr now (fst (token_pair cr cfg t1 jtis u)) d2 = Inr (u, declare_tenant_scope (us_tenant_id u) d2)"
    if "alive now t1 (access_ttl cfg)"
    using access_token_works [OF assms(1), of u d2] lim u that by blast
  moreover have "login cr cfg t1 jtis req' (su_email b) (su_password b) ?d = Inr (token_pair cr cfg t1 jtis u, d2)"
    using u pw a by (simp add: login_def mail)
  ultimately show ?thesis by (metis prod.collapse)
qed

section \<open>Witnesses\<close>

instance json :: countable
  by countable_datatype

text \<open>Libraries that satisfy what is assumed of them: a token spells the number of its claims, in unary.\<close>

definition lab_crypto :: crypto where
  "lab_crypto = \<lparr>hashpw = (\<lambda>_ pw. Some (CHR ''#'' # take 254 pw)), checkpw = (\<lambda>pw h. Some (h = CHR ''#'' # take 254 pw)),
     jwt_encode = (\<lambda>p. replicate (to_nat p) CHR ''a''),
     jwt_decode = (\<lambda>t s. let p = from_nat (length s) :: dict
                         in case jget p ''exp'' of JInt e \<Rightarrow> if \<lfloor>t\<rfloor> \<le> e then Some p else None | _ \<Rightarrow> None),
     py_str = (\<lambda>_. [])\<rparr>"

lemma lab_crypto_ok: "crypto_ok lab_crypto"
  by (simp add: crypto_ok_def lab_crypto_def alive_def Let_def)
    (simp add: token_payload_def jget_def map_of_kv_set)

definition lab_ttls :: token_ttls where
  "lab_ttls = \<lparr>access_token_expire_minutes = 15, refresh_token_expire_days = 7\<rparr>"

definition lab_auth_db :: auth_db where
  "lab_auth_db = \<lparr>au_tx = new_tx, au_users = [], au_tenants = [\<lparr>tn_id = 0, tn_slug = ''default'', tn_rate_limit_per_minute = 120,
      tn_quota_jobs_per_month = 100000, tn_name = ''Default'', tn_is_active = True, tn_created_at = 0\<rparr>],
     au_sa = \<lparr>service_accounts = [], sa_tokens = [], sa_next = 0, sa_core = empty_db\<lparr>next_uuid := 1\<rparr>\<rparr>\<rparr>"

lemma lab_auth_inv: "auth_inv lab_auth_db"
  by (simp add: auth_inv_def lab_auth_db_def)

definition lab_sign_up :: sign_up where
  "lab_sign_up = \<lparr>su_email = ''a@b.c'', su_password = ''passw0rd'', su_tenant_slug = ''acme'', su_new_tenant_name = Some ''Acme''\<rparr>"

definition lab_user :: user where
  "lab_user = \<lparr>us_id = 2, us_tenant_id = 1, us_email = ''a@b.c'', us_hashed_password = ''#passw0rd'', us_role = ADMIN,
     us_is_active = True, us_is_platform_admin = False, us_created_at = 5\<rparr>"

lemma lab_registers: "\<exists>d1. register_user lab_crypto 5 0 None lab_sign_up lab_auth_db = Inr (lab_user, d1) \<and> next_uuid (au_core d1) = 4"
  by (simp add: register_user_def register_tenant_def create_tenant_def create_user_def fresh_id_def get_by_email_def get_by_slug_def
      get_by_def lab_sign_up_def lab_auth_db_def lab_crypto_def lab_user_def auth_audit_def rls_match_def declare_tenant_scope_def
      default_tenant_slug_def new_tx_def Let_def)

theorem register_login_roundtrip_witness:
  "\<exists>d1 access refr d2. register_user lab_crypto 5 0 None lab_sign_up lab_auth_db = Inr (lab_user, d1)
     \<and> login lab_crypto lab_ttls 9 (7, 8) None (su_email lab_sign_up) (su_password lab_sign_up) (d1\<lparr>au_tx := new_tx\<rparr>) = Inr ((access, refr), d2)
     \<and> get_current_user lab_crypto 10 access d2 = Inr (lab_user, declare_tenant_scope (us_tenant_id lab_user) d2)"
proof -
  obtain d1 where d1: "register_user lab_crypto 5 0 None lab_sign_up lab_auth_db = Inr (lab_user, d1)" "next_uuid (au_core d1) \<le> 2 ^ 128"
    using lab_registers by auto
  have "alive 10 9 (access_ttl lab_ttls)" by (simp add: alive_def access_ttl_def lab_ttls_def)
  with register_login_roundtrip [OF lab_crypto_ok lab_auth_inv d1, of lab_ttls 9 "(7, 8)" None 10] d1(1) show ?thesis by blast
qed

theorem session_worth_witness:
  "\<exists>d'. get_current_user lab_crypto 10 (fst (token_pair lab_crypto lab_ttls 9 (7, 8) lab_user)) (lab_auth_db\<lparr>au_users := [lab_user]\<rparr>) = Inr (lab_user, d')"
proof -
  obtain access refr where t: "token_pair lab_crypto lab_ttls 9 (7, 8) lab_user = (access, refr)" by fastforce
  have "us_id lab_user < 2 ^ 128" "us_tenant_id lab_user < 2 ^ 128" "ids_bounded (lab_auth_db\<lparr>au_users := [lab_user]\<rparr>)"
    by (simp_all add: lab_user_def ids_bounded_def)
  moreover have "alive 10 9 (access_ttl lab_ttls)" by (simp add: alive_def access_ttl_def lab_ttls_def)
  ultimately show ?thesis
    using session_worth [OF lab_crypto_ok _ _ _ t, of "lab_auth_db\<lparr>au_users := [lab_user]\<rparr>" 10 lab_user]
    by (simp add: get_by_def t) (simp add: lab_user_def)
qed

abbreviation lab_users_db :: auth_db where
  "lab_users_db \<equiv> lab_auth_db\<lparr>au_users := [lab_user]\<rparr>"

theorem request_confined_witness:
  "\<exists>d'. get_effective_tenant lab_crypto 10 (fst (token_pair lab_crypto lab_ttls 9 (7, 8) lab_user)) (Some 0) lab_users_db = Inr (1, d')
     \<and> rls_read ''jobs'' (au_tx d') (Some 1) \<and> \<not> rls_read ''jobs'' (au_tx d') (Some 2) \<and> \<not> rls_write ''deploy_markers'' (au_tx d') (Some 2)"
proof -
  have b: "us_id lab_user < 2 ^ 128" "us_tenant_id lab_user < 2 ^ 128" "ids_bounded lab_users_db"
    by (simp_all add: lab_user_def ids_bounded_def)
  have "alive 10 9 (access_ttl lab_ttls)" by (simp add: alive_def access_ttl_def lab_ttls_def)
  then obtain d' where "get_current_user lab_crypto 10 (fst (token_pair lab_crypto lab_ttls 9 (7, 8) lab_user)) lab_users_db = Inr (lab_user, d')"
    using access_token_works [OF lab_crypto_ok b, of 10 lab_ttls 9 "(7, 8)" lab_user] by (simp add: get_by_def) (simp add: lab_user_def)
  then have "get_effective_tenant lab_crypto 10 (fst (token_pair lab_crypto lab_ttls 9 (7, 8) lab_user)) (Some 0) lab_users_db = Inr (1, d')"
    by (simp add: get_effective_tenant_def resolve_admin_tenant_def) (simp add: lab_user_def)
  moreover have "au_tx lab_users_db = new_tx" by (simp add: lab_auth_db_def)
  moreover have "''jobs'' \<in> set rls_tables \<union> set null_tenant_tables" "''deploy_markers'' \<in> set rls_tables \<union> set null_tenant_tables"
    by (simp_all add: rls_tables_def null_tenant_tables_def)
  ultimately show ?thesis
    using request_confined [of lab_users_db "''jobs''" lab_crypto 10 _ "Some 0" 1 d' "Some 1"]
      request_confined [of lab_users_db "''jobs''" lab_crypto 10 _ "Some 0" 1 d' "Some 2"]
      request_confined [of lab_users_db "''deploy_markers''" lab_crypto 10 _ "Some 0" 1 d' "Some 2"] by fastforce
qed

definition lab_request :: request where
  "lab_request = \<lparr>rq_now = 5, rq_id = None, rq_forwarded_for = None, rq_peer = None, rq_redis = IncrFails\<rparr>"

theorem enrolment_accounted_witness:
  "accounted lab_auth_db (aw_db (fold (auth_apply lab_crypto lab_ttls) [Registers lab_request 0 lab_sign_up]
     \<lparr>aw_db = lab_auth_db, aw_counters = (\<lambda>_. None)\<rparr>)) lab_user"
proof -
  let ?w = "fold (auth_apply lab_crypto lab_ttls) [Registers lab_request 0 lab_sign_up] \<lparr>aw_db = lab_auth_db, aw_counters = (\<lambda>_. None)\<rparr>"
  obtain d1 where d1: "register_user lab_crypto 5 0 None lab_sign_up lab_auth_db = Inr (lab_user, d1)" using lab_registers by auto
  have "valid_sign_up lab_sign_up" by (simp add: valid_sign_up_def lab_sign_up_def)
  moreover have "auth_rate_limit lab_request ''register'' (\<lambda>_. None) = (None, \<lambda>_. None)"
    by (simp add: auth_rate_limit_def check_client_rate_limit_def check_key_rate_limit_def rate_check_def count_hit_def lab_request_def Let_def)
  ultimately have "aw_db ?w = d1\<lparr>au_tx := new_tx\<rparr>"
    by (simp add: api_register_def limited_def get_db_def lab_auth_inv) (simp add: lab_request_def d1)
  then have "au_users (aw_db ?w) = au_users d1" by simp
  then have "lab_user \<in> set (au_users (aw_db ?w))" using registered_user [OF d1] by simp
  moreover have "au_users lab_auth_db = []" by (simp add: lab_auth_db_def)
  ultimately show ?thesis
    using enrolment_accounted [OF lab_auth_inv refl, of lab_crypto lab_ttls "[Registers lab_request 0 lab_sign_up]" "\<lambda>_. None"]
    by (auto simp: list_all_iff)
qed

end
