(* ===== verification/Progress_Stream.thy ===== *)
theory Progress_Stream
  imports Identity Event_Consumers
begin

text \<open>
  Live progress of a job: the retained snapshot and the channel of \<open>workers/progress.py\<close>, the Kafka
  consumer that feeds them (\<open>workers/sse_consumer.py\<close>), the shared connection of
  \<open>workers/progress_broker.py\<close> with its budget of streams, and the two endpoints of \<open>api/streaming.py\<close>.
  A stored snapshot is the event it decodes to, or \<open>None\<close> where the text is no usable event; the
  text of a value that is no string is a parameter.
\<close>

section \<open>Events and the snapshot (\<open>workers/progress.py\<close>)\<close>

definition last_event_prefix :: string where
  "last_event_prefix = ''job:progress:last''"

definition last_event_ttl_seconds :: time where
  "last_event_ttl_seconds = 3600"

definition ending_statuses :: "string list" where
  "ending_statuses = [''completed'', ''failed'', ''dead_letter'', ''cancelled'']"

record progress_event =
  pe_job_id :: string
  pe_status :: string
  pe_progress :: int
  pe_message :: string
  pe_retry_count :: int
  pe_timestamp :: string
  pe_source :: string
  pe_sequence :: "int option"

abbreviation ends_stream :: "progress_event \<Rightarrow> bool" where
  "ends_stream e \<equiv> pe_status e \<in> set ending_statuses"

definition last_key :: "string \<Rightarrow> string" where
  "last_key job_id = last_event_prefix @ '':'' @ job_id"

definition supersedes :: "progress_event \<Rightarrow> progress_event option \<Rightarrow> bool" where
  "supersedes new retained =
     (case retained of
        None \<Rightarrow> True
      | Some r \<Rightarrow>
          if ends_stream r \<and> \<not> ends_stream new then False
          else if pe_source new \<noteq> [] \<and> pe_source new = pe_source r
               \<and> (case (pe_sequence new, pe_sequence r) of (Some n, Some m) \<Rightarrow> n \<le> m | _ \<Rightarrow> False) then False
          else True)"

text \<open>The keys with their expiry, and the messages of \<open>PUBLISH\<close> in the order Redis took them.\<close>

record progress_redis =
  pr_retained :: "string \<Rightarrow> (progress_event option \<times> time) option"
  pr_sent :: "(string \<times> progress_event) list"

definition read_last_event :: "time \<Rightarrow> string \<Rightarrow> progress_redis \<Rightarrow> progress_event option" where
  "read_last_event now job_id r =
     (case pr_retained r (last_key job_id) of
        None \<Rightarrow> None
      | Some (raw, expires) \<Rightarrow> if expires \<le> now then None else raw)"

text \<open>The two writes of \<open>publish\<close>, in their order.\<close>

definition retain_event :: "time \<Rightarrow> progress_event \<Rightarrow> progress_redis \<Rightarrow> progress_redis" where
  "retain_event now e r = r\<lparr>pr_retained := (pr_retained r)(last_key (pe_job_id e) \<mapsto> (Some e, now + last_event_ttl_seconds))\<rparr>"

definition send_event :: "progress_event \<Rightarrow> progress_redis \<Rightarrow> progress_redis" where
  "send_event e r = r\<lparr>pr_sent := pr_sent r @ [(pe_job_id e, e)]\<rparr>"

record publish_health =
  ph_get :: bool
  ph_set :: bool
  ph_publish :: bool

definition publish_progress :: "publish_health \<Rightarrow> time \<Rightarrow> progress_event \<Rightarrow> progress_redis \<Rightarrow> handler_end \<times> progress_redis" where
  "publish_progress h now e r =
     (if \<not> ph_get h then (HandlerRaised, r)
      else if \<not> supersedes e (read_last_event now (pe_job_id e) r) then (HandlerOk, r)
      else if \<not> ph_set h then (HandlerRaised, r)
      else (let r1 = retain_event now e r
            in if \<not> ph_publish h then (HandlerRaised, r1) else (HandlerOk, send_event e r1)))"

text \<open>\<open>rate_limited\<close>: what a processor's updates pass before they reach Kafka.\<close>

definition min_progress_interval_seconds :: time where
  "min_progress_interval_seconds = 1 / 2"

definition min_progress_delta_percent :: int where
  "min_progress_delta_percent = 1"

record throttle =
  th_last_at :: "time option"
  th_last_percent :: int

definition new_throttle :: throttle where
  "new_throttle = \<lparr>th_last_at = None, th_last_percent = 0\<rparr>"

definition rate_limited :: "time \<Rightarrow> int \<Rightarrow> throttle \<Rightarrow> bool \<times> throttle" where
  "rate_limited now percent th =
     (let due = (case th_last_at th of
                   None \<Rightarrow> True
                 | Some t \<Rightarrow> 100 \<le> percent \<or> min_progress_interval_seconds \<le> now - t
                               \<and> min_progress_delta_percent \<le> percent - th_last_percent th)
      in if due then (True, \<lparr>th_last_at = Some now, th_last_percent = percent\<rparr>) else (False, th))"

section \<open>From Kafka to the channel (\<open>workers/sse_consumer.py\<close>)\<close>

definition sse_event_status :: "string \<Rightarrow> string option" where
  "sse_event_status = map_of [(''job.progress'', ''running''), (''job.completed'', ''completed''), (''job.cancelled'', ''cancelled'')]"

text \<open>\<open>Inl\<close>: the name of the event cannot be a dictionary key.\<close>

definition sse_status :: "dict \<Rightarrow> unit + string option" where
  "sse_status v =
     (if jget v ''event'' = JStr ''job.failed''
      then Inr (Some (if jget v ''dead_lettered'' = JBool True then ''dead_letter'' else ''retrying''))
      else (case jget v ''event'' of
              JStr e \<Rightarrow> Inr (sse_event_status e) | JArr _ \<Rightarrow> Inl () | JObj _ \<Rightarrow> Inl () | _ \<Rightarrow> Inr None))"

definition json_text :: "(json \<Rightarrow> string) \<Rightarrow> json \<Rightarrow> string" where
  "json_text str v = (case v of JStr s \<Rightarrow> s | _ \<Rightarrow> str v)"

definition sse_message :: "(json \<Rightarrow> string) \<Rightarrow> string \<Rightarrow> dict \<Rightarrow> string" where
  "sse_message str status v =
     (if truthy (jget v ''message'') then json_text str (jget v ''message'')
      else if status = ''completed'' then ''Job completed successfully'' else ''Job '' @ status)"

definition sse_handle ::
    "codec \<Rightarrow> (json \<Rightarrow> string) \<Rightarrow> publish_health \<Rightarrow> time \<Rightarrow> kmessage \<Rightarrow> progress_redis \<Rightarrow> handler_end \<times> progress_redis" where
  "sse_handle c str h now m r =
     (case m_value m of
        JObj v \<Rightarrow>
          if \<not> truthy (jget v ''job_id'') \<or> \<not> truthy (jget v ''event'') then (HandlerOk, r)
          else (case sse_status v of
                  Inl _ \<Rightarrow> (HandlerRaised, r)
                | Inr None \<Rightarrow> (HandlerOk, r)
                | Inr (Some status) \<Rightarrow>
                    (case (int_of_json (get_or v ''percent'' (JInt (if status = ''completed'' then 100 else 0))),
                           int_of_json (get_or v ''retry_count'' (JInt 0))) of
                       (Some percent, Some retry_count) \<Rightarrow>
                         publish_progress h now \<lparr>pe_job_id = json_text str (jget v ''job_id''), pe_status = status, pe_progress = percent,
                           pe_message = sse_message str status v, pe_retry_count = retry_count, pe_timestamp = iso c now,
                           pe_source = m_topic m, pe_sequence = Some (int (m_offset m))\<rparr> r
                     | _ \<Rightarrow> (HandlerRaised, r)))
      | _ \<Rightarrow> (HandlerOk, r))"

section \<open>The shared connection (\<open>workers/progress_broker.py\<close>)\<close>

definition queue_maxsize :: nat where
  "queue_maxsize = 64"

datatype queue_item = Progressed progress_event | StreamClosed

definition offer :: "queue_item \<Rightarrow> queue_item list \<Rightarrow> queue_item list" where
  "offer item q = (if length q < queue_maxsize then q @ [item] else tl q @ [item])"

text \<open>
  The process's broker: slots in use, the queues that watch each job (a queue has a number of its own),
  the channels it has subscribed to, and whether it has a connection.
\<close>

record broker =
  pb_max_streams :: nat
  pb_active :: nat
  pb_subscribers :: "(string \<times> nat) list"
  pb_queues :: "nat \<Rightarrow> queue_item list"
  pb_channels :: "string list"
  pb_connected :: bool

definition new_broker :: "nat \<Rightarrow> broker" where
  "new_broker max_streams = \<lparr>pb_max_streams = max_streams, pb_active = 0, pb_subscribers = [], pb_queues = (\<lambda>_. []), pb_channels = [],
     pb_connected = False\<rparr>"

text \<open>A reserved slot; \<open>True\<close> once released. \<open>None\<close> is the refusal with status 503.\<close>

definition acquire_stream_slot :: "broker \<Rightarrow> (bool \<times> broker) option" where
  "acquire_stream_slot b =
     (if 0 < pb_max_streams b \<and> pb_max_streams b \<le> pb_active b then None else Some (False, b\<lparr>pb_active := pb_active b + 1\<rparr>))"

definition release_stream_slot :: "bool \<Rightarrow> broker \<Rightarrow> bool \<times> broker" where
  "release_stream_slot released b = (True, if released then b else b\<lparr>pb_active := pb_active b - 1\<rparr>)"

definition put_queue :: "nat \<Rightarrow> queue_item \<Rightarrow> broker \<Rightarrow> broker" where
  "put_queue q item b = b\<lparr>pb_queues := (pb_queues b)(q := offer item (pb_queues b q))\<rparr>"

definition watchers :: "string \<Rightarrow> broker \<Rightarrow> nat list" where
  "watchers job_id b = map snd (filter (\<lambda>s. fst s = job_id) (pb_subscribers b))"

definition register_viewer :: "bool \<Rightarrow> string \<Rightarrow> nat \<Rightarrow> broker \<Rightarrow> broker" where
  "register_viewer up job_id q b =
     (let first = (watchers job_id b = []);
          b1 = b\<lparr>pb_subscribers := pb_subscribers b @ [(job_id, q)], pb_queues := (pb_queues b)(q := []), pb_connected := True\<rparr>
      in if first then (if up then b1\<lparr>pb_channels := job_id # pb_channels b1\<rparr> else put_queue q StreamClosed b1)
         else b1)"





section \<open>The endpoints (\<open>api/streaming.py\<close>)\<close>

definition issue_stream_token ::
    "crypto \<Rightarrow> time \<Rightarrow> nat \<Rightarrow> string \<Rightarrow> uuid \<Rightarrow> auth_db \<Rightarrow> (app_error + string) \<times> auth_db" where
  "issue_stream_token cr now jti token job_id =
     get_db (\<lambda>d. case get_current_user cr now token d of
        Inl e \<Rightarrow> Inl e
      | Inr (u, d1) \<Rightarrow>
          (case get_job job_id (us_id u) (us_role u) (us_tenant_id u) (au_core d1) of
             Inl e \<Rightarrow> Inl e
           | Inr j \<Rightarrow> Inr (create_stream_token cr now jti job_id (us_tenant_id u), d1)))"

definition terminal_event_from_row :: "codec \<Rightarrow> time \<Rightarrow> job \<Rightarrow> progress_event" where
  "terminal_event_from_row c now j =
     \<lparr>pe_job_id = uuid_str (j_id j), pe_status = job_status_value (j_status j), pe_progress = (if j_status j = COMPLETED then 100 else 0),
      pe_message = (case j_error_message j of Some m \<Rightarrow> if m = [] then ''Job already finished'' else m | None \<Rightarrow> ''Job already finished''),
      pe_retry_count = j_retry_count j, pe_timestamp = iso c now, pe_source = [], pe_sequence = None\<rparr>"

definition snapshot_is_stale :: "codec \<Rightarrow> progress_event option \<Rightarrow> bool \<Rightarrow> time option \<Rightarrow> bool" where
  "snapshot_is_stale c snapshot row_is_terminal row_updated_at =
     (case (snapshot, row_updated_at) of
        (Some s, Some row_at) \<Rightarrow>
          if row_is_terminal \<or> \<not> ends_stream s then False
          else (case uniso c (pe_timestamp s) of None \<Rightarrow> False | Some snapshot_at \<Rightarrow> snapshot_at < row_at)
      | _ \<Rightarrow> False)"

datatype open_error = Refused app_error | StreamCapacity

record opened =
  op_finished :: "progress_event option"
  op_row_updated_at :: "time option"
  op_scope :: tx_scope

text \<open>What the route does before it answers: the token, the row, and a slot.\<close>

definition stream_claim :: "crypto \<Rightarrow> time \<Rightarrow> uuid \<Rightarrow> string option \<Rightarrow> app_error + uuid" where
  "stream_claim cr now job_id token =
     (case token of
        None \<Rightarrow> Inl (AuthenticationError ''Missing stream token'')
      | Some tok \<Rightarrow>
          (case decode_token cr now tok ''stream'' of
             Inl e \<Rightarrow> Inl e
           | Inr payload \<Rightarrow>
               if jget payload ''sub'' \<noteq> juuid job_id then Inl (AuthorizationError ''Stream token was not issued for this job'')
               else (case uuid_parse (claim_text cr (jget payload ''tenant_id'')) of
                       None \<Rightarrow> Inl (AuthenticationError ''Stream token carries no usable tenant'')
                     | Some tenant_id \<Rightarrow> Inr tenant_id)))"

definition open_stream ::
    "crypto \<Rightarrow> codec \<Rightarrow> time \<Rightarrow> uuid \<Rightarrow> string option \<Rightarrow> auth_db \<Rightarrow> broker \<Rightarrow> (open_error + opened) \<times> broker" where
  "open_stream cr c now job_id token d b =
     (case stream_claim cr now job_id token of
        Inl e \<Rightarrow> (Inl (Refused e), b)
      | Inr tenant_id \<Rightarrow>
          (let d1 = declare_tenant_scope tenant_id (d\<lparr>au_tx := new_tx\<rparr>);
               row = get_for_tenant job_id tenant_id (au_core d1);
               finished = (case row of Some j \<Rightarrow> if job_status_value (j_status j) \<in> set ending_statuses
                                                then Some (terminal_event_from_row c now j) else None | None \<Rightarrow> None)
           in case acquire_stream_slot b of
                None \<Rightarrow> (Inl StreamCapacity, b)
              | Some (_, b1) \<Rightarrow> (Inr \<lparr>op_finished = finished, op_row_updated_at = map_option j_updated_at row, op_scope = au_tx d1\<rparr>, b1)))"

text \<open>How the generator begins: one event of the row, or a subscription that reads the snapshot or not.\<close>

datatype stream_plan = RowEvent progress_event | Subscribed bool

definition begin_stream :: "codec \<Rightarrow> opened \<Rightarrow> progress_event option \<Rightarrow> stream_plan" where
  "begin_stream c opn snapshot =
     (case (op_finished opn, snapshot) of
        (Some e, None) \<Rightarrow> RowEvent e
      | (f, _) \<Rightarrow> Subscribed (\<not> snapshot_is_stale c snapshot (f \<noteq> None) (op_row_updated_at opn)))"

section \<open>Viewers and publishers at work\<close>

text \<open>
  One process with its viewers, and the publications under way, of this and of other processes.
  \<open>sw_checked\<close> are events that have been found to supersede the snapshot and are not yet retained (the
  \<open>GET\<close> and the \<open>SET\<close> of \<open>publish\<close> are two commands), \<open>sw_unsent\<close> events that have been retained and not
  yet published, \<open>sw_wire\<close> messages on the shared connection. A viewer that has registered reads the
  snapshot, then takes items off its queue; \<open>Streaming True\<close> has read it. A \<open>GET\<close>, a \<open>SET\<close>, a \<open>SUBSCRIBE\<close> or
  a \<open>PUBLISH\<close> may fail. \<open>sw_impaired\<close> records the jobs for which the \<open>SUBSCRIBE\<close> of the first viewer or a
  \<open>PUBLISH\<close> failed, or of which one publication overtook an earlier one; no step reads it. The clock
  stands still: a snapshot outlives everything here by an hour.
\<close>

datatype phase = Registered bool | Streaming bool | Ended

record stream_world =
  sw_redis :: progress_redis
  sw_checked :: "progress_event list"
  sw_unsent :: "progress_event list"
  sw_wire :: "(string \<times> progress_event) list"
  sw_broker :: broker
  sw_viewers :: "nat \<Rightarrow> (string \<times> phase) option"
  sw_seen :: "nat \<Rightarrow> progress_event list"
  sw_impaired :: "string list"





section \<open>No viewer is left waiting\<close>

text \<open>What is on its way to the watchers of a job, oldest first.\<close>

definition pend :: "string \<Rightarrow> stream_world \<Rightarrow> progress_event list" where
  "pend j w = map snd (filter (\<lambda>m. fst m = j) (sw_wire w)) @ filter (\<lambda>e. pe_job_id e = j) (sw_unsent w)"








lemma put_queue_simps [simp]:
  "pb_subscribers (put_queue q i b) = pb_subscribers b" "pb_channels (put_queue q i b) = pb_channels b"
  "pb_active (put_queue q i b) = pb_active b" "pb_max_streams (put_queue q i b) = pb_max_streams b"
  "pb_queues (put_queue q i b) = (pb_queues b)(q := offer i (pb_queues b q))"
  by (simp_all add: put_queue_def)



lemma set_watchers: "set (watchers j b) = {q. (j, q) \<in> set (pb_subscribers b)}"
  by (force simp: watchers_def)




lemma read_sent [simp]: "read_last_event now j (send_event e r) = read_last_event now j r"
  by (simp add: read_last_event_def send_event_def)




lemma register_simps:
  "pb_subscribers (register_viewer up j q b) = pb_subscribers b @ [(j, q)]"
  "x \<noteq> q \<Longrightarrow> pb_queues (register_viewer up j q b) x = pb_queues b x"
  "pb_queues (register_viewer True j q b) = (pb_queues b)(q := [])"
  "pb_channels (register_viewer up j q b) = (if up \<and> watchers j b = [] then j # pb_channels b else pb_channels b)"
  by (simp_all add: register_viewer_def Let_def)





text \<open>The three steps that move an event towards the viewers, and the one that loses the connection.\<close>

lemma pend_simps:
  "pend j (w\<lparr>sw_redis := r\<rparr>) = pend j w" "pend j (w\<lparr>sw_broker := b\<rparr>) = pend j w" "pend j (w\<lparr>sw_viewers := vs\<rparr>) = pend j w"
  "pend j (w\<lparr>sw_seen := ss\<rparr>) = pend j w"
  "pend j (w\<lparr>sw_unsent := sw_unsent w @ [e]\<rparr>) = pend j w @ (if pe_job_id e = j then [e] else [])"
  by (simp_all add: pend_def)












definition lab_end :: progress_event where
  "lab_end = \<lparr>pe_job_id = ''j'', pe_status = ''completed'', pe_progress = 100, pe_message = ''ok'', pe_retry_count = 0,
     pe_timestamp = ''2'', pe_source = ''job.completed'', pe_sequence = Some 4\<rparr>"

definition no_snapshots :: progress_redis where
  "no_snapshots = \<lparr>pr_retained = (\<lambda>_. None), pr_sent = []\<rparr>"




text \<open>
  Two ways around it. A \<open>SUBSCRIBE\<close> that fails closes the viewer that asked for it, but leaves the
  job on the list of jobs that have one: the next viewer to register, before the first has left, waits on a channel nobody
  subscribed to. And a publication that fails after the snapshot was retained is never made again: its
  redelivery has the offset of the retained snapshot and is dropped as already published.
\<close>

lemma failed_subscribe_strands_next:
  assumes "watchers j b = []" "j \<notin> set (pb_channels b)" "q \<noteq> q'"
  shows "q' \<in> set (watchers j (register_viewer True j q' (register_viewer False j q b)))
    \<and> j \<notin> set (pb_channels (register_viewer True j q' (register_viewer False j q b)))
    \<and> pb_queues (register_viewer True j q' (register_viewer False j q b)) q' = []"
proof -
  let ?b = "register_viewer False j q b"
  have s: "pb_subscribers ?b = pb_subscribers b @ [(j, q)]" "pb_channels ?b = pb_channels b"
    using assms(1) by (simp_all add: register_viewer_def Let_def)
  then have "watchers j ?b \<noteq> []" by (simp add: watchers_def)
  then show ?thesis using assms(2) s by (simp add: register_simps set_watchers)
qed

lemma failed_publish_never_sent:
  assumes "ph_get h" "ph_set h" "\<not> ph_publish h" "supersedes e (read_last_event now (pe_job_id e) r)"
    and "pe_source e \<noteq> []" "pe_sequence e = Some n" "now \<le> later" "later < now + last_event_ttl_seconds"
    and "publish_progress h now e r = (x, r1)"
  shows "x = HandlerRaised \<and> pr_sent r1 = pr_sent r \<and> publish_progress h' later e r1 = (if ph_get h' then HandlerOk else HandlerRaised, r1)"
proof -
  have r1: "x = HandlerRaised" "r1 = retain_event now e r" using assms by (auto simp: publish_progress_def Let_def)
  have "read_last_event later (pe_job_id e) r1 = Some e" using assms(8) by (simp add: r1 read_last_event_def retain_event_def)
  then have "\<not> supersedes e (read_last_event later (pe_job_id e) r1)" using assms(5,6) by (simp add: supersedes_def)
  then show ?thesis using r1 by (simp add: publish_progress_def retain_event_def)
qed

section \<open>What the snapshot and the updates promise\<close>

text \<open>Any messages, in any order and repeated at will, with Redis calls that fail anywhere.\<close>

definition sse_run ::
    "codec \<Rightarrow> (json \<Rightarrow> string) \<Rightarrow> (publish_health \<times> time \<times> kmessage) list \<Rightarrow> progress_redis \<Rightarrow> progress_redis" where
  "sse_run c str ms r = fold (\<lambda>(h, now, m) r. snd (sse_handle c str h now m r)) ms r"

definition ended_until :: "time \<Rightarrow> string \<Rightarrow> progress_redis \<Rightarrow> bool" where
  "ended_until x j r \<longleftrightarrow> (\<exists>s x'. pr_retained r (last_key j) = Some (Some s, x') \<and> ends_stream s \<and> x \<le> x')"

lemma publish_keeps_ended:
  assumes "ended_until x j r" "now < x" "x \<le> now + last_event_ttl_seconds"
  shows "ended_until x j (snd (publish_progress h now e r))"
proof (cases "pe_job_id e = j")
  case True
  obtain s x' where s: "pr_retained r (last_key j) = Some (Some s, x')" "ends_stream s" "x \<le> x'" using assms(1) by (auto simp: ended_until_def)
  then have "read_last_event now j r = Some s" using assms(2) by (simp add: read_last_event_def)
  then have "ends_stream e" if "supersedes e (read_last_event now j r)" using that s(2) by (auto simp: supersedes_def split: if_splits)
  then show ?thesis
    using assms(1,3) True by (auto simp: publish_progress_def retain_event_def send_event_def ended_until_def Let_def)
next
  case False
  then have "last_key (pe_job_id e) \<noteq> last_key j" by (simp add: last_key_def)
  then show ?thesis
    using assms(1) by (auto simp: publish_progress_def retain_event_def send_event_def ended_until_def Let_def)
qed

lemma sse_handle_keeps_ended:
  assumes "ended_until x j r" "now < x" "x \<le> now + last_event_ttl_seconds"
  shows "ended_until x j (snd (sse_handle c str h now m r))"
  using assms(1) publish_keeps_ended [OF assms]
  by (auto simp: sse_handle_def split: json.splits sum.splits option.splits prod.splits)

text \<open>
  A finished job stays finished. While a retained ending has not expired, no message the broadcaster handles,
  whether late, reordered, redelivered or cut short by a Redis failure, brings the snapshot of the job
  back to a status that is not an ending.
\<close>

theorem snapshot_keeps_ending:
  assumes "pr_retained r (last_key j) = Some (Some s, x)" "ends_stream s" "x \<le> t0 + last_event_ttl_seconds"
    and "\<forall>(h, now, m) \<in> set ms. t0 \<le> now \<and> now < x" "t < x"
  shows "\<exists>s'. read_last_event t j (sse_run c str ms r) = Some s' \<and> ends_stream s'"
proof -
  have keeps: "ended_until x j (sse_run c str ms r)" if "ended_until x j r" for r
    using that assms(4)
  proof (induction ms arbitrary: r)
    case Nil
    then show ?case by (simp add: sse_run_def)
  next
    case (Cons m ms)
    obtain h now k where m: "m = (h, now, k)" by (cases m)
    have "now < x" "x \<le> now + last_event_ttl_seconds" using Cons.prems(2) assms(3) m by auto
    from sse_handle_keeps_ended [OF Cons.prems(1) this] have "ended_until x j (snd (sse_handle c str h now k r))" .
    from Cons.IH [OF this] Cons.prems(2) show ?case by (simp add: sse_run_def m)
  qed
  have "ended_until x j r" using assms(1,2) by (auto simp: ended_until_def)
  from keeps [OF this] show ?thesis using assms(5) by (auto simp: ended_until_def read_last_event_def)
qed

theorem snapshot_keeps_ending_witness:
  "\<exists>s'. read_last_event 9 ''j'' (sse_run sample_codec (\<lambda>_. []) [(\<lparr>ph_get = True, ph_set = True, ph_publish = True\<rparr>, 5,
      \<lparr>m_topic = ''job.progress'', m_partition = 0, m_offset = 3, m_key = None,
       m_value = JObj [(''job_id'', JStr ''j''), (''event'', JStr ''job.progress''), (''percent'', JInt 40)]\<rparr>)]
      (retain_event 2 lab_end no_snapshots)) = Some s' \<and> ends_stream s'"
  by (rule snapshot_keeps_ending [of _ _ lab_end 3602 2])
    (simp_all add: retain_event_def no_snapshots_def lab_end_def ending_statuses_def last_event_ttl_seconds_def)

text \<open>
  The rule orders one topic only. An ending that is redelivered after the job has been replayed and has ended
  again, on another topic, replaces the newer ending.
\<close>

lemma redelivered_ending_replaces:
  "ends_stream e \<Longrightarrow> pe_source e \<noteq> pe_source s \<Longrightarrow> supersedes e (Some s)"
  by (simp add: supersedes_def)

primrec throttled :: "(time \<times> int) list \<Rightarrow> throttle \<Rightarrow> int list" where
  "throttled [] th = []"
| "throttled (u # us) th = (case rate_limited (fst u) (snd u) th of (due, th') \<Rightarrow> (if due then snd u # throttled us th' else throttled us th'))"

lemma throttled_rising:
  "th_last_at th \<noteq> None \<Longrightarrow> sorted_wrt (<) (th_last_percent th # filter (\<lambda>p. p < 100) (throttled us th))"
proof (induction us arbitrary: th)
  case Nil
  then show ?case by simp
next
  case (Cons u us)
  obtain t where t: "th_last_at th = Some t" using Cons.prems by auto
  show ?case
  proof (cases "fst (rate_limited (fst u) (snd u) th)")
    case False
    then have "rate_limited (fst u) (snd u) th = (False, th)" by (auto simp: rate_limited_def Let_def split: if_splits)
    then show ?thesis using Cons by simp
  next
    case True
    let ?th = "\<lparr>th_last_at = Some (fst u), th_last_percent = snd u\<rparr>"
    have rl: "rate_limited (fst u) (snd u) th = (True, ?th)" using True by (auto simp: rate_limited_def Let_def split: if_splits)
    have up: "100 \<le> snd u \<or> th_last_percent th < snd u"
      using True t by (auto simp: rate_limited_def min_progress_delta_percent_def Let_def split: if_splits)
    have IH: "sorted_wrt (<) (snd u # filter (\<lambda>p. p < 100) (throttled us ?th))" using Cons.IH [of ?th] by simp
    show ?thesis
    proof (cases "100 \<le> snd u")
      case big: True
      then have "filter (\<lambda>p. p < 100) (throttled us ?th) = []" using IH by (auto simp: filter_empty_conv)
      then show ?thesis using big by (simp add: rl)
    next
      case False
      then have "th_last_percent th < snd u" using up by simp
      then show ?thesis using IH False by (auto simp: rl intro: less_trans)
    qed
  qed
qed

text \<open>
  Progress is cheap. However many updates a processor reports, at most a hundred below 100 percent
  are let through to Kafka and the event log; after the first they rise strictly, and every update at 100 percent goes out.
\<close>

theorem progress_updates_bounded:
  assumes "\<forall>u \<in> set us. 0 \<le> snd u"
  shows "length (filter (\<lambda>p. p < 100) (throttled us new_throttle)) \<le> 100
    \<and> filter (\<lambda>p. 100 \<le> p) (throttled us new_throttle) = filter (\<lambda>p. 100 \<le> p) (map snd us)"
proof -
  have all: "filter (\<lambda>p. 100 \<le> p) (throttled us th) = filter (\<lambda>p. 100 \<le> p) (map snd us)" for th
    by (induction us arbitrary: th) (auto simp: rate_limited_def Let_def split: option.splits)
  have sub: "set (throttled us th) \<subseteq> snd ` set us" for th
    by (induction us arbitrary: th) (auto split: prod.splits)
  let ?ps = "filter (\<lambda>p. p < 100) (throttled us new_throttle)"
  have "sorted_wrt (<) ?ps"
  proof (cases us)
    case (Cons u vs)
    let ?th = "\<lparr>th_last_at = Some (fst u), th_last_percent = snd u\<rparr>"
    have "throttled us new_throttle = snd u # throttled vs ?th" by (simp add: Cons rate_limited_def new_throttle_def)
    then show ?thesis using throttled_rising [of ?th vs] by auto
  qed simp
  then have "distinct ?ps" by (simp add: strict_sorted_iff)
  then have "length ?ps = card (set ?ps)" by (metis distinct_card)
  also have "\<dots> \<le> card {0..<100::int}"
    by (rule card_mono) (use sub [of new_throttle] assms in \<open>fastforce+\<close>)
  finally show ?thesis using all by simp
qed

theorem progress_updates_bounded_witness:
  "length (filter (\<lambda>p. p < 100) (throttled [(0, 0), (1 / 10, 1), (1, 5), (2, 100)] new_throttle)) \<le> 100"
  using progress_updates_bounded [of "[(0, 0), (1 / 10, 1), (1, 5), (2, 100)]"] by simp

section \<open>The budget of streams\<close>

text \<open>The slots the process has handed out, in order; each may be released any number of times.\<close>

datatype slot_event = Acquire | Release nat

fun slot_apply :: "slot_event \<Rightarrow> bool list \<times> broker \<Rightarrow> bool list \<times> broker" where
  "slot_apply Acquire (slots, b) = (case acquire_stream_slot b of None \<Rightarrow> (slots, b) | Some (released, b') \<Rightarrow> (slots @ [released], b'))"
| "slot_apply (Release i) (slots, b) =
     (if i < length slots then (case release_stream_slot (slots ! i) b of (released, b') \<Rightarrow> (slots[i := released], b')) else (slots, b))"

definition slots_ok :: "nat \<Rightarrow> bool list \<times> broker \<Rightarrow> bool" where
  "slots_ok n s \<longleftrightarrow> pb_max_streams (snd s) = n \<and> pb_active (snd s) = length (filter Not (fst s)) \<and> (0 < n \<longrightarrow> pb_active (snd s) \<le> n)"

lemma held_after_release:
  "i < length slots \<Longrightarrow> \<not> slots ! i \<Longrightarrow> length (filter Not (slots[i := True])) = length (filter Not slots) - 1"
proof (induction slots arbitrary: i)
  case (Cons s slots)
  show ?case
  proof (cases i)
    case (Suc k)
    then have "k < length slots" "\<not> slots ! k" using Cons.prems by simp_all
    then have "\<exists>x \<in> set slots. \<not> x" by (metis nth_mem)
    then have "0 < length (filter Not slots)" by (simp add: filter_empty_conv)
    then show ?thesis using Cons.IH [OF \<open>k < _\<close> \<open>\<not> slots ! k\<close>] Suc by auto
  qed (use Cons.prems in simp)
qed simp

lemma slot_apply_ok: "slots_ok n s \<Longrightarrow> slots_ok n (slot_apply ev s)"
proof (cases s)
  case (Pair slots b)
  assume ok: "slots_ok n s"
  show ?thesis
  proof (cases ev)
    case Acquire
    then show ?thesis using ok by (auto simp: Pair slots_ok_def acquire_stream_slot_def)
  next
    case (Release i)
    have "slots[i := True] = slots" if "slots ! i" using that by (metis list_update_id)
    then show ?thesis
      using ok held_after_release [of i slots] Release by (cases "slots ! i") (auto simp: Pair slots_ok_def release_stream_slot_def)
  qed
qed

interpretation slots: inv_step slot_apply "slots_ok n" for n
  by unfold_locales (rule slot_apply_ok)

text \<open>
  A slot is never leaked or returned twice. However acquisitions and releases interleave, and
  though a stream releases its slot from two places, the broker's count is the number of slots not yet released and never
  exceeds a positive limit; a request is refused exactly when the limit is reached.
\<close>

theorem stream_budget:
  assumes "s = fold slot_apply evs ([], new_broker n)"
  shows "pb_active (snd s) = length (filter Not (fst s)) \<and> (0 < n \<longrightarrow> pb_active (snd s) \<le> n)
    \<and> (acquire_stream_slot (snd s) = None \<longleftrightarrow> 0 < n \<and> length (filter Not (fst s)) = n)"
proof -
  have "slots_ok n ([], new_broker n)" by (simp add: slots_ok_def new_broker_def)
  from slots.fold_inv [OF this, of evs] have "slots_ok n s" by (simp add: assms)
  then show ?thesis by (auto simp: slots_ok_def acquire_stream_slot_def)
qed

theorem stream_budget_witness:
  "acquire_stream_slot (snd (fold slot_apply [Acquire, Acquire, Release 0, Release 0, Acquire] ([], new_broker 2))) = None"
  using stream_budget [of _ "[Acquire, Acquire, Release 0, Release 0, Acquire]" 2, OF refl]
  by (simp add: acquire_stream_slot_def new_broker_def release_stream_slot_def)

section \<open>Who may watch\<close>

lemma stream_claim_made:
  assumes "crypto_ok cr" "job < 2 ^ 128" "tenant < 2 ^ 128" "job_id < 2 ^ 128"
  shows "stream_claim cr now job_id (Some (create_stream_token cr t0 jti job tenant)) = Inr t \<longleftrightarrow>
    alive now t0 stream_token_ttl_seconds \<and> job_id = job \<and> t = tenant"
proof -
  let ?c = "[(''sub'', juuid job), (''tenant_id'', juuid tenant)]"
  let ?p = "token_payload t0 jti ?c stream_token_ttl_seconds ''stream''"
  have c: "text_claims ?c" by (simp add: text_claims_def juuid_def)
  have sub: "jget ?p ''sub'' = juuid job" "jget ?p ''tenant_id'' = juuid tenant"
    by (simp_all add: jget_def) (simp add: token_payload_def map_of_kv_set)
  have eq: "juuid job = juuid job_id \<longleftrightarrow> job_id = job" using uuid_str_inject [OF assms(2,4)] by (auto simp: juuid_def)
  have tn: "uuid_parse (claim_text cr (juuid tenant)) = Some tenant"
    using uuid_parse_str_bounded [OF assms(3)] by (simp add: claim_text_def juuid_def)
  show ?thesis
    unfolding stream_claim_def create_stream_token_def option.case decode_made [OF assms(1) c]
    by (cases "alive now t0 stream_token_ttl_seconds"; cases "job_id = job") (auto simp: sub eq tn)
qed

lemma issued_token:
  assumes "issue_stream_token cr t0 jti token job d = (Inr tok, d')"
  shows "\<exists>u j. u \<in> set (au_users d) \<and> us_is_active u \<and> get_job job (us_id u) (us_role u) (us_tenant_id u) (au_core d) = Inr j
     \<and> tok = create_stream_token cr t0 jti job (us_tenant_id u)"
proof -
  let ?d = "d\<lparr>au_tx := new_tx\<rparr>"
  obtain u d1 where u: "get_current_user cr t0 token ?d = Inr (u, d1)"
    and r: "(case get_job job (us_id u) (us_role u) (us_tenant_id u) (au_core d1) of
        Inl e \<Rightarrow> Inl e | Inr j \<Rightarrow> Inr (create_stream_token cr t0 jti job (us_tenant_id u), d1)) = Inr (tok, d1)"
    using assms by (auto simp: issue_stream_token_def get_db_def split: sum.splits)
  note s = get_current_user_scope [OF u]
  then have "au_core d1 = au_core d" by simp
  then show ?thesis using r s by (auto split: sum.splits)
qed

text \<open>
  A stream token opens one job, for a minute, to who may see it. A stream opens on a token the
  platform issued only for the job it was issued for and until its expiry; the token was issued to an
  active user who could read that job, and the row is read under that user's tenant and no other.
\<close>

theorem stream_authorised:
  assumes "crypto_ok cr" "ids_bounded d" "job < 2 ^ 128" "job_id < 2 ^ 128"
    and "issue_stream_token cr t0 jti token job d = (Inr tok, d')" "open_stream cr c now job_id (Some tok) later b = (Inr x, b')"
  shows "job_id = job \<and> \<lfloor>now\<rfloor> \<le> \<lfloor>t0 + 60\<rfloor> \<and> (\<exists>u j. u \<in> set (au_users d) \<and> us_is_active u
     \<and> get_job job (us_id u) (us_role u) (us_tenant_id u) (au_core d) = Inr j
     \<and> (\<forall>i. rls_match (op_scope x) i \<longleftrightarrow> i = us_tenant_id u))"
proof -
  obtain u j where u: "u \<in> set (au_users d)" "us_is_active u" "get_job job (us_id u) (us_role u) (us_tenant_id u) (au_core d) = Inr j"
    and tok: "tok = create_stream_token cr t0 jti job (us_tenant_id u)" using issued_token [OF assms(5)] by blast
  have t: "us_tenant_id u < 2 ^ 128" using u(1) assms(2) by (simp add: ids_bounded_def list_all_iff)
  obtain tenant where c: "stream_claim cr now job_id (Some tok) = Inr tenant"
    and x: "op_scope x = au_tx (declare_tenant_scope tenant (later\<lparr>au_tx := new_tx\<rparr>))"
    using assms(6) by (auto simp: open_stream_def Let_def split: sum.splits option.splits)
  from c stream_claim_made [OF assms(1,3) t assms(4)] have a: "alive now t0 stream_token_ttl_seconds" "job_id = job" "tenant = us_tenant_id u"
    unfolding tok by blast+
  have "rls_match (op_scope x) i \<longleftrightarrow> i = us_tenant_id u" for i unfolding x a(3) by simp
  moreover have "\<lfloor>now\<rfloor> \<le> \<lfloor>t0 + 60\<rfloor>" using a(1) by (simp add: alive_def stream_token_ttl_seconds_def)
  ultimately show ?thesis using a(2) u by blast
qed

definition lab_watch_db :: auth_db where
  "lab_watch_db = lab_users_db\<lparr>au_sa := (au_sa lab_auth_db)\<lparr>sa_core := empty_db\<lparr>jobs := [(sample_job 5 PENDING)\<lparr>j_tenant_id := 1, j_user_id := 2\<rparr>]\<rparr>\<rparr>\<rparr>"

theorem stream_authorised_witness:
  "\<exists>tok d' x b'. issue_stream_token lab_crypto 10 3 (fst (token_pair lab_crypto lab_ttls 9 (7, 8) lab_user)) 5 lab_watch_db = (Inr tok, d')
     \<and> open_stream lab_crypto sample_codec 12 5 (Some tok) lab_watch_db (new_broker 2) = (Inr x, b')
     \<and> (\<forall>i. rls_match (op_scope x) i \<longleftrightarrow> i = 1)"
proof -
  let ?tok = "create_stream_token lab_crypto 10 3 5 1"
  let ?d = "lab_watch_db\<lparr>au_tx := new_tx\<rparr>"
  have us: "au_users lab_watch_db = [lab_user]" by (simp add: lab_watch_db_def)
  have b: "us_id lab_user < 2 ^ 128" "us_tenant_id lab_user < 2 ^ 128" "ids_bounded ?d" "ids_bounded lab_watch_db"
    by (simp_all add: lab_user_def ids_bounded_def us)
  have "alive 10 9 (access_ttl lab_ttls)" by (simp add: alive_def access_ttl_def lab_ttls_def)
  then obtain d1 where u: "get_current_user lab_crypto 10 (fst (token_pair lab_crypto lab_ttls 9 (7, 8) lab_user)) ?d = Inr (lab_user, d1)"
    using access_token_works [OF lab_crypto_ok b(1-3), of 10 lab_ttls 9 "(7, 8)" lab_user] by (simp add: get_by_def us) (simp add: lab_user_def)
  have "au_core d1 = au_core lab_watch_db" using get_current_user_scope [OF u] by simp
  then have j: "\<exists>j. get_job 5 (us_id lab_user) (us_role lab_user) (us_tenant_id lab_user) (au_core d1) = Inr j"
    by (simp add: get_job_def get_for_tenant_def lab_watch_db_def lab_user_def sample_job_def)
  then obtain d' where i: "issue_stream_token lab_crypto 10 3 (fst (token_pair lab_crypto lab_ttls 9 (7, 8) lab_user)) 5 lab_watch_db = (Inr ?tok, d')"
    using u by (auto simp: issue_stream_token_def get_db_def) (simp add: lab_user_def)
  have "stream_claim lab_crypto 12 5 (Some ?tok) = Inr 1"
    using stream_claim_made [OF lab_crypto_ok, of 5 1 5 12 10 3 1] by (simp add: alive_def stream_token_ttl_seconds_def)
  then obtain x b' where o: "open_stream lab_crypto sample_codec 12 5 (Some ?tok) lab_watch_db (new_broker 2) = (Inr x, b')"
    by (simp add: open_stream_def acquire_stream_slot_def new_broker_def Let_def)
  have "(5 :: uuid) < 2 ^ 128" by simp
  from stream_authorised [OF lab_crypto_ok b(4) this this i o] have "\<forall>i. rls_match (op_scope x) i \<longleftrightarrow> i = us_tenant_id lab_user"
    by (auto simp: us)
  then show ?thesis using i o by (simp add: lab_user_def)
qed

end
