(* ===== verification/Llm_Services.thy ===== *)
theory Llm_Services
  imports Identity Event_Consumers Dispatcher
begin

text \<open>
  The services that ask a hosted language model: the four calls of \<open>services/triage.py\<close>,
  \<open>services/retry_policy.py\<close>, \<open>services/nl_query.py\<close> and \<open>services/incident_digest.py\<close> with the
  usage they report (\<open>services/_llm_usage.py\<close>), the triage of dead letters
  (\<open>repositories/triage.py\<close>, \<open>workers/triage_consumer.py\<close>) and the digest batch with the statistics it
  rests on (\<open>repositories/digest.py\<close>). The provider's client is a parameter: to a model name and the
  payload of the prompt it gives the time it took and what came back.
\<close>

section \<open>One call\<close>

text \<open>A response whose answer has passed the schema of its service, or has none.\<close>

record 'a llm_response =
  lr_parsed :: "'a option"
  lr_stop_reason :: "string option"
  lr_input_tokens :: int
  lr_output_tokens :: int
  lr_cache_creation :: "int option"
  lr_cache_read :: "int option"

datatype 'a api_outcome = ApiAnswer "'a llm_response" | ApiStatusError int string | ApiRaised string

type_synonym 'a llm_client = "string \<Rightarrow> dict \<Rightarrow> rat \<times> 'a api_outcome"

datatype llm_error = LlmDisabled string | ApiStatus int string | LlmFailed string

definition extract_usage :: "'a llm_response \<Rightarrow> dict" where
  "extract_usage r =
     [(''input_tokens'', JInt (lr_input_tokens r)), (''output_tokens'', JInt (lr_output_tokens r)),
      (''cache_creation_input_tokens'', JInt (case lr_cache_creation r of None \<Rightarrow> 0 | Some n \<Rightarrow> n)),
      (''cache_read_input_tokens'', JInt (case lr_cache_read r of None \<Rightarrow> 0 | Some n \<Rightarrow> n))]"

text \<open>The shape the four services share: the deadline, the provider's errors, an answer or none.\<close>

definition ask_model :: "string \<Rightarrow> rat \<Rightarrow> string \<Rightarrow> dict \<Rightarrow> 'a llm_client \<Rightarrow> llm_error + 'a \<times> dict \<times> string" where
  "ask_model what timeout model user_payload client =
     (case client model user_payload of (elapsed, outcome) \<Rightarrow>
        if timeout < elapsed then Inl (LlmFailed [])
        else (case outcome of
                ApiStatusError status msg \<Rightarrow> Inl (ApiStatus status msg)
              | ApiRaised msg \<Rightarrow> Inl (LlmFailed msg)
              | ApiAnswer r \<Rightarrow>
                  (case lr_parsed r of
                     None \<Rightarrow> Inl (LlmFailed (what @ '' parse returned no output (stop_reason='' @
                       (case lr_stop_reason r of None \<Rightarrow> ''None'' | Some s \<Rightarrow> s) @ '')''))
                   | Some x \<Rightarrow> Inr (x, extract_usage r, model))))"

record llm_settings =
  lm_triage_enabled :: bool
  lm_triage_model :: string
  lm_triage_timeout :: rat
  lm_retry_model :: string
  lm_retry_timeout :: rat
  lm_nl_enabled :: bool
  lm_nl_model :: string
  lm_nl_timeout :: rat
  lm_digest_enabled :: bool
  lm_digest_model :: string
  lm_digest_timeout :: rat
  lm_digest_window_hours :: int

section \<open>Triage (\<open>services/triage.py\<close>)\<close>

definition root_cause_categories :: "string list" where
  "root_cause_categories = [''external_api_failure'', ''validation_error'', ''infrastructure'', ''data_corruption'',
     ''configuration'', ''transient'', ''unknown'']"

record triage_analysis =
  an_root_cause_category :: string
  an_summary :: string
  an_suggested_fix :: string
  an_is_retryable :: bool
  an_confidence :: rat

definition valid_analysis :: "triage_analysis \<Rightarrow> bool" where
  "valid_analysis a \<longleftrightarrow> an_root_cause_category a \<in> set root_cause_categories \<and> length (an_summary a) \<le> 400
     \<and> length (an_suggested_fix a) \<le> 600 \<and> 0 \<le> an_confidence a \<and> an_confidence a \<le> 1"

definition min_hint_confidence :: rat where
  "min_hint_confidence = 1 / 2"

definition dependency_categories :: "string list" where
  "dependency_categories = [''external_api_failure'', ''infrastructure'']"

definition remediation_hint_for :: "triage_analysis \<Rightarrow> string option" where
  "remediation_hint_for a =
     (if an_confidence a < min_hint_confidence then None
      else if an_root_cause_category a = ''unknown'' then None
      else if \<not> an_is_retryable a then Some ''human_required''
      else if an_root_cause_category a \<in> set dependency_categories then Some ''wait_and_replay''
      else Some ''replay_safe'')"

definition triage_failure ::
    "llm_settings \<Rightarrow> triage_analysis llm_client \<Rightarrow> string \<Rightarrow> json \<Rightarrow> string \<Rightarrow> int \<Rightarrow> int \<Rightarrow> json
      \<Rightarrow> llm_error + triage_analysis \<times> dict \<times> string" where
  "triage_failure ls client job_type payload error_message retry_count max_attempts trace_id =
     (if \<not> lm_triage_enabled ls then Inl (LlmDisabled ''LLM triage is disabled (set LLM_TRIAGE_ENABLED=1)'')
      else ask_model ''triage'' (lm_triage_timeout ls) (lm_triage_model ls)
        [(''job_type'', JStr job_type), (''retry_count'', JInt retry_count), (''max_attempts'', JInt max_attempts),
         (''trace_id'', trace_id), (''error_message'', JStr error_message),
         (''payload'', if truthy payload then payload else JObj [])] client)"

section \<open>Retry policy (\<open>services/retry_policy.py\<close>)\<close>

definition valid_decision :: "retry_decision \<Rightarrow> bool" where
  "valid_decision dec \<longleftrightarrow> 0 \<le> rd_backoff_seconds dec \<and> rd_backoff_seconds dec \<le> 3600 \<and> length (rd_reasoning dec) \<le> 400"

definition decide_retry ::
    "settings \<Rightarrow> llm_settings \<Rightarrow> retry_decision llm_client \<Rightarrow> string \<Rightarrow> string \<Rightarrow> int \<Rightarrow> int \<Rightarrow> string option
      \<Rightarrow> llm_error + retry_decision \<times> dict \<times> string" where
  "decide_retry cfg ls client job_type error_message retry_count max_attempts prior_error =
     (if \<not> llm_retry_policy_enabled cfg then Inl (LlmDisabled ''LLM retry policy disabled (set LLM_RETRY_POLICY_ENABLED=1)'')
      else ask_model ''retry policy'' (lm_retry_timeout ls) (lm_retry_model ls)
        [(''job_type'', JStr job_type), (''current_error'', JStr error_message), (''prior_error'', jstr_opt prior_error),
         (''retry_count'', JInt retry_count), (''max_attempts'', JInt max_attempts)] client)"

text \<open>The dispatcher's consultation: any exception is no decision.\<close>

definition consult_decision ::
    "settings \<Rightarrow> llm_settings \<Rightarrow> retry_decision llm_client \<Rightarrow> run_ctx \<Rightarrow> string \<Rightarrow> retry_decision option" where
  "consult_decision cfg ls client rc exc =
     (case decide_retry cfg ls client (rc_job_type rc) exc (rc_retry_count rc + 1) (rc_max_attempts rc) (rc_prior_error rc) of
        Inl _ \<Rightarrow> None | Inr (dec, _, _) \<Rightarrow> Some dec)"

section \<open>Triage rows (\<open>models/triage.py\<close>, \<open>repositories/triage.py\<close>)\<close>

record job_triage =
  tg_id :: uuid
  tg_tenant_id :: uuid
  tg_job_id :: uuid
  tg_analysis :: triage_analysis
  tg_model_used :: string
  tg_usage :: dict
  tg_created_at :: time
  tg_updated_at :: time

record digest_row =
  dg_id :: uuid
  dg_tenant_id :: uuid
  dg_window_start :: time
  dg_window_end :: time
  dg_summary :: string
  dg_highlights :: dict
  dg_model_used :: string
  dg_usage :: dict
  dg_created_at :: time

text \<open>The tables of the platform with the two of the language-model services.\<close>

record llm_db =
  ld_auth :: auth_db
  ld_triages :: "job_triage list"
  ld_digests :: "digest_row list"

abbreviation ld_core :: "llm_db \<Rightarrow> db" where
  "ld_core d \<equiv> au_core (ld_auth d)"

definition with_core :: "db \<Rightarrow> llm_db \<Rightarrow> llm_db" where
  "with_core c d = d\<lparr>ld_auth := (ld_auth d)\<lparr>au_sa := (au_sa (ld_auth d))\<lparr>sa_core := c\<rparr>\<rparr>\<rparr>"

definition triage_by_job_id :: "uuid \<Rightarrow> llm_db \<Rightarrow> job_triage option" where
  "triage_by_job_id job_id d = get_by tg_job_id job_id (ld_triages d)"

definition triage_map_by_job_ids :: "uuid list \<Rightarrow> llm_db \<Rightarrow> uuid \<rightharpoonup> job_triage" where
  "triage_map_by_job_ids job_ids d =
     (if job_ids = [] then Map.empty
      else map_of (rev (map (\<lambda>r. (tg_job_id r, r)) (filter (\<lambda>r. tg_job_id r \<in> set job_ids) (ld_triages d)))))"

definition max_model_used :: nat where
  "max_model_used = 64"

text \<open>
  A row that changes has \<open>updated_at\<close> stamped; a new one must name a tenant and a job that exist.
\<close>

definition triage_upsert ::
    "time \<Rightarrow> uuid \<Rightarrow> uuid \<Rightarrow> triage_analysis \<Rightarrow> string \<Rightarrow> dict \<Rightarrow> llm_db \<Rightarrow> app_error + llm_db" where
  "triage_upsert now job_id tenant_id a model usage d =
     (if max_model_used < length model then Inl IntegrityError
      else (case triage_by_job_id job_id d of
              Some r \<Rightarrow>
                (let r' = r\<lparr>tg_analysis := a, tg_model_used := model, tg_usage := usage\<rparr>;
                     r2 = (if r' = r then r else r'\<lparr>tg_updated_at := now\<rparr>)
                 in Inr (d\<lparr>ld_triages := update_where (\<lambda>x. tg_job_id x = job_id) (\<lambda>_. r2) (ld_triages d)\<rparr>))
            | None \<Rightarrow>
                if tenant_id \<notin> tn_id ` set (au_tenants (ld_auth d)) \<or> job_id \<notin> j_id ` set (jobs (ld_core d)) then Inl IntegrityError
                else (let (i, auth) = fresh_id (ld_auth d)
                      in Inr (d\<lparr>ld_auth := auth, ld_triages := ld_triages d @ [\<lparr>tg_id = i, tg_tenant_id = tenant_id, tg_job_id = job_id,
                           tg_analysis = a, tg_model_used = model, tg_usage = usage, tg_created_at = now, tg_updated_at = now\<rparr>]\<rparr>))))"

section \<open>The triage consumer (\<open>workers/triage_consumer.py\<close>)\<close>

definition attempt_ceiling :: "dict \<Rightarrow> int" where
  "attempt_ceiling v =
     (let raw = (if jget v ''max_attempts'' = JNull then get_or v ''max_retries'' (JInt 0) else jget v ''max_attempts'')
      in case int_of_json raw of None \<Rightarrow> 0 | Some i \<Rightarrow> i)"

definition is_transient :: "int \<Rightarrow> bool" where
  "is_transient status_code \<longleftrightarrow> status_code = 429 \<or> 500 \<le> status_code"

text \<open>
  The guards: a message to leave alone, one whose job id is no text (\<open>uuid.UUID\<close> raises
  \<open>AttributeError\<close>, which nothing catches), or a job of a tenant to look at.
\<close>

datatype triage_target = SkipEvent | BadJobId | TriageOf uuid uuid dict

definition triage_target_of :: "json \<Rightarrow> triage_target" where
  "triage_target_of value =
     (case value of
        JObj v \<Rightarrow>
          if jget v ''event'' \<noteq> JStr ''job.failed'' \<or> jget v ''dead_lettered'' \<noteq> JBool True then SkipEvent
          else if \<not> truthy (jget v ''job_id'') then SkipEvent
          else (case jget v ''job_id'' of
                  JStr s \<Rightarrow>
                    (case uuid_parse s of
                       None \<Rightarrow> SkipEvent
                     | Some job_id \<Rightarrow>
                         (case tenant_of v of None \<Rightarrow> SkipEvent | Some tenant_id \<Rightarrow> TriageOf job_id tenant_id v))
                | _ \<Rightarrow> BadJobId)
      | _ \<Rightarrow> SkipEvent)"

text \<open>The call; its arguments are computed inside the same \<open>try\<close>.\<close>

definition triage_call ::
    "(rat \<Rightarrow> string) \<Rightarrow> llm_settings \<Rightarrow> triage_analysis llm_client \<Rightarrow> dict \<Rightarrow> llm_error + triage_analysis \<times> dict \<times> string" where
  "triage_call fr ls client v =
     (case int_of_json (get_or v ''retry_count'' (JInt 0)) of
        None \<Rightarrow> Inl (LlmFailed ''retry_count'')
      | Some retry_count \<Rightarrow>
          triage_failure ls client (py_str_json fr (get_or v ''job_type'' (JStr []))) (jget v ''payload'')
            (py_str_json fr (get_or v ''error'' (JStr []))) retry_count (attempt_ceiling v) (jget v ''trace_id''))"

text \<open>The transaction: the row, and the category on the job where it has none.\<close>

definition store_triage ::
    "time \<Rightarrow> uuid \<Rightarrow> uuid \<Rightarrow> triage_analysis \<Rightarrow> string \<Rightarrow> dict \<Rightarrow> llm_db \<Rightarrow> app_error + llm_db" where
  "store_triage now job_id tenant_id a model usage d =
     map_sum id (\<lambda>d1. case remediation_hint_for a of
         None \<Rightarrow> d1
       | Some hint \<Rightarrow> with_core (snd (set_remediation_hint_if_unset now job_id tenant_id hint (ld_core d1))) d1)
       (triage_upsert now job_id tenant_id a model usage d)"

definition triage_handle ::
    "(rat \<Rightarrow> string) \<Rightarrow> llm_settings \<Rightarrow> triage_analysis llm_client \<Rightarrow> bool \<Rightarrow> time \<Rightarrow> kmessage \<Rightarrow> llm_db
      \<Rightarrow> handler_end \<times> llm_db" where
  "triage_handle fr ls client db_ok now m d =
     (if \<not> lm_triage_enabled ls then (HandlerOk, d)
      else (case triage_target_of (m_value m) of
              SkipEvent \<Rightarrow> (HandlerOk, d)
            | BadJobId \<Rightarrow> (HandlerRaised, d)
            | TriageOf job_id tenant_id v \<Rightarrow>
                (case triage_call fr ls client v of
                   Inl (ApiStatus status _) \<Rightarrow> (if is_transient status then HandlerRaised else HandlerOk, d)
                 | Inl _ \<Rightarrow> (HandlerOk, d)
                 | Inr (a, usage, model) \<Rightarrow>
                     if \<not> db_ok then (HandlerRaised, d)
                     else (case store_triage now job_id tenant_id a model usage d of
                             Inl _ \<Rightarrow> (HandlerRaised, d)
                           | Inr d' \<Rightarrow> (HandlerOk, d')))))"

section \<open>Digests (\<open>repositories/digest.py\<close>, \<open>services/incident_digest.py\<close>)\<close>

definition digest_failed_statuses :: "job_status list" where
  "digest_failed_statuses = [FAILED, DEAD_LETTER]"

definition max_error_samples :: nat where
  "max_error_samples = 1000"

definition in_window :: "uuid \<Rightarrow> time \<Rightarrow> time \<Rightarrow> job \<Rightarrow> bool" where
  "in_window tenant_id window_start window_end j \<longleftrightarrow>
     j_tenant_id j = tenant_id \<and> window_start \<le> j_created_at j \<and> j_created_at j \<le> window_end"

text \<open>\<open>SELECT key, count(*) ... GROUP BY key\<close>.\<close>

definition group_counts :: "('r \<Rightarrow> string) \<Rightarrow> 'r list \<Rightarrow> (string \<times> nat) list" where
  "group_counts key rows = map (\<lambda>k. (k, row_count (\<lambda>r. key r = k) rows)) (remdups (map key rows))"

definition window_stats ::
    "uuid \<Rightarrow> time \<Rightarrow> time \<Rightarrow> db \<Rightarrow> (string \<times> nat) list \<times> (string \<times> nat) list \<times> string list" where
  "window_stats tenant_id window_start window_end d =
     (let rows = filter (in_window tenant_id window_start window_end) (jobs d);
          failures = filter (\<lambda>j. j_status j \<in> set digest_failed_statuses) rows;
          samples = take max_error_samples (List.map_filter j_error_message failures)
      in (group_counts (\<lambda>j. job_status_value (j_status j)) rows, group_counts j_type failures,
          filter (\<lambda>e. e \<noteq> []) samples))"

definition list_digests_for_tenant :: "uuid \<Rightarrow> nat \<Rightarrow> digest_row list \<Rightarrow> digest_row list" where
  "list_digests_for_tenant tenant_id limit rows =
     take limit (sort_key (\<lambda>r. - dg_window_end r) (filter (\<lambda>r. dg_tenant_id r = tenant_id) rows))"

definition latest_window_end :: "uuid \<Rightarrow> digest_row list \<Rightarrow> time option" where
  "latest_window_end tenant_id rows =
     (case filter (\<lambda>r. dg_tenant_id r = tenant_id) rows of
        [] \<Rightarrow> None | r # rs \<Rightarrow> Some (fold max (map dg_window_end rs) (dg_window_end r)))"

definition py_digit :: "char \<Rightarrow> bool" where
  "py_digit c \<longleftrightarrow> 48 \<le> (of_char c :: nat) \<and> (of_char c :: nat) \<le> 57"

text \<open>Every run of digits becomes one \<open>#\<close>.\<close>

fun collapse_digits :: "string \<Rightarrow> string" where
  "collapse_digits [] = []"
| "collapse_digits (c # cs) =
     (if \<not> py_digit c then c # collapse_digits cs
      else (case cs of
              [] \<Rightarrow> ''#''
            | e # _ \<Rightarrow> if py_digit e then collapse_digits cs else CHR ''#'' # collapse_digits cs))"

definition fingerprint :: "string \<Rightarrow> string" where
  "fingerprint msg = collapse_digits (strip py_space (take 120 msg))"

text \<open>A \<open>Counter\<close> keeps its keys in the order it met them.\<close>

fun count_key :: "string \<Rightarrow> (string \<times> nat) list \<Rightarrow> (string \<times> nat) list" where
  "count_key k [] = [(k, 1)]"
| "count_key k ((k', n) # rest) = (if k' = k then (k', n + 1) # rest else (k', n) # count_key k rest)"

definition top_errors :: "nat \<Rightarrow> string list \<Rightarrow> (string \<times> nat) list" where
  "top_errors n error_messages =
     take n (sort_key (\<lambda>kc. - int (snd kc))
       (fold (\<lambda>msg. count_key (fingerprint msg)) (filter (\<lambda>msg. strip py_space msg \<noteq> []) error_messages) []))"

record incident_digest =
  id_summary :: string
  id_key_concerns :: "string list"
  id_recommended_actions :: "string list"

definition counts_json :: "(string \<times> nat) list \<Rightarrow> json" where
  "counts_json kcs = JObj (map (\<lambda>(k, n). (k, JInt (int n))) kcs)"

definition generate_digest ::
    "(time \<Rightarrow> string) \<Rightarrow> llm_settings \<Rightarrow> incident_digest llm_client \<Rightarrow> string \<Rightarrow> time \<Rightarrow> time \<Rightarrow> (string \<times> nat) list
      \<Rightarrow> (string \<times> nat) list \<Rightarrow> string list \<Rightarrow> llm_error + incident_digest \<times> dict \<times> string" where
  "generate_digest isof ls client tenant_slug window_start window_end by_status failed_by_type error_messages =
     (if \<not> lm_digest_enabled ls then Inl (LlmDisabled ''Incident digests disabled (set LLM_DIGEST_ENABLED=1)'')
      else ask_model ''digest'' (lm_digest_timeout ls) (lm_digest_model ls)
        [(''tenant'', JStr tenant_slug), (''window_start'', JStr (isof window_start)), (''window_end'', JStr (isof window_end)),
         (''by_status'', counts_json by_status), (''failed_by_type'', counts_json failed_by_type),
         (''top_errors'', JArr (map (\<lambda>(s, n). JObj [(''sample'', JStr s), (''count'', JInt (int n))]) (top_errors 5 error_messages)))]
        client)"

definition collect_window_stats ::
    "uuid \<Rightarrow> time \<Rightarrow> time \<Rightarrow> db \<Rightarrow> ((string \<times> nat) list \<times> (string \<times> nat) list \<times> string list) option" where
  "collect_window_stats tenant_id window_start window_end d =
     (let stats = window_stats tenant_id window_start window_end d
      in if sum_list (map snd (fst stats)) = 0 then None else Some stats)"

definition persist_digest ::
    "time \<Rightarrow> tenant_row \<Rightarrow> time \<Rightarrow> time \<Rightarrow> (string \<times> nat) list \<Rightarrow> (string \<times> nat) list \<Rightarrow> incident_digest \<Rightarrow> dict \<Rightarrow> string
      \<Rightarrow> llm_db \<Rightarrow> app_error + digest_row \<times> llm_db" where
  "persist_digest now tenant window_start window_end by_status failed_by_type dig usage model d =
     (if max_model_used < length model \<or> tn_id tenant \<notin> tn_id ` set (au_tenants (ld_auth d)) then Inl IntegrityError
      else (let (i, auth) = fresh_id (ld_auth d);
                row = \<lparr>dg_id = i, dg_tenant_id = tn_id tenant, dg_window_start = window_start, dg_window_end = window_end,
                   dg_summary = id_summary dig,
                   dg_highlights = [(''key_concerns'', JArr (map JStr (id_key_concerns dig))),
                     (''recommended_actions'', JArr (map JStr (id_recommended_actions dig))),
                     (''by_status'', counts_json by_status), (''failed_by_type'', counts_json failed_by_type)],
                   dg_model_used = model, dg_usage = usage, dg_created_at = now\<rparr>
            in Inr (row, d\<lparr>ld_auth := auth, ld_digests := ld_digests d @ [row]\<rparr>)))"

text \<open>The older entry point: one session, and the first exception is the caller's.\<close>

definition run_digest_for_tenant ::
    "(time \<Rightarrow> string) \<Rightarrow> llm_settings \<Rightarrow> incident_digest llm_client \<Rightarrow> time \<Rightarrow> tenant_row \<Rightarrow> time \<Rightarrow> time \<Rightarrow> llm_db
      \<Rightarrow> (llm_error + app_error) + digest_row option \<times> llm_db" where
  "run_digest_for_tenant isof ls client now tenant window_start window_end d =
     (case collect_window_stats (tn_id tenant) window_start window_end (ld_core d) of
        None \<Rightarrow> Inr (None, d)
      | Some (by_status, failed_by_type, errors) \<Rightarrow>
          (case generate_digest isof ls client (tn_slug tenant) window_start window_end by_status failed_by_type errors of
             Inl e \<Rightarrow> Inl (Inl e)
           | Inr (dig, usage, model) \<Rightarrow>
               (case persist_digest now tenant window_start window_end by_status failed_by_type dig usage model d of
                  Inl e \<Rightarrow> Inl (Inr e)
                | Inr (row, d') \<Rightarrow> Inr (Some row, d'))))"

text \<open>
  What one tenant's turn of the batch meets: whether its two transactions go through, the settings and
  the clock as they are then, and the provider.
\<close>

record digest_turn =
  dt_read_ok :: bool
  dt_write_ok :: bool
  dt_settings :: llm_settings
  dt_now :: time
  dt_client :: "incident_digest llm_client"

datatype digest_end = Written | NotWritten | Disabled

definition digest_for_tenant ::
    "(time \<Rightarrow> string) \<Rightarrow> digest_turn \<Rightarrow> tenant_row \<Rightarrow> time \<Rightarrow> time \<Rightarrow> llm_db \<Rightarrow> digest_end \<times> llm_db" where
  "digest_for_tenant isof e tenant window_start window_end d =
     (if \<not> dt_read_ok e then (NotWritten, d)
      else (case collect_window_stats (tn_id tenant) window_start window_end (ld_core d) of
              None \<Rightarrow> (NotWritten, d)
            | Some (by_status, failed_by_type, errors) \<Rightarrow>
                (case generate_digest isof (dt_settings e) (dt_client e) (tn_slug tenant) window_start window_end by_status
                        failed_by_type errors of
                   Inl (LlmDisabled _) \<Rightarrow> (Disabled, d)
                 | Inl _ \<Rightarrow> (NotWritten, d)
                 | Inr (dig, usage, model) \<Rightarrow>
                     if \<not> dt_write_ok e then (NotWritten, d)
                     else (case persist_digest (dt_now e) tenant window_start window_end by_status failed_by_type dig usage model d of
                             Inl _ \<Rightarrow> (NotWritten, d)
                           | Inr (_, d') \<Rightarrow> (Written, d')))))"

fun digest_loop ::
    "(time \<Rightarrow> string) \<Rightarrow> (uuid \<Rightarrow> digest_turn) \<Rightarrow> time \<Rightarrow> time \<Rightarrow> tenant_row list \<Rightarrow> nat \<Rightarrow> llm_db \<Rightarrow> nat \<times> llm_db" where
  "digest_loop isof env window_start window_end [] n d = (n, d)"
| "digest_loop isof env window_start window_end (t # ts) n d =
     (case digest_for_tenant isof (env (tn_id t)) t window_start window_end d of
        (Written, d') \<Rightarrow> digest_loop isof env window_start window_end ts (Suc n) d'
      | (NotWritten, d') \<Rightarrow> digest_loop isof env window_start window_end ts n d'
      | (Disabled, d') \<Rightarrow> (n, d'))"

definition run_digest_for_all_active_tenants ::
    "(time \<Rightarrow> string) \<Rightarrow> llm_settings \<Rightarrow> (uuid \<Rightarrow> digest_turn) \<Rightarrow> time \<Rightarrow> llm_db \<Rightarrow> nat \<times> llm_db" where
  "run_digest_for_all_active_tenants isof ls env now d =
     digest_loop isof env (now - of_int (lm_digest_window_hours ls) * 3600) now
       (filter tn_is_active (au_tenants (ld_auth d))) 0 d"

text \<open>One pass of \<open>_digest_loop\<close> that is not paused.\<close>

definition digest_pass :: "(time \<Rightarrow> string) \<Rightarrow> llm_settings \<Rightarrow> (uuid \<Rightarrow> digest_turn) \<Rightarrow> time \<Rightarrow> llm_db \<Rightarrow> nat \<times> llm_db" where
  "digest_pass isof ls env now d =
     (if lm_digest_enabled ls then run_digest_for_all_active_tenants isof ls env now d else (0, d))"

section \<open>What triage leaves behind\<close>

text \<open>What one analysis does to one job.\<close>

definition take_hint :: "time \<Rightarrow> uuid \<Rightarrow> uuid \<Rightarrow> triage_analysis \<Rightarrow> job \<Rightarrow> job" where
  "take_hint now i tenant a j =
     (case remediation_hint_for a of
        None \<Rightarrow> j
      | Some h \<Rightarrow> if j_id j = i \<and> j_tenant_id j = tenant \<and> j_remediation_hint j = None
                 then j\<lparr>j_remediation_hint := Some h, j_updated_at := now\<rparr> else j)"

text \<open>One row per job, each of a job and a tenant that exist.\<close>

definition triage_ok :: "llm_db \<Rightarrow> bool" where
  "triage_ok d \<longleftrightarrow> distinct (map tg_job_id (ld_triages d))
     \<and> tg_job_id ` set (ld_triages d) \<subseteq> j_id ` set (jobs (ld_core d))
     \<and> tg_tenant_id ` set (ld_triages d) \<subseteq> tn_id ` set (au_tenants (ld_auth d))"

lemma take_hint_simps [simp]: "j_id (take_hint now i t a j) = j_id j" "j_tenant_id (take_hint now i t a j) = j_tenant_id j"
  by (simp_all add: take_hint_def split: option.split)

lemma take_hint_set: "j_remediation_hint j \<noteq> None \<Longrightarrow> take_hint now i t a j = j"
  by (auto simp: take_hint_def split: option.split)

lemma with_core_simps [simp]:
  "ld_core (with_core c d) = c" "ld_triages (with_core c d) = ld_triages d" "ld_digests (with_core c d) = ld_digests d"
  "au_tenants (ld_auth (with_core c d)) = au_tenants (ld_auth d)" "au_users (ld_auth (with_core c d)) = au_users (ld_auth d)"
  by (simp_all add: with_core_def)

lemma triage_upsert_frame:
  assumes "triage_upsert now i t a mo u d = Inr d'"
  shows "jobs (ld_core d') = jobs (ld_core d)" "au_tenants (ld_auth d') = au_tenants (ld_auth d)"
    "au_users (ld_auth d') = au_users (ld_auth d)" "ld_digests d' = ld_digests d"
    "outbox_events (ld_core d') = outbox_events (ld_core d)" "audit_logs (ld_core d') = audit_logs (ld_core d)"
  using assms by (auto simp: triage_upsert_def fresh_id_def Let_def split: if_splits option.splits)

lemma triage_upsert_row:
  assumes "triage_upsert now i t a mo u d = Inr d'"
  shows "\<exists>r. triage_by_job_id i d' = Some r \<and> tg_analysis r = a \<and> tg_model_used r = mo \<and> tg_usage r = u
      \<and> tg_tenant_id r = (case triage_by_job_id i d of None \<Rightarrow> t | Some r0 \<Rightarrow> tg_tenant_id r0)"
    and "k \<noteq> i \<Longrightarrow> triage_by_job_id k d' = triage_by_job_id k d"
proof -
  have "(\<exists>r. triage_by_job_id i d' = Some r \<and> tg_analysis r = a \<and> tg_model_used r = mo \<and> tg_usage r = u
      \<and> tg_tenant_id r = (case triage_by_job_id i d of None \<Rightarrow> t | Some r0 \<Rightarrow> tg_tenant_id r0))
    \<and> (k \<noteq> i \<longrightarrow> triage_by_job_id k d' = triage_by_job_id k d)"
  proof (cases "triage_by_job_id i d")
    case None
    with assms show ?thesis
      by (auto simp: triage_upsert_def triage_by_job_id_def get_by_append split: if_splits prod.splits option.splits)
  next
    case (Some r)
    define r2 where "r2 = (let r' = r\<lparr>tg_analysis := a, tg_model_used := mo, tg_usage := u\<rparr> in if r' = r then r else r'\<lparr>tg_updated_at := now\<rparr>)"
    have d': "d' = d\<lparr>ld_triages := update_where (\<lambda>x. tg_job_id x = i) (\<lambda>_. r2) (ld_triages d)\<rparr>"
      using assms Some by (auto simp: triage_upsert_def r2_def Let_def split: if_splits)
    have id: "tg_job_id r = i" using Some by (auto simp: triage_by_job_id_def dest: get_by_SomeD)
    have f: "tg_job_id r2 = i" "tg_analysis r2 = a" "tg_model_used r2 = mo" "tg_usage r2 = u" "tg_tenant_id r2 = tg_tenant_id r"
      using id by (auto simp: r2_def Let_def) (metis job_triage.select_convs job_triage.update_convs job_triage.surjective)+
    have "get_by tg_job_id k (update_where (\<lambda>x. tg_job_id x = i) (\<lambda>_. r2) rows) =
        (if k = i then map_option (\<lambda>_. r2) (get_by tg_job_id i rows) else get_by tg_job_id k rows)" for k rows
      using f(1) by (induction rows) auto
    then show ?thesis using Some f by (auto simp: d' triage_by_job_id_def)
  qed
  then show "\<exists>r. triage_by_job_id i d' = Some r \<and> tg_analysis r = a \<and> tg_model_used r = mo \<and> tg_usage r = u
      \<and> tg_tenant_id r = (case triage_by_job_id i d of None \<Rightarrow> t | Some r0 \<Rightarrow> tg_tenant_id r0)"
    "k \<noteq> i \<Longrightarrow> triage_by_job_id k d' = triage_by_job_id k d" by blast+
qed

lemma triage_upsert_ok:
  assumes "triage_upsert now i t a mo u d = Inr d'" "triage_ok d"
  shows "triage_ok d'"
proof (cases "triage_by_job_id i d")
  case None
  then have "i \<notin> tg_job_id ` set (ld_triages d)" by (simp add: triage_by_job_id_def get_by_None_iff)
  with None assms show ?thesis
    by (auto simp: triage_ok_def triage_upsert_def fresh_id_def image_subset_iff split: if_splits)
next
  case (Some r)
  define r2 where "r2 = (let r' = r\<lparr>tg_analysis := a, tg_model_used := mo, tg_usage := u\<rparr> in if r' = r then r else r'\<lparr>tg_updated_at := now\<rparr>)"
  have r: "r \<in> set (ld_triages d)" "tg_job_id r = i" using Some by (auto simp: triage_by_job_id_def dest: get_by_SomeD)
  have f: "tg_job_id r2 = i" "tg_tenant_id r2 = tg_tenant_id r" using r by (auto simp: r2_def Let_def)
  have d': "ld_triages d' = update_where (\<lambda>x. tg_job_id x = i) (\<lambda>_. r2) (ld_triages d)"
    using assms(1) Some by (auto simp: triage_upsert_def r2_def Let_def split: if_splits)
  have "map tg_job_id (ld_triages d') = map tg_job_id (ld_triages d)" unfolding d'
    using f(1) by (auto simp: update_where_def)
  moreover have "tg_tenant_id ` set (ld_triages d') \<subseteq> tg_tenant_id ` set (ld_triages d)"
    using r f(2) by (auto simp: d' set_update_where)
  ultimately show ?thesis using assms(2) triage_upsert_frame [OF assms(1)]
    unfolding triage_ok_def by (metis (no_types, lifting) list.set_map order_trans)
qed

lemma store_triageD:
  assumes "store_triage now i t a mo u d = Inr d'"
  obtains d1 where "triage_upsert now i t a mo u d = Inr d1" "ld_triages d' = ld_triages d1" "ld_digests d' = ld_digests d"
    "jobs (ld_core d') = map (take_hint now i t a) (jobs (ld_core d))" "au_tenants (ld_auth d') = au_tenants (ld_auth d)"
    "outbox_events (ld_core d') = outbox_events (ld_core d)" "audit_logs (ld_core d') = audit_logs (ld_core d)"
proof -
  from assms obtain d1 where d1: "triage_upsert now i t a mo u d = Inr d1"
    and d': "d' = (case remediation_hint_for a of None \<Rightarrow> d1
       | Some hint \<Rightarrow> with_core (snd (set_remediation_hint_if_unset now i t hint (ld_core d1))) d1)"
    by (cases "triage_upsert now i t a mo u d") (auto simp: store_triage_def)
  show thesis
    by (rule that [OF d1])
      (use triage_upsert_frame [OF d1] in \<open>auto simp: d' take_hint_def [abs_def] set_remediation_hint_if_unset_def update_where_def
         split: option.split\<close>)
qed

lemma store_triage_row:
  assumes "store_triage now i t a mo u d = Inr d'"
  shows "\<exists>r. triage_by_job_id i d' = Some r \<and> tg_analysis r = a \<and> tg_model_used r = mo \<and> tg_usage r = u
      \<and> tg_tenant_id r = (case triage_by_job_id i d of None \<Rightarrow> t | Some r0 \<Rightarrow> tg_tenant_id r0)"
    and "k \<noteq> i \<Longrightarrow> triage_by_job_id k d' = triage_by_job_id k d"
proof -
  obtain d1 where d1: "triage_upsert now i t a mo u d = Inr d1" "ld_triages d' = ld_triages d1" by (rule store_triageD [OF assms])
  have "triage_by_job_id x d' = triage_by_job_id x d1" for x by (simp add: triage_by_job_id_def d1(2))
  then show "\<exists>r. triage_by_job_id i d' = Some r \<and> tg_analysis r = a \<and> tg_model_used r = mo \<and> tg_usage r = u
      \<and> tg_tenant_id r = (case triage_by_job_id i d of None \<Rightarrow> t | Some r0 \<Rightarrow> tg_tenant_id r0)"
    "k \<noteq> i \<Longrightarrow> triage_by_job_id k d' = triage_by_job_id k d"
    using triage_upsert_row [OF d1(1)] by auto
qed

lemma store_triage_ok:
  assumes "store_triage now i t a mo u d = Inr d'" "triage_ok d"
  shows "triage_ok d'"
proof -
  obtain d1 where d1: "triage_upsert now i t a mo u d = Inr d1" "ld_triages d' = ld_triages d1"
    "jobs (ld_core d') = map (take_hint now i t a) (jobs (ld_core d))" "au_tenants (ld_auth d') = au_tenants (ld_auth d)"
    by (rule store_triageD [OF assms(1)])
  show ?thesis using triage_upsert_ok [OF d1(1) assms(2)] triage_upsert_frame [OF d1(1)]
    by (simp add: triage_ok_def d1 image_image)
qed

lemma get_by_map:
  assumes "\<And>r. k (f r) = k r"
  shows "get_by k i (map f rows) = map_option f (get_by k i rows)"
  by (induction rows) (auto simp: assms)

text \<open>What the consumer reads off the event the platform itself writes for a dead letter.\<close>

lemma target_of_dlq_event:
  assumes "j_id j < 2 ^ 128" "j_tenant_id j < 2 ^ 128"
  shows "triage_target_of (JObj (dlq_event_payload cfg j msg)) = TriageOf (j_id j) (j_tenant_id j) (dlq_event_payload cfg j msg)"
  using uuid_parse_str_bounded assms by (simp add: triage_target_of_def dlq_event_payload_def tenant_of_def juuid_def Let_def)

definition triage_prompt :: "settings \<Rightarrow> job \<Rightarrow> dict" where
  "triage_prompt cfg j =
     (let payload = jdict_opt (payload_for_event cfg (Some (drop_key trace_carrier_key (case j_payload j of None \<Rightarrow> [] | Some p \<Rightarrow> p))))
      in [(''job_type'', JStr (j_type j)), (''retry_count'', JInt (j_retry_count j)), (''max_attempts'', JInt (j_max_attempts j)),
          (''trace_id'', jstr_opt (j_trace_id j)), (''error_message'', JStr (str_or (j_error_message j) unspecified_error)),
          (''payload'', if truthy payload then payload else JObj [])])"

lemma triage_call_dlq_event:
  assumes "lm_triage_enabled ls"
  shows "triage_call fr ls client (dlq_event_payload cfg j msg) =
    ask_model ''triage'' (lm_triage_timeout ls) (lm_triage_model ls) (triage_prompt cfg j) client"
  using assms
  by (simp add: triage_call_def triage_failure_def triage_prompt_def attempt_ceiling_def get_or_def int_of_json_def py_str_json_def
      dlq_event_payload_def Let_def)

lemma triage_upsert_known:
  assumes "length mo \<le> 64" "t \<in> tn_id ` set (au_tenants (ld_auth d))" "i \<in> j_id ` set (jobs (ld_core d))"
  shows "\<exists>d'. triage_upsert now i t a mo u d = Inr d'"
  using assms by (simp add: triage_upsert_def max_model_used_def Let_def split: option.split prod.split)

lemma store_triage_known:
  assumes "length mo \<le> 64" "t \<in> tn_id ` set (au_tenants (ld_auth d))" "i \<in> j_id ` set (jobs (ld_core d))"
  shows "\<exists>d'. store_triage now i t a mo u d = Inr d'"
  using triage_upsert_known [OF assms, of now a u] by (auto simp: store_triage_def)

lemma ask_model_answer:
  "ask_model what timeout model p client = Inr (x, u, mo) \<longleftrightarrow>
     (\<exists>el r. client model p = (el, ApiAnswer r) \<and> el \<le> timeout \<and> lr_parsed r = Some x \<and> u = extract_usage r \<and> mo = model)"
  by (auto simp: ask_model_def not_less split: prod.splits api_outcome.splits option.splits)

text \<open>
  From one state to another: the job has the analysis as its one row, and its category as its hint where
  it had none; it changes in nothing else, and nothing changes for another job.
\<close>

definition analysed :: "job \<Rightarrow> triage_analysis \<Rightarrow> dict \<Rightarrow> llm_db \<Rightarrow> llm_db \<Rightarrow> bool" where
  "analysed j a usage d d' \<longleftrightarrow>
     (\<exists>row. triage_by_job_id (j_id j) d' = Some row \<and> tg_analysis row = a \<and> tg_usage row = usage)
     \<and> (\<exists>j'. job_by_id (ld_core d') (j_id j) = Some j'
          \<and> j_remediation_hint j' = (if j_remediation_hint j = None then remediation_hint_for a else j_remediation_hint j)
          \<and> j'\<lparr>j_remediation_hint := j_remediation_hint j, j_updated_at := j_updated_at j\<rparr> = j)
     \<and> (\<forall>i. i \<noteq> j_id j \<longrightarrow> triage_by_job_id i d' = triage_by_job_id i d \<and> job_by_id (ld_core d') i = job_by_id (ld_core d) i)"

lemma store_triage_analysed:
  assumes d': "store_triage now (j_id j) (j_tenant_id j) a mo u d = Inr d'" and j: "job_by_id (ld_core d) (j_id j) = Some j"
  shows "analysed j a u d d'"
proof -
  let ?f = "take_hint now (j_id j) (j_tenant_id j) a"
  have jobs': "jobs (ld_core d') = map ?f (jobs (ld_core d))" by (rule store_triageD [OF d'])
  have "job_by_id (ld_core d') i = job_by_id (ld_core d) i" if "i \<noteq> j_id j" for i
  proof -
    have "?f x = x" if "get_by j_id i (jobs (ld_core d)) = Some x" for x
      using that \<open>i \<noteq> j_id j\<close> by (auto simp: take_hint_def dest: get_by_SomeD split: option.split)
    then show ?thesis by (cases "job_by_id (ld_core d) i") (simp_all add: jobs' get_by_map)
  qed
  moreover have "job_by_id (ld_core d') (j_id j) = Some (?f j)" using j by (simp add: jobs' get_by_map)
  moreover have "j_remediation_hint (?f j) = (if j_remediation_hint j = None then remediation_hint_for a else j_remediation_hint j)"
    "(?f j)\<lparr>j_remediation_hint := j_remediation_hint j, j_updated_at := j_updated_at j\<rparr> = j"
    by (simp_all add: take_hint_def split: option.split)
  ultimately show ?thesis using store_triage_row [OF d'] unfolding analysed_def by blast
qed

text \<open>
  Property C27. The life of a dead letter's analysis. For the event the platform writes when it gives a job up, the
  model is asked with that job's own type, error, counts and payload. A timely answer that fits the
  schema becomes the job's one row, and its category becomes the job's hint where the job has none; the
  job changes in nothing else and no other job at all. An overloaded or failing provider (429 and from
  500 up), and a database that is down, leave the message to be delivered again. Everything else, a
  refusal, another status, a timeout, any other exception, leaves no trace and is not retried.
\<close>

theorem dead_letter_triaged:
  assumes ev: "lm_triage_enabled ls" "m_value m = JObj (dlq_event_payload cfg j0 msg)" "j_id j0 < 2 ^ 128" "j_tenant_id j0 < 2 ^ 128"
    and j: "job_by_id (ld_core d) (j_id j0) = Some j" "j_tenant_id j = j_tenant_id j0"
    and fk: "j_tenant_id j0 \<in> tn_id ` set (au_tenants (ld_auth d))" "length (lm_triage_model ls) \<le> 64"
    and answer: "client (lm_triage_model ls) (triage_prompt cfg j0) = (elapsed, outcome)"
  shows "if lm_triage_timeout ls < elapsed then triage_handle fr ls client db_ok now m d = (HandlerOk, d)
    else case outcome of
      ApiStatusError status _ \<Rightarrow> triage_handle fr ls client db_ok now m d = (if status = 429 \<or> 500 \<le> status then HandlerRaised else HandlerOk, d)
    | ApiRaised _ \<Rightarrow> triage_handle fr ls client db_ok now m d = (HandlerOk, d)
    | ApiAnswer r \<Rightarrow>
        (case lr_parsed r of
           None \<Rightarrow> triage_handle fr ls client db_ok now m d = (HandlerOk, d)
         | Some a \<Rightarrow>
             if \<not> db_ok then triage_handle fr ls client db_ok now m d = (HandlerRaised, d)
             else \<exists>d'. triage_handle fr ls client db_ok now m d = (HandlerOk, d') \<and> analysed j a (extract_usage r) d d')"
proof -
  let ?i = "j_id j0" and ?t = "j_tenant_id j0" and ?mo = "lm_triage_model ls"
  have h: "triage_handle fr ls client db_ok now m d =
      (case ask_model ''triage'' (lm_triage_timeout ls) ?mo (triage_prompt cfg j0) client of
         Inl (ApiStatus status _) \<Rightarrow> (if is_transient status then HandlerRaised else HandlerOk, d)
       | Inl _ \<Rightarrow> (HandlerOk, d)
       | Inr (a, usage, model) \<Rightarrow>
           if \<not> db_ok then (HandlerRaised, d)
           else (case store_triage now ?i ?t a model usage d of Inl _ \<Rightarrow> (HandlerRaised, d) | Inr d' \<Rightarrow> (HandlerOk, d')))" for db_ok
    using ev by (simp add: triage_handle_def target_of_dlq_event triage_call_dlq_event)
  have id: "j_id j = ?i" using j(1) by (auto dest: get_by_SomeD)
  have "?i \<in> j_id ` set (jobs (ld_core d))" using j(1) get_by_None_iff [of j_id ?i "jobs (ld_core d)"] by auto
  note known = store_triage_known [OF fk(2) fk(1) this, of now]
  have stored: "\<exists>d'. (case store_triage now ?i ?t a ?mo u d of Inl _ \<Rightarrow> (HandlerRaised, d) | Inr d' \<Rightarrow> (HandlerOk, d')) = (HandlerOk, d')
      \<and> analysed j a u d d'" for a u
    using known [of a u] store_triage_analysed [of now j a ?mo u d] j id by auto
  show ?thesis
  proof (cases outcome)
    case (ApiAnswer r)
    then show ?thesis using answer by (simp add: h ask_model_def stored split: option.split)
  qed (use answer in \<open>simp_all add: h ask_model_def is_transient_def\<close>)
qed

text \<open>A history of deliveries, in any order and any number.\<close>

record triage_step =
  st_client :: "triage_analysis llm_client"
  st_db_ok :: bool
  st_now :: time
  st_message :: kmessage

definition triage_run :: "(rat \<Rightarrow> string) \<Rightarrow> llm_settings \<Rightarrow> triage_step list \<Rightarrow> llm_db \<Rightarrow> llm_db" where
  "triage_run fr ls steps d = fold (\<lambda>st d. snd (triage_handle fr ls (st_client st) (st_db_ok st) (st_now st) (st_message st) d)) steps d"

definition answered_by :: "triage_step \<Rightarrow> triage_analysis \<Rightarrow> bool" where
  "answered_by st a \<longleftrightarrow> (\<exists>model payload elapsed r. st_client st model payload = (elapsed, ApiAnswer r) \<and> lr_parsed r = Some a)"

lemma triage_handle_step:
  "snd (triage_handle fr ls (st_client st) db_ok now m d) = d \<or>
   (\<exists>i t a mo u. store_triage now i t a mo u d = Inr (snd (triage_handle fr ls (st_client st) db_ok now m d)) \<and> answered_by st a)"
proof (cases "triage_target_of (m_value m)")
  case (TriageOf i t v)
  have "answered_by st a" if "triage_call fr ls (st_client st) v = Inr (a, u, mo)" for a u mo
    using that by (auto simp: triage_call_def triage_failure_def ask_model_answer answered_by_def split: option.splits if_splits)
  then show ?thesis
    by (auto simp: triage_handle_def TriageOf split: sum.splits llm_error.splits prod.splits) blast
qed (simp_all add: triage_handle_def)

text \<open>What a job may look like after a history: it has kept its hint, or got one it did not have.\<close>

definition hint_only :: "triage_step list \<Rightarrow> job \<Rightarrow> job \<Rightarrow> bool" where
  "hint_only steps j j' \<longleftrightarrow> j' = j \<or>
     j_remediation_hint j = None
     \<and> j'\<lparr>j_remediation_hint := None, j_updated_at := j_updated_at j\<rparr> = j
     \<and> (\<exists>st \<in> set steps. \<exists>a. answered_by st a \<and> j_remediation_hint j' = remediation_hint_for a \<and> j_remediation_hint j' \<noteq> None)"

lemma hint_only_Cons:
  assumes "hint_only steps j1 j'" "j1 = j \<or> (\<exists>now i t a. answered_by st a \<and> j1 = take_hint now i t a j)"
  shows "hint_only (st # steps) j j'"
proof (cases "j1 = j")
  case False
  with assms(2) obtain now i t a where a: "answered_by st a" "j1 = take_hint now i t a j" by blast
  with False obtain h where h: "remediation_hint_for a = Some h" "j_remediation_hint j = None"
    "j1 = j\<lparr>j_remediation_hint := Some h, j_updated_at := now\<rparr>"
    by (auto simp: take_hint_def split: option.splits if_splits)
  then have "j' = j1" using assms(1) by (simp add: hint_only_def)
  then show ?thesis using h a(1) by (force simp: hint_only_def)
qed (use assms(1) in \<open>auto simp: hint_only_def\<close>)

lemma triage_run_frame:
  assumes "triage_ok d"
  shows "triage_ok (triage_run fr ls steps d) \<and> outbox_events (ld_core (triage_run fr ls steps d)) = outbox_events (ld_core d)
    \<and> audit_logs (ld_core (triage_run fr ls steps d)) = audit_logs (ld_core d)
    \<and> (\<forall>i j. job_by_id (ld_core d) i = Some j \<longrightarrow> (\<exists>j'. job_by_id (ld_core (triage_run fr ls steps d)) i = Some j' \<and> hint_only steps j j'))"
  using assms
proof (induction steps arbitrary: d)
  case Nil
  then show ?case by (simp add: triage_run_def hint_only_def)
next
  case (Cons st steps)
  define d1 where "d1 = snd (triage_handle fr ls (st_client st) (st_db_ok st) (st_now st) (st_message st) d)"
  have run: "triage_run fr ls (st # steps) d = triage_run fr ls steps d1" by (simp add: triage_run_def d1_def)
  from triage_handle_step [of fr ls st] consider "d1 = d"
    | i t a mo u where "store_triage (st_now st) i t a mo u d = Inr d1" "answered_by st a"
    unfolding d1_def by blast
  then have one: "triage_ok d1 \<and> outbox_events (ld_core d1) = outbox_events (ld_core d) \<and> audit_logs (ld_core d1) = audit_logs (ld_core d)
      \<and> (\<forall>i j. job_by_id (ld_core d) i = Some j \<longrightarrow> (\<exists>j1. job_by_id (ld_core d1) i = Some j1
            \<and> (j1 = j \<or> (\<exists>now i t a. answered_by st a \<and> j1 = take_hint now i t a j))))"
  proof cases
    case (2 i t a mo u)
    from store_triage_ok [OF 2(1) Cons.prems] 2(2) show ?thesis
      by (rule_tac store_triageD [OF 2(1)]) (auto simp: get_by_map)
  qed (use Cons.prems in simp)
  then have "triage_ok d1" by blast
  note IH = Cons.IH [OF this]
  have "\<exists>j'. job_by_id (ld_core (triage_run fr ls steps d1)) i = Some j' \<and> hint_only (st # steps) j j'"
    if jb: "job_by_id (ld_core d) i = Some j" for i j
  proof -
    obtain j1 where j1: "job_by_id (ld_core d1) i = Some j1" "j1 = j \<or> (\<exists>now i t a. answered_by st a \<and> j1 = take_hint now i t a j)"
      using one jb by blast
    with IH obtain j' where "job_by_id (ld_core (triage_run fr ls steps d1)) i = Some j'" "hint_only steps j1 j'" by blast
    with hint_only_Cons [OF _ j1(2)] show ?thesis by blast
  qed
  then show ?case using IH one unfolding run by simp
qed

text \<open>
  Triage advises and never overrules. Whatever messages arrive, however often, and whatever the provider
  answers: a job that has a category, whoever gave it, keeps it and is not touched at all; a job without
  one changes in nothing but its category and its modification time; and it is called safe to replay only
  on an analysis that said so with confidence of at least one half, of a cause that is neither unknown
  nor a dependency that may still be down. There is one row per job, of a job and a tenant that exist;
  no event and no audit row is written.
\<close>

theorem triage_never_overrules:
  assumes "triage_ok d" "d' = triage_run fr ls steps d"
  shows "triage_ok d' \<and> outbox_events (ld_core d') = outbox_events (ld_core d) \<and> audit_logs (ld_core d') = audit_logs (ld_core d)
    \<and> (\<forall>i j. job_by_id (ld_core d) i = Some j \<longrightarrow> (\<exists>j'. job_by_id (ld_core d') i = Some j'
        \<and> (j_remediation_hint j \<noteq> None \<longrightarrow> j' = j)
        \<and> j'\<lparr>j_remediation_hint := j_remediation_hint j, j_updated_at := j_updated_at j\<rparr> = j
        \<and> (j_remediation_hint j' \<noteq> j_remediation_hint j \<longrightarrow> (\<exists>st \<in> set steps. \<exists>a. answered_by st a
              \<and> 1 / 2 \<le> an_confidence a \<and> an_root_cause_category a \<noteq> ''unknown''
              \<and> (j_remediation_hint j' = Some ''human_required'' \<longleftrightarrow> \<not> an_is_retryable a)
              \<and> (j_remediation_hint j' = Some ''replay_safe'' \<longrightarrow> an_is_retryable a
                   \<and> an_root_cause_category a \<notin> {''external_api_failure'', ''infrastructure''})))))"
proof -
  have m: "1 / 2 \<le> an_confidence a \<and> an_root_cause_category a \<noteq> ''unknown''
      \<and> (remediation_hint_for a = Some ''human_required'' \<longleftrightarrow> \<not> an_is_retryable a)
      \<and> (remediation_hint_for a = Some ''replay_safe'' \<longrightarrow> an_is_retryable a
           \<and> an_root_cause_category a \<notin> {''external_api_failure'', ''infrastructure''})" if "remediation_hint_for a \<noteq> None" for a
    using that by (auto simp: remediation_hint_for_def min_hint_confidence_def dependency_categories_def not_less split: if_splits)
  have "(j_remediation_hint j \<noteq> None \<longrightarrow> j' = j)
        \<and> j'\<lparr>j_remediation_hint := j_remediation_hint j, j_updated_at := j_updated_at j\<rparr> = j
        \<and> (j_remediation_hint j' \<noteq> j_remediation_hint j \<longrightarrow> (\<exists>st \<in> set steps. \<exists>a. answered_by st a
              \<and> 1 / 2 \<le> an_confidence a \<and> an_root_cause_category a \<noteq> ''unknown''
              \<and> (j_remediation_hint j' = Some ''human_required'' \<longleftrightarrow> \<not> an_is_retryable a)
              \<and> (j_remediation_hint j' = Some ''replay_safe'' \<longrightarrow> an_is_retryable a
                   \<and> an_root_cause_category a \<notin> {''external_api_failure'', ''infrastructure''})))"
    if ho: "hint_only steps j j'" for j j'
  proof (cases "j' = j")
    case False
    with ho obtain st a where "j_remediation_hint j = None" "j'\<lparr>j_remediation_hint := None, j_updated_at := j_updated_at j\<rparr> = j"
      "st \<in> set steps" "answered_by st a" "j_remediation_hint j' = remediation_hint_for a" "remediation_hint_for a \<noteq> None"
      unfolding hint_only_def by metis
    with m [of a] show ?thesis by (intro conjI impI bexI [of _ st] exI [of _ a]) simp_all
  qed simp
  with triage_run_frame [OF assms(1), of fr ls steps] show ?thesis unfolding assms(2) by blast
qed

section \<open>Witnesses of triage\<close>

definition lab_analysis :: "string \<Rightarrow> triage_analysis" where
  "lab_analysis category = \<lparr>an_root_cause_category = category, an_summary = ''upstream timed out'', an_suggested_fix = ''replay'',
     an_is_retryable = True, an_confidence = 9 / 10\<rparr>"

definition lab_response :: "'a \<Rightarrow> 'a llm_response" where
  "lab_response x = \<lparr>lr_parsed = Some x, lr_stop_reason = Some ''end_turn'', lr_input_tokens = 900, lr_output_tokens = 80,
     lr_cache_creation = None, lr_cache_read = Some 700\<rparr>"

definition lab_client :: "'a \<Rightarrow> 'a llm_client" where
  "lab_client x = (\<lambda>_ _. (2, ApiAnswer (lab_response x)))"

definition lab_llm :: llm_settings where
  "lab_llm = \<lparr>lm_triage_enabled = True, lm_triage_model = ''claude-opus-4-7'', lm_triage_timeout = 10,
     lm_retry_model = ''claude-opus-4-7'', lm_retry_timeout = 10, lm_nl_enabled = True, lm_nl_model = ''claude-opus-4-7'', lm_nl_timeout = 10,
     lm_digest_enabled = True, lm_digest_model = ''claude-opus-4-7'', lm_digest_timeout = 10, lm_digest_window_hours = 24\<rparr>"

definition lab_dead_job :: job where
  "lab_dead_job = (sample_job 5 DEAD_LETTER)\<lparr>j_tenant_id := 0, j_error_message := Some ''503 upstream''\<rparr>"

definition lab_llm_db :: "job list \<Rightarrow> llm_db" where
  "lab_llm_db rows = \<lparr>ld_auth = lab_auth_db\<lparr>au_sa := (au_sa lab_auth_db)\<lparr>sa_core := empty_db\<lparr>jobs := rows, next_uuid := 100\<rparr>\<rparr>\<rparr>,
     ld_triages = [], ld_digests = []\<rparr>"

definition lab_dlq_message :: kmessage where
  "lab_dlq_message = \<lparr>m_topic = ''job.dlq'', m_partition = 0, m_offset = 3, m_key = None,
     m_value = JObj (dlq_event_payload default_settings lab_dead_job None)\<rparr>"

lemma lab_dead_job_simps [simp]:
  "j_id lab_dead_job = 5" "j_tenant_id lab_dead_job = 0" "j_remediation_hint lab_dead_job = None" "j_status lab_dead_job = DEAD_LETTER"
  by (simp_all add: lab_dead_job_def sample_job_def new_job_def)

lemma lab_llm_db_simps [simp]:
  "jobs (ld_core (lab_llm_db rows)) = rows" "0 \<in> tn_id ` set (au_tenants (ld_auth (lab_llm_db rows)))" "ld_triages (lab_llm_db rows) = []"
  by (simp_all add: lab_llm_db_def lab_auth_db_def)

lemma lab_llm_simps [simp]: "lm_triage_enabled lab_llm" "lm_triage_timeout lab_llm = 10" "length (lm_triage_model lab_llm) \<le> 64"
  by (simp_all add: lab_llm_def)

theorem dead_letter_triaged_witness:
  "\<exists>d' row j'. triage_handle (\<lambda>_. []) lab_llm (lab_client (lab_analysis ''transient'')) True 50 lab_dlq_message (lab_llm_db [lab_dead_job]) = (HandlerOk, d')
     \<and> triage_by_job_id 5 d' = Some row \<and> tg_analysis row = lab_analysis ''transient''
     \<and> job_by_id (ld_core d') 5 = Some j' \<and> j_remediation_hint j' = Some ''replay_safe''"
proof -
  have "job_by_id (ld_core (lab_llm_db [lab_dead_job])) (j_id lab_dead_job) = Some lab_dead_job" by simp
  from dead_letter_triaged [OF _ _ _ _ this, of lab_llm lab_dlq_message default_settings None
      "lab_client (lab_analysis ''transient'')" 2 "ApiAnswer (lab_response (lab_analysis ''transient''))" "\<lambda>_. []" True 50]
  obtain d' where d': "triage_handle (\<lambda>_. []) lab_llm (lab_client (lab_analysis ''transient'')) True 50 lab_dlq_message (lab_llm_db [lab_dead_job]) = (HandlerOk, d')"
    and a: "analysed lab_dead_job (lab_analysis ''transient'') (extract_usage (lab_response (lab_analysis ''transient''))) (lab_llm_db [lab_dead_job]) d'"
    by (auto simp: lab_dlq_message_def lab_client_def lab_response_def)
  have "remediation_hint_for (lab_analysis ''transient'') = Some ''replay_safe''"
    by (simp add: remediation_hint_for_def lab_analysis_def min_hint_confidence_def dependency_categories_def)
  with a d' show ?thesis by (auto simp: analysed_def)
qed

definition lab_triage_step :: triage_step where
  "lab_triage_step = \<lparr>st_client = lab_client (lab_analysis ''transient''), st_db_ok = True, st_now = 50, st_message = lab_dlq_message\<rparr>"

theorem triage_never_overrules_witness:
  "job_by_id (ld_core (triage_run (\<lambda>_. []) lab_llm [lab_triage_step] (lab_llm_db [lab_dead_job\<lparr>j_remediation_hint := Some ''human_required''\<rparr>]))) 5
     = Some (lab_dead_job\<lparr>j_remediation_hint := Some ''human_required''\<rparr>)"
proof -
  let ?j = "lab_dead_job\<lparr>j_remediation_hint := Some ''human_required''\<rparr>"
  have "triage_ok (lab_llm_db [?j])" by (simp add: triage_ok_def)
  moreover have "job_by_id (ld_core (lab_llm_db [?j])) 5 = Some ?j" by simp
  moreover have "j_remediation_hint ?j \<noteq> None" by simp
  ultimately show ?thesis using triage_never_overrules [OF _ refl, of "lab_llm_db [?j]" "\<lambda>_. []" lab_llm "[lab_triage_step]"] by metis
qed

text \<open>
  The row and the hint can come apart: delivered twice and analysed differently, the row has the second
  analysis and the job the category of the first.
\<close>

lemma redelivered_triage_drifts:
  "\<exists>d row j. d = triage_run (\<lambda>_. []) lab_llm [lab_triage_step, lab_triage_step\<lparr>st_client := lab_client ((lab_analysis ''transient'')\<lparr>an_is_retryable := False\<rparr>)\<rparr>]
       (lab_llm_db [lab_dead_job])
     \<and> triage_by_job_id 5 d = Some row \<and> \<not> an_is_retryable (tg_analysis row)
     \<and> job_by_id (ld_core d) 5 = Some j \<and> j_remediation_hint j = Some ''replay_safe''"
proof -
  let ?a = "(lab_analysis ''transient'')\<lparr>an_is_retryable := False\<rparr>"
  have v: "triage_target_of (m_value lab_dlq_message) = TriageOf 5 0 (dlq_event_payload default_settings lab_dead_job None)"
    using target_of_dlq_event [of lab_dead_job default_settings None] by (simp add: lab_dlq_message_def)
  have c: "triage_call (\<lambda>_. []) lab_llm (lab_client a) (dlq_event_payload default_settings lab_dead_job None) =
      Inr (a, extract_usage (lab_response a), ''claude-opus-4-7'')" for a
    by (simp add: triage_call_dlq_event ask_model_answer lab_client_def) (simp add: lab_response_def lab_llm_def)
  have h: "snd (triage_handle (\<lambda>_. []) lab_llm (lab_client a) True 50 lab_dlq_message d) =
      (case store_triage 50 5 0 a ''claude-opus-4-7'' (extract_usage (lab_response a)) d of Inl _ \<Rightarrow> d | Inr d' \<Rightarrow> d')" for a d
    by (simp add: triage_handle_def v c split: sum.split)
  show ?thesis
    by (simp add: triage_run_def lab_triage_step_def h)
      (simp add: store_triage_def triage_upsert_def triage_by_job_id_def max_model_used_def fresh_id_def remediation_hint_for_def
        lab_analysis_def min_hint_confidence_def dependency_categories_def set_remediation_hint_if_unset_def with_core_def lab_llm_db_def
        lab_auth_db_def Let_def update_where_def)
qed

text \<open>
  An event whose job is gone blocks its partition: with the provider answering, every delivery raises,
  after a paid call.
\<close>

lemma deleted_job_blocks:
  assumes "lm_triage_enabled ls" "m_value m = JObj (dlq_event_payload cfg j0 msg)" "j_id j0 < 2 ^ 128" "j_tenant_id j0 < 2 ^ 128"
    and "client (lm_triage_model ls) (triage_prompt cfg j0) = (elapsed, ApiAnswer r)" "elapsed \<le> lm_triage_timeout ls" "lr_parsed r = Some a"
    and "job_by_id (ld_core d) (j_id j0) = None" "triage_ok d"
  shows "triage_handle fr ls client db_ok now m d = (HandlerRaised, d)"
proof -
  have gone: "j_id j0 \<notin> j_id ` set (jobs (ld_core d))" using assms(8) by (simp add: get_by_None_iff)
  then have "triage_by_job_id (j_id j0) d = None" using assms(9) by (auto simp: triage_by_job_id_def get_by_None_iff triage_ok_def)
  with gone obtain e where "store_triage now (j_id j0) (j_tenant_id j0) a (lm_triage_model ls) (extract_usage r) d = Inl e"
    by (auto simp: store_triage_def triage_upsert_def)
  moreover have "ask_model ''triage'' (lm_triage_timeout ls) (lm_triage_model ls) (triage_prompt cfg j0) client = Inr (a, extract_usage r, lm_triage_model ls)"
    using assms(5-7) by (simp add: ask_model_answer)
  ultimately show ?thesis
    using assms(1-4) by (auto simp: triage_handle_def target_of_dlq_event triage_call_dlq_event split: sum.split)
qed

section \<open>The retry policy stays within its bounds\<close>

text \<open>
  The advice cannot hurt. Whatever the provider does, the plan for the next attempt is the deterministic
  one, an early dead letter the provider asked for within the deadline, or a wait of at most an hour that
  it asked for; a provider that fails, refuses or is late changes nothing, and below the configured number
  of retries it is not asked.
\<close>

theorem retry_advice_bounded:
  assumes valid: "\<And>model p el r dec. client model p = (el, ApiAnswer r) \<Longrightarrow> lr_parsed r = Some dec \<Longrightarrow> valid_decision dec"
    and plan: "plan = plan_retry cfg rc (consult_decision cfg ls client rc exc)"
    and prompt: "prompt = [(''job_type'', JStr (rc_job_type rc)), (''current_error'', JStr exc), (''prior_error'', jstr_opt (rc_prior_error rc)),
       (''retry_count'', JInt (rc_retry_count rc + 1)), (''max_attempts'', JInt (rc_max_attempts rc))]"
  shows "(rp_delay plan = power_seconds (job_retry_backoff_base cfg) (rc_retry_count rc + 1)
      \<or> 0 \<le> rp_delay plan \<and> rp_delay plan \<le> 3600 \<and> \<not> rp_llm_dead_lettered plan)
    \<and> (plan = plan_retry cfg rc None
       \<or> (\<exists>el r dec. client (lm_retry_model ls) prompt = (el, ApiAnswer r) \<and> el \<le> lm_retry_timeout ls \<and> lr_parsed r = Some dec
            \<and> llm_retry_policy_min_retry_count cfg \<le> rc_retry_count rc + 1
            \<and> rp_llm_dead_lettered plan = rd_dead_letter_now dec \<and> rp_llm_reasoning plan = Some (rd_reasoning dec)))"
proof (cases "plan = plan_retry cfg rc None")
  case True
  then show ?thesis by (simp add: plan_retry_def Let_def)
next
  case False
  then obtain dec where dec: "consult_decision cfg ls client rc exc = Some dec"
    and c: "consult_policy cfg (rc_retry_count rc + 1) (rc_max_attempts rc)"
    by (cases "consult_decision cfg ls client rc exc") (auto simp: plan plan_retry_def Let_def split: if_splits)
  from dec obtain el r where "client (lm_retry_model ls) prompt = (el, ApiAnswer r)" "el \<le> lm_retry_timeout ls" "lr_parsed r = Some dec"
    by (auto simp: consult_decision_def decide_retry_def ask_model_answer prompt split: sum.splits if_splits)
  with valid [of _ _ el r dec] c show ?thesis
    by (auto simp: plan plan_retry_def dec Let_def valid_decision_def consult_policy_def)
qed

definition lab_decision :: retry_decision where
  "lab_decision = \<lparr>rd_dead_letter_now = False, rd_backoff_seconds = 60, rd_reasoning = ''rate limited''\<rparr>"

theorem retry_advice_bounded_witness:
  "rp_delay (plan_retry (default_settings\<lparr>llm_retry_policy_enabled := True\<rparr>) (run_ctx_of (sample_job 1 RUNNING))
     (consult_decision (default_settings\<lparr>llm_retry_policy_enabled := True\<rparr>) lab_llm (lab_client lab_decision) (run_ctx_of (sample_job 1 RUNNING)) ''429'')) = 60
   \<and> \<not> rp_llm_dead_lettered (plan_retry (default_settings\<lparr>llm_retry_policy_enabled := True\<rparr>) (run_ctx_of (sample_job 1 RUNNING))
     (consult_decision (default_settings\<lparr>llm_retry_policy_enabled := True\<rparr>) lab_llm (lab_client lab_decision) (run_ctx_of (sample_job 1 RUNNING)) ''429''))"
proof -
  define cfg where "cfg = default_settings\<lparr>llm_retry_policy_enabled := True\<rparr>"
  define rc where "rc = run_ctx_of (sample_job 1 RUNNING)"
  define plan where "plan = plan_retry cfg rc (consult_decision cfg lab_llm (lab_client lab_decision) rc ''429'')"
  have valid: "valid_decision dec" if "lab_client lab_decision model p = (el, ApiAnswer r)" "lr_parsed r = Some dec" for model p el r dec
    using that by (auto simp: lab_client_def lab_response_def lab_decision_def valid_decision_def)
  have "rp_delay plan = power_seconds (job_retry_backoff_base cfg) (rc_retry_count rc + 1)
      \<or> 0 \<le> rp_delay plan \<and> rp_delay plan \<le> 3600 \<and> \<not> rp_llm_dead_lettered plan"
    using retry_advice_bounded [OF valid plan_def refl] by simp
  moreover have d: "rp_delay plan = 60"
    by (simp add: plan_def cfg_def rc_def plan_retry_def consult_policy_def consult_decision_def decide_retry_def ask_model_def lab_client_def
        lab_response_def lab_llm_def lab_decision_def default_settings_def run_ctx_of_def Let_def)
  moreover have "job_retry_backoff_base cfg = 2" "rc_retry_count rc + 1 = 1" by (simp_all add: cfg_def rc_def default_settings_def run_ctx_of_def)
  ultimately have "\<not> rp_llm_dead_lettered plan" by (auto simp: power_seconds_def)
  with d show ?thesis by (simp add: plan_def cfg_def rc_def)
qed

section \<open>What a digest counts\<close>

lemma latest_is_listed_first:
  assumes "0 < limit"
  shows "latest_window_end tenant_id rows = (case list_digests_for_tenant tenant_id limit rows of [] \<Rightarrow> None | r # _ \<Rightarrow> Some (dg_window_end r))"
proof (cases "filter (\<lambda>r. dg_tenant_id r = tenant_id) rows")
  case Nil
  then show ?thesis by (simp add: latest_window_end_def list_digests_for_tenant_def)
next
  case (Cons r rs)
  let ?s = "sort_key (\<lambda>r. - dg_window_end r) (r # rs)"
  obtain x xs where x: "?s = x # xs" by (metis length_sort length_Suc_conv list.size(4) add_Suc_right)
  have "sorted (map (\<lambda>r. - dg_window_end r) ?s)" by (rule sorted_sort_key)
  then have "\<forall>y \<in> set ?s. dg_window_end y \<le> dg_window_end x" unfolding x by auto
  then have "\<forall>y \<in> set (r # rs). dg_window_end y \<le> dg_window_end x" by (metis set_sort)
  moreover have "x \<in> set (r # rs)" using x by (metis list.set_intros(1) set_sort)
  ultimately have "Max (set (map dg_window_end (r # rs))) = dg_window_end x" by (intro Max_eqI) auto
  then have "fold max (map dg_window_end rs) (dg_window_end r) = dg_window_end x" by (simp add: Max.set_eq_fold [symmetric])
  then show ?thesis using x assms by (cases limit) (simp_all add: latest_window_end_def list_digests_for_tenant_def Cons)
qed

definition messages_like :: "string list \<Rightarrow> string \<Rightarrow> nat" where
  "messages_like msgs fp = length (filter (\<lambda>msg. strip py_space msg \<noteq> [] \<and> fingerprint msg = fp) msgs)"

lemma count_key_distinct: "distinct (map fst c) \<Longrightarrow> distinct (map fst (count_key k c)) \<and> set (map fst (count_key k c)) = insert k (set (map fst c))"
  by (induction k c rule: count_key.induct) auto

lemma count_key_get:
  "map_of (count_key k c) x = (if x = k then Some (case map_of c k of None \<Rightarrow> 1 | Some n \<Rightarrow> n + 1) else map_of c x)"
  by (induction k c rule: count_key.induct) auto

lemma counter_of_messages:
  fixes msgs :: "string list"
  defines "c \<equiv> fold (\<lambda>msg. count_key (fingerprint msg)) (filter (\<lambda>msg. strip py_space msg \<noteq> []) msgs) []"
  shows "distinct (map fst c) \<and> (\<forall>fp. map_of c fp = (if messages_like msgs fp = 0 then None else Some (messages_like msgs fp)))"
  unfolding c_def
proof (induction msgs rule: rev_induct)
  case (snoc m ms)
  then show ?case
    using count_key_distinct [of "fold (\<lambda>msg. count_key (fingerprint msg)) (filter (\<lambda>msg. strip py_space msg \<noteq> []) ms) []" "fingerprint m"]
    by (auto simp: messages_like_def count_key_get)
qed (simp add: messages_like_def)

text \<open>
  The recurring errors of a digest: at most five lines, the most frequent first; each says how many of the
  failures carry that error up to its digits, and none left out is more frequent than one shown.
\<close>

theorem top_errors_exact:
  assumes "top_errors n msgs = xs"
  shows "length xs \<le> n \<and> distinct (map fst xs) \<and> sorted_wrt (\<lambda>x y. snd y \<le> snd x) xs
    \<and> (\<forall>(fp, c) \<in> set xs. c = messages_like msgs fp \<and> 0 < c)
    \<and> (\<forall>fp. fp \<notin> set (map fst xs) \<longrightarrow> messages_like msgs fp = 0 \<or> length xs = n \<and> (\<forall>(fp', c) \<in> set xs. messages_like msgs fp \<le> c))"
proof -
  define c where "c = fold (\<lambda>msg. count_key (fingerprint msg)) (filter (\<lambda>msg. strip py_space msg \<noteq> []) msgs) []"
  define s where "s = sort_key (\<lambda>kc. - int (snd kc)) c"
  have c: "distinct (map fst c)" "map_of c fp = (if messages_like msgs fp = 0 then None else Some (messages_like msgs fp))" for fp
    using counter_of_messages [of msgs] by (simp_all add: c_def)
  have xs: "xs = take n s" using assms by (simp add: top_errors_def c_def s_def)
  have "mset (map fst s) = mset (map fst c)" by (simp add: s_def)
  then have ds: "distinct (map fst s)" using c(1) by (metis mset_eq_imp_distinct_iff)
  have set_s: "(fp, k) \<in> set s \<longleftrightarrow> k = messages_like msgs fp \<and> 0 < k" for fp k
  proof -
    have "(fp, k) \<in> set s \<longleftrightarrow> map_of c fp = Some k" using c(1) by (simp add: s_def)
    then show ?thesis using c(2) [of fp] by auto
  qed
  have "sorted (map (\<lambda>kc. - int (snd kc)) s)" by (simp add: s_def)
  then have so: "sorted_wrt (\<lambda>x y. snd y \<le> snd x) s" by (simp add: sorted_map)
  have out: "messages_like msgs fp = 0 \<or> length xs = n \<and> (\<forall>(fp', k) \<in> set xs. messages_like msgs fp \<le> k)" if nin: "fp \<notin> set (map fst xs)" for fp
  proof (cases "messages_like msgs fp = 0")
    case False
    then have "(fp, messages_like msgs fp) \<in> set s" by (simp add: set_s)
    with nin have dr: "(fp, messages_like msgs fp) \<in> set (drop n s)"
      unfolding xs by (metis Un_iff append_take_drop_id fst_conv image_eqI list.set_map set_append)
    then have "length xs = n" unfolding xs by (metis drop_all length_take list.set(1) empty_iff min.absorb2 nat_le_linear)
    moreover have "sorted_wrt (\<lambda>x y. snd y \<le> snd x) (take n s @ drop n s)" using so by simp
    then have "\<forall>x \<in> set xs. messages_like msgs fp \<le> snd x" using dr unfolding xs sorted_wrt_append by fastforce
    ultimately show ?thesis by auto
  qed simp
  have "distinct (map fst xs)" using ds by (metis distinct_take take_map xs)
  moreover have "sorted_wrt (\<lambda>x y. snd y \<le> snd x) xs" using so unfolding xs by (rule sorted_wrt_take)
  moreover have "\<forall>(fp, k) \<in> set xs. k = messages_like msgs fp \<and> 0 < k" using set_s unfolding xs by (auto dest: in_set_takeD)
  ultimately show ?thesis using out by (simp add: xs)
qed

theorem top_errors_exact_witness:
  "length (top_errors 1 [''attempt 1'', ''timeout'', '' '', ''attempt 17'']) \<le> 1
    \<and> (\<forall>(fp, c) \<in> set (top_errors 1 [''attempt 1'', ''timeout'', '' '', ''attempt 17'']). c = messages_like [''attempt 1'', ''timeout'', '' '', ''attempt 17''] fp)
    \<and> messages_like [''attempt 1'', ''timeout'', '' '', ''attempt 17''] ''attempt #'' = 2"
proof -
  have "messages_like [''attempt 1'', ''timeout'', '' '', ''attempt 17''] ''attempt #'' = 2"
    by (simp add: messages_like_def fingerprint_def strip_def py_space_def py_digit_def)
  with top_errors_exact [OF refl, of 1 "[''attempt 1'', ''timeout'', '' '', ''attempt 17'']"] show ?thesis by auto
qed

lemma sum_group_counts: "sum_list (map snd (group_counts key rows)) = length rows"
proof -
  have "(\<Sum>k\<leftarrow>remdups (map key rows). length (filter (\<lambda>r. key r = k) rows)) = (\<Sum>k \<in> key ` set rows. card {i. i < length rows \<and> key (rows ! i) = k})"
    by (simp add: sum_list_distinct_conv_sum_set length_filter_conv_card)
  also have "\<dots> = card (\<Union>k \<in> key ` set rows. {i. i < length rows \<and> key (rows ! i) = k})"
    by (rule card_UN_disjoint [symmetric]) auto
  also have "(\<Union>k \<in> key ` set rows. {i. i < length rows \<and> key (rows ! i) = k}) = {..<length rows}" by (auto intro: nth_mem)
  finally show ?thesis by (simp add: group_counts_def row_count_def o_def)
qed

lemma group_counts_get: "map_of (group_counts key rows) k = (if k \<in> key ` set rows then Some (row_count (\<lambda>r. key r = k) rows) else None)"
  by (auto simp: group_counts_def map_of_map_restrict restrict_map_def)

lemma job_status_value_inject: "job_status_value a = job_status_value b \<longleftrightarrow> a = b"
  by (cases a; cases b) simp_all

text \<open>A tenant whose turn writes a digest.\<close>

definition digestible :: "(time \<Rightarrow> string) \<Rightarrow> digest_turn \<Rightarrow> time \<Rightarrow> time \<Rightarrow> db \<Rightarrow> tenant_row \<Rightarrow> bool" where
  "digestible isof e ws we c t \<longleftrightarrow> dt_read_ok e \<and> dt_write_ok e \<and> (\<exists>j \<in> set (jobs c). in_window (tn_id t) ws we j)
     \<and> length (lm_digest_model (dt_settings e)) \<le> 64
     \<and> (\<exists>dig u mo. (case window_stats (tn_id t) ws we c of (bs, ft, errs) \<Rightarrow>
          generate_digest isof (dt_settings e) (dt_client e) (tn_slug t) ws we bs ft errs) = Inr (dig, u, mo))"

text \<open>A row that says what the window holds: the counts of that tenant's jobs, one set behind both.\<close>

definition true_digest :: "time \<Rightarrow> time \<Rightarrow> db \<Rightarrow> digest_row \<Rightarrow> bool" where
  "true_digest ws we c r \<longleftrightarrow> dg_window_start r = ws \<and> dg_window_end r = we
     \<and> (\<exists>bs ft. jget (dg_highlights r) ''by_status'' = counts_json bs \<and> jget (dg_highlights r) ''failed_by_type'' = counts_json ft
          \<and> (\<forall>st n. map_of bs (job_status_value st) = Some n \<longrightarrow> n = row_count (\<lambda>j. in_window (dg_tenant_id r) ws we j \<and> j_status j = st) (jobs c))
          \<and> sum_list (map snd bs) = row_count (in_window (dg_tenant_id r) ws we) (jobs c)
          \<and> sum_list (map snd ft) = row_count (\<lambda>j. in_window (dg_tenant_id r) ws we j \<and> j_status j \<in> {FAILED, DEAD_LETTER}) (jobs c))"

lemma window_stats_true:
  assumes "window_stats t ws we c = (bs, ft, errs)"
  shows "(map_of bs (job_status_value st) = Some n \<longrightarrow> n = row_count (\<lambda>j. in_window t ws we j \<and> j_status j = st) (jobs c))
    \<and> sum_list (map snd bs) = row_count (in_window t ws we) (jobs c)
    \<and> sum_list (map snd ft) = row_count (\<lambda>j. in_window t ws we j \<and> j_status j \<in> {FAILED, DEAD_LETTER}) (jobs c)"
  using assms
  by (auto simp: window_stats_def Let_def group_counts_get sum_group_counts job_status_value_inject row_count_def digest_failed_statuses_def
      conj_commute split: if_splits)

lemma digest_for_tenant_spec:
  assumes "digest_for_tenant isof e t ws we d = (r, d')" "lm_digest_enabled (dt_settings e)" "t \<in> set (au_tenants (ld_auth d))"
  shows "if digestible isof e ws we (ld_core d) t
    then r = Written \<and> (\<exists>row. ld_digests d' = ld_digests d @ [row] \<and> dg_tenant_id row = tn_id t \<and> true_digest ws we (ld_core d) row)
      \<and> jobs (ld_core d') = jobs (ld_core d) \<and> au_tenants (ld_auth d') = au_tenants (ld_auth d) \<and> ld_triages d' = ld_triages d
    else r = NotWritten \<and> d' = d"
proof -
  obtain bs ft errs where ws: "window_stats (tn_id t) ws we (ld_core d) = (bs, ft, errs)" by (metis prod_cases3)
  have empty: "sum_list (map snd bs) = 0 \<longleftrightarrow> \<not> (\<exists>j \<in> set (jobs (ld_core d)). in_window (tn_id t) ws we j)"
    using window_stats_true [OF ws] by (simp add: row_count_zero_iff)
  have ten: "tn_id t \<in> tn_id ` set (au_tenants (ld_auth d))" using assms(3) by simp
  show ?thesis
  proof (cases "dt_read_ok e \<and> sum_list (map snd bs) \<noteq> 0")
    case False
    then have "digest_for_tenant isof e t ws we d = (NotWritten, d)" by (auto simp: digest_for_tenant_def collect_window_stats_def ws)
    moreover have "\<not> digestible isof e ws we (ld_core d) t" using False empty by (auto simp: digestible_def)
    ultimately show ?thesis using assms(1) by simp
  next
    case True
    then have cw: "collect_window_stats (tn_id t) ws we (ld_core d) = Some (bs, ft, errs)" by (auto simp: collect_window_stats_def ws)
    let ?g = "generate_digest isof (dt_settings e) (dt_client e) (tn_slug t) ws we bs ft errs"
    show ?thesis
    proof (cases ?g)
      case (Inl err)
      then have "err \<noteq> LlmDisabled m" for m using assms(2) by (auto simp: generate_digest_def ask_model_def split: prod.splits api_outcome.splits option.splits if_splits)
      then have "digest_for_tenant isof e t ws we d = (NotWritten, d)"
        using True Inl by (cases err) (auto simp: digest_for_tenant_def cw)
      moreover have "\<not> digestible isof e ws we (ld_core d) t" using Inl by (simp add: digestible_def ws)
      ultimately show ?thesis using assms(1) by simp
    next
      case (Inr x)
      obtain dig u mo where x: "x = (dig, u, mo)" by (metis prod_cases3)
      then have mo: "mo = lm_digest_model (dt_settings e)" using Inr assms(2) by (auto simp: generate_digest_def ask_model_answer)
      have g: "digestible isof e ws we (ld_core d) t \<longleftrightarrow> dt_write_ok e \<and> length mo \<le> 64"
        using True empty Inr x mo unfolding digestible_def ws by auto
      have step: "digest_for_tenant isof e t ws we d =
          (if \<not> dt_write_ok e then (NotWritten, d) else case persist_digest (dt_now e) t ws we bs ft dig u mo d of Inl _ \<Rightarrow> (NotWritten, d) | Inr (_, d') \<Rightarrow> (Written, d'))"
        using True Inr x by (simp add: digest_for_tenant_def cw)
      show ?thesis
      proof (cases "dt_write_ok e \<and> length mo \<le> 64")
        case True
        then obtain row where "r = Written" "d' = d\<lparr>ld_auth := snd (fresh_id (ld_auth d)), ld_digests := ld_digests d @ [row]\<rparr>"
          "dg_tenant_id row = tn_id t" "dg_window_start row = ws" "dg_window_end row = we"
          "jget (dg_highlights row) ''by_status'' = counts_json bs" "jget (dg_highlights row) ''failed_by_type'' = counts_json ft"
          using assms(1) step ten by (auto simp: persist_digest_def max_model_used_def fresh_id_def Let_def)
        moreover have "true_digest ws we (ld_core d) row"
          unfolding true_digest_def using calculation window_stats_true [OF ws] by auto
        ultimately show ?thesis using g True by (auto simp: fresh_id_def)
      next
        case False
        then show ?thesis using assms(1) step g ten by (auto simp: persist_digest_def max_model_used_def split: if_splits)
      qed
    qed
  qed
qed

lemma digest_loop_spec:
  assumes "digest_loop isof env ws we ts n d = (n', d')" "set ts \<subseteq> set (au_tenants (ld_auth d))"
    and "\<forall>t \<in> set ts. lm_digest_enabled (dt_settings (env (tn_id t)))"
  shows "\<exists>rows. ld_digests d' = ld_digests d @ rows \<and> n' = n + length rows
    \<and> map dg_tenant_id rows = map tn_id (filter (\<lambda>t. digestible isof (env (tn_id t)) ws we (ld_core d) t) ts)
    \<and> (\<forall>r \<in> set rows. true_digest ws we (ld_core d) r) \<and> jobs (ld_core d') = jobs (ld_core d) \<and> ld_triages d' = ld_triages d"
  using assms
proof (induction ts arbitrary: n d)
  case (Cons t ts)
  obtain r d1 where step: "digest_for_tenant isof (env (tn_id t)) t ws we d = (r, d1)" by fastforce
  have spec: "if digestible isof (env (tn_id t)) ws we (ld_core d) t
    then r = Written \<and> (\<exists>row. ld_digests d1 = ld_digests d @ [row] \<and> dg_tenant_id row = tn_id t \<and> true_digest ws we (ld_core d) row)
      \<and> jobs (ld_core d1) = jobs (ld_core d) \<and> au_tenants (ld_auth d1) = au_tenants (ld_auth d) \<and> ld_triages d1 = ld_triages d
    else r = NotWritten \<and> d1 = d"
    using digest_for_tenant_spec [OF step] Cons.prems by simp
  then have same: "jobs (ld_core d1) = jobs (ld_core d)" "au_tenants (ld_auth d1) = au_tenants (ld_auth d)" "ld_triages d1 = ld_triages d"
    by (auto split: if_splits)
  have cong: "digestible isof e ws we (ld_core d1) x = digestible isof e ws we (ld_core d) x" "true_digest ws we (ld_core d1) y = true_digest ws we (ld_core d) y"
    for e x y by (simp_all add: digestible_def true_digest_def window_stats_def same)
  have next_loop: "digest_loop isof env ws we ts (if r = Written then Suc n else n) d1 = (n', d')"
    using Cons.prems(1) step spec by (auto split: if_splits)
  obtain rows where rows: "ld_digests d' = ld_digests d1 @ rows" "n' = (if r = Written then Suc n else n) + length rows"
    "map dg_tenant_id rows = map tn_id (filter (\<lambda>t. digestible isof (env (tn_id t)) ws we (ld_core d) t) ts)"
    "\<forall>r \<in> set rows. true_digest ws we (ld_core d) r" "jobs (ld_core d') = jobs (ld_core d)" "ld_triages d' = ld_triages d"
    using Cons.IH [OF next_loop] Cons.prems same by (auto simp: cong)
  show ?case
  proof (cases "digestible isof (env (tn_id t)) ws we (ld_core d) t")
    case True
    then obtain row where row: "r = Written" "ld_digests d1 = ld_digests d @ [row]" "dg_tenant_id row = tn_id t" "true_digest ws we (ld_core d) row"
      using spec by auto
    then show ?thesis by (intro exI [of _ "row # rows"]) (use rows True in simp)
  next
    case False
    then show ?thesis by (intro exI [of _ rows]) (use rows spec in simp)
  qed
qed simp

text \<open>
  One tenant's trouble is not another's. A batch writes exactly one digest for every active tenant that
  had jobs in the window and whose reads, call and write went through, in the order of the tenants, none
  for any other, and reports that number; each row covers the configured window and counts that tenant's
  jobs: the counts by status are true and add up to the jobs of the window, and the failures by type add
  up to the jobs that are failed or dead-lettered.
\<close>

theorem digest_batch_exact:
  assumes "run_digest_for_all_active_tenants isof ls env now d = (n, d')"
    and "\<forall>t \<in> set (au_tenants (ld_auth d)). lm_digest_enabled (dt_settings (env (tn_id t)))"
    and "ws = now - of_int (lm_digest_window_hours ls) * 3600"
  shows "\<exists>rows. ld_digests d' = ld_digests d @ rows \<and> n = length rows
    \<and> map dg_tenant_id rows =
        map tn_id (filter (\<lambda>t. tn_is_active t \<and> digestible isof (env (tn_id t)) ws now (ld_core d) t) (au_tenants (ld_auth d)))
    \<and> (\<forall>r \<in> set rows. true_digest ws now (ld_core d) r) \<and> jobs (ld_core d') = jobs (ld_core d) \<and> ld_triages d' = ld_triages d"
proof -
  have f: "filter (\<lambda>t. digestible isof (env (tn_id t)) ws now (ld_core d) t) (filter tn_is_active (au_tenants (ld_auth d)))
      = filter (\<lambda>t. tn_is_active t \<and> digestible isof (env (tn_id t)) ws now (ld_core d) t) (au_tenants (ld_auth d))"
    by (simp add: filter_filter conj_commute)
  have "digest_loop isof env ws now (filter tn_is_active (au_tenants (ld_auth d))) 0 d = (n, d')"
    using assms(1,3) by (simp add: run_digest_for_all_active_tenants_def)
  from digest_loop_spec [OF this] assms(2) show ?thesis unfolding f by auto
qed

definition lab_digest :: incident_digest where
  "lab_digest = \<lparr>id_summary = ''one dead letter'', id_key_concerns = [], id_recommended_actions = []\<rparr>"

definition lab_turn :: digest_turn where
  "lab_turn = \<lparr>dt_read_ok = True, dt_write_ok = True, dt_settings = lab_llm, dt_now = 60, dt_client = lab_client lab_digest\<rparr>"

theorem digest_batch_exact_witness:
  "\<exists>row d'. run_digest_for_all_active_tenants (\<lambda>_. []) lab_llm (\<lambda>_. lab_turn) 50 (lab_llm_db [lab_dead_job]) = (1, d')
     \<and> ld_digests d' = [row] \<and> dg_tenant_id row = 0 \<and> dg_window_end row = 50"
proof -
  let ?d = "lab_llm_db [lab_dead_job]"
  obtain n d' where run: "run_digest_for_all_active_tenants (\<lambda>_. []) lab_llm (\<lambda>_. lab_turn) 50 ?d = (n, d')" by fastforce
  obtain t where t: "au_tenants (ld_auth ?d) = [t]" "tn_id t = 0" "tn_is_active t" by (simp add: lab_llm_db_def lab_auth_db_def)
  have w: "in_window 0 (50 - of_int (lm_digest_window_hours lab_llm) * 3600) 50 lab_dead_job"
    by (simp add: in_window_def lab_llm_def lab_dead_job_def sample_job_def new_job_def)
  have "\<exists>dig u mo. generate_digest (\<lambda>_. []) lab_llm (lab_client lab_digest) s a b bs ft errs = Inr (dig, u, mo)" for s a b bs ft errs
    by (simp add: generate_digest_def ask_model_def lab_client_def lab_response_def lab_llm_def)
  then have g: "digestible (\<lambda>_. []) lab_turn (50 - of_int (lm_digest_window_hours lab_llm) * 3600) 50 (ld_core ?d) t"
    using w t(2) by (simp add: digestible_def lab_turn_def split: prod.split) (simp add: lab_llm_def)
  have "\<forall>t \<in> set (au_tenants (ld_auth ?d)). lm_digest_enabled (dt_settings lab_turn)" by (simp add: lab_turn_def lab_llm_def)
  from digest_batch_exact [OF run this refl] obtain rows where rows: "ld_digests d' = ld_digests ?d @ rows" "n = length rows"
    "map dg_tenant_id rows = [0]" "\<forall>r \<in> set rows. true_digest (50 - of_int (lm_digest_window_hours lab_llm) * 3600) 50 (ld_core ?d) r"
    using t g by auto
  then obtain row where "rows = [row]" "dg_tenant_id row = 0" by (auto simp: map_eq_Cons_conv)
  then show ?thesis using rows run by (auto simp: lab_llm_db_def true_digest_def)
qed

end
