(* ===== verification/Llm_Console.thy ===== *)
theory Llm_Console
  imports Llm_Services
begin

text \<open>
  What the console offers of the language model: the question in plain words
  (\<open>services/nl_query.py\<close> and its endpoint in \<open>api/admin.py\<close>), the digests on demand and their lists,
  and the runbooks of \<open>services/runbooks.py\<close>. Both paid endpoints are limited per operator; every call
  that reaches the provider is noted with its bucket, the operator and the time.
\<close>

section \<open>Questions in plain words (\<open>services/nl_query.py\<close>)\<close>

record job_filter_spec =
  fs_status :: "job_status option"
  fs_type :: "job_type option"
  fs_trace_id :: "string option"
  fs_created_after :: "time option"
  fs_created_before :: "time option"
  fs_retry_count_min :: "int option"
  fs_retry_count_max :: "int option"
  fs_limit :: nat

definition valid_filter_spec :: "job_filter_spec \<Rightarrow> bool" where
  "valid_filter_spec f \<longleftrightarrow> if_given (fs_trace_id f) (\<lambda>t. length t \<le> 64)
     \<and> if_given (fs_retry_count_min f) (\<lambda>n. 0 \<le> n \<and> n \<le> 100) \<and> if_given (fs_retry_count_max f) (\<lambda>n. 0 \<le> n \<and> n \<le> 100)
     \<and> 1 \<le> fs_limit f \<and> fs_limit f \<le> 100"

definition parse_question ::
    "(time \<Rightarrow> string) \<Rightarrow> llm_settings \<Rightarrow> job_filter_spec llm_client \<Rightarrow> time \<Rightarrow> string \<Rightarrow> llm_error + job_filter_spec \<times> dict \<times> string" where
  "parse_question isof ls client now question =
     (if \<not> lm_nl_enabled ls then Inl (LlmDisabled ''NL query disabled (set LLM_NL_QUERY_ENABLED=1)'')
      else ask_model ''nl query'' (lm_nl_timeout ls) (lm_nl_model ls) [(''now'', JStr (isof now)), (''question'', JStr question)] client)"

section \<open>The endpoints of \<open>api/admin.py\<close>\<close>

datatype console_error = AppErr app_error | Unavailable string

record console_limits =
  cl_nl_query :: int
  cl_digest :: int
  cl_window :: int

definition nl_query_bucket :: string where
  "nl_query_bucket = ''admin:nl_query''"

definition digest_bucket :: string where
  "digest_bucket = ''admin:digest''"

record console =
  cn_db :: llm_db
  cn_counters :: counters
  cn_calls :: "(string \<times> string \<times> time) list"

text \<open>The text of the exception a failed call ends in.\<close>

fun llm_error_text :: "llm_error \<Rightarrow> string" where
  "llm_error_text (LlmDisabled m) = m"
| "llm_error_text (ApiStatus _ m) = m"
| "llm_error_text (LlmFailed m) = m"

text \<open>The caller of a route and the transaction its dependencies have opened.\<close>

definition console_caller :: "crypto \<Rightarrow> request \<Rightarrow> string \<Rightarrow> user_role list \<Rightarrow> llm_db \<Rightarrow> app_error + user \<times> auth_db" where
  "console_caller cr rq token roles d =
     (case get_current_user cr (rq_now rq) token ((ld_auth d)\<lparr>au_tx := new_tx\<rparr>) of
        Inl e \<Rightarrow> Inl e
      | Inr (u, a) \<Rightarrow> (case require_role roles u of Some e \<Rightarrow> Inl e | None \<Rightarrow> Inr (u, a)))"

text \<open>The rows a statement of that transaction sees.\<close>

definition visible_core :: "auth_db \<Rightarrow> db" where
  "visible_core a = (au_core a)\<lparr>jobs := filter (\<lambda>j. rls_match (au_tx a) (j_tenant_id j)) (jobs (au_core a))\<rparr>"

definition spec_filter :: "job_filter_spec \<Rightarrow> job_filter" where
  "spec_filter f = \<lparr>f_user_id = None, f_status = fs_status f, f_job_type = map_option job_type_value (fs_type f), f_trace_id = fs_trace_id f,
     f_created_after = fs_created_after f, f_created_before = fs_created_before f, f_retry_count_min = fs_retry_count_min f,
     f_retry_count_max = fs_retry_count_max f, f_remediation_hint = None, f_exclude_remediation_hints = [], f_require_trace_id = False\<rparr>"

record nl_answer =
  na_spec :: job_filter_spec
  na_model :: string
  na_usage :: dict
  na_items :: "job list"
  na_total :: nat

definition pay :: "request \<Rightarrow> string \<Rightarrow> user \<Rightarrow> console \<Rightarrow> console" where
  "pay rq bucket u w = w\<lparr>cn_calls := cn_calls w @ [(bucket, uuid_str (us_id u), rq_now rq)]\<rparr>"

definition admin_nl_query ::
    "crypto \<Rightarrow> (time \<Rightarrow> string) \<Rightarrow> llm_settings \<Rightarrow> console_limits \<Rightarrow> job_filter_spec llm_client \<Rightarrow> request \<Rightarrow> string \<Rightarrow> dict \<Rightarrow> uuid option
      \<Rightarrow> console \<Rightarrow> (console_error + nl_answer) \<times> console" where
  "admin_nl_query cr isof ls limits client rq token body tenant_id w =
     (case console_caller cr rq token [SUPPORT, ADMIN] (cn_db w) of
        Inl e \<Rightarrow> (Inl (AppErr e), w)
      | Inr (u, a) \<Rightarrow>
          (case body_text body ''question'' of
             Inl e \<Rightarrow> (Inl (AppErr e), w)
           | Inr question \<Rightarrow>
               if question = [] then (Inl (AppErr (RequestValidationError ''question is required'')), w)
               else if 500 < length question then (Inl (AppErr (RequestValidationError ''question is too long (max 500 chars)'')), w)
               else if \<not> lm_nl_enabled ls
               then (Inl (Unavailable ''Natural-language queries are disabled. Set LLM_NL_QUERY_ENABLED=1.''), w)
               else (case check_identity_rate_limit (rq_redis rq) (rq_now rq) (uuid_str (us_id u)) (cl_nl_query limits) (cl_window limits)
                            nl_query_bucket (cn_counters w) of
                       (Some e, c) \<Rightarrow> (Inl (AppErr e), w\<lparr>cn_counters := c\<rparr>)
                     | (None, c) \<Rightarrow>
                         (let w1 = pay rq nl_query_bucket u (w\<lparr>cn_counters := c\<rparr>)
                          in case parse_question isof ls client (rq_now rq) question of
                               Inl (LlmDisabled m) \<Rightarrow> (Inl (Unavailable m), w1)
                             | Inl e \<Rightarrow> (Inl (Unavailable (''LLM call failed: '' @ llm_error_text e)), w1)
                             | Inr (spec, usage, model) \<Rightarrow>
                                 (let (t, a') = resolve_admin_tenant u tenant_id a;
                                      (js, found) = service_list_jobs (us_id u) (us_role u) t 1 (fs_limit spec) (spec_filter spec) (visible_core a')
                                  in (Inr \<lparr>na_spec = spec, na_model = model, na_usage = usage, na_items = js, na_total = found\<rparr>, w1))))))"

text \<open>
  The window of a digest on demand: the hours of the body where they are a number, the configured ones
  otherwise, kept between an hour and a week.
\<close>

definition digest_hours :: "llm_settings \<Rightarrow> dict option \<Rightarrow> int" where
  "digest_hours ls body =
     (let raw = (case body of None \<Rightarrow> JNull | Some b \<Rightarrow> jget b ''hours'');
          hours = (if raw = JNull then lm_digest_window_hours ls
                   else case int_of_json raw of None \<Rightarrow> lm_digest_window_hours ls | Some h \<Rightarrow> h)
      in max 1 (min 168 hours))"

text \<open>The message of a failed statement is left out of the refusal it ends in.\<close>

datatype digest_answer = NothingToSummarize time time | DigestOf digest_row

definition admin_generate_digest ::
    "crypto \<Rightarrow> (time \<Rightarrow> string) \<Rightarrow> console_limits \<Rightarrow> digest_turn \<Rightarrow> request \<Rightarrow> string \<Rightarrow> dict option \<Rightarrow> uuid option
      \<Rightarrow> console \<Rightarrow> (console_error + digest_answer) \<times> console" where
  "admin_generate_digest cr isof limits e rq token body tenant_id w =
     (case console_caller cr rq token [ADMIN] (cn_db w) of
        Inl err \<Rightarrow> (Inl (AppErr err), w)
      | Inr (u, a) \<Rightarrow>
          if \<not> lm_digest_enabled (dt_settings e) then (Inl (Unavailable ''Incident digests are disabled. Set LLM_DIGEST_ENABLED=1.''), w)
          else (let (t, a') = resolve_admin_tenant u tenant_id a
                in case get_by tn_id t (au_tenants a') of
                     None \<Rightarrow> (Inl (AppErr (NotFoundError (''Tenant '' @ uuid_str t @ '' not found''))), w)
                   | Some tenant \<Rightarrow>
                       (case check_identity_rate_limit (rq_redis rq) (rq_now rq) (uuid_str (us_id u)) (cl_digest limits) (cl_window limits)
                               digest_bucket (cn_counters w) of
                          (Some err, c) \<Rightarrow> (Inl (AppErr err), w\<lparr>cn_counters := c\<rparr>)
                        | (None, c) \<Rightarrow>
                            (let w1 = w\<lparr>cn_counters := c\<rparr>; window_end = rq_now rq;
                                 window_start = window_end - of_int (digest_hours (dt_settings e) body) * 3600;
                                 scoped = declare_tenant_scope t ((ld_auth (cn_db w))\<lparr>au_tx := new_tx\<rparr>)
                             in if \<not> dt_read_ok e then (Inl (Unavailable ''LLM call failed: ''), w1)
                                else (case collect_window_stats t window_start window_end (visible_core scoped) of
                                        None \<Rightarrow> (Inr (NothingToSummarize window_start window_end), w1)
                                      | Some (by_status, failed_by_type, errors) \<Rightarrow>
                                          (let w2 = pay rq digest_bucket u w1
                                           in case generate_digest isof (dt_settings e) (dt_client e) (tn_slug tenant) window_start window_end
                                                     by_status failed_by_type errors of
                                                Inl (LlmDisabled m) \<Rightarrow> (Inl (Unavailable m), w2)
                                              | Inl err \<Rightarrow> (Inl (Unavailable (''LLM call failed: '' @ llm_error_text err)), w2)
                                              | Inr (dig, usage, model) \<Rightarrow>
                                                  if \<not> dt_write_ok e then (Inl (Unavailable ''LLM call failed: ''), w2)
                                                  else (case persist_digest (dt_now e) tenant window_start window_end by_status failed_by_type dig
                                                              usage model (cn_db w2) of
                                                          Inl _ \<Rightarrow> (Inl (Unavailable ''LLM call failed: ''), w2)
                                                        | Inr (row, d') \<Rightarrow> (Inr (DigestOf row), w2\<lparr>cn_db := d'\<rparr>))))))))"

definition visible_digests :: "auth_db \<Rightarrow> llm_db \<Rightarrow> digest_row list" where
  "visible_digests a d = filter (\<lambda>r. rls_match (au_tx a) (dg_tenant_id r)) (ld_digests d)"

definition admin_list_digests :: "crypto \<Rightarrow> request \<Rightarrow> string \<Rightarrow> uuid option \<Rightarrow> int \<Rightarrow> llm_db \<Rightarrow> app_error + digest_row list" where
  "admin_list_digests cr rq token tenant_id limit d =
     (case console_caller cr rq token [SUPPORT, ADMIN] d of
        Inl e \<Rightarrow> Inl e
      | Inr (u, a) \<Rightarrow>
          (let (t, a') = resolve_admin_tenant u tenant_id a
           in Inr (list_digests_for_tenant t (nat (max 1 (min 100 limit))) (visible_digests a' d))))"

definition admin_get_digest :: "crypto \<Rightarrow> request \<Rightarrow> string \<Rightarrow> uuid \<Rightarrow> llm_db \<Rightarrow> app_error + digest_row" where
  "admin_get_digest cr rq token digest_id d =
     (case console_caller cr rq token [SUPPORT, ADMIN] d of
        Inl e \<Rightarrow> Inl e
      | Inr (u, a) \<Rightarrow>
          (case get_by dg_id digest_id (visible_digests a d) of
             None \<Rightarrow> Inl (NotFoundError (''Digest '' @ uuid_str digest_id @ '' not found''))
           | Some r \<Rightarrow>
               if \<not> us_is_platform_admin u \<and> dg_tenant_id r \<noteq> us_tenant_id u then Inl (AuthorizationError ''Cross-tenant access denied'')
               else Inr r))"

section \<open>Confined to the caller's tenant\<close>

lemma console_callerD:
  assumes "console_caller cr rq token roles d = Inr (u, a)"
  shows "u \<in> set (au_users (ld_auth d))" "us_role u \<in> set roles" "a = declare_tenant_scope (us_tenant_id u) ((ld_auth d)\<lparr>au_tx := new_tx\<rparr>)"
proof -
  obtain a0 where "get_current_user cr (rq_now rq) token ((ld_auth d)\<lparr>au_tx := new_tx\<rparr>) = Inr (u, a0)" "a = a0" "require_role roles u = None"
    using assms by (auto simp: console_caller_def split: sum.splits option.splits)
  then show "u \<in> set (au_users (ld_auth d))" "us_role u \<in> set roles" "a = declare_tenant_scope (us_tenant_id u) ((ld_auth d)\<lparr>au_tx := new_tx\<rparr>)"
    using get_current_user_scope [of cr "rq_now rq" token "(ld_auth d)\<lparr>au_tx := new_tx\<rparr>" u a0] by (auto simp: require_role_def split: if_splits)
qed

lemma resolved_scope:
  assumes "a = declare_tenant_scope (us_tenant_id u) (b\<lparr>au_tx := new_tx\<rparr>)" "resolve_admin_tenant u requested a = (t, a')"
  shows "t = us_tenant_id u \<or> us_is_platform_admin u \<and> requested = Some t" "rls_match (au_tx a') i \<longleftrightarrow> i = t"
    "au_core a' = au_core b" "au_tenants a' = au_tenants b"
  using assms by (auto simp: resolve_admin_tenant_def declare_tenant_scope_def rls_match_def new_tx_def split: option.splits if_splits)

lemma list_jobs_rows:
  assumes "list_jobs tenant offset limit f srt d = (js, n)"
  shows "set js \<subseteq> {j \<in> set (jobs d). job_matches tenant f j}" "length js \<le> limit" "length js \<le> n"
    "n = length (filter (job_matches tenant f) (jobs d))"
  using assms by (auto simp: list_jobs_def Let_def dest!: in_set_takeD in_set_dropD)

lemma visible_matches:
  assumes "\<And>i. rls_match (au_tx a) i \<longleftrightarrow> i = t"
  shows "filter (job_matches t f) (jobs (visible_core a)) = filter (job_matches t f) (jobs (au_core a))"
proof -
  have "rls_match (au_tx a) (j_tenant_id j) \<and> job_matches t f j \<longleftrightarrow> job_matches t f j" for j
    unfolding assms by (simp only: job_matches_def) blast
  then show ?thesis by (simp add: visible_core_def)
qed

text \<open>
  A question in plain words reads what its asker may read. Only support and administrators are answered;
  whatever filter the model comes up with, the rows are jobs of one tenant, the asker's own unless a
  platform administrator named another, they match the filter that is shown with them, there are at most
  a hundred, and their number is true; the question changes nothing in the database. A question that is
  missing or longer than 500 characters costs nothing.
\<close>

theorem nl_query_confined:
  assumes valid: "\<forall>model p el r f. client model p = (el, ApiAnswer r) \<and> lr_parsed r = Some f \<longrightarrow> valid_filter_spec f"
    and run: "admin_nl_query cr isof ls limits client rq token body tenant_id w = (res, w')"
  shows "cn_db w' = cn_db w
    \<and> (\<forall>ans. res = Inr ans \<longrightarrow> (\<exists>u t. u \<in> set (au_users (ld_auth (cn_db w))) \<and> us_role u \<in> {SUPPORT, ADMIN}
          \<and> (t = us_tenant_id u \<or> us_is_platform_admin u \<and> tenant_id = Some t)
          \<and> (\<forall>j \<in> set (na_items ans). j \<in> set (jobs (ld_core (cn_db w))) \<and> job_matches t (spec_filter (na_spec ans)) j)
          \<and> length (na_items ans) \<le> 100
          \<and> na_total ans = length (filter (job_matches t (spec_filter (na_spec ans))) (jobs (ld_core (cn_db w))))))
    \<and> (\<forall>q. body_text body ''question'' = Inr q \<longrightarrow> q = [] \<or> 500 < length q \<longrightarrow> cn_calls w' = cn_calls w)"
proof -
  have quiet: "cn_calls w' = cn_calls w" if "body_text body ''question'' = Inr q" "q = [] \<or> 500 < length q" for q
    using run that by (auto simp: admin_nl_query_def split: sum.splits if_splits)
  have same: "cn_db w' = cn_db w"
    using run by (auto simp: admin_nl_query_def pay_def Let_def split: sum.splits if_splits option.splits prod.splits llm_error.splits)
  have "\<exists>u t. u \<in> set (au_users (ld_auth (cn_db w))) \<and> us_role u \<in> {SUPPORT, ADMIN}
          \<and> (t = us_tenant_id u \<or> us_is_platform_admin u \<and> tenant_id = Some t)
          \<and> (\<forall>j \<in> set (na_items ans). j \<in> set (jobs (ld_core (cn_db w))) \<and> job_matches t (spec_filter (na_spec ans)) j)
          \<and> length (na_items ans) \<le> 100
          \<and> na_total ans = length (filter (job_matches t (spec_filter (na_spec ans))) (jobs (ld_core (cn_db w))))"
    if "res = Inr ans" for ans
  proof -
    from run that obtain u a q spec usage model t a' where
      u: "console_caller cr rq token [SUPPORT, ADMIN] (cn_db w) = Inr (u, a)"
      and p: "parse_question isof ls client (rq_now rq) q = Inr (spec, usage, model)"
      and t: "resolve_admin_tenant u tenant_id a = (t, a')"
      and l: "service_list_jobs (us_id u) (us_role u) t 1 (fs_limit spec) (spec_filter spec) (visible_core a') = (na_items ans, na_total ans)"
      and sp: "na_spec ans = spec"
      by (auto simp: admin_nl_query_def Let_def split: sum.splits if_splits option.splits prod.splits llm_error.splits)
    note c = console_callerD [OF u] and s = resolved_scope [OF console_callerD(3) [OF u] t]
    have "valid_filter_spec spec" using p valid by (auto simp: parse_question_def ask_model_answer split: if_splits)
    then have lim: "fs_limit spec \<le> 100" by (simp add: valid_filter_spec_def)
    have l': "list_jobs t 0 (fs_limit spec) (spec_filter spec) SORT_CREATED_AT (visible_core a') = (na_items ans, na_total ans)"
      using l c(2) by (auto simp: service_list_jobs_def spec_filter_def)
    have "filter (job_matches t (spec_filter spec)) (jobs (visible_core a')) = filter (job_matches t (spec_filter spec)) (jobs (ld_core (cn_db w)))"
      using visible_matches [OF s(2)] s(3) by simp
    then have n: "na_total ans = length (filter (job_matches t (spec_filter (na_spec ans))) (jobs (ld_core (cn_db w))))"
      using list_jobs_rows(4) [OF l'] sp by simp
    have "set (jobs (visible_core a')) \<subseteq> set (jobs (ld_core (cn_db w)))" using s(3) by (auto simp: visible_core_def)
    then have "\<forall>j \<in> set (na_items ans). j \<in> set (jobs (ld_core (cn_db w))) \<and> job_matches t (spec_filter (na_spec ans)) j"
      using list_jobs_rows(1) [OF l'] unfolding sp by blast
    moreover have "length (na_items ans) \<le> 100" using list_jobs_rows(2) [OF l'] lim by simp
    moreover have "us_role u \<in> {SUPPORT, ADMIN}" using c(2) by simp
    ultimately show ?thesis using c(1) s(1) n by blast
  qed
  then show ?thesis using quiet same by blast
qed

section \<open>What the provider can cost\<close>

datatype console_request =
    Asks llm_settings "job_filter_spec llm_client" request string dict "uuid option"
  | Orders digest_turn request string "dict option" "uuid option"

fun console_apply :: "crypto \<Rightarrow> (time \<Rightarrow> string) \<Rightarrow> console_limits \<Rightarrow> console_request \<Rightarrow> console \<Rightarrow> console" where
  "console_apply cr isof limits (Asks ls client rq token body tenant_id) w = snd (admin_nl_query cr isof ls limits client rq token body tenant_id w)"
| "console_apply cr isof limits (Orders e rq token body tenant_id) w = snd (admin_generate_digest cr isof limits e rq token body tenant_id w)"

fun request_of :: "console_request \<Rightarrow> request" where
  "request_of (Asks _ _ rq _ _ _) = rq"
| "request_of (Orders _ rq _ _ _) = rq"

definition bucket_limit :: "console_limits \<Rightarrow> string \<Rightarrow> int" where
  "bucket_limit limits bucket = (if bucket = nl_query_bucket then cl_nl_query limits else cl_digest limits)"

definition paid_in :: "console_limits \<Rightarrow> string \<Rightarrow> uuid \<Rightarrow> int \<Rightarrow> console \<Rightarrow> nat" where
  "paid_in limits bucket u win w =
     length (filter (\<lambda>(b, i, t). b = bucket \<and> i = uuid_str u \<and> window_of (cl_window limits) t = win) (cn_calls w))"

abbreviation paid_key :: "string \<Rightarrow> uuid \<Rightarrow> int \<Rightarrow> string" where
  "paid_key bucket u \<equiv> rate_key (bucket @ '':'' @ uuid_str u)"

text \<open>Every noted call is behind a count, and no count let more through than its limit.\<close>

definition calls_counted :: "console_limits \<Rightarrow> console \<Rightarrow> bool" where
  "calls_counted limits w \<longleftrightarrow> (\<forall>bucket u. counters_ok (cl_window limits) (paid_key bucket u) (cn_counters w)
     \<and> (\<forall>win. paid_in limits bucket u win w \<le> counter_value (cn_counters w) (paid_key bucket u win)
            \<and> paid_in limits bucket u win w \<le> nat (bucket_limit limits bucket)))"

lemma show_int_no_colon: "CHR '':'' \<notin> set (show_int i)"
  using set_show_nat [of "nat i"] set_show_nat [of "nat (- i)"] by (auto simp: show_int_def)

lemma last_part_inject:
  assumes "CHR '':'' \<notin> set y" "CHR '':'' \<notin> set y'"
  shows "x @ '':'' @ y = x' @ '':'' @ y' \<longleftrightarrow> x = x' \<and> y = y'"
proof
  assume "x @ '':'' @ y = x' @ '':'' @ y'"
  then have "rev y @ CHR '':'' # rev x = rev y' @ CHR '':'' # rev x'" by (metis append.assoc append_Cons append_Nil rev_append rev_singleton_conv)
  then show "x = x' \<and> y = y'" using assms by (simp add: append_sep_iff)
qed simp

lemma paid_key_inject: "paid_key b u w = paid_key b' u' w' \<longleftrightarrow> b = b' \<and> uuid_str u = uuid_str u' \<and> w = w'"
proof -
  have "paid_key b u w = paid_key b' u' w' \<longleftrightarrow> (b @ '':'' @ uuid_str u) @ '':'' @ show_int w = (b' @ '':'' @ uuid_str u') @ '':'' @ show_int w'"
    by (simp add: rate_key_def)
  also have "\<dots> \<longleftrightarrow> b = b' \<and> uuid_str u = uuid_str u' \<and> w = w'"
    unfolding last_part_inject [OF show_int_no_colon show_int_no_colon] last_part_inject [OF uuid_str_no_colon uuid_str_no_colon] by (simp add: show_int_inject)
  finally show ?thesis .
qed

lemma count_hit_other: "k' \<noteq> k \<Longrightarrow> snd (count_hit h now k ttl limit c) k' = c k'"
  by (simp add: count_hit_def redis_incr_def redis_expire_def Let_def split: option.split prod.split)

lemma hit_counted:
  assumes inv: "calls_counted limits w"
    and hit: "check_identity_rate_limit RedisUp t (uuid_str u) (bucket_limit limits b) (cl_window limits) b (cn_counters w) = (r, c)"
  shows "calls_counted limits (w\<lparr>cn_counters := c\<rparr>)"
    and "r = None \<Longrightarrow> calls_counted limits (w\<lparr>cn_counters := c, cn_calls := cn_calls w @ [(b, uuid_str u, t)]\<rparr>)"
proof -
  let ?win = "cl_window limits" and ?L = "bucket_limit limits b"
  let ?h = "count_hit RedisUp t (paid_key b u (window_of ?win t)) (of_int (?win * 2)) ?L (cn_counters w)"
  have ok: "counters_ok ?win (paid_key b u) (cn_counters w)" using inv by (simp add: calls_counted_def)
  then have two: "of_int ?win \<le> (of_int (?win * 2) :: rat)" by (simp add: counters_ok_def)
  note eq = count_hit_eq [OF ok inj_rate_key(1) two, of t ?L]
  have h: "r = None \<longleftrightarrow> fst ?h = Within" "c = snd ?h"
    using identity_hit_eq [of "uuid_str u" ?L ?win b t "cn_counters w"] hit by (auto simp: identity_hit_def)
  have other: "c (paid_key b' v x) = cn_counters w (paid_key b' v x)" if ne: "\<not> (b' = b \<and> uuid_str v = uuid_str u)" for b' v x
  proof -
    have "paid_key b' v x \<noteq> paid_key b u (window_of ?win t)" using ne paid_key_inject by metis
    then show ?thesis unfolding h(2) by (rule count_hit_other)
  qed
  have keys: "counters_ok ?win (paid_key b' v) c" "counter_value c (paid_key b' v w') =
      counter_value (cn_counters w) (paid_key b' v w') + (if b' = b \<and> uuid_str v = uuid_str u \<and> w' = window_of ?win t then 1 else 0)" for b' v w'
  proof -
    show "counters_ok ?win (paid_key b' v) c"
    proof (cases "b' = b \<and> uuid_str v = uuid_str u")
      case True
      then show ?thesis using eq(3) h(2) by simp
    next
      case False
      have "counters_ok ?win (paid_key b' v) (cn_counters w)" using inv by (simp add: calls_counted_def)
      then show ?thesis using other [OF False] by (simp add: counters_ok_def)
    qed
    show "counter_value c (paid_key b' v w') =
      counter_value (cn_counters w) (paid_key b' v w') + (if b' = b \<and> uuid_str v = uuid_str u \<and> w' = window_of ?win t then 1 else 0)"
    proof (cases "b' = b \<and> uuid_str v = uuid_str u")
      case True
      then show ?thesis using eq(2) [of w'] h(2) by simp
    next
      case False
      then show ?thesis using other [OF False, of w'] by (auto simp: counter_value_def)
    qed
  qed
  have old: "paid_in limits b' v w' w \<le> counter_value (cn_counters w) (paid_key b' v w')" "paid_in limits b' v w' w \<le> nat (bucket_limit limits b')" for b' v w'
    using inv by (simp_all add: calls_counted_def)
  have "paid_in limits b' v w' (w\<lparr>cn_counters := c\<rparr>) = paid_in limits b' v w' w" for b' v w' by (simp add: paid_in_def)
  then show "calls_counted limits (w\<lparr>cn_counters := c\<rparr>)"
    using keys old by (simp add: calls_counted_def trans_le_add1)
  assume "r = None"
  then have room: "int (counter_value (cn_counters w) (paid_key b u (window_of ?win t))) < ?L" using h(1) eq(1) by (simp split: if_splits)
  have new: "paid_in limits b' v w' (w\<lparr>cn_counters := c, cn_calls := cn_calls w @ [(b, uuid_str u, t)]\<rparr>) = paid_in limits b' v w' w +
      (if b' = b \<and> uuid_str v = uuid_str u \<and> w' = window_of ?win t then 1 else 0)" for b' v w' by (auto simp: paid_in_def)
  have "paid_in limits b' v w' w + (if b' = b \<and> uuid_str v = uuid_str u \<and> w' = window_of ?win t then 1 else 0) \<le> nat (bucket_limit limits b')" for b' v w'
  proof (cases "b' = b \<and> uuid_str v = uuid_str u \<and> w' = window_of ?win t")
    case True
    then have "paid_in limits b' v w' w \<le> counter_value (cn_counters w) (paid_key b u (window_of ?win t))" using old(1) [of b' v w'] by simp
    then show ?thesis using True room by simp
  qed (use old(2) in auto)
  then show "calls_counted limits (w\<lparr>cn_counters := c, cn_calls := cn_calls w @ [(b, uuid_str u, t)]\<rparr>)"
    using keys old(1) by (simp add: calls_counted_def new)
qed

lemma calls_counted_db: "calls_counted limits (w\<lparr>cn_db := d\<rparr>) = calls_counted limits w"
  by (simp add: calls_counted_def paid_in_def)

lemma console_step_counted:
  assumes "calls_counted limits w" "rq_redis (request_of req) = RedisUp"
  shows "calls_counted limits (console_apply cr isof limits req w)"
proof (cases req)
  case (Asks ls client rq token body tenant_id)
  have b: "cl_nl_query limits = bucket_limit limits nl_query_bucket" by (simp add: bucket_limit_def)
  show ?thesis using assms hit_counted [OF assms(1), of _ _ nl_query_bucket]
    by (auto simp: Asks admin_nl_query_def pay_def Let_def b split: sum.splits if_splits option.splits prod.splits llm_error.splits)
next
  case (Orders e rq token body tenant_id)
  have b: "cl_digest limits = bucket_limit limits digest_bucket" by (simp add: bucket_limit_def nl_query_bucket_def digest_bucket_def)
  show ?thesis using assms hit_counted [OF assms(1), of _ _ digest_bucket]
    by (auto simp: Orders admin_generate_digest_def pay_def Let_def b calls_counted_db split: sum.splits if_splits option.splits prod.splits llm_error.splits)
qed

text \<open>
  Property C22. What an operator can spend. With Redis reachable, of the calls one operator causes in one window at most
  the configured number reach the provider, for questions and for digests each, whatever requests arrive,
  from however many operators and in whatever order.
\<close>

theorem paid_calls_bounded:
  assumes "calls_counted limits w" "\<forall>req \<in> set reqs. rq_redis (request_of req) = RedisUp"
    and "w' = fold (console_apply cr isof limits) reqs w"
  shows "paid_in limits nl_query_bucket u win w' \<le> nat (cl_nl_query limits) \<and> paid_in limits digest_bucket u win w' \<le> nat (cl_digest limits)"
proof -
  have "calls_counted limits (fold (console_apply cr isof limits) reqs w)" using assms(1,2)
    by (induction reqs arbitrary: w) (simp_all add: console_step_counted)
  then have "paid_in limits b u win w' \<le> nat (bucket_limit limits b)" for b by (simp add: calls_counted_def assms(3))
  from this [of nl_query_bucket] this [of digest_bucket] show ?thesis by (simp add: bucket_limit_def nl_query_bucket_def digest_bucket_def)
qed

section \<open>Digests across tenants\<close>

text \<open>
  A digest of another tenant is not found, also by a platform administrator, for whom the route has no
  refusal of its own: the policy on the table has hidden it before.
\<close>

lemma sibling_digest_not_found:
  assumes "console_caller cr rq token [SUPPORT, ADMIN] d = Inr (u, a)" "\<forall>r \<in> set (ld_digests d). dg_id r = i \<longrightarrow> dg_tenant_id r \<noteq> us_tenant_id u"
  shows "admin_get_digest cr rq token i d = Inl (NotFoundError (''Digest '' @ uuid_str i @ '' not found''))"
proof -
  have "rls_match (au_tx a) t \<longleftrightarrow> t = us_tenant_id u" for t
    by (auto simp: console_callerD(3) [OF assms(1)] declare_tenant_scope_def rls_match_def new_tx_def)
  then have "get_by dg_id i (visible_digests a d) = None" using assms(2) by (auto simp: visible_digests_def get_by_None_iff)
  then show ?thesis by (simp add: admin_get_digest_def assms(1))
qed

text \<open>A digest of an empty window is counted against the allowance and costs nothing.\<close>

lemma empty_window_spends_allowance:
  assumes "admin_generate_digest cr isof limits e rq token body tenant_id w = (Inr (NothingToSummarize ws we), w')"
  shows "cn_calls w' = cn_calls w \<and> (\<exists>u \<in> set (au_users (ld_auth (cn_db w))). check_identity_rate_limit (rq_redis rq) (rq_now rq) (uuid_str (us_id u))
     (cl_digest limits) (cl_window limits) digest_bucket (cn_counters w) = (None, cn_counters w'))"
proof -
  from assms obtain u a c where u: "console_caller cr rq token [ADMIN] (cn_db w) = Inr (u, a)"
    and c: "check_identity_rate_limit (rq_redis rq) (rq_now rq) (uuid_str (us_id u)) (cl_digest limits) (cl_window limits) digest_bucket (cn_counters w) = (None, c)"
    and w': "w' = w\<lparr>cn_counters := c\<rparr>"
    by (auto simp: admin_generate_digest_def Let_def split: sum.splits if_splits option.splits prod.splits llm_error.splits)
  show ?thesis using console_callerD(1) [OF u] c by (auto simp: w')
qed

section \<open>Runbooks (\<open>services/runbooks.py\<close>)\<close>

text \<open>
  The files of the directory with what their text parses to, sorted by path. A file that is no mapping or
  has no id is skipped; a later file with the same id takes the earlier one's place.
\<close>

fun put_runbook :: "string \<Rightarrow> dict \<Rightarrow> (string \<times> dict) list \<Rightarrow> (string \<times> dict) list" where
  "put_runbook k v [] = [(k, v)]"
| "put_runbook k v ((k', v') # rest) = (if k' = k then (k', v) # rest else (k', v') # put_runbook k v rest)"

definition load_runbooks :: "(json \<Rightarrow> string) \<Rightarrow> (string \<times> json) list option \<Rightarrow> (string \<times> dict) list" where
  "load_runbooks str files =
     (case files of
        None \<Rightarrow> []
      | Some fs \<Rightarrow> fold (\<lambda>(path, v) out. case v of
            JObj d \<Rightarrow> if truthy (jget d ''id'') then put_runbook (str (jget d ''id'')) d out else out
          | _ \<Rightarrow> out) fs [])"

definition get_runbook :: "string \<Rightarrow> (string \<times> dict) list \<Rightarrow> dict option" where
  "get_runbook runbook_id books = map_of books runbook_id"

definition list_runbooks :: "(string \<times> dict) list \<Rightarrow> dict list" where
  "list_runbooks books = map snd books"

lemma put_runbook_get: "map_of (put_runbook k v b) x = (if x = k then Some v else map_of b x)"
  by (induction k v b rule: put_runbook.induct) auto

lemma put_runbook_keys: "distinct (map fst b) \<Longrightarrow> distinct (map fst (put_runbook k v b)) \<and> fst ` set (put_runbook k v b) = insert k (fst ` set b)"
  by (induction k v b rule: put_runbook.induct) auto

text \<open>
  A runbook that is listed can be fetched under its id and says that id; there is one per id, and none
  that a file of the directory does not hold.
\<close>

theorem runbooks_consistent:
  assumes "books = load_runbooks str (Some files)"
  shows "distinct (map fst books)
    \<and> (\<forall>d \<in> set (list_runbooks books). get_runbook (str (jget d ''id'')) books = Some d \<and> (\<exists>path. (path, JObj d) \<in> set files))
    \<and> (\<forall>(path, v) \<in> set files. \<forall>d. v = JObj d \<and> truthy (jget d ''id'') \<longrightarrow> get_runbook (str (jget d ''id'')) books \<noteq> None)"
proof -
  let ?step = "\<lambda>(path, v) out. case v of JObj d \<Rightarrow> if truthy (jget d ''id'') then put_runbook (str (jget d ''id'')) d out else out | _ \<Rightarrow> out"
  define ok where "ok fs out \<longleftrightarrow> distinct (map fst out)
      \<and> (\<forall>k d. map_of out k = Some d \<longrightarrow> k = str (jget d ''id'') \<and> (\<exists>path. (path, JObj d) \<in> set fs))
      \<and> (\<forall>(path, v) \<in> set fs. \<forall>d. v = JObj d \<and> truthy (jget d ''id'') \<longrightarrow> map_of out (str (jget d ''id'')) \<noteq> None)"
    for fs :: "(string \<times> json) list" and out :: "(string \<times> dict) list"
  have "ok fs (fold ?step fs [])" for fs
  proof (induction fs rule: rev_induct)
    case (snoc f fs)
    obtain path v where f: "f = (path, v)" by fastforce
    show ?case
    proof (cases "\<exists>d. v = JObj d \<and> truthy (jget d ''id'')")
      case True
      then obtain d where d: "v = JObj d" "truthy (jget d ''id'')" by blast
      have out: "fold ?step (fs @ [f]) [] = put_runbook (str (jget d ''id'')) d (fold ?step fs [])" by (simp add: f d)
      have "distinct (map fst (put_runbook (str (jget d ''id'')) d (fold ?step fs [])))" using snoc put_runbook_keys unfolding ok_def by blast
      moreover have "\<forall>k e. map_of (put_runbook (str (jget d ''id'')) d (fold ?step fs [])) k = Some e \<longrightarrow>
          k = str (jget e ''id'') \<and> (\<exists>path. (path, JObj e) \<in> set (fs @ [f]))"
        using snoc unfolding ok_def put_runbook_get by (auto simp: f d) blast
      moreover have "\<forall>(path, v) \<in> set (fs @ [f]). \<forall>e. v = JObj e \<and> truthy (jget e ''id'') \<longrightarrow>
          map_of (put_runbook (str (jget d ''id'')) d (fold ?step fs [])) (str (jget e ''id'')) \<noteq> None"
        using snoc unfolding ok_def put_runbook_get by (auto simp: f d)
      ultimately show ?thesis unfolding ok_def out by blast
    next
      case False
      then have "fold ?step (fs @ [f]) [] = fold ?step fs []" by (cases v) (auto simp: f)
      then show ?thesis using snoc False by (fastforce simp: ok_def f)
    qed
  qed (simp add: ok_def)
  then have b: "ok files books" by (simp add: assms load_runbooks_def)
  then have "get_runbook (str (jget d ''id'')) books = Some d \<and> (\<exists>path. (path, JObj d) \<in> set files)" if "d \<in> set (list_runbooks books)" for d
  proof -
    from that obtain k where "(k, d) \<in> set books" by (auto simp: list_runbooks_def)
    then have "map_of books k = Some d" using b by (simp add: ok_def)
    then show ?thesis using b by (auto simp: ok_def get_runbook_def)
  qed
  then show ?thesis using b by (auto simp: ok_def get_runbook_def)
qed

section \<open>Witnesses\<close>

definition lab_spec :: job_filter_spec where
  "lab_spec = \<lparr>fs_status = Some DEAD_LETTER, fs_type = None, fs_trace_id = None, fs_created_after = None, fs_created_before = None,
     fs_retry_count_min = None, fs_retry_count_max = None, fs_limit = 20\<rparr>"

definition lab_console :: console where
  "lab_console = \<lparr>cn_db = (lab_llm_db [lab_dead_job, (sample_job 6 DEAD_LETTER)\<lparr>j_tenant_id := 1\<rparr>])\<lparr>ld_auth := (ld_auth (lab_llm_db
       [lab_dead_job, (sample_job 6 DEAD_LETTER)\<lparr>j_tenant_id := 1\<rparr>]))\<lparr>au_users := [lab_user]\<rparr>\<rparr>, cn_counters = (\<lambda>_. None), cn_calls = []\<rparr>"

abbreviation lab_token :: string where
  "lab_token \<equiv> fst (token_pair lab_crypto lab_ttls 9 (7, 8) lab_user)"

definition lab_limits :: console_limits where
  "lab_limits = \<lparr>cl_nl_query = 10, cl_digest = 5, cl_window = 60\<rparr>"

definition lab_asking :: request where
  "lab_asking = \<lparr>rq_now = 10, rq_id = None, rq_forwarded_for = None, rq_peer = None, rq_redis = RedisUp\<rparr>"

definition lab_question :: dict where
  "lab_question = [(''question'', JStr ''what died'')]"

lemma lab_console_caller:
  "console_caller lab_crypto lab_asking lab_token [SUPPORT, ADMIN] (cn_db lab_console) =
     Inr (lab_user, declare_tenant_scope 1 ((ld_auth (cn_db lab_console))\<lparr>au_tx := new_tx\<rparr>))"
proof -
  let ?a = "(ld_auth (cn_db lab_console))\<lparr>au_tx := new_tx\<rparr>"
  have b: "us_id lab_user < 2 ^ 128" "us_tenant_id lab_user < 2 ^ 128" "ids_bounded ?a"
    by (simp_all add: lab_user_def ids_bounded_def lab_console_def)
  have "alive 10 9 (access_ttl lab_ttls)" by (simp add: alive_def access_ttl_def lab_ttls_def)
  moreover have "get_by us_id (us_id lab_user) (au_users ?a) = Some lab_user" by (simp add: lab_console_def)
  ultimately have "get_current_user lab_crypto 10 lab_token ?a = Inr (lab_user, declare_tenant_scope (us_tenant_id lab_user) ?a)"
    using access_token_works [OF lab_crypto_ok b] by (simp add: lab_user_def)
  moreover have "us_role lab_user = ADMIN" "us_tenant_id lab_user = 1" by (simp_all add: lab_user_def)
  ultimately show ?thesis by (simp add: console_caller_def lab_asking_def require_role_def)
qed

lemma lab_question_text: "body_text lab_question ''question'' = Inr ''what died''"
  by (simp add: body_text_def lab_question_def strip_def py_space_def)

lemma lab_question_counted:
  "check_identity_rate_limit RedisUp 10 (uuid_str (us_id lab_user)) 10 60 nl_query_bucket (\<lambda>_. None) =
     (None, (\<lambda>_. None)(paid_key nl_query_bucket 2 0 \<mapsto> (1, Some 130)))"
  by (simp add: check_identity_rate_limit_def check_key_rate_limit_def rate_check_def count_hit_def redis_incr_def redis_expire_def live_counter_def
      window_of_def lab_user_def Let_def)

lemma lab_asks:
  "\<exists>ans w'. admin_nl_query lab_crypto (\<lambda>_. []) lab_llm lab_limits (lab_client lab_spec) lab_asking lab_token lab_question None lab_console = (Inr ans, w')
     \<and> cn_calls w' = [(nl_query_bucket, uuid_str 2, 10)]"
proof -
  have p: "parse_question (\<lambda>_. []) lab_llm (lab_client lab_spec) 10 ''what died'' = Inr (lab_spec, extract_usage (lab_response lab_spec), ''claude-opus-4-7'')"
    by (simp add: parse_question_def ask_model_answer lab_llm_def lab_client_def) (simp add: lab_response_def)
  have f: "lm_nl_enabled lab_llm" "rq_now lab_asking = 10" "rq_redis lab_asking = RedisUp" "cl_nl_query lab_limits = 10" "cl_window lab_limits = 60"
    "cn_counters lab_console = (\<lambda>_. None)" "cn_calls lab_console = []" "us_id lab_user = 2"
    by (simp_all add: lab_llm_def lab_asking_def lab_limits_def lab_console_def lab_user_def)
  have "check_identity_rate_limit RedisUp 10 (uuid_str 2) 10 60 nl_query_bucket (\<lambda>_. None) = (None, (\<lambda>_. None)(paid_key nl_query_bucket 2 0 \<mapsto> (1, Some 130)))"
    using lab_question_counted f by simp
  then show ?thesis by (simp add: admin_nl_query_def lab_console_caller lab_question_text f p pay_def Let_def split: prod.split)
qed

theorem nl_query_confined_witness:
  "\<exists>ans w'. admin_nl_query lab_crypto (\<lambda>_. []) lab_llm lab_limits (lab_client lab_spec) lab_asking lab_token lab_question None lab_console = (Inr ans, w')
     \<and> (\<forall>j \<in> set (na_items ans). j_tenant_id j = 1)"
proof -
  obtain ans w' where run: "admin_nl_query lab_crypto (\<lambda>_. []) lab_llm lab_limits (lab_client lab_spec) lab_asking lab_token lab_question None lab_console = (Inr ans, w')"
    using lab_asks by blast
  have "\<forall>model p el r f. lab_client lab_spec model p = (el, ApiAnswer r) \<and> lr_parsed r = Some f \<longrightarrow> valid_filter_spec f"
    by (auto simp: lab_client_def lab_response_def lab_spec_def valid_filter_spec_def if_given_def)
  from nl_query_confined [OF this run] obtain u t where u: "u \<in> set (au_users (ld_auth (cn_db lab_console)))"
    "t = us_tenant_id u \<or> us_is_platform_admin u \<and> None = Some t"
    "\<forall>j \<in> set (na_items ans). job_matches t (spec_filter (na_spec ans)) j" by blast
  then have "t = 1" by (simp add: lab_console_def) (simp add: lab_user_def)
  with u(3) run show ?thesis by (auto simp: job_matches_def)
qed

theorem paid_calls_bounded_witness:
  "paid_in lab_limits nl_query_bucket 2 0 (fold (console_apply lab_crypto (\<lambda>_. []) lab_limits)
     (replicate 11 (Asks lab_llm (lab_client lab_spec) lab_asking lab_token lab_question None)) lab_console) \<le> 10"
proof -
  have "calls_counted lab_limits lab_console"
    by (simp add: calls_counted_def paid_in_def lab_console_def counters_ok_def lab_limits_def)
  moreover have "\<forall>req \<in> set (replicate 11 (Asks lab_llm (lab_client lab_spec) lab_asking lab_token lab_question None)). rq_redis (request_of req) = RedisUp"
    by (simp add: lab_asking_def)
  ultimately show ?thesis using paid_calls_bounded [OF _ _ refl, of lab_limits lab_console] by (fastforce simp: lab_limits_def)
qed

theorem runbooks_consistent_witness:
  "get_runbook ''rb-a'' (load_runbooks (\<lambda>v. case v of JStr s \<Rightarrow> s | _ \<Rightarrow> []) (Some [(''a.yaml'', JObj [(''id'', JStr ''rb-a'')]), (''b.yaml'', JNull)])) \<noteq> None"
  using runbooks_consistent [OF refl, of "\<lambda>v. case v of JStr s \<Rightarrow> s | _ \<Rightarrow> []" "[(''a.yaml'', JObj [(''id'', JStr ''rb-a'')]), (''b.yaml'', JNull)]"]
  by simp

end
