(* ===== verification/Agent_Reads.thy ===== *)
theory Agent_Reads
  imports Slo Replay_Tools Llm_Services
begin

text \<open>
  What the responder reads before it acts: the dead letters (\<open>mcp/tools/list_dlq_messages.py\<close>), the
  incidents (\<open>mcp/tools/incidents.py\<close>), the graph around a job with its pause
  (\<open>mcp/tools/dag_state.py\<close>, \<open>pause_state\<close> of \<open>utils/dag_pause.py\<close>, and the laboratory's
  \<open>pause_dag_chaos\<close>), and the traces (\<open>mcp/tools/traces.py\<close>). The inputs are the ones the models of
  the tools accept.
\<close>

section \<open>Dead letters (\<open>mcp/tools/list_dlq_messages.py\<close>)\<close>

definition no_filter :: job_filter where
  "no_filter = \<lparr>f_user_id = None, f_status = None, f_job_type = None, f_trace_id = None, f_created_after = None, f_created_before = None,
     f_retry_count_min = None, f_retry_count_max = None, f_remediation_hint = None, f_exclude_remediation_hints = [], f_require_trace_id = False\<rparr>"

record dlq_entry =
  de_id :: string
  de_type :: string
  de_error_message :: "string option"
  de_retry_count :: int
  de_remediation_hint :: "string option"
  de_created_at :: time
  de_dead_lettered_at :: "time option"
  de_fenced_at :: "time option"
  de_fenced_by :: "string option"
  de_updated_at :: time
  de_trace_id :: "string option"
  de_triage :: "triage_analysis option"

definition dlq_entry_of :: "llm_db \<Rightarrow> job \<Rightarrow> dlq_entry" where
  "dlq_entry_of d j =
     \<lparr>de_id = uuid_str (j_id j), de_type = j_type j, de_error_message = j_error_message j, de_retry_count = j_retry_count j,
      de_remediation_hint = j_remediation_hint j, de_created_at = j_created_at j, de_dead_lettered_at = j_completed_at j,
      de_fenced_at = j_fenced_at j, de_fenced_by = j_fenced_by j, de_updated_at = j_updated_at j, de_trace_id = j_trace_id j,
      de_triage = map_option tg_analysis (triage_by_job_id (j_id j) d)\<rparr>"

definition list_dlq_messages ::
    "principal \<Rightarrow> string option \<Rightarrow> string option \<Rightarrow> nat \<Rightarrow> nat \<Rightarrow> llm_db \<Rightarrow> nat \<times> dlq_entry list" where
  "list_dlq_messages p job_type hint limit offset d =
     (let (js, found) = list_jobs (pr_tenant_id p) offset limit
            (no_filter\<lparr>f_status := Some DEAD_LETTER, f_job_type := job_type, f_remediation_hint := hint\<rparr>) SORT_DEAD_LETTERED_AT (ld_core d)
      in (found, map (dlq_entry_of d) js))"

section \<open>Incidents (\<open>mcp/tools/incidents.py\<close>)\<close>

definition incident_matches :: "uuid \<Rightarrow> bool \<Rightarrow> string option \<Rightarrow> string option \<Rightarrow> alert \<Rightarrow> bool" where
  "incident_matches tenant_id include_resolved severity source a \<longleftrightarrow> al_tenant_id a = tenant_id \<and> (include_resolved \<or> open_row a)
     \<and> if_given severity (\<lambda>s. al_severity a = s) \<and> if_given source (\<lambda>s. al_source a = s)"

text \<open>The order is by \<open>fired_at\<close> alone; equal times keep the order of the table.\<close>

definition list_incidents_query ::
    "uuid \<Rightarrow> bool \<Rightarrow> string option \<Rightarrow> string option \<Rightarrow> nat \<Rightarrow> alert list \<Rightarrow> alert list \<times> nat" where
  "list_incidents_query tenant_id include_resolved severity source limit rows =
     (let P = incident_matches tenant_id include_resolved severity source
      in (take limit (sort_key (\<lambda>a. - al_fired_at a) (filter P rows)), row_count P rows))"

record incident_summary =
  in_alert_id :: uuid
  in_severity :: string
  in_source :: string
  in_title :: string
  in_description :: "string option"
  in_fired_at :: time
  in_resolved_at :: "time option"
  in_is_active :: bool

definition incident_summary_of :: "alert \<Rightarrow> incident_summary" where
  "incident_summary_of a = \<lparr>in_alert_id = al_id a, in_severity = al_severity a, in_source = al_source a, in_title = al_title a,
     in_description = al_description a, in_fired_at = al_fired_at a, in_resolved_at = al_resolved_at a, in_is_active = open_row a\<rparr>"

definition list_incidents ::
    "principal \<Rightarrow> bool \<Rightarrow> string option \<Rightarrow> string option \<Rightarrow> nat \<Rightarrow> alert list \<Rightarrow> nat \<times> incident_summary list" where
  "list_incidents p include_resolved severity source limit rows =
     (let (as, found) = list_incidents_query (pr_tenant_id p) include_resolved severity source limit rows
      in (found, map incident_summary_of as))"

definition get_incident :: "principal \<Rightarrow> uuid \<Rightarrow> alert list \<Rightarrow> app_error + incident_summary \<times> dict option \<times> string option" where
  "get_incident p i rows =
     (case get_by al_id i rows of
        None \<Rightarrow> Inl (NotFoundError (''incident not found: '' @ uuid_str i))
      | Some a \<Rightarrow>
          if al_tenant_id a \<noteq> pr_tenant_id p then Inl (NotFoundError (''incident not found: '' @ uuid_str i))
          else Inr (incident_summary_of a, al_extra_data a, al_request_id a))"

section \<open>Pause flags with their expiry\<close>

type_synonym pause_store = "uuid \<Rightarrow> time option option"

text \<open>What Redis answers to \<open>TTL\<close>: -2 for no key, -1 for no expiry, whole seconds to the nearest otherwise.\<close>

definition pause_ttl :: "time \<Rightarrow> time option option \<Rightarrow> int" where
  "pause_ttl now slot =
     (case slot of
        None \<Rightarrow> -2 | Some None \<Rightarrow> -1
      | Some (Some expires) \<Rightarrow> if now < expires then \<lfloor>expires - now + 1 / 2\<rfloor> else -2)"

definition pause_state :: "bool \<Rightarrow> time \<Rightarrow> pause_store \<Rightarrow> uuid \<Rightarrow> bool \<times> int option" where
  "pause_state up now st i =
     (if \<not> up then (False, None)
      else let ttl = pause_ttl now (st i)
           in if ttl = -2 then (False, None) else if ttl = -1 then (True, None) else (True, Some ttl))"

text \<open>The keys that one \<open>MGET\<close> of the walk finds.\<close>

definition live_flags :: "bool \<Rightarrow> time \<Rightarrow> pause_store \<Rightarrow> uuid list \<Rightarrow> pause_flags" where
  "live_flags up now st nodes = (if up then PauseFlags (filter (\<lambda>n. pause_live now (st n)) nodes) else RedisDown)"

definition blocking_pause :: "bool \<Rightarrow> time \<Rightarrow> pause_store \<Rightarrow> uuid \<Rightarrow> db \<Rightarrow> uuid option" where
  "blocking_pause up now st i d = find_blocking_pause (live_flags up now st (collect_ancestors i True d)) i d"

text \<open>
  The write of \<open>pause_dag\<close> and \<open>pause_dag_chaos\<close>: the same check and the same key; a Redis that is down
  raises.
\<close>

definition pause_dag_chaos :: "principal \<Rightarrow> bool \<Rightarrow> time \<Rightarrow> uuid \<Rightarrow> int \<Rightarrow> db \<Rightarrow> pause_store \<Rightarrow> app_error + pause_store" where
  "pause_dag_chaos p up now root_id ttl_seconds d st =
     (case job_by_id d root_id of
        None \<Rightarrow> Inl (NotFoundError (''job not found: '' @ uuid_str root_id))
      | Some j \<Rightarrow>
          if j_tenant_id j \<noteq> pr_tenant_id p then Inl (NotFoundError (''job not found: '' @ uuid_str root_id))
          else if \<not> up then Inl (RuntimeError ''redis'')
          else Inr (st(root_id \<mapsto> Some (now + of_int ttl_seconds))))"

section \<open>The graph around a job (\<open>mcp/tools/dag_state.py\<close>)\<close>

record dag_node =
  dn_id :: uuid
  dn_type :: string
  dn_status :: job_status
  dn_retry_count :: int
  dn_created_at :: time

definition dag_node_of :: "job \<Rightarrow> dag_node" where
  "dag_node_of j = \<lparr>dn_id = j_id j, dn_type = j_type j, dn_status = j_status j, dn_retry_count = j_retry_count j, dn_created_at = j_created_at j\<rparr>"

text \<open>\<open>nodes[key] = node\<close>: a key that is there keeps its place.\<close>

fun put_node :: "dag_node \<Rightarrow> dag_node list \<Rightarrow> dag_node list" where
  "put_node n [] = [n]"
| "put_node n (m # ms) = (if dn_id m = dn_id n then n # ms else m # put_node n ms)"

definition load_node :: "principal \<Rightarrow> db \<Rightarrow> uuid \<Rightarrow> dag_node list \<Rightarrow> dag_node list" where
  "load_node p d i nodes =
     (case job_by_id d i of
        None \<Rightarrow> nodes
      | Some j \<Rightarrow> if j_tenant_id j \<noteq> pr_tenant_id p then nodes else put_node (dag_node_of j) nodes)"

record dag_state =
  ds_seed_id :: uuid
  ds_nodes :: "dag_node list"
  ds_edges :: "(uuid \<times> uuid) list"
  ds_paused :: bool
  ds_paused_expires_in :: "int option"
  ds_paused_by :: "uuid option"

definition get_dag_state :: "principal \<Rightarrow> bool \<Rightarrow> time \<Rightarrow> uuid \<Rightarrow> pause_store \<Rightarrow> db \<Rightarrow> app_error + dag_state" where
  "get_dag_state p up now i st d =
     (case job_by_id d i of
        None \<Rightarrow> Inl (NotFoundError (''job not found: '' @ uuid_str i))
      | Some seed \<Rightarrow>
          if j_tenant_id seed \<noteq> pr_tenant_id p then Inl (NotFoundError (''job not found: '' @ uuid_str i))
          else (let parents = dep_parents (j_id seed) d; children = children_of (j_id seed) d;
                    nodes = fold (load_node p d) (j_id seed # parents @ children) [];
                    edges = map (\<lambda>q. (j_id seed, q)) parents @ map (\<lambda>c. (c, j_id seed)) children;
                    (paused, expires_in) = pause_state up now st (j_id seed)
                in Inr \<lparr>ds_seed_id = j_id seed, ds_nodes = nodes, ds_edges = edges, ds_paused = paused,
                     ds_paused_expires_in = expires_in, ds_paused_by = blocking_pause up now st (j_id seed) d\<rparr>))"

section \<open>Traces (\<open>mcp/tools/traces.py\<close>)\<close>

definition max_trace_jobs :: nat where
  "max_trace_jobs = 50"

definition max_trace_audit_rows :: nat where
  "max_trace_audit_rows = 200"

record trace_view =
  tv_jobs_found :: "job list"
  tv_audit_events :: "audit_log list"
  tv_truncated :: bool
  tv_total_jobs :: nat
  tv_total_audit :: "nat option"

definition trace_audit_filter :: "principal \<Rightarrow> string \<Rightarrow> audit_filter" where
  "trace_audit_filter p trace_id = \<lparr>q_user_id = None, q_job_id = None, q_action = None, q_action_prefixes = [],
     q_exclude_action_prefixes = hidden_audit_action_prefixes p, q_principal_type = None, q_tenant_id = Some (pr_tenant_id p),
     q_request_id = Some trace_id\<rparr>"

definition get_trace :: "principal \<Rightarrow> string \<Rightarrow> bool \<Rightarrow> db \<Rightarrow> trace_view" where
  "get_trace p trace_id include_audit d =
     (let (js, n) = list_jobs (pr_tenant_id p) 0 max_trace_jobs (no_filter\<lparr>f_trace_id := Some trace_id\<rparr>) SORT_CREATED_AT d;
          (rows, counted) = (if include_audit
             then (let (rs, m) = list_logs 0 max_trace_audit_rows (trace_audit_filter p trace_id) d in (rs, Some m)) else ([], None))
      in \<lparr>tv_jobs_found = js, tv_audit_events = rows,
          tv_truncated = (length js < n \<or> (case counted of None \<Rightarrow> False | Some m \<Rightarrow> length rows < m)),
          tv_total_jobs = n, tv_total_audit = counted\<rparr>)"

text \<open>A status that is none of the platform's matches no row.\<close>

definition status_named :: "string \<Rightarrow> job_status option" where
  "status_named s = find (\<lambda>st. job_status_value st = s) [WAITING, PENDING, RUNNING, COMPLETED, FAILED, DEAD_LETTER, CANCELLED]"

definition search_traces :: "principal \<Rightarrow> time \<Rightarrow> string option \<Rightarrow> string option \<Rightarrow> int option \<Rightarrow> nat \<Rightarrow> db \<Rightarrow> (string \<times> job) list" where
  "search_traces p now status job_type since_hours limit d =
     (let query = (\<lambda>st. map (\<lambda>j. (case j_trace_id j of None \<Rightarrow> [] | Some t \<Rightarrow> t, j))
            (fst (list_jobs (pr_tenant_id p) 0 limit (no_filter\<lparr>f_status := st, f_job_type := job_type,
               f_created_after := map_option (\<lambda>h. now - of_int h * 3600) since_hours, f_require_trace_id := True\<rparr>) SORT_CREATED_AT d)))
      in case status of None \<Rightarrow> query None | Some s \<Rightarrow> (case status_named s of None \<Rightarrow> [] | Some st \<Rightarrow> query (Some st)))"

section \<open>Pages and totals\<close>

definition ordered_jobs :: "uuid \<Rightarrow> job_filter \<Rightarrow> job_sort \<Rightarrow> db \<Rightarrow> job list" where
  "ordered_jobs tenant f srt d = sort_key (\<lambda>j. - sort_column srt j) (sort_key (\<lambda>j. - int (j_id j)) (filter (job_matches tenant f) (jobs d)))"

lemma list_jobs_ordered: "list_jobs tenant offset limit f srt d = (take limit (drop offset (ordered_jobs tenant f srt d)), length (ordered_jobs tenant f srt d))"
  by (simp add: list_jobs_def ordered_jobs_def Let_def)

lemma set_ordered_jobs [simp]: "set (ordered_jobs tenant f srt d) = {j \<in> set (jobs d). job_matches tenant f j}"
  by (auto simp: ordered_jobs_def)

lemma pages_concat: "concat (map (\<lambda>k. take l (drop (k * l) xs)) [0..<n]) = take (n * l) xs"
proof (induction n)
  case (Suc n)
  have "take (n * l) xs @ take l (drop (n * l) xs) = take (n * l + l) xs" by (simp only: take_add)
  with Suc show ?case by (simp add: add.commute)
qed simp

lemma distinct_ordered_ids:
  assumes "distinct (map j_id (jobs d))"
  shows "distinct (map j_id (ordered_jobs tenant f srt d))"
proof -
  have "mset (map j_id (ordered_jobs tenant f srt d)) = mset (map j_id (filter (job_matches tenant f) (jobs d)))"
    by (simp add: ordered_jobs_def)
  then show ?thesis using assms by (metis distinct_map_filter mset_eq_imp_distinct_iff)
qed

text \<open>
  Paging through the dead letters misses nothing and repeats nothing: the pages at offsets \<open>0\<close>,
  \<open>limit\<close>, \<open>2 * limit\<close> and so on up to the reported total are together one entry for each dead letter of
  the caller's tenant that fits the filters, the ones that died last first, and the total is their number
  on every page.
\<close>

theorem dlq_pages_exact:
  assumes "distinct (map j_id (jobs (ld_core d)))" "0 < limit" "fst (list_dlq_messages p job_type hint limit offset0 d) = n"
    and "m = (n + limit - 1) div limit"
    and "js = ordered_jobs (pr_tenant_id p) (no_filter\<lparr>f_status := Some DEAD_LETTER, f_job_type := job_type, f_remediation_hint := hint\<rparr>)
          SORT_DEAD_LETTERED_AT (ld_core d)"
  shows "concat (map (\<lambda>k. snd (list_dlq_messages p job_type hint limit (k * limit) d)) [0..<m]) = map (dlq_entry_of d) js
    \<and> (\<forall>offset. fst (list_dlq_messages p job_type hint limit offset d) = length js)
    \<and> distinct (map j_id js) \<and> sorted_wrt (\<lambda>x y. sort_column SORT_DEAD_LETTERED_AT y \<le> sort_column SORT_DEAD_LETTERED_AT x) js
    \<and> set js = {j \<in> set (jobs (ld_core d)). j_tenant_id j = pr_tenant_id p \<and> j_status j = DEAD_LETTER
         \<and> if_given job_type (\<lambda>t. j_type j = t) \<and> if_given hint (\<lambda>h. j_remediation_hint j = Some h)}"
proof -
  have page: "list_dlq_messages p job_type hint limit offset d = (length js, map (dlq_entry_of d) (take limit (drop offset js)))" for offset
    by (simp add: list_dlq_messages_def list_jobs_ordered assms(5))
  have n: "n = length js" using assms(3) by (simp add: page)
  have "length js \<le> m * limit"
  proof -
    have "length js < (length js + limit - 1) div limit * limit + 1"
      using div_mult_mod_eq [of "length js + limit - 1" limit] mod_less_divisor [OF assms(2), of "length js + limit - 1"] assms(2) by linarith
    then show ?thesis by (simp add: assms(4) n)
  qed
  then have "concat (map (\<lambda>k. map (dlq_entry_of d) (take limit (drop (k * limit) js))) [0..<m]) = map (dlq_entry_of d) js"
    using arg_cong [OF pages_concat [of limit js m], of "map (dlq_entry_of d)"] by (simp add: map_concat o_def)
  moreover have "sorted_wrt (\<lambda>x y. sort_column SORT_DEAD_LETTERED_AT y \<le> sort_column SORT_DEAD_LETTERED_AT x) js"
  proof -
    have "sorted (map (\<lambda>j. - sort_column SORT_DEAD_LETTERED_AT j) js)" by (simp add: assms(5) ordered_jobs_def)
    then show ?thesis by (simp add: sorted_map)
  qed
  moreover have "distinct (map j_id js)" unfolding assms(5) by (rule distinct_ordered_ids [OF assms(1)])
  moreover have "set js = {j \<in> set (jobs (ld_core d)). j_tenant_id j = pr_tenant_id p \<and> j_status j = DEAD_LETTER
         \<and> if_given job_type (\<lambda>t. j_type j = t) \<and> if_given hint (\<lambda>h. j_remediation_hint j = Some h)}"
    by (auto simp: assms(5) job_matches_def no_filter_def if_given_def)
  ultimately show ?thesis by (simp add: page)
qed

section \<open>A pause that can be read back\<close>

lemma put_node_ids: "distinct (map dn_id ns) \<Longrightarrow> distinct (map dn_id (put_node n ns)) \<and> set (map dn_id (put_node n ns)) = insert (dn_id n) (set (map dn_id ns))"
  by (induction n ns rule: put_node.induct) auto

lemma put_node_same:
  "(\<forall>m \<in> set ns. dn_id m = dn_id n \<longrightarrow> m = n) \<Longrightarrow> set (put_node n ns) = insert n (set ns)"
  by (induction n ns rule: put_node.induct) auto

text \<open>Exactly the visible jobs among the ids, each once.\<close>

lemma loaded_nodes:
  "distinct (map dn_id (fold (load_node p d) ids []))
   \<and> set (fold (load_node p d) ids []) = {dag_node_of j | i j. i \<in> set ids \<and> job_by_id d i = Some j \<and> j_tenant_id j = pr_tenant_id p}"
proof (induction ids rule: rev_induct)
  case (snoc i ids)
  show ?case
  proof (cases "\<exists>j. job_by_id d i = Some j \<and> j_tenant_id j = pr_tenant_id p")
    case True
    then obtain j where j: "job_by_id d i = Some j" "j_tenant_id j = pr_tenant_id p" by blast
    have id: "j_id j = i" using j(1) by (auto dest: get_by_SomeD)
    have "m = dag_node_of j" if m: "m \<in> set (fold (load_node p d) ids [])" "dn_id m = dn_id (dag_node_of j)" for m
    proof -
      obtain i' j' where "m = dag_node_of j'" "job_by_id d i' = Some j'" using snoc m(1) by auto
      moreover then have "j_id j' = i'" by (auto dest: get_by_SomeD)
      ultimately show ?thesis using m(2) j(1) id by (simp add: dag_node_of_def)
    qed
    then have "set (put_node (dag_node_of j) (fold (load_node p d) ids [])) = insert (dag_node_of j) (set (fold (load_node p d) ids []))"
      by (intro put_node_same) blast
    moreover have "load_node p d i ns = put_node (dag_node_of j) ns" for ns using j by (simp add: load_node_def)
    ultimately show ?thesis using snoc j put_node_ids [of "fold (load_node p d) ids []" "dag_node_of j"] by auto
  next
    case False
    then have "load_node p d i ns = ns" for ns by (auto simp: load_node_def split: option.split)
    then have "fold (load_node p d) (ids @ [i]) [] = fold (load_node p d) ids []" by simp
    then show ?thesis using snoc False by auto
  qed
qed simp

lemma pause_ttl_live: "pause_ttl now slot \<noteq> -2 \<longleftrightarrow> pause_live now slot"
proof -
  have "0 \<le> \<lfloor>x - now + 1 / 2\<rfloor>" if "now < x" for x :: rat using that by (simp add: le_floor_iff)
  then have "\<lfloor>x - now + 1 / 2\<rfloor> \<noteq> -2" if "now < x" for x :: rat using that by fastforce
  then show ?thesis by (auto simp: pause_ttl_def pause_live_def split: option.split)
qed

lemma blocking_pause_sound:
  "blocking_pause up now st i d = Some n \<Longrightarrow> up \<and> ancestor d i n \<and> pause_live now (st n)"
  using find_blocking_pause_sound [of "filter (\<lambda>n. pause_live now (st n)) (collect_ancestors i True d)" i d n]
  by (cases up) (simp_all add: blocking_pause_def live_flags_def find_blocking_pause_def)

lemma blocking_pause_complete:
  assumes "length (collect_ancestors i True d) < 64" "ancestor d i n" "pause_live now (st n)"
  shows "blocking_pause True now st i d \<noteq> None"
  using find_blocking_pause_complete [of i d n "filter (\<lambda>n. pause_live now (st n)) (collect_ancestors i True d)"]
    collect_ancestors_complete [of i d n] assms
  by (simp add: blocking_pause_def live_flags_def max_ancestor_nodes_def)

text \<open>The key a pause wrote, and what \<open>TTL\<close> makes of it while it lives.\<close>

lemma pause_written:
  assumes "pause_dag_chaos p up0 t rt ttl d st0 = Inr st1" "st rt = st1 rt" "now < t + of_int ttl"
  shows "pause_live now (st rt)" "pause_state True now st rt = (True, Some \<lfloor>t + of_int ttl - now + 1 / 2\<rfloor>)"
proof -
  have slot: "st rt = Some (Some (t + of_int ttl))"
    using assms(1,2) by (auto simp: pause_dag_chaos_def split: option.splits if_splits)
  have "0 \<le> \<lfloor>t + of_int ttl - now + 1 / 2\<rfloor>" using assms(3) by (simp add: le_floor_iff)
  then have "\<lfloor>t + of_int ttl - now + 1 / 2\<rfloor> \<noteq> -1" "\<lfloor>t + of_int ttl - now + 1 / 2\<rfloor> \<noteq> -2" by linarith+
  then show "pause_live now (st rt)" "pause_state True now st rt = (True, Some \<lfloor>t + of_int ttl - now + 1 / 2\<rfloor>)"
    using slot assms(3) by (simp_all add: pause_live_def pause_state_def pause_ttl_def Let_def)
qed

lemma get_dag_stateD:
  assumes "get_dag_state p up now i st d = Inr s"
  shows "ds_nodes s = fold (load_node p d) (i # dep_parents i d @ children_of i d) []"
    "ds_edges s = map (\<lambda>q. (i, q)) (dep_parents i d) @ map (\<lambda>c. (c, i)) (children_of i d)"
    "(ds_paused s, ds_paused_expires_in s) = pause_state up now st i" "ds_paused_by s = blocking_pause up now st i d"
proof -
  obtain j where j: "job_by_id d i = Some j" "j_tenant_id j = pr_tenant_id p"
    using assms by (auto simp: get_dag_state_def split: option.splits if_splits)
  have "j_id j = i" using j(1) by (auto dest: get_by_SomeD)
  then show "ds_nodes s = fold (load_node p d) (i # dep_parents i d @ children_of i d) []"
    "ds_edges s = map (\<lambda>q. (i, q)) (dep_parents i d) @ map (\<lambda>c. (c, i)) (children_of i d)"
    "(ds_paused s, ds_paused_expires_in s) = pause_state up now st i" "ds_paused_by s = blocking_pause up now st i d"
    using assms j by (auto simp: get_dag_state_def Let_def split: prod.splits)
qed

text \<open>
  Property C38. What \<open>get_dag_state\<close> shows, over one state of the database and of Redis. It answers for a
  job of the caller's tenant and says "not found" of any other id. The nodes are the job and those of its
  parents and children that are the tenant's, each once; the edges are exactly the dependency rows the job
  is an end of. A job is shown as paused exactly when Redis answers and its own key lives. The id shown as
  holding the job is always the job itself or an ancestor whose key lives; and where Redis answers and the
  walk up the graph collects fewer than its cap of 64 jobs, one is shown whenever there is one. (With Redis
  down nothing is shown as paused, and a key beyond the cap may go unseen.) Under the same two provisos a
  pause written through \<open>pause_dag_chaos\<close> reads back, on the root and on its descendants, for as long as
  its key is neither rewritten nor expired.
\<close>

theorem dag_state_exact:
  "((\<exists>s. get_dag_state p up now i st d = Inr s) \<longleftrightarrow> (\<exists>j. job_by_id d i = Some j \<and> j_tenant_id j = pr_tenant_id p))
    \<and> (\<forall>e. get_dag_state p up now i st d = Inl e \<longrightarrow> e = NotFoundError (''job not found: '' @ uuid_str i))
    \<and> (get_dag_state p up now i st d = Inr s \<longrightarrow>
         distinct (map dn_id (ds_nodes s))
       \<and> set (ds_nodes s) = {dag_node_of j | k j. (k = i \<or> dep_edge d i k \<or> dep_edge d k i) \<and> job_by_id d k = Some j \<and> j_tenant_id j = pr_tenant_id p}
       \<and> set (ds_edges s) = {(c, q). dep_edge d c q \<and> (c = i \<or> q = i)}
       \<and> (ds_paused s \<longleftrightarrow> up \<and> pause_live now (st i))
       \<and> (\<forall>n. ds_paused_by s = Some n \<longrightarrow> up \<and> ancestor d i n \<and> pause_live now (st n))
       \<and> (up \<and> length (collect_ancestors i True d) < 64 \<longrightarrow>
            (ds_paused_by s \<noteq> None \<longleftrightarrow> (\<exists>n. ancestor d i n \<and> pause_live now (st n))))
       \<and> (\<forall>t root ttl st0 st1. pause_dag_chaos p True t root ttl d st0 = Inr st1 \<and> st root = st1 root \<and> now < t + of_int ttl \<and> up \<longrightarrow>
            (ancestor d i root \<and> length (collect_ancestors i True d) < 64 \<longrightarrow> ds_paused_by s \<noteq> None)
          \<and> (i = root \<longrightarrow> ds_paused s \<and> ds_paused_expires_in s = Some \<lfloor>t + of_int ttl - now + 1 / 2\<rfloor>)))"
proof (intro conjI impI allI)
  show "(\<exists>s. get_dag_state p up now i st d = Inr s) \<longleftrightarrow> (\<exists>j. job_by_id d i = Some j \<and> j_tenant_id j = pr_tenant_id p)"
    by (auto simp: get_dag_state_def Let_def split: option.split prod.split)
  show "e = NotFoundError (''job not found: '' @ uuid_str i)" if "get_dag_state p up now i st d = Inl e" for e
    using that by (auto simp: get_dag_state_def Let_def split: option.splits prod.splits if_splits)
  assume "get_dag_state p up now i st d = Inr s"
  note s = get_dag_stateD [OF this]
  have kids: "set (children_of i d) = {c. dep_edge d c i}" by (auto simp: children_of_def dep_edge_def)
  show "distinct (map dn_id (ds_nodes s))"
    "set (ds_nodes s) = {dag_node_of j | k j. (k = i \<or> dep_edge d i k \<or> dep_edge d k i) \<and> job_by_id d k = Some j \<and> j_tenant_id j = pr_tenant_id p}"
    using loaded_nodes [of p d "i # dep_parents i d @ children_of i d"] by (auto simp: s(1) set_dep_parents kids)
  show "set (ds_edges s) = {(c, q). dep_edge d c q \<and> (c = i \<or> q = i)}" by (auto simp: s(2) set_dep_parents kids)
  show "ds_paused s \<longleftrightarrow> up \<and> pause_live now (st i)"
    using s(3) pause_ttl_live [of now "st i"] by (auto simp: pause_state_def Let_def split: if_splits)
  show sound: "up" "ancestor d i n" "pause_live now (st n)" if "ds_paused_by s = Some n" for n
    using blocking_pause_sound that by (metis s(4))+
  show "ds_paused_by s \<noteq> None \<longleftrightarrow> (\<exists>n. ancestor d i n \<and> pause_live now (st n))"
    if "up \<and> length (collect_ancestors i True d) < 64"
    using that sound blocking_pause_complete [of i d] by (auto simp: s(4))
  fix t root ttl st0 st1
  assume w: "pause_dag_chaos p True t root ttl d st0 = Inr st1 \<and> st root = st1 root \<and> now < t + of_int ttl \<and> up"
  note live = pause_written [of p True t root ttl d st0 st1 st now]
  show "ds_paused_by s \<noteq> None" if "ancestor d i root \<and> length (collect_ancestors i True d) < 64"
    using that w live(1) blocking_pause_complete [of i d root now st] by (simp add: s(4))
  show "ds_paused s" "ds_paused_expires_in s = Some \<lfloor>t + of_int ttl - now + 1 / 2\<rfloor>" if "i = root"
    using that w live(2) s(3) by simp_all
qed

section \<open>A trace that says when it is a sample\<close>

lemma list_logs_page: "list_logs 0 limit q d = (take limit (filter (log_matches q) (rev (audit_logs d))), length (filter (log_matches q) (rev (audit_logs d))))"
  by (simp add: list_logs_def Let_def)

text \<open>
  A trace view is complete exactly when it says so. Its jobs are jobs of the caller's tenant that carry
  the trace, its audit rows rows of the tenant with that request id, and of neither more than the cap; the
  totals are true. It is marked truncated exactly when something of the trace is not in it: unmarked, it
  holds every job and, where asked for, every audit row that the caller may see. Rows of the laboratory's
  streams are neither shown nor counted to a caller who may not invoke chaos. And the traces a search
  lists belong to jobs of the tenant that carry one; a search that found fewer than its limit found all.
\<close>

theorem trace_view_honest:
  assumes "v = get_trace p trace_id include_audit d"
    and "of_trace = {j \<in> set (jobs d). j_tenant_id j = pr_tenant_id p \<and> j_trace_id j = Some trace_id}"
    and "events = filter (log_matches (trace_audit_filter p trace_id)) (rev (audit_logs d))"
  shows "set (tv_jobs_found v) \<subseteq> of_trace \<and> length (tv_jobs_found v) \<le> 50
    \<and> tv_total_jobs v = row_count (\<lambda>j. j_tenant_id j = pr_tenant_id p \<and> j_trace_id j = Some trace_id) (jobs d)
    \<and> tv_audit_events v = (if include_audit then take 200 events else [])
    \<and> tv_total_audit v = (if include_audit then Some (length events) else None)
    \<and> (tv_truncated v \<longleftrightarrow> 50 < tv_total_jobs v \<or> include_audit \<and> 200 < length events)
    \<and> (\<not> tv_truncated v \<longrightarrow> set (tv_jobs_found v) = of_trace \<and> (include_audit \<longrightarrow> tv_audit_events v = events))
    \<and> (\<forall>r \<in> set events. a_tenant_id r = pr_tenant_id p \<and> a_request_id r = Some trace_id
         \<and> (''chaos:invoke'' \<notin> set (pr_scopes p) \<longrightarrow> take 6 (a_action r) \<noteq> ''chaos.'' \<and> take 4 (a_action r) \<noteq> ''lab.''))
    \<and> (\<forall>(t, j) \<in> set (search_traces p now status job_type since limit d). j \<in> set (jobs d) \<and> j_tenant_id j = pr_tenant_id p \<and> j_trace_id j = Some t \<and> t \<noteq> [])
    \<and> (length (search_traces p now None None None limit d) < limit \<longrightarrow>
         snd ` set (search_traces p now None None None limit d) = {j \<in> set (jobs d). j_tenant_id j = pr_tenant_id p \<and> j_trace_id j \<notin> {None, Some []}})"
proof -
  let ?f = "no_filter\<lparr>f_trace_id := Some trace_id\<rparr>"
  define js where "js = ordered_jobs (pr_tenant_id p) ?f SORT_CREATED_AT d"
  have m: "job_matches (pr_tenant_id p) ?f j \<longleftrightarrow> j_tenant_id j = pr_tenant_id p \<and> j_trace_id j = Some trace_id" for j
    by (simp add: job_matches_def no_filter_def if_given_def)
  have m_fun: "job_matches (pr_tenant_id p) ?f = (\<lambda>j. j_tenant_id j = pr_tenant_id p \<and> j_trace_id j = Some trace_id)" by (rule ext) (rule m)
  have js: "set js = of_trace" "length js = row_count (\<lambda>j. j_tenant_id j = pr_tenant_id p \<and> j_trace_id j = Some trace_id) (jobs d)"
    by (auto simp: js_def m assms(2)) (simp add: ordered_jobs_def row_count_def m_fun)
  have v: "tv_jobs_found v = take 50 js" "tv_total_jobs v = length js" "tv_audit_events v = (if include_audit then take 200 events else [])"
    "tv_total_audit v = (if include_audit then Some (length events) else None)"
    "tv_truncated v \<longleftrightarrow> 50 < length js \<or> include_audit \<and> 200 < length events"
    by (auto simp: assms(1,3) get_trace_def list_jobs_ordered js_def max_trace_jobs_def list_logs_page max_trace_audit_rows_def)
  have ev: "a_tenant_id r = pr_tenant_id p \<and> a_request_id r = Some trace_id
      \<and> (''chaos:invoke'' \<notin> set (pr_scopes p) \<longrightarrow> take 6 (a_action r) \<noteq> ''chaos.'' \<and> take 4 (a_action r) \<noteq> ''lab.'')" if "r \<in> set events" for r
  proof -
    have r: "log_matches (trace_audit_filter p trace_id) r" using that by (simp add: assms(3))
    have "\<not> like (x @ ''%'') (a_action r)" if "x \<in> set (hidden_audit_action_prefixes p)" for x
      using r that by (auto simp: log_matches_def trace_audit_filter_def)
    then have hid: "take n (a_action r) \<noteq> x" if "x \<in> set (hidden_audit_action_prefixes p)" "\<forall>c \<in> set x. c \<noteq> CHR ''%'' \<and> c \<noteq> CHR 0x5C" for x n
      using that like_prefix [of x "drop n (a_action r)"] by (metis append_take_drop_id)
    show ?thesis using r hid [of "''chaos.''" 6] hid [of "''lab.''" 4]
      by (simp add: log_matches_def trace_audit_filter_def opt_eq_def hidden_audit_action_prefixes_def action_defs)
  qed
  have search: "j \<in> set (jobs d) \<and> j_tenant_id j = pr_tenant_id p \<and> j_trace_id j = Some t \<and> t \<noteq> []"
    if "(t, j) \<in> set (search_traces p now status job_type since limit d)" for t j
    using that by (auto simp: search_traces_def list_jobs_ordered job_matches_def no_filter_def Let_def dest!: in_set_takeD split: option.splits)
  have all: "snd ` set (search_traces p now None None None limit d) = {j \<in> set (jobs d). j_tenant_id j = pr_tenant_id p \<and> j_trace_id j \<notin> {None, Some []}}"
    if "length (search_traces p now None None None limit d) < limit"
  proof -
    let ?xs = "ordered_jobs (pr_tenant_id p) (no_filter\<lparr>f_status := None, f_job_type := None, f_created_after := None, f_require_trace_id := True\<rparr>) SORT_CREATED_AT d"
    have s: "search_traces p now None None None limit d = map (\<lambda>j. (case j_trace_id j of None \<Rightarrow> [] | Some t \<Rightarrow> t, j)) (take limit ?xs)"
      by (simp add: search_traces_def list_jobs_ordered)
    then have "take limit ?xs = ?xs" using that by simp
    then have "snd ` set (search_traces p now None None None limit d) = set ?xs" by (simp add: s image_image)
    also have "\<dots> = {j \<in> set (jobs d). j_tenant_id j = pr_tenant_id p \<and> j_trace_id j \<notin> {None, Some []}}"
      by (auto simp: job_matches_def no_filter_def if_given_def split: option.splits)
    finally show ?thesis .
  qed
  have "set (tv_jobs_found v) \<subseteq> of_trace" "length (tv_jobs_found v) \<le> 50" using v(1) js(1) by (auto dest: in_set_takeD)
  moreover have "tv_total_jobs v = row_count (\<lambda>j. j_tenant_id j = pr_tenant_id p \<and> j_trace_id j = Some trace_id) (jobs d)" using v(2) js(2) by simp
  moreover have "tv_truncated v \<longleftrightarrow> 50 < tv_total_jobs v \<or> include_audit \<and> 200 < length events" using v(2,5) by simp
  moreover have "\<not> tv_truncated v \<longrightarrow> set (tv_jobs_found v) = of_trace \<and> (include_audit \<longrightarrow> tv_audit_events v = events)"
    using v js(1) by auto
  moreover have "\<forall>r \<in> set events. a_tenant_id r = pr_tenant_id p \<and> a_request_id r = Some trace_id
      \<and> (''chaos:invoke'' \<notin> set (pr_scopes p) \<longrightarrow> take 6 (a_action r) \<noteq> ''chaos.'' \<and> take 4 (a_action r) \<noteq> ''lab.'')" using ev by blast
  moreover have "\<forall>(t, j) \<in> set (search_traces p now status job_type since limit d). j \<in> set (jobs d) \<and> j_tenant_id j = pr_tenant_id p \<and> j_trace_id j = Some t \<and> t \<noteq> []"
    using search by blast
  moreover have "length (search_traces p now None None None limit d) < limit \<longrightarrow>
      snd ` set (search_traces p now None None None limit d) = {j \<in> set (jobs d). j_tenant_id j = pr_tenant_id p \<and> j_trace_id j \<notin> {None, Some []}}"
    using all by blast
  ultimately show ?thesis using v(3,4) by (intro conjI)
qed

section \<open>Incidents\<close>

text \<open>
  The two ways to read incidents agree, and neither looks into another tenant. Asked for the open ones
  of a severity, \<open>list_incidents\<close> and \<open>list_active_alerts\<close> report the same total, and where it is within
  both limits the same incidents; an incident is found by its id exactly when it is one of the caller's
  tenant, with the same answer for one of another tenant and for none; and what a listing shows is found
  by its id, as listed.
\<close>

theorem incident_reads_agree:
  assumes "distinct (map al_id (at_alerts s))" "list_incidents p False severity None limit (at_alerts s) = (n, xs)"
    and "list_active_alerts (pr_tenant_id p) severity limit' s = (n', as)"
  shows "n = n' \<and> (n \<le> limit \<and> n \<le> limit' \<longrightarrow> set xs = incident_summary_of ` set as)
    \<and> (\<forall>x \<in> set xs. \<exists>extra req. get_incident p (in_alert_id x) (at_alerts s) = Inr (x, extra, req) \<and> in_is_active x)
    \<and> (\<forall>i. (\<exists>x extra req. get_incident p i (at_alerts s) = Inr (x, extra, req)) \<longleftrightarrow>
         (\<exists>a \<in> set (at_alerts s). al_id a = i \<and> al_tenant_id a = pr_tenant_id p))
    \<and> (\<forall>i e. get_incident p i (at_alerts s) = Inl e \<longrightarrow> e = NotFoundError (''incident not found: '' @ uuid_str i))"
proof -
  let ?P = "incident_matches (pr_tenant_id p) False severity None"
  have P: "?P a \<longleftrightarrow> al_tenant_id a = pr_tenant_id p \<and> open_row a \<and> if_given severity (\<lambda>s. al_severity a = s)" for a
    by (simp add: incident_matches_def if_given_def)
  have xs: "xs = map incident_summary_of (take limit (sort_key (\<lambda>a. - al_fired_at a) (filter ?P (at_alerts s))))" "n = row_count ?P (at_alerts s)"
    using assms(2) by (auto simp: list_incidents_def list_incidents_query_def Let_def)
  have as: "as = take limit' (sort_key (\<lambda>a. - al_fired_at a) (filter ?P (at_alerts s)))" "n' = row_count ?P (at_alerts s)"
    using assms(3) by (auto simp: list_active_alerts_def list_active_for_tenant_def Let_def P [abs_def] if_given_def)
  have found: "get_by al_id (al_id a) (at_alerts s) = Some a" if "a \<in> set (at_alerts s)" for a
    using get_by_unique [of a "at_alerts s" al_id] that assms(1) by simp
  have "set xs = incident_summary_of ` set as" if "n \<le> limit" "n \<le> limit'"
    using that by (simp add: xs as row_count_def)
  moreover have "\<forall>x \<in> set xs. \<exists>extra req. get_incident p (in_alert_id x) (at_alerts s) = Inr (x, extra, req) \<and> in_is_active x"
  proof
    fix x assume "x \<in> set xs"
    then obtain a where a: "a \<in> set (at_alerts s)" "?P a" "x = incident_summary_of a" by (auto simp: xs(1) dest!: in_set_takeD)
    then show "\<exists>extra req. get_incident p (in_alert_id x) (at_alerts s) = Inr (x, extra, req) \<and> in_is_active x"
      using found [OF a(1)] by (simp add: get_incident_def incident_summary_of_def P)
  qed
  moreover have "(\<exists>x extra req. get_incident p i (at_alerts s) = Inr (x, extra, req)) \<longleftrightarrow>
      (\<exists>a \<in> set (at_alerts s). al_id a = i \<and> al_tenant_id a = pr_tenant_id p)" for i
  proof (cases "get_by al_id i (at_alerts s)")
    case None
    moreover from this have "i \<notin> al_id ` set (at_alerts s)" by (simp add: get_by_None_iff)
    ultimately show ?thesis by (auto simp: get_incident_def)
  next
    case (Some a)
    then have a: "a \<in> set (at_alerts s)" "al_id a = i" by (auto dest: get_by_SomeD)
    have "b = a" if "b \<in> set (at_alerts s)" "al_id b = i" for b using found [OF that(1)] that(2) Some by simp
    then have "(\<exists>b \<in> set (at_alerts s). al_id b = i \<and> al_tenant_id b = pr_tenant_id p) \<longleftrightarrow> al_tenant_id a = pr_tenant_id p" using a by blast
    then show ?thesis by (simp add: get_incident_def Some)
  qed
  moreover have "e = NotFoundError (''incident not found: '' @ uuid_str i)" if "get_incident p i (at_alerts s) = Inl e" for i e
    using that by (auto simp: get_incident_def split: option.splits if_splits)
  ultimately show ?thesis using xs(2) as(2) by simp
qed

section \<open>Witnesses\<close>

definition lab_reader :: principal where
  "lab_reader = \<lparr>pr_kind = ''service_account'', pr_id = 4, pr_tenant_id = 0, pr_scopes = [''incidents:read'']\<rparr>"

theorem dlq_pages_exact_witness:
  "concat (map (\<lambda>k. snd (list_dlq_messages lab_reader None None 1 (k * 1) (lab_llm_db [lab_dead_job, lab_dead_job\<lparr>j_id := 6\<rparr>]))) [0..<2]) =
     map (dlq_entry_of (lab_llm_db [lab_dead_job, lab_dead_job\<lparr>j_id := 6\<rparr>]))
       (ordered_jobs 0 (no_filter\<lparr>f_status := Some DEAD_LETTER, f_job_type := None, f_remediation_hint := None\<rparr>) SORT_DEAD_LETTERED_AT
         (ld_core (lab_llm_db [lab_dead_job, lab_dead_job\<lparr>j_id := 6\<rparr>])))"
proof -
  let ?d = "lab_llm_db [lab_dead_job, lab_dead_job\<lparr>j_id := 6\<rparr>]"
  have "fst (list_dlq_messages lab_reader None None 1 0 ?d) = 2"
    by (simp add: list_dlq_messages_def list_jobs_def Let_def job_matches_def no_filter_def if_given_def lab_reader_def)
  moreover have "distinct (map j_id (jobs (ld_core ?d)))" by simp
  moreover have "pr_tenant_id lab_reader = 0" by (simp add: lab_reader_def)
  ultimately show ?thesis using dlq_pages_exact [of ?d 1 lab_reader None None 0 2 2, OF _ _ _ _ refl] by simp
qed

definition lab_dag :: db where
  "lab_dag = sample_db [sample_job 2 COMPLETED, sample_job 3 COMPLETED, sample_job 4 PENDING] [(4, 3), (3, 2)]"

definition lab_pauser :: principal where
  "lab_pauser = lab_reader\<lparr>pr_tenant_id := 7\<rparr>"

theorem dag_state_exact_witness:
  "\<exists>st s s'. pause_dag_chaos lab_pauser True 10 2 600 lab_dag (\<lambda>_. None) = Inr st
     \<and> get_dag_state lab_pauser True 20 4 st lab_dag = Inr s \<and> ds_paused_by s \<noteq> None \<and> \<not> ds_paused s
     \<and> get_dag_state lab_pauser True 20 2 st lab_dag = Inr s' \<and> ds_paused s'"
proof -
  define st :: pause_store where "st = (\<lambda>_. None)(2 \<mapsto> Some (10 + of_int 600))"
  have j: "job_by_id lab_dag 4 = Some (sample_job 4 PENDING)" "job_by_id lab_dag 2 = Some (sample_job 2 COMPLETED)" by (simp_all add: lab_dag_def sample_db_def)
  have w: "pause_dag_chaos lab_pauser True 10 2 600 lab_dag (\<lambda>_. None) = Inr st"
    by (simp add: pause_dag_chaos_def j st_def lab_pauser_def)
  have "\<exists>s. get_dag_state lab_pauser True 20 k st lab_dag = Inr s" if "job_by_id lab_dag k = Some j" "j_tenant_id j = 7" for k j
    using that by (simp add: get_dag_state_def lab_pauser_def Let_def split: prod.split)
  then obtain s s' where s: "get_dag_state lab_pauser True 20 4 st lab_dag = Inr s" "get_dag_state lab_pauser True 20 2 st lab_dag = Inr s'"
    using j by (metis sample_job_simps(3))
  have walk: "length (collect_ancestors 4 True lab_dag) < 64" "length (collect_ancestors 2 True lab_dag) < 64"
    by (simp_all add: lab_dag_def sample_db_def collect_ancestors_def dep_parents_def max_ancestor_nodes_def)
  have up: "ancestor lab_dag 4 2"
    by (rule ancestor.ancestor_step [OF ancestor.ancestor_step [OF ancestor.ancestor_self, of _ _ 3]]) (auto simp: dep_edge_def lab_dag_def sample_db_def)
  have "ds_paused_by s \<noteq> None" "ds_paused s \<longleftrightarrow> pause_live 20 (st 4)"
    using dag_state_exact [where p = lab_pauser and up = True and now = 20 and i = 4 and st = st and d = lab_dag and s = s] s(1) walk(1) w up
    by (simp, (fastforce simp: st_def pause_live_def)?)+
  moreover have "ds_paused s' \<longleftrightarrow> pause_live 20 (st 2)"
    using dag_state_exact [where p = lab_pauser and up = True and now = 20 and i = 2 and st = st and d = lab_dag and s = s'] s(2) by blast
  ultimately show ?thesis using w s by (auto simp: st_def pause_live_def)
qed

theorem trace_view_honest_witness:
  "\<not> tv_truncated (get_trace lab_reader ''t1'' True (sample_db [(sample_job 2 COMPLETED)\<lparr>j_tenant_id := 0, j_trace_id := Some ''t1''\<rparr>] []))
   \<and> j_id ` set (tv_jobs_found (get_trace lab_reader ''t1'' True (sample_db [(sample_job 2 COMPLETED)\<lparr>j_tenant_id := 0, j_trace_id := Some ''t1''\<rparr>] []))) = {2}"
proof -
  let ?d = "sample_db [(sample_job 2 COMPLETED)\<lparr>j_tenant_id := 0, j_trace_id := Some ''t1''\<rparr>] []"
  have a: "audit_logs ?d = []" by (simp add: sample_db_def empty_db_def)
  have "tv_total_jobs (get_trace lab_reader ''t1'' True ?d) = 1"
    using trace_view_honest [OF refl refl refl, where p = lab_reader and trace_id = "''t1''" and include_audit = True and d = ?d]
    by (simp add: row_count_def sample_db_def lab_reader_def)
  then have n: "\<not> tv_truncated (get_trace lab_reader ''t1'' True ?d)"
    using trace_view_honest [OF refl refl refl, where p = lab_reader and trace_id = "''t1''" and include_audit = True and d = ?d] by (simp add: a)
  then have "set (tv_jobs_found (get_trace lab_reader ''t1'' True ?d)) = {j \<in> set (jobs ?d). j_tenant_id j = pr_tenant_id lab_reader \<and> j_trace_id j = Some ''t1''}"
    using trace_view_honest [OF refl refl refl, where p = lab_reader and trace_id = "''t1''" and include_audit = True and d = ?d] by blast
  then show ?thesis using n by (auto simp: sample_db_def lab_reader_def)
qed

definition lab_incident :: alert where
  "lab_incident = \<lparr>al_id = 11, al_tenant_id = 0, al_severity = ''warning'', al_source = ''slo:completion'', al_title = ''slow'', al_description = None,
     al_fired_at = 5, al_resolved_at = None, al_extra_data = None, al_request_id = None, al_dedup_key = None\<rparr>"

theorem incident_reads_agree_witness:
  "\<exists>n xs n' as. list_incidents lab_reader False None None 50 [lab_incident] = (n, xs)
     \<and> list_active_alerts 0 None 50 \<lparr>at_db = empty_db, at_alerts = [lab_incident], at_sent = []\<rparr> = (n', as) \<and> n = n'"
proof -
  let ?s = "\<lparr>at_db = empty_db, at_alerts = [lab_incident], at_sent = []\<rparr>"
  obtain n xs n' as where r: "list_incidents lab_reader False None None 50 (at_alerts ?s) = (n, xs)" "list_active_alerts (pr_tenant_id lab_reader) None 50 ?s = (n', as)"
    by (metis surj_pair)
  have "distinct (map al_id (at_alerts ?s))" by simp
  from incident_reads_agree [OF this r] have "n = n'" by blast
  moreover have "pr_tenant_id lab_reader = 0" "at_alerts ?s = [lab_incident]" by (simp_all add: lab_reader_def)
  ultimately show ?thesis using r by metis
qed

end
