(* ===== verification/Cache_Tools.thy ===== *)
theory Cache_Tools
  imports Agent_Reads
begin

text \<open>
  The tools that look at, delete and plant cache entries: \<open>mcp/tools/_cache_scope.py\<close>,
  \<open>mcp/tools/cache_key_info.py\<close>, \<open>mcp/tools/actions/invalidate_cache_key.py\<close>,
  \<open>mcp/tools/chaos/create_stale_cache.py\<close>, and the repository query behind the record check. A Redis
  key is a value and the time it expires, if ever; of a collection only its type and size matter. What
  \<open>json.loads\<close> makes of a text is a parameter.
\<close>

section \<open>Scopes of keys\<close>

datatype redis_value = RString string | RCollection string nat

type_synonym redis_keys = "string \<Rightarrow> (redis_value \<times> time option) option"

definition key_live :: "time \<Rightarrow> redis_keys \<Rightarrow> string \<Rightarrow> redis_value option" where
  "key_live now st k =
     (case st k of
        None \<Rightarrow> None
      | Some (v, None) \<Rightarrow> Some v
      | Some (v, Some expires) \<Rightarrow> if now < expires then Some v else None)"

definition has_prefix :: "string \<Rightarrow> string \<Rightarrow> bool" where
  "has_prefix p k \<longleftrightarrow> take (length p) k = p"

definition tenant_scoped_prefixes :: "string list" where
  "tenant_scoped_prefixes = [''cache:job:'']"

definition tenant_segment :: "string \<Rightarrow> string option" where
  "tenant_segment key =
     map_option (\<lambda>p. takeWhile (\<lambda>c. c \<noteq> CHR '':'') (drop (length p) key)) (find (\<lambda>p. has_prefix p key) tenant_scoped_prefixes)"

text \<open>The part after the next colon, where there is one and it is not empty.\<close>

definition job_segment :: "string \<Rightarrow> string option" where
  "job_segment key =
     (case find (\<lambda>p. has_prefix p key) tenant_scoped_prefixes of
        None \<Rightarrow> None
      | Some p \<Rightarrow>
          (case dropWhile (\<lambda>c. c \<noteq> CHR '':'') (drop (length p) key) of
             [] \<Rightarrow> None
           | _ # rest \<Rightarrow> if rest = [] then None else Some rest))"

datatype cache_refusal = NotAllowlisted string | NotReachable string | LiveReadCache string

definition assert_key_in_tenant :: "string \<Rightarrow> uuid \<Rightarrow> cache_refusal option" where
  "assert_key_in_tenant key tenant_id =
     (case tenant_segment key of
        None \<Rightarrow> None
      | Some segment \<Rightarrow>
          (case uuid_parse segment of
             None \<Rightarrow> Some (NotReachable key)
           | Some supplied \<Rightarrow> if supplied \<noteq> tenant_id then Some (NotReachable key) else None))"

definition readable_prefixes :: "string list" where
  "readable_prefixes = [''cache:'', ''jobs:cache:'', ''kafka:consumer_lag:'', ''read_model:'']"

definition deletable_prefixes :: "string list" where
  "deletable_prefixes = [''cache:'', ''jobs:cache:'', ''kafka:consumer_lag:'', ''read_model:'']"

section \<open>Deleting a key (\<open>actions/invalidate_cache_key.py\<close>)\<close>

definition invalidate_cache_key :: "principal \<Rightarrow> time \<Rightarrow> string \<Rightarrow> redis_keys \<Rightarrow> cache_refusal + bool \<times> redis_keys" where
  "invalidate_cache_key p now key st =
     (if \<not> (\<exists>pre \<in> set deletable_prefixes. has_prefix pre key) then Inl (NotAllowlisted key)
      else case assert_key_in_tenant key (pr_tenant_id p) of
        Some e \<Rightarrow> Inl e
      | None \<Rightarrow> Inr (key_live now st key \<noteq> None, st(key := None)))"

section \<open>Looking at a key (\<open>cache_key_info.py\<close>)\<close>

definition max_references_checked :: nat where
  "max_references_checked = 500"

record cache_key_info =
  ci_key :: string
  ci_exists :: bool
  ci_type :: "string option"
  ci_ttl_seconds :: "int option"
  ci_size :: "nat option"
  ci_records_referenced :: "nat option"
  ci_records_found :: "nat option"

definition value_type :: "redis_value \<Rightarrow> string" where
  "value_type v = (case v of RString _ \<Rightarrow> ''string'' | RCollection t _ \<Rightarrow> t)"

definition value_size :: "redis_value \<Rightarrow> nat option" where
  "value_size v =
     (case v of
        RString s \<Rightarrow> Some (length s)
      | RCollection t n \<Rightarrow> if t \<in> {''list'', ''set'', ''zset'', ''hash'', ''stream''} then Some n else None)"

definition is_jstr :: "json \<Rightarrow> bool" where
  "is_jstr v = (case v of JStr _ \<Rightarrow> True | _ \<Rightarrow> False)"

definition referenced_names :: "(string \<Rightarrow> json option) \<Rightarrow> string \<Rightarrow> redis_value \<Rightarrow> string list option" where
  "referenced_names loads key v =
     (case job_segment key of
        Some name \<Rightarrow> Some [name]
      | None \<Rightarrow>
          (case v of
             RString raw \<Rightarrow>
               (case loads raw of
                  Some (JArr items) \<Rightarrow>
                    if max_references_checked < length items \<or> \<not> list_all is_jstr items then None
                    else Some (map (\<lambda>v. case v of JStr s \<Rightarrow> s | _ \<Rightarrow> []) items)
                | _ \<Rightarrow> None)
           | RCollection _ _ \<Rightarrow> None))"

definition resolve_record_references ::
    "(string \<Rightarrow> json option) \<Rightarrow> principal \<Rightarrow> bool \<Rightarrow> string \<Rightarrow> redis_value \<Rightarrow> db \<Rightarrow> nat option \<times> nat option" where
  "resolve_record_references loads p db_ok key v d =
     (case referenced_names loads key v of
        None \<Rightarrow> (None, None)
      | Some names \<Rightarrow>
          (let parsed = List.map_filter uuid_parse names;
               present = existing_ids_for_tenant parsed (pr_tenant_id p) d
           in if \<not> db_ok then (None, None)
              else (Some (length names), Some (length (filter (\<lambda>i. i \<in> present) parsed)))))"

definition key_ttl :: "time \<Rightarrow> redis_keys \<Rightarrow> string \<Rightarrow> int" where
  "key_ttl now st k = pause_ttl now (map_option snd (st k))"

definition get_cache_key_info ::
    "(string \<Rightarrow> json option) \<Rightarrow> principal \<Rightarrow> bool \<Rightarrow> time \<Rightarrow> string \<Rightarrow> redis_keys \<Rightarrow> db \<Rightarrow> cache_refusal + cache_key_info" where
  "get_cache_key_info loads p db_ok now key st d =
     (if \<not> (\<exists>pre \<in> set readable_prefixes. has_prefix pre key) then Inl (NotAllowlisted key)
      else case assert_key_in_tenant key (pr_tenant_id p) of
        Some e \<Rightarrow> Inl e
      | None \<Rightarrow>
          (case key_live now st key of
             None \<Rightarrow> Inr \<lparr>ci_key = key, ci_exists = False, ci_type = None, ci_ttl_seconds = None, ci_size = None,
                         ci_records_referenced = None, ci_records_found = None\<rparr>
           | Some v \<Rightarrow>
               (let (referenced, found) = resolve_record_references loads p db_ok key v d; ttl = key_ttl now st key
                in Inr \<lparr>ci_key = key, ci_exists = True, ci_type = Some (value_type v),
                        ci_ttl_seconds = (if 0 \<le> ttl then Some ttl else None), ci_size = value_size v,
                        ci_records_referenced = referenced, ci_records_found = found\<rparr>)))"

section \<open>Planting a stale entry (\<open>chaos/create_stale_cache.py\<close>)\<close>

definition stale_prefixes :: "string list" where
  "stale_prefixes = [''cache:'', ''jobs:cache:'', ''read_model:'']"

definition forbidden_prefixes :: "string list" where
  "forbidden_prefixes = [''cache:job:'']"

definition key_admitted :: "string \<Rightarrow> bool" where
  "key_admitted key \<longleftrightarrow> \<not> (\<exists>pre \<in> set forbidden_prefixes. has_prefix pre key) \<and> (\<exists>pre \<in> set stale_prefixes. has_prefix pre key)"

text \<open>One entry per \<open>uuid4\<close> drawn.\<close>

definition fake_id :: "uuid \<Rightarrow> string" where
  "fake_id u = ''stale-fixture-'' @ take 12 (hex_fixed 32 u)"

definition create_stale_cache ::
    "(rat \<Rightarrow> string) \<Rightarrow> time \<Rightarrow> string \<Rightarrow> uuid list \<Rightarrow> int \<Rightarrow> redis_keys \<Rightarrow> cache_refusal + nat \<times> redis_keys" where
  "create_stale_cache fr now key draws ttl_seconds st =
     (if \<exists>pre \<in> set forbidden_prefixes. has_prefix pre key then Inl (LiveReadCache key)
      else if \<not> key_admitted key then Inl (NotAllowlisted key)
      else let payload = the (json_dumps fr (JArr (map (\<lambda>u. JStr (fake_id u)) draws)))
           in Inr (length payload, st(key \<mapsto> (RString payload, Some (now + of_int ttl_seconds)))))"

section \<open>Confinement\<close>

lemma has_prefix_append [simp]: "has_prefix p (p @ r)"
  by (simp add: has_prefix_def)

lemma has_prefix_iff: "has_prefix p k \<longleftrightarrow> (\<exists>r. k = p @ r)"
  by (auto simp: has_prefix_def) (metis append_take_drop_id)

lemma uuid_char_not_colon: "c \<in> set (uuid_str u) \<Longrightarrow> c \<noteq> CHR '':''"
  using set_uuid_str [of u] hex_chars_plain by auto

lemma cache_key_segments:
  "tenant_segment (cache_key j t) = Some (uuid_str t)" "job_segment (cache_key j t) = Some (uuid_str j)"
proof -
  have k: "cache_key j t = ''cache:job:'' @ uuid_str t @ CHR '':'' # uuid_str j" by (simp add: cache_key_def)
  have f: "find (\<lambda>p. has_prefix p (cache_key j t)) tenant_scoped_prefixes = Some ''cache:job:''"
    by (simp add: tenant_scoped_prefixes_def has_prefix_def k)
  have d: "drop (length ''cache:job:'') (cache_key j t) = uuid_str t @ CHR '':'' # uuid_str j" by (simp add: k)
  have tw: "takeWhile (\<lambda>c. c \<noteq> CHR '':'') (uuid_str t @ CHR '':'' # uuid_str j) = uuid_str t"
    "dropWhile (\<lambda>c. c \<noteq> CHR '':'') (uuid_str t @ CHR '':'' # uuid_str j) = CHR '':'' # uuid_str j"
    using uuid_char_not_colon by (simp_all add: takeWhile_append dropWhile_append)
  have "uuid_str j \<noteq> []" by (simp add: uuid_str_def Let_def)
  then show "tenant_segment (cache_key j t) = Some (uuid_str t)" "job_segment (cache_key j t) = Some (uuid_str j)"
    by (simp_all only: tenant_segment_def job_segment_def f d tw option.map option.case list.case if_False)
qed

lemma cache_key_prefix: "\<exists>pre \<in> set deletable_prefixes. has_prefix pre (cache_key j t)" "\<exists>pre \<in> set readable_prefixes. has_prefix pre (cache_key j t)"
  by (auto simp: deletable_prefixes_def readable_prefixes_def cache_key_def has_prefix_def)

lemma foreign_key_refused: "t < 2 ^ 128 \<Longrightarrow> t \<noteq> tenant \<Longrightarrow> assert_key_in_tenant (cache_key j t) tenant = Some (NotReachable (cache_key j t))"
  by (simp add: assert_key_in_tenant_def cache_key_segments uuid_parse_str_bounded)

lemma own_key_admitted: "t < 2 ^ 128 \<Longrightarrow> assert_key_in_tenant (cache_key j t) t = None"
  by (simp add: assert_key_in_tenant_def cache_key_segments uuid_parse_str_bounded)

lemma existing_ids: "i \<in> existing_ids_for_tenant ids t d \<longleftrightarrow> i \<in> set ids \<and> (\<exists>j \<in> set (jobs d). j_id j = i \<and> j_tenant_id j = t)"
  by (auto simp: existing_ids_for_tenant_def)

lemma length_map_filter: "length (List.map_filter f xs) \<le> length xs"
  by (induction xs) (auto simp: map_filter_simps split: option.split)

text \<open>
  The cache tools stay within the caller's tenant. About another tenant's job entry both tools say the
  same, whatever Redis and the database hold; a deletion touches no key but the one it names, and none of
  another tenant's job entries; what is deleted reads as absent, and deleting it again says so. A reading
  gives both record counts or neither, and never finds more than it looked for; for a job's own entry it
  finds the job exactly when the tenant has it.
\<close>

theorem cache_tools_confined:
  fixes p :: principal and loads :: "string \<Rightarrow> json option"
  assumes "pr_tenant_id p < 2 ^ 128"
  shows "(\<forall>j t db_ok now st d. t < 2 ^ 128 \<and> t \<noteq> pr_tenant_id p \<longrightarrow>
       get_cache_key_info loads p db_ok now (cache_key j t) st d = Inl (NotReachable (cache_key j t))
       \<and> invalidate_cache_key p now (cache_key j t) st = Inl (NotReachable (cache_key j t)))
    \<and> (\<forall>now key st b st'. invalidate_cache_key p now key st = Inr (b, st') \<longrightarrow>
         (b \<longleftrightarrow> key_live now st key \<noteq> None) \<and> (\<forall>k. k \<noteq> key \<longrightarrow> st' k = st k)
         \<and> (\<forall>j t. t < 2 ^ 128 \<and> t \<noteq> pr_tenant_id p \<longrightarrow> st' (cache_key j t) = st (cache_key j t))
         \<and> (\<forall>db_ok now' d. \<exists>i. get_cache_key_info loads p db_ok now' key st' d = Inr i \<and> \<not> ci_exists i)
         \<and> (\<forall>now'. invalidate_cache_key p now' key st' = Inr (False, st')))
    \<and> (\<forall>db_ok now key st d i. get_cache_key_info loads p db_ok now key st d = Inr i \<longrightarrow>
         (ci_exists i \<longleftrightarrow> key_live now st key \<noteq> None)
         \<and> (ci_records_referenced i = None \<longleftrightarrow> ci_records_found i = None)
         \<and> (\<forall>n m. ci_records_referenced i = Some n \<and> ci_records_found i = Some m \<longrightarrow> m \<le> n))
    \<and> (\<forall>now j st d. j < 2 ^ 128 \<and> key_live now st (cache_key j (pr_tenant_id p)) \<noteq> None \<longrightarrow>
         (\<exists>i. get_cache_key_info loads p True now (cache_key j (pr_tenant_id p)) st d = Inr i \<and> ci_records_referenced i = Some 1
            \<and> (ci_records_found i = Some 1 \<longleftrightarrow> (\<exists>x \<in> set (jobs d). j_id x = j \<and> j_tenant_id x = pr_tenant_id p))))"
proof (intro conjI)
  show "\<forall>j t db_ok now st d. t < 2 ^ 128 \<and> t \<noteq> pr_tenant_id p \<longrightarrow>
       get_cache_key_info loads p db_ok now (cache_key j t) st d = Inl (NotReachable (cache_key j t))
       \<and> invalidate_cache_key p now (cache_key j t) st = Inl (NotReachable (cache_key j t))"
    by (simp add: get_cache_key_info_def invalidate_cache_key_def foreign_key_refused cache_key_prefix)
next
  have same: "deletable_prefixes = readable_prefixes" by (simp add: deletable_prefixes_def readable_prefixes_def)
  show "\<forall>now key st b st'. invalidate_cache_key p now key st = Inr (b, st') \<longrightarrow>
         (b \<longleftrightarrow> key_live now st key \<noteq> None) \<and> (\<forall>k. k \<noteq> key \<longrightarrow> st' k = st k)
         \<and> (\<forall>j t. t < 2 ^ 128 \<and> t \<noteq> pr_tenant_id p \<longrightarrow> st' (cache_key j t) = st (cache_key j t))
         \<and> (\<forall>db_ok now' d. \<exists>i. get_cache_key_info loads p db_ok now' key st' d = Inr i \<and> \<not> ci_exists i)
         \<and> (\<forall>now'. invalidate_cache_key p now' key st' = Inr (False, st'))"
  proof (intro allI impI)
    fix now key st b st' assume h: "invalidate_cache_key p now key st = Inr (b, st')"
    then have k: "\<exists>pre \<in> set deletable_prefixes. has_prefix pre key" "assert_key_in_tenant key (pr_tenant_id p) = None"
      "b \<longleftrightarrow> key_live now st key \<noteq> None" "st' = st(key := None)"
      by (auto simp: invalidate_cache_key_def split: if_splits option.splits)
    have other: "cache_key j t \<noteq> key" if "t < 2 ^ 128" "t \<noteq> pr_tenant_id p" for j t
      using k(2) foreign_key_refused [OF that] by auto
    have gone: "key_live now' st' key = None" for now' by (simp add: key_live_def k(4))
    then have "\<exists>i. get_cache_key_info loads p db_ok now' key st' d = Inr i \<and> \<not> ci_exists i" for db_ok now' d
      using k(1,2) by (simp add: get_cache_key_info_def same)
    moreover have "invalidate_cache_key p now' key st' = Inr (False, st')" for now'
      using k(1,2) gone by (auto simp: invalidate_cache_key_def k(4))
    ultimately show "(b \<longleftrightarrow> key_live now st key \<noteq> None) \<and> (\<forall>k. k \<noteq> key \<longrightarrow> st' k = st k)
         \<and> (\<forall>j t. t < 2 ^ 128 \<and> t \<noteq> pr_tenant_id p \<longrightarrow> st' (cache_key j t) = st (cache_key j t))
         \<and> (\<forall>db_ok now' d. \<exists>i. get_cache_key_info loads p db_ok now' key st' d = Inr i \<and> \<not> ci_exists i)
         \<and> (\<forall>now'. invalidate_cache_key p now' key st' = Inr (False, st'))"
      using k(3) other by (auto simp: k(4))
  qed
next
  show "\<forall>db_ok now key st d i. get_cache_key_info loads p db_ok now key st d = Inr i \<longrightarrow>
         (ci_exists i \<longleftrightarrow> key_live now st key \<noteq> None)
         \<and> (ci_records_referenced i = None \<longleftrightarrow> ci_records_found i = None)
         \<and> (\<forall>n m. ci_records_referenced i = Some n \<and> ci_records_found i = Some m \<longrightarrow> m \<le> n)"
    using le_trans [OF length_filter_le length_map_filter]
    by (auto simp: get_cache_key_info_def resolve_record_references_def Let_def split: if_splits option.splits)
next
  show "\<forall>now j st d. j < 2 ^ 128 \<and> key_live now st (cache_key j (pr_tenant_id p)) \<noteq> None \<longrightarrow>
         (\<exists>i. get_cache_key_info loads p True now (cache_key j (pr_tenant_id p)) st d = Inr i \<and> ci_records_referenced i = Some 1
            \<and> (ci_records_found i = Some 1 \<longleftrightarrow> (\<exists>x \<in> set (jobs d). j_id x = j \<and> j_tenant_id x = pr_tenant_id p)))"
  proof (intro allI impI, elim conjE)
    fix now j st d assume j: "j < 2 ^ 128" and "key_live now st (cache_key j (pr_tenant_id p)) \<noteq> None"
    then obtain v where "key_live now st (cache_key j (pr_tenant_id p)) = Some v" by blast
    then show "\<exists>i. get_cache_key_info loads p True now (cache_key j (pr_tenant_id p)) st d = Inr i \<and> ci_records_referenced i = Some 1
            \<and> (ci_records_found i = Some 1 \<longleftrightarrow> (\<exists>x \<in> set (jobs d). j_id x = j \<and> j_tenant_id x = pr_tenant_id p))"
      by (auto simp: get_cache_key_info_def resolve_record_references_def referenced_names_def cache_key_segments own_key_admitted [OF assms]
          cache_key_prefix uuid_parse_str_bounded [OF j] map_filter_simps existing_ids Let_def)
  qed
qed

text \<open>No made-up id is the text of an identifier.\<close>

lemma remove_sub_without: "c \<in> set p \<Longrightarrow> c \<notin> set s \<Longrightarrow> remove_sub p s = s"
proof (induction s)
  case (Cons x s)
  then have "take (length p) (x # s) \<noteq> p" by (metis in_set_takeD)
  with Cons show ?case by simp
qed simp

lemma fake_id_unparsable: "uuid_parse (fake_id u) = None"
proof -
  let ?h = "take 12 (hex_fixed 32 u)"
  have h: "set ?h \<subseteq> hex_chars" using set_hex_fixed [of 32 u] by (meson set_take_subset subset_trans)
  then have c: "\<And>c. c \<in> set (fake_id u) \<Longrightarrow> c \<noteq> CHR '':'' \<and> c \<noteq> CHR ''{'' \<and> c \<noteq> CHR ''}''"
    using hex_chars_plain by (auto simp: fake_id_def)
  have nc: "CHR '':'' \<notin> set (fake_id u)" using c by blast
  have r: "remove_sub ''uuid:'' (remove_sub ''urn:'' (fake_id u)) = fake_id u"
    by (simp add: remove_sub_without [OF _ nc])
  have s: "strip (\<lambda>c. c = CHR ''{'' \<or> c = CHR ''}'') (fake_id u) = fake_id u" by (rule strip_absent) (use c in auto)
  have "length (filter (\<lambda>c. c \<noteq> CHR ''-'') (fake_id u)) \<le> 24"
    using length_filter_le [of _ ?h] by (simp add: fake_id_def)
  then show ?thesis by (simp add: uuid_parse_def r s Let_def)
qed

text \<open>
  The drill of the stale cache closes. An entry the hook plants shows, to any reader, as many references as
  it holds and none of them found; the repair tool accepts the key, and after it the entry is gone. The
  hook never writes an entry that a job is read from.
\<close>

theorem stale_cache_repairable:
  assumes "create_stale_cache fr now key draws ttl st = Inr (n, st')" "length draws \<le> 500" "now \<le> t" "t < now + of_int ttl"
    "\<forall>payload. json_dumps fr (JArr (map JStr (map fake_id draws))) = Some payload \<longrightarrow> loads payload = Some (JArr (map JStr (map fake_id draws)))"
  shows "(\<exists>i. get_cache_key_info loads p True t key st' d = Inr i \<and> ci_exists i \<and> ci_records_referenced i = Some (length draws)
        \<and> ci_records_found i = Some 0)
    \<and> (\<exists>st''. invalidate_cache_key p t key st' = Inr (True, st'') \<and> st'' key = None)
    \<and> (\<forall>j tenant. st' (cache_key j tenant) = st (cache_key j tenant))"
proof -
  let ?xs = "map fake_id draws"
  have "all_some (map (json_dumps fr) (map JStr xs)) = Some (map dump_str xs)" for xs by (induction xs) simp_all
  then obtain payload where pl: "json_dumps fr (JArr (map JStr ?xs)) = Some payload" by (metis json_dumps.simps(6) option.simps(9))
  have k: "key_admitted key" "st' = st(key \<mapsto> (RString payload, Some (now + of_int ttl)))"
    using assms(1) pl by (auto simp: create_stale_cache_def Let_def comp_def split: if_splits)
  have seg: "find (\<lambda>p. has_prefix p key) tenant_scoped_prefixes = None"
    using k(1) by (auto simp: key_admitted_def forbidden_prefixes_def tenant_scoped_prefixes_def)
  then have ok: "assert_key_in_tenant key tenant = None" for tenant by (simp add: assert_key_in_tenant_def tenant_segment_def)
  have pre: "\<exists>pre \<in> set readable_prefixes. has_prefix pre key" "\<exists>pre \<in> set deletable_prefixes. has_prefix pre key"
    using k(1) by (auto simp: key_admitted_def stale_prefixes_def readable_prefixes_def deletable_prefixes_def)
  have live: "key_live t st' key = Some (RString payload)" using assms(4) by (simp add: key_live_def k(2))
  have names: "referenced_names loads key (RString payload) = Some ?xs"
    using assms(2) assms(5) [rule_format, OF pl] seg
    by (simp add: referenced_names_def job_segment_def max_references_checked_def is_jstr_def list_all_iff comp_def)
  have none: "List.map_filter uuid_parse ?xs = []" by (induction draws) (simp_all add: map_filter_simps fake_id_unparsable)
  have "cache_key j tenant \<noteq> key" for j tenant
    using k(1) by (auto simp: key_admitted_def forbidden_prefixes_def cache_key_def has_prefix_def)
  then show ?thesis
    using pre ok live names none by (simp add: get_cache_key_info_def invalidate_cache_key_def resolve_record_references_def Let_def k(2))
qed

section \<open>Witnesses\<close>

definition lab_cacher :: principal where
  "lab_cacher = lab_reader\<lparr>pr_tenant_id := 7\<rparr>"

theorem cache_tools_confined_witness:
  "get_cache_key_info (\<lambda>_. None) lab_cacher True 5 (cache_key 3 8) (\<lambda>_. None) lab_dag = Inl (NotReachable (cache_key 3 8))"
  using cache_tools_confined [of lab_cacher "\<lambda>_. None"] by (simp add: lab_cacher_def)

theorem stale_cache_repairable_witness:
  "\<exists>n st'. create_stale_cache (\<lambda>_. []) 10 ''cache:jobs:worker-dispatcher:hot_set'' [1, 2] 600 (\<lambda>_. None) = Inr (n, st')
     \<and> (\<exists>st''. invalidate_cache_key lab_cacher 20 ''cache:jobs:worker-dispatcher:hot_set'' st' = Inr (True, st''))"
proof -
  have "key_admitted ''cache:jobs:worker-dispatcher:hot_set''"
    by (simp add: key_admitted_def forbidden_prefixes_def stale_prefixes_def has_prefix_def)
  then obtain n st' where c: "create_stale_cache (\<lambda>_. []) 10 ''cache:jobs:worker-dispatcher:hot_set'' [1, 2] 600 (\<lambda>_. None) = Inr (n, st')"
    by (auto simp: create_stale_cache_def key_admitted_def)
  with stale_cache_repairable [OF c, of 20 "\<lambda>_. Some (JArr (map JStr (map fake_id [1, 2])))" lab_cacher empty_db] show ?thesis by auto
qed

end
