(* ===== verification/Telemetry.thy ===== *)
theory Telemetry
  imports Control_Loops Consumer_Lag Read_Model Operator_Audit "HOL-Library.Countable"
begin

text \<open>
  What one process lets another read about its health. The relay's stamp
  (\<open>core/outbox_heartbeat.py\<close>) and the state of the outbox (\<open>mcp/tools/outbox_status.py\<close>); the
  connection pools, each process publishing its own (\<open>core/db_pool_stats.py\<close>,
  \<open>core/pool_state.py\<close>); the health of Redis and of the database (\<open>mcp/tools/health.py\<close>,
  \<open>core/db_degrade.py\<close>); and the circuit breakers (\<open>mcp/tools/circuit_breakers.py\<close>). Texts of
  timestamps and floats go through the \<open>codec\<close> of the breakers; a Redis key is its value with the time
  it expires; which commands and statements are answered is given.
\<close>

section \<open>The relay's stamp (\<open>core/outbox_heartbeat.py\<close>)\<close>

definition relay_tick_ttl_seconds :: rat where
  "relay_tick_ttl_seconds = 86400"

datatype tick_unknown = TICK_UNKNOWN_NO_RECORD | TICK_UNKNOWN_UNREADABLE | TICK_UNKNOWN_UNREACHABLE

type_synonym tick_slot = "(string \<times> time) option"

definition record_relay_tick :: "codec \<Rightarrow> bool \<Rightarrow> time \<Rightarrow> tick_slot \<Rightarrow> tick_slot" where
  "record_relay_tick c up now slot = (if up then Some (iso c now, now + relay_tick_ttl_seconds) else slot)"

definition read_relay_tick :: "codec \<Rightarrow> bool \<Rightarrow> time \<Rightarrow> tick_slot \<Rightarrow> time option \<times> tick_unknown option" where
  "read_relay_tick c up now slot =
     (if \<not> up then (None, Some TICK_UNKNOWN_UNREACHABLE)
      else case live_value now slot of
        None \<Rightarrow> (None, Some TICK_UNKNOWN_NO_RECORD)
      | Some raw \<Rightarrow> (case uniso c raw of None \<Rightarrow> (None, Some TICK_UNKNOWN_UNREADABLE) | Some t \<Rightarrow> (Some t, None)))"

text \<open>
  One pass of the relay as \<open>_outbox_relay_tick\<close> runs it: the stamp stands between the fetch and the
  publishing; either transaction may fail.
\<close>

definition stamped_relay_pass ::
    "codec \<Rightarrow> settings \<Rightarrow> time \<Rightarrow> bool \<Rightarrow> bool \<Rightarrow> bool \<Rightarrow> (outbox_event \<Rightarrow> publish_outcome) \<Rightarrow> tick_slot \<times> db \<Rightarrow> tick_slot \<times> db" where
  "stamped_relay_pass c cfg now fetch_ok up mark_ok publish = (\<lambda>(slot, d).
     if \<not> fetch_ok then (slot, d)
     else (record_relay_tick c up now slot, if mark_ok then outbox_relay_tick cfg now publish d else d))"

section \<open>The state of the outbox (\<open>mcp/tools/outbox_status.py\<close>)\<close>

definition relay_tick_interval_seconds :: rat where
  "relay_tick_interval_seconds = 1"

record outbox_status =
  os_measured_at :: time
  os_unpublished_count :: nat
  os_oldest_unpublished_at :: "time option"
  os_oldest_unpublished_age_s :: "rat option"
  os_newest_unpublished_at :: "time option"
  os_newest_unpublished_age_s :: "rat option"
  os_unpublished_past_attempt_limit :: nat
  os_last_publish_at :: "time option"
  os_seconds_since_last_publish :: "rat option"
  os_relay_last_tick_at :: "time option"
  os_relay_heartbeat_age_s :: "rat option"
  os_relay_heartbeat_known :: bool
  os_relay_heartbeat_unknown_reason :: "tick_unknown option"
  os_relay_tick_interval_s :: rat

text \<open>\<open>round(max(0.0, (measured_at - at).total_seconds()), 3)\<close>.\<close>

definition age_seconds :: "time \<Rightarrow> time option \<Rightarrow> rat option" where
  "age_seconds read_at stamp = map_option (\<lambda>t. milliseconds (max 0 (read_at - t))) stamp"

definition get_outbox_status :: "codec \<Rightarrow> settings \<Rightarrow> principal \<Rightarrow> bool \<Rightarrow> time \<Rightarrow> time \<Rightarrow> tick_slot \<Rightarrow> db \<Rightarrow> outbox_status" where
  "get_outbox_status c cfg p up db_now redis_now slot d =
     (let snap = outbox_delivery_snapshot cfg db_now (pr_tenant_id p) d;
          (tick_at, unknown_reason) = read_relay_tick c up redis_now slot
      in \<lparr>os_measured_at = measured_at snap, os_unpublished_count = unpublished_count snap,
          os_oldest_unpublished_at = oldest_unpublished_at snap,
          os_oldest_unpublished_age_s = age_seconds (measured_at snap) (oldest_unpublished_at snap),
          os_newest_unpublished_at = newest_unpublished_at snap,
          os_newest_unpublished_age_s = age_seconds (measured_at snap) (newest_unpublished_at snap),
          os_unpublished_past_attempt_limit = unpublished_past_attempt_limit snap,
          os_last_publish_at = last_publish_at snap,
          os_seconds_since_last_publish = age_seconds (measured_at snap) (last_publish_at snap),
          os_relay_last_tick_at = tick_at,
          os_relay_heartbeat_age_s = age_seconds (measured_at snap) tick_at,
          os_relay_heartbeat_known = (tick_at \<noteq> None),
          os_relay_heartbeat_unknown_reason = unknown_reason,
          os_relay_tick_interval_s = relay_tick_interval_seconds\<rparr>)"

section \<open>The pool of this process (\<open>core/db_pool_stats.py\<close>)\<close>

definition wait_timeout_window_seconds :: rat where
  "wait_timeout_window_seconds = 60"

record pool_stats =
  ps_size :: int
  ps_checked_out :: int
  ps_overflow :: int
  ps_max_overflow :: "int option"
  ps_wait_timeouts_1m :: int

datatype pool_stats_unknown = POOL_STATS_UNKNOWN_POOL_KIND

text \<open>Stamps of checkouts that timed out, oldest first.\<close>

type_synonym wait_window = "time list"

definition record_pool_wait_timeout :: "time \<Rightarrow> wait_window \<Rightarrow> wait_window" where
  "record_pool_wait_timeout now w = w @ [now]"

definition pool_wait_timeouts_in_window :: "time \<Rightarrow> wait_window \<Rightarrow> nat \<times> wait_window" where
  "pool_wait_timeouts_in_window now w =
     (let w' = dropWhile (\<lambda>t. wait_timeout_window_seconds < now - t) w in (length w', w'))"

text \<open>
  \<open>CountingQueuePool._do_get\<close>: what the pool's own method does is given; it calls itself, so a timeout
  may come up marked as counted already.
\<close>

datatype 'e checkout = Connection 'e | PoolTimeout bool | OtherFailure

definition do_get :: "time \<Rightarrow> 'e checkout \<Rightarrow> wait_window \<Rightarrow> 'e checkout \<times> wait_window" where
  "do_get now outcome w =
     (case outcome of
        PoolTimeout counted \<Rightarrow> (PoolTimeout True, if counted then w else record_pool_wait_timeout now w)
      | _ \<Rightarrow> (outcome, w))"

text \<open>
  A pool as it answers: \<open>None\<close> for a kind without the three methods; of those it has, a call gives a
  number or raises (\<open>None\<close>).
\<close>

record pool_counters =
  pc_size :: "int option"
  pc_checkedout :: "int option"
  pc_overflow :: "int option"
  pc_max_overflow :: "int option"

definition read_pool_stats ::
    "time \<Rightarrow> pool_counters option \<Rightarrow> wait_window \<Rightarrow> (pool_stats option \<times> pool_stats_unknown option) \<times> wait_window" where
  "read_pool_stats now pool w =
     (case pool of
        None \<Rightarrow> ((None, Some POOL_STATS_UNKNOWN_POOL_KIND), w)
      | Some pc \<Rightarrow>
          (case (pc_size pc, pc_checkedout pc, pc_overflow pc) of
             (Some sz, Some checked_out, Some overflow) \<Rightarrow>
               (let (n, w') = pool_wait_timeouts_in_window now w
                in ((Some \<lparr>ps_size = sz, ps_checked_out = checked_out, ps_overflow = max 0 overflow,
                           ps_max_overflow = pc_max_overflow pc, ps_wait_timeouts_1m = int n\<rparr>, None), w'))
           | _ \<Rightarrow> ((None, Some POOL_STATS_UNKNOWN_POOL_KIND), w)))"

section \<open>Pools across processes (\<open>core/pool_state.py\<close>)\<close>

definition pool_state_key_prefix :: string where
  "pool_state_key_prefix = ''pool:state:''"

definition pool_processes :: "string list" where
  "pool_processes = [''api_worker'', ''mcp'']"

definition pool_state_ttl_seconds :: rat where
  "pool_state_ttl_seconds = 60"

definition pool_state_refresh_interval_seconds :: rat where
  "pool_state_refresh_interval_seconds = 10"

record pool_record =
  pl_process :: string
  pl_stats :: pool_stats
  pl_written_at :: time

text \<open>A key holds what \<open>json.loads\<close> makes of its text (\<open>None\<close> where that raises), until it expires.\<close>

type_synonym pool_store = "(string \<times> (json option \<times> time)) list"

definition pool_key_for :: "string \<Rightarrow> app_error + string" where
  "pool_key_for process = (if process \<in> set pool_processes then Inr (pool_state_key_prefix @ process) else Inl ValueError)"

definition jint_opt :: "int option \<Rightarrow> json" where
  "jint_opt v = (case v of None \<Rightarrow> JNull | Some i \<Rightarrow> JInt i)"

definition pool_json :: "codec \<Rightarrow> pool_record \<Rightarrow> json" where
  "pool_json c r = JObj
     [(''process'', JStr (pl_process r)), (''size'', JInt (ps_size (pl_stats r))),
      (''checked_out'', JInt (ps_checked_out (pl_stats r))), (''overflow'', JInt (ps_overflow (pl_stats r))),
      (''max_overflow'', jint_opt (ps_max_overflow (pl_stats r))),
      (''wait_timeouts_1m'', JInt (ps_wait_timeouts_1m (pl_stats r))),
      (''written_at'', JStr (iso c (pl_written_at r)))]"

text \<open>The name is checked inside the \<open>try\<close>: an undeclared process is logged and dropped like a lost write.\<close>

definition publish_pool_state :: "codec \<Rightarrow> redis_health \<Rightarrow> string \<Rightarrow> pool_stats \<Rightarrow> time \<Rightarrow> pool_store \<Rightarrow> pool_store" where
  "publish_pool_state c h process stats now st =
     (case pool_key_for process of
        Inl _ \<Rightarrow> st
      | Inr k \<Rightarrow>
          if can_set h k
          then kv_set k (Some (pool_json c \<lparr>pl_process = process, pl_stats = stats, pl_written_at = now\<rparr>), now + pool_state_ttl_seconds) st
          else st)"

definition record_process_pool ::
    "codec \<Rightarrow> redis_health \<Rightarrow> pool_counters option \<Rightarrow> string \<Rightarrow> time \<Rightarrow> wait_window \<times> pool_store \<Rightarrow> bool \<times> wait_window \<times> pool_store" where
  "record_process_pool c h pool process now = (\<lambda>(w, st).
     case read_pool_stats now pool w of
       ((None, _), w') \<Rightarrow> (False, w', st)
     | ((Some stats, _), w') \<Rightarrow> (True, w', publish_pool_state c h process stats now st))"

text \<open>One turn of \<open>_gauge_loop\<close>; \<open>pool_getter\<close> may raise, which is swallowed.\<close>

definition gauge_pass ::
    "codec \<Rightarrow> redis_health \<Rightarrow> (unit + pool_counters option) \<Rightarrow> string \<Rightarrow> time \<Rightarrow> wait_window \<times> pool_store \<Rightarrow> wait_window \<times> pool_store" where
  "gauge_pass c h pool_getter process now s =
     (case pool_getter of Inl _ \<Rightarrow> s | Inr pool \<Rightarrow> snd (record_process_pool c h pool process now s))"

text \<open>The publisher of a process: the task it runs, by number, and whether that one is done.\<close>

record gauge =
  ga_task :: "(nat \<times> bool) option"
  ga_started :: nat

definition start_pool_gauge :: "string \<Rightarrow> gauge \<Rightarrow> app_error + gauge" where
  "start_pool_gauge process g =
     (case pool_key_for process of
        Inl e \<Rightarrow> Inl e
      | Inr _ \<Rightarrow>
          (case ga_task g of
             Some (_, False) \<Rightarrow> Inr g
           | _ \<Rightarrow> Inr \<lparr>ga_task = Some (ga_started g, False), ga_started = Suc (ga_started g)\<rparr>))"

definition stop_pool_gauge :: "gauge \<Rightarrow> gauge" where
  "stop_pool_gauge g = g\<lparr>ga_task := None\<rparr>"

definition pool_record_from :: "codec \<Rightarrow> json option \<Rightarrow> app_error + pool_record option" where
  "pool_record_from c raw =
     (case raw of
        Some (JObj loaded) \<Rightarrow>
          (case (jget loaded ''process'', parse_stamp c (jget loaded ''written_at'')) of
             (JStr process, Some written_at) \<Rightarrow>
               (case (int_or_0 (jget loaded ''size''), int_or_0 (jget loaded ''checked_out''),
                      int_or_0 (jget loaded ''overflow''), int_or_0 (jget loaded ''wait_timeouts_1m'')) of
                  (Inr sz, Inr out, Inr over, Inr waits) \<Rightarrow>
                    Inr (Some \<lparr>pl_process = process,
                      pl_stats = \<lparr>ps_size = sz, ps_checked_out = out, ps_overflow = over,
                        ps_max_overflow = (case jget loaded ''max_overflow'' of
                            JInt i \<Rightarrow> Some i | JBool b \<Rightarrow> Some (if b then 1 else 0) | _ \<Rightarrow> None),
                        ps_wait_timeouts_1m = waits\<rparr>,
                      pl_written_at = written_at\<rparr>)
                | (Inl e, _, _, _) \<Rightarrow> Inl e
                | (_, Inl e, _, _) \<Rightarrow> Inl e
                | (_, _, Inl e, _) \<Rightarrow> Inl e
                | (_, _, _, Inl e) \<Rightarrow> Inl e)
           | _ \<Rightarrow> Inr None)
      | _ \<Rightarrow> Inr None)"

text \<open>The keys at the time of the scan; each is read later, and may be gone by then.\<close>

definition scan_pool_keys :: "time \<Rightarrow> pool_store \<Rightarrow> string list" where
  "scan_pool_keys now st = sorted_list_of_set (fst ` {kv \<in> set st. now < snd (snd kv)})"

fun collect_pools :: "codec \<Rightarrow> redis_health \<Rightarrow> time \<Rightarrow> pool_store \<Rightarrow> string list \<Rightarrow> app_error + pool_record list option" where
  "collect_pools c h now st [] = Inr (Some [])"
| "collect_pools c h now st (k # ks) =
     (if \<not> can_get h k then Inr None
      else case pool_record_from c (case live_value now (map_of st k) of None \<Rightarrow> None | Some v \<Rightarrow> v) of
        Inl e \<Rightarrow> Inl e
      | Inr r \<Rightarrow>
          (case collect_pools c h now st ks of
             Inl e \<Rightarrow> Inl e
           | Inr None \<Rightarrow> Inr None
           | Inr (Some rs) \<Rightarrow> Inr (Some (case r of None \<Rightarrow> rs | Some r \<Rightarrow> r # rs))))"

fun index_of :: "'a \<Rightarrow> 'a list \<Rightarrow> nat" where
  "index_of x [] = 0"
| "index_of x (y # ys) = (if x = y then 0 else Suc (index_of x ys))"

text \<open>The order \<open>_listing_order\<close> sorts by, the second part first: sorting is stable.\<close>

definition in_listing_order :: "pool_record list \<Rightarrow> pool_record list" where
  "in_listing_order rs = sort_key (\<lambda>r. index_of (pl_process r) pool_processes) (sort_key pl_process rs)"

definition read_pool_states ::
    "codec \<Rightarrow> redis_health \<Rightarrow> time \<Rightarrow> time \<Rightarrow> pool_store \<Rightarrow> app_error + (pool_record list \<times> breakers_unknown option)" where
  "read_pool_states c h scan_at get_at st =
     (if \<not> can_scan h then Inr ([], Some UNREACHABLE)
      else let keys = scan_pool_keys scan_at st
           in if keys = [] then Inr ([], Some NONE_PUBLISHED)
              else case collect_pools c h get_at st keys of
                Inl e \<Rightarrow> Inl e
              | Inr None \<Rightarrow> Inr ([], Some UNREACHABLE)
              | Inr (Some rs) \<Rightarrow> if rs = [] then Inr ([], Some UNREADABLE) else Inr (in_listing_order rs, None))"

section \<open>Health (\<open>mcp/tools/health.py\<close>)\<close>

record redis_health_output =
  rh_ok :: bool
  rh_ping_latency_ms :: "rat option"
  rh_connected_clients :: "int option"
  rh_used_memory_bytes :: "int option"
  rh_used_memory_human :: "string option"
  rh_keyspace_hits :: "int option"
  rh_keyspace_misses :: "int option"
  rh_error :: "string option"

definition redis_unhealthy :: "string \<Rightarrow> redis_health_output" where
  "redis_unhealthy e = \<lparr>rh_ok = False, rh_ping_latency_ms = None, rh_connected_clients = None, rh_used_memory_bytes = None,
     rh_used_memory_human = None, rh_keyspace_hits = None, rh_keyspace_misses = None, rh_error = Some e\<rparr>"

definition maybe_str :: "(rat \<Rightarrow> string) \<Rightarrow> json \<Rightarrow> string option" where
  "maybe_str fr v = (if v = JNull then None else Some (py_str_json fr v))"

text \<open>\<open>PING\<close> answers with a truth value after some seconds, \<open>INFO\<close> with its fields; either may raise.\<close>

definition get_redis_health :: "(rat \<Rightarrow> string) \<Rightarrow> string + bool \<times> rat \<Rightarrow> string + dict \<Rightarrow> redis_health_output" where
  "get_redis_health fr ping info =
     (case ping of
        Inl e \<Rightarrow> redis_unhealthy e
      | Inr (False, _) \<Rightarrow> redis_unhealthy ''ping returned falsy''
      | Inr (True, seconds) \<Rightarrow>
          (case info of
             Inl e \<Rightarrow> redis_unhealthy e
           | Inr stats \<Rightarrow>
               \<lparr>rh_ok = True, rh_ping_latency_ms = Some (milliseconds (seconds * 1000)),
                rh_connected_clients = int_of_json (jget stats ''connected_clients''),
                rh_used_memory_bytes = int_of_json (jget stats ''used_memory''),
                rh_used_memory_human = maybe_str fr (jget stats ''used_memory_human''),
                rh_keyspace_hits = int_of_json (jget stats ''keyspace_hits''),
                rh_keyspace_misses = int_of_json (jget stats ''keyspace_misses''), rh_error = None\<rparr>))"

definition slow_query_threshold_ms :: rat where
  "slow_query_threshold_ms = 500"

datatype query_stats_unknown =
    QUERY_STATS_UNKNOWN_NOT_POSTGRES
  | QUERY_STATS_UNKNOWN_EXTENSION_ABSENT
  | QUERY_STATS_UNKNOWN_NO_WINDOWED_HISTORY

record pool_gauge_reading =
  pg_record :: pool_record
  pg_reported_age_s :: rat

record postgres_health_output =
  ph_ok :: bool
  ph_ping_latency_ms :: "rat option"
  ph_active_connections :: "int option"
  ph_dialect :: string
  ph_error :: "string option"
  ph_pool :: "pool_stats option"
  ph_pool_stats_unknown_reason :: "pool_stats_unknown option"
  ph_longest_active_query_ms :: "rat option"
  ph_active_queries_over_slow_threshold :: "int option"
  ph_p95_query_ms_1m :: "rat option"
  ph_slow_query_count_1m :: "int option"
  ph_query_stats_unknown_reason :: "query_stats_unknown option"
  ph_pools :: "pool_gauge_reading list"
  ph_pool_gauges_unknown_reason :: "breakers_unknown option"

text \<open>
  The statements of the probe, in order, each with its answer or the text of its error: the ping and
  its time, the number of active connections, the ages in milliseconds of the other active queries of
  this database, whether the extension is installed, and the release of the savepoint. The database
  computes the maximum and the count over the ages.
\<close>

record probe_env =
  pe_dialect :: "string option"
  pe_ping :: "string + rat"
  pe_active :: "string + int"
  pe_query_ages :: "string + rat list"
  pe_extension :: "string + bool"
  pe_release :: "string option"

definition probe_dialect :: "probe_env \<Rightarrow> string" where
  "probe_dialect e = (case pe_dialect e of None \<Rightarrow> ''unknown'' | Some s \<Rightarrow> s)"

definition bare_health :: "probe_env \<Rightarrow> postgres_health_output" where
  "bare_health e = \<lparr>ph_ok = True, ph_ping_latency_ms = None, ph_active_connections = None, ph_dialect = probe_dialect e,
     ph_error = None, ph_pool = None, ph_pool_stats_unknown_reason = None, ph_longest_active_query_ms = None,
     ph_active_queries_over_slow_threshold = None, ph_p95_query_ms_1m = None, ph_slow_query_count_1m = None,
     ph_query_stats_unknown_reason = Some QUERY_STATS_UNKNOWN_NOT_POSTGRES, ph_pools = [], ph_pool_gauges_unknown_reason = None\<rparr>"

definition postgres_readings :: "probe_env \<Rightarrow> postgres_health_output \<Rightarrow> string + postgres_health_output" where
  "postgres_readings e out =
     (case pe_active e of
        Inl x \<Rightarrow> Inl x
      | Inr n \<Rightarrow>
          (case pe_query_ages e of
             Inl x \<Rightarrow> Inl x
           | Inr ages \<Rightarrow>
               (case pe_extension e of
                  Inl x \<Rightarrow> Inl x
                | Inr installed \<Rightarrow>
                    Inr (out\<lparr>ph_active_connections := Some n,
                      ph_longest_active_query_ms := map_option milliseconds (max_opt ages),
                      ph_active_queries_over_slow_threshold := Some (int (length (filter (\<lambda>a. slow_query_threshold_ms < a) ages))),
                      ph_query_stats_unknown_reason := Some (if installed then QUERY_STATS_UNKNOWN_NO_WINDOWED_HISTORY
                        else QUERY_STATS_UNKNOWN_EXTENSION_ABSENT)\<rparr>))))"

text \<open>The block under \<open>degrade_on_db_error\<close>: its reading, or the error it degrades to.\<close>

definition probe_postgres :: "probe_env \<Rightarrow> string + postgres_health_output" where
  "probe_postgres e =
     (case pe_ping e of
        Inl x \<Rightarrow> Inl x
      | Inr seconds \<Rightarrow>
          (case (let out = (bare_health e)\<lparr>ph_ping_latency_ms := Some (milliseconds (seconds * 1000))\<rparr>
                 in if probe_dialect e = ''postgresql'' then postgres_readings e out else Inr out) of
             Inl x \<Rightarrow> Inl x
           | Inr out \<Rightarrow> (case pe_release e of None \<Rightarrow> Inr out | Some x \<Rightarrow> Inl x)))"

definition gauge_reading :: "time \<Rightarrow> pool_record \<Rightarrow> pool_gauge_reading" where
  "gauge_reading read_at r = \<lparr>pg_record = r, pg_reported_age_s = milliseconds (max 0 (read_at - pl_written_at r))\<rparr>"

definition get_postgres_health ::
    "codec \<Rightarrow> redis_health \<Rightarrow> probe_env \<Rightarrow> pool_counters option \<Rightarrow> time \<Rightarrow> time \<Rightarrow> time \<Rightarrow> time \<Rightarrow> wait_window \<times> pool_store
      \<Rightarrow> (app_error + postgres_health_output) \<times> wait_window" where
  "get_postgres_health c h e pool mono_now scan_at get_at read_at = (\<lambda>(w, st).
     (let probe = probe_postgres e;
          ((stats, pool_unknown), w') = read_pool_stats mono_now (if pe_dialect e = None then None else pool) w
      in (case read_pool_states c h scan_at get_at st of
            Inl x \<Rightarrow> Inl x
          | Inr (gauges, gauges_unknown) \<Rightarrow>
              Inr ((case probe of
                      Inr healthy \<Rightarrow> healthy
                    | Inl x \<Rightarrow> (bare_health e)\<lparr>ph_ok := False, ph_error := Some x,
                        ph_query_stats_unknown_reason := Some (if probe_dialect e \<noteq> ''postgresql''
                          then QUERY_STATS_UNKNOWN_NOT_POSTGRES else QUERY_STATS_UNKNOWN_NO_WINDOWED_HISTORY)\<rparr>)
                   \<lparr>ph_pool := stats, ph_pool_stats_unknown_reason := (if stats = None then pool_unknown else None),
                    ph_pools := map (gauge_reading read_at) gauges, ph_pool_gauges_unknown_reason := gauges_unknown\<rparr>),
          w')))"

section \<open>Circuit breakers (\<open>mcp/tools/circuit_breakers.py\<close>)\<close>

record circuit_breaker_reading =
  cr_record :: breaker_record
  cr_seconds_since_state_change :: "rat option"
  cr_reported_age_s :: rat

definition breaker_reading :: "time \<Rightarrow> breaker_record \<Rightarrow> circuit_breaker_reading" where
  "breaker_reading read_at r = \<lparr>cr_record = r,
     cr_seconds_since_state_change = age_seconds read_at (br_last_state_change_at r),
     cr_reported_age_s = (case age_seconds read_at (Some (br_recorded_at r)) of None \<Rightarrow> 0 | Some a \<Rightarrow> a)\<rparr>"

definition get_circuit_breakers ::
    "codec \<Rightarrow> redis_health \<Rightarrow> time \<Rightarrow> breaker_store \<Rightarrow> app_error + (circuit_breaker_reading list \<times> nat \<times> breakers_unknown option)" where
  "get_circuit_breakers c h read_at st =
     (case read_breaker_states c h st of
        Inl e \<Rightarrow> Inl e
      | Inr (rs, unknown_reason) \<Rightarrow> Inr (map (breaker_reading read_at) rs, length rs, unknown_reason))"

section \<open>What the readings are worth\<close>

lemma milliseconds_nonneg: "0 \<le> t \<Longrightarrow> 0 \<le> milliseconds t"
proof -
  assume "0 \<le> t"
  then have "0 \<le> \<lfloor>t * 1000\<rfloor>" by simp
  then show ?thesis by (auto simp: milliseconds_def py_round_def Let_def)
qed

lemma age_seconds_iff [simp]: "age_seconds now x = None \<longleftrightarrow> x = None"
  by (simp add: age_seconds_def)

lemma age_seconds_near: "age_seconds now x = Some a \<Longrightarrow> \<exists>t. x = Some t \<and> 0 \<le> a \<and> \<bar>a - max 0 (now - t)\<bar> \<le> 1 / 2000"
  using milliseconds_near [of "max 0 (now - the x)"] by (auto simp: age_seconds_def milliseconds_nonneg)

lemma max_opt_iff [simp]: "max_opt xs = None \<longleftrightarrow> xs = []" "min_opt xs = None \<longleftrightarrow> xs = []"
  by (simp_all add: max_opt_def min_opt_def)

subsection \<open>The outbox\<close>

definition tenant_waiting :: "uuid \<Rightarrow> db \<Rightarrow> outbox_event list" where
  "tenant_waiting t d = filter (\<lambda>e. o_tenant_id e = t \<and> o_published_at e = None) (outbox_events d)"

lemma waiting_filter: "filter (\<lambda>e. o_published_at e = None) (filter (\<lambda>e. o_tenant_id e = t) (outbox_events d)) = tenant_waiting t d"
  by (auto simp: tenant_waiting_def intro!: filter_cong)

text \<open>
  The state of the outbox is what the tables say. The count is the number of the tenant's undelivered
  rows, the two times are those of the first and the last of them and are missing exactly when there are
  none; every age is the distance to its time, to the millisecond, never negative, and missing exactly
  with it; the last delivery is one that succeeded, never one given up. The relay's time is known or a
  reason is given, never both; after a pass that reached the queue and Redis it is the time of that pass,
  for a day. While the relay runs under one attempt limit, the number of rows past it is 0: a row that is
  given up leaves the count, so it is in no number of this reading.
\<close>

theorem outbox_status_exact:
  assumes "s = get_outbox_status c cfg p up db_now redis_now slot d"
  shows "os_unpublished_count s = length (tenant_waiting (pr_tenant_id p) d)
    \<and> (os_oldest_unpublished_at s = None \<longleftrightarrow> os_unpublished_count s = 0) \<and> (os_newest_unpublished_at s = None \<longleftrightarrow> os_unpublished_count s = 0)
    \<and> (\<forall>t. os_oldest_unpublished_at s = Some t \<longrightarrow> t \<in> o_created_at ` set (tenant_waiting (pr_tenant_id p) d)
         \<and> (\<forall>e \<in> set (tenant_waiting (pr_tenant_id p) d). t \<le> o_created_at e))
    \<and> (\<forall>t. os_newest_unpublished_at s = Some t \<longrightarrow> t \<in> o_created_at ` set (tenant_waiting (pr_tenant_id p) d)
         \<and> (\<forall>e \<in> set (tenant_waiting (pr_tenant_id p) d). o_created_at e \<le> t))
    \<and> (\<forall>t. os_last_publish_at s = Some t \<longrightarrow> (\<exists>e \<in> set (outbox_events d). o_tenant_id e = pr_tenant_id p \<and> o_published_at e = Some t \<and> o_failed_at e = None))
    \<and> (os_relay_heartbeat_known s \<longleftrightarrow> os_relay_heartbeat_unknown_reason s = None)
    \<and> (os_relay_heartbeat_age_s s = None \<longleftrightarrow> \<not> os_relay_heartbeat_known s)
    \<and> (\<forall>(x, a) \<in> {(os_oldest_unpublished_at s, os_oldest_unpublished_age_s s), (os_newest_unpublished_at s, os_newest_unpublished_age_s s),
          (os_last_publish_at s, os_seconds_since_last_publish s), (os_relay_last_tick_at s, os_relay_heartbeat_age_s s)}.
        (a = None \<longleftrightarrow> x = None) \<and> (\<forall>v. a = Some v \<longrightarrow> (\<exists>t. x = Some t \<and> 0 \<le> v \<and> \<bar>v - max 0 (os_measured_at s - t)\<bar> \<le> 1 / 2000)))
    \<and> (\<forall>t ok publish slot0 d0. stamped_relay_pass c cfg t True True ok publish (slot0, d0) = (slot, d) \<and> uniso c (iso c t) = Some t
          \<and> up \<and> redis_now < t + 86400 \<longrightarrow> os_relay_last_tick_at s = Some t)
    \<and> (outbox_ok cfg d \<longrightarrow> os_unpublished_past_attempt_limit s = 0)"
proof -
  let ?W = "tenant_waiting (pr_tenant_id p) d"
  let ?snap = "outbox_delivery_snapshot cfg db_now (pr_tenant_id p) d"
  obtain tick reason where r: "read_relay_tick c up redis_now slot = (tick, reason)" by fastforce
  have s: "os_unpublished_count s = length ?W" "os_oldest_unpublished_at s = min_opt (map o_created_at ?W)"
    "os_newest_unpublished_at s = max_opt (map o_created_at ?W)" "os_relay_last_tick_at s = tick"
    "os_relay_heartbeat_known s = (tick \<noteq> None)" "os_relay_heartbeat_unknown_reason s = reason"
    "os_last_publish_at s = last_publish_at ?snap" "os_measured_at s = db_now"
    "os_oldest_unpublished_age_s s = age_seconds db_now (os_oldest_unpublished_at s)"
    "os_newest_unpublished_age_s s = age_seconds db_now (os_newest_unpublished_at s)"
    "os_seconds_since_last_publish s = age_seconds db_now (os_last_publish_at s)"
    "os_relay_heartbeat_age_s s = age_seconds db_now tick"
    "os_unpublished_past_attempt_limit s = length (filter (\<lambda>e. outbox_max_attempts cfg \<le> o_attempts e) ?W)"
    by (simp_all add: assms get_outbox_status_def r outbox_delivery_snapshot_def Let_def waiting_filter [symmetric])
  have 1: "os_oldest_unpublished_at s = None \<longleftrightarrow> os_unpublished_count s = 0" "os_newest_unpublished_at s = None \<longleftrightarrow> os_unpublished_count s = 0"
    by (simp_all add: s)
  have 2: "\<forall>t. os_oldest_unpublished_at s = Some t \<longrightarrow> t \<in> o_created_at ` set ?W \<and> (\<forall>e \<in> set ?W. t \<le> o_created_at e)"
    by (auto simp: s min_opt_def split: if_splits)
  have 3: "\<forall>t. os_newest_unpublished_at s = Some t \<longrightarrow> t \<in> o_created_at ` set ?W \<and> (\<forall>e \<in> set ?W. o_created_at e \<le> t)"
    by (auto simp: s max_opt_def split: if_splits)
  let ?D = "filter (\<lambda>e. o_published_at e \<noteq> None \<and> o_failed_at e = None) (filter (\<lambda>e. o_tenant_id e = pr_tenant_id p) (outbox_events d))"
  have "last_publish_at ?snap = max_opt (map (\<lambda>e. the (o_published_at e)) ?D)" by (simp add: outbox_delivery_snapshot_def Let_def)
  moreover have "t \<in> set xs" if "max_opt xs = Some t" for xs t
    using that Max_in [of "set xs"] by (auto simp: max_opt_def split: if_splits)
  ultimately have 4: "\<forall>t. os_last_publish_at s = Some t \<longrightarrow> (\<exists>e \<in> set (outbox_events d). o_tenant_id e = pr_tenant_id p \<and> o_published_at e = Some t \<and> o_failed_at e = None)"
    by (fastforce simp: s)
  have 5: "os_relay_heartbeat_known s \<longleftrightarrow> os_relay_heartbeat_unknown_reason s = None"
    using r by (auto simp: s read_relay_tick_def split: if_splits option.splits) (metis option.exhaust)
  have 6: "os_relay_heartbeat_age_s s = None \<longleftrightarrow> \<not> os_relay_heartbeat_known s" by (simp add: s)
  have 7: "(age_seconds now x = None \<longleftrightarrow> x = None) \<and> (\<forall>v. age_seconds now x = Some v \<longrightarrow> (\<exists>t. x = Some t \<and> 0 \<le> v \<and> \<bar>v - max 0 (now - t)\<bar> \<le> 1 / 2000))" for now x
    using age_seconds_near [of now x] by simp
  have 8: "os_relay_last_tick_at s = Some t"
    if "stamped_relay_pass c cfg t True True ok publish (slot0, d0) = (slot, d)" "uniso c (iso c t) = Some t" "up" "redis_now < t + 86400" for t ok publish slot0 d0
    using that r by (auto simp: s stamped_relay_pass_def record_relay_tick_def read_relay_tick_def relay_tick_ttl_seconds_def live_value_def)
  have 9: "os_unpublished_past_attempt_limit s = 0" if "outbox_ok cfg d"
    using that by (auto simp: s outbox_ok_def tenant_waiting_def filter_empty_conv)
  show ?thesis
    by (intro conjI) (use s(1) 1 2 3 4 5 6 8 9 7 in \<open>auto simp: s\<close>)
qed

text \<open>
  The stamp stands before the publishing: a pass whose results could not be written leaves the tables as
  they were, and is on record as a pass all the same.
\<close>

lemma unfinished_pass_stamped:
  "stamped_relay_pass c cfg now True True False publish (slot, d) = (Some (iso c now, now + 86400), d)"
  by (simp add: stamped_relay_pass_def record_relay_tick_def relay_tick_ttl_seconds_def)

subsection \<open>The pools\<close>

text \<open>A record of a stamp that survives printing and parsing, as Python documents it, reads back.\<close>

lemma pool_record_from_json: "uniso c (iso c (pl_written_at r)) = Some (pl_written_at r) \<Longrightarrow> pool_record_from c (Some (pool_json c r)) = Inr (Some r)"
  by (cases "ps_max_overflow (pl_stats r)")
    (simp_all add: pool_record_from_def pool_json_def parse_stamp_def int_or_0_def jint_opt_def)

text \<open>
  A history of publications, each with the Redis it met. \<open>latest_sample\<close> is the last one of a declared
  process that reached the store; \<open>live_sample\<close> that one while it is less than a minute old.
\<close>

type_synonym pool_sample = "redis_health \<times> string \<times> pool_stats \<times> time"

definition publish_sample :: "codec \<Rightarrow> pool_sample \<Rightarrow> pool_store \<Rightarrow> pool_store" where
  "publish_sample c = (\<lambda>(h, process, stats, now). publish_pool_state c h process stats now)"

fun reaches :: "string \<Rightarrow> pool_sample \<Rightarrow> bool" where
  "reaches p (h, process, stats, now) \<longleftrightarrow> process = p \<and> p \<in> set pool_processes \<and> can_set h (pool_state_key_prefix @ p)"

fun gauge_record :: "pool_sample \<Rightarrow> pool_record" where
  "gauge_record (h, process, stats, now) = \<lparr>pl_process = process, pl_stats = stats, pl_written_at = now\<rparr>"

definition latest_sample :: "pool_sample list \<Rightarrow> string \<Rightarrow> pool_record option" where
  "latest_sample samples p = map_option gauge_record (find (reaches p) (rev samples))"

definition live_sample :: "pool_sample list \<Rightarrow> time \<Rightarrow> string \<Rightarrow> pool_record option" where
  "live_sample samples now p =
     (case latest_sample samples p of Some r \<Rightarrow> if now < pl_written_at r + 60 then Some r else None | None \<Rightarrow> None)"

lemma latest_sample_snoc: "latest_sample (samples @ [x]) p = (if reaches p x then Some (gauge_record x) else latest_sample samples p)"
  by (simp add: latest_sample_def)

lemma latest_sample_process: "latest_sample samples p = Some r \<Longrightarrow> pl_process r = p \<and> p \<in> set pool_processes"
  by (induction samples rule: rev_induct) (auto simp: latest_sample_snoc split: if_splits, auto simp: latest_sample_def)

lemma live_sample_process: "live_sample samples now p = Some r \<Longrightarrow> pl_process r = p \<and> p \<in> set pool_processes"
  by (auto simp: live_sample_def split: option.splits if_splits dest: latest_sample_process)

definition pool_slot :: "codec \<Rightarrow> pool_record \<Rightarrow> json option \<times> time" where
  "pool_slot c r = (Some (pool_json c r), pl_written_at r + 60)"

lemma published_store:
  fixes samples :: "pool_sample list" and c :: codec
  defines "st \<equiv> fold (publish_sample c) samples []"
  shows "distinct (map fst st) \<and> set st = {(pool_state_key_prefix @ p, pool_slot c r) | p r. latest_sample samples p = Some r}"
  unfolding st_def
proof (induction samples rule: rev_induct)
  case (snoc x samples)
  obtain h process stats now where x: "x = (h, process, stats, now)" by (cases x)
  let ?st = "fold (publish_sample c) samples []"
  let ?k = "pool_state_key_prefix @ process"
  show ?case
  proof (cases "reaches process x")
    case True
    then have "fold (publish_sample c) (samples @ [x]) [] = kv_set ?k (pool_slot c (gauge_record x)) ?st"
      by (simp add: x publish_sample_def publish_pool_state_def pool_key_for_def pool_slot_def pool_state_ttl_seconds_def)
    moreover have "insert (?k, pool_slot c (gauge_record x)) {kv \<in> set ?st. fst kv \<noteq> ?k} =
        {(pool_state_key_prefix @ p, pool_slot c r) | p r. latest_sample (samples @ [x]) p = Some r}"
      using snoc True by (auto simp: latest_sample_snoc x)
    ultimately show ?thesis using snoc by (simp add: kv_set_keys)
  next
    case False
    then have "fold (publish_sample c) (samples @ [x]) [] = ?st"
      by (auto simp: x publish_sample_def publish_pool_state_def pool_key_for_def)
    moreover have "latest_sample (samples @ [x]) p = latest_sample samples p" for p
      using False by (auto simp: latest_sample_snoc x)
    ultimately show ?thesis using snoc by simp
  qed
qed (simp add: latest_sample_def)

lemma published_lookup:
  "map_of (fold (publish_sample c) samples []) (pool_state_key_prefix @ p) = map_option (pool_slot c) (latest_sample samples p)"
proof (cases "latest_sample samples p")
  case None
  then have "pool_state_key_prefix @ p \<notin> fst ` set (fold (publish_sample c) samples [])"
    using published_store [of c samples] by auto
  then show ?thesis using None by (simp add: map_of_eq_None_iff)
next
  case (Some r)
  then show ?thesis using published_store [of c samples] by (auto intro!: map_of_is_SomeI)
qed

lemma collect_published:
  assumes "\<And>t. uniso c (iso c t) = Some t" "\<And>k. can_get h k"
  shows "collect_pools c h now (fold (publish_sample c) samples []) (map ((@) pool_state_key_prefix) ps) =
    Inr (Some (List.map_filter (live_sample samples now) ps))"
proof (induction ps)
  case (Cons p ps)
  then show ?case
    by (cases "latest_sample samples p")
      (simp_all add: assms published_lookup live_value_def live_sample_def pool_slot_def pool_record_from_json
        pool_record_from_def [of c None] map_filter_simps)
qed (simp add: map_filter_simps)

lemma map_filter_processes: "map pl_process (List.map_filter (live_sample samples now) ps) = filter (\<lambda>p. live_sample samples now p \<noteq> None) ps"
  by (induction ps) (auto simp: map_filter_simps dest: live_sample_process split: option.splits)

lemma set_map_filter: "set (List.map_filter f xs) = {y. \<exists>x \<in> set xs. f x = Some y}"
  by (induction xs) (auto simp: map_filter_simps split: option.splits)

lemma scanned_keys:
  "\<exists>ps. scan_pool_keys now (fold (publish_sample c) samples []) = map ((@) pool_state_key_prefix) ps \<and> distinct ps
     \<and> set ps = {p. live_sample samples now p \<noteq> None}"
proof -
  let ?st = "fold (publish_sample c) samples []"
  let ?K = "fst ` {kv \<in> set ?st. now < snd (snd kv)}"
  have K: "?K = (@) pool_state_key_prefix ` {p. live_sample samples now p \<noteq> None}"
    using published_store [of c samples] by (auto simp: live_sample_def pool_slot_def image_iff split: option.splits if_splits; metis)
  have fin: "finite ?K" by simp
  then have "set (scan_pool_keys now ?st) = ?K" "distinct (scan_pool_keys now ?st)" by (simp_all add: scan_pool_keys_def)
  moreover from this(1) K obtain ps where ps: "scan_pool_keys now ?st = map ((@) pool_state_key_prefix) ps"
    by (metis (no_types, lifting) ex_map_conv imageE)
  ultimately have "(@) pool_state_key_prefix ` set ps = (@) pool_state_key_prefix ` {p. live_sample samples now p \<noteq> None}" "distinct ps"
    using K by (simp_all add: distinct_map)
  moreover have "inj ((@) pool_state_key_prefix)" by (simp add: inj_on_def)
  ultimately show ?thesis using ps by (auto simp: inj_image_eq_iff)
qed

text \<open>
  Property C23. What a process publishes about its pool is what another reads. After any history of publications, some
  of them lost, a reading with Redis up lists exactly the declared processes whose last publication that
  arrived is less than a minute old, each once, with the numbers of that publication, in the declared
  order; a process that has stopped publishing is gone after a minute. It gives a reason exactly when it
  lists nothing.
\<close>

theorem pool_reading_exact:
  assumes "\<forall>t. uniso c (iso c t) = Some t" "can_scan h \<and> (\<forall>k. can_get h k)" "scan_at \<le> get_at"
  shows "\<exists>rs reason. read_pool_states c h scan_at get_at (fold (publish_sample c) samples []) = Inr (rs, reason)
    \<and> set rs = {r. \<exists>p \<in> set pool_processes. live_sample samples get_at p = Some r}
    \<and> distinct (map pl_process rs) \<and> sorted (map (\<lambda>r. index_of (pl_process r) pool_processes) rs)
    \<and> (reason = None \<longleftrightarrow> rs \<noteq> [])"
proof -
  let ?st = "fold (publish_sample c) samples []"
  obtain ps where ps: "scan_pool_keys scan_at ?st = map ((@) pool_state_key_prefix) ps" "distinct ps" "set ps = {p. live_sample samples scan_at p \<noteq> None}"
    using scanned_keys by blast
  let ?rs = "List.map_filter (live_sample samples get_at) ps"
  have later: "live_sample samples scan_at p \<noteq> None" if "live_sample samples get_at p = Some r" for p r
    using that assms(3) by (auto simp: live_sample_def split: option.splits if_splits)
  have set_rs: "set ?rs = {r. \<exists>p \<in> set pool_processes. live_sample samples get_at p = Some r}"
    unfolding set_map_filter ps(3) using later live_sample_process by blast
  have "distinct (map pl_process ?rs)" using ps(2) by (simp add: map_filter_processes)
  then have "distinct (map pl_process (in_listing_order ?rs))"
    unfolding in_listing_order_def by (auto simp: distinct_map)
  moreover have "sorted (map (\<lambda>r. index_of (pl_process r) pool_processes) (in_listing_order ?rs))"
    by (simp add: in_listing_order_def)
  moreover have "set (in_listing_order ?rs) = set ?rs" by (simp add: in_listing_order_def)
  moreover have "read_pool_states c h scan_at get_at ?st =
      (if ps = [] then Inr ([], Some NONE_PUBLISHED) else if ?rs = [] then Inr ([], Some UNREADABLE) else Inr (in_listing_order ?rs, None))"
    using collect_published [of c h get_at samples ps] assms(1,2) by (auto simp: read_pool_states_def ps(1))
  moreover have "ps = [] \<Longrightarrow> ?rs = []" by (simp add: map_filter_simps)
  moreover have "in_listing_order ?rs = [] \<longleftrightarrow> ?rs = []" by (metis calculation(3) set_empty)
  ultimately show ?thesis
    using set_rs by (intro exI [of _ "in_listing_order ?rs"] exI [of _ "if ps = [] then Some NONE_PUBLISHED else if ?rs = [] then Some UNREADABLE else None"])
      (simp add: in_listing_order_def [of "[]"])
qed

lemma window_counts: "sorted w \<Longrightarrow> pool_wait_timeouts_in_window now w = (length (filter (\<lambda>t. now - t \<le> 60) w), filter (\<lambda>t. now - t \<le> 60) w)"
proof -
  assume "sorted w"
  then have "dropWhile (\<lambda>t. 60 < now - t) w = filter (\<lambda>t. now - t \<le> 60) w"
  proof (induction w)
    case (Cons a w)
    show ?case
    proof (cases "60 < now - a")
      case False
      then have "\<forall>t \<in> set w. now - t \<le> 60" using Cons.prems by fastforce
      then show ?thesis using False by simp
    qed (use Cons in simp)
  qed simp
  then show ?thesis by (simp add: pool_wait_timeouts_in_window_def wait_timeout_window_seconds_def Let_def)
qed

subsection \<open>Health\<close>

lemma collect_published_any:
  assumes "\<And>t. uniso c (iso c t) = Some t"
  shows "\<exists>x. collect_pools c h now (fold (publish_sample c) samples []) (map ((@) pool_state_key_prefix) ps) = Inr x"
proof (induction ps)
  case (Cons p ps)
  then obtain x where "collect_pools c h now (fold (publish_sample c) samples []) (map ((@) pool_state_key_prefix) ps) = Inr x" by blast
  then show ?case
    by (cases "latest_sample samples p"; cases x)
      (simp_all add: assms published_lookup live_value_def pool_slot_def pool_record_from_json pool_record_from_def [of c None])
qed simp

lemma published_read:
  assumes "\<And>t. uniso c (iso c t) = Some t"
  shows "\<exists>rs reason. read_pool_states c h scan_at get_at (fold (publish_sample c) samples []) = Inr (rs, reason) \<and> (reason = None \<longleftrightarrow> rs \<noteq> [])"
proof -
  obtain ps where ps: "scan_pool_keys scan_at (fold (publish_sample c) samples []) = map ((@) pool_state_key_prefix) ps"
    using scanned_keys by blast
  obtain x where x: "collect_pools c h get_at (fold (publish_sample c) samples []) (map ((@) pool_state_key_prefix) ps) = Inr x"
    using collect_published_any [OF assms] by blast
  have "set (in_listing_order rs) = set rs" for rs by (simp add: in_listing_order_def)
  then have "in_listing_order rs = [] \<longleftrightarrow> rs = []" for rs by (metis set_empty)
  then show ?thesis by (cases x) (simp_all add: read_pool_states_def ps x)
qed

definition probe_sound :: "probe_env \<Rightarrow> bool" where
  "probe_sound e \<longleftrightarrow> (\<exists>s. pe_ping e = Inr s) \<and> pe_release e = None
     \<and> (pe_dialect e = Some ''postgresql'' \<longrightarrow> (\<exists>n ages b. pe_active e = Inr n \<and> pe_query_ages e = Inr ages \<and> pe_extension e = Inr b))"

lemma probe_postgres_cases:
  "probe_sound e \<Longrightarrow> \<exists>out. probe_postgres e = Inr out \<and> ph_ok out \<and> ph_error out = None \<and> ph_p95_query_ms_1m out = None
     \<and> ph_slow_query_count_1m out = None \<and> ph_query_stats_unknown_reason out \<noteq> None"
  "\<not> probe_sound e \<Longrightarrow> \<exists>x. probe_postgres e = Inl x"
  by (auto simp: probe_sound_def probe_postgres_def postgres_readings_def bare_health_def probe_dialect_def Let_def
      split: sum.splits option.splits if_splits)

text \<open>
  The reading of the database's health always comes back. It is healthy exactly when every statement of
  the probe went through, and carries an error exactly when not, and then no query reading at all. The
  pool of the answering process is shown or a reason is, never both, and neither depends on the probe;
  its timeouts are those of the last sixty seconds, and its overflow is not negative. The pools of the
  processes are listed or a reason is given, never both, whatever Redis does. The two readings the
  platform cannot take are missing in every answer, with a reason.
\<close>

theorem postgres_health_honest:
  assumes "\<forall>t. uniso c (iso c t) = Some t" "sorted w"
    "get_postgres_health c h e pool mono_now scan_at get_at read_at (w, fold (publish_sample c) samples []) = (res, w')"
  shows "\<exists>out. res = Inr out \<and> (ph_ok out \<longleftrightarrow> probe_sound e) \<and> (ph_error out = None \<longleftrightarrow> ph_ok out)
    \<and> (\<not> ph_ok out \<longrightarrow> ph_ping_latency_ms out = None \<and> ph_active_connections out = None \<and> ph_longest_active_query_ms out = None
         \<and> ph_active_queries_over_slow_threshold out = None)
    \<and> (ph_pool out = None \<longleftrightarrow> ph_pool_stats_unknown_reason out \<noteq> None)
    \<and> (\<forall>s. ph_pool out = Some s \<longrightarrow> 0 \<le> ps_overflow s \<and> ps_wait_timeouts_1m s = int (length (filter (\<lambda>t. mono_now - t \<le> 60) w)))
    \<and> (ph_pools out = [] \<longleftrightarrow> ph_pool_gauges_unknown_reason out \<noteq> None)
    \<and> (\<forall>g \<in> set (ph_pools out). 0 \<le> pg_reported_age_s g)
    \<and> ph_p95_query_ms_1m out = None \<and> ph_slow_query_count_1m out = None \<and> ph_query_stats_unknown_reason out \<noteq> None"
proof -
  obtain rs reason where r: "read_pool_states c h scan_at get_at (fold (publish_sample c) samples []) = Inr (rs, reason)" "reason = None \<longleftrightarrow> rs \<noteq> []"
    using published_read [of c h] assms(1) by blast
  obtain stats unk w1 where p: "read_pool_stats mono_now (if pe_dialect e = None then None else pool) w = ((stats, unk), w1)"
    by (metis prod.exhaust)
  have p': "stats = None \<longleftrightarrow> unk \<noteq> None"
    "\<forall>s. stats = Some s \<longrightarrow> 0 \<le> ps_overflow s \<and> ps_wait_timeouts_1m s = int (length (filter (\<lambda>t. mono_now - t \<le> 60) w))"
    using p window_counts [OF assms(2), of mono_now] by (auto simp: read_pool_stats_def split: option.splits if_splits)
  have ages: "\<forall>g \<in> set (map (gauge_reading read_at) rs). 0 \<le> pg_reported_age_s g"
    by (auto simp: gauge_reading_def milliseconds_nonneg)
  show ?thesis
  proof (cases "probe_sound e")
    case True
    then obtain out where "probe_postgres e = Inr out \<and> ph_ok out \<and> ph_error out = None \<and> ph_p95_query_ms_1m out = None
        \<and> ph_slow_query_count_1m out = None \<and> ph_query_stats_unknown_reason out \<noteq> None"
      using probe_postgres_cases(1) by blast
    then show ?thesis using assms(3) True p' r(2) ages by (auto simp: get_postgres_health_def r(1) p)
  next
    case False
    then obtain x where "probe_postgres e = Inl x" using probe_postgres_cases(2) by blast
    then show ?thesis using assms(3) False p' r(2) ages by (auto simp: get_postgres_health_def r(1) p bare_health_def)
  qed
qed

text \<open>What the breakers published is what the tool shows, by name, each with an age that is not negative.\<close>

lemma circuit_breakers_exact:
  assumes "holds c st R" "R \<noteq> {}" "can_scan h" "\<And>k. can_get h k"
  shows "\<exists>out. get_circuit_breakers c h now st = Inr (out, card R, None) \<and> cr_record ` set out = R
    \<and> sorted (map (br_name \<circ> cr_record) out) \<and> (\<forall>x \<in> set out. 0 \<le> cr_reported_age_s x)"
proof -
  obtain rs where rs: "read_breaker_states c h st = Inr (rs, None)" "set rs = R" "distinct rs" "sorted (map br_name rs)"
    using read_holds [OF assms] by blast
  have "length rs = card R" using rs(2,3) distinct_card by force
  moreover have "cr_record ` set (map (breaker_reading now) rs) = R" by (simp add: image_image breaker_reading_def rs(2))
  moreover have "map (br_name \<circ> cr_record) (map (breaker_reading now) rs) = map br_name rs" by (simp add: breaker_reading_def)
  moreover have "\<forall>x \<in> set (map (breaker_reading now) rs). 0 \<le> cr_reported_age_s x"
    by (auto simp: breaker_reading_def age_seconds_def milliseconds_nonneg)
  moreover have "get_circuit_breakers c h now st = Inr (map (breaker_reading now) rs, length rs, None)"
    by (simp add: get_circuit_breakers_def rs(1))
  ultimately show ?thesis using rs(4) by metis
qed

text \<open>One release's record another cannot read as numbers ends the reading with an exception.\<close>

lemma foreign_record_raises:
  assumes "uniso c (iso c 0) = Some 0" "can_scan h" "can_get h ''pool:state:mcp''"
  shows "read_pool_states c h 1 1 [(''pool:state:mcp'',
     (Some (JObj [(''process'', JStr ''mcp''), (''size'', JStr ''five''), (''written_at'', JStr (iso c 0))]), 60))] = Inl ValueError"
proof -
  have "{kv. kv = (''pool:state:mcp'', (x, 60 :: rat)) \<and> 1 < snd (snd kv)} = {(''pool:state:mcp'', (x, 60))}" for x :: "json option" by auto
  moreover have "py_int ''five'' = None" by code_simp
  ultimately show ?thesis
    using assms by (simp add: read_pool_states_def scan_pool_keys_def pool_record_from_def parse_stamp_def live_value_def int_or_0_def)
qed

section \<open>Witnesses\<close>

definition lab_stats :: pool_stats where
  "lab_stats = \<lparr>ps_size = 5, ps_checked_out = 5, ps_overflow = 2, ps_max_overflow = Some 10, ps_wait_timeouts_1m = 1\<rparr>"

text \<open>A codec for every time, by the number of the rational.\<close>

definition rat_codec :: codec where
  "rat_codec = \<lparr>iso = (\<lambda>t. replicate (to_nat t) CHR ''x''), uniso = (\<lambda>s. Some (from_nat (length s))), to_float = (\<lambda>_. None)\<rparr>"

lemma rat_codec_ok: "uniso rat_codec (iso rat_codec t) = Some t"
  by (simp add: rat_codec_def)

definition lab_telemetry_reader :: principal where
  "lab_telemetry_reader = \<lparr>pr_kind = ''service_account'', pr_id = 4, pr_tenant_id = 7, pr_scopes = [''telemetry:read'']\<rparr>"

theorem outbox_status_exact_witness:
  "let (slot, d) = stamped_relay_pass rat_codec default_settings 9 True True True (\<lambda>e. if o_id e = 1 then Published else PublishError ''down'')
       (None, empty_db\<lparr>outbox_events := [(sample_event 1)\<lparr>o_tenant_id := 7\<rparr>, (sample_event 2)\<lparr>o_tenant_id := 7\<rparr>]\<rparr>);
     s = get_outbox_status rat_codec default_settings lab_telemetry_reader True 12 12 slot d
   in os_relay_last_tick_at s = Some 9 \<and> os_relay_heartbeat_known s"
proof -
  let ?d0 = "empty_db\<lparr>outbox_events := [(sample_event 1)\<lparr>o_tenant_id := 7\<rparr>, (sample_event 2)\<lparr>o_tenant_id := 7\<rparr>]\<rparr>"
  let ?pub = "\<lambda>e. if o_id e = 1 then Published else PublishError ''down''"
  obtain slot d where st: "stamped_relay_pass rat_codec default_settings 9 True True True ?pub (None, ?d0) = (slot, d)" by fastforce
  define s where "s = get_outbox_status rat_codec default_settings lab_telemetry_reader True 12 12 slot d"
  note all = outbox_status_exact [OF s_def]
  have "os_relay_last_tick_at s = Some 9"
    using all [THEN conjunct2, THEN conjunct2, THEN conjunct2, THEN conjunct2, THEN conjunct2, THEN conjunct2, THEN conjunct2,
        THEN conjunct2, THEN conjunct2, THEN conjunct1, rule_format, OF conjI [OF st]] rat_codec_ok [of 9] by simp
  moreover have "os_relay_heartbeat_age_s s = None \<longleftrightarrow> os_relay_last_tick_at s = None"
    using bspec [OF all [THEN conjunct2, THEN conjunct2, THEN conjunct2, THEN conjunct2, THEN conjunct2, THEN conjunct2, THEN conjunct2, THEN conjunct2, THEN conjunct1],
        of "(os_relay_last_tick_at s, os_relay_heartbeat_age_s s)"] by simp
  moreover note all [THEN conjunct2, THEN conjunct2, THEN conjunct2, THEN conjunct2, THEN conjunct2, THEN conjunct2, THEN conjunct2, THEN conjunct1]
  ultimately have "os_relay_last_tick_at s = Some 9" "os_relay_heartbeat_known s" by simp_all
  then show ?thesis by (simp only: st Let_def prod.case s_def [symmetric])
qed

theorem pool_reading_exact_witness:
  "\<exists>rs reason. read_pool_states rat_codec all_up 70 71
       (fold (publish_sample rat_codec) [(all_up, ''mcp'', lab_stats, 5), (all_up, ''api_worker'', lab_stats, 20)] []) = Inr (rs, reason)
     \<and> map pl_process rs = [''api_worker''] \<and> reason = None"
proof -
  let ?S = "[(all_up, ''mcp'', lab_stats, 5), (all_up, ''api_worker'', lab_stats, 20)]"
  have live: "{r. \<exists>p \<in> set pool_processes. live_sample ?S 71 p = Some r} = {\<lparr>pl_process = ''api_worker'', pl_stats = lab_stats, pl_written_at = 20\<rparr>}"
    by (auto simp: pool_processes_def live_sample_def latest_sample_def all_up_def)
  obtain rs reason where r: "read_pool_states rat_codec all_up 70 71 (fold (publish_sample rat_codec) ?S []) = Inr (rs, reason)"
    "set rs = {\<lparr>pl_process = ''api_worker'', pl_stats = lab_stats, pl_written_at = 20\<rparr>}" "distinct (map pl_process rs)" "reason = None \<longleftrightarrow> rs \<noteq> []"
    using pool_reading_exact [of rat_codec all_up 70 71 ?S, unfolded live] rat_codec_ok by (force simp: all_up_def)
  then have "rs = [\<lparr>pl_process = ''api_worker'', pl_stats = lab_stats, pl_written_at = 20\<rparr>]"
    by (cases rs rule: list.exhaust; cases "tl rs") auto
  then show ?thesis using r by auto
qed

theorem postgres_health_honest_witness:
  "\<exists>out. fst (get_postgres_health rat_codec all_up
       \<lparr>pe_dialect = Some ''postgresql'', pe_ping = Inr (1 / 1000), pe_active = Inl ''canceling statement'', pe_query_ages = Inr [],
        pe_extension = Inr False, pe_release = None\<rparr>
       (Some \<lparr>pc_size = Some 5, pc_checkedout = Some 1, pc_overflow = Some (-4), pc_max_overflow = Some 10\<rparr>) 100 50 50 50
       ([10, 70], fold (publish_sample rat_codec) [(all_up, ''mcp'', lab_stats, 5)] [])) = Inr out
     \<and> \<not> ph_ok out \<and> ph_error out \<noteq> None \<and> ph_longest_active_query_ms out = None"
proof -
  let ?e = "\<lparr>pe_dialect = Some ''postgresql'', pe_ping = Inr (1 / 1000), pe_active = Inl ''canceling statement'', pe_query_ages = Inr [],
        pe_extension = Inr False, pe_release = None\<rparr>"
  have "\<not> probe_sound ?e" by (simp add: probe_sound_def)
  moreover have "sorted [10, 70 :: rat]" by simp
  ultimately show ?thesis
    using postgres_health_honest [OF _ _ prod.collapse [symmetric], of rat_codec "[10, 70]" all_up ?e] rat_codec_ok by blast
qed

end
