(* ===== verification/Lab_Stories.thy ===== *)
theory Lab_Stories
  imports Platform_Prelude
begin

text \<open>
  The table of failure texts the laboratory may stamp on a dead letter, \<open>lab/dlq_failure_stories.py\<close>:
  the stories, the lookups, and the rule that a text must describe a failure of the kind its hint
  prescribes an action for. Texts are byte strings, a dash outside ASCII being its three bytes.
\<close>

record dlq_triage =
  dt_category :: string
  dt_summary :: string
  dt_suggested_fix :: string
  dt_is_retryable :: bool
  dt_confidence :: rat

record dlq_failure_story =
  fs_key :: string
  fs_hint :: "string option"
  fs_error_message :: string
  fs_triage :: "dlq_triage option"

abbreviation apo :: string where "apo \<equiv> [CHR 0x27]"

abbreviation em_dash :: string where "em_dash \<equiv> [CHR 0xE2, CHR 0x80, CHR 0x94]"

section \<open>The stories\<close>

definition upstream_timeout :: dlq_failure_story where
  "upstream_timeout = \<lparr>fs_key = ''upstream_timeout'', fs_hint = Some ''replay_safe'',
    fs_error_message = ''UpstreamTimeout: bulk_api_sync POST https://partner-api.internal/v2/sync timed out after 30s on '' @ ''attempt 3/3 '' @
      em_dash @ '' the request was never acknowledged, so no downstream write was recorded'',
    fs_triage = Some \<lparr>dt_category = ''upstream_timeout'',
      dt_summary = ''partner-api.internal did not answer inside the 30s deadline on any of the three attempts. The '' @
      ''payload was accepted by validation and nothing was committed downstream.'',
      dt_suggested_fix = ''Re-run the job as it stands: the call is idempotent, no partial write survived the timeout, and a '' @
      ''fresh attempt is the entire remedy. Neither the payload nor the producer needs changing.'',
      dt_is_retryable = True, dt_confidence = 88 / 100\<rparr>\<rparr>"

definition partner_rate_limited :: dlq_failure_story where
  "partner_rate_limited = \<lparr>fs_key = ''partner_rate_limited'', fs_hint = Some ''wait_and_replay'',
    fs_error_message = ''RateLimited: partner-api.internal answered 429 Too Many Requests on attempt 3/3 (retry-after: '' @
      ''120s); the per-tenant quota window has not rolled over yet'',
    fs_triage = Some \<lparr>dt_category = ''rate_limited'',
      dt_summary = ''All three attempts landed inside one quota window. The partner is shedding load, not rejecting the '' @ ''payload.'',
      dt_suggested_fix = ''Let the 120s retry-after window pass before the next attempt. An immediate re-run spends another '' @
      ''attempt against the same closed window and comes back 429.'',
      dt_is_retryable = True, dt_confidence = 86 / 100\<rparr>\<rparr>"

definition smtp_unreachable :: dlq_failure_story where
  "smtp_unreachable = \<lparr>fs_key = ''smtp_unreachable'', fs_hint = Some ''wait_and_replay'',
    fs_error_message = ''send_email downstream call failed: ConnectionRefusedError('' @ apo @ ''smtp.mailer.internal:587'' @ apo @ '')'',
    fs_triage = Some \<lparr>dt_category = ''downstream_unavailable'',
      dt_summary = ''SMTP relay unreachable '' @ em_dash @ '' connection refused at TCP layer.'',
      dt_suggested_fix = ''Check smtp.mailer.internal ECS task health; recent billing hotfix (v0.4.2) may have changed VPC '' @ ''egress rules '' @
      em_dash @ '' cross-reference `get_deploy_history`. Re-run once the dependency answers.'',
      dt_is_retryable = True, dt_confidence = 82 / 100\<rparr>\<rparr>"

definition schema_missing_field :: dlq_failure_story where
  "schema_missing_field = \<lparr>fs_key = ''schema_missing_field'', fs_hint = Some ''human_required'',
    fs_error_message = ''SchemaValidationError: payload missing required field '' @ apo @ ''user_id'' @ apo @ '' (received keys: ['' @ apo @
      ''tenant_id'' @ apo @ '', '' @ apo @ ''action'' @ apo @ '', '' @ apo @ ''ts'' @ apo @ ''])'',
    fs_triage = Some \<lparr>dt_category = ''schema_violation'',
      dt_summary = ''The producer omitted user_id. All three attempts failed on the same missing field, and the stored '' @
      ''payload still lacks it.'',
      dt_suggested_fix = ''Not recoverable as stored '' @ em_dash @
      '' a fresh attempt fails on the same field. The producer has to be corrected to include user_id and '' @
      ''re-emit the work; a person owns that change.'',
      dt_is_retryable = False, dt_confidence = 91 / 100\<rparr>\<rparr>"

definition csv_bad_row :: dlq_failure_story where
  "csv_bad_row = \<lparr>fs_key = ''csv_bad_row'', fs_hint = Some ''human_required'',
    fs_error_message = ''ValueError: invalid literal for int() with base 10: '' @ apo @ ''not-a-number'' @ apo @ '' at row 15,382'',
    fs_triage = Some \<lparr>dt_category = ''bad_input'',
      dt_summary = ''Non-numeric value in a supposedly-integer CSV column.'',
      dt_suggested_fix = ''Not retryable '' @ em_dash @ '' data quality issue. Notify the uploader; add a validation step in the CSV importer that fails the '' @ ''whole upload with a clear error rather than half-processing.'',
      dt_is_retryable = False, dt_confidence = 94 / 100\<rparr>\<rparr>"

definition unclassified_worker_exit :: dlq_failure_story where
  "unclassified_worker_exit = \<lparr>fs_key = ''unclassified_worker_exit'', fs_hint = None,
    fs_error_message = ''WorkerExit: the processor handling this job stopped on attempt 3/3 without recording an outcome; no '' @
      ''exception was captured and the failure has not been categorised'',
    fs_triage = None\<rparr>"

definition unclassified_csv_bad_row :: dlq_failure_story where
  "unclassified_csv_bad_row = \<lparr>fs_key = ''unclassified_csv_bad_row'', fs_hint = None,
    fs_error_message = ''ValueError: invalid literal for int() with base 10: '' @ apo @ ''N/A'' @ apo @ '' in column '' @ apo @ ''quantity'' @
      apo @ '' at row 8,214 of 12,000 '' @ em_dash @ '' csv_upload aborted on attempt 3/3'',
    fs_triage = None\<rparr>"

definition unclassified_schema_missing_field :: dlq_failure_story where
  "unclassified_schema_missing_field = \<lparr>fs_key = ''unclassified_schema_missing_field'', fs_hint = None,
    fs_error_message = ''SchemaValidationError: payload missing required field '' @ apo @ ''job_id'' @ apo @ '' (received keys: []) '' @ em_dash @
      '' rejected on attempt 3/3 and the failure has not been categorised'',
    fs_triage = None\<rparr>"

definition mislabeled_bad_data :: dlq_failure_story where
  "mislabeled_bad_data = \<lparr>fs_key = ''mislabeled_bad_data'', fs_hint = Some ''replay_safe'',
    fs_error_message = fs_error_message csv_bad_row,
    fs_triage = None\<rparr>"

section \<open>Lookups\<close>

definition dlq_failure_stories :: "(string option \<times> dlq_failure_story list) list" where
  "dlq_failure_stories =
     [(Some ''replay_safe'', [upstream_timeout]),
      (Some ''wait_and_replay'', [partner_rate_limited, smtp_unreachable]),
      (Some ''human_required'', [schema_missing_field, csv_bad_row]),
      (None, [unclassified_worker_exit, unclassified_csv_bad_row, unclassified_schema_missing_field])]"

definition all_stories :: "dlq_failure_story list" where
  "all_stories = concat (map snd dlq_failure_stories)"

definition stories_by_key :: "(string \<times> dlq_failure_story) list" where
  "stories_by_key = map (\<lambda>s. (fs_key s, s)) all_stories"

text \<open>\<open>None\<close> is the \<open>UnknownDlqHintError\<close>.\<close>

definition stories_for :: "string option \<Rightarrow> dlq_failure_story list option" where
  "stories_for hint = map_of dlq_failure_stories hint"

definition story_for :: "string option \<Rightarrow> dlq_failure_story option" where
  "story_for hint = map_option hd (stories_for hint)"

definition default_error_for :: "string option \<Rightarrow> string option" where
  "default_error_for hint = map_option fs_error_message (story_for hint)"

definition story :: "string \<Rightarrow> dlq_failure_story option" where
  "story key = map_of stories_by_key key"

definition sanctioned_incoherent_story :: dlq_failure_story where
  "sanctioned_incoherent_story = mislabeled_bad_data"

section \<open>The rule\<close>

definition permanent_markers :: "string list" where
  "permanent_markers = [''schemavalidationerror'', ''valueerror'', ''invalid literal'', ''missing required field'', ''malformed'', ''corrupt'']"

definition backoff_markers :: "string list" where
  "backoff_markers = [''429'', ''retry-after'', ''ratelimited'', ''rate limited'', ''connectionrefusederror'', ''connection refused'',
     ''serviceunavailable'', ''503'']"

definition transient_markers :: "string list" where
  "transient_markers = [''timed out'', ''timeouterror'', ''upstreamtimeout'', ''connectionreseterror'', ''reset by peer'']"

definition ascii_lower :: "char \<Rightarrow> char" where
  "ascii_lower c = (case map_of (zip ''ABCDEFGHIJKLMNOPQRSTUVWXYZ'' ''abcdefghijklmnopqrstuvwxyz'') c of None \<Rightarrow> c | Some l \<Rightarrow> l)"

fun starts :: "string \<Rightarrow> string \<Rightarrow> bool" where
  "starts [] t = True"
| "starts (c # m) [] = False"
| "starts (c # m) (x # t) = (if c = x then starts m t else False)"

fun occurs :: "string \<Rightarrow> string \<Rightarrow> bool" where
  "occurs m [] = (m = [])"
| "occurs m (x # t) = (if starts m (x # t) then True else occurs m t)"

definition present :: "string list \<Rightarrow> string \<Rightarrow> string list" where
  "present markers text = (let lowered = map ascii_lower text in filter (\<lambda>m. occurs m lowered) markers)"

datatype incoherence =
    ReadsPermanent "string list" | ReadsBackoff "string list" | NamesNoTransient | NamesNoBackoff | NamesNoPermanent
  | InvitesReplay "string list" | UnknownHint string

definition coherence_violations :: "string option \<Rightarrow> string \<Rightarrow> incoherence list" where
  "coherence_violations hint error_message =
     (let permanent = present permanent_markers error_message;
          backoff = present backoff_markers error_message;
          transient = present transient_markers error_message
      in if hint = Some ''replay_safe''
         then (if permanent \<noteq> [] then [ReadsPermanent permanent] else []) @ (if backoff \<noteq> [] then [ReadsBackoff backoff] else [])
              @ (if transient = [] then [NamesNoTransient] else [])
         else if hint = Some ''wait_and_replay''
         then (if permanent \<noteq> [] then [ReadsPermanent permanent] else []) @ (if backoff = [] then [NamesNoBackoff] else [])
         else if hint = Some ''human_required''
         then (if permanent = [] then [NamesNoPermanent] else [])
              @ (if transient \<noteq> [] \<or> backoff \<noteq> [] then [InvitesReplay (transient @ backoff)] else [])
         else case hint of
           None \<Rightarrow> if transient @ backoff \<noteq> [] then [InvitesReplay (transient @ backoff)] else []
         | Some h \<Rightarrow> [UnknownHint h])"

datatype triage_incoherence = CategoryOfUncategorised | NotRetryable string | RetryableForHuman

definition triage_violations :: "string option \<Rightarrow> dlq_triage option \<Rightarrow> triage_incoherence list" where
  "triage_violations hint triage =
     (case hint of
        None \<Rightarrow> if triage \<noteq> None then [CategoryOfUncategorised] else []
      | Some h \<Rightarrow>
          (case triage of
             None \<Rightarrow> []
           | Some t \<Rightarrow>
               (if (h = ''replay_safe'' \<or> h = ''wait_and_replay'') \<and> \<not> dt_is_retryable t then [NotRetryable h] else [])
               @ (if h = ''human_required'' \<and> dt_is_retryable t then [RetryableForHuman] else [])))"

section \<open>The table keeps the rule\<close>

abbreviation coherent :: "dlq_failure_story \<Rightarrow> bool" where
  "coherent s \<equiv> coherence_violations (fs_hint s) (fs_error_message s) = [] \<and> triage_violations (fs_hint s) (fs_triage s) = []"

lemma coherent_upstream_timeout: "coherent upstream_timeout"
  by code_simp

lemma coherent_partner_rate_limited: "coherent partner_rate_limited"
  by code_simp

lemma coherent_smtp_unreachable: "coherent smtp_unreachable"
  by code_simp

lemma coherent_schema_missing_field: "coherent schema_missing_field"
  by code_simp

lemma coherent_csv_bad_row: "coherent csv_bad_row"
  by code_simp

lemma coherent_unclassified_worker_exit: "coherent unclassified_worker_exit"
  by code_simp

lemma coherent_unclassified_csv_bad_row: "coherent unclassified_csv_bad_row"
  by code_simp

lemma coherent_unclassified_schema_missing_field: "coherent unclassified_schema_missing_field"
  by code_simp

lemmas each_story_coherent =
  coherent_upstream_timeout coherent_partner_rate_limited coherent_smtp_unreachable coherent_schema_missing_field
  coherent_csv_bad_row coherent_unclassified_worker_exit coherent_unclassified_csv_bad_row coherent_unclassified_schema_missing_field

text \<open>
  Every story of the table keeps the rule, text and triage, stands under its own hint, and has a key of
  its own; every hint has a default. The one declared exception breaks the rule, by its text, and is not
  in the table.
\<close>

theorem stories_coherent:
  "list_all coherent all_stories
   \<and> list_all (\<lambda>(hint, ss). ss \<noteq> [] \<and> list_all (\<lambda>s. fs_hint s = hint) ss) dlq_failure_stories
   \<and> distinct (map fs_key all_stories)
   \<and> list_all (\<lambda>hint. default_error_for hint \<noteq> None) [Some ''replay_safe'', Some ''wait_and_replay'', Some ''human_required'', None]
   \<and> coherence_violations (fs_hint sanctioned_incoherent_story) (fs_error_message sanctioned_incoherent_story) \<noteq> []
   \<and> fs_key sanctioned_incoherent_story \<notin> set (map fs_key all_stories)"
proof (intro conjI)
  show "list_all coherent all_stories"
    using each_story_coherent by (simp add: all_stories_def dlq_failure_stories_def)
  show "list_all (\<lambda>(hint, ss). ss \<noteq> [] \<and> list_all (\<lambda>s. fs_hint s = hint) ss) dlq_failure_stories" by code_simp
  show "distinct (map fs_key all_stories)" by code_simp
  show "list_all (\<lambda>hint. default_error_for hint \<noteq> None) [Some ''replay_safe'', Some ''wait_and_replay'', Some ''human_required'', None]"
    by (simp add: default_error_for_def story_for_def stories_for_def dlq_failure_stories_def)
  show "coherence_violations (fs_hint sanctioned_incoherent_story) (fs_error_message sanctioned_incoherent_story) \<noteq> []" by code_simp
  show "fs_key sanctioned_incoherent_story \<notin> set (map fs_key all_stories)" by code_simp
qed

text \<open>
  The rule tells the three actions apart: no text fits two of the hints that prescribe one, and a text that
  fits no hint at all (none given) fits neither of the two that prescribe a replay.
\<close>

theorem hints_exclusive:
  assumes "coherence_violations h t = []" "coherence_violations h' t = []" "h \<noteq> h'"
  shows "{h, h'} = {None, Some ''human_required''}"
  using assms by (auto simp: coherence_violations_def Let_def split: if_splits option.splits)

theorem hints_exclusive_witness:
  "coherence_violations None (fs_error_message csv_bad_row) = [] \<and> coherence_violations (Some ''replay_safe'') (fs_error_message csv_bad_row) \<noteq> []"
proof -
  have n: "coherence_violations None (fs_error_message csv_bad_row) = []" by code_simp
  moreover have "coherence_violations (Some ''replay_safe'') (fs_error_message csv_bad_row) \<noteq> []"
  proof
    assume "coherence_violations (Some ''replay_safe'') (fs_error_message csv_bad_row) = []"
    from hints_exclusive [OF n this] have "Some ''replay_safe'' \<in> {None, Some ''human_required''}" by blast
    then show False by simp
  qed
  ultimately show ?thesis ..
qed

end
