(* ===== verification/Lab_Fixtures.thy ===== *)
theory Lab_Fixtures
  imports Sweeps Identity Lab_Stories "HOL-Library.Countable"
begin

text \<open>
  The laboratory's declared fixtures and their disposal. The hooks that write them
  (\<open>mcp/tools/chaos/seed_dlq_messages.py\<close>, \<open>create_bad_data_job.py\<close>,
  \<open>create_mislabeled_dlq_job.py\<close>, \<open>poison_message.py\<close>, \<open>create_stuck_dag.py\<close>), and the steps of
  \<open>scripts/reset_eval_state.py\<close> that remove them. A read of \<open>jobs\<close> sees the rows of the caller's tenant
  (row-level security); an insert meets the primary key of all. \<open>uuid.uuid5\<close> is a parameter.
\<close>

section \<open>Shared by the hooks\<close>

record lab_world =
  lw_db :: db
  lw_users :: "user list"
  lw_sent :: "(string \<times> json \<times> string option) list"

datatype drift = OwnedByAnotherTenant | StatusIs job_status | HintIs "string option" | MissingRow | ExtraDescendant job_status

datatype lab_error =
    SeedDlqHintError string
  | FixtureNameInUse string "(uuid \<times> drift) list"
  | KafkaUnavailable
  | KafkaSendFailed
  | UnknownStory
  | PrimaryKeyViolation

type_synonym uuid5 = "uuid \<Rightarrow> string \<Rightarrow> uuid"

text \<open>What a hook runs with: \<open>uuid.uuid5\<close>, \<open>settings.max_job_attempts\<close>, and the database's clock.\<close>

record lab_env =
  le_uuid5 :: uuid5
  le_max_attempts :: int
  le_now :: time

definition seeded_fixture_marker :: string where
  "seeded_fixture_marker = ''seeded_fixture''"

definition remediation_hints :: "string list" where
  "remediation_hints = [''replay_safe'', ''wait_and_replay'', ''human_required'']"

definition validated_hint :: "string \<Rightarrow> lab_error + string" where
  "validated_hint raw = (if raw \<in> set remediation_hints then Inr raw else Inl (SeedDlqHintError raw))"

text \<open>Columns a hook does not name take their defaults.\<close>

definition fixture_row :: "lab_env \<Rightarrow> uuid \<Rightarrow> uuid \<Rightarrow> uuid \<Rightarrow> string \<Rightarrow> job_status \<Rightarrow> dict \<Rightarrow> job" where
  "fixture_row e i tenant user ty st payload =
     \<lparr>j_id = i, j_tenant_id = tenant, j_user_id = user, j_type = ty, j_status = st, j_idempotency_key = None,
      j_payload = Some payload, j_result = None, j_error_message = None, j_retry_count = 0, j_max_attempts = le_max_attempts e,
      j_remediation_hint = None, j_dead_lettered_by = None, j_fenced_at = None, j_fenced_by = None, j_priority = 0,
      j_trace_id = None, j_started_at = None, j_completed_at = None, j_requeued_at = None, j_heartbeat_at = None,
      j_saga_id = None, j_saga_step_index = None, j_created_at = le_now e, j_updated_at = le_now e\<rparr>"

definition dead_letter_row :: "lab_env \<Rightarrow> uuid \<Rightarrow> uuid \<Rightarrow> uuid \<Rightarrow> string \<Rightarrow> dict \<Rightarrow> string \<Rightarrow> string option \<Rightarrow> job" where
  "dead_letter_row e i tenant user ty payload err hint =
     (fixture_row e i tenant user ty DEAD_LETTER payload)\<lparr>j_retry_count := 3, j_error_message := Some err, j_remediation_hint := hint\<rparr>"

definition insert_row :: "job \<Rightarrow> lab_world \<Rightarrow> lab_error + lab_world" where
  "insert_row j w =
     (if j_id j \<in> j_id ` set (jobs (lw_db w)) then Inl PrimaryKeyViolation
      else Inr (w\<lparr>lw_db := (lw_db w)\<lparr>jobs := jobs (lw_db w) @ [j]\<rparr>\<rparr>))"

fun insert_rows :: "job list \<Rightarrow> lab_world \<Rightarrow> lab_error + lab_world" where
  "insert_rows [] w = Inr w"
| "insert_rows (j # js) w = (case insert_row j w of Inl x \<Rightarrow> Inl x | Inr w' \<Rightarrow> insert_rows js w')"

definition chaos_owner_email :: "uuid \<Rightarrow> string" where
  "chaos_owner_email tenant = ''chaos-owner+'' @ uuid_str tenant @ ''@chaos.local''"

definition ensure_chaos_owner :: "lab_env \<Rightarrow> uuid \<Rightarrow> lab_world \<Rightarrow> user \<times> lab_world" where
  "ensure_chaos_owner e tenant w =
     (case get_by us_email (chaos_owner_email tenant) (lw_users w) of
        Some u \<Rightarrow> (u, w)
      | None \<Rightarrow>
          (let u = \<lparr>us_id = next_uuid (lw_db w), us_tenant_id = tenant, us_email = chaos_owner_email tenant,
                 us_hashed_password = ''!chaos-owner-no-login'', us_role = USER, us_is_active = False,
                 us_is_platform_admin = False, us_created_at = le_now e\<rparr>
           in (u, w\<lparr>lw_users := lw_users w @ [u], lw_db := (lw_db w)\<lparr>next_uuid := Suc (next_uuid (lw_db w))\<rparr>\<rparr>)))"

definition fixture_owner :: "lab_env \<Rightarrow> uuid \<Rightarrow> lab_world \<Rightarrow> user \<times> lab_world" where
  "fixture_owner e tenant w =
     (case find (\<lambda>u. us_tenant_id u = tenant) (lw_users w) of Some u \<Rightarrow> (u, w) | None \<Rightarrow> ensure_chaos_owner e tenant w)"

definition visible_job :: "uuid \<Rightarrow> uuid \<Rightarrow> db \<Rightarrow> job option" where
  "visible_job tenant i d = find (\<lambda>j. j_id j = i \<and> j_tenant_id j = tenant) (jobs d)"

section \<open>\<open>seed_dlq_messages\<close>\<close>

fun add_seeded :: "lab_env \<Rightarrow> uuid \<Rightarrow> uuid \<Rightarrow> string \<Rightarrow> string \<Rightarrow> string \<Rightarrow> nat \<Rightarrow> lab_world \<Rightarrow> lab_error + uuid list \<times> lab_world" where
  "add_seeded e tenant user ty err hint 0 w = Inr ([], w)"
| "add_seeded e tenant user ty err hint (Suc n) w =
     (let i = next_uuid (lw_db w)
      in case insert_row (dead_letter_row e i tenant user ty [(seeded_fixture_marker, JBool True)] err (Some hint))
                (w\<lparr>lw_db := (lw_db w)\<lparr>next_uuid := Suc i\<rparr>\<rparr>) of
        Inl x \<Rightarrow> Inl x
      | Inr w1 \<Rightarrow> (case add_seeded e tenant user ty err hint n w1 of Inl x \<Rightarrow> Inl x | Inr (ids, w2) \<Rightarrow> Inr (i # ids, w2)))"

text \<open>\<open>inp.error_message or ...\<close>: an empty text counts as none.\<close>

definition given_text :: "string option \<Rightarrow> string option" where
  "given_text err = (case err of None \<Rightarrow> None | Some s \<Rightarrow> if s = [] then None else Some s)"

definition seed_dlq_messages ::
    "lab_env \<Rightarrow> principal \<Rightarrow> string \<Rightarrow> nat \<Rightarrow> string \<Rightarrow> string option \<Rightarrow> lab_world \<Rightarrow> lab_error + uuid list \<times> lab_world" where
  "seed_dlq_messages e p remediation_hint n ty error_message w =
     (case validated_hint remediation_hint of
        Inl x \<Rightarrow> Inl x
      | Inr hint \<Rightarrow>
          (let (user, w1) = fixture_owner e (pr_tenant_id p) w
           in case (case given_text error_message of Some t \<Rightarrow> Some t | None \<Rightarrow> default_error_for (Some hint)) of
                None \<Rightarrow> Inl UnknownStory
              | Some err \<Rightarrow> add_seeded e (pr_tenant_id p) (us_id user) ty err hint n w1))"

section \<open>\<open>create_bad_data_job\<close>\<close>

definition bad_data_namespace :: uuid where
  "bad_data_namespace = 0xddddddddbad040008000000000000000"

definition fixture_id :: "uuid5 \<Rightarrow> uuid \<Rightarrow> uuid \<Rightarrow> string \<Rightarrow> uuid" where
  "fixture_id u5 namespace tenant name = u5 namespace (uuid_str tenant @ '':'' @ name)"

definition declared_hint :: "string option \<Rightarrow> lab_error + string option" where
  "declared_hint raw =
     (case raw of
        None \<Rightarrow> Inr None
      | Some r \<Rightarrow> if r = ''unclassified'' then Inr None else (case validated_hint r of Inl x \<Rightarrow> Inl x | Inr h \<Rightarrow> Inr (Some h)))"

definition row_drift :: "job \<Rightarrow> string option \<Rightarrow> uuid \<Rightarrow> drift list" where
  "row_drift existing hint tenant =
     (if j_tenant_id existing \<noteq> tenant then [OwnedByAnotherTenant] else [])
     @ (if j_status existing \<noteq> DEAD_LETTER then [StatusIs (j_status existing)] else [])
     @ (if j_remediation_hint existing \<noteq> hint then [HintIs (j_remediation_hint existing)] else [])"

definition assert_matches :: "string \<Rightarrow> job \<Rightarrow> string option \<Rightarrow> uuid \<Rightarrow> lab_error option" where
  "assert_matches name existing hint tenant =
     (case row_drift existing hint tenant of [] \<Rightarrow> None | ds \<Rightarrow> Some (FixtureNameInUse name (map (Pair (j_id existing)) ds)))"

definition bad_data_story_key :: "string option \<Rightarrow> string option" where
  "bad_data_story_key hint = map_of [(Some ''human_required'', ''csv_bad_row''), (None, ''unclassified_csv_bad_row'')] hint"

definition story_text :: "string option \<Rightarrow> string option" where
  "story_text key = (case key of None \<Rightarrow> None | Some k \<Rightarrow> map_option fs_error_message (story k))"

text \<open>A hook answers with the row's id and whether it created it.\<close>

definition create_bad_data_job ::
    "lab_env \<Rightarrow> principal \<Rightarrow> string \<Rightarrow> string \<Rightarrow> string option \<Rightarrow> string option \<Rightarrow> lab_world \<Rightarrow> lab_error + (uuid \<times> bool) \<times> lab_world" where
  "create_bad_data_job e p name ty remediation_hint error_message w =
     (let tenant = pr_tenant_id p
      in case declared_hint remediation_hint of
        Inl x \<Rightarrow> Inl x
      | Inr hint \<Rightarrow>
          (let i = fixture_id (le_uuid5 e) bad_data_namespace tenant name
           in case visible_job tenant i (lw_db w) of
                Some existing \<Rightarrow>
                  (case assert_matches name existing hint tenant of Some x \<Rightarrow> Inl x | None \<Rightarrow> Inr ((i, False), w))
              | None \<Rightarrow>
                  (let (user, w1) = fixture_owner e tenant w
                   in case (case given_text error_message of Some t \<Rightarrow> Some t | None \<Rightarrow> story_text (bad_data_story_key hint)) of
                        None \<Rightarrow> Inl UnknownStory
                      | Some err \<Rightarrow>
                          (case insert_row (dead_letter_row e i tenant (us_id user) ty
                              [(seeded_fixture_marker, JBool True), (''chaos_fixture'', JStr ''bad_data_job''), (''fixture_name'', JStr name)] err hint) w1 of
                             Inl x \<Rightarrow> Inl x | Inr w2 \<Rightarrow> Inr ((i, True), w2)))))"

section \<open>\<open>create_mislabeled_dlq_job\<close>\<close>

definition mislabeled_namespace :: uuid where
  "mislabeled_namespace = 0xffffffff11ed40008000000000000000"

definition create_mislabeled_dlq_job ::
    "lab_env \<Rightarrow> principal \<Rightarrow> string \<Rightarrow> string \<Rightarrow> lab_world \<Rightarrow> lab_error + (uuid \<times> bool) \<times> lab_world" where
  "create_mislabeled_dlq_job e p name ty w =
     (let tenant = pr_tenant_id p; i = fixture_id (le_uuid5 e) mislabeled_namespace tenant name; lie = sanctioned_incoherent_story
      in case visible_job tenant i (lw_db w) of
        Some existing \<Rightarrow>
          (case assert_matches name existing (fs_hint lie) tenant of Some x \<Rightarrow> Inl x | None \<Rightarrow> Inr ((i, False), w))
      | None \<Rightarrow>
          (let (user, w1) = fixture_owner e tenant w
           in case insert_row (dead_letter_row e i tenant (us_id user) ty
                  [(seeded_fixture_marker, JBool True), (''chaos_fixture'', JStr ''mislabeled_dlq_job''), (''fixture_name'', JStr name)]
                  (fs_error_message lie) (fs_hint lie)) w1 of
                Inl x \<Rightarrow> Inl x | Inr w2 \<Rightarrow> Inr ((i, True), w2)))"

section \<open>\<open>poison_message\<close>\<close>

definition poison_namespace :: uuid where
  "poison_namespace = 0xeeeeeeeedead40008000000000000000"

definition poison_story_key :: "string option \<Rightarrow> string option" where
  "poison_story_key hint = map_of [(Some ''human_required'', ''schema_missing_field''), (None, ''unclassified_schema_missing_field'')] hint"

definition dlq_error_for_topic :: "string \<Rightarrow> string option \<Rightarrow> string option" where
  "dlq_error_for_topic topic hint =
     map_option (\<lambda>base. base @ '' (topic '' @ apo @ topic @ apo @ '': rejected by schema validation; producer must correct the payload)'')
       (story_text (poison_story_key hint))"

datatype broker_answer = BrokerUp | BrokerDown | SendRefused

definition poison_message ::
    "lab_env \<Rightarrow> principal \<Rightarrow> broker_answer \<Rightarrow> string \<Rightarrow> json \<Rightarrow> string option \<Rightarrow> string \<Rightarrow> string option \<Rightarrow> lab_world
      \<Rightarrow> (lab_error + uuid \<times> bool) \<times> lab_world" where
  "poison_message e p br topic body key name remediation_hint w =
     (let tenant = pr_tenant_id p
      in case declared_hint remediation_hint of
        Inl x \<Rightarrow> (Inl x, w)
      | Inr hint \<Rightarrow>
          (let i = fixture_id (le_uuid5 e) poison_namespace tenant name; existing = visible_job tenant i (lw_db w)
           in case (case existing of None \<Rightarrow> None | Some j \<Rightarrow> assert_matches name j hint tenant) of
                Some x \<Rightarrow> (Inl x, w)
              | None \<Rightarrow>
                  (case br of
                     BrokerDown \<Rightarrow> (Inl KafkaUnavailable, w)
                   | SendRefused \<Rightarrow> (Inl KafkaSendFailed, w)
                   | BrokerUp \<Rightarrow>
                       (let w0 = w\<lparr>lw_sent := lw_sent w @ [(topic, body, if key = Some [] then None else key)]\<rparr>
                        in if existing \<noteq> None then (Inr (i, False), w0)
                           else let (user, w1) = fixture_owner e tenant w0
                                in case dlq_error_for_topic topic hint of
                                     None \<Rightarrow> (Inl UnknownStory, w0)
                                   | Some err \<Rightarrow>
                                       (case insert_row (dead_letter_row e i tenant (us_id user) ''bulk_api_sync''
                                           [(seeded_fixture_marker, JBool True), (''chaos_fixture'', JStr ''poison_message''),
                                            (''fixture_name'', JStr name), (''topic'', JStr topic)] err hint) w1 of
                                          Inl x \<Rightarrow> (Inl x, w0) | Inr w2 \<Rightarrow> (Inr (i, True), w2))))))"

section \<open>\<open>create_stuck_dag\<close>\<close>

definition chain_namespace :: uuid where
  "chain_namespace = 0xcccccccc57ac40008000000000000000"

definition max_waiting_steps :: nat where
  "max_waiting_steps = 10"

definition chain_id :: "uuid5 \<Rightarrow> uuid \<Rightarrow> string \<Rightarrow> string \<Rightarrow> uuid" where
  "chain_id u5 tenant chain_name role = u5 chain_namespace (uuid_str tenant @ '':'' @ chain_name @ '':'' @ role)"

record stuck_input =
  sk_chain_name :: string
  sk_waiting_steps :: nat
  sk_job_type :: string
  sk_remediation_hint :: string
  sk_error_message :: "string option"
  sk_root_completed :: bool
  sk_child_age_seconds :: nat
  sk_failed_step :: "nat option"

text \<open>The bounds of the fields and the validator of the failed step.\<close>

definition stuck_input_ok :: "stuck_input \<Rightarrow> bool" where
  "stuck_input_ok x \<longleftrightarrow> 1 \<le> sk_waiting_steps x \<and> sk_waiting_steps x \<le> max_waiting_steps \<and> sk_child_age_seconds x \<le> 86400
     \<and> (case sk_failed_step x of None \<Rightarrow> True | Some k \<Rightarrow> 1 \<le> k \<and> sk_root_completed x \<and> k \<le> sk_waiting_steps x)"

definition step_status :: "nat \<Rightarrow> nat option \<Rightarrow> job_status" where
  "step_status position failed_step =
     (case failed_step of
        None \<Rightarrow> WAITING
      | Some k \<Rightarrow> if k < position then WAITING else if position = k then DEAD_LETTER else COMPLETED)"

definition upstream_id :: "lab_env \<Rightarrow> uuid \<Rightarrow> stuck_input \<Rightarrow> uuid" where
  "upstream_id e tenant x = chain_id (le_uuid5 e) tenant (sk_chain_name x) ''upstream''"

definition root_id :: "lab_env \<Rightarrow> uuid \<Rightarrow> stuck_input \<Rightarrow> uuid" where
  "root_id e tenant x = chain_id (le_uuid5 e) tenant (sk_chain_name x) ''root''"

definition all_step_ids :: "lab_env \<Rightarrow> uuid \<Rightarrow> stuck_input \<Rightarrow> uuid list" where
  "all_step_ids e tenant x = map (\<lambda>k. chain_id (le_uuid5 e) tenant (sk_chain_name x) (''step-'' @ show_nat k)) [1..<Suc max_waiting_steps]"

definition step_ids :: "lab_env \<Rightarrow> uuid \<Rightarrow> stuck_input \<Rightarrow> uuid list" where
  "step_ids e tenant x = take (sk_waiting_steps x) (all_step_ids e tenant x)"

text \<open>A dictionary in insertion order.\<close>

fun put_status :: "uuid \<Rightarrow> job_status \<Rightarrow> (uuid \<times> job_status) list \<Rightarrow> (uuid \<times> job_status) list" where
  "put_status i s [] = [(i, s)]"
| "put_status i s ((i', s') # kvs) = (if i' = i then (i, s) # kvs else (i', s') # put_status i s kvs)"

definition expected_chain :: "lab_env \<Rightarrow> uuid \<Rightarrow> stuck_input \<Rightarrow> (uuid \<times> job_status) list" where
  "expected_chain e tenant x =
     fold (\<lambda>(i, s). put_status i s)
       ((upstream_id e tenant x, COMPLETED) # (root_id e tenant x, if sk_root_completed x then COMPLETED else DEAD_LETTER)
        # zip (step_ids e tenant x) (map (\<lambda>k. step_status k (sk_failed_step x)) [1..<Suc (sk_waiting_steps x)])) []"

definition dead_letter_id :: "lab_env \<Rightarrow> uuid \<Rightarrow> stuck_input \<Rightarrow> uuid option" where
  "dead_letter_id e tenant x =
     (if \<not> sk_root_completed x then Some (root_id e tenant x)
      else map_option (\<lambda>k. step_ids e tenant x ! (k - 1)) (sk_failed_step x))"

definition chain_drift :: "(uuid \<times> job_status) list \<Rightarrow> job list \<Rightarrow> uuid \<Rightarrow> (uuid \<times> drift) list" where
  "chain_drift expected existing tenant =
     concat (map (\<lambda>(i, s). case find (\<lambda>j. j_id j = i) existing of
         None \<Rightarrow> [(i, MissingRow)]
       | Some j \<Rightarrow> if j_tenant_id j \<noteq> tenant then [(i, OwnedByAnotherTenant)]
                   else if j_status j \<noteq> s then [(i, StatusIs (j_status j))] else []) expected)
     @ map (\<lambda>j. (j_id j, ExtraDescendant (j_status j))) (filter (\<lambda>j. j_id j \<notin> fst ` set expected) existing)"

definition chain_row :: "lab_env \<Rightarrow> uuid \<Rightarrow> uuid \<Rightarrow> stuck_input \<Rightarrow> string \<Rightarrow> string \<Rightarrow> uuid \<times> job_status \<Rightarrow> job" where
  "chain_row e tenant user x hint err = (\<lambda>(i, s).
     let dead = (dead_letter_id e tenant x = Some i);
         stamp = le_now e - of_nat (sk_child_age_seconds x)
     in (fixture_row e i tenant user (sk_job_type x) s [(seeded_fixture_marker, JBool True), (''chain'', JStr (sk_chain_name x))])
          \<lparr>j_retry_count := (if dead then 3 else 0), j_error_message := (if dead then Some err else None),
           j_remediation_hint := (if dead then Some hint else None),
           j_trace_id := Some (uuid_str (chain_id (le_uuid5 e) tenant (sk_chain_name x) (''trace:'' @ uuid_str i))),
           j_created_at := stamp, j_updated_at := stamp\<rparr>)"

fun link_chain :: "uuid \<Rightarrow> uuid list \<Rightarrow> db \<Rightarrow> app_error + db" where
  "link_chain parent [] d = Inr d"
| "link_chain parent (c # cs) d = (case dep_add c [parent] d of Inl x \<Rightarrow> Inl x | Inr d' \<Rightarrow> link_chain c cs d')"

definition create_stuck_dag :: "lab_env \<Rightarrow> principal \<Rightarrow> stuck_input \<Rightarrow> lab_world \<Rightarrow> lab_error + bool \<times> lab_world" where
  "create_stuck_dag e p x w =
     (let tenant = pr_tenant_id p
      in case validated_hint (sk_remediation_hint x) of
        Inl z \<Rightarrow> Inl z
      | Inr hint \<Rightarrow>
          (let ids = upstream_id e tenant x # root_id e tenant x # all_step_ids e tenant x;
               existing = filter (\<lambda>j. j_id j \<in> set ids \<and> j_tenant_id j = tenant) (jobs (lw_db w));
               expected = expected_chain e tenant x
           in if existing \<noteq> []
              then (case chain_drift expected existing tenant of [] \<Rightarrow> Inr (False, w) | ds \<Rightarrow> Inl (FixtureNameInUse (sk_chain_name x) ds))
              else let (user, w1) = fixture_owner e tenant w
                   in case (case given_text (sk_error_message x) of Some t \<Rightarrow> Some t | None \<Rightarrow> default_error_for (Some hint)) of
                        None \<Rightarrow> Inl UnknownStory
                      | Some err \<Rightarrow>
                          (case insert_rows (map (chain_row e tenant (us_id user) x hint err) expected) w1 of
                             Inl z \<Rightarrow> Inl z
                           | Inr w2 \<Rightarrow>
                               (case link_chain (upstream_id e tenant x) (root_id e tenant x # step_ids e tenant x) (lw_db w2) of
                                  Inl _ \<Rightarrow> Inl PrimaryKeyViolation
                                | Inr d \<Rightarrow> Inr (True, w2\<lparr>lw_db := d\<rparr>)))))"

section \<open>Disposal (\<open>scripts/reset_eval_state.py\<close>)\<close>

text \<open>
  A deleted job takes its dependency rows with it and leaves its audit rows without their link; a deleted
  user leaves audit rows without theirs.
\<close>

definition delete_jobs :: "(job \<Rightarrow> bool) \<Rightarrow> db \<Rightarrow> db" where
  "delete_jobs P d =
     (let gone = j_id ` set (filter P (jobs d))
      in d\<lparr>jobs := filter (\<lambda>j. \<not> P j) (jobs d),
           job_dependencies := filter (\<lambda>x. d_job_id x \<notin> gone \<and> d_depends_on_job_id x \<notin> gone) (job_dependencies d),
           audit_logs := map (\<lambda>a. if (\<exists>i \<in> gone. a_job_id a = Some i) then a\<lparr>a_job_id := None\<rparr> else a) (audit_logs d)\<rparr>)"

text \<open>\<open>payload @> '{"seeded_fixture": true}'\<close>.\<close>

definition seeded_fixture :: "job \<Rightarrow> bool" where
  "seeded_fixture j = (case j_payload j of None \<Rightarrow> False | Some d \<Rightarrow> jget d seeded_fixture_marker = JBool True)"

definition delete_seeded_dlq_fixtures :: "lab_world \<Rightarrow> nat \<times> lab_world" where
  "delete_seeded_dlq_fixtures w =
     (length (filter seeded_fixture (jobs (lw_db w))), w\<lparr>lw_db := delete_jobs seeded_fixture (lw_db w)\<rparr>)"

text \<open>\<open>email LIKE 'chaos-owner+%@chaos.local' AND is_active = false\<close>.\<close>

definition chaos_owner :: "user \<Rightarrow> bool" where
  "chaos_owner u \<longleftrightarrow> (\<exists>n \<le> length (us_email u). us_email u = ''chaos-owner+'' @ take n (drop 12 (us_email u)) @ ''@chaos.local'') \<and> \<not> us_is_active u"

definition delete_chaos_owner_users :: "lab_world \<Rightarrow> nat \<times> lab_world" where
  "delete_chaos_owner_users w =
     (let owners = us_id ` set (filter chaos_owner (lw_users w));
          d = delete_jobs (\<lambda>j. j_user_id j \<in> owners) (lw_db w)
      in (length (filter chaos_owner (lw_users w)),
          w\<lparr>lw_users := filter (\<lambda>u. \<not> chaos_owner u) (lw_users w),
            lw_db := d\<lparr>audit_logs := map (\<lambda>a. if (\<exists>i \<in> owners. a_user_id a = Some i) then a\<lparr>a_user_id := None\<rparr> else a) (audit_logs d)\<rparr>\<rparr>))"

text \<open>\<open>fixture_ids\<close> is empty when the baseline is an empty queue.\<close>

definition sweep_nonfixture_dlq :: "time \<Rightarrow> bool \<Rightarrow> uuid list \<Rightarrow> db \<Rightarrow> nat \<times> db" where
  "sweep_nonfixture_dlq now empty_baseline specs d =
     (let fixture_ids = (if empty_baseline then [] else specs);
          hit = (\<lambda>j. j_status j = DEAD_LETTER \<and> j_id j \<notin> set fixture_ids)
      in (row_count hit (jobs d), d\<lparr>jobs := update_where hit (\<lambda>j. j\<lparr>j_status := CANCELLED, j_updated_at := now\<rparr>) (jobs d)\<rparr>))"

text \<open>
  The three disposal steps of \<open>reset\<close> that touch jobs and their owners, in its order. The seed that
  runs before them, the Redis, alert, agent-run and read-model steps and the closing
  \<open>lab.world_reset\<close> audit row are not part of this definition.
\<close>

definition dispose_fixtures :: "time \<Rightarrow> bool \<Rightarrow> uuid list \<Rightarrow> lab_world \<Rightarrow> lab_world" where
  "dispose_fixtures now empty_baseline specs w =
     (let w1 = snd (delete_chaos_owner_users w); w2 = snd (delete_seeded_dlq_fixtures w1)
      in w2\<lparr>lw_db := snd (sweep_nonfixture_dlq now empty_baseline specs (lw_db w2))\<rparr>)"

section \<open>What the hooks add\<close>

text \<open>
  \<open>w'\<close> is \<open>w\<close> with fixtures: marked jobs under ids of their own, dependency rows of such jobs, disabled
  owners; every row of \<open>w\<close> is as it was.
\<close>

definition only_fixtures :: "lab_world \<Rightarrow> lab_world \<Rightarrow> bool" where
  "only_fixtures w w' \<longleftrightarrow> (\<exists>js us es.
     jobs (lw_db w') = jobs (lw_db w) @ js \<and> (\<forall>j \<in> set js. seeded_fixture j \<and> j_id j \<notin> j_id ` set (jobs (lw_db w)))
     \<and> lw_users w' = lw_users w @ us \<and> (\<forall>u \<in> set us. chaos_owner u \<and> next_uuid (lw_db w) \<le> us_id u)
     \<and> job_dependencies (lw_db w') = job_dependencies (lw_db w) @ es \<and> (\<forall>x \<in> set es. d_job_id x \<in> j_id ` set js)
     \<and> sagas (lw_db w') = sagas (lw_db w) \<and> outbox_events (lw_db w') = outbox_events (lw_db w) \<and> audit_logs (lw_db w') = audit_logs (lw_db w)
     \<and> next_uuid (lw_db w) \<le> next_uuid (lw_db w'))"

lemma only_fixtures_refl [simp]: "only_fixtures w w"
  by (simp add: only_fixtures_def)

lemma only_fixtures_trans: "only_fixtures w w1 \<Longrightarrow> only_fixtures w1 w2 \<Longrightarrow> only_fixtures w w2"
proof -
  assume "only_fixtures w w1" "only_fixtures w1 w2"
  then obtain js us es js' us' es' where a: "jobs (lw_db w1) = jobs (lw_db w) @ js" "\<forall>j \<in> set js. seeded_fixture j \<and> j_id j \<notin> j_id ` set (jobs (lw_db w))"
    "lw_users w1 = lw_users w @ us" "\<forall>u \<in> set us. chaos_owner u \<and> next_uuid (lw_db w) \<le> us_id u"
    "job_dependencies (lw_db w1) = job_dependencies (lw_db w) @ es" "\<forall>x \<in> set es. d_job_id x \<in> j_id ` set js"
    "sagas (lw_db w1) = sagas (lw_db w)" "outbox_events (lw_db w1) = outbox_events (lw_db w)" "audit_logs (lw_db w1) = audit_logs (lw_db w)"
    "next_uuid (lw_db w) \<le> next_uuid (lw_db w1)"
    and b: "jobs (lw_db w2) = jobs (lw_db w1) @ js'" "\<forall>j \<in> set js'. seeded_fixture j \<and> j_id j \<notin> j_id ` set (jobs (lw_db w1))"
    "lw_users w2 = lw_users w1 @ us'" "\<forall>u \<in> set us'. chaos_owner u \<and> next_uuid (lw_db w1) \<le> us_id u"
    "job_dependencies (lw_db w2) = job_dependencies (lw_db w1) @ es'" "\<forall>x \<in> set es'. d_job_id x \<in> j_id ` set js'"
    "sagas (lw_db w2) = sagas (lw_db w1)" "outbox_events (lw_db w2) = outbox_events (lw_db w1)" "audit_logs (lw_db w2) = audit_logs (lw_db w1)"
    "next_uuid (lw_db w1) \<le> next_uuid (lw_db w2)"
    unfolding only_fixtures_def by blast
  show ?thesis unfolding only_fixtures_def
    by (rule exI [of _ "js @ js'"], rule exI [of _ "us @ us'"], rule exI [of _ "es @ es'"]) (use a b in auto)
qed

lemma seeded_rows [simp]:
  "seeded_fixture (dead_letter_row e i t u ty ((seeded_fixture_marker, JBool True) # rest) err hint)"
  "seeded_fixture (chain_row e t u x h err kv)"
  "j_id (dead_letter_row e i t u ty pl err hint) = i" "j_tenant_id (dead_letter_row e i t u ty pl err hint) = t"
  "j_status (dead_letter_row e i t u ty pl err hint) = DEAD_LETTER" "j_remediation_hint (dead_letter_row e i t u ty pl err hint) = hint"
  "j_id (chain_row e t u x h err kv) = fst kv" "j_tenant_id (chain_row e t u x h err kv) = t" "j_status (chain_row e t u x h err kv) = snd kv"
  by (simp_all add: seeded_fixture_def dead_letter_row_def fixture_row_def chain_row_def Let_def split: prod.split)

lemma insert_row_adds: "insert_row j w = Inr w' \<Longrightarrow> seeded_fixture j \<Longrightarrow> only_fixtures w w'"
  by (auto simp: insert_row_def only_fixtures_def split: if_splits)

lemma insert_row_job: "insert_row j w = Inr w' \<Longrightarrow> jobs (lw_db w') = jobs (lw_db w) @ [j] \<and> j_id j \<notin> j_id ` set (jobs (lw_db w))"
  by (auto simp: insert_row_def split: if_splits)

lemma chaos_owner_email_like: "us_email u = chaos_owner_email t \<Longrightarrow> \<not> us_is_active u \<Longrightarrow> chaos_owner u"
  by (auto simp: chaos_owner_def chaos_owner_email_def intro!: exI [of _ "length (uuid_str t)"])

lemma fixture_owner_adds: "fixture_owner e t w = (u, w') \<Longrightarrow> only_fixtures w w' \<and> jobs (lw_db w') = jobs (lw_db w) \<and> lw_sent w' = lw_sent w
    \<and> job_dependencies (lw_db w') = job_dependencies (lw_db w)"
  by (auto simp: fixture_owner_def ensure_chaos_owner_def only_fixtures_def Let_def chaos_owner_email_like split: option.splits)

lemma only_fixtures_next: "only_fixtures (w\<lparr>lw_db := (lw_db w)\<lparr>next_uuid := Suc (next_uuid (lw_db w))\<rparr>\<rparr>) w' \<Longrightarrow> only_fixtures w w'"
  by (auto simp: only_fixtures_def; fastforce)

lemma add_seeded_adds: "add_seeded e t u ty err hint n w = Inr (ids, w') \<Longrightarrow> only_fixtures w w'"
proof (induction n arbitrary: w ids)
  case (Suc n)
  let ?w = "w\<lparr>lw_db := (lw_db w)\<lparr>next_uuid := Suc (next_uuid (lw_db w))\<rparr>\<rparr>"
  obtain w1 ids' where i: "insert_row (dead_letter_row e (next_uuid (lw_db w)) t u ty [(seeded_fixture_marker, JBool True)] err (Some hint)) ?w = Inr w1"
    "add_seeded e t u ty err hint n w1 = Inr (ids', w')"
    using Suc.prems by (auto simp: Let_def split: sum.splits prod.splits)
  have "only_fixtures ?w w1" using i(1) by (rule insert_row_adds) simp
  then show ?case using Suc.IH [OF i(2)] only_fixtures_next only_fixtures_trans by blast
qed simp

lemma insert_rows_adds:
  "insert_rows js w = Inr w' \<Longrightarrow> \<forall>j \<in> set js. seeded_fixture j \<Longrightarrow> only_fixtures w w' \<and> jobs (lw_db w') = jobs (lw_db w) @ js
     \<and> job_dependencies (lw_db w') = job_dependencies (lw_db w) \<and> (\<forall>j \<in> set js. j_id j \<notin> j_id ` set (jobs (lw_db w)))"
proof (induction js arbitrary: w)
  case (Cons j js)
  then obtain w1 where w1: "insert_row j w = Inr w1" "insert_rows js w1 = Inr w'" by (auto split: sum.splits)
  have d: "job_dependencies (lw_db w1) = job_dependencies (lw_db w)" using w1(1) by (auto simp: insert_row_def split: if_splits)
  show ?case
    using Cons.IH [OF w1(2)] Cons.prems(2) insert_row_adds [OF w1(1)] insert_row_job [OF w1(1)] d only_fixtures_trans by auto
qed simp

lemma link_chain_edges:
  "link_chain parent cs d = Inr d' \<Longrightarrow>
     d' = d\<lparr>job_dependencies := job_dependencies d @ map (\<lambda>(c, q). \<lparr>d_job_id = c, d_depends_on_job_id = q\<rparr>) (zip cs (parent # cs))\<rparr>"
proof (induction cs arbitrary: parent d)
  case (Cons c cs)
  then obtain d1 where d1: "dep_add c [parent] d = Inr d1" "link_chain c cs d1 = Inr d'" by (auto split: sum.splits)
  then have "d1 = d\<lparr>job_dependencies := job_dependencies d @ [\<lparr>d_job_id = c, d_depends_on_job_id = parent\<rparr>]\<rparr>"
    by (auto simp: dep_add_def Let_def split: if_splits)
  then show ?case using Cons.IH [OF d1(2)] by simp
qed simp

lemma put_status_keys: "fst ` set (put_status i s kvs) = insert i (fst ` set kvs)" "distinct (map fst kvs) \<Longrightarrow> distinct (map fst (put_status i s kvs))"
  by (induction i s kvs rule: put_status.induct) auto

lemma fold_put_keys: "fst ` set (fold (\<lambda>(i, s). put_status i s) kvs acc) = fst ` set acc \<union> fst ` set kvs"
  "distinct (map fst acc) \<Longrightarrow> distinct (map fst (fold (\<lambda>(i, s). put_status i s) kvs acc))"
  by (induction kvs arbitrary: acc) (auto simp: put_status_keys split: prod.splits)

lemma length_step_ids: "stuck_input_ok x \<Longrightarrow> length (step_ids e t x) = sk_waiting_steps x"
  by (simp add: step_ids_def all_step_ids_def stuck_input_ok_def max_waiting_steps_def)

lemma expected_keys: "stuck_input_ok x \<Longrightarrow> fst ` set (expected_chain e t x) = insert (upstream_id e t x) (insert (root_id e t x) (set (step_ids e t x)))"
proof -
  assume ok: "stuck_input_ok x"
  let ?z = "zip (step_ids e t x) (map (\<lambda>k. step_status k (sk_failed_step x)) [1..<Suc (sk_waiting_steps x)])"
  have "map fst ?z = step_ids e t x" using length_step_ids [OF ok, of e t] by (simp del: upt_Suc)
  then have "fst ` set ?z = set (step_ids e t x)" by (metis list.set_map)
  then show ?thesis unfolding expected_chain_def fold_put_keys(1) by simp
qed

lemma stuck_created:
  assumes "stuck_input_ok x" "create_stuck_dag e p x w = Inr (True, w')"
  shows "\<exists>u err. only_fixtures w w'
    \<and> jobs (lw_db w') = jobs (lw_db w) @ map (chain_row e (pr_tenant_id p) u x (sk_remediation_hint x) err) (expected_chain e (pr_tenant_id p) x)
    \<and> (\<forall>i \<in> fst ` set (expected_chain e (pr_tenant_id p) x). i \<notin> j_id ` set (jobs (lw_db w)))
    \<and> job_dependencies (lw_db w') = job_dependencies (lw_db w) @ map (\<lambda>(c, q). \<lparr>d_job_id = c, d_depends_on_job_id = q\<rparr>)
        (zip (root_id e (pr_tenant_id p) x # step_ids e (pr_tenant_id p) x)
             (upstream_id e (pr_tenant_id p) x # root_id e (pr_tenant_id p) x # step_ids e (pr_tenant_id p) x))"
proof -
  let ?t = "pr_tenant_id p"
  let ?cs = "root_id e ?t x # step_ids e ?t x"
  let ?h = "sk_remediation_hint x"
  obtain user w1 err w2 d where c: "fixture_owner e ?t w = (user, w1)"
    "insert_rows (map (chain_row e ?t (us_id user) x ?h err) (expected_chain e ?t x)) w1 = Inr w2"
    "link_chain (upstream_id e ?t x) ?cs (lw_db w2) = Inr d" "w' = w2\<lparr>lw_db := d\<rparr>"
    using assms(2) by (auto simp: create_stuck_dag_def validated_hint_def Let_def split: sum.splits if_splits option.splits list.splits prod.splits)
  let ?rows = "map (chain_row e ?t (us_id user) x ?h err) (expected_chain e ?t x)"
  note o = fixture_owner_adds [OF c(1)]
  note ins = insert_rows_adds [OF c(2)]
  let ?es = "map (\<lambda>(c, q). \<lparr>d_job_id = c, d_depends_on_job_id = q\<rparr>) (zip ?cs (upstream_id e ?t x # ?cs))"
  have d: "d = (lw_db w2)\<lparr>job_dependencies := job_dependencies (lw_db w2) @ ?es\<rparr>" by (rule link_chain_edges [OF c(3)])
  have f12: "only_fixtures w w2" using o ins only_fixtures_trans by auto
  have j2: "jobs (lw_db w2) = jobs (lw_db w) @ ?rows" "job_dependencies (lw_db w2) = job_dependencies (lw_db w)"
    "\<forall>i \<in> fst ` set (expected_chain e ?t x). i \<notin> j_id ` set (jobs (lw_db w))"
    using o ins by auto
  have cs: "\<forall>x' \<in> set ?es. d_job_id x' \<in> j_id ` set ?rows"
    using expected_keys [OF assms(1), of e ?t] by (auto simp: image_image dest!: set_zip_leftD)
  obtain js us es where f: "jobs (lw_db w2) = jobs (lw_db w) @ js" "\<forall>j \<in> set js. seeded_fixture j \<and> j_id j \<notin> j_id ` set (jobs (lw_db w))"
     "lw_users w2 = lw_users w @ us" "\<forall>u \<in> set us. chaos_owner u \<and> next_uuid (lw_db w) \<le> us_id u"
     "job_dependencies (lw_db w2) = job_dependencies (lw_db w) @ es"
     "sagas (lw_db w2) = sagas (lw_db w)" "outbox_events (lw_db w2) = outbox_events (lw_db w)" "audit_logs (lw_db w2) = audit_logs (lw_db w)"
     "next_uuid (lw_db w) \<le> next_uuid (lw_db w2)"
    using f12 unfolding only_fixtures_def by blast
  have js: "js = ?rows" "es = []" using f(1,5) j2 by simp_all
  have "only_fixtures w w'" unfolding only_fixtures_def
    by (rule exI [of _ js], rule exI [of _ us], rule exI [of _ ?es]) (use f(1-4,6-9) js cs d j2(2) c(4) in simp)
  then show ?thesis using j2 d c(4) by (intro exI [of _ "us_id user"] exI [of _ err]) simp
qed

lemma bad_data_adds: "create_bad_data_job e p name ty h err w = Inr (r, w') \<Longrightarrow> only_fixtures w w'"
  by (auto simp: create_bad_data_job_def Let_def split: sum.splits option.splits prod.splits dest!: fixture_owner_adds insert_row_adds
      intro: only_fixtures_trans)

lemma mislabeled_adds: "create_mislabeled_dlq_job e p name ty w = Inr (r, w') \<Longrightarrow> only_fixtures w w'"
  by (auto simp: create_mislabeled_dlq_job_def Let_def split: sum.splits option.splits prod.splits dest!: fixture_owner_adds insert_row_adds
      intro: only_fixtures_trans)

lemma seed_adds: "seed_dlq_messages e p h n ty err w = Inr (ids, w') \<Longrightarrow> only_fixtures w w'"
  by (auto simp: seed_dlq_messages_def Let_def split: sum.splits option.splits prod.splits dest!: fixture_owner_adds add_seeded_adds
      intro: only_fixtures_trans)

lemma only_fixtures_sent: "only_fixtures (w\<lparr>lw_sent := s\<rparr>) w' \<longleftrightarrow> only_fixtures w w'" "only_fixtures w (w'\<lparr>lw_sent := s\<rparr>) \<longleftrightarrow> only_fixtures w w'"
  by (simp_all add: only_fixtures_def)

lemma poison_adds: "poison_message e p br topic body key name h w = (r, w') \<Longrightarrow> only_fixtures w w'"
  by (auto simp: poison_message_def Let_def only_fixtures_sent split: sum.splits option.splits prod.splits broker_answer.splits if_splits
      dest!: fixture_owner_adds insert_row_adds intro: only_fixtures_trans)

lemma stuck_adds: "stuck_input_ok x \<Longrightarrow> create_stuck_dag e p x w = Inr (b, w') \<Longrightarrow> only_fixtures w w'"
proof -
  assume ok: "stuck_input_ok x" and c: "create_stuck_dag e p x w = Inr (b, w')"
  show ?thesis
  proof (cases b)
    case True
    then show ?thesis using stuck_created [OF ok, of e p w w'] c by auto
  next
    case False
    then show ?thesis
      using c by (auto simp: create_stuck_dag_def Let_def split: sum.splits if_splits option.splits list.splits prod.splits)
  qed
qed

text \<open>A call of a hook; one that fails is rolled back, except for what it sent.\<close>

datatype lab_call =
    SeedDlq string nat string "string option"
  | BadData string string "string option" "string option"
  | Mislabeled string string
  | Poison broker_answer string json "string option" string "string option"
  | StuckDag stuck_input

fun lab_apply :: "lab_env \<times> principal \<times> lab_call \<Rightarrow> lab_world \<Rightarrow> lab_world" where
  "lab_apply (e, p, SeedDlq h n ty err) w = (case seed_dlq_messages e p h n ty err w of Inl _ \<Rightarrow> w | Inr (_, w') \<Rightarrow> w')"
| "lab_apply (e, p, BadData name ty h err) w = (case create_bad_data_job e p name ty h err w of Inl _ \<Rightarrow> w | Inr (_, w') \<Rightarrow> w')"
| "lab_apply (e, p, Mislabeled name ty) w = (case create_mislabeled_dlq_job e p name ty w of Inl _ \<Rightarrow> w | Inr (_, w') \<Rightarrow> w')"
| "lab_apply (e, p, Poison br topic body key name h) w = snd (poison_message e p br topic body key name h w)"
| "lab_apply (e, p, StuckDag x) w =
     (if stuck_input_ok x then (case create_stuck_dag e p x w of Inl _ \<Rightarrow> w | Inr (_, w') \<Rightarrow> w') else w)"

lemma lab_apply_adds: "only_fixtures w (lab_apply c w)"
  by (induction c w rule: lab_apply.induct)
    (auto split: sum.split prod.split intro: seed_adds bad_data_adds mislabeled_adds stuck_adds poison_adds [OF surjective_pairing])

lemma lab_calls_add: "only_fixtures w (fold lab_apply cs w)"
  by (induction cs rule: rev_induct) (auto intro: only_fixtures_trans lab_apply_adds)

text \<open>
  The world before: it holds no fixture, and its rows refer to one another as the foreign keys require.
\<close>

definition lab_ready :: "lab_world \<Rightarrow> bool" where
  "lab_ready w \<longleftrightarrow>
     (let d = lw_db w; ids = j_id ` set (jobs d); users = us_id ` set (lw_users w)
      in (\<forall>j \<in> set (jobs d). \<not> seeded_fixture j \<and> j_user_id j \<in> users)
         \<and> (\<forall>u \<in> set (lw_users w). \<not> chaos_owner u \<and> us_id u < next_uuid d)
         \<and> (\<forall>x \<in> set (job_dependencies d). d_job_id x \<in> ids \<and> d_depends_on_job_id x \<in> ids)
         \<and> (\<forall>a \<in> set (audit_logs d). set_option (a_job_id a) \<subseteq> ids \<and> set_option (a_user_id a) \<subseteq> users))"

lemma delete_jobs_suffix:
  assumes "jobs d = js @ ks" "\<forall>j \<in> set js. \<not> P j"
    "job_dependencies d = ds @ es" "\<forall>x \<in> set ds. d_job_id x \<in> j_id ` set js \<and> d_depends_on_job_id x \<in> j_id ` set js"
    "\<forall>j \<in> set ks. j_id j \<notin> j_id ` set js" "\<forall>a \<in> set (audit_logs d). set_option (a_job_id a) \<subseteq> j_id ` set js"
  shows "jobs (delete_jobs P d) = js @ filter (\<lambda>j. \<not> P j) ks"
    "job_dependencies (delete_jobs P d) = ds @ filter (\<lambda>x. d_job_id x \<notin> j_id ` set (filter P ks) \<and> d_depends_on_job_id x \<notin> j_id ` set (filter P ks)) es"
    "audit_logs (delete_jobs P d) = audit_logs d"
    "sagas (delete_jobs P d) = sagas d" "outbox_events (delete_jobs P d) = outbox_events d" "next_uuid (delete_jobs P d) = next_uuid d"
proof -
  have gone: "filter P (jobs d) = filter P ks" using assms(1,2) by (simp add: filter_empty_conv)
  show "jobs (delete_jobs P d) = js @ filter (\<lambda>j. \<not> P j) ks" using assms(1,2) by (simp add: delete_jobs_def Let_def)
  have "d_job_id x \<notin> j_id ` set (filter P ks) \<and> d_depends_on_job_id x \<notin> j_id ` set (filter P ks)" if "x \<in> set ds" for x
    using bspec [OF assms(4) that] assms(5) by (auto simp: image_iff)
  then have "filter (\<lambda>x. d_job_id x \<notin> j_id ` set (filter P ks) \<and> d_depends_on_job_id x \<notin> j_id ` set (filter P ks)) ds = ds"
    by (simp only: filter_id_conv) blast
  then show "job_dependencies (delete_jobs P d) = ds @ filter (\<lambda>x. d_job_id x \<notin> j_id ` set (filter P ks) \<and> d_depends_on_job_id x \<notin> j_id ` set (filter P ks)) es"
    by (simp add: delete_jobs_def gone assms(3) Let_def)
  have "(if \<exists>i \<in> j_id ` set (filter P ks). a_job_id a = Some i then a\<lparr>a_job_id := None\<rparr> else a) = a" if "a \<in> set (audit_logs d)" for a
    using that assms(5,6) by fastforce
  then show "audit_logs (delete_jobs P d) = audit_logs d" by (simp add: delete_jobs_def gone Let_def map_idI)
qed (simp_all add: delete_jobs_def Let_def)

text \<open>
  Property C16. The disposal undoes the fixture hooks. Take a world in which no fixture is left, whose rows refer
  to one another as the foreign keys require, and let the handlers of the five fixture hooks (seeded
  dead letters, bad-data job, mislabelled job, poisoned message, stuck DAG) run any number of times, by
  anyone and in any order, failed calls among them, with nothing else writing in between. Then the three
  disposal steps of the reset give back the users and, of the database, the jobs, dependencies, sagas
  and outbox rows of that world, swept as the sweep would have left them without any hook, and leave
  the audit rows that were there before the hooks unchanged. (The audit rows that the dispatcher appends for each hook
  call, the other hooks and the other steps of the reset are not part of this statement.)
\<close>

theorem fixtures_disposed:
  assumes "lab_ready w" "w' = fold lab_apply cs w"
  shows "lw_users (dispose_fixtures now empty_baseline specs w') = lw_users w
    \<and> (\<exists>n. lw_db (dispose_fixtures now empty_baseline specs w') = (snd (sweep_nonfixture_dlq now empty_baseline specs (lw_db w)))\<lparr>next_uuid := n\<rparr>)"
proof -
  let ?d = "lw_db w" and ?d' = "lw_db w'"
  obtain js us es where f: "jobs ?d' = jobs ?d @ js" "\<forall>j \<in> set js. seeded_fixture j \<and> j_id j \<notin> j_id ` set (jobs ?d)"
     "lw_users w' = lw_users w @ us" "\<forall>u \<in> set us. chaos_owner u \<and> next_uuid ?d \<le> us_id u"
     "job_dependencies ?d' = job_dependencies ?d @ es" "\<forall>x \<in> set es. d_job_id x \<in> j_id ` set js"
     "sagas ?d' = sagas ?d" "outbox_events ?d' = outbox_events ?d" "audit_logs ?d' = audit_logs ?d"
    using lab_calls_add [of w cs] unfolding only_fixtures_def assms(2) by blast
  have r: "\<forall>j \<in> set (jobs ?d). \<not> seeded_fixture j \<and> j_user_id j \<in> us_id ` set (lw_users w)"
    "\<forall>u \<in> set (lw_users w). \<not> chaos_owner u \<and> us_id u < next_uuid ?d"
    "\<forall>x \<in> set (job_dependencies ?d). d_job_id x \<in> j_id ` set (jobs ?d) \<and> d_depends_on_job_id x \<in> j_id ` set (jobs ?d)"
    "\<forall>a \<in> set (audit_logs ?d). set_option (a_job_id a) \<subseteq> j_id ` set (jobs ?d) \<and> set_option (a_user_id a) \<subseteq> us_id ` set (lw_users w)"
    using assms(1) by (auto simp: lab_ready_def Let_def)
  let ?owners = "us_id ` set us"
  have owners: "filter chaos_owner (lw_users w') = us" "filter (\<lambda>u. \<not> chaos_owner u) (lw_users w') = lw_users w"
    using f(3,4) r(2) by (auto simp: filter_empty_conv filter_id_conv)
  have apart: "i \<notin> ?owners" if "i \<in> us_id ` set (lw_users w)" for i using that r(2) f(4) by fastforce
  let ?P = "\<lambda>j. j_user_id j \<in> ?owners"
  have keep: "\<forall>j \<in> set (jobs ?d). \<not> ?P j" using r(1) apart by blast
  have a: "\<forall>a \<in> set (audit_logs ?d'). set_option (a_job_id a) \<subseteq> j_id ` set (jobs ?d)" using r(4) f(9) by simp
  note d1 = delete_jobs_suffix [OF f(1) keep f(5) r(3) _ a]
  let ?d1 = "delete_jobs ?P ?d'"
  have new: "\<forall>j \<in> set js. j_id j \<notin> j_id ` set (jobs ?d)" using f(2) by blast
  let ?w1 = "snd (delete_chaos_owner_users w')"
  have "map (\<lambda>a. if \<exists>i \<in> ?owners. a_user_id a = Some i then a\<lparr>a_user_id := None\<rparr> else a) (audit_logs ?d1) = audit_logs ?d1"
    by (rule map_idI) (use r(4) f(9) apart d1(3) [OF new] in fastforce)
  then have w1: "lw_users ?w1 = lw_users w" "lw_db ?w1 = ?d1"
    by (simp_all add: delete_chaos_owner_users_def Let_def owners)
  let ?js1 = "filter (\<lambda>j. \<not> ?P j) js"
  let ?es1 = "filter (\<lambda>x. d_job_id x \<notin> j_id ` set (filter ?P js) \<and> d_depends_on_job_id x \<notin> j_id ` set (filter ?P js)) es"
  have s: "\<forall>j \<in> set (jobs ?d). \<not> seeded_fixture j" "\<forall>j \<in> set ?js1. j_id j \<notin> j_id ` set (jobs ?d)" "\<forall>j \<in> set ?js1. seeded_fixture j"
    "\<forall>a \<in> set (audit_logs ?d1). set_option (a_job_id a) \<subseteq> j_id ` set (jobs ?d)"
    using r(1) f(2) a d1(3) [OF new] by auto
  note d2 = delete_jobs_suffix [OF d1(1) [OF new] s(1) d1(2) [OF new] r(3) s(2,4)]
  have ids: "j_id ` set (filter seeded_fixture ?js1) \<union> j_id ` set (filter ?P js) = j_id ` set js" using f(2) by auto
  have "filter (\<lambda>x. d_job_id x \<notin> j_id ` set (filter seeded_fixture ?js1) \<and> d_depends_on_job_id x \<notin> j_id ` set (filter seeded_fixture ?js1)) ?es1 = []"
  proof -
    have "d_job_id x \<in> j_id ` set (filter seeded_fixture ?js1) \<or> d_job_id x \<in> j_id ` set (filter ?P js)" if "x \<in> set es" for x
      using bspec [OF f(6) that] ids by blast
    then show ?thesis unfolding filter_filter filter_empty_conv by blast
  qed
  moreover have "filter (\<lambda>j. \<not> seeded_fixture j) ?js1 = []" using f(2) by (simp add: filter_empty_conv)
  ultimately have "delete_jobs seeded_fixture ?d1 = ?d\<lparr>next_uuid := next_uuid ?d'\<rparr>"
    using d2 d1(3-6) [OF new] f(7-9) by simp
  then show ?thesis
    using w1 by (intro conjI exI [of _ "next_uuid ?d'"]) (simp_all add: dispose_fixtures_def delete_seeded_dlq_fixtures_def sweep_nonfixture_dlq_def Let_def)
qed

section \<open>Repeats\<close>

lemma find_snoc: "find P (xs @ [x]) = (case find P xs of Some y \<Rightarrow> Some y | None \<Rightarrow> if P x then Some x else None)"
  by (induction xs) simp_all

lemma visible_after_insert:
  assumes "visible_job t i (lw_db w1) = None" "insert_row j w1 = Inr w2" "j_id j = i" "j_tenant_id j = t"
  shows "visible_job t i (lw_db w2) = Some j"
  using assms insert_row_job [OF assms(2)] by (simp add: visible_job_def find_snoc)

lemma row_drift_None: "assert_matches name j hint t = None \<longleftrightarrow> j_tenant_id j = t \<and> j_status j = DEAD_LETTER \<and> j_remediation_hint j = hint"
  by (auto simp: assert_matches_def row_drift_def split: list.split)

lemma owner_visible: "fixture_owner e t w = (u, w1) \<Longrightarrow> visible_job t i (lw_db w1) = visible_job t i (lw_db w)"
  using fixture_owner_adds [of e t w u w1] by (simp add: visible_job_def)

text \<open>
  A fixture is written once. A hook that is called again with the same name, on the world its first call
  left, names the same row, says that it did not create it, and changes nothing; a poisoned message is
  published once more, and nothing else. A call the hook refuses because the row has moved on leaves
  everything as it is, the topic included.
\<close>

theorem fixtures_written_once:
  fixes e e' :: lab_env
  assumes "le_uuid5 e' = le_uuid5 e"
  shows "(\<forall>name ty ty' h err err' w i b w'. create_bad_data_job e p name ty h err w = Inr ((i, b), w') \<longrightarrow>
       create_bad_data_job e' p name ty' h err' w' = Inr ((i, False), w'))
    \<and> (\<forall>name ty ty' w i b w'. create_mislabeled_dlq_job e p name ty w = Inr ((i, b), w') \<longrightarrow>
       create_mislabeled_dlq_job e' p name ty' w' = Inr ((i, False), w'))
    \<and> (\<forall>topic body key name h w i b w' topic' body'. poison_message e p BrokerUp topic body key name h w = (Inr (i, b), w') \<longrightarrow>
       poison_message e' p BrokerUp topic' body' None name h w' = (Inr (i, False), w'\<lparr>lw_sent := lw_sent w' @ [(topic', body', None)]\<rparr>))
    \<and> (\<forall>br topic body key name h w ds w'. poison_message e p br topic body key name h w = (Inl (FixtureNameInUse name ds), w') \<longrightarrow> w' = w)"
proof (intro conjI allI impI)
  fix name ty ty' h err err' w i b w' assume c: "create_bad_data_job e p name ty h err w = Inr ((i, b), w')"
  then obtain hint where h: "declared_hint h = Inr hint" "i = fixture_id (le_uuid5 e) bad_data_namespace (pr_tenant_id p) name"
    by (auto simp: create_bad_data_job_def Let_def split: sum.splits option.splits prod.splits)
  have "\<exists>j. visible_job (pr_tenant_id p) i (lw_db w') = Some j \<and> assert_matches name j hint (pr_tenant_id p) = None"
  proof (cases "visible_job (pr_tenant_id p) i (lw_db w)")
    case None
    then show ?thesis
      using c h by (auto simp: create_bad_data_job_def Let_def row_drift_None owner_visible split: sum.splits option.splits prod.splits
          dest!: visible_after_insert [where t = "pr_tenant_id p" and i = i, rotated])
  next
    case (Some j)
    then show ?thesis using c h by (auto simp: create_bad_data_job_def Let_def split: option.splits)
  qed
  then show "create_bad_data_job e' p name ty' h err' w' = Inr ((i, False), w')"
    using h assms by (auto simp: create_bad_data_job_def Let_def)
next
  fix name ty ty' w i b w' assume c: "create_mislabeled_dlq_job e p name ty w = Inr ((i, b), w')"
  then have i: "i = fixture_id (le_uuid5 e) mislabeled_namespace (pr_tenant_id p) name"
    by (auto simp: create_mislabeled_dlq_job_def Let_def split: sum.splits option.splits prod.splits)
  have "\<exists>j. visible_job (pr_tenant_id p) i (lw_db w') = Some j \<and> assert_matches name j (fs_hint sanctioned_incoherent_story) (pr_tenant_id p) = None"
  proof (cases "visible_job (pr_tenant_id p) i (lw_db w)")
    case None
    then show ?thesis
      using c i by (auto simp: create_mislabeled_dlq_job_def Let_def row_drift_None owner_visible split: sum.splits option.splits prod.splits
          dest!: visible_after_insert [where t = "pr_tenant_id p" and i = i, rotated])
  next
    case (Some j)
    then show ?thesis using c i by (auto simp: create_mislabeled_dlq_job_def Let_def split: option.splits)
  qed
  then show "create_mislabeled_dlq_job e' p name ty' w' = Inr ((i, False), w')"
    using i assms by (auto simp: create_mislabeled_dlq_job_def Let_def)
next
  fix topic body key name h w i b w' topic' body' assume c: "poison_message e p BrokerUp topic body key name h w = (Inr (i, b), w')"
  then obtain hint where h: "declared_hint h = Inr hint" "i = fixture_id (le_uuid5 e) poison_namespace (pr_tenant_id p) name"
    by (auto simp: poison_message_def Let_def split: sum.splits option.splits prod.splits if_splits)
  have "\<exists>j. visible_job (pr_tenant_id p) i (lw_db w') = Some j \<and> assert_matches name j hint (pr_tenant_id p) = None"
  proof (cases "visible_job (pr_tenant_id p) i (lw_db w)")
    case None
    then show ?thesis
      using c h by (auto simp: poison_message_def Let_def row_drift_None owner_visible split: sum.splits option.splits prod.splits
          dest!: visible_after_insert [where t = "pr_tenant_id p" and i = i, rotated])
  next
    case (Some j)
    then show ?thesis using c h by (auto simp: poison_message_def Let_def split: option.splits)
  qed
  then show "poison_message e' p BrokerUp topic' body' None name h w' = (Inr (i, False), w'\<lparr>lw_sent := lw_sent w' @ [(topic', body', None)]\<rparr>)"
    using h assms by (auto simp: poison_message_def Let_def)
next
  fix br topic body key name h w ds w' assume "poison_message e p br topic body key name h w = (Inl (FixtureNameInUse name ds), w')"
  then show "w' = w"
    by (auto simp: poison_message_def Let_def insert_row_def split: sum.splits option.splits prod.splits broker_answer.splits if_splits)
qed

section \<open>A stuck chain stays stuck\<close>

text \<open>
  \<open>held d parent cs\<close>: the jobs of \<open>cs\<close> wait in a row, the first of them behind a parent that is there and
  not completed.
\<close>

fun held :: "db \<Rightarrow> uuid \<Rightarrow> uuid list \<Rightarrow> bool" where
  "held d parent [] \<longleftrightarrow> True"
| "held d parent (c # cs) \<longleftrightarrow> dep_edge d c parent \<and> (\<exists>q. job_by_id d parent = Some q \<and> j_status q \<noteq> COMPLETED)
     \<and> (\<exists>j. job_by_id d c = Some j \<and> j_status j = WAITING) \<and> held d c cs"

lemma held_unmet: "held d parent cs \<Longrightarrow> c \<in> set cs \<Longrightarrow> has_unmet_parent d c \<and> 0 < unmet_count c d \<and> (\<exists>j. job_by_id d c = Some j \<and> j_status j = WAITING)"
proof (induction cs arbitrary: parent)
  case (Cons a cs)
  show ?case
  proof (cases "c = a")
    case True
    then obtain x q where x: "x \<in> set (job_dependencies d)" "d_job_id x = a" "d_depends_on_job_id x = parent"
      "job_by_id d parent = Some q" "j_status q \<noteq> COMPLETED"
      using Cons.prems by (auto simp: dep_edge_def)
    then have "has_unmet_parent d a" by (auto simp: has_unmet_parent_def)
    moreover have "0 < unmet_count a d" using x by (auto simp: unmet_count_def length_greater_0_conv filter_empty_conv)
    ultimately show ?thesis using Cons.prems True by auto
  qed (use Cons in auto)
qed simp

lemma held_mono:
  assumes "held d parent cs" "job_dependencies d' = job_dependencies d" "\<forall>c \<in> insert parent (set cs). job_by_id d' c = job_by_id d c"
  shows "held d' parent cs"
  using assms by (induction cs arbitrary: parent) (auto simp: dep_edge_def)

lemma promote_child_other:
  "job_dependencies (promote_child cfg now child d) = job_dependencies d"
  "k \<noteq> j_id child \<Longrightarrow> job_by_id (promote_child cfg now child d) k = job_by_id d k"
  by (simp add: promote_child_def Let_def case_prod_beta submit_def)
    (cases "job_by_id d k", auto simp: promote_child_def Let_def case_prod_beta submit_def job_by_id_promote dest: get_by_SomeD)

text \<open>A message for the resolver, or a pass of the resume sweep.\<close>

datatype nudge = ResolverMessage settings time "pause_flags option" json | ResumePass settings time pause_flags "resume_cursor option"

fun nudge_apply :: "nudge \<Rightarrow> db \<Rightarrow> db" where
  "nudge_apply (ResolverMessage cfg now redis v) d = (case resolver_handle_message cfg now redis v d of Inl _ \<Rightarrow> d | Inr d' \<Rightarrow> d')"
| "nudge_apply (ResumePass cfg now flags cursor) d = snd (resume_unblocked_waiting_once cfg now flags cursor d)"

definition unmoved :: "uuid \<Rightarrow> uuid list \<Rightarrow> db \<Rightarrow> db \<Rightarrow> bool" where
  "unmoved parent cs d d' \<longleftrightarrow> job_dependencies d' = job_dependencies d \<and> (\<forall>c \<in> insert parent (set cs). job_by_id d' c = job_by_id d c)"

lemma promote_unmoved: "j_id child \<notin> insert parent (set cs) \<Longrightarrow> unmoved parent cs d (promote_child cfg now child d)"
  unfolding unmoved_def by (metis promote_child_other)

lemma unmoved_refl [simp]: "unmoved parent cs d d"
  by (simp add: unmoved_def)

lemma resolve_child_unmoved:
  assumes "held d parent cs" "\<exists>q. job_by_id d parent = Some q \<and> j_status q \<noteq> WAITING"
  shows "unmoved parent cs d (resolve_child cfg now redis c d)"
proof (cases "c \<in> insert parent (set cs)")
  case True
  then have "resolve_child cfg now redis c d = d" using held_unmet [OF assms(1), of c] assms(2) by (auto simp: resolve_child_def)
  then show ?thesis by (simp add: unmoved_def)
next
  case False
  then show ?thesis
    by (auto simp: resolve_child_def split: option.split dest!: get_by_SomeD intro!: promote_unmoved)
qed

lemma unmoved_held: "held d parent cs \<Longrightarrow> unmoved parent cs d d' \<Longrightarrow> held d' parent cs"
  by (auto simp: unmoved_def intro: held_mono)

lemma unmoved_trans: "unmoved parent cs d d1 \<Longrightarrow> unmoved parent cs d1 d2 \<Longrightarrow> unmoved parent cs d d2"
  by (simp add: unmoved_def)

lemma resolver_unmoved:
  assumes "held d parent cs" "\<exists>q. job_by_id d parent = Some q \<and> j_status q \<noteq> WAITING"
  shows "unmoved parent cs d (fold (resolve_child cfg now redis) xs d)"
  using assms
proof (induction xs arbitrary: d)
  case (Cons x xs)
  have u: "unmoved parent cs d (resolve_child cfg now redis x d)" using Cons.prems by (rule resolve_child_unmoved)
  have "\<exists>q. job_by_id (resolve_child cfg now redis x d) parent = Some q \<and> j_status q \<noteq> WAITING"
    using Cons.prems(2) u by (simp add: unmoved_def)
  from Cons.IH [OF unmoved_held [OF Cons.prems(1) u] this] u show ?case by (simp add: unmoved_trans)
qed (simp add: unmoved_def)

lemma resume_unmoved:
  "\<forall>c \<in> set rows. j_id c \<notin> insert parent (set cs) \<Longrightarrow> unmoved parent cs d (fold (resume_one cfg now flags) rows d)"
proof (induction rows arbitrary: d)
  case (Cons c rows)
  have "unmoved parent cs d (resume_one cfg now flags c d)"
    using Cons.prems by (simp add: resume_one_def promote_unmoved)
  then show ?case using Cons by (auto intro: unmoved_trans)
qed (simp add: unmoved_def)

lemma nudge_unmoved:
  assumes "held d parent cs" "\<exists>q. job_by_id d parent = Some q \<and> j_status q \<noteq> WAITING" "distinct (map j_id (jobs d))"
  shows "unmoved parent cs d (nudge_apply z d)"
proof (cases z)
  case (ResolverMessage cfg now redis v)
  then show ?thesis
    using resolver_unmoved [OF assms(1,2)] by (auto simp: resolver_handle_message_def unmoved_def split: sum.split option.split)
next
  case (ResumePass cfg now flags cursor)
  have "j_id c \<notin> insert parent (set cs)" if "c \<in> set (promotable_waiting cursor d)" for c
  proof -
    have c: "c \<in> set (jobs d)" "j_status c = WAITING" "\<not> has_unmet_parent d (j_id c)"
      using that by (auto simp: promotable_waiting_def dest!: in_set_takeD)
    then have "job_by_id d (j_id c) = Some c" using assms(3) by (simp add: get_by_Some_iff)
    then show ?thesis using c held_unmet [OF assms(1)] assms(2) by auto
  qed
  then show ?thesis using ResumePass by (simp add: resume_unblocked_waiting_once_def Let_def resume_unmoved)
qed

lemma promote_child_ids: "map j_id (jobs (promote_child cfg now child d)) = map j_id (jobs d)"
  by (simp add: promote_child_def promote_waiting_to_pending_def Let_def submit_def map_update_where)

lemma fold_ids: "(\<And>x d. map j_id (jobs (f x d)) = map j_id (jobs d)) \<Longrightarrow> map j_id (jobs (fold f xs d)) = map j_id (jobs d)"
  by (induction xs arbitrary: d) simp_all

lemma nudge_ids: "map j_id (jobs (nudge_apply z d)) = map j_id (jobs d)"
proof (cases z)
  case (ResolverMessage cfg now redis v)
  have "map j_id (jobs (resolve_child cfg now redis c d)) = map j_id (jobs d)" for c d
    by (simp add: resolve_child_def promote_child_ids split: option.split)
  then show ?thesis using ResolverMessage by (auto simp: resolver_handle_message_def fold_ids split: sum.split option.split)
next
  case (ResumePass cfg now flags cursor)
  have "map j_id (jobs (resume_one cfg now flags c d)) = map j_id (jobs d)" for c d by (simp add: resume_one_def promote_child_ids)
  then show ?thesis using ResumePass by (simp add: resume_unblocked_waiting_once_def Let_def fold_ids)
qed

lemma nudges_unmoved:
  assumes "held d parent cs" "\<exists>q. job_by_id d parent = Some q \<and> j_status q \<noteq> WAITING" "distinct (map j_id (jobs d))"
  shows "unmoved parent cs d (fold nudge_apply zs d)"
  using assms
proof (induction zs arbitrary: d)
  case (Cons z zs)
  note u = nudge_unmoved [OF Cons.prems, of z]
  have "\<exists>q. job_by_id (nudge_apply z d) parent = Some q \<and> j_status q \<noteq> WAITING" using Cons.prems(2) u by (simp add: unmoved_def)
  from Cons.IH [OF unmoved_held [OF Cons.prems(1) u] this] Cons.prems(3) nudge_ids [of z d] u show ?case by (auto intro: unmoved_trans)
qed simp

lemma held_intro:
  assumes "\<forall>(c, q) \<in> set (zip cs (parent # cs)). dep_edge d c q" "\<exists>q. job_by_id d parent = Some q \<and> j_status q \<noteq> COMPLETED"
    "\<forall>c \<in> set cs. \<exists>j. job_by_id d c = Some j \<and> j_status j = WAITING"
  shows "held d parent cs"
  using assms
proof (induction cs arbitrary: parent)
  case (Cons c cs)
  have "held d c cs" by (rule Cons.IH) (use Cons.prems in auto)
  then show ?case using Cons.prems by auto
qed simp

lemma fold_put_distinct: "distinct (map fst (acc @ kvs)) \<Longrightarrow> fold (\<lambda>(i, s). put_status i s) kvs acc = acc @ kvs"
proof (induction kvs arbitrary: acc)
  case (Cons kv kvs)
  have put: "i \<notin> fst ` set acc \<Longrightarrow> put_status i s acc = acc @ [(i, s)]" for i s by (induction i s acc rule: put_status.induct) auto
  obtain i s where kv: "kv = (i, s)" by (cases kv)
  have "i \<notin> fst ` set acc" using Cons.prems kv by auto
  then show ?case using Cons.IH [of "acc @ [kv]"] Cons.prems by (simp add: kv put)
qed simp

text \<open>
  A chain that is created behind a dead letter is stuck. Whatever messages the resolver gets and however
  often the resume sweep runs, the dead letter and every job waiting behind it stay exactly as they were
  written.
\<close>

theorem stuck_chain_holds:
  assumes "stuck_input_ok x" "\<not> sk_root_completed x" "create_stuck_dag e p x w = Inr (True, w')"
    "distinct (map j_id (jobs (lw_db w)))" "distinct (upstream_id e (pr_tenant_id p) x # root_id e (pr_tenant_id p) x # all_step_ids e (pr_tenant_id p) x)"
  shows "(\<exists>j. job_by_id (lw_db w') (root_id e (pr_tenant_id p) x) = Some j \<and> j_status j = DEAD_LETTER \<and> j_remediation_hint j = Some (sk_remediation_hint x))
    \<and> (\<forall>c \<in> set (step_ids e (pr_tenant_id p) x). \<exists>j. job_by_id (lw_db w') c = Some j \<and> j_status j = WAITING)
    \<and> (\<forall>zs. \<forall>c \<in> insert (root_id e (pr_tenant_id p) x) (set (step_ids e (pr_tenant_id p) x)).
         job_by_id (fold nudge_apply zs (lw_db w')) c = job_by_id (lw_db w') c)"
proof -
  let ?t = "pr_tenant_id p" and ?d = "lw_db w'"
  let ?up = "upstream_id e ?t x" and ?root = "root_id e ?t x" and ?cs = "step_ids e ?t x"
  let ?z = "zip ?cs (map (\<lambda>k. step_status k (sk_failed_step x)) [1..<Suc (sk_waiting_steps x)])"
  obtain u err where c: "jobs ?d = jobs (lw_db w) @ map (chain_row e ?t u x (sk_remediation_hint x) err) (expected_chain e ?t x)"
    "\<forall>i \<in> fst ` set (expected_chain e ?t x). i \<notin> j_id ` set (jobs (lw_db w))"
    "job_dependencies ?d = job_dependencies (lw_db w) @ map (\<lambda>(c, q). \<lparr>d_job_id = c, d_depends_on_job_id = q\<rparr>) (zip (?root # ?cs) (?up # ?root # ?cs))"
    using stuck_created [OF assms(1,3)] by blast
  have len: "length ?cs = sk_waiting_steps x" by (rule length_step_ids [OF assms(1)])
  have "sk_failed_step x = None" using assms(1,2) by (auto simp: stuck_input_ok_def split: option.splits)
  then have z: "map fst ?z = ?cs" "\<forall>kv \<in> set ?z. snd kv = WAITING"
    using len by (auto simp: step_status_def simp del: upt_Suc dest!: set_zip_rightD)
  have "distinct (?up # ?root # ?cs)" using assms(5) by (auto simp: step_ids_def dest: in_set_takeD)
  then have keys: "distinct (map fst ((?up, COMPLETED) # (?root, DEAD_LETTER) # ?z))" using z(1) by simp
  then have ex: "expected_chain e ?t x = (?up, COMPLETED) # (?root, DEAD_LETTER) # ?z"
    using fold_put_distinct [of "[]" "(?up, COMPLETED) # (?root, DEAD_LETTER) # ?z"] assms(2) by (simp add: expected_chain_def del: upt_Suc)
  have "map j_id (jobs ?d) = map j_id (jobs (lw_db w)) @ map fst (expected_chain e ?t x)" by (simp add: c(1) comp_def)
  moreover have "distinct (map fst (expected_chain e ?t x))" unfolding ex by (rule keys)
  moreover have "set (map fst (expected_chain e ?t x)) \<inter> set (map j_id (jobs (lw_db w))) = {}"
    using c(2) by (simp only: set_map) blast
  ultimately have dist: "distinct (map j_id (jobs ?d))" using assms(4) by (simp only: distinct_append) blast
  have row: "job_by_id ?d (fst kv) = Some (chain_row e ?t u x (sk_remediation_hint x) err kv)" if "kv \<in> set (expected_chain e ?t x)" for kv
    using that c(1) dist by (auto simp: get_by_Some_iff)
  have root: "job_by_id ?d ?root = Some (chain_row e ?t u x (sk_remediation_hint x) err (?root, DEAD_LETTER))"
    using row [of "(?root, DEAD_LETTER)"] by (simp add: ex)
  have hint: "j_remediation_hint (chain_row e ?t u x (sk_remediation_hint x) err (?root, DEAD_LETTER)) = Some (sk_remediation_hint x)"
    using assms(2) by (simp add: chain_row_def dead_letter_id_def Let_def)
  have steps: "\<exists>j. job_by_id ?d c = Some j \<and> j_status j = WAITING" if i: "c \<in> set ?cs" for c
  proof -
    from i have "c \<in> set (map fst ?z)" unfolding z(1) .
    then obtain kv where kv: "kv \<in> set ?z" "fst kv = c" unfolding set_map by blast
    then have "kv \<in> set (expected_chain e ?t x)" unfolding ex by (simp del: upt_Suc)
    then show ?thesis using row bspec [OF z(2) kv(1)] kv(2) by fastforce
  qed
  have "held ?d ?root ?cs"
  proof (rule held_intro)
    show "\<forall>(c, q) \<in> set (zip ?cs (?root # ?cs)). dep_edge ?d c q" by (auto simp: dep_edge_def c(3) intro!: bexI)
  qed (use root steps in auto)
  from nudges_unmoved [OF this _ dist] root have "unmoved ?root ?cs ?d (fold nudge_apply zs ?d)" for zs by simp
  then show ?thesis using root hint steps by (auto simp: unmoved_def)
qed

section \<open>Witnesses\<close>

lemma insert_rows_ok:
  "distinct (map j_id js) \<Longrightarrow> j_id ` set js \<inter> j_id ` set (jobs (lw_db w)) = {} \<Longrightarrow> \<exists>w'. insert_rows js w = Inr w'"
proof (induction js arbitrary: w)
  case (Cons j js)
  then obtain w1 where w1: "insert_row j w = Inr w1" "jobs (lw_db w1) = jobs (lw_db w) @ [j]" by (auto simp: insert_row_def)
  have "\<exists>w'. insert_rows js w1 = Inr w'" by (rule Cons.IH) (use Cons.prems w1(2) in auto)
  then show ?case using w1(1) by simp
qed simp

lemma link_chain_ok:
  "distinct cs \<Longrightarrow> \<forall>x \<in> set (job_dependencies d). d_job_id x \<notin> set cs \<Longrightarrow> \<exists>d'. link_chain parent cs d = Inr d'"
proof (induction cs arbitrary: parent d)
  case (Cons c cs)
  then have "dep_add c [parent] d = Inr (d\<lparr>job_dependencies := job_dependencies d @ [\<lparr>d_job_id = c, d_depends_on_job_id = parent\<rparr>]\<rparr>)"
    by (auto simp: dep_add_def)
  moreover have "\<exists>d'. link_chain c cs (d\<lparr>job_dependencies := job_dependencies d @ [\<lparr>d_job_id = c, d_depends_on_job_id = parent\<rparr>]\<rparr>) = Inr d'"
    by (rule Cons.IH) (use Cons.prems in auto)
  ultimately show ?case by simp
qed simp

definition lab_lab :: lab_env where
  "lab_lab = \<lparr>le_uuid5 = (\<lambda>_ s. to_nat s), le_max_attempts = 3, le_now = 100\<rparr>"

definition lab_chaos :: principal where
  "lab_chaos = \<lparr>pr_kind = ''service_account'', pr_id = 4, pr_tenant_id = 7, pr_scopes = [''chaos:invoke'']\<rparr>"

definition empty_world :: lab_world where
  "empty_world = \<lparr>lw_db = empty_db, lw_users = [], lw_sent = []\<rparr>"

definition lab_chain :: stuck_input where
  "lab_chain = \<lparr>sk_chain_name = ''drill'', sk_waiting_steps = 2, sk_job_type = ''bulk_api_sync'', sk_remediation_hint = ''wait_and_replay'',
     sk_error_message = Some ''down'', sk_root_completed = False, sk_child_age_seconds = 0, sk_failed_step = None\<rparr>"

lemma lab_chain_ids: "distinct (upstream_id lab_lab 7 lab_chain # root_id lab_lab 7 lab_chain # all_step_ids lab_lab 7 lab_chain)"
proof -
  let ?roles = "''upstream'' # ''root'' # map (\<lambda>k. ''step-'' @ show_nat k) [1..<Suc max_waiting_steps]"
  have "distinct ?roles" by code_simp
  moreover have "upstream_id lab_lab 7 lab_chain # root_id lab_lab 7 lab_chain # all_step_ids lab_lab 7 lab_chain =
      map (\<lambda>r. to_nat (uuid_str 7 @ '':'' @ ''drill'' @ '':'' @ r)) ?roles"
    by (simp add: upstream_id_def root_id_def all_step_ids_def chain_id_def lab_lab_def lab_chain_def del: upt_Suc)
  moreover have "inj (\<lambda>r. to_nat (uuid_str 7 @ '':'' @ ''drill'' @ '':'' @ r))" by (simp add: inj_on_def)
  ultimately show ?thesis by (simp only: distinct_map) (meson inj_on_subset subset_UNIV)
qed

lemma lab_chain_created: "\<exists>w'. create_stuck_dag lab_lab lab_chaos lab_chain empty_world = Inr (True, w')"
proof -
  obtain u w1 where o: "fixture_owner lab_lab 7 empty_world = (u, w1)" by fastforce
  have j1: "jobs (lw_db w1) = []" "job_dependencies (lw_db w1) = []"
    using fixture_owner_adds [OF o] by (simp_all add: empty_world_def empty_db_def)
  let ?rows = "map (chain_row lab_lab 7 (us_id u) lab_chain ''wait_and_replay'' ''down'') (expected_chain lab_lab 7 lab_chain)"
  have "distinct (map j_id ?rows)"
    using fold_put_keys(2) [of "[]"] by (simp add: comp_def expected_chain_def del: fold.simps upt_Suc)
  then obtain w2 where w2: "insert_rows ?rows w1 = Inr w2" using insert_rows_ok [of ?rows w1] j1 by auto
  have "job_dependencies (lw_db w2) = []" using insert_rows_adds [OF w2] j1(2) by simp
  then obtain d where "link_chain (upstream_id lab_lab 7 lab_chain) (root_id lab_lab 7 lab_chain # step_ids lab_lab 7 lab_chain) (lw_db w2) = Inr d"
    using link_chain_ok [of "root_id lab_lab 7 lab_chain # step_ids lab_lab 7 lab_chain" "lw_db w2"] lab_chain_ids
    by (auto simp: step_ids_def dest: in_set_takeD)
  then show ?thesis
    using o w2 by (simp add: create_stuck_dag_def lab_chaos_def validated_hint_def remediation_hints_def lab_chain_def [THEN arg_cong, of sk_remediation_hint]
      lab_chain_def [THEN arg_cong, of sk_error_message] given_text_def empty_world_def [THEN arg_cong, of lw_db] empty_db_def [THEN arg_cong, of jobs] Let_def)
qed

theorem stuck_chain_holds_witness:
  "\<exists>w'. create_stuck_dag lab_lab lab_chaos lab_chain empty_world = Inr (True, w')
     \<and> job_by_id (fold nudge_apply [ResumePass default_settings 200 (PauseFlags []) None] (lw_db w')) (root_id lab_lab 7 lab_chain)
       = job_by_id (lw_db w') (root_id lab_lab 7 lab_chain)"
proof -
  obtain w' where w': "create_stuck_dag lab_lab lab_chaos lab_chain empty_world = Inr (True, w')" using lab_chain_created by blast
  have ok: "stuck_input_ok lab_chain" "\<not> sk_root_completed lab_chain" by (simp_all add: stuck_input_ok_def lab_chain_def max_waiting_steps_def)
  have t: "pr_tenant_id lab_chaos = 7" by (simp add: lab_chaos_def)
  have "distinct (map j_id (jobs (lw_db empty_world)))" by (simp add: empty_world_def empty_db_def)
  from stuck_chain_holds [OF ok w' this, unfolded t, OF lab_chain_ids] show ?thesis using w' by blast
qed

theorem fixtures_written_once_witness:
  "\<exists>i w'. create_bad_data_job lab_lab lab_chaos ''bad'' ''csv_upload'' None (Some ''row 3'') empty_world = Inr ((i, True), w')
     \<and> create_bad_data_job lab_lab lab_chaos ''bad'' ''csv_upload'' None None w' = Inr ((i, False), w')"
proof -
  obtain u w1 where o: "fixture_owner lab_lab 7 empty_world = (u, w1)" by fastforce
  have j1: "jobs (lw_db w1) = []" using fixture_owner_adds [OF o] by (simp add: empty_world_def empty_db_def)
  have "visible_job 7 i (lw_db empty_world) = None" for i by (simp add: visible_job_def empty_world_def empty_db_def)
  then obtain i w' where c: "create_bad_data_job lab_lab lab_chaos ''bad'' ''csv_upload'' None (Some ''row 3'') empty_world = Inr ((i, True), w')"
    using o j1 by (simp add: create_bad_data_job_def declared_hint_def lab_chaos_def given_text_def insert_row_def Let_def)
  from fixtures_written_once [OF refl, THEN conjunct1, rule_format, OF c] c show ?thesis by blast
qed

theorem fixtures_disposed_witness:
  "lw_users (dispose_fixtures 300 False [] (fold lab_apply [(lab_lab, lab_chaos, StuckDag lab_chain), (lab_lab, lab_chaos, Mislabeled ''m'' ''csv_upload'')] empty_world)) = []"
proof -
  have "lab_ready empty_world" by (simp add: lab_ready_def empty_world_def empty_db_def)
  from fixtures_disposed [OF this refl] show ?thesis unfolding empty_world_def [THEN arg_cong, of lw_users, simplified] by blast
qed

end
