(* ===== verification/Processors.thy ===== *)
theory Processors
  imports Progress_Stream Circuit_Breaker Dispatcher Lab_Stories
begin

text \<open>
  The processors a run calls (\<open>workers/async_tasks.py\<close>, \<open>workers/thread_adapters.py\<close>,
  \<open>workers/cpu_processors.py\<close>). A processor takes a stored payload, reports progress, and returns a
  result or raises. Sleeps are left out; what chance decides, and the order in which concurrent calls
  enter and leave the breaker, are arguments. \<open>publish\<close> never raises (\<open>workers/kafka_producer.py\<close> logs
  what it cannot send), so the updates are a list. Percentages are computed in rationals.
\<close>

section \<open>Reading a payload\<close>

text \<open>\<open>payload.get(key, default)\<close>, and \<open>int(value)\<close> of a stored value.\<close>

definition dict_get :: "dict \<Rightarrow> string \<Rightarrow> json \<Rightarrow> json" where
  "dict_get d k dflt = (case map_of d k of None \<Rightarrow> dflt | Some v \<Rightarrow> v)"

fun int_of_value :: "json \<Rightarrow> app_error + int" where
  "int_of_value (JInt i) = Inr i"
| "int_of_value (JBool b) = Inr (if b then 1 else 0)"
| "int_of_value (JFloat q) = Inr (if 0 \<le> q then \<lfloor>q\<rfloor> else \<lceil>q\<rceil>)"
| "int_of_value (JStr s) = (case py_int s of None \<Rightarrow> Inl ValueError | Some i \<Rightarrow> Inr i)"
| "int_of_value _ = Inl TypeError"

definition clamp :: "int \<Rightarrow> int \<Rightarrow> int \<Rightarrow> int" where
  "clamp lo hi i = max lo (min i hi)"

definition bounded_field :: "dict \<Rightarrow> string \<Rightarrow> int \<Rightarrow> int \<Rightarrow> int \<Rightarrow> app_error + nat" where
  "bounded_field d k dflt lo hi =
     (case int_of_value (dict_get d k (JInt dflt)) of Inl e \<Rightarrow> Inl e | Inr i \<Rightarrow> Inr (nat (clamp lo hi i)))"

type_synonym update = "int \<times> string"

text \<open>\<open>int(done / total * 100)\<close>.\<close>

definition percent_of :: "nat \<Rightarrow> nat \<Rightarrow> int" where
  "percent_of k n = int (k * 100 div n)"

section \<open>Endpoints behind the breaker (\<open>workers/async_tasks.py\<close>)\<close>

definition max_endpoint_count :: int where
  "max_endpoint_count = 100"

definition bulk_api_breaker :: breaker where
  "bulk_api_breaker = new_breaker ''bulk-api-sync'' 3 30"

definition downstream_flag_key :: string where
  "downstream_flag_key = ''chaos:downstream:bulk_api_sync''"

record degradation =
  dg_mode :: string
  dg_delay_ms :: int

text \<open>\<open>text.partition(':')\<close>.\<close>

definition partition_colon :: "string \<Rightarrow> string \<times> string" where
  "partition_colon s = (takeWhile (\<lambda>c. c \<noteq> CHR '':'') s, drop 1 (dropWhile (\<lambda>c. c \<noteq> CHR '':'') s))"

definition parse_degradation :: "string option \<Rightarrow> degradation option" where
  "parse_degradation raw =
     (case raw of
        None \<Rightarrow> None
      | Some s \<Rightarrow>
          (let (mode, delay) = partition_colon s
           in if mode \<notin> {''fail'', ''slow''} then None
              else Some \<lparr>dg_mode = mode, dg_delay_ms = max 0 (case py_int delay of None \<Rightarrow> 0 | Some i \<Rightarrow> i)\<rparr>))"

text \<open>\<open>lookup\<close> is \<open>None\<close> when Redis does not answer.\<close>

definition read_degradation :: "bool \<Rightarrow> string option option \<Rightarrow> degradation option" where
  "read_degradation chaos_enabled lookup =
     (if \<not> chaos_enabled then None else case lookup of None \<Rightarrow> None | Some raw \<Rightarrow> parse_degradation raw)"

text \<open>What an endpoint answers: the records it synced, or the \<open>503\<close>. \<open>unlucky\<close> is the one call in ten.\<close>

definition do_call :: "degradation option \<Rightarrow> bool \<Rightarrow> nat \<Rightarrow> nat option" where
  "do_call degraded unlucky records =
     (case degraded of
        Some d \<Rightarrow> if dg_mode d = ''slow'' then Some records else None
      | None \<Rightarrow> if unlucky then None else Some records)"

datatype endpoint_answer = Synced nat | CircuitOpen | Failed503

fun answer_json :: "nat \<times> endpoint_answer \<Rightarrow> json" where
  "answer_json (i, Synced n) = JObj [(''endpoint'', JInt (int i)), (''status'', JStr ''ok''), (''records_synced'', JInt (int n))]"
| "answer_json (i, CircuitOpen) = JObj [(''endpoint'', JInt (int i)), (''status'', JStr ''error''), (''code'', JStr ''circuit_open'')]"
| "answer_json (i, Failed503) = JObj [(''endpoint'', JInt (int i)), (''status'', JStr ''error''), (''code'', JInt 503)]"

text \<open>
  The tasks of one job, in the order the breaker's lock grants their two sections: task \<open>i\<close> enters, or
  leaves with its endpoint's answer; between them calls of other jobs use the same breaker.
\<close>

datatype sync_step =
    CallEnter nat clock "time option"
  | CallLeave nat clock bool nat
  | Elsewhere breaker_event

record sync_run =
  sr_breaker :: breaker
  sr_in_flight :: "(nat \<times> bool) list"
  sr_results :: "(nat \<times> endpoint_answer) list"

definition call_started :: "nat \<Rightarrow> sync_run \<Rightarrow> bool" where
  "call_started i r \<longleftrightarrow> i \<in> fst ` set (sr_in_flight r) \<or> i \<in> fst ` set (sr_results r)"

fun call_one :: "nat \<Rightarrow> degradation option \<Rightarrow> sync_step \<Rightarrow> sync_run \<Rightarrow> sync_run" where
  "call_one n degraded (CallEnter i clk signal) r =
     (if n \<le> i \<or> call_started i r then r
      else case call_enter clk signal (sr_breaker r) of
        (Rejected, b) \<Rightarrow> r\<lparr>sr_breaker := b, sr_results := sr_results r @ [(i, CircuitOpen)]\<rparr>
      | (adm, b) \<Rightarrow> r\<lparr>sr_breaker := b, sr_in_flight := sr_in_flight r @ [(i, adm = AdmittedProbe)]\<rparr>)"
| "call_one n degraded (CallLeave i clk unlucky records) r =
     (case map_of (sr_in_flight r) i of
        None \<Rightarrow> r
      | Some is_probe \<Rightarrow>
          (let called = do_call degraded unlucky records
           in r\<lparr>sr_breaker := call_exit clk is_probe (case called of Some _ \<Rightarrow> Returned | None \<Rightarrow> Raised PyOther) (sr_breaker r),
                sr_in_flight := filter (\<lambda>x. fst x \<noteq> i) (sr_in_flight r),
                sr_results := sr_results r @ [(i, case called of Some m \<Rightarrow> Synced m | None \<Rightarrow> Failed503)]\<rparr>))"
| "call_one n degraded (Elsewhere e) r = r\<lparr>sr_breaker := breaker_apply e (sr_breaker r)\<rparr>"

definition run_calls :: "nat \<Rightarrow> degradation option \<Rightarrow> sync_step list \<Rightarrow> breaker \<Rightarrow> sync_run" where
  "run_calls n degraded steps b =
     fold (call_one n degraded) steps \<lparr>sr_breaker = b, sr_in_flight = [], sr_results = []\<rparr>"

definition synced_count :: "(nat \<times> endpoint_answer) list \<Rightarrow> nat" where
  "synced_count rs = length (filter (\<lambda>x. case snd x of Synced _ \<Rightarrow> True | _ \<Rightarrow> False) rs)"

text \<open>
  \<open>None\<close>: some call has not come back yet. Otherwise the updates, how the processor ends, and the
  breaker.
\<close>

definition sync_updates :: "nat \<Rightarrow> update list" where
  "sync_updates n = (0, ''Starting sync of '' @ show_nat n @ '' endpoints'')
     # map (\<lambda>k. (percent_of k n, ''Synced '' @ show_nat k @ ''/'' @ show_nat n @ '' endpoints'')) [1..<Suc n]"

definition process_bulk_api_sync ::
    "(app_error \<Rightarrow> string) \<Rightarrow> degradation option \<Rightarrow> dict \<Rightarrow> sync_step list \<Rightarrow> breaker \<Rightarrow> (update list \<times> processor_end \<times> breaker) option" where
  "process_bulk_api_sync str degraded payload steps b =
     (case bounded_field payload ''endpoint_count'' 5 0 max_endpoint_count of
        Inl e \<Rightarrow> Some ([], PRaises (str e), b)
      | Inr n \<Rightarrow>
          if n = 0
          then Some ([(0, ''Starting sync of 0 endpoints''), (100, ''No endpoints to sync'')],
                 PReturns [(''endpoints_synced'', JInt 0), (''errors'', JInt 0), (''total'', JInt 0), (''results'', JArr [])], b)
          else let r = run_calls n degraded steps b; rs = sr_results r; ok = synced_count rs; errors = length rs - ok
               in if length rs \<noteq> n then None
                  else Some (sync_updates n,
                    (if ok = 0
                     then PRaises (''bulk api sync failed: all '' @ show_nat errors @ '' endpoint calls failed (0 of '' @ show_nat n @ '' endpoints returned a result)'')
                     else PReturns [(''endpoints_synced'', JInt (int ok)), (''errors'', JInt (int errors)), (''total'', JInt (int n)),
                       (''results'', JArr (map answer_json rs))]),
                    sr_breaker r))"

section \<open>Rows in chunks (\<open>workers/thread_adapters.py\<close>)\<close>

definition max_row_count :: int where
  "max_row_count = 1000000"

definition max_chunk_size :: int where
  "max_chunk_size = 100000"

record chunk_result =
  ck_start :: nat
  ck_end :: nat
  ck_checksum :: nat

definition parse_chunk :: "nat \<Rightarrow> nat \<Rightarrow> chunk_result" where
  "parse_chunk a b = \<lparr>ck_start = a, ck_end = b, ck_checksum = sum_list [0..<b - a] mod 65536\<rparr>"

text \<open>\<open>range(start, row_count, chunk_size)\<close>, one chunk after the other.\<close>

function csv_chunks :: "nat \<Rightarrow> nat \<Rightarrow> nat \<Rightarrow> chunk_result list" where
  "csv_chunks rows step start =
     (if rows \<le> start \<or> step = 0 then []
      else parse_chunk start (min (start + step) rows) # csv_chunks rows step (start + step))"
  by pat_completeness auto

termination by (relation "measure (\<lambda>(rows, step, start). rows - start)") auto

declare csv_chunks.simps [simp del]

definition total_chunks :: "nat \<Rightarrow> nat \<Rightarrow> nat" where
  "total_chunks rows step = max 1 ((rows + step - 1) div step)"

definition en_dash :: string where
  "en_dash = [CHR 0xE2, CHR 0x80, CHR 0x93]"

definition csv_updates :: "nat \<Rightarrow> nat \<Rightarrow> update list" where
  "csv_updates rows step =
     (0, ''Parsing '' @ show_nat rows @ '' rows in chunks of '' @ show_nat step)
     # map (\<lambda>(k, c). (percent_of (Suc k) (total_chunks rows step), ''Parsed rows '' @ show_nat (ck_start c) @ en_dash @ show_nat (ck_end c)))
         (List.enumerate 0 (csv_chunks rows step 0))"

text \<open>\<open>clock k\<close> is when the \<open>k\<close>-th update is offered to the throttle.\<close>

fun rate_limited_updates :: "(nat \<Rightarrow> time) \<Rightarrow> nat \<Rightarrow> update list \<Rightarrow> throttle \<Rightarrow> update list" where
  "rate_limited_updates clk k [] th = []"
| "rate_limited_updates clk k (u # us) th =
     (case rate_limited (clk k) (fst u) th of
        (due, th') \<Rightarrow> (if due then [u] else []) @ rate_limited_updates clk (Suc k) us th')"

definition process_csv_upload :: "(app_error \<Rightarrow> string) \<Rightarrow> (nat \<Rightarrow> time) \<Rightarrow> dict \<Rightarrow> update list \<times> processor_end" where
  "process_csv_upload str clk payload =
     (case bounded_field payload ''row_count'' 500 0 max_row_count of
        Inl e \<Rightarrow> ([], PRaises (str e))
      | Inr rows \<Rightarrow>
          (case bounded_field payload ''chunk_size'' 100 1 max_chunk_size of
             Inl e \<Rightarrow> ([], PRaises (str e))
           | Inr step \<Rightarrow>
               (let cs = csv_chunks rows step 0
                in (rate_limited_updates clk 0 (csv_updates rows step) new_throttle,
                    PReturns [(''total_rows'', JInt (int (sum_list (map (\<lambda>c. ck_end c - ck_start c) cs)))),
                      (''chunks_processed'', JInt (int (length cs))), (''chunk_size'', JInt (int step))]))))"

section \<open>Documents and reports in child processes (\<open>workers/cpu_processors.py\<close>)\<close>

definition max_page_count :: int where
  "max_page_count = 1000"

definition max_group_count :: int where
  "max_group_count = 1000"

text \<open>One page of the loop: 300 words, and \<open>300 // 20\<close> entities.\<close>

fun analyze_pages :: "nat \<Rightarrow> nat \<times> nat \<Rightarrow> nat \<times> nat" where
  "analyze_pages 0 acc = acc"
| "analyze_pages (Suc k) (words, entities) = analyze_pages k (words + 300, entities + 300 div 20)"

definition analyze_document :: "dict \<Rightarrow> app_error + dict" where
  "analyze_document payload =
     (case bounded_field payload ''page_count'' 10 0 max_page_count of
        Inl e \<Rightarrow> Inl e
      | Inr pages \<Rightarrow>
          (let (words, entities) = analyze_pages pages (0, 0)
           in Inr [(''pages_analyzed'', JInt (int pages)), (''word_count'', JInt (int words)),
                   (''entities_found'', JInt (int entities)), (''avg_words_per_page'', JInt 300)]))"

definition generate_report :: "dict \<Rightarrow> app_error + dict" where
  "generate_report payload =
     (case bounded_field payload ''row_count'' 10000 0 max_row_count of
        Inl e \<Rightarrow> Inl e
      | Inr rows \<Rightarrow>
          (case bounded_field payload ''group_count'' 10 1 max_group_count of
             Inl e \<Rightarrow> Inl e
           | Inr groups \<Rightarrow>
               Inr [(''rows_processed'', JInt (int rows)), (''groups'', JInt (int groups)),
                 (''totals'', JObj (map (\<lambda>i. (''group_'' @ show_nat i, JInt (int (sum_list [0..<rows div groups])))) [0..<groups])),
                 (''output_format'', dict_get payload ''format'' (JStr ''pdf''))]))"

text \<open>
  The process pool. A pool is its generation; \<open>cp_shut\<close> are the pools that were shut down, with all
  the work they had.
\<close>

record cpu_pool =
  cp_current :: "nat option"
  cp_generation :: nat
  cp_shut :: "nat list"

definition get_pool :: "cpu_pool \<Rightarrow> nat \<times> cpu_pool" where
  "get_pool p =
     (case cp_current p of
        Some g \<Rightarrow> (cp_generation p, p)
      | None \<Rightarrow> (let g = Suc (cp_generation p) in (g, p\<lparr>cp_generation := g, cp_current := Some g\<rparr>)))"

definition reset_pool :: "nat option \<Rightarrow> cpu_pool \<Rightarrow> cpu_pool" where
  "reset_pool generation p =
     (case cp_current p of
        None \<Rightarrow> p
      | Some cur \<Rightarrow>
          if generation \<noteq> None \<and> generation \<noteq> Some (cp_generation p) then p
          else p\<lparr>cp_current := None, cp_shut := cp_shut p @ [cur]\<rparr>)"

text \<open>
  A wrapper publishes, takes the pool with its generation and submits the work; \<open>broke\<close>: a child of
  that pool died before the answer came. It then resets by the generation it was given and raises.
\<close>

definition run_in_pool ::
    "(app_error \<Rightarrow> string) \<Rightarrow> string \<Rightarrow> (dict \<Rightarrow> app_error + dict) \<Rightarrow> bool \<Rightarrow> nat \<Rightarrow> dict \<Rightarrow> cpu_pool \<Rightarrow> processor_end \<times> cpu_pool" where
  "run_in_pool str broken work broke generation payload p =
     (if broke then (PRaises broken, reset_pool (Some generation) p)
      else (case work payload of Inl e \<Rightarrow> PRaises (str e) | Inr res \<Rightarrow> PReturns res, p))"

definition process_doc_analysis ::
    "(app_error \<Rightarrow> string) \<Rightarrow> (json \<Rightarrow> string) \<Rightarrow> string \<Rightarrow> bool \<Rightarrow> nat \<Rightarrow> dict \<Rightarrow> cpu_pool \<Rightarrow> update list \<times> processor_end \<times> cpu_pool" where
  "process_doc_analysis str jstr broken broke generation payload p =
     (let (res, p') = run_in_pool str broken analyze_document broke generation payload p
      in ((5, ''Submitting document analysis to process pool'')
          # (case res of
               PReturns r \<Rightarrow> [(100, ''Analysis complete '' @ em_dash @ '' '' @ jstr (jget r ''word_count'') @ '' words across ''
                                 @ jstr (jget r ''pages_analyzed'') @ '' pages'')]
             | _ \<Rightarrow> []), res, p'))"

definition process_report_gen ::
    "(app_error \<Rightarrow> string) \<Rightarrow> (json \<Rightarrow> string) \<Rightarrow> string \<Rightarrow> bool \<Rightarrow> nat \<Rightarrow> dict \<Rightarrow> cpu_pool \<Rightarrow> update list \<times> processor_end \<times> cpu_pool" where
  "process_report_gen str jstr broken broke generation payload p =
     (let (res, p') = run_in_pool str broken generate_report broke generation payload p
      in ((5, ''Generating report over '' @ jstr (dict_get payload ''row_count'' (JInt 10000)) @ '' rows'')
          # (case res of
               PReturns r \<Rightarrow> [(100, ''Report generated '' @ em_dash @ '' '' @ jstr (jget r ''groups'') @ '' groups, format=''
                                 @ jstr (jget r ''output_format''))]
             | _ \<Rightarrow> []), res, p'))"

section \<open>What the processors promise\<close>

lemma bounded_field_range: "bounded_field d k dflt lo hi = Inr n \<Longrightarrow> 0 \<le> lo \<Longrightarrow> lo \<le> hi \<Longrightarrow> nat lo \<le> n \<and> n \<le> nat hi"
  by (auto simp: bounded_field_def clamp_def split: sum.splits)

subsection \<open>Endpoints\<close>

text \<open>Every task is in flight or has answered, once.\<close>

definition calls_ok :: "nat \<Rightarrow> sync_run \<Rightarrow> bool" where
  "calls_ok n r \<longleftrightarrow> distinct (map fst (sr_in_flight r) @ map fst (sr_results r))
     \<and> fst ` set (sr_in_flight r) \<union> fst ` set (sr_results r) \<subseteq> {..<n}"

lemma map_fst_filter_ne: "map fst (filter (\<lambda>x. fst x \<noteq> i) xs) = filter (\<lambda>k. k \<noteq> i) (map fst xs)"
  by (induction xs) auto

lemma call_one_ok:
  assumes "calls_ok n r" shows "calls_ok n (call_one n degraded st r)"
proof (cases st)
  case (CallEnter i clk signal)
  then show ?thesis using assms by (auto simp: calls_ok_def call_started_def split: prod.splits admission.splits)
next
  case (CallLeave i clk unlucky m)
  show ?thesis
  proof (cases "map_of (sr_in_flight r) i")
    case None
    then show ?thesis using assms by (simp add: CallLeave)
  next
    case (Some is_probe)
    then have "i \<in> fst ` set (sr_in_flight r)" using map_of_SomeD by force
    then have "i \<notin> fst ` set (sr_results r)" "i < n" using assms by (auto simp: calls_ok_def)
    then show ?thesis using assms by (auto simp: CallLeave Some Let_def calls_ok_def map_fst_filter_ne)
  qed
next
  case (Elsewhere e)
  then show ?thesis using assms by (simp add: calls_ok_def)
qed

lemma run_calls_ok: "calls_ok n (run_calls n degraded steps b)"
proof -
  have "calls_ok n r \<Longrightarrow> calls_ok n (fold (call_one n degraded) steps r)" for r
    by (induction steps arbitrary: r) (simp_all add: call_one_ok)
  then show ?thesis by (simp add: run_calls_def calls_ok_def)
qed

text \<open>When as many have answered as there are tasks, each has answered once and none is in flight.\<close>

lemma all_answered:
  assumes "calls_ok n r" "length (sr_results r) = n"
  shows "distinct (map fst (sr_results r))" "fst ` set (sr_results r) = {..<n}" "sr_in_flight r = []"
proof -
  show d: "distinct (map fst (sr_results r))" using assms(1) by (simp add: calls_ok_def)
  then have "card (fst ` set (sr_results r)) = n" using distinct_card [OF d] assms(2) by simp
  then show all: "fst ` set (sr_results r) = {..<n}"
    using assms(1) by (intro card_subset_eq) (auto simp: calls_ok_def)
  show "sr_in_flight r = []"
  proof (rule ccontr)
    assume "sr_in_flight r \<noteq> []"
    then obtain x where x: "x \<in> set (sr_in_flight r)" by (meson list.set_sel(1))
    then have "fst x \<in> fst ` set (sr_results r)" using assms(1) unfolding all by (auto simp: calls_ok_def)
    moreover have "fst x \<in> set (map fst (sr_in_flight r))" using x by simp
    ultimately show False using assms(1) unfolding calls_ok_def distinct_append by auto
  qed
qed

lemma percent_of_whole: "0 < n \<Longrightarrow> percent_of n n = 100"
  by (simp add: percent_of_def)

lemma percent_of_mono: "k \<le> l \<Longrightarrow> percent_of k n \<le> percent_of l n"
  by (simp add: percent_of_def div_le_mono)

lemma percent_of_bound: "k < n \<Longrightarrow> percent_of k n < 100"
proof -
  assume "k < n"
  then have "k * 100 div n < 100" by (simp add: div_less_iff_less_mult)
  then show ?thesis by (simp add: percent_of_def)
qed

lemma sync_updates_rise:
  assumes "0 < n"
  shows "length (sync_updates n) = Suc n" "sorted (map fst (sync_updates n))" "fst (last (sync_updates n)) = 100"
proof -
  show "length (sync_updates n) = Suc n" by (simp add: sync_updates_def del: upt_Suc)
  have "sorted (map (\<lambda>k. percent_of k n) [1..<Suc n])" by (auto simp: sorted_iff_nth_mono percent_of_mono simp del: upt_Suc)
  moreover have "0 \<le> percent_of k n" for k by (simp add: percent_of_def)
  ultimately show "sorted (map fst (sync_updates n))" by (simp add: sync_updates_def comp_def del: upt_Suc)
  show "fst (last (sync_updates n)) = 100" using assms by (simp add: sync_updates_def percent_of_whole)
qed

text \<open>
  A sync accounts for every endpoint. When it ends, each endpoint has answered once; the counts of the
  result are those of its answers and add up to the number asked for, which is at most a hundred
  whatever the stored payload says. A job that synced none of its endpoints fails and no other does.
  Progress rises from 0 and ends at 100.
\<close>

theorem bulk_sync_accounts:
  assumes "process_bulk_api_sync str degraded payload steps b = Some (us, res, b')"
    "bounded_field payload ''endpoint_count'' 5 0 max_endpoint_count = Inr n"
  shows "n \<le> 100 \<and> sorted (map fst us) \<and> fst (hd us) = 0 \<and> fst (last us) = 100
    \<and> (\<exists>rs. distinct (map fst rs) \<and> fst ` set rs = {..<n} \<and> synced_count rs \<le> n
         \<and> (if 0 < n \<and> synced_count rs = 0 then \<exists>m. res = PRaises m
            else res = PReturns [(''endpoints_synced'', JInt (int (synced_count rs))), (''errors'', JInt (int (n - synced_count rs))),
                   (''total'', JInt (int n)), (''results'', JArr (map answer_json rs))]))"
proof -
  have n: "n \<le> 100" using bounded_field_range [OF assms(2)] by (simp add: max_endpoint_count_def)
  show ?thesis
  proof (cases "n = 0")
    case True
    then show ?thesis using assms by (auto simp: process_bulk_api_sync_def synced_count_def intro!: exI [of _ "[]"])
  next
    case False
    let ?r = "run_calls n degraded steps b"
    have e: "length (sr_results ?r) = n" "us = sync_updates n"
      "res = (if synced_count (sr_results ?r) = 0
         then PRaises (''bulk api sync failed: all '' @ show_nat (n - synced_count (sr_results ?r)) @ '' endpoint calls failed (0 of '' @ show_nat n @ '' endpoints returned a result)'')
         else PReturns [(''endpoints_synced'', JInt (int (synced_count (sr_results ?r)))), (''errors'', JInt (int (n - synced_count (sr_results ?r)))),
           (''total'', JInt (int n)), (''results'', JArr (map answer_json (sr_results ?r)))])"
      using assms False by (auto simp: process_bulk_api_sync_def Let_def split: if_splits)
    have "synced_count (sr_results ?r) \<le> n" using e(1) length_filter_le by (metis synced_count_def)
    moreover have "fst (hd us) = 0" by (simp add: e(2) sync_updates_def)
    ultimately show ?thesis
      using n all_answered [OF run_calls_ok e(1)] e(3) sync_updates_rise [of n] False
      by (intro conjI exI [of _ "sr_results ?r"]) (simp_all add: e(2))
  qed
qed

text \<open>A schedule in which every task enters and later leaves ends the sync.\<close>

definition calls_served :: "nat \<Rightarrow> sync_step list \<Rightarrow> bool" where
  "calls_served n steps \<longleftrightarrow> (\<forall>i < n. \<exists>xs ys zs c1 signal c2 u m. steps = xs @ CallEnter i c1 signal # ys @ CallLeave i c2 u m # zs)"

lemma started_kept: "call_started i r \<Longrightarrow> call_started i (call_one n degraded st r)"
  by (cases st) (force simp: call_started_def Let_def split: prod.splits admission.splits option.splits)+

lemma started_fold: "call_started i r \<Longrightarrow> call_started i (fold (call_one n degraded) steps r)"
  by (induction steps arbitrary: r) (simp_all add: started_kept)

lemma answered_kept: "i \<in> fst ` set (sr_results r) \<Longrightarrow> i \<in> fst ` set (sr_results (fold (call_one n degraded) steps r))"
proof (induction steps arbitrary: r)
  case (Cons st steps)
  have "i \<in> fst ` set (sr_results (call_one n degraded st r))"
    using Cons.prems by (cases st) (auto simp: Let_def split: prod.splits admission.splits option.splits)
  then show ?case using Cons.IH by simp
qed simp

lemma entered_started: "i < n \<Longrightarrow> call_started i (call_one n degraded (CallEnter i clk signal) r)"
  by (auto simp: call_started_def split: prod.splits admission.splits)

lemma left_answered:
  assumes "call_started i r" shows "i \<in> fst ` set (sr_results (call_one n degraded (CallLeave i clk u m) r))"
proof (cases "map_of (sr_in_flight r) i")
  case None
  then have "i \<notin> fst ` set (sr_in_flight r)" by (simp add: map_of_eq_None_iff)
  then show ?thesis using assms by (simp add: call_started_def None)
next
  case (Some p)
  then show ?thesis by (simp add: Let_def)
qed

lemma served_answered: "calls_served n steps \<Longrightarrow> length (sr_results (run_calls n degraded steps b)) = n"
proof -
  let ?r = "run_calls n degraded steps b"
  assume served: "calls_served n steps"
  have "i \<in> fst ` set (sr_results ?r)" if i: "i < n" for i
  proof -
    obtain xs ys zs c1 signal c2 u m where s: "steps = xs @ CallEnter i c1 signal # ys @ CallLeave i c2 u m # zs"
      using served i unfolding calls_served_def by blast
    have "call_started i (fold (call_one n degraded) ys (call_one n degraded (CallEnter i c1 signal) r))" for r
      by (rule started_fold [OF entered_started [OF i]])
    then show ?thesis unfolding run_calls_def s by (simp add: answered_kept left_answered del: call_one.simps)
  qed
  moreover have ok: "calls_ok n ?r" by (rule run_calls_ok)
  ultimately have "fst ` set (sr_results ?r) = {..<n}" by (auto simp: calls_ok_def)
  moreover have "distinct (map fst (sr_results ?r))" using ok by (simp add: calls_ok_def)
  ultimately show ?thesis by (metis card_lessThan distinct_card length_map list.set_map)
qed

subsection \<open>A dependency that fails\<close>

text \<open>No other job uses the breaker meanwhile, and no reset is signalled; the breaker records its state.\<close>

fun undisturbed :: "sync_step \<Rightarrow> bool" where
  "undisturbed (CallEnter i clk signal) = (signal = None)"
| "undisturbed (CallLeave i clk u m) = True"
| "undisturbed (Elsewhere e) = (case e of Recording signal t \<Rightarrow> signal = None | _ \<Rightarrow> False)"

text \<open>While every call fails: the breaker counts the answers, opens at its threshold, and stays open.\<close>

definition failing_ok :: "sync_run \<Rightarrow> bool" where
  "failing_ok r \<longleftrightarrow>
     (cb_state (sr_breaker r) = CLOSED \<longrightarrow> int (length (sr_results r)) \<le> failure_count (sr_breaker r)
        \<and> (sr_results r = [] \<or> failure_count (sr_breaker r) < failure_threshold (sr_breaker r)))
     \<and> (cb_state (sr_breaker r) = HALF_OPEN \<longrightarrow> sr_in_flight r \<noteq> [])"

lemma failing_step:
  assumes "failing_ok r" "undisturbed st" "dg_mode d = ''fail''"
  shows "failing_ok (call_one n (Some d) st r)"
proof (cases st)
  case (CallEnter i clk signal)
  then show ?thesis using assms
    by (cases "cb_state (sr_breaker r)") (auto simp: failing_ok_def call_enter_def set_state_def Let_def split: if_splits)
next
  case (CallLeave i clk u m)
  then show ?thesis using assms
    by (cases "cb_state (sr_breaker r)")
      (auto simp: failing_ok_def do_call_def call_exit_def on_failure_def set_state_def Let_def split: option.splits)
next
  case (Elsewhere e)
  then show ?thesis using assms by (cases e) (simp_all add: failing_ok_def)
qed

lemma failing_fold:
  "failing_ok r \<Longrightarrow> list_all undisturbed steps \<Longrightarrow> dg_mode d = ''fail'' \<Longrightarrow> failing_ok (fold (call_one n (Some d)) steps r)"
  by (induction steps arbitrary: r) (simp_all add: failing_step)

lemma threshold_kept: "list_all undisturbed steps \<Longrightarrow> failure_threshold (sr_breaker (fold (call_one n degraded) steps r)) = failure_threshold (sr_breaker r)"
proof (induction steps arbitrary: r)
  case (Cons st steps)
  have "failure_threshold (sr_breaker (call_one n degraded st r)) = failure_threshold (sr_breaker r)"
    using Cons.prems by (cases st) (auto simp: breaker_defs Let_def split: prod.splits admission.splits option.splits circuit_state.splits if_splits breaker_event.splits)
  then show ?case using Cons by simp
qed simp

text \<open>Under \<open>fail\<close> no endpoint is synced; under \<open>slow\<close>, behind a closed breaker, every one is.\<close>

lemma failing_answers:
  "synced_count (sr_results r) = 0 \<Longrightarrow> dg_mode d = ''fail'' \<Longrightarrow> synced_count (sr_results (fold (call_one n (Some d)) steps r)) = 0"
proof (induction steps arbitrary: r)
  case (Cons st steps)
  have "synced_count (sr_results (call_one n (Some d) st r)) = 0"
    using Cons.prems by (cases st) (auto simp: synced_count_def do_call_def Let_def split: prod.splits admission.splits option.splits)
  then show ?case using Cons by simp
qed simp

definition slow_ok :: "sync_run \<Rightarrow> bool" where
  "slow_ok r \<longleftrightarrow> cb_state (sr_breaker r) = CLOSED \<and> synced_count (sr_results r) = length (sr_results r)"

lemma slow_fold:
  "slow_ok r \<Longrightarrow> list_all undisturbed steps \<Longrightarrow> dg_mode d = ''slow'' \<Longrightarrow> slow_ok (fold (call_one n (Some d)) steps r)"
proof (induction steps arbitrary: r)
  case (Cons st steps)
  have "slow_ok (call_one n (Some d) st r)"
    using Cons.prems
    by (cases st) (auto simp: slow_ok_def synced_count_def do_call_def call_enter_def call_exit_def on_success_def set_state_def Let_def
        split: option.splits breaker_event.splits)
  then show ?case using Cons by simp
qed simp

text \<open>
  A degraded dependency does what the flag says. The schedule is any in which each call enters and later
  leaves. Under \<open>fail\<close> a sync of at least one endpoint raises, whatever other jobs do, and the run that
  executes it takes the failure path with that error; if the job has the breaker to itself and syncs as
  many endpoints as the threshold, a closed breaker is open afterwards. Under \<open>slow\<close>, with the breaker to
  itself and closed, every endpoint is synced and the breaker stays closed.
\<close>

theorem degraded_dependency:
  assumes "bounded_field payload ''endpoint_count'' 5 0 max_endpoint_count = Inr n" "0 < n" "calls_served n steps"
    "process_bulk_api_sync str (Some d) payload steps b = out"
  shows "(dg_mode d = ''fail'' \<longrightarrow> (\<exists>us b'. out = Some (us, PRaises (''bulk api sync failed: all '' @ show_nat n
              @ '' endpoint calls failed (0 of '' @ show_nat n @ '' endpoints returned a result)''), b')
            \<and> (list_all undisturbed steps \<and> cb_state b = CLOSED \<and> 0 \<le> failure_count b \<and> failure_threshold b \<le> int n \<longrightarrow> cb_state b' = OPEN)))
    \<and> (dg_mode d = ''fail'' \<longrightarrow> (\<forall>cfg now env rc s. rc_job_type rc = ''bulk_api_sync'' \<and> drop_key ''__traceparent'' (rc_payload rc) = payload
            \<and> re_process env ''async_tasks.process_bulk_api_sync'' payload = fst (snd (the out)) \<longrightarrow>
            finish_run cfg now env rc s = finish_failure cfg (re_push_ok env) now rc (re_decision env) (''bulk api sync failed: all '' @ show_nat n
              @ '' endpoint calls failed (0 of '' @ show_nat n @ '' endpoints returned a result)'') s))
    \<and> (dg_mode d = ''slow'' \<and> list_all undisturbed steps \<and> cb_state b = CLOSED \<longrightarrow>
         (\<exists>us rs b'. out = Some (us, PReturns [(''endpoints_synced'', JInt (int n)), (''errors'', JInt 0), (''total'', JInt (int n)),
            (''results'', JArr rs)], b') \<and> cb_state b' = CLOSED))"
proof -
  let ?start = "\<lparr>sr_breaker = b, sr_in_flight = [], sr_results = []\<rparr>"
  let ?r = "run_calls n (Some d) steps b"
  let ?text = "''bulk api sync failed: all '' @ show_nat n @ '' endpoint calls failed (0 of '' @ show_nat n @ '' endpoints returned a result)''"
  have len: "length (sr_results ?r) = n" by (rule served_answered [OF assms(3)])
  have out: "out = Some (sync_updates n,
      (if synced_count (sr_results ?r) = 0 then PRaises (''bulk api sync failed: all '' @ show_nat (n - synced_count (sr_results ?r))
           @ '' endpoint calls failed (0 of '' @ show_nat n @ '' endpoints returned a result)'')
       else PReturns [(''endpoints_synced'', JInt (int (synced_count (sr_results ?r)))), (''errors'', JInt (int (n - synced_count (sr_results ?r)))),
           (''total'', JInt (int n)), (''results'', JArr (map answer_json (sr_results ?r)))]), sr_breaker ?r)"
    using assms(1,2,4) len by (auto simp: process_bulk_api_sync_def Let_def)
  have fail: "out = Some (sync_updates n, PRaises ?text, sr_breaker ?r)" if "dg_mode d = ''fail''"
    using out failing_answers [of ?start d n steps] that by (simp add: run_calls_def synced_count_def)
  have opens: "cb_state (sr_breaker ?r) = OPEN"
    if "dg_mode d = ''fail''" "list_all undisturbed steps" "cb_state b = CLOSED" "0 \<le> failure_count b" "failure_threshold b \<le> int n"
  proof -
    have "failing_ok ?start" using that by (simp add: failing_ok_def)
    then have "failing_ok ?r" using failing_fold that by (simp add: run_calls_def)
    moreover have "failure_threshold (sr_breaker ?r) \<le> int n"
      using threshold_kept [OF that(2)] that(5) by (simp add: run_calls_def)
    ultimately show ?thesis
      using len assms(2) all_answered(3) [OF run_calls_ok len] by (cases "cb_state (sr_breaker ?r)") (auto simp: failing_ok_def)
  qed
  have slow: "slow_ok ?r" if "dg_mode d = ''slow''" "list_all undisturbed steps" "cb_state b = CLOSED"
    using slow_fold [of ?start steps d n] that by (simp add: run_calls_def slow_ok_def synced_count_def)
  have run: "finish_run cfg now env rc s = finish_failure cfg (re_push_ok env) now rc (re_decision env) ?text s"
    if "dg_mode d = ''fail''" "rc_job_type rc = ''bulk_api_sync''" "drop_key ''__traceparent'' (rc_payload rc) = payload"
      "re_process env ''async_tasks.process_bulk_api_sync'' payload = fst (snd (the out))" for cfg now env rc s
  proof -
    have "processor_for (rc_job_type rc) = Some ''async_tasks.process_bulk_api_sync''"
      unfolding that(2) by code_simp
    then show ?thesis using that(4) fail [OF that(1)] by (simp add: finish_run_def that(3) Let_def execute_processor_def)
  qed
  show ?thesis
  proof (intro conjI impI allI)
    assume "dg_mode d = ''fail''"
    then show "\<exists>us b'. out = Some (us, PRaises ?text, b')
        \<and> (list_all undisturbed steps \<and> cb_state b = CLOSED \<and> 0 \<le> failure_count b \<and> failure_threshold b \<le> int n \<longrightarrow> cb_state b' = OPEN)"
      using fail opens by blast
  next
    assume "dg_mode d = ''slow'' \<and> list_all undisturbed steps \<and> cb_state b = CLOSED"
    then have "slow_ok ?r" using slow by blast
    then show "\<exists>us rs b'. out = Some (us, PReturns [(''endpoints_synced'', JInt (int n)), (''errors'', JInt 0), (''total'', JInt (int n)),
            (''results'', JArr rs)], b') \<and> cb_state b' = CLOSED"
      using out len assms(2) by (simp add: slow_ok_def)
  qed (use run in blast)
qed

subsection \<open>Rows\<close>

lemma csv_chunks_cover:
  "0 < step \<Longrightarrow> concat (map (\<lambda>c. [ck_start c..<ck_end c]) (csv_chunks rows step start)) = [start..<rows]
    \<and> (\<forall>c \<in> set (csv_chunks rows step start). ck_start c < ck_end c \<and> ck_end c \<le> ck_start c + step)
    \<and> length (csv_chunks rows step start) = (rows - start + step - 1) div step"
proof (induction rows step start rule: csv_chunks.induct)
  case (1 rows step start)
  show ?case
  proof (cases "rows \<le> start")
    case True
    then show ?thesis using 1 by (simp add: csv_chunks.simps [of rows step start])
  next
    case False
    let ?e = "min (start + step) rows"
    have eq: "csv_chunks rows step start = parse_chunk start ?e # csv_chunks rows step (start + step)"
      using False 1(2) by (subst csv_chunks.simps) simp
    have IH: "concat (map (\<lambda>c. [ck_start c..<ck_end c]) (csv_chunks rows step (start + step))) = [start + step..<rows]"
      "\<forall>c \<in> set (csv_chunks rows step (start + step)). ck_start c < ck_end c \<and> ck_end c \<le> ck_start c + step"
      "length (csv_chunks rows step (start + step)) = (rows - (start + step) + step - 1) div step"
      using 1 False by auto
    have "[start..<?e] @ [start + step..<rows] = [start..<rows]"
    proof (cases "start + step \<le> rows")
      case True
      then obtain k where "rows = start + step + k" by (metis le_Suc_ex)
      then show ?thesis using upt_add_eq_append [of start "start + step" k] by simp
    qed (use False in simp)
    moreover have "Suc ((rows - (start + step) + step - 1) div step) = (rows - start + step - 1) div step"
    proof (cases "start + step \<le> rows")
      case True
      then have "rows - start + step - 1 = (rows - (start + step) + step - 1) + step" using 1(2) by simp
      then show ?thesis using 1(2) by (simp only: div_add_self2 [OF less_imp_neq [OF 1(2), symmetric]])
    next
      case over: False
      then have a: "rows - (start + step) + step - 1 = step - 1" by simp
      have e: "rows - start + step - 1 = (rows - start - 1) + step" using False by simp
      have b: "(rows - start + step - 1) div step = Suc ((rows - start - 1) div step)" unfolding e using 1(2) by simp
      have c: "(rows - start - 1) div step = 0" using over False by simp
      show ?thesis unfolding a b c using 1(2) by simp
    qed
    ultimately show ?thesis using IH False 1(2) by (simp add: eq parse_chunk_def)
  qed
qed

lemma rate_limited_throttled:
  "map fst (rate_limited_updates clk k us th) = throttled (map (\<lambda>(i, u). (clk i, fst u)) (List.enumerate k us)) th"
  by (induction us arbitrary: k th) (auto split: prod.splits)

lemma offered_percents: "map snd (map (\<lambda>(i, u). (clk i, fst u)) (List.enumerate k us)) = map fst us"
  by (induction us arbitrary: k) simp_all

lemma total_chunks_pos: "0 < rows \<Longrightarrow> 0 < step \<Longrightarrow> total_chunks rows step = length (csv_chunks rows step 0)"
proof -
  assume r: "0 < rows" and s: "0 < step"
  have "step div step \<le> (rows + step - 1) div step" using r by (intro div_le_mono) simp
  then show ?thesis using csv_chunks_cover [OF s, of rows 0] s by (simp add: total_chunks_def)
qed

lemma csv_percents:
  "map fst (csv_updates rows step) = 0 # map (\<lambda>k. percent_of (Suc k) (total_chunks rows step)) [0..<length (csv_chunks rows step 0)]"
proof -
  have "map fst (map (\<lambda>(k, c). (percent_of (Suc k) t, f c)) (List.enumerate m cs)) = map (\<lambda>k. percent_of (Suc k) t) [m..<m + length cs]" for t f m and cs :: "chunk_result list"
    by (induction cs arbitrary: m) (simp_all add: upt_conv_Cons del: upt_Suc)
  from this [of "total_chunks rows step" _ 0] show ?thesis by (simp add: csv_updates_def)
qed

text \<open>At most one update of a job says 100, and none says more.\<close>

lemma csv_at_whole:
  assumes "0 < step"
  shows "length (filter (\<lambda>p. 100 \<le> p) (map fst (csv_updates rows step))) \<le> 1"
proof (cases "rows = 0")
  case True
  then show ?thesis by (simp add: csv_percents csv_chunks.simps)
next
  case False
  let ?n = "length (csv_chunks rows step 0)"
  have n: "total_chunks rows step = ?n" using False assms by (simp add: total_chunks_pos)
  have "100 \<le> percent_of (Suc k) m \<longleftrightarrow> k = m - 1" if "k < m" for k m
    using that percent_of_bound [of "Suc k" m] percent_of_whole [of m] by (cases "Suc k = m") auto
  then have "filter (\<lambda>k. 100 \<le> percent_of (Suc k) ?n) [0..<?n] = filter (\<lambda>k. k = ?n - 1) [0..<?n]"
    by (intro filter_cong) auto
  moreover have "length (filter (\<lambda>k. k = m) [0..<?n]) \<le> 1" for m
    using distinct_card [of "filter (\<lambda>k. k = m) [0..<?n]"] card_mono [of "{m}" "set (filter (\<lambda>k. k = m) [0..<?n])"] by auto
  ultimately show ?thesis by (simp add: csv_percents n filter_map comp_def)
qed

text \<open>
  An upload reads each row once. Whatever the stored payload says, as long as its two fields are numbers,
  the chunks are the rows in order, without gap or overlap, none empty and none longer than the chunk
  size; the result counts them all. However many chunks there are, at most 101 progress messages leave
  the process.
\<close>

theorem csv_reads_each_row_once:
  assumes "bounded_field payload ''row_count'' 500 0 max_row_count = Inr rows" "bounded_field payload ''chunk_size'' 100 1 max_chunk_size = Inr step"
  shows "rows \<le> 1000000 \<and> 0 < step \<and> step \<le> 100000
    \<and> concat (map (\<lambda>c. [ck_start c..<ck_end c]) (csv_chunks rows step 0)) = [0..<rows]
    \<and> (\<forall>c \<in> set (csv_chunks rows step 0). ck_start c < ck_end c \<and> ck_end c \<le> ck_start c + step)
    \<and> snd (process_csv_upload str clk payload) = PReturns [(''total_rows'', JInt (int rows)),
         (''chunks_processed'', JInt (int ((rows + step - 1) div step))), (''chunk_size'', JInt (int step))]
    \<and> length (fst (process_csv_upload str clk payload)) \<le> 101"
proof -
  have r: "rows \<le> 1000000" using bounded_field_range [OF assms(1)] by (simp add: max_row_count_def)
  have s: "0 < step" "step \<le> 100000" using bounded_field_range [OF assms(2)] by (simp_all add: max_chunk_size_def)
  note c = csv_chunks_cover [OF s(1), of rows 0]
  have "length (concat (map (\<lambda>c. [ck_start c..<ck_end c]) cs)) = sum_list (map (\<lambda>c. ck_end c - ck_start c) cs)" for cs :: "chunk_result list"
    by (induction cs) simp_all
  then have total: "sum_list (map (\<lambda>c. ck_end c - ck_start c) (csv_chunks rows step 0)) = rows" using c by (metis diff_zero length_upt)
  let ?us = "map (\<lambda>(i, u). (clk i, fst u)) (List.enumerate 0 (csv_updates rows step))"
  let ?out = "throttled ?us new_throttle"
  have snds: "map snd ?us = map fst (csv_updates rows step)" by (rule offered_percents)
  have "\<forall>u \<in> set ?us. 0 \<le> snd u"
  proof
    fix u assume "u \<in> set ?us"
    then have "snd u \<in> set (map fst (csv_updates rows step))" unfolding snds [symmetric] by force
    then show "0 \<le> snd u" by (auto simp: csv_percents percent_of_def)
  qed
  from progress_updates_bounded [OF this] have "length (filter (\<lambda>p. p < 100) ?out) \<le> 100"
    "filter (\<lambda>p. 100 \<le> p) ?out = filter (\<lambda>p. 100 \<le> p) (map snd ?us)" by blast+
  then have "length (filter (\<lambda>p. p < 100) ?out) + length (filter (\<lambda>p. \<not> p < 100) ?out) \<le> 101"
    using csv_at_whole [OF s(1), of rows] unfolding snds by (simp add: not_less)
  then have "length ?out \<le> 101" by (simp add: sum_length_filter_compl)
  then have "length (rate_limited_updates clk 0 (csv_updates rows step) new_throttle) \<le> 101"
    using rate_limited_throttled [of clk 0 "csv_updates rows step" new_throttle] by (metis length_map)
  then show ?thesis using r s c total by (simp add: process_csv_upload_def assms Let_def)
qed

theorem csv_reads_each_row_once_witness:
  "snd (process_csv_upload (\<lambda>_. []) of_nat [(''row_count'', JInt 250)])
     = PReturns [(''total_rows'', JInt 250), (''chunks_processed'', JInt 3), (''chunk_size'', JInt 100)]"
  using csv_reads_each_row_once [of "[(''row_count'', JInt 250)]" 250 100 "\<lambda>_. []" of_nat]
  by (simp add: bounded_field_def dict_get_def clamp_def max_row_count_def max_chunk_size_def)

subsection \<open>Child processes\<close>

text \<open>
  The jobs of the process: each starts on the pool it is given and ends, having broken with it or not.
  A pool breaks when one of its children is killed, and stays broken.
\<close>

datatype pool_event = JobStarts nat | ChildDies nat | JobEnds nat

record pool_world =
  pw_pool :: cpu_pool
  pw_broken :: "nat set"
  pw_jobs :: "(nat \<times> nat) list"

fun pool_apply :: "pool_event \<Rightarrow> pool_world \<Rightarrow> pool_world" where
  "pool_apply (JobStarts j) w =
     (case get_pool (pw_pool w) of (g, p) \<Rightarrow> w\<lparr>pw_pool := p, pw_jobs := pw_jobs w @ [(j, g)]\<rparr>)"
| "pool_apply (ChildDies g) w = w\<lparr>pw_broken := insert g (pw_broken w)\<rparr>"
| "pool_apply (JobEnds j) w =
     (case map_of (pw_jobs w) j of
        None \<Rightarrow> w
      | Some g \<Rightarrow> w\<lparr>pw_pool := snd (run_in_pool (\<lambda>_. []) [] analyze_document (g \<in> pw_broken w) g [] (pw_pool w)),
                    pw_jobs := filter (\<lambda>x. fst x \<noteq> j) (pw_jobs w)\<rparr>)"

definition no_pool :: pool_world where
  "no_pool = \<lparr>pw_pool = \<lparr>cp_current = None, cp_generation = 0, cp_shut = []\<rparr>, pw_broken = {}, pw_jobs = []\<rparr>"

definition pool_inv :: "pool_world \<Rightarrow> bool" where
  "pool_inv w \<longleftrightarrow> (let p = pw_pool w in
     (\<forall>g. cp_current p = Some g \<longrightarrow> g = cp_generation p \<and> g \<notin> set (cp_shut p))
     \<and> (\<forall>g \<in> set (cp_shut p). g \<le> cp_generation p \<and> g \<in> pw_broken w) \<and> distinct (cp_shut p)
     \<and> (\<forall>x \<in> set (pw_jobs w). snd x \<le> cp_generation p))"

interpretation cpu_pools: inv_step pool_apply pool_inv
proof
  show "pool_inv w \<Longrightarrow> pool_inv (pool_apply e w)" for w e
  proof (cases e)
    case (JobStarts j)
    then show "pool_inv w \<Longrightarrow> ?thesis"
      by (cases "cp_current (pw_pool w)") (force simp: pool_inv_def get_pool_def Let_def)+
  next
    case (ChildDies g)
    then show "pool_inv w \<Longrightarrow> ?thesis" by (simp add: pool_inv_def Let_def)
  next
    case (JobEnds j)
    then show "pool_inv w \<Longrightarrow> ?thesis"
      by (cases "map_of (pw_jobs w) j"; cases "cp_current (pw_pool w)")
        (auto simp: pool_inv_def run_in_pool_def reset_pool_def Let_def)
  qed
qed

text \<open>
  A reset takes only the pool that broke. However jobs start, end and lose their children, a pool that is
  shut down is one that had broken, each is shut down once, and the pool in use is none of them; so a
  healthy pool, with the work of other jobs, is never torn down. A job that ends on a broken pool leaves
  that pool out of use, and the next job gets another one.
\<close>

theorem pool_reset_scoped:
  assumes "w = fold pool_apply es no_pool"
  shows "set (cp_shut (pw_pool w)) \<subseteq> pw_broken w \<and> distinct (cp_shut (pw_pool w))
    \<and> (\<forall>g. cp_current (pw_pool w) = Some g \<longrightarrow> g \<notin> set (cp_shut (pw_pool w)))
    \<and> (\<forall>j g. map_of (pw_jobs w) j = Some g \<and> g \<in> pw_broken w \<longrightarrow>
         cp_current (pw_pool (pool_apply (JobEnds j) w)) \<noteq> Some g \<and> fst (get_pool (pw_pool (pool_apply (JobEnds j) w))) \<noteq> g)"
proof -
  have "pool_inv no_pool" by (simp add: pool_inv_def no_pool_def)
  then have inv: "pool_inv w" unfolding assms by (rule cpu_pools.fold_inv)
  have "cp_current (pw_pool (pool_apply (JobEnds j) w)) \<noteq> Some g \<and> fst (get_pool (pw_pool (pool_apply (JobEnds j) w))) \<noteq> g"
    if j: "map_of (pw_jobs w) j = Some g" "g \<in> pw_broken w" for j g
  proof -
    have "g \<le> cp_generation (pw_pool w)" using inv j(1) map_of_SomeD by (fastforce simp: pool_inv_def Let_def)
    then show ?thesis using inv j
      by (cases "cp_current (pw_pool w)") (auto simp: pool_inv_def run_in_pool_def reset_pool_def get_pool_def Let_def)
  qed
  then show ?thesis using inv by (auto simp: pool_inv_def Let_def)
qed

theorem pool_reset_scoped_witness:
  "set (cp_shut (pw_pool (fold pool_apply [JobStarts 1, JobStarts 2, ChildDies 1, JobEnds 1, JobStarts 3, JobEnds 2] no_pool))) \<subseteq> {1}
   \<and> cp_current (pw_pool (fold pool_apply [JobStarts 1, JobStarts 2, ChildDies 1, JobEnds 1, JobStarts 3, JobEnds 2] no_pool)) = Some 2"
  using pool_reset_scoped [of _ "[JobStarts 1, JobStarts 2, ChildDies 1, JobEnds 1, JobStarts 3, JobEnds 2]", OF refl]
  by (simp add: no_pool_def get_pool_def run_in_pool_def reset_pool_def)

text \<open>The two simulated computations, in closed form.\<close>

lemma analyze_pages_closed: "analyze_pages k (words, entities) = (words + 300 * k, entities + 15 * k)"
  by (induction k arbitrary: words entities) simp_all

lemma sum_range: "sum_list [0..<k] = k * (k - 1) div 2"
  by (simp add: sum_list_distinct_conv_sum_set Sum_Ico_nat)

theorem cpu_results_exact:
  assumes "bounded_field payload ''page_count'' 10 0 max_page_count = Inr pages"
    "bounded_field payload ''row_count'' 10000 0 max_row_count = Inr rows" "bounded_field payload ''group_count'' 10 1 max_group_count = Inr groups"
  shows "analyze_document payload = Inr [(''pages_analyzed'', JInt (int pages)), (''word_count'', JInt (300 * int pages)),
       (''entities_found'', JInt (15 * int pages)), (''avg_words_per_page'', JInt 300)]
    \<and> (let k = rows div groups in generate_report payload = Inr [(''rows_processed'', JInt (int rows)), (''groups'', JInt (int groups)),
         (''totals'', JObj (map (\<lambda>i. (''group_'' @ show_nat i, JInt (int (k * (k - 1) div 2)))) [0..<groups])),
         (''output_format'', dict_get payload ''format'' (JStr ''pdf''))])
    \<and> 0 < groups \<and> groups \<le> 1000 \<and> rows \<le> 1000000 \<and> pages \<le> 1000"
proof -
  have "0 < groups \<and> groups \<le> 1000 \<and> rows \<le> 1000000 \<and> pages \<le> 1000"
    using bounded_field_range [OF assms(1)] bounded_field_range [OF assms(2)] bounded_field_range [OF assms(3)]
    by (simp add: max_page_count_def max_row_count_def max_group_count_def)
  then show ?thesis by (simp add: analyze_document_def generate_report_def assms analyze_pages_closed sum_range Let_def)
qed

theorem cpu_results_exact_witness:
  "analyze_document [(''page_count'', JInt 4)] = Inr [(''pages_analyzed'', JInt 4), (''word_count'', JInt 1200),
     (''entities_found'', JInt 60), (''avg_words_per_page'', JInt 300)]"
  using cpu_results_exact [of "[(''page_count'', JInt 4)]" 4 10000 10]
  by (simp add: bounded_field_def dict_get_def clamp_def max_page_count_def max_row_count_def max_group_count_def)

section \<open>Witnesses\<close>

definition one_by_one :: "nat \<Rightarrow> sync_step list" where
  "one_by_one n = concat (map (\<lambda>i. [CallEnter i (at_time 0) None, CallLeave i (at_time 0) False 7]) [0..<n])"

lemma one_by_one_served: "calls_served n (one_by_one n)"
  unfolding calls_served_def
proof (intro allI impI)
  fix i assume i: "i < n"
  let ?f = "\<lambda>i. [CallEnter i (at_time 0) None, CallLeave i (at_time 0) False 7]"
  have "[0..<n] = [0..<i] @ i # [Suc i..<n]" using i upt_add_eq_append [of 0 i "n - i"] by (simp add: upt_conv_Cons)
  then have "one_by_one n = concat (map ?f [0..<i]) @ CallEnter i (at_time 0) None # [] @ CallLeave i (at_time 0) False 7 # concat (map ?f [Suc i..<n])"
    by (simp add: one_by_one_def)
  then show "\<exists>xs ys zs c1 signal c2 u m. one_by_one n = xs @ CallEnter i c1 signal # ys @ CallLeave i c2 u m # zs" by blast
qed

lemma one_by_one_undisturbed: "list_all undisturbed (one_by_one n)"
  by (auto simp: one_by_one_def list_all_iff)

theorem degraded_dependency_witness:
  "\<exists>us b'. process_bulk_api_sync (\<lambda>_. []) (Some \<lparr>dg_mode = ''fail'', dg_delay_ms = 0\<rparr>) [(''endpoint_count'', JInt 3)] (one_by_one 3) bulk_api_breaker
     = Some (us, PRaises ''bulk api sync failed: all 3 endpoint calls failed (0 of 3 endpoints returned a result)'', b') \<and> cb_state b' = OPEN"
proof -
  have n: "bounded_field [(''endpoint_count'', JInt 3)] ''endpoint_count'' 5 0 max_endpoint_count = Inr 3"
    by (simp add: bounded_field_def dict_get_def clamp_def max_endpoint_count_def)
  have "show_nat 3 = ''3''" by code_simp
  then show ?thesis
    using degraded_dependency [where str = "\<lambda>_. []" and d = "\<lparr>dg_mode = ''fail'', dg_delay_ms = 0\<rparr>" and b = bulk_api_breaker,
        OF n _ one_by_one_served refl]
    by (simp add: one_by_one_undisturbed bulk_api_breaker_def new_breaker_def)
qed

theorem bulk_sync_accounts_witness:
  "\<exists>us res b'. process_bulk_api_sync (\<lambda>_. []) None [(''endpoint_count'', JInt 2)] (one_by_one 2) bulk_api_breaker = Some (us, res, b')
     \<and> sorted (map fst us) \<and> fst (last us) = 100"
proof -
  have n: "bounded_field [(''endpoint_count'', JInt 2)] ''endpoint_count'' 5 0 max_endpoint_count = Inr 2"
    by (simp add: bounded_field_def dict_get_def clamp_def max_endpoint_count_def)
  have len: "length (sr_results (run_calls 2 None (one_by_one 2) bulk_api_breaker)) = 2" by (rule served_answered [OF one_by_one_served])
  obtain us res b' where e: "process_bulk_api_sync (\<lambda>_. []) None [(''endpoint_count'', JInt 2)] (one_by_one 2) bulk_api_breaker = Some (us, res, b')"
    using n len by (simp add: process_bulk_api_sync_def Let_def)
  then show ?thesis using bulk_sync_accounts [OF e n] by blast
qed

end
