(* ===== verification/Fault_Hooks.thy ===== *)
theory Fault_Hooks
  imports Processors Telemetry Alerts
begin

text \<open>
  The fault hooks of the laboratory that act through a flag in Redis (\<open>mcp/tools/chaos/\<close>
  \<open>saturate_db_pool.py\<close>, \<open>slow_query.py\<close>, \<open>degrade_downstream.py\<close>, \<open>pause_control_loop.py\<close>,
  \<open>saturate_redis.py\<close>, \<open>bad_deploy.py\<close>), the worker tasks that obey the flags (\<open>workers/db_pool_hold.py\<close>,
  \<open>workers/db_slow_query.py\<close>), and the history of deploys (\<open>mcp/tools/deploy_history.py\<close>). Held
  sessions are counted; whether the pool grants a connection is an argument. Logging is left out.
\<close>

section \<open>Flags\<close>

text \<open>A key with its value and the time it expires; \<open>SET key value EX ttl\<close>.\<close>

type_synonym flag_store = "string \<Rightarrow> (string \<times> time) option"

definition set_flag :: "time \<Rightarrow> string \<Rightarrow> string \<Rightarrow> int \<Rightarrow> flag_store \<Rightarrow> flag_store" where
  "set_flag now key v ttl st = st(key \<mapsto> (v, now + of_int ttl))"

definition flag_at :: "time \<Rightarrow> flag_store \<Rightarrow> string \<Rightarrow> string option" where
  "flag_at now st key = (case st key of None \<Rightarrow> None | Some (v, expires) \<Rightarrow> if now < expires then Some v else None)"

text \<open>A read of a flag is \<open>None\<close> when Redis does not answer.\<close>

definition read_flag :: "bool \<Rightarrow> time \<Rightarrow> flag_store \<Rightarrow> string \<Rightarrow> string option option" where
  "read_flag up now st key = (if up then Some (flag_at now st key) else None)"

section \<open>Held connections (\<open>workers/db_pool_hold.py\<close>)\<close>

definition hold_key :: string where
  "hold_key = ''chaos:db_pool:hold''"

definition max_held_connections :: int where
  "max_held_connections = 10"

definition min_free_connections :: int where
  "min_free_connections = 4"

definition requested_hold :: "bool \<Rightarrow> string option option \<Rightarrow> int" where
  "requested_hold chaos_enabled lookup =
     (if \<not> chaos_enabled then 0
      else case lookup of
        Some (Some raw) \<Rightarrow> (case py_int raw of None \<Rightarrow> 0 | Some wanted \<Rightarrow> max 0 (min wanted max_held_connections))
      | _ \<Rightarrow> 0)"

text \<open>The size of the pool and its overflow, when the pool tells its size.\<close>

definition pool_capacity :: "(int \<times> int option) option \<Rightarrow> int option" where
  "pool_capacity pool = map_option (\<lambda>(n, over). n + (case over of None \<Rightarrow> 0 | Some k \<Rightarrow> k)) pool"

definition clamp_to_pool :: "int \<Rightarrow> int option \<Rightarrow> int" where
  "clamp_to_pool wanted capacity =
     (let bounded = max 0 (min wanted max_held_connections)
      in case capacity of None \<Rightarrow> bounded | Some c \<Rightarrow> max 0 (min bounded (c - min_free_connections)))"

text \<open>The second loop of \<open>reconcile_held\<close>: each attempt is granted or refused, and a refusal ends it.\<close>

fun take_held :: "bool list \<Rightarrow> nat \<Rightarrow> nat \<Rightarrow> nat" where
  "take_held [] wanted n = n"
| "take_held (g # gs) wanted n =
     (if n < wanted \<and> g then take_held gs wanted (Suc n) else n)"

definition reconcile_held :: "bool list \<Rightarrow> nat \<Rightarrow> nat \<Rightarrow> nat" where
  "reconcile_held grants wanted n = take_held grants wanted (if wanted < n then wanted else n)"

text \<open>One turn of \<open>hold_db_pool\<close>.\<close>

definition hold_pass :: "bool \<Rightarrow> int option \<Rightarrow> string option option \<times> bool list \<Rightarrow> nat \<Rightarrow> nat" where
  "hold_pass chaos_enabled capacity = (\<lambda>(lookup, grants) n.
     if chaos_enabled then reconcile_held grants (nat (clamp_to_pool (requested_hold chaos_enabled lookup) capacity)) n else n)"

definition saturate_db_pool :: "time \<Rightarrow> int \<Rightarrow> int \<Rightarrow> flag_store \<Rightarrow> flag_store" where
  "saturate_db_pool now connections ttl st = set_flag now hold_key (show_int connections) ttl st"

section \<open>Slow queries (\<open>workers/db_slow_query.py\<close>)\<close>

definition slow_query_key :: string where
  "slow_query_key = ''chaos:db_query:slow''"

definition target_relations :: "(string \<times> string) list" where
  "target_relations = [(''job_reads'', ''jobs''), (''audit_reads'', ''audit_logs''), (''outbox_reads'', ''outbox_events'')]"

definition sleeper_count :: nat where
  "sleeper_count = 2"

definition min_query_ms :: int where
  "min_query_ms = 1100"

definition max_query_ms :: int where
  "max_query_ms = 10000"

record slow_query_request =
  sq_target :: string
  sq_query_ms :: int

definition encode_request :: "string \<Rightarrow> int \<Rightarrow> string" where
  "encode_request target query_ms = target @ '':'' @ show_int query_ms"

definition parse_request :: "string option \<Rightarrow> slow_query_request option" where
  "parse_request raw =
     (case raw of
        None \<Rightarrow> None
      | Some s \<Rightarrow>
          (let (target, chunk) = partition_colon s
           in if map_of target_relations target = None then None
              else case py_int chunk of
                None \<Rightarrow> None
              | Some ms \<Rightarrow> if min_query_ms \<le> ms \<and> ms \<le> max_query_ms then Some \<lparr>sq_target = target, sq_query_ms = ms\<rparr> else None))"

definition requested_slow_query :: "bool \<Rightarrow> string option option \<Rightarrow> slow_query_request option" where
  "requested_slow_query chaos_enabled lookup =
     (if \<not> chaos_enabled then None else case lookup of None \<Rightarrow> None | Some raw \<Rightarrow> parse_request raw)"

definition sleeper_budget :: "int option \<Rightarrow> nat" where
  "sleeper_budget capacity =
     (case capacity of
        None \<Rightarrow> sleeper_count
      | Some c \<Rightarrow> if int sleeper_count \<le> c - min_free_connections then sleeper_count else 0)"

definition statement_for :: "string \<Rightarrow> string option" where
  "statement_for target = map_option (\<lambda>relation. ''SELECT pg_sleep(CAST(:seconds AS double precision)) AS waited, (SELECT count(*) FROM ''
     @ relation @ '') AS rows_read'') (map_of target_relations target)"

text \<open>
  One turn of a sleeper: it waits a poll interval, or runs one query after the sleep that sets its phase
  when it has just been armed. Times are in seconds.
\<close>

datatype sleeper_turn = PollAgain | RunQuery rat slow_query_request

definition sleeper :: "nat \<Rightarrow> nat \<Rightarrow> slow_query_request option \<Rightarrow> bool \<Rightarrow> bool \<times> sleeper_turn" where
  "sleeper index budget request armed =
     (case request of
        None \<Rightarrow> (False, PollAgain)
      | Some r \<Rightarrow>
          if budget \<le> index then (False, PollAgain)
          else (True, RunQuery (if armed then 0 else of_int (sq_query_ms r) / 1000 * of_nat index / of_nat sleeper_count) r))"

definition slow_db_queries :: "time \<Rightarrow> string \<Rightarrow> int \<Rightarrow> int \<Rightarrow> flag_store \<Rightarrow> flag_store" where
  "slow_db_queries now target query_ms ttl st = set_flag now slow_query_key (encode_request target query_ms) ttl st"

section \<open>The other hooks\<close>

definition degrade_downstream :: "time \<Rightarrow> string \<Rightarrow> int \<Rightarrow> int \<Rightarrow> flag_store \<Rightarrow> flag_store" where
  "degrade_downstream now mode delay_ms ttl st = set_flag now downstream_flag_key (mode @ '':'' @ show_int delay_ms) ttl st"

definition pause_control_loop :: "loop_settings \<Rightarrow> time \<Rightarrow> control_loop_name \<Rightarrow> int \<Rightarrow> loop_store \<Rightarrow> (string \<times> rat option) \<times> loop_store" where
  "pause_control_loop ls now l ttl st =
     ((pause_key_for l, tick_interval_seconds ls l), st\<lparr>lp_pause := (lp_pause st)(l \<mapsto> Some (now + of_int ttl))\<rparr>)"

definition max_total_bytes :: nat where
  "max_total_bytes = 256 * 1024 * 1024"

text \<open>\<open>None\<close>: the input is refused, before anything is written.\<close>

definition saturate_redis :: "time \<Rightarrow> string \<Rightarrow> nat \<Rightarrow> nat \<Rightarrow> int \<Rightarrow> flag_store \<Rightarrow> (nat \<times> nat \<times> flag_store) option" where
  "saturate_redis now run_id num_keys value_bytes ttl st =
     (if max_total_bytes < num_keys * value_bytes then None
      else Some (num_keys, num_keys * value_bytes,
        fold (\<lambda>i. set_flag now (''chaos:sat:'' @ run_id @ '':'' @ show_nat i) (replicate value_bytes (CHR ''x'')) ttl) [0..<num_keys] st))"

definition bad_deploy_key :: string where
  "bad_deploy_key = ''chaos:bad_deploy''"

text \<open>\<open>Inl None\<close>: the write to Redis raised, which nothing catches.\<close>

definition bad_deploy ::
    "time \<Rightarrow> time \<Rightarrow> bool \<Rightarrow> string \<Rightarrow> uuid \<Rightarrow> string \<Rightarrow> int \<Rightarrow> string option \<Rightarrow> flag_store \<times> alert_state
      \<Rightarrow> (alert_error option + uuid) \<times> flag_store \<times> alert_state" where
  "bad_deploy redis_now db_now up request_id tenant label ttl note = (\<lambda>(st, s).
     if \<not> up then (Inl None, st, s)
     else (case create_alert db_now request_id \<lparr>rq_tenant_id = tenant, rq_severity = ''critical'', rq_source = ''chaos:bad_deploy'',
               rq_title = ''Simulated bad deploy'', rq_description = note,
               rq_extra_data = Some ([(''label'', JStr label), (''ttl_seconds'', JInt ttl)]
                 @ (case note of None \<Rightarrow> [] | Some t \<Rightarrow> if t = [] then [] else [(''note'', JStr t)])),
               rq_dedup_key = None\<rparr> s of
             (Inl e, s') \<Rightarrow> (Inl (Some e), set_flag redis_now bad_deploy_key label ttl st, s')
           | (Inr a, s') \<Rightarrow> (Inr (al_id a), set_flag redis_now bad_deploy_key label ttl st, s')))"

section \<open>Deploys (\<open>mcp/tools/deploy_history.py\<close>)\<close>

record deploy_marker =
  dm_version :: string
  dm_revision :: "string option"
  dm_image_tag :: "string option"
  dm_deployed_at :: time
  dm_environment :: string
  dm_notes :: "string option"

definition list_recent :: "nat \<Rightarrow> string option \<Rightarrow> deploy_marker list \<Rightarrow> deploy_marker list \<times> nat" where
  "list_recent limit environment rows =
     (let hits = filter (\<lambda>r. case environment of None \<Rightarrow> True | Some e \<Rightarrow> dm_environment r = e) rows
      in (take limit (sort_key (\<lambda>r. - dm_deployed_at r) hits), length hits))"

record deploy_env =
  dv_app_version :: "string option"
  dv_image_tag :: "string option"
  dv_revision :: "string option"
  dv_started_at :: time
  dv_environment :: string

text \<open>\<open>value or other\<close> on an optional text.\<close>

definition or_else :: "string option \<Rightarrow> string \<Rightarrow> string" where
  "or_else x y = (case x of None \<Rightarrow> y | Some s \<Rightarrow> if s = [] then y else s)"

text \<open>\<open>table\<close> is the rows, or the type of the error the query raised. The answer: total, entries, source.\<close>

definition get_deploy_history :: "deploy_env \<Rightarrow> nat \<Rightarrow> string option \<Rightarrow> string + deploy_marker list \<Rightarrow> nat \<times> deploy_marker list \<times> string" where
  "get_deploy_history env limit environment table =
     (let (rows, n) = (case table of Inl _ \<Rightarrow> ([], 0) | Inr all \<Rightarrow> list_recent limit environment all);
          why = (case table of Inl err \<Rightarrow> ''deploy_markers query failed: '' @ err | Inr _ \<Rightarrow> ''deploy_markers empty'')
      in if rows \<noteq> [] then (n, rows, ''deploy_markers'')
         else (1, [\<lparr>dm_version = or_else (dv_app_version env) (or_else (dv_image_tag env) ''unknown''),
                    dm_revision = dv_revision env, dm_image_tag = dv_image_tag env, dm_deployed_at = dv_started_at env,
                    dm_environment = or_else environment (dv_environment env),
                    dm_notes = Some (''synthetic entry from env vars ('' @ why @ '')'')\<rparr>], ''env''))"

section \<open>What the faults are bounded by\<close>

lemma flag_set [simp]: "flag_at t (set_flag now key v ttl st) key = (if t < now + of_int ttl then Some v else None)"
  by (simp add: flag_at_def set_flag_def)

lemma flag_other: "k \<noteq> key \<Longrightarrow> set_flag now key v ttl st k = st k"
  by (simp add: set_flag_def)

lemma partition_colon_append: "CHR '':'' \<notin> set a \<Longrightarrow> partition_colon (a @ CHR '':'' # b) = (a, b)"
  by (simp add: partition_colon_def takeWhile_append dropWhile_append)

lemma take_held_le: "n \<le> wanted \<Longrightarrow> take_held gs wanted n \<le> wanted"
  by (induction gs arbitrary: n) simp_all

lemma take_held_granted: "n \<le> wanted \<Longrightarrow> wanted \<le> n + m \<Longrightarrow> take_held (replicate m True) wanted n = wanted"
  by (induction m arbitrary: n) simp_all

lemma reconcile_le: "reconcile_held gs wanted n \<le> wanted"
  by (simp add: reconcile_held_def take_held_le)

lemma clamp_bounds:
  "0 \<le> clamp_to_pool wanted capacity" "clamp_to_pool wanted capacity \<le> max_held_connections"
  "capacity = Some c \<Longrightarrow> clamp_to_pool wanted capacity \<le> max 0 (c - min_free_connections)"
  "wanted \<le> 0 \<Longrightarrow> clamp_to_pool wanted capacity = 0"
  by (auto simp: clamp_to_pool_def max_held_connections_def min_free_connections_def Let_def split: option.split)

definition hold_ok :: "int option \<Rightarrow> nat \<Rightarrow> bool" where
  "hold_ok capacity n \<longleftrightarrow> int n \<le> max_held_connections \<and> (\<forall>c. capacity = Some c \<longrightarrow> int n \<le> max 0 (c - min_free_connections))"

interpretation holding: inv_step "hold_pass chaos_enabled capacity" "hold_ok capacity" for chaos_enabled capacity
proof
  fix n x assume n: "hold_ok capacity n"
  show "hold_ok capacity (hold_pass chaos_enabled capacity x n)"
  proof (cases chaos_enabled)
    case True
    let ?w = "clamp_to_pool (requested_hold chaos_enabled (fst x)) capacity"
    have "hold_pass chaos_enabled capacity x n \<le> nat ?w" using True reconcile_le by (simp add: hold_pass_def case_prod_unfold)
    then have "int (hold_pass chaos_enabled capacity x n) \<le> ?w" using clamp_bounds(1) by (simp add: nat_le_iff le_nat_iff)
    then show ?thesis using clamp_bounds(2,3) order_trans unfolding hold_ok_def by blast
  qed (use n in \<open>simp add: hold_pass_def case_prod_unfold\<close>)
qed

text \<open>
  The hold spares the floor and lets go. Whatever the flag says and whatever the pool grants, pass after
  pass, at most ten connections are held and, of a pool whose size is known, never one of the last four.
  A pass that meets no flag, or cannot read it, holds none. After the tool is called and until its time
  to live has passed, a pass to which the pool grants what it asks holds the number asked for, or what
  the floor leaves of it; the first pass after that holds none.
\<close>

theorem pool_hold_bounded:
  assumes "n = fold (hold_pass True capacity) passes 0" "1 \<le> k" "k \<le> 10" "10 \<le> m"
  shows "int n \<le> 10 \<and> (\<forall>c. capacity = Some c \<longrightarrow> int n \<le> max 0 (c - 4))
    \<and> hold_pass True capacity (None, gs) n = 0 \<and> hold_pass True capacity (Some None, gs) n = 0
    \<and> (let pass = hold_pass True capacity (read_flag True t (saturate_db_pool now k ttl st) hold_key, replicate m True) n
       in if t < now + of_int ttl then int pass = (case capacity of None \<Rightarrow> k | Some c \<Rightarrow> max 0 (min k (c - 4))) else pass = 0)"
proof -
  have "hold_ok capacity 0" by (simp add: hold_ok_def max_held_connections_def)
  then have ok: "hold_ok capacity n" unfolding assms(1) by (rule holding.fold_inv)
  have none: "hold_pass True capacity (l, gs) n = 0" if "requested_hold True l = 0" for l gs
    using reconcile_le [of gs 0 n] that by (simp add: hold_pass_def clamp_bounds(4))
  have "reconcile_held (replicate m True) w n = w" if "w \<le> 10" for w
    using that assms(4) take_held_granted by (simp add: reconcile_held_def)
  moreover have "nat (clamp_to_pool k capacity) \<le> 10" using clamp_bounds(2) [of k capacity] by (simp add: max_held_connections_def nat_le_iff)
  moreover have "requested_hold True (Some (Some (show_int k))) = k" using assms(2,3) by (simp add: requested_hold_def max_held_connections_def)
  ultimately have full: "int (hold_pass True capacity (Some (Some (show_int k)), replicate m True) n) = clamp_to_pool k capacity"
    using clamp_bounds(1) by (simp add: hold_pass_def)
  have "clamp_to_pool k capacity = (case capacity of None \<Rightarrow> k | Some c \<Rightarrow> max 0 (min k (c - 4)))"
    using assms(2,3) by (simp add: clamp_to_pool_def max_held_connections_def min_free_connections_def Let_def split: option.split)
  then show ?thesis
    using ok full none [of None] none [of "Some None"]
    by (auto simp: hold_ok_def max_held_connections_def min_free_connections_def requested_hold_def read_flag_def saturate_db_pool_def Let_def)
qed

theorem pool_hold_bounded_witness:
  "int (hold_pass True (Some 15) (read_flag True 1 (saturate_db_pool 0 8 300 (\<lambda>_. None)) hold_key, replicate 10 True) 0) = 8"
  using pool_hold_bounded [of 0 "Some 15" "[]" 8 10 "[]" 1 0 300 "\<lambda>_. None"] by simp

text \<open>
  Each of the two faults leaves four connections of a pool free; the two together do not. On the pool
  the service is configured with, five connections and an overflow of ten, a hold of ten and the two
  sleepers leave three.
\<close>

theorem faults_share_no_floor:
  fixes st :: flag_store
  defines "capacity \<equiv> pool_capacity (Some (5, Some 10))"
  shows "let n = hold_pass True capacity (read_flag True 1 (saturate_db_pool 0 10 300 st) hold_key, replicate 10 True) 0
    in capacity = Some 15 \<and> min_free_connections \<le> 15 - int n \<and> min_free_connections \<le> 15 - int (sleeper_budget capacity)
      \<and> 15 - int n - int (sleeper_budget capacity) = 3 \<and> 3 < min_free_connections"
proof -
  have c: "capacity = Some 15" by (simp add: capacity_def pool_capacity_def)
  have "requested_hold True (Some (Some (show_int 10))) = 10" by (simp add: requested_hold_def max_held_connections_def)
  then have "hold_pass True capacity (read_flag True 1 (saturate_db_pool 0 10 300 st) hold_key, replicate 10 True) 0 = 10"
    using take_held_granted [of 0 10 10]
    by (simp add: hold_pass_def read_flag_def saturate_db_pool_def c clamp_to_pool_def max_held_connections_def min_free_connections_def
        reconcile_held_def Let_def)
  then show ?thesis by (simp add: c sleeper_budget_def sleeper_count_def min_free_connections_def)
qed

subsection \<open>Slow queries\<close>

text \<open>
  When the queries of a sleeper start: each turn takes a little time \<open>g\<close> before its query, which then
  runs for \<open>q\<close>. Times are in milliseconds here.
\<close>

fun query_starts :: "rat \<Rightarrow> rat \<Rightarrow> rat list \<Rightarrow> rat list" where
  "query_starts t q [] = []"
| "query_starts t q (g # gs) = (t + g) # query_starts (t + g + q) q gs"

text \<open>The ages of the queries in flight at a time, as \<open>pg_stat_activity\<close> shows them.\<close>

definition ages_at :: "rat \<Rightarrow> rat list \<Rightarrow> rat \<Rightarrow> rat list" where
  "ages_at q begun t = map (\<lambda>a. t - a) (filter (\<lambda>a. a \<le> t \<and> t < a + q) begun)"

text \<open>The phase a sleeper takes when it is armed at \<open>t0\<close>, from the model of its turn.\<close>

definition sleeper_starts :: "nat \<Rightarrow> int \<Rightarrow> rat \<Rightarrow> rat list \<Rightarrow> rat list" where
  "sleeper_starts index query_ms t0 gs =
     (case sleeper index (sleeper_budget None) (Some \<lparr>sq_target = ''job_reads'', sq_query_ms = query_ms\<rparr>) False of
        (_, RunQuery offset r) \<Rightarrow> query_starts (t0 + offset * 1000) (of_int (sq_query_ms r)) gs
      | _ \<Rightarrow> [])"

lemma sleeper_starts_simps:
  "sleeper_starts 0 q t0 gs = query_starts t0 (of_int q) gs" "sleeper_starts 1 q t0 gs = query_starts (t0 + of_int q / 2) (of_int q) gs"
  by (simp_all add: sleeper_starts_def sleeper_def sleeper_budget_def sleeper_count_def)

lemma length_query_starts [simp]: "length (query_starts t q gs) = length gs"
  by (induction gs arbitrary: t) simp_all

lemma query_starts_nth: "k < length gs \<Longrightarrow> query_starts t q gs ! k = t + of_nat k * q + sum_list (take (Suc k) gs)"
  by (induction gs arbitrary: t k) (simp_all add: nth_Cons algebra_simps split: nat.split)

lemma in_flight:
  assumes "k < length gs" "list_all ((\<le>) 0) gs" "sum_list gs \<le> d" "t + of_nat k * q + d \<le> now" "now < t + of_nat k * q + q"
  shows "\<exists>a \<in> set (ages_at q (query_starts t q gs) now). now - (t + of_nat k * q) - d \<le> a"
proof -
  let ?a = "query_starts t q gs ! k"
  have "sum_list gs = sum_list (take (Suc k) gs) + sum_list (drop (Suc k) gs)" by (metis append_take_drop_id sum_list_append)
  moreover have "0 \<le> sum_list (take (Suc k) gs)" "0 \<le> sum_list (drop (Suc k) gs)"
    using assms(2) by (auto intro!: sum_list_nonneg simp: list_all_iff dest: in_set_takeD in_set_dropD)
  ultimately have "?a \<le> now \<and> now < ?a + q" "now - (t + of_nat k * q) - d \<le> now - ?a"
    using assms(3-5) query_starts_nth [OF assms(1), of t q] by simp_all
  moreover have "?a \<in> set (query_starts t q gs)" using assms(1) by simp
  ultimately show ?thesis unfolding ages_at_def by force
qed

text \<open>
  Slow queries are always in sight while the sleepers keep their phase. Two sleepers armed at the same
  time run \<open>n\<close> queries each; as long as what each has lost between its queries, over the whole fault,
  stays within \<open>d\<close>, the oldest query in flight is at every moment at least half a query less \<open>d\<close> old.
  With the shortest query allowed that is past the threshold of 500 ms up to a loss of 50 ms.
\<close>

theorem slow_queries_in_sight:
  assumes "length gs = n" "length hs = n" "list_all ((\<le>) 0) gs" "list_all ((\<le>) 0) hs" "sum_list gs \<le> d" "sum_list hs \<le> d"
    "d \<le> of_int q / 2" "t0 + of_int q / 2 \<le> now" "now < t0 + of_nat n * of_int q"
  shows "\<exists>a \<in> set (ages_at (of_int q) (sleeper_starts 0 q t0 gs) now @ ages_at (of_int q) (sleeper_starts 1 q t0 hs) now).
      of_int q / 2 - d \<le> a \<and> (min_query_ms \<le> q \<and> d < 50 \<longrightarrow> slow_query_threshold_ms < a)"
proof -
  let ?q = "of_int q :: rat" and ?x = "now - t0"
  have d: "0 \<le> d" using assms(3,5) sum_list_nonneg [of gs] by (auto simp: list_all_iff)
  have q: "0 < ?q"
  proof (rule ccontr)
    assume "\<not> 0 < ?q"
    then have "of_nat n * ?q \<le> 0" by (simp add: mult_nonneg_nonpos)
    then show False using assms(7-9) d by linarith
  qed
  define k where "k = nat \<lfloor>?x / ?q\<rfloor>"
  have x: "0 \<le> ?x" using assms(8) q by simp
  then have "of_nat k = (of_int \<lfloor>?x / ?q\<rfloor> :: rat)" using q by (simp add: k_def)
  then have k: "of_nat k \<le> ?x / ?q" "?x / ?q < of_nat k + 1" using floor_correct [of "?x / ?q"] by simp_all
  then have k': "of_nat k * ?q \<le> ?x" "?x < of_nat k * ?q + ?q" using q by (simp_all add: field_simps)
  have kn: "k < n"
  proof -
    have "of_nat k * ?q < of_nat n * ?q" using k' assms(9) by linarith
    then show ?thesis using q by simp
  qed
  have "\<exists>a \<in> set (ages_at ?q (query_starts t0 ?q gs) now @ ages_at ?q (query_starts (t0 + ?q / 2) ?q hs) now). ?q / 2 - d \<le> a"
  proof (cases "of_nat k * ?q + ?q / 2 \<le> ?x")
    case True
    then obtain a where a: "a \<in> set (ages_at ?q (query_starts t0 ?q gs) now)" "now - (t0 + of_nat k * ?q) - d \<le> a"
      using in_flight [of k gs d t0 ?q now] assms k' kn by auto
    then have "?q / 2 - d \<le> a" using True by linarith
    then show ?thesis using a(1) by auto
  next
    case False
    have "k \<noteq> 0"
    proof
      assume "k = 0"
      then have "(of_nat k :: rat) * ?q = 0" by simp
      then show False using False assms(8) by linarith
    qed
    then obtain l where l: "k = Suc l" by (cases k) simp_all
    have lq: "of_nat k * ?q = of_nat l * ?q + ?q" by (simp add: l algebra_simps)
    then obtain a where a: "a \<in> set (ages_at ?q (query_starts (t0 + ?q / 2) ?q hs) now)" "now - (t0 + ?q / 2 + of_nat l * ?q) - d \<le> a"
      using in_flight [of l hs d "t0 + ?q / 2" ?q now] assms k' kn False l by auto
    then have "?q / 2 - d \<le> a" using k'(1) lq by linarith
    then show ?thesis using a(1) by auto
  qed
  then obtain a where a: "a \<in> set (ages_at ?q (query_starts t0 ?q gs) now @ ages_at ?q (query_starts (t0 + ?q / 2) ?q hs) now)" "?q / 2 - d \<le> a" by blast
  have "slow_query_threshold_ms < a" if "min_query_ms \<le> q" "d < 50"
  proof -
    have "(1100 :: rat) \<le> ?q" using that(1) by (simp add: min_query_ms_def)
    then show ?thesis using a(2) that(2) by (simp add: slow_query_threshold_ms_def)
  qed
  then show ?thesis using a unfolding sleeper_starts_simps by blast
qed

theorem slow_queries_in_sight_witness:
  "\<exists>a \<in> set (ages_at 1100 (sleeper_starts 0 1100 0 [10, 10, 0]) 2300 @ ages_at 1100 (sleeper_starts 1 1100 0 [10, 0, 0]) 2300). slow_query_threshold_ms < a"
  using slow_queries_in_sight [of "[10, 10, 0]" 3 "[10, 0, 0]" 20 1100 0 2300] by (auto simp: min_query_ms_def)

text \<open>
  Nothing restores the phase. A sleeper that loses 110 ms before each of its queries, where the other
  loses none, is in step with it after five: then no query in flight is past the threshold.
\<close>

theorem drift_hides_slow_queries:
  "\<forall>a \<in> set (ages_at 1100 (sleeper_starts 0 1100 0 (replicate 6 0)) 5600 @ ages_at 1100 (sleeper_starts 1 1100 0 (replicate 6 110)) 5600).
     \<not> slow_query_threshold_ms < a"
  unfolding sleeper_starts_simps by (simp add: ages_at_def slow_query_threshold_ms_def eval_nat_numeral)

text \<open>The targets a flag may name.\<close>

lemma target_cases: "map_of target_relations target = Some r \<Longrightarrow> (target, r) \<in> set target_relations"
  by (rule map_of_SomeD)

lemma target_no_colon: "map_of target_relations target = Some r \<Longrightarrow> CHR '':'' \<notin> set target"
  using target_cases [of target r] by (auto simp: target_relations_def)

lemma parse_encode:
  "map_of target_relations target \<noteq> None \<Longrightarrow> min_query_ms \<le> ms \<Longrightarrow> ms \<le> max_query_ms \<Longrightarrow>
    parse_request (Some (encode_request target ms)) = Some \<lparr>sq_target = target, sq_query_ms = ms\<rparr>"
  using target_no_colon by (auto simp: parse_request_def encode_request_def partition_colon_append Let_def)

lemma parse_request_sound:
  "parse_request raw = Some r \<Longrightarrow> map_of target_relations (sq_target r) \<noteq> None \<and> min_query_ms \<le> sq_query_ms r \<and> sq_query_ms r \<le> max_query_ms"
  by (auto simp: parse_request_def Let_def split: option.splits prod.splits if_splits)

lemma parse_mode: "mode \<in> {''fail'', ''slow''} \<Longrightarrow> 0 \<le> ms \<Longrightarrow>
    parse_degradation (Some (mode @ '':'' @ show_int ms)) = Some \<lparr>dg_mode = mode, dg_delay_ms = ms\<rparr>"
  using partition_colon_append [of mode "show_int ms"] by (auto simp: parse_degradation_def Let_def)

text \<open>
  What a tool writes is what the worker reads, until it expires. A slow-query flag within the tool's
  limits reads back as the target and the length it was called with, a degraded dependency as its mode
  and delay, a paused loop as paused and no other loop as anything it was not; after the time to live
  each reads as if it had never been set, and with the gate closed or Redis silent each reads as off.
  Whatever a slow-query flag holds, the statement that runs reads one of three declared tables.
\<close>

theorem flags_read_back:
  assumes "map_of target_relations target \<noteq> None" "1100 \<le> ms" "ms \<le> 10000" "mode \<in> {''fail'', ''slow''}" "0 \<le> delay"
  shows "requested_slow_query chaos (read_flag up t (slow_db_queries now target ms ttl st) slow_query_key)
        = (if chaos \<and> up \<and> t < now + of_int ttl then Some \<lparr>sq_target = target, sq_query_ms = ms\<rparr> else None)
    \<and> read_degradation chaos (read_flag up t (degrade_downstream now mode delay ttl st) downstream_flag_key)
        = (if chaos \<and> up \<and> t < now + of_int ttl then Some \<lparr>dg_mode = mode, dg_delay_ms = delay\<rparr> else None)
    \<and> (\<forall>e l'. turn_paused e l' (snd (pause_control_loop ls now l ttl lst))
        = (if l' = l then te_chaos e \<and> te_pause_ok e \<and> te_now e < now + of_int ttl else turn_paused e l' lst))
    \<and> (\<forall>raw r. requested_slow_query chaos raw = Some r \<longrightarrow>
         (\<exists>table \<in> {''jobs'', ''audit_logs'', ''outbox_events''}. statement_for (sq_target r)
            = Some (''SELECT pg_sleep(CAST(:seconds AS double precision)) AS waited, (SELECT count(*) FROM '' @ table @ '') AS rows_read'')))"
proof (intro conjI allI impI)
  show "requested_slow_query chaos (read_flag up t (slow_db_queries now target ms ttl st) slow_query_key)
      = (if chaos \<and> up \<and> t < now + of_int ttl then Some \<lparr>sq_target = target, sq_query_ms = ms\<rparr> else None)"
    using parse_encode [OF assms(1), of ms] assms(2,3)
    by (auto simp: requested_slow_query_def read_flag_def slow_db_queries_def parse_request_def min_query_ms_def max_query_ms_def)
  show "read_degradation chaos (read_flag up t (degrade_downstream now mode delay ttl st) downstream_flag_key)
      = (if chaos \<and> up \<and> t < now + of_int ttl then Some \<lparr>dg_mode = mode, dg_delay_ms = delay\<rparr> else None)"
    using parse_mode [OF assms(4,5)] by (auto simp: read_degradation_def read_flag_def degrade_downstream_def parse_degradation_def)
  show "turn_paused e l' (snd (pause_control_loop ls now l ttl lst))
      = (if l' = l then te_chaos e \<and> te_pause_ok e \<and> te_now e < now + of_int ttl else turn_paused e l' lst)" for e l'
    by (simp add: turn_paused_def loop_is_paused_def pause_lookup_def pause_live_def pause_control_loop_def)
  fix raw r assume "requested_slow_query chaos raw = Some r"
  then obtain table where "map_of target_relations (sq_target r) = Some table"
    using parse_request_sound by (force simp: requested_slow_query_def split: if_splits option.splits)
  then show "\<exists>table \<in> {''jobs'', ''audit_logs'', ''outbox_events''}. statement_for (sq_target r)
      = Some (''SELECT pg_sleep(CAST(:seconds AS double precision)) AS waited, (SELECT count(*) FROM '' @ table @ '') AS rows_read'')"
    using target_cases [of "sq_target r" table] by (auto simp: statement_for_def target_relations_def)
qed

theorem flags_read_back_witness:
  "requested_slow_query True (read_flag True 299 (slow_db_queries 0 ''job_reads'' 2000 300 (\<lambda>_. None)) slow_query_key) = Some \<lparr>sq_target = ''job_reads'', sq_query_ms = 2000\<rparr>"
  using flags_read_back [of "''job_reads''" 2000 "''fail''" 0 True True 299 0 300 "\<lambda>_. None"] by (simp add: target_relations_def)

subsection \<open>The rest\<close>

lemma fold_set_flag_other: "k \<notin> f ` set is \<Longrightarrow> fold (\<lambda>i. set_flag now (f i) v ttl) is st k = st k"
  by (induction "is" arbitrary: st) (simp_all add: set_flag_def)

text \<open>
  Pressure on Redis is bounded and marked: an accepted run writes at most 256 MiB, under its own prefix
  of the namespace the reset sweeps, and touches no other key.
\<close>

theorem redis_pressure_bounded:
  assumes "saturate_redis now run_id num_keys value_bytes ttl st = Some (n, total_bytes, st')"
  shows "n = num_keys \<and> total_bytes = num_keys * value_bytes \<and> total_bytes \<le> 268435456
    \<and> (\<forall>k. st' k \<noteq> st k \<longrightarrow> take (length (''chaos:sat:'' @ run_id)) k = ''chaos:sat:'' @ run_id)"
proof -
  have e: "st' = fold (\<lambda>i. set_flag now (''chaos:sat:'' @ run_id @ '':'' @ show_nat i) (replicate value_bytes (CHR ''x'')) ttl) [0..<num_keys] st"
    "\<not> max_total_bytes < num_keys * value_bytes" "n = num_keys" "total_bytes = num_keys * value_bytes"
    using assms by (auto simp: saturate_redis_def split: if_splits)
  have "take (length (''chaos:sat:'' @ run_id)) k = ''chaos:sat:'' @ run_id" if "st' k \<noteq> st k" for k
  proof -
    let ?key = "\<lambda>i. ''chaos:sat:'' @ run_id @ '':'' @ show_nat i"
    have "k \<in> ?key ` set [0..<num_keys]" using that fold_set_flag_other [of k ?key "[0..<num_keys]"] unfolding e(1) by blast
    then obtain i where "k = ?key i" by blast
    then show ?thesis by simp
  qed
  then show ?thesis using e by (simp add: max_total_bytes_def)
qed

theorem redis_pressure_bounded_witness:
  "\<exists>st'. saturate_redis 0 ''r'' 2 16 60 (\<lambda>_. None) = Some (2, 32, st') \<and> (32 :: nat) \<le> 268435456"
proof -
  obtain st' where "saturate_redis 0 ''r'' 2 16 60 (\<lambda>_. None) = Some (2, 32, st')" by (simp add: saturate_redis_def max_total_bytes_def)
  then show ?thesis using redis_pressure_bounded [of 0 "''r''" 2 16 60 "\<lambda>_. None" 2 32 st'] by blast
qed

text \<open>
  A simulated deploy: one open critical alert of the caller's tenant and a flag with its label. Without
  Redis there is neither.
\<close>

theorem bad_deploy_exact:
  "bad_deploy redis_now db_now False request_id tenant label ttl note (st, s) = (Inl None, st, s)
   \<and> (\<exists>a. bad_deploy redis_now db_now True request_id tenant label ttl note (st, s)
          = (Inr (al_id a), set_flag redis_now bad_deploy_key label ttl st, s\<lparr>at_alerts := at_alerts s @ [a], at_db := (at_db s)\<lparr>next_uuid := Suc (next_uuid (at_db s))\<rparr>\<rparr>)
        \<and> al_tenant_id a = tenant \<and> al_severity a = ''critical'' \<and> al_source a = ''chaos:bad_deploy'' \<and> open_row a)"
proof -
  let ?a = "\<lparr>al_id = next_uuid (at_db s), al_tenant_id = tenant, al_severity = ''critical'', al_source = ''chaos:bad_deploy'',
     al_title = ''Simulated bad deploy'', al_description = note, al_fired_at = db_now, al_resolved_at = None,
     al_extra_data = Some ([(''label'', JStr label), (''ttl_seconds'', JInt ttl)]
       @ (case note of None \<Rightarrow> [] | Some t \<Rightarrow> if t = [] then [] else [(''note'', JStr t)])),
     al_request_id = (if request_id = [] then None else Some request_id), al_dedup_key = None\<rparr>"
  have "''critical'' \<in> set allowed_severities" by code_simp
  then have "bad_deploy redis_now db_now True request_id tenant label ttl note (st, s)
      = (Inr (al_id ?a), set_flag redis_now bad_deploy_key label ttl st, s\<lparr>at_alerts := at_alerts s @ [?a], at_db := (at_db s)\<lparr>next_uuid := Suc (next_uuid (at_db s))\<rparr>\<rparr>)"
    by (simp add: bad_deploy_def create_alert_def key_taken_def Let_def del: allowed_severities_def)
  moreover have "al_tenant_id ?a = tenant \<and> al_severity ?a = ''critical'' \<and> al_source ?a = ''chaos:bad_deploy'' \<and> open_row ?a" by simp
  moreover have "bad_deploy redis_now db_now False request_id tenant label ttl note (st, s) = (Inl None, st, s)" by (simp add: bad_deploy_def)
  ultimately show ?thesis by blast
qed

text \<open>
  The history of deploys is what the table has, newest first, or one entry that says it stands in for
  it. It is never empty and never longer than asked; entries are of the environment asked for.
\<close>

theorem deploy_history_exact:
  assumes "get_deploy_history env limit environment table = (n, entries, source)" "0 < limit"
  shows "entries \<noteq> [] \<and> length entries \<le> limit \<and> length entries \<le> n \<and> sorted (map (\<lambda>r. - dm_deployed_at r) entries)
    \<and> (\<forall>e. environment = Some e \<and> e \<noteq> [] \<longrightarrow> (\<forall>r \<in> set entries. dm_environment r = e))
    \<and> (source = ''deploy_markers'' \<longleftrightarrow> (\<exists>rows. table = Inr rows \<and> (\<exists>r \<in> set rows. environment = None \<or> environment = Some (dm_environment r))))
    \<and> (source = ''deploy_markers'' \<longrightarrow> (\<forall>rows. table = Inr rows \<longrightarrow>
         n = length (filter (\<lambda>r. environment = None \<or> environment = Some (dm_environment r)) rows) \<and> set entries \<subseteq> set rows))"
proof (cases table)
  case (Inl err)
  then show ?thesis using assms by (auto simp: get_deploy_history_def or_else_def Let_def)
next
  case (Inr rows)
  define hits where "hits = filter (\<lambda>r. case environment of None \<Rightarrow> True | Some e \<Rightarrow> dm_environment r = e) rows"
  have h: "hits = filter (\<lambda>r. environment = None \<or> environment = Some (dm_environment r)) rows"
    unfolding hits_def by (cases environment) (auto intro: filter_cong)
  show ?thesis
  proof (cases "hits = []")
    case True
    then have "entries \<noteq> [] \<and> length entries \<le> limit \<and> length entries \<le> n \<and> sorted (map (\<lambda>r. - dm_deployed_at r) entries)
        \<and> (\<forall>e. environment = Some e \<and> e \<noteq> [] \<longrightarrow> (\<forall>r \<in> set entries. dm_environment r = e)) \<and> source = ''env''"
      using assms Inr by (auto simp: get_deploy_history_def list_recent_def or_else_def Let_def simp flip: hits_def)
    moreover have "\<not> (\<exists>r \<in> set rows. environment = None \<or> environment = Some (dm_environment r))"
      using True unfolding h by (auto simp: filter_empty_conv)
    ultimately show ?thesis using Inr by auto
  next
    case False
    let ?sorted = "sort_key (\<lambda>r. - dm_deployed_at r) hits"
    have ne: "take limit ?sorted \<noteq> []" using False assms(2) by (metis gr_implies_not0 set_empty set_sort take_eq_Nil)
    then have e: "entries = take limit ?sorted" "n = length hits" "source = ''deploy_markers''"
      using assms(1) Inr by (auto simp: get_deploy_history_def list_recent_def Let_def simp flip: hits_def split: if_splits)
    have sub: "set entries \<subseteq> set hits" using set_take_subset [of limit ?sorted] by (simp add: e(1))
    have "sorted (map (\<lambda>r. - dm_deployed_at r) entries)" unfolding e(1) take_map [symmetric] by (rule sorted_wrt_take) (rule sorted_sort_key)
    moreover have "\<exists>r \<in> set rows. environment = None \<or> environment = Some (dm_environment r)" using False unfolding h by (auto simp: filter_empty_conv)
    moreover have "\<forall>e. environment = Some e \<longrightarrow> (\<forall>r \<in> set entries. dm_environment r = e)" using sub unfolding h by auto
    moreover have "entries \<noteq> []" "length entries \<le> limit" "length entries \<le> n" using ne by (simp_all add: e(1,2))
    moreover have "n = length (filter (\<lambda>r. environment = None \<or> environment = Some (dm_environment r)) rows)" by (simp add: e(2) h)
    moreover have "set entries \<subseteq> set rows" using sub unfolding h by auto
    ultimately show ?thesis unfolding Inr e(3) sum.inject by blast
  qed
qed

theorem deploy_history_exact_witness:
  "let out = get_deploy_history \<lparr>dv_app_version = None, dv_image_tag = Some ''v2'', dv_revision = None, dv_started_at = 5, dv_environment = ''prod''\<rparr> 20 None (Inr [])
   in fst (snd out) \<noteq> [] \<and> snd (snd out) = ''env''"
  using deploy_history_exact [of "\<lparr>dv_app_version = None, dv_image_tag = Some ''v2'', dv_revision = None, dv_started_at = 5, dv_environment = ''prod''\<rparr>" 20 None "Inr []"]
  by (auto simp: get_deploy_history_def list_recent_def Let_def)

text \<open>
  A filter that matches no row reads as an empty table: the answer is an entry of the environment asked
  for, with the version of the process that answers.
\<close>

theorem filtered_history_reads_as_empty:
  "get_deploy_history env 20 (Some ''staging'') (Inr [\<lparr>dm_version = ''v9'', dm_revision = None, dm_image_tag = None, dm_deployed_at = 1,
       dm_environment = ''prod'', dm_notes = None\<rparr>])
   = (1, [\<lparr>dm_version = or_else (dv_app_version env) (or_else (dv_image_tag env) ''unknown''), dm_revision = dv_revision env,
       dm_image_tag = dv_image_tag env, dm_deployed_at = dv_started_at env, dm_environment = ''staging'',
       dm_notes = Some ''synthetic entry from env vars (deploy_markers empty)''\<rparr>], ''env'')"
  by (simp add: get_deploy_history_def list_recent_def or_else_def Let_def)

end
