(* ===== verification/Spec2Isabelle.thy ===== *)
theory Spec2Isabelle
  imports Sweeps Admission Circuit_Breaker Mcp_Dispatch Replay_Tools Supervision Event_Consumers Slo Agent_Runs Progress_Stream Llm_Console Agent_Reads Cache_Tools Telemetry Lab_Fixtures Fault_Hooks
begin

text \<open>
  Verification of the incident platform, a Python service (\<open>src/backend/app\<close>) that accepts jobs over
  HTTP and from machine principals over MCP, runs them from a Kafka topic, and announces every change
  through a transactional outbox.

  \<^bold>\<open>How the program is put together.\<close> A request is admitted (rate limits, tenant quota, backpressure) and
  creates a job, or a saga as a chain of jobs, in Postgres, together with the outbox row that announces
  it. The relay publishes outbox rows to Kafka. The dispatcher consumes \<open>job.submitted\<close>, claims the job,
  runs its processor, and writes the outcome; a failure is retried with a delay held in a Redis sorted
  set, or dead-lettered. Terminal events feed the dependency resolver (waiting children start), the saga
  coordinator (rollback), the read model, the event log and the audit log. Sweeps repair what crashes
  leave behind. Machine principals call tools with bearer tokens; every call is scoped, idempotent and
  audited.

  \<^bold>\<open>Theories, in dependency order, and the code they model.\<close>

  \<^item> \<open>Platform_Prelude\<close>: tables as lists, UUID text, decimal text, sorted paging, and the interfaces the
    components share as locales: \<open>compare_and_set\<close>, \<open>inv_step\<close>, \<open>fixed_window\<close>. \<open>Json_Value\<close>: JSON values
    and \<open>json.dumps\<close>. \<open>Models\<close>: \<open>models/*.py\<close>, \<open>core/exceptions.py\<close>, the settings read.
  \<^item> \<open>Outbox\<close>: \<open>repositories/outbox.py\<close>, \<open>repositories/audit.py\<close> and the relay pass of
    \<open>workers/dispatcher.py\<close>; \<open>Job_Events\<close>: \<open>schemas/job_events.py\<close>.
  \<^item> \<open>Job_Repository\<close>: \<open>repositories/job.py\<close>, \<open>repositories/job_dependency.py\<close>, with the terminal cascade;
    \<open>Dag_Pause\<close>: \<open>utils/dag_pause.py\<close>; \<open>Job_Service\<close>: \<open>services/job.py\<close>; \<open>Dependency_Resolver\<close>:
    \<open>workers/dependency_resolver.py\<close>; \<open>Saga\<close>: \<open>services/saga.py\<close>, \<open>repositories/saga.py\<close>,
    \<open>workers/saga_coordinator.py\<close>.
  \<^item> \<open>Retry_Queue\<close>: \<open>workers/queue.py\<close> and \<open>workers/dlq_replay_scheduler.py\<close>; \<open>Dispatcher\<close>: one run of a
    job, retries and the consumer's in-flight bookkeeping; \<open>Sweeps\<close>: the repairing passes.
  \<^item> \<open>Admission\<close>: \<open>utils/rate_limit.py\<close>, \<open>quota.py\<close>, \<open>backpressure.py\<close>, \<open>admission.py\<close> and the two endpoints
    that create jobs; \<open>Job_Cache\<close>: \<open>utils/cache.py\<close>, \<open>utils/post_commit.py\<close>, the cached endpoint.
  \<^item> \<open>Circuit_Breaker\<close>: \<open>core/circuit_breaker.py\<close>, \<open>core/breaker_state.py\<close>.
  \<^item> \<open>Service_Accounts\<close>, \<open>Operator_Audit\<close>, \<open>Idempotency\<close>, \<open>Mcp_Registry\<close>, \<open>Mcp_Dispatch\<close>, \<open>Replay_Tools\<close>: the
    machine surface, \<open>services/service_account.py\<close>, \<open>services/operator_audit.py\<close>,
    \<open>services/idempotency.py\<close>, \<open>mcp/registry.py\<close> and its gates, \<open>mcp/handlers.py\<close>, and the actions on
    dead-lettered jobs.
  \<^item> \<open>Kafka_Consumer\<close>: \<open>workers/kafka_consumer.py\<close>, \<open>workers/schema_registry.py\<close>; \<open>Supervision\<close>: the kill
    switch, the consumer supervisor, \<open>workers/supervisor.py\<close>; \<open>Event_Consumers\<close>: the event-log and audit
    consumers; \<open>Read_Model\<close>: \<open>workers/read_model.py\<close>.
  \<^item> \<open>Control_Loops\<close>: \<open>core/leader_lock.py\<close>, \<open>core/loop_heartbeat.py\<close>, the loop bodies and their reading;
    \<open>Consumer_Lag\<close>: \<open>core/consumer_lag.py\<close> and its writers; \<open>Alerts\<close>: \<open>services/alerts.py\<close>,
    \<open>services/alert_rules.py\<close>; \<open>Slo\<close>: \<open>services/slo.py\<close>, the metrics and evaluation loops;
    \<open>Agent_Runs\<close>: the record an autonomous responder writes of its own run;
    \<open>Identity\<close>: users, tenants, tokens, and the row-level-security scope of a request;
    \<open>Progress_Stream\<close>: live progress, from the broadcaster to the viewers of a job;
    \<open>Llm_Services\<close>: \<open>services/triage.py\<close>, \<open>retry_policy.py\<close>, \<open>incident_digest.py\<close> and the triage
    consumer; \<open>Llm_Console\<close>: natural-language queries, the digest endpoints and runbooks;
    \<open>Agent_Reads\<close>: what the responder reads of dead letters, incidents, dependency graphs and traces;
    \<open>Telemetry\<close>: what the platform reports of its outbox, pools, stores and breakers;
    \<open>Cache_Tools\<close>: which cache keys the machine surface may read, delete or spoil;
    \<open>Lab_Stories\<close>, \<open>Lab_Fixtures\<close>: \<open>lab/dlq_failure_stories.py\<close>, the hooks that write dead-letter
    fixtures, and the steps of \<open>scripts/reset_eval_state.py\<close> that dispose of them;
    \<open>Processors\<close>: \<open>workers/async_tasks.py\<close>, \<open>thread_adapters.py\<close>, \<open>cpu_processors.py\<close>;
    \<open>Fault_Hooks\<close>: the laboratory's faults that act through flags in Redis, the tasks that obey them
    (\<open>workers/db_pool_hold.py\<close>, \<open>db_slow_query.py\<close>), and the history of deploys.
  \<^item> this theory: the components composed into one transition system, and the invariants that hold in
    every reachable state.

  \<^bold>\<open>How state and operations correspond.\<close> A table is the list of its rows in insertion order and the
  database a record of tables (\<open>db\<close>); a repository statement is a function on that record, a transaction
  the composition of its statements. Identifiers are naturals handed out in creation order, so that
  "older than" is "smaller than"; clocks are arguments. Redis is a record of the keys a component uses; a
  call that may fail has its success as an argument. An exception is \<open>Inl\<close>. The answers of code outside
  the repository (a processor, a broker, a model, \<open>sha256\<close>, a JSON schema validator) are arguments of the
  definitions, and what is relied on about them is a hypothesis of the theorem. Concurrency is the
  interleaving of committed transactions. A check that Postgres makes atomically (a guarded \<open>UPDATE\<close>, a
  unique constraint) is made in the same function as its write. Where the code reads in one statement and
  writes in a later one, and the difference matters, the function takes both states: the one the read saw
  (\<open>seen\<close>, \<open>counted\<close>) and the one the write meets (\<open>begin_run\<close>, \<open>create_job\<close>, \<open>api_create_job\<close>, \<open>report_run\<close>);
  alert episodes, live streams and the job cache are split into their single statements and commands.

  \<^bold>\<open>What the lemmas show.\<close> Each theory proves the invariants its operations keep, what each operation does
  on every branch, and the guarantee its callers rely on: exactly-once claims, settled runs, bounded
  retries, announced terminal states, exact cascades and rollbacks, drained queues, fair sweeps, recovery
  by compare-and-set, limits and by how much a race can pass them, stale reads kept out as long as nothing
  deletes a tombstone, tokens that stay revoked, calls that are audited and replayed, delivery at least
  once and recording exactly once. Where such a guarantee needs a proviso, its text says so, and a
  theorem beside it shows a concrete run in which the code, without it, does not do what it means to:
  \<open>late_count_pages_twice\<close>, \<open>poison_commit_failure_loses\<close>, \<open>failed_subscribe_strands_next\<close>,
  \<open>failed_publish_never_sent\<close>, \<open>quota_race_overshoots\<close>, \<open>delete_reopens_the_slot\<close>,
  \<open>late_report_rewrites_closed_run\<close>, \<open>armed_before_mark_unfences\<close>, \<open>backoff_overflow_ends_supervision\<close>.

  \<^bold>\<open>Bounds.\<close> The loops of the code that could run long carry the code's own bounds: the cascade 50 levels,
  the ancestor walk 64 jobs, the relay 100 rows, sweeps 100 or 200 rows a pass, the read-model window
  10000 ids, a dead-letter payload 4096 bytes. No fuel is used; recursion over lists is structural and
  the two graph walks terminate by their bound.

  \<^bold>\<open>Not modelled.\<close> The frontend, infrastructure and migrations other than the row-level-security policies;
  FastAPI routing, schemas and middleware beyond the endpoints named above; metrics, logging, tracing;
  the lab's seeding scripts and the other steps of its reset. What a hosted language model answers
  is a parameter: the code around it (deadlines, schemas, refusals, writes) is modelled, its answers are
  any. Column widths, float rounding and time zones are abstracted: times are rationals in seconds.
\<close>

section \<open>The platform as a transition system\<close>

text \<open>
  The relay only touches delivery columns of the outbox, so what is announced stays announced.
\<close>

lemma relay_tick_frame:
  "jobs (outbox_relay_tick cfg now publish d) = jobs d
   \<and> job_dependencies (outbox_relay_tick cfg now publish d) = job_dependencies d
   \<and> sagas (outbox_relay_tick cfg now publish d) = sagas d
   \<and> next_uuid (outbox_relay_tick cfg now publish d) = next_uuid d"
  using fold_mark_failed_frame
  by (simp add: outbox_relay_tick_def relay_mark_def Let_def increment_attempts_def mark_published_def)

lemma relayed_row_announces: "announces cfg j (relayed_row cfg now publish e) = announces cfg j e"
  by (auto simp: relayed_row_def failed_row_def announces_def split: publish_outcome.split)

lemma db_inv_relay [platform_intros]:
  assumes "db_inv cfg d"
  shows "db_inv cfg (outbox_relay_tick cfg now publish d)"
proof -
  let ?d = "outbox_relay_tick cfg now publish d"
  have dist: "distinct (map o_id (outbox_events d))" using assms by (simp add: db_inv_def wf_db_def)
  let ?f = "\<lambda>e. if e \<in> set (fetch_unpublished cfg 100 d) then relayed_row cfg now publish e else e"
  have rows: "outbox_events ?d = map ?f (outbox_events d)" by (rule relay_rows [OF dist])
  have f: "o_id (?f e) = o_id e" "announces cfg j (?f e) = announces cfg j e" for e j
    by (simp_all add: relayed_row_cases(1) relayed_row_announces)
  have "map o_id (outbox_events ?d) = map o_id (outbox_events d)"
    unfolding rows map_map by (rule map_cong) (simp_all only: comp_def f(1))
  moreover have "\<forall>e \<in> set (outbox_events ?d). o_id e < next_uuid d"
    unfolding rows using assms by (auto simp: db_inv_def wf_db_def relayed_row_cases(1))
  ultimately have "wf_db ?d" using assms relay_tick_frame [of cfg now publish d] by (simp add: db_inv_def wf_db_def)
  moreover have "announced cfg ?d"
    unfolding announced_def
  proof (intro ballI impI)
    fix j assume "j \<in> set (jobs ?d)" "terminal (j_status j)"
    then obtain e where "e \<in> set (outbox_events d)" "announces cfg j e"
      using assms relay_tick_frame [of cfg now publish d] by (auto simp: db_inv_def announced_def)
    moreover have "announces cfg j (?f e)" using \<open>announces cfg j e\<close> f(2) [where e = e and j = j] by (simp only:)
    moreover have "?f e \<in> set (outbox_events ?d)"
      unfolding rows set_map by (rule imageI) (rule \<open>e \<in> set (outbox_events d)\<close>)
    ultimately show "\<exists>e \<in> set (outbox_events ?d). announces cfg j e" by blast
  qed
  ultimately show ?thesis
    using assms relay_tick_frame [of cfg now publish d] by (simp add: db_inv_def stamped_def)
qed










end
